(* ===== verification/TT_Prelude.thy ===== *)
theory TT_Prelude
  imports Main "HOL-Library.Word" "HOL-Library.Monad_Syntax"
begin

unbundle bit_operations_syntax

section \<open>Prelude: machine integers, checked array access, block copies\<close>

text \<open>
  What every component theory shares: the names of the machine types, the checked array
  accesses that stand for C's subscripts, the loops that copy or fill a run of array
  elements, and the facts about them.

  A C subscript outside the array is undefined behaviour. Here it is the result
  \<open>None\<close>, so a lemma that an operation returns \<open>Some\<close> says that it stays inside its
  arrays. C's \<open>int\<close> and \<open>LONG\<close> are HOL integers where the code cannot overflow them,
  and words where the width matters.
\<close>

type_synonym u8 = "8 word"
type_synonym u16 = "16 word"
type_synonym u32 = "32 word"

named_theorems blit_simps \<open>facts about checked reads, writes and block moves\<close>

subsection \<open>Checked array access\<close>

definition in_arr :: "'a list \<Rightarrow> int \<Rightarrow> bool" where
  "in_arr xs i \<longleftrightarrow> 0 \<le> i \<and> i < int (length xs)"

definition rd :: "'a list \<Rightarrow> int \<Rightarrow> 'a option" where
  "rd xs i = (if in_arr xs i then Some (xs ! nat i) else None)"

definition wr :: "'a list \<Rightarrow> int \<Rightarrow> 'a \<Rightarrow> 'a list option" where
  "wr xs i x = (if in_arr xs i then Some (xs[nat i := x]) else None)"

lemma rd_in [blit_simps]: "in_arr xs i \<Longrightarrow> rd xs i = Some (xs ! nat i)"
  by (simp add: rd_def)

lemma wr_in [blit_simps]: "in_arr xs i \<Longrightarrow> wr xs i x = Some (xs[nat i := x])"
  by (simp add: wr_def)

lemma wr_SomeD: "wr xs i x = Some ys \<Longrightarrow> in_arr xs i \<and> ys = xs[nat i := x]"
  by (auto simp: wr_def split: if_splits)

lemma rd_SomeD: "rd xs i = Some x \<Longrightarrow> in_arr xs i \<and> x = xs ! nat i"
  by (auto simp: rd_def split: if_splits)

lemma wr_length: "wr xs i x = Some ys \<Longrightarrow> length ys = length xs"
  by (auto dest: wr_SomeD)

lemma in_arr_update [simp]: "in_arr (xs[k := x]) i = in_arr xs i"
  by (simp add: in_arr_def)

lemma in_arr_intro [intro]: "0 \<le> i \<Longrightarrow> i < int (length xs) \<Longrightarrow> in_arr xs i"
  by (simp add: in_arr_def)

subsection \<open>Lines of a ring\<close>

text \<open>Inside one period of a ring, two lines are the same only if they are equal.\<close>

lemma window_mod:
  fixes L D B N :: int
  assumes "B \<le> L" "L < B + N" "B \<le> D" "D < B + N"
  shows "(L - D) mod N = 0 \<longleftrightarrow> L = D"
proof
  assume "(L - D) mod N = 0"
  then have d: "N dvd L - D" by (simp add: dvd_eq_mod_eq_0)
  have "\<bar>L - D\<bar> < \<bar>N\<bar>" using assms by linarith
  then show "L = D" using d dvd_imp_le_int [of "L - D" N] by fastforce
qed simp

lemma mod_add_self_lt:
  fixes a N :: int
  assumes "0 < N"
  shows "(a + 1) mod N = (if a mod N + 1 = N then 0 else a mod N + 1)"
proof -
  have "(a + 1) mod N = (a mod N + 1) mod N" by (simp add: mod_add_left_eq)
  moreover have "0 \<le> a mod N" "a mod N < N" using assms by simp_all
  ultimately show ?thesis by (auto simp: mod_pos_pos_trivial)
qed

lemma mod_sub_one:
  fixes a N :: int
  assumes "0 < N"
  shows "(a - 1) mod N = (if a mod N = 0 then N - 1 else a mod N - 1)"
proof -
  have e: "(a - 1) mod N = (a mod N - 1) mod N" by (simp add: mod_diff_left_eq)
  have r: "0 \<le> a mod N" "a mod N < N" using assms by simp_all
  show ?thesis
  proof (cases "a mod N = 0")
    case True
    then show ?thesis using e assms by (simp add: zmod_minus1)
  next
    case False
    then have "0 \<le> a mod N - 1" "a mod N - 1 < N" using r by auto
    then show ?thesis using e False by (simp del: mod_diff_left_eq)
  qed
qed

subsection \<open>Copying a run of elements, forwards and backwards\<close>

text \<open>
  The loops \<open>for (i = 0; i < count; i++) *dest++ = *src++\<close> and its mirror image, cell by
  cell, over one array: an earlier iteration may overwrite what a later one reads.
\<close>

fun copy_fwd :: "'a list \<Rightarrow> int \<Rightarrow> int \<Rightarrow> nat \<Rightarrow> 'a list option" where
  "copy_fwd b d s 0 = Some b"
| "copy_fwd b d s (Suc n) =
     do { x \<leftarrow> rd b s; b' \<leftarrow> wr b d x; copy_fwd b' (d + 1) (s + 1) n }"

fun copy_bwd :: "'a list \<Rightarrow> int \<Rightarrow> int \<Rightarrow> nat \<Rightarrow> 'a list option" where
  "copy_bwd b d s 0 = Some b"
| "copy_bwd b d s (Suc n) =
     do { x \<leftarrow> rd b s; b' \<leftarrow> wr b d x; copy_bwd b' (d - 1) (s - 1) n }"

text \<open>The loop that writes a function of the old element into a run of elements.\<close>

fun update_run :: "('a \<Rightarrow> 'a) \<Rightarrow> 'a list \<Rightarrow> int \<Rightarrow> nat \<Rightarrow> 'a list option" where
  "update_run f b d 0 = Some b"
| "update_run f b d (Suc n) =
     do { x \<leftarrow> rd b d; b' \<leftarrow> wr b d (f x); update_run f b' (d + 1) n }"

text \<open>What the loops compute: a block move, and a run of updated elements.\<close>

definition blit :: "'a list \<Rightarrow> int \<Rightarrow> int \<Rightarrow> int \<Rightarrow> 'a list" where
  "blit b d s n =
     map (\<lambda>i. if d \<le> int i \<and> int i < d + n then b ! nat (int i - d + s) else b ! i)
       [0..<length b]"

definition updated :: "('a \<Rightarrow> 'a) \<Rightarrow> 'a list \<Rightarrow> int \<Rightarrow> int \<Rightarrow> 'a list" where
  "updated f b d n =
     map (\<lambda>i. if d \<le> int i \<and> int i < d + n then f (b ! i) else b ! i) [0..<length b]"

lemma length_blit [simp]: "length (blit b d s n) = length b"
  by (simp add: blit_def)

lemma length_updated [simp]: "length (updated f b d n) = length b"
  by (simp add: updated_def)

lemma in_arr_blit [simp]: "in_arr (blit b d s n) i = in_arr b i"
  by (simp add: in_arr_def)

lemma in_arr_updated [simp]: "in_arr (updated f b d n) i = in_arr b i"
  by (simp add: in_arr_def)

lemma nth_blit: "in_arr b i \<Longrightarrow>
  blit b d s n ! nat i = (if d \<le> i \<and> i < d + n then b ! nat (i - d + s) else b ! nat i)"
  by (simp add: blit_def in_arr_def nat_less_iff)

lemma nth_updated: "in_arr b i \<Longrightarrow>
  updated f b d n ! nat i = (if d \<le> i \<and> i < d + n then f (b ! nat i) else b ! nat i)"
  by (simp add: updated_def in_arr_def nat_less_iff)

lemma list_eq_pointwise:
  assumes "length xs = length ys"
    and "\<And>i. in_arr ys i \<Longrightarrow> xs ! nat i = ys ! nat i"
  shows "xs = ys"
proof (rule nth_equalityI)
  show "length xs = length ys" by (rule assms(1))
  fix i assume "i < length xs"
  then have "in_arr ys (int i)" using assms(1) by (simp add: in_arr_def)
  from assms(2) [OF this] show "xs ! i = ys ! i" by simp
qed

lemma nth_update_int: "in_arr b i \<Longrightarrow> in_arr b k \<Longrightarrow>
  b[nat i := x] ! nat k = (if k = i then x else b ! nat k)"
  by (auto simp: in_arr_def nth_list_update)

lemma blit_none [simp]: "n \<le> 0 \<Longrightarrow> blit b d s n = b"
  by (rule nth_equalityI) (auto simp: blit_def)

lemma updated_none [simp]: "n \<le> 0 \<Longrightarrow> updated f b d n = b"
  by (rule nth_equalityI) (auto simp: updated_def)

lemma copy_fwd_blit:
  assumes "0 \<le> s" "0 \<le> d" "s + int n \<le> int (length b)" "d + int n \<le> int (length b)"
    and "d \<le> s \<or> s + int n \<le> d"
  shows "copy_fwd b d s n = Some (blit b d s (int n))"
  using assms
proof (induction n arbitrary: b d s)
  case 0
  show ?case by simp
next
  case (Suc n)
  have rs: "in_arr b s" and rd: "in_arr b d" using Suc.prems by (auto simp: in_arr_def)
  define b1 where "b1 = b[nat d := b ! nat s]"
  have "copy_fwd b d s (Suc n) = copy_fwd b1 (d + 1) (s + 1) n"
    using rs rd by (simp add: rd_in wr_in b1_def)
  also have "\<dots> = Some (blit b1 (d + 1) (s + 1) (int n))"
    by (rule Suc.IH) (use Suc.prems in \<open>auto simp: b1_def\<close>)
  also have "blit b1 (d + 1) (s + 1) (int n) = blit b d s (int (Suc n))"
  proof (rule list_eq_pointwise)
    fix i assume "in_arr (blit b d s (int (Suc n))) i"
    then have i: "in_arr b i" and i1: "in_arr b1 i" by (simp_all add: b1_def)
    show "blit b1 (d + 1) (s + 1) (int n) ! nat i = blit b d s (int (Suc n)) ! nat i"
    proof (cases "d + 1 \<le> i \<and> i < d + 1 + int n")
      case True
      then have k: "in_arr b (i - d + s)" using Suc.prems by (auto simp: in_arr_def)
      have "i - d + s \<noteq> d" using Suc.prems(5) True by auto
      then have "b1 ! nat (i - d + s) = b ! nat (i - d + s)"
        using k rd by (simp add: b1_def nth_update_int)
      then show ?thesis using True i i1 by (simp add: nth_blit algebra_simps)
    next
      case False
      then show ?thesis using i i1 rd
        by (auto simp: nth_blit b1_def nth_update_int)
    qed
  qed (simp add: b1_def)
  finally show ?case .
qed

lemma copy_bwd_blit:
  assumes "0 \<le> s - int n + 1" "0 \<le> d - int n + 1" "s < int (length b)" "d < int (length b)"
    and "s \<le> d"
  shows "copy_bwd b d s n = Some (blit b (d - int n + 1) (s - int n + 1) (int n))"
  using assms
proof (induction n arbitrary: b d s)
  case 0
  show ?case by simp
next
  case (Suc n)
  have rs: "in_arr b s" and rd: "in_arr b d" using Suc.prems by (auto simp: in_arr_def)
  define b1 where "b1 = b[nat d := b ! nat s]"
  have "copy_bwd b d s (Suc n) = copy_bwd b1 (d - 1) (s - 1) n"
    using rs rd by (simp add: rd_in wr_in b1_def)
  also have "\<dots> = Some (blit b1 (d - 1 - int n + 1) (s - 1 - int n + 1) (int n))"
    by (rule Suc.IH) (use Suc.prems in \<open>auto simp: b1_def\<close>)
  also have "blit b1 (d - 1 - int n + 1) (s - 1 - int n + 1) (int n)
      = blit b (d - int (Suc n) + 1) (s - int (Suc n) + 1) (int (Suc n))"
  proof (rule list_eq_pointwise)
    fix i assume "in_arr (blit b (d - int (Suc n) + 1) (s - int (Suc n) + 1) (int (Suc n))) i"
    then have i: "in_arr b i" and i1: "in_arr b1 i" by (simp_all add: b1_def)
    show "blit b1 (d - 1 - int n + 1) (s - 1 - int n + 1) (int n) ! nat i
        = blit b (d - int (Suc n) + 1) (s - int (Suc n) + 1) (int (Suc n)) ! nat i"
    proof (cases "d - int n \<le> i \<and> i < d")
      case True
      then have k: "in_arr b (i - d + s)" using Suc.prems by (auto simp: in_arr_def)
      have "i - d + s \<noteq> d" using Suc.prems(5) True by auto
      then have "b1 ! nat (i - d + s) = b ! nat (i - d + s)"
        using k rd by (simp add: b1_def nth_update_int)
      then show ?thesis using True i i1 by (simp add: nth_blit algebra_simps)
    next
      case False
      then show ?thesis using i i1 rd
        by (auto simp: nth_blit b1_def nth_update_int algebra_simps)
    qed
  qed (simp add: b1_def)
  finally show ?case .
qed

lemma update_run_updated:
  assumes "0 \<le> d" "d + int n \<le> int (length b)"
  shows "update_run f b d n = Some (updated f b d (int n))"
  using assms
proof (induction n arbitrary: b d)
  case 0
  show ?case by simp
next
  case (Suc n)
  have rd: "in_arr b d" using Suc.prems by (auto simp: in_arr_def)
  define b1 where "b1 = b[nat d := f (b ! nat d)]"
  have "update_run f b d (Suc n) = update_run f b1 (d + 1) n"
    using rd by (simp add: rd_in wr_in b1_def)
  also have "\<dots> = Some (updated f b1 (d + 1) (int n))"
    by (rule Suc.IH) (use Suc.prems in \<open>auto simp: b1_def\<close>)
  also have "updated f b1 (d + 1) (int n) = updated f b d (int (Suc n))"
  proof (rule list_eq_pointwise)
    fix i assume "in_arr (updated f b d (int (Suc n))) i"
    then have i: "in_arr b i" and i1: "in_arr b1 i" by (simp_all add: b1_def)
    show "updated f b1 (d + 1) (int n) ! nat i = updated f b d (int (Suc n)) ! nat i"
      using i i1 rd by (auto simp: nth_updated b1_def nth_update_int)
  qed (simp add: b1_def)
  finally show ?case .
qed

lemma copy_fwd_length: "copy_fwd b d s n = Some b' \<Longrightarrow> length b' = length b"
  by (induction n arbitrary: b d s) (auto simp: bind_eq_Some_conv dest: wr_length)

lemma copy_bwd_length: "copy_bwd b d s n = Some b' \<Longrightarrow> length b' = length b"
  by (induction n arbitrary: b d s) (auto simp: bind_eq_Some_conv dest: wr_length)

lemma update_run_length: "update_run f b d n = Some b' \<Longrightarrow> length b' = length b"
  by (induction n arbitrary: b d) (auto simp: bind_eq_Some_conv dest: wr_length)

lemmas run_lengths = wr_length copy_fwd_length copy_bwd_length update_run_length

text \<open>The same loop with source and destination in different arrays.\<close>

fun copy_across :: "'a list \<Rightarrow> int \<Rightarrow> 'a list \<Rightarrow> int \<Rightarrow> nat \<Rightarrow> 'a list option" where
  "copy_across b d t p 0 = Some b"
| "copy_across b d t p (Suc n) =
     do { x \<leftarrow> rd t p; b \<leftarrow> wr b d x; copy_across b (d + 1) t (p + 1) n }"

lemma copy_across_eq:
  assumes "0 \<le> d" "d + int n \<le> int (length b)" "0 \<le> p" "p + int n \<le> int (length t)"
  shows "\<exists>b'. copy_across b d t p n = Some b' \<and> length b' = length b \<and>
    (\<forall>i. in_arr b i \<longrightarrow>
      b' ! nat i = (if d \<le> i \<and> i < d + int n then t ! nat (i - d + p) else b ! nat i))"
  using assms
proof (induction n arbitrary: b d p)
  case 0
  then show ?case by auto
next
  case (Suc n)
  let ?b = "b[nat d := t ! nat p]"
  have r: "rd t p = Some (t ! nat p)" "wr b d (t ! nat p) = Some ?b" and d: "in_arr b d"
    using Suc.prems by (simp_all add: rd_def wr_def in_arr_def)
  obtain b' where b': "copy_across ?b (d + 1) t (p + 1) n = Some b'" "length b' = length b"
    and n: "\<And>i. in_arr b i \<Longrightarrow> b' ! nat i =
      (if d + 1 \<le> i \<and> i < d + 1 + int n then t ! nat (i - (d + 1) + (p + 1)) else ?b ! nat i)"
    using Suc.IH [of "d + 1" ?b "p + 1"] Suc.prems by auto
  have "b' ! nat i = (if d \<le> i \<and> i < d + int (Suc n) then t ! nat (i - d + p) else b ! nat i)"
    if i: "in_arr b i" for i
  proof -
    have "i - (d + 1) + (p + 1) = i - d + p" by simp
    then show ?thesis unfolding n [OF i] nth_update_int [OF d i] by (simp only:) auto
  qed
  then show ?case using r b' by simp
qed

end
