(* ===== verification/CharCell.thy ===== *)
theory CharCell
  imports TT_Prelude
begin

section \<open>Screen cells (teraterm/teraterm/buffer.c)\<close>

text \<open>
  \<open>buff_char_t\<close> and the functions that fill, extend, copy and test one cell, then the
  three array functions \<open>memcpyW\<close>, \<open>memsetW\<close> and \<open>memmoveW\<close> every screen operation is
  made of.

  A cell owns its two combination buffers (it duplicates them when it is copied, and frees
  them before it is overwritten), so they are lists inside the cell: the list is the filled
  part, its length is \<open>CombinationCharCount\<close>, and the allocated size is a field of its own.
  \<open>UTF32ToMBCP\<close> for a code page rests on conversion tables and on the Windows API
  \<open>WideCharToMultiByte\<close>; it is the parameter \<open>mbcp\<close> of the model.
\<close>

record buff_char =
  u32 :: u32
  u32_last :: u32
  WidthProperty :: char
  cell :: u8
  Padding :: bool
  Emoji :: bool
  CombinationCharSize16 :: nat
  CombinationCharSize32 :: nat
  CombinationChars16 :: "u16 list"
  CombinationChars32 :: "u32 list"
  wc2 :: "u16 \<times> u16"
  fg :: u8
  bg :: u8
  attr :: u8
  attr2 :: u8
  ansi_char :: u16

record conv_env =
  CodePage :: int
  mbcp :: "u32 \<Rightarrow> u8 list"

text \<open>Attribute bits (teraterm/teraterm/buffer.h).\<close>

definition AttrDefault :: u8 where "AttrDefault = 0"
definition AttrDefaultFG :: u8 where "AttrDefaultFG = 0"
definition AttrDefaultBG :: u8 where "AttrDefaultBG = 0"
definition AttrBold :: u8 where "AttrBold = 1"
definition AttrUnder :: u8 where "AttrUnder = 2"
definition AttrSpecial :: u8 where "AttrSpecial = 4"
definition AttrBlink :: u8 where "AttrBlink = 8"
definition AttrReverse :: u8 where "AttrReverse = 0x10"
definition AttrLineContinued :: u8 where "AttrLineContinued = 0x20"
definition AttrURL :: u8 where "AttrURL = 0x40"
definition AttrKanji :: u8 where "AttrKanji = 0x80"
definition Attr2Fore :: u8 where "Attr2Fore = 1"
definition Attr2Back :: u8 where "Attr2Back = 2"
definition Attr2Protect :: u8 where "Attr2Protect = 4"
definition Attr2ColorMask :: u8 where "Attr2ColorMask = Attr2Fore OR Attr2Back"
definition AttrSgrMask :: u8 where
  "AttrSgrMask = AttrBold OR AttrUnder OR AttrBlink OR AttrReverse"

record TCharAttr =
  Attr :: u8
  Attr2 :: u8
  AttrEx :: u16
  Fore :: u8
  Back :: u8

text \<open>One code point in at most two UTF-16 units; no unit when it is out of range.\<close>

definition UTF32ToUTF16 :: "u32 \<Rightarrow> u16 list" where
  "UTF32ToUTF16 c =
     (if unat c < 0x10000 then [of_nat (unat c)]
      else if unat c \<le> 0x10ffff
      then [of_nat ((unat c - 0x10000) div 0x400) + 0xd800,
            of_nat ((unat c - 0x10000) mod 0x400) + 0xdc00]
      else [])"

definition FreeCombinationBuf :: "buff_char \<Rightarrow> buff_char" where
  "FreeCombinationBuf b =
     b\<lparr>CombinationChars16 := [], CombinationCharSize16 := 0,
       CombinationChars32 := [], CombinationCharSize32 := 0\<rparr>"

text \<open>The destination gets every field of the source and its own copy of the buffers.\<close>

definition CopyCombinationBuf :: "buff_char \<Rightarrow> buff_char \<Rightarrow> buff_char" where
  "CopyCombinationBuf dest src = src"

definition BuffSetChar2 ::
  "conv_env \<Rightarrow> buff_char \<Rightarrow> u32 \<Rightarrow> char \<Rightarrow> bool \<Rightarrow> bool \<Rightarrow> buff_char" where
  "BuffSetChar2 cv buff c property half_width emoji =
     (FreeCombinationBuf buff)
       \<lparr>WidthProperty := property,
        cell := (if half_width then 1 else 2),
        u32 := c, u32_last := c, Padding := False, Emoji := emoji,
        fg := AttrDefaultFG, bg := AttrDefaultBG,
        wc2 := (case UTF32ToUTF16 c of [w] \<Rightarrow> (w, 0) | [w, w'] \<Rightarrow> (w, w') | _ \<Rightarrow> (0, 0)),
        ansi_char :=
          (if c < 0x80 then ucast c
           else if c = 0x203e \<and> CodePage cv = 932 then 0x7e
           else (case mbcp cv c of
                   [a] \<Rightarrow> ucast a
                 | [a, b] \<Rightarrow> ucast b OR push_bit 8 (ucast a)
                 | _ \<Rightarrow> 0x3f))\<rparr>"

definition BuffSetChar :: "conv_env \<Rightarrow> buff_char \<Rightarrow> u32 \<Rightarrow> char \<Rightarrow> buff_char" where
  "BuffSetChar cv buff c property = BuffSetChar2 cv buff c property True False"

definition BuffSetChar4 ::
  "conv_env \<Rightarrow> buff_char \<Rightarrow> u32 \<Rightarrow> u8 \<Rightarrow> u8 \<Rightarrow> u8 \<Rightarrow> u8 \<Rightarrow> char \<Rightarrow> buff_char" where
  "BuffSetChar4 cv buff c f b a a2 property =
     (BuffSetChar2 cv buff c property True False)\<lparr>fg := f, bg := b, attr := a, attr2 := a2\<rparr>"

definition MAX_CHAR_SIZE :: nat where "MAX_CHAR_SIZE = 100"

text \<open>The growth rule of both combination buffers: 5, then twice the size, at most 100.\<close>

definition grow_size :: "nat \<Rightarrow> nat \<Rightarrow> nat" where
  "grow_size sz count =
     (if sz < count + 2
      then (let n = (if sz = 0 then 5 else sz * 2)
            in if n > MAX_CHAR_SIZE then MAX_CHAR_SIZE else n)
      else sz)"

definition BuffAddChar :: "buff_char \<Rightarrow> u32 \<Rightarrow> buff_char" where
  "BuffAddChar p0 c =
     (let p1 = p0\<lparr>CombinationCharSize16 :=
                    grow_size (CombinationCharSize16 p0) (length (CombinationChars16 p0)),
                  CombinationCharSize32 :=
                    grow_size (CombinationCharSize32 p0) (length (CombinationChars32 p0))\<rparr>;
          p2 = (if length (CombinationChars32 p1) < CombinationCharSize32 p1
                then p1\<lparr>u32_last := c, CombinationChars32 := CombinationChars32 p1 @ [c]\<rparr>
                else p1);
          u16_str = UTF32ToUTF16 c
      in if length (CombinationChars16 p2) < CombinationCharSize16 p2 \<and>
            length (CombinationChars16 p2) + length u16_str \<le> CombinationCharSize16 p2
         then p2\<lparr>CombinationChars16 := CombinationChars16 p2 @ u16_str\<rparr>
         else p2)"

definition IsBuffPadding :: "buff_char \<Rightarrow> bool" where
  "IsBuffPadding b \<longleftrightarrow> Padding b \<or> u32 b = 0"

definition IsBuffFullWidth :: "buff_char \<Rightarrow> bool" where
  "IsBuffFullWidth b \<longleftrightarrow> cell b \<noteq> 1"

abbreviation has_bit :: "u8 \<Rightarrow> u8 \<Rightarrow> bool" where
  "has_bit a m \<equiv> a AND m \<noteq> 0"

subsection \<open>Arrays of cells\<close>

text \<open>
  Counts arrive as \<open>int\<close> and are converted to \<open>size_t\<close>, so a negative count is larger than
  any array: the loop leaves it, hence \<open>None\<close>.
\<close>

definition memcpyW :: "buff_char list \<Rightarrow> int \<Rightarrow> int \<Rightarrow> int \<Rightarrow> buff_char list option" where
  "memcpyW b dest src count =
     (if dest = src \<or> count = 0 then Some b
      else if count < 0 then None
      else copy_fwd b dest src (nat count))"

definition memmoveW :: "buff_char list \<Rightarrow> int \<Rightarrow> int \<Rightarrow> int \<Rightarrow> buff_char list option" where
  "memmoveW b dest src count =
     (if dest = src \<or> count = 0 then Some b
      else if count < 0 then None
      else if dest < src then memcpyW b dest src count
      else copy_bwd b (dest + (count - 1)) (src + (count - 1)) (nat count))"

definition set_cell ::
  "conv_env \<Rightarrow> u32 \<Rightarrow> u8 \<Rightarrow> u8 \<Rightarrow> u8 \<Rightarrow> u8 \<Rightarrow> buff_char \<Rightarrow> buff_char" where
  "set_cell cv ch f b a a2 c =
     (BuffSetChar cv c ch CHR ''H'')\<lparr>fg := f, bg := b, attr := a, attr2 := a2\<rparr>"

definition memsetW ::
  "conv_env \<Rightarrow> buff_char list \<Rightarrow> int \<Rightarrow> u32 \<Rightarrow> u8 \<Rightarrow> u8 \<Rightarrow> u8 \<Rightarrow> u8 \<Rightarrow> int
    \<Rightarrow> buff_char list option" where
  "memsetW cv buf dest ch f b a a2 count =
     (if count < 0 then None else update_run (set_cell cv ch f b a a2) buf dest (nat count))"

subsection \<open>Facts about cells\<close>

text \<open>A cell that has been set no longer depends on what was there.\<close>

lemma set_cell_const: "set_cell cv ch f b a a2 c = set_cell cv ch f b a a2 c'"
  by (simp add: set_cell_def BuffSetChar_def BuffSetChar2_def FreeCombinationBuf_def)

definition blank_cell :: "conv_env \<Rightarrow> u32 \<Rightarrow> u8 \<Rightarrow> u8 \<Rightarrow> u8 \<Rightarrow> u8 \<Rightarrow> buff_char" where
  "blank_cell cv ch f b a a2 =
     \<lparr>u32 = ch, u32_last = ch, WidthProperty = CHR ''H'', cell = 1, Padding = False,
      Emoji = False, CombinationCharSize16 = 0, CombinationCharSize32 = 0,
      CombinationChars16 = [], CombinationChars32 = [],
      wc2 = (case UTF32ToUTF16 ch of [w] \<Rightarrow> (w, 0) | [w, w'] \<Rightarrow> (w, w') | _ \<Rightarrow> (0, 0)),
      fg = f, bg = b, attr = a, attr2 = a2,
      ansi_char =
        (if ch < 0x80 then ucast ch
         else if ch = 0x203e \<and> CodePage cv = 932 then 0x7e
         else (case mbcp cv ch of
                 [x] \<Rightarrow> ucast x
               | [x, y] \<Rightarrow> ucast y OR push_bit 8 (ucast x)
               | _ \<Rightarrow> 0x3f))\<rparr>"

lemma set_cell_blank: "set_cell cv ch f b a a2 c = blank_cell cv ch f b a a2"
  by (simp add: set_cell_def blank_cell_def BuffSetChar_def BuffSetChar2_def
      FreeCombinationBuf_def)

lemma IsBuffPadding_blank [simp]:
  "IsBuffPadding (blank_cell cv ch f b a a2) \<longleftrightarrow> ch = 0"
  by (simp add: IsBuffPadding_def blank_cell_def)

lemma IsBuffFullWidth_blank [simp]: "\<not> IsBuffFullWidth (blank_cell cv ch f b a a2)"
  by (simp add: IsBuffFullWidth_def blank_cell_def)

text \<open>
  The combination buffers never overflow and never exceed the maximal size. The 16-bit
  buffer holds what was appended in UTF-16.
\<close>

definition comb_ok :: "buff_char \<Rightarrow> bool" where
  "comb_ok p \<longleftrightarrow>
     length (CombinationChars16 p) \<le> CombinationCharSize16 p \<and>
     length (CombinationChars32 p) \<le> CombinationCharSize32 p \<and>
     CombinationCharSize16 p \<le> MAX_CHAR_SIZE \<and> CombinationCharSize32 p \<le> MAX_CHAR_SIZE"

lemma grow_size_ge: "sz \<le> MAX_CHAR_SIZE \<Longrightarrow> sz \<le> grow_size sz count"
  by (simp add: grow_size_def MAX_CHAR_SIZE_def Let_def)

lemma grow_size_le: "sz \<le> MAX_CHAR_SIZE \<Longrightarrow> grow_size sz count \<le> MAX_CHAR_SIZE"
  by (auto simp: grow_size_def MAX_CHAR_SIZE_def Let_def)

lemma grow_size_room:
  "count \<le> sz \<Longrightarrow> sz < MAX_CHAR_SIZE \<Longrightarrow> count < grow_size sz count"
  by (auto simp: grow_size_def MAX_CHAR_SIZE_def Let_def)

lemma comb_ok_BuffSetChar2: "comb_ok (BuffSetChar2 cv p c w h e)"
  by (simp add: comb_ok_def BuffSetChar2_def FreeCombinationBuf_def)

lemma comb_ok_BuffAddChar:
  assumes "comb_ok p"
  shows "comb_ok (BuffAddChar p c)"
proof -
  note g = grow_size_ge [of "CombinationCharSize16 p" "length (CombinationChars16 p)"]
    grow_size_ge [of "CombinationCharSize32 p" "length (CombinationChars32 p)"]
    grow_size_le [of "CombinationCharSize16 p" "length (CombinationChars16 p)"]
    grow_size_le [of "CombinationCharSize32 p" "length (CombinationChars32 p)"]
  show ?thesis
    using assms g by (simp add: comb_ok_def BuffAddChar_def Let_def Suc_le_eq)
qed

lemma BuffAddChar_appends:
  assumes "comb_ok p" "CombinationCharSize32 p < MAX_CHAR_SIZE"
  shows "CombinationChars32 (BuffAddChar p c) = CombinationChars32 p @ [c] \<and>
    u32_last (BuffAddChar p c) = c"
  using assms grow_size_room [of "length (CombinationChars32 p)" "CombinationCharSize32 p"]
  by (simp add: comb_ok_def BuffAddChar_def Let_def)

subsection \<open>Facts about the array functions\<close>

text \<open>
  \<open>memmoveW\<close> moves a block whatever the overlap; \<open>memcpyW\<close> does when the ranges are
  disjoint or the destination comes first.
\<close>

lemma memcpyW_blit [blit_simps]:
  assumes "0 \<le> s" "0 \<le> d" "0 \<le> n" "s + n \<le> int (length b)" "d + n \<le> int (length b)"
    and "d \<le> s \<or> s + n \<le> d"
  shows "memcpyW b d s n = Some (blit b d s n)"
proof (cases "d = s \<or> n = 0")
  case True
  then have "blit b d s n = b"
    by (cases "n = 0") (auto intro!: list_eq_pointwise simp: nth_blit)
  with True show ?thesis by (auto simp: memcpyW_def)
next
  case False
  then show ?thesis
    using assms copy_fwd_blit [of s d "nat n" b] by (auto simp: memcpyW_def)
qed

lemma memmoveW_blit [blit_simps]:
  assumes "0 \<le> s" "0 \<le> d" "0 \<le> n" "s + n \<le> int (length b)" "d + n \<le> int (length b)"
  shows "memmoveW b d s n = Some (blit b d s n)"
proof (cases "d = s \<or> n = 0 \<or> d < s")
  case True
  then have "memmoveW b d s n = memcpyW b d s n"
    using assms(3) by (auto simp: memmoveW_def memcpyW_def)
  moreover have "memcpyW b d s n = Some (blit b d s n)" if "n \<noteq> 0"
    by (rule memcpyW_blit) (use True assms that in auto)
  ultimately show ?thesis by (cases "n = 0") (auto simp: memcpyW_def)
next
  case False
  then show ?thesis
    using assms copy_bwd_blit [of "s + (n - 1)" "nat n" "d + (n - 1)" b]
    by (auto simp: memmoveW_def)
qed

lemma memsetW_updated [blit_simps]:
  assumes "0 \<le> d" "0 \<le> n" "d + n \<le> int (length buf)"
  shows "memsetW cv buf d ch f b a a2 n =
    Some (updated (\<lambda>_. blank_cell cv ch f b a a2) buf d n)"
  using assms update_run_updated [of d "nat n" buf "set_cell cv ch f b a a2"]
  by (simp add: memsetW_def set_cell_blank [abs_def])

lemma memcpyW_length: "memcpyW b d s n = Some b' \<Longrightarrow> length b' = length b"
  by (auto simp: memcpyW_def dest: copy_fwd_length split: if_splits)

lemma memmoveW_length: "memmoveW b d s n = Some b' \<Longrightarrow> length b' = length b"
  by (auto simp: memmoveW_def dest: copy_bwd_length memcpyW_length split: if_splits)

lemma memsetW_length: "memsetW cv b d ch f g a a2 n = Some b' \<Longrightarrow> length b' = length b"
  by (auto simp: memsetW_def dest: update_run_length split: if_splits)

lemmas array_lengths = run_lengths memcpyW_length memmoveW_length memsetW_length

subsection \<open>UTF-16 round trip\<close>

text \<open>Decoding the units that \<open>UTF32ToUTF16\<close> writes gives the code point back.\<close>

definition utf16_decode :: "u16 list \<Rightarrow> nat option" where
  "utf16_decode ws =
     (case ws of
        [w] \<Rightarrow> Some (unat w)
      | [h, l] \<Rightarrow> Some ((unat h - 0xd800) * 0x400 + (unat l - 0xdc00) + 0x10000)
      | _ \<Rightarrow> None)"

lemma unat_surrogate:
  "a < 0x400 \<Longrightarrow> unat (of_nat a + 0xd800 :: u16) = a + 0xd800"
  "a < 0x400 \<Longrightarrow> unat (of_nat a + 0xdc00 :: u16) = a + 0xdc00"
  by (simp_all add: unat_word_ariths unat_of_nat)

lemma UTF32ToUTF16_decode:
  assumes "unat c \<le> 0x10ffff"
  shows "utf16_decode (UTF32ToUTF16 c) = Some (unat c)"
proof (cases "unat c < 0x10000")
  case True
  then show ?thesis by (simp add: UTF32ToUTF16_def utf16_decode_def unsigned_ucast_eq take_bit_nat_eq_self)
next
  case False
  have h: "(unat c - 0x10000) div 0x400 < 0x400" using assms by simp
  have l: "(unat c - 0x10000) mod 0x400 < 0x400" by simp
  show ?thesis
    using False assms unat_surrogate(1) [OF h] unat_surrogate(2) [OF l]
    by (simp add: UTF32ToUTF16_def utf16_decode_def)
qed

end
