(* ===== verification/ScreenBuffer.thy ===== *)
theory ScreenBuffer
  imports CharCell
begin

section \<open>The screen buffer: state, ring addressing, line loops (teraterm/teraterm/buffer.c)\<close>

text \<open>
  The terminal's lines, scroll-back included, live in one array of cells used as a ring of
  \<open>NumOfLinesInBuff\<close> lines of \<open>NumOfColumns\<close> cells; line \<open>0\<close> starts at line
  \<open>BuffStartAbs\<close> of the array, the page on the screen starts at line \<open>PageStart\<close>. This
  theory holds the file's global variables as a record, the pointer arithmetic on the ring,
  the view port variables of vtdisp.c with the functions that move them, the cursor
  movement, and the loops over lines that the screen operations share, with a locale that
  states what such loops do on any store of lines.
\<close>

subsection \<open>State\<close>

text \<open>
  The settings (\<open>TTTSet\<close>) the screen operations read. The fifteen ISO 8859 sets and the
  single-byte code pages carry their number.
\<close>

datatype id_kanji = IdUTF8 | IdISO8859 nat | IdSJIS | IdEUC | IdJIS | IdKoreanCP949
  | IdCnGB2312 | IdCnBig5 | IdDebug | IdCP nat | IdKOI8_NEW

record tset =
  KanjiCode :: id_kanji
  EnableContinuedLineCopy :: bool
  VTCompatTab :: bool
  TabStopFlag :: u16
  TermFlag :: u32
  ScrollBuffMax :: int
  ScrollBuffSize :: int
  EnableScrollBuff :: int
  TerminalWidth :: int
  TerminalHeight :: int
  AutoScrollOnlyInBottomLine :: bool
  ScrollThreshold :: int
  JIS7Katakana :: int
  FallbackToCP932 :: bool
  ISO2022Flag :: u32

text \<open>The view port: the variables of vtdisp.c that the buffer code reads or moves.\<close>

record view =
  WinOrgX :: int
  WinOrgY :: int
  NewOrgX :: int
  NewOrgY :: int
  WinWidth :: int
  WinHeight :: int
  dScroll :: int
  SRegionTop :: int
  SRegionBottom :: int
  ScrollCount :: int

record screen =
  CodeBuffW :: "buff_char list"
  LinePtr :: int
  BufferSize :: int
  NumOfLinesInBuff :: int
  BuffStartAbs :: int
  BuffEndAbs :: int
  BuffEnd :: int
  PageStart :: int
  NumOfColumns :: int
  NumOfLines :: int
  StatusLine :: int
  CursorX :: int
  CursorY :: int
  CursorTop :: int
  CursorBottom :: int
  CursorLeftM :: int
  CursorRightM :: int
  Wrap :: bool
  TabStops :: "int list"
  NTabStops :: int
  StrChangeStart :: int
  StrChangeCount :: int
  CurCharAttr :: TCharAttr
  SaveBuff :: "buff_char list option"
  SaveBuffX :: int
  SaveBuffY :: int
  Selected :: bool
  SelectStart :: "int \<times> int"
  SelectEnd :: "int \<times> int"
  BuffLock :: int
  conv :: conv_env
  vw :: view
  ts :: tset

definition isCursorOnStatusLine :: "screen \<Rightarrow> bool" where
  "isCursorOnStatusLine s \<longleftrightarrow> StatusLine s \<noteq> 0 \<and> CursorY s = NumOfLines s - 1"

subsection \<open>Line pointers\<close>

text \<open>\<open>while (Ptr >= BufferSize) Ptr -= BufferSize\<close>; with an empty buffer it never ends.\<close>

function wrap_down :: "int \<Rightarrow> int \<Rightarrow> int option" where
  "wrap_down p n = (if p < n then Some p else if n \<le> 0 then None else wrap_down (p - n) n)"
  by pat_completeness auto
termination
  by (relation "measure (\<lambda>(p, n). nat p)") auto

declare wrap_down.simps [simp del]

definition GetLinePtr :: "int \<Rightarrow> screen \<Rightarrow> int option" where
  "GetLinePtr Line s = wrap_down ((BuffStartAbs s + Line) * NumOfColumns s) (BufferSize s)"

definition NextLinePtr :: "screen \<Rightarrow> int \<Rightarrow> int" where
  "NextLinePtr s Ptr =
     (let p = Ptr + NumOfColumns s in if p \<ge> BufferSize s then p - BufferSize s else p)"

definition PrevLinePtr :: "screen \<Rightarrow> int \<Rightarrow> int" where
  "PrevLinePtr s Ptr =
     (let p = Ptr - NumOfColumns s in if p < 0 then p + BufferSize s else p)"

definition NewLine :: "int \<Rightarrow> screen \<Rightarrow> screen option" where
  "NewLine Line s = do { p \<leftarrow> GetLinePtr Line s; Some (s\<lparr>LinePtr := p\<rparr>) }"

text \<open>The sign and size of the distance between two points, in cells.\<close>

definition ComparePoint :: "screen \<Rightarrow> int \<times> int \<Rightarrow> int \<times> int \<Rightarrow> int" where
  "ComparePoint s p1 p2 =
     (if snd p1 < snd p2
      then - ((snd p2 - snd p1 - 1) * NumOfColumns s + (NumOfColumns s - fst p1) + fst p2)
      else if snd p1 > snd p2
      then (snd p1 - snd p2 - 1) * NumOfColumns s + fst p1 + (NumOfColumns s - fst p2)
      else fst p1 - fst p2)"

definition GetPosFromPtr :: "int \<Rightarrow> screen \<Rightarrow> int \<times> int" where
  "GetPosFromPtr index s =
     (let x = index mod NumOfColumns s; y = index div NumOfColumns s
      in (x, if y \<ge> BuffStartAbs s then y - BuffStartAbs s
             else y - BuffStartAbs s + NumOfLinesInBuff s))"

definition LockBuffer :: "screen \<Rightarrow> screen option" where
  "LockBuffer s =
     (let s = s\<lparr>BuffLock := BuffLock s + 1\<rparr>
      in if BuffLock s > 1 then Some s else NewLine (PageStart s + CursorY s) s)"

definition UnlockBuffer :: "screen \<Rightarrow> screen" where
  "UnlockBuffer s = (if BuffLock s = 0 then s else s\<lparr>BuffLock := BuffLock s - 1\<rparr>)"

subsection \<open>Cells of the screen's array\<close>

definition memcpyS :: "int \<Rightarrow> int \<Rightarrow> int \<Rightarrow> screen \<Rightarrow> screen option" where
  "memcpyS d p n s = do { b \<leftarrow> memcpyW (CodeBuffW s) d p n; Some (s\<lparr>CodeBuffW := b\<rparr>) }"

definition memmoveS :: "int \<Rightarrow> int \<Rightarrow> int \<Rightarrow> screen \<Rightarrow> screen option" where
  "memmoveS d p n s = do { b \<leftarrow> memmoveW (CodeBuffW s) d p n; Some (s\<lparr>CodeBuffW := b\<rparr>) }"

definition memsetS ::
  "int \<Rightarrow> u32 \<Rightarrow> u8 \<Rightarrow> u8 \<Rightarrow> u8 \<Rightarrow> u8 \<Rightarrow> int \<Rightarrow> screen \<Rightarrow> screen option" where
  "memsetS d ch f b a a2 n s =
     do { buf \<leftarrow> memsetW (conv s) (CodeBuffW s) d ch f b a a2 n; Some (s\<lparr>CodeBuffW := buf\<rparr>) }"

text \<open>The fill every erasing operation uses: spaces in the current colours.\<close>

definition eraseS :: "int \<Rightarrow> int \<Rightarrow> screen \<Rightarrow> screen option" where
  "eraseS d n s =
     memsetS d 0x20 (Fore (CurCharAttr s)) (Back (CurCharAttr s)) AttrDefault
       (Attr2 (CurCharAttr s) AND Attr2ColorMask) n s"

definition erased :: "screen \<Rightarrow> buff_char" where
  "erased s = blank_cell (conv s) 0x20 (Fore (CurCharAttr s)) (Back (CurCharAttr s)) AttrDefault
     (Attr2 (CurCharAttr s) AND Attr2ColorMask)"

definition cell_get :: "int \<Rightarrow> screen \<Rightarrow> buff_char option" where
  "cell_get i s = rd (CodeBuffW s) i"

definition cell_upd :: "(buff_char \<Rightarrow> buff_char) \<Rightarrow> int \<Rightarrow> screen \<Rightarrow> screen option" where
  "cell_upd f i s =
     do { c \<leftarrow> rd (CodeBuffW s) i; b \<leftarrow> wr (CodeBuffW s) i (f c); Some (s\<lparr>CodeBuffW := b\<rparr>) }"

definition clear_bits :: "u8 \<Rightarrow> buff_char \<Rightarrow> buff_char" where
  "clear_bits m c = c\<lparr>attr := attr c AND NOT m\<rparr>"

text \<open>\<open>BuffSetChar(&CodeBuffW[i], u32, 'H')\<close>\<close>

definition setc :: "u32 \<Rightarrow> int \<Rightarrow> screen \<Rightarrow> screen option" where
  "setc ch i s = cell_upd (\<lambda>c. BuffSetChar (conv s) c ch CHR ''H'') i s"

subsection \<open>View port (teraterm/teraterm/vtdisp.c)\<close>

text \<open>
  The window's drawing calls have no effect on the variables modelled here and are left
  out; what follows is how the origin of the view port and the pending scroll move.
\<close>

definition DispScrollToCursor :: "int \<Rightarrow> int \<Rightarrow> screen \<Rightarrow> screen" where
  "DispScrollToCursor CurX CurY s =
     (let v = vw s;
          v1 = (if CurX < NewOrgX v then v\<lparr>NewOrgX := CurX\<rparr>
                else if CurX \<ge> NewOrgX v + WinWidth v then v\<lparr>NewOrgX := CurX + 1 - WinWidth v\<rparr>
                else v);
          v2 = (if CurY < NewOrgY v1 then v1\<lparr>NewOrgY := CurY\<rparr>
                else if CurY \<ge> NewOrgY v1 + WinHeight v1
                then v1\<lparr>NewOrgY := CurY + 1 - WinHeight v1\<rparr>
                else v1)
      in s\<lparr>vw := v2\<rparr>)"

definition DispUpdateScroll :: "screen \<Rightarrow> screen" where
  "DispUpdateScroll s =
     (let v = vw s;
          x = (if NewOrgX v < 0 then 0 else NewOrgX v);
          x = (if x > NumOfColumns s - WinWidth v then NumOfColumns s - WinWidth v else x);
          y = (if NewOrgY v < - PageStart s then - PageStart s else NewOrgY v);
          y = (if y > BuffEnd s - WinHeight v - PageStart s
               then BuffEnd s - WinHeight v - PageStart s else y)
      in s\<lparr>vw := v\<lparr>ScrollCount := 0, dScroll := 0, NewOrgX := x, NewOrgY := y,
                    WinOrgX := x, WinOrgY := y\<rparr>\<rparr>)"

definition DispCountScroll :: "int \<Rightarrow> screen \<Rightarrow> screen" where
  "DispCountScroll n s =
     (let s = s\<lparr>vw := (vw s)\<lparr>ScrollCount := ScrollCount (vw s) + n\<rparr>\<rparr>
      in if ScrollCount (vw s) \<ge> ScrollThreshold (ts s) then DispUpdateScroll s else s)"

definition DispScrollNLines :: "int \<Rightarrow> int \<Rightarrow> int \<Rightarrow> screen \<Rightarrow> screen" where
  "DispScrollNLines Top Bottom Direction s =
     (let s = (if (dScroll (vw s) * Direction < 0 \<or> dScroll (vw s) * Direction > 0) \<and>
                  (SRegionTop (vw s) \<noteq> Top \<or> SRegionBottom (vw s) \<noteq> Bottom)
               then DispUpdateScroll s else s);
          v = vw s;
          s = s\<lparr>vw := v\<lparr>SRegionTop := Top, SRegionBottom := Bottom,
                         dScroll := dScroll v + Direction\<rparr>\<rparr>
      in if Direction > 0 then DispCountScroll Direction s else DispCountScroll (- Direction) s)"

definition DispScrollHomePos :: "screen \<Rightarrow> screen" where
  "DispScrollHomePos s = DispUpdateScroll (s\<lparr>vw := (vw s)\<lparr>NewOrgX := 0, NewOrgY := 0\<rparr>\<rparr>)"

text \<open>Pending text is drawn (or is not visible); either way nothing is pending any more.\<close>

definition UpdateStr :: "screen \<Rightarrow> screen" where
  "UpdateStr s = (if StrChangeCount s = 0 then s else s\<lparr>StrChangeCount := 0\<rparr>)"

definition BuffUpdateScroll :: "screen \<Rightarrow> screen" where
  "BuffUpdateScroll s = DispUpdateScroll (UpdateStr s)"

definition MoveCursor :: "int \<Rightarrow> int \<Rightarrow> screen \<Rightarrow> screen option" where
  "MoveCursor Xnew Ynew s =
     do {
       let s = UpdateStr s;
       s \<leftarrow> (if CursorY s \<noteq> Ynew then NewLine (PageStart s + Ynew) s else Some s);
       let s = s\<lparr>CursorX := Xnew, CursorY := Ynew, Wrap := False\<rparr>;
       Some (if \<not> AutoScrollOnlyInBottomLine (ts s) \<or> WinOrgY (vw s) = 0
             then DispScrollToCursor (CursorX s) (CursorY s) s else s)
     }"

definition MoveRight :: "screen \<Rightarrow> screen" where
  "MoveRight s =
     (let s = s\<lparr>CursorX := CursorX s + 1\<rparr>
      in if \<not> AutoScrollOnlyInBottomLine (ts s) \<or> WinOrgY (vw s) = 0
         then DispScrollToCursor (CursorX s) (CursorY s) s else s)"

subsection \<open>Loops over lines\<close>

text \<open>
  The two loops of the screen operations: copy \<open>n\<close> line segments, stepping both pointers
  after each, and fill \<open>n\<close> line segments. The step is \<open>NextLinePtr\<close> or \<open>PrevLinePtr\<close>.
  They return the pointers too, as the code goes on from where the first loop stopped.
\<close>

fun copy_lines ::
  "('s \<Rightarrow> int \<Rightarrow> int) \<Rightarrow> (int \<Rightarrow> int \<Rightarrow> 's \<Rightarrow> 's option) \<Rightarrow> int \<Rightarrow> int \<Rightarrow> nat \<Rightarrow> 's
    \<Rightarrow> ('s \<times> int \<times> int) option" where
  "copy_lines step cp d p 0 s = Some (s, d, p)"
| "copy_lines step cp d p (Suc n) s =
     do { s' \<leftarrow> cp d p s; copy_lines step cp (step s' d) (step s' p) n s' }"

fun fill_lines ::
  "('s \<Rightarrow> int \<Rightarrow> int) \<Rightarrow> (int \<Rightarrow> 's \<Rightarrow> 's option) \<Rightarrow> int \<Rightarrow> nat \<Rightarrow> 's
    \<Rightarrow> ('s \<times> int) option" where
  "fill_lines step fl d 0 s = Some (s, d)"
| "fill_lines step fl d (Suc n) s = do { s' \<leftarrow> fl d s; fill_lines step fl (step s' d) n s' }"

text \<open>
  A store of lines: \<open>ptr s L\<close> is the pointer to the segment of line \<open>L\<close> that the loop
  works on, lines repeat with period \<open>per s\<close>, \<open>get s L x\<close> is a cell, \<open>seg x\<close> says whether
  column \<open>x\<close> is in the segment, \<open>same\<close> is the frame a loop keeps.
\<close>

locale line_store =
  fixes ok :: "'s \<Rightarrow> bool"
    and ptr :: "'s \<Rightarrow> int \<Rightarrow> int"
    and nxt :: "'s \<Rightarrow> int \<Rightarrow> int"
    and prv :: "'s \<Rightarrow> int \<Rightarrow> int"
    and per :: "'s \<Rightarrow> int"
    and get :: "'s \<Rightarrow> int \<Rightarrow> int \<Rightarrow> 'c"
    and col :: "'s \<Rightarrow> int \<Rightarrow> bool"
    and seg :: "int \<Rightarrow> bool"
    and cp :: "int \<Rightarrow> int \<Rightarrow> 's \<Rightarrow> 's option"
    and fl :: "int \<Rightarrow> 's \<Rightarrow> 's option"
    and blank :: "'s \<Rightarrow> 'c"
    and same :: "'s \<Rightarrow> 's \<Rightarrow> bool"
  assumes nxt_ptr: "ok s \<Longrightarrow> nxt s (ptr s L) = ptr s (L + 1)"
    and prv_ptr: "ok s \<Longrightarrow> prv s (ptr s L) = ptr s (L - 1)"
    and cp_line: "ok s \<Longrightarrow> \<exists>s'. cp (ptr s D) (ptr s S) s = Some s' \<and> same s s' \<and>
      (\<forall>L x. col s x \<longrightarrow> get s' L x =
        (if (L - D) mod per s = 0 \<and> seg x then get s S x else get s L x))"
    and fl_line: "ok s \<Longrightarrow> \<exists>s'. fl (ptr s D) s = Some s' \<and> same s s' \<and>
      (\<forall>L x. col s x \<longrightarrow> get s' L x =
        (if (L - D) mod per s = 0 \<and> seg x then blank s else get s L x))"
    and same_refl: "same s s"
    and same_trans: "same s t \<Longrightarrow> same t u \<Longrightarrow> same s u"
    and same_ok: "same s t \<Longrightarrow> ok s \<Longrightarrow> ok t"
    and same_frame: "same s t \<Longrightarrow>
      ptr t = ptr s \<and> per t = per s \<and> col t = col s \<and> blank t = blank s"
begin

lemma window_eq: "B \<le> L \<Longrightarrow> L < B + N \<Longrightarrow> B \<le> D \<Longrightarrow> D < B + N \<Longrightarrow>
    (L - D) mod N = 0 \<longleftrightarrow> L = (D::int)"
  by (rule window_mod)

lemma copy_lines_down:
  assumes "ok s" "0 \<le> k" "B \<le> D - k - int n + 1" "D < B + per s"
  shows "\<exists>s'. copy_lines prv cp (ptr s D) (ptr s (D - k)) n s
      = Some (s', ptr s (D - int n), ptr s (D - k - int n)) \<and> same s s' \<and>
    (\<forall>L x. B \<le> L \<longrightarrow> L < B + per s \<longrightarrow> col s x \<longrightarrow> get s' L x =
      (if D - int n < L \<and> L \<le> D \<and> seg x then get s (L - k) x else get s L x))"
  using assms
proof (induction n arbitrary: s D)
  case 0
  then show ?case by (auto intro: same_refl)
next
  case (Suc n)
  obtain s1 where s1: "cp (ptr s D) (ptr s (D - k)) s = Some s1" "same s s1"
    and g1: "\<And>L x. col s x \<Longrightarrow> get s1 L x =
        (if (L - D) mod per s = 0 \<and> seg x then get s (D - k) x else get s L x)"
    using cp_line [OF Suc.prems(1), of D "D - k"] by blast
  note f = same_frame [OF s1(2)]
  have ok1: "ok s1" by (rule same_ok [OF s1(2) Suc.prems(1)])
  have "B \<le> D - 1 - k - int n + 1" "D - 1 < B + per s1" using Suc.prems f by auto
  from Suc.IH [OF ok1 Suc.prems(2) this] obtain s2 where
    s2: "copy_lines prv cp (ptr s (D - 1)) (ptr s (D - 1 - k)) n s1
      = Some (s2, ptr s (D - 1 - int n), ptr s (D - 1 - k - int n))" "same s1 s2"
    and g2: "\<And>L x. B \<le> L \<Longrightarrow> L < B + per s \<Longrightarrow> col s x \<Longrightarrow> get s2 L x =
      (if D - 1 - int n < L \<and> L \<le> D - 1 \<and> seg x then get s1 (L - k) x else get s1 L x)"
    using f by auto
  have steps: "prv s1 (ptr s D) = ptr s (D - 1)" "prv s1 (ptr s (D - k)) = ptr s (D - 1 - k)"
    using prv_ptr [OF ok1, of D] prv_ptr [OF ok1, of "D - k"] f by (simp_all add: algebra_simps)
  have run: "copy_lines prv cp (ptr s D) (ptr s (D - k)) (Suc n) s
      = Some (s2, ptr s (D - int (Suc n)), ptr s (D - k - int (Suc n)))"
    using s1 s2 steps by (simp add: algebra_simps)
  have "get s2 L x =
      (if D - int (Suc n) < L \<and> L \<le> D \<and> seg x then get s (L - k) x else get s L x)"
    if L: "B \<le> L" "L < B + per s" "col s x" for L x
  proof -
    have w: "(L' - D) mod per s = 0 \<longleftrightarrow> L' = D" if "B \<le> L'" "L' < B + per s" for L'
      by (rule window_eq [where B = B]) (use Suc.prems that in auto)
    show ?thesis
    proof (cases "D - 1 - int n < L \<and> L \<le> D - 1 \<and> seg x")
      case True
      then have "B \<le> L - k" "L - k < B + per s" "L - k \<noteq> D" using Suc.prems L by auto
      then show ?thesis using True L g1 [OF L(3), of "L - k"] g2 [OF L] w [of "L - k"] by auto
    next
      case False
      then show ?thesis using L g1 [OF L(3), of L] g2 [OF L] w [of L] by auto
    qed
  qed
  then show ?case using run same_trans [OF s1(2) s2(2)] by blast
qed

lemma copy_lines_up:
  assumes "ok s" "0 \<le> k" "B \<le> D" "D + k + int n \<le> B + per s"
  shows "\<exists>s'. copy_lines nxt cp (ptr s D) (ptr s (D + k)) n s
      = Some (s', ptr s (D + int n), ptr s (D + k + int n)) \<and> same s s' \<and>
    (\<forall>L x. B \<le> L \<longrightarrow> L < B + per s \<longrightarrow> col s x \<longrightarrow> get s' L x =
      (if D \<le> L \<and> L < D + int n \<and> seg x then get s (L + k) x else get s L x))"
  using assms
proof (induction n arbitrary: s D)
  case 0
  then show ?case by (auto intro: same_refl)
next
  case (Suc n)
  obtain s1 where s1: "cp (ptr s D) (ptr s (D + k)) s = Some s1" "same s s1"
    and g1: "\<And>L x. col s x \<Longrightarrow> get s1 L x =
        (if (L - D) mod per s = 0 \<and> seg x then get s (D + k) x else get s L x)"
    using cp_line [OF Suc.prems(1), of D "D + k"] by blast
  note f = same_frame [OF s1(2)]
  have ok1: "ok s1" by (rule same_ok [OF s1(2) Suc.prems(1)])
  have "B \<le> D + 1" "D + 1 + k + int n \<le> B + per s1" using Suc.prems f by auto
  from Suc.IH [OF ok1 Suc.prems(2) this] obtain s2 where
    s2: "copy_lines nxt cp (ptr s (D + 1)) (ptr s (D + 1 + k)) n s1
      = Some (s2, ptr s (D + 1 + int n), ptr s (D + 1 + k + int n))" "same s1 s2"
    and g2: "\<And>L x. B \<le> L \<Longrightarrow> L < B + per s \<Longrightarrow> col s x \<Longrightarrow> get s2 L x =
      (if D + 1 \<le> L \<and> L < D + 1 + int n \<and> seg x then get s1 (L + k) x else get s1 L x)"
    using f by auto
  have steps: "nxt s1 (ptr s D) = ptr s (D + 1)" "nxt s1 (ptr s (D + k)) = ptr s (D + 1 + k)"
    using nxt_ptr [OF ok1, of D] nxt_ptr [OF ok1, of "D + k"] f by (simp_all add: algebra_simps)
  have run: "copy_lines nxt cp (ptr s D) (ptr s (D + k)) (Suc n) s
      = Some (s2, ptr s (D + int (Suc n)), ptr s (D + k + int (Suc n)))"
    using s1 s2 steps by (simp add: algebra_simps)
  have "get s2 L x =
      (if D \<le> L \<and> L < D + int (Suc n) \<and> seg x then get s (L + k) x else get s L x)"
    if L: "B \<le> L" "L < B + per s" "col s x" for L x
  proof -
    have w: "(L' - D) mod per s = 0 \<longleftrightarrow> L' = D" if "B \<le> L'" "L' < B + per s" for L'
      by (rule window_eq [where B = B]) (use Suc.prems that in auto)
    show ?thesis
    proof (cases "D + 1 \<le> L \<and> L < D + 1 + int n \<and> seg x")
      case True
      then have "B \<le> L + k" "L + k < B + per s" "L + k \<noteq> D" using Suc.prems L by auto
      then show ?thesis using True L g1 [OF L(3), of "L + k"] g2 [OF L] w [of "L + k"] by auto
    next
      case False
      then show ?thesis using L g1 [OF L(3), of L] g2 [OF L] w [of L] by auto
    qed
  qed
  then show ?case using run same_trans [OF s1(2) s2(2)] by blast
qed

text \<open>Moving lines down: each source line is blanked as soon as it has been copied.\<close>

lemma move_lines_down:
  assumes "ok s" "0 < k" "B \<le> D - k - int n + 1" "D < B + per s"
  shows "\<exists>s'. copy_lines prv (\<lambda>d p s. Option.bind (cp d p s) (fl p)) (ptr s D) (ptr s (D - k)) n s
      = Some (s', ptr s (D - int n), ptr s (D - k - int n)) \<and> same s s' \<and>
    (\<forall>L x. B \<le> L \<longrightarrow> L < B + per s \<longrightarrow> col s x \<longrightarrow> get s' L x =
      (if D - int n < L \<and> L \<le> D \<and> seg x then get s (L - k) x
       else if D - k - int n < L \<and> L \<le> D - k \<and> seg x then blank s else get s L x))"
  using assms
proof (induction n arbitrary: s D)
  case 0
  then show ?case by (auto intro: same_refl)
next
  case (Suc n)
  let ?mv = "\<lambda>d p s. Option.bind (cp d p s) (fl p)"
  obtain s0 where s0: "cp (ptr s D) (ptr s (D - k)) s = Some s0" "same s s0"
    and g0: "\<And>L x. col s x \<Longrightarrow> get s0 L x =
        (if (L - D) mod per s = 0 \<and> seg x then get s (D - k) x else get s L x)"
    using cp_line [OF Suc.prems(1), of D "D - k"] by blast
  note f0 = same_frame [OF s0(2)]
  have ok0: "ok s0" by (rule same_ok [OF s0(2) Suc.prems(1)])
  obtain s1 where s1': "fl (ptr s (D - k)) s0 = Some s1" "same s0 s1"
    and g1': "\<And>L x. col s x \<Longrightarrow> get s1 L x =
        (if (L - (D - k)) mod per s = 0 \<and> seg x then blank s else get s0 L x)"
    using fl_line [OF ok0, of "D - k"] f0 by auto
  have s1: "?mv (ptr s D) (ptr s (D - k)) s = Some s1" "same s s1"
    using s0 s1' same_trans by auto
  note f = same_frame [OF s1(2)]
  have ok1: "ok s1" by (rule same_ok [OF s1(2) Suc.prems(1)])
  have "B \<le> D - 1 - k - int n + 1" "D - 1 < B + per s1" using Suc.prems f by auto
  from Suc.IH [OF ok1 Suc.prems(2) this] obtain s2 where
    s2: "copy_lines prv ?mv (ptr s (D - 1)) (ptr s (D - 1 - k)) n s1
      = Some (s2, ptr s (D - 1 - int n), ptr s (D - 1 - k - int n))" "same s1 s2"
    and g2: "\<And>L x. B \<le> L \<Longrightarrow> L < B + per s \<Longrightarrow> col s x \<Longrightarrow> get s2 L x =
      (if D - 1 - int n < L \<and> L \<le> D - 1 \<and> seg x then get s1 (L - k) x
       else if D - 1 - k - int n < L \<and> L \<le> D - 1 - k \<and> seg x then blank s else get s1 L x)"
    unfolding conjunct1 [OF f] conjunct1 [OF conjunct2 [OF f]] conjunct1 [OF conjunct2 [OF conjunct2 [OF f]]] conjunct2 [OF conjunct2 [OF conjunct2 [OF f]]] by blast
  have steps: "prv s1 (ptr s D) = ptr s (D - 1)" "prv s1 (ptr s (D - k)) = ptr s (D - 1 - k)"
    using prv_ptr [OF ok1, of D] prv_ptr [OF ok1, of "D - k"] f by (simp_all add: algebra_simps)
  have run: "copy_lines prv ?mv (ptr s D) (ptr s (D - k)) (Suc n) s
      = Some (s2, ptr s (D - int (Suc n)), ptr s (D - k - int (Suc n)))"
    using s1 s2 steps by (simp add: algebra_simps)
  have g1: "get s1 L x = (if L = D - k \<and> seg x then blank s
      else if L = D \<and> seg x then get s (D - k) x else get s L x)"
    if "B \<le> L" "L < B + per s" "col s x" for L x
    using window_eq [of B L "per s" D] window_eq [of B L "per s" "D - k"] Suc.prems that
      g0 [OF that(3), of L] g1' [OF that(3), of L] by auto
  have "get s2 L x =
      (if D - int (Suc n) < L \<and> L \<le> D \<and> seg x then get s (L - k) x
       else if D - k - int (Suc n) < L \<and> L \<le> D - k \<and> seg x then blank s else get s L x)"
    if L: "B \<le> L" "L < B + per s" "col s x" for L x
  proof (cases "D - 1 - int n < L \<and> L \<le> D - 1 \<and> seg x")
    case True
    then have "B \<le> L - k" "L - k < B + per s" "L - k \<noteq> D" "L - k \<noteq> D - k"
      using Suc.prems L by auto
    then show ?thesis using True g1 [of "L - k" x] L(3) g2 [OF L] by auto
  next
    case False
    then show ?thesis using Suc.prems(2) g1 [OF L] g2 [OF L] by auto
  qed
  then show ?case using run same_trans [OF s1(2) s2(2)] by blast
qed

lemma fill_lines_down:
  assumes "ok s" "B \<le> D - int n + 1" "D < B + per s"
  shows "\<exists>s'. fill_lines prv fl (ptr s D) n s = Some (s', ptr s (D - int n)) \<and> same s s' \<and>
    (\<forall>L x. B \<le> L \<longrightarrow> L < B + per s \<longrightarrow> col s x \<longrightarrow> get s' L x =
      (if D - int n < L \<and> L \<le> D \<and> seg x then blank s else get s L x))"
  using assms
proof (induction n arbitrary: s D)
  case 0
  then show ?case by (auto intro: same_refl)
next
  case (Suc n)
  obtain s1 where s1: "fl (ptr s D) s = Some s1" "same s s1"
    and g1: "\<And>L x. col s x \<Longrightarrow> get s1 L x =
        (if (L - D) mod per s = 0 \<and> seg x then blank s else get s L x)"
    using fl_line [OF Suc.prems(1), of D] by blast
  note f = same_frame [OF s1(2)]
  have ok1: "ok s1" by (rule same_ok [OF s1(2) Suc.prems(1)])
  have "B \<le> D - 1 - int n + 1" "D - 1 < B + per s1" using Suc.prems f by auto
  from Suc.IH [OF ok1 this] obtain s2 where
    s2: "fill_lines prv fl (ptr s (D - 1)) n s1 = Some (s2, ptr s (D - 1 - int n))" "same s1 s2"
    and g2: "\<And>L x. B \<le> L \<Longrightarrow> L < B + per s \<Longrightarrow> col s x \<Longrightarrow> get s2 L x =
      (if D - 1 - int n < L \<and> L \<le> D - 1 \<and> seg x then blank s else get s1 L x)"
    using f by auto
  have "prv s1 (ptr s D) = ptr s (D - 1)" using prv_ptr [OF ok1, of D] f by simp
  then have run: "fill_lines prv fl (ptr s D) (Suc n) s = Some (s2, ptr s (D - int (Suc n)))"
    using s1 s2 by (simp add: algebra_simps)
  have "get s2 L x = (if D - int (Suc n) < L \<and> L \<le> D \<and> seg x then blank s else get s L x)"
    if L: "B \<le> L" "L < B + per s" "col s x" for L x
    using window_eq [of B L "per s" D] Suc.prems L g1 [OF L(3), of L] g2 [OF L] by auto
  then show ?case using run same_trans [OF s1(2) s2(2)] by blast
qed

lemma fill_lines_up:
  assumes "ok s" "B \<le> D" "D + int n \<le> B + per s"
  shows "\<exists>s'. fill_lines nxt fl (ptr s D) n s = Some (s', ptr s (D + int n)) \<and> same s s' \<and>
    (\<forall>L x. B \<le> L \<longrightarrow> L < B + per s \<longrightarrow> col s x \<longrightarrow> get s' L x =
      (if D \<le> L \<and> L < D + int n \<and> seg x then blank s else get s L x))"
  using assms
proof (induction n arbitrary: s D)
  case 0
  then show ?case by (auto intro: same_refl)
next
  case (Suc n)
  obtain s1 where s1: "fl (ptr s D) s = Some s1" "same s s1"
    and g1: "\<And>L x. col s x \<Longrightarrow> get s1 L x =
        (if (L - D) mod per s = 0 \<and> seg x then blank s else get s L x)"
    using fl_line [OF Suc.prems(1), of D] by blast
  note f = same_frame [OF s1(2)]
  have ok1: "ok s1" by (rule same_ok [OF s1(2) Suc.prems(1)])
  have "B \<le> D + 1" "D + 1 + int n \<le> B + per s1" using Suc.prems f by auto
  from Suc.IH [OF ok1 this] obtain s2 where
    s2: "fill_lines nxt fl (ptr s (D + 1)) n s1 = Some (s2, ptr s (D + 1 + int n))" "same s1 s2"
    and g2: "\<And>L x. B \<le> L \<Longrightarrow> L < B + per s \<Longrightarrow> col s x \<Longrightarrow> get s2 L x =
      (if D + 1 \<le> L \<and> L < D + 1 + int n \<and> seg x then blank s else get s1 L x)"
    using f by auto
  have "nxt s1 (ptr s D) = ptr s (D + 1)" using nxt_ptr [OF ok1, of D] f by simp
  then have run: "fill_lines nxt fl (ptr s D) (Suc n) s = Some (s2, ptr s (D + int (Suc n)))"
    using s1 s2 by (simp add: algebra_simps)
  have "get s2 L x = (if D \<le> L \<and> L < D + int (Suc n) \<and> seg x then blank s else get s L x)"
    if L: "B \<le> L" "L < B + per s" "col s x" for L x
    using window_eq [of B L "per s" D] Suc.prems L g1 [OF L(3), of L] g2 [OF L] by auto
  then show ?case using run same_trans [OF s1(2) s2(2)] by blast
qed

text \<open>A shift: copy the lines that stay, then blank the \<open>k\<close> lines that are left over.\<close>

lemma shift_up:
  assumes "ok s" "0 \<le> k" "B \<le> D" "D + k + int n \<le> B + per s"
  shows "\<exists>s1 s2 p q. copy_lines nxt cp (ptr s D) (ptr s (D + k)) n s
      = Some (s1, ptr s (D + int n), p) \<and>
    fill_lines nxt fl (ptr s (D + int n)) (nat k) s1 = Some (s2, q) \<and> same s s1 \<and> same s s2 \<and>
    (\<forall>L x. B \<le> L \<longrightarrow> L < B + per s \<longrightarrow> col s x \<longrightarrow> get s2 L x =
      (if D \<le> L \<and> L < D + int n + k \<and> seg x
       then if L < D + int n then get s (L + k) x else blank s else get s L x))"
proof -
  from copy_lines_up [OF assms] obtain s1 where
    s1: "copy_lines nxt cp (ptr s D) (ptr s (D + k)) n s
      = Some (s1, ptr s (D + int n), ptr s (D + k + int n))" "same s s1"
    and g1: "\<And>L x. B \<le> L \<Longrightarrow> L < B + per s \<Longrightarrow> col s x \<Longrightarrow> get s1 L x =
      (if D \<le> L \<and> L < D + int n \<and> seg x then get s (L + k) x else get s L x)" by blast
  note f = same_frame [OF s1(2)]
  have ok1: "ok s1" by (rule same_ok [OF s1(2) assms(1)])
  have "B \<le> D + int n" "D + int n + int (nat k) \<le> B + per s1" using assms f by auto
  from fill_lines_up [OF ok1 this] obtain s2 where
    s2: "fill_lines nxt fl (ptr s (D + int n)) (nat k) s1 = Some (s2, ptr s (D + int n + k))"
      "same s1 s2"
    and g2: "\<And>L x. B \<le> L \<Longrightarrow> L < B + per s \<Longrightarrow> col s x \<Longrightarrow> get s2 L x =
      (if D + int n \<le> L \<and> L < D + int n + k \<and> seg x then blank s else get s1 L x)"
    using f assms(2) by auto
  have "get s2 L x = (if D \<le> L \<and> L < D + int n + k \<and> seg x
       then if L < D + int n then get s (L + k) x else blank s else get s L x)"
    if "B \<le> L" "L < B + per s" "col s x" for L x
    using assms(2) by (simp add: g1 [OF that] g2 [OF that])
  then show ?thesis using s1 s2 same_trans [OF s1(2) s2(2)] by blast
qed

lemma shift_down:
  assumes "ok s" "0 \<le> k" "B \<le> D - k - int n + 1" "D < B + per s"
  shows "\<exists>s1 s2 p q. copy_lines prv cp (ptr s D) (ptr s (D - k)) n s
      = Some (s1, ptr s (D - int n), p) \<and>
    fill_lines prv fl (ptr s (D - int n)) (nat k) s1 = Some (s2, q) \<and> same s s1 \<and> same s s2 \<and>
    (\<forall>L x. B \<le> L \<longrightarrow> L < B + per s \<longrightarrow> col s x \<longrightarrow> get s2 L x =
      (if D - int n - k < L \<and> L \<le> D \<and> seg x
       then if D - int n < L then get s (L - k) x else blank s else get s L x))"
proof -
  from copy_lines_down [OF assms] obtain s1 where
    s1: "copy_lines prv cp (ptr s D) (ptr s (D - k)) n s
      = Some (s1, ptr s (D - int n), ptr s (D - k - int n))" "same s s1"
    and g1: "\<And>L x. B \<le> L \<Longrightarrow> L < B + per s \<Longrightarrow> col s x \<Longrightarrow> get s1 L x =
      (if D - int n < L \<and> L \<le> D \<and> seg x then get s (L - k) x else get s L x)" by blast
  note f = same_frame [OF s1(2)]
  have ok1: "ok s1" by (rule same_ok [OF s1(2) assms(1)])
  have "B \<le> D - int n - int (nat k) + 1" "D - int n < B + per s1" using assms f by auto
  from fill_lines_down [OF ok1 this] obtain s2 where
    s2: "fill_lines prv fl (ptr s (D - int n)) (nat k) s1 = Some (s2, ptr s (D - int n - k))"
      "same s1 s2"
    and g2: "\<And>L x. B \<le> L \<Longrightarrow> L < B + per s \<Longrightarrow> col s x \<Longrightarrow> get s2 L x =
      (if D - int n - k < L \<and> L \<le> D - int n \<and> seg x then blank s else get s1 L x)"
    using f assms(2) by auto
  have "get s2 L x = (if D - int n - k < L \<and> L \<le> D \<and> seg x
       then if D - int n < L then get s (L - k) x else blank s else get s L x)"
    if "B \<le> L" "L < B + per s" "col s x" for L x
    using assms(2) by (simp add: g1 [OF that] g2 [OF that])
  then show ?thesis using s1 s2 same_trans [OF s1(2) s2(2)] by blast
qed

end

subsection \<open>The geometry of the ring\<close>

definition geom_ok :: "screen \<Rightarrow> bool" where
  "geom_ok s \<longleftrightarrow> 0 < NumOfColumns s \<and> 0 < NumOfLinesInBuff s \<and>
     BufferSize s = NumOfLinesInBuff s * NumOfColumns s \<and>
     int (length (CodeBuffW s)) = BufferSize s \<and>
     0 \<le> BuffStartAbs s \<and> BuffStartAbs s < NumOfLinesInBuff s"

definition row_ptr :: "screen \<Rightarrow> int \<Rightarrow> int" where
  "row_ptr s L = ((BuffStartAbs s + L) mod NumOfLinesInBuff s) * NumOfColumns s"

text \<open>The cell in column \<open>x\<close> of line \<open>L\<close>; lines count from the oldest one.\<close>

definition at :: "screen \<Rightarrow> int \<Rightarrow> int \<Rightarrow> buff_char" where
  "at s L x = CodeBuffW s ! nat (row_ptr s L + x)"

definition in_cols :: "screen \<Rightarrow> int \<Rightarrow> bool" where
  "in_cols s x \<longleftrightarrow> 0 \<le> x \<and> x < NumOfColumns s"

text \<open>Only cells differ: the frame of every operation on the array.\<close>

definition same_but_cells :: "screen \<Rightarrow> screen \<Rightarrow> bool" where
  "same_but_cells s t \<longleftrightarrow>
     t = s\<lparr>CodeBuffW := CodeBuffW t\<rparr> \<and> length (CodeBuffW t) = length (CodeBuffW s)"

lemma wrap_down_mod:
  assumes "0 < n" "0 \<le> p"
  shows "wrap_down p n = Some (p mod n)"
  using assms
proof (induction p n rule: wrap_down.induct)
  case (1 p n)
  show ?case
  proof (cases "p < n")
    case True
    with 1 show ?thesis by (simp add: wrap_down.simps mod_pos_pos_trivial)
  next
    case False
    with 1 show ?thesis by (subst wrap_down.simps) simp
  qed
qed

lemma row_bounds:
  assumes "geom_ok s"
  shows "0 \<le> row_ptr s L" "row_ptr s L + NumOfColumns s \<le> BufferSize s"
proof -
  let ?r = "(BuffStartAbs s + L) mod NumOfLinesInBuff s"
  have r: "0 \<le> ?r" "?r + 1 \<le> NumOfLinesInBuff s" and c: "0 < NumOfColumns s"
    using assms by (auto simp: geom_ok_def add1_zle_eq)
  show "0 \<le> row_ptr s L" using r c by (simp add: row_ptr_def)
  have "(?r + 1) * NumOfColumns s \<le> NumOfLinesInBuff s * NumOfColumns s"
    using r(2) c by (intro mult_right_mono) auto
  then show "row_ptr s L + NumOfColumns s \<le> BufferSize s"
    using assms by (simp add: row_ptr_def geom_ok_def algebra_simps)
qed

lemma row_in_arr:
  "geom_ok s \<Longrightarrow> in_cols s x \<Longrightarrow> in_arr (CodeBuffW s) (row_ptr s L + x)"
  using row_bounds [of s L] by (auto simp: in_arr_def in_cols_def geom_ok_def)

lemma GetLinePtr_row:
  assumes "geom_ok s" "0 \<le> BuffStartAbs s + L"
  shows "GetLinePtr L s = Some (row_ptr s L)"
proof -
  have "((BuffStartAbs s + L) * NumOfColumns s) mod (NumOfLinesInBuff s * NumOfColumns s)
      = row_ptr s L"
    by (simp add: row_ptr_def mult.commute [of _ "NumOfColumns s"] mult_mod_right [symmetric])
  with assms show ?thesis
    by (simp add: GetLinePtr_def geom_ok_def wrap_down_mod)
qed

lemma GetLinePtr_page [simp]:
  "geom_ok s \<Longrightarrow> 0 \<le> L \<Longrightarrow> GetLinePtr L s = Some (row_ptr s L)"
  by (rule GetLinePtr_row) (auto simp: geom_ok_def)

lemma NextLinePtr_row:
  assumes "geom_ok s" "0 \<le> c" "c < NumOfColumns s"
  shows "NextLinePtr s (row_ptr s L + c) = row_ptr s (L + 1) + c"
proof -
  let ?N = "NumOfLinesInBuff s" and ?r = "(BuffStartAbs s + L) mod NumOfLinesInBuff s"
  have N: "0 < ?N" and sz: "BufferSize s = ?N * NumOfColumns s" and cp: "0 < NumOfColumns s"
    using assms by (auto simp: geom_ok_def)
  have next_r: "(BuffStartAbs s + (L + 1)) mod ?N = (if ?r + 1 = ?N then 0 else ?r + 1)"
    using mod_add_self_lt [OF N, of "BuffStartAbs s + L"] by (simp add: algebra_simps)
  have r: "0 \<le> ?r" "?r + 1 \<le> ?N" using N by (auto simp: add1_zle_eq)
  show ?thesis
  proof (cases "?r + 1 = ?N")
    case True
    then have "row_ptr s L + NumOfColumns s = BufferSize s"
      unfolding row_ptr_def sz by (metis True distrib_right mult_1)
    then show ?thesis using True next_r assms by (simp add: NextLinePtr_def row_ptr_def Let_def)
  next
    case False
    then have "?r + 2 \<le> ?N" using r by linarith
    then have "(?r + 2) * NumOfColumns s \<le> ?N * NumOfColumns s"
      using cp by (intro mult_right_mono) auto
    then have "row_ptr s L + c + NumOfColumns s < BufferSize s"
      using assms(3) by (simp add: row_ptr_def sz algebra_simps)
    then show ?thesis
      using False next_r by (simp add: NextLinePtr_def row_ptr_def Let_def algebra_simps)
  qed
qed

lemma PrevLinePtr_row:
  assumes "geom_ok s" "0 \<le> c" "c < NumOfColumns s"
  shows "PrevLinePtr s (row_ptr s L + c) = row_ptr s (L - 1) + c"
proof -
  let ?N = "NumOfLinesInBuff s" and ?r = "(BuffStartAbs s + L) mod NumOfLinesInBuff s"
  have N: "0 < ?N" and sz: "BufferSize s = ?N * NumOfColumns s" and cp: "0 < NumOfColumns s"
    using assms by (auto simp: geom_ok_def)
  have prev_r: "(BuffStartAbs s + (L - 1)) mod ?N = (if ?r = 0 then ?N - 1 else ?r - 1)"
    using mod_sub_one [OF N, of "BuffStartAbs s + L"] by (simp add: algebra_simps)
  have r: "0 \<le> ?r" using N by simp
  show ?thesis
  proof (cases "?r = 0")
    case True
    have "(BuffStartAbs s + (L - 1)) mod ?N * NumOfColumns s = ?N * NumOfColumns s - NumOfColumns s"
      unfolding prev_r using True by (simp add: left_diff_distrib)
    then show ?thesis
      using True assms by (simp add: PrevLinePtr_def row_ptr_def Let_def sz)
  next
    case False
    then have "1 * NumOfColumns s \<le> ?r * NumOfColumns s"
      using r cp by (intro mult_right_mono) auto
    then have "0 \<le> row_ptr s L + c - NumOfColumns s" using assms(2) by (simp add: row_ptr_def)
    moreover have "(BuffStartAbs s + (L - 1)) mod ?N * NumOfColumns s
        = ?r * NumOfColumns s - NumOfColumns s"
      unfolding prev_r using False by (simp add: left_diff_distrib)
    ultimately show ?thesis by (simp add: PrevLinePtr_def row_ptr_def Let_def)
  qed
qed

text \<open>The position of a cell determines its line (up to the period) and its column.\<close>

lemma row_range:
  assumes "geom_ok s" "in_cols s x" "0 \<le> c" "c + n \<le> NumOfColumns s"
  shows "row_ptr s D + c \<le> row_ptr s L + x \<and> row_ptr s L + x < row_ptr s D + c + n \<longleftrightarrow>
    (L - D) mod NumOfLinesInBuff s = 0 \<and> c \<le> x \<and> x < c + n"
proof -
  let ?N = "NumOfLinesInBuff s" and ?C = "NumOfColumns s"
  define a where "a = (BuffStartAbs s + L) mod ?N"
  define b where "b = (BuffStartAbs s + D) mod ?N"
  have ab: "(L - D) mod ?N = 0 \<longleftrightarrow> a = b"
    by (simp add: a_def b_def mod_eq_dvd_iff dvd_eq_mod_eq_0)
  have C: "0 < ?C" "0 \<le> x" "x < ?C" using assms by (auto simp: geom_ok_def in_cols_def)
  have "a = b" if "b * ?C + c \<le> a * ?C + x" "a * ?C + x < b * ?C + c + n"
  proof (rule antisym)
    have "a * ?C < (b + 1) * ?C" using that assms C by (simp add: algebra_simps)
    then show "a \<le> b" using C by (simp add: mult_less_cancel_right)
    have "b * ?C < (a + 1) * ?C" using that assms C by (simp add: algebra_simps)
    then show "b \<le> a" using C by (simp add: mult_less_cancel_right)
  qed
  then show ?thesis unfolding ab by (auto simp: row_ptr_def a_def [symmetric] b_def [symmetric])
qed

lemma row_inj:
  assumes "geom_ok s" "in_cols s x" "in_cols s y"
  shows "row_ptr s L + x = row_ptr s D + y \<longleftrightarrow> (L - D) mod NumOfLinesInBuff s = 0 \<and> x = y"
proof -
  have "0 \<le> y" "y + 1 \<le> NumOfColumns s" using assms(3) by (auto simp: in_cols_def)
  from row_range [OF assms(1,2) this, of D L] show ?thesis by linarith
qed

lemma at_period:
  assumes "(L - D) mod NumOfLinesInBuff s = 0"
  shows "at s L x = at s D x"
proof -
  have "(BuffStartAbs s + L) mod NumOfLinesInBuff s = (BuffStartAbs s + D) mod NumOfLinesInBuff s"
    using assms by (simp add: mod_eq_dvd_iff dvd_eq_mod_eq_0)
  then show ?thesis by (simp add: at_def row_ptr_def)
qed

lemma at_period_if [simp]:
  "(if (L - D) mod NumOfLinesInBuff s = 0 then at s D x else at s L x) = at s L x"
  by (cases "(L - D) mod NumOfLinesInBuff s = 0") (simp_all add: at_period [of L D s x])

subsection \<open>The array operations on lines\<close>

lemma same_but_cells_iff: "same_but_cells s t \<longleftrightarrow>
    (\<exists>b. t = s\<lparr>CodeBuffW := b\<rparr> \<and> length b = length (CodeBuffW s))"
proof
  assume "same_but_cells s t"
  then show "\<exists>b. t = s\<lparr>CodeBuffW := b\<rparr> \<and> length b = length (CodeBuffW s)"
    unfolding same_but_cells_def by blast
next
  assume "\<exists>b. t = s\<lparr>CodeBuffW := b\<rparr> \<and> length b = length (CodeBuffW s)"
  then obtain b where "t = s\<lparr>CodeBuffW := b\<rparr>" "length b = length (CodeBuffW s)" by blast
  then show "same_but_cells s t" by (simp add: same_but_cells_def)
qed

lemma same_refl [intro, simp]: "same_but_cells s s"
  by (simp add: same_but_cells_def)

lemma same_trans: "same_but_cells s t \<Longrightarrow> same_but_cells t u \<Longrightarrow> same_but_cells s u"
  by (auto simp: same_but_cells_iff)

lemma same_frame:
  assumes "same_but_cells s t"
  shows "geom_ok t = geom_ok s" "row_ptr t = row_ptr s" "in_cols t = in_cols s"
    "NumOfColumns t = NumOfColumns s" "NumOfLinesInBuff t = NumOfLinesInBuff s"
    "erased t = erased s"
proof -
  obtain b where t: "t = s\<lparr>CodeBuffW := b\<rparr>" and l: "length b = length (CodeBuffW s)"
    using assms unfolding same_but_cells_iff by blast
  show "geom_ok t = geom_ok s" "row_ptr t = row_ptr s" "in_cols t = in_cols s"
    "NumOfColumns t = NumOfColumns s" "NumOfLinesInBuff t = NumOfLinesInBuff s"
    "erased t = erased s"
    using l unfolding t by (auto simp: geom_ok_def row_ptr_def in_cols_def erased_def)
qed

lemma same_fields:
  assumes "same_but_cells s t"
  shows "NumOfLines t = NumOfLines s" "StatusLine t = StatusLine s" "CursorX t = CursorX s"
    "CursorY t = CursorY s" "CursorTop t = CursorTop s" "CursorBottom t = CursorBottom s"
    "CursorLeftM t = CursorLeftM s" "CursorRightM t = CursorRightM s" "conv t = conv s"
    "CurCharAttr t = CurCharAttr s" "vw t = vw s" "ts t = ts s" "PageStart t = PageStart s"
    "BuffEnd t = BuffEnd s" "LinePtr t = LinePtr s" "Wrap t = Wrap s"
    "BufferSize t = BufferSize s" "BuffStartAbs t = BuffStartAbs s" "BuffEndAbs t = BuffEndAbs s"
    "TabStops t = TabStops s" "NTabStops t = NTabStops s"
    "length (CodeBuffW t) = length (CodeBuffW s)"
proof -
  obtain b where "t = s\<lparr>CodeBuffW := b\<rparr>" "length b = length (CodeBuffW s)"
    using assms unfolding same_but_cells_iff by blast
  then show "NumOfLines t = NumOfLines s" "StatusLine t = StatusLine s" "CursorX t = CursorX s"
    "CursorY t = CursorY s" "CursorTop t = CursorTop s" "CursorBottom t = CursorBottom s"
    "CursorLeftM t = CursorLeftM s" "CursorRightM t = CursorRightM s" "conv t = conv s"
    "CurCharAttr t = CurCharAttr s" "vw t = vw s" "ts t = ts s" "PageStart t = PageStart s"
    "BuffEnd t = BuffEnd s" "LinePtr t = LinePtr s" "Wrap t = Wrap s"
    "BufferSize t = BufferSize s" "BuffStartAbs t = BuffStartAbs s" "BuffEndAbs t = BuffEndAbs s"
    "TabStops t = TabStops s" "NTabStops t = NTabStops s"
    "length (CodeBuffW t) = length (CodeBuffW s)"
    by simp_all
qed

lemma at_blit:
  assumes "geom_ok s" "in_cols s x" "0 \<le> c" "c + n \<le> NumOfColumns s"
  shows "at (s\<lparr>CodeBuffW := blit (CodeBuffW s) (row_ptr s D + c) (row_ptr s S + c') n\<rparr>) L x =
    (if (L - D) mod NumOfLinesInBuff s = 0 \<and> c \<le> x \<and> x < c + n
     then at s S (x - c + c') else at s L x)"
proof -
  note r = row_range [OF assms, of D L]
  have e: "row_ptr s L = row_ptr s D" if "(L - D) mod NumOfLinesInBuff s = 0"
    using that by (simp add: row_ptr_def)
      (metis add_diff_cancel_left dvd_eq_mod_eq_0 mod_eq_dvd_iff)
  show ?thesis
    using r e nth_blit [OF row_in_arr [OF assms(1,2), of L], of "row_ptr s D + c" "row_ptr s S + c'" n]
    by (auto simp: at_def row_ptr_def algebra_simps)
qed

lemma at_updated:
  assumes "geom_ok s" "in_cols s x" "0 \<le> c" "c + n \<le> NumOfColumns s"
  shows "at (s\<lparr>CodeBuffW := updated f (CodeBuffW s) (row_ptr s D + c) n\<rparr>) L x =
    (if (L - D) mod NumOfLinesInBuff s = 0 \<and> c \<le> x \<and> x < c + n
     then f (at s L x) else at s L x)"
  using row_range [OF assms, of D L]
    nth_updated [OF row_in_arr [OF assms(1,2), of L], of f "row_ptr s D + c" n]
  by (auto simp: at_def row_ptr_def)

lemma memmoveS_line:
  assumes "geom_ok s" "0 \<le> c" "0 \<le> c'" "0 \<le> n" "c + n \<le> NumOfColumns s"
    "c' + n \<le> NumOfColumns s"
  shows "\<exists>s'. memmoveS (row_ptr s D + c) (row_ptr s S + c') n s = Some s' \<and>
    same_but_cells s s' \<and>
    (\<forall>L x. in_cols s x \<longrightarrow> at s' L x =
      (if (L - D) mod NumOfLinesInBuff s = 0 \<and> c \<le> x \<and> x < c + n
       then at s S (x - c + c') else at s L x))"
proof -
  have "memmoveW (CodeBuffW s) (row_ptr s D + c) (row_ptr s S + c') n =
      Some (blit (CodeBuffW s) (row_ptr s D + c) (row_ptr s S + c') n)"
    using assms row_bounds [OF assms(1), of D] row_bounds [OF assms(1), of S]
    by (intro memmoveW_blit) (auto simp: geom_ok_def)
  then show ?thesis
    using assms by (auto simp: memmoveS_def at_blit same_but_cells_def)
qed

lemma memcpyS_line:
  assumes "geom_ok s" "0 \<le> c" "0 \<le> n" "c + n \<le> NumOfColumns s"
  shows "\<exists>s'. memcpyS (row_ptr s D + c) (row_ptr s S + c) n s = Some s' \<and>
    same_but_cells s s' \<and>
    (\<forall>L x. in_cols s x \<longrightarrow> at s' L x =
      (if (L - D) mod NumOfLinesInBuff s = 0 \<and> c \<le> x \<and> x < c + n
       then at s S x else at s L x))"
proof -
  have disj: "row_ptr s D + c \<le> row_ptr s S + c \<or> row_ptr s S + c + n \<le> row_ptr s D + c"
  proof (rule ccontr)
    assume h: "\<not> ?thesis"
    define y where "y = row_ptr s D - row_ptr s S"
    have y: "0 < y" "y < n" using h by (auto simp: y_def)
    then have "in_cols s 0" "0 < NumOfColumns s" using assms by (auto simp: in_cols_def geom_ok_def)
    moreover have "row_ptr s S + 0 \<le> row_ptr s D + 0 \<and>
        row_ptr s D + 0 < row_ptr s S + 0 + NumOfColumns s"
      using y assms by (auto simp: y_def)
    ultimately have "(D - S) mod NumOfLinesInBuff s = 0"
      using row_range [OF assms(1), of 0 0 "NumOfColumns s" S D] by auto
    then have "row_ptr s D + 0 = row_ptr s S + 0"
      using row_inj [OF assms(1) \<open>in_cols s 0\<close> \<open>in_cols s 0\<close>, of D S] by simp
    then show False using y by (simp add: y_def)
  qed
  have "memcpyW (CodeBuffW s) (row_ptr s D + c) (row_ptr s S + c) n =
      Some (blit (CodeBuffW s) (row_ptr s D + c) (row_ptr s S + c) n)"
    using assms disj row_bounds [OF assms(1), of D] row_bounds [OF assms(1), of S]
    by (intro memcpyW_blit) (auto simp: geom_ok_def)
  then show ?thesis
    using assms by (auto simp: memcpyS_def at_blit same_but_cells_def)
qed

lemma memsetS_line:
  assumes "geom_ok s" "0 \<le> c" "0 \<le> n" "c + n \<le> NumOfColumns s"
  shows "\<exists>s'. memsetS (row_ptr s D + c) ch f b a a2 n s = Some s' \<and>
    same_but_cells s s' \<and>
    (\<forall>L x. in_cols s x \<longrightarrow> at s' L x =
      (if (L - D) mod NumOfLinesInBuff s = 0 \<and> c \<le> x \<and> x < c + n
       then blank_cell (conv s) ch f b a a2 else at s L x))"
proof -
  have "memsetW (conv s) (CodeBuffW s) (row_ptr s D + c) ch f b a a2 n =
      Some (updated (\<lambda>_. blank_cell (conv s) ch f b a a2) (CodeBuffW s) (row_ptr s D + c) n)"
    using assms row_bounds [OF assms(1), of D]
    by (intro memsetW_updated) (auto simp: geom_ok_def)
  then show ?thesis
    using assms by (auto simp: memsetS_def at_updated same_but_cells_def)
qed

lemma eraseS_line:
  assumes "geom_ok s" "0 \<le> c" "0 \<le> n" "c + n \<le> NumOfColumns s"
  shows "\<exists>s'. eraseS (row_ptr s D + c) n s = Some s' \<and> same_but_cells s s' \<and>
    (\<forall>L x. in_cols s x \<longrightarrow> at s' L x =
      (if (L - D) mod NumOfLinesInBuff s = 0 \<and> c \<le> x \<and> x < c + n
       then erased s else at s L x))"
  unfolding eraseS_def erased_def by (rule memsetS_line [OF assms])

lemma cell_upd_at:
  assumes "geom_ok s" "in_cols s c"
  shows "\<exists>s'. cell_upd f (row_ptr s D + c) s = Some s' \<and> same_but_cells s s' \<and>
    (\<forall>L x. in_cols s x \<longrightarrow> at s' L x =
      (if (L - D) mod NumOfLinesInBuff s = 0 \<and> x = c then f (at s D c) else at s L x))"
proof -
  have i: "in_arr (CodeBuffW s) (row_ptr s D + c)" by (rule row_in_arr [OF assms])
  have "at (s\<lparr>CodeBuffW := (CodeBuffW s)[nat (row_ptr s D + c) := v]\<rparr>) L x =
      (if (L - D) mod NumOfLinesInBuff s = 0 \<and> x = c then v else at s L x)"
    if x: "in_cols s x" for L x v
  proof -
    have "row_ptr (s\<lparr>CodeBuffW := (CodeBuffW s)[nat (row_ptr s D + c) := v]\<rparr>) L = row_ptr s L"
      by (simp add: row_ptr_def)
    then show ?thesis
      using nth_update_int [OF i row_in_arr [OF assms(1) x, of L]] row_inj [OF assms(1) x assms(2), of L D]
      by (simp add: at_def)
  qed
  then show ?thesis
    using i by (auto simp: cell_upd_def rd_in wr_in same_but_cells_def at_def [symmetric])
qed

lemma cell_get_at:
  "geom_ok s \<Longrightarrow> in_cols s c \<Longrightarrow> cell_get (row_ptr s D + c) s = Some (at s D c)"
  by (simp add: cell_get_def rd_in row_in_arr at_def)

subsection \<open>The screen as a store of lines\<close>

definition seg_ok :: "int \<Rightarrow> int \<Rightarrow> screen \<Rightarrow> bool" where
  "seg_ok c n s \<longleftrightarrow> geom_ok s \<and> 0 \<le> c \<and> c < NumOfColumns s \<and> 0 \<le> n \<and> c + n \<le> NumOfColumns s"

text \<open>
  The loops over lines work on the screen with \<open>memcpyW\<close>, and with \<open>memmoveW\<close>, for every
  column segment of \<open>n\<close> cells from column \<open>c\<close>.
\<close>

interpretation cpy: line_store "seg_ok c n" "\<lambda>s L. row_ptr s L + c" NextLinePtr PrevLinePtr
  NumOfLinesInBuff at in_cols "\<lambda>x. c \<le> x \<and> x < c + n" "\<lambda>d p. memcpyS d p n" "\<lambda>d. eraseS d n"
  erased same_but_cells for c n
proof unfold_locales
  fix s :: screen and L D S :: int assume ok: "seg_ok c n s"
  then have g: "geom_ok s" "0 \<le> c" "c < NumOfColumns s" "0 \<le> n" "c + n \<le> NumOfColumns s"
    by (simp_all add: seg_ok_def)
  show "NextLinePtr s (row_ptr s L + c) = row_ptr s (L + 1) + c" by (rule NextLinePtr_row [OF g(1-3)])
  show "PrevLinePtr s (row_ptr s L + c) = row_ptr s (L - 1) + c" by (rule PrevLinePtr_row [OF g(1-3)])
  show "\<exists>s'. memcpyS (row_ptr s D + c) (row_ptr s S + c) n s = Some s' \<and> same_but_cells s s' \<and>
      (\<forall>L x. in_cols s x \<longrightarrow> at s' L x =
        (if (L - D) mod NumOfLinesInBuff s = 0 \<and> c \<le> x \<and> x < c + n then at s S x else at s L x))"
    by (rule memcpyS_line [OF g(1,2,4,5)])
  show "\<exists>s'. eraseS (row_ptr s D + c) n s = Some s' \<and> same_but_cells s s' \<and>
      (\<forall>L x. in_cols s x \<longrightarrow> at s' L x =
        (if (L - D) mod NumOfLinesInBuff s = 0 \<and> c \<le> x \<and> x < c + n then erased s else at s L x))"
    by (rule eraseS_line [OF g(1,2,4,5)])
next
  fix s t u :: screen
  show "same_but_cells s s" by simp
  show "same_but_cells s t \<Longrightarrow> same_but_cells t u \<Longrightarrow> same_but_cells s u" by (rule same_trans)
  show "same_but_cells s t \<Longrightarrow> seg_ok c n s \<Longrightarrow> seg_ok c n t"
    by (simp add: seg_ok_def same_frame)
  show "same_but_cells s t \<Longrightarrow> (\<lambda>L. row_ptr t L + c) = (\<lambda>L. row_ptr s L + c) \<and>
      NumOfLinesInBuff t = NumOfLinesInBuff s \<and> in_cols t = in_cols s \<and> erased t = erased s"
    by (simp add: same_frame)
qed

interpretation mov: line_store "seg_ok c n" "\<lambda>s L. row_ptr s L + c" NextLinePtr PrevLinePtr
  NumOfLinesInBuff at in_cols "\<lambda>x. c \<le> x \<and> x < c + n" "\<lambda>d p. memmoveS d p n" "\<lambda>d. eraseS d n"
  erased same_but_cells for c n
proof unfold_locales
  fix s :: screen and D S :: int assume "seg_ok c n s"
  then show "\<exists>s'. memmoveS (row_ptr s D + c) (row_ptr s S + c) n s = Some s' \<and> same_but_cells s s' \<and>
      (\<forall>L x. in_cols s x \<longrightarrow> at s' L x =
        (if (L - D) mod NumOfLinesInBuff s = 0 \<and> c \<le> x \<and> x < c + n then at s S x else at s L x))"
    using memmoveS_line [of s c c n D S] unfolding seg_ok_def by (simp cong: if_cong)
qed (rule cpy.nxt_ptr cpy.prv_ptr cpy.fl_line cpy.same_refl cpy.same_trans cpy.same_ok
    cpy.same_frame; assumption)+

subsection \<open>The page and the history\<close>

text \<open>
  The invariant of the ring and of the page in it, and the abstract view: the list of all
  lines, oldest first, each a list of cells.
\<close>

definition page_ok :: "screen \<Rightarrow> bool" where
  "page_ok s \<longleftrightarrow> geom_ok s \<and> 0 < NumOfLines s \<and> NumOfLines s \<le> BuffEnd s \<and>
     BuffEnd s \<le> NumOfLinesInBuff s \<and> PageStart s = BuffEnd s - NumOfLines s \<and>
     BuffEndAbs s = (BuffStartAbs s + BuffEnd s) mod NumOfLinesInBuff s"

definition cursor_ok :: "screen \<Rightarrow> bool" where
  "cursor_ok s \<longleftrightarrow> 0 \<le> StatusLine s \<and> StatusLine s \<le> 1 \<and>
     0 \<le> CursorX s \<and> CursorX s < NumOfColumns s \<and> 0 \<le> CursorY s \<and> CursorY s < NumOfLines s \<and>
     0 \<le> CursorLeftM s \<and> CursorLeftM s \<le> CursorRightM s \<and> CursorRightM s < NumOfColumns s \<and>
     0 \<le> CursorTop s \<and> CursorTop s \<le> CursorBottom s \<and> CursorBottom s < NumOfLines s"

text \<open>\<open>LinePtr\<close> points to the cursor's line.\<close>

definition lineptr_ok :: "screen \<Rightarrow> bool" where
  "lineptr_ok s \<longleftrightarrow> LinePtr s = row_ptr s (PageStart s + CursorY s)"

definition screen_ok :: "screen \<Rightarrow> bool" where
  "screen_ok s \<longleftrightarrow> page_ok s \<and> cursor_ok s \<and> lineptr_ok s"

lemma same_but_cells_ok:
  assumes "same_but_cells s t"
  shows "page_ok t = page_ok s" "cursor_ok t = cursor_ok s" "lineptr_ok t = lineptr_ok s"
    "screen_ok t = screen_ok s"
  using same_frame [OF assms] same_fields [OF assms]
  by (simp_all add: page_ok_def cursor_ok_def lineptr_ok_def screen_ok_def)

definition line :: "screen \<Rightarrow> int \<Rightarrow> buff_char list" where
  "line s L = map (\<lambda>x. at s L (int x)) [0..<nat (NumOfColumns s)]"

definition history :: "screen \<Rightarrow> buff_char list list" where
  "history s = map (\<lambda>L. line s (int L)) [0..<nat (BuffEnd s)]"

definition erased_line :: "screen \<Rightarrow> buff_char list" where
  "erased_line s = replicate (nat (NumOfColumns s)) (erased s)"

lemma length_history [simp]: "length (history s) = nat (BuffEnd s)"
  by (simp add: history_def)

lemma line_cong:
  assumes "NumOfColumns s' = NumOfColumns s"
    and "\<And>x. in_cols s x \<Longrightarrow> at s' L' x = at s L x"
  shows "line s' L' = line s L"
  using assms by (auto simp: line_def in_cols_def)

lemma line_erased:
  assumes "NumOfColumns s' = NumOfColumns s"
    and "\<And>x. in_cols s x \<Longrightarrow> at s' L' x = erased s"
  shows "line s' L' = erased_line s"
  using assms by (auto simp: line_def in_cols_def erased_line_def intro!: replicate_eqI)

text \<open>The view port and pending text are not part of the page.\<close>

lemma view_frame [simp]:
  "geom_ok (s\<lparr>vw := v\<rparr>) = geom_ok s" "page_ok (s\<lparr>vw := v\<rparr>) = page_ok s"
  "cursor_ok (s\<lparr>vw := v\<rparr>) = cursor_ok s" "lineptr_ok (s\<lparr>vw := v\<rparr>) = lineptr_ok s"
  "screen_ok (s\<lparr>vw := v\<rparr>) = screen_ok s" "row_ptr (s\<lparr>vw := v\<rparr>) = row_ptr s"
  "at (s\<lparr>vw := v\<rparr>) = at s" "erased (s\<lparr>vw := v\<rparr>) = erased s" "in_cols (s\<lparr>vw := v\<rparr>) = in_cols s"
  "line (s\<lparr>vw := v\<rparr>) = line s" "history (s\<lparr>vw := v\<rparr>) = history s"
  "erased_line (s\<lparr>vw := v\<rparr>) = erased_line s"
  by (auto simp: geom_ok_def page_ok_def cursor_ok_def lineptr_ok_def screen_ok_def row_ptr_def
      at_def [abs_def] erased_def in_cols_def [abs_def] line_def [abs_def] history_def
      erased_line_def fun_eq_iff)

lemma strchange_frame [simp]:
  "geom_ok (s\<lparr>StrChangeCount := v\<rparr>) = geom_ok s" "page_ok (s\<lparr>StrChangeCount := v\<rparr>) = page_ok s"
  "cursor_ok (s\<lparr>StrChangeCount := v\<rparr>) = cursor_ok s"
  "lineptr_ok (s\<lparr>StrChangeCount := v\<rparr>) = lineptr_ok s"
  "screen_ok (s\<lparr>StrChangeCount := v\<rparr>) = screen_ok s"
  "row_ptr (s\<lparr>StrChangeCount := v\<rparr>) = row_ptr s"
  "at (s\<lparr>StrChangeCount := v\<rparr>) = at s" "erased (s\<lparr>StrChangeCount := v\<rparr>) = erased s"
  "in_cols (s\<lparr>StrChangeCount := v\<rparr>) = in_cols s"
  "line (s\<lparr>StrChangeCount := v\<rparr>) = line s" "history (s\<lparr>StrChangeCount := v\<rparr>) = history s"
  "erased_line (s\<lparr>StrChangeCount := v\<rparr>) = erased_line s"
  by (auto simp: geom_ok_def page_ok_def cursor_ok_def lineptr_ok_def screen_ok_def row_ptr_def
      at_def [abs_def] erased_def in_cols_def [abs_def] line_def [abs_def] history_def
      erased_line_def fun_eq_iff)

text \<open>Two states that differ at most in view port and pending text.\<close>

definition same_but_view :: "screen \<Rightarrow> screen \<Rightarrow> bool" where
  "same_but_view s t \<longleftrightarrow> (\<exists>v c. t = s\<lparr>vw := v, StrChangeCount := c\<rparr>)"

lemma same_but_view_refl [simp, intro]: "same_but_view s s"
  by (auto simp: same_but_view_def intro!: exI [of _ "vw s"] exI [of _ "StrChangeCount s"])

lemma same_but_view_trans:
  "same_but_view s t \<Longrightarrow> same_but_view t u \<Longrightarrow> same_but_view s u"
  unfolding same_but_view_def by fastforce

lemma same_but_viewI:
  "same_but_view s (s\<lparr>vw := v\<rparr>)" "same_but_view s (s\<lparr>StrChangeCount := c\<rparr>)"
  unfolding same_but_view_def
  by (rule exI [of _ v], rule exI [of _ "StrChangeCount s"], simp,
      rule exI [of _ "vw s"], rule exI [of _ c], simp)

lemma same_but_view_Disp:
  "same_but_view s (DispUpdateScroll s)" "same_but_view s (DispScrollToCursor x y s)"
  "same_but_view s (UpdateStr s)"
  by (auto simp: DispUpdateScroll_def DispScrollToCursor_def UpdateStr_def Let_def
      intro: same_but_viewI)

lemma same_but_view_DispCount: "same_but_view s (DispCountScroll n s)"
  unfolding DispCountScroll_def Let_def
  by (auto intro: same_but_viewI same_but_view_trans [OF _ same_but_view_Disp(1)])

lemma same_but_view_upd: "same_but_view s t \<Longrightarrow> same_but_view s (t\<lparr>vw := v\<rparr>)"
  by (rule same_but_view_trans [OF _ same_but_viewI(1)])

lemma same_but_view_DispScrollN: "same_but_view s (DispScrollNLines a b d s)"
  unfolding DispScrollNLines_def Let_def
  by (auto intro!: same_but_view_trans [OF _ same_but_view_DispCount] same_but_view_upd
      same_but_view_Disp(1))

lemma same_but_view_BuffUpdateScroll: "same_but_view s (BuffUpdateScroll s)"
  unfolding BuffUpdateScroll_def
  by (rule same_but_view_trans [OF same_but_view_Disp(3) same_but_view_Disp(1)])

lemmas same_but_view_intros = same_but_view_Disp same_but_view_DispCount
  same_but_view_DispScrollN same_but_view_BuffUpdateScroll

text \<open>What a state shares with one that differs in view port and pending text only.\<close>

lemma same_but_view_frame:
  assumes "same_but_view s t"
  shows "page_ok t = page_ok s" "cursor_ok t = cursor_ok s" "lineptr_ok t = lineptr_ok s"
    "screen_ok t = screen_ok s" "geom_ok t = geom_ok s" "row_ptr t = row_ptr s" "at t = at s"
    "erased t = erased s" "in_cols t = in_cols s" "line t = line s" "history t = history s"
    "erased_line t = erased_line s"
    "NumOfColumns t = NumOfColumns s" "NumOfLines t = NumOfLines s" "StatusLine t = StatusLine s"
    "NumOfLinesInBuff t = NumOfLinesInBuff s"
    "CursorX t = CursorX s" "CursorY t = CursorY s" "CursorTop t = CursorTop s"
    "CursorBottom t = CursorBottom s" "CursorLeftM t = CursorLeftM s"
    "CursorRightM t = CursorRightM s" "PageStart t = PageStart s" "BuffEnd t = BuffEnd s"
    "LinePtr t = LinePtr s" "CurCharAttr t = CurCharAttr s" "conv t = conv s" "Wrap t = Wrap s"
    "CodeBuffW t = CodeBuffW s" "BufferSize t = BufferSize s" "ts t = ts s"
    "BuffStartAbs t = BuffStartAbs s" "BuffEndAbs t = BuffEndAbs s"
  using assms unfolding same_but_view_def by auto

subsection \<open>A concrete screen\<close>

text \<open>
  Four columns, a page of three lines, one line of scroll-back, in a ring of five lines whose
  oldest line is the second one of the array; the cells hold consecutive letters.
\<close>

definition sample_tset :: tset where
  "sample_tset = \<lparr>KanjiCode = IdUTF8, EnableContinuedLineCopy = True, VTCompatTab = False, TabStopFlag = 15,
     TermFlag = 0, ScrollBuffMax = 10000, ScrollBuffSize = 100, EnableScrollBuff = 1,
     TerminalWidth = 4, TerminalHeight = 3, AutoScrollOnlyInBottomLine = False,
     ScrollThreshold = 12, JIS7Katakana = 0, FallbackToCP932 = False, ISO2022Flag = 0x377\<rparr>"

definition sample_view :: view where
  "sample_view = \<lparr>WinOrgX = 0, WinOrgY = 0, NewOrgX = 0, NewOrgY = 0, WinWidth = 4,
     WinHeight = 3, dScroll = 0, SRegionTop = 0, SRegionBottom = 2, ScrollCount = 0\<rparr>"

definition sample_conv :: conv_env where
  "sample_conv = \<lparr>CodePage = 932, mbcp = (\<lambda>_. [])\<rparr>"

definition sample_screen :: screen where
  "sample_screen = \<lparr>
     CodeBuffW = map (\<lambda>i. blank_cell sample_conv (word_of_int i) 0 0 0 0) [65..84],
     LinePtr = 12, BufferSize = 20, NumOfLinesInBuff = 5, BuffStartAbs = 1, BuffEndAbs = 0,
     BuffEnd = 4, PageStart = 1, NumOfColumns = 4, NumOfLines = 3, StatusLine = 0,
     CursorX = 1, CursorY = 1, CursorTop = 0, CursorBottom = 2, CursorLeftM = 0,
     CursorRightM = 3, Wrap = False, TabStops = replicate 256 0, NTabStops = 0,
     StrChangeStart = 0, StrChangeCount = 0,
     CurCharAttr = \<lparr>Attr = 0, Attr2 = 0, AttrEx = 0, Fore = 0, Back = 0\<rparr>,
     SaveBuff = None, SaveBuffX = 0, SaveBuffY = 0, Selected = False, SelectStart = (0, 0),
     SelectEnd = (0, 0), BuffLock = 0, conv = sample_conv, vw = sample_view, ts = sample_tset\<rparr>"

text \<open>The scalar fields of the sample; the array itself is only unfolded where it matters.\<close>

lemma sample_fields [simp]:
  "NumOfLinesInBuff sample_screen = 5" "NumOfColumns sample_screen = 4"
  "NumOfLines sample_screen = 3" "StatusLine sample_screen = 0" "BuffEnd sample_screen = 4"
  "BuffStartAbs sample_screen = 1" "BuffEndAbs sample_screen = 0" "PageStart sample_screen = 1"
  "BufferSize sample_screen = 20" "LinePtr sample_screen = 12"
  "CursorX sample_screen = 1" "CursorY sample_screen = 1" "CursorTop sample_screen = 0"
  "CursorBottom sample_screen = 2" "CursorLeftM sample_screen = 0"
  "CursorRightM sample_screen = 3" "length (CodeBuffW sample_screen) = 20"
  by (simp_all add: sample_screen_def)

lemma sample_ok [simp]: "geom_ok sample_screen" "page_ok sample_screen"
  "cursor_ok sample_screen" "lineptr_ok sample_screen" "screen_ok sample_screen"
  by (simp_all add: geom_ok_def page_ok_def cursor_ok_def lineptr_ok_def row_ptr_def screen_ok_def)

end
