(* ===== verification/ScreenScroll.thy ===== *)
theory ScreenScroll
  imports ScreenBuffer
begin

section \<open>Scrolling, inserting and deleting lines (teraterm/teraterm/buffer.c)\<close>

text \<open>
  \<open>BuffScroll\<close> turns the ring: lines leave the top of the page into the scroll-back and
  blank lines enter above the lines below the scroll region. The other operations move line
  segments between the margins inside the page. Calls that only draw are left out.
\<close>

subsection \<open>Operations\<close>

definition move_line :: "int \<Rightarrow> int \<Rightarrow> int \<Rightarrow> screen \<Rightarrow> screen option" where
  "move_line cols d p s = Option.bind (memcpyS d p cols s) (eraseS p cols)"

definition clamp_point :: "int \<times> int \<Rightarrow> int \<times> int" where
  "clamp_point p = (if snd p < 0 then (0, 0) else p)"

definition scroll_selection :: "int \<Rightarrow> int \<Rightarrow> screen \<Rightarrow> screen" where
  "scroll_selection Count BuffEndOld s =
     (let d = - Count + BuffEnd s - BuffEndOld;
          st = clamp_point (fst (SelectStart s), snd (SelectStart s) + d);
          en = clamp_point (fst (SelectEnd s), snd (SelectEnd s) + d)
      in s\<lparr>SelectStart := st, SelectEnd := en, Selected := ComparePoint s st en < 0\<rparr>)"

text \<open>The lines below the region move down by \<open>Count\<close>; the rest of the count is returned.\<close>

definition scroll_below :: "int \<Rightarrow> int \<Rightarrow> int \<Rightarrow> screen \<Rightarrow> (screen \<times> int \<times> int) option" where
  "scroll_below Count Bottom DestPtr s =
     (if Bottom < NumOfLines s - 1
      then do {
        SrcPtr \<leftarrow> GetLinePtr (PageStart s + NumOfLines s - 1) s;
        (s, DestPtr, SrcPtr) \<leftarrow>
          copy_lines PrevLinePtr (move_line (NumOfColumns s)) DestPtr SrcPtr
            (nat (NumOfLines s - 1 - Bottom)) s;
        Some (s, DestPtr, Count - (NumOfLines s - 1 - Bottom))
      }
      else Some (s, DestPtr, Count))"

definition ring_advance :: "int \<Rightarrow> screen \<Rightarrow> screen" where
  "ring_advance Count s =
     (let e = BuffEndAbs s + Count;
          s = s\<lparr>BuffEndAbs := (if e \<ge> NumOfLinesInBuff s then e - NumOfLinesInBuff s else e)\<rparr>;
          s = s\<lparr>BuffEnd := BuffEnd s + Count\<rparr>;
          s = (if BuffEnd s \<ge> NumOfLinesInBuff s
               then s\<lparr>BuffEnd := NumOfLinesInBuff s, BuffStartAbs := BuffEndAbs s\<rparr> else s)
      in s\<lparr>PageStart := BuffEnd s - NumOfLines s\<rparr>)"

definition BuffScroll :: "int \<Rightarrow> int \<Rightarrow> screen \<Rightarrow> screen option" where
  "BuffScroll Count0 Bottom s =
     do {
       let Count = (if Count0 > NumOfLinesInBuff s then NumOfLinesInBuff s else Count0);
       DestPtr \<leftarrow> GetLinePtr (PageStart s + NumOfLines s - 1 + Count) s;
       (s, DestPtr, n) \<leftarrow> scroll_below Count Bottom DestPtr s;
       (s, DestPtr) \<leftarrow> fill_lines PrevLinePtr (\<lambda>d. eraseS d (NumOfColumns s)) DestPtr (nat n) s;
       let BuffEndOld = BuffEnd s;
       let s = ring_advance Count s;
       let s = (if Selected s then scroll_selection Count BuffEndOld s else s);
       NewLine (PageStart s + CursorY s) s
     }"

text \<open>A wide character that straddles a column is replaced by spaces.\<close>

definition blank_kanji :: "int \<Rightarrow> screen \<Rightarrow> screen option" where
  "blank_kanji pos s =
     do {
       c \<leftarrow> cell_get pos s;
       if has_bit (attr c) AttrKanji
       then do {
         s \<leftarrow> setc 0x20 pos s;
         s \<leftarrow> cell_upd (clear_bits AttrKanji) pos s;
         s \<leftarrow> setc 0x20 (pos + 1) s;
         cell_upd (clear_bits AttrKanji) (pos + 1) s
       }
       else Some s
     }"

fun erase_margin_lines :: "int \<Rightarrow> nat \<Rightarrow> screen \<Rightarrow> screen option" where
  "erase_margin_lines ptr 0 s = Some s"
| "erase_margin_lines ptr (Suc n) s =
     do {
       s \<leftarrow> (if CursorLeftM s > 0 then blank_kanji (ptr + CursorLeftM s - 1) s else Some s);
       s \<leftarrow> (if CursorRightM s < NumOfColumns s - 1 then blank_kanji (ptr + CursorRightM s) s
            else Some s);
       erase_margin_lines (NextLinePtr s ptr) n s
     }"

definition EraseKanjiOnLRMargin :: "int \<Rightarrow> int \<Rightarrow> screen \<Rightarrow> screen option" where
  "EraseKanjiOnLRMargin ptr count s =
     (if count < 1 then Some s else erase_margin_lines ptr (nat count) s)"

text \<open>The guard in front of every call of it, with the first line of the region.\<close>

definition clip_margins :: "int \<Rightarrow> int \<Rightarrow> screen \<Rightarrow> screen option" where
  "clip_margins Line count s =
     (if CursorLeftM s > 0 \<or> CursorRightM s < NumOfColumns s - 1
      then do { p \<leftarrow> GetLinePtr Line s; EraseKanjiOnLRMargin p count s }
      else Some s)"

definition BuffInsertLines :: "int \<Rightarrow> int \<Rightarrow> screen \<Rightarrow> screen option" where
  "BuffInsertLines Count YEnd s =
     do {
       let s = BuffUpdateScroll s;
       s \<leftarrow> clip_margins (PageStart s + CursorY s) (YEnd - CursorY s + 1) s;
       SrcPtr \<leftarrow> GetLinePtr (PageStart s + YEnd - Count) s;
       DestPtr \<leftarrow> GetLinePtr (PageStart s + YEnd) s;
       let linelen = CursorRightM s - CursorLeftM s + 1;
       (s, DestPtr, SrcPtr) \<leftarrow>
         copy_lines PrevLinePtr (\<lambda>d p. memcpyS d p linelen)
           (DestPtr + CursorLeftM s) (SrcPtr + CursorLeftM s) (nat (YEnd - Count - CursorY s + 1)) s;
       (s, DestPtr) \<leftarrow> fill_lines PrevLinePtr (\<lambda>d. eraseS d linelen) DestPtr (nat Count) s;
       Some s
     }"

definition BuffDeleteLines :: "int \<Rightarrow> int \<Rightarrow> screen \<Rightarrow> screen option" where
  "BuffDeleteLines Count YEnd s =
     do {
       let s = BuffUpdateScroll s;
       s \<leftarrow> clip_margins (PageStart s + CursorY s) (YEnd - CursorY s + 1) s;
       SrcPtr \<leftarrow> GetLinePtr (PageStart s + CursorY s + Count) s;
       DestPtr \<leftarrow> GetLinePtr (PageStart s + CursorY s) s;
       let linelen = CursorRightM s - CursorLeftM s + 1;
       (s, DestPtr, SrcPtr) \<leftarrow>
         copy_lines NextLinePtr (\<lambda>d p. memcpyS d p linelen)
           (DestPtr + CursorLeftM s) (SrcPtr + CursorLeftM s) (nat (YEnd - Count - CursorY s + 1)) s;
       (s, DestPtr) \<leftarrow> fill_lines NextLinePtr (\<lambda>d. eraseS d linelen) DestPtr (nat Count) s;
       Some s
     }"

text \<open>
  Scrolling the segment between the margins by \<open>n\<close> lines, as in the second half of
  \<open>BuffScrollNLines\<close> and of the two \<open>BuffRegionScroll\<close> functions.
\<close>

definition region_up :: "int \<Rightarrow> screen \<Rightarrow> screen option" where
  "region_up n s =
     do {
       s \<leftarrow> clip_margins (PageStart s + CursorTop s) (CursorBottom s - CursorTop s + 1) s;
       let linelen = CursorRightM s - CursorLeftM s + 1;
       DestPtr \<leftarrow> GetLinePtr (PageStart s + CursorTop s) s;
       let DestPtr = DestPtr + CursorLeftM s;
       (s, DestPtr, n) \<leftarrow>
         (if n < CursorBottom s - CursorTop s + 1
          then do {
            SrcPtr \<leftarrow> GetLinePtr (PageStart s + CursorTop s + n) s;
            (s, DestPtr, SrcPtr) \<leftarrow>
              copy_lines NextLinePtr (\<lambda>d p. memmoveS d p linelen) DestPtr
                (SrcPtr + CursorLeftM s) (nat (CursorBottom s - (CursorTop s + n) + 1)) s;
            Some (s, DestPtr, n)
          }
          else Some (s, DestPtr, CursorBottom s - CursorTop s + 1));
       (s, DestPtr) \<leftarrow> fill_lines NextLinePtr (\<lambda>d. eraseS d linelen) DestPtr (nat n) s;
       Some s
     }"

definition region_down :: "int \<Rightarrow> screen \<Rightarrow> screen option" where
  "region_down n s =
     do {
       s \<leftarrow> clip_margins (PageStart s + CursorTop s) (CursorBottom s - CursorTop s + 1) s;
       let linelen = CursorRightM s - CursorLeftM s + 1;
       DestPtr \<leftarrow> GetLinePtr (PageStart s + CursorBottom s) s;
       let DestPtr = DestPtr + CursorLeftM s;
       (s, DestPtr, n) \<leftarrow>
         (if n < CursorBottom s - CursorTop s + 1
          then do {
            SrcPtr \<leftarrow> GetLinePtr (PageStart s + CursorBottom s - n) s;
            (s, DestPtr, SrcPtr) \<leftarrow>
              copy_lines PrevLinePtr (\<lambda>d p. memmoveS d p linelen) DestPtr
                (SrcPtr + CursorLeftM s) (nat (CursorBottom s - n - CursorTop s + 1)) s;
            Some (s, DestPtr, n)
          }
          else Some (s, DestPtr, CursorBottom s - CursorTop s + 1));
       (s, DestPtr) \<leftarrow> fill_lines PrevLinePtr (\<lambda>d. eraseS d linelen) DestPtr (nat n) s;
       Some s
     }"

text \<open>The display part that follows a region scroll; \<open>BuffUpdateRect\<close> only draws.\<close>

definition full_width :: "screen \<Rightarrow> bool" where
  "full_width s \<longleftrightarrow> CursorLeftM s = 0 \<and> CursorRightM s = NumOfColumns s - 1"

definition region_redraw :: "int \<Rightarrow> screen \<Rightarrow> screen" where
  "region_redraw n s =
     (if CursorLeftM s > 0 \<or> CursorRightM s < NumOfColumns s - 1 then s
      else DispScrollNLines (CursorTop s) (CursorBottom s) n s)"

fun scroll_up_loop :: "int \<Rightarrow> int \<Rightarrow> nat \<Rightarrow> screen \<Rightarrow> (screen \<times> int) option" where
  "scroll_up_loop linelen DestPtr 0 s = Some (s, DestPtr)"
| "scroll_up_loop linelen DestPtr (Suc n) s =
     do {
       let SrcPtr = PrevLinePtr s DestPtr;
       s \<leftarrow> memcpyS DestPtr SrcPtr linelen s;
       scroll_up_loop linelen SrcPtr n s
     }"

text \<open>
  \<open>ScrollUp1Line\<close> fills \<open>SrcPtr\<close> after the loop; when the region has one line the loop body
  never runs and \<open>SrcPtr\<close> is uninitialised: \<open>None\<close>.
\<close>

definition ScrollUp1Line :: "screen \<Rightarrow> screen option" where
  "ScrollUp1Line s =
     (if CursorTop s \<le> CursorY s \<and> CursorY s \<le> CursorBottom s
      then do {
        let s = UpdateStr s;
        s \<leftarrow> clip_margins (PageStart s + CursorTop s) (CursorBottom s - CursorTop s + 1) s;
        let linelen = CursorRightM s - CursorLeftM s + 1;
        DestPtr \<leftarrow> GetLinePtr (PageStart s + CursorBottom s) s;
        if CursorBottom s - 1 < CursorTop s then None
        else do {
          (s, SrcPtr) \<leftarrow> scroll_up_loop linelen (DestPtr + CursorLeftM s)
            (nat (CursorBottom s - CursorTop s)) s;
          s \<leftarrow> eraseS SrcPtr linelen s;
          Some (region_redraw (-1) s)
        }
      }
      else Some s)"

definition BuffScrollNLines :: "int \<Rightarrow> screen \<Rightarrow> screen option" where
  "BuffScrollNLines n s =
     (if n < 1 then Some s
      else
        let s = UpdateStr s; v = vw s; stay = AutoScrollOnlyInBottomLine (ts s) \<and> NewOrgY v \<noteq> 0
        in if full_width s \<and> CursorTop s = 0 \<and> CursorBottom s = NumOfLines s - 1
           then do {
             let v1 = v\<lparr>WinOrgY := WinOrgY v - n\<rparr>;
             let v2 = (if stay then v1\<lparr>NewOrgY := WinOrgY v1\<rparr> else v1);
             s \<leftarrow> BuffScroll n (CursorBottom s) (s\<lparr>vw := v2\<rparr>);
             Some (DispCountScroll n s)
           }
           else if full_width s \<and> CursorTop s = 0 \<and> CursorY s \<le> CursorBottom s
           then (if stay
                 then do {
                   let w = WinOrgY v - n;
                   s \<leftarrow> BuffScroll n (CursorBottom s) (s\<lparr>vw := v\<lparr>WinOrgY := w, NewOrgY := w\<rparr>\<rparr>);
                   Some (DispCountScroll n s)
                 }
                 else do {
                   s \<leftarrow> BuffScroll n (CursorBottom s) s;
                   Some (DispScrollNLines (WinOrgY (vw s)) (CursorBottom s) n s)
                 })
           else if CursorTop s \<le> CursorY s \<and> CursorY s \<le> CursorBottom s
           then do {
             let m = (if n < CursorBottom s - CursorTop s + 1 then n
                      else CursorBottom s - CursorTop s + 1);
             s \<leftarrow> region_up n s;
             Some (region_redraw m s)
           }
           else Some s)"

definition BuffRegionScrollUpNLines :: "int \<Rightarrow> screen \<Rightarrow> screen option" where
  "BuffRegionScrollUpNLines n s =
     (if n < 1 then Some s
      else
        let s = UpdateStr s; v = vw s
        in if full_width s \<and> CursorTop s = 0
           then (if CursorBottom s = NumOfLines s - 1
                 then do {
                   s \<leftarrow> BuffScroll n (CursorBottom s) (s\<lparr>vw := v\<lparr>WinOrgY := WinOrgY v - n\<rparr>\<rparr>);
                   Some (DispCountScroll n s)
                 }
                 else do {
                   s \<leftarrow> BuffScroll n (CursorBottom s) s;
                   Some (DispScrollNLines (WinOrgY (vw s)) (CursorBottom s) n s)
                 })
           else do {
             let m = (if n < CursorBottom s - CursorTop s + 1 then n
                      else CursorBottom s - CursorTop s + 1);
             s \<leftarrow> region_up n s;
             Some (region_redraw m s)
           })"

definition BuffRegionScrollDownNLines :: "int \<Rightarrow> screen \<Rightarrow> screen option" where
  "BuffRegionScrollDownNLines n s =
     (if n < 1 then Some s
      else do {
        let s = UpdateStr s;
        let m = (if n < CursorBottom s - CursorTop s + 1 then n
                 else CursorBottom s - CursorTop s + 1);
        s \<leftarrow> region_down n s;
        Some (region_redraw (- m) s)
      })"

definition BuffClearScreen :: "screen \<Rightarrow> screen option" where
  "BuffClearScreen s =
     (if isCursorOnStatusLine s then BuffScrollNLines 1 s
      else do {
        let s = UpdateStr s;
        s \<leftarrow> BuffScroll (NumOfLines s - StatusLine s) (NumOfLines s - 1 - StatusLine s) s;
        Some (DispScrollNLines (WinOrgY (vw s)) (NumOfLines s - 1 - StatusLine s)
                (NumOfLines s - StatusLine s) s)
      })"

definition CursorUpWithScroll :: "screen \<Rightarrow> screen option" where
  "CursorUpWithScroll s =
     (if (0 < CursorY s \<and> CursorY s < CursorTop s) \<or> CursorTop s < CursorY s
      then MoveCursor (CursorX s) (CursorY s - 1) s
      else if CursorY s = CursorTop s then ScrollUp1Line s
      else Some s)"

subsection \<open>\<open>BuffScroll\<close> turns the ring\<close>

definition scroll_frame :: "screen \<Rightarrow> screen \<Rightarrow> bool" where
  "scroll_frame s t \<longleftrightarrow> (\<exists>a b c d e f g h i. t = s\<lparr>CodeBuffW := a, LinePtr := b, BuffEndAbs := c,
     BuffEnd := d, BuffStartAbs := e, PageStart := f, SelectStart := g, SelectEnd := h,
     Selected := i\<rparr>)"

lemma scroll_frameD:
  assumes "scroll_frame s t"
  shows "NumOfColumns t = NumOfColumns s" "NumOfLines t = NumOfLines s"
    "NumOfLinesInBuff t = NumOfLinesInBuff s" "StatusLine t = StatusLine s"
    "CursorX t = CursorX s" "CursorY t = CursorY s" "CursorTop t = CursorTop s"
    "CursorBottom t = CursorBottom s" "CursorLeftM t = CursorLeftM s"
    "CursorRightM t = CursorRightM s" "CurCharAttr t = CurCharAttr s" "conv t = conv s"
    "Wrap t = Wrap s" "ts t = ts s" "vw t = vw s" "BufferSize t = BufferSize s"
    "erased t = erased s" "erased_line t = erased_line s" "cursor_ok t = cursor_ok s"
    "in_cols t = in_cols s"
  using assms unfolding scroll_frame_def
  by (auto simp: erased_def erased_line_def cursor_ok_def in_cols_def)

text \<open>Lines below the scroll region.\<close>

definition below :: "int \<Rightarrow> screen \<Rightarrow> int" where
  "below Bottom s = (if Bottom < NumOfLines s - 1 then NumOfLines s - 1 - Bottom else 0)"

text \<open>The two loops: what they leave in the old coordinates.\<close>

lemma scroll_loops:
  fixes e :: int
  assumes g: "geom_ok s" and "0 < C" "0 \<le> w" "C + w \<le> NumOfLinesInBuff s"
  defines "B \<equiv> e + C - NumOfLinesInBuff s"
  shows "\<exists>s1 s2 p q. copy_lines PrevLinePtr (move_line (NumOfColumns s)) (row_ptr s (e - 1 + C))
      (row_ptr s (e - 1)) (nat w) s = Some (s1, row_ptr s (e - 1 + C - w), p) \<and>
    fill_lines PrevLinePtr (\<lambda>d. eraseS d (NumOfColumns s)) (row_ptr s (e - 1 + C - w))
      (nat (C - w)) s1 = Some (s2, q) \<and> same_but_cells s s1 \<and> same_but_cells s s2 \<and>
    (\<forall>L x. B \<le> L \<longrightarrow> L < B + NumOfLinesInBuff s \<longrightarrow> in_cols s x \<longrightarrow> at s2 L x =
      (if e + C - w \<le> L then at s (L - C) x else if e - w \<le> L then erased s else at s L x))"
proof -
  let ?c = "NumOfColumns s"
  have ok: "seg_ok 0 ?c s" using g by (simp add: seg_ok_def geom_ok_def)
  have mv: "move_line ?c = (\<lambda>d p s. Option.bind (memcpyS d p ?c s) (eraseS p ?c))"
    by (simp add: move_line_def fun_eq_iff)
  have "B \<le> (e - 1 + C) - C - int (nat w) + 1" "e - 1 + C < B + NumOfLinesInBuff s"
    using assms by auto
  from cpy.move_lines_down [OF ok assms(2) this]
  obtain s1 where s1: "copy_lines PrevLinePtr (move_line ?c) (row_ptr s (e - 1 + C)) (row_ptr s (e - 1))
      (nat w) s = Some (s1, row_ptr s (e - 1 + C - w), row_ptr s (e - 1 - w))" "same_but_cells s s1"
    and a1: "\<And>L x. B \<le> L \<Longrightarrow> L < B + NumOfLinesInBuff s \<Longrightarrow> in_cols s x \<Longrightarrow> at s1 L x =
      (if e - 1 + C - w < L \<and> L \<le> e - 1 + C \<and> 0 \<le> x \<and> x < ?c then at s (L - C) x
       else if e - 1 - w < L \<and> L \<le> e - 1 \<and> 0 \<le> x \<and> x < ?c then erased s else at s L x)"
    using assms(3) by (auto simp: mv)
  note f1 = same_frame [OF s1(2)]
  have ok1: "seg_ok 0 ?c s1" using ok f1 by (simp add: seg_ok_def)
  have "B \<le> (e - 1 + C - w) - int (nat (C - w)) + 1" "e - 1 + C - w < B + NumOfLinesInBuff s1"
    using assms f1 by auto
  from cpy.fill_lines_down [OF ok1 this]
  obtain s2 where s2: "fill_lines PrevLinePtr (\<lambda>d. eraseS d ?c) (row_ptr s (e - 1 + C - w))
      (nat (C - w)) s1 = Some (s2, row_ptr s (e - 1 + C - w - int (nat (C - w))))" "same_but_cells s1 s2"
    and a2: "\<And>L x. B \<le> L \<Longrightarrow> L < B + NumOfLinesInBuff s \<Longrightarrow> in_cols s x \<Longrightarrow> at s2 L x =
      (if e - 1 + C - w - int (nat (C - w)) < L \<and> L \<le> e - 1 + C - w \<and> 0 \<le> x \<and> x < ?c
       then erased s else at s1 L x)"
    using f1 by auto
  have fin: "at s2 L x =
      (if e + C - w \<le> L then at s (L - C) x else if e - w \<le> L then erased s else at s L x)"
    if L: "B \<le> L" "L < B + NumOfLinesInBuff s" "in_cols s x" for L x
  proof -
    have x: "0 \<le> x" "x < ?c" using L(3) by (auto simp: in_cols_def)
    have u: "L \<le> e - 1 + C" using L(2) by (simp add: B_def)
    show ?thesis
      using assms(2,3) x u a1 [OF L] a2 [OF L] by (auto split: if_splits)
  qed
  show ?thesis
    using s1 s2 fin same_trans [OF s1(2) s2(2)] by blast
qed

lemma BuffScroll_cells:
  assumes ok: "page_ok s" and cy: "0 \<le> CursorY s" and n: "1 \<le> Count" "-1 \<le> Bottom"
  defines "C \<equiv> min Count (NumOfLinesInBuff s)" and "w \<equiv> below Bottom s"
  assumes fits: "C + w \<le> NumOfLinesInBuff s"
  shows "\<exists>s'. BuffScroll Count Bottom s = Some s' \<and> scroll_frame s s' \<and> page_ok s' \<and>
    lineptr_ok s' \<and> BuffEnd s' = min (BuffEnd s + C) (NumOfLinesInBuff s) \<and>
    (\<forall>L x. 0 \<le> L \<longrightarrow> L < BuffEnd s' \<longrightarrow> in_cols s x \<longrightarrow> at s' L x =
      (let K = L + (BuffEnd s + C - BuffEnd s')
       in if BuffEnd s + C - w \<le> K then at s (K - C) x
          else if BuffEnd s - w \<le> K then erased s else at s K x))"
proof -
  let ?N = "NumOfLinesInBuff s" and ?e = "BuffEnd s"
  have g: "geom_ok s" and N: "0 < ?N" and pg: "PageStart s = ?e - NumOfLines s"
    and nl: "0 < NumOfLines s" "NumOfLines s \<le> ?e" "?e \<le> ?N"
    and ea: "BuffEndAbs s = (BuffStartAbs s + ?e) mod ?N"
    using ok by (auto simp: page_ok_def geom_ok_def)
  have C: "0 < C" "C \<le> ?N" and w0: "0 \<le> w" using n N by (auto simp: C_def w_def below_def)
  have Cif: "(if Count > ?N then ?N else Count) = C" by (simp add: C_def min_def)
  obtain s1 s2 p q where
    l1: "copy_lines PrevLinePtr (move_line (NumOfColumns s)) (row_ptr s (?e - 1 + C))
      (row_ptr s (?e - 1)) (nat w) s = Some (s1, row_ptr s (?e - 1 + C - w), p)"
    and l2: "fill_lines PrevLinePtr (\<lambda>d. eraseS d (NumOfColumns s)) (row_ptr s (?e - 1 + C - w))
      (nat (C - w)) s1 = Some (s2, q)"
    and sm: "same_but_cells s s1" "same_but_cells s s2"
    and at2: "\<And>L x. ?e + C - ?N \<le> L \<Longrightarrow> L < ?e + C \<Longrightarrow> in_cols s x \<Longrightarrow> at s2 L x =
      (if ?e + C - w \<le> L then at s (L - C) x else if ?e - w \<le> L then erased s else at s L x)"
    using scroll_loops [OF g C(1) w0 fits, of ?e] by auto
  define e' where "e' = (let e = BuffEndAbs s + C in if e \<ge> ?N then e - ?N else e)"
  define full where "full \<longleftrightarrow> ?e + C \<ge> ?N"
  define sA where "sA = s2\<lparr>BuffEndAbs := e', BuffEnd := (if full then ?N else ?e + C),
      BuffStartAbs := (if full then e' else BuffStartAbs s),
      PageStart := (if full then ?N else ?e + C) - NumOfLines s\<rparr>"
  define sB where "sB = (if Selected sA then scroll_selection C ?e sA else sA)"
  obtain b where s2: "s2 = s\<lparr>CodeBuffW := b\<rparr>" and lb: "length b = length (CodeBuffW s)"
    using sm(2) by (auto simp: same_but_cells_iff)
  have e'_mod: "e' = (BuffStartAbs s + ?e + C) mod ?N"
  proof -
    have r: "0 \<le> BuffEndAbs s" "BuffEndAbs s < ?N" using N ea by auto
    have "e' = (BuffEndAbs s + C) mod ?N"
    proof (cases "BuffEndAbs s + C \<ge> ?N")
      case True
      have "(BuffEndAbs s + C) mod ?N = (BuffEndAbs s + C - ?N) mod ?N" by simp
      also have "\<dots> = BuffEndAbs s + C - ?N" using True r C by (intro mod_pos_pos_trivial) auto
      finally show ?thesis using True by (simp add: e'_def Let_def)
    next
      case False
      then show ?thesis using r C by (simp add: e'_def Let_def mod_pos_pos_trivial)
    qed
    then show ?thesis by (simp add: ea mod_add_left_eq)
  qed
  have e'_range: "0 \<le> e'" "e' < ?N" using N by (simp_all add: e'_mod)
  have gA: "geom_ok sA" using g lb e'_range by (auto simp: sA_def s2 geom_ok_def)
  have pA: "page_ok sA"
    using gA nl C e'_mod e'_range by (auto simp: page_ok_def sA_def s2 full_def add.assoc)
  have selB: "\<exists>x y z. sB = sA\<lparr>SelectStart := x, SelectEnd := y, Selected := z\<rparr>"
  proof (cases "Selected sA")
    case True
    then show ?thesis unfolding sB_def scroll_selection_def Let_def if_P [OF True] by blast
  next
    case False
    then have "sB = sA\<lparr>SelectStart := SelectStart sA, SelectEnd := SelectEnd sA,
        Selected := Selected sA\<rparr>" by (simp add: sB_def)
    then show ?thesis by blast
  qed
  then obtain x y z where sB: "sB = sA\<lparr>SelectStart := x, SelectEnd := y, Selected := z\<rparr>" by blast
  define s' where "s' = sB\<lparr>LinePtr := row_ptr sA (PageStart sA + CursorY s)\<rparr>"
  have rowB: "row_ptr sB = row_ptr sA" by (simp add: sB row_ptr_def fun_eq_iff)
  have nw: "NewLine (PageStart sB + CursorY sB) sB = Some s'"
  proof -
    have "geom_ok sB" using gA by (simp add: sB geom_ok_def)
    moreover have "0 \<le> PageStart sB + CursorY sB"
      using cy nl C by (simp add: sB sA_def s2 full_def)
    ultimately show ?thesis
      by (simp add: NewLine_def s'_def rowB) (simp add: sB sA_def s2)
  qed
  have "BuffScroll Count Bottom s = Some s'"
  proof -
    have fr: "BuffEnd s2 = ?e" by (simp add: s2)
    have D: "GetLinePtr (PageStart s + NumOfLines s - 1 + C) s = Some (row_ptr s (?e - 1 + C))"
      "GetLinePtr (PageStart s + NumOfLines s - 1) s = Some (row_ptr s (?e - 1))"
      using g nl C pg by (simp_all add: algebra_simps)
    have st: "scroll_below C Bottom (row_ptr s (?e - 1 + C)) s
        = Some (s1, row_ptr s (?e - 1 + C - w), C - w)"
    proof (cases "Bottom < NumOfLines s - 1")
      case True
      then have "w = NumOfLines s - 1 - Bottom" by (simp add: w_def below_def)
      moreover have "NumOfLines s1 = NumOfLines s" using sm(1) by (auto simp: same_but_cells_iff)
      ultimately show ?thesis using True D l1 by (simp add: scroll_below_def)
    next
      case False
      then have "w = 0" by (simp add: w_def below_def)
      then show ?thesis using False l1 by (simp add: scroll_below_def)
    qed
    have "ring_advance C s2 = sA"
      by (simp add: ring_advance_def sA_def e'_def full_def Let_def s2)
    then show ?thesis
      using D st l2 nw same_frame [OF sm(1)] fr
      by (simp add: BuffScroll_def Cif sB_def Let_def split: if_splits)
  qed
  moreover have "scroll_frame s s'"
    unfolding scroll_frame_def
    by (rule exI [of _ "CodeBuffW s'"], rule exI [of _ "LinePtr s'"], rule exI [of _ "BuffEndAbs s'"],
        rule exI [of _ "BuffEnd s'"], rule exI [of _ "BuffStartAbs s'"], rule exI [of _ "PageStart s'"],
        rule exI [of _ "SelectStart s'"], rule exI [of _ "SelectEnd s'"], rule exI [of _ "Selected s'"])
      (simp add: s'_def sB sA_def s2)
  moreover have "page_ok s'" "lineptr_ok s'"
    using pA by (simp_all add: s'_def sB page_ok_def geom_ok_def lineptr_ok_def row_ptr_def)
      (simp add: sA_def s2)
  moreover have e: "BuffEnd s' = min (?e + C) ?N"
    by (simp add: s'_def sB sA_def s2 full_def min_def)
  moreover have "at s' L x = (let K = L + (?e + C - BuffEnd s')
       in if ?e + C - w \<le> K then at s (K - C) x
          else if ?e - w \<le> K then erased s else at s K x)"
    if L: "0 \<le> L" "L < BuffEnd s'" "in_cols s x" for L x
  proof -
    define K where "K = L + (?e + C - BuffEnd s')"
    have "(BuffStartAbs s' + L) mod ?N = (BuffStartAbs s + K) mod ?N"
    proof (cases full)
      case True
      have "(BuffStartAbs s + ?e + C) mod ?N = (BuffStartAbs s + ?e + C - ?N) mod ?N" by simp
      then have "(e' + L) mod ?N = (BuffStartAbs s + ?e + C - ?N + L) mod ?N"
        unfolding e'_mod by (metis mod_add_left_eq)
      then show ?thesis
        using True e by (simp add: s'_def sB sA_def K_def full_def algebra_simps)
    next
      case False
      then show ?thesis using e by (simp add: s'_def sB sA_def s2 K_def full_def)
    qed
    then have "at s' L x = at s2 K x"
      by (simp add: at_def row_ptr_def) (simp add: s'_def sB sA_def s2)
    moreover have "?e + C - ?N \<le> K" "K < ?e + C" using L e by (auto simp: K_def)
    ultimately show ?thesis using at2 [OF _ _ L(3), of K] by (simp add: K_def Let_def)
  qed
  ultimately show ?thesis by blast
qed

text \<open>
  The abstract step: \<open>n\<close> blank lines enter the list of lines above the last \<open>w\<close> ones, and
  the oldest lines leave until at most \<open>N\<close> are left.
\<close>

definition scroll_spec :: "nat \<Rightarrow> nat \<Rightarrow> nat \<Rightarrow> 'a \<Rightarrow> 'a list \<Rightarrow> 'a list" where
  "scroll_spec N n w b h =
     (let h' = take (length h - w) h @ replicate n b @ drop (length h - w) h
      in drop (length h' - N) h')"

lemma length_scroll_spec: "length (scroll_spec N n w b h) = min (length h + n) N"
proof -
  define h' where "h' = take (length h - w) h @ replicate n b @ drop (length h - w) h"
  have "length h' = length h + n" unfolding h'_def length_append length_replicate
    length_take length_drop by linarith
  then show ?thesis unfolding scroll_spec_def Let_def h'_def [symmetric] length_drop by linarith
qed

lemma nth_scroll_spec:
  assumes "i < min (length h + n) N" "w \<le> length h"
  defines "K \<equiv> i + (length h + n - min (length h + n) N)"
  shows "scroll_spec N n w b h ! i =
    (if length h + n - w \<le> K then h ! (K - n) else if length h - w \<le> K then b else h ! K)"
proof -
  let ?k = "length h - w"
  define h' where "h' = take ?k h @ replicate n b @ drop ?k h"
  have lh: "length h' = length h + n" unfolding h'_def length_append length_replicate
    length_take length_drop by linarith
  have K: "K = length h' - N + i" unfolding K_def lh by linarith
  have less: "K < length h + n" unfolding K_def using assms(1) by linarith
  have len: "length (take ?k h) = ?k" by simp
  have "scroll_spec N n w b h ! i = h' ! K"
    unfolding scroll_spec_def Let_def h'_def [symmetric] using assms(1) K lh
    by (subst nth_drop) simp_all
  also have "\<dots> = (if length h + n - w \<le> K then h ! (K - n) else if ?k \<le> K then b else h ! K)"
  proof -
    consider "length h + n - w \<le> K" | "?k \<le> K" "K < length h + n - w" | "K < ?k" by linarith
    then show ?thesis
    proof cases
      case 1
      have "\<not> K < ?k" "\<not> K - ?k < n" "?k + (K - ?k - n) = K - n" using 1 assms(2) by linarith+
      then show ?thesis using 1 by (simp add: h'_def nth_append len)
    next
      case 2
      then have "\<not> K < ?k" "K - ?k < n" using assms(2) by linarith+
      then show ?thesis using 2 by (simp add: h'_def nth_append len)
    next
      case 3
      then have "\<not> length h + n - w \<le> K" by linarith
      then show ?thesis using 3 by (simp add: h'_def nth_append len)
    qed
  qed
  finally show ?thesis .
qed

lemma BuffScroll_turns:
  assumes "page_ok s" "0 \<le> CursorY s" "1 \<le> Count" "-1 \<le> Bottom"
    and "min Count (NumOfLinesInBuff s) + below Bottom s \<le> NumOfLinesInBuff s"
  shows "\<exists>s'. BuffScroll Count Bottom s = Some s' \<and> page_ok s' \<and> lineptr_ok s' \<and>
    history s' = scroll_spec (nat (NumOfLinesInBuff s))
      (nat (min Count (NumOfLinesInBuff s))) (nat (below Bottom s)) (erased_line s) (history s)"
proof -
  let ?N = "NumOfLinesInBuff s" and ?e = "BuffEnd s"
  define C where "C = min Count ?N"
  define w where "w = below Bottom s"
  obtain s' where s': "BuffScroll Count Bottom s = Some s'" "scroll_frame s s'" "page_ok s'"
      "lineptr_ok s'" and e': "BuffEnd s' = min (?e + C) ?N"
    and cells: "\<And>L x. 0 \<le> L \<Longrightarrow> L < BuffEnd s' \<Longrightarrow> in_cols s x \<Longrightarrow> at s' L x =
      (let K = L + (?e + C - BuffEnd s')
       in if ?e + C - w \<le> K then at s (K - C) x
          else if ?e - w \<le> K then erased s else at s K x)"
    using BuffScroll_cells [OF assms] unfolding C_def w_def by blast
  have pos: "0 < ?N" "NumOfLines s \<le> ?e" "0 < NumOfLines s" "?e \<le> ?N"
    using assms(1) by (auto simp: page_ok_def geom_ok_def)
  have w: "0 \<le> w" "w \<le> NumOfLines s" using assms(4) pos by (auto simp: w_def below_def)
  have C: "0 < C" using assms(3) pos by (simp add: C_def)
  have lines: "line s' L = (let K = L + (?e + C - BuffEnd s')
       in if ?e + C - w \<le> K then line s (K - C)
          else if ?e - w \<le> K then erased_line s else line s K)"
    if "0 \<le> L" "L < BuffEnd s'" for L
  proof -
    have n: "NumOfColumns s' = NumOfColumns s" using scroll_frameD [OF s'(2)] by simp
    show ?thesis
      using cells [OF that] by (auto simp: Let_def intro!: line_cong [OF n] line_erased [OF n])
  qed
  have "history s' = scroll_spec (nat ?N) (nat C) (nat w) (erased_line s) (history s)"
  proof (rule nth_equalityI)
    show "length (history s')
        = length (scroll_spec (nat ?N) (nat C) (nat w) (erased_line s) (history s))"
      using e' pos C by (simp add: length_scroll_spec min_def nat_add_distrib)
    fix i assume "i < length (history s')"
    then have i: "int i < BuffEnd s'" by simp
    define K where "K = i + (nat ?e + nat C - min (nat ?e + nat C) (nat ?N))"
    have K: "int K = int i + (?e + C - BuffEnd s')" unfolding K_def using e' pos C by linarith
    have Kb: "int K < ?e + C" using K i by simp
    have il: "i < min (nat ?e + nat C) (nat ?N)" using i e' pos C by linarith
    have wl: "nat w \<le> nat ?e" using w pos by linarith
    have h: "history s ! j = line s (int j)" if "j < nat ?e" for j
      using that by (simp add: history_def)
    have "scroll_spec (nat ?N) (nat C) (nat w) (erased_line s) (history s) ! i =
        (if nat ?e + nat C - nat w \<le> K then history s ! (K - nat C)
         else if nat ?e - nat w \<le> K then erased_line s else history s ! K)"
      unfolding K_def
      using nth_scroll_spec [of i "history s" "nat C" "nat ?N" "nat w" "erased_line s"] il wl
      unfolding length_history by blast
    also have "\<dots> = (if ?e + C - w \<le> int K then line s (int K - C)
          else if ?e - w \<le> int K then erased_line s else line s (int K))"
    proof -
      have c: "nat ?e + nat C - nat w \<le> K \<longleftrightarrow> ?e + C - w \<le> int K"
        "nat ?e - nat w \<le> K \<longleftrightarrow> ?e - w \<le> int K" using w pos C by linarith+
      have "history s ! (K - nat C) = line s (int K - C)" if "?e + C - w \<le> int K"
      proof -
        have "K - nat C < nat ?e" "int (K - nat C) = int K - C" using that Kb w C pos by linarith+
        then show ?thesis using h by metis
      qed
      moreover have "history s ! K = line s (int K)" if "int K < ?e - w"
        using that w by (intro h) linarith
      ultimately show ?thesis unfolding c by auto
    qed
    also have "\<dots> = history s' ! i"
      using lines [of "int i"] i K by (simp add: history_def Let_def)
    finally show "history s' ! i
        = scroll_spec (nat ?N) (nat C) (nat w) (erased_line s) (history s) ! i" by simp
  qed
  then show ?thesis using s' unfolding C_def w_def by blast
qed

text \<open>
  C1. Scrolling the page by \<open>Count\<close> lines above the lines below row \<open>Bottom\<close> changes the
  list of all lines (scroll-back and page) by exactly this step: blank lines in the current
  colours come in under the scroll region, the lines below the region keep their contents at
  the bottom of the page, and the oldest lines leave the ring when it is full. It never leaves
  the array, keeps the ring's invariant, and leaves \<open>LinePtr\<close> on the cursor's line. The
  count and the lines below the region must fit into the ring together.
\<close>
theorem BuffScroll_history:
  assumes "page_ok s" "0 \<le> CursorY s" "1 \<le> Count" "-1 \<le> Bottom"
    and "min Count (NumOfLinesInBuff s) + below Bottom s \<le> NumOfLinesInBuff s"
  shows "\<exists>s'. BuffScroll Count Bottom s = Some s' \<and> page_ok s' \<and> lineptr_ok s' \<and>
    history s' = scroll_spec (nat (NumOfLinesInBuff s))
      (nat (min Count (NumOfLinesInBuff s))) (nat (below Bottom s)) (erased_line s) (history s)"
  by (rule BuffScroll_turns [OF assms])

lemma BuffScroll_history_witness:
  "\<exists>s'. BuffScroll 2 1 sample_screen = Some s' \<and>
     history s' = scroll_spec 5 2 1 (erased_line sample_screen) (history sample_screen)"
  using BuffScroll_history [of sample_screen 2 1] by (auto simp: below_def)

subsection \<open>Clipping wide characters at the margins\<close>

text \<open>
  What \<open>EraseKanjiOnLRMargin\<close> does to one line, as a function of the line: the wide
  character that crosses the left margin, then the one that crosses the right margin, become
  two spaces. The attributes other than \<open>AttrKanji\<close> stay.
\<close>

definition bk :: "conv_env \<Rightarrow> buff_char \<Rightarrow> buff_char" where
  "bk cv c = clear_bits AttrKanji (BuffSetChar cv c 0x20 CHR ''H'')"

definition clip_pair :: "conv_env \<Rightarrow> int \<Rightarrow> (int \<Rightarrow> buff_char) \<Rightarrow> int \<Rightarrow> buff_char" where
  "clip_pair cv p row =
     (if has_bit (attr (row p)) AttrKanji
      then row(p := bk cv (row p), p + 1 := bk cv (row (p + 1))) else row)"

definition clip_row :: "screen \<Rightarrow> (int \<Rightarrow> buff_char) \<Rightarrow> int \<Rightarrow> buff_char" where
  "clip_row s row =
     (let row = (if CursorLeftM s > 0 then clip_pair (conv s) (CursorLeftM s - 1) row else row)
      in if CursorRightM s < NumOfColumns s - 1 then clip_pair (conv s) (CursorRightM s) row else row)"

lemma clip_row_outside:
  assumes "x \<notin> {CursorLeftM s - 1, CursorLeftM s, CursorRightM s, CursorRightM s + 1}"
  shows "clip_row s row x = row x"
  using assms by (auto simp: clip_row_def clip_pair_def Let_def)

lemma clip_row_full: "full_width s \<Longrightarrow> clip_row s row = row"
  by (simp add: clip_row_def full_width_def)

lemma clip_pair_cong:
  assumes "row' p = row p" "x = p + 1 \<Longrightarrow> row' x = row x" "row' x = row x"
  shows "clip_pair cv p row' x = clip_pair cv p row x"
  using assms by (auto simp: clip_pair_def)

lemma clip_row_cong:
  assumes "cursor_ok s" "in_cols s x" "\<And>y. in_cols s y \<Longrightarrow> row' y = row y"
  shows "clip_row s row' x = clip_row s row x"
proof -
  define left where "left r = (if CursorLeftM s > 0 then clip_pair (conv s) (CursorLeftM s - 1) r else r)"
    for r :: "int \<Rightarrow> buff_char"
  have left: "left row' y = left row y" if "in_cols s y" for y
    using assms(1,3) that unfolding left_def
    by (auto simp: cursor_ok_def in_cols_def intro: clip_pair_cong)
  have "in_cols s (CursorRightM s)" using assms(1) by (simp add: cursor_ok_def in_cols_def)
  then show ?thesis unfolding clip_row_def Let_def left_def [symmetric]
    using assms(2) by (auto intro!: clip_pair_cong left)
qed

lemma blank_kanji_row:
  assumes g: "geom_ok s" and p: "in_cols s p" "in_cols s (p + 1)"
  shows "\<exists>s'. blank_kanji (row_ptr s D + p) s = Some s' \<and> same_but_cells s s' \<and>
    (\<forall>L x. in_cols s x \<longrightarrow> at s' L x =
      (if (L - D) mod NumOfLinesInBuff s = 0 then clip_pair (conv s) p (at s D) x else at s L x))"
proof (cases "has_bit (attr (at s D p)) AttrKanji")
  case False
  have "blank_kanji (row_ptr s D + p) s = Some s"
    using False g p by (simp add: blank_kanji_def cell_get_at)
  moreover have "clip_pair (conv s) p (at s D) = at s D" using False by (simp add: clip_pair_def)
  ultimately show ?thesis by (intro exI [of _ s]) (simp only: at_period_if same_refl simp_thms)
next
  case True
  have e: "row_ptr s D + p + 1 = row_ptr s D + (p + 1)" by simp
  obtain s1 where s1: "setc 0x20 (row_ptr s D + p) s = Some s1" "same_but_cells s s1"
    and a1: "\<And>L x. in_cols s x \<Longrightarrow> at s1 L x = (if (L - D) mod NumOfLinesInBuff s = 0 \<and> x = p
      then BuffSetChar (conv s) (at s D p) 0x20 CHR ''H'' else at s L x)"
    using cell_upd_at [OF g p(1), of "\<lambda>c. BuffSetChar (conv s) c 0x20 CHR ''H''" D]
    unfolding setc_def by blast
  note f1 = same_frame [OF s1(2)] same_fields [OF s1(2)]
  obtain s2 where s2: "cell_upd (clear_bits AttrKanji) (row_ptr s D + p) s1 = Some s2"
      "same_but_cells s1 s2"
    and a2: "\<And>L x. in_cols s x \<Longrightarrow> at s2 L x = (if (L - D) mod NumOfLinesInBuff s = 0 \<and> x = p
      then clear_bits AttrKanji (at s1 D p) else at s1 L x)"
    using cell_upd_at [of s1 p "clear_bits AttrKanji" D] g p f1 by auto
  note f2 = same_frame [OF s2(2)] same_fields [OF s2(2)]
  obtain s3 where s3: "setc 0x20 (row_ptr s D + (p + 1)) s2 = Some s3" "same_but_cells s2 s3"
    and a3: "\<And>L x. in_cols s x \<Longrightarrow> at s3 L x = (if (L - D) mod NumOfLinesInBuff s = 0 \<and> x = p + 1
      then BuffSetChar (conv s) (at s2 D (p + 1)) 0x20 CHR ''H'' else at s2 L x)"
    using cell_upd_at [of s2 "p + 1" "\<lambda>c. BuffSetChar (conv s) c 0x20 CHR ''H''" D] g p f1 f2
    unfolding setc_def by auto
  note f3 = same_frame [OF s3(2)] same_fields [OF s3(2)]
  obtain s4 where s4: "cell_upd (clear_bits AttrKanji) (row_ptr s D + (p + 1)) s3 = Some s4"
      "same_but_cells s3 s4"
    and a4: "\<And>L x. in_cols s x \<Longrightarrow> at s4 L x = (if (L - D) mod NumOfLinesInBuff s = 0 \<and> x = p + 1
      then clear_bits AttrKanji (at s3 D (p + 1)) else at s3 L x)"
    using cell_upd_at [of s3 "p + 1" "clear_bits AttrKanji" D] g p f1 f2 f3 by auto
  have run: "blank_kanji (row_ptr s D + p) s = Some s4"
    using True s1 s2 s3 s4 g p by (simp add: blank_kanji_def cell_get_at e)
  have sm: "same_but_cells s s4" using s1(2) s2(2) s3(2) s4(2) by (blast intro: same_trans)
  have "at s4 L x = clip_pair (conv s) p (at s D) x"
    if "(L - D) mod NumOfLinesInBuff s = 0" "in_cols s x" for L x
    using True that p at_period [OF that(1), of x]
    by (simp add: a1 a2 a3 a4 clip_pair_def bk_def)
  moreover have "at s4 L x = at s L x"
    if "(L - D) mod NumOfLinesInBuff s \<noteq> 0" "in_cols s x" for L x
    using that by (simp add: a1 a2 a3 a4)
  ultimately show ?thesis using run sm by auto
qed

text \<open>The two guarded calls of one iteration.\<close>

lemma clip_line:
  assumes g: "geom_ok s" and c: "cursor_ok s"
  shows "\<exists>s1 s2. (if CursorLeftM s > 0 then blank_kanji (row_ptr s D + CursorLeftM s - 1) s
      else Some s) = Some s1 \<and>
    (if CursorRightM s1 < NumOfColumns s1 - 1 then blank_kanji (row_ptr s D + CursorRightM s1) s1
      else Some s1) = Some s2 \<and> same_but_cells s s2 \<and>
    (\<forall>L x. in_cols s x \<longrightarrow> at s2 L x =
      (if (L - D) mod NumOfLinesInBuff s = 0 then clip_row s (at s D) x else at s L x))"
proof -
  define row1 where "row1 = (if CursorLeftM s > 0
    then clip_pair (conv s) (CursorLeftM s - 1) (at s D) else at s D)"
  have "\<exists>s1. (if CursorLeftM s > 0 then blank_kanji (row_ptr s D + CursorLeftM s - 1) s
      else Some s) = Some s1 \<and> same_but_cells s s1 \<and>
    (\<forall>L x. in_cols s x \<longrightarrow> at s1 L x =
      (if (L - D) mod NumOfLinesInBuff s = 0 then row1 x else at s L x))"
  proof (cases "CursorLeftM s > 0")
    case True
    then have "in_cols s (CursorLeftM s - 1)" "in_cols s (CursorLeftM s - 1 + 1)"
      using c by (auto simp: in_cols_def cursor_ok_def)
    from blank_kanji_row [OF g this, of D] show ?thesis
      by (simp only: row1_def if_P [OF True] add_diff_eq)
  next
    case False
    then show ?thesis
      by (intro exI [of _ s]) (simp only: at_period_if same_refl simp_thms row1_def if_False)
  qed
  then obtain s1 where
    s1: "(if CursorLeftM s > 0 then blank_kanji (row_ptr s D + CursorLeftM s - 1) s
      else Some s) = Some s1" "same_but_cells s s1"
    and a1: "\<And>L x. in_cols s x \<Longrightarrow> at s1 L x =
      (if (L - D) mod NumOfLinesInBuff s = 0 then row1 x else at s L x)" by blast
  note f1 = same_frame [OF s1(2)] same_fields [OF s1(2)]
  have row: "clip_row s (at s D) = (if CursorRightM s < NumOfColumns s - 1
      then clip_pair (conv s) (CursorRightM s) row1 else row1)"
    by (simp add: clip_row_def row1_def Let_def)
  have D1: "at s1 D x = row1 x" if "in_cols s x" for x using a1 [OF that, of D] by simp
  have "\<exists>s2. (if CursorRightM s1 < NumOfColumns s1 - 1
      then blank_kanji (row_ptr s D + CursorRightM s1) s1 else Some s1) = Some s2 \<and>
    same_but_cells s1 s2 \<and> (\<forall>L x. in_cols s x \<longrightarrow> at s2 L x =
      (if (L - D) mod NumOfLinesInBuff s = 0 then clip_row s (at s D) x else at s L x))"
  proof (cases "CursorRightM s < NumOfColumns s - 1")
    case True
    then have i: "in_cols s (CursorRightM s)" "in_cols s (CursorRightM s + 1)"
      using c by (auto simp: in_cols_def cursor_ok_def)
    then have g1: "geom_ok s1" "in_cols s1 (CursorRightM s)" "in_cols s1 (CursorRightM s + 1)"
      using g f1 by auto
    have "clip_pair (conv s) (CursorRightM s) (at s1 D) x = clip_row s (at s D) x"
      if "in_cols s x" for x
      using True that i by (simp add: row clip_pair_def D1)
    then show ?thesis using blank_kanji_row [OF g1, of D] True f1 a1 by auto
  next
    case False
    then show ?thesis using f1 a1 row by auto
  qed
  then show ?thesis using s1 same_trans [OF s1(2)] by blast
qed

lemma erase_margin_lines_rows:
  assumes "geom_ok s" "cursor_ok s" "B \<le> D" "D + int n \<le> B + NumOfLinesInBuff s"
  shows "\<exists>s'. erase_margin_lines (row_ptr s D) n s = Some s' \<and> same_but_cells s s' \<and>
    (\<forall>L x. B \<le> L \<longrightarrow> L < B + NumOfLinesInBuff s \<longrightarrow> in_cols s x \<longrightarrow> at s' L x =
      (if D \<le> L \<and> L < D + int n then clip_row s (at s L) x else at s L x))"
  using assms
proof (induction n arbitrary: s D)
  case 0
  then show ?case by auto
next
  case (Suc n)
  obtain s1 s2 where
    st: "(if CursorLeftM s > 0 then blank_kanji (row_ptr s D + CursorLeftM s - 1) s
      else Some s) = Some s1"
    "(if CursorRightM s1 < NumOfColumns s1 - 1 then blank_kanji (row_ptr s D + CursorRightM s1) s1
      else Some s1) = Some s2" and sm: "same_but_cells s s2"
    and a2: "\<And>L x. in_cols s x \<Longrightarrow> at s2 L x =
      (if (L - D) mod NumOfLinesInBuff s = 0 then clip_row s (at s D) x else at s L x)"
    using clip_line [OF Suc.prems(1,2), of D] by blast
  note f = same_frame [OF sm] same_fields [OF sm]
  have ok2: "geom_ok s2" "cursor_ok s2" "B \<le> D + 1" "D + 1 + int n \<le> B + NumOfLinesInBuff s2"
    using Suc.prems f by (auto simp: same_but_cells_ok [OF sm])
  have rowf: "clip_row s2 = clip_row s" using f by (simp add: clip_row_def fun_eq_iff)
  obtain s3 where s3: "erase_margin_lines (row_ptr s (D + 1)) n s2 = Some s3" "same_but_cells s2 s3"
    and a3: "\<And>L x. B \<le> L \<Longrightarrow> L < B + NumOfLinesInBuff s \<Longrightarrow> in_cols s x \<Longrightarrow> at s3 L x =
      (if D + 1 \<le> L \<and> L < D + 1 + int n then clip_row s (at s2 L) x else at s2 L x)"
    using Suc.IH [OF ok2] f rowf by auto
  have nx: "NextLinePtr s2 (row_ptr s D) = row_ptr s (D + 1)"
    using NextLinePtr_row [OF ok2(1), of 0 D] ok2(1) f by (simp add: geom_ok_def)
  have run: "erase_margin_lines (row_ptr s D) (Suc n) s = Some s3"
    using st s3 nx by simp
  have "at s3 L x = (if D \<le> L \<and> L < D + int (Suc n) then clip_row s (at s L) x else at s L x)"
    if L: "B \<le> L" "L < B + NumOfLinesInBuff s" "in_cols s x" for L x
  proof -
    have w: "(L - D) mod NumOfLinesInBuff s = 0 \<longleftrightarrow> L = D"
      using window_mod [of B L "NumOfLinesInBuff s" D] L Suc.prems by auto
    have "clip_row s (at s2 L) x = clip_row s (at s L) x" if "L \<noteq> D"
    proof -
      have "\<And>y. in_cols s y \<Longrightarrow> at s2 L y = at s L y" using a2 [of _ L] w that by simp
      then show ?thesis by (rule clip_row_cong [OF Suc.prems(2) L(3)])
    qed
    then show ?thesis using a3 [OF L] a2 [OF L(3), of L] w by auto
  qed
  then show ?case using run same_trans [OF sm s3(2)] by blast
qed

subsection \<open>Shifting lines between the margins\<close>

definition clipped :: "screen \<Rightarrow> int \<Rightarrow> int \<Rightarrow> int \<Rightarrow> int \<Rightarrow> buff_char" where
  "clipped s T Bo L = (if T \<le> L \<and> L \<le> Bo then clip_row s (at s L) else at s L)"

lemma clipped_view:
  assumes "same_but_view s t" shows "clipped t = clipped s"
proof -
  note v = same_but_view_frame [OF assms]
  have "clip_row t = clip_row s" unfolding clip_row_def [abs_def] v ..
  then show ?thesis unfolding clipped_def [abs_def] v by (rule ssubst) (rule refl)
qed

text \<open>The rectangle of lines \<open>T..Bo\<close> and columns \<open>l..r\<close> moves by \<open>n\<close> lines; \<open>b\<close> comes in.\<close>

definition rows_up ::
  "int \<Rightarrow> int \<Rightarrow> int \<Rightarrow> int \<Rightarrow> int \<Rightarrow> 'c \<Rightarrow> (int \<Rightarrow> int \<Rightarrow> 'c) \<Rightarrow> int \<Rightarrow> int \<Rightarrow> 'c" where
  "rows_up T Bo l r n b g L x =
     (if T \<le> L \<and> L \<le> Bo \<and> l \<le> x \<and> x \<le> r
      then if L + n \<le> Bo then g (L + n) x else b else g L x)"

definition rows_down ::
  "int \<Rightarrow> int \<Rightarrow> int \<Rightarrow> int \<Rightarrow> int \<Rightarrow> 'c \<Rightarrow> (int \<Rightarrow> int \<Rightarrow> 'c) \<Rightarrow> int \<Rightarrow> int \<Rightarrow> 'c" where
  "rows_down T Bo l r n b g L x =
     (if T \<le> L \<and> L \<le> Bo \<and> l \<le> x \<and> x \<le> r
      then if T \<le> L - n then g (L - n) x else b else g L x)"

lemma clip_margins_rows:
  assumes "geom_ok s" "cursor_ok s" "0 \<le> T" "T \<le> Bo" "Bo < NumOfLinesInBuff s"
  shows "\<exists>s'. clip_margins T (Bo - T + 1) s = Some s' \<and> same_but_cells s s' \<and>
    (\<forall>L x. 0 \<le> L \<longrightarrow> L < NumOfLinesInBuff s \<longrightarrow> in_cols s x \<longrightarrow>
       at s' L x = clipped s T Bo L x)"
proof (cases "CursorLeftM s > 0 \<or> CursorRightM s < NumOfColumns s - 1")
  case True
  have "\<exists>s'. erase_margin_lines (row_ptr s T) (nat (Bo - T + 1)) s = Some s' \<and>
    same_but_cells s s' \<and> (\<forall>L x. 0 \<le> L \<longrightarrow> L < NumOfLinesInBuff s \<longrightarrow> in_cols s x \<longrightarrow>
       at s' L x = clipped s T Bo L x)"
    using erase_margin_lines_rows [OF assms(1,2,3), of "nat (Bo - T + 1)"] assms
    by (auto simp: clipped_def)
  then show ?thesis
    using True assms by (simp add: clip_margins_def EraseKanjiOnLRMargin_def)
next
  case False
  then have "clip_row s row = row" for row by (simp add: clip_row_def)
  then show ?thesis using False by (auto simp: clip_margins_def clipped_def)
qed

text \<open>The segment between the margins is a segment the line loops work on.\<close>

lemma seg_ok_margins:
  "geom_ok s \<Longrightarrow> cursor_ok s \<Longrightarrow>
    seg_ok (CursorLeftM s) (CursorRightM s - CursorLeftM s + 1) s"
  by (auto simp: seg_ok_def cursor_ok_def)

text \<open>
  C3. DL: between cursor line and \<open>YEnd\<close>, and between the margins, lines move up by \<open>Count\<close>
  and erased lines come in; every other cell of the ring keeps its value.
\<close>

theorem BuffDeleteLines_rows:
  assumes "screen_ok s" "0 \<le> Count" "Count \<le> YEnd - CursorY s + 1" "CursorY s \<le> YEnd"
    "YEnd < NumOfLines s"
  shows "\<exists>s'. BuffDeleteLines Count YEnd s = Some s' \<and> screen_ok s' \<and>
    (\<forall>L x. 0 \<le> L \<longrightarrow> L < NumOfLinesInBuff s \<longrightarrow> in_cols s x \<longrightarrow> at s' L x =
      rows_up (PageStart s + CursorY s) (PageStart s + YEnd) (CursorLeftM s) (CursorRightM s)
        Count (erased s) (clipped s (PageStart s + CursorY s) (PageStart s + YEnd)) L x)"
proof -
  define s0 where "s0 = BuffUpdateScroll s"
  define T where "T = PageStart s + CursorY s"
  define Bo where "Bo = PageStart s + YEnd"
  note v = same_but_view_frame [OF same_but_view_BuffUpdateScroll, of s, folded s0_def]
  have ok: "geom_ok s0" "cursor_ok s0" "screen_ok s0"
    using assms(1) v by (simp_all add: screen_ok_def page_ok_def)
  have r: "0 \<le> T" "T \<le> Bo" "Bo < NumOfLinesInBuff s"
    using assms by (auto simp: T_def Bo_def screen_ok_def page_ok_def cursor_ok_def)
  obtain s1 where s1: "clip_margins T (Bo - T + 1) s0 = Some s1" "same_but_cells s0 s1"
    and a1: "\<And>L x. 0 \<le> L \<Longrightarrow> L < NumOfLinesInBuff s \<Longrightarrow> in_cols s x \<Longrightarrow>
      at s1 L x = clipped s0 T Bo L x"
    using clip_margins_rows [OF ok(1,2), of T Bo] r v by auto
  note f = same_frame [OF s1(2)] same_fields [OF s1(2)] same_but_cells_ok [OF s1(2)]
  let ?l = "CursorLeftM s" and ?len = "CursorRightM s - CursorLeftM s + 1"
  define m where "m = nat (YEnd - Count - CursorY s + 1)"
  have m: "int m = Bo - T + 1 - Count" using assms(3) by (simp add: m_def T_def Bo_def)
  have so: "seg_ok ?l ?len s1" using seg_ok_margins [of s1] ok f v by simp
  have ran: "T + Count + int m \<le> 0 + NumOfLinesInBuff s1" using m r f v by simp
  from cpy.shift_up [OF so assms(2) r(1) ran] obtain s2 s3 p q where
    c2: "copy_lines NextLinePtr (\<lambda>d p. memcpyS d p ?len) (row_ptr s1 T + ?l) (row_ptr s1 (T + Count) + ?l)
      m s1 = Some (s2, row_ptr s1 (T + int m) + ?l, p)"
    and c3: "fill_lines NextLinePtr (\<lambda>d. eraseS d ?len) (row_ptr s1 (T + int m) + ?l) (nat Count) s2
      = Some (s3, q)" and sm: "same_but_cells s1 s3"
    and a3: "\<And>L x. 0 \<le> L \<Longrightarrow> L < 0 + NumOfLinesInBuff s1 \<Longrightarrow> in_cols s1 x \<Longrightarrow> at s3 L x =
      (if T \<le> L \<and> L < T + int m + Count \<and> ?l \<le> x \<and> x < ?l + ?len
       then if L < T + int m then at s1 (L + Count) x else erased s1 else at s1 L x)"
    by blast
  have run: "BuffDeleteLines Count YEnd s = Some s3"
    using s1(1) c2 c3 r assms(2) f v ok
    by (simp add: BuffDeleteLines_def s0_def [symmetric] T_def Bo_def m_def add.commute add.left_commute)
  have cl: "clipped s0 = clipped s"
    unfolding s0_def by (rule clipped_view [OF same_but_view_BuffUpdateScroll])
  have "screen_ok s3" using ok f same_but_cells_ok [OF sm] by simp
  moreover have "at s3 L x = rows_up T Bo ?l (CursorRightM s) Count (erased s) (clipped s T Bo) L x"
    if L: "0 \<le> L" "L < NumOfLinesInBuff s" "in_cols s x" for L x
  proof -
    have "at s1 (L + Count) x = clipped s T Bo (L + Count) x" if "T \<le> L" "L + Count \<le> Bo"
      using a1 [of "L + Count" x] L that r assms(2) cl by simp
    moreover have L1: "L < 0 + NumOfLinesInBuff s1" "in_cols s1 x" using L f v by simp_all
    have e: "erased s1 = erased s" using f v by simp
    ultimately show ?thesis
      using m by (auto simp: rows_up_def a3 [OF L(1) L1] a1 [OF L] cl e)
  qed
  ultimately show ?thesis using run unfolding T_def Bo_def by blast
qed

lemma BuffDeleteLines_witness:
  "\<exists>s'. BuffDeleteLines 1 2 sample_screen = Some s' \<and> screen_ok s' \<and>
     at s' 2 0 = rows_up 2 3 0 3 1 (erased sample_screen) (clipped sample_screen 2 3) 2 0"
  using BuffDeleteLines_rows [of sample_screen 1 2] by (auto simp: in_cols_def)

lemma wrap_down_total: "0 < n \<Longrightarrow> \<exists>q. wrap_down p n = Some q"
  by (cases "0 \<le> p") (auto simp: wrap_down_mod wrap_down.simps [of p n])

lemma GetLinePtr_total: "geom_ok s \<Longrightarrow> \<exists>p. GetLinePtr L s = Some p"
  unfolding GetLinePtr_def by (rule wrap_down_total) (simp add: geom_ok_def)

text \<open>
  IL: between cursor line and \<open>YEnd\<close>, and between the margins, lines move down by \<open>Count\<close>
  and erased lines come in; every other cell of the ring keeps its value.
\<close>

theorem BuffInsertLines_rows:
  assumes "screen_ok s" "0 \<le> Count" "Count \<le> YEnd - CursorY s + 1" "CursorY s \<le> YEnd"
    "YEnd < NumOfLines s"
  shows "\<exists>s'. BuffInsertLines Count YEnd s = Some s' \<and> screen_ok s' \<and>
    (\<forall>L x. 0 \<le> L \<longrightarrow> L < NumOfLinesInBuff s \<longrightarrow> in_cols s x \<longrightarrow> at s' L x =
      rows_down (PageStart s + CursorY s) (PageStart s + YEnd) (CursorLeftM s) (CursorRightM s)
        Count (erased s) (clipped s (PageStart s + CursorY s) (PageStart s + YEnd)) L x)"
proof -
  define s0 where "s0 = BuffUpdateScroll s"
  define T where "T = PageStart s + CursorY s"
  define Bo where "Bo = PageStart s + YEnd"
  note v = same_but_view_frame [OF same_but_view_BuffUpdateScroll, of s, folded s0_def]
  have ok: "geom_ok s0" "cursor_ok s0" "screen_ok s0"
    using assms(1) v by (simp_all add: screen_ok_def page_ok_def)
  have r: "0 \<le> T" "T \<le> Bo" "Bo < NumOfLinesInBuff s"
    using assms by (auto simp: T_def Bo_def screen_ok_def page_ok_def cursor_ok_def)
  obtain s1 where s1: "clip_margins T (Bo - T + 1) s0 = Some s1" "same_but_cells s0 s1"
    and a1: "\<And>L x. 0 \<le> L \<Longrightarrow> L < NumOfLinesInBuff s \<Longrightarrow> in_cols s x \<Longrightarrow>
      at s1 L x = clipped s0 T Bo L x"
    using clip_margins_rows [OF ok(1,2), of T Bo] r v by auto
  note f = same_frame [OF s1(2)] same_fields [OF s1(2)] same_but_cells_ok [OF s1(2)]
  let ?l = "CursorLeftM s" and ?len = "CursorRightM s - CursorLeftM s + 1"
  define m where "m = nat (YEnd - Count - CursorY s + 1)"
  have m: "int m = Bo - T + 1 - Count" using assms(3) by (simp add: m_def T_def Bo_def)
  have so: "seg_ok ?l ?len s1" using seg_ok_margins [of s1] ok f v by simp
  have g1: "geom_ok s1" using ok f by simp
  have ran: "0 \<le> Bo - Count - int m + 1" "Bo < 0 + NumOfLinesInBuff s1" using m r f v by simp_all
  from cpy.shift_down [OF so assms(2) ran] obtain s2 s3 p q where
    c2: "copy_lines PrevLinePtr (\<lambda>d p. memcpyS d p ?len) (row_ptr s1 Bo + ?l) (row_ptr s1 (Bo - Count) + ?l)
      m s1 = Some (s2, row_ptr s1 (Bo - int m) + ?l, p)"
    and c3: "fill_lines PrevLinePtr (\<lambda>d. eraseS d ?len) (row_ptr s1 (Bo - int m) + ?l) (nat Count) s2
      = Some (s3, q)" and sm: "same_but_cells s1 s3"
    and a3: "\<And>L x. 0 \<le> L \<Longrightarrow> L < 0 + NumOfLinesInBuff s1 \<Longrightarrow> in_cols s1 x \<Longrightarrow> at s3 L x =
      (if Bo - int m - Count < L \<and> L \<le> Bo \<and> ?l \<le> x \<and> x < ?l + ?len
       then if Bo - int m < L then at s1 (L - Count) x else erased s1 else at s1 L x)"
    by blast
  obtain src where src: "GetLinePtr (Bo - Count) s1 = Some src"
    using GetLinePtr_total [OF g1] by blast
  have "src = row_ptr s1 (Bo - Count)" if "0 < m"
    using src GetLinePtr_page [OF g1, of "Bo - Count"] m that r by simp
  with c2 obtain p' where c2': "copy_lines PrevLinePtr (\<lambda>d p. memcpyS d p ?len) (row_ptr s1 Bo + ?l)
      (src + ?l) m s1 = Some (s2, row_ptr s1 (Bo - int m) + ?l, p')"
    by (cases m) auto
  have folds: "PageStart s + CursorY s = T" "PageStart s + YEnd = Bo"
    and size: "YEnd - CursorY s + 1 = Bo - T + 1" by (simp_all add: T_def Bo_def)
  have run: "BuffInsertLines Count YEnd s = Some s3"
    unfolding BuffInsertLines_def s0_def [symmetric] using s1(1) c2' c3 src r g1
    by (simp add: f v folds size m_def [symmetric])
  have cl: "clipped s0 = clipped s"
    unfolding s0_def by (rule clipped_view [OF same_but_view_BuffUpdateScroll])
  have "screen_ok s3" using ok f same_but_cells_ok [OF sm] by simp
  moreover have "at s3 L x = rows_down T Bo ?l (CursorRightM s) Count (erased s) (clipped s T Bo) L x"
    if L: "0 \<le> L" "L < NumOfLinesInBuff s" "in_cols s x" for L x
  proof -
    have "at s1 (L - Count) x = clipped s T Bo (L - Count) x" if "T \<le> L - Count"
      using a1 [of "L - Count" x] L that r assms(2) cl by simp
    moreover have L1: "L < 0 + NumOfLinesInBuff s1" "in_cols s1 x" using L f v by simp_all
    have e: "erased s1 = erased s" using f v by simp
    ultimately show ?thesis
      using m by (auto simp: rows_down_def a3 [OF L(1) L1] a1 [OF L] cl e)
  qed
  ultimately show ?thesis using run unfolding T_def Bo_def by blast
qed

lemma BuffInsertLines_witness:
  "\<exists>s'. BuffInsertLines 1 2 sample_screen = Some s' \<and> screen_ok s' \<and>
     at s' 3 0 = rows_down 2 3 0 3 1 (erased sample_screen) (clipped sample_screen 2 3) 3 0"
  using BuffInsertLines_rows [of sample_screen 1 2] by (auto simp: in_cols_def)

theorem region_up_rows:
  assumes "screen_ok s" "1 \<le> n"
  shows "\<exists>s'. region_up n s = Some s' \<and> screen_ok s' \<and> same_but_cells s s' \<and>
    (\<forall>L x. 0 \<le> L \<longrightarrow> L < NumOfLinesInBuff s \<longrightarrow> in_cols s x \<longrightarrow> at s' L x =
      rows_up (PageStart s + CursorTop s) (PageStart s + CursorBottom s) (CursorLeftM s) (CursorRightM s)
        n (erased s) (clipped s (PageStart s + CursorTop s) (PageStart s + CursorBottom s)) L x)"
proof -
  define T where "T = PageStart s + CursorTop s"
  define Bo where "Bo = PageStart s + CursorBottom s"
  have ok: "geom_ok s" "cursor_ok s" using assms(1) by (simp_all add: screen_ok_def page_ok_def)
  have r: "0 \<le> T" "T \<le> Bo" "Bo < NumOfLinesInBuff s"
    using assms by (auto simp: T_def Bo_def screen_ok_def page_ok_def cursor_ok_def)
  obtain s1 where s1: "clip_margins T (Bo - T + 1) s = Some s1" "same_but_cells s s1"
    and a1: "\<And>L x. 0 \<le> L \<Longrightarrow> L < NumOfLinesInBuff s \<Longrightarrow> in_cols s x \<Longrightarrow>
      at s1 L x = clipped s T Bo L x"
    using clip_margins_rows [OF ok r] by blast
  note f = same_frame [OF s1(2)] same_fields [OF s1(2)] same_but_cells_ok [OF s1(2)]
  let ?l = "CursorLeftM s" and ?len = "CursorRightM s - CursorLeftM s + 1"
  define k where "k = (if n < Bo - T + 1 then n else Bo - T + 1)"
  define m where "m = nat (Bo - T + 1 - k)"
  have k: "0 \<le> k" and m: "int m = Bo - T + 1 - k" using assms(2) r by (auto simp: k_def m_def)
  have so: "seg_ok ?l ?len s1" using seg_ok_margins [of s1] ok f by simp
  have g1: "geom_ok s1" using ok f by simp
  have ran: "T + k + int m \<le> 0 + NumOfLinesInBuff s1" using m r f by simp_all
  from mov.shift_up [OF so k r(1) ran] obtain s2 s3 p q where
    c2: "copy_lines NextLinePtr (\<lambda>d p. memmoveS d p ?len) (row_ptr s1 T + ?l) (row_ptr s1 (T + k) + ?l)
      m s1 = Some (s2, row_ptr s1 (T + int m) + ?l, p)"
    and c3: "fill_lines NextLinePtr (\<lambda>d. eraseS d ?len) (row_ptr s1 (T + int m) + ?l) (nat k) s2
      = Some (s3, q)" and sm: "same_but_cells s1 s3"
    and a3: "\<And>L x. 0 \<le> L \<Longrightarrow> L < 0 + NumOfLinesInBuff s1 \<Longrightarrow> in_cols s1 x \<Longrightarrow> at s3 L x =
      (if T \<le> L \<and> L < T + int m + k \<and> ?l \<le> x \<and> x < ?l + ?len
       then if L < T + int m then at s1 (L + k) x else erased s1 else at s1 L x)"
    by blast
  have size: "CursorBottom s - CursorTop s = Bo - T" by (simp add: T_def Bo_def)
  have folds: "PageStart s + CursorTop s = T" "PageStart s + CursorBottom s = Bo"
    by (simp_all add: T_def Bo_def)
  have run: "region_up n s = Some s3"
  proof (cases "n < Bo - T + 1")
    case True
    then have kn: "k = n" by (simp add: k_def)
    have meq: "nat (CursorBottom s - (CursorTop s + n) + 1) = m" by (simp add: m_def kn T_def Bo_def)
    show ?thesis
      unfolding region_up_def using True s1(1) c2 c3 r k g1
      by (simp add: kn f folds size Let_def meq)
  next
    case False
    then have kn: "k = Bo - T + 1" "m = 0" by (simp_all add: k_def m_def)
    then have s21: "s2 = s1" using c2 by simp
    show ?thesis
      unfolding region_up_def using False s1(1) c3 [unfolded s21] r k g1
      by (simp add: kn f folds size Let_def)
  qed
  have sm': "same_but_cells s s3" by (rule same_trans [OF s1(2) sm])
  moreover have "screen_ok s3" using assms(1) same_but_cells_ok [OF sm'] by simp
  moreover have "at s3 L x = rows_up T Bo ?l (CursorRightM s) n (erased s) (clipped s T Bo) L x"
    if L: "0 \<le> L" "L < NumOfLinesInBuff s" "in_cols s x" for L x
  proof -
    have "at s1 (L + k) x = clipped s T Bo (L + k) x" if "T \<le> L" "L + k \<le> Bo"
      using a1 [of "L + k" x] L that r k by simp
    moreover have L1: "L < 0 + NumOfLinesInBuff s1" "in_cols s1 x" using L f by simp_all
    have e: "erased s1 = erased s" using f by simp
    ultimately show ?thesis
      using m assms(2) by (auto simp: rows_up_def a3 [OF L(1) L1] a1 [OF L] e k_def)
  qed
  ultimately show ?thesis using run unfolding T_def Bo_def by blast
qed

theorem region_down_rows:
  assumes "screen_ok s" "1 \<le> n"
  shows "\<exists>s'. region_down n s = Some s' \<and> screen_ok s' \<and> same_but_cells s s' \<and>
    (\<forall>L x. 0 \<le> L \<longrightarrow> L < NumOfLinesInBuff s \<longrightarrow> in_cols s x \<longrightarrow> at s' L x =
      rows_down (PageStart s + CursorTop s) (PageStart s + CursorBottom s) (CursorLeftM s) (CursorRightM s)
        n (erased s) (clipped s (PageStart s + CursorTop s) (PageStart s + CursorBottom s)) L x)"
proof -
  define T where "T = PageStart s + CursorTop s"
  define Bo where "Bo = PageStart s + CursorBottom s"
  have ok: "geom_ok s" "cursor_ok s" using assms(1) by (simp_all add: screen_ok_def page_ok_def)
  have r: "0 \<le> T" "T \<le> Bo" "Bo < NumOfLinesInBuff s"
    using assms by (auto simp: T_def Bo_def screen_ok_def page_ok_def cursor_ok_def)
  obtain s1 where s1: "clip_margins T (Bo - T + 1) s = Some s1" "same_but_cells s s1"
    and a1: "\<And>L x. 0 \<le> L \<Longrightarrow> L < NumOfLinesInBuff s \<Longrightarrow> in_cols s x \<Longrightarrow>
      at s1 L x = clipped s T Bo L x"
    using clip_margins_rows [OF ok r] by blast
  note f = same_frame [OF s1(2)] same_fields [OF s1(2)] same_but_cells_ok [OF s1(2)]
  let ?l = "CursorLeftM s" and ?len = "CursorRightM s - CursorLeftM s + 1"
  define k where "k = (if n < Bo - T + 1 then n else Bo - T + 1)"
  define m where "m = nat (Bo - T + 1 - k)"
  have k: "0 \<le> k" and m: "int m = Bo - T + 1 - k" using assms(2) r by (auto simp: k_def m_def)
  have so: "seg_ok ?l ?len s1" using seg_ok_margins [of s1] ok f by simp
  have g1: "geom_ok s1" using ok f by simp
  have ran: "0 \<le> Bo - k - int m + 1" "Bo < 0 + NumOfLinesInBuff s1" using m r f by simp_all
  from mov.shift_down [OF so k ran] obtain s2 s3 p q where
    c2: "copy_lines PrevLinePtr (\<lambda>d p. memmoveS d p ?len) (row_ptr s1 Bo + ?l) (row_ptr s1 (Bo - k) + ?l)
      m s1 = Some (s2, row_ptr s1 (Bo - int m) + ?l, p)"
    and c3: "fill_lines PrevLinePtr (\<lambda>d. eraseS d ?len) (row_ptr s1 (Bo - int m) + ?l) (nat k) s2
      = Some (s3, q)" and sm: "same_but_cells s1 s3"
    and a3: "\<And>L x. 0 \<le> L \<Longrightarrow> L < 0 + NumOfLinesInBuff s1 \<Longrightarrow> in_cols s1 x \<Longrightarrow> at s3 L x =
      (if Bo - int m - k < L \<and> L \<le> Bo \<and> ?l \<le> x \<and> x < ?l + ?len
       then if Bo - int m < L then at s1 (L - k) x else erased s1 else at s1 L x)"
    by blast
  have size: "CursorBottom s - CursorTop s = Bo - T" by (simp add: T_def Bo_def)
  have folds: "PageStart s + CursorTop s = T" "PageStart s + CursorBottom s = Bo"
    by (simp_all add: T_def Bo_def)
  have run: "region_down n s = Some s3"
  proof (cases "n < Bo - T + 1")
    case True
    then have kn: "k = n" by (simp add: k_def)
    have meq: "nat (CursorBottom s - n - CursorTop s + 1) = m" by (simp add: m_def kn T_def Bo_def)
    show ?thesis
      unfolding region_down_def using True s1(1) c2 c3 r k g1
      by (simp add: kn f folds size Let_def meq)
  next
    case False
    then have kn: "k = Bo - T + 1" "m = 0" by (simp_all add: k_def m_def)
    then have s21: "s2 = s1" using c2 by simp
    show ?thesis
      unfolding region_down_def using False s1(1) c3 [unfolded s21] r k g1
      by (simp add: kn f folds size Let_def)
  qed
  have sm': "same_but_cells s s3" by (rule same_trans [OF s1(2) sm])
  moreover have "screen_ok s3" using assms(1) same_but_cells_ok [OF sm'] by simp
  moreover have "at s3 L x = rows_down T Bo ?l (CursorRightM s) n (erased s) (clipped s T Bo) L x"
    if L: "0 \<le> L" "L < NumOfLinesInBuff s" "in_cols s x" for L x
  proof -
    have "at s1 (L - k) x = clipped s T Bo (L - k) x" if "T \<le> L - k" "L \<le> Bo"
      using a1 [of "L - k" x] L that r k by simp
    moreover have L1: "L < 0 + NumOfLinesInBuff s1" "in_cols s1 x" using L f by simp_all
    have e: "erased s1 = erased s" using f by simp
    ultimately show ?thesis
      using m assms(2) by (auto simp: rows_down_def a3 [OF L(1) L1] a1 [OF L] e k_def)
  qed
  ultimately show ?thesis using run unfolding T_def Bo_def by blast
qed

subsection \<open>The scrolling functions\<close>

text \<open>The two outcomes of a scroll: the ring turns, or the rectangle of the region moves.\<close>

definition scrolled :: "int \<Rightarrow> int \<Rightarrow> screen \<Rightarrow> screen \<Rightarrow> bool" where
  "scrolled n Bottom s s' \<longleftrightarrow> screen_ok s' \<and>
     history s' = scroll_spec (nat (NumOfLinesInBuff s)) (nat (min n (NumOfLinesInBuff s)))
       (nat (below Bottom s)) (erased_line s) (history s)"

definition shifted ::
  "(int \<Rightarrow> int \<Rightarrow> int \<Rightarrow> int \<Rightarrow> int \<Rightarrow> buff_char \<Rightarrow> (int \<Rightarrow> int \<Rightarrow> buff_char) \<Rightarrow> int \<Rightarrow> int \<Rightarrow> buff_char)
    \<Rightarrow> int \<Rightarrow> screen \<Rightarrow> screen \<Rightarrow> bool" where
  "shifted dir n s s' \<longleftrightarrow> screen_ok s' \<and>
     (let T = PageStart s + CursorTop s; Bo = PageStart s + CursorBottom s in
      \<forall>L x. 0 \<le> L \<longrightarrow> L < NumOfLinesInBuff s \<longrightarrow> in_cols s x \<longrightarrow>
        at s' L x = dir T Bo (CursorLeftM s) (CursorRightM s) n (erased s) (clipped s T Bo) L x)"

definition fits :: "int \<Rightarrow> int \<Rightarrow> screen \<Rightarrow> bool" where
  "fits n Bottom s \<longleftrightarrow> min n (NumOfLinesInBuff s) + below Bottom s \<le> NumOfLinesInBuff s"

lemma scrolled_view:
  "same_but_view s t \<Longrightarrow> scrolled n b t u \<Longrightarrow> same_but_view u w \<Longrightarrow> scrolled n b s w"
  using same_but_view_frame [of s t] same_but_view_frame [of u w]
  by (simp add: scrolled_def below_def)

lemma shifted_view:
  assumes "same_but_view s t" "shifted dir n t u" "same_but_view u w"
  shows "shifted dir n s w"
  using assms(2) clipped_view [OF assms(1)]
  unfolding shifted_def same_but_view_frame [OF assms(1)] same_but_view_frame [OF assms(3)] by simp

lemma fits_view: "same_but_view s t \<Longrightarrow> fits n b t = fits n b s"
  using same_but_view_frame [of s t] by (simp add: fits_def below_def)

lemma same_but_view_redraw: "same_but_view s (region_redraw n s)"
  by (simp add: region_redraw_def same_but_view_intros)

lemma BuffScroll_ok:
  assumes "screen_ok s" "1 \<le> n" "-1 \<le> b" "fits n b s"
  shows "\<exists>s'. BuffScroll n b s = Some s' \<and> scrolled n b s s' \<and> scroll_frame s s'"
proof -
  have a: "page_ok s" "0 \<le> CursorY s" "cursor_ok s"
    using assms(1) by (auto simp: screen_ok_def cursor_ok_def)
  obtain s' where s': "BuffScroll n b s = Some s'" "scroll_frame s s'"
    using BuffScroll_cells [OF a(1,2) assms(2,3)] assms(4) unfolding fits_def by blast
  have h: "page_ok s'" "lineptr_ok s'" "history s' = scroll_spec (nat (NumOfLinesInBuff s))
      (nat (min n (NumOfLinesInBuff s))) (nat (below b s)) (erased_line s) (history s)"
    using BuffScroll_turns [OF a(1,2) assms(2,3)] assms(4) s'(1) unfolding fits_def by auto
  then show ?thesis using s' a(3) scroll_frameD [OF s'(2)]
    by (simp add: scrolled_def screen_ok_def)
qed

text \<open>\<open>BuffScroll\<close> between view port changes.\<close>

lemma BuffScroll_viewed:
  assumes "same_but_view s t" "screen_ok s" "1 \<le> n" "-1 \<le> b" "fits n b s"
  shows "\<exists>s'. BuffScroll n b t = Some s' \<and> scroll_frame t s' \<and>
    (\<forall>w. same_but_view s' w \<longrightarrow> scrolled n b s w)"
  using BuffScroll_ok [of t n b] assms scrolled_view [OF assms(1)]
  by (auto simp: same_but_view_frame(4) [OF assms(1)] fits_view [OF assms(1)])

lemma region_viewed:
  assumes "same_but_view s t" "screen_ok s" "1 \<le> n"
  shows "\<exists>s'. region_up n t = Some s' \<and> (\<forall>w. same_but_view s' w \<longrightarrow> shifted rows_up n s w)"
    "\<exists>s'. region_down n t = Some s' \<and> (\<forall>w. same_but_view s' w \<longrightarrow> shifted rows_down n s w)"
proof -
  have t: "screen_ok t" using assms same_but_view_frame(4) [OF assms(1)] by simp
  obtain u where "region_up n t = Some u" "shifted rows_up n t u"
    using region_up_rows [OF t assms(3)] unfolding shifted_def Let_def by blast
  then show "\<exists>s'. region_up n t = Some s' \<and> (\<forall>w. same_but_view s' w \<longrightarrow> shifted rows_up n s w)"
    using shifted_view [OF assms(1)] by blast
  obtain u where "region_down n t = Some u" "shifted rows_down n t u"
    using region_down_rows [OF t assms(3)] unfolding shifted_def Let_def by blast
  then show "\<exists>s'. region_down n t = Some s' \<and> (\<forall>w. same_but_view s' w \<longrightarrow> shifted rows_down n s w)"
    using shifted_view [OF assms(1)] by blast
qed

lemma UpdateStr_vw:
  "same_but_view s (UpdateStr s)" "same_but_view s ((UpdateStr s)\<lparr>vw := v\<rparr>)"
  by (rule same_but_view_Disp(3), rule same_but_view_upd [OF same_but_view_Disp(3)])

lemma full_width_view: "same_but_view s t \<Longrightarrow> full_width t = full_width s"
  using same_but_view_frame [of s t] by (simp add: full_width_def)

text \<open>
  SU: scrolling the region up stays inside the buffer; with full-width margins and a region that
  starts at the top, the lines that leave the page go to the history, otherwise the rectangle
  between the margins moves up by \<open>n\<close> lines and erased lines come in from below.
\<close>

theorem BuffRegionScrollUpNLines_spec:
  assumes "screen_ok s" "1 \<le> n" "fits n (CursorBottom s) s"
  shows "\<exists>s'. BuffRegionScrollUpNLines n s = Some s' \<and>
    (if full_width s \<and> CursorTop s = 0 then scrolled n (CursorBottom s) s s'
     else shifted rows_up n s s')"
proof -
  define t where "t = UpdateStr s"
  have st: "same_but_view s t" unfolding t_def by (rule UpdateStr_vw)
  note fr = same_but_view_frame [OF st] full_width_view [OF st]
  have b: "-1 \<le> CursorBottom s" using assms(1) by (auto simp: screen_ok_def cursor_ok_def)
  show ?thesis
  proof (cases "full_width s \<and> CursorTop s = 0")
    case True
    show ?thesis
    proof (cases "CursorBottom s = NumOfLines s - 1")
      case c: True
      let ?t = "t\<lparr>vw := (vw t)\<lparr>WinOrgY := WinOrgY (vw t) - n\<rparr>\<rparr>"
      from BuffScroll_viewed [OF same_but_view_upd [OF st] assms(1,2) b assms(3)]
      obtain s' where "BuffScroll n (CursorBottom s) ?t = Some s'"
        "\<forall>w. same_but_view s' w \<longrightarrow> scrolled n (CursorBottom s) s w" by blast
      then show ?thesis using True c assms(2) fr same_but_view_DispCount
        by (simp add: BuffRegionScrollUpNLines_def t_def [symmetric] Let_def)
    next
      case c: False
      from BuffScroll_viewed [OF st assms(1,2) b assms(3)]
      obtain s' where "BuffScroll n (CursorBottom s) t = Some s'" "scroll_frame t s'"
        "\<forall>w. same_but_view s' w \<longrightarrow> scrolled n (CursorBottom s) s w" by blast
      then show ?thesis using True c assms(2) fr same_but_view_DispScrollN
        by (simp add: BuffRegionScrollUpNLines_def t_def [symmetric] Let_def)
    qed
  next
    case False
    obtain s' where "region_up n t = Some s'" "\<forall>w. same_but_view s' w \<longrightarrow> shifted rows_up n s w"
      using region_viewed(1) [OF st assms(1,2)] by blast
    moreover have c: "(full_width s \<and> CursorTop s = 0) = False" using False by blast
    ultimately show ?thesis
      unfolding BuffRegionScrollUpNLines_def t_def [symmetric] Let_def fr c if_False
      using assms(2) same_but_view_redraw by simp
  qed
qed

lemma BuffRegionScrollUpNLines_witness:
  "\<exists>s'. BuffRegionScrollUpNLines 2 sample_screen = Some s' \<and> scrolled 2 2 sample_screen s'"
  using BuffRegionScrollUpNLines_spec [of sample_screen 2]
  by (simp add: fits_def below_def full_width_def)

text \<open>
  SD: the rectangle between the margins moves down by \<open>n\<close> lines, erased lines come in at
  the top, and no other cell of the ring changes but the wide characters cut by a margin.
\<close>

theorem BuffRegionScrollDownNLines_spec:
  assumes "screen_ok s" "1 \<le> n"
  shows "\<exists>s'. BuffRegionScrollDownNLines n s = Some s' \<and> shifted rows_down n s s'"
proof -
  define t where "t = UpdateStr s"
  have st: "same_but_view s t" unfolding t_def by (rule UpdateStr_vw)
  obtain s' where "region_down n t = Some s'" "\<forall>w. same_but_view s' w \<longrightarrow> shifted rows_down n s w"
    using region_viewed(2) [OF st assms(1,2)] by blast
  then show ?thesis using assms(2) same_but_view_redraw
    by (simp add: BuffRegionScrollDownNLines_def t_def [symmetric] Let_def)
qed

lemma BuffRegionScrollDownNLines_witness:
  "\<exists>s'. BuffRegionScrollDownNLines 1 sample_screen = Some s' \<and> shifted rows_down 1 sample_screen s'"
  using BuffRegionScrollDownNLines_spec [of sample_screen 1] by simp

text \<open>
  C2. A line feed of \<open>n\<close> lines at the bottom of the region: which of history, region move and
  no effect it has depends on margins, region and cursor as stated.
\<close>

theorem BuffScrollNLines_spec:
  assumes "screen_ok s" "1 \<le> n" "fits n (CursorBottom s) s"
  shows "\<exists>s'. BuffScrollNLines n s = Some s' \<and>
    (if full_width s \<and> CursorTop s = 0 \<and>
        (CursorBottom s = NumOfLines s - 1 \<or> CursorY s \<le> CursorBottom s)
     then scrolled n (CursorBottom s) s s'
     else if CursorTop s \<le> CursorY s \<and> CursorY s \<le> CursorBottom s then shifted rows_up n s s'
     else same_but_view s s')"
proof -
  define t where "t = UpdateStr s"
  have st: "same_but_view s t" unfolding t_def by (rule UpdateStr_vw)
  note fr = same_but_view_frame [OF st] full_width_view [OF st]
  have b: "-1 \<le> CursorBottom s" using assms(1) by (auto simp: screen_ok_def cursor_ok_def)
  have sc: "\<exists>s'. BuffScroll n (CursorBottom s) (t\<lparr>vw := v\<rparr>) = Some s' \<and>
      (\<forall>w. same_but_view s' w \<longrightarrow> scrolled n (CursorBottom s) s w)" for v
    using BuffScroll_viewed [OF same_but_view_upd [OF st] assms(1,2) b assms(3)] by blast
  show ?thesis
  proof (cases "full_width s \<and> CursorTop s = 0 \<and> CursorBottom s = NumOfLines s - 1")
    case True
    define v where "v = (let v1 = (vw t)\<lparr>WinOrgY := WinOrgY (vw t) - n\<rparr>
      in if AutoScrollOnlyInBottomLine (ts t) \<and> NewOrgY (vw t) \<noteq> 0
         then v1\<lparr>NewOrgY := WinOrgY v1\<rparr> else v1)"
    show ?thesis using sc [of v] True assms(2) fr(13-) same_but_view_DispCount
      by (auto simp: BuffScrollNLines_def t_def [symmetric] v_def Let_def fr)
  next
    case n1: False
    show ?thesis
    proof (cases "full_width s \<and> CursorTop s = 0 \<and> CursorY s \<le> CursorBottom s")
      case True
      obtain s0 where s0: "BuffScroll n (CursorBottom s) t = Some s0" "scroll_frame t s0"
        "\<forall>w. same_but_view s0 w \<longrightarrow> scrolled n (CursorBottom s) s w"
        using BuffScroll_viewed [OF st assms(1,2) b assms(3)] by blast
      define v where "v = (vw t)\<lparr>WinOrgY := WinOrgY (vw t) - n, NewOrgY := WinOrgY (vw t) - n\<rparr>"
      obtain s1 where s1: "BuffScroll n (CursorBottom s) (t\<lparr>vw := v\<rparr>) = Some s1"
        "\<forall>w. same_but_view s1 w \<longrightarrow> scrolled n (CursorBottom s) s w" using sc [of v] by blast
      have c: "(full_width s \<and> CursorTop s = 0 \<and> CursorBottom s = NumOfLines s - 1) = False"
        "(full_width s \<and> CursorTop s = 0 \<and> CursorY s \<le> CursorBottom s) = True"
        using n1 True by blast+
      have "\<exists>s'. BuffScrollNLines n s = Some s' \<and> scrolled n (CursorBottom s) s s'"
        unfolding BuffScrollNLines_def t_def [symmetric] Let_def fr c if_False if_True
        using s0 s1 assms(2) same_but_view_DispCount same_but_view_DispScrollN
        by (simp add: v_def)
      then show ?thesis using True by simp
    next
      case n2: False
      obtain s' where s': "region_up n t = Some s'"
        "\<forall>w. same_but_view s' w \<longrightarrow> shifted rows_up n s w"
        using region_viewed(1) [OF st assms(1,2)] by blast
      have c: "(full_width s \<and> CursorTop s = 0 \<and> CursorBottom s = NumOfLines s - 1) = False"
        "(full_width s \<and> CursorTop s = 0 \<and> CursorY s \<le> CursorBottom s) = False"
        "(full_width s \<and> CursorTop s = 0 \<and>
          (CursorBottom s = NumOfLines s - 1 \<or> CursorY s \<le> CursorBottom s)) = False"
        using n1 n2 by blast+
      show ?thesis
        unfolding BuffScrollNLines_def t_def [symmetric] Let_def fr c if_False
        using s' assms(2) st same_but_view_redraw by simp
    qed
  qed
qed

lemma BuffScrollNLines_witness:
  "\<exists>s'. BuffScrollNLines 1 sample_screen = Some s' \<and> scrolled 1 2 sample_screen s'"
  using BuffScrollNLines_spec [of sample_screen 1]
  by (simp add: fits_def below_def full_width_def)

text \<open>Clearing the page pushes the whole page, without the status line, into the history.\<close>

text \<open>
  Clearing the page keeps its text: the lines above the status line are pushed into the
  history, the page is left with erased lines and the status line.
\<close>

theorem BuffClearScreen_spec:
  assumes "screen_ok s" "\<not> isCursorOnStatusLine s"
  shows "\<exists>s'. BuffClearScreen s = Some s' \<and>
    scrolled (NumOfLines s - StatusLine s) (NumOfLines s - 1 - StatusLine s) s s'"
proof -
  define t where "t = UpdateStr s"
  define n where "n = NumOfLines s - StatusLine s"
  have st: "same_but_view s t" unfolding t_def by (rule UpdateStr_vw)
  note fr = same_but_view_frame [OF st]
  have f: "1 \<le> n" "-1 \<le> n - 1" "fits n (n - 1) s"
    using assms by (auto simp: n_def screen_ok_def cursor_ok_def page_ok_def isCursorOnStatusLine_def
        fits_def below_def min_def)
  obtain s' where "BuffScroll n (n - 1) t = Some s'" "scroll_frame t s'"
    "\<forall>w. same_but_view s' w \<longrightarrow> scrolled n (n - 1) s w"
    using BuffScroll_viewed [OF st assms(1) f] by blast
  moreover have e: "NumOfLines s - 1 - StatusLine s = n - 1" "NumOfLines s - StatusLine s = n"
    by (simp_all add: n_def)
  ultimately show ?thesis
    using assms(2) same_but_view_DispScrollN scroll_frameD [of t s'] fr
    unfolding BuffClearScreen_def t_def [symmetric] e Let_def by (simp add: e)
qed

lemma BuffClearScreen_witness:
  "\<exists>s'. BuffClearScreen sample_screen = Some s' \<and> scrolled 3 2 sample_screen s'"
  using BuffClearScreen_spec [of sample_screen] by (simp add: isCursorOnStatusLine_def)

subsection \<open>Cursor movement and reverse index\<close>

lemma MoveCursor_ok:
  assumes "screen_ok s" "0 \<le> x" "x < NumOfColumns s" "0 \<le> y" "y < NumOfLines s"
  shows "\<exists>s'. MoveCursor x y s = Some s' \<and> screen_ok s' \<and> CursorX s' = x \<and> CursorY s' = y \<and>
    CodeBuffW s' = CodeBuffW s \<and> Wrap s' = False \<and>
    (\<exists>l v c. s' = s\<lparr>LinePtr := l, vw := v, StrChangeCount := c, CursorX := x, CursorY := y, Wrap := False\<rparr>)"
proof -
  define t where "t = UpdateStr s"
  have st: "same_but_view s t" unfolding t_def by (rule UpdateStr_vw)
  note fr = same_but_view_frame [OF st]
  have g: "geom_ok t" "0 \<le> PageStart t + y"
    using assms fr by (auto simp: screen_ok_def page_ok_def)
  define u where "u = t\<lparr>LinePtr := row_ptr t (PageStart t + y), CursorX := x, CursorY := y, Wrap := False\<rparr>"
  have p: "page_ok u" "cursor_ok u" "lineptr_ok u"
    using assms fr by (auto simp: u_def screen_ok_def page_ok_def cursor_ok_def lineptr_ok_def
        geom_ok_def row_ptr_def)
  have nl: "(if CursorY t \<noteq> y then NewLine (PageStart t + y) t else Some t)
      = Some (t\<lparr>LinePtr := row_ptr t (PageStart t + y)\<rparr>)"
  proof (cases "CursorY t = y")
    case True
    then have "LinePtr t = row_ptr t (PageStart t + y)"
      using assms(1) fr by (simp add: screen_ok_def lineptr_ok_def)
    then show ?thesis using True by simp
  next
    case False
    then show ?thesis using g by (simp add: NewLine_def)
  qed
  define s' where "s' = (if \<not> AutoScrollOnlyInBottomLine (ts u) \<or> WinOrgY (vw u) = 0
    then DispScrollToCursor (CursorX u) (CursorY u) u else u)"
  have run: "MoveCursor x y s = Some s'"
    unfolding MoveCursor_def Let_def t_def [symmetric] nl by (simp add: s'_def u_def)
  have us: "same_but_view u s'" by (simp add: s'_def same_but_view_intros)
  note fu = same_but_view_frame [OF us]
  obtain v c where "s' = u\<lparr>vw := v, StrChangeCount := c\<rparr>"
    using us unfolding same_but_view_def by blast
  moreover obtain v' c' where "t = s\<lparr>vw := v', StrChangeCount := c'\<rparr>"
    using st unfolding same_but_view_def by blast
  ultimately have "s' = s\<lparr>LinePtr := row_ptr t (PageStart t + y), vw := v, StrChangeCount := c,
      CursorX := x, CursorY := y, Wrap := False\<rparr>" by (simp add: u_def)
  then show ?thesis using run p fu by (simp add: screen_ok_def) blast
qed

lemma scroll_up_loop_copy:
  assumes "geom_ok s" "0 \<le> c" "c < NumOfColumns s" "0 \<le> n" "c + n \<le> NumOfColumns s"
  shows "scroll_up_loop n (row_ptr s D + c) m s =
    map_option (\<lambda>(s', d, p). (s', d))
      (copy_lines PrevLinePtr (\<lambda>d p. memcpyS d p n) (row_ptr s D + c) (row_ptr s (D - 1) + c) m s)"
  using assms
proof (induction m arbitrary: s D)
  case 0
  show ?case by simp
next
  case (Suc m)
  note g = Suc.prems(1-3)
  obtain s1 where s1: "memcpyS (row_ptr s D + c) (row_ptr s (D - 1) + c) n s = Some s1"
      "same_but_cells s s1"
    using memcpyS_line [OF Suc.prems(1,2,4,5), of D "D - 1"] by blast
  note f = same_frame [OF s1(2)]
  have g1: "geom_ok s1" "c < NumOfColumns s1" using g f by simp_all
  show ?case
    using s1 Suc.IH [OF g1(1) Suc.prems(2) g1(2) Suc.prems(4), of "D - 1"] Suc.prems(5)
      PrevLinePtr_row [OF g] PrevLinePtr_row [OF g1(1) Suc.prems(2) g1(2)] f
    by simp
qed

text \<open>The lines of the region one down, and an empty line at its top.\<close>

lemma scroll_up_loop_shifts:
  assumes ok: "screen_ok t" and lt: "CursorTop t < CursorBottom t"
  defines "T \<equiv> PageStart t + CursorTop t" and "Bo \<equiv> PageStart t + CursorBottom t"
    and "l \<equiv> CursorLeftM t" and "len \<equiv> CursorRightM t - CursorLeftM t + 1"
  shows "\<exists>s1 s2 s3. clip_margins T (Bo - T + 1) t = Some s1 \<and> same_but_cells t s1 \<and>
    scroll_up_loop len (row_ptr t Bo + l) (nat (Bo - T)) s1 = Some (s2, row_ptr t T + l) \<and>
    eraseS (row_ptr t T + l) len s2 = Some s3 \<and> shifted rows_down 1 t s3"
proof -
  have r: "0 \<le> T" "T < Bo" "Bo < NumOfLinesInBuff t"
    using ok lt by (auto simp: T_def Bo_def screen_ok_def page_ok_def cursor_ok_def)
  have g: "geom_ok t" "cursor_ok t" using ok by (simp_all add: screen_ok_def page_ok_def)
  obtain s1 where s1: "clip_margins T (Bo - T + 1) t = Some s1" "same_but_cells t s1"
    and a1: "\<And>L x. 0 \<le> L \<Longrightarrow> L < NumOfLinesInBuff t \<Longrightarrow> in_cols t x \<Longrightarrow>
      at s1 L x = clipped t T Bo L x"
    using clip_margins_rows [OF g r(1) less_imp_le [OF r(2)] r(3)] by blast
  note f = same_frame [OF s1(2)] same_fields [OF s1(2)] same_but_cells_ok [OF s1(2)]
  have so: "seg_ok l len s1" using seg_ok_margins [of s1] g f by (simp add: l_def len_def)
  then have sg: "0 \<le> l" "l < NumOfColumns s1" "0 \<le> len" "l + len \<le> NumOfColumns s1"
    by (simp_all add: seg_ok_def)
  have ran: "0 \<le> Bo - 1 - int (nat (Bo - T)) + 1" "Bo < 0 + NumOfLinesInBuff s1"
    using r f by simp_all
  from cpy.shift_down [OF so _ ran] obtain s2 s3 p q where
    c2: "copy_lines PrevLinePtr (\<lambda>d p. memcpyS d p len) (row_ptr s1 Bo + l)
      (row_ptr s1 (Bo - 1) + l) (nat (Bo - T)) s1
      = Some (s2, row_ptr s1 (Bo - int (nat (Bo - T))) + l, p)"
    and c3: "fill_lines PrevLinePtr (\<lambda>d. eraseS d len) (row_ptr s1 (Bo - int (nat (Bo - T))) + l)
      (nat 1) s2 = Some (s3, q)" and sm: "same_but_cells s1 s3"
    and a3: "\<And>L x. 0 \<le> L \<Longrightarrow> L < 0 + NumOfLinesInBuff s1 \<Longrightarrow> in_cols s1 x \<Longrightarrow> at s3 L x =
      (if Bo - int (nat (Bo - T)) - 1 < L \<and> L \<le> Bo \<and> l \<le> x \<and> x < l + len
       then if Bo - int (nat (Bo - T)) < L then at s1 (L - 1) x else erased s1 else at s1 L x)"
    by (metis zero_le_one)
  have loop: "scroll_up_loop len (row_ptr s1 Bo + l) (nat (Bo - T)) s1 = Some (s2, row_ptr s1 T + l)"
    using scroll_up_loop_copy [OF _ sg, of Bo] g f c2 r by simp
  have er: "eraseS (row_ptr s1 T + l) len s2 = Some s3"
    using c3 r by (simp add: numeral_nat bind_eq_Some_conv)
  have "screen_ok s3" using ok same_but_cells_ok [OF same_trans [OF s1(2) sm]] by simp
  moreover have "at s3 L x = rows_down T Bo l (CursorRightM t) 1 (erased t) (clipped t T Bo) L x"
    if L: "0 \<le> L" "L < NumOfLinesInBuff t" "in_cols t x" for L x
  proof -
    have L1: "L < 0 + NumOfLinesInBuff s1" "in_cols s1 x" and e: "erased s1 = erased t" using L f by simp_all
    have "at s1 (L - 1) x = clipped t T Bo (L - 1) x" if "T \<le> L - 1" "L \<le> Bo"
      using a1 [of "L - 1" x] L that r by simp
    moreover have "x < l + len \<longleftrightarrow> x \<le> CursorRightM t" by (auto simp: l_def len_def)
    ultimately show ?thesis
      using r by (auto simp: rows_down_def a3 [OF L(1) L1] a1 [OF L] e)
  qed
  ultimately have "shifted rows_down 1 t s3"
    by (simp add: shifted_def T_def Bo_def l_def)
  then show ?thesis using s1 loop er f by simp
qed

lemma ScrollUp1Line_one_line:
  assumes ok: "screen_ok s" and e: "CursorTop s = CursorBottom s" and c: "CursorY s = CursorTop s"
  shows "ScrollUp1Line s = None"
proof -
  define t where "t = UpdateStr s"
  have st: "same_but_view s t" unfolding t_def by (rule UpdateStr_vw)
  note fr = same_but_view_frame [OF st]
  let ?T = "PageStart s + CursorTop s"
  have g: "geom_ok t" "cursor_ok t" using ok fr by (simp_all add: screen_ok_def page_ok_def)
  have r: "0 \<le> ?T" "?T < NumOfLinesInBuff t"
    using ok fr by (auto simp: screen_ok_def page_ok_def cursor_ok_def)
  obtain s1 where s1: "clip_margins ?T 1 t = Some s1" "same_but_cells t s1"
    using clip_margins_rows [OF g r(1) order_refl r(2)] by auto
  note f = same_frame [OF s1(2)] same_fields [OF s1(2)] same_but_cells_ok [OF s1(2)]
  show ?thesis
    unfolding ScrollUp1Line_def Let_def t_def [symmetric] using s1(1) g r e c by (simp add: fr f)
qed

text \<open>
  C4. Reverse index at the top of the region: inside the region the rectangle moves down by one
  line; with a region of one line the code reads the uninitialised \<open>SrcPtr\<close>; outside the region nothing happens.
\<close>

theorem ScrollUp1Line_spec:
  assumes "screen_ok s"
  shows "if CursorTop s \<le> CursorY s \<and> CursorY s \<le> CursorBottom s
    then (if CursorTop s = CursorBottom s then ScrollUp1Line s = None
          else \<exists>s'. ScrollUp1Line s = Some s' \<and> shifted rows_down 1 s s')
    else ScrollUp1Line s = Some s"
proof (cases "CursorTop s \<le> CursorY s \<and> CursorY s \<le> CursorBottom s")
  case out: True
  show ?thesis
  proof (cases "CursorTop s = CursorBottom s")
    case True
    then show ?thesis using out ScrollUp1Line_one_line [OF assms True] by simp
  next
    case False
    define t where "t = UpdateStr s"
    have st: "same_but_view s t" unfolding t_def by (rule UpdateStr_vw)
    note fr = same_but_view_frame [OF st]
    have t: "screen_ok t" "CursorTop t < CursorBottom t" using assms out False fr by simp_all
    obtain s1 s2 s3 where s1: "clip_margins (PageStart s + CursorTop s) (CursorBottom s - CursorTop s + 1) t = Some s1"
        "same_but_cells t s1"
      and loop: "scroll_up_loop (CursorRightM s - CursorLeftM s + 1)
        (row_ptr t (PageStart s + CursorBottom s) + CursorLeftM s) (nat (CursorBottom s - CursorTop s)) s1 =
        Some (s2, row_ptr t (PageStart s + CursorTop s) + CursorLeftM s)"
        "eraseS (row_ptr t (PageStart s + CursorTop s) + CursorLeftM s) (CursorRightM s - CursorLeftM s + 1) s2 = Some s3"
      and sh: "shifted rows_down 1 t s3"
      using scroll_up_loop_shifts [OF t] fr by auto
    note f = same_frame [OF s1(2)] same_fields [OF s1(2)] same_but_cells_ok [OF s1(2)]
    have r: "0 \<le> PageStart s + CursorTop s" "PageStart s + CursorBottom s < NumOfLinesInBuff s" "geom_ok t"
      using assms out t by (auto simp: screen_ok_def page_ok_def cursor_ok_def)
    have "ScrollUp1Line s = Some (region_redraw (- 1) s3)"
      unfolding ScrollUp1Line_def Let_def t_def [symmetric] using out s1(1) r loop False by (simp add: fr f)
    moreover have "shifted rows_down 1 s (region_redraw (- 1) s3)"
      by (rule shifted_view [OF st sh same_but_view_redraw])
    ultimately show ?thesis using out False by simp
  qed
next
  case False
  then have c: "(CursorTop s \<le> CursorY s \<and> CursorY s \<le> CursorBottom s) = False" by blast
  show ?thesis unfolding ScrollUp1Line_def c if_False by (rule refl)
qed

text \<open>The sample with a region of one line.\<close>

definition one_line_region :: screen where
  "one_line_region = sample_screen\<lparr>CursorTop := 1, CursorBottom := 1\<rparr>"

lemma one_line_region_ok [simp]: "screen_ok one_line_region"
  by (simp add: one_line_region_def screen_ok_def page_ok_def geom_ok_def cursor_ok_def
      lineptr_ok_def row_ptr_def)

lemma one_line_region_fields [simp]:
  "CursorTop one_line_region = 1" "CursorBottom one_line_region = 1" "CursorY one_line_region = 1"
  by (simp_all add: one_line_region_def)

lemma ScrollUp1Line_witness:
  "ScrollUp1Line one_line_region = None \<and> (\<exists>s'. ScrollUp1Line sample_screen = Some s')"
  using ScrollUp1Line_spec [of one_line_region] ScrollUp1Line_spec [of sample_screen]
  by auto

end
