(* ===== verification/LineCalc.thy ===== *)
theory LineCalc
  imports ScreenScroll
begin

section \<open>Reasoning about edits of one line\<close>

text \<open>
  An operation that only touches one line of the ring is described by what that line, as a
  list of cells, becomes. \<open>runs P m\<close> says that \<open>m\<close> returns (no access outside the array) in a
  state with \<open>P\<close>; the rules below execute the primitives of an operation one by one on the
  list. A locale lifts an edit of one line to the loop over the lines of a rectangle.
\<close>

subsection \<open>Running an operation\<close>

definition runs :: "('s \<Rightarrow> bool) \<Rightarrow> 's option \<Rightarrow> bool" where
  "runs P m \<longleftrightarrow> (\<exists>s. m = Some s \<and> P s)"

lemma runs_Some [simp]: "runs P (Some s) = P s"
  by (simp add: runs_def)

lemma runs_SomeI: "P s \<Longrightarrow> runs P (Some s)"
  by simp

lemma runs_bind: "runs (\<lambda>s. runs P (k s)) m \<Longrightarrow> runs P (Option.bind m k)"
  by (auto simp: runs_def)

lemma runs_if: "(c \<Longrightarrow> runs P m) \<Longrightarrow> (\<not> c \<Longrightarrow> runs P m') \<Longrightarrow> runs P (if c then m else m')"
  by simp

lemma runs_mono: "runs P m \<Longrightarrow> (\<And>s. P s \<Longrightarrow> Q s) \<Longrightarrow> runs Q m"
  by (auto simp: runs_def)

lemma runsD: "runs P m \<Longrightarrow> \<exists>s. m = Some s \<and> P s"
  by (simp add: runs_def)

subsection \<open>What a line becomes\<close>

definition becomes :: "screen \<Rightarrow> int \<Rightarrow> buff_char list \<Rightarrow> buff_char list \<Rightarrow> bool" where
  "becomes s D l b \<longleftrightarrow> geom_ok s \<and> length b = length (CodeBuffW s) \<and>
     (\<forall>L. line (s\<lparr>CodeBuffW := b\<rparr>) L =
       (if (L - D) mod NumOfLinesInBuff s = 0 then l else line s L))"

lemma length_line [simp]: "length (line s L) = nat (NumOfColumns s)"
  by (simp add: line_def)

lemma nth_line: "in_cols s x \<Longrightarrow> line s L ! nat x = at s L x"
  by (simp add: line_def in_cols_def nat_less_iff)

lemma line_eq_iff:
  assumes c: "NumOfColumns t = NumOfColumns s"
  shows "line t K = line s L \<longleftrightarrow> (\<forall>x. in_cols s x \<longrightarrow> at t K x = at s L x)"
proof
  assume l: "line t K = line s L"
  have "at t K x = at s L x" if "in_cols s x" for x
    using that c l nth_line [of s x L] nth_line [of t x K] by (simp add: in_cols_def)
  then show "\<forall>x. in_cols s x \<longrightarrow> at t K x = at s L x" by blast
next
  assume "\<forall>x. in_cols s x \<longrightarrow> at t K x = at s L x"
  then show "line t K = line s L" using c by (intro line_cong) auto
qed

lemma line_list_eq:
  assumes "length l = nat (NumOfColumns s)" "\<And>x. in_cols s x \<Longrightarrow> at s L x = l ! nat x"
  shows "line s L = l"
proof (rule nth_equalityI)
  show "length (line s L) = length l" using assms(1) by simp
  fix i assume "i < length (line s L)"
  then have "in_cols s (int i)" by (simp add: in_cols_def)
  then show "line s L ! i = l ! i" using assms(2) [of "int i"] nth_line [of s "int i" L] by simp
qed

lemma becomes_start: "geom_ok s \<Longrightarrow> becomes s D (line s D) (CodeBuffW s)"
proof -
  have "line s L = (if (L - D) mod NumOfLinesInBuff s = 0 then line s D else line s L)" for L
    using at_period [of L D s] by (auto simp: line_def)
  then show "geom_ok s \<Longrightarrow> becomes s D (line s D) (CodeBuffW s)"
    unfolding becomes_def by simp
qed

lemma becomesD:
  assumes "becomes s D l b"
  shows "geom_ok s" "length b = length (CodeBuffW s)" "length l = nat (NumOfColumns s)"
    "geom_ok (s\<lparr>CodeBuffW := b\<rparr>)" "same_but_cells s (s\<lparr>CodeBuffW := b\<rparr>)"
    "line (s\<lparr>CodeBuffW := b\<rparr>) D = l"
proof -
  show g: "geom_ok s" "length b = length (CodeBuffW s)" using assms by (simp_all add: becomes_def)
  show "line (s\<lparr>CodeBuffW := b\<rparr>) D = l" using assms by (simp add: becomes_def)
  then show "length l = nat (NumOfColumns s)" by auto
  show "same_but_cells s (s\<lparr>CodeBuffW := b\<rparr>)" using g by (simp add: same_but_cells_def)
  then show "geom_ok (s\<lparr>CodeBuffW := b\<rparr>)" using g same_frame by blast
qed

lemma becomes_at: "becomes s D l b \<Longrightarrow> in_cols s x \<Longrightarrow> at (s\<lparr>CodeBuffW := b\<rparr>) D x = l ! nat x"
  using nth_line [of "s\<lparr>CodeBuffW := b\<rparr>" x D] by (simp add: becomesD in_cols_def)

text \<open>The whole state after an edit, cell by cell.\<close>

lemma becomes_cells:
  assumes "becomes s D l b" "in_cols s x"
  shows "at (s\<lparr>CodeBuffW := b\<rparr>) L x =
    (if (L - D) mod NumOfLinesInBuff s = 0 then l ! nat x else at s L x)"
proof -
  have "at (s\<lparr>CodeBuffW := b\<rparr>) L x = line (s\<lparr>CodeBuffW := b\<rparr>) L ! nat x"
    using nth_line [of "s\<lparr>CodeBuffW := b\<rparr>" x L] assms(2) by (simp add: in_cols_def)
  also have "\<dots> = (if (L - D) mod NumOfLinesInBuff s = 0 then l ! nat x else at s L x)"
    using assms nth_line [OF assms(2), of L] by (simp add: becomes_def)
  finally show ?thesis .
qed

text \<open>How a primitive's effect, given cell by cell, is an edit of the line.\<close>

lemma becomes_step:
  assumes b: "becomes s D l b" and sm: "same_but_cells (s\<lparr>CodeBuffW := b\<rparr>) t"
    and len: "length l' = length l"
    and cells: "\<And>L x. in_cols s x \<Longrightarrow> at t L x =
      (if (L - D) mod NumOfLinesInBuff s = 0 then l' ! nat x else at (s\<lparr>CodeBuffW := b\<rparr>) L x)"
  shows "\<exists>b'. t = s\<lparr>CodeBuffW := b'\<rparr> \<and> becomes s D l' b'"
proof -
  obtain b' where t: "t = s\<lparr>CodeBuffW := b'\<rparr>" and lb: "length b' = length (CodeBuffW s)"
    using sm becomesD(2) [OF b] by (auto simp: same_but_cells_iff)
  have cols: "NumOfColumns t = NumOfColumns s" by (simp add: t)
  have "line t L = (if (L - D) mod NumOfLinesInBuff s = 0 then l' else line s L)" for L
  proof (cases "(L - D) mod NumOfLinesInBuff s = 0")
    case True
    have "line t L = l'"
      using True cells becomesD(3) [OF b] len by (intro line_list_eq) (auto simp: cols t in_cols_def)
    then show ?thesis using True by simp
  next
    case False
    then have "line t L = line s L"
      using cells becomes_cells [OF b] by (simp add: line_eq_iff [OF cols])
    then show ?thesis using False by simp
  qed
  then show ?thesis using t lb becomesD(1) [OF b] by (auto simp: becomes_def)
qed

lemma runs_step:
  assumes "becomes s D l b"
    and "\<exists>t. m (s\<lparr>CodeBuffW := b\<rparr>) = Some t \<and> same_but_cells (s\<lparr>CodeBuffW := b\<rparr>) t \<and>
      (\<forall>L x. in_cols s x \<longrightarrow> at t L x =
        (if (L - D) mod NumOfLinesInBuff s = 0 then l' ! nat x else at (s\<lparr>CodeBuffW := b\<rparr>) L x))"
    and "length l' = length l"
    and "\<And>b'. becomes s D l' b' \<Longrightarrow> P (s\<lparr>CodeBuffW := b'\<rparr>)"
  shows "runs P (m (s\<lparr>CodeBuffW := b\<rparr>))"
  using becomes_step [OF assms(1) _ assms(3)] assms(2,4) unfolding runs_def by blast

lemma row_ptr_upd [simp]: "row_ptr (s\<lparr>CodeBuffW := b\<rparr>) = row_ptr s"
  by (simp add: row_ptr_def fun_eq_iff)

lemma in_cols_upd [simp]: "in_cols (s\<lparr>CodeBuffW := b\<rparr>) = in_cols s"
  by (simp add: in_cols_def fun_eq_iff)

lemma erased_upd [simp]: "erased (s\<lparr>CodeBuffW := b\<rparr>) = erased s"
  by (simp add: erased_def)

lemma cell_get_line:
  "becomes s D l b \<Longrightarrow> in_cols s c \<Longrightarrow>
    cell_get (row_ptr s D + c) (s\<lparr>CodeBuffW := b\<rparr>) = Some (l ! nat c)"
  using cell_get_at [of "s\<lparr>CodeBuffW := b\<rparr>" c D] becomesD(4) [of s D l b]
  by (simp add: becomes_at)

lemma runs_cell_upd:
  assumes b: "becomes s D l b" and c: "in_cols s c"
    and P: "\<And>b'. becomes s D (l[nat c := f (l ! nat c)]) b' \<Longrightarrow> P (s\<lparr>CodeBuffW := b'\<rparr>)"
  shows "runs P (cell_upd f (row_ptr s D + c) (s\<lparr>CodeBuffW := b\<rparr>))"
proof -
  let ?S = "s\<lparr>CodeBuffW := b\<rparr>"
  obtain t where t: "cell_upd f (row_ptr s D + c) ?S = Some t" "same_but_cells ?S t"
    and a: "\<And>L x. in_cols s x \<Longrightarrow> at t L x = (if (L - D) mod NumOfLinesInBuff s = 0 \<and> x = c
      then f (at ?S D c) else at ?S L x)"
    using cell_upd_at [OF becomesD(4) [OF b], of c f D] c by auto
  have "at t L x = (if (L - D) mod NumOfLinesInBuff s = 0
      then l[nat c := f (l ! nat c)] ! nat x else at ?S L x)" if x: "in_cols s x" for L x
  proof -
    have n: "nat c < length l" "(nat c = nat x) = (x = c)"
      using c x by (auto simp: becomesD(3) [OF b] in_cols_def)
    have v: "at ?S D c = l ! nat c" by (rule becomes_at [OF b c])
    have vx: "at ?S L x = l ! nat x" if "(L - D) mod NumOfLinesInBuff s = 0"
      using becomes_cells [OF b x, of L] that by simp
    show ?thesis
      unfolding a [OF x] v nth_list_update [OF n(1)] n(2) using vx by (simp split: if_splits)
  qed
  then show ?thesis
    using runs_step [OF b, of "cell_upd f (row_ptr s D + c)" "l[nat c := f (l ! nat c)]" P] t P
    by simp
qed

text \<open>The left half of a wide character carries \<open>AttrKanji\<close>.\<close>

definition is_kanji :: "buff_char \<Rightarrow> bool" where
  "is_kanji c \<longleftrightarrow> has_bit (attr c) AttrKanji"

text \<open>The cell becomes a space and loses \<open>AttrKanji\<close>.\<close>

definition clear_kanji_at :: "int \<Rightarrow> screen \<Rightarrow> screen option" where
  "clear_kanji_at i s = cell_upd (bk (conv s)) i s"

lemma runs_clear:
  assumes "becomes s D l b" "in_cols s c"
    and "\<And>b'. becomes s D (l[nat c := bk (conv s) (l ! nat c)]) b' \<Longrightarrow> P (s\<lparr>CodeBuffW := b'\<rparr>)"
  shows "runs P (clear_kanji_at (row_ptr s D + c) (s\<lparr>CodeBuffW := b\<rparr>))"
  unfolding clear_kanji_at_def using assms by (auto intro!: runs_cell_upd)

lemma runs_setc:
  assumes "becomes s D l b" "in_cols s c"
    and "\<And>b'. becomes s D (l[nat c := BuffSetChar (conv s) (l ! nat c) ch CHR ''H'']) b' \<Longrightarrow>
      P (s\<lparr>CodeBuffW := b'\<rparr>)"
  shows "runs P (setc ch (row_ptr s D + c) (s\<lparr>CodeBuffW := b\<rparr>))"
  unfolding setc_def using assms by (auto intro!: runs_cell_upd)

text \<open>A run of cells.\<close>

lemma seg_nth:
  "length l = nat (NumOfColumns s) \<Longrightarrow> in_cols s x \<Longrightarrow> in_arr l x"
  by (auto simp: in_arr_def in_cols_def)

lemma runs_memset:
  assumes b: "becomes s D l b" and c: "0 \<le> c" "0 \<le> n" "c + n \<le> NumOfColumns s"
    and P: "\<And>b'. becomes s D (updated (\<lambda>_. blank_cell (conv s) ch f g a a2) l c n) b' \<Longrightarrow>
      P (s\<lparr>CodeBuffW := b'\<rparr>)"
  shows "runs P (memsetS (row_ptr s D + c) ch f g a a2 n (s\<lparr>CodeBuffW := b\<rparr>))"
proof -
  let ?S = "s\<lparr>CodeBuffW := b\<rparr>"
  obtain t where t: "memsetS (row_ptr s D + c) ch f g a a2 n ?S = Some t" "same_but_cells ?S t"
    and at: "\<And>L x. in_cols s x \<Longrightarrow> at t L x =
      (if (L - D) mod NumOfLinesInBuff s = 0 \<and> c \<le> x \<and> x < c + n
       then blank_cell (conv s) ch f g a a2 else at ?S L x)"
    using memsetS_line [OF becomesD(4) [OF b], of c n D ch f g a a2] c by auto
  have "at t L x = (if (L - D) mod NumOfLinesInBuff s = 0
      then updated (\<lambda>_. blank_cell (conv s) ch f g a a2) l c n ! nat x else at ?S L x)"
    if x: "in_cols s x" for L x
    by (simp add: at [OF x] nth_updated [OF seg_nth [OF becomesD(3) [OF b] x]]
        becomes_cells [OF b x])
  then show ?thesis
    using runs_step [OF b, of "memsetS (row_ptr s D + c) ch f g a a2 n"
        "updated (\<lambda>_. blank_cell (conv s) ch f g a a2) l c n" P] t P by simp
qed

lemma runs_erase:
  assumes "becomes s D l b" "0 \<le> c" "0 \<le> n" "c + n \<le> NumOfColumns s"
    and "\<And>b'. becomes s D (updated (\<lambda>_. erased s) l c n) b' \<Longrightarrow> P (s\<lparr>CodeBuffW := b'\<rparr>)"
  shows "runs P (eraseS (row_ptr s D + c) n (s\<lparr>CodeBuffW := b\<rparr>))"
  unfolding eraseS_def using assms(5)
  by (auto intro!: runs_memset [OF assms(1-4)] simp: erased_def)

lemma runs_memmove:
  assumes b: "becomes s D l b" and c: "0 \<le> c" "0 \<le> c'" "0 \<le> n" "c + n \<le> NumOfColumns s"
      "c' + n \<le> NumOfColumns s"
    and P: "\<And>b'. becomes s D (blit l c c' n) b' \<Longrightarrow> P (s\<lparr>CodeBuffW := b'\<rparr>)"
  shows "runs P (memmoveS (row_ptr s D + c) (row_ptr s D + c') n (s\<lparr>CodeBuffW := b\<rparr>))"
proof -
  let ?S = "s\<lparr>CodeBuffW := b\<rparr>"
  have g: "geom_ok ?S" by (rule becomesD(4) [OF b])
  have bnd: "0 \<le> row_ptr s D" "row_ptr s D + NumOfColumns s \<le> int (length b)"
    using row_bounds [OF g, of D] g by (simp_all add: geom_ok_def)
  have m: "memmoveS (row_ptr s D + c) (row_ptr s D + c') n ?S =
      Some (s\<lparr>CodeBuffW := blit b (row_ptr s D + c) (row_ptr s D + c') n\<rparr>)"
    using bnd c by (simp add: memmoveS_def memmoveW_blit)
  have "at (s\<lparr>CodeBuffW := blit b (row_ptr s D + c) (row_ptr s D + c') n\<rparr>) L x =
      (if (L - D) mod NumOfLinesInBuff s = 0 then blit l c c' n ! nat x else at ?S L x)"
    if x: "in_cols s x" for L x
  proof -
    have "in_cols s (x - c + c')" if "c \<le> x" "x < c + n" using that c by (auto simp: in_cols_def)
    then show ?thesis
      using at_blit [OF g, of x c n D D c' L] x c
      by (simp add: nth_blit [OF seg_nth [OF becomesD(3) [OF b] x]] becomes_cells [OF b])
  qed
  moreover have "same_but_cells ?S (s\<lparr>CodeBuffW := blit b (row_ptr s D + c) (row_ptr s D + c') n\<rparr>)"
    by (simp add: same_but_cells_def)
  ultimately show ?thesis
    using runs_step [OF b, of "memmoveS (row_ptr s D + c) (row_ptr s D + c') n" "blit l c c' n" P] m P
    by simp
qed

text \<open>
  The idiom \<open>if (G && Q(CodeBuffW[j])) { ... }\<close>: the cell is only read when \<open>G\<close> holds.
\<close>

definition guarded ::
  "bool \<Rightarrow> (buff_char \<Rightarrow> bool) \<Rightarrow> int \<Rightarrow> (screen \<Rightarrow> screen option) \<Rightarrow> screen \<Rightarrow> screen option" where
  "guarded G Q j m s =
     (if G then do { c \<leftarrow> cell_get j s; if Q c then m s else Some s } else Some s)"

lemma runs_guarded:
  assumes "becomes s D l b" "G \<Longrightarrow> in_cols s j"
    and "G \<Longrightarrow> Q (l ! nat j) \<Longrightarrow> runs P (m (s\<lparr>CodeBuffW := b\<rparr>))"
    and "\<not> (G \<and> Q (l ! nat j)) \<Longrightarrow> P (s\<lparr>CodeBuffW := b\<rparr>)"
  shows "runs P (guarded G Q (row_ptr s D + j) m (s\<lparr>CodeBuffW := b\<rparr>))"
  using assms by (auto simp: guarded_def cell_get_line [OF assms(1)])

text \<open>
  The rules of the symbolic execution. Each gives the new line a name, so that the execution
  of a long operation stays small; \<open>runs_guarded_eff\<close> joins the two outcomes of a guard.
\<close>

lemma runs_guarded_eff:
  assumes "becomes s D l b" "G \<Longrightarrow> in_cols s j"
    and "\<And>Q'. G \<Longrightarrow> Q (l ! nat j) \<Longrightarrow> \<forall>b'. becomes s D h b' \<longrightarrow> Q' (s\<lparr>CodeBuffW := b'\<rparr>) \<Longrightarrow>
      runs Q' (m (s\<lparr>CodeBuffW := b\<rparr>))"
    and "\<And>b' l'. l' = (if G \<and> Q (l ! nat j) then h else l) \<Longrightarrow> becomes s D l' b' \<Longrightarrow> P (s\<lparr>CodeBuffW := b'\<rparr>)"
  shows "runs P (guarded G Q (row_ptr s D + j) m (s\<lparr>CodeBuffW := b\<rparr>))"
proof (cases "G \<and> Q (l ! nat j)")
  case True
  have "runs (\<lambda>t. \<exists>b'. t = s\<lparr>CodeBuffW := b'\<rparr> \<and> becomes s D h b') (m (s\<lparr>CodeBuffW := b\<rparr>))"
    using True by (intro assms(3)) auto
  then have "runs P (m (s\<lparr>CodeBuffW := b\<rparr>))"
    using assms(4) [of h] True by (auto elim!: runs_mono)
  then show ?thesis using True assms(1,2) by (auto simp: guarded_def cell_get_line [OF assms(1)])
next
  case False
  then have "P (s\<lparr>CodeBuffW := b\<rparr>)" using assms(1) assms(4) [of l] by auto
  then show ?thesis using False assms(2) by (auto simp: guarded_def cell_get_line [OF assms(1)])
qed

lemma runs_when_eff:
  assumes "becomes s D l b"
    and "\<And>Q'. G \<Longrightarrow> \<forall>b'. becomes s D h b' \<longrightarrow> Q' (s\<lparr>CodeBuffW := b'\<rparr>) \<Longrightarrow>
      runs Q' (m (s\<lparr>CodeBuffW := b\<rparr>))"
    and "\<And>b'. becomes s D (if G then h else l) b' \<Longrightarrow> P (s\<lparr>CodeBuffW := b'\<rparr>)"
  shows "runs P (if G then m (s\<lparr>CodeBuffW := b\<rparr>) else Some (s\<lparr>CodeBuffW := b\<rparr>))"
proof (cases G)
  case True
  have "runs (\<lambda>t. \<exists>b'. t = s\<lparr>CodeBuffW := b'\<rparr> \<and> becomes s D h b') (m (s\<lparr>CodeBuffW := b\<rparr>))"
    using True by (intro assms(2)) auto
  then have "runs P (m (s\<lparr>CodeBuffW := b\<rparr>))"
    using assms(3) True by (auto elim!: runs_mono)
  then show ?thesis using True by simp
next
  case False
  then show ?thesis using assms(1) assms(3) by auto
qed

text \<open>A goal left by a guarded body is closed by the outcome it was given.\<close>

lemma eff_done:
  "\<forall>b'. becomes s D l b' \<longrightarrow> Q (s\<lparr>CodeBuffW := b'\<rparr>) \<Longrightarrow> becomes s D l b \<Longrightarrow> Q (s\<lparr>CodeBuffW := b\<rparr>)"
  by blast

text \<open>Every other variable is as it was.\<close>

lemma upd_fields:
  "LinePtr (s\<lparr>CodeBuffW := b\<rparr>) = LinePtr s"
  "BufferSize (s\<lparr>CodeBuffW := b\<rparr>) = BufferSize s"
  "NumOfLinesInBuff (s\<lparr>CodeBuffW := b\<rparr>) = NumOfLinesInBuff s"
  "BuffStartAbs (s\<lparr>CodeBuffW := b\<rparr>) = BuffStartAbs s"
  "BuffEndAbs (s\<lparr>CodeBuffW := b\<rparr>) = BuffEndAbs s"
  "BuffEnd (s\<lparr>CodeBuffW := b\<rparr>) = BuffEnd s"
  "PageStart (s\<lparr>CodeBuffW := b\<rparr>) = PageStart s"
  "NumOfColumns (s\<lparr>CodeBuffW := b\<rparr>) = NumOfColumns s"
  "NumOfLines (s\<lparr>CodeBuffW := b\<rparr>) = NumOfLines s"
  "StatusLine (s\<lparr>CodeBuffW := b\<rparr>) = StatusLine s"
  "CursorX (s\<lparr>CodeBuffW := b\<rparr>) = CursorX s"
  "CursorY (s\<lparr>CodeBuffW := b\<rparr>) = CursorY s"
  "CursorTop (s\<lparr>CodeBuffW := b\<rparr>) = CursorTop s"
  "CursorBottom (s\<lparr>CodeBuffW := b\<rparr>) = CursorBottom s"
  "CursorLeftM (s\<lparr>CodeBuffW := b\<rparr>) = CursorLeftM s"
  "CursorRightM (s\<lparr>CodeBuffW := b\<rparr>) = CursorRightM s"
  "Wrap (s\<lparr>CodeBuffW := b\<rparr>) = Wrap s"
  "CurCharAttr (s\<lparr>CodeBuffW := b\<rparr>) = CurCharAttr s"
  "conv (s\<lparr>CodeBuffW := b\<rparr>) = conv s"
  "vw (s\<lparr>CodeBuffW := b\<rparr>) = vw s"
  "ts (s\<lparr>CodeBuffW := b\<rparr>) = ts s"
  "TabStops (s\<lparr>CodeBuffW := b\<rparr>) = TabStops s"
  "NTabStops (s\<lparr>CodeBuffW := b\<rparr>) = NTabStops s"
  by simp_all

text \<open>Starting from a state as it is.\<close>

lemma runs_start:
  assumes "geom_ok s" "\<And>b. becomes s D (line s D) b \<Longrightarrow> runs P (m (s\<lparr>CodeBuffW := b\<rparr>))"
  shows "runs P (m s)"
  using assms(2) [OF becomes_start [OF assms(1)]] by simp

text \<open>\<open>NewLine\<close> for the cursor's line changes nothing when \<open>LinePtr\<close> is already right.\<close>

lemma NewLine_same:
  assumes "becomes s D l b" "lineptr_ok s" "0 \<le> PageStart s + CursorY s"
  shows "NewLine (PageStart s + CursorY s) (s\<lparr>CodeBuffW := b\<rparr>) = Some (s\<lparr>CodeBuffW := b\<rparr>)"
proof -
  have "LinePtr s = row_ptr s (PageStart s + CursorY s)" using assms(2) by (simp add: lineptr_ok_def)
  then have "(s\<lparr>CodeBuffW := b\<rparr>)\<lparr>LinePtr := row_ptr s (PageStart s + CursorY s)\<rparr> = s\<lparr>CodeBuffW := b\<rparr>"
    by simp
  then show ?thesis using becomesD(4) [OF assms(1)] assms(3) by (simp add: NewLine_def)
qed

subsection \<open>Rectangles\<close>

text \<open>The loop over the lines of a rectangle; \<open>op\<close> is its body, given the line's pointer.\<close>

definition box_lines :: "(int \<Rightarrow> screen \<Rightarrow> screen option) \<Rightarrow> int \<Rightarrow> int \<Rightarrow> screen \<Rightarrow> screen option" where
  "box_lines op YStart YEnd s =
     do {
       Ptr \<leftarrow> GetLinePtr (PageStart s + YStart) s;
       (s, Ptr) \<leftarrow> fill_lines NextLinePtr op Ptr (nat (YEnd - YStart + 1)) s;
       Some s
     }"

text \<open>The contract of a loop body: it edits the line it is given, as \<open>eff\<close> says.\<close>

locale line_edit =
  fixes op :: "int \<Rightarrow> screen \<Rightarrow> screen option"
    and pre :: "screen \<Rightarrow> bool"
    and eff :: "screen \<Rightarrow> buff_char list \<Rightarrow> buff_char list"
  assumes op_line: "pre s \<Longrightarrow>
      runs (\<lambda>t. \<exists>b. t = s\<lparr>CodeBuffW := b\<rparr> \<and> becomes s D (eff s (line s D)) b) (op (row_ptr s D) s)"
    and pre_geom: "pre s \<Longrightarrow> geom_ok s"
    and frame: "pre s \<Longrightarrow> same_but_cells s t \<Longrightarrow> pre t \<and> eff t = eff s"
begin

lemma op_rows:
  assumes "pre s"
  shows "\<exists>t. op (row_ptr s D) s = Some t \<and> same_but_cells s t \<and>
    (\<forall>L. line t L = (if (L - D) mod NumOfLinesInBuff s = 0 then eff s (line s D) else line s L))"
  using op_line [OF assms, of D] becomesD(5) unfolding runs_def becomes_def by blast

lemma lines:
  assumes "pre s" "B \<le> D" "D + int n \<le> B + NumOfLinesInBuff s"
  shows "\<exists>t. fill_lines NextLinePtr op (row_ptr s D) n s = Some (t, row_ptr s (D + int n)) \<and>
    same_but_cells s t \<and>
    (\<forall>L. B \<le> L \<longrightarrow> L < B + NumOfLinesInBuff s \<longrightarrow>
      line t L = (if D \<le> L \<and> L < D + int n then eff s (line s L) else line s L))"
  using assms
proof (induction n arbitrary: s D)
  case 0
  then show ?case by auto
next
  case (Suc n)
  obtain t where t: "op (row_ptr s D) s = Some t" "same_but_cells s t"
    and lt: "\<And>L. line t L = (if (L - D) mod NumOfLinesInBuff s = 0 then eff s (line s D) else line s L)"
    using op_rows [OF Suc.prems(1)] by blast
  note f = same_frame [OF t(2)]
  have p: "pre t" and e: "eff t = eff s" using frame [OF Suc.prems(1) t(2)] by simp_all
  have g: "geom_ok t" by (rule pre_geom [OF p])
  have "B \<le> D + 1" "D + 1 + int n \<le> B + NumOfLinesInBuff t" using Suc.prems f by auto
  from Suc.IH [OF p this] obtain u where
    u: "fill_lines NextLinePtr op (row_ptr t (D + 1)) n t = Some (u, row_ptr t (D + 1 + int n))"
      "same_but_cells t u"
    and lu: "\<And>L. B \<le> L \<Longrightarrow> L < B + NumOfLinesInBuff t \<Longrightarrow> line u L =
      (if D + 1 \<le> L \<and> L < D + 1 + int n then eff t (line t L) else line t L)" by blast
  have nx: "NextLinePtr t (row_ptr s D) = row_ptr s (D + 1)"
    using NextLinePtr_row [OF g, of 0 D] g f by (simp add: geom_ok_def)
  have run: "fill_lines NextLinePtr op (row_ptr s D) (Suc n) s = Some (u, row_ptr s (D + int (Suc n)))"
    using t(1) u(1) nx f by (simp add: algebra_simps)
  have "line u L = (if D \<le> L \<and> L < D + int (Suc n) then eff s (line s L) else line s L)"
    if L: "B \<le> L" "L < B + NumOfLinesInBuff s" for L
  proof -
    have w: "(L - D) mod NumOfLinesInBuff s = 0 \<longleftrightarrow> L = D"
      using window_mod [of B L "NumOfLinesInBuff s" D] L Suc.prems by auto
    have "line u L = (if D + 1 \<le> L \<and> L < D + 1 + int n then eff s (line t L) else line t L)"
      using lu [of L] L f e by simp
    then show ?thesis using lt [of L] w by (cases "L = D") auto
  qed
  then show ?case using run same_trans [OF t(2) u(2)] by blast
qed

lemma box:
  assumes "pre s" "page_ok s" "0 \<le> y" "y \<le> y'" "y' < NumOfLines s"
  shows "\<exists>t. box_lines op y y' s = Some t \<and> same_but_cells s t \<and>
    (\<forall>L. 0 \<le> L \<longrightarrow> L < NumOfLinesInBuff s \<longrightarrow> line t L =
      (if PageStart s + y \<le> L \<and> L \<le> PageStart s + y' then eff s (line s L) else line s L))"
proof -
  have r: "0 \<le> PageStart s + y" "PageStart s + y + int (nat (y' - y + 1)) \<le> 0 + NumOfLinesInBuff s"
    using assms(2-) by (auto simp: page_ok_def)
  obtain t where t: "fill_lines NextLinePtr op (row_ptr s (PageStart s + y)) (nat (y' - y + 1)) s
      = Some (t, row_ptr s (PageStart s + y + int (nat (y' - y + 1))))" "same_but_cells s t"
    and l: "\<And>L. 0 \<le> L \<Longrightarrow> L < 0 + NumOfLinesInBuff s \<Longrightarrow> line t L =
      (if PageStart s + y \<le> L \<and> L < PageStart s + y + int (nat (y' - y + 1))
       then eff s (line s L) else line s L)"
    using lines [OF assms(1) r] by blast
  have "PageStart s + y + int (nat (y' - y + 1)) = PageStart s + y' + 1" using assms(4) by simp
  then have "line t L = (if PageStart s + y \<le> L \<and> L \<le> PageStart s + y'
       then eff s (line s L) else line s L)" if "0 \<le> L" "L < NumOfLinesInBuff s" for L
    using l [of L] that by simp
  moreover have "box_lines op y y' s = Some t"
    using t(1) r(1) pre_geom [OF assms(1)] by (simp add: box_lines_def)
  ultimately show ?thesis using t(2) by blast
qed

end

end
