(* ===== verification/ScreenEdit.thy ===== *)
theory ScreenEdit
  imports LineCalc
begin

section \<open>Editing and erasing inside the page (teraterm/teraterm/buffer.c)\<close>

text \<open>
  The operations that change cells without moving lines: insert and delete characters, erase
  to the end, from home and inside the line, the rectangle operations, selective erase and
  the sideways scroll. \<open>CodeLineW\<close> is a pointer taken from \<open>LinePtr\<close> at entry; the model keeps
  that value in \<open>p\<close>. Calls that only draw are left out.
\<close>

subsection \<open>Characters in the cursor's line\<close>

definition cur_space :: "screen \<Rightarrow> buff_char \<Rightarrow> buff_char" where
  "cur_space s c = (BuffSetChar (conv s) c 0x20 CHR ''H'')
     \<lparr>attr := Attr (CurCharAttr s), attr2 := Attr2 (CurCharAttr s),
      fg := Fore (CurCharAttr s), bg := Back (CurCharAttr s)\<rparr>"

definition EraseKanji :: "int \<Rightarrow> screen \<Rightarrow> (screen \<times> int) option" where
  "EraseKanji LR s =
     (if CursorX s < LR then Some (s, 0)
      else do {
        let bx = CursorX s - LR;
        let p = LinePtr s;
        c \<leftarrow> cell_get (p + bx) s;
        if IsBuffFullWidth c
        then do {
          s \<leftarrow> cell_upd (cur_space s) (p + bx) s;
          if bx + 1 < NumOfColumns s
          then do { s \<leftarrow> cell_upd (cur_space s) (p + (bx + 1)) s; Some (s, 2) }
          else Some (s, 1)
        }
        else Some (s, 0)
      })"

definition BuffInsertSpace :: "int \<Rightarrow> screen \<Rightarrow> screen option" where
  "BuffInsertSpace Count0 s =
     (let p = LinePtr s; x = CursorX s; r = CursorRightM s;
          Count = (if Count0 > r + 1 - x then r + 1 - x else Count0);
          MoveLen = r + 1 - x - Count
      in if x < CursorLeftM s \<or> x > r then Some s
      else do {
        s \<leftarrow> NewLine (PageStart s + CursorY s) s;
        s \<leftarrow> guarded True IsBuffPadding (p + x)
               (\<lambda>s. do { s \<leftarrow> setc 0x20 (p + (x - 1)) s; clear_kanji_at (p + x) s }) s;
        s \<leftarrow> guarded (r < NumOfColumns s - 1) is_kanji (p + r) (clear_kanji_at (p + (r + 1))) s;
        s \<leftarrow> (if MoveLen > 0 then memmoveS (p + (x + Count)) (p + x) MoveLen s else Some s);
        s \<leftarrow> memsetS (p + x) 0x20 (Fore (CurCharAttr s)) (Back (CurCharAttr s)) AttrDefault
               (Attr2 (CurCharAttr s)) Count s;
        guarded True is_kanji (p + r) (clear_kanji_at (p + r)) s
      })"

definition BuffDeleteChars :: "int \<Rightarrow> screen \<Rightarrow> screen option" where
  "BuffDeleteChars Count0 s =
     (let p = LinePtr s; x = CursorX s; r = CursorRightM s;
          Count = (if Count0 > r + 1 - x then r + 1 - x else Count0);
          MoveLen = r + 1 - x - Count
      in if x < CursorLeftM s \<or> x > r then Some s
      else do {
        s \<leftarrow> NewLine (PageStart s + CursorY s) s;
        s \<leftarrow> guarded True IsBuffPadding (p + x)
               (\<lambda>s. do { s \<leftarrow> setc 0x20 (p + (x - 1)) s; setc 0x20 (p + x) s }) s;
        s \<leftarrow> guarded True IsBuffFullWidth (p + x)
               (\<lambda>s. do { s \<leftarrow> setc 0x20 (p + x) s; setc 0x20 (p + (x + 1)) s }) s;
        s \<leftarrow> guarded (Count > 1) IsBuffPadding (p + (x + Count))
               (\<lambda>s. do { s \<leftarrow> setc 0x20 (p + (x + Count - 1)) s; setc 0x20 (p + (x + Count)) s }) s;
        s \<leftarrow> guarded (r < NumOfColumns s - 1) is_kanji (p + r)
               (\<lambda>s. do { s \<leftarrow> clear_kanji_at (p + r) s; clear_kanji_at (p + (r + 1)) s }) s;
        s \<leftarrow> (if MoveLen > 0 then memmoveS (p + x) (p + (x + Count)) MoveLen s else Some s);
        eraseS (p + (x + MoveLen)) Count s
      })"

definition BuffLineContinued :: "bool \<Rightarrow> screen \<Rightarrow> screen option" where
  "BuffLineContinued mode s =
     (if EnableContinuedLineCopy (ts s)
      then (if mode then cell_upd (\<lambda>c. c\<lparr>attr := attr c OR AttrLineContinued\<rparr>) (LinePtr s) s
            else cell_upd (clear_bits AttrLineContinued) (LinePtr s) s)
      else Some s)"

definition line_continued :: "int \<Rightarrow> screen \<Rightarrow> bool option" where
  "line_continued XStart s =
     (if EnableContinuedLineCopy (ts s) \<and> XStart = 0
      then do { c \<leftarrow> cell_get (LinePtr s) s; Some (has_bit (attr c) AttrLineContinued) }
      else Some False)"

text \<open>The end of both functions that erase in the line.\<close>

definition keep_continued :: "bool \<Rightarrow> int \<Rightarrow> int \<Rightarrow> screen \<Rightarrow> screen option" where
  "keep_continued LineContinued XStart Count s =
     (if EnableContinuedLineCopy (ts s)
      then do {
        s \<leftarrow> (if LineContinued then BuffLineContinued True s else Some s);
        if XStart + Count \<ge> NumOfColumns s
        then cell_upd (clear_bits AttrLineContinued) (NextLinePtr s (LinePtr s)) s
        else Some s
      }
      else Some s)"

definition BuffEraseCharsInLine :: "int \<Rightarrow> int \<Rightarrow> screen \<Rightarrow> screen option" where
  "BuffEraseCharsInLine XStart Count s =
     do {
       let p = LinePtr s;
       LineContinued \<leftarrow> line_continued XStart s;
       (s, _) \<leftarrow> EraseKanji 1 s;
       s \<leftarrow> (if XStart + Count < NumOfColumns s
            then do {
              let CursorXSave = CursorX s;
              (s, _) \<leftarrow> EraseKanji 1 (s\<lparr>CursorX := XStart + Count\<rparr>);
              Some (s\<lparr>CursorX := CursorXSave\<rparr>)
            }
            else Some s);
       s \<leftarrow> NewLine (PageStart s + CursorY s) s;
       s \<leftarrow> eraseS (p + XStart) Count s;
       keep_continued LineContinued XStart Count s
     }"

definition BuffEraseChars :: "int \<Rightarrow> screen \<Rightarrow> screen option" where
  "BuffEraseChars Count s = BuffEraseCharsInLine (CursorX s) Count s"

subsection \<open>From the cursor to the end, from home to the cursor\<close>

fun erase_to_end :: "int \<Rightarrow> int \<Rightarrow> nat \<Rightarrow> screen \<Rightarrow> screen option" where
  "erase_to_end offset TmpPtr 0 s = Some s"
| "erase_to_end offset TmpPtr (Suc n) s =
     do {
       s \<leftarrow> eraseS (TmpPtr + offset) (NumOfColumns s - offset) s;
       erase_to_end 0 (NextLinePtr s TmpPtr) n s
     }"

definition last_line :: "screen \<Rightarrow> int" where
  "last_line s = (if StatusLine s \<noteq> 0 \<and> \<not> isCursorOnStatusLine s
     then NumOfLines s - 2 else NumOfLines s - 1)"

definition BuffEraseCurToEnd :: "screen \<Rightarrow> screen option" where
  "BuffEraseCurToEnd s =
     do {
       s \<leftarrow> NewLine (PageStart s + CursorY s) s;
       (s, _) \<leftarrow> EraseKanji 1 s;
       TmpPtr \<leftarrow> GetLinePtr (PageStart s + CursorY s) s;
       erase_to_end (CursorX s) TmpPtr (nat (last_line s - CursorY s + 1)) s
     }"

fun erase_from_home :: "int \<Rightarrow> nat \<Rightarrow> screen \<Rightarrow> screen option" where
  "erase_from_home TmpPtr 0 s = Some s"
| "erase_from_home TmpPtr (Suc n) s =
     do {
       s \<leftarrow> eraseS TmpPtr (if n = 0 then CursorX s + 1 else NumOfColumns s) s;
       erase_from_home (NextLinePtr s TmpPtr) n s
     }"

definition home_line :: "screen \<Rightarrow> int" where
  "home_line s = (if isCursorOnStatusLine s then CursorY s else 0)"

definition BuffEraseHomeToCur :: "screen \<Rightarrow> screen option" where
  "BuffEraseHomeToCur s =
     do {
       s \<leftarrow> NewLine (PageStart s + CursorY s) s;
       (s, _) \<leftarrow> EraseKanji 0 s;
       TmpPtr \<leftarrow> GetLinePtr (PageStart s + home_line s) s;
       erase_from_home TmpPtr (nat (CursorY s - home_line s + 1)) s
     }"

subsection \<open>Rectangles\<close>


definition clip_x :: "int \<Rightarrow> screen \<Rightarrow> int" where
  "clip_x XEnd s = (if XEnd > NumOfColumns s - 1 then NumOfColumns s - 1 else XEnd)"

definition clip_y :: "int \<Rightarrow> screen \<Rightarrow> int" where
  "clip_y YEnd s =
     (if YEnd > NumOfLines s - 1 - StatusLine s then NumOfLines s - 1 - StatusLine s else YEnd)"

definition BuffFillWithE :: "screen \<Rightarrow> screen option" where
  "BuffFillWithE s =
     box_lines (\<lambda>p s. memsetS p 0x45 AttrDefaultFG AttrDefaultBG AttrDefault AttrDefault
       (NumOfColumns s) s) 0 (NumOfLines s - 1 - StatusLine s) s"

definition erase_box_line :: "int \<Rightarrow> int \<Rightarrow> int \<Rightarrow> screen \<Rightarrow> screen option" where
  "erase_box_line XStart C Ptr s =
     do {
       s \<leftarrow> guarded (XStart > 0) is_kanji (Ptr + (XStart - 1))
              (\<lambda>s. cell_upd (cur_space s) (Ptr + (XStart - 1)) s) s;
       s \<leftarrow> guarded (XStart + C < NumOfColumns s) is_kanji (Ptr + (XStart + C - 1))
              (\<lambda>s. cell_upd (cur_space s) (Ptr + (XStart + C)) s) s;
       eraseS (Ptr + XStart) C s
     }"

definition BuffEraseBox :: "int \<Rightarrow> int \<Rightarrow> int \<Rightarrow> int \<Rightarrow> screen \<Rightarrow> screen option" where
  "BuffEraseBox XStart YStart XEnd0 YEnd0 s =
     (let XEnd = clip_x XEnd0 s; YEnd = clip_y YEnd0 s
      in if XStart > XEnd then Some s
      else if YStart > YEnd then Some s
      else box_lines (erase_box_line XStart (XEnd - XStart + 1)) YStart YEnd s)"

text \<open>A \<open>char\<close> (signed) passed where a \<open>wchar_t\<close> (16 bits) is expected.\<close>

definition wchar_of_char :: "u8 \<Rightarrow> u32" where
  "wchar_of_char ch = ucast (scast ch :: u16)"

definition fill_box_line :: "u8 \<Rightarrow> int \<Rightarrow> int \<Rightarrow> int \<Rightarrow> screen \<Rightarrow> screen option" where
  "fill_box_line ch XStart Cols Ptr s =
     do {
       s \<leftarrow> guarded (XStart > 0) is_kanji (Ptr + (XStart - 1))
              (\<lambda>s. do { s \<leftarrow> setc 0x20 (Ptr + (XStart - 1)) s;
                        cell_upd (\<lambda>c. c\<lparr>attr := attr c XOR AttrKanji\<rparr>) (Ptr + (XStart - 1)) s }) s;
       s \<leftarrow> guarded (XStart + Cols < NumOfColumns s) is_kanji (Ptr + (XStart + Cols - 1))
              (setc 0x20 (Ptr + (XStart + Cols))) s;
       memsetS (Ptr + XStart) (wchar_of_char ch) (Fore (CurCharAttr s)) (Back (CurCharAttr s))
         (Attr (CurCharAttr s)) (Attr2 (CurCharAttr s)) Cols s
     }"

definition BuffFillBox :: "u8 \<Rightarrow> int \<Rightarrow> int \<Rightarrow> int \<Rightarrow> int \<Rightarrow> screen \<Rightarrow> screen option" where
  "BuffFillBox ch XStart YStart XEnd0 YEnd0 s =
     (let XEnd = clip_x XEnd0 s; YEnd = clip_y YEnd0 s
      in if XStart > XEnd then Some s
      else if YStart > YEnd then Some s
      else box_lines (fill_box_line ch XStart (XEnd - XStart + 1)) YStart YEnd s)"

text \<open>\<open>BuffDrawLine\<close> (IO-8256 terminal); \<open>Direction\<close> other than 3 to 6 does nothing.\<close>

definition BuffDrawLine :: "TCharAttr \<Rightarrow> int \<Rightarrow> int \<Rightarrow> screen \<Rightarrow> screen option" where
  "BuffDrawLine A Direction C s =
     (let Attr_Attr = Attr A OR AttrSpecial
      in if C = 0 then Some s
      else if Direction = 3 \<or> Direction = 4
      then (if Direction = 3 \<and> CursorY s = 0 then Some s
            else if Direction = 4 \<and> CursorY s = NumOfLines s - 1 - StatusLine s then Some s
            else do {
              let Y = (if Direction = 3 then CursorY s - 1 else CursorY s + 1);
              let C = (if CursorX s + C > NumOfColumns s then NumOfColumns s - CursorX s else C);
              Ptr \<leftarrow> GetLinePtr (PageStart s + Y) s;
              memsetS (Ptr + CursorX s) 0x71 (Fore A) (Back A) Attr_Attr (Attr2 A) C s
            })
      else if Direction = 5 \<or> Direction = 6
      then (if Direction = 5 \<and> CursorX s = 0 then Some s
            else do {
              let X = (if Direction = 5 then CursorX s - 1
                       else if CursorX s = NumOfColumns s - 1 then CursorX s - 1
                       else CursorX s + 1);
              let C = (if CursorY s + C > NumOfLines s - StatusLine s
                       then NumOfLines s - StatusLine s - CursorY s else C);
              box_lines (\<lambda>Ptr s. cell_upd (\<lambda>c. BuffSetChar4 (conv s) c 0x78 (Fore A) (Back A)
                  (Attr_Attr OR AttrSpecial) (Attr2 A) CHR ''H'') (Ptr + X) s)
                (CursorY s) (CursorY s + C - 1) s
            })
      else Some s)"

text \<open>
  \<open>BuffCopyBox\<close> copies a rectangle; the direction of the loops depends on the columns only.
  The arguments count from 1. The bounds are the code's, including the two that use
  \<open>NumOfColumns\<close> for a number of lines.
\<close>

definition copy_box_extent ::
  "int \<Rightarrow> int \<Rightarrow> int \<Rightarrow> int \<Rightarrow> int \<Rightarrow> int \<Rightarrow> screen \<Rightarrow> (int \<times> int \<times> int) option" where
  "copy_box_extent SrcXStart SrcYStart SrcXEnd0 SrcYEnd0 DstX DstY s =
     (let SrcXEnd = clip_x SrcXEnd0 s;
          SrcYEnd = (if SrcYEnd0 > NumOfLines s - 1 - StatusLine s then NumOfColumns s - 1
                     else SrcYEnd0)
      in if SrcXStart > SrcXEnd \<or> SrcYStart > SrcYEnd \<or> DstX > NumOfColumns s - 1 \<or>
            DstY > NumOfLines s - 1 - StatusLine s
         then None
         else let C = SrcXEnd - SrcXStart + 1;
                  C = (if DstX + C > NumOfColumns s then NumOfColumns s - DstX else C);
                  L = SrcYEnd - SrcYStart + 1;
                  C = (if DstY + C > NumOfColumns s then NumOfColumns s - DstX else C)
              in Some (C, L, SrcYEnd))"

definition BuffCopyBox ::
  "int \<Rightarrow> int \<Rightarrow> int \<Rightarrow> int \<Rightarrow> int \<Rightarrow> int \<Rightarrow> int \<Rightarrow> int \<Rightarrow> screen \<Rightarrow> screen option" where
  "BuffCopyBox SrcXStart1 SrcYStart1 SrcXEnd1 SrcYEnd1 SrcPage DstX1 DstY1 DstPage s =
     (let SrcXStart = SrcXStart1 - 1; SrcYStart = SrcYStart1 - 1; DstX = DstX1 - 1; DstY = DstY1 - 1
      in case copy_box_extent SrcXStart SrcYStart (SrcXEnd1 - 1) (SrcYEnd1 - 1) DstX DstY s of
           None \<Rightarrow> Some s
         | Some (C, L, SrcYEnd) \<Rightarrow>
             if SrcXStart > DstX
             then do {
               SPtr \<leftarrow> GetLinePtr (PageStart s + SrcYStart) s;
               DPtr \<leftarrow> GetLinePtr (PageStart s + DstY) s;
               (s, _) \<leftarrow> copy_lines NextLinePtr (\<lambda>d p. memcpyS (d + DstX) (p + SrcXStart) C)
                 DPtr SPtr (nat L) s;
               Some s
             }
             else if SrcXStart < DstX
             then do {
               SPtr \<leftarrow> GetLinePtr (PageStart s + SrcYEnd) s;
               DPtr \<leftarrow> GetLinePtr (PageStart s + DstY + L - 1) s;
               (s, _) \<leftarrow> copy_lines PrevLinePtr (\<lambda>d p. memcpyS (d + DstX) (p + SrcXStart) C)
                 DPtr SPtr (nat L) s;
               Some s
             }
             else if SrcYStart \<noteq> DstY
             then do {
               SPtr \<leftarrow> GetLinePtr (PageStart s + SrcYStart) s;
               DPtr \<leftarrow> GetLinePtr (PageStart s + DstY) s;
               (s, _) \<leftarrow> copy_lines NextLinePtr (\<lambda>d p. memmoveS (d + DstX) (p + SrcXStart) C)
                 DPtr SPtr (nat L) s;
               Some s
             }
             else Some s)"

subsection \<open>Changing attributes (DECCARA and DECRARA)\<close>

definition change_attr :: "TCharAttr \<Rightarrow> TCharAttr option \<Rightarrow> buff_char \<Rightarrow> buff_char" where
  "change_attr a msk c =
     (case msk of
        Some m \<Rightarrow>
          c\<lparr>attr := (attr c AND NOT (Attr m)) OR Attr a,
            attr2 := (attr2 c AND NOT (Attr2 m)) OR Attr2 a,
            fg := (if has_bit (Attr2 m) Attr2Fore then Fore a else fg c),
            bg := (if has_bit (Attr2 m) Attr2Back then Back a else bg c)\<rparr>
      | None \<Rightarrow> c\<lparr>attr := attr c XOR Attr a\<rparr>)"

definition updateS :: "(buff_char \<Rightarrow> buff_char) \<Rightarrow> int \<Rightarrow> int \<Rightarrow> screen \<Rightarrow> screen option" where
  "updateS f i n s = do { b \<leftarrow> update_run f (CodeBuffW s) i (nat n); Some (s\<lparr>CodeBuffW := b\<rparr>) }"

definition change_attr_line ::
  "(buff_char \<Rightarrow> buff_char) \<Rightarrow> int \<Rightarrow> int \<Rightarrow> int \<Rightarrow> screen \<Rightarrow> screen option" where
  "change_attr_line f XStart C Ptr s =
     do {
       s \<leftarrow> guarded (XStart > 0) is_kanji (Ptr + (XStart - 1)) (cell_upd f (Ptr + (XStart - 1))) s;
       s \<leftarrow> updateS f (Ptr + XStart) C s;
       guarded (XStart + C < NumOfColumns s) is_kanji (Ptr + (XStart + C - 1))
         (cell_upd f (Ptr + (XStart + C))) s
     }"

definition BuffChangeAttrBox ::
  "int \<Rightarrow> int \<Rightarrow> int \<Rightarrow> int \<Rightarrow> TCharAttr \<Rightarrow> TCharAttr option \<Rightarrow> screen \<Rightarrow> screen option" where
  "BuffChangeAttrBox XStart YStart XEnd0 YEnd0 a msk s =
     (let XEnd = clip_x XEnd0 s; YEnd = clip_y YEnd0 s
      in if XStart > XEnd \<or> YStart > YEnd then Some s
      else box_lines (change_attr_line (change_attr a msk) XStart (XEnd - XStart + 1)) YStart YEnd s)"

fun stream_lines ::
  "(buff_char \<Rightarrow> buff_char) \<Rightarrow> int \<Rightarrow> nat \<Rightarrow> screen \<Rightarrow> (screen \<times> int) option" where
  "stream_lines f Ptr 0 s = Some (s, Ptr)"
| "stream_lines f Ptr (Suc n) s =
     do {
       let p = NextLinePtr s Ptr;
       s \<leftarrow> updateS f p (NumOfColumns s) s;
       stream_lines f p n s
     }"

definition BuffChangeAttrStream ::
  "int \<Rightarrow> int \<Rightarrow> int \<Rightarrow> int \<Rightarrow> TCharAttr \<Rightarrow> TCharAttr option \<Rightarrow> screen \<Rightarrow> screen option" where
  "BuffChangeAttrStream XStart YStart XEnd0 YEnd0 a msk s =
     (let XEnd = clip_x XEnd0 s; YEnd = clip_y YEnd0 s; f = change_attr a msk
      in if XStart > XEnd \<or> YStart > YEnd then Some s
      else do {
        Ptr \<leftarrow> GetLinePtr (PageStart s + YStart) s;
        if YStart = YEnd then change_attr_line f XStart (XEnd - XStart + 1) Ptr s
        else do {
          s \<leftarrow> guarded (XStart > 0) is_kanji (Ptr + (XStart - 1)) (cell_upd f (Ptr + (XStart - 1))) s;
          s \<leftarrow> updateS f (Ptr + XStart) (NumOfColumns s - XStart) s;
          (s, Ptr) \<leftarrow> stream_lines f Ptr (nat (YEnd - YStart - 1)) s;
          let Ptr = NextLinePtr s Ptr;
          s \<leftarrow> updateS f Ptr (XEnd + 1) s;
          guarded (XEnd < NumOfColumns s - 1) is_kanji (Ptr + XEnd) (cell_upd f (Ptr + (XEnd + 1))) s
        }
      })"

subsection \<open>Selective erase (DECSED, DECSEL, DECSERA)\<close>

text \<open>
  One iteration: the protection bit is tested at \<open>t\<close>, the space is written at \<open>w\<close>, the
  attributes are masked at \<open>a\<close>. Two of the functions index \<open>CodeLineW\<close>, which starts at the
  cursor's line, with a position in the whole array, so \<open>t\<close> and \<open>w\<close> differ.
\<close>

definition sel_cell :: "int \<Rightarrow> int \<Rightarrow> int \<Rightarrow> screen \<Rightarrow> screen option" where
  "sel_cell t w a s =
     do {
       c \<leftarrow> cell_get t s;
       if \<not> has_bit (attr2 c) Attr2Protect
       then do { s \<leftarrow> setc 0x20 w s; cell_upd (\<lambda>c. c\<lparr>attr := attr c AND AttrSgrMask\<rparr>) a s }
       else Some s
     }"

fun sel_run :: "int \<Rightarrow> int \<Rightarrow> int \<Rightarrow> nat \<Rightarrow> screen \<Rightarrow> screen option" where
  "sel_run tofs aofs j 0 s = Some s"
| "sel_run tofs aofs j (Suc n) s =
     do { s \<leftarrow> sel_cell (tofs + j) j (aofs + j) s; sel_run tofs aofs (j + 1) n s }"

definition is_dbcs :: "screen \<Rightarrow> bool" where
  "is_dbcs s \<longleftrightarrow> KanjiCode (ts s) \<in> {IdSJIS, IdEUC, IdJIS, IdKoreanCP949, IdUTF8}"

definition sel_erase_kanji :: "int \<Rightarrow> int \<Rightarrow> screen \<Rightarrow> screen option" where
  "sel_erase_kanji p LR s =
     (if is_dbcs s
      then do {
        c \<leftarrow> cell_get (p + CursorX s) s;
        if \<not> has_bit (attr2 c) Attr2Protect then do { (s, _) \<leftarrow> EraseKanji LR s; Some s } else Some s
      }
      else Some s)"

fun sel_to_end :: "int \<Rightarrow> int \<Rightarrow> int \<Rightarrow> nat \<Rightarrow> screen \<Rightarrow> screen option" where
  "sel_to_end p offset TmpPtr 0 s = Some s"
| "sel_to_end p offset TmpPtr (Suc n) s =
     do {
       s \<leftarrow> sel_run p p (TmpPtr + offset) (nat (NumOfColumns s - offset - offset)) s;
       sel_to_end p 0 (NextLinePtr s TmpPtr) n s
     }"

definition BuffSelectedEraseCurToEnd :: "screen \<Rightarrow> screen option" where
  "BuffSelectedEraseCurToEnd s =
     do {
       let p = LinePtr s;
       s \<leftarrow> NewLine (PageStart s + CursorY s) s;
       s \<leftarrow> sel_erase_kanji p 1 s;
       TmpPtr \<leftarrow> GetLinePtr (PageStart s + CursorY s) s;
       sel_to_end p (CursorX s) TmpPtr (nat (last_line s - CursorY s + 1)) s
     }"

fun sel_from_home :: "int \<Rightarrow> int \<Rightarrow> nat \<Rightarrow> screen \<Rightarrow> screen option" where
  "sel_from_home p TmpPtr 0 s = Some s"
| "sel_from_home p TmpPtr (Suc n) s =
     do {
       s \<leftarrow> sel_run p 0 TmpPtr (nat (if n = 0 then CursorX s + 1 else NumOfColumns s)) s;
       sel_from_home p (NextLinePtr s TmpPtr) n s
     }"

definition BuffSelectedEraseHomeToCur :: "screen \<Rightarrow> screen option" where
  "BuffSelectedEraseHomeToCur s =
     do {
       let p = LinePtr s;
       s \<leftarrow> NewLine (PageStart s + CursorY s) s;
       s \<leftarrow> sel_erase_kanji p 0 s;
       TmpPtr \<leftarrow> GetLinePtr (PageStart s + home_line s) s;
       sel_from_home p TmpPtr (nat (CursorY s - home_line s + 1)) s
     }"

definition BuffSelectedEraseScreen :: "screen \<Rightarrow> screen option" where
  "BuffSelectedEraseScreen s = Option.bind (BuffSelectedEraseHomeToCur s) BuffSelectedEraseCurToEnd"

definition sgr_space_at :: "int \<Rightarrow> screen \<Rightarrow> screen option" where
  "sgr_space_at i s =
     do { s \<leftarrow> setc 0x20 i s; cell_upd (\<lambda>c. c\<lparr>attr := attr c AND AttrSgrMask\<rparr>) i s }"

definition sel_box_line :: "int \<Rightarrow> int \<Rightarrow> int \<Rightarrow> screen \<Rightarrow> screen option" where
  "sel_box_line XStart C Ptr s =
     do {
       s \<leftarrow> guarded (XStart > 0) (\<lambda>c. is_kanji c \<and> \<not> has_bit (attr2 c) Attr2Protect)
              (Ptr + (XStart - 1)) (sgr_space_at (Ptr + (XStart - 1))) s;
       s \<leftarrow> guarded (XStart + C < NumOfColumns s) (\<lambda>c. is_kanji c \<and> \<not> has_bit (attr2 c) Attr2Protect)
              (Ptr + (XStart + C - 1)) (sgr_space_at (Ptr + (XStart + C))) s;
       sel_run 0 0 (Ptr + XStart) (nat C) s
     }"

definition BuffSelectiveEraseBox :: "int \<Rightarrow> int \<Rightarrow> int \<Rightarrow> int \<Rightarrow> screen \<Rightarrow> screen option" where
  "BuffSelectiveEraseBox XStart YStart XEnd0 YEnd0 s =
     (let XEnd = clip_x XEnd0 s; YEnd = clip_y YEnd0 s
      in if XStart > XEnd then Some s
      else if YStart > YEnd then Some s
      else box_lines (sel_box_line XStart (XEnd - XStart + 1)) YStart YEnd s)"

definition BuffSelectedEraseCharsInLine :: "int \<Rightarrow> int \<Rightarrow> screen \<Rightarrow> screen option" where
  "BuffSelectedEraseCharsInLine XStart Count s =
     do {
       let p = LinePtr s;
       LineContinued \<leftarrow> line_continued XStart s;
       s \<leftarrow> sel_erase_kanji p 1 s;
       s \<leftarrow> NewLine (PageStart s + CursorY s) s;
       s \<leftarrow> sel_run 0 0 (p + XStart) (nat Count) s;
       keep_continued LineContinued XStart Count s
     }"

subsection \<open>Scrolling sideways\<close>

definition scroll_left_line :: "int \<Rightarrow> int \<Rightarrow> int \<Rightarrow> int \<Rightarrow> screen \<Rightarrow> screen option" where
  "scroll_left_line l r count LPtr s =
     do {
       let MoveLen = r - l + 1 - count;
       s \<leftarrow> guarded True is_kanji (LPtr + r)
              (\<lambda>s. do { s \<leftarrow> clear_kanji_at (LPtr + r) s;
                        if r < NumOfColumns s - 1 then setc 0x20 (LPtr + (r + 1)) s else Some s }) s;
       s \<leftarrow> guarded True is_kanji (LPtr + (l + count - 1)) (setc 0x20 (LPtr + (l + count))) s;
       s \<leftarrow> guarded (l > 0) is_kanji (LPtr + (l - 1)) (clear_kanji_at (LPtr + (l - 1))) s;
       s \<leftarrow> memmoveS (LPtr + l) (LPtr + (l + count)) MoveLen s;
       eraseS (LPtr + (l + MoveLen)) count s
     }"

definition scroll_right_line :: "int \<Rightarrow> int \<Rightarrow> int \<Rightarrow> int \<Rightarrow> screen \<Rightarrow> screen option" where
  "scroll_right_line l r count LPtr s =
     do {
       let MoveLen = r - l + 1 - count;
       s \<leftarrow> guarded (r < NumOfColumns s - 1) is_kanji (LPtr + r) (setc 0x20 (LPtr + (r + 1))) s;
       s \<leftarrow> guarded (l > 0) is_kanji (LPtr + (l - 1))
              (\<lambda>s. do { s \<leftarrow> clear_kanji_at (LPtr + (l - 1)) s; setc 0x20 (LPtr + l) s }) s;
       s \<leftarrow> memmoveS (LPtr + (l + count)) (LPtr + l) MoveLen s;
       s \<leftarrow> eraseS (LPtr + l) count s;
       guarded True is_kanji (LPtr + r) (clear_kanji_at (LPtr + r)) s
     }"

definition BuffScrollLeft :: "int \<Rightarrow> screen \<Rightarrow> screen option" where
  "BuffScrollLeft count s =
     (let s = UpdateStr s in box_lines (scroll_left_line (CursorLeftM s) (CursorRightM s) count)
       (CursorTop s) (CursorBottom s) s)"

definition BuffScrollRight :: "int \<Rightarrow> screen \<Rightarrow> screen option" where
  "BuffScrollRight count s =
     (let s = UpdateStr s in box_lines (scroll_right_line (CursorLeftM s) (CursorRightM s) count)
       (CursorTop s) (CursorBottom s) s)"

subsection \<open>The loop bodies as edits of one line\<close>

lemma cur_space_upd [simp]: "cur_space (s\<lparr>CodeBuffW := b\<rparr>) = cur_space s"
  by (simp add: cur_space_def fun_eq_iff)

lemma cell_upd_twice:
  "Option.bind (cell_upd f i s) (cell_upd g i) = cell_upd (\<lambda>c. g (f c)) i s"
  by (simp add: cell_upd_def rd_def wr_def in_arr_def nat_less_iff)

text \<open>A space that keeps the attributes in \<open>AttrSgrMask\<close> only.\<close>

definition sgr_space :: "conv_env \<Rightarrow> buff_char \<Rightarrow> buff_char" where
  "sgr_space cv c = (BuffSetChar cv c 0x20 CHR ''H'')\<lparr>attr := attr c AND AttrSgrMask\<rparr>"

lemma attr_BuffSetChar [simp]: "attr (BuffSetChar cv c ch w) = attr c"
  "attr2 (BuffSetChar cv c ch w) = attr2 c"
  by (simp_all add: BuffSetChar_def BuffSetChar2_def FreeCombinationBuf_def)

lemma sgr_space_at_upd: "sgr_space_at i s = cell_upd (sgr_space (conv s)) i s"
  by (simp add: sgr_space_at_def setc_def cell_upd_twice sgr_space_def [abs_def])

definition unprotected_space :: "conv_env \<Rightarrow> buff_char \<Rightarrow> buff_char" where
  "unprotected_space cv c = (if has_bit (attr2 c) Attr2Protect then c else sgr_space cv c)"

lemma sel_run_updateS:
  "sel_run 0 0 j n s = updateS (unprotected_space (conv s)) j (int n) s"
proof (induction n arbitrary: j s)
  case 0
  show ?case by (simp add: updateS_def)
next
  case (Suc n)
  have cell: "sel_cell j j j s = cell_upd (unprotected_space (conv s)) j s"
    unfolding sel_cell_def setc_def cell_upd_twice cell_get_def
    by (auto simp: cell_upd_def rd_def wr_def in_arr_def unprotected_space_def sgr_space_def)
  have n: "nat (int (Suc n)) = Suc n" by simp
  have c: "conv s' = conv s" if "cell_upd f i s = Some s'" for f i s'
    using that by (auto simp: cell_upd_def bind_eq_Some_conv)
  have "sel_run 0 0 j (Suc n) s = Option.bind (cell_upd (unprotected_space (conv s)) j s)
      (\<lambda>s'. updateS (unprotected_space (conv s)) (j + 1) (int n) s')"
    by (cases "cell_upd (unprotected_space (conv s)) j s") (simp_all add: cell Suc.IH c)
  then show ?case
    unfolding updateS_def n by (simp add: cell_upd_def rd_def wr_def)
qed

lemma runs_update:
  assumes b: "becomes s D l b" and c: "0 \<le> c" "0 \<le> n" "c + n \<le> NumOfColumns s"
    and P: "\<And>b'. becomes s D (updated f l c n) b' \<Longrightarrow> P (s\<lparr>CodeBuffW := b'\<rparr>)"
  shows "runs P (updateS f (row_ptr s D + c) n (s\<lparr>CodeBuffW := b\<rparr>))"
proof -
  let ?S = "s\<lparr>CodeBuffW := b\<rparr>"
  have g: "geom_ok ?S" by (rule becomesD(4) [OF b])
  have bnd: "0 \<le> row_ptr s D" "row_ptr s D + NumOfColumns s \<le> int (length b)"
    using row_bounds [OF g, of D] g by (simp_all add: geom_ok_def)
  have m: "updateS f (row_ptr s D + c) n ?S = Some (s\<lparr>CodeBuffW := updated f b (row_ptr s D + c) n\<rparr>)"
    using bnd c by (simp add: updateS_def update_run_updated)
  have "at (s\<lparr>CodeBuffW := updated f b (row_ptr s D + c) n\<rparr>) L x =
      (if (L - D) mod NumOfLinesInBuff s = 0 then updated f l c n ! nat x else at ?S L x)"
    if x: "in_cols s x" for L x
    using at_updated [OF g, of x c n f D L] x c
    by (simp add: nth_updated [OF seg_nth [OF becomesD(3) [OF b] x]] becomes_cells [OF b])
  moreover have "same_but_cells ?S (s\<lparr>CodeBuffW := updated f b (row_ptr s D + c) n\<rparr>)"
    by (simp add: same_but_cells_def)
  ultimately show ?thesis
    using runs_step [OF b, of "updateS f (row_ptr s D + c) n" "updated f l c n" P] m P by simp
qed

lemmas line_rules = runs_bind runs_guarded runs_cell_upd runs_setc runs_clear runs_memset
  runs_erase runs_memmove runs_update runs_if runs_SomeI

text \<open>What each body does to its line.\<close>

definition erase_box_eff :: "int \<Rightarrow> int \<Rightarrow> screen \<Rightarrow> buff_char list \<Rightarrow> buff_char list" where
  "erase_box_eff X C s l =
     (let l1 = (if X > 0 \<and> is_kanji (l ! nat (X - 1))
                then l[nat (X - 1) := cur_space s (l ! nat (X - 1))] else l);
          l2 = (if X + C < NumOfColumns s \<and> is_kanji (l1 ! nat (X + C - 1))
                then l1[nat (X + C) := cur_space s (l1 ! nat (X + C))] else l1)
      in updated (\<lambda>_. erased s) l2 X C)"

definition flip_space :: "conv_env \<Rightarrow> buff_char \<Rightarrow> buff_char" where
  "flip_space cv c = (BuffSetChar cv c 0x20 CHR ''H'')\<lparr>attr := attr c XOR AttrKanji\<rparr>"

definition fill_box_eff :: "u8 \<Rightarrow> int \<Rightarrow> int \<Rightarrow> screen \<Rightarrow> buff_char list \<Rightarrow> buff_char list" where
  "fill_box_eff ch X C s l =
     (let l1 = (if X > 0 \<and> is_kanji (l ! nat (X - 1))
                then l[nat (X - 1) := flip_space (conv s) (l ! nat (X - 1))] else l);
          l2 = (if X + C < NumOfColumns s \<and> is_kanji (l1 ! nat (X + C - 1))
                then l1[nat (X + C) := BuffSetChar (conv s) (l1 ! nat (X + C)) 0x20 CHR ''H''] else l1)
      in updated (\<lambda>_. blank_cell (conv s) (wchar_of_char ch) (Fore (CurCharAttr s))
           (Back (CurCharAttr s)) (Attr (CurCharAttr s)) (Attr2 (CurCharAttr s))) l2 X C)"

definition attr_eff :: "(buff_char \<Rightarrow> buff_char) \<Rightarrow> int \<Rightarrow> int \<Rightarrow> screen \<Rightarrow> buff_char list \<Rightarrow> buff_char list" where
  "attr_eff f X C s l =
     (let l1 = (if X > 0 \<and> is_kanji (l ! nat (X - 1)) then l[nat (X - 1) := f (l ! nat (X - 1))] else l);
          l2 = updated f l1 X C
      in if X + C < NumOfColumns s \<and> is_kanji (l2 ! nat (X + C - 1))
         then l2[nat (X + C) := f (l2 ! nat (X + C))] else l2)"

definition sel_box_eff :: "int \<Rightarrow> int \<Rightarrow> screen \<Rightarrow> buff_char list \<Rightarrow> buff_char list" where
  "sel_box_eff X C s l =
     (let Q = (\<lambda>c. is_kanji c \<and> \<not> has_bit (attr2 c) Attr2Protect);
          l1 = (if X > 0 \<and> Q (l ! nat (X - 1))
                then l[nat (X - 1) := sgr_space (conv s) (l ! nat (X - 1))] else l);
          l2 = (if X + C < NumOfColumns s \<and> Q (l1 ! nat (X + C - 1))
                then l1[nat (X + C) := sgr_space (conv s) (l1 ! nat (X + C))] else l1)
      in updated (unprotected_space (conv s)) l2 X C)"

definition left_eff :: "int \<Rightarrow> int \<Rightarrow> int \<Rightarrow> screen \<Rightarrow> buff_char list \<Rightarrow> buff_char list" where
  "left_eff left r n s l =
     (let len = r - left + 1 - n;
          sp = (\<lambda>c. BuffSetChar (conv s) c 0x20 CHR ''H'');
          l1 = (if is_kanji (l ! nat r)
                then (let k = l[nat r := bk (conv s) (l ! nat r)]
                      in if r < NumOfColumns s - 1 then k[nat (r + 1) := sp (k ! nat (r + 1))] else k)
                else l);
          l2 = (if is_kanji (l1 ! nat (left + n - 1))
                then l1[nat (left + n) := sp (l1 ! nat (left + n))] else l1);
          l3 = (if left > 0 \<and> is_kanji (l2 ! nat (left - 1))
                then l2[nat (left - 1) := bk (conv s) (l2 ! nat (left - 1))] else l2)
      in updated (\<lambda>_. erased s) (blit l3 left (left + n) len) (left + len) n)"

definition right_eff :: "int \<Rightarrow> int \<Rightarrow> int \<Rightarrow> screen \<Rightarrow> buff_char list \<Rightarrow> buff_char list" where
  "right_eff left r n s l =
     (let len = r - left + 1 - n;
          sp = (\<lambda>c. BuffSetChar (conv s) c 0x20 CHR ''H'');
          l1 = (if r < NumOfColumns s - 1 \<and> is_kanji (l ! nat r)
                then l[nat (r + 1) := sp (l ! nat (r + 1))] else l);
          l2 = (if left > 0 \<and> is_kanji (l1 ! nat (left - 1))
                then (let k = l1[nat (left - 1) := bk (conv s) (l1 ! nat (left - 1))]
                      in k[nat left := sp (k ! nat left)])
                else l1);
          l3 = updated (\<lambda>_. erased s) (blit l2 (left + n) left len) left n
      in if is_kanji (l3 ! nat r) then l3[nat r := bk (conv s) (l3 ! nat r)] else l3)"

definition seg_pos :: "int \<Rightarrow> int \<Rightarrow> screen \<Rightarrow> bool" where
  "seg_pos X C s \<longleftrightarrow> seg_ok X C s \<and> 1 \<le> C"

definition side_ok :: "int \<Rightarrow> int \<Rightarrow> int \<Rightarrow> screen \<Rightarrow> bool" where
  "side_ok l r n s \<longleftrightarrow> geom_ok s \<and> 0 \<le> l \<and> r < NumOfColumns s \<and> 1 \<le> n \<and> n \<le> r - l + 1"

text \<open>The cell behind a wide character that is not the last one between the margins.\<close>

lemma runs_setc_inside:
  assumes "becomes s D k b" "side_ok l r n s" "\<not> is_kanji (k ! nat r)" "is_kanji (k ! nat (l + n - 1))"
    and "\<And>b'. becomes s D (k[nat (l + n) := BuffSetChar (conv s) (k ! nat (l + n)) ch CHR ''H'']) b' \<Longrightarrow>
      P (s\<lparr>CodeBuffW := b'\<rparr>)"
  shows "runs P (setc ch (row_ptr s D + (l + n)) (s\<lparr>CodeBuffW := b\<rparr>))"
proof -
  have "l + n - 1 \<noteq> r" using assms(3,4) by auto
  then have "in_cols s (l + n)" using assms(2) by (auto simp: side_ok_def in_cols_def)
  then show ?thesis by (rule runs_setc [OF assms(1)]) (rule assms(5))
qed

lemma is_kanji_space [simp]: "\<not> is_kanji (bk cv c)"
  "is_kanji (BuffSetChar cv c ch w) = is_kanji c"
  by (simp_all add: is_kanji_def bk_def clear_bits_def and.assoc)

lemma seg_pos_frame: "seg_pos X C s \<Longrightarrow> same_but_cells s t \<Longrightarrow> seg_pos X C t"
  by (simp add: seg_pos_def seg_ok_def same_frame)

lemma side_ok_frame: "side_ok l r n s \<Longrightarrow> same_but_cells s t \<Longrightarrow> side_ok l r n t"
  by (simp add: side_ok_def same_frame)

lemma side_ok_geom: "side_ok l r n s \<Longrightarrow> geom_ok s"
  by (simp add: side_ok_def)

lemma left_eff_frame: "same_but_cells s t \<Longrightarrow> left_eff l r n t = left_eff l r n s"
  and right_eff_frame: "same_but_cells s t \<Longrightarrow> right_eff l r n t = right_eff l r n s"
  by (simp_all only: left_eff_def [abs_def] right_eff_def [abs_def] same_frame same_fields)

lemma cur_space_frame: "same_but_cells s t \<Longrightarrow> cur_space t = cur_space s"
  by (auto simp: same_but_cells_iff)

lemma flip_space_at:
  "Option.bind (setc 0x20 i s) (cell_upd (\<lambda>c. c\<lparr>attr := attr c XOR AttrKanji\<rparr>) i)
    = cell_upd (flip_space (conv s)) i s"
  by (simp add: setc_def cell_upd_twice flip_space_def [abs_def])

interpretation ebox: line_edit "erase_box_line X C" "seg_pos X C" "erase_box_eff X C" for X C
proof unfold_locales
  fix s :: screen and D :: int assume ok: "seg_pos X C s"
  show "runs (\<lambda>t. \<exists>b. t = s\<lparr>CodeBuffW := b\<rparr> \<and> becomes s D (erase_box_eff X C s (line s D)) b)
      (erase_box_line X C (row_ptr s D) s)"
    apply (rule runs_start [where m = "erase_box_line X C (row_ptr s D)" and D = D])
    subgoal using ok by (simp add: seg_pos_def seg_ok_def)
    unfolding erase_box_line_def
    apply (insert ok)
    by ((simp (no_asm) only: upd_fields cur_space_upd erased_upd) | rule runs_bind
      | rule runs_guarded_eff | rule runs_when_eff | rule line_rules
      | assumption | (erule eff_done, assumption) | (rule exI, rule conjI, rule refl)
      | (simp add: in_cols_def seg_ok_def seg_pos_def; fail)
      | (simp only: erase_box_eff_def Let_def upd_fields simp_thms cur_space_upd erased_upd; fail))+
qed (auto simp: seg_pos_def seg_ok_def same_but_cells_iff geom_ok_def erase_box_eff_def fun_eq_iff)

interpretation fbox: line_edit "fill_box_line ch X C" "seg_pos X C" "fill_box_eff ch X C" for ch X C
proof unfold_locales
  fix s :: screen and D :: int assume ok: "seg_pos X C s"
  show "runs (\<lambda>t. \<exists>b. t = s\<lparr>CodeBuffW := b\<rparr> \<and> becomes s D (fill_box_eff ch X C s (line s D)) b)
      (fill_box_line ch X C (row_ptr s D) s)"
    apply (rule runs_start [where m = "fill_box_line ch X C (row_ptr s D)" and D = D])
    subgoal using ok by (simp add: seg_pos_def seg_ok_def)
    unfolding fill_box_line_def flip_space_at
    apply (insert ok)
    by ((simp (no_asm) only: upd_fields cur_space_upd erased_upd) | rule runs_bind
      | rule runs_guarded_eff | rule runs_when_eff | rule line_rules
      | assumption | (erule eff_done, assumption) | (rule exI, rule conjI, rule refl)
      | (simp add: in_cols_def seg_ok_def seg_pos_def; fail)
      | (simp only: fill_box_eff_def Let_def upd_fields simp_thms cur_space_upd erased_upd; fail))+
qed (auto simp: seg_pos_def seg_ok_def same_but_cells_iff geom_ok_def fill_box_eff_def fun_eq_iff)

interpretation abox: line_edit "change_attr_line f X C" "seg_pos X C" "attr_eff f X C" for f X C
proof unfold_locales
  fix s :: screen and D :: int assume ok: "seg_pos X C s"
  show "runs (\<lambda>t. \<exists>b. t = s\<lparr>CodeBuffW := b\<rparr> \<and> becomes s D (attr_eff f X C s (line s D)) b)
      (change_attr_line f X C (row_ptr s D) s)"
    apply (rule runs_start [where m = "change_attr_line f X C (row_ptr s D)" and D = D])
    subgoal using ok by (simp add: seg_pos_def seg_ok_def)
    unfolding change_attr_line_def
    apply (insert ok)
    by ((simp (no_asm) only: upd_fields cur_space_upd erased_upd) | rule runs_bind
      | rule runs_guarded_eff | rule runs_when_eff | rule line_rules
      | assumption | (erule eff_done, assumption) | (rule exI, rule conjI, rule refl)
      | (simp add: in_cols_def seg_ok_def seg_pos_def; fail)
      | (simp only: attr_eff_def Let_def upd_fields simp_thms cur_space_upd erased_upd; fail))+
qed (auto simp: seg_pos_def seg_ok_def same_but_cells_iff geom_ok_def attr_eff_def fun_eq_iff)

interpretation sbox: line_edit "sel_box_line X C" "seg_pos X C" "sel_box_eff X C" for X C
proof unfold_locales
  fix s :: screen and D :: int assume ok: "seg_pos X C s"
  then have nC: "int (nat C) = C" by (simp add: seg_pos_def)
  show "runs (\<lambda>t. \<exists>b. t = s\<lparr>CodeBuffW := b\<rparr> \<and> becomes s D (sel_box_eff X C s (line s D)) b)
      (sel_box_line X C (row_ptr s D) s)"
    apply (rule runs_start [where m = "sel_box_line X C (row_ptr s D)" and D = D])
    subgoal using ok by (simp add: seg_pos_def seg_ok_def)
    unfolding sel_box_line_def sgr_space_at_upd [abs_def] sel_run_updateS nC
    apply (insert ok)
    by ((simp (no_asm) only: upd_fields cur_space_upd erased_upd) | rule runs_bind
      | rule runs_guarded_eff | rule runs_when_eff | rule line_rules
      | assumption | (erule eff_done, assumption) | (rule exI, rule conjI, rule refl)
      | (simp add: in_cols_def seg_ok_def seg_pos_def; fail)
      | (simp only: sel_box_eff_def Let_def upd_fields simp_thms cur_space_upd erased_upd; fail))+
qed (auto simp: seg_pos_def seg_ok_def same_but_cells_iff geom_ok_def sel_box_eff_def fun_eq_iff)

interpretation lscroll: line_edit "scroll_left_line l r n" "side_ok l r n" "left_eff l r n" for l r n
proof unfold_locales
  fix s :: screen and D :: int assume ok: "side_ok l r n s"
  show "runs (\<lambda>t. \<exists>b. t = s\<lparr>CodeBuffW := b\<rparr> \<and> becomes s D (left_eff l r n s (line s D)) b)
      (scroll_left_line l r n (row_ptr s D) s)"
    apply (rule runs_start [where m = "scroll_left_line l r n (row_ptr s D)" and D = D])
    subgoal using ok by (simp add: side_ok_def)
    unfolding scroll_left_line_def Let_def
    apply (insert ok)
    by ((simp (no_asm) only: upd_fields cur_space_upd erased_upd) | rule runs_bind
      | rule runs_setc_inside [where l = l and r = r and n = n] | rule runs_guarded_eff | rule runs_when_eff | rule line_rules
      | assumption | (erule eff_done, assumption) | (rule exI, rule conjI, rule refl)
      | (simp add: in_cols_def side_ok_def; fail)
      | (simp add: nth_list_update side_ok_def; fail)
      | (simp only: left_eff_def Let_def upd_fields simp_thms cur_space_upd erased_upd; fail))+
qed (auto intro: side_ok_frame left_eff_frame dest: side_ok_geom)

interpretation rscroll: line_edit "scroll_right_line l r n" "side_ok l r n" "right_eff l r n" for l r n
proof unfold_locales
  fix s :: screen and D :: int assume ok: "side_ok l r n s"
  show "runs (\<lambda>t. \<exists>b. t = s\<lparr>CodeBuffW := b\<rparr> \<and> becomes s D (right_eff l r n s (line s D)) b)
      (scroll_right_line l r n (row_ptr s D) s)"
    apply (rule runs_start [where m = "scroll_right_line l r n (row_ptr s D)" and D = D])
    subgoal using ok by (simp add: side_ok_def)
    unfolding scroll_right_line_def Let_def
    apply (insert ok)
    by ((simp (no_asm) only: upd_fields cur_space_upd erased_upd) | rule runs_bind
      | rule runs_guarded_eff | rule runs_when_eff | rule line_rules
      | assumption | (erule eff_done, assumption) | (rule exI, rule conjI, rule refl)
      | (simp add: in_cols_def side_ok_def; fail)
      | (simp only: right_eff_def Let_def upd_fields simp_thms cur_space_upd erased_upd; fail))+
qed (auto intro: side_ok_frame right_eff_frame dest: side_ok_geom)

end
