(* ===== verification/ScreenEditFacts.thy ===== *)
theory ScreenEditFacts
  imports ScreenEdit
begin

section \<open>What the editing operations do, cell by cell\<close>

text \<open>
  For the operations of \<open>ScreenEdit\<close>: none leaves the array, each keeps the screen's
  invariant, and the cells afterwards are given in closed form, or exactly outside the few
  cells where a wide character is cut in half.
\<close>

subsection \<open>Rectangles\<close>

text \<open>The lines of a rectangle, after clipping to the page without the status line.\<close>

definition in_rows :: "screen \<Rightarrow> int \<Rightarrow> int \<Rightarrow> int \<Rightarrow> bool" where
  "in_rows s Y Y' L \<longleftrightarrow> PageStart s + Y \<le> L \<and> L \<le> PageStart s + clip_y Y' s"

definition ring_cells :: "screen \<Rightarrow> screen \<Rightarrow> (int \<Rightarrow> int \<Rightarrow> buff_char) \<Rightarrow> bool" where
  "ring_cells s t g \<longleftrightarrow>
     (\<forall>L x. 0 \<le> L \<longrightarrow> L < NumOfLinesInBuff s \<longrightarrow> in_cols s x \<longrightarrow> at t L x = g L x)"

lemma ring_cellsI:
  "(\<And>L x. 0 \<le> L \<Longrightarrow> L < NumOfLinesInBuff s \<Longrightarrow> in_cols s x \<Longrightarrow> at t L x = g L x) \<Longrightarrow>
    ring_cells s t g"
  by (simp add: ring_cells_def)

lemma ring_cells_refl: "ring_cells s s g \<longleftrightarrow> (\<forall>L x. 0 \<le> L \<longrightarrow> L < NumOfLinesInBuff s \<longrightarrow>
    in_cols s x \<longrightarrow> g L x = at s L x)"
  by (auto simp: ring_cells_def)

text \<open>From the edit of each line to the cells of the ring.\<close>

lemma box_cells:
  assumes edit: "\<And>y y'. 0 \<le> y \<Longrightarrow> y \<le> y' \<Longrightarrow> y' < NumOfLines s \<Longrightarrow>
      \<exists>t. box_lines op y y' s = Some t \<and> same_but_cells s t \<and>
        (\<forall>L. 0 \<le> L \<longrightarrow> L < NumOfLinesInBuff s \<longrightarrow> line t L =
          (if PageStart s + y \<le> L \<and> L \<le> PageStart s + y' then eff (line s L) else line s L))"
    and ok: "screen_ok s" "0 \<le> Y" "Y \<le> clip_y Y' s"
    and cell: "\<And>L x. in_cols s x \<Longrightarrow> eff (line s L) ! nat x = f (at s L) x"
  shows "\<exists>t. box_lines op Y (clip_y Y' s) s = Some t \<and> screen_ok t \<and>
    ring_cells s t (\<lambda>L x. if in_rows s Y Y' L then f (at s L) x else at s L x)"
proof -
  have "clip_y Y' s < NumOfLines s"
    using ok(1) by (auto simp: clip_y_def screen_ok_def cursor_ok_def)
  then obtain t where t: "box_lines op Y (clip_y Y' s) s = Some t" "same_but_cells s t"
    and l: "\<And>L. 0 \<le> L \<Longrightarrow> L < NumOfLinesInBuff s \<Longrightarrow> line t L =
      (if PageStart s + Y \<le> L \<and> L \<le> PageStart s + clip_y Y' s then eff (line s L) else line s L)"
    using edit [OF ok(2,3)] by blast
  have "at t L x = (if in_rows s Y Y' L then f (at s L) x else at s L x)"
    if "0 \<le> L" "L < NumOfLinesInBuff s" "in_cols s x" for L x
  proof -
    have "at t L x = line t L ! nat x"
      using nth_line [of t x L] that(3) same_frame [OF t(2)] by simp
    then show ?thesis
      using l [OF that(1,2)] cell [OF that(3)] nth_line [OF that(3)] by (simp add: in_rows_def)
  qed
  then show ?thesis
    using t same_but_cells_ok [OF t(2)] ok(1) by (auto intro: ring_cellsI)
qed

text \<open>
  Three of the bodies have one shape: a guarded update of the cell before the segment, one of
  the cell behind it, then the segment itself.
\<close>

definition box_eff where
  "box_eff Q h h' g X C s l =
     (let l1 = (if X > 0 \<and> Q (l ! nat (X - 1)) then l[nat (X - 1) := h (l ! nat (X - 1))] else l);
          l2 = (if X + C < NumOfColumns s \<and> Q (l1 ! nat (X + C - 1))
                then l1[nat (X + C) := h' (l1 ! nat (X + C))] else l1)
      in updated g l2 X C)"

definition box_cell where
  "box_cell Q h h' g X X' row x =
     (if X \<le> x \<and> x \<le> X' then g (row x)
      else if x = X - 1 \<and> Q (row x) then h (row x)
      else if x = X' + 1 \<and> Q (row X') then h' (row x)
      else row x)"

lemma box_eff_cell:
  assumes "seg_pos X C s" "in_cols s x"
  shows "box_eff Q h h' g X C s (line s L) ! nat x = box_cell Q h h' g X (X + C - 1) (at s L) x"
proof -
  have b: "in_cols s (X + C - 1)" "0 < X \<Longrightarrow> in_cols s (X - 1)"
    using assms(1) by (auto simp: in_cols_def seg_pos_def seg_ok_def)
  have C: "1 \<le> C" "0 \<le> X" "0 \<le> x" "x < NumOfColumns s"
    using assms by (auto simp: seg_pos_def seg_ok_def in_cols_def)
  define l where "l = line s L"
  define l1 where "l1 = (if X > 0 \<and> Q (l ! nat (X - 1)) then l[nat (X - 1) := h (l ! nat (X - 1))] else l)"
  define l2 where "l2 = (if X + C < NumOfColumns s \<and> Q (l1 ! nat (X + C - 1))
                then l1[nat (X + C) := h' (l1 ! nat (X + C))] else l1)"
  have len: "length l = nat (NumOfColumns s)" "length l1 = nat (NumOfColumns s)"
      "length l2 = nat (NumOfColumns s)"
    by (simp_all add: l_def l1_def l2_def)
  have l: "l ! nat y = at s L y" if "in_cols s y" for y using that by (simp add: l_def nth_line)
  have "box_eff Q h h' g X C s (line s L) = updated g l2 X C"
    unfolding box_eff_def Let_def l2_def l1_def l_def by (rule refl)
  then have e: "box_eff Q h h' g X C s (line s L) ! nat x =
      (if X \<le> x \<and> x < X + C then g (l2 ! nat x) else l2 ! nat x)"
    using nth_updated [OF seg_nth [OF len(3) assms(2)]] by simp
  have n1: "l1 ! nat y = l ! nat y" if "0 \<le> y" "y \<noteq> X - 1" for y
    using that C by (cases "X > 0") (simp_all add: l1_def nat_eq_iff)
  have n2: "l2 ! nat y = l1 ! nat y" if "0 \<le> y" "y \<noteq> X + C" for y
    using that C by (simp add: l2_def nat_eq_iff)
  consider "x = X - 1" | "x = X + C" | "x \<noteq> X - 1" "x \<noteq> X + C" by blast
  then show ?thesis
  proof cases
    case 1
    then have "l1 ! nat x = (if Q (at s L x) then h (at s L x) else at s L x)"
      using C l [OF assms(2)] len(1) by (simp add: l1_def)
    moreover have "l2 ! nat x = l1 ! nat x" using n2 [of x] 1 C by simp
    ultimately show ?thesis unfolding e box_cell_def using 1 C by simp
  next
    case 2
    have "l1 ! nat x = at s L x" "l1 ! nat (X + C - 1) = at s L (X + C - 1)"
      using n1 [of x] n1 [of "X + C - 1"] 2 C l [OF b(1)] l [OF assms(2)] by simp_all
    then have "l2 ! nat x = (if Q (at s L (X + C - 1)) then h' (at s L x) else at s L x)"
      using 2 C len(2) by (simp add: l2_def)
    then show ?thesis unfolding e box_cell_def using 2 C by simp
  next
    case 3
    then have "l2 ! nat x = at s L x" using n1 [of x] n2 [of x] C l [OF assms(2)] by simp
    then show ?thesis unfolding e box_cell_def using 3 by simp
  qed
qed

text \<open>DECERA: the rectangle is erased; a wide character cut by its border becomes spaces.\<close>

definition erase_cell :: "screen \<Rightarrow> int \<Rightarrow> int \<Rightarrow> (int \<Rightarrow> buff_char) \<Rightarrow> int \<Rightarrow> buff_char" where
  "erase_cell s X X' g x =
     (if X \<le> x \<and> x \<le> X' then erased s
      else if x = X - 1 \<and> is_kanji (g x) then cur_space s (g x)
      else if x = X' + 1 \<and> is_kanji (g X') then cur_space s (g x)
      else g x)"

lemma erase_box_eff_cell:
  assumes "seg_pos X C s" "in_cols s x"
  shows "erase_box_eff X C s (line s L) ! nat x = erase_cell s X (X + C - 1) (at s L) x"
proof -
  have "erase_box_eff X C s = box_eff is_kanji (cur_space s) (cur_space s) (\<lambda>_. erased s) X C s"
    unfolding erase_box_eff_def [abs_def] box_eff_def [abs_def] by (rule refl)
  then show ?thesis using box_eff_cell [OF assms] by (simp add: box_cell_def erase_cell_def)
qed

text \<open>
  C6. DECERA: after clipping to the page the cells of the rectangle are erased, a wide
  character cut by its border becomes spaces, and every other cell of the ring keeps its value.
\<close>

theorem BuffEraseBox_cells:
  assumes "screen_ok s" "0 \<le> X" "0 \<le> Y"
  shows "\<exists>t. BuffEraseBox X Y X' Y' s = Some t \<and> screen_ok t \<and>
    ring_cells s t (\<lambda>L x. if in_rows s Y Y' L \<and> X \<le> clip_x X' s
      then erase_cell s X (clip_x X' s) (at s L) x else at s L x)"
proof (cases "X \<le> clip_x X' s \<and> Y \<le> clip_y Y' s")
  case True
  let ?C = "clip_x X' s - X + 1"
  have p: "seg_pos X ?C s" "page_ok s"
    using assms True by (auto simp: seg_pos_def seg_ok_def clip_x_def screen_ok_def page_ok_def split: if_splits)
  show ?thesis
    using box_cells [OF ebox.box [OF p] assms(1,3), of Y' "erase_cell s X (clip_x X' s)"] True
      erase_box_eff_cell [OF p(1)]
    by (simp add: BuffEraseBox_def Let_def)
next
  case False
  then have "BuffEraseBox X Y X' Y' s = Some s" by (auto simp: BuffEraseBox_def Let_def)
  then show ?thesis using False assms(1) by (auto simp: ring_cells_refl in_rows_def)
qed

lemma BuffEraseBox_witness:
  "\<exists>t. BuffEraseBox 1 1 9 9 sample_screen = Some t \<and> screen_ok t"
  using BuffEraseBox_cells [of sample_screen 1 1 9 9] by auto

text \<open>DECFRA.\<close>

definition fill_cell :: "u8 \<Rightarrow> screen \<Rightarrow> int \<Rightarrow> int \<Rightarrow> (int \<Rightarrow> buff_char) \<Rightarrow> int \<Rightarrow> buff_char" where
  "fill_cell ch s X X' g x =
     (if X \<le> x \<and> x \<le> X'
      then blank_cell (conv s) (wchar_of_char ch) (Fore (CurCharAttr s)) (Back (CurCharAttr s))
             (Attr (CurCharAttr s)) (Attr2 (CurCharAttr s))
      else if x = X - 1 \<and> is_kanji (g x) then flip_space (conv s) (g x)
      else if x = X' + 1 \<and> is_kanji (g X') then BuffSetChar (conv s) (g x) 0x20 CHR ''H''
      else g x)"

lemmas cell_simps = Let_def nth_list_update in_arr_def nth_updated in_cols_def nat_eq_iff

text \<open>A guarded update of one cell, seen at another cell.\<close>

lemma nth_if_update:
  assumes "0 \<le> y" "0 \<le> j" "y \<noteq> j"
  shows "(if c then l[nat j := v] else l) ! nat y = l ! nat y"
    "l[nat j := v] ! nat y = l ! nat y"
  using assms by (simp_all add: nat_eq_iff)

lemma in_arr_line: "in_cols s x \<Longrightarrow> in_arr (line s L) x"
  by (auto simp: in_arr_def in_cols_def)

lemma fill_box_eff_cell:
  assumes "seg_pos X C s" "in_cols s x"
  shows "fill_box_eff ch X C s (line s L) ! nat x = fill_cell ch s X (X + C - 1) (at s L) x"
proof -
  have "fill_box_eff ch X C s = box_eff is_kanji (flip_space (conv s))
      (\<lambda>c. BuffSetChar (conv s) c 0x20 CHR ''H'')
      (\<lambda>_. blank_cell (conv s) (wchar_of_char ch) (Fore (CurCharAttr s))
           (Back (CurCharAttr s)) (Attr (CurCharAttr s)) (Attr2 (CurCharAttr s))) X C s"
    unfolding fill_box_eff_def [abs_def] box_eff_def [abs_def] by (rule refl)
  then show ?thesis using box_eff_cell [OF assms] by (simp add: box_cell_def fill_cell_def)
qed

text \<open>
  DECFRA: after clipping, the cells of the rectangle hold the character with the current
  attributes, cut wide characters become spaces, every other cell keeps its value.
\<close>

theorem BuffFillBox_cells:
  assumes "screen_ok s" "0 \<le> X" "0 \<le> Y"
  shows "\<exists>t. BuffFillBox ch X Y X' Y' s = Some t \<and> screen_ok t \<and>
    ring_cells s t (\<lambda>L x. if in_rows s Y Y' L \<and> X \<le> clip_x X' s
      then fill_cell ch s X (clip_x X' s) (at s L) x else at s L x)"
proof (cases "X \<le> clip_x X' s \<and> Y \<le> clip_y Y' s")
  case True
  let ?C = "clip_x X' s - X + 1"
  have p: "seg_pos X ?C s" "page_ok s"
    using assms True
    by (auto simp: seg_pos_def seg_ok_def clip_x_def screen_ok_def page_ok_def split: if_splits)
  show ?thesis
    using box_cells [OF fbox.box [OF p, where ch = ch] assms(1,3), where Y' = Y' and
        f = "fill_cell ch s X (clip_x X' s)"] True
      fill_box_eff_cell [OF p(1)]
    by (simp add: BuffFillBox_def Let_def)
next
  case False
  then have "BuffFillBox ch X Y X' Y' s = Some s" by (auto simp: BuffFillBox_def Let_def)
  then show ?thesis using False assms(1) by (auto simp: ring_cells_refl in_rows_def)
qed

lemma BuffFillBox_witness:
  "\<exists>t. BuffFillBox 65 0 0 2 1 sample_screen = Some t \<and> screen_ok t"
  using BuffFillBox_cells [of sample_screen 0 0 65 2 1] by auto

text \<open>DECCARA and DECRARA on a rectangle.\<close>

definition attr_cell ::
  "(buff_char \<Rightarrow> buff_char) \<Rightarrow> int \<Rightarrow> int \<Rightarrow> (int \<Rightarrow> buff_char) \<Rightarrow> int \<Rightarrow> buff_char" where
  "attr_cell f X X' g x =
     (if X \<le> x \<and> x \<le> X' then f (g x)
      else if x = X - 1 \<and> is_kanji (g x) then f (g x)
      else if x = X' + 1 \<and> is_kanji (f (g X')) then f (g x)
      else g x)"

lemma attr_eff_cell:
  assumes "seg_pos X C s" "in_cols s x"
  shows "attr_eff f X C s (line s L) ! nat x = attr_cell f X (X + C - 1) (at s L) x"
proof -
  have b: "in_cols s (X + C - 1)"
    using assms(1) by (auto simp: in_cols_def seg_pos_def seg_ok_def)
  have C: "1 \<le> C" "0 \<le> X" "0 \<le> x" "x < NumOfColumns s"
    using assms by (auto simp: seg_pos_def seg_ok_def in_cols_def)
  define l where "l = line s L"
  define l1 where "l1 = (if X > 0 \<and> is_kanji (l ! nat (X - 1)) then l[nat (X - 1) := f (l ! nat (X - 1))] else l)"
  define l2 where "l2 = updated f l1 X C"
  have len: "length l = nat (NumOfColumns s)" "length l1 = nat (NumOfColumns s)"
      "length l2 = nat (NumOfColumns s)"
    by (simp_all add: l_def l1_def l2_def)
  have l: "l ! nat y = at s L y" if "in_cols s y" for y using that by (simp add: l_def nth_line)
  have e: "attr_eff f X C s (line s L) = (if X + C < NumOfColumns s \<and> is_kanji (l2 ! nat (X + C - 1))
         then l2[nat (X + C) := f (l2 ! nat (X + C))] else l2)"
    unfolding attr_eff_def Let_def l2_def l1_def l_def by (rule refl)
  have n1: "l1 ! nat y = at s L y" if "in_cols s y" "y \<noteq> X - 1" for y
  proof -
    have "l1 ! nat y = l ! nat y"
      using that C by (cases "X > 0") (simp_all add: l1_def nat_eq_iff in_cols_def)
    then show ?thesis using l [OF that(1)] by simp
  qed
  have n2: "l2 ! nat y = (if X \<le> y \<and> y < X + C then f (l1 ! nat y) else l1 ! nat y)"
    if "in_cols s y" for y
    using nth_updated [OF seg_nth [OF len(2) that]] by (simp add: l2_def)
  have last: "l2 ! nat (X + C - 1) = f (at s L (X + C - 1))"
    using n2 [OF b] n1 [OF b] C by simp
  consider "x = X - 1" | "x = X + C" | "x \<noteq> X - 1" "x \<noteq> X + C" by blast
  then show ?thesis
  proof cases
    case 1
    then have "l1 ! nat x = (if is_kanji (at s L x) then f (at s L x) else at s L x)"
      using C l [OF assms(2)] len(1) by (simp add: l1_def)
    then show ?thesis using 1 C n2 [OF assms(2)] by (simp add: e attr_cell_def nat_eq_iff)
  next
    case 2
    then show ?thesis
      using C n2 [OF assms(2)] n1 [OF assms(2)] last len by (simp add: e attr_cell_def)
  next
    case 3
    then show ?thesis
      using C n2 [OF assms(2)] n1 [OF assms(2)] by (simp add: e attr_cell_def nat_eq_iff)
  qed
qed

text \<open>
  DECCARA and DECRARA on a rectangle: the attributes inside change by \<open>change_attr\<close>, as do
  those of a wide character cut by the border, and nothing else changes.
\<close>

theorem BuffChangeAttrBox_cells:
  assumes "screen_ok s" "0 \<le> X" "0 \<le> Y"
  shows "\<exists>t. BuffChangeAttrBox X Y X' Y' a msk s = Some t \<and> screen_ok t \<and>
    ring_cells s t (\<lambda>L x. if in_rows s Y Y' L \<and> X \<le> clip_x X' s
      then attr_cell (change_attr a msk) X (clip_x X' s) (at s L) x else at s L x)"
proof (cases "X \<le> clip_x X' s \<and> Y \<le> clip_y Y' s")
  case True
  let ?C = "clip_x X' s - X + 1"
  have p: "seg_pos X ?C s" "page_ok s"
    using assms True
    by (auto simp: seg_pos_def seg_ok_def clip_x_def screen_ok_def page_ok_def split: if_splits)
  show ?thesis
    using box_cells [OF abox.box [OF p, where f = "change_attr a msk"] assms(1,3), where Y' = Y' and
        f = "attr_cell (change_attr a msk) X (clip_x X' s)"]
      True attr_eff_cell [OF p(1)]
    by (simp add: BuffChangeAttrBox_def Let_def)
next
  case False
  then have "BuffChangeAttrBox X Y X' Y' a msk s = Some s" by (auto simp: BuffChangeAttrBox_def Let_def)
  then show ?thesis using False assms(1) by (auto simp: ring_cells_refl in_rows_def)
qed

lemma BuffChangeAttrBox_witness:
  "\<exists>t. BuffChangeAttrBox 1 0 2 1 (CurCharAttr sample_screen) None sample_screen = Some t \<and> screen_ok t"
  using BuffChangeAttrBox_cells [of sample_screen 1 0 2 1 "CurCharAttr sample_screen" None] by auto

text \<open>DECSERA: protected cells stay.\<close>

definition sera_cell :: "screen \<Rightarrow> int \<Rightarrow> int \<Rightarrow> (int \<Rightarrow> buff_char) \<Rightarrow> int \<Rightarrow> buff_char" where
  "sera_cell s X X' g x =
     (let Q = (\<lambda>c. is_kanji c \<and> \<not> has_bit (attr2 c) Attr2Protect)
      in if X \<le> x \<and> x \<le> X' then unprotected_space (conv s) (g x)
         else if x = X - 1 \<and> Q (g x) then sgr_space (conv s) (g x)
         else if x = X' + 1 \<and> Q (g X') then sgr_space (conv s) (g x)
         else g x)"

lemma sel_box_eff_cell:
  assumes "seg_pos X C s" "in_cols s x"
  shows "sel_box_eff X C s (line s L) ! nat x = sera_cell s X (X + C - 1) (at s L) x"
proof -
  have "sel_box_eff X C s = box_eff (\<lambda>c. is_kanji c \<and> \<not> has_bit (attr2 c) Attr2Protect)
      (sgr_space (conv s)) (sgr_space (conv s)) (unprotected_space (conv s)) X C s"
    unfolding sel_box_eff_def [abs_def] box_eff_def [abs_def] Let_def by (rule refl)
  then show ?thesis using box_eff_cell [OF assms] by (simp add: box_cell_def sera_cell_def Let_def)
qed

text \<open>
  DECSERA: protected cells of the rectangle survive, the others become spaces, cut wide
  characters become spaces, every other cell keeps its value.
\<close>

theorem BuffSelectiveEraseBox_cells:
  assumes "screen_ok s" "0 \<le> X" "0 \<le> Y"
  shows "\<exists>t. BuffSelectiveEraseBox X Y X' Y' s = Some t \<and> screen_ok t \<and>
    ring_cells s t (\<lambda>L x. if in_rows s Y Y' L \<and> X \<le> clip_x X' s
      then sera_cell s X (clip_x X' s) (at s L) x else at s L x)"
proof (cases "X \<le> clip_x X' s \<and> Y \<le> clip_y Y' s")
  case True
  let ?C = "clip_x X' s - X + 1"
  have p: "seg_pos X ?C s" "page_ok s"
    using assms True
    by (auto simp: seg_pos_def seg_ok_def clip_x_def screen_ok_def page_ok_def split: if_splits)
  show ?thesis
    using box_cells [OF sbox.box [OF p] assms(1,3), of Y' "sera_cell s X (clip_x X' s)"] True
      sel_box_eff_cell [OF p(1)]
    by (simp add: BuffSelectiveEraseBox_def Let_def)
next
  case False
  then have "BuffSelectiveEraseBox X Y X' Y' s = Some s" by (auto simp: BuffSelectiveEraseBox_def Let_def)
  then show ?thesis using False assms(1) by (auto simp: ring_cells_refl in_rows_def)
qed

lemma BuffSelectiveEraseBox_witness:
  "\<exists>t. BuffSelectiveEraseBox 1 0 2 1 sample_screen = Some t \<and> screen_ok t"
  using BuffSelectiveEraseBox_cells [of sample_screen 1 0 2 1] by auto

subsection \<open>Scrolling sideways\<close>

definition cols_left :: "int \<Rightarrow> int \<Rightarrow> int \<Rightarrow> 'c \<Rightarrow> (int \<Rightarrow> 'c) \<Rightarrow> int \<Rightarrow> 'c" where
  "cols_left l r n b g x =
     (if l \<le> x \<and> x \<le> r then if x + n \<le> r then g (x + n) else b else g x)"

definition cols_right :: "int \<Rightarrow> int \<Rightarrow> int \<Rightarrow> 'c \<Rightarrow> (int \<Rightarrow> 'c) \<Rightarrow> int \<Rightarrow> 'c" where
  "cols_right l r n b g x =
     (if l \<le> x \<and> x \<le> r then if l \<le> x - n then g (x - n) else b else g x)"

lemma nth_blit_line:
  "length l = nat (NumOfColumns s) \<Longrightarrow> in_cols s x \<Longrightarrow>
    blit l d p n ! nat x = (if d \<le> x \<and> x < d + n then l ! nat (x - d + p) else l ! nat x)"
  by (simp add: nth_blit in_arr_def in_cols_def)

lemma left_eff_cell:
  assumes "side_ok l r n s" "in_cols s x" "x \<notin> {l - 1, l, r - n, r + 1}"
  shows "left_eff l r n s (line s L) ! nat x = cols_left l r n (erased s) (at s L) x"
proof -
  have b: "0 \<le> l" "r < NumOfColumns s" "1 \<le> n" "n \<le> r - l + 1" "0 \<le> x" "x < NumOfColumns s"
    using assms by (auto simp: side_ok_def in_cols_def)
  define sp where "sp = (\<lambda>c. BuffSetChar (conv s) c 0x20 CHR ''H'')"
  define k0 where "k0 = line s L"
  define k1 where "k1 = (if is_kanji (k0 ! nat r)
                then (let k = k0[nat r := bk (conv s) (k0 ! nat r)]
                      in if r < NumOfColumns s - 1 then k[nat (r + 1) := sp (k ! nat (r + 1))] else k)
                else k0)"
  define k2 where "k2 = (if is_kanji (k1 ! nat (l + n - 1))
                then k1[nat (l + n) := sp (k1 ! nat (l + n))] else k1)"
  define k where "k = (if l > 0 \<and> is_kanji (k2 ! nat (l - 1))
         then k2[nat (l - 1) := bk (conv s) (k2 ! nat (l - 1))] else k2)"
  have len: "length k = nat (NumOfColumns s)" by (simp add: k_def k0_def k1_def k2_def Let_def)
  have kx: "k ! nat y = line s L ! nat y" if "0 \<le> y" "y \<notin> {l - 1, l + n, r, r + 1}" for y
  proof -
    have "k1 ! nat y = k0 ! nat y" using that b by (simp add: k1_def Let_def nat_eq_iff)
    moreover have "k2 ! nat y = k1 ! nat y" using that b by (simp add: k2_def nat_eq_iff)
    moreover have "k ! nat y = k2 ! nat y" using that b by (cases "l > 0") (simp_all add: k_def nat_eq_iff)
    ultimately show ?thesis by (simp add: k0_def)
  qed
  have e: "left_eff l r n s (line s L) = updated (\<lambda>_. erased s) (blit k l (l + n) (r - l + 1 - n))
      (l + (r - l + 1 - n)) n"
    unfolding left_eff_def Let_def k_def k2_def k1_def k0_def sp_def by (rule refl)
  have ny: "line s L ! nat y = at s L y" if "0 \<le> y" "y < NumOfColumns s" for y
    using nth_line [of s y L] that by (simp add: in_cols_def)
  let ?bl = "blit k l (l + n) (r - l + 1 - n)"
  have ia: "in_arr k x" "in_arr ?bl x" using seg_nth [OF len assms(2)] by simp_all
  have v: "left_eff l r n s (line s L) ! nat x = (if r + 1 - n \<le> x \<and> x \<le> r then erased s
      else if l \<le> x \<and> x \<le> r - n then k ! nat (x + n) else k ! nat x)"
    unfolding e nth_updated [OF ia(2)] nth_blit [OF ia(1)] using b by (simp add: algebra_simps)
  consider "r + 1 - n \<le> x" "x \<le> r" | "l < x" "x < r - n" | "x < l - 1 \<or> r + 1 < x"
    using assms(3) by fastforce
  then show ?thesis
  proof cases
    case 1
    then show ?thesis using b by (simp add: v cols_left_def)
  next
    case 2
    then have "k ! nat (x + n) = at s L (x + n)" using kx [of "x + n"] ny [of "x + n"] b by simp
    then show ?thesis using 2 b by (simp add: v cols_left_def)
  next
    case 3
    then have "k ! nat x = at s L x" using kx [of x] ny [of x] b by auto
    then show ?thesis using 3 b by (auto simp: v cols_left_def)
  qed
qed

lemma right_eff_cell:
  assumes "side_ok l r n s" "in_cols s x" "x \<notin> {l - 1, l + n, r, r + 1}"
  shows "right_eff l r n s (line s L) ! nat x = cols_right l r n (erased s) (at s L) x"
proof -
  have b: "0 \<le> l" "r < NumOfColumns s" "1 \<le> n" "n \<le> r - l + 1" "0 \<le> x" "x < NumOfColumns s"
    using assms by (auto simp: side_ok_def in_cols_def)
  define sp where "sp = (\<lambda>c. BuffSetChar (conv s) c 0x20 CHR ''H'')"
  define k0 where "k0 = line s L"
  define k1 where "k1 = (if r < NumOfColumns s - 1 \<and> is_kanji (k0 ! nat r)
                then k0[nat (r + 1) := sp (k0 ! nat (r + 1))] else k0)"
  define k where "k = (if l > 0 \<and> is_kanji (k1 ! nat (l - 1))
         then (let k = k1[nat (l - 1) := bk (conv s) (k1 ! nat (l - 1))] in k[nat l := sp (k ! nat l)])
         else k1)"
  define m where "m = updated (\<lambda>_. erased s) (blit k (l + n) l (r - l + 1 - n)) l n"
  have len: "length k = nat (NumOfColumns s)" by (simp add: k_def k0_def k1_def Let_def)
  have kx: "k ! nat y = line s L ! nat y" if "0 \<le> y" "y \<notin> {l - 1, l, r + 1}" for y
  proof -
    have "k1 ! nat y = k0 ! nat y" using that b by (simp add: k1_def nat_eq_iff)
    moreover have "k ! nat y = k1 ! nat y"
      using that b by (cases "l > 0") (simp_all add: k_def Let_def nat_eq_iff)
    ultimately show ?thesis by (simp add: k0_def)
  qed
  have "right_eff l r n s (line s L) = (if is_kanji (m ! nat r)
      then m[nat r := bk (conv s) (m ! nat r)] else m)"
    unfolding right_eff_def Let_def m_def k_def k1_def k0_def sp_def by (rule refl)
  then have e: "right_eff l r n s (line s L) ! nat x = m ! nat x"
    using assms(3) b by (simp add: nat_eq_iff)
  have ny: "line s L ! nat y = at s L y" if "0 \<le> y" "y < NumOfColumns s" for y
    using nth_line [of s y L] that by (simp add: in_cols_def)
  let ?bl = "blit k (l + n) l (r - l + 1 - n)"
  have ia: "in_arr k x" "in_arr ?bl x" using seg_nth [OF len assms(2)] by simp_all
  have v: "right_eff l r n s (line s L) ! nat x = (if l \<le> x \<and> x < l + n then erased s
      else if l + n \<le> x \<and> x \<le> r then k ! nat (x - n) else k ! nat x)"
    unfolding e m_def nth_updated [OF ia(2)] nth_blit [OF ia(1)] using b by (simp add: algebra_simps)
  consider "l \<le> x" "x < l + n" | "l + n < x" "x < r" | "x < l - 1 \<or> r + 1 < x"
    using assms(3) by fastforce
  then show ?thesis
  proof cases
    case 1
    then show ?thesis using b by (simp add: v cols_right_def)
  next
    case 2
    then have "k ! nat (x - n) = at s L (x - n)" using kx [of "x - n"] ny [of "x - n"] b by simp
    then show ?thesis using 2 b by (simp add: v cols_right_def)
  next
    case 3
    then have "k ! nat x = at s L x" using kx [of x] ny [of x] b by auto
    then show ?thesis using 3 b by (auto simp: v cols_right_def)
  qed
qed

text \<open>
  SL and SR move the segment between the margins of each line of the scroll region; only the
  cells next to the margins and at the seams can differ, where a wide character was cut.
\<close>

lemma side_ok_screen:
  assumes "screen_ok s" "1 \<le> n" "n \<le> CursorRightM s - CursorLeftM s + 1"
  shows "side_ok (CursorLeftM s) (CursorRightM s) n s" "page_ok s" "0 \<le> CursorTop s"
    "CursorTop s \<le> CursorBottom s" "CursorBottom s < NumOfLines s"
  using assms by (auto simp: side_ok_def screen_ok_def page_ok_def cursor_ok_def)

lemma sideways:
  assumes "\<exists>t. m = Some t \<and> same_but_cells s t \<and>
      (\<forall>L. 0 \<le> L \<longrightarrow> L < NumOfLinesInBuff s \<longrightarrow> line t L =
        (if PageStart s + y \<le> L \<and> L \<le> PageStart s + y' then eff (line s L) else line s L))"
    and "screen_ok s" "\<And>L x. in_cols s x \<Longrightarrow> x \<notin> seam \<Longrightarrow> eff (line s L) ! nat x = f (at s L) x"
  shows "\<exists>t. m = Some t \<and> screen_ok t \<and> same_but_cells s t \<and>
    (\<forall>L x. 0 \<le> L \<longrightarrow> L < NumOfLinesInBuff s \<longrightarrow> in_cols s x \<longrightarrow>
      at t L x = (if PageStart s + y \<le> L \<and> L \<le> PageStart s + y' then f (at s L) x else at s L x) \<or>
      PageStart s + y \<le> L \<and> L \<le> PageStart s + y' \<and> x \<in> seam)"
proof -
  obtain t where t: "m = Some t" "same_but_cells s t"
    and l: "\<And>L. 0 \<le> L \<Longrightarrow> L < NumOfLinesInBuff s \<Longrightarrow> line t L =
        (if PageStart s + y \<le> L \<and> L \<le> PageStart s + y' then eff (line s L) else line s L)"
    using assms(1) by blast
  have "at t L x = (if PageStart s + y \<le> L \<and> L \<le> PageStart s + y' then f (at s L) x else at s L x) \<or>
      PageStart s + y \<le> L \<and> L \<le> PageStart s + y' \<and> x \<in> seam"
    if L: "0 \<le> L" "L < NumOfLinesInBuff s" "in_cols s x" for L x
  proof -
    have "at t L x = line t L ! nat x" using nth_line [of t x L] L(3) same_frame [OF t(2)] by simp
    then show ?thesis using l [OF L(1,2)] assms(3) [OF L(3)] nth_line [OF L(3)] by auto
  qed
  then show ?thesis using t same_but_cells_ok [OF t(2)] assms(2) by blast
qed

text \<open>
  SL: between margins and region every line moves left by \<open>n\<close> columns with erased cells
  coming in, exactly but for the four columns where a wide character may be cut.
\<close>

theorem BuffScrollLeft_cells:
  assumes "screen_ok s" "1 \<le> n" "n \<le> CursorRightM s - CursorLeftM s + 1"
  shows "\<exists>t. BuffScrollLeft n s = Some t \<and> screen_ok t \<and>
    (\<forall>L x. 0 \<le> L \<longrightarrow> L < NumOfLinesInBuff s \<longrightarrow> in_cols s x \<longrightarrow>
      at t L x = (if PageStart s + CursorTop s \<le> L \<and> L \<le> PageStart s + CursorBottom s
        then cols_left (CursorLeftM s) (CursorRightM s) n (erased s) (at s L) x else at s L x) \<or>
      PageStart s + CursorTop s \<le> L \<and> L \<le> PageStart s + CursorBottom s \<and>
        x \<in> {CursorLeftM s - 1, CursorLeftM s, CursorRightM s - n, CursorRightM s + 1})"
proof -
  define u where "u = UpdateStr s"
  have su: "same_but_view s u" unfolding u_def by (rule UpdateStr_vw)
  note fr = same_but_view_frame [OF su]
  have u: "screen_ok u" "n \<le> CursorRightM u - CursorLeftM u + 1" using assms fr by simp_all
  note ok = side_ok_screen [OF u(1) assms(2) u(2)]
  show ?thesis
    using sideways [OF lscroll.box [OF ok] u(1) left_eff_cell [OF ok(1)]]
    unfolding BuffScrollLeft_def u_def [symmetric] Let_def fr by blast
qed

lemma BuffScrollLeft_witness:
  "\<exists>t. BuffScrollLeft 2 sample_screen = Some t \<and> screen_ok t"
  using BuffScrollLeft_cells [of sample_screen 2] by auto

text \<open>
  SR: between margins and region every line moves right by \<open>n\<close> columns with erased cells
  coming in, exactly but for the four columns where a wide character may be cut.
\<close>

theorem BuffScrollRight_cells:
  assumes "screen_ok s" "1 \<le> n" "n \<le> CursorRightM s - CursorLeftM s + 1"
  shows "\<exists>t. BuffScrollRight n s = Some t \<and> screen_ok t \<and>
    (\<forall>L x. 0 \<le> L \<longrightarrow> L < NumOfLinesInBuff s \<longrightarrow> in_cols s x \<longrightarrow>
      at t L x = (if PageStart s + CursorTop s \<le> L \<and> L \<le> PageStart s + CursorBottom s
        then cols_right (CursorLeftM s) (CursorRightM s) n (erased s) (at s L) x else at s L x) \<or>
      PageStart s + CursorTop s \<le> L \<and> L \<le> PageStart s + CursorBottom s \<and>
        x \<in> {CursorLeftM s - 1, CursorLeftM s + n, CursorRightM s, CursorRightM s + 1})"
proof -
  define u where "u = UpdateStr s"
  have su: "same_but_view s u" unfolding u_def by (rule UpdateStr_vw)
  note fr = same_but_view_frame [OF su]
  have u: "screen_ok u" "n \<le> CursorRightM u - CursorLeftM u + 1" using assms fr by simp_all
  note ok = side_ok_screen [OF u(1) assms(2) u(2)]
  show ?thesis
    using sideways [OF rscroll.box [OF ok] u(1) right_eff_cell [OF ok(1)]]
    unfolding BuffScrollRight_def u_def [symmetric] Let_def fr by blast
qed

lemma BuffScrollRight_witness:
  "\<exists>t. BuffScrollRight 2 sample_screen = Some t \<and> screen_ok t"
  using BuffScrollRight_cells [of sample_screen 2] by auto

subsection \<open>Characters in the cursor's line\<close>

definition cursor_line :: "screen \<Rightarrow> int" where
  "cursor_line s = PageStart s + CursorY s"

definition ins_eff :: "int \<Rightarrow> screen \<Rightarrow> buff_char list \<Rightarrow> buff_char list" where
  "ins_eff n s l =
     (let x = CursorX s; r = CursorRightM s;
          sp = (\<lambda>c. BuffSetChar (conv s) c 0x20 CHR ''H'');
          l1 = (if IsBuffPadding (l ! nat x)
                then (let k = l[nat (x - 1) := sp (l ! nat (x - 1))]
                      in k[nat x := bk (conv s) (k ! nat x)]) else l);
          l2 = (if r < NumOfColumns s - 1 \<and> is_kanji (l1 ! nat r)
                then l1[nat (r + 1) := bk (conv s) (l1 ! nat (r + 1))] else l1);
          l3 = (if r + 1 - x - n > 0 then blit l2 (x + n) x (r + 1 - x - n) else l2);
          l4 = updated (\<lambda>_. blank_cell (conv s) 0x20 (Fore (CurCharAttr s)) (Back (CurCharAttr s))
                 AttrDefault (Attr2 (CurCharAttr s))) l3 x n
      in if is_kanji (l4 ! nat r) then l4[nat r := bk (conv s) (l4 ! nat r)] else l4)"

lemma lineptr_start:
  assumes "screen_ok s"
  shows "LinePtr s = row_ptr s (cursor_line s)" "geom_ok s" "lineptr_ok s" "0 \<le> PageStart s + CursorY s"
    "in_cols s (CursorX s)"
  using assms by (auto simp: screen_ok_def lineptr_ok_def cursor_line_def page_ok_def cursor_ok_def
      in_cols_def)

lemma BuffInsertSpace_line:
  assumes ok: "screen_ok s" and n: "0 \<le> Count"
    and x: "CursorLeftM s \<le> CursorX s" "CursorX s \<le> CursorRightM s"
    and pad: "CursorX s = 0 \<Longrightarrow> \<not> IsBuffPadding (at s (cursor_line s) 0)"
  defines "m \<equiv> min Count (CursorRightM s + 1 - CursorX s)"
  shows "runs (\<lambda>t. \<exists>b. t = s\<lparr>CodeBuffW := b\<rparr> \<and>
      becomes s (cursor_line s) (ins_eff m s (line s (cursor_line s))) b) (BuffInsertSpace Count s)"
proof (rule runs_start [where m = "BuffInsertSpace Count" and D = "cursor_line s"])
  show "geom_ok s" by (rule lineptr_start(2) [OF ok])
  let ?D = "cursor_line s" and ?l = "line s (cursor_line s)"
  fix b assume b: "becomes s ?D ?l b"
  note st = lineptr_start [OF ok]
  have mm: "(if Count > CursorRightM s + 1 - CursorX s then CursorRightM s + 1 - CursorX s else Count) = m"
    by (simp add: m_def min_def)
  have c: "0 \<le> CursorX s" "CursorX s < NumOfColumns s" "CursorRightM s < NumOfColumns s" "0 \<le> CursorRightM s"
    using ok by (auto simp: screen_ok_def cursor_ok_def)
  have mb: "0 \<le> m" "m \<le> CursorRightM s + 1 - CursorX s" using n x by (auto simp: m_def)
  have pd: "in_cols s (CursorX s - 1)" if "IsBuffPadding (?l ! nat (CursorX s))"
  proof (cases "CursorX s = 0")
    case True
    then show ?thesis using pad that nth_line [OF st(5), of ?D] by simp
  next
    case False
    then show ?thesis using c by (simp add: in_cols_def)
  qed
  have g: "\<not> (CursorX s < CursorLeftM s \<or> CursorX s > CursorRightM s)" using x by auto
  have nl: "NewLine (PageStart s + CursorY s) (s\<lparr>CodeBuffW := b\<rparr>) = Some (s\<lparr>CodeBuffW := b\<rparr>)"
    by (rule NewLine_same [OF b st(3,4)])
  show "runs (\<lambda>t. \<exists>b. t = s\<lparr>CodeBuffW := b\<rparr> \<and> becomes s ?D (ins_eff m s ?l) b)
      (BuffInsertSpace Count (s\<lparr>CodeBuffW := b\<rparr>))"
    unfolding BuffInsertSpace_def Let_def upd_fields st(1) mm nl if_not_P [OF g] Option.bind.bind_lunit
    apply (insert b c mb pd)
    apply ((simp (no_asm) only: upd_fields) | rule runs_bind | rule runs_guarded_eff | rule runs_when_eff | rule line_rules
      | assumption | (erule eff_done, assumption) | (rule exI, rule conjI, rule refl)
      | (simp add: in_cols_def; fail) | (simp only: ins_eff_def Let_def upd_fields simp_thms; fail))+
    done
qed


text \<open>What the cells of the edited line are, away from the seams.\<close>

lemma ins_eff_cell:
  fixes D :: int
  assumes ok: "screen_ok s" and m: "0 \<le> m" "m \<le> CursorRightM s + 1 - CursorX s" and x: "in_cols s x"
  defines "k \<equiv> ins_eff m s (line s D) ! nat x"
  shows "CursorX s \<le> x \<Longrightarrow> x < CursorX s + m \<Longrightarrow> x \<noteq> CursorRightM s \<Longrightarrow>
      k = blank_cell (conv s) 0x20 (Fore (CurCharAttr s)) (Back (CurCharAttr s)) AttrDefault (Attr2 (CurCharAttr s))"
    "CursorX s + m < x \<Longrightarrow> x < CursorRightM s \<Longrightarrow> k = at s D (x - m)"
    "x < CursorX s - 1 \<or> CursorRightM s + 1 < x \<Longrightarrow> CursorX s \<le> CursorRightM s \<Longrightarrow> k = at s D x"
proof -
  let ?x = "CursorX s" and ?r = "CursorRightM s"
  have c: "0 \<le> ?x" "0 \<le> ?r" "?r < NumOfColumns s" "0 \<le> x" "x < NumOfColumns s"
    using ok x by (auto simp: screen_ok_def cursor_ok_def in_cols_def)
  define sp where "sp = (\<lambda>c. BuffSetChar (conv s) c 0x20 CHR ''H'')"
  define bl where "bl = (\<lambda>_ :: buff_char. blank_cell (conv s) 0x20 (Fore (CurCharAttr s))
    (Back (CurCharAttr s)) AttrDefault (Attr2 (CurCharAttr s)))"
  define l where "l = line s D"
  define l1 where "l1 = (if IsBuffPadding (l ! nat ?x)
                then (let k = l[nat (?x - 1) := sp (l ! nat (?x - 1))]
                      in k[nat ?x := bk (conv s) (k ! nat ?x)]) else l)"
  define l2 where "l2 = (if ?r < NumOfColumns s - 1 \<and> is_kanji (l1 ! nat ?r)
                then l1[nat (?r + 1) := bk (conv s) (l1 ! nat (?r + 1))] else l1)"
  define l3 where "l3 = (if ?r + 1 - ?x - m > 0 then blit l2 (?x + m) ?x (?r + 1 - ?x - m) else l2)"
  define l4 where "l4 = updated bl l3 ?x m"
  have "ins_eff m s (line s D) = (if is_kanji (l4 ! nat ?r) then l4[nat ?r := bk (conv s) (l4 ! nat ?r)] else l4)"
    unfolding ins_eff_def Let_def l4_def l3_def l2_def l1_def l_def sp_def bl_def by (rule refl)
  then have k: "k = l4 ! nat x" if "x \<noteq> ?r" using that c by (simp add: k_def nat_eq_iff)
  have len: "length l2 = nat (NumOfColumns s)" "length l3 = nat (NumOfColumns s)"
    by (simp_all add: l3_def l2_def l1_def l_def Let_def)
  have a4: "l4 ! nat x = (if ?x \<le> x \<and> x < ?x + m then bl c else l3 ! nat x)" for c
    unfolding l4_def nth_updated [OF seg_nth [OF len(2) x]] by (simp add: bl_def)
  have a3: "l3 ! nat x = (if ?x + m \<le> x \<and> x \<le> ?r then l2 ! nat (x - m) else l2 ! nat x)"
    using nth_blit [OF seg_nth [OF len(1) x], of "?x + m" ?x "?r + 1 - ?x - m"] m
    by (auto simp: l3_def algebra_simps)
  have a1: "l2 ! nat y = at s D y" if "0 \<le> y" "y < NumOfColumns s" "y \<notin> {?x - 1, ?x, ?r + 1}" for y
  proof -
    have "l2 ! nat y = l1 ! nat y" using that c by (simp add: l2_def nat_eq_iff)
    moreover have "l1 ! nat y = l ! nat y" using that c by (simp add: l1_def Let_def nat_eq_iff)
    ultimately show ?thesis using nth_line [of s y D] that by (simp add: l_def in_cols_def)
  qed
  show "?x \<le> x \<Longrightarrow> x < ?x + m \<Longrightarrow> x \<noteq> ?r \<Longrightarrow>
      k = blank_cell (conv s) 0x20 (Fore (CurCharAttr s)) (Back (CurCharAttr s)) AttrDefault (Attr2 (CurCharAttr s))"
    using k a4 by (simp add: bl_def)
  show "?x + m < x \<Longrightarrow> x < ?r \<Longrightarrow> k = at s D (x - m)"
    using k a4 a3 a1 [of "x - m"] c m by simp
  show "x < ?x - 1 \<or> ?r + 1 < x \<Longrightarrow> ?x \<le> ?r \<Longrightarrow> k = at s D x"
    using k a4 a3 a1 [of x] c m by auto
qed

text \<open>From the edit of the cursor's line to the cells of the ring.\<close>

lemma line_edit_cells:
  assumes "runs (\<lambda>t. \<exists>b. t = s\<lparr>CodeBuffW := b\<rparr> \<and> becomes s D l b) m" "screen_ok s"
    and "0 \<le> D" "D < NumOfLinesInBuff s"
  shows "\<exists>t. m = Some t \<and> screen_ok t \<and> same_but_cells s t \<and>
    ring_cells s t (\<lambda>L x. if L = D then l ! nat x else at s L x)"
proof -
  obtain b where b: "m = Some (s\<lparr>CodeBuffW := b\<rparr>)" "becomes s D l b"
    using assms(1) by (auto simp: runs_def)
  have "(L - D) mod NumOfLinesInBuff s = 0 \<longleftrightarrow> L = D" if "0 \<le> L" "L < NumOfLinesInBuff s" for L
    using window_mod [of 0 L "NumOfLinesInBuff s" D] that assms(3,4) by simp
  then show ?thesis
    using b becomesD(5) [OF b(2)] same_but_cells_ok [OF becomesD(5) [OF b(2)]] assms(2)
    by (auto intro!: ring_cellsI simp: becomes_cells [OF b(2)])
qed

lemma cursor_line_range:
  "screen_ok s \<Longrightarrow> 0 \<le> cursor_line s \<and> cursor_line s < NumOfLinesInBuff s"
  by (auto simp: screen_ok_def page_ok_def cursor_ok_def cursor_line_def)

text \<open>
  ICH: between the cursor and the right margin the cells move right by \<open>Count\<close> and spaces
  with the current colours come in; no other line changes and the buffer is not overrun.
\<close>

theorem BuffInsertSpace_cells:
  assumes "screen_ok s" "0 \<le> Count" "CursorLeftM s \<le> CursorX s" "CursorX s \<le> CursorRightM s"
    and "CursorX s = 0 \<Longrightarrow> \<not> IsBuffPadding (at s (cursor_line s) 0)"
  defines "m \<equiv> min Count (CursorRightM s + 1 - CursorX s)"
  shows "\<exists>t. BuffInsertSpace Count s = Some t \<and> screen_ok t \<and>
    (\<forall>L x. 0 \<le> L \<longrightarrow> L < NumOfLinesInBuff s \<longrightarrow> in_cols s x \<longrightarrow>
      (L \<noteq> cursor_line s \<or> x < CursorX s - 1 \<or> CursorRightM s + 1 < x \<longrightarrow> at t L x = at s L x) \<and>
      (L = cursor_line s \<and> CursorX s \<le> x \<and> x < CursorX s + m \<and> x < CursorRightM s \<longrightarrow>
        at t L x = blank_cell (conv s) 0x20 (Fore (CurCharAttr s)) (Back (CurCharAttr s)) AttrDefault
          (Attr2 (CurCharAttr s))) \<and>
      (L = cursor_line s \<and> CursorX s + m < x \<and> x < CursorRightM s \<longrightarrow> at t L x = at s L (x - m)))"
proof -
  have m: "0 \<le> m" "m \<le> CursorRightM s + 1 - CursorX s" using assms(2,4) by (auto simp: m_def)
  obtain t where t: "BuffInsertSpace Count s = Some t" "screen_ok t"
    and c: "ring_cells s t (\<lambda>L x. if L = cursor_line s then ins_eff m s (line s (cursor_line s)) ! nat x
      else at s L x)"
    using line_edit_cells [OF BuffInsertSpace_line [OF assms(1-5)] assms(1)] cursor_line_range [OF assms(1)]
    unfolding m_def by blast
  have at: "at t L x = (if L = cursor_line s then ins_eff m s (line s (cursor_line s)) ! nat x else at s L x)"
    if "0 \<le> L" "L < NumOfLinesInBuff s" "in_cols s x" for L x
    using c that by (auto simp: ring_cells_def)
  note e = ins_eff_cell [OF assms(1) m]
  show ?thesis
    using t(1,2) by (intro exI [of _ t]) (auto simp: at e assms(4))
qed

lemma BuffInsertSpace_witness:
  "\<exists>t. BuffInsertSpace 1 sample_screen = Some t \<and> screen_ok t"
  using BuffInsertSpace_cells [of sample_screen 1] by auto

subsection \<open>Deleting characters\<close>

definition del_eff :: "int \<Rightarrow> screen \<Rightarrow> buff_char list \<Rightarrow> buff_char list" where
  "del_eff n s l =
     (let x = CursorX s; r = CursorRightM s; len = r + 1 - x - n;
          sp = (\<lambda>c. BuffSetChar (conv s) c 0x20 CHR ''H'');
          l1 = (if IsBuffPadding (l ! nat x)
                then (let k = l[nat (x - 1) := sp (l ! nat (x - 1))] in k[nat x := sp (k ! nat x)]) else l);
          l2 = (if IsBuffFullWidth (l1 ! nat x)
                then (let k = l1[nat x := sp (l1 ! nat x)] in k[nat (x + 1) := sp (k ! nat (x + 1))]) else l1);
          l3 = (if n > 1 \<and> IsBuffPadding (l2 ! nat (x + n))
                then (let k = l2[nat (x + n - 1) := sp (l2 ! nat (x + n - 1))]
                      in k[nat (x + n) := sp (k ! nat (x + n))]) else l2);
          l4 = (if r < NumOfColumns s - 1 \<and> is_kanji (l3 ! nat r)
                then (let k = l3[nat r := bk (conv s) (l3 ! nat r)]
                      in k[nat (r + 1) := bk (conv s) (k ! nat (r + 1))]) else l3);
          l5 = (if len > 0 then blit l4 x (x + n) len else l4)
      in updated (\<lambda>_. erased s) l5 (x + len) n)"

lemma IsBuffFullWidth_space [simp]: "\<not> IsBuffFullWidth (BuffSetChar cv c ch w)"
  by (simp add: IsBuffFullWidth_def BuffSetChar_def BuffSetChar2_def)

lemma BuffDeleteChars_line:
  assumes ok: "screen_ok s" and n: "0 \<le> Count"
    and x: "CursorLeftM s \<le> CursorX s" "CursorX s \<le> CursorRightM s"
    and pad: "CursorX s = 0 \<Longrightarrow> \<not> IsBuffPadding (at s (cursor_line s) 0)"
    and full: "CursorX s = NumOfColumns s - 1 \<Longrightarrow> \<not> IsBuffFullWidth (at s (cursor_line s) (CursorX s))"
  defines "m \<equiv> min Count (CursorRightM s + 1 - CursorX s)"
  assumes room: "1 < m \<Longrightarrow> CursorX s + m < NumOfColumns s"
  shows "runs (\<lambda>t. \<exists>b. t = s\<lparr>CodeBuffW := b\<rparr> \<and>
      becomes s (cursor_line s) (del_eff m s (line s (cursor_line s))) b) (BuffDeleteChars Count s)"
proof (rule runs_start [where m = "BuffDeleteChars Count" and D = "cursor_line s"])
  show "geom_ok s" by (rule lineptr_start(2) [OF ok])
  let ?D = "cursor_line s" and ?l = "line s (cursor_line s)"
  fix b assume b: "becomes s ?D ?l b"
  note st = lineptr_start [OF ok]
  have mm: "(if Count > CursorRightM s + 1 - CursorX s then CursorRightM s + 1 - CursorX s else Count) = m"
    by (simp add: m_def min_def)
  have c: "0 \<le> CursorX s" "CursorX s < NumOfColumns s" "CursorRightM s < NumOfColumns s" "0 \<le> CursorRightM s"
    using ok by (auto simp: screen_ok_def cursor_ok_def)
  have mb: "0 \<le> m" "m \<le> CursorRightM s + 1 - CursorX s" using n x by (auto simp: m_def)
  have lx: "?l ! nat (CursorX s) = at s ?D (CursorX s)" by (rule nth_line [OF st(5)])
  have pd: "in_cols s (CursorX s - 1)" if "IsBuffPadding (?l ! nat (CursorX s))"
    using pad that lx c by (cases "CursorX s = 0") (auto simp: in_cols_def)
  have fl: "in_cols s (CursorX s + 1)"
    if "l' = (if True \<and> IsBuffPadding (?l ! nat (CursorX s))
        then (?l[nat (CursorX s - 1) := BuffSetChar (conv s) (?l ! nat (CursorX s - 1)) 0x20 CHR ''H''])
          [nat (CursorX s) := BuffSetChar (conv s) (?l[nat (CursorX s - 1) :=
            BuffSetChar (conv s) (?l ! nat (CursorX s - 1)) 0x20 CHR ''H''] ! nat (CursorX s)) 0x20 CHR ''H'']
        else ?l)" "IsBuffFullWidth (l' ! nat (CursorX s))" for l'
  proof -
    have "nat (CursorX s) < length ?l" using c by simp
    then have "IsBuffFullWidth (?l ! nat (CursorX s))" using that by (auto split: if_splits)
    then show ?thesis using full lx c by (cases "CursorX s = NumOfColumns s - 1") (auto simp: in_cols_def)
  qed
  have g: "\<not> (CursorX s < CursorLeftM s \<or> CursorX s > CursorRightM s)" using x by auto
  have nl: "NewLine (PageStart s + CursorY s) (s\<lparr>CodeBuffW := b\<rparr>) = Some (s\<lparr>CodeBuffW := b\<rparr>)"
    by (rule NewLine_same [OF b st(3,4)])
  show "runs (\<lambda>t. \<exists>b. t = s\<lparr>CodeBuffW := b\<rparr> \<and> becomes s ?D (del_eff m s ?l) b)
      (BuffDeleteChars Count (s\<lparr>CodeBuffW := b\<rparr>))"
    unfolding BuffDeleteChars_def Let_def upd_fields st(1) mm nl if_not_P [OF g] Option.bind.bind_lunit
    apply (insert b c mb pd room)
    apply ((simp (no_asm) only: upd_fields) | rule runs_bind | rule runs_guarded_eff | rule runs_when_eff
      | rule line_rules | assumption | (erule eff_done, assumption) | (rule exI, rule conjI, rule refl)
      | (simp add: in_cols_def; fail) | (rule fl, assumption, assumption)
      | (simp only: del_eff_def Let_def upd_fields simp_thms; fail))+
    done
qed

text \<open>
  What the line is afterwards, cell by cell. Up to three wide characters are cut, and both
  halves of each become spaces before the cells move: the one under the cursor (whichever half
  that is), the one whose right half is the first cell kept, and the one over the right margin.
  A space made of a half keeps its attributes; at the margin it loses the bit for wide
  characters.
\<close>

definition half_space :: "screen \<Rightarrow> u8 \<Rightarrow> buff_char \<Rightarrow> buff_char" where
  "half_space s a c = blank_cell (conv s) 0x20 0 0 a (attr2 c)"

definition dch_cut :: "screen \<Rightarrow> int \<Rightarrow> (int \<Rightarrow> buff_char) \<Rightarrow> int \<Rightarrow> bool" where
  "dch_cut s m row y \<longleftrightarrow>
     IsBuffPadding (row (CursorX s)) \<and> y \<in> {CursorX s - 1, CursorX s} \<or>
     \<not> IsBuffPadding (row (CursorX s)) \<and> IsBuffFullWidth (row (CursorX s)) \<and> y \<in> {CursorX s, CursorX s + 1} \<or>
     1 < m \<and> IsBuffPadding (row (CursorX s + m)) \<and> y \<in> {CursorX s + m - 1, CursorX s + m}"

definition dch_spaced :: "screen \<Rightarrow> int \<Rightarrow> (int \<Rightarrow> buff_char) \<Rightarrow> int \<Rightarrow> buff_char" where
  "dch_spaced s m row y =
     (if CursorRightM s < NumOfColumns s - 1 \<and> is_kanji (row (CursorRightM s)) \<and>
        y \<in> {CursorRightM s, CursorRightM s + 1}
      then half_space s (attr (row y) AND NOT AttrKanji) (row y)
      else if dch_cut s m row y then half_space s (attr (row y)) (row y)
      else row y)"

definition dch_row :: "screen \<Rightarrow> int \<Rightarrow> (int \<Rightarrow> buff_char) \<Rightarrow> int \<Rightarrow> buff_char" where
  "dch_row s m row y =
     (if y < CursorX s \<or> CursorRightM s < y then dch_spaced s m row y
      else if y \<le> CursorRightM s - m then dch_spaced s m row (y + m)
      else erased s)"

lemma half_spaces:
  "BuffSetChar (conv s) c 0x20 CHR ''H'' = half_space s (attr c) c"
  "bk (conv s) c = half_space s (attr c AND NOT AttrKanji) c"
  "attr (half_space s a c) = a" "attr2 (half_space s a c) = attr2 c"
  "half_space s a (half_space s b c) = half_space s a c"
  "\<not> IsBuffPadding (half_space s a c)" "\<not> IsBuffFullWidth (half_space s a c)"
  by (simp_all add: half_space_def bk_def clear_bits_def BuffSetChar_def BuffSetChar2_def blank_cell_def
      FreeCombinationBuf_def AttrDefaultFG_def AttrDefaultBG_def IsBuffPadding_def IsBuffFullWidth_def)

lemma nth_pair:
  assumes "0 \<le> i" "j = i + 1" "0 \<le> y" "y < int (length l)"
  shows "(let k = l[nat i := f (l ! nat i)] in k[nat j := f (k ! nat j)]) ! nat y =
    (if y \<in> {i, j} then f (l ! nat y) else l ! nat y)"
  using assms by (auto simp: Let_def nth_list_update nat_eq_iff nat_less_iff)

lemma del_eff_cell:
  fixes D :: int
  assumes ok: "screen_ok s" and m: "0 \<le> m" "m \<le> CursorRightM s + 1 - CursorX s" and x: "in_cols s x"
    and le: "CursorX s \<le> CursorRightM s"
    and pad: "CursorX s = 0 \<Longrightarrow> \<not> IsBuffPadding (at s D 0)"
    and room: "1 < m \<Longrightarrow> CursorX s + m < NumOfColumns s"
  shows "del_eff m s (line s D) ! nat x = dch_row s m (at s D) x"
proof -
  let ?x = "CursorX s" and ?r = "CursorRightM s" and ?row = "at s D"
  have c: "0 \<le> ?x" "0 \<le> ?r" "?r < NumOfColumns s" "0 \<le> x" "x < NumOfColumns s"
    using ok x by (auto simp: screen_ok_def cursor_ok_def in_cols_def)
  define sp where "sp = (\<lambda>c. BuffSetChar (conv s) c 0x20 CHR ''H'')"
  define l where "l = line s D"
  define l1 where "l1 = (if IsBuffPadding (l ! nat ?x)
      then (let k = l[nat (?x - 1) := sp (l ! nat (?x - 1))] in k[nat ?x := sp (k ! nat ?x)]) else l)"
  define l2 where "l2 = (if IsBuffFullWidth (l1 ! nat ?x)
      then (let k = l1[nat ?x := sp (l1 ! nat ?x)] in k[nat (?x + 1) := sp (k ! nat (?x + 1))]) else l1)"
  define l3 where "l3 = (if m > 1 \<and> IsBuffPadding (l2 ! nat (?x + m))
      then (let k = l2[nat (?x + m - 1) := sp (l2 ! nat (?x + m - 1))]
            in k[nat (?x + m) := sp (k ! nat (?x + m))]) else l2)"
  define l4 where "l4 = (if ?r < NumOfColumns s - 1 \<and> is_kanji (l3 ! nat ?r)
      then (let k = l3[nat ?r := bk (conv s) (l3 ! nat ?r)]
            in k[nat (?r + 1) := bk (conv s) (k ! nat (?r + 1))]) else l3)"
  define l5 where "l5 = (if ?r + 1 - ?x - m > 0 then blit l4 ?x (?x + m) (?r + 1 - ?x - m) else l4)"
  have k: "del_eff m s (line s D) = updated (\<lambda>_. erased s) l5 (?x + (?r + 1 - ?x - m)) m"
    unfolding del_eff_def Let_def l5_def l4_def l3_def l2_def l1_def l_def sp_def by (rule refl)
  have len: "length l = nat (NumOfColumns s)" "length l1 = nat (NumOfColumns s)" "length l2 = nat (NumOfColumns s)"
    "length l3 = nat (NumOfColumns s)" "length l4 = nat (NumOfColumns s)" "length l5 = nat (NumOfColumns s)"
    by (simp_all add: l5_def l4_def l3_def l2_def l1_def l_def Let_def)
  have n0: "l ! nat y = ?row y" if "in_cols s y" for y using nth_line [OF that] by (simp add: l_def)
  have cx: "in_cols s ?x" "in_cols s ?r" "1 < m \<Longrightarrow> in_cols s (?x + m)" using c m le room by (auto simp: in_cols_def)
  have n1: "l1 ! nat y = (if IsBuffPadding (?row ?x) \<and> y \<in> {?x - 1, ?x} then sp (?row y) else ?row y)"
    if y: "in_cols s y" for y
  proof (cases "IsBuffPadding (?row ?x)")
    case True
    then have "0 \<le> ?x - 1" using pad c(1) by (cases "?x = 0") auto
    from nth_pair [OF this, of ?x y l sp]
    have "l1 ! nat y = (if y \<in> {?x - 1, ?x} then sp (l ! nat y) else l ! nat y)"
      unfolding l1_def n0 [OF cx(1)] if_P [OF True] using y len(1) by (simp add: in_cols_def)
    then show ?thesis using True by (simp add: n0 [OF y])
  qed (simp add: l1_def n0 y cx(1))
  have w1: "IsBuffFullWidth (l1 ! nat ?x) \<longleftrightarrow> \<not> IsBuffPadding (?row ?x) \<and> IsBuffFullWidth (?row ?x)"
    unfolding n1 [OF cx(1)] by (simp add: sp_def half_spaces)
  have n2: "l2 ! nat y = (if IsBuffFullWidth (l1 ! nat ?x) \<and> y \<in> {?x, ?x + 1} then sp (l1 ! nat y) else l1 ! nat y)"
    if y: "in_cols s y" for y
    using nth_pair [OF c(1) refl, of y l1 sp] y len(2) by (simp add: l2_def in_cols_def)
  have n2': "l2 ! nat (?x + m) = ?row (?x + m)" if "1 < m"
    using that n1 [OF cx(3) [OF that]] n2 [OF cx(3) [OF that]] by simp
  have n3: "l3 ! nat y = (if 1 < m \<and> IsBuffPadding (?row (?x + m)) \<and> y \<in> {?x + m - 1, ?x + m} then sp (l2 ! nat y) else l2 ! nat y)"
    if y: "in_cols s y" for y
    using nth_pair [of "?x + m - 1" "?x + m" y l2 sp] y len(3) c(1) n2' by (auto simp: l3_def in_cols_def)
  have s3: "l3 ! nat y = (if dch_cut s m ?row y then half_space s (attr (?row y)) (?row y) else ?row y)"
    if y: "in_cols s y" for y
    unfolding n3 [OF y] n2 [OF y] w1 n1 [OF y] by (auto simp: dch_cut_def sp_def half_spaces)
  have k3: "is_kanji (l3 ! nat ?r) \<longleftrightarrow> is_kanji (?row ?r)"
    unfolding s3 [OF cx(2)] by (simp add: is_kanji_def half_spaces)
  have n4: "l4 ! nat y = dch_spaced s m ?row y" if y: "in_cols s y" for y
    using nth_pair [OF c(2) refl, of y l3 "bk (conv s)"] y len(4) s3 [OF y] k3
    by (auto simp: l4_def in_cols_def dch_spaced_def half_spaces)
  have n5: "l5 ! nat x = (if ?x \<le> x \<and> x \<le> ?r - m then l4 ! nat (x + m) else l4 ! nat x)"
    using nth_blit [OF seg_nth [OF len(5) x], of ?x "?x + m" "?r + 1 - ?x - m"] m
    by (auto simp: l5_def algebra_simps)
  have "del_eff m s (line s D) ! nat x = (if ?r - m < x \<and> x \<le> ?r then erased s else l5 ! nat x)"
    unfolding k nth_updated [OF seg_nth [OF len(6) x]] using m by auto
  then show ?thesis using n5 n4 [OF x] n4 [of "x + m"] m c le by (auto simp: dch_row_def in_cols_def)
qed

text \<open>
  C5. DCH: every cell of the screen afterwards. Between the cursor and the right margin the cells
  behind the deleted ones move left and erased cells come in at the margin; both halves of a
  wide character that is cut, under the cursor, at the end of the deleted cells or over the
  margin, have become spaces; no other cell changes, as long as the deletion does not reach
  the last column.
\<close>

theorem BuffDeleteChars_cells:
  assumes "screen_ok s" "1 \<le> Count" "CursorLeftM s \<le> CursorX s" "CursorX s \<le> CursorRightM s"
    and "CursorX s = 0 \<Longrightarrow> \<not> IsBuffPadding (at s (cursor_line s) 0)"
    and "CursorX s = NumOfColumns s - 1 \<Longrightarrow> \<not> IsBuffFullWidth (at s (cursor_line s) (CursorX s))"
  defines "m \<equiv> min Count (CursorRightM s + 1 - CursorX s)"
  assumes "1 < m \<Longrightarrow> CursorX s + m < NumOfColumns s"
  shows "\<exists>t. BuffDeleteChars Count s = Some t \<and> screen_ok t \<and> same_but_cells s t \<and>
    (\<forall>L x. 0 \<le> L \<longrightarrow> L < NumOfLinesInBuff s \<longrightarrow> in_cols s x \<longrightarrow>
      at t L x = (if L = cursor_line s then dch_row s m (at s L) x else at s L x))"
proof -
  have n0: "0 \<le> Count" using assms(2) by simp
  have m: "0 \<le> m" "m \<le> CursorRightM s + 1 - CursorX s" using assms(2,4) by (auto simp: m_def)
  obtain t where t: "BuffDeleteChars Count s = Some t" "screen_ok t" "same_but_cells s t"
    and c: "ring_cells s t (\<lambda>L x. if L = cursor_line s then del_eff m s (line s (cursor_line s)) ! nat x
      else at s L x)"
    using line_edit_cells [OF BuffDeleteChars_line [OF assms(1) n0 assms(3-6)] assms(1)]
      cursor_line_range [OF assms(1)] assms(8) unfolding m_def by blast
  have "at t L x = (if L = cursor_line s then dch_row s m (at s L) x else at s L x)"
    if "0 \<le> L" "L < NumOfLinesInBuff s" "in_cols s x" for L x
    using c that del_eff_cell [OF assms(1) m that(3) assms(4,5,8)] by (simp add: ring_cells_def)
  then show ?thesis using t by blast
qed

lemma BuffDeleteChars_witness:
  "\<exists>t. BuffDeleteChars 1 sample_screen = Some t \<and> screen_ok t"
  using BuffDeleteChars_cells [of sample_screen 1] by auto

text \<open>
  When the deletion reaches the last column, the check of the cell behind the deleted ones
  reads one cell past the line; in the last line of the array that is past the array.
\<close>

lemma guarded_length:
  assumes "guarded G Q j m s = Some t" "\<And>t. m s = Some t \<Longrightarrow> length (CodeBuffW t) = length (CodeBuffW s)"
  shows "length (CodeBuffW t) = length (CodeBuffW s)"
  using assms by (auto simp: guarded_def bind_eq_Some_conv split: if_splits)

lemma setc_length: "setc ch i s = Some t \<Longrightarrow> length (CodeBuffW t) = length (CodeBuffW s)"
  by (auto simp: setc_def cell_upd_def bind_eq_Some_conv dest: wr_length)

lemma setc2_length:
  "Option.bind (setc ch i s) (setc ch j) = Some t \<Longrightarrow> length (CodeBuffW t) = length (CodeBuffW s)"
  by (auto simp: bind_eq_Some_conv dest!: setc_length)

text \<open>
  DCH up to the last column reads the cell behind the line; in the line that is last in the
  array this is one element past \<open>CodeBuffW\<close>.
\<close>

theorem BuffDeleteChars_past_end:
  assumes "screen_ok s" "CursorLeftM s \<le> CursorX s" "CursorRightM s = NumOfColumns s - 1"
    and "CursorX s < CursorRightM s" "NumOfColumns s - CursorX s \<le> Count"
    and "LinePtr s + NumOfColumns s = BufferSize s"
  shows "BuffDeleteChars Count s = None"
proof (rule ccontr)
  assume "BuffDeleteChars Count s \<noteq> None"
  then obtain t where t: "BuffDeleteChars Count s = Some t" by blast
  let ?x = "CursorX s" and ?n = "NumOfColumns s - CursorX s"
  have n: "(if Count > CursorRightM s + 1 - ?x then CursorRightM s + 1 - ?x else Count) = ?n"
    using assms(3,5) by simp
  have g: "\<not> (?x < CursorLeftM s \<or> ?x > CursorRightM s)" using assms(2,4) by auto
  note st = lineptr_start [OF assms(1)]
  have nl: "NewLine (PageStart s + CursorY s) s = Some s"
    using NewLine_same [OF becomes_start [OF st(2)] st(3,4)] by simp
  obtain s1 s2 s3 where
    s1: "guarded True IsBuffPadding (LinePtr s + ?x)
      (\<lambda>s'. Option.bind (setc 0x20 (LinePtr s + (?x - 1)) s') (setc 0x20 (LinePtr s + ?x))) s = Some s1"
    and s2: "guarded True IsBuffFullWidth (LinePtr s + ?x)
      (\<lambda>s'. Option.bind (setc 0x20 (LinePtr s + ?x) s') (setc 0x20 (LinePtr s + (?x + 1)))) s1 = Some s2"
    and s3: "guarded (?n > 1) IsBuffPadding (LinePtr s + (?x + ?n))
      (\<lambda>s'. Option.bind (setc 0x20 (LinePtr s + (?x + ?n - 1)) s') (setc 0x20 (LinePtr s + (?x + ?n)))) s2 = Some s3"
    using t unfolding BuffDeleteChars_def Let_def n nl if_not_P [OF g] Option.bind.bind_lunit
    by (auto simp: bind_eq_Some_conv)
  have "length (CodeBuffW s1) = length (CodeBuffW s)" by (rule guarded_length [OF s1]) (erule setc2_length)
  moreover have "length (CodeBuffW s2) = length (CodeBuffW s1)"
    by (rule guarded_length [OF s2]) (erule setc2_length)
  ultimately have "int (length (CodeBuffW s2)) = LinePtr s + (?x + ?n)"
    using assms(6) st(2) by (simp add: geom_ok_def)
  then have "guarded (?n > 1) IsBuffPadding (LinePtr s + (?x + ?n)) m s2 = None" for m
    using assms(3,4) by (simp add: guarded_def cell_get_def rd_def in_arr_def)
  then show False using s3 by simp
qed

text \<open>The sample with the cursor in the line that is last in the array.\<close>

definition last_line_screen :: screen where
  "last_line_screen = sample_screen\<lparr>CursorY := 2, LinePtr := 16\<rparr>"

lemma last_line_screen_ok [simp]: "screen_ok last_line_screen"
  by (simp add: last_line_screen_def screen_ok_def page_ok_def geom_ok_def cursor_ok_def
      lineptr_ok_def row_ptr_def)

lemma last_line_screen_fields [simp]:
  "CursorX last_line_screen = 1" "CursorLeftM last_line_screen = 0"
  "CursorRightM last_line_screen = 3" "NumOfColumns last_line_screen = 4"
  "LinePtr last_line_screen = 16" "BufferSize last_line_screen = 20"
  by (simp_all add: last_line_screen_def)

lemma BuffDeleteChars_past_end_witness: "BuffDeleteChars 9 last_line_screen = None"
  using BuffDeleteChars_past_end [of last_line_screen 9] by simp

subsection \<open>Erasing\<close>

definition ek_eff :: "screen \<Rightarrow> int \<Rightarrow> buff_char list \<Rightarrow> buff_char list" where
  "ek_eff s p l =
     (if 0 \<le> p \<and> IsBuffFullWidth (l ! nat p)
      then (let k = l[nat p := cur_space s (l ! nat p)]
            in if p + 1 < NumOfColumns s then k[nat (p + 1) := cur_space s (k ! nat (p + 1))] else k)
      else l)"

lemma cell_upd_cursor:
  "cell_upd f i (s\<lparr>CursorX := c\<rparr>) = map_option (\<lambda>t. t\<lparr>CursorX := c\<rparr>) (cell_upd f i s)"
  by (cases "rd (CodeBuffW s) i"; cases "wr (CodeBuffW s) i (f (the (rd (CodeBuffW s) i)))")
    (simp_all add: cell_upd_def)

lemma cur_space_cursor [simp]: "cur_space (s\<lparr>CursorX := c\<rparr>) = cur_space s"
  by (simp add: cur_space_def fun_eq_iff)

text \<open>\<open>EraseKanji\<close> for a cursor column \<open>c\<close>, whatever \<open>CursorX\<close> was.\<close>

lemma EraseKanji_line:
  assumes b: "becomes s D l b" and p: "LinePtr s = row_ptr s D" and c: "0 \<le> c" "c < NumOfColumns s"
    and LR: "0 \<le> LR" "LR \<le> 1"
  shows "\<exists>b' k. EraseKanji LR ((s\<lparr>CodeBuffW := b\<rparr>)\<lparr>CursorX := c\<rparr>)
      = Some ((s\<lparr>CodeBuffW := b'\<rparr>)\<lparr>CursorX := c\<rparr>, k) \<and> becomes s D (ek_eff s (c - LR) l) b'"
proof (cases "c < LR")
  case True
  then show ?thesis using b by (auto simp: EraseKanji_def ek_eff_def)
next
  case False
  let ?S = "s\<lparr>CodeBuffW := b\<rparr>"
  have i: "in_cols s (c - LR)" using False c LR by (simp add: in_cols_def)
  have get: "cell_get (row_ptr s D + (c - LR)) (?S\<lparr>CursorX := c\<rparr>) = Some (l ! nat (c - LR))"
    using cell_get_line [OF b i] by (simp add: cell_get_def)
  show ?thesis
  proof (cases "IsBuffFullWidth (l ! nat (c - LR))")
    case f: False
    then show ?thesis using b False get p by (auto simp: EraseKanji_def ek_eff_def)
  next
    case f: True
    obtain b1 where b1: "cell_upd (cur_space s) (row_ptr s D + (c - LR)) ?S = Some (s\<lparr>CodeBuffW := b1\<rparr>)"
      and m1: "becomes s D (l[nat (c - LR) := cur_space s (l ! nat (c - LR))]) b1"
      using runsD [OF runs_cell_upd [OF b i, of "cur_space s" "\<lambda>t. \<exists>b1. t = s\<lparr>CodeBuffW := b1\<rparr> \<and>
        becomes s D (l[nat (c - LR) := cur_space s (l ! nat (c - LR))]) b1"]] by blast
    show ?thesis
    proof (cases "c - LR + 1 < NumOfColumns s")
      case e: False
      then show ?thesis using False f get p b1 m1
        by (auto simp: EraseKanji_def ek_eff_def cell_upd_cursor Let_def)
    next
      case e: True
      then have i2: "in_cols s (c - LR + 1)" using i by (simp add: in_cols_def)
      let ?l1 = "l[nat (c - LR) := cur_space s (l ! nat (c - LR))]"
      obtain b2 where b2: "cell_upd (cur_space s) (row_ptr s D + (c - LR + 1)) (s\<lparr>CodeBuffW := b1\<rparr>)
            = Some (s\<lparr>CodeBuffW := b2\<rparr>)"
        and m2: "becomes s D (?l1[nat (c - LR + 1) := cur_space s (?l1 ! nat (c - LR + 1))]) b2"
        using runsD [OF runs_cell_upd [OF m1 i2, of "cur_space s" "\<lambda>t. \<exists>b2. t = s\<lparr>CodeBuffW := b2\<rparr> \<and>
          becomes s D (?l1[nat (c - LR + 1) := cur_space s (?l1 ! nat (c - LR + 1))]) b2"]] by blast
      show ?thesis using False f get p b1 e b2 m2
        by (auto simp: EraseKanji_def ek_eff_def cell_upd_cursor Let_def)
    qed
  qed
qed

lemma EraseKanji_line_here:
  assumes "becomes s D l b" "LinePtr s = row_ptr s D" "0 \<le> CursorX s" "CursorX s < NumOfColumns s"
    "0 \<le> LR" "LR \<le> 1"
  shows "\<exists>b' k. EraseKanji LR (s\<lparr>CodeBuffW := b\<rparr>) = Some (s\<lparr>CodeBuffW := b'\<rparr>, k) \<and>
    becomes s D (ek_eff s (CursorX s - LR) l) b'"
proof -
  have e: "(s\<lparr>CodeBuffW := c\<rparr>)\<lparr>CursorX := CursorX s\<rparr> = s\<lparr>CodeBuffW := c\<rparr>" for c by simp
  show ?thesis using EraseKanji_line [OF assms] unfolding e .
qed

text \<open>Cells of the line after \<open>EraseKanji\<close>.\<close>

definition ek_cell :: "screen \<Rightarrow> int \<Rightarrow> (int \<Rightarrow> buff_char) \<Rightarrow> int \<Rightarrow> buff_char" where
  "ek_cell s p g x =
     (if 0 \<le> p \<and> (x = p \<or> x = p + 1) \<and> IsBuffFullWidth (g p) then cur_space s (g x) else g x)"

lemma ek_eff_cell:
  assumes "in_cols s x" "p < NumOfColumns s"
  shows "ek_eff s p (line s D) ! nat x = ek_cell s p (at s D) x"
proof (cases "0 \<le> p")
  case True
  then have p: "line s D ! nat p = at s D p" using nth_line [of s p D] assms(2) by (simp add: in_cols_def)
  have x: "line s D ! nat x = at s D x" "nat x < nat (NumOfColumns s)" "0 \<le> x"
    using nth_line [OF assms(1)] assms(1) by (auto simp: in_cols_def)
  consider "x = p" | "x = p + 1" | "x \<noteq> p" "x \<noteq> p + 1" by blast
  then show ?thesis
  proof cases
    case 1
    then have "nat (p + 1) \<noteq> nat p" "nat p < nat (NumOfColumns s)" using True x by auto
    then show ?thesis using 1 True p by (simp add: ek_eff_def ek_cell_def Let_def nth_list_update)
  next
    case 2
    then have "nat p \<noteq> nat (p + 1)" "nat (p + 1) < nat (NumOfColumns s)" "p + 1 < NumOfColumns s"
      using True x assms by (auto simp: in_cols_def)
    then show ?thesis using 2 True p x(1) by (simp add: ek_eff_def ek_cell_def Let_def nth_list_update)
  next
    case 3
    then have "nat p \<noteq> nat x" "nat (p + 1) \<noteq> nat x" using True x by auto
    then show ?thesis using 3 True p x(1) by (simp add: ek_eff_def ek_cell_def Let_def nth_list_update)
  qed
next
  case False
  then show ?thesis using nth_line [OF assms(1)] by (simp add: ek_eff_def ek_cell_def)
qed

text \<open>The loops over the following, and over the preceding, lines.\<close>

lemma erase_to_end_rows:
  assumes "geom_ok s" "0 \<le> c" "c \<le> NumOfColumns s" "B \<le> D" "D + int n \<le> B + NumOfLinesInBuff s"
  shows "\<exists>t. erase_to_end c (row_ptr s D) n s = Some t \<and> same_but_cells s t \<and>
    (\<forall>L x. B \<le> L \<longrightarrow> L < B + NumOfLinesInBuff s \<longrightarrow> in_cols s x \<longrightarrow> at t L x =
      (if D \<le> L \<and> L < D + int n \<and> (L = D \<longrightarrow> c \<le> x) then erased s else at s L x))"
  using assms
proof (induction n arbitrary: s c D)
  case 0
  then show ?case by auto
next
  case (Suc n)
  have cc: "0 \<le> NumOfColumns s - c" "c + (NumOfColumns s - c) \<le> NumOfColumns s" using Suc.prems by auto
  obtain t where t: "eraseS (row_ptr s D + c) (NumOfColumns s - c) s = Some t" "same_but_cells s t"
    and a: "\<And>L x. in_cols s x \<Longrightarrow> at t L x =
      (if (L - D) mod NumOfLinesInBuff s = 0 \<and> c \<le> x \<and> x < c + (NumOfColumns s - c)
       then erased s else at s L x)"
    using eraseS_line [OF Suc.prems(1,2) cc, of D] by blast
  note f = same_frame [OF t(2)]
  have g: "geom_ok t" using Suc.prems f by simp
  have nx: "NextLinePtr t (row_ptr s D) = row_ptr t (D + 1)"
    using NextLinePtr_row [OF g, of 0 D] g f by (simp add: geom_ok_def)
  have pre: "0 \<le> (0::int)" "0 \<le> NumOfColumns t" "B \<le> D + 1" "D + 1 + int n \<le> B + NumOfLinesInBuff t"
    using Suc.prems f by auto
  obtain u where u: "erase_to_end 0 (row_ptr t (D + 1)) n t = Some u" "same_but_cells t u"
    and au: "\<And>L x. B \<le> L \<Longrightarrow> L < B + NumOfLinesInBuff t \<Longrightarrow> in_cols t x \<Longrightarrow> at u L x =
      (if D + 1 \<le> L \<and> L < D + 1 + int n \<and> (L = D + 1 \<longrightarrow> 0 \<le> x) then erased t else at t L x)"
    using Suc.IH [OF g pre] by blast
  have "at u L x = (if D \<le> L \<and> L < D + int (Suc n) \<and> (L = D \<longrightarrow> c \<le> x) then erased s else at s L x)"
    if L: "B \<le> L" "L < B + NumOfLinesInBuff s" "in_cols s x" for L x
  proof -
    have w: "(L - D) mod NumOfLinesInBuff s = 0 \<longleftrightarrow> L = D"
      using window_mod [of B L "NumOfLinesInBuff s" D] L Suc.prems by auto
    have x: "0 \<le> x" "x < NumOfColumns s" using L(3) by (auto simp: in_cols_def)
    have "at u L x = (if D + 1 \<le> L \<and> L < D + 1 + int n \<and> (L = D + 1 \<longrightarrow> 0 \<le> x) then erased s else at t L x)"
      using au [of L x] L by (simp only: f)
    then show ?thesis using a [OF L(3), of L] w x by auto
  qed
  then show ?case using t(1) nx u same_trans [OF t(2) u(2)] by auto
qed

text \<open>Case split of the line being erased, against the first and the last line.\<close>

lemma erase_home_split:
  fixes D L x c N :: int and n :: nat
  assumes x: "0 \<le> x" "x < N" 
  shows "(if D + 1 \<le> L \<and> L < D + 1 + int n \<and> (L = D + 1 + int n - 1 \<longrightarrow> x \<le> c) then e else 
     (if L = D \<and> 0 \<le> x \<and> x < 0 + (if n = 0 then c + 1 else N) then e else g)) =
    (if D \<le> L \<and> L < D + int (Suc n) \<and> (L = D + int (Suc n) - 1 \<longrightarrow> x \<le> c) then e else g)"
proof -
  have 1: "(L = D + 1 + int n - 1) = (L = D + int (Suc n) - 1)" "(L < D + 1 + int n) = (L < D + int (Suc n))" by auto
  show ?thesis
  proof (cases "L = D")
    case True
    then show ?thesis using x by (cases "n = 0") auto
  next
    case False
    then have e: "(D + 1 \<le> L) = (D < L)" "(D \<le> L) = (D < L)" "(L = D) = False" by auto
    show ?thesis unfolding 1 e by (simp only: simp_thms if_False)
  qed
qed

lemma erase_from_home_rows:
  assumes "geom_ok s" "0 \<le> CursorX s" "CursorX s < NumOfColumns s" "B \<le> D"
    "D + int n \<le> B + NumOfLinesInBuff s"
  shows "\<exists>t. erase_from_home (row_ptr s D) n s = Some t \<and> same_but_cells s t \<and>
    (\<forall>L x. B \<le> L \<longrightarrow> L < B + NumOfLinesInBuff s \<longrightarrow> in_cols s x \<longrightarrow> at t L x =
      (if D \<le> L \<and> L < D + int n \<and> (L = D + int n - 1 \<longrightarrow> x \<le> CursorX s) then erased s else at s L x))"
  using assms
proof (induction n arbitrary: s D)
  case 0
  then show ?case by auto
next
  case (Suc n)
  let ?w = "if n = 0 then CursorX s + 1 else NumOfColumns s"
  have cc: "0 \<le> (0::int)" "0 \<le> ?w" "0 + ?w \<le> NumOfColumns s" using Suc.prems by auto
  obtain t where t: "eraseS (row_ptr s D + 0) ?w s = Some t" "same_but_cells s t"
    and a: "\<And>L x. in_cols s x \<Longrightarrow> at t L x =
      (if (L - D) mod NumOfLinesInBuff s = 0 \<and> 0 \<le> x \<and> x < 0 + ?w then erased s else at s L x)"
    using eraseS_line [OF Suc.prems(1) cc, of D] by blast
  note f = same_frame [OF t(2)] same_fields [OF t(2)]
  have g: "geom_ok t" using Suc.prems f by simp
  have nx: "NextLinePtr t (row_ptr s D) = row_ptr t (D + 1)"
    using NextLinePtr_row [OF g, of 0 D] g f by (simp add: geom_ok_def)
  have pre: "0 \<le> CursorX t" "CursorX t < NumOfColumns t" "B \<le> D + 1"
    "D + 1 + int n \<le> B + NumOfLinesInBuff t"
    using Suc.prems f by auto
  obtain u where u: "erase_from_home (row_ptr t (D + 1)) n t = Some u" "same_but_cells t u"
    and au: "\<And>L x. B \<le> L \<Longrightarrow> L < B + NumOfLinesInBuff t \<Longrightarrow> in_cols t x \<Longrightarrow> at u L x =
      (if D + 1 \<le> L \<and> L < D + 1 + int n \<and> (L = D + 1 + int n - 1 \<longrightarrow> x \<le> CursorX t) then erased t
       else at t L x)"
    using Suc.IH [OF g pre] by blast
  have "at u L x = (if D \<le> L \<and> L < D + int (Suc n) \<and> (L = D + int (Suc n) - 1 \<longrightarrow> x \<le> CursorX s)
      then erased s else at s L x)"
    if L: "B \<le> L" "L < B + NumOfLinesInBuff s" "in_cols s x" for L x
  proof -
    have w: "(L - D) mod NumOfLinesInBuff s = 0 \<longleftrightarrow> L = D"
      using window_mod [of B L "NumOfLinesInBuff s" D] L Suc.prems by auto
    have x: "0 \<le> x" "x < NumOfColumns s" using L(3) by (auto simp: in_cols_def)
    have e1: "at u L x = (if D + 1 \<le> L \<and> L < D + 1 + int n \<and>
        (L = D + 1 + int n - 1 \<longrightarrow> x \<le> CursorX s) then erased s else at t L x)"
      using au [of L x] L by (simp only: f)
    have e2: "at t L x = (if L = D \<and> 0 \<le> x \<and> x < 0 + ?w then erased s else at s L x)"
      unfolding a [OF L(3), of L] w ..
    show ?thesis unfolding e1 e2 by (rule erase_home_split [OF x])
  qed
  then show ?case using t(1) nx u same_trans [OF t(2) u(2)] by auto
qed

lemma EraseKanji_cells:
  assumes "screen_ok s" "0 \<le> LR" "LR \<le> 1"
  shows "\<exists>t k. EraseKanji LR s = Some (t, k) \<and> same_but_cells s t \<and>
    ring_cells s t (\<lambda>L x. if L = cursor_line s then ek_cell s (CursorX s - LR) (at s L) x else at s L x)"
proof -
  note st = lineptr_start [OF assms(1)]
  let ?D = "cursor_line s"
  have c: "0 \<le> CursorX s" "CursorX s < NumOfColumns s" using st(5) by (auto simp: in_cols_def)
  obtain b k where b: "EraseKanji LR s = Some (s\<lparr>CodeBuffW := b\<rparr>, k)"
    "becomes s ?D (ek_eff s (CursorX s - LR) (line s ?D)) b"
    using EraseKanji_line_here [OF becomes_start [OF st(2)] st(1) c assms(2,3)] by auto
  have "(L - ?D) mod NumOfLinesInBuff s = 0 \<longleftrightarrow> L = ?D" if "0 \<le> L" "L < NumOfLinesInBuff s" for L
    using window_mod [of 0 L "NumOfLinesInBuff s" ?D] that cursor_line_range [OF assms(1)] by simp
  moreover have "ek_eff s (CursorX s - LR) (line s ?D) ! nat x = ek_cell s (CursorX s - LR) (at s ?D) x"
    if "in_cols s x" for x
    using ek_eff_cell [OF that, of "CursorX s - LR" ?D] c assms(2) by simp
  ultimately have "ring_cells s (s\<lparr>CodeBuffW := b\<rparr>)
    (\<lambda>L x. if L = ?D then ek_cell s (CursorX s - LR) (at s L) x else at s L x)"
    by (auto intro!: ring_cellsI simp: becomes_cells [OF b(2)])
  then show ?thesis using b becomesD(5) [OF b(2)] by blast
qed

lemma NewLine_here: "screen_ok s \<Longrightarrow> NewLine (PageStart s + CursorY s) s = Some s"
  using NewLine_same [OF becomes_start [of s "cursor_line s"]] lineptr_start [of s] by fastforce

lemma same_last_line:
  assumes "same_but_cells s t"
  shows "last_line t = last_line s" "home_line t = home_line s"
  using same_fields [OF assms] same_frame [OF assms]
  by (simp_all add: last_line_def home_line_def isCursorOnStatusLine_def)

text \<open>
  ED 0: the cursor's cell, what follows it in its line and the following lines, up to but
  without the status line, are erased; when the cursor is on the right half of a wide
  character its left half becomes a space; every other cell of the ring keeps its value.
\<close>

theorem BuffEraseCurToEnd_cells:
  assumes "screen_ok s"
  shows "\<exists>t. BuffEraseCurToEnd s = Some t \<and> screen_ok t \<and>
    ring_cells s t (\<lambda>L x. if L = cursor_line s \<and> CursorX s \<le> x \<or>
        cursor_line s < L \<and> L \<le> PageStart s + last_line s then erased s
      else if L = cursor_line s then ek_cell s (CursorX s - 1) (at s L) x else at s L x)"
proof -
  note st = lineptr_start [OF assms]
  let ?D = "cursor_line s" and ?n = "nat (last_line s - CursorY s + 1)"
  obtain t k where t: "EraseKanji 1 s = Some (t, k)" "same_but_cells s t" and
    c: "ring_cells s t (\<lambda>L x. if L = ?D then ek_cell s (CursorX s - 1) (at s L) x else at s L x)"
    using EraseKanji_cells [OF assms, of 1] by auto
  note f = same_frame [OF t(2)] same_fields [OF t(2)] same_last_line [OF t(2)]
  have g: "geom_ok t" "0 \<le> CursorX t" "CursorX t \<le> NumOfColumns t" "(0::int) \<le> ?D"
    using st f by (auto simp: in_cols_def cursor_line_def)
  have n: "?D + int ?n = PageStart s + last_line s + 1" "?D + int ?n \<le> 0 + NumOfLinesInBuff t"
    using assms f by (auto simp: cursor_line_def last_line_def isCursorOnStatusLine_def screen_ok_def
        page_ok_def cursor_ok_def)
  have d: "?D \<le> PageStart s + last_line s"
    using assms by (auto simp: cursor_line_def last_line_def isCursorOnStatusLine_def screen_ok_def
        cursor_ok_def)
  obtain u where u: "erase_to_end (CursorX t) (row_ptr t ?D) ?n t = Some u" "same_but_cells t u"
    and a: "\<And>L x. 0 \<le> L \<Longrightarrow> L < 0 + NumOfLinesInBuff t \<Longrightarrow> in_cols t x \<Longrightarrow> at u L x =
      (if ?D \<le> L \<and> L < ?D + int ?n \<and> (L = ?D \<longrightarrow> CursorX t \<le> x) then erased t else at t L x)"
    using erase_to_end_rows [OF g n(2)] by blast
  have "BuffEraseCurToEnd s = Some u"
    using u(1) t(1) NewLine_here [OF assms] g(1) g(4) f
    by (simp add: BuffEraseCurToEnd_def cursor_line_def)
  moreover have "ring_cells s u (\<lambda>L x. if L = ?D \<and> CursorX s \<le> x \<or>
        ?D < L \<and> L \<le> PageStart s + last_line s then erased s
      else if L = ?D then ek_cell s (CursorX s - 1) (at s L) x else at s L x)"
  proof (rule ring_cellsI)
    fix L x assume L: "0 \<le> L" "L < NumOfLinesInBuff s" "in_cols s x"
    have e: "at u L x = (if ?D \<le> L \<and> L < ?D + int ?n \<and> (L = ?D \<longrightarrow> CursorX s \<le> x) then erased s else at t L x)"
      using a [of L x] L by (simp only: f add_0)
    show "at u L x = (if L = ?D \<and> CursorX s \<le> x \<or> ?D < L \<and> L \<le> PageStart s + last_line s then erased s
      else if L = ?D then ek_cell s (CursorX s - 1) (at s L) x else at s L x)"
      using c L n(1) d unfolding e by (auto simp: ring_cells_def)
  qed
  moreover have "screen_ok u" using same_but_cells_ok(4) [OF t(2)] same_but_cells_ok(4) [OF u(2)] assms by simp
  ultimately show ?thesis by blast
qed

lemma BuffEraseCurToEnd_witness:
  "\<exists>t. BuffEraseCurToEnd sample_screen = Some t \<and> screen_ok t"
  using BuffEraseCurToEnd_cells [of sample_screen] by auto

text \<open>
  ED 1: the lines from the top of the page (or the status line alone, when the cursor is
  on it), and the cursor's line up to the cursor, are erased; when the cursor is on the left
  half of a wide character its right half becomes a space; every other cell keeps its value.
\<close>

theorem BuffEraseHomeToCur_cells:
  assumes "screen_ok s"
  shows "\<exists>t. BuffEraseHomeToCur s = Some t \<and> screen_ok t \<and>
    ring_cells s t (\<lambda>L x. if L = cursor_line s \<and> x \<le> CursorX s \<or>
        PageStart s + home_line s \<le> L \<and> L < cursor_line s then erased s
      else if L = cursor_line s then ek_cell s (CursorX s) (at s L) x else at s L x)"
proof -
  note st = lineptr_start [OF assms]
  let ?D = "cursor_line s" and ?H = "PageStart s + home_line s" and ?n = "nat (CursorY s - home_line s + 1)"
  obtain t k where t: "EraseKanji 0 s = Some (t, k)" "same_but_cells s t" and
    c: "ring_cells s t (\<lambda>L x. if L = ?D then ek_cell s (CursorX s) (at s L) x else at s L x)"
    using EraseKanji_cells [OF assms, of 0, unfolded diff_0_right] by auto
  note f = same_frame [OF t(2)] same_fields [OF t(2)] same_last_line [OF t(2)]
  have g: "geom_ok t" "0 \<le> CursorX t" "CursorX t < NumOfColumns t" "(0::int) \<le> ?H"
    using st f assms by (auto simp: in_cols_def home_line_def screen_ok_def page_ok_def cursor_ok_def)
  have n: "?H + int ?n = ?D + 1" "?H + int ?n \<le> 0 + NumOfLinesInBuff t" "?H \<le> ?D"
    using assms f by (auto simp: cursor_line_def home_line_def isCursorOnStatusLine_def screen_ok_def
        page_ok_def cursor_ok_def)
  obtain u where u: "erase_from_home (row_ptr t ?H) ?n t = Some u" "same_but_cells t u"
    and a: "\<And>L x. 0 \<le> L \<Longrightarrow> L < 0 + NumOfLinesInBuff t \<Longrightarrow> in_cols t x \<Longrightarrow> at u L x =
      (if ?H \<le> L \<and> L < ?H + int ?n \<and> (L = ?H + int ?n - 1 \<longrightarrow> x \<le> CursorX t) then erased t
       else at t L x)"
    using erase_from_home_rows [OF g n(2)] by blast
  have "BuffEraseHomeToCur s = Some u"
    using u(1) t(1) NewLine_here [OF assms] g(1) g(4) f by (simp add: BuffEraseHomeToCur_def)
  moreover have "ring_cells s u (\<lambda>L x. if L = ?D \<and> x \<le> CursorX s \<or> ?H \<le> L \<and> L < ?D then erased s
      else if L = ?D then ek_cell s (CursorX s) (at s L) x else at s L x)"
  proof (rule ring_cellsI)
    fix L x assume L: "0 \<le> L" "L < NumOfLinesInBuff s" "in_cols s x"
    have e: "at u L x = (if ?H \<le> L \<and> L < ?D + 1 \<and> (L = ?D + 1 - 1 \<longrightarrow> x \<le> CursorX s) then erased s
        else at t L x)"
      using a [of L x] L by (simp only: f add_0 n(1))
    have e2: "at t L x = (if L = ?D then ek_cell s (CursorX s) (at s L) x else at s L x)"
      using c L by (simp add: ring_cells_def)
    show "at u L x = (if L = ?D \<and> x \<le> CursorX s \<or> ?H \<le> L \<and> L < ?D then erased s
      else if L = ?D then ek_cell s (CursorX s) (at s L) x else at s L x)"
      unfolding e e2 using n(3) by auto
  qed
  moreover have "screen_ok u" using same_but_cells_ok(4) [OF t(2)] same_but_cells_ok(4) [OF u(2)] assms by simp
  ultimately show ?thesis by blast
qed

lemma BuffEraseHomeToCur_witness:
  "\<exists>t. BuffEraseHomeToCur sample_screen = Some t \<and> screen_ok t"
  using BuffEraseHomeToCur_cells [of sample_screen] by auto

end
