(* ===== verification/TabStop.thy ===== *)
theory TabStop
  imports ScreenScroll
begin

section \<open>Tab stops (teraterm/teraterm/buffer.c)\<close>

text \<open>
  The array \<open>TabStops\<close> of 256 words, of which the first \<open>NTabStops\<close> are in use, with the
  functions that set and clear a stop and those that move the cursor to a stop. The array is
  read before the index is tested, as in the code, so \<open>None\<close> is a read or a write outside it.

  The abstract value is the sorted list \<open>stops\<close>; every operation is described on it.
\<close>

subsection \<open>The operations\<close>

text \<open>\<open>while ((TabStops[i] < CursorX) && (i < NTabStops)) i++;\<close>\<close>

function stop_below :: "int list \<Rightarrow> int \<Rightarrow> int \<Rightarrow> int \<Rightarrow> int option" where
  "stop_below T n X i =
     do { t \<leftarrow> rd T i; if t < X \<and> i < n then stop_below T n X (i + 1) else Some i }"
  by pat_completeness auto
termination by (relation "measure (\<lambda>(T, n, X, i). nat (n - i))") auto

declare stop_below.simps [simp del]

definition SetTabStop :: "screen \<Rightarrow> screen option" where
  "SetTabStop s =
     (if NTabStops s < NumOfColumns s
      then do {
        i \<leftarrow> stop_below (TabStops s) (NTabStops s) (CursorX s) 0;
        present \<leftarrow> (if i < NTabStops s then do { t \<leftarrow> rd (TabStops s) i; Some (t = CursorX s) }
                    else Some False);
        if present then Some s
        else do {
          T \<leftarrow> copy_bwd (TabStops s) (NTabStops s) (NTabStops s - 1) (nat (NTabStops s - i));
          T \<leftarrow> wr T i (CursorX s mod 65536);
          Some (s\<lparr>TabStops := T, NTabStops := NTabStops s + 1\<rparr>)
        }
      }
      else Some s)"

text \<open>\<open>for (i = 0; i < NTabStops && TabStops[i] <= CursorX; i++);\<close> and the same with \<open><\<close>.\<close>

function skip_stops :: "(int \<Rightarrow> bool) \<Rightarrow> int list \<Rightarrow> int \<Rightarrow> int \<Rightarrow> int option" where
  "skip_stops Q T n i =
     (if i < n then do { t \<leftarrow> rd T i; if Q t then skip_stops Q T n (i + 1) else Some i } else Some i)"
  by pat_completeness auto
termination by (relation "measure (\<lambda>(Q, T, n, i). nat (n - i))") auto

declare skip_stops.simps [simp del]

definition tab_line_end :: "screen \<Rightarrow> int" where
  "tab_line_end s =
     (if CursorX s > CursorRightM s \<or> CursorY s < CursorTop s \<or> CursorY s > CursorBottom s
      then NumOfColumns s - 1 else CursorRightM s)"

definition CursorForwardTab :: "int \<Rightarrow> bool \<Rightarrow> screen \<Rightarrow> screen option" where
  "CursorForwardTab count AutoWrapMode s =
     do {
       let WrapState = Wrap s;
       let LineEnd = tab_line_end s;
       i \<leftarrow> skip_stops (\<lambda>t. t \<le> CursorX s) (TabStops s) (NTabStops s) 0;
       let i = i + (count - 1);
       reach \<leftarrow> (if i < NTabStops s then do { t \<leftarrow> rd (TabStops s) i; Some (t \<le> LineEnd) }
                 else Some False);
       if reach then do { t \<leftarrow> rd (TabStops s) i; MoveCursor t (CursorY s) s }
       else do {
         s \<leftarrow> MoveCursor LineEnd (CursorY s) s;
         Some (s\<lparr>Wrap := (if \<not> VTCompatTab (ts s) then AutoWrapMode else WrapState)\<rparr>)
       }
     }"

definition tab_line_start :: "screen \<Rightarrow> int" where
  "tab_line_start s =
     (if CursorX s < CursorLeftM s \<or> CursorY s < CursorTop s \<or> CursorY s > CursorBottom s
      then 0 else CursorLeftM s)"

definition CursorBackwardTab :: "int \<Rightarrow> screen \<Rightarrow> screen option" where
  "CursorBackwardTab count s =
     do {
       let LineStart = tab_line_start s;
       i \<leftarrow> skip_stops (\<lambda>t. t < CursorX s) (TabStops s) (NTabStops s) 0;
       stay \<leftarrow> (if i < count then Some True
                else do { t \<leftarrow> rd (TabStops s) (i - count); Some (t < LineStart) });
       if stay then MoveCursor LineStart (CursorY s) s
       else do { t \<leftarrow> rd (TabStops s) (i - count); MoveCursor t (CursorY s) s }
     }"

definition TABF_TBC0 :: u16 where "TABF_TBC0 = 4"
definition TABF_TBC3 :: u16 where "TABF_TBC3 = 8"

text \<open>\<open>while ((TabStops[i] != CursorX) && (i < NTabStops-1)) i++;\<close>\<close>

function stop_at :: "int list \<Rightarrow> int \<Rightarrow> int \<Rightarrow> int \<Rightarrow> int option" where
  "stop_at T n X i =
     do { t \<leftarrow> rd T i; if t \<noteq> X \<and> i < n - 1 then stop_at T n X (i + 1) else Some i }"
  by pat_completeness auto
termination by (relation "measure (\<lambda>(T, n, X, i). nat (n - i))") auto

declare stop_at.simps [simp del]

definition ClearTabStop :: "int \<Rightarrow> screen \<Rightarrow> screen option" where
  "ClearTabStop Ps s =
     (if NTabStops s > 0
      then if Ps = 0
        then if TabStopFlag (ts s) AND TABF_TBC0 \<noteq> 0
          then do {
            i \<leftarrow> stop_at (TabStops s) (NTabStops s) (CursorX s) 0;
            t \<leftarrow> rd (TabStops s) i;
            if t = CursorX s
            then do {
              let n = NTabStops s - 1;
              T \<leftarrow> copy_fwd (TabStops s) i (i + 1) (nat (n - i + 1));
              Some (s\<lparr>TabStops := T, NTabStops := n\<rparr>)
            }
            else Some s
          }
          else Some s
        else if Ps = 3
        then Some (if TabStopFlag (ts s) AND TABF_TBC3 \<noteq> 0 then s\<lparr>NTabStops := 0\<rparr> else s)
        else Some s
      else Some s)"

text \<open>The initial stops, every eight columns (in \<open>BuffReset\<close> and after a resize).\<close>

fun default_stops :: "int list \<Rightarrow> int \<Rightarrow> nat \<Rightarrow> int list option" where
  "default_stops T i 0 = Some T"
| "default_stops T i (Suc k) = do { T \<leftarrow> wr T (i - 1) ((i * 8) mod 65536); default_stops T (i + 1) k }"

definition reset_stops :: "screen \<Rightarrow> screen option" where
  "reset_stops s =
     do {
       let n = (NumOfColumns s - 1) div 8;
       T \<leftarrow> default_stops (TabStops s) 1 (nat n);
       Some (s\<lparr>NTabStops := n, TabStops := T\<rparr>)
     }"

subsection \<open>The abstract list of stops\<close>

definition stops :: "screen \<Rightarrow> int list" where
  "stops s = take (nat (NTabStops s)) (TabStops s)"

text \<open>
  The invariant: the array has its 256 elements, the stops in use are strictly increasing
  columns.
\<close>

definition tabs_ok :: "screen \<Rightarrow> bool" where
  "tabs_ok s \<longleftrightarrow> length (TabStops s) = 256 \<and> 0 \<le> NTabStops s \<and> NTabStops s \<le> 256 \<and>
     sorted (stops s) \<and> distinct (stops s) \<and> (\<forall>t \<in> set (stops s). 0 \<le> t \<and> t < 65536)"

subsection \<open>The loops\<close>

lemma drop_take_step:
  assumes "0 \<le> i" "i < n" "n \<le> int (length T)"
  shows "drop (nat i) (take (nat n) T) = T ! nat i # drop (nat (i + 1)) (take (nat n) T)"
proof -
  have "nat i < length (take (nat n) T)" "Suc (nat i) = nat (i + 1)" using assms by auto
  then show ?thesis using Cons_nth_drop_Suc [of "nat i" "take (nat n) T"] assms by simp
qed

lemma skip_stops_eq:
  assumes "0 \<le> i" "i \<le> n" "n \<le> int (length T)"
  shows "skip_stops Q T n i = Some (i + int (length (takeWhile Q (drop (nat i) (take (nat n) T)))))"
  using assms
proof (induction Q T n i rule: skip_stops.induct)
  case (1 Q T n i)
  show ?case
  proof (cases "i < n")
    case True
    then have "rd T i = Some (T ! nat i)" using 1(2,4) by (simp add: rd_def in_arr_def)
    then show ?thesis
      using 1 True drop_take_step [OF 1(2) True 1(4)] by (subst skip_stops.simps) simp
  next
    case False
    then show ?thesis using 1 by (subst skip_stops.simps) simp
  qed
qed

lemma stop_below_skip:
  assumes "0 \<le> i" "i \<le> n" "n < int (length T)"
  shows "stop_below T n X i = skip_stops (\<lambda>t. t < X) T n i"
  using assms
proof (induction T n X i rule: stop_below.induct)
  case (1 T n X i)
  then have "rd T i = Some (T ! nat i)" by (simp add: rd_def in_arr_def)
  then show ?case using 1 by (subst stop_below.simps, subst skip_stops.simps) auto
qed

lemma stop_at_eq:
  assumes "0 \<le> i" "i < n" "n \<le> int (length T)"
  shows "stop_at T n X i =
    Some (min (n - 1) (i + int (length (takeWhile (\<lambda>t. t \<noteq> X) (drop (nat i) (take (nat n) T))))))"
  using assms
proof (induction T n X i rule: stop_at.induct)
  case (1 T n X i)
  then have r: "rd T i = Some (T ! nat i)" by (simp add: rd_def in_arr_def)
  note d = drop_take_step [OF 1(2-4)]
  show ?case
  proof (cases "i < n - 1")
    case True
    then show ?thesis using 1 r d by (subst stop_at.simps) (auto simp: min_def)
  next
    case False
    then have "i = n - 1" using 1(3) by simp
    then show ?thesis using r d by (subst stop_at.simps) simp
  qed
qed

subsection \<open>Sorted lists\<close>

lemma insort_split:
  "sorted (xs :: int list) \<Longrightarrow>
    insort x xs = takeWhile (\<lambda>t. t < x) xs @ x # dropWhile (\<lambda>t. t < x) xs"
  by (induction xs) auto

lemma sorted_dropWhile_filter:
  "sorted (xs :: int list) \<Longrightarrow> dropWhile (\<lambda>t. t \<le> x) xs = filter (\<lambda>t. x < t) xs"
  by (induction xs) (auto intro!: filter_True [symmetric])

lemma sorted_takeWhile_filter:
  "sorted (xs :: int list) \<Longrightarrow> takeWhile (\<lambda>t. t < x) xs = filter (\<lambda>t. t < x) xs"
  by (induction xs) (auto intro!: filter_False [symmetric])

lemma sorted_mem_dropWhile:
  "sorted (xs :: int list) \<Longrightarrow>
    x \<in> set xs \<longleftrightarrow> dropWhile (\<lambda>t. t < x) xs \<noteq> [] \<and> hd (dropWhile (\<lambda>t. t < x) xs) = x"
  by (induction xs) auto

lemma remove1_split:
  "x \<in> set xs \<Longrightarrow> remove1 x xs =
    takeWhile (\<lambda>t. t \<noteq> x) xs @ tl (dropWhile (\<lambda>t. t \<noteq> x) xs)"
  by (induction xs) auto

lemma nth_dropWhile:
  "xs ! (length (takeWhile Q xs) + k) = dropWhile Q xs ! k"
  if "length (takeWhile Q xs) + k < length xs"
  using that by (induction xs) (auto split: if_splits)

subsection \<open>Inserting and removing a stop in the array\<close>

lemma blit_insert:
  assumes "0 \<le> k" "k \<le> n" "n < int (length T)"
  shows "take (nat (n + 1)) ((blit T (k + 1) k (n - k))[nat k := X])
    = take (nat k) (take (nat n) T) @ X # drop (nat k) (take (nat n) T)"
proof -
  define kk where "kk = nat k"
  define nn where "nn = nat n"
  have e: "k = int kk" "n = int nn" using assms by (simp_all add: kk_def nn_def)
  have c: "kk \<le> nn" "nn < length T" using assms e by auto
  have n1: "nat (n + 1) = Suc nn" "nat k = kk" "nat n = nn" using e by auto
  show ?thesis unfolding n1
  proof (rule nth_equalityI)
    show "length (take (Suc nn) ((blit T (k + 1) k (n - k))[kk := X]))
      = length (take kk (take nn T) @ X # drop kk (take nn T))" using c by simp
    fix i assume "i < length (take (Suc nn) ((blit T (k + 1) k (n - k))[kk := X]))"
    then have i: "i < length T" "i < Suc nn" using c by auto
    have b: "blit T (k + 1) k (n - k) ! i = (if kk < i then T ! (i - 1) else T ! i)"
      using nth_blit [of T "int i" "k + 1" k "n - k"] i e by (auto simp: in_arr_def nat_diff_distrib')
    have l: "take (Suc nn) ((blit T (k + 1) k (n - k))[kk := X]) ! i
        = (if i = kk then X else if kk < i then T ! (i - 1) else T ! i)"
      using i c b by (simp add: nth_list_update)
    consider "i < kk" | "i = kk" | j where "i = Suc (kk + j)" using less_iff_Suc_add nat_neq_iff by metis
    then show "take (Suc nn) ((blit T (k + 1) k (n - k))[kk := X]) ! i
        = (take kk (take nn T) @ X # drop kk (take nn T)) ! i"
      unfolding l using c i by cases (auto simp: nth_append)
  qed
qed

lemma blit_remove:
  assumes "0 \<le> k" "k < n" "n < int (length T)"
  shows "take (nat (n - 1)) (blit T k (k + 1) (n - k))
    = take (nat k) (take (nat n) T) @ drop (Suc (nat k)) (take (nat n) T)"
proof -
  define kk where "kk = nat k"
  define nn where "nn = nat n"
  have e: "k = int kk" "n = int nn" using assms by (simp_all add: kk_def nn_def)
  have c: "kk < nn" "nn < length T" using assms e by auto
  have n1: "nat (n - 1) = nn - 1" "nat k = kk" "nat n = nn" using e by auto
  show ?thesis unfolding n1
  proof (rule nth_equalityI)
    show "length (take (nn - 1) (blit T k (k + 1) (n - k)))
      = length (take kk (take nn T) @ drop (Suc kk) (take nn T))" using c by simp
    fix i assume "i < length (take (nn - 1) (blit T k (k + 1) (n - k)))"
    then have i: "i < length T" "i < nn - 1" using c by auto
    have b: "take (nn - 1) (blit T k (k + 1) (n - k)) ! i = (if kk \<le> i then T ! (i + 1) else T ! i)"
      using nth_blit [of T "int i" k "k + 1" "n - k"] i e by (auto simp: in_arr_def nat_add_distrib)
    show "take (nn - 1) (blit T k (k + 1) (n - k)) ! i
        = (take kk (take nn T) @ drop (Suc kk) (take nn T)) ! i"
      unfolding b using c i by (auto simp: nth_append)
  qed
qed

subsection \<open>Setting a stop\<close>

lemma stops_split:
  assumes "tabs_ok s"
  shows "length (stops s) = nat (NTabStops s)" "sorted (stops s)" "distinct (stops s)"
    "0 \<le> NTabStops s" "NTabStops s \<le> int (length (TabStops s))"
  using assms by (auto simp: tabs_ok_def stops_def)

text \<open>Where the scan of \<open>SetTabStop\<close> stops, and what it finds there.\<close>

lemma tab_scan:
  assumes "tabs_ok s" "NTabStops s < 256"
  defines "k \<equiv> int (length (takeWhile (\<lambda>t. t < CursorX s) (stops s)))"
  shows "0 \<le> k" "k \<le> NTabStops s" "stop_below (TabStops s) (NTabStops s) (CursorX s) 0 = Some k"
    "(if k < NTabStops s then do { t \<leftarrow> rd (TabStops s) k; Some (t = CursorX s) } else Some False) =
      Some (CursorX s \<in> set (stops s))"
proof -
  let ?T = "TabStops s" and ?n = "NTabStops s" and ?X = "CursorX s" and ?st = "stops s"
  note st = stops_split [OF assms(1)]
  have len: "length ?T = 256" using assms(1) by (simp add: tabs_ok_def)
  show k: "0 \<le> k" "k \<le> NTabStops s"
    unfolding k_def using st(1,4) length_takeWhile_le [of "\<lambda>t. t < ?X" ?st] by auto
  show "stop_below ?T ?n ?X 0 = Some k"
    using stop_below_skip [of 0 ?n ?T ?X] skip_stops_eq [of 0 ?n ?T] st(4) assms(2) len
    by (simp add: stops_def k_def)
  have rdk: "rd ?T k = Some (?T ! nat k)" using k assms(2) len by (simp add: rd_def in_arr_def)
  have nth: "?T ! nat k = hd (dropWhile (\<lambda>t. t < ?X) ?st)" if "k < ?n"
  proof -
    have "?T ! nat k = ?st ! length (takeWhile (\<lambda>t. t < ?X) ?st)"
      using that by (simp add: stops_def k_def)
    also have "\<dots> = hd (dropWhile (\<lambda>t. t < ?X) ?st)"
      using that st(1) hd_drop_conv_nth [of "length (takeWhile (\<lambda>t. t < ?X) ?st)" ?st]
      by (simp add: dropWhile_eq_drop k_def)
    finally show ?thesis .
  qed
  have ne: "k < ?n \<longleftrightarrow> dropWhile (\<lambda>t. t < ?X) ?st \<noteq> []"
    using st(1,4) k by (auto simp: dropWhile_eq_drop k_def)
  show "(if k < ?n then do { t \<leftarrow> rd ?T k; Some (t = ?X) } else Some False) = Some (?X \<in> set ?st)"
    using rdk nth ne sorted_mem_dropWhile [OF st(2), of ?X] by auto
qed

text \<open>
  C7. HTS: the column of the cursor is inserted into the sorted list of stops, unless it is
  there already; the invariant is kept, no other variable changes and the array is not overrun.
\<close>

theorem SetTabStop_inserts:
  assumes "tabs_ok s" "NTabStops s < 256" "NTabStops s < NumOfColumns s" "0 \<le> CursorX s" "CursorX s < 65536"
  shows "\<exists>T n. SetTabStop s = Some (s\<lparr>TabStops := T, NTabStops := n\<rparr>) \<and>
    tabs_ok (s\<lparr>TabStops := T, NTabStops := n\<rparr>) \<and>
    stops (s\<lparr>TabStops := T, NTabStops := n\<rparr>) = insort_insert (CursorX s) (stops s)"
proof -
  let ?T = "TabStops s" and ?n = "NTabStops s" and ?X = "CursorX s" and ?st = "stops s"
  let ?k = "int (length (takeWhile (\<lambda>t. t < ?X) ?st))"
  note st = stops_split [OF assms(1)]
  have len: "length ?T = 256" using assms(1) by (simp add: tabs_ok_def)
  note k = tab_scan(1,2) [OF assms(1,2)] and below = tab_scan(3) [OF assms(1,2)]
    and pres = tab_scan(4) [OF assms(1,2)]
  show ?thesis
  proof (cases "?X \<in> set ?st")
    case True
    then have "SetTabStop s = Some s"
      using below pres assms(3) by (simp add: SetTabStop_def)
    then show ?thesis using True assms(1)
      by (intro exI [of _ ?T] exI [of _ ?n]) (simp add: insort_insert_key_def)
  next
    case False
    let ?B = "blit ?T (?k + 1) ?k (?n - ?k)"
    have "copy_bwd ?T ?n (?n - 1) (nat (?n - ?k)) = Some ?B"
      using copy_bwd_blit [of "?n - 1" "nat (?n - ?k)" ?n ?T] k assms(2) len by simp
    moreover have "wr ?B ?k (?X mod 65536) = Some (?B[nat ?k := ?X])"
      using k assms len by (simp add: wr_def in_arr_def)
    ultimately have run: "SetTabStop s = Some (s\<lparr>TabStops := ?B[nat ?k := ?X], NTabStops := ?n + 1\<rparr>)"
      using below pres assms(3) False by (simp add: SetTabStop_def)
    let ?s = "s\<lparr>TabStops := ?B[nat ?k := ?X], NTabStops := ?n + 1\<rparr>"
    have "stops ?s = take (nat ?k) ?st @ ?X # drop (nat ?k) ?st"
      using blit_insert [OF k, of ?T ?X] assms(2) len by (simp add: stops_def)
    also have "\<dots> = insort ?X ?st"
      using insort_split [OF st(2), of ?X] by (simp add: takeWhile_eq_take [symmetric] dropWhile_eq_drop)
    finally have ins: "stops ?s = insort ?X ?st" .
    moreover have "tabs_ok ?s"
      unfolding tabs_ok_def ins using assms st False len
      by (auto simp: tabs_ok_def sorted_insort distinct_insort set_insort_key)
    ultimately show ?thesis using run False
      by (intro exI [of _ "?B[nat ?k := ?X]"] exI [of _ "?n + 1"]) (simp add: insort_insert_key_def)
  qed
qed

lemma sample_tabs_ok [simp]: "tabs_ok sample_screen" "stops sample_screen = []"
  by (simp_all add: tabs_ok_def stops_def sample_screen_def)

lemma sample_tabs [simp]:
  "NTabStops sample_screen = 0" "TabStopFlag (ts sample_screen) AND TABF_TBC0 \<noteq> 0"
  by (simp_all add: sample_screen_def sample_tset_def TABF_TBC0_def)

lemma SetTabStop_witness:
  "\<exists>T n. SetTabStop sample_screen = Some (sample_screen\<lparr>TabStops := T, NTabStops := n\<rparr>) \<and>
    stops (sample_screen\<lparr>TabStops := T, NTabStops := n\<rparr>) = [1]"
  using SetTabStop_inserts [of sample_screen] by (auto simp: insort_insert_key_def)

text \<open>
  With all 256 elements of \<open>TabStops\<close> in use and more columns than that, setting a stop
  behind the last one accesses the array outside its bounds.
\<close>

theorem SetTabStop_overflow:
  assumes "tabs_ok s" "NTabStops s = 256" "256 < NumOfColumns s" "\<forall>t \<in> set (stops s). t < CursorX s"
  shows "SetTabStop s = None"
proof -
  have len: "length (TabStops s) = 256" using assms(1) by (simp add: tabs_ok_def)
  have st: "stops s = TabStops s" using assms(2) len by (simp add: stops_def)
  have "stop_below (TabStops s) 256 (CursorX s) i = None" if "0 \<le> i" "i \<le> 256" for i
    using that
  proof (induction "nat (256 - i)" arbitrary: i)
    case 0
    then show ?case using len by (subst stop_below.simps) (simp add: rd_def in_arr_def)
  next
    case (Suc d)
    then have i: "i < 256" "d = nat (256 - (i + 1))" by auto
    then have "TabStops s ! nat i \<in> set (stops s)" using st len Suc.prems by simp
    then have "rd (TabStops s) i = Some (TabStops s ! nat i)" "TabStops s ! nat i < CursorX s"
      using assms(4) len i Suc.prems by (auto simp: rd_def in_arr_def)
    then show ?case using Suc.hyps(1) [OF i(2)] i Suc.prems by (subst stop_below.simps) simp
  qed
  then show ?thesis using assms(2,3) by (simp add: SetTabStop_def)
qed

text \<open>The sample with 300 columns, all 256 stops in use and the cursor behind the last.\<close>

definition full_tabs :: screen where
  "full_tabs = sample_screen\<lparr>NumOfColumns := 300, CursorX := 280, NTabStops := 256,
     TabStops := map int [0..<256]\<rparr>"

lemma full_tabs_fields: "NumOfColumns full_tabs = 300" "CursorX full_tabs = 280"
  "NTabStops full_tabs = 256" "TabStops full_tabs = map int [0..<256]"
  by (simp_all add: full_tabs_def)

lemma SetTabStop_overflow_witness: "SetTabStop full_tabs = None"
proof (rule SetTabStop_overflow)
  have st: "stops full_tabs = map int [0..<256]" by (simp add: stops_def full_tabs_fields)
  then show "tabs_ok full_tabs"
    by (simp add: tabs_ok_def full_tabs_fields sorted_map sorted_wrt_iff_nth_less distinct_map)
  show "\<forall>t \<in> set (stops full_tabs). t < CursorX full_tabs"
    unfolding st full_tabs_fields by auto
qed (simp_all add: full_tabs_fields)

subsection \<open>Clearing stops\<close>

text \<open>
  TBC 0: the stop at the cursor's column, if there is one, is removed from the list; the
  invariant is kept and no other variable changes.
\<close>

theorem ClearTabStop_removes:
  assumes "tabs_ok s" "NTabStops s < 256" "TabStopFlag (ts s) AND TABF_TBC0 \<noteq> 0"
  shows "\<exists>T n. ClearTabStop 0 s = Some (s\<lparr>TabStops := T, NTabStops := n\<rparr>) \<and>
    tabs_ok (s\<lparr>TabStops := T, NTabStops := n\<rparr>) \<and>
    stops (s\<lparr>TabStops := T, NTabStops := n\<rparr>) = remove1 (CursorX s) (stops s)"
proof (cases "NTabStops s > 0")
  case False
  then have "NTabStops s = 0" "ClearTabStop 0 s = Some s" "stops s = []"
    using assms(1) by (auto simp: tabs_ok_def ClearTabStop_def stops_def)
  then show ?thesis using assms(1)
    by (intro exI [of _ "TabStops s"] exI [of _ "NTabStops s"]) (simp add: tabs_ok_def stops_def)
next
  case pos: True
  let ?T = "TabStops s" and ?n = "NTabStops s" and ?X = "CursorX s" and ?st = "stops s"
  let ?k = "int (length (takeWhile (\<lambda>t. t \<noteq> ?X) ?st))" and ?i = "min (?n - 1) (int (length (takeWhile (\<lambda>t. t \<noteq> ?X) ?st)))"
  note st = stops_split [OF assms(1)]
  have len: "length ?T = 256" using assms(1) by (simp add: tabs_ok_def)
  have i: "0 \<le> ?i" "?i < ?n" using pos by auto
  have at: "stop_at ?T ?n ?X 0 = Some ?i"
    using stop_at_eq [of 0 ?n ?T ?X] pos assms(2) len by (simp add: stops_def)
  have rdi: "rd ?T ?i = Some (?st ! nat ?i)"
    using i assms(2) len by (auto simp: rd_def in_arr_def stops_def)
  show ?thesis
  proof (cases "?X \<in> set ?st")
    case False
    have "?st ! nat ?i \<in> set ?st" using i st(1) by auto
    then have "?st ! nat ?i \<noteq> ?X" using False by metis
    then have "ClearTabStop 0 s = Some s"
      using pos at rdi assms(3) by (simp add: ClearTabStop_def)
    then show ?thesis using False assms(1)
      by (intro exI [of _ ?T] exI [of _ ?n]) (simp add: remove1_idem)
  next
    case True
    then have lt: "length (takeWhile (\<lambda>t. t \<noteq> ?X) ?st) < length ?st"
    proof -
      have "dropWhile (\<lambda>t. t \<noteq> ?X) ?st \<noteq> []" using True by (simp add: dropWhile_eq_Nil_conv)
      then show ?thesis by (simp add: dropWhile_eq_drop)
    qed
    then have ki: "?i = ?k" using st(1) by auto
    have hit: "?st ! nat ?i = ?X" using nth_length_takeWhile [OF lt] ki by simp
    let ?B = "blit ?T ?i (?i + 1) (?n - ?i)"
    have "copy_fwd ?T ?i (?i + 1) (nat (?n - 1 - ?i + 1)) = Some ?B"
      using copy_fwd_blit [of "?i + 1" ?i "nat (?n - 1 - ?i + 1)" ?T] i assms(2) len by simp
    then have run: "ClearTabStop 0 s = Some (s\<lparr>TabStops := ?B, NTabStops := ?n - 1\<rparr>)"
      using pos at rdi assms(3) hit by (simp add: ClearTabStop_def Let_def)
    let ?s = "s\<lparr>TabStops := ?B, NTabStops := ?n - 1\<rparr>"
    have "stops ?s = take (nat ?i) ?st @ drop (Suc (nat ?i)) ?st"
      using blit_remove [OF i, of ?T] assms(2) len by (simp add: stops_def)
    also have "\<dots> = takeWhile (\<lambda>t. t \<noteq> ?X) ?st @ tl (dropWhile (\<lambda>t. t \<noteq> ?X) ?st)"
      unfolding ki by (simp add: takeWhile_eq_take [symmetric] dropWhile_eq_drop drop_Suc tl_drop)
    also have "\<dots> = remove1 ?X ?st" using remove1_split [OF True] by simp
    finally have rem: "stops ?s = remove1 ?X ?st" .
    moreover have "tabs_ok ?s"
      unfolding tabs_ok_def rem using assms(1) st pos len
      by (auto simp: tabs_ok_def sorted_remove1 dest: notin_set_remove1)
    ultimately show ?thesis using run by blast
  qed
qed

lemma ClearTabStop_witness:
  "\<exists>T n. ClearTabStop 0 sample_screen = Some (sample_screen\<lparr>TabStops := T, NTabStops := n\<rparr>)"
  using ClearTabStop_removes [of sample_screen] by auto

subsection \<open>Moving to a stop\<close>

lemma tab_line_end_range:
  "screen_ok s \<Longrightarrow> 0 \<le> tab_line_end s \<and> tab_line_end s < NumOfColumns s"
  by (auto simp: tab_line_end_def screen_ok_def cursor_ok_def)

text \<open>
  CHT and HT: the cursor goes to the \<open>count\<close>-th stop behind it if that stop lies inside
  the line, and otherwise to the end of the line, which is the right margin inside the region.
\<close>

theorem CursorForwardTab_stop:
  assumes "screen_ok s" "tabs_ok s" "1 \<le> count"
  defines "later \<equiv> filter (\<lambda>t. CursorX s < t) (stops s)" and "c \<equiv> nat (count - 1)"
  shows "\<exists>t. CursorForwardTab count aw s = Some t \<and> screen_ok t \<and> CursorY t = CursorY s \<and>
    CodeBuffW t = CodeBuffW s \<and>
    CursorX t = (if c < length later \<and> later ! c \<le> tab_line_end s then later ! c else tab_line_end s)"
proof -
  let ?st = "stops s" and ?Q = "\<lambda>t. t \<le> CursorX s"
  let ?k = "int (length (takeWhile ?Q ?st))"
  note st = stops_split [OF assms(2)]
  have cy: "0 \<le> CursorY s" "CursorY s < NumOfLines s"
    using assms(1) by (auto simp: screen_ok_def cursor_ok_def)
  have skip: "skip_stops ?Q (TabStops s) (NTabStops s) 0 = Some ?k"
    using skip_stops_eq [of 0 "NTabStops s" "TabStops s" ?Q] st(4,5) by (simp add: stops_def)
  have later: "later = dropWhile ?Q ?st"
    unfolding later_def by (rule sorted_dropWhile_filter [OF st(2), symmetric])
  have ll: "length later = length ?st - length (takeWhile ?Q ?st)"
    unfolding later by (simp add: dropWhile_eq_drop)
  have lt: "?k + (count - 1) < NTabStops s \<longleftrightarrow> c < length later"
    unfolding ll c_def using st(1,4) assms(3) length_takeWhile_le [of ?Q ?st] by auto
  have get: "rd (TabStops s) (?k + (count - 1)) = Some (later ! c)" if "c < length later"
  proof -
    have e: "nat (?k + (count - 1)) = length (takeWhile ?Q ?st) + c"
      using assms(3) by (simp add: c_def nat_add_distrib)
    have "TabStops s ! nat (?k + (count - 1)) = ?st ! (length (takeWhile ?Q ?st) + c)"
      unfolding e stops_def using that lt e assms(3) by (simp add: stops_def)
    also have "\<dots> = later ! c"
      unfolding later by (rule nth_dropWhile) (use that ll in simp)
    finally show ?thesis using lt that st(5) assms(3) by (simp add: rd_def in_arr_def)
  qed
  show ?thesis
  proof (cases "c < length later \<and> later ! c \<le> tab_line_end s")
    case True
    have "later ! c \<in> set ?st" using True nth_mem [of c later] by (auto simp: later_def)
    then have "0 \<le> later ! c" "later ! c < NumOfColumns s"
      using assms(2) True tab_line_end_range [OF assms(1)] by (auto simp: tabs_ok_def)
    then obtain t where "MoveCursor (later ! c) (CursorY s) s = Some t" "screen_ok t"
      "CursorX t = later ! c" "CursorY t = CursorY s" "CodeBuffW t = CodeBuffW s"
      using MoveCursor_ok [OF assms(1) _ _ cy] by blast
    moreover have "CursorForwardTab count aw s = MoveCursor (later ! c) (CursorY s) s"
      using skip get lt True by (simp add: CursorForwardTab_def)
    ultimately show ?thesis using True by auto
  next
    case False
    obtain t where t: "MoveCursor (tab_line_end s) (CursorY s) s = Some t" "screen_ok t"
      "CursorX t = tab_line_end s" "CursorY t = CursorY s" "CodeBuffW t = CodeBuffW s"
      using MoveCursor_ok [OF assms(1) _ _ cy] tab_line_end_range [OF assms(1)] by blast
    let ?w = "if \<not> VTCompatTab (ts t) then aw else Wrap s"
    have "CursorForwardTab count aw s = Some (t\<lparr>Wrap := ?w\<rparr>)"
      using skip get lt False t(1) by (cases "c < length later") (simp_all add: CursorForwardTab_def)
    moreover have "screen_ok (t\<lparr>Wrap := ?w\<rparr>)" using t(2)
      by (simp add: screen_ok_def page_ok_def geom_ok_def cursor_ok_def lineptr_ok_def row_ptr_def)
    ultimately show ?thesis using False t by auto
  qed
qed

lemma CursorForwardTab_witness:
  "\<exists>t. CursorForwardTab 2 True sample_screen = Some t \<and> CursorX t = tab_line_end sample_screen"
  using CursorForwardTab_stop [of sample_screen 2 True] by auto

lemma tab_line_start_range:
  "screen_ok s \<Longrightarrow> 0 \<le> tab_line_start s \<and> tab_line_start s < NumOfColumns s"
  by (auto simp: tab_line_start_def screen_ok_def cursor_ok_def)

text \<open>
  CBT: the cursor goes to the \<open>count\<close>-th stop before it, or to the start of the line (the
  left margin inside the region) if there is none behind that start.
\<close>

theorem CursorBackwardTab_stop:
  assumes "screen_ok s" "tabs_ok s" "1 \<le> count"
  defines "earlier \<equiv> rev (filter (\<lambda>t. t < CursorX s) (stops s))" and "c \<equiv> nat (count - 1)"
  shows "\<exists>t. CursorBackwardTab count s = Some t \<and> screen_ok t \<and> CursorY t = CursorY s \<and>
    CodeBuffW t = CodeBuffW s \<and>
    CursorX t = (if c < length earlier \<and> tab_line_start s \<le> earlier ! c then earlier ! c
                 else tab_line_start s)"
proof -
  let ?st = "stops s" and ?Q = "\<lambda>t. t < CursorX s"
  let ?tw = "takeWhile ?Q ?st" let ?k = "int (length ?tw)"
  note st = stops_split [OF assms(2)]
  have cy: "0 \<le> CursorY s" "CursorY s < NumOfLines s" "CursorX s < NumOfColumns s"
    using assms(1) by (auto simp: screen_ok_def cursor_ok_def)
  have skip: "skip_stops ?Q (TabStops s) (NTabStops s) 0 = Some ?k"
    using skip_stops_eq [of 0 "NTabStops s" "TabStops s" ?Q] st(4,5) by (simp add: stops_def)
  have e: "earlier = rev ?tw"
    unfolding earlier_def by (simp add: sorted_takeWhile_filter [OF st(2)])
  have lt: "\<not> ?k < count \<longleftrightarrow> c < length earlier"
    unfolding e c_def using assms(3) by auto
  have get: "rd (TabStops s) (?k - count) = Some (earlier ! c)" if "c < length earlier"
  proof -
    have n: "nat (?k - count) = length ?tw - Suc c" "length ?tw - Suc c < length ?tw"
      using that assms(3) unfolding e c_def by auto
    have "earlier ! c = ?tw ! (length ?tw - Suc c)" using that unfolding e by (simp add: rev_nth)
    also have "\<dots> = ?st ! (length ?tw - Suc c)" by (rule takeWhile_nth [OF n(2)])
    also have "\<dots> = TabStops s ! nat (?k - count)"
      unfolding n(1) using n(2) length_takeWhile_le [of ?Q ?st] st(1) by (simp add: stops_def)
    finally show ?thesis
      using lt that st(1,4,5) length_takeWhile_le [of ?Q ?st] assms(3) by (simp add: rd_def in_arr_def)
  qed
  show ?thesis
  proof (cases "c < length earlier \<and> tab_line_start s \<le> earlier ! c")
    case True
    have "earlier ! c \<in> set earlier" using True by simp
    then have "earlier ! c < CursorX s" by (auto simp: earlier_def)
    then have "0 \<le> earlier ! c" "earlier ! c < NumOfColumns s"
      using True tab_line_start_range [OF assms(1)] cy by auto
    then obtain t where "MoveCursor (earlier ! c) (CursorY s) s = Some t" "screen_ok t"
      "CursorX t = earlier ! c" "CursorY t = CursorY s" "CodeBuffW t = CodeBuffW s"
      using MoveCursor_ok [OF assms(1) _ _ cy(1,2)] by blast
    moreover have "CursorBackwardTab count s = MoveCursor (earlier ! c) (CursorY s) s"
      using skip get lt True by (simp add: CursorBackwardTab_def)
    ultimately show ?thesis using True by auto
  next
    case False
    obtain t where t: "MoveCursor (tab_line_start s) (CursorY s) s = Some t" "screen_ok t"
      "CursorX t = tab_line_start s" "CursorY t = CursorY s" "CodeBuffW t = CodeBuffW s"
      using MoveCursor_ok [OF assms(1) _ _ cy(1,2)] tab_line_start_range [OF assms(1)] by blast
    have "CursorBackwardTab count s = MoveCursor (tab_line_start s) (CursorY s) s"
      using skip get lt False by (cases "c < length earlier") (simp_all add: CursorBackwardTab_def)
    then show ?thesis using False t by auto
  qed
qed

lemma CursorBackwardTab_witness:
  "\<exists>t. CursorBackwardTab 1 sample_screen = Some t \<and> CursorX t = tab_line_start sample_screen"
  using CursorBackwardTab_stop [of sample_screen 1] by auto

subsection \<open>The default stops\<close>

lemma default_stops_eq:
  assumes "1 \<le> i" "i - 1 + int k \<le> int (length T)" "(i - 1 + int k) * 8 < 65536"
  shows "\<exists>T'. default_stops T i k = Some T' \<and> length T' = length T \<and>
    take (nat (i - 1)) T' = take (nat (i - 1)) T \<and>
    (\<forall>j. i - 1 \<le> int j \<and> int j < i - 1 + int k \<longrightarrow> T' ! j = (int j + 1) * 8)"
  using assms
proof (induction k arbitrary: T i)
  case 0
  then show ?case by simp
next
  case (Suc k)
  let ?T = "T[nat (i - 1) := i * 8]"
  have w: "wr T (i - 1) ((i * 8) mod 65536) = Some ?T"
    using Suc.prems by (simp add: wr_def in_arr_def)
  obtain T' where T': "default_stops ?T (i + 1) k = Some T'" "length T' = length T"
    "take (nat i) T' = take (nat i) ?T"
    and n: "\<And>j. i \<le> int j \<Longrightarrow> int j < i + int k \<Longrightarrow> T' ! j = (int j + 1) * 8"
    using Suc.IH [of "i + 1" ?T] Suc.prems by auto
  have p: "T' ! j = ?T ! j" if "int j < i" for j
    using T'(3) that nth_take [of j "nat i" T'] nth_take [of j "nat i" ?T] by auto
  have first: "T' ! nat (i - 1) = i * 8" using p [of "nat (i - 1)"] Suc.prems by simp
  have "take (nat (i - 1)) T' = take (nat (i - 1)) T"
    using p T'(2) Suc.prems by (intro nth_equalityI) auto
  moreover have "T' ! j = (int j + 1) * 8" if "i - 1 \<le> int j" "int j < i - 1 + int (Suc k)" for j
  proof (cases "int j = i - 1")
    case True
    then have "j = nat (i - 1)" by simp
    then show ?thesis using first True by simp
  next
    case False
    then show ?thesis using n [of j] that by auto
  qed
  ultimately show ?case using w T' by auto
qed

lemma reset_stops_eq:
  assumes "length (TabStops s) = 256" "1 \<le> NumOfColumns s" "NumOfColumns s \<le> 2056"
  shows "\<exists>T. reset_stops s = Some (s\<lparr>NTabStops := (NumOfColumns s - 1) div 8, TabStops := T\<rparr>) \<and>
    tabs_ok (s\<lparr>NTabStops := (NumOfColumns s - 1) div 8, TabStops := T\<rparr>) \<and>
    stops (s\<lparr>NTabStops := (NumOfColumns s - 1) div 8, TabStops := T\<rparr>)
      = map (\<lambda>j. (int j + 1) * 8) [0..<nat ((NumOfColumns s - 1) div 8)]"
proof -
  let ?n = "(NumOfColumns s - 1) div 8"
  have n: "0 \<le> ?n" "?n \<le> 256" using assms by auto
  obtain T where T: "default_stops (TabStops s) 1 (nat ?n) = Some T" "length T = 256"
    and v: "\<And>j. int j < ?n \<Longrightarrow> T ! j = (int j + 1) * 8"
    using default_stops_eq [of 1 "nat ?n" "TabStops s"] assms n by auto
  let ?s = "s\<lparr>NTabStops := ?n, TabStops := T\<rparr>"
  have st: "stops ?s = map (\<lambda>j. (int j + 1) * 8) [0..<nat ?n]"
    using T(2) v n by (intro nth_equalityI) (auto simp: stops_def)
  then have "tabs_ok ?s"
    using T(2) n by (auto simp: tabs_ok_def sorted_map sorted_wrt_iff_nth_less distinct_map inj_on_def)
  then show ?thesis using T st by (auto simp: reset_stops_def)
qed

end
