(* ===== verification/ScreenStore.thy ===== *)
theory ScreenStore
  imports ScreenEditFacts TabStop
begin

section \<open>Saving, clearing and resizing the screen (teraterm/teraterm/buffer.c)\<close>

text \<open>
  The operations that copy between the ring and another array: the saved screen of the
  alternate screen buffer, and the new array of a resize; with the operations that reset the
  ring. Whether \<open>malloc\<close> and \<open>calloc\<close> succeed is the parameter \<open>alloc\<close>, a function of the
  number of cells asked for. The saved array is \<open>SaveBuff\<close>.
\<close>

definition BuffXMax :: int where "BuffXMax = 1000"
definition BuffYMax :: int where "BuffYMax = 500000"
definition BuffSizeMax :: int where "BuffSizeMax = 500000 * 80"
definition TermWidthMax :: int where "TermWidthMax = 1000"
definition TermHeightMax :: int where "TermHeightMax = 500"
definition TF_CLEARONRESIZE :: u32 where "TF_CLEARONRESIZE = 256"

subsection \<open>Copying from one array to another\<close>

text \<open>\<open>memcpyW\<close> with \<open>dest\<close> in one array and \<open>src\<close> in another.\<close>

definition memcpyX :: "buff_char list \<Rightarrow> int \<Rightarrow> buff_char list \<Rightarrow> int \<Rightarrow> int \<Rightarrow> buff_char list option" where
  "memcpyX b d t p count = (if count < 0 then None else copy_across b d t p (nat count))"

text \<open>A cell of zero bytes, as \<open>calloc\<close> leaves it.\<close>

definition zero_cell :: buff_char where
  "zero_cell = \<lparr>u32 = 0, u32_last = 0, WidthProperty = CHR 0x00, cell = 0, Padding = False,
     Emoji = False, CombinationCharSize16 = 0, CombinationCharSize32 = 0, CombinationChars16 = [],
     CombinationChars32 = [], wc2 = (0, 0), fg = 0, bg = 0, attr = 0, attr2 = 0, ansi_char = 0\<rparr>"

text \<open>A wide character whose right half is lost becomes a space (\<open>attr ^= AttrKanji\<close>).\<close>

definition cut_kanji :: "conv_env \<Rightarrow> int \<Rightarrow> buff_char list \<Rightarrow> buff_char list option" where
  "cut_kanji cv i b =
     do {
       c \<leftarrow> rd b i;
       if has_bit (attr c) AttrKanji
       then wr b i ((BuffSetChar cv c 0x20 CHR ''H'')\<lparr>attr := attr c XOR AttrKanji\<rparr>)
       else Some b
     }"

subsection \<open>The alternate screen buffer\<close>

fun save_lines :: "screen \<Rightarrow> buff_char list \<Rightarrow> int \<Rightarrow> int \<Rightarrow> nat \<Rightarrow> buff_char list option" where
  "save_lines s b DestPtr SrcPtr 0 = Some b"
| "save_lines s b DestPtr SrcPtr (Suc n) =
     do {
       b \<leftarrow> memcpyX b DestPtr (CodeBuffW s) SrcPtr (NumOfColumns s);
       save_lines s b (DestPtr + NumOfColumns s) (NextLinePtr s SrcPtr) n
     }"

definition BuffSaveScreen :: "(int \<Rightarrow> bool) \<Rightarrow> screen \<Rightarrow> screen option" where
  "BuffSaveScreen alloc s =
     (let ScrSize = NumOfColumns s * NumOfLines s
      in if SaveBuff s = None \<and> alloc ScrSize
         then do {
           SrcPtr \<leftarrow> GetLinePtr (PageStart s) s;
           b \<leftarrow> save_lines s (replicate (nat ScrSize) zero_cell) 0 SrcPtr (nat (NumOfLines s));
           Some (s\<lparr>SaveBuff := Some b, SaveBuffX := NumOfColumns s, SaveBuffY := NumOfLines s\<rparr>)
         }
         else Some s)"

definition BuffDiscardSavedScreen :: "screen \<Rightarrow> screen" where
  "BuffDiscardSavedScreen s = s\<lparr>SaveBuff := None\<rparr>"

fun restore_lines :: "int \<Rightarrow> buff_char list \<Rightarrow> int \<Rightarrow> int \<Rightarrow> nat \<Rightarrow> screen \<Rightarrow> screen option" where
  "restore_lines CopyX b SrcPtr DestPtr 0 s = Some s"
| "restore_lines CopyX b SrcPtr DestPtr (Suc n) s =
     do {
       t \<leftarrow> memcpyX (CodeBuffW s) DestPtr b SrcPtr CopyX;
       t \<leftarrow> cut_kanji (conv s) (DestPtr + CopyX - 1) t;
       restore_lines CopyX b (SrcPtr + SaveBuffX s) (NextLinePtr s DestPtr) n (s\<lparr>CodeBuffW := t\<rparr>)
     }"

definition BuffRestoreScreen :: "screen \<Rightarrow> screen option" where
  "BuffRestoreScreen s =
     (case SaveBuff s of
        None \<Rightarrow> Some s
      | Some b \<Rightarrow> do {
          let CopyX = (if SaveBuffX s > NumOfColumns s then NumOfColumns s else SaveBuffX s);
          let CopyY = (if SaveBuffY s > NumOfLines s then NumOfLines s else SaveBuffY s);
          DestPtr \<leftarrow> GetLinePtr (PageStart s) s;
          s \<leftarrow> restore_lines CopyX b 0 DestPtr (nat CopyY) s;
          Some (BuffDiscardSavedScreen s)
        })"

subsection \<open>A new array\<close>

text \<open>The copy loop of \<open>ChangeBuffer\<close>: the newest \<open>n\<close> lines, cut or padded to \<open>Nx\<close> columns.\<close>

fun change_lines ::
  "screen \<Rightarrow> int \<Rightarrow> int \<Rightarrow> buff_char list \<Rightarrow> int \<Rightarrow> int \<Rightarrow> nat \<Rightarrow> buff_char list option" where
  "change_lines s Nx NxCopy b SrcPtr DestPtr 0 = Some b"
| "change_lines s Nx NxCopy b SrcPtr DestPtr (Suc n) =
     do {
       b \<leftarrow> memcpyX b DestPtr (CodeBuffW s) SrcPtr NxCopy;
       b \<leftarrow> cut_kanji (conv s) (DestPtr + NxCopy - 1) b;
       change_lines s Nx NxCopy b (NextLinePtr s SrcPtr) (DestPtr + Nx) n
     }"

definition shift_selection :: "int \<Rightarrow> screen \<Rightarrow> screen" where
  "shift_selection d s =
     (let st = clamp_point (fst (SelectStart s), snd (SelectStart s) + d);
          en = clamp_point (fst (SelectEnd s), snd (SelectEnd s) + d)
      in s\<lparr>SelectStart := st, SelectEnd := en, Selected := ComparePoint s st en < 0\<rparr>)"

definition buffer_lines :: "int \<Rightarrow> int \<Rightarrow> int \<Rightarrow> int" where
  "buffer_lines Nx Ny lim =
     (let Ny = (if Ny > lim then lim else Ny)
      in if Nx * Ny > BuffSizeMax then BuffSizeMax div Nx else Ny)"

text \<open>
  \<open>ChangeBuffer\<close> with an existing buffer; \<open>InitBuffer\<close> makes the first one. The result is the
  state and whether the allocation succeeded. The columns of the state are the caller's.
\<close>

definition limit_scroll_max :: "screen \<Rightarrow> screen" where
  "limit_scroll_max s =
     (if ScrollBuffMax (ts s) > BuffYMax then s\<lparr>ts := (ts s)\<lparr>ScrollBuffMax := BuffYMax\<rparr>\<rparr> else s)"

definition new_array :: "screen \<Rightarrow> int \<Rightarrow> buff_char list option" where
  "new_array s NewSize =
     memsetW (conv s) (replicate (nat NewSize) zero_cell) 0 0x20 AttrDefaultFG AttrDefaultBG
       AttrDefault AttrDefault NewSize"

definition install_array :: "buff_char list \<Rightarrow> int \<Rightarrow> int \<Rightarrow> int \<Rightarrow> screen \<Rightarrow> screen" where
  "install_array b Nx Ny NyCopy s =
     (let s = s\<lparr>CodeBuffW := b, BufferSize := Nx * Ny, NumOfLinesInBuff := Ny, BuffStartAbs := 0,
                BuffEnd := NyCopy\<rparr>;
          s = s\<lparr>BuffEndAbs := (if BuffEnd s = NumOfLinesInBuff s then 0 else BuffEnd s)\<rparr>
      in s\<lparr>PageStart := BuffEnd s - NumOfLines s, LinePtr := 0\<rparr>)"

definition ChangeBuffer :: "(int \<Rightarrow> bool) \<Rightarrow> int \<Rightarrow> int \<Rightarrow> screen \<Rightarrow> (screen \<times> bool) option" where
  "ChangeBuffer alloc Nx0 Ny0 s =
     (let Nx = (if Nx0 > BuffXMax then BuffXMax else Nx0);
          s = limit_scroll_max s;
          Ny = buffer_lines Nx Ny0 (ScrollBuffMax (ts s))
      in if \<not> alloc (Nx * Ny) then Some (s, False)
         else do {
           b \<leftarrow> new_array s (Nx * Ny);
           let NxCopy = (if NumOfColumns s > Nx then Nx else NumOfColumns s);
           let NyCopy = (if BuffEnd s > Ny then Ny else BuffEnd s);
           let LockOld = BuffLock s;
           s \<leftarrow> LockBuffer s;
           SrcPtr \<leftarrow> GetLinePtr (BuffEnd s - NyCopy) s;
           b \<leftarrow> change_lines s Nx NxCopy b SrcPtr 0 (nat NyCopy);
           let s = (if Selected s then shift_selection (NyCopy - BuffEnd s) s else s);
           Some ((install_array b Nx Ny NyCopy s)\<lparr>BuffLock := LockOld\<rparr>, True)
         })"

definition keep_scroll_size :: "screen \<Rightarrow> screen" where
  "keep_scroll_size s =
     (if EnableScrollBuff (ts s) > 0 then s\<lparr>ts := (ts s)\<lparr>ScrollBuffSize := NumOfLinesInBuff s\<rparr>\<rparr>
      else s)"

definition InitBuffer :: "(int \<Rightarrow> bool) \<Rightarrow> screen \<Rightarrow> (screen \<times> bool) option" where
  "InitBuffer alloc s =
     (let w = TerminalWidth (ts s); h = TerminalHeight (ts s);
          s = s\<lparr>NumOfColumns := (if w \<le> 0 then 80 else if w > TermWidthMax then TermWidthMax else w),
                NumOfLines := (if h \<le> 0 then 24 else if h > TermHeightMax then TermHeightMax else h)\<rparr>;
          s = (if EnableScrollBuff (ts s) > 0 \<and> ScrollBuffSize (ts s) < NumOfLines s
               then s\<lparr>ts := (ts s)\<lparr>ScrollBuffSize := NumOfLines s\<rparr>\<rparr> else s);
          Ny0 = (if EnableScrollBuff (ts s) > 0 then ScrollBuffSize (ts s) else NumOfLines s);
          Nx = (if NumOfColumns s > BuffXMax then BuffXMax else NumOfColumns s);
          s = limit_scroll_max s;
          Ny = buffer_lines Nx Ny0 (ScrollBuffMax (ts s))
      in if \<not> alloc (Nx * Ny) then Some ((keep_scroll_size s)\<lparr>StatusLine := 0\<rparr>, False)
         else do {
           b \<leftarrow> new_array s (Nx * Ny);
           let s = (install_array b Nx Ny (NumOfLines s) (s\<lparr>Selected := False\<rparr>))\<lparr>BuffLock := 0\<rparr>;
           Some ((keep_scroll_size s)\<lparr>StatusLine := 0\<rparr>, True)
         })"

subsection \<open>Resetting and clearing\<close>

definition home_view :: "screen \<Rightarrow> screen" where
  "home_view s = s\<lparr>vw := (vw s)\<lparr>WinOrgX := 0, WinOrgY := 0, NewOrgX := 0, NewOrgY := 0\<rparr>\<rparr>"

definition full_margins :: "screen \<Rightarrow> screen" where
  "full_margins s = s\<lparr>CursorTop := 0, CursorBottom := NumOfLines s - 1, CursorLeftM := 0,
     CursorRightM := NumOfColumns s - 1\<rparr>"

definition BuffReset :: "screen \<Rightarrow> screen option" where
  "BuffReset s =
     do {
       s \<leftarrow> NewLine (PageStart s) s;
       let s = full_margins (home_view s);
       s \<leftarrow> reset_stops s;
       Some (BuffDiscardSavedScreen (s\<lparr>SelectStart := (0, 0), SelectEnd := (0, 0), Selected := False,
         StrChangeCount := 0, Wrap := False, StatusLine := 0\<rparr>))
     }"

definition ClearBuffer :: "screen \<Rightarrow> screen option" where
  "ClearBuffer s =
     do {
       let s = s\<lparr>PageStart := 0, BuffStartAbs := 0, BuffEnd := NumOfLines s,
                 BuffEndAbs := (if NumOfLines s = NumOfLinesInBuff s then 0 else NumOfLines s),
                 SelectStart := (0, 0), SelectEnd := (0, 0), Selected := False\<rparr>;
       s \<leftarrow> NewLine 0 s;
       s \<leftarrow> eraseS 0 (BufferSize s) s;
       Some ((full_margins (home_view (s\<lparr>CursorX := 0, CursorY := 0\<rparr>)))\<lparr>StrChangeCount := 0\<rparr>)
     }"

subsection \<open>Changing the terminal size\<close>

definition scroll_lines_for :: "int \<Rightarrow> screen \<Rightarrow> int" where
  "scroll_lines_for Ny s =
     (if ScrollBuffSize (ts s) < Ny \<or> EnableScrollBuff (ts s) = 0 then Ny else ScrollBuffSize (ts s))"

text \<open>The cursor and the end of the buffer follow the bottom of the page.\<close>

definition follow_page :: "int \<Rightarrow> screen \<Rightarrow> screen" where
  "follow_page Ny s =
     (if TermFlag (ts s) AND TF_CLEARONRESIZE = 0 \<and> Ny \<noteq> NumOfLines s
      then if Ny > NumOfLines s
        then let s = s\<lparr>CursorY := CursorY s + (Ny - NumOfLines s)\<rparr>
             in if Ny > BuffEnd s
                then s\<lparr>CursorY := CursorY s - (Ny - BuffEnd s), BuffEnd := Ny\<rparr> else s
        else if Ny > CursorY s + StatusLine s + 1
        then s\<lparr>BuffEnd := BuffEnd s - (NumOfLines s - Ny)\<rparr>
        else s\<lparr>BuffEnd := BuffEnd s - (NumOfLines s - 1 - StatusLine s - CursorY s),
               CursorY := Ny - 1 - StatusLine s\<rparr>
      else s)"

definition set_size :: "int \<Rightarrow> int \<Rightarrow> screen \<Rightarrow> screen" where
  "set_size Nx Ny s =
     (let s = s\<lparr>NumOfColumns := Nx, NumOfLines := Ny,
                ts := (ts s)\<lparr>TerminalWidth := Nx, TerminalHeight := Ny - StatusLine s\<rparr>\<rparr>
      in s\<lparr>PageStart := BuffEnd s - NumOfLines s\<rparr>)"

text \<open>Cursor and margins after the resize; \<open>St\<close>: the cursor was on the status line.\<close>

definition place_cursor :: "bool \<Rightarrow> screen \<Rightarrow> screen" where
  "place_cursor St s =
     (let clear = TermFlag (ts s) AND TF_CLEARONRESIZE \<noteq> 0;
          s = (if clear then s\<lparr>CursorX := 0, CursorRightM := NumOfColumns s - 1\<rparr>
               else (let s = s\<lparr>CursorRightM := NumOfColumns s - 1\<rparr>
                     in if CursorX s \<ge> NumOfColumns s then s\<lparr>CursorX := NumOfColumns s - 1\<rparr> else s));
          s = (if St then (let s = s\<lparr>CursorY := NumOfLines s - 1\<rparr>
                           in s\<lparr>CursorTop := CursorY s, CursorBottom := CursorY s\<rparr>)
               else if clear then s\<lparr>CursorY := 0, CursorTop := 0, CursorBottom := NumOfLines s - 1 - StatusLine s\<rparr>
               else (let s = (if CursorY s \<ge> NumOfLines s - StatusLine s
                              then s\<lparr>CursorY := NumOfLines s - 1 - StatusLine s\<rparr> else s)
                     in s\<lparr>CursorTop := 0, CursorBottom := NumOfLines s - 1 - StatusLine s\<rparr>))
      in s\<lparr>CursorLeftM := 0, SelectStart := (0, 0), SelectEnd := (0, 0), Selected := False\<rparr>)"

text \<open>
  \<open>BuffChangeTerminalSize\<close> up to \<open>NewLine(PageStart+CursorY)\<close>; what follows resizes the
  window and tells the peer. When the allocation fails it returns early.
\<close>

definition BuffChangeTerminalSize :: "(int \<Rightarrow> bool) \<Rightarrow> int \<Rightarrow> int \<Rightarrow> screen \<Rightarrow> screen option" where
  "BuffChangeTerminalSize alloc Nx0 Ny0 s =
     do {
       let Ny = Ny0 + StatusLine s;
       let Nx = (if Nx0 < 1 then 1 else Nx0);
       let Ny = (if Ny < 1 then 1 else Ny);
       let Nx = (if Nx > BuffXMax then BuffXMax else Nx);
       let s = limit_scroll_max s;
       let Ny = (if Ny > ScrollBuffMax (ts s) then ScrollBuffMax (ts s) else Ny);
       let St = isCursorOnStatusLine s;
       (s, go) \<leftarrow>
         (if Nx \<noteq> NumOfColumns s \<or> Ny \<noteq> NumOfLines s
          then do {
            (s, fin) \<leftarrow> ChangeBuffer alloc Nx (scroll_lines_for Ny s) s;
            if \<not> fin then Some (s, False)
            else do {
              let s = keep_scroll_size s;
              let Ny = (if Ny > NumOfLinesInBuff s then NumOfLinesInBuff s else Ny);
              Some (set_size Nx Ny (follow_page Ny s), True)
            }
          }
          else Some (s, True));
       if \<not> go then Some s
       else do {
         s \<leftarrow> (if TermFlag (ts s) AND TF_CLEARONRESIZE \<noteq> 0
              then BuffScroll (NumOfLines s) (NumOfLines s - 1) s else Some s);
         let s = place_cursor St s;
         s \<leftarrow> reset_stops s;
         NewLine (PageStart s + CursorY s) s
       }
     }"

subsection \<open>Copies between arrays\<close>

lemma memcpyX_eq:
  assumes "0 \<le> d" "0 \<le> n" "d + n \<le> int (length b)" "0 \<le> p" "p + n \<le> int (length t)"
  shows "\<exists>b'. memcpyX b d t p n = Some b' \<and> length b' = length b \<and>
    (\<forall>i. in_arr b i \<longrightarrow>
      b' ! nat i = (if d \<le> i \<and> i < d + n then t ! nat (i - d + p) else b ! nat i))"
  using copy_across_eq [of d "nat n" b p t] assms by (simp add: memcpyX_def)

text \<open>The cell as \<open>cut_kanji\<close> leaves it.\<close>

definition cut_cell :: "conv_env \<Rightarrow> buff_char \<Rightarrow> buff_char" where
  "cut_cell cv c = (if is_kanji c
     then (BuffSetChar cv c 0x20 CHR ''H'')\<lparr>attr := attr c XOR AttrKanji\<rparr> else c)"

lemma cut_kanji_eq:
  assumes "in_arr b j"
  shows "\<exists>b'. cut_kanji cv j b = Some b' \<and> length b' = length b \<and>
    (\<forall>i. in_arr b i \<longrightarrow> b' ! nat i = (if i = j then cut_cell cv (b ! nat i) else b ! nat i))"
  using assms nth_update_int [OF assms]
  by (simp add: cut_kanji_def cut_cell_def rd_in wr_in is_kanji_def)

text \<open>A row of cells as it is copied: the last one is cut.\<close>

definition cut_at :: "conv_env \<Rightarrow> int \<Rightarrow> int \<Rightarrow> buff_char \<Rightarrow> buff_char" where
  "cut_at cv e x c = (if x = e then cut_cell cv c else c)"

lemma copy_cut_eq:
  assumes "0 \<le> d" "1 \<le> n" "d + n \<le> int (length b)" "0 \<le> p" "p + n \<le> int (length t)"
  shows "\<exists>b'. Option.bind (memcpyX b d t p n) (cut_kanji cv (d + n - 1)) = Some b' \<and>
    length b' = length b \<and>
    (\<forall>i. in_arr b i \<longrightarrow> b' ! nat i =
      (if d \<le> i \<and> i < d + n then cut_at cv (n - 1) (i - d) (t ! nat (i - d + p)) else b ! nat i))"
proof -
  obtain b1 where b1: "memcpyX b d t p n = Some b1" "length b1 = length b"
    and n1: "\<And>i. in_arr b i \<Longrightarrow>
      b1 ! nat i = (if d \<le> i \<and> i < d + n then t ! nat (i - d + p) else b ! nat i)"
    using memcpyX_eq [of d n b p t] assms by auto
  have j: "in_arr b1 (d + n - 1)" and e: "in_arr b1 = in_arr b"
    using assms b1(2) by (auto simp: in_arr_def [abs_def])
  obtain b2 where b2: "cut_kanji cv (d + n - 1) b1 = Some b2" "length b2 = length b1"
    and n2: "\<And>i. in_arr b i \<Longrightarrow>
      b2 ! nat i = (if i = d + n - 1 then cut_cell cv (b1 ! nat i) else b1 ! nat i)"
    using cut_kanji_eq [OF j, of cv] unfolding e by auto
  have "b2 ! nat i =
      (if d \<le> i \<and> i < d + n then cut_at cv (n - 1) (i - d) (t ! nat (i - d + p)) else b ! nat i)"
    if i: "in_arr b i" for i
    using n1 [OF i] n2 [OF i] assms(2) by (auto simp: cut_at_def)
  then show ?thesis using b1 b2 by auto
qed

text \<open>Rows of width \<open>C\<close> in a flat array.\<close>

lemma flat_range:
  fixes C :: int
  assumes "0 \<le> x" "x < C" "n \<le> C"
  shows "k * C \<le> y * C + x \<and> y * C + x < k * C + n \<longleftrightarrow> y = k \<and> x < n"
proof -
  have "y = k" if "k * C \<le> y * C + x" "y * C + x < k * C + n"
  proof (rule antisym)
    have "y * C < (k + 1) * C" using that assms by (simp add: algebra_simps)
    then show "y \<le> k" using assms by (simp add: mult_less_cancel_right)
    have "k * C < (y + 1) * C" using that assms by (simp add: algebra_simps)
    then show "k \<le> y" using assms by (simp add: mult_less_cancel_right)
  qed
  then show ?thesis using assms by auto
qed

lemma flat_in:
  fixes C :: int
  assumes "0 \<le> x" "x < C" "0 \<le> y" "y < n" "n * C \<le> int (length b)"
  shows "in_arr b (y * C + x)"
proof -
  have "(y + 1) * C \<le> n * C" using assms by (intro mult_right_mono) auto
  then have "y * C + x < int (length b)" using assms by (simp add: algebra_simps)
  then show ?thesis using assms by (simp add: in_arr_def)
qed

lemma save_lines_rows:
  assumes "geom_ok s" "0 \<le> k" "(k + int n) * NumOfColumns s \<le> int (length b)"
  shows "\<exists>b'. save_lines s b (k * NumOfColumns s) (row_ptr s L) n = Some b' \<and> length b' = length b \<and>
    (\<forall>y x. in_cols s x \<longrightarrow> in_arr b (y * NumOfColumns s + x) \<longrightarrow>
      b' ! nat (y * NumOfColumns s + x) =
      (if k \<le> y \<and> y < k + int n then at s (L + y - k) x else b ! nat (y * NumOfColumns s + x)))"
  using assms
proof (induction n arbitrary: b k L)
  case 0
  then show ?case by auto
next
  case (Suc n)
  let ?C = "NumOfColumns s"
  have C: "0 < ?C" using Suc.prems by (simp add: geom_ok_def)
  have fit: "0 \<le> k * ?C" "k * ?C + ?C \<le> int (length b)"
  proof -
    show "0 \<le> k * ?C" using C Suc.prems(2) by simp
    have "(k + 1) * ?C \<le> (k + int (Suc n)) * ?C" using C by (intro mult_right_mono) auto
    then show "k * ?C + ?C \<le> int (length b)" using Suc.prems(3) by (simp add: algebra_simps)
  qed
  note rb = row_bounds [OF Suc.prems(1), of L]
  obtain b1 where b1: "memcpyX b (k * ?C) (CodeBuffW s) (row_ptr s L) ?C = Some b1" "length b1 = length b"
    and n1: "\<And>i. in_arr b i \<Longrightarrow> b1 ! nat i = (if k * ?C \<le> i \<and> i < k * ?C + ?C
        then CodeBuffW s ! nat (i - k * ?C + row_ptr s L) else b ! nat i)"
    using memcpyX_eq [OF fit(1) _ fit(2) rb(1), of "CodeBuffW s"] rb(2) C Suc.prems(1)
    by (auto simp: geom_ok_def)
  have e: "in_arr b1 = in_arr b" using b1(2) by (simp add: in_arr_def [abs_def])
  have nx: "NextLinePtr s (row_ptr s L) = row_ptr s (L + 1)"
    using NextLinePtr_row [OF Suc.prems(1), of 0 L] C by simp
  obtain b2 where b2: "save_lines s b1 ((k + 1) * ?C) (row_ptr s (L + 1)) n = Some b2"
    "length b2 = length b1"
    and n2: "\<And>y x. in_cols s x \<Longrightarrow> in_arr b (y * ?C + x) \<Longrightarrow> b2 ! nat (y * ?C + x) =
      (if k + 1 \<le> y \<and> y < k + 1 + int n then at s (L + 1 + y - (k + 1)) x else b1 ! nat (y * ?C + x))"
    using Suc.IH [OF Suc.prems(1), of "k + 1" b1 "L + 1"] Suc.prems(2,3) b1(2) unfolding e
    by (auto simp: add.assoc)
  have "b2 ! nat (y * ?C + x) = (if k \<le> y \<and> y < k + int (Suc n) then at s (L + y - k) x
      else b ! nat (y * ?C + x))" if x: "in_cols s x" and i: "in_arr b (y * ?C + x)" for y x
  proof -
    have xx: "0 \<le> x" "x < ?C" using x by (auto simp: in_cols_def)
    have "b1 ! nat (y * ?C + x) = (if y = k then at s L x else b ! nat (y * ?C + x))"
      using n1 [OF i] flat_range [OF xx, of ?C k y] xx(2) by (auto simp: at_def algebra_simps)
    then show ?thesis using n2 [OF x i] by (auto simp: add_diff_eq)
  qed
  then show ?case using b1 b2 nx by (auto simp: algebra_simps)
qed

subsection \<open>Save and restore\<close>

text \<open>The saved array holds the page row by row.\<close>

definition saved_page :: "screen \<Rightarrow> buff_char list \<Rightarrow> bool" where
  "saved_page s b \<longleftrightarrow> int (length b) = NumOfColumns s * NumOfLines s \<and>
     (\<forall>y x. 0 \<le> y \<longrightarrow> y < NumOfLines s \<longrightarrow> in_cols s x \<longrightarrow>
       b ! nat (y * NumOfColumns s + x) = at s (PageStart s + y) x)"

lemma BuffSaveScreen_saves:
  assumes "page_ok s" "SaveBuff s = None" "alloc (NumOfColumns s * NumOfLines s)"
  shows "\<exists>b. BuffSaveScreen alloc s =
      Some (s\<lparr>SaveBuff := Some b, SaveBuffX := NumOfColumns s, SaveBuffY := NumOfLines s\<rparr>) \<and>
    saved_page s b"
proof -
  let ?C = "NumOfColumns s" and ?n = "nat (NumOfLines s)"
  let ?z = "replicate (nat (?C * NumOfLines s)) zero_cell"
  have g: "geom_ok s" "0 \<le> PageStart s" "0 < NumOfLines s" "0 < ?C"
    using assms(1) by (auto simp: page_ok_def geom_ok_def)
  have lz: "int (length ?z) = ?C * NumOfLines s" using g by simp
  then have fit: "(0 + int ?n) * ?C \<le> int (length ?z)" using g by (simp add: mult.commute)
  obtain b where b: "save_lines s ?z 0 (row_ptr s (PageStart s)) ?n = Some b" "length b = length ?z"
    and n: "\<And>y x. in_cols s x \<Longrightarrow> in_arr ?z (y * ?C + x) \<Longrightarrow> b ! nat (y * ?C + x) =
      (if 0 \<le> y \<and> y < 0 + int ?n then at s (PageStart s + y - 0) x else ?z ! nat (y * ?C + x))"
    using save_lines_rows [OF g(1) order_refl fit, of "PageStart s"] unfolding mult_zero_left by blast
  have "b ! nat (y * ?C + x) = at s (PageStart s + y) x"
    if "0 \<le> y" "y < NumOfLines s" "in_cols s x" for y x
  proof -
    have "in_arr ?z (y * ?C + x)"
      using flat_in [of x ?C y "NumOfLines s" ?z] that lz by (simp add: in_cols_def mult.commute)
    then show ?thesis using n [OF that(3)] that by simp
  qed
  then have "saved_page s b" unfolding saved_page_def using b(2) lz by metis
  moreover have "BuffSaveScreen alloc s =
      Some (s\<lparr>SaveBuff := Some b, SaveBuffX := ?C, SaveBuffY := NumOfLines s\<rparr>)"
    using b(1) assms(2,3) GetLinePtr_page [OF g(1,2)] by (simp add: BuffSaveScreen_def Let_def)
  ultimately show ?thesis by blast
qed

lemma cells_upd: "at (s\<lparr>CodeBuffW := t\<rparr>) L x = t ! nat (row_ptr s L + x)"
  by (simp add: at_def row_ptr_def)

lemma restore_lines_rows:
  assumes "geom_ok s" "1 \<le> X" "X \<le> NumOfColumns s" "X \<le> SaveBuffX s" "0 \<le> k"
    "(k + int n) * SaveBuffX s \<le> int (length b)" "B \<le> L" "L + int n \<le> B + NumOfLinesInBuff s"
  shows "\<exists>t. restore_lines X b (k * SaveBuffX s) (row_ptr s L) n s = Some t \<and> same_but_cells s t \<and>
    (\<forall>K x. B \<le> K \<longrightarrow> K < B + NumOfLinesInBuff s \<longrightarrow> in_cols s x \<longrightarrow> at t K x =
      (if L \<le> K \<and> K < L + int n \<and> x < X
       then cut_at (conv s) (X - 1) x (b ! nat ((K - L + k) * SaveBuffX s + x)) else at s K x))"
  using assms
proof (induction n arbitrary: s k L)
  case 0
  then show ?case by auto
next
  case (Suc n)
  let ?S = "SaveBuffX s"
  have S: "0 < ?S" using Suc.prems by simp
  have fit: "0 \<le> k * ?S" "k * ?S + X \<le> int (length b)"
  proof -
    show "0 \<le> k * ?S" using S Suc.prems(5) by simp
    have "(k + 1) * ?S \<le> (k + int (Suc n)) * ?S" using S by (intro mult_right_mono) auto
    then show "k * ?S + X \<le> int (length b)" using Suc.prems(4,6) by (simp add: algebra_simps)
  qed
  note rb = row_bounds [OF Suc.prems(1), of L]
  obtain c where c: "Option.bind (memcpyX (CodeBuffW s) (row_ptr s L) b (k * ?S) X)
      (cut_kanji (conv s) (row_ptr s L + X - 1)) = Some c" "length c = length (CodeBuffW s)"
    and n: "\<And>i. in_arr (CodeBuffW s) i \<Longrightarrow> c ! nat i =
      (if row_ptr s L \<le> i \<and> i < row_ptr s L + X
       then cut_at (conv s) (X - 1) (i - row_ptr s L) (b ! nat (i - row_ptr s L + k * ?S))
       else CodeBuffW s ! nat i)"
    using copy_cut_eq [OF rb(1) Suc.prems(2) _ fit, where b = "CodeBuffW s" and cv = "conv s"]
      rb(2) Suc.prems(1,3) by (auto simp: geom_ok_def)
  let ?s = "s\<lparr>CodeBuffW := c\<rparr>"
  have sm: "same_but_cells s ?s" using c(2) by (simp add: same_but_cells_def)
  note f = same_frame [OF sm]
  have nx: "NextLinePtr s (row_ptr s L) = row_ptr ?s (L + 1)"
    using NextLinePtr_row [OF Suc.prems(1), of 0 L] Suc.prems(1) f by (simp add: geom_ok_def)
  have pre: "geom_ok ?s" "1 \<le> X" "X \<le> NumOfColumns ?s" "X \<le> SaveBuffX ?s" "0 \<le> k + 1"
    "(k + 1 + int n) * SaveBuffX ?s \<le> int (length b)" "B \<le> L + 1"
    "L + 1 + int n \<le> B + NumOfLinesInBuff ?s"
    using Suc.prems f by (simp_all add: algebra_simps)
  obtain t where t: "restore_lines X b ((k + 1) * SaveBuffX ?s) (row_ptr ?s (L + 1)) n ?s = Some t"
    "same_but_cells ?s t"
    and a: "\<And>K x. B \<le> K \<Longrightarrow> K < B + NumOfLinesInBuff ?s \<Longrightarrow> in_cols ?s x \<Longrightarrow> at t K x =
      (if L + 1 \<le> K \<and> K < L + 1 + int n \<and> x < X
       then cut_at (conv ?s) (X - 1) x (b ! nat ((K - (L + 1) + (k + 1)) * SaveBuffX ?s + x)) else at ?s K x)"
    using Suc.IH [OF pre] by blast
  have "at t K x = (if L \<le> K \<and> K < L + int (Suc n) \<and> x < X
       then cut_at (conv s) (X - 1) x (b ! nat ((K - L + k) * ?S + x)) else at s K x)"
    if K: "B \<le> K" "K < B + NumOfLinesInBuff s" "in_cols s x" for K x
  proof -
    have w: "(K - L) mod NumOfLinesInBuff s = 0 \<longleftrightarrow> K = L"
      using window_mod [of B K "NumOfLinesInBuff s" L] K Suc.prems by auto
    have x: "0 \<le> x" "x < NumOfColumns s" using K(3) by (auto simp: in_cols_def)
    have r: "row_ptr s L \<le> row_ptr s K + x \<and> row_ptr s K + x < row_ptr s L + X \<longleftrightarrow> K = L \<and> x < X"
      using row_range [OF Suc.prems(1) K(3), of 0 X L K] w Suc.prems(2,3) x by simp
    have e: "at ?s K x = (if K = L \<and> x < X
        then cut_at (conv s) (X - 1) x (b ! nat (k * ?S + x)) else at s K x)"
      unfolding cells_upd n [OF row_in_arr [OF Suc.prems(1) K(3)]] r
      by (auto simp: at_def add.commute)
    have z: "K - (L + 1) + (k + 1) = K - L + k" by simp
    have "at t K x = (if L + 1 \<le> K \<and> K < L + 1 + int n \<and> x < X
       then cut_at (conv s) (X - 1) x (b ! nat ((K - L + k) * ?S + x)) else at ?s K x)"
      using a [of K x] K f unfolding z by (simp add: in_cols_def)
    then show ?thesis unfolding e by auto
  qed
  moreover have "restore_lines X b (k * ?S) (row_ptr s L) (Suc n) s = Some t"
    using c(1) t(1) nx by (simp add: bind_eq_Some_conv) (auto simp: algebra_simps)
  ultimately show ?case using same_trans [OF sm t(2)] by blast
qed

lemma save_frame [simp]:
  "screen_ok (s\<lparr>SaveBuff := b, SaveBuffX := x, SaveBuffY := y\<rparr>) = screen_ok s"
  "screen_ok (s\<lparr>SaveBuff := b\<rparr>) = screen_ok s" "at (s\<lparr>SaveBuff := b\<rparr>) = at s"
  by (simp_all add: screen_ok_def page_ok_def geom_ok_def cursor_ok_def lineptr_ok_def row_ptr_def
      at_def [abs_def])

text \<open>
  C8. The alternate screen: whatever happens to the screen between \<open>BuffSaveScreen\<close> and
  \<open>BuffRestoreScreen\<close>, as long as the saved array and the size of the page stay, the page is the
  saved one again (a wide character cut by the last column excepted), the history is not
  touched, and the saved array is freed.
\<close>

theorem BuffSave_Restore:
  assumes "screen_ok s" "SaveBuff s = None" "alloc (NumOfColumns s * NumOfLines s)"
    and "BuffSaveScreen alloc s = Some v" "screen_ok u"
    and "SaveBuff u = SaveBuff v" "SaveBuffX u = SaveBuffX v" "SaveBuffY u = SaveBuffY v"
    and "NumOfColumns u = NumOfColumns s" "NumOfLines u = NumOfLines s"
  shows "\<exists>w. BuffRestoreScreen u = Some w \<and> screen_ok w \<and> SaveBuff w = None \<and>
    (\<forall>K x. 0 \<le> K \<longrightarrow> K < NumOfLinesInBuff u \<longrightarrow> in_cols u x \<longrightarrow> at w K x =
      (if PageStart u \<le> K \<and> K < PageStart u + NumOfLines u
       then cut_at (conv u) (NumOfColumns s - 1) x (at s (PageStart s + (K - PageStart u)) x)
       else at u K x))"
proof -
  let ?C = "NumOfColumns s" and ?n = "nat (NumOfLines s)" and ?P = "PageStart u"
  have pk: "page_ok s" using assms(1) by (simp add: screen_ok_def)
  obtain b where "BuffSaveScreen alloc s =
      Some (s\<lparr>SaveBuff := Some b, SaveBuffX := ?C, SaveBuffY := NumOfLines s\<rparr>)" and b: "saved_page s b"
    using BuffSaveScreen_saves [OF pk assms(2), of alloc] assms(3) by blast
  then have sv: "SaveBuff u = Some b" "SaveBuffX u = ?C" "SaveBuffY u = NumOfLines s"
    using assms(4,6-8) by auto
  have g: "geom_ok u" "0 < NumOfLines s" "1 \<le> ?C" "0 \<le> ?P" "0 + int ?n \<le> NumOfLinesInBuff u"
    "?P + int ?n \<le> 0 + NumOfLinesInBuff u"
    using assms(5,9,10) by (auto simp: screen_ok_def page_ok_def geom_ok_def)
  have fit: "(0 + int ?n) * SaveBuffX u \<le> int (length b)"
    using b g(2) sv(2) by (simp add: saved_page_def mult.commute)
  have X: "1 \<le> ?C" "?C \<le> NumOfColumns u" "?C \<le> SaveBuffX u" "(0::int) \<le> 0"
    using g assms(9) sv by simp_all
  obtain t where t: "restore_lines ?C b (0 * SaveBuffX u) (row_ptr u ?P) ?n u = Some t"
      "same_but_cells u t"
    and a: "\<And>K x. 0 \<le> K \<Longrightarrow> K < 0 + NumOfLinesInBuff u \<Longrightarrow> in_cols u x \<Longrightarrow> at t K x =
      (if ?P \<le> K \<and> K < ?P + int ?n \<and> x < ?C
       then cut_at (conv u) (?C - 1) x (b ! nat ((K - ?P + 0) * SaveBuffX u + x)) else at u K x)"
    using restore_lines_rows [OF g(1) X fit g(4) g(6)] by blast
  have "BuffRestoreScreen u = Some (t\<lparr>SaveBuff := None\<rparr>)"
    using t(1) sv g assms(9,10) GetLinePtr_page [OF g(1,4)]
    by (simp add: BuffRestoreScreen_def BuffDiscardSavedScreen_def Let_def)
  moreover have "at t K x = (if ?P \<le> K \<and> K < ?P + NumOfLines u
       then cut_at (conv u) (?C - 1) x (at s (PageStart s + (K - ?P)) x) else at u K x)"
    if K: "0 \<le> K" "K < NumOfLinesInBuff u" "in_cols u x" for K x
  proof -
    have "x < ?C" "in_cols s x" using K(3) assms(9) by (auto simp: in_cols_def)
    then show ?thesis
      using a [of K x] K b assms(10) sv(2) g(2) by (auto simp: saved_page_def)
  qed
  moreover have "screen_ok t" using same_but_cells_ok(4) [OF t(2)] assms(5) by simp
  ultimately show ?thesis by (intro exI [of _ "t\<lparr>SaveBuff := None\<rparr>"]) simp
qed

lemma BuffSave_Restore_witness:
  "\<exists>s1 s3. BuffSaveScreen (\<lambda>_. True) sample_screen = Some s1 \<and> BuffRestoreScreen s1 = Some s3 \<and>
     SaveBuff s3 = None"
proof -
  have n: "SaveBuff sample_screen = None" by (simp add: sample_screen_def)
  obtain b where b: "BuffSaveScreen (\<lambda>_. True) sample_screen =
      Some (sample_screen\<lparr>SaveBuff := Some b, SaveBuffX := 4, SaveBuffY := 3\<rparr>)"
    using BuffSaveScreen_saves [OF sample_ok(2) n, of "\<lambda>_. True"] by auto
  have "\<exists>s3. BuffRestoreScreen (sample_screen\<lparr>SaveBuff := Some b, SaveBuffX := 4, SaveBuffY := 3\<rparr>)
      = Some s3 \<and> SaveBuff s3 = None"
    using BuffSave_Restore [OF sample_ok(5) n _ b,
        where u = "sample_screen\<lparr>SaveBuff := Some b, SaveBuffX := 4, SaveBuffY := 3\<rparr>"] by simp blast
  then show ?thesis using b by blast
qed

subsection \<open>A new array keeps the newest lines\<close>

lemma change_lines_rows:
  assumes "geom_ok s" "0 \<le> k" "1 \<le> W" "W \<le> NumOfColumns s" "W \<le> Nx"
    "(k + int n) * Nx \<le> int (length b)"
  shows "\<exists>b'. change_lines s Nx W b (row_ptr s L) (k * Nx) n = Some b' \<and> length b' = length b \<and>
    (\<forall>y x. 0 \<le> x \<longrightarrow> x < Nx \<longrightarrow> in_arr b (y * Nx + x) \<longrightarrow> b' ! nat (y * Nx + x) =
      (if k \<le> y \<and> y < k + int n \<and> x < W
       then cut_at (conv s) (W - 1) x (at s (L + (y - k)) x) else b ! nat (y * Nx + x)))"
  using assms
proof (induction n arbitrary: b k L)
  case 0
  then show ?case by auto
next
  case (Suc n)
  have C: "0 < Nx" "0 < NumOfColumns s" using Suc.prems by (simp_all add: geom_ok_def)
  have fit: "0 \<le> k * Nx" "k * Nx + W \<le> int (length b)"
  proof -
    show "0 \<le> k * Nx" using C Suc.prems(2) by simp
    have "(k + 1) * Nx \<le> (k + int (Suc n)) * Nx" using C by (intro mult_right_mono) auto
    then show "k * Nx + W \<le> int (length b)" using Suc.prems(5,6) by (simp add: algebra_simps)
  qed
  note rb = row_bounds [OF Suc.prems(1), of L]
  have src: "row_ptr s L + W \<le> int (length (CodeBuffW s))"
    using rb(2) Suc.prems(1,4) by (simp add: geom_ok_def)
  obtain b1 where b1: "Option.bind (memcpyX b (k * Nx) (CodeBuffW s) (row_ptr s L) W)
      (cut_kanji (conv s) (k * Nx + W - 1)) = Some b1" "length b1 = length b"
    and n1: "\<And>i. in_arr b i \<Longrightarrow> b1 ! nat i = (if k * Nx \<le> i \<and> i < k * Nx + W
        then cut_at (conv s) (W - 1) (i - k * Nx) (CodeBuffW s ! nat (i - k * Nx + row_ptr s L))
        else b ! nat i)"
    using copy_cut_eq [OF fit(1) Suc.prems(3) fit(2) rb(1) src, of "conv s"] by blast
  have e: "in_arr b1 = in_arr b" using b1(2) by (simp add: in_arr_def [abs_def])
  have nx: "NextLinePtr s (row_ptr s L) = row_ptr s (L + 1)"
    using NextLinePtr_row [OF Suc.prems(1), of 0 L] C by simp
  have pre: "0 \<le> k + 1" "(k + 1 + int n) * Nx \<le> int (length b1)"
    using Suc.prems(2,6) b1(2) by (simp_all add: algebra_simps)
  obtain b2 where b2: "change_lines s Nx W b1 (row_ptr s (L + 1)) ((k + 1) * Nx) n = Some b2"
    "length b2 = length b1"
    and n2: "\<And>y x. 0 \<le> x \<Longrightarrow> x < Nx \<Longrightarrow> in_arr b1 (y * Nx + x) \<Longrightarrow> b2 ! nat (y * Nx + x) =
      (if k + 1 \<le> y \<and> y < k + 1 + int n \<and> x < W
       then cut_at (conv s) (W - 1) x (at s (L + 1 + (y - (k + 1))) x) else b1 ! nat (y * Nx + x))"
    using Suc.IH [OF Suc.prems(1) pre(1) Suc.prems(3-5) pre(2), of "L + 1"] by blast
  have "b2 ! nat (y * Nx + x) = (if k \<le> y \<and> y < k + int (Suc n) \<and> x < W
      then cut_at (conv s) (W - 1) x (at s (L + (y - k)) x) else b ! nat (y * Nx + x))"
    if x: "0 \<le> x" "x < Nx" and i: "in_arr b (y * Nx + x)" for y x
  proof -
    have "b1 ! nat (y * Nx + x) = (if y = k \<and> x < W then cut_at (conv s) (W - 1) x (at s L x)
        else b ! nat (y * Nx + x))"
      unfolding n1 [OF i] flat_range [OF x Suc.prems(5)] by (auto simp: at_def add.commute)
    moreover have "L + 1 + (y - (k + 1)) = L + (y - k)" by simp
    ultimately show ?thesis using n2 [OF x i [folded e]] by auto
  qed
  moreover have "change_lines s Nx W b (row_ptr s L) (k * Nx) (Suc n) = Some b2"
    using b1(1) b2(1) nx by (auto simp: bind_eq_Some_conv algebra_simps)
  ultimately show ?case using b1(2) b2(2) by auto
qed

lemma new_array_cells:
  assumes "0 \<le> n"
  shows "\<exists>b. new_array s n = Some b \<and> int (length b) = n \<and>
    (\<forall>i. in_arr b i \<longrightarrow> b ! nat i = blank_cell (conv s) 0x20 AttrDefaultFG AttrDefaultBG AttrDefault AttrDefault)"
proof -
  let ?z = "replicate (nat n) zero_cell"
  let ?f = "set_cell (conv s) 0x20 AttrDefaultFG AttrDefaultBG AttrDefault AttrDefault"
  have "update_run ?f ?z 0 (nat n) = Some (updated ?f ?z 0 (int (nat n)))"
    using assms by (intro update_run_updated) simp_all
  then show ?thesis using assms
    by (auto simp: new_array_def memsetW_def nth_updated in_arr_def set_cell_blank)
qed

lemma LockBuffer_frame:
  assumes "geom_ok s" "0 \<le> PageStart s + CursorY s"
  shows "\<exists>l k. LockBuffer s = Some (s\<lparr>LinePtr := l, BuffLock := k\<rparr>)"
proof (cases "BuffLock s + 1 > 1")
  case True
  then have "LockBuffer s = Some (s\<lparr>LinePtr := LinePtr s, BuffLock := BuffLock s + 1\<rparr>)"
    by (simp add: LockBuffer_def)
  then show ?thesis by blast
next
  case False
  have "GetLinePtr (PageStart s + CursorY s) (s\<lparr>BuffLock := BuffLock s + 1\<rparr>)
      = Some (row_ptr s (PageStart s + CursorY s))"
    using GetLinePtr_page [OF assms] by (simp add: GetLinePtr_def)
  then have "LockBuffer s = Some (s\<lparr>LinePtr := row_ptr s (PageStart s + CursorY s), BuffLock := BuffLock s + 1\<rparr>)"
    using False by (simp add: LockBuffer_def NewLine_def)
  then show ?thesis by blast
qed

lemma store_frame [simp]:
  "geom_ok (s\<lparr>LinePtr := l, BuffLock := k\<rparr>) = geom_ok s"
  "row_ptr (s\<lparr>LinePtr := l, BuffLock := k\<rparr>) = row_ptr s"
  "at (s\<lparr>LinePtr := l, BuffLock := k\<rparr>) = at s"
  "geom_ok (s\<lparr>ts := v\<rparr>) = geom_ok s" "row_ptr (s\<lparr>ts := v\<rparr>) = row_ptr s" "at (s\<lparr>ts := v\<rparr>) = at s"
  "page_ok (s\<lparr>ts := v\<rparr>) = page_ok s"
  by (simp_all add: geom_ok_def row_ptr_def [abs_def] at_def [abs_def] page_ok_def)

lemma limit_frame [simp]:
  "geom_ok (limit_scroll_max s) = geom_ok s" "page_ok (limit_scroll_max s) = page_ok s"
  "at (limit_scroll_max s) = at s" "BuffEnd (limit_scroll_max s) = BuffEnd s"
  "NumOfColumns (limit_scroll_max s) = NumOfColumns s" "NumOfLines (limit_scroll_max s) = NumOfLines s"
  "conv (limit_scroll_max s) = conv s" "CursorY (limit_scroll_max s) = CursorY s"
  "PageStart (limit_scroll_max s) = PageStart s" "StatusLine (limit_scroll_max s) = StatusLine s"
  "CursorX (limit_scroll_max s) = CursorX s" "TabStops (limit_scroll_max s) = TabStops s"
  "BuffLock (limit_scroll_max s) = BuffLock s"
  by (simp_all add: limit_scroll_max_def)

text \<open>The new size that \<open>ChangeBuffer\<close> settles for.\<close>

definition new_cols :: "int \<Rightarrow> int" where
  "new_cols Nx = (if Nx > BuffXMax then BuffXMax else Nx)"

definition new_lines :: "int \<Rightarrow> int \<Rightarrow> screen \<Rightarrow> int" where
  "new_lines Nx Ny s = buffer_lines (new_cols Nx) Ny (ScrollBuffMax (ts (limit_scroll_max s)))"

text \<open>The cell that column \<open>x\<close> of line \<open>L\<close> becomes when the width changes to \<open>Nx\<close>.\<close>

definition resized :: "screen \<Rightarrow> int \<Rightarrow> int \<Rightarrow> int \<Rightarrow> buff_char" where
  "resized s Nx L x =
     (let W = min Nx (NumOfColumns s)
      in if x < W then cut_at (conv s) (W - 1) x (at s L x)
         else blank_cell (conv s) 0x20 AttrDefaultFG AttrDefaultBG AttrDefault AttrDefault)"

text \<open>What \<open>ChangeBuffer\<close> leaves alone, and the ring variables it sets.\<close>

definition change_frame :: "screen \<Rightarrow> int \<Rightarrow> screen \<Rightarrow> bool" where
  "change_frame s Y t \<longleftrightarrow> NumOfLines t = NumOfLines s \<and> NumOfColumns t = NumOfColumns s \<and>
     StatusLine t = StatusLine s \<and> CursorX t = CursorX s \<and> CursorY t = CursorY s \<and>
     ts t = ts (limit_scroll_max s) \<and> TabStops t = TabStops s \<and> BuffStartAbs t = 0 \<and>
     NumOfLinesInBuff t = Y \<and> BuffEndAbs t = (if BuffEnd t = Y then 0 else BuffEnd t)"

lemma ChangeBuffer_newest:
  assumes "page_ok s" "0 \<le> CursorY s" "1 \<le> Nx" "NumOfLines s \<le> new_lines Nx Ny s"
    and "alloc (new_cols Nx * new_lines Nx Ny s)"
  shows "\<exists>t. ChangeBuffer alloc Nx Ny s = Some (t, True) \<and>
    page_ok (t\<lparr>NumOfColumns := new_cols Nx\<rparr>) \<and>
    BuffEnd t = min (BuffEnd s) (new_lines Nx Ny s) \<and> BuffLock t = BuffLock s \<and> change_frame s (new_lines Nx Ny s) t \<and>
    (\<forall>L x. 0 \<le> L \<longrightarrow> L < BuffEnd t \<longrightarrow> 0 \<le> x \<longrightarrow> x < new_cols Nx \<longrightarrow>
      at (t\<lparr>NumOfColumns := new_cols Nx\<rparr>) L x = resized s (new_cols Nx) (BuffEnd s - BuffEnd t + L) x)"
proof -
  define u where "u = limit_scroll_max s"
  define X where "X = new_cols Nx"
  define Y where "Y = new_lines Nx Ny s"
  define W where "W = min X (NumOfColumns s)"
  define N where "N = min (BuffEnd s) Y"
  note lf = limit_frame [of s, folded u_def]
  have X: "1 \<le> X" using assms(3) by (simp add: X_def new_cols_def BuffXMax_def)
  have pk: "0 < NumOfColumns s" "0 < NumOfLines s" "NumOfLines s \<le> BuffEnd s" "NumOfLines s \<le> Y"
    "BuffEnd s \<le> NumOfLinesInBuff s" "geom_ok s" "0 \<le> PageStart s + CursorY s"
    using assms by (auto simp: page_ok_def geom_ok_def Y_def)
  have W: "1 \<le> W" "W \<le> NumOfColumns s" "W \<le> X" using X pk by (auto simp: W_def)
  have N: "0 \<le> N" "N \<le> Y" "NumOfLines s \<le> N" "N \<le> BuffEnd s" using pk by (auto simp: N_def)
  have al: "alloc (X * Y)" using assms(5) by (simp add: X_def Y_def)
  have yy: "buffer_lines X Ny (ScrollBuffMax (ts u)) = Y"
    by (simp add: Y_def new_lines_def X_def u_def)
  obtain b where b: "new_array u (X * Y) = Some b" "int (length b) = X * Y"
    and nb: "\<And>i. in_arr b i \<Longrightarrow> b ! nat i = blank_cell (conv u) 0x20 AttrDefaultFG AttrDefaultBG AttrDefault AttrDefault"
    using new_array_cells [of "X * Y" u] X N by auto
  obtain l k where lk: "LockBuffer u = Some (u\<lparr>LinePtr := l, BuffLock := k\<rparr>)"
    using LockBuffer_frame [of u] pk lf by auto
  define v where "v = u\<lparr>LinePtr := l, BuffLock := k\<rparr>"
  have v: "geom_ok v" "at v = at s" "NumOfColumns v = NumOfColumns s" "conv v = conv s"
    "BuffEnd v = BuffEnd s"
    using pk(6) lf by (simp_all add: v_def)
  have ptr: "GetLinePtr (BuffEnd v - N) v = Some (row_ptr v (BuffEnd s - N))"
    using GetLinePtr_page [OF v(1), of "BuffEnd s - N"] N v(5) by simp
  have fit: "(0 + int (nat N)) * X \<le> int (length b)"
    unfolding b(2) using N X by (simp add: mult.commute)
  obtain c where c: "change_lines v X W b (row_ptr v (BuffEnd s - N)) (0 * X) (nat N) = Some c"
    "length c = length b"
    and nc: "\<And>y x. 0 \<le> x \<Longrightarrow> x < X \<Longrightarrow> in_arr b (y * X + x) \<Longrightarrow> c ! nat (y * X + x) =
      (if 0 \<le> y \<and> y < 0 + int (nat N) \<and> x < W
       then cut_at (conv v) (W - 1) x (at v (BuffEnd s - N + (y - 0)) x) else b ! nat (y * X + x))"
    using change_lines_rows [OF v(1) order_refl W(1) W(2) [folded v(3)] W(3) fit, of "BuffEnd s - N"]
    by blast
  define w where "w = (if Selected v then shift_selection (N - BuffEnd v) v else v)"
  define t where "t = (install_array c X Y N w)\<lparr>BuffLock := BuffLock u\<rparr>"
  have run: "ChangeBuffer alloc Nx Ny s = Some (t, True)"
  proof -
    have n: "(if BuffEnd u > Y then Y else BuffEnd u) = N" "(if NumOfColumns u > X then X else NumOfColumns u) = W"
      using lf by (auto simp: N_def W_def)
    show ?thesis
      unfolding ChangeBuffer_def new_cols_def [symmetric] X_def [symmetric] u_def [symmetric] Let_def yy
        b(1) n lk v_def [symmetric] Option.bind.bind_lunit ptr
      using al c(1) by (simp add: w_def t_def)
  qed
  have w: "NumOfLines w = NumOfLines s" using lf by (simp add: w_def v_def shift_selection_def Let_def)
  let ?t = "t\<lparr>NumOfColumns := X\<rparr>"
  have ft: "NumOfColumns ?t = X" "NumOfLinesInBuff ?t = Y" "BufferSize ?t = X * Y" "CodeBuffW ?t = c"
    "BuffStartAbs ?t = 0" "BuffEnd ?t = N" "BuffEndAbs ?t = (if N = Y then 0 else N)"
    "NumOfLines ?t = NumOfLines s" "PageStart ?t = N - NumOfLines s" "BuffLock t = BuffLock s" "BuffEnd t = N"
    using w by (simp_all add: t_def install_array_def Let_def u_def limit_scroll_max_def)
  have "page_ok ?t"
    using X pk N ft b(2) c(2) by (auto simp: page_ok_def geom_ok_def mult.commute)
  moreover have "at ?t L x = resized s X (BuffEnd s - N + L) x"
    if L: "0 \<le> L" "L < N" "0 \<le> x" "x < X" for L x
  proof -
    have i: "in_arr b (L * X + x)"
      using flat_in [of x X L Y b] L N b(2) by (simp add: mult.commute)
    have "row_ptr ?t L = L * X" using L N ft by (simp add: row_ptr_def mod_pos_pos_trivial)
    then have "at ?t L x = c ! nat (L * X + x)" using ft(4) by (simp add: at_def)
    also have "\<dots> = resized s X (BuffEnd s - N + L) x"
      unfolding nc [OF L(3,4) i] nb [OF i] using L v lf by (simp add: resized_def W_def Let_def)
    finally show ?thesis .
  qed
  moreover have "change_frame s Y t"
    using ft lf by (simp add: change_frame_def t_def w_def v_def u_def install_array_def
        shift_selection_def Let_def)
  ultimately show ?thesis using run ft unfolding X_def Y_def N_def by auto
qed

text \<open>
  C9. A new buffer keeps the newest lines that fit, each cut or padded to the new width: the
  ring, seen with the new number of columns, is well formed, ends with the same line, and a
  wide character cut at the right becomes a space.
\<close>

theorem ChangeBuffer_keeps:
  assumes "page_ok s" "0 \<le> CursorY s" "1 \<le> Nx" "NumOfLines s \<le> new_lines Nx Ny s"
    and "alloc (new_cols Nx * new_lines Nx Ny s)"
  shows "\<exists>t. ChangeBuffer alloc Nx Ny s = Some (t, True) \<and>
    page_ok (t\<lparr>NumOfColumns := new_cols Nx\<rparr>) \<and>
    BuffEnd t = min (BuffEnd s) (new_lines Nx Ny s) \<and> BuffLock t = BuffLock s \<and>
    (\<forall>L x. 0 \<le> L \<longrightarrow> L < BuffEnd t \<longrightarrow> 0 \<le> x \<longrightarrow> x < new_cols Nx \<longrightarrow>
      at (t\<lparr>NumOfColumns := new_cols Nx\<rparr>) L x = resized s (new_cols Nx) (BuffEnd s - BuffEnd t + L) x)"
  using ChangeBuffer_newest [of s Nx Ny alloc, OF assms] by blast

lemma ChangeBuffer_witness:
  "\<exists>t. ChangeBuffer (\<lambda>_. True) 3 4 sample_screen = Some (t, True) \<and>
     page_ok (t\<lparr>NumOfColumns := 3\<rparr>) \<and> BuffEnd t = 4"
proof -
  have n: "new_cols 3 = 3" "new_lines 3 4 sample_screen = 4"
    by (simp_all add: new_cols_def new_lines_def BuffXMax_def buffer_lines_def BuffSizeMax_def
        limit_scroll_max_def BuffYMax_def sample_screen_def sample_tset_def)
  show ?thesis
    using ChangeBuffer_keeps [OF sample_ok(2), of 3 4 "\<lambda>_. True"] unfolding n by auto
qed

subsection \<open>Resizing the terminal\<close>

lemma BuffScroll_keeps_TabStops:
  assumes "BuffScroll n b s = Some t" "scroll_frame s t"
  shows "TabStops t = TabStops s"
  using assms(2) unfolding scroll_frame_def by auto

lemma place_cursor_frame [simp]:
  "page_ok (place_cursor St s) = page_ok s" "geom_ok (place_cursor St s) = geom_ok s"
  "TabStops (place_cursor St s) = TabStops s" "NumOfColumns (place_cursor St s) = NumOfColumns s"
  "NumOfLines (place_cursor St s) = NumOfLines s" "PageStart (place_cursor St s) = PageStart s"
  by (simp_all add: place_cursor_def Let_def page_ok_def geom_ok_def)

lemma place_cursor_ok:
  assumes "0 < NumOfColumns s" "0 \<le> StatusLine s" "StatusLine s \<le> 1" "StatusLine s < NumOfLines s"
    and "0 \<le> CursorX s" "0 \<le> CursorY s"
  shows "cursor_ok (place_cursor St s)"
  using assms by (auto simp: place_cursor_def Let_def cursor_ok_def)

lemma tabs_frame [simp]:
  "page_ok (s\<lparr>NTabStops := n, TabStops := T\<rparr>) = page_ok s"
  "cursor_ok (s\<lparr>NTabStops := n, TabStops := T\<rparr>) = cursor_ok s"
  by (simp_all add: page_ok_def geom_ok_def cursor_ok_def)

text \<open>The end of a resize, on any ring that is in order but for its end.\<close>

lemma finish_resize:
  assumes "geom_ok s" "0 \<le> PageStart s" "length (TabStops s) = 256" "NumOfColumns s \<le> 1000"
    and "0 \<le> StatusLine s" "StatusLine s \<le> 1" "StatusLine s < NumOfLines s" "0 \<le> CursorX s" "0 \<le> CursorY s"
  shows "\<exists>t n T l. do { s \<leftarrow> reset_stops (place_cursor St s); NewLine (PageStart s + CursorY s) s } = Some t \<and>
    t = (place_cursor St s)\<lparr>NTabStops := n, TabStops := T, LinePtr := l\<rparr> \<and>
    cursor_ok t \<and> lineptr_ok t \<and> tabs_ok t"
proof -
  define p where "p = place_cursor St s"
  have c0: "0 < NumOfColumns s" using assms(1) by (simp add: geom_ok_def)
  have p: "geom_ok p" "0 \<le> PageStart p" "cursor_ok p" "length (TabStops p) = 256"
    "1 \<le> NumOfColumns p" "NumOfColumns p \<le> 2056"
    using assms c0 place_cursor_ok [of s St] by (simp_all add: p_def)
  let ?n = "(NumOfColumns p - 1) div 8"
  obtain T where T: "reset_stops p = Some (p\<lparr>NTabStops := ?n, TabStops := T\<rparr>)"
    "tabs_ok (p\<lparr>NTabStops := ?n, TabStops := T\<rparr>)"
    using reset_stops_eq [OF p(4-6)] by blast
  define q where "q = p\<lparr>NTabStops := ?n, TabStops := T\<rparr>"
  have q: "geom_ok q" "cursor_ok q" "tabs_ok q" "0 \<le> PageStart q + CursorY q"
    using p T(2) by (auto simp: q_def geom_ok_def cursor_ok_def)
  let ?t = "q\<lparr>LinePtr := row_ptr q (PageStart q + CursorY q)\<rparr>"
  have "cursor_ok ?t" "lineptr_ok ?t" "tabs_ok ?t" using q
    by (simp_all add: cursor_ok_def lineptr_ok_def row_ptr_def tabs_ok_def stops_def)
  moreover have "do { s \<leftarrow> reset_stops p; NewLine (PageStart s + CursorY s) s } = Some ?t"
    using T(1) GetLinePtr_page [OF q(1,4)] by (simp add: NewLine_def q_def)
  ultimately show ?thesis
    unfolding p_def [symmetric]
    by (intro exI [of _ ?t] exI [of _ ?n] exI [of _ T] exI [of _ "row_ptr q (PageStart q + CursorY q)"])
      (simp add: q_def)
qed

lemma resize_frame [simp]:
  "page_ok (s\<lparr>NTabStops := n, TabStops := T, LinePtr := l\<rparr>) = page_ok s"
  by (simp add: page_ok_def geom_ok_def)

lemma clear_on_resize:
  assumes "page_ok s" "0 \<le> CursorY s"
  shows "\<exists>t. (if c then BuffScroll (NumOfLines s) (NumOfLines s - 1) s else Some s) = Some t \<and>
    page_ok t \<and> scroll_frame s t"
proof (cases c)
  case True
  have "1 \<le> NumOfLines s" "-1 \<le> NumOfLines s - 1"
    "min (NumOfLines s) (NumOfLinesInBuff s) + below (NumOfLines s - 1) s \<le> NumOfLinesInBuff s"
    using assms(1) by (auto simp: page_ok_def below_def)
  then show ?thesis using BuffScroll_cells [OF assms] True by fastforce
next
  case False
  have "scroll_frame s s"
    unfolding scroll_frame_def
    by (rule exI [of _ "CodeBuffW s"], rule exI [of _ "LinePtr s"], rule exI [of _ "BuffEndAbs s"],
        rule exI [of _ "BuffEnd s"], rule exI [of _ "BuffStartAbs s"], rule exI [of _ "PageStart s"],
        rule exI [of _ "SelectStart s"], rule exI [of _ "SelectEnd s"], rule exI [of _ "Selected s"]) simp
  then show ?thesis using assms False by simp
qed

lemma set_size_page:
  assumes "page_ok (s\<lparr>NumOfColumns := Nx\<rparr>)"
  shows "page_ok (set_size Nx (NumOfLines s) (keep_scroll_size s))"
  using assms by (simp add: page_ok_def geom_ok_def set_size_def keep_scroll_size_def Let_def)

lemma set_size_fields [simp]:
  "NumOfColumns (set_size Nx Ny s) = Nx" "NumOfLines (set_size Nx Ny s) = Ny"
  "StatusLine (set_size Nx Ny s) = StatusLine s" "CursorX (set_size Nx Ny s) = CursorX s"
  "CursorY (set_size Nx Ny s) = CursorY s" "TabStops (set_size Nx Ny s) = TabStops s"
  "BuffEnd (set_size Nx Ny s) = BuffEnd s" "BuffEndAbs (set_size Nx Ny s) = BuffEndAbs s"
  "BuffStartAbs (set_size Nx Ny s) = BuffStartAbs s"
  "NumOfLinesInBuff (set_size Nx Ny s) = NumOfLinesInBuff s"
  "TermFlag (ts (set_size Nx Ny s)) = TermFlag (ts s)"
  by (simp_all add: set_size_def Let_def)

lemma keep_size_fields [simp]:
  "NumOfColumns (keep_scroll_size s) = NumOfColumns s" "NumOfLines (keep_scroll_size s) = NumOfLines s"
  "StatusLine (keep_scroll_size s) = StatusLine s" "CursorX (keep_scroll_size s) = CursorX s"
  "CursorY (keep_scroll_size s) = CursorY s" "TabStops (keep_scroll_size s) = TabStops s"
  "BuffEnd (keep_scroll_size s) = BuffEnd s" "BuffEndAbs (keep_scroll_size s) = BuffEndAbs s"
  "BuffStartAbs (keep_scroll_size s) = BuffStartAbs s"
  "NumOfLinesInBuff (keep_scroll_size s) = NumOfLinesInBuff s"
  "TermFlag (ts (keep_scroll_size s)) = TermFlag (ts s)"
  by (simp_all add: keep_scroll_size_def)

lemma limit_idem [simp]: "limit_scroll_max (limit_scroll_max s) = limit_scroll_max s"
  by (simp add: limit_scroll_max_def)

lemma limit_status [simp]: "isCursorOnStatusLine (limit_scroll_max s) = isCursorOnStatusLine s"
  by (simp add: isCursorOnStatusLine_def)

lemma limit_ring [simp]: "NumOfLinesInBuff (limit_scroll_max s) = NumOfLinesInBuff s"
  "TermFlag (ts (limit_scroll_max s)) = TermFlag (ts s)"
  by (simp_all add: limit_scroll_max_def)

text \<open>
  A change of the width alone, with or without the option to clear the screen: when the
  allocation succeeds and the lines fit, the screen's whole invariant holds for the new size,
  and so does that of the tab stops.
\<close>

theorem BuffChangeTerminalSize_width:
  assumes "screen_ok s" "length (TabStops s) = 256" "StatusLine s < NumOfLines s"
    and "1 \<le> Nx" "Nx \<le> BuffXMax" "Nx \<noteq> NumOfColumns s"
    and "NumOfLines s \<le> ScrollBuffMax (ts (limit_scroll_max s))"
  defines "u \<equiv> limit_scroll_max s"
  defines "Y \<equiv> new_lines Nx (scroll_lines_for (NumOfLines s) u) u"
  assumes "NumOfLines s \<le> Y" "alloc (Nx * Y)"
  shows "\<exists>t. BuffChangeTerminalSize alloc Nx (NumOfLines s - StatusLine s) s = Some t \<and> screen_ok t \<and>
    tabs_ok t \<and> NumOfColumns t = Nx \<and> NumOfLines t = NumOfLines s"
proof -
  have N: "new_cols Nx = Nx" "Nx \<le> 1000" using assms(5) by (simp_all add: new_cols_def BuffXMax_def)
  have ok: "page_ok u" "0 \<le> CursorY u" "0 \<le> CursorX s" "0 \<le> StatusLine s" "StatusLine s \<le> 1"
    "1 \<le> NumOfLines s"
  proof -
    show "page_ok u" "0 \<le> CursorY u" using assms(1) by (auto simp: u_def screen_ok_def cursor_ok_def)
  qed (use assms(1) in \<open>auto simp: screen_ok_def cursor_ok_def page_ok_def\<close>)
  have Yn: "NumOfLines u \<le> new_lines Nx (scroll_lines_for (NumOfLines s) u) u"
    "alloc (new_cols Nx * new_lines Nx (scroll_lines_for (NumOfLines s) u) u)"
    using assms(10,11) N by (simp_all add: Y_def u_def)
  obtain c where c: "ChangeBuffer alloc Nx (scroll_lines_for (NumOfLines s) u) u = Some (c, True)"
    "page_ok (c\<lparr>NumOfColumns := Nx\<rparr>)" "change_frame u Y c"
    using ChangeBuffer_newest [of u Nx "scroll_lines_for (NumOfLines s) u" alloc, OF ok(1,2) assms(4) Yn] unfolding N(1) Y_def by blast
  note cf = c(3) [unfolded change_frame_def]
  define v where "v = set_size Nx (NumOfLines s) (keep_scroll_size c)"
  have nl: "NumOfLines c = NumOfLines s" "NumOfLinesInBuff c = Y" using cf by (simp_all add: u_def)
  have v: "page_ok v" "NumOfColumns v = Nx" "NumOfLines v = NumOfLines s" "StatusLine v = StatusLine s"
    "CursorX v = CursorX s" "CursorY v = CursorY s" "TabStops v = TabStops s"
    using set_size_page [OF c(2)] cf nl by (simp_all add: v_def u_def)
  have fp: "follow_page (NumOfLines s) (keep_scroll_size c) = keep_scroll_size c"
    using nl by (simp add: follow_page_def)
  define w where "w = BuffScroll (NumOfLines v) (NumOfLines v - 1) v"
  obtain t where t: "(if TermFlag (ts v) AND TF_CLEARONRESIZE \<noteq> 0
      then BuffScroll (NumOfLines v) (NumOfLines v - 1) v else Some v) = Some t" "page_ok t" "scroll_frame v t"
    using clear_on_resize [OF v(1)] ok(2) v(6) u_def by fastforce
  note tf = scroll_frameD [OF t(3)]
  have tt: "TabStops t = TabStops s" using t(3) v(7) by (auto simp: scroll_frame_def)
  obtain r where r: "do { s \<leftarrow> reset_stops (place_cursor (isCursorOnStatusLine s) t); NewLine (PageStart s + CursorY s) s } = Some r"
    "screen_ok r" "tabs_ok r" "NumOfColumns r = Nx" "NumOfLines r = NumOfLines s"
  proof -
    have pt: "geom_ok t" "0 \<le> PageStart t" using t(2) by (auto simp: page_ok_def)
    obtain r n T l where "do { s \<leftarrow> reset_stops (place_cursor (isCursorOnStatusLine s) t); NewLine (PageStart s + CursorY s) s } = Some r"
      "r = (place_cursor (isCursorOnStatusLine s) t)\<lparr>NTabStops := n, TabStops := T, LinePtr := l\<rparr>"
      "cursor_ok r" "lineptr_ok r" "tabs_ok r"
      using finish_resize [OF pt, of "isCursorOnStatusLine s"] tf tt v ok assms(2,3) N(2) u_def by fastforce
    then show thesis using that [of r] t(2) tf v by (simp add: screen_ok_def)
  qed
  have e: "NumOfLines s - StatusLine s + StatusLine s = NumOfLines s"
    "(if Nx < 1 then 1 else Nx) = Nx" "(if NumOfLines s < 1 then 1 else NumOfLines s) = NumOfLines s"
    "(if Nx > BuffXMax then BuffXMax else Nx) = Nx"
    "(if NumOfLines s > ScrollBuffMax (ts u) then ScrollBuffMax (ts u) else NumOfLines s) = NumOfLines s"
    "(if NumOfLines s > NumOfLinesInBuff (keep_scroll_size c) then NumOfLinesInBuff (keep_scroll_size c)
      else NumOfLines s) = NumOfLines s"
    using assms(4,5,7,10) ok(6) nl by (auto simp: u_def)
  have ne: "Nx \<noteq> NumOfColumns u \<or> NumOfLines s \<noteq> NumOfLines u" using assms(6) by (simp add: u_def)
  have "BuffChangeTerminalSize alloc Nx (NumOfLines s - StatusLine s) s = Some r"
    unfolding BuffChangeTerminalSize_def Let_def e u_def [symmetric] if_P [OF ne] c(1)
      Option.bind.bind_lunit prod.case if_False not_True_eq_False fp v_def [symmetric] t(1)
    using r(1) by (simp add: u_def)
  then show ?thesis using r by blast
qed

lemma BuffChangeTerminalSize_width_witness:
  "\<exists>t. BuffChangeTerminalSize (\<lambda>_. True) 3 3 sample_screen = Some t \<and> screen_ok t"
proof -
  have n: "limit_scroll_max sample_screen = sample_screen" "length (TabStops sample_screen) = 256"
    by (simp_all add: limit_scroll_max_def BuffYMax_def sample_screen_def sample_tset_def)
  have l: "ScrollBuffMax (ts sample_screen) = 10000" "scroll_lines_for 3 sample_screen = 100"
    "new_lines 3 100 sample_screen = 100"
    unfolding new_lines_def n
    by (simp_all add: sample_screen_def sample_tset_def scroll_lines_for_def new_cols_def
        buffer_lines_def BuffSizeMax_def BuffXMax_def)
  show ?thesis
    using BuffChangeTerminalSize_width [of sample_screen 3 "\<lambda>_. True"] n l by (simp add: BuffXMax_def) blast
qed

text \<open>
  A window made lower while the cursor is near the top: \<open>BuffEnd\<close> moves with the page,
  \<open>BuffEndAbs\<close> stays, so the two variables no longer describe the same line and the invariant
  of the ring is lost (when the ring fills up, \<open>BuffScroll\<close> takes \<open>BuffStartAbs\<close> from it).
\<close>

theorem BuffChangeTerminalSize_stale_end:
  assumes "screen_ok s" "length (TabStops s) = 256" "TermFlag (ts s) AND TF_CLEARONRESIZE = 0"
    and "1 \<le> Nx" "Nx \<le> BuffXMax" "0 \<le> Ny" "Ny + StatusLine s < NumOfLines s" "CursorY s + 1 < Ny"
  defines "u \<equiv> limit_scroll_max s" and "H \<equiv> Ny + StatusLine s"
  defines "Y \<equiv> new_lines Nx (scroll_lines_for H u) u"
  assumes "H \<le> ScrollBuffMax (ts u)" "NumOfLines s \<le> Y" "alloc (Nx * Y)"
  shows "\<exists>t. BuffChangeTerminalSize alloc Nx Ny s = Some t \<and> NumOfLines t = H \<and>
    BuffEndAbs t \<noteq> (BuffStartAbs t + BuffEnd t) mod NumOfLinesInBuff t \<and> \<not> page_ok t"
proof -
  have N: "new_cols Nx = Nx" "Nx \<le> 1000" using assms(5) by (simp_all add: new_cols_def BuffXMax_def)
  have ok: "page_ok u" "0 \<le> CursorY u" "0 \<le> CursorX s" "0 \<le> CursorY s" "0 \<le> StatusLine s" "StatusLine s \<le> 1"
  proof -
    show "page_ok u" "0 \<le> CursorY u" using assms(1) by (auto simp: u_def screen_ok_def cursor_ok_def)
  qed (use assms(1) in \<open>auto simp: screen_ok_def cursor_ok_def page_ok_def\<close>)
  have H: "H < NumOfLines s" "CursorY s + StatusLine s + 1 < H" "1 \<le> H"
    using assms(7,8) ok by (auto simp: H_def)
  have Yn: "NumOfLines u \<le> new_lines Nx (scroll_lines_for H u) u"
    "alloc (new_cols Nx * new_lines Nx (scroll_lines_for H u) u)"
    using assms(13,14) N by (simp_all add: Y_def u_def)
  obtain c where c: "ChangeBuffer alloc Nx (scroll_lines_for H u) u = Some (c, True)"
    "page_ok (c\<lparr>NumOfColumns := Nx\<rparr>)" "change_frame u Y c"
    using ChangeBuffer_newest [of u Nx "scroll_lines_for H u" alloc, OF ok(1,2) assms(4) Yn]
    unfolding N(1) Y_def by blast
  note cf = c(3) [unfolded change_frame_def]
  have nl: "NumOfLines c = NumOfLines s" "NumOfLinesInBuff c = Y" "CursorY c = CursorY s"
    "StatusLine c = StatusLine s" "TermFlag (ts c) = TermFlag (ts s)"
    using cf by (simp_all add: u_def)
  have fp: "follow_page H (keep_scroll_size c)
      = (keep_scroll_size c)\<lparr>BuffEnd := BuffEnd c - (NumOfLines s - H)\<rparr>"
    using nl H assms(3) by (simp add: follow_page_def)
  define v where "v = set_size Nx H ((keep_scroll_size c)\<lparr>BuffEnd := BuffEnd c - (NumOfLines s - H)\<rparr>)"
  have be: "NumOfLines s \<le> BuffEnd c" "BuffEnd c \<le> Y" using c(2) nl by (auto simp: page_ok_def)
  have v: "NumOfColumns v = Nx" "NumOfLines v = H" "StatusLine v = StatusLine s" "CursorX v = CursorX s"
    "CursorY v = CursorY s" "TabStops v = TabStops s" "BuffEnd v = BuffEnd c - (NumOfLines s - H)"
    "BuffEndAbs v = BuffEndAbs c" "BuffStartAbs v = 0" "NumOfLinesInBuff v = Y"
    "TermFlag (ts v) AND TF_CLEARONRESIZE = 0" "PageStart v = BuffEnd c - NumOfLines s"
    using cf nl assms(3) by (simp_all add: v_def u_def set_size_def Let_def)
  have gv: "geom_ok v" "0 \<le> PageStart v"
    using c(2) be v(12) by (simp_all add: page_ok_def geom_ok_def v_def set_size_def keep_scroll_size_def Let_def)
  obtain r n T l where r: "do { s \<leftarrow> reset_stops (place_cursor (isCursorOnStatusLine s) v); NewLine (PageStart s + CursorY s) s } = Some r"
    "r = (place_cursor (isCursorOnStatusLine s) v)\<lparr>NTabStops := n, TabStops := T, LinePtr := l\<rparr>"
    using finish_resize [OF gv, of "isCursorOnStatusLine s"] v ok assms(2) H N(2) by fastforce
  have rf: "NumOfLines r = H" "BuffEndAbs r = BuffEndAbs c" "BuffStartAbs r = 0" "NumOfLinesInBuff r = Y"
    "BuffEnd r = BuffEnd c - (NumOfLines s - H)"
    using v by (simp_all add: r(2) place_cursor_def Let_def)
  have "(BuffStartAbs r + BuffEnd r) mod NumOfLinesInBuff r = BuffEnd c - (NumOfLines s - H)"
    unfolding rf using be H by (simp add: mod_pos_pos_trivial)
  moreover have "BuffEndAbs r = (if BuffEnd c = Y then 0 else BuffEnd c)" using cf rf by simp
  ultimately have ne: "BuffEndAbs r \<noteq> (BuffStartAbs r + BuffEnd r) mod NumOfLinesInBuff r"
    using be H by auto
  then have "\<not> page_ok r" by (auto simp: page_ok_def)
  moreover have "BuffChangeTerminalSize alloc Nx Ny s = Some r"
  proof -
    have e: "(if Nx < 1 then 1 else Nx) = Nx" "(if H < 1 then 1 else H) = H"
      "(if Nx > BuffXMax then BuffXMax else Nx) = Nx"
      "(if H > ScrollBuffMax (ts u) then ScrollBuffMax (ts u) else H) = H"
      "(if H > NumOfLinesInBuff (keep_scroll_size c) then NumOfLinesInBuff (keep_scroll_size c) else H) = H"
      using assms(4,5,12) nl H be by auto
    have ne: "Nx \<noteq> NumOfColumns u \<or> H \<noteq> NumOfLines u" using H by (simp add: u_def)
    have cl: "(TermFlag (ts v) AND TF_CLEARONRESIZE \<noteq> 0) = False" using v(11) by simp
    show ?thesis
      unfolding BuffChangeTerminalSize_def Let_def H_def [symmetric] e u_def [symmetric] if_P [OF ne] c(1)
        Option.bind.bind_lunit prod.case if_False not_True_eq_False fp v_def [symmetric] cl
      using r(1) by (simp add: u_def)
  qed
  ultimately show ?thesis using rf ne by blast
qed

lemma BuffChangeTerminalSize_stale_end_witness:
  "\<exists>t. BuffChangeTerminalSize (\<lambda>_. True) 4 2 (sample_screen\<lparr>CursorY := 0, LinePtr := 8\<rparr>) = Some t \<and>
     \<not> page_ok t"
proof -
  let ?s = "sample_screen\<lparr>CursorY := 0, LinePtr := 8\<rparr>"
  have ok: "screen_ok ?s"
    by (simp add: screen_ok_def page_ok_def geom_ok_def cursor_ok_def lineptr_ok_def row_ptr_def)
  have n: "limit_scroll_max ?s = ?s" "length (TabStops sample_screen) = 256"
    by (simp_all add: limit_scroll_max_def BuffYMax_def sample_screen_def sample_tset_def)
  have l: "ScrollBuffMax (ts sample_screen) = 10000" "scroll_lines_for 2 ?s = 100"
    "new_lines 4 100 ?s = 100" "TermFlag (ts sample_screen) = 0"
    unfolding new_lines_def n
    by (simp_all add: sample_screen_def sample_tset_def scroll_lines_for_def new_cols_def
        buffer_lines_def BuffSizeMax_def BuffXMax_def)
  show ?thesis
    using BuffChangeTerminalSize_stale_end [of ?s 4 2 "\<lambda>_. True"] ok n l
    by (simp add: BuffXMax_def) blast
qed

end
