(* ===== verification/CommBuff.thy ===== *)
theory CommBuff
  imports TT_Prelude
begin

section \<open>Communication buffers (teraterm/ttpcmn/ttcmn_buff.c)\<close>

text \<open>
  The input buffer, the output buffer and the line-mode buffer of a connection, with the
  functions that read and write them. A byte of the peer enters the input buffer, is read by
  \<open>CommRead1Byte\<close>, which takes the TELNET escapes out, or is left to the TELNET parser by
  \<open>TelMode\<close>; output goes through \<open>CommBinaryOut\<close>, which puts the escapes in.

  The buffers are queues inside arrays: \<open>inq\<close>, \<open>outq\<close> and \<open>lineq\<close> are their contents. The locale
  \<open>byte_sink\<close> states what a function promises that places one escaped byte at the end of a
  queue; the output, the echo and the line mode are interpretations of it. The conversion of
  text (\<open>CommTextOutW\<close>, which calls \<open>MakeOutputString\<close>) and the binary log
  (\<open>FLogPutBinary\<close>, \<open>FLogBinSkip\<close>) are not modelled.
\<close>

definition InBuffSize :: int where "InBuffSize = 1024 * 64"
definition OutBuffSize :: int where "OutBuffSize = 1024 * 16"

datatype cr_send = IdCR | IdCRLF | IdLF | IdAUTO

record comvar =
  InBuff :: "u8 list"
  InBuffCount :: int
  InPtr :: int
  OutBuff :: "u8 list"
  OutBuffCount :: int
  OutPtr :: int
  LineModeBuff :: "u8 list"
  LineModeBuffCount :: int
  FlushLen :: int
  Flush :: bool
  Ready :: bool
  PortIsTCP :: bool
  TelFlag :: bool
  TelMode :: bool
  TelAutoDetect :: bool
  IACFlag :: bool
  TelCRFlag :: bool
  TelBinRecv :: bool
  TelBinSend :: bool
  TelLineMode :: bool
  CRSend :: cr_send

subsection \<open>\<open>memmove\<close> and \<open>memcpy\<close> on bytes\<close>

text \<open>A negative count becomes a huge \<open>size_t\<close>.\<close>

definition memmoveB :: "u8 list \<Rightarrow> int \<Rightarrow> int \<Rightarrow> int \<Rightarrow> u8 list option" where
  "memmoveB b d p n =
     (if n < 0 then None
      else if d \<le> p then copy_fwd b d p (nat n)
      else copy_bwd b (d + n - 1) (p + n - 1) (nat n))"

definition memcpyB :: "u8 list \<Rightarrow> int \<Rightarrow> u8 list \<Rightarrow> int \<Rightarrow> int \<Rightarrow> u8 list option" where
  "memcpyB b d t p n = (if n < 0 then None else copy_across b d t p (nat n))"

subsection \<open>Reading\<close>

definition CommReadRawByte :: "comvar \<Rightarrow> (comvar \<times> u8 option) option" where
  "CommReadRawByte cv =
     (if \<not> Ready cv then Some (cv, None)
      else if InBuffCount cv > 0
      then do {
        b \<leftarrow> rd (InBuff cv) (InPtr cv);
        let cv = cv\<lparr>InPtr := InPtr cv + 1, InBuffCount := InBuffCount cv - 1\<rparr>;
        Some (if InBuffCount cv = 0 then cv\<lparr>InPtr := 0\<rparr> else cv, Some b)
      }
      else Some (cv\<lparr>InPtr := 0\<rparr>, None))"

definition CommInsert1Byte :: "u8 \<Rightarrow> comvar \<Rightarrow> comvar option" where
  "CommInsert1Byte b cv =
     (if \<not> Ready cv then Some cv
      else do {
        cv \<leftarrow> (if InPtr cv = 0
              then do { B \<leftarrow> memmoveB (InBuff cv) 1 0 (InBuffCount cv); Some (cv\<lparr>InBuff := B\<rparr>) }
              else Some (cv\<lparr>InPtr := InPtr cv - 1\<rparr>));
        B \<leftarrow> wr (InBuff cv) (InPtr cv) b;
        Some (cv\<lparr>InBuff := B, InBuffCount := InBuffCount cv + 1\<rparr>)
      })"

text \<open>The byte read, if it is data; the TELNET escapes are taken out.\<close>

definition CommRead1Byte :: "comvar \<Rightarrow> (comvar \<times> u8 option) option" where
  "CommRead1Byte cv =
     (if \<not> Ready cv then Some (cv, None)
      else do {
        (cv, r) \<leftarrow> (if TelMode cv then Some (cv, None) else CommReadRawByte cv);
        (cv, r) \<leftarrow>
          Some (case r of
             Some b \<Rightarrow> if TelCRFlag cv then (cv\<lparr>TelCRFlag := False\<rparr>, if b = 0 then None else Some b)
                      else (cv, Some b)
           | None \<Rightarrow> (cv, None));
        case r of
          None \<Rightarrow> Some (cv, None)
        | Some b \<Rightarrow>
            if IACFlag cv
            then (let cv = cv\<lparr>IACFlag := False\<rparr>
                  in if b \<noteq> 0xFF
                     then do { cv \<leftarrow> CommInsert1Byte b (cv\<lparr>TelMode := True\<rparr>); Some (cv, None) }
                     else Some (cv, Some b))
            else if PortIsTCP cv \<and> b = 0xFF
            then (let cv = (if \<not> TelFlag cv \<and> TelAutoDetect cv then cv\<lparr>TelFlag := True\<rparr> else cv)
                  in if TelFlag cv then Some (cv\<lparr>IACFlag := True\<rparr>, None) else Some (cv, Some b))
            else if TelFlag cv \<and> \<not> TelBinRecv cv \<and> b = 0x0D
            then Some (cv\<lparr>TelCRFlag := True\<rparr>, Some b)
            else Some (cv, Some b)
      })"

subsection \<open>Writing\<close>

text \<open>The result is the number of bytes taken from \<open>B\<close>.\<close>

definition CommRawOut :: "u8 list \<Rightarrow> int \<Rightarrow> comvar \<Rightarrow> (comvar \<times> int) option" where
  "CommRawOut B C cv =
     (if \<not> Ready cv then Some (cv, C)
      else do {
        let a = (if C > OutBuffSize - OutBuffCount cv then OutBuffSize - OutBuffCount cv else C);
        cv \<leftarrow> (if OutPtr cv > 0
              then do {
                b \<leftarrow> memmoveB (OutBuff cv) 0 (OutPtr cv) (OutBuffCount cv);
                Some (cv\<lparr>OutBuff := b, OutPtr := 0\<rparr>)
              }
              else Some cv);
        b \<leftarrow> memcpyB (OutBuff cv) (OutBuffCount cv) B 0 a;
        Some (cv\<lparr>OutBuff := b, OutBuffCount := OutBuffCount cv + a\<rparr>, a)
      })"

text \<open>What one data byte becomes on a TELNET connection.\<close>

definition tel_escape :: "comvar \<Rightarrow> u8 \<Rightarrow> u8 list" where
  "tel_escape cv b =
     (if TelFlag cv \<and> b = 0x0D \<and> \<not> TelBinSend cv then [b, 0]
      else if TelFlag cv \<and> b = 0xFF then [b, 0xFF]
      else [b])"

text \<open>
  The loop \<open>while ((a > 0) && (i < C))\<close> of the three functions that send bytes: it stops at the
  first byte that \<open>one\<close> cannot place, and returns the number of bytes placed.
\<close>

fun send_bytes ::
  "(u8 \<Rightarrow> comvar \<Rightarrow> (comvar \<times> bool) option) \<Rightarrow> u8 list \<Rightarrow> comvar \<Rightarrow> (comvar \<times> int) option" where
  "send_bytes one [] cv = Some (cv, 0)"
| "send_bytes one (b # B) cv =
     do {
       (cv, fit) \<leftarrow> one b cv;
       if fit then do { (cv, i) \<leftarrow> send_bytes one B cv; Some (cv, i + 1) } else Some (cv, 0)
     }"

definition binary_one :: "u8 \<Rightarrow> comvar \<Rightarrow> (comvar \<times> bool) option" where
  "binary_one b cv =
     (let d = tel_escape cv b
      in if OutBuffSize - OutBuffCount cv - int (length d) \<ge> 0
         then do { (cv, _) \<leftarrow> CommRawOut d (int (length d)) cv; Some (cv, True) }
         else Some (cv, False))"

definition CommBinaryOut :: "u8 list \<Rightarrow> comvar \<Rightarrow> (comvar \<times> int) option" where
  "CommBinaryOut B cv =
     (if \<not> Ready cv then Some (cv, int (length B)) else send_bytes binary_one B cv)"

definition WriteOutBuff :: "u8 list \<Rightarrow> comvar \<Rightarrow> (comvar \<times> bool) option" where
  "WriteOutBuff TempStr cv =
     (let TempLen = int (length TempStr) in
      if TempLen = 0 then Some (cv, True)
      else if TelLineMode cv
      then do {
        let full = (OutBuffSize - LineModeBuffCount cv - TempLen < 0);
        cv \<leftarrow> (if \<not> full
              then do {
                b \<leftarrow> memcpyB (LineModeBuff cv) (LineModeBuffCount cv) TempStr 0 TempLen;
                let cv = cv\<lparr>LineModeBuff := b, LineModeBuffCount := LineModeBuffCount cv + TempLen\<rparr>;
                Some (if Flush cv then cv\<lparr>FlushLen := LineModeBuffCount cv\<rparr> else cv)
              }
              else Some cv);
        cv \<leftarrow> (if FlushLen cv > 0
              then do {
                (cv, OutLen) \<leftarrow> CommRawOut (LineModeBuff cv) (FlushLen cv) cv;
                let cv = cv\<lparr>FlushLen := FlushLen cv - OutLen,
                            LineModeBuffCount := LineModeBuffCount cv - OutLen\<rparr>;
                b \<leftarrow> memmoveB (LineModeBuff cv) 0 OutLen (LineModeBuffCount cv);
                Some (cv\<lparr>LineModeBuff := b\<rparr>)
              }
              else Some cv);
        Some (cv\<lparr>Flush := False\<rparr>, \<not> full)
      }
      else if OutBuffSize - OutBuffCount cv - TempLen < 0 then Some (cv, False)
      else do { (cv, _) \<leftarrow> CommRawOut TempStr TempLen cv; Some (cv, True) })"

definition WriteInBuff :: "u8 list \<Rightarrow> comvar \<Rightarrow> (comvar \<times> bool) option" where
  "WriteInBuff TempStr cv =
     (let TempLen = int (length TempStr) in
      if TempLen = 0 then Some (cv, True)
      else if InBuffSize - InPtr cv - InBuffCount cv < TempLen then Some (cv, False)
      else do {
        b \<leftarrow> memcpyB (InBuff cv) (InPtr cv + InBuffCount cv) TempStr 0 TempLen;
        Some (cv\<lparr>InBuff := b, InBuffCount := InBuffCount cv + TempLen\<rparr>, True)
      })"

definition PackInBuff :: "comvar \<Rightarrow> comvar option" where
  "PackInBuff cv =
     (if InBuffCount cv = 0 then Some (cv\<lparr>InPtr := 0\<rparr>)
      else if InPtr cv > 0 \<and> InPtr cv + InBuffCount cv > InBuffSize div 4 * 3
      then do {
        b \<leftarrow> memmoveB (InBuff cv) 0 (InPtr cv) (InBuffCount cv);
        Some (cv\<lparr>InBuff := b, InPtr := 0\<rparr>)
      }
      else Some cv)"

definition buff_one :: "u8 \<Rightarrow> comvar \<Rightarrow> (comvar \<times> bool) option" where
  "buff_one b cv =
     WriteOutBuff (tel_escape cv b)
       (if b = 0x0D \<and> TelLineMode cv then cv\<lparr>Flush := True\<rparr> else cv)"

definition CommBinaryBuffOut :: "u8 list \<Rightarrow> comvar \<Rightarrow> (comvar \<times> int) option" where
  "CommBinaryBuffOut B cv =
     (if \<not> Ready cv then Some (cv, int (length B)) else send_bytes buff_one B cv)"

definition echo_one :: "u8 \<Rightarrow> comvar \<Rightarrow> (comvar \<times> bool) option" where
  "echo_one b cv = WriteInBuff (tel_escape cv b) cv"

definition CommBinaryEcho :: "u8 list \<Rightarrow> comvar \<Rightarrow> (comvar \<times> int) option" where
  "CommBinaryEcho B cv =
     (if \<not> Ready cv then Some (cv, int (length B))
      else do { cv \<leftarrow> PackInBuff cv; send_bytes echo_one B cv })"

subsection \<open>Control characters of a text\<close>

text \<open>
  The two callbacks that turn a control character into bytes: to be sent, and to be echoed.
  With \<open>check_only\<close> they only say whether they would; otherwise the result is \<open>None\<close> when
  they leave the character to the caller.
\<close>

definition out_cr :: "comvar \<Rightarrow> u8 list" where
  "out_cr cv =
     (if CRSend cv = IdCRLF then [0x0D, 0x0A]
      else if CRSend cv = IdCR \<and> TelFlag cv \<and> \<not> TelBinSend cv then [0x0D, 0]
      else if CRSend cv = IdLF then [0x0A]
      else [0x0D])"

definition OutControl_check :: "u16 \<Rightarrow> bool" where
  "OutControl_check d \<longleftrightarrow> d = 0x0D \<or> d = 0x08 \<or> d = 0x15"

definition OutControl :: "u16 \<Rightarrow> comvar \<Rightarrow> comvar \<times> u8 list option" where
  "OutControl d cv =
     (if d = 0x0D then (if TelLineMode cv then cv\<lparr>Flush := True\<rparr> else cv, Some (out_cr cv))
      else if d = 0x08
      then (if TelLineMode cv
            then (if FlushLen cv < LineModeBuffCount cv
                  then cv\<lparr>LineModeBuffCount := LineModeBuffCount cv - 1\<rparr> else cv, Some [])
            else (cv, Some [0x08]))
      else if d = 0x15
      then (if TelLineMode cv then (cv\<lparr>LineModeBuffCount := FlushLen cv\<rparr>, Some [])
            else (cv, Some [0x15]))
      else (cv, None))"

definition ControlEcho_check :: "u16 \<Rightarrow> comvar \<Rightarrow> bool" where
  "ControlEcho_check d cv \<longleftrightarrow> d = 0x0D \<or> d = 0x15 \<and> TelLineMode cv"

definition ControlEcho :: "u16 \<Rightarrow> comvar \<Rightarrow> u8 list option" where
  "ControlEcho d cv =
     (if d = 0x0D then Some (out_cr cv)
      else if d = 0x15 \<and> TelLineMode cv then Some [0x1B, 0x5B, 0x47, 0x1B, 0x5B, 0x4B]
      else None)"

subsection \<open>Windows of an array\<close>

definition window :: "'a list \<Rightarrow> int \<Rightarrow> int \<Rightarrow> 'a list" where
  "window b p n = take (nat n) (drop (nat p) b)"

lemma length_window:
  "0 \<le> p \<Longrightarrow> 0 \<le> n \<Longrightarrow> p + n \<le> int (length b) \<Longrightarrow> length (window b p n) = nat n"
  by (auto simp: window_def)

lemma nth_window:
  "0 \<le> p \<Longrightarrow> 0 \<le> n \<Longrightarrow> p + n \<le> int (length b) \<Longrightarrow> k < nat n \<Longrightarrow>
    window b p n ! k = b ! nat (p + int k)"
  by (auto simp: window_def nat_add_distrib)

lemma window_empty [simp]: "window b p 0 = []"
  by (simp add: window_def)

lemma window_eqI:
  assumes "0 \<le> p" "0 \<le> n" "p + n \<le> int (length b)" "length xs = nat n"
    and "\<And>k. k < nat n \<Longrightarrow> b ! nat (p + int k) = xs ! k"
  shows "window b p n = xs"
  by (rule nth_equalityI) (use assms nth_window [OF assms(1-3)] length_window [OF assms(1-3)] in auto)

lemma window_Cons:
  assumes "0 \<le> p" "0 < n" "p + n \<le> int (length b)"
  shows "window b p n = b ! nat p # window b (p + 1) (n - 1)"
proof -
  have "nat p < length b" "nat n = Suc (nat (n - 1))" "nat (p + 1) = Suc (nat p)" using assms by auto
  then show ?thesis by (simp add: window_def Cons_nth_drop_Suc [symmetric])
qed

lemma memmoveB_window:
  assumes "0 \<le> d" "0 \<le> p" "0 \<le> n" "d + n \<le> int (length b)" "p + n \<le> int (length b)"
  shows "\<exists>b'. memmoveB b d p n = Some b' \<and> length b' = length b \<and> window b' d n = window b p n"
proof -
  let ?B = "blit b d p n"
  have "memmoveB b d p n = Some ?B"
  proof (cases "d \<le> p")
    case True
    then show ?thesis using copy_fwd_blit [of p d "nat n" b] assms by (simp add: memmoveB_def)
  next
    case False
    then show ?thesis using copy_bwd_blit [of "p + n - 1" "nat n" "d + n - 1" b] assms
      by (simp add: memmoveB_def)
  qed
  moreover have "window ?B d n = window b p n"
  proof (rule window_eqI)
    fix k assume k: "k < nat n"
    have "in_arr b (d + int k)" using k assms by (auto simp: in_arr_def)
    then show "?B ! nat (d + int k) = window b p n ! k"
      using nth_blit [of b "d + int k" d p n] nth_window [OF assms(2,3,5) k] k
      by (simp add: add.commute)
  qed (use assms length_window [OF assms(2,3,5)] in simp_all)
  ultimately show ?thesis by simp
qed

lemma memcpyB_window:
  assumes "0 \<le> p" "p \<le> d" "0 \<le> n" "d + n \<le> int (length b)" "n \<le> int (length t)"
  shows "\<exists>b'. memcpyB b d t 0 n = Some b' \<and> length b' = length b \<and>
    window b' p (d - p + n) = window b p (d - p) @ take (nat n) t"
proof -
  obtain b' where b': "copy_across b d t 0 (nat n) = Some b'" "length b' = length b"
    and v: "\<And>i. in_arr b i \<Longrightarrow> b' ! nat i =
      (if d \<le> i \<and> i < d + int (nat n) then t ! nat (i - d + 0) else b ! nat i)"
    using copy_across_eq [of d "nat n" b 0 t] assms by auto
  have "window b' p (d - p + n) = window b p (d - p) @ take (nat n) t"
  proof (rule window_eqI)
    have lw: "length (window b p (d - p)) = nat (d - p)" using assms by (intro length_window) auto
    then show "length (window b p (d - p) @ take (nat n) t) = nat (d - p + n)"
      using assms by (simp add: nat_add_distrib)
    fix k assume k: "k < nat (d - p + n)"
    have a: "in_arr b (p + int k)" using k assms by (auto simp: in_arr_def)
    show "b' ! nat (p + int k) = (window b p (d - p) @ take (nat n) t) ! k"
    proof (cases "k < nat (d - p)")
      case True
      then have "\<not> d \<le> p + int k" by auto
      then show ?thesis using v [OF a] nth_window [of p "d - p" b k] assms lw True
        by (simp add: nth_append)
    next
      case False
      then have "nat (p + int k - d) = k - nat (d - p)" "k - nat (d - p) < nat n"
        "d \<le> p + int k" "p + int k < d + n"
        using assms k by auto
      then show ?thesis using v [OF a] False lw assms k by (simp add: nth_append)
    qed
  qed (use assms b' in auto)
  then show ?thesis using b' assms(3) by (simp add: memcpyB_def)
qed

subsection \<open>The buffers as queues\<close>

definition inq :: "comvar \<Rightarrow> u8 list" where
  "inq cv = window (InBuff cv) (InPtr cv) (InBuffCount cv)"

definition outq :: "comvar \<Rightarrow> u8 list" where
  "outq cv = window (OutBuff cv) (OutPtr cv) (OutBuffCount cv)"

definition lineq :: "comvar \<Rightarrow> u8 list" where
  "lineq cv = window (LineModeBuff cv) 0 (LineModeBuffCount cv)"

definition comm_ok :: "comvar \<Rightarrow> bool" where
  "comm_ok cv \<longleftrightarrow>
     int (length (InBuff cv)) = InBuffSize \<and> int (length (OutBuff cv)) = OutBuffSize \<and>
     int (length (LineModeBuff cv)) = OutBuffSize \<and>
     0 \<le> InPtr cv \<and> 0 \<le> InBuffCount cv \<and> InPtr cv + InBuffCount cv \<le> InBuffSize \<and>
     0 \<le> OutPtr cv \<and> 0 \<le> OutBuffCount cv \<and> OutPtr cv + OutBuffCount cv \<le> OutBuffSize \<and>
     0 \<le> FlushLen cv \<and> FlushLen cv \<le> LineModeBuffCount cv \<and> LineModeBuffCount cv \<le> OutBuffSize"

lemma inq_length: "comm_ok cv \<Longrightarrow> int (length (inq cv)) = InBuffCount cv"
  using length_window [of "InPtr cv" "InBuffCount cv" "InBuff cv"] by (simp add: comm_ok_def inq_def)

lemma outq_length: "comm_ok cv \<Longrightarrow> int (length (outq cv)) = OutBuffCount cv"
  using length_window [of "OutPtr cv" "OutBuffCount cv" "OutBuff cv"] by (simp add: comm_ok_def outq_def)

text \<open>Reading takes the first byte of the queue and changes nothing but the queue.\<close>

lemma CommReadRawByte_get:
  assumes "comm_ok cv" "Ready cv"
  shows "\<exists>p n. CommReadRawByte cv = Some (cv\<lparr>InPtr := p, InBuffCount := n\<rparr>,
      case inq cv of [] \<Rightarrow> None | b # _ \<Rightarrow> Some b) \<and>
    comm_ok (cv\<lparr>InPtr := p, InBuffCount := n\<rparr>) \<and> inq (cv\<lparr>InPtr := p, InBuffCount := n\<rparr>) = tl (inq cv) \<and>
    (inq cv \<noteq> [] \<longrightarrow> n = InBuffCount cv - 1 \<and> (p = InPtr cv + 1 \<or> p = 0 \<and> n = 0))"
proof (cases "InBuffCount cv > 0")
  case True
  note a = assms(1) [unfolded comm_ok_def]
  have w: "inq cv = InBuff cv ! nat (InPtr cv) # window (InBuff cv) (InPtr cv + 1) (InBuffCount cv - 1)"
    unfolding inq_def using True a by (intro window_Cons) auto
  have r: "rd (InBuff cv) (InPtr cv) = Some (InBuff cv ! nat (InPtr cv))"
    using True a by (auto simp: rd_def in_arr_def)
  let ?p = "if InBuffCount cv - 1 = 0 then 0 else InPtr cv + 1"
  have "CommReadRawByte cv = Some (cv\<lparr>InPtr := ?p, InBuffCount := InBuffCount cv - 1\<rparr>, Some (InBuff cv ! nat (InPtr cv)))"
    using True r assms(2) by (simp add: CommReadRawByte_def Let_def)
  moreover have "inq (cv\<lparr>InPtr := ?p, InBuffCount := InBuffCount cv - 1\<rparr>) = tl (inq cv)"
    unfolding w by (simp add: inq_def)
  ultimately show ?thesis using w a True
    by (intro exI [of _ ?p] exI [of _ "InBuffCount cv - 1"]) (auto simp: comm_ok_def)
next
  case False
  then have z: "InBuffCount cv = 0" "inq cv = []" using assms(1) by (auto simp: comm_ok_def inq_def)
  then have "CommReadRawByte cv = Some (cv\<lparr>InPtr := 0, InBuffCount := 0\<rparr>, None)"
    using assms(2) by (simp add: CommReadRawByte_def)
  then show ?thesis using z assms(1)
    by (intro exI [of _ 0]) (auto simp: comm_ok_def inq_def)
qed

subsection \<open>Writing appends\<close>

text \<open>\<open>CommRawOut\<close> appends as many bytes as there is room for, and says how many.\<close>

lemma CommRawOut_append:
  assumes "comm_ok cv" "Ready cv" "0 \<le> C" "C \<le> int (length B)"
  defines "a \<equiv> min C (OutBuffSize - OutBuffCount cv)"
  shows "\<exists>b n. CommRawOut B C cv =
      Some (cv\<lparr>OutBuff := b, OutBuffCount := OutBuffCount cv + a, OutPtr := n\<rparr>, a) \<and>
    comm_ok (cv\<lparr>OutBuff := b, OutBuffCount := OutBuffCount cv + a, OutPtr := n\<rparr>) \<and>
    outq (cv\<lparr>OutBuff := b, OutBuffCount := OutBuffCount cv + a, OutPtr := n\<rparr>) = outq cv @ take (nat a) B"
proof -
  note k = assms(1) [unfolded comm_ok_def]
  let ?n = "OutBuffCount cv"
  have a: "0 \<le> a" "a \<le> C" "?n + a \<le> OutBuffSize" using k assms(3) by (auto simp: a_def)
  have am: "(if C > OutBuffSize - ?n then OutBuffSize - ?n else C) = a" by (simp add: a_def min_def)
  obtain b0 where b0: "(if OutPtr cv > 0 then do { b \<leftarrow> memmoveB (OutBuff cv) 0 (OutPtr cv) ?n;
        Some (cv\<lparr>OutBuff := b, OutPtr := 0\<rparr>) } else Some cv) = Some (cv\<lparr>OutBuff := b0, OutPtr := 0\<rparr>)"
    "length b0 = length (OutBuff cv)" "window b0 0 ?n = outq cv"
  proof (cases "OutPtr cv > 0")
    case True
    then show thesis using that memmoveB_window [of 0 "OutPtr cv" ?n "OutBuff cv"] k
      by (auto simp: outq_def)
  next
    case False
    then have "OutPtr cv = 0" using k by simp
    then show thesis using that [of "OutBuff cv"] by (simp add: outq_def)
  qed
  obtain b where b: "memcpyB b0 ?n B 0 a = Some b" "length b = length b0"
    "window b 0 (?n + a) = window b0 0 ?n @ take (nat a) B"
    using memcpyB_window [of 0 ?n a b0 B] k a b0(2) assms(4) by auto
  have "CommRawOut B C cv = Some (cv\<lparr>OutBuff := b, OutBuffCount := ?n + a, OutPtr := 0\<rparr>, a)"
    unfolding CommRawOut_def am Let_def b0(1) using assms(2) b(1) by simp
  then show ?thesis using k a b b0(2,3)
    by (intro exI [of _ b] exI [of _ 0]) (auto simp: comm_ok_def outq_def)
qed

lemma WriteInBuff_append:
  assumes "comm_ok cv"
  shows "\<exists>b n. WriteInBuff d cv = Some (cv\<lparr>InBuff := b, InBuffCount := n\<rparr>,
      int (length d) \<le> InBuffSize - InPtr cv - InBuffCount cv) \<and>
    comm_ok (cv\<lparr>InBuff := b, InBuffCount := n\<rparr>) \<and>
    inq (cv\<lparr>InBuff := b, InBuffCount := n\<rparr>) =
      (if int (length d) \<le> InBuffSize - InPtr cv - InBuffCount cv then inq cv @ d else inq cv) \<and>
    n = (if int (length d) \<le> InBuffSize - InPtr cv - InBuffCount cv
         then InBuffCount cv + int (length d) else InBuffCount cv)"
proof (cases "0 < length d \<and> int (length d) \<le> InBuffSize - InPtr cv - InBuffCount cv")
  case True
  note k = assms [unfolded comm_ok_def]
  let ?e = "InPtr cv + InBuffCount cv"
  obtain b where b: "memcpyB (InBuff cv) ?e d 0 (int (length d)) = Some b" "length b = length (InBuff cv)"
    "window b (InPtr cv) (?e - InPtr cv + int (length d)) = window (InBuff cv) (InPtr cv) (?e - InPtr cv) @ d"
    using memcpyB_window [of "InPtr cv" ?e "int (length d)" "InBuff cv" d] k True by auto
  have "WriteInBuff d cv = Some (cv\<lparr>InBuff := b, InBuffCount := InBuffCount cv + int (length d)\<rparr>, True)"
    using True b(1) by (simp add: WriteInBuff_def Let_def)
  moreover have "window b (InPtr cv) (InBuffCount cv + int (length d)) = inq cv @ d"
    using b(3) by (simp add: inq_def)
  moreover have "comm_ok (cv\<lparr>InBuff := b, InBuffCount := InBuffCount cv + int (length d)\<rparr>)"
    using k True b(2) by (auto simp: comm_ok_def)
  ultimately show ?thesis using True
    by (intro exI [of _ b] exI [of _ "InBuffCount cv + int (length d)"]) (simp add: inq_def)
next
  case False
  then have "WriteInBuff d cv = Some (cv\<lparr>InBuff := InBuff cv, InBuffCount := InBuffCount cv\<rparr>,
      int (length d) \<le> InBuffSize - InPtr cv - InBuffCount cv)"
    using assms by (auto simp: WriteInBuff_def Let_def comm_ok_def)
  then show ?thesis using False assms
    by (intro exI [of _ "InBuff cv"] exI [of _ "InBuffCount cv"]) auto
qed

text \<open>Line mode: what is written goes behind what is waiting, and only moves on from there.\<close>

lemma WriteOutBuff_line:
  assumes "comm_ok cv" "Ready cv" "TelLineMode cv"
  shows "\<exists>t fit. WriteOutBuff d cv = Some (t, fit) \<and> comm_ok t \<and> Ready t \<and> TelLineMode t \<and>
    TelFlag t = TelFlag cv \<and> TelBinSend t = TelBinSend cv \<and>
    outq t @ lineq t = outq cv @ lineq cv @ (if fit then d else []) \<and>
    (int (length d) \<le> OutBuffSize - LineModeBuffCount cv \<longrightarrow> fit) \<and>
    LineModeBuffCount t \<le> LineModeBuffCount cv + int (length d)"
proof (cases "length d = 0")
  case True
  then show ?thesis using assms by (auto simp: WriteOutBuff_def intro!: exI [of _ True])
next
  case False
  note k = assms(1) [unfolded comm_ok_def]
  let ?n = "LineModeBuffCount cv" and ?full = "OutBuffSize - LineModeBuffCount cv - int (length d) < 0"
  define A where "A = (if \<not> ?full
              then do {
                b \<leftarrow> memcpyB (LineModeBuff cv) ?n d 0 (int (length d));
                let cv = cv\<lparr>LineModeBuff := b, LineModeBuffCount := ?n + int (length d)\<rparr>;
                Some (if Flush cv then cv\<lparr>FlushLen := LineModeBuffCount cv\<rparr> else cv)
              }
              else Some cv)"
  obtain u where u: "A = Some u" "comm_ok u" "Ready u" "TelLineMode u" "TelFlag u = TelFlag cv"
    "TelBinSend u = TelBinSend cv" "outq u = outq cv" "lineq u = lineq cv @ (if ?full then [] else d)"
    "LineModeBuffCount u \<le> ?n + int (length d)"
  proof (cases ?full)
    case True
    then show thesis using that [of cv] assms unfolding A_def by simp
  next
    case f: False
    obtain b where b: "memcpyB (LineModeBuff cv) ?n d 0 (int (length d)) = Some b"
      "length b = length (LineModeBuff cv)"
      "window b 0 (?n - 0 + int (length d)) = window (LineModeBuff cv) 0 (?n - 0) @ take (nat (int (length d))) d"
      using memcpyB_window [of 0 ?n "int (length d)" "LineModeBuff cv" d] k f by auto
    let ?u = "cv\<lparr>LineModeBuff := b, LineModeBuffCount := ?n + int (length d)\<rparr>"
    let ?v = "if Flush ?u then ?u\<lparr>FlushLen := LineModeBuffCount ?u\<rparr> else ?u"
    have "A = Some ?v" using f b(1) by (simp add: A_def Let_def)
    moreover have "comm_ok ?v" "outq ?v = outq cv" "lineq ?v = lineq cv @ d"
      using k f b by (auto simp: comm_ok_def outq_def lineq_def)
    ultimately show thesis using that [of ?v] assms f by simp
  qed
  note ku = u(2) [unfolded comm_ok_def]
  define M where "M = (if FlushLen u > 0
              then do {
                (cv, OutLen) \<leftarrow> CommRawOut (LineModeBuff u) (FlushLen u) u;
                let cv = cv\<lparr>FlushLen := FlushLen cv - OutLen,
                            LineModeBuffCount := LineModeBuffCount cv - OutLen\<rparr>;
                b \<leftarrow> memmoveB (LineModeBuff cv) 0 OutLen (LineModeBuffCount cv);
                Some (cv\<lparr>LineModeBuff := b\<rparr>)
              }
              else Some u)"
  obtain w where w: "M = Some w" "comm_ok w" "Ready w" "TelLineMode w" "TelFlag w = TelFlag cv"
    "TelBinSend w = TelBinSend cv" "outq w @ lineq w = outq u @ lineq u"
    "LineModeBuffCount w \<le> LineModeBuffCount u"
  proof (cases "FlushLen u > 0")
    case False
    then show thesis using that [of u] u unfolding M_def by simp
  next
    case True
    define a where "a = min (FlushLen u) (OutBuffSize - OutBuffCount u)"
    let ?c = "LineModeBuffCount u"
    have a: "0 \<le> a" "a \<le> FlushLen u" "a \<le> ?c" using ku by (auto simp: a_def)
    have fl: "0 \<le> FlushLen u" "FlushLen u \<le> int (length (LineModeBuff u))" using ku by auto
    obtain b n where r: "CommRawOut (LineModeBuff u) (FlushLen u) u =
        Some (u\<lparr>OutBuff := b, OutBuffCount := OutBuffCount u + a, OutPtr := n\<rparr>, a)"
      "comm_ok (u\<lparr>OutBuff := b, OutBuffCount := OutBuffCount u + a, OutPtr := n\<rparr>)"
      "outq (u\<lparr>OutBuff := b, OutBuffCount := OutBuffCount u + a, OutPtr := n\<rparr>)
        = outq u @ take (nat a) (LineModeBuff u)"
      using CommRawOut_append [OF u(2,3) fl] unfolding a_def by blast
    let ?v = "u\<lparr>OutBuff := b, OutBuffCount := OutBuffCount u + a, OutPtr := n\<rparr>"
    obtain m where m: "memmoveB (LineModeBuff u) 0 a (?c - a) = Some m"
      "length m = length (LineModeBuff u)" "window m 0 (?c - a) = window (LineModeBuff u) a (?c - a)"
      using memmoveB_window [of 0 a "?c - a" "LineModeBuff u"] ku a by auto
    let ?w = "?v\<lparr>FlushLen := FlushLen u - a, LineModeBuffCount := ?c - a, LineModeBuff := m\<rparr>"
    have "M = Some ?w" using True r(1) m(1) by (simp add: M_def Let_def)
    moreover have "comm_ok ?w" using r(2) m(2) a ku by (auto simp: comm_ok_def)
    moreover have "outq ?w @ lineq ?w = outq u @ lineq u"
    proof -
      have "outq ?w = outq u @ take (nat a) (LineModeBuff u)" using r(3) by (simp add: outq_def)
      moreover have "lineq ?w = window (LineModeBuff u) a (?c - a)" using m(3) by (simp add: lineq_def)
      moreover have "lineq u = take (nat a) (LineModeBuff u) @ window (LineModeBuff u) a (?c - a)"
      proof -
        have "nat ?c = nat a + nat (?c - a)" using a by auto
        then show ?thesis by (simp add: lineq_def window_def take_add)
      qed
      ultimately show ?thesis by simp
    qed
    ultimately show thesis using that [of ?w] u a by simp
  qed
  have "WriteOutBuff d cv = Some (w\<lparr>Flush := False\<rparr>, \<not> ?full)"
    using False assms(3) u(1) w(1)
    unfolding WriteOutBuff_def Let_def A_def [unfolded Let_def] M_def [unfolded Let_def] by simp
  moreover have "comm_ok (w\<lparr>Flush := False\<rparr>)" "outq (w\<lparr>Flush := False\<rparr>) = outq w"
    "lineq (w\<lparr>Flush := False\<rparr>) = lineq w"
    using w(2) by (simp_all add: comm_ok_def outq_def lineq_def)
  ultimately show ?thesis using w u
    by (intro exI [of _ "w\<lparr>Flush := False\<rparr>"] exI [of _ "\<not> ?full"]) auto
qed

subsection \<open>Sinks of bytes\<close>

text \<open>
  The contract of one step of the sending loops: the escaped byte is appended to the stream, or
  nothing is; it is appended when there is room, and room shrinks by what is appended at most.
\<close>

locale byte_sink =
  fixes ok :: "comvar \<Rightarrow> bool"
    and stream :: "comvar \<Rightarrow> u8 list"
    and room :: "comvar \<Rightarrow> int"
    and one :: "u8 \<Rightarrow> comvar \<Rightarrow> (comvar \<times> bool) option"
  assumes one_appends: "ok s \<Longrightarrow> \<exists>t fit. one b s = Some (t, fit) \<and> ok t \<and>
      tel_escape t = tel_escape s \<and> stream t = stream s @ (if fit then tel_escape s b else []) \<and>
      (int (length (tel_escape s b)) \<le> room s \<longrightarrow>
        fit \<and> room s - int (length (tel_escape s b)) \<le> room t)"
begin

text \<open>A prefix of the data is sent, in order and escaped; all of it if it fits.\<close>

lemma send_prefix:
  assumes "ok s"
  shows "\<exists>t i. send_bytes one B s = Some (t, i) \<and> ok t \<and> 0 \<le> i \<and> i \<le> int (length B) \<and>
    stream t = stream s @ concat (map (tel_escape s) (take (nat i) B)) \<and>
    (int (length (concat (map (tel_escape s) B))) \<le> room s \<longrightarrow> i = int (length B))"
  using assms
proof (induction B arbitrary: s)
  case Nil
  then show ?case by simp
next
  case (Cons b B)
  obtain u fit where u: "one b s = Some (u, fit)" "ok u" "tel_escape u = tel_escape s"
    "stream u = stream s @ (if fit then tel_escape s b else [])"
    and r: "int (length (tel_escape s b)) \<le> room s \<Longrightarrow> fit \<and> room s - int (length (tel_escape s b)) \<le> room u"
    using one_appends [OF Cons.prems, of b] by blast
  show ?case
  proof (cases fit)
    case False
    then show ?thesis using u r by auto
  next
    case True
    obtain t i where t: "send_bytes one B u = Some (t, i)" "ok t" "0 \<le> i" "i \<le> int (length B)"
      "stream t = stream u @ concat (map (tel_escape u) (take (nat i) B))"
      "int (length (concat (map (tel_escape u) B))) \<le> room u \<Longrightarrow> i = int (length B)"
      using Cons.IH [OF u(2)] by blast
    have "i = int (length B)" if "int (length (concat (map (tel_escape s) (b # B)))) \<le> room s"
      using t(6) r that u(3) by simp
    moreover have "nat (i + 1) = Suc (nat i)" using t(3) by simp
    ultimately show ?thesis using True u t by simp
  qed
qed

end

lemma tel_escape_length: "length (tel_escape cv b) \<le> 2" "0 < length (tel_escape cv b)"
  by (simp_all add: tel_escape_def)

text \<open>Escaping depends on the mode only.\<close>

lemma tel_escape_cong:
  "TelFlag t = TelFlag s \<Longrightarrow> TelBinSend t = TelBinSend s \<Longrightarrow> tel_escape t = tel_escape s"
  by (auto simp: tel_escape_def fun_eq_iff)

lemmas tel_escape_frame =
  tel_escape_cong [of "s\<lparr>OutBuff := c, OutBuffCount := k, OutPtr := n\<rparr>" s for s c k n, simplified]
  tel_escape_cong [of "s\<lparr>InBuff := c, InBuffCount := n\<rparr>" s for s c n, simplified]
  tel_escape_cong [of "s\<lparr>Flush := f\<rparr>" s for s f, simplified]

interpretation out: byte_sink "\<lambda>s. comm_ok s \<and> Ready s" outq "\<lambda>s. OutBuffSize - OutBuffCount s" binary_one
proof
  fix s :: comvar and b :: u8 assume s: "comm_ok s \<and> Ready s"
  let ?d = "tel_escape s b" and ?r = "OutBuffSize - OutBuffCount s"
  show "\<exists>t fit. binary_one b s = Some (t, fit) \<and> (comm_ok t \<and> Ready t) \<and> tel_escape t = tel_escape s \<and>
      outq t = outq s @ (if fit then ?d else []) \<and>
      (int (length ?d) \<le> ?r \<longrightarrow> fit \<and> ?r - int (length ?d) \<le> OutBuffSize - OutBuffCount t)"
  proof (cases "int (length ?d) \<le> ?r")
    case False
    then show ?thesis using s by (auto simp: binary_one_def Let_def)
  next
    case True
    then have m: "min (int (length ?d)) ?r = int (length ?d)" by simp
    obtain c n where "CommRawOut ?d (int (length ?d)) s =
        Some (s\<lparr>OutBuff := c, OutBuffCount := OutBuffCount s + int (length ?d), OutPtr := n\<rparr>, int (length ?d))"
      "comm_ok (s\<lparr>OutBuff := c, OutBuffCount := OutBuffCount s + int (length ?d), OutPtr := n\<rparr>)"
      "outq (s\<lparr>OutBuff := c, OutBuffCount := OutBuffCount s + int (length ?d), OutPtr := n\<rparr>) = outq s @ ?d"
      using CommRawOut_append [of s "int (length ?d)" ?d] s unfolding m by auto
    then show ?thesis using True s tel_escape_frame
      by (intro exI [of _ "s\<lparr>OutBuff := c, OutBuffCount := OutBuffCount s + int (length ?d), OutPtr := n\<rparr>"]
          exI [of _ True]) (simp add: binary_one_def Let_def)
  qed
qed

interpretation echo: byte_sink comm_ok inq "\<lambda>s. InBuffSize - InPtr s - InBuffCount s" echo_one
proof
  fix s :: comvar and b :: u8 assume s: "comm_ok s"
  obtain c n where "WriteInBuff (tel_escape s b) s = Some (s\<lparr>InBuff := c, InBuffCount := n\<rparr>,
      int (length (tel_escape s b)) \<le> InBuffSize - InPtr s - InBuffCount s)"
    "comm_ok (s\<lparr>InBuff := c, InBuffCount := n\<rparr>)"
    "inq (s\<lparr>InBuff := c, InBuffCount := n\<rparr>) =
      (if int (length (tel_escape s b)) \<le> InBuffSize - InPtr s - InBuffCount s
       then inq s @ tel_escape s b else inq s)"
    "n = (if int (length (tel_escape s b)) \<le> InBuffSize - InPtr s - InBuffCount s
         then InBuffCount s + int (length (tel_escape s b)) else InBuffCount s)"
    using WriteInBuff_append [OF s, of "tel_escape s b"] by blast
  then show "\<exists>t fit. echo_one b s = Some (t, fit) \<and> comm_ok t \<and> tel_escape t = tel_escape s \<and>
      inq t = inq s @ (if fit then tel_escape s b else []) \<and>
      (int (length (tel_escape s b)) \<le> InBuffSize - InPtr s - InBuffCount s \<longrightarrow>
       fit \<and> InBuffSize - InPtr s - InBuffCount s - int (length (tel_escape s b))
         \<le> InBuffSize - InPtr t - InBuffCount t)"
    by (intro exI [of _ "s\<lparr>InBuff := c, InBuffCount := n\<rparr>"]
        exI [of _ "int (length (tel_escape s b)) \<le> InBuffSize - InPtr s - InBuffCount s"])
      (simp add: echo_one_def tel_escape_frame)
qed

interpretation linemode: byte_sink "\<lambda>s. comm_ok s \<and> Ready s \<and> TelLineMode s"
  "\<lambda>s. outq s @ lineq s" "\<lambda>s. OutBuffSize - LineModeBuffCount s" buff_one
proof
  fix s :: comvar and b :: u8 assume s: "comm_ok s \<and> Ready s \<and> TelLineMode s"
  define u where "u = (if b = 0x0D \<and> TelLineMode s then s\<lparr>Flush := True\<rparr> else s)"
  have u: "comm_ok u" "Ready u" "TelLineMode u" "tel_escape u = tel_escape s" "outq u = outq s"
    "lineq u = lineq s" "LineModeBuffCount u = LineModeBuffCount s"
    using s by (auto simp: u_def comm_ok_def tel_escape_frame outq_def lineq_def)
  obtain t fit where t: "WriteOutBuff (tel_escape s b) u = Some (t, fit)" "comm_ok t" "Ready t"
    "TelLineMode t" "TelFlag t = TelFlag u" "TelBinSend t = TelBinSend u"
    "outq t @ lineq t = outq u @ lineq u @ (if fit then tel_escape s b else [])"
    "int (length (tel_escape s b)) \<le> OutBuffSize - LineModeBuffCount u \<Longrightarrow> fit"
    "LineModeBuffCount t \<le> LineModeBuffCount u + int (length (tel_escape s b))"
    using WriteOutBuff_line [OF u(1-3), of "tel_escape s b"] by blast
  have "tel_escape t = tel_escape u" using t(5,6) by (rule tel_escape_cong)
  then show "\<exists>t fit. buff_one b s = Some (t, fit) \<and> (comm_ok t \<and> Ready t \<and> TelLineMode t) \<and>
      tel_escape t = tel_escape s \<and> outq t @ lineq t = (outq s @ lineq s) @ (if fit then tel_escape s b else []) \<and>
      (int (length (tel_escape s b)) \<le> OutBuffSize - LineModeBuffCount s \<longrightarrow>
       fit \<and> OutBuffSize - LineModeBuffCount s - int (length (tel_escape s b)) \<le> OutBuffSize - LineModeBuffCount t)"
    using t u by (intro exI [of _ t] exI [of _ fit]) (simp add: buff_one_def u_def [symmetric])
qed

subsection \<open>Sending a block of bytes\<close>

text \<open>
  C10. \<open>CommBinaryOut\<close> puts a prefix of the data, escaped for TELNET, at the end of the output
  queue and returns the length of that prefix; nothing is lost or reordered, the buffer is not
  overrun, and when there is room for all the data is sent.
\<close>

theorem CommBinaryOut_appends:
  assumes "comm_ok s" "Ready s"
  shows "\<exists>t i. CommBinaryOut B s = Some (t, i) \<and> comm_ok t \<and> 0 \<le> i \<and> i \<le> int (length B) \<and>
    outq t = outq s @ concat (map (tel_escape s) (take (nat i) B)) \<and>
    (int (length (concat (map (tel_escape s) B))) \<le> OutBuffSize - OutBuffCount s \<longrightarrow> i = int (length B))"
proof -
  have ok: "comm_ok s \<and> Ready s" using assms by blast
  show ?thesis using out.send_prefix [OF ok, of B] assms(2) unfolding CommBinaryOut_def by auto
qed

text \<open>
  Line mode: what \<open>CommBinaryBuffOut\<close> accepts is found, escaped and in order, behind what
  was waiting, partly in the output queue and partly still in the line buffer.
\<close>

theorem CommBinaryBuffOut_line:
  assumes "comm_ok s" "Ready s" "TelLineMode s"
  shows "\<exists>t i. CommBinaryBuffOut B s = Some (t, i) \<and> comm_ok t \<and> 0 \<le> i \<and> i \<le> int (length B) \<and>
    outq t @ lineq t = (outq s @ lineq s) @ concat (map (tel_escape s) (take (nat i) B)) \<and>
    (int (length (concat (map (tel_escape s) B))) \<le> OutBuffSize - LineModeBuffCount s \<longrightarrow> i = int (length B))"
proof -
  have ok: "comm_ok s \<and> Ready s \<and> TelLineMode s" using assms by blast
  show ?thesis using linemode.send_prefix [OF ok, of B] assms(2) unfolding CommBinaryBuffOut_def by auto
qed

lemma PackInBuff_same:
  assumes "comm_ok s"
  shows "\<exists>t. PackInBuff s = Some t \<and> comm_ok t \<and> inq t = inq s \<and> tel_escape t = tel_escape s \<and>
    InBuffCount t = InBuffCount s \<and>
    (InPtr t = 0 \<or> InPtr t + InBuffCount t \<le> InBuffSize div 4 * 3)"
proof -
  note k = assms [unfolded comm_ok_def]
  consider "InBuffCount s = 0" | "InBuffCount s \<noteq> 0" "InPtr s > 0 \<and> InPtr s + InBuffCount s > InBuffSize div 4 * 3"
    | "InBuffCount s \<noteq> 0" "\<not> (InPtr s > 0 \<and> InPtr s + InBuffCount s > InBuffSize div 4 * 3)" by blast
  then show ?thesis
  proof cases
    case 1
    then show ?thesis using k by (auto simp: PackInBuff_def comm_ok_def inq_def intro!: tel_escape_cong)
  next
    case 2
    obtain b where b: "memmoveB (InBuff s) 0 (InPtr s) (InBuffCount s) = Some b"
      "length b = length (InBuff s)" "window b 0 (InBuffCount s) = inq s"
      using memmoveB_window [of 0 "InPtr s" "InBuffCount s" "InBuff s"] k by (auto simp: inq_def)
    have "PackInBuff s = Some (s\<lparr>InBuff := b, InPtr := 0\<rparr>)" using 2 b(1) by (simp add: PackInBuff_def)
    then show ?thesis using k b by (auto simp: comm_ok_def inq_def intro!: tel_escape_cong)
  next
    case 3
    moreover have "InPtr s = 0 \<or> InPtr s + InBuffCount s \<le> InBuffSize div 4 * 3" using 3 k by linarith
    ultimately show ?thesis using assms by (auto simp: PackInBuff_def)
  qed
qed

text \<open>
  Local echo: \<open>CommBinaryEcho\<close> puts the escaped data behind what is waiting in the input
  queue, whatever it has to move in the buffer for that, and never overruns it. All of it
  fits when the escaped data is at most a quarter of the buffer and at most the free part.
\<close>

theorem CommBinaryEcho_appends:
  assumes "comm_ok s" "Ready s"
  shows "\<exists>t i. CommBinaryEcho B s = Some (t, i) \<and> comm_ok t \<and> 0 \<le> i \<and> i \<le> int (length B) \<and>
    inq t = inq s @ concat (map (tel_escape s) (take (nat i) B)) \<and>
    (int (length (concat (map (tel_escape s) B))) \<le> InBuffSize div 4 \<and>
     int (length (concat (map (tel_escape s) B))) \<le> InBuffSize - InBuffCount s \<longrightarrow> i = int (length B))"
proof -
  obtain u where u: "PackInBuff s = Some u" "comm_ok u" "inq u = inq s" "tel_escape u = tel_escape s"
    and r: "InBuffCount u = InBuffCount s"
    "InPtr u = 0 \<or> InPtr u + InBuffCount u \<le> InBuffSize div 4 * 3"
    using PackInBuff_same [OF assms(1)] by blast
  have fit: "L \<le> InBuffSize - InPtr u - InBuffCount u"
    if "L \<le> InBuffSize div 4" "L \<le> InBuffSize - InBuffCount s" for L
    using r that by (auto simp: InBuffSize_def)
  show ?thesis using echo.send_prefix [OF u(2), of B] u assms(2) fit unfolding CommBinaryEcho_def by auto
qed

subsection \<open>Reading back\<close>

text \<open>\<open>n\<close> calls of \<open>CommRead1Byte\<close>, with the bytes they return.\<close>

fun read_all :: "nat \<Rightarrow> comvar \<Rightarrow> (comvar \<times> u8 list) option" where
  "read_all 0 cv = Some (cv, [])"
| "read_all (Suc n) cv =
     do {
       (cv, r) \<leftarrow> CommRead1Byte cv;
       (cv, bs) \<leftarrow> read_all n cv;
       Some (cv, (case r of None \<Rightarrow> bs | Some b \<Rightarrow> b # bs))
     }"

lemma read_all_add:
  "read_all (m + n) cv =
     do { (cv, bs) \<leftarrow> read_all m cv; (cv, cs) \<leftarrow> read_all n cv; Some (cv, bs @ cs) }"
proof (induction m arbitrary: cv)
  case 0
  then show ?case by (cases "read_all n cv") auto
next
  case (Suc m)
  show ?case
  proof (cases "CommRead1Byte cv")
    case (Some p)
    obtain u r where p: "p = (u, r)" by (cases p)
    show ?thesis
    proof (cases "read_all m u")
      case (Some w)
      obtain v bs where w: "w = (v, bs)" by (cases w)
      show ?thesis using Suc.IH [of u] Some w \<open>CommRead1Byte cv = Some p\<close> p
        by (cases "read_all n v") (auto split: option.split)
    qed (use Suc.IH [of u] Some p in simp)
  qed simp
qed

text \<open>The state of a receiver between two data bytes of a TELNET connection.\<close>

definition tel_ready :: "comvar \<Rightarrow> bool" where
  "tel_ready cv \<longleftrightarrow> comm_ok cv \<and> Ready cv \<and> TelFlag cv \<and> PortIsTCP cv \<and> \<not> TelMode cv \<and>
     \<not> IACFlag cv \<and> \<not> TelCRFlag cv"

lemma read_raw_Cons:
  assumes "comm_ok cv" "Ready cv" "inq cv = b # q"
  shows "\<exists>p n. CommReadRawByte cv = Some (cv\<lparr>InPtr := p, InBuffCount := n\<rparr>, Some b) \<and>
    comm_ok (cv\<lparr>InPtr := p, InBuffCount := n\<rparr>) \<and> inq (cv\<lparr>InPtr := p, InBuffCount := n\<rparr>) = q"
  using CommReadRawByte_get [OF assms(1,2)] assms(3) by fastforce

lemma flag_frames [simp]:
  "comm_ok (cv\<lparr>IACFlag := f\<rparr>) = comm_ok cv" "comm_ok (cv\<lparr>TelCRFlag := f\<rparr>) = comm_ok cv"
  "inq (cv\<lparr>IACFlag := f\<rparr>) = inq cv" "inq (cv\<lparr>TelCRFlag := f\<rparr>) = inq cv"
  by (simp_all add: comm_ok_def inq_def)

lemma read_escaped:
  assumes "tel_ready cv" "TelFlag s" "TelBinSend s = TelBinRecv cv"
    and "inq cv = tel_escape s b @ q"
  shows "\<exists>t. read_all (length (tel_escape s b)) cv = Some (t, [b]) \<and> tel_ready t \<and>
    TelBinRecv t = TelBinRecv cv \<and> inq t = q"
proof -
  note r = assms(1) [unfolded tel_ready_def]
  obtain q' where q': "tel_escape s b @ q = b # q'"
  proof -
    have "\<exists>q'. tel_escape s b @ q = b # q'" by (simp add: tel_escape_def)
    then show thesis using that by blast
  qed
  obtain p n where one: "CommReadRawByte cv = Some (cv\<lparr>InPtr := p, InBuffCount := n\<rparr>, Some b)"
    "comm_ok (cv\<lparr>InPtr := p, InBuffCount := n\<rparr>)" "inq (cv\<lparr>InPtr := p, InBuffCount := n\<rparr>) = q'"
    using read_raw_Cons [of cv b q'] r assms(4) q' by auto
  let ?u = "cv\<lparr>InPtr := p, InBuffCount := n\<rparr>"
  consider "b = 0x0D" "\<not> TelBinRecv cv" | "b = 0xFF" | "b \<noteq> 0xFF" "b = 0x0D \<longrightarrow> TelBinRecv cv" by blast
  then show ?thesis
  proof cases
    case 1
    then have e: "tel_escape s b = [b, 0]" using assms(2,3) by (simp add: tel_escape_def)
    then have q0: "inq (?u\<lparr>TelCRFlag := True\<rparr>) = 0 # q" using q' one(3) by simp
    obtain p' n' where two: "CommReadRawByte (?u\<lparr>TelCRFlag := True\<rparr>)
        = Some (?u\<lparr>TelCRFlag := True, InPtr := p', InBuffCount := n'\<rparr>, Some 0)"
      "comm_ok (?u\<lparr>TelCRFlag := True, InPtr := p', InBuffCount := n'\<rparr>)"
      "inq (?u\<lparr>TelCRFlag := True, InPtr := p', InBuffCount := n'\<rparr>) = q"
      using read_raw_Cons [OF _ _ q0] one(2) r by auto
    let ?t = "?u\<lparr>TelCRFlag := True, InPtr := p', InBuffCount := n'\<rparr>\<lparr>TelCRFlag := False\<rparr>"
    have "CommRead1Byte cv = Some (?u\<lparr>TelCRFlag := True\<rparr>, Some b)"
      using one(1) r 1 by (simp add: CommRead1Byte_def)
    moreover have "CommRead1Byte (?u\<lparr>TelCRFlag := True\<rparr>) = Some (?t, None)"
      using two(1) r by (simp add: CommRead1Byte_def)
    moreover have "tel_ready ?t" using two(2) r by (simp add: tel_ready_def comm_ok_def)
    moreover have "inq ?t = q" using two(3) by (simp add: inq_def)
    ultimately show ?thesis unfolding e by (auto simp: numeral_2_eq_2)
  next
    case 2
    then have e: "tel_escape s b = [b, 0xFF]" using assms(2) by (simp add: tel_escape_def)
    then have q0: "inq (?u\<lparr>IACFlag := True\<rparr>) = 0xFF # q" using q' one(3) by simp
    obtain p' n' where two: "CommReadRawByte (?u\<lparr>IACFlag := True\<rparr>)
        = Some (?u\<lparr>IACFlag := True, InPtr := p', InBuffCount := n'\<rparr>, Some 0xFF)"
      "comm_ok (?u\<lparr>IACFlag := True, InPtr := p', InBuffCount := n'\<rparr>)"
      "inq (?u\<lparr>IACFlag := True, InPtr := p', InBuffCount := n'\<rparr>) = q"
      using read_raw_Cons [OF _ _ q0] one(2) r by auto
    let ?t = "?u\<lparr>IACFlag := True, InPtr := p', InBuffCount := n'\<rparr>\<lparr>IACFlag := False\<rparr>"
    have "CommRead1Byte cv = Some (?u\<lparr>IACFlag := True\<rparr>, None)"
      using one(1) r 2 by (simp add: CommRead1Byte_def)
    moreover have "CommRead1Byte (?u\<lparr>IACFlag := True\<rparr>) = Some (?t, Some 0xFF)"
      using two(1) r by (simp add: CommRead1Byte_def)
    moreover have "tel_ready ?t" using two(2) r by (simp add: tel_ready_def comm_ok_def)
    moreover have "inq ?t = q" using two(3) by (simp add: inq_def)
    ultimately show ?thesis unfolding e using 2 by (auto simp: numeral_2_eq_2)
  next
    case 3
    then have e: "tel_escape s b = [b]" using assms(2,3) by (auto simp: tel_escape_def)
    then have "q' = q" using q' by simp
    moreover have "CommRead1Byte cv = Some (?u, Some b)"
      using one(1) r 3 by (auto simp: CommRead1Byte_def)
    moreover have "tel_ready ?u" using one(2) r by (simp add: tel_ready_def)
    ultimately show ?thesis unfolding e using one(3) by auto
  qed
qed

text \<open>
  C11. What one side sends through \<open>CommBinaryOut\<close>, the other side reads back byte for byte
  through \<open>CommRead1Byte\<close>, on a TELNET connection whose two sides agree on binary mode: the
  carriage returns and the bytes 255 are escaped and the escapes are taken out again.
\<close>

theorem telnet_data_roundtrip:
  assumes "tel_ready cv" "TelFlag s" "TelBinSend s = TelBinRecv cv"
    and "inq cv = concat (map (tel_escape s) B)"
  shows "\<exists>t. read_all (length (inq cv)) cv = Some (t, B) \<and> tel_ready t \<and> inq t = []"
  using assms(1,3) unfolding assms(4) using assms(4)
proof (induction B arbitrary: cv)
  case Nil
  then show ?case by simp
next
  case (Cons b B)
  obtain u where u: "read_all (length (tel_escape s b)) cv = Some (u, [b])" "tel_ready u"
    "TelBinRecv u = TelBinRecv cv" "inq u = concat (map (tel_escape s) B)"
    using read_escaped [OF Cons.prems(1) assms(2) Cons.prems(2)] Cons.prems(3) by auto
  obtain t where t: "read_all (length (concat (map (tel_escape s) B))) u = Some (t, B)" "tel_ready t" "inq t = []"
    using Cons.IH [OF u(2) _ u(4)] Cons.prems(2) u(3) by auto
  show ?case using u(1) t by (simp add: read_all_add)
qed


subsection \<open>Pushing a byte back\<close>

text \<open>
  \<open>CommInsert1Byte\<close> puts a byte before the waiting ones as long as a byte is free, in front of
  them or behind them; with the buffer full and nothing read from it, it leaves the array.
\<close>

lemma CommInsert1Byte_push:
  assumes "comm_ok s" "Ready s" "InPtr s > 0 \<or> InBuffCount s < InBuffSize"
  shows "\<exists>B p. CommInsert1Byte b s = Some (s\<lparr>InBuff := B, InPtr := p, InBuffCount := InBuffCount s + 1\<rparr>) \<and>
    comm_ok (s\<lparr>InBuff := B, InPtr := p, InBuffCount := InBuffCount s + 1\<rparr>) \<and>
    inq (s\<lparr>InBuff := B, InPtr := p, InBuffCount := InBuffCount s + 1\<rparr>) = b # inq s"
proof (cases "InPtr s = 0")
  case True
  note k = assms(1) [unfolded comm_ok_def]
  obtain C where C: "memmoveB (InBuff s) 1 0 (InBuffCount s) = Some C" "length C = length (InBuff s)"
    "window C 1 (InBuffCount s) = inq s"
    using memmoveB_window [of 1 0 "InBuffCount s" "InBuff s"] k assms(3) True by (auto simp: inq_def)
  let ?B = "C[0 := b]"
  have ne: "0 < length C" using C(2) k by (auto simp: InBuffSize_def)
  have w: "wr C 0 b = Some ?B" using ne by (simp add: wr_def in_arr_def)
  have "window ?B 0 (InBuffCount s + 1) = ?B ! nat 0 # window ?B (0 + 1) (InBuffCount s + 1 - 1)"
    using k assms(3) True C(2) by (intro window_Cons) auto
  also have "\<dots> = b # inq s" using ne C(3) by (simp add: window_def)
  finally have q: "window ?B 0 (InBuffCount s + 1) = b # inq s" .
  have "CommInsert1Byte b s = Some (s\<lparr>InBuff := ?B, InPtr := 0, InBuffCount := InBuffCount s + 1\<rparr>)"
    using assms(2) True C(1) w by (simp add: CommInsert1Byte_def)
  then show ?thesis using k assms(3) True C(2) q
    by (intro exI [of _ ?B] exI [of _ 0]) (auto simp: comm_ok_def inq_def)
next
  case False
  note k = assms(1) [unfolded comm_ok_def]
  let ?B = "(InBuff s)[nat (InPtr s - 1) := b]"
  have w: "wr (InBuff s) (InPtr s - 1) b = Some ?B" using k False by (auto simp: wr_def in_arr_def)
  have "window ?B (InPtr s - 1) (InBuffCount s + 1) =
      ?B ! nat (InPtr s - 1) # window ?B (InPtr s - 1 + 1) (InBuffCount s + 1 - 1)"
    using k False by (intro window_Cons) auto
  also have "\<dots> = b # inq s"
  proof -
    have "nat (InPtr s - 1) < length (InBuff s)" "nat (InPtr s - 1) < nat (InPtr s)" using k False by auto
    then show ?thesis by (simp add: window_def inq_def)
  qed
  finally have q: "window ?B (InPtr s - 1) (InBuffCount s + 1) = b # inq s" .
  have "CommInsert1Byte b s = Some (s\<lparr>InBuff := ?B, InPtr := InPtr s - 1, InBuffCount := InBuffCount s + 1\<rparr>)"
    using assms(2) False w by (simp add: CommInsert1Byte_def)
  then show ?thesis using k False q
    by (intro exI [of _ ?B] exI [of _ "InPtr s - 1"]) (auto simp: comm_ok_def inq_def)
qed

subsection \<open>A connection to evaluate on\<close>

definition sample_cv :: comvar where
  "sample_cv = \<lparr>InBuff = replicate 65536 0, InBuffCount = 0, InPtr = 0,
     OutBuff = replicate 16384 0, OutBuffCount = 0, OutPtr = 0,
     LineModeBuff = replicate 16384 0, LineModeBuffCount = 0, FlushLen = 0, Flush = False,
     Ready = True, PortIsTCP = True, TelFlag = True, TelMode = False, TelAutoDetect = True,
     IACFlag = False, TelCRFlag = False, TelBinRecv = False, TelBinSend = False,
     TelLineMode = False, CRSend = IdCR\<rparr>"

lemma sample_cv_ok:
  "comm_ok sample_cv" "Ready sample_cv" "tel_ready sample_cv" "TelFlag sample_cv"
  "TelBinSend sample_cv = TelBinRecv sample_cv" "inq sample_cv = []" "outq sample_cv = []"
  "comm_ok (sample_cv\<lparr>TelLineMode := True\<rparr>)"
  by (simp_all add: sample_cv_def comm_ok_def tel_ready_def InBuffSize_def OutBuffSize_def inq_def outq_def)

lemma sample_cv_sizes:
  "OutBuffSize - OutBuffCount sample_cv = 16384" "OutBuffSize - LineModeBuffCount sample_cv = 16384"
  "tel_escape sample_cv 0x41 = [0x41]" "tel_escape sample_cv 0x0D = [0x0D, 0]" "tel_escape sample_cv 0xFF = [0xFF, 0xFF]"
  "tel_escape (sample_cv\<lparr>TelLineMode := True\<rparr>) = tel_escape sample_cv"
  by (simp_all add: sample_cv_def OutBuffSize_def tel_escape_def fun_eq_iff)

theorem CommBinaryOut_witness:
  "\<exists>t. CommBinaryOut [0x41, 0xFF, 0x0D] sample_cv = Some (t, 3) \<and> outq t = [0x41, 0xFF, 0xFF, 0x0D, 0]"
  using CommBinaryOut_appends [OF sample_cv_ok(1,2), of "[0x41, 0xFF, 0x0D]"]
  by (auto simp: sample_cv_ok sample_cv_sizes)

theorem CommBinaryBuffOut_witness:
  "\<exists>t. CommBinaryBuffOut [0x41, 0xFF] (sample_cv\<lparr>TelLineMode := True\<rparr>) = Some (t, 2) \<and>
    outq t @ lineq t = [0x41, 0xFF, 0xFF]"
proof -
  have "Ready (sample_cv\<lparr>TelLineMode := True\<rparr>)" "TelLineMode (sample_cv\<lparr>TelLineMode := True\<rparr>)"
    "outq (sample_cv\<lparr>TelLineMode := True\<rparr>) = []" "lineq (sample_cv\<lparr>TelLineMode := True\<rparr>) = []"
    "OutBuffSize - LineModeBuffCount (sample_cv\<lparr>TelLineMode := True\<rparr>) = 16384"
    by (simp_all add: sample_cv_def outq_def lineq_def OutBuffSize_def)
  then show ?thesis using CommBinaryBuffOut_line [OF sample_cv_ok(8), of "[0x41, 0xFF]"]
    by (auto simp: sample_cv_sizes)
qed

theorem CommBinaryEcho_witness:
  "\<exists>t. CommBinaryEcho [0x41, 0xFF] sample_cv = Some (t, 2) \<and> inq t = [0x41, 0xFF, 0xFF]"
proof -
  have "int (length (concat (map (tel_escape sample_cv) [0x41, 0xFF]))) \<le> InBuffSize div 4"
    "int (length (concat (map (tel_escape sample_cv) [0x41, 0xFF]))) \<le> InBuffSize - InBuffCount sample_cv"
    by (simp_all add: sample_cv_sizes InBuffSize_def) (simp add: sample_cv_def)
  then show ?thesis using CommBinaryEcho_appends [OF sample_cv_ok(1,2), of "[0x41, 0xFF]"]
    by (auto simp: sample_cv_ok sample_cv_sizes)
qed

theorem telnet_data_witness:
  "\<exists>t. read_all 3 (sample_cv\<lparr>InBuff := [0x41, 0xFF, 0xFF] @ replicate 65533 0, InBuffCount := 3\<rparr>)
      = Some (t, [0x41, 0xFF]) \<and> inq t = []"
proof -
  let ?r = "sample_cv\<lparr>InBuff := [0x41, 0xFF, 0xFF] @ replicate 65533 0, InBuffCount := 3\<rparr>"
  have q: "inq ?r = concat (map (tel_escape sample_cv) [0x41, 0xFF])" "length (inq ?r) = 3"
    by (simp_all add: inq_def window_def sample_cv_sizes) (simp_all add: sample_cv_def)
  have "tel_ready ?r" "TelBinSend sample_cv = TelBinRecv ?r"
    using sample_cv_ok(3) by (simp_all add: tel_ready_def comm_ok_def InBuffSize_def) (simp_all add: sample_cv_def)
  then show ?thesis using telnet_data_roundtrip [OF _ sample_cv_ok(4) _ q(1)] q(2) by auto
qed

end
