(* ===== verification/Telnet.thy ===== *)
theory Telnet
  imports CommBuff
begin

section \<open>TELNET options and commands (teraterm/teraterm/telnet.c)\<close>

text \<open>
  The parser of the TELNET commands in the received data and the negotiation of options. A
  state \<open>telnet\<close> holds the connection's buffers (\<open>cv\<close>), the record \<open>tr\<close>, the status of the
  parser and the settings it reads. \<open>ParseTel\<close> is called while \<open>TelMode\<close> is set; it reads
  bytes until a command is complete or the input is empty.

  An option has one record at each end. \<open>opt_on\<close>, \<open>opt_off\<close>, \<open>opt_enable\<close> and
  \<open>opt_disable\<close> are what the code does to one record; the handlers for the other end's
  options (\<open>WILL\<close>, \<open>WONT\<close>) and for ours (\<open>DO\<close>, \<open>DONT\<close>) do the same with other command bytes.
  The locale \<open>option_side\<close> states that, and both are interpretations of it. Two ends that
  both behave like this are the protocol \<open>nego\<close>.

  \<open>LogFile\<close> is the list of the bytes written to it. The keep-alive thread and its dialog are
  not modelled; \<open>CommSend\<close>, which hands the output buffer to the socket, is an argument.
\<close>

abbreviation (input) cSE :: u8 where "cSE \<equiv> 240"
abbreviation (input) cNOP :: u8 where "cNOP \<equiv> 241"
abbreviation (input) cBREAK :: u8 where "cBREAK \<equiv> 243"
abbreviation (input) cAYT :: u8 where "cAYT \<equiv> 246"
abbreviation (input) cGOAHEAD :: u8 where "cGOAHEAD \<equiv> 249"
abbreviation (input) cSB :: u8 where "cSB \<equiv> 250"
abbreviation (input) WILLTEL :: u8 where "WILLTEL \<equiv> 251"
abbreviation (input) WONTTEL :: u8 where "WONTTEL \<equiv> 252"
abbreviation (input) DOTEL :: u8 where "DOTEL \<equiv> 253"
abbreviation (input) DONTTEL :: u8 where "DONTTEL \<equiv> 254"
abbreviation (input) cIAC :: u8 where "cIAC \<equiv> 255"
abbreviation (input) oBINARY :: u8 where "oBINARY \<equiv> 0"
abbreviation (input) oECHO :: u8 where "oECHO \<equiv> 1"
abbreviation (input) oSGA :: u8 where "oSGA \<equiv> 3"
abbreviation (input) oTERMTYPE :: u8 where "oTERMTYPE \<equiv> 24"
abbreviation (input) oNAWS :: u8 where "oNAWS \<equiv> 31"
abbreviation (input) oTERMSPEED :: u8 where "oTERMSPEED \<equiv> 32"

definition MaxTelOpt :: int where "MaxTelOpt = 34"

datatype OptStatus = No | Yes | WantNo | WantYes
datatype OptQue = Empty | Opposite
datatype tel_status = TelIdle | TelIAC | TelSB | TelWill | TelWont | TelDo | TelDont | TelNop

record TelOpt =
  Accept :: bool
  Status :: OptStatus
  Que :: OptQue

record telnet =
  cv :: comvar
  TelStatus :: tel_status
  MyOpt :: "TelOpt list"
  HisOpt :: "TelOpt list"
  SubOptBuff :: "u8 list"
  SubOptCount :: int
  SubOptIAC :: bool
  ChangeWinSize :: bool
  WinSizeX :: int
  WinSizeY :: int
  LogFile :: "u8 list option"
  TelEcho :: bool
  LocalEcho :: bool
  TermType :: "u8 list"
  TerminalInputSpeed :: int
  TerminalOutputSpeed :: int

subsection \<open>Log and output\<close>

definition hex_digit :: "u8 \<Rightarrow> u8" where
  "hex_digit Ch = (if Ch \<le> 9 then Ch + 0x30 else Ch + 0x37)"

definition TelWriteLog1 :: "u8 \<Rightarrow> u8 list" where
  "TelWriteLog1 b = [0x20, hex_digit (b div 16), hex_digit (b AND 15)]"

definition TelWriteLog :: "u8 list \<Rightarrow> u8 list" where
  "TelWriteLog Buf = [0x0D, 0x0A, 0x3E] @ concat (map TelWriteLog1 Buf)"

definition tel_log :: "u8 list \<Rightarrow> telnet \<Rightarrow> telnet" where
  "tel_log bs s = s\<lparr>LogFile := map_option (\<lambda>f. f @ bs) (LogFile s)\<rparr>"

text \<open>\<open>CommRawOut(&cv, Str, n); if (tr.LogFile) TelWriteLog(Str, n);\<close>\<close>

definition tel_out :: "u8 list \<Rightarrow> telnet \<Rightarrow> telnet option" where
  "tel_out Str s =
     do {
       (c, _) \<leftarrow> CommRawOut Str (int (length Str)) (cv s);
       Some (tel_log (TelWriteLog Str) (s\<lparr>cv := c\<rparr>))
     }"

definition SendBack :: "u8 \<Rightarrow> u8 \<Rightarrow> telnet \<Rightarrow> telnet option" where
  "SendBack a b s = tel_out [cIAC, a, b] s"

definition HIBYTE :: "int \<Rightarrow> u8" where "HIBYTE w = word_of_int (w div 256)"
definition LOBYTE :: "int \<Rightarrow> u8" where "LOBYTE w = word_of_int w"

definition iac_escape :: "u8 \<Rightarrow> u8 list" where
  "iac_escape b = (if b = cIAC then [cIAC, b] else [b])"

definition win_size_bytes :: "int \<Rightarrow> int \<Rightarrow> u8 list" where
  "win_size_bytes x y =
     [cIAC, cSB, oNAWS] @ iac_escape (HIBYTE x) @ iac_escape (LOBYTE x) @
     iac_escape (HIBYTE y) @ iac_escape (LOBYTE y) @ [cIAC, cSE]"

definition SendWinSize :: "telnet \<Rightarrow> telnet option" where
  "SendWinSize s = tel_out (win_size_bytes (WinSizeX s) (WinSizeY s)) s"

subsection \<open>Initial state\<close>

definition DefaultTelRec :: "telnet \<Rightarrow> telnet" where
  "DefaultTelRec s =
     s\<lparr>MyOpt := replicate (nat (MaxTelOpt + 1)) \<lparr>Accept = False, Status = No, Que = Empty\<rparr>,
       HisOpt := replicate (nat (MaxTelOpt + 1)) \<lparr>Accept = False, Status = No, Que = Empty\<rparr>,
       SubOptCount := 0, SubOptIAC := False, ChangeWinSize := False\<rparr>"

definition accept_opt :: "u8 \<Rightarrow> TelOpt list \<Rightarrow> TelOpt list" where
  "accept_opt b os = os[unat b := (os ! unat b)\<lparr>Accept := True\<rparr>]"

definition InitTelnet :: "int \<Rightarrow> int \<Rightarrow> bool \<Rightarrow> telnet \<Rightarrow> telnet" where
  "InitTelnet TerminalWidth TerminalHeight log s =
     (let s = DefaultTelRec (s\<lparr>TelStatus := TelIdle\<rparr>) in
      s\<lparr>MyOpt := (accept_opt oNAWS \<circ> accept_opt oTERMSPEED \<circ> accept_opt oTERMTYPE \<circ>
                 accept_opt oSGA \<circ> accept_opt oBINARY) (MyOpt s),
        HisOpt := (accept_opt oNAWS \<circ> accept_opt oECHO \<circ> accept_opt oSGA \<circ>
                 accept_opt oBINARY) (HisOpt s),
        WinSizeX := TerminalWidth, WinSizeY := TerminalHeight,
        LogFile := (if log then Some [] else None)\<rparr>)"

subsection \<open>One option\<close>

text \<open>
  The change of the record and the answer, if there is one: \<open>True\<close> agrees (\<open>DO\<close> or \<open>WILL\<close>),
  \<open>False\<close> refuses (\<open>DONT\<close> or \<open>WONT\<close>).
\<close>

definition opt_on :: "TelOpt \<Rightarrow> TelOpt \<times> bool option" where
  "opt_on o1 =
     (case Status o1 of
        No \<Rightarrow> if Accept o1 then (o1\<lparr>Status := Yes\<rparr>, Some True) else (o1, Some False)
      | WantNo \<Rightarrow> (case Que o1 of Empty \<Rightarrow> (o1\<lparr>Status := No\<rparr>, None)
                              | Opposite \<Rightarrow> (o1\<lparr>Status := Yes\<rparr>, None))
      | WantYes \<Rightarrow> (case Que o1 of Empty \<Rightarrow> (o1\<lparr>Status := Yes\<rparr>, None)
                               | Opposite \<Rightarrow> (o1\<lparr>Status := WantNo, Que := Empty\<rparr>, Some False))
      | Yes \<Rightarrow> (o1, None))"

definition opt_off :: "TelOpt \<Rightarrow> TelOpt \<times> bool option" where
  "opt_off o1 =
     (case Status o1 of
        Yes \<Rightarrow> (o1\<lparr>Status := No\<rparr>, Some False)
      | WantNo \<Rightarrow> (case Que o1 of Empty \<Rightarrow> (o1\<lparr>Status := No\<rparr>, None)
                              | Opposite \<Rightarrow> (o1\<lparr>Status := WantYes, Que := Empty\<rparr>, Some True))
      | WantYes \<Rightarrow> (case Que o1 of Empty \<Rightarrow> (o1\<lparr>Status := No\<rparr>, None)
                               | Opposite \<Rightarrow> (o1\<lparr>Status := No, Que := Empty\<rparr>, None))
      | No \<Rightarrow> (o1, None))"

definition opt_enable :: "TelOpt \<Rightarrow> TelOpt \<times> bool option" where
  "opt_enable o1 =
     (case Status o1 of
        No \<Rightarrow> (o1\<lparr>Status := WantYes\<rparr>, Some True)
      | WantNo \<Rightarrow> (if Que o1 = Empty then o1\<lparr>Que := Opposite\<rparr> else o1, None)
      | WantYes \<Rightarrow> (if Que o1 = Opposite then o1\<lparr>Que := Empty\<rparr> else o1, None)
      | Yes \<Rightarrow> (o1, None))"

definition opt_disable :: "TelOpt \<Rightarrow> TelOpt \<times> bool option" where
  "opt_disable o1 =
     (case Status o1 of
        Yes \<Rightarrow> (o1\<lparr>Status := WantNo\<rparr>, Some False)
      | WantNo \<Rightarrow> (if Que o1 = Opposite then o1\<lparr>Que := Empty\<rparr> else o1, None)
      | WantYes \<Rightarrow> (if Que o1 = Empty then o1\<lparr>Que := Opposite\<rparr> else o1, None)
      | No \<Rightarrow> (o1, None))"

text \<open>The record of the option \<open>b\<close> in the array for the other end, or for ours.\<close>

definition his_opt :: "(TelOpt \<Rightarrow> TelOpt \<times> bool option) \<Rightarrow> u8 \<Rightarrow> telnet \<Rightarrow> telnet option" where
  "his_opt f b s =
     do {
       o1 \<leftarrow> rd (HisOpt s) (uint b);
       let (o2, r) = f o1;
       os \<leftarrow> wr (HisOpt s) (uint b) o2;
       let s = s\<lparr>HisOpt := os\<rparr>;
       (case r of None \<Rightarrow> Some s
        | Some True \<Rightarrow> SendBack DOTEL b s
        | Some False \<Rightarrow> SendBack DONTTEL b s)
     }"

definition my_opt :: "(TelOpt \<Rightarrow> TelOpt \<times> bool option) \<Rightarrow> u8 \<Rightarrow> telnet \<Rightarrow> telnet option" where
  "my_opt f b s =
     do {
       o1 \<leftarrow> rd (MyOpt s) (uint b);
       let (o2, r) = f o1;
       os \<leftarrow> wr (MyOpt s) (uint b) o2;
       let s = s\<lparr>MyOpt := os\<rparr>;
       (case r of None \<Rightarrow> Some s
        | Some True \<Rightarrow> SendBack WILLTEL b s
        | Some False \<Rightarrow> SendBack WONTTEL b s)
     }"

definition TelEnableHisOpt :: "u8 \<Rightarrow> telnet \<Rightarrow> telnet option" where
  "TelEnableHisOpt b s = (if uint b \<le> MaxTelOpt then his_opt opt_enable b s else Some s)"

definition TelDisableHisOpt :: "u8 \<Rightarrow> telnet \<Rightarrow> telnet option" where
  "TelDisableHisOpt b s = (if uint b \<le> MaxTelOpt then his_opt opt_disable b s else Some s)"

definition TelEnableMyOpt :: "u8 \<Rightarrow> telnet \<Rightarrow> telnet option" where
  "TelEnableMyOpt b s = (if uint b \<le> MaxTelOpt then my_opt opt_enable b s else Some s)"

definition TelDisableMyOpt :: "u8 \<Rightarrow> telnet \<Rightarrow> telnet option" where
  "TelDisableMyOpt b s = (if uint b \<le> MaxTelOpt then my_opt opt_disable b s else Some s)"

subsection \<open>What an option switches\<close>

definition his_echo :: "telnet \<Rightarrow> telnet option" where
  "his_echo s =
     do {
       o1 \<leftarrow> rd (HisOpt s) (uint oECHO);
       let s = (if TelEcho s
                then (case Status o1 of Yes \<Rightarrow> s\<lparr>LocalEcho := False\<rparr> | No \<Rightarrow> s\<lparr>LocalEcho := True\<rparr> | _ \<Rightarrow> s)
                else s);
       Some (if Status o1 = Yes then s\<lparr>cv := (cv s)\<lparr>TelLineMode := False\<rparr>\<rparr> else s)
     }"

definition his_sga :: "telnet \<Rightarrow> telnet option" where
  "his_sga s =
     do {
       o1 \<leftarrow> rd (HisOpt s) (uint oSGA);
       Some (if Status o1 = Yes then s\<lparr>cv := (cv s)\<lparr>TelLineMode := False\<rparr>\<rparr> else s)
     }"

definition his_binary :: "telnet \<Rightarrow> telnet option" where
  "his_binary s =
     do {
       o1 \<leftarrow> rd (HisOpt s) (uint oBINARY);
       Some (case Status o1 of Yes \<Rightarrow> s\<lparr>cv := (cv s)\<lparr>TelBinRecv := True\<rparr>\<rparr>
             | No \<Rightarrow> s\<lparr>cv := (cv s)\<lparr>TelBinRecv := False\<rparr>\<rparr> | _ \<Rightarrow> s)
     }"

definition my_binary :: "telnet \<Rightarrow> telnet option" where
  "my_binary s =
     do {
       o1 \<leftarrow> rd (MyOpt s) (uint oBINARY);
       Some (case Status o1 of Yes \<Rightarrow> s\<lparr>cv := (cv s)\<lparr>TelBinSend := True\<rparr>\<rparr>
             | No \<Rightarrow> s\<lparr>cv := (cv s)\<lparr>TelBinSend := False\<rparr>\<rparr> | _ \<Rightarrow> s)
     }"

definition my_naws :: "telnet \<Rightarrow> telnet option" where
  "my_naws s =
     do { o1 \<leftarrow> rd (MyOpt s) (uint oNAWS); if Status o1 = Yes then SendWinSize s else Some s }"

definition my_sga :: "telnet \<Rightarrow> telnet option" where
  "my_sga s =
     do {
       o1 \<leftarrow> rd (MyOpt s) (uint oSGA);
       Some (if Status o1 = Yes then s\<lparr>cv := (cv s)\<lparr>TelLineMode := False\<rparr>\<rparr> else s)
     }"

definition ParseTelWill :: "u8 \<Rightarrow> telnet \<Rightarrow> telnet option" where
  "ParseTelWill b s =
     do {
       s \<leftarrow> (if uint b \<le> MaxTelOpt then his_opt opt_on b s else SendBack DONTTEL b s);
       s \<leftarrow> (if b = oECHO then his_echo s else if b = oSGA then his_sga s
            else if b = oBINARY then his_binary s else Some s);
       Some (s\<lparr>TelStatus := TelIdle\<rparr>)
     }"

definition ParseTelWont :: "u8 \<Rightarrow> telnet \<Rightarrow> telnet option" where
  "ParseTelWont b s =
     do {
       s \<leftarrow> (if uint b \<le> MaxTelOpt then his_opt opt_off b s else SendBack DONTTEL b s);
       s \<leftarrow> (if b = oECHO then his_echo s else if b = oBINARY then his_binary s else Some s);
       Some (s\<lparr>TelStatus := TelIdle\<rparr>)
     }"

definition ParseTelDo :: "u8 \<Rightarrow> telnet \<Rightarrow> telnet option" where
  "ParseTelDo b s =
     do {
       s \<leftarrow> (if uint b \<le> MaxTelOpt then my_opt opt_on b s else SendBack WONTTEL b s);
       s \<leftarrow> (if b = oBINARY then my_binary s else if b = oNAWS then my_naws s
            else if b = oSGA then my_sga s else Some s);
       Some (s\<lparr>TelStatus := TelIdle\<rparr>)
     }"

definition ParseTelDont :: "u8 \<Rightarrow> telnet \<Rightarrow> telnet option" where
  "ParseTelDont b s =
     do {
       s \<leftarrow> (if uint b \<le> MaxTelOpt then my_opt opt_off b s else SendBack WONTTEL b s);
       s \<leftarrow> (if b = oBINARY then my_binary s else Some s);
       Some (s\<lparr>TelStatus := TelIdle\<rparr>)
     }"

subsection \<open>Sub-options\<close>

fun dec_digits :: "nat \<Rightarrow> u8 list" where
  "dec_digits n = (if n < 10 then [0x30 + of_nat n] else dec_digits (n div 10) @ [0x30 + of_nat (n mod 10)])"

declare dec_digits.simps [simp del]

definition dec_int :: "int \<Rightarrow> u8 list" where
  "dec_int i = (if i < 0 then 0x2D # dec_digits (nat (- i)) else dec_digits (nat i))"

text \<open>
  \<open>_snprintf_s\<close> cuts the text at 50 characters; its length is taken up to the first NUL
  behind the fourth byte.
\<close>

definition sub_text :: "u8 list \<Rightarrow> u8 list" where
  "sub_text t = (let TmpStr = take 50 t in take (4 + length (takeWhile (\<lambda>b. b \<noteq> 0) (drop 4 TmpStr))) TmpStr)"

definition sub_termtype :: "telnet \<Rightarrow> telnet option" where
  "sub_termtype s =
     do {
       o1 \<leftarrow> rd (MyOpt s) (uint oTERMTYPE);
       b1 \<leftarrow> rd (SubOptBuff s) 1;
       if Status o1 = Yes \<and> b1 = 1
       then tel_out (sub_text ([cIAC, cSB, oTERMTYPE, 0] @ TermType s @ [cIAC, cSE])) s
       else Some s
     }"

definition sub_naws :: "telnet \<Rightarrow> telnet option" where
  "sub_naws s =
     (if SubOptCount s \<ge> 5
      then do {
        b1 \<leftarrow> rd (SubOptBuff s) 1;
        b2 \<leftarrow> rd (SubOptBuff s) 2;
        b3 \<leftarrow> rd (SubOptBuff s) 3;
        b4 \<leftarrow> rd (SubOptBuff s) 4;
        Some (s\<lparr>WinSizeX := uint b1 * 256 + uint b2, WinSizeY := uint b3 * 256 + uint b4,
                ChangeWinSize := True\<rparr>)
      }
      else Some s)"

definition sub_termspeed :: "telnet \<Rightarrow> telnet option" where
  "sub_termspeed s =
     do {
       o1 \<leftarrow> rd (MyOpt s) (uint oTERMSPEED);
       b1 \<leftarrow> rd (SubOptBuff s) 1;
       if Status o1 = Yes \<and> b1 = 1
       then tel_out (sub_text ([cIAC, cSB, oTERMSPEED, 0] @ dec_int (TerminalInputSpeed s) @ [0x2C] @
              dec_int (TerminalOutputSpeed s) @ [cIAC, cSE])) s
       else Some s
     }"

definition sub_end :: "telnet \<Rightarrow> telnet option" where
  "sub_end s =
     do {
       s \<leftarrow> (if SubOptCount s \<le> 1 then Some s
            else do {
              b0 \<leftarrow> rd (SubOptBuff s) 0;
              if b0 = oTERMTYPE then sub_termtype s
              else if b0 = oNAWS then sub_naws s
              else if b0 = oTERMSPEED then sub_termspeed s
              else Some s
            });
       Some (s\<lparr>SubOptCount := 0, TelStatus := TelIdle\<rparr>)
     }"

text \<open>\<open>sizeof(tr.SubOptBuff)-1\<close> is 50.\<close>

definition sub_put :: "u8 \<Rightarrow> telnet \<Rightarrow> telnet option" where
  "sub_put b s =
     do { B \<leftarrow> wr (SubOptBuff s) (SubOptCount s) b;
          Some (s\<lparr>SubOptBuff := B, SubOptCount := SubOptCount s + 1\<rparr>) }"

definition sub_data :: "u8 \<Rightarrow> telnet \<Rightarrow> telnet option" where
  "sub_data b s =
     (if SubOptCount s \<ge> 50
      then Some (s\<lparr>SubOptCount := 0, SubOptIAC := False, TelStatus := TelIdle\<rparr>)
      else sub_put b s)"

definition ParseTelSB :: "u8 \<Rightarrow> telnet \<Rightarrow> telnet option" where
  "ParseTelSB b s =
     (if SubOptIAC s
      then (let s = s\<lparr>SubOptIAC := False\<rparr> in
            if b = cSE then sub_end s
            else if b = cIAC then sub_data b s
            else if SubOptCount s \<ge> 50 then Some (s\<lparr>SubOptCount := 0, TelStatus := TelIdle\<rparr>)
            else do { s \<leftarrow> sub_put cIAC s; sub_data b s })
      else if b = cIAC then Some (s\<lparr>SubOptIAC := True\<rparr>)
      else sub_data b s)"

subsection \<open>The parser\<close>

definition ParseTelIAC :: "u8 \<Rightarrow> telnet \<Rightarrow> telnet" where
  "ParseTelIAC b s =
     (if b = cSE then s
      else if cNOP \<le> b \<and> b \<le> cGOAHEAD then s\<lparr>TelStatus := TelIdle\<rparr>
      else if b = cSB then s\<lparr>TelStatus := TelSB, SubOptCount := 0\<rparr>
      else if b = WILLTEL then s\<lparr>TelStatus := TelWill\<rparr>
      else if b = WONTTEL then s\<lparr>TelStatus := TelWont\<rparr>
      else if b = DOTEL then s\<lparr>TelStatus := TelDo\<rparr>
      else if b = DONTTEL then s\<lparr>TelStatus := TelDont\<rparr>
      else s\<lparr>TelStatus := TelIdle\<rparr>)"

definition tel_switch :: "u8 \<Rightarrow> telnet \<Rightarrow> telnet option" where
  "tel_switch b s =
     (case TelStatus s of
        TelIAC \<Rightarrow> Some (ParseTelIAC b s)
      | TelSB \<Rightarrow> ParseTelSB b s
      | TelWill \<Rightarrow> ParseTelWill b s
      | TelWont \<Rightarrow> ParseTelWont b s
      | TelDo \<Rightarrow> ParseTelDo b s
      | TelDont \<Rightarrow> ParseTelDont b s
      | TelNop \<Rightarrow> Some (s\<lparr>TelStatus := TelIdle\<rparr>)
      | TelIdle \<Rightarrow> Some s)"

text \<open>One turn of the loop, up to the reading of the next byte.\<close>

definition tel_byte :: "u8 \<Rightarrow> telnet \<Rightarrow> telnet option" where
  "tel_byte b s =
     do {
       let s = (if TelStatus s = TelIAC then tel_log ([0x0D, 0x0A, 0x3C] @ TelWriteLog1 cIAC) s else s);
       let s = tel_log (TelWriteLog1 b) s;
       let s = s\<lparr>ChangeWinSize := False\<rparr>;
       s \<leftarrow> tel_switch b s;
       Some (if TelStatus s = TelIdle then s\<lparr>cv := (cv s)\<lparr>TelMode := False\<rparr>\<rparr> else s)
     }"

text \<open>
  The loop runs while there is a byte and \<open>TelMode\<close> is set. The first argument bounds its
  turns; \<open>None\<close> would be a loop that goes on beyond it, or an access outside an array.
\<close>

definition read_byte :: "telnet \<Rightarrow> (telnet \<times> u8 option) option" where
  "read_byte s = do { (c, r) \<leftarrow> CommReadRawByte (cv s); Some (s\<lparr>cv := c\<rparr>, r) }"

fun parse_tel_loop :: "nat \<Rightarrow> u8 option \<Rightarrow> telnet \<Rightarrow> telnet option" where
  "parse_tel_loop 0 r s = (if r = None \<or> \<not> TelMode (cv s) then Some s else None)"
| "parse_tel_loop (Suc n) r s =
     (if r = None \<or> \<not> TelMode (cv s) then Some s
      else do {
        s \<leftarrow> tel_byte (the r) s;
        (s, r) \<leftarrow> (if TelMode (cv s) then read_byte s else Some (s, r));
        parse_tel_loop n r s
      })"

text \<open>The result is the new state with \<open>*Size\<close>, \<open>*nx\<close> and \<open>*ny\<close>.\<close>

definition ParseTel :: "telnet \<Rightarrow> (telnet \<times> bool \<times> int \<times> int) option" where
  "ParseTel s =
     do {
       let n = nat (InBuffCount (cv s));
       (s, r) \<leftarrow> read_byte s;
       s \<leftarrow> parse_tel_loop n r s;
       Some (s, ChangeWinSize s, WinSizeX s, WinSizeY s)
     }"

subsection \<open>Commands of the user\<close>

definition TelInformWinSize :: "int \<Rightarrow> int \<Rightarrow> telnet \<Rightarrow> telnet option" where
  "TelInformWinSize nx ny s =
     do {
       o1 \<leftarrow> rd (MyOpt s) (uint oNAWS);
       if Status o1 = Yes \<and> (nx \<noteq> WinSizeX s \<or> ny \<noteq> WinSizeY s)
       then SendWinSize (s\<lparr>WinSizeX := nx, WinSizeY := ny\<rparr>)
       else Some s
     }"

definition tel_command :: "(comvar \<Rightarrow> comvar) \<Rightarrow> u8 \<Rightarrow> telnet \<Rightarrow> telnet option" where
  "tel_command CommSend c s =
     do {
       (c1, _) \<leftarrow> CommRawOut [cIAC, c] 2 (cv s);
       Some (tel_log (TelWriteLog [cIAC, c]) (s\<lparr>cv := CommSend c1\<rparr>))
     }"

definition TelSendAYT :: "(comvar \<Rightarrow> comvar) \<Rightarrow> telnet \<Rightarrow> telnet option" where
  "TelSendAYT CommSend s = tel_command CommSend cAYT s"

definition TelSendBreak :: "(comvar \<Rightarrow> comvar) \<Rightarrow> telnet \<Rightarrow> telnet option" where
  "TelSendBreak CommSend s = tel_command CommSend cBREAK s"

definition TelSendNOP :: "(comvar \<Rightarrow> comvar) \<Rightarrow> telnet \<Rightarrow> telnet option" where
  "TelSendNOP CommSend s = tel_command CommSend cNOP s"

definition TelChangeEcho :: "telnet \<Rightarrow> telnet option" where
  "TelChangeEcho s = (if \<not> LocalEcho s then TelEnableHisOpt oECHO s else TelDisableHisOpt oECHO s)"

subsection \<open>Every command stays inside the arrays\<close>

definition tel_ok :: "telnet \<Rightarrow> bool" where
  "tel_ok s \<longleftrightarrow> comm_ok (cv s) \<and> length (MyOpt s) = 35 \<and> length (HisOpt s) = 35 \<and>
     length (SubOptBuff s) = 51 \<and> 0 \<le> SubOptCount s \<and> SubOptCount s \<le> 50"

text \<open>What a handler leaves alone: the input of the connection.\<close>

definition keeps :: "telnet \<Rightarrow> telnet \<Rightarrow> bool" where
  "keeps s t \<longleftrightarrow> tel_ok t \<and> InBuff (cv t) = InBuff (cv s) \<and> InPtr (cv t) = InPtr (cv s) \<and>
     InBuffCount (cv t) = InBuffCount (cv s) \<and> Ready (cv t) = Ready (cv s) \<and>
     TelMode (cv t) = TelMode (cv s)"

named_theorems tel_keep \<open>handlers that return a state and keep the invariant and the input\<close>

lemma keeps_refl: "tel_ok s \<Longrightarrow> keeps s s"
  by (simp add: keeps_def)

lemma keeps_trans: "keeps s t \<Longrightarrow> keeps t u \<Longrightarrow> keeps s u"
  by (simp add: keeps_def)

lemma keeps_ok: "keeps s t \<Longrightarrow> tel_ok t"
  by (simp add: keeps_def)

lemma keeps_inq: "keeps s t \<Longrightarrow> inq (cv t) = inq (cv s)"
  by (simp add: keeps_def inq_def)

lemma keeps_step:
  assumes "\<exists>t. f = Some t \<and> keeps s t" "\<And>t. keeps s t \<Longrightarrow> \<exists>u. g t = Some u \<and> keeps t u"
  shows "\<exists>u. Option.bind f g = Some u \<and> keeps s u"
  using assms keeps_trans by fastforce

lemma tel_log_frame [simp]:
  "cv (tel_log l s) = cv s" "MyOpt (tel_log l s) = MyOpt s" "HisOpt (tel_log l s) = HisOpt s"
  "SubOptBuff (tel_log l s) = SubOptBuff s" "SubOptCount (tel_log l s) = SubOptCount s"
  "SubOptIAC (tel_log l s) = SubOptIAC s" "TelStatus (tel_log l s) = TelStatus s"
  "ChangeWinSize (tel_log l s) = ChangeWinSize s" "WinSizeX (tel_log l s) = WinSizeX s"
  "WinSizeY (tel_log l s) = WinSizeY s" "TelEcho (tel_log l s) = TelEcho s"
  by (simp_all add: tel_log_def)

lemma tel_ok_frame [simp]:
  "tel_ok (tel_log l s) = tel_ok s" "tel_ok (s\<lparr>TelStatus := x\<rparr>) = tel_ok s"
  "tel_ok (s\<lparr>ChangeWinSize := f\<rparr>) = tel_ok s" "tel_ok (s\<lparr>SubOptIAC := f\<rparr>) = tel_ok s"
  "tel_ok (s\<lparr>LocalEcho := f\<rparr>) = tel_ok s" "tel_ok (s\<lparr>WinSizeX := n, WinSizeY := m\<rparr>) = tel_ok s"
  by (simp_all add: tel_ok_def)

text \<open>
  What \<open>tel_out\<close> does: bytes are added at the end of the output queue, all of them if they
  fit (\<open>CommRawOut\<close> sends a prefix otherwise, and nobody looks at what it returns).
\<close>

lemma tel_out_sends:
  assumes "tel_ok s"
  shows "\<exists>b n p l. tel_out B s = Some (s\<lparr>cv := (cv s)\<lparr>OutBuff := b, OutBuffCount := n, OutPtr := p\<rparr>, LogFile := l\<rparr>) \<and>
    comm_ok ((cv s)\<lparr>OutBuff := b, OutBuffCount := n, OutPtr := p\<rparr>) \<and>
    (Ready (cv s) \<and> int (length B) \<le> OutBuffSize - OutBuffCount (cv s) \<longrightarrow>
      outq ((cv s)\<lparr>OutBuff := b, OutBuffCount := n, OutPtr := p\<rparr>) = outq (cv s) @ B \<and>
      n = OutBuffCount (cv s) + int (length B))"
proof (cases "Ready (cv s)")
  case True
  have c: "comm_ok (cv s)" using assms by (simp add: tel_ok_def)
  define a where "a = min (int (length B)) (OutBuffSize - OutBuffCount (cv s))"
  obtain b p where b: "CommRawOut B (int (length B)) (cv s) =
      Some ((cv s)\<lparr>OutBuff := b, OutBuffCount := OutBuffCount (cv s) + a, OutPtr := p\<rparr>, a)"
    "comm_ok ((cv s)\<lparr>OutBuff := b, OutBuffCount := OutBuffCount (cv s) + a, OutPtr := p\<rparr>)"
    "outq ((cv s)\<lparr>OutBuff := b, OutBuffCount := OutBuffCount (cv s) + a, OutPtr := p\<rparr>)
      = outq (cv s) @ take (nat a) B"
    using CommRawOut_append [OF c True, of "int (length B)" B] unfolding a_def by auto
  show ?thesis
    by (intro exI [of _ b] exI [of _ "OutBuffCount (cv s) + a"] exI [of _ p]
        exI [of _ "LogFile (tel_log (TelWriteLog B) s)"])
      (use b in \<open>auto simp: tel_out_def tel_log_def a_def min_def split: if_splits\<close>)
next
  case False
  then show ?thesis using assms
    by (intro exI [of _ "OutBuff (cv s)"] exI [of _ "OutBuffCount (cv s)"] exI [of _ "OutPtr (cv s)"]
        exI [of _ "LogFile (tel_log (TelWriteLog B) s)"])
      (simp add: tel_out_def CommRawOut_def tel_log_def tel_ok_def)
qed

lemma tel_out_keeps [tel_keep]: "tel_ok s \<Longrightarrow> \<exists>t. tel_out B s = Some t \<and> keeps s t"
  using tel_out_sends [of s B] by (fastforce simp: keeps_def tel_ok_def)

lemma SendBack_keeps [tel_keep]: "tel_ok s \<Longrightarrow> \<exists>t. SendBack a b s = Some t \<and> keeps s t"
  unfolding SendBack_def by (rule tel_out_keeps)

lemma SendWinSize_keeps [tel_keep]: "tel_ok s \<Longrightarrow> \<exists>t. SendWinSize s = Some t \<and> keeps s t"
  unfolding SendWinSize_def by (rule tel_out_keeps)

lemma opt_index: "uint (b::u8) \<le> MaxTelOpt \<Longrightarrow> length os = 35 \<Longrightarrow> in_arr os (uint b)"
  by (simp add: in_arr_def MaxTelOpt_def)

lemma his_opt_eq:
  assumes "tel_ok s" "uint b \<le> MaxTelOpt" "f (HisOpt s ! unat b) = (o2, r)"
  shows "his_opt f b s =
    (case r of None \<Rightarrow> Some (s\<lparr>HisOpt := (HisOpt s)[unat b := o2]\<rparr>)
     | Some c \<Rightarrow> SendBack (if c then DOTEL else DONTTEL) b (s\<lparr>HisOpt := (HisOpt s)[unat b := o2]\<rparr>))"
proof -
  have i: "in_arr (HisOpt s) (uint b)" using assms(1,2) by (intro opt_index) (simp_all add: tel_ok_def)
  show ?thesis by (simp add: his_opt_def rd_in [OF i] wr_in [OF i] assms(3) Let_def split: option.split bool.split)
qed

lemma his_opt_keeps [tel_keep]:
  assumes "tel_ok s" "uint b \<le> MaxTelOpt"
  shows "\<exists>t. his_opt f b s = Some t \<and> keeps s t"
proof -
  obtain o2 r where f: "f (HisOpt s ! unat b) = (o2, r)" by fastforce
  let ?s = "s\<lparr>HisOpt := (HisOpt s)[unat b := o2]\<rparr>"
  have k: "keeps s ?s" and ok: "tel_ok ?s" using assms(1) by (simp_all add: keeps_def tel_ok_def)
  show ?thesis unfolding his_opt_eq [of s b f, OF assms f]
  proof (cases r)
    case (Some c)
    obtain t where t: "SendBack (if c then DOTEL else DONTTEL) b ?s = Some t" "keeps ?s t"
      using SendBack_keeps [OF ok] by blast
    show "\<exists>t. (case r of None \<Rightarrow> Some ?s | Some c \<Rightarrow> SendBack (if c then DOTEL else DONTTEL) b ?s) = Some t \<and> keeps s t"
      using Some t keeps_trans [OF k t(2)] by simp
  qed (use k in simp)
qed

lemma my_opt_eq:
  assumes "tel_ok s" "uint b \<le> MaxTelOpt" "f (MyOpt s ! unat b) = (o2, r)"
  shows "my_opt f b s =
    (case r of None \<Rightarrow> Some (s\<lparr>MyOpt := (MyOpt s)[unat b := o2]\<rparr>)
     | Some c \<Rightarrow> SendBack (if c then WILLTEL else WONTTEL) b (s\<lparr>MyOpt := (MyOpt s)[unat b := o2]\<rparr>))"
proof -
  have i: "in_arr (MyOpt s) (uint b)" using assms(1,2) by (intro opt_index) (simp_all add: tel_ok_def)
  show ?thesis by (simp add: my_opt_def rd_in [OF i] wr_in [OF i] assms(3) Let_def split: option.split bool.split)
qed

lemma my_opt_keeps [tel_keep]:
  assumes "tel_ok s" "uint b \<le> MaxTelOpt"
  shows "\<exists>t. my_opt f b s = Some t \<and> keeps s t"
proof -
  obtain o2 r where f: "f (MyOpt s ! unat b) = (o2, r)" by fastforce
  let ?s = "s\<lparr>MyOpt := (MyOpt s)[unat b := o2]\<rparr>"
  have k: "keeps s ?s" and ok: "tel_ok ?s" using assms(1) by (simp_all add: keeps_def tel_ok_def)
  show ?thesis unfolding my_opt_eq [of s b f, OF assms f]
  proof (cases r)
    case (Some c)
    obtain t where t: "SendBack (if c then WILLTEL else WONTTEL) b ?s = Some t" "keeps ?s t"
      using SendBack_keeps [OF ok] by blast
    show "\<exists>t. (case r of None \<Rightarrow> Some ?s | Some c \<Rightarrow> SendBack (if c then WILLTEL else WONTTEL) b ?s) = Some t \<and> keeps s t"
      using Some t keeps_trans [OF k t(2)] by simp
  qed (use k in simp)
qed

lemma tel_flags_keep:
  "tel_ok s \<Longrightarrow> keeps s (s\<lparr>cv := (cv s)\<lparr>TelLineMode := f\<rparr>\<rparr>)"
  "tel_ok s \<Longrightarrow> keeps s (s\<lparr>cv := (cv s)\<lparr>TelBinRecv := f\<rparr>\<rparr>)"
  "tel_ok s \<Longrightarrow> keeps s (s\<lparr>cv := (cv s)\<lparr>TelBinSend := f\<rparr>\<rparr>)"
  "tel_ok s \<Longrightarrow> keeps s (s\<lparr>LocalEcho := f\<rparr>)"
  "tel_ok s \<Longrightarrow> keeps s (s\<lparr>TelStatus := x\<rparr>)"
  "tel_ok s \<Longrightarrow> keeps s (s\<lparr>LocalEcho := f, cv := (cv s)\<lparr>TelLineMode := g\<rparr>\<rparr>)"
  by (simp_all add: keeps_def tel_ok_def comm_ok_def)

lemma switches_keep [tel_keep]:
  "tel_ok s \<Longrightarrow> \<exists>t. his_echo s = Some t \<and> keeps s t"
  "tel_ok s \<Longrightarrow> \<exists>t. his_sga s = Some t \<and> keeps s t"
  "tel_ok s \<Longrightarrow> \<exists>t. his_binary s = Some t \<and> keeps s t"
  "tel_ok s \<Longrightarrow> \<exists>t. my_binary s = Some t \<and> keeps s t"
  "tel_ok s \<Longrightarrow> \<exists>t. my_sga s = Some t \<and> keeps s t"
  "tel_ok s \<Longrightarrow> \<exists>t. my_naws s = Some t \<and> keeps s t"
proof -
  assume ok: "tel_ok s"
  have r: "\<And>k. k \<in> {0, 1, 3, 31} \<Longrightarrow> rd (HisOpt s) k = Some (HisOpt s ! nat k)"
    "\<And>k. k \<in> {0, 1, 3, 31} \<Longrightarrow> rd (MyOpt s) k = Some (MyOpt s ! nat k)"
    using ok by (auto simp: rd_def in_arr_def tel_ok_def)
  show "\<exists>t. his_echo s = Some t \<and> keeps s t"
    using tel_flags_keep [OF ok] keeps_refl [OF ok] by (simp add: his_echo_def r split: OptStatus.split)
  show "\<exists>t. his_sga s = Some t \<and> keeps s t"
    using tel_flags_keep [OF ok] keeps_refl [OF ok] by (simp add: his_sga_def r)
  show "\<exists>t. his_binary s = Some t \<and> keeps s t"
    using tel_flags_keep [OF ok] keeps_refl [OF ok] by (simp add: his_binary_def r split: OptStatus.split)
  show "\<exists>t. my_binary s = Some t \<and> keeps s t"
    using tel_flags_keep [OF ok] keeps_refl [OF ok] by (simp add: my_binary_def r split: OptStatus.split)
  show "\<exists>t. my_sga s = Some t \<and> keeps s t"
    using tel_flags_keep [OF ok] keeps_refl [OF ok] by (simp add: my_sga_def r)
  show "\<exists>t. my_naws s = Some t \<and> keeps s t"
    using SendWinSize_keeps [OF ok] keeps_refl [OF ok] by (simp add: my_naws_def r)
qed

lemma handlers_keep [tel_keep]:
  assumes "tel_ok s"
  shows "\<exists>t. ParseTelWill b s = Some t \<and> keeps s t" "\<exists>t. ParseTelWont b s = Some t \<and> keeps s t"
    "\<exists>t. ParseTelDo b s = Some t \<and> keeps s t" "\<exists>t. ParseTelDont b s = Some t \<and> keeps s t"
proof -
  note k = his_opt_keeps my_opt_keeps SendBack_keeps switches_keep
  have fin: "\<exists>u. Some (t\<lparr>TelStatus := TelIdle\<rparr>) = Some u \<and> keeps t u" if "keeps s t" for s t
    using tel_flags_keep(5) [OF keeps_ok [OF that]] by simp
  have same: "\<exists>u. Some t = Some u \<and> keeps t u" if "keeps s t" for s t
    using keeps_refl [OF keeps_ok [OF that]] by simp
  show "\<exists>t. ParseTelWill b s = Some t \<and> keeps s t" unfolding ParseTelWill_def
    by (intro keeps_step fin) (use assms k same keeps_ok in auto)
  show "\<exists>t. ParseTelWont b s = Some t \<and> keeps s t" unfolding ParseTelWont_def
    by (intro keeps_step fin) (use assms k same keeps_ok in auto)
  show "\<exists>t. ParseTelDo b s = Some t \<and> keeps s t" unfolding ParseTelDo_def
    by (intro keeps_step fin) (use assms k same keeps_ok in auto)
  show "\<exists>t. ParseTelDont b s = Some t \<and> keeps s t" unfolding ParseTelDont_def
    by (intro keeps_step fin) (use assms k same keeps_ok in auto)
qed

lemma sub_put_keeps [tel_keep]:
  assumes "tel_ok s" "SubOptCount s < 50"
  shows "\<exists>t. sub_put b s = Some t \<and> keeps s t"
proof -
  have "in_arr (SubOptBuff s) (SubOptCount s)" using assms by (auto simp: in_arr_def tel_ok_def)
  then show ?thesis using assms by (simp add: sub_put_def wr_in keeps_def tel_ok_def)
qed

lemma sub_data_keeps [tel_keep]: "tel_ok s \<Longrightarrow> \<exists>t. sub_data b s = Some t \<and> keeps s t"
  using sub_put_keeps [of s b] by (auto simp: sub_data_def keeps_def tel_ok_def)

lemma sub_end_keeps [tel_keep]:
  assumes "tel_ok s"
  shows "\<exists>t. sub_end s = Some t \<and> keeps s t"
proof -
  have r: "\<And>k. k \<in> {0, 1, 2, 3, 4} \<Longrightarrow> rd (SubOptBuff s) k = Some (SubOptBuff s ! nat k)"
    "\<And>k. k \<in> {24, 32} \<Longrightarrow> rd (MyOpt s) k = Some (MyOpt s ! nat k)"
    using assms by (auto simp: rd_def in_arr_def tel_ok_def)
  note out = tel_out_keeps [OF assms] keeps_refl [OF assms]
  have "\<exists>t. sub_termtype s = Some t \<and> keeps s t" using out by (simp add: sub_termtype_def r)
  moreover have "\<exists>t. sub_termspeed s = Some t \<and> keeps s t" using out by (simp add: sub_termspeed_def r)
  moreover have "\<exists>t. sub_naws s = Some t \<and> keeps s t" using out assms
    by (simp add: sub_naws_def r keeps_def tel_ok_def)
  ultimately have "\<exists>t. (if SubOptCount s \<le> 1 then Some s
            else do {
              b0 \<leftarrow> rd (SubOptBuff s) 0;
              if b0 = oTERMTYPE then sub_termtype s
              else if b0 = oNAWS then sub_naws s
              else if b0 = oTERMSPEED then sub_termspeed s
              else Some s
            }) = Some t \<and> keeps s t"
    using out(2) by (simp add: r)
  then show ?thesis unfolding sub_end_def
    by (rule keeps_step) (simp add: keeps_def tel_ok_def)
qed

lemma ParseTelSB_keeps [tel_keep]:
  assumes "tel_ok s"
  shows "\<exists>t. ParseTelSB b s = Some t \<and> keeps s t"
proof (cases "SubOptIAC s")
  case True
  let ?s = "s\<lparr>SubOptIAC := False\<rparr>"
  have k: "keeps s ?s" "tel_ok ?s" using assms by (simp_all add: keeps_def)
  have "\<exists>t. (if b = cSE then sub_end ?s
            else if b = cIAC then sub_data b ?s
            else if SubOptCount ?s \<ge> 50 then Some (?s\<lparr>SubOptCount := 0, TelStatus := TelIdle\<rparr>)
            else do { s \<leftarrow> sub_put cIAC ?s; sub_data b s }) = Some t \<and> keeps ?s t"
  proof -
    have "\<exists>u. Option.bind (sub_put cIAC ?s) (sub_data b) = Some u \<and> keeps ?s u" if "SubOptCount ?s < 50"
      by (rule keeps_step [OF sub_put_keeps [OF k(2) that]]) (auto intro: sub_data_keeps dest: keeps_ok)
    moreover have "keeps ?s (?s\<lparr>SubOptCount := 0, TelStatus := TelIdle\<rparr>)"
      using k(2) by (simp add: keeps_def tel_ok_def)
    ultimately show ?thesis using sub_end_keeps [OF k(2)] sub_data_keeps [OF k(2), of b] by auto
  qed
  then show ?thesis using True keeps_trans [OF k(1)] by (auto simp: ParseTelSB_def Let_def)
next
  case False
  have "keeps s (s\<lparr>SubOptIAC := True\<rparr>)" using assms by (simp add: keeps_def)
  then show ?thesis using False sub_data_keeps [OF assms, of b] by (simp add: ParseTelSB_def)
qed

lemma tel_switch_keeps [tel_keep]:
  assumes "tel_ok s"
  shows "\<exists>t. tel_switch b s = Some t \<and> keeps s t"
proof -
  have "keeps s (ParseTelIAC b s)" using assms by (auto simp: ParseTelIAC_def keeps_def tel_ok_def)
  then show ?thesis using handlers_keep [OF assms] ParseTelSB_keeps [OF assms] tel_flags_keep(5) [OF assms]
      keeps_refl [OF assms]
    by (simp add: tel_switch_def split: tel_status.split)
qed

lemma tel_byte_keeps:
  assumes "tel_ok s"
  shows "\<exists>t m. tel_byte b s = Some t \<and> keeps (s\<lparr>cv := (cv s)\<lparr>TelMode := m\<rparr>\<rparr>) t \<and>
    (m = TelMode (cv s) \<or> \<not> m) \<and> (TelStatus t = TelIdle \<longrightarrow> \<not> m)"
proof -
  define u where "u = tel_log (TelWriteLog1 b)
    (if TelStatus s = TelIAC then tel_log ([0x0D, 0x0A, 0x3C] @ TelWriteLog1 cIAC) s else s)\<lparr>ChangeWinSize := False\<rparr>"
  have u: "tel_ok u" "cv u = cv s" using assms by (simp_all add: u_def)
  obtain v where v: "tel_switch b u = Some v" "keeps u v" using tel_switch_keeps [OF u(1)] by blast
  have e: "tel_byte b s = Some (if TelStatus v = TelIdle then v\<lparr>cv := (cv v)\<lparr>TelMode := False\<rparr>\<rparr> else v)"
    using v(1) unfolding tel_byte_def u_def by (simp add: Let_def)
  show ?thesis
  proof (cases "TelStatus v = TelIdle")
    case True
    then show ?thesis using e v(2) u(2)
      by (intro exI [of _ "v\<lparr>cv := (cv v)\<lparr>TelMode := False\<rparr>\<rparr>"] exI [of _ False])
        (auto simp: keeps_def tel_ok_def comm_ok_def)
  next
    case False
    then show ?thesis using e v(2) u(2)
      by (intro exI [of _ v] exI [of _ "TelMode (cv s)"]) (simp add: keeps_def)
  qed
qed

lemma read_byte_get:
  assumes "tel_ok s"
  shows "\<exists>p n r. read_byte s = Some (s\<lparr>cv := (cv s)\<lparr>InPtr := p, InBuffCount := n\<rparr>\<rparr>, r) \<and>
    tel_ok (s\<lparr>cv := (cv s)\<lparr>InPtr := p, InBuffCount := n\<rparr>\<rparr>) \<and>
    (r \<noteq> None \<longrightarrow> n = InBuffCount (cv s) - 1 \<and> 0 \<le> n) \<and>
    (Ready (cv s) \<longrightarrow> r = (case inq (cv s) of [] \<Rightarrow> None | b # _ \<Rightarrow> Some b) \<and>
       inq ((cv s)\<lparr>InPtr := p, InBuffCount := n\<rparr>) = tl (inq (cv s)))"
proof (cases "Ready (cv s)")
  case True
  have c: "comm_ok (cv s)" using assms by (simp add: tel_ok_def)
  obtain p n where g: "CommReadRawByte (cv s) = Some ((cv s)\<lparr>InPtr := p, InBuffCount := n\<rparr>,
      case inq (cv s) of [] \<Rightarrow> None | b # _ \<Rightarrow> Some b)"
    "comm_ok ((cv s)\<lparr>InPtr := p, InBuffCount := n\<rparr>)"
    "inq ((cv s)\<lparr>InPtr := p, InBuffCount := n\<rparr>) = tl (inq (cv s))"
    "inq (cv s) \<noteq> [] \<longrightarrow> n = InBuffCount (cv s) - 1 \<and> (p = InPtr (cv s) + 1 \<or> p = 0 \<and> n = 0)"
    using CommReadRawByte_get [OF c True] by blast
  have "0 \<le> n" using g(2) by (simp add: comm_ok_def)
  then show ?thesis using g assms
    by (intro exI [of _ p] exI [of _ n]) (auto simp: read_byte_def tel_ok_def split: list.splits)
next
  case False
  then show ?thesis using assms
    by (intro exI [of _ "InPtr (cv s)"] exI [of _ "InBuffCount (cv s)"] exI [of _ None])
      (simp add: read_byte_def CommReadRawByte_def)
qed

lemma parse_tel_loop_total:
  assumes "tel_ok s" "r \<noteq> None \<Longrightarrow> InBuffCount (cv s) < int n"
  shows "\<exists>t. parse_tel_loop n r s = Some t \<and> tel_ok t \<and> InBuffCount (cv t) \<le> InBuffCount (cv s)"
  using assms
proof (induction n arbitrary: r s)
  case 0
  then show ?case by (auto simp: tel_ok_def comm_ok_def)
next
  case (Suc n)
  show ?case
  proof (cases "r = None \<or> \<not> TelMode (cv s)")
    case True
    then show ?thesis using Suc.prems(1) by auto
  next
    case False
    obtain t m where t: "tel_byte (the r) s = Some t" "keeps (s\<lparr>cv := (cv s)\<lparr>TelMode := m\<rparr>\<rparr>) t"
      using tel_byte_keeps [OF Suc.prems(1)] by blast
    then have ok: "tel_ok t" "InBuffCount (cv t) = InBuffCount (cv s)" by (simp_all add: keeps_def)
    show ?thesis
    proof (cases "TelMode (cv t)")
      case True
      obtain p k q where g: "read_byte t = Some (t\<lparr>cv := (cv t)\<lparr>InPtr := p, InBuffCount := k\<rparr>\<rparr>, q)"
        "tel_ok (t\<lparr>cv := (cv t)\<lparr>InPtr := p, InBuffCount := k\<rparr>\<rparr>)"
        "q \<noteq> None \<longrightarrow> k = InBuffCount (cv t) - 1 \<and> 0 \<le> k"
        using read_byte_get [OF ok(1)] by blast
      have kle: "k \<le> InBuffCount (cv t)"
        using g(1) by (auto simp: read_byte_def CommReadRawByte_def bind_eq_Some_conv Let_def
            split: if_splits dest!: arg_cong [of _ _ "\<lambda>c. InBuffCount (cv c)"])
      show ?thesis using Suc.IH [OF g(2), of q] g(3) False t(1) True ok Suc.prems(2) kle
        by (auto simp: g(1))
    next
      case f: False
      then have "parse_tel_loop n r t = Some t" by (cases n) simp_all
      then show ?thesis using False t(1) f ok by auto
    qed
  qed
qed

text \<open>
  C12. \<open>ParseTel\<close> always comes back: no run of bytes from the peer makes it write outside the
  sub-option buffer, read an option record that does not exist, overrun the output buffer or
  loop; every call keeps the invariant of the TELNET state, whatever the settings and the
  status of the parser are.
\<close>

theorem ParseTel_total:
  assumes "tel_ok s"
  shows "\<exists>t z nx ny. ParseTel s = Some (t, z, nx, ny) \<and> tel_ok t \<and>
    InBuffCount (cv t) \<le> InBuffCount (cv s)"
proof -
  obtain p k q where g: "read_byte s = Some (s\<lparr>cv := (cv s)\<lparr>InPtr := p, InBuffCount := k\<rparr>\<rparr>, q)"
    "tel_ok (s\<lparr>cv := (cv s)\<lparr>InPtr := p, InBuffCount := k\<rparr>\<rparr>)"
    "q \<noteq> None \<longrightarrow> k = InBuffCount (cv s) - 1 \<and> 0 \<le> k"
    using read_byte_get [OF assms] by blast
  have kle: "k \<le> InBuffCount (cv s)"
    using g(1) by (auto simp: read_byte_def CommReadRawByte_def bind_eq_Some_conv Let_def
        split: if_splits dest!: arg_cong [of _ _ "\<lambda>c. InBuffCount (cv c)"])
  show ?thesis
    using parse_tel_loop_total [OF g(2), of q "nat (InBuffCount (cv s))"] g(3) kle
    by (fastforce simp: ParseTel_def g(1) Let_def)
qed

subsection \<open>One option over a run of events\<close>

text \<open>An event of one option: a command of the peer about it, or a request of the user.\<close>

datatype opt_event = Peer_on | Peer_off | User_enable | User_disable

fun opt_do :: "opt_event \<Rightarrow> TelOpt \<Rightarrow> TelOpt \<times> bool option" where
  "opt_do Peer_on = opt_on"
| "opt_do Peer_off = opt_off"
| "opt_do User_enable = opt_enable"
| "opt_do User_disable = opt_disable"

fun run_opt :: "opt_event list \<Rightarrow> TelOpt \<Rightarrow> TelOpt \<times> bool option list" where
  "run_opt [] o1 = (o1, [])"
| "run_opt (e # es) o1 =
     (let (o2, r) = opt_do e o1; (o3, rs) = run_opt es o2 in (o3, r # rs))"

text \<open>
  The reference of both sides: the Q method of RFC 1143, as its rows. A row says what an event
  does in a state and a queue, and the answer that is sent (\<open>True\<close> agrees or asks, \<open>False\<close>
  refuses); what has no row changes nothing and is not answered. Only the answer to a new offer
  depends on what the user accepts.
\<close>

type_synonym q_state = "OptStatus \<times> OptQue"

definition rfc1143_rows :: "bool \<Rightarrow> ((opt_event \<times> q_state) \<times> q_state \<times> bool option) list" where
  "rfc1143_rows agree =
     [((Peer_on, No, Empty), (if agree then Yes else No, Empty), Some agree),
      ((Peer_on, No, Opposite), (if agree then Yes else No, Opposite), Some agree),
      ((Peer_on, WantNo, Empty), (No, Empty), None),
      ((Peer_on, WantNo, Opposite), (Yes, Empty), None),
      ((Peer_on, WantYes, Empty), (Yes, Empty), None),
      ((Peer_on, WantYes, Opposite), (WantNo, Empty), Some False),
      ((Peer_off, Yes, Empty), (No, Empty), Some False),
      ((Peer_off, Yes, Opposite), (No, Opposite), Some False),
      ((Peer_off, WantNo, Empty), (No, Empty), None),
      ((Peer_off, WantNo, Opposite), (WantYes, Empty), Some True),
      ((Peer_off, WantYes, Empty), (No, Empty), None),
      ((Peer_off, WantYes, Opposite), (No, Empty), None),
      ((User_enable, No, Empty), (WantYes, Empty), Some True),
      ((User_enable, No, Opposite), (WantYes, Opposite), Some True),
      ((User_enable, WantNo, Empty), (WantNo, Opposite), None),
      ((User_enable, WantYes, Opposite), (WantYes, Empty), None),
      ((User_disable, Yes, Empty), (WantNo, Empty), Some False),
      ((User_disable, Yes, Opposite), (WantNo, Opposite), Some False),
      ((User_disable, WantNo, Opposite), (WantNo, Empty), None),
      ((User_disable, WantYes, Empty), (WantYes, Opposite), None)]"

text \<open>
  The program departs from the RFC in one row: a \<open>DONT\<close> that is answered by a \<open>WILL\<close> while the
  opposite is queued leaves the queue filled. The first row for an event counts.
\<close>

definition q_rows :: "bool \<Rightarrow> ((opt_event \<times> q_state) \<times> q_state \<times> bool option) list" where
  "q_rows agree = ((Peer_on, WantNo, Opposite), (Yes, Opposite), None) # rfc1143_rows agree"

definition q_step :: "bool \<Rightarrow> opt_event \<Rightarrow> q_state \<Rightarrow> q_state \<times> bool option" where
  "q_step agree e q = (case map_of (q_rows agree) (e, q) of None \<Rightarrow> (q, None) | Some x \<Rightarrow> x)"

fun q_run :: "bool \<Rightarrow> opt_event list \<Rightarrow> q_state \<Rightarrow> q_state \<times> bool option list" where
  "q_run agree [] q = (q, [])"
| "q_run agree (e # es) q =
     (let (q', r) = q_step agree e q; (q'', rs) = q_run agree es q' in (q'', r # rs))"

definition q_of :: "TelOpt \<Rightarrow> q_state" where
  "q_of o1 = (Status o1, Que o1)"

definition with_q :: "q_state \<Rightarrow> TelOpt \<Rightarrow> TelOpt" where
  "with_q q o1 = o1\<lparr>Status := fst q, Que := snd q\<rparr>"

lemma with_q_simps [simp]:
  "Accept (with_q q o1) = Accept o1" "q_of (with_q q o1) = q" "with_q q (with_q q' o1) = with_q q o1"
  "with_q (q_of o1) o1 = o1"
  by (simp_all add: with_q_def q_of_def)

lemma opt_do_rows: "opt_do e o1 = (case q_step (Accept o1) e (q_of o1) of (q, r) \<Rightarrow> (with_q q o1, r))"
proof (cases o1)
  case (fields a st qu)
  then show ?thesis
    by (cases e; cases st; cases qu; cases a)
      (simp_all add: opt_on_def opt_off_def opt_enable_def opt_disable_def q_step_def q_rows_def
        rfc1143_rows_def q_of_def with_q_def)
qed

lemma run_opt_rows:
  "q_run (Accept o1) es (q_of o1) = (q, rs) \<Longrightarrow> run_opt es o1 = (with_q q o1, rs)"
proof (induction es arbitrary: o1 rs)
  case Nil
  then show ?case by auto
next
  case (Cons e es)
  obtain q1 r where e: "q_step (Accept o1) e (q_of o1) = (q1, r)" by fastforce
  obtain rs1 where r: "q_run (Accept o1) es q1 = (q, rs1)" "rs = r # rs1"
    using Cons.prems by (auto simp: e split: prod.splits)
  show ?case using Cons.IH [of "with_q q1 o1" rs1] r by (simp add: opt_do_rows e)
qed

fun his_do :: "opt_event \<Rightarrow> u8 \<Rightarrow> telnet \<Rightarrow> telnet option" where
  "his_do Peer_on = ParseTelWill"
| "his_do Peer_off = ParseTelWont"
| "his_do User_enable = TelEnableHisOpt"
| "his_do User_disable = TelDisableHisOpt"

fun my_do :: "opt_event \<Rightarrow> u8 \<Rightarrow> telnet \<Rightarrow> telnet option" where
  "my_do Peer_on = ParseTelDo"
| "my_do Peer_off = ParseTelDont"
| "my_do User_enable = TelEnableMyOpt"
| "my_do User_disable = TelDisableMyOpt"

fun run_tel :: "(opt_event \<Rightarrow> u8 \<Rightarrow> telnet \<Rightarrow> telnet option) \<Rightarrow> opt_event list \<Rightarrow> u8 \<Rightarrow> telnet \<Rightarrow> telnet option" where
  "run_tel act [] b s = Some s"
| "run_tel act (e # es) b s = do { s \<leftarrow> act e b s; run_tel act es b s }"

text \<open>The command that tells the peer: \<open>yes\<close> to agree or ask, \<open>no\<close> to refuse.\<close>

fun answer :: "u8 \<Rightarrow> u8 \<Rightarrow> u8 \<Rightarrow> bool option \<Rightarrow> u8 list" where
  "answer yes no b None = []"
| "answer yes no b (Some c) = [cIAC, if c then yes else no, b]"

definition room :: "telnet \<Rightarrow> int" where
  "room s = OutBuffSize - OutBuffCount (cv s)"

definition sends :: "telnet \<Rightarrow> u8 list \<Rightarrow> telnet \<Rightarrow> bool" where
  "sends s B t \<longleftrightarrow> tel_ok t \<and> Ready (cv t) = Ready (cv s) \<and> outq (cv t) = outq (cv s) @ B"

lemma room_outq: "tel_ok s \<Longrightarrow> room s = OutBuffSize - int (length (outq (cv s)))"
  using outq_length [of "cv s"] by (simp add: room_def tel_ok_def)

lemma sends_room: "sends s B t \<Longrightarrow> tel_ok s \<Longrightarrow> room t = room s - int (length B)"
  using room_outq [of s] room_outq [of t] by (simp add: sends_def)

lemma tel_out_frame:
  assumes "tel_ok s" "Ready (cv s)" "int (length B) \<le> room s"
  shows "\<exists>t. tel_out B s = Some t \<and> sends s B t \<and> MyOpt t = MyOpt s \<and> HisOpt t = HisOpt s"
proof -
  obtain b n p l where o1: "tel_out B s = Some (s\<lparr>cv := (cv s)\<lparr>OutBuff := b, OutBuffCount := n, OutPtr := p\<rparr>, LogFile := l\<rparr>)"
    "comm_ok ((cv s)\<lparr>OutBuff := b, OutBuffCount := n, OutPtr := p\<rparr>)"
    "outq ((cv s)\<lparr>OutBuff := b, OutBuffCount := n, OutPtr := p\<rparr>) = outq (cv s) @ B"
    using tel_out_sends [OF assms(1), of B] assms(2,3) unfolding room_def by blast
  then show ?thesis using assms(1) by (simp add: sends_def tel_ok_def)
qed

text \<open>
  The contract of one end of the negotiation: an event changes the record of its option as
  \<open>opt_do\<close> says, leaves the other records alone and sends the answer, possibly with a
  sub-option behind it.
\<close>

locale option_side =
  fixes opts :: "telnet \<Rightarrow> TelOpt list"
    and yes no :: u8
    and extra :: "u8 list \<Rightarrow> bool"
    and act :: "opt_event \<Rightarrow> u8 \<Rightarrow> telnet \<Rightarrow> telnet option"
  assumes act_one: "tel_ok s \<Longrightarrow> Ready (cv s) \<Longrightarrow> uint b \<le> MaxTelOpt \<Longrightarrow> 16 \<le> room s \<Longrightarrow>
      opt_do e (opts s ! unat b) = (o2, r) \<Longrightarrow>
      \<exists>t x. act e b s = Some t \<and> opts t = (opts s)[unat b := o2] \<and> extra x \<and>
        sends s (answer yes no b r @ x) t"
    and extra_short: "extra x \<Longrightarrow> length x \<le> 13"
    and opts_length: "tel_ok s \<Longrightarrow> length (opts s) = 35"
begin

text \<open>A run of events leaves the record that \<open>run_opt\<close> computes and sends its answers in order.\<close>

lemma act_run:
  assumes "tel_ok s" "Ready (cv s)" "uint b \<le> MaxTelOpt" "16 * int (length es) \<le> room s"
    and "run_opt es (opts s ! unat b) = (o2, rs)"
  shows "\<exists>t xs. run_tel act es b s = Some t \<and> opts t = (opts s)[unat b := o2] \<and>
    length xs = length rs \<and> (\<forall>x\<in>set xs. extra x) \<and>
    sends s (concat (map2 (\<lambda>r x. answer yes no b r @ x) rs xs)) t"
  using assms
proof (induction es arbitrary: s rs)
  case Nil
  then show ?case by (intro exI [of _ s] exI [of _ "[]"]) (auto simp: sends_def)
next
  case (Cons e es)
  obtain o1 r where e: "opt_do e (opts s ! unat b) = (o1, r)" by fastforce
  obtain rs' where rs: "run_opt es o1 = (o2, rs')" "rs = r # rs'"
    using Cons.prems(5) by (auto simp: e split: prod.splits)
  have rm: "16 \<le> room s" using Cons.prems(4) by simp
  obtain u x where u: "act e b s = Some u" "opts u = (opts s)[unat b := o1]" "extra x"
    "sends s (answer yes no b r @ x) u"
    using act_one [OF Cons.prems(1,2,3) rm e] by blast
  have i: "unat b < length (opts s)"
    using Cons.prems(3) opts_length [OF Cons.prems(1)] by (simp add: MaxTelOpt_def nat_less_iff flip: nat_uint_eq)
  have ok: "tel_ok u" "Ready (cv u)" using u(4) Cons.prems(2) by (simp_all add: sends_def)
  have "length (answer yes no b r @ x) \<le> 16" using extra_short [OF u(3)] by (cases r) auto
  then have rm2: "16 * int (length es) \<le> room u"
    using sends_room [OF u(4) Cons.prems(1)] Cons.prems(4) by simp
  have r2: "run_opt es (opts u ! unat b) = (o2, rs')" using rs(1) i by (simp add: u(2))
  obtain t xs where t: "run_tel act es b u = Some t" "opts t = (opts u)[unat b := o2]"
    "length xs = length rs'" "\<forall>x\<in>set xs. extra x"
    "sends u (concat (map2 (\<lambda>r x. answer yes no b r @ x) rs' xs)) t"
    using Cons.IH [OF ok Cons.prems(3) rm2 r2] by blast
  show ?case using u t rs(2)
    by (intro exI [of _ t] exI [of _ "x # xs"]) (simp add: sends_def)
qed

end

text \<open>Both arrays of records meet the contract.\<close>

lemma SendBack_sends:
  assumes "tel_ok s" "Ready (cv s)" "3 \<le> room s"
  shows "\<exists>t. SendBack a b s = Some t \<and> sends s [cIAC, a, b] t \<and> MyOpt t = MyOpt s \<and> HisOpt t = HisOpt s"
  unfolding SendBack_def using tel_out_frame [OF assms(1,2), of "[cIAC, a, b]"] assms(3) by simp

lemma his_opt_sends:
  assumes "tel_ok s" "Ready (cv s)" "uint b \<le> MaxTelOpt" "3 \<le> room s" "f (HisOpt s ! unat b) = (o2, r)"
  shows "\<exists>t. his_opt f b s = Some t \<and> HisOpt t = (HisOpt s)[unat b := o2] \<and> MyOpt t = MyOpt s \<and>
    sends s (answer DOTEL DONTTEL b r) t"
proof -
  let ?s = "s\<lparr>HisOpt := (HisOpt s)[unat b := o2]\<rparr>"
  have s: "tel_ok ?s" "Ready (cv ?s)" "3 \<le> room ?s" using assms(1,2,4) by (simp_all add: tel_ok_def room_def)
  show ?thesis unfolding his_opt_eq [of s b f, OF assms(1,3,5)]
    using SendBack_sends [OF s] s(1) by (cases r) (auto simp: sends_def)
qed

lemma my_opt_sends:
  assumes "tel_ok s" "Ready (cv s)" "uint b \<le> MaxTelOpt" "3 \<le> room s" "f (MyOpt s ! unat b) = (o2, r)"
  shows "\<exists>t. my_opt f b s = Some t \<and> MyOpt t = (MyOpt s)[unat b := o2] \<and> HisOpt t = HisOpt s \<and>
    sends s (answer WILLTEL WONTTEL b r) t"
proof -
  let ?s = "s\<lparr>MyOpt := (MyOpt s)[unat b := o2]\<rparr>"
  have s: "tel_ok ?s" "Ready (cv ?s)" "3 \<le> room ?s" using assms(1,2,4) by (simp_all add: tel_ok_def room_def)
  show ?thesis unfolding my_opt_eq [of s b f, OF assms(1,3,5)]
    using SendBack_sends [OF s] s(1) by (cases r) (auto simp: sends_def)
qed

text \<open>The switches send nothing, but for the window size.\<close>

definition quiet :: "telnet \<Rightarrow> telnet \<Rightarrow> bool" where
  "quiet s t \<longleftrightarrow> sends s [] t \<and> MyOpt t = MyOpt s \<and> HisOpt t = HisOpt s"

lemma quiet_flags:
  "tel_ok s \<Longrightarrow> quiet s s" "tel_ok s \<Longrightarrow> quiet s (s\<lparr>TelStatus := x\<rparr>)"
  "tel_ok s \<Longrightarrow> quiet s (s\<lparr>cv := (cv s)\<lparr>TelLineMode := f\<rparr>\<rparr>)"
  "tel_ok s \<Longrightarrow> quiet s (s\<lparr>cv := (cv s)\<lparr>TelBinRecv := f\<rparr>\<rparr>)"
  "tel_ok s \<Longrightarrow> quiet s (s\<lparr>cv := (cv s)\<lparr>TelBinSend := f\<rparr>\<rparr>)"
  "tel_ok s \<Longrightarrow> quiet s (s\<lparr>LocalEcho := f\<rparr>)"
  "tel_ok s \<Longrightarrow> quiet s (s\<lparr>LocalEcho := f, cv := (cv s)\<lparr>TelLineMode := g\<rparr>\<rparr>)"
  by (simp_all add: quiet_def sends_def tel_ok_def comm_ok_def outq_def)

lemma switches_quiet:
  assumes "tel_ok s"
  shows "\<exists>t. his_echo s = Some t \<and> quiet s t" "\<exists>t. his_sga s = Some t \<and> quiet s t"
    "\<exists>t. his_binary s = Some t \<and> quiet s t" "\<exists>t. my_binary s = Some t \<and> quiet s t"
    "\<exists>t. my_sga s = Some t \<and> quiet s t"
proof -
  have r: "\<And>k. k \<in> {0, 1, 3, 31} \<Longrightarrow> rd (HisOpt s) k = Some (HisOpt s ! nat k)"
    "\<And>k. k \<in> {0, 1, 3, 31} \<Longrightarrow> rd (MyOpt s) k = Some (MyOpt s ! nat k)"
    using assms by (auto simp: rd_def in_arr_def tel_ok_def)
  note q = quiet_flags [OF assms]
  show "\<exists>t. his_echo s = Some t \<and> quiet s t" using q by (simp add: his_echo_def r split: OptStatus.split)
  show "\<exists>t. his_sga s = Some t \<and> quiet s t" using q by (simp add: his_sga_def r)
  show "\<exists>t. his_binary s = Some t \<and> quiet s t" using q by (simp add: his_binary_def r split: OptStatus.split)
  show "\<exists>t. my_binary s = Some t \<and> quiet s t" using q by (simp add: my_binary_def r split: OptStatus.split)
  show "\<exists>t. my_sga s = Some t \<and> quiet s t" using q by (simp add: my_sga_def r)
qed

definition is_win_size :: "u8 list \<Rightarrow> bool" where
  "is_win_size x \<longleftrightarrow> x = [] \<or> (\<exists>w h. x = win_size_bytes w h)"

lemma is_win_size_short: "is_win_size x \<Longrightarrow> length x \<le> 13"
  by (auto simp: is_win_size_def win_size_bytes_def iac_escape_def)

lemma my_naws_sends:
  assumes "tel_ok s" "Ready (cv s)" "13 \<le> room s"
  shows "\<exists>t x. my_naws s = Some t \<and> MyOpt t = MyOpt s \<and> is_win_size x \<and> sends s x t"
proof -
  have r: "rd (MyOpt s) 31 = Some (MyOpt s ! 31)" using assms(1) by (auto simp: rd_def in_arr_def tel_ok_def)
  have w: "is_win_size (win_size_bytes (WinSizeX s) (WinSizeY s))" by (auto simp: is_win_size_def)
  have l: "int (length (win_size_bytes (WinSizeX s) (WinSizeY s))) \<le> room s"
    using is_win_size_short [OF w] assms(3) by linarith
  show ?thesis
  proof (cases "Status (MyOpt s ! 31) = Yes")
    case True
    then show ?thesis using tel_out_frame [OF assms(1,2) l] w by (auto simp: my_naws_def r SendWinSize_def)
  next
    case False
    then show ?thesis using assms(1)
      by (intro exI [of _ s] exI [of _ "[]"]) (simp add: my_naws_def r is_win_size_def sends_def)
  qed
qed

lemma sends_quiet: "sends s B t \<Longrightarrow> quiet t u \<Longrightarrow> sends s B u"
  by (simp add: sends_def quiet_def)

lemma sends_tail: "sends s B t \<Longrightarrow> sends t C u \<Longrightarrow> sends s (B @ C) u"
  by (simp add: sends_def)

lemma sends_ok: "sends s B t \<Longrightarrow> tel_ok t"
  by (simp add: sends_def)

interpretation his: option_side HisOpt DOTEL DONTTEL "\<lambda>x. x = []" his_do
proof
  fix s :: telnet and b :: u8 and e o2 r
  assume a: "tel_ok s" "Ready (cv s)" "uint b \<le> MaxTelOpt" "16 \<le> room s"
    and d: "opt_do e (HisOpt s ! unat b) = (o2, r)"
  have rm: "3 \<le> room s" using a(4) by simp
  obtain t where t: "his_opt (opt_do e) b s = Some t" "HisOpt t = (HisOpt s)[unat b := o2]"
    "sends s (answer DOTEL DONTTEL b r) t"
    using his_opt_sends [of s b "opt_do e", OF a(1-3) rm d] by blast
  note ok = sends_ok [OF t(3)]
  have post: "\<exists>w. (if b = oECHO then his_echo t else if b = oSGA then his_sga t
            else if b = oBINARY then his_binary t else Some t) = Some w \<and> quiet t w"
    "\<exists>w. (if b = oECHO then his_echo t else if b = oBINARY then his_binary t else Some t) = Some w \<and> quiet t w"
    using switches_quiet [OF ok] quiet_flags(1) [OF ok] by auto
  have idle: "HisOpt (w\<lparr>TelStatus := TelIdle\<rparr>) = (HisOpt s)[unat b := o2] \<and>
      sends s (answer DOTEL DONTTEL b r) (w\<lparr>TelStatus := TelIdle\<rparr>)" if "quiet t w" for w
    using that t(2,3) by (simp add: quiet_def sends_def)
  show "\<exists>t x. his_do e b s = Some t \<and> HisOpt t = (HisOpt s)[unat b := o2] \<and> x = [] \<and>
      sends s (answer DOTEL DONTTEL b r @ x) t"
    using a(3) t post idle
    by (cases e) (auto simp: ParseTelWill_def ParseTelWont_def TelEnableHisOpt_def TelDisableHisOpt_def)
qed (auto simp: tel_ok_def)

interpretation my: option_side MyOpt WILLTEL WONTTEL is_win_size my_do
proof
  fix s :: telnet and b :: u8 and e o2 r
  assume a: "tel_ok s" "Ready (cv s)" "uint b \<le> MaxTelOpt" "16 \<le> room s"
    and d: "opt_do e (MyOpt s ! unat b) = (o2, r)"
  have rm: "3 \<le> room s" using a(4) by simp
  obtain t where t: "my_opt (opt_do e) b s = Some t" "MyOpt t = (MyOpt s)[unat b := o2]"
    "sends s (answer WILLTEL WONTTEL b r) t"
    using my_opt_sends [of s b "opt_do e", OF a(1-3) rm d] by blast
  note ok = sends_ok [OF t(3)]
  have rt: "13 \<le> room t" "Ready (cv t)"
    using sends_room [OF t(3) a(1)] a(2,4) t(3) by (cases r; simp add: sends_def)+
  have w0: "is_win_size []" by (simp add: is_win_size_def)
  have q: "\<exists>u x. f = Some u \<and> MyOpt u = MyOpt t \<and> is_win_size x \<and> sends t x u"
    if "\<exists>w. f = Some w \<and> quiet t w" for f
    using that w0 by (auto simp: quiet_def intro!: exI [of _ "[]"])
  have post: "\<exists>u x. (if b = oBINARY then my_binary t else if b = oNAWS then my_naws t
            else if b = oSGA then my_sga t else Some t) = Some u \<and> MyOpt u = MyOpt t \<and> is_win_size x \<and> sends t x u"
    "\<exists>u x. (if b = oBINARY then my_binary t else Some t) = Some u \<and> MyOpt u = MyOpt t \<and> is_win_size x \<and> sends t x u"
    "\<exists>u x. Some t = Some u \<and> MyOpt u = MyOpt t \<and> is_win_size x \<and> sends t x u"
    using q [OF switches_quiet(4) [OF ok]] q [OF switches_quiet(5) [OF ok]] my_naws_sends [OF ok rt(2,1)]
      q [of "Some t"] quiet_flags(1) [OF ok] by auto
  have idle: "\<exists>t' x'. Option.bind f (\<lambda>s. Some (s\<lparr>TelStatus := TelIdle\<rparr>)) = Some t' \<and>
      MyOpt t' = (MyOpt s)[unat b := o2] \<and> is_win_size x' \<and> sends s (answer WILLTEL WONTTEL b r @ x') t'"
    if "\<exists>u x. f = Some u \<and> MyOpt u = MyOpt t \<and> is_win_size x \<and> sends t x u" for f
    using that t(2,3) by (fastforce simp: sends_def)
  show "\<exists>t x. my_do e b s = Some t \<and> MyOpt t = (MyOpt s)[unat b := o2] \<and> is_win_size x \<and>
      sends s (answer WILLTEL WONTTEL b r @ x) t"
  proof (cases e)
    case Peer_on
    then show ?thesis using idle [OF post(1)] a(3) t(1) by (simp add: ParseTelDo_def)
  next
    case Peer_off
    then show ?thesis using idle [OF post(2)] a(3) t(1) by (simp add: ParseTelDont_def)
  qed (use a(3) t w0 in \<open>auto simp: TelEnableMyOpt_def TelDisableMyOpt_def intro!: exI [of _ "[]"]\<close>)
qed (auto simp: tel_ok_def is_win_size_short)

text \<open>
  C13. Our options: over any run of \<open>DO\<close>, \<open>DONT\<close> and requests of the user about one option, its
  state and queue are what the rows of RFC 1143 give (with the program's one departure from
  them), the records of the other options stay, and the bytes sent are exactly the answers
  \<open>WILL\<close> and \<open>WONT\<close> of the rows, with a window size behind some of them.
\<close>

theorem MyOpt_refines:
  assumes "tel_ok s" "Ready (cv s)" "uint b \<le> MaxTelOpt" "16 * int (length es) \<le> room s"
    and "q_run (Accept (MyOpt s ! unat b)) es (q_of (MyOpt s ! unat b)) = (q, rs)"
  shows "\<exists>t xs. run_tel my_do es b s = Some t \<and>
    MyOpt t = (MyOpt s)[unat b := with_q q (MyOpt s ! unat b)] \<and>
    length xs = length rs \<and> (\<forall>x\<in>set xs. is_win_size x) \<and> tel_ok t \<and>
    outq (cv t) = outq (cv s) @ concat (map2 (\<lambda>r x. answer WILLTEL WONTTEL b r @ x) rs xs)"
  using my.act_run [OF assms(1-4) run_opt_rows [OF assms(5)]] unfolding sends_def by blast

lemma map2_nils: "length xs = length rs \<Longrightarrow> \<forall>x\<in>set xs. x = [] \<Longrightarrow> map2 (\<lambda>r x. f r @ x) rs xs = map f rs"
  by (induction rs xs rule: list_induct2') auto

lemma his_run:
  assumes "tel_ok s" "Ready (cv s)" "uint b \<le> MaxTelOpt" "16 * int (length es) \<le> room s"
    and "run_opt es (HisOpt s ! unat b) = (o2, rs)"
  shows "\<exists>t. run_tel his_do es b s = Some t \<and> HisOpt t = (HisOpt s)[unat b := o2] \<and>
    tel_ok t \<and> outq (cv t) = outq (cv s) @ concat (map (answer DOTEL DONTTEL b) rs)"
  using his.act_run [OF assms] map2_nils [of _ rs "answer DOTEL DONTTEL b"] unfolding sends_def by metis

text \<open>
  C14. The peer's options: the same for \<open>WILL\<close>, \<open>WONT\<close> and the user's requests, answered by
  \<open>DO\<close> and \<open>DONT\<close> as the rows say; nothing else is sent.
\<close>

theorem HisOpt_refines:
  assumes "tel_ok s" "Ready (cv s)" "uint b \<le> MaxTelOpt" "16 * int (length es) \<le> room s"
    and "q_run (Accept (HisOpt s ! unat b)) es (q_of (HisOpt s ! unat b)) = (q, rs)"
  shows "\<exists>t. run_tel his_do es b s = Some t \<and>
    HisOpt t = (HisOpt s)[unat b := with_q q (HisOpt s ! unat b)] \<and>
    tel_ok t \<and> outq (cv t) = outq (cv s) @ concat (map (answer DOTEL DONTTEL b) rs)"
  by (rule his_run [OF assms(1-4) run_opt_rows [OF assms(5)]])

text \<open>
  A peer that answers \<open>DONT\<close> with \<open>WILL\<close>, when the user has changed his mind, leaves the
  queue of the option filled. The user's next request to switch the option off is then
  followed, when the peer has agreed to it, by a request to switch it on again.
\<close>

theorem HisOpt_stale_queue:
  assumes "tel_ok s" "Ready (cv s)" "uint b \<le> MaxTelOpt" "80 \<le> room s"
    and "Status (HisOpt s ! unat b) = Yes" "Que (HisOpt s ! unat b) = Empty"
  shows "\<exists>t. run_tel his_do [User_disable, User_enable, Peer_on, User_disable, Peer_off] b s = Some t \<and>
    Status (HisOpt t ! unat b) = WantYes \<and>
    outq (cv t) = outq (cv s) @ [cIAC, DONTTEL, b] @ [cIAC, DONTTEL, b] @ [cIAC, DOTEL, b]"
proof -
  let ?o = "HisOpt s ! unat b" and ?es = "[User_disable, User_enable, Peer_on, User_disable, Peer_off]"
  have r: "run_opt ?es ?o = (?o\<lparr>Status := WantYes, Que := Empty\<rparr>, [Some False, None, None, Some False, Some True])"
    using assms(5,6) by (simp add: opt_on_def opt_off_def opt_enable_def opt_disable_def)
  have rm: "16 * int (length ?es) \<le> room s" using assms(4) by simp
  have i: "unat b < length (HisOpt s)"
    using assms(1,3) by (simp add: tel_ok_def MaxTelOpt_def nat_less_iff flip: nat_uint_eq)
  show ?thesis using his_run [OF assms(1-3) rm r] i by fastforce
qed

subsection \<open>Two ends of one option\<close>

text \<open>
  Two programs that both keep the table, one with the record \<open>a\<close> and one with \<open>b\<close>, and the
  commands on their way: \<open>ab\<close> to \<open>b\<close>, \<open>ba\<close> to \<open>a\<close>, \<open>True\<close> for \<open>WILL\<close> and \<open>DO\<close>.
\<close>

type_synonym nego = "TelOpt \<times> TelOpt \<times> bool list \<times> bool list"

definition post :: "bool option \<Rightarrow> bool list \<Rightarrow> bool list" where
  "post r ch = ch @ (case r of None \<Rightarrow> [] | Some c \<Rightarrow> [c])"

definition peer_event :: "bool \<Rightarrow> opt_event" where
  "peer_event c = (if c then Peer_on else Peer_off)"

inductive nego_deliver :: "nego \<Rightarrow> nego \<Rightarrow> bool" where
  to_b: "opt_do (peer_event c) b = (b', r) \<Longrightarrow> nego_deliver (a, b, c # ab, ba) (a, b', ab, post r ba)"
| to_a: "opt_do (peer_event c) a = (a', r) \<Longrightarrow> nego_deliver (a, b, ab, c # ba) (a', b, post r ab, ba)"

inductive nego_user :: "nego \<Rightarrow> nego \<Rightarrow> bool" where
  user_a: "e \<in> {User_enable, User_disable} \<Longrightarrow> opt_do e a = (a', r) \<Longrightarrow>
    nego_user (a, b, ab, ba) (a', b, post r ab, ba)"
| user_b: "e \<in> {User_enable, User_disable} \<Longrightarrow> opt_do e b = (b', r) \<Longrightarrow>
    nego_user (a, b, ab, ba) (a, b', ab, post r ba)"

definition off_end :: "TelOpt \<Rightarrow> bool" where
  "off_end o1 \<longleftrightarrow> Status o1 = No \<and> Que o1 = Empty"

inductive nego_reach :: "nego \<Rightarrow> bool" where
  start: "off_end a \<Longrightarrow> off_end b \<Longrightarrow> nego_reach (a, b, [], [])"
| user: "nego_reach s \<Longrightarrow> nego_user s t \<Longrightarrow> nego_reach t"
| deliver: "nego_reach s \<Longrightarrow> nego_deliver s t \<Longrightarrow> nego_reach t"

inductive_simps nego_deliver_simps: "nego_deliver (a, b, ab, ba) t"

text \<open>
  What can be on its way between two ends with these records: a table for one order of the
  ends, read both ways.
\<close>

fun wires :: "OptStatus \<Rightarrow> OptStatus \<Rightarrow> bool \<Rightarrow> bool \<Rightarrow> (bool list \<times> bool list) set" where
  "wires No No p q = {([], [])}"
| "wires No WantNo p q = {([False], [])}"
| "wires No WantYes p q = {([], [True])} \<union> (if p then {} else {([False], [])})"
| "wires WantNo WantNo p q = {([False], [False])}"
| "wires WantNo WantYes p q = {([], [False, True]), ([True, False], [])}"
| "wires WantNo Yes p q = {([False], [])}"
| "wires WantYes WantYes p q = {([True], [True])} \<union> (if q then {} else {([], [False, True])})"
| "wires WantYes Yes p q = {([], [True])}"
| "wires Yes Yes p q = {([], [])}"
| "wires a b p q = {}"

definition queue_ok :: "TelOpt \<Rightarrow> bool" where
  "queue_ok o1 \<longleftrightarrow> (Que o1 = Opposite \<longrightarrow> Status o1 = WantNo \<or> Status o1 = WantYes)"

fun nego_inv :: "nego \<Rightarrow> bool" where
  "nego_inv (a, b, ab, ba) \<longleftrightarrow> queue_ok a \<and> queue_ok b \<and>
     ((ab, ba) \<in> wires (Status a) (Status b) (Accept a) (Accept b) \<or>
      (ba, ab) \<in> wires (Status b) (Status a) (Accept b) (Accept a))"

definition waits :: "TelOpt \<Rightarrow> nat" where
  "waits o1 = (if Status o1 = WantNo \<or> Status o1 = WantYes then 1 else 0)"

definition queued :: "TelOpt \<Rightarrow> nat" where
  "queued o1 = (if Que o1 = Opposite then 2 else 0)"

text \<open>A bound for the commands still to be delivered.\<close>

fun load :: "nego \<Rightarrow> nat" where
  "load (a, b, ab, ba) =
     length ab + (length ab - waits b) + length ba + (length ba - waits a) + queued a + queued b"

lemmas opt_tables = opt_on_def opt_off_def opt_enable_def opt_disable_def peer_event_def post_def
  queue_ok_def waits_def queued_def

lemma nego_inv_sym: "nego_inv (a, b, ab, ba) \<longleftrightarrow> nego_inv (b, a, ba, ab)"
  by auto

lemma load_sym: "load (a, b, ab, ba) = load (b, a, ba, ab)"
  by simp

lemma inv_cases:
  assumes "nego_inv (a, b, ab, ba)"
  obtains "Status a = No" "Status b = No" "ab = []" "ba = []"
  | "Status a = No" "Status b = WantNo" "ab = [False]" "ba = []"
  | "Status a = No" "Status b = WantYes" "ab = []" "ba = [True]"
  | "Status a = No" "Status b = WantYes" "\<not> Accept a" "ab = [False]" "ba = []"
  | "Status a = WantNo" "Status b = No" "ab = []" "ba = [False]"
  | "Status a = WantNo" "Status b = WantNo" "ab = [False]" "ba = [False]"
  | "Status a = WantNo" "Status b = WantYes" "ab = []" "ba = [False, True]"
  | "Status a = WantNo" "Status b = WantYes" "ab = [True, False]" "ba = []"
  | "Status a = WantNo" "Status b = Yes" "ab = [False]" "ba = []"
  | "Status a = WantYes" "Status b = No" "ab = [True]" "ba = []"
  | "Status a = WantYes" "Status b = No" "\<not> Accept b" "ab = []" "ba = [False]"
  | "Status a = WantYes" "Status b = WantNo" "ab = [False, True]" "ba = []"
  | "Status a = WantYes" "Status b = WantNo" "ab = []" "ba = [True, False]"
  | "Status a = WantYes" "Status b = WantYes" "ab = [True]" "ba = [True]"
  | "Status a = WantYes" "Status b = WantYes" "\<not> Accept b" "ab = []" "ba = [False, True]"
  | "Status a = WantYes" "Status b = WantYes" "\<not> Accept a" "ab = [False, True]" "ba = []"
  | "Status a = WantYes" "Status b = Yes" "ab = []" "ba = [True]"
  | "Status a = Yes" "Status b = WantNo" "ab = []" "ba = [False]"
  | "Status a = Yes" "Status b = WantYes" "ab = [True]" "ba = []"
  | "Status a = Yes" "Status b = Yes" "ab = []" "ba = []"
  using assms by (cases "Status a"; cases "Status b"; simp split: if_splits; blast)

lemma inv_queue: "nego_inv (a, b, ab, ba) \<Longrightarrow> queue_ok a \<and> queue_ok b"
  by simp

lemma deliver_b:
  assumes "nego_inv (a, b, c # ab, ba)" "opt_do (peer_event c) b = (b', r)"
  shows "nego_inv (a, b', ab, post r ba) \<and> load (a, b', ab, post r ba) < load (a, b, c # ab, ba)"
  using assms(1)
  by (cases rule: inv_cases; insert assms(2) inv_queue [OF assms(1)]; cases "Que b";
      simp add: opt_tables split: if_splits; (elim conjE)?; (hypsubst_thin)?; simp add: opt_tables)

lemma user_step_b:
  assumes "nego_inv (a, b, ab, ba)" "e \<in> {User_enable, User_disable}" "opt_do e b = (b', r)"
  shows "nego_inv (a, b', ab, post r ba)"
  using assms(1)
  by (cases rule: inv_cases; insert assms(2,3) inv_queue [OF assms(1)]; cases "Que b";
      elim insertE emptyE; simp add: opt_tables; (elim conjE)?; (hypsubst_thin)?; simp add: opt_tables)

lemma deliver_keeps:
  assumes "nego_inv s" "nego_deliver s t"
  shows "nego_inv t \<and> load t < load s"
  using assms(2,1)
proof cases
  case (to_b c b b' r a ab ba)
  then show ?thesis using deliver_b assms(1) by blast
next
  case (to_a c a a' r b ab ba)
  then show ?thesis
    using deliver_b [of b a c ba ab a' r] assms(1) nego_inv_sym load_sym by metis
qed

lemma user_keeps:
  assumes "nego_inv s" "nego_user s t"
  shows "nego_inv t"
  using assms(2,1)
proof cases
  case (user_a e a a' r b ab ba)
  then show ?thesis using user_step_b [of b a ba ab e a' r] assms(1) nego_inv_sym by metis
next
  case (user_b e b b' r a ab ba)
  then show ?thesis using user_step_b [of a b ab ba e b' r] assms(1) by metis
qed

lemma reach_inv: "nego_reach s \<Longrightarrow> nego_inv s"
  by (induction rule: nego_reach.induct)
    (auto simp: off_end_def queue_ok_def user_keeps dest: deliver_keeps)

lemma load_bound: "nego_inv s \<Longrightarrow> load s \<le> 7"
proof (cases s)
  case (fields a b ab ba)
  assume "nego_inv s"
  then have "nego_inv (a, b, ab, ba)" using fields by simp
  then show ?thesis unfolding fields
    by (cases rule: inv_cases) (auto simp: opt_tables)
qed

lemma deliver_run:
  assumes "nego_inv s" "(nego_deliver ^^ n) s t"
  shows "nego_inv t \<and> n + load t \<le> load s"
  using assms(2)
proof (induction n arbitrary: t)
  case 0
  then show ?case using assms(1) by auto
next
  case (Suc n)
  then obtain u where "(nego_deliver ^^ n) s u" "nego_deliver u t" by auto
  then show ?case using Suc.IH [of u] deliver_keeps [of u t] by fastforce
qed

lemma undelivered: "nego_inv (a, b, ab, ba) \<Longrightarrow> ab \<noteq> [] \<or> ba \<noteq> [] \<Longrightarrow> \<exists>t. nego_deliver (a, b, ab, ba) t"
  by (metis neq_Nil_conv surj_pair to_a to_b)

text \<open>
  C15. Two ends that keep this table never talk for ever: whatever the users of both ends have
  asked for and whatever is on its way, at most seven more commands are exchanged about an
  option; and when none is on its way the ends agree, both with the option on or both with it
  off, and nothing is queued.
\<close>

theorem nego_settles:
  assumes "nego_reach s" "(nego_deliver ^^ n) s t"
  shows "n \<le> 7 \<and> ((\<nexists>u. nego_deliver t u) \<longrightarrow> (\<exists>a b. t = (a, b, [], []) \<and> Status a = Status b \<and>
    Status a \<in> {Yes, No} \<and> Que a = Empty \<and> Que b = Empty))"
proof -
  have i: "nego_inv s" by (rule reach_inv [OF assms(1)])
  note r = deliver_run [OF i assms(2)]
  have "\<exists>a b. t = (a, b, [], []) \<and> Status a = Status b \<and> Status a \<in> {Yes, No} \<and> Que a = Empty \<and> Que b = Empty"
    if q: "\<nexists>u. nego_deliver t u"
  proof -
    obtain a b ab ba where t: "t = (a, b, ab, ba)" by (cases t)
    have it: "nego_inv (a, b, ab, ba)" using r t by simp
    then have e: "ab = []" "ba = []" using undelivered q t by blast+
    show ?thesis using it e inv_queue [OF it] unfolding t
      by (cases rule: inv_cases) (auto simp: queue_ok_def intro: OptQue.exhaust)
  qed
  then show ?thesis using r load_bound [OF i] by auto
qed

text \<open>
  When only \<open>a\<close> asks, and \<open>b\<close> accepts the option, the first argument is what \<open>a\<close> asked for
  last.
\<close>

inductive nego_solo :: "bool \<Rightarrow> nego \<Rightarrow> bool" where
  solo_start: "off_end a \<Longrightarrow> off_end b \<Longrightarrow> Accept b \<Longrightarrow> nego_solo False (a, b, [], [])"
| solo_ask: "nego_solo w (a, b, ab, ba) \<Longrightarrow> e \<in> {User_enable, User_disable} \<Longrightarrow> opt_do e a = (a', r) \<Longrightarrow>
    nego_solo (e = User_enable) (a', b, post r ab, ba)"
| solo_deliver: "nego_solo w s \<Longrightarrow> nego_deliver s t \<Longrightarrow> nego_solo w t"

definition wanted :: "TelOpt \<Rightarrow> bool" where
  "wanted o1 \<longleftrightarrow> Status o1 = Yes \<or> Status o1 = WantYes \<and> Que o1 = Empty \<or>
     Status o1 = WantNo \<and> Que o1 = Opposite"

fun solo_inv :: "bool \<Rightarrow> nego \<Rightarrow> bool" where
  "solo_inv w (a, b, ab, ba) \<longleftrightarrow> nego_inv (a, b, ab, ba) \<and> Accept b \<and> waits b = 0 \<and> wanted a = w"

lemma solo_cases:
  assumes "solo_inv w (a, b, ab, ba)"
  obtains "Status a = No" "Status b = No" "ab = []" "ba = []"
  | "Status a = WantNo" "Status b = No" "ab = []" "ba = [False]"
  | "Status a = WantNo" "Status b = Yes" "ab = [False]" "ba = []"
  | "Status a = WantYes" "Status b = No" "ab = [True]" "ba = []"
  | "Status a = WantYes" "Status b = Yes" "ab = []" "ba = [True]"
  | "Status a = Yes" "Status b = Yes" "ab = []" "ba = []"
proof -
  have i: "nego_inv (a, b, ab, ba)" "waits b = 0" "Accept b" using assms by (simp_all only: solo_inv.simps)
  from i(1) that show thesis by (cases rule: inv_cases) (use i(2,3) in \<open>simp_all add: waits_def\<close>)
qed

lemma solo_ask_keeps:
  assumes "solo_inv w (a, b, ab, ba)" "e \<in> {User_enable, User_disable}" "opt_do e a = (a', r)"
  shows "solo_inv (e = User_enable) (a', b, post r ab, ba)"
proof -
  have "nego_inv (a', b, post r ab, ba)"
    using user_step_b [of b a ba ab e a' r] assms nego_inv_sym [of a b] nego_inv_sym [of a' b]
    by (simp only: solo_inv.simps)
  moreover have "queue_ok a" using assms(1) by simp
  then have "wanted a' = (e = User_enable)"
    using assms(2,3)
    by (cases "Status a"; cases "Que a"; elim insertE emptyE; auto simp: opt_tables wanted_def)
  ultimately show ?thesis using assms(1) by simp
qed

lemma solo_deliver_keeps:
  assumes "solo_inv w s" "nego_deliver s t"
  shows "solo_inv w t"
  using assms(2,1)
proof cases
  case (to_b c b b' r a ab ba)
  have i: "solo_inv w (a, b, c # ab, ba)" using assms(1) to_b(1) by (simp only:)
  have n: "nego_inv (a, b', ab, post r ba)" using deliver_keeps [OF _ assms(2)] to_b i
    by (simp only: solo_inv.simps)
  have "Accept b' \<and> waits b' = 0" using i
    by (cases rule: solo_cases) (use to_b(3) i in \<open>auto simp: opt_tables\<close>)
  then show ?thesis using n i unfolding to_b by (simp only: solo_inv.simps)
next
  case (to_a c a a' r b ab ba)
  have i: "solo_inv w (a, b, ab, c # ba)" using assms(1) to_a(1) by (simp only:)
  have n: "nego_inv (a', b, post r ab, ba)" using deliver_keeps [OF _ assms(2)] to_a i
    by (simp only: solo_inv.simps)
  have w: "wanted a = w" using i by simp
  have "wanted a' = w" using i
    by (cases rule: solo_cases; insert to_a(3) w; cases "Que a"; auto simp: opt_tables wanted_def)
  then show ?thesis using n i unfolding to_a by (simp only: solo_inv.simps)
qed

lemma solo_reach: "nego_solo w s \<Longrightarrow> solo_inv w s"
proof (induction rule: nego_solo.induct)
  case (solo_start a b)
  then show ?case by (auto simp: off_end_def queue_ok_def waits_def wanted_def)
qed (blast intro: solo_ask_keeps solo_deliver_keeps)+

text \<open>
  C16. When the other end accepts the option and asks for nothing itself, the option ends as it
  was asked for last, at both ends, however the requests and the answers have crossed.
\<close>

theorem nego_honours:
  assumes "nego_solo w s" "\<nexists>t. nego_deliver s t"
  shows "\<exists>a b. s = (a, b, [], []) \<and> Status a = (if w then Yes else No) \<and> Status b = (if w then Yes else No)"
proof -
  obtain a b ab ba where s: "s = (a, b, ab, ba)" by (cases s)
  have i: "solo_inv w (a, b, ab, ba)" using solo_reach [OF assms(1)] unfolding s .
  then have "nego_inv (a, b, ab, ba)" by (simp only: solo_inv.simps)
  then have "ab = []" "ba = []" using undelivered [of a b ab ba] assms(2) s by blast+
  moreover have "wanted a = w" using i by simp
  ultimately show ?thesis unfolding s by (cases rule: solo_cases [OF i]) (auto simp: wanted_def)
qed

subsection \<open>A state to evaluate on\<close>

definition sample_tel :: telnet where
  "sample_tel = InitTelnet 80 24 False \<lparr>cv = sample_cv, TelStatus = TelIdle, MyOpt = [], HisOpt = [],
     SubOptBuff = replicate 51 0, SubOptCount = 0, SubOptIAC = False, ChangeWinSize = False,
     WinSizeX = 0, WinSizeY = 0, LogFile = None, TelEcho = True, LocalEcho = False,
     TermType = [0x78, 0x74, 0x65, 0x72, 0x6D], TerminalInputSpeed = 38400, TerminalOutputSpeed = 38400\<rparr>"

definition on_line :: "TelOpt list" where
  "on_line = replicate 35 \<lparr>Accept = True, Status = Yes, Que = Empty\<rparr>"

lemma sample_tel_ok:
  "tel_ok sample_tel" "Ready (cv sample_tel)" "room sample_tel = 16384" "outq (cv sample_tel) = []"
  "MyOpt sample_tel ! 31 = \<lparr>Accept = True, Status = No, Que = Empty\<rparr>"
  "HisOpt sample_tel ! 3 = \<lparr>Accept = True, Status = No, Que = Empty\<rparr>"
  "tel_ok (sample_tel\<lparr>HisOpt := on_line\<rparr>)" "room (sample_tel\<lparr>HisOpt := on_line\<rparr>) = 16384"
proof -
  have c: "cv sample_tel = sample_cv" "length (MyOpt sample_tel) = 35" "length (HisOpt sample_tel) = 35"
    "length (SubOptBuff sample_tel) = 51" "SubOptCount sample_tel = 0"
    "MyOpt sample_tel ! 31 = \<lparr>Accept = True, Status = No, Que = Empty\<rparr>"
    "HisOpt sample_tel ! 3 = \<lparr>Accept = True, Status = No, Que = Empty\<rparr>"
    by (simp_all add: sample_tel_def InitTelnet_def DefaultTelRec_def accept_opt_def MaxTelOpt_def Let_def)
  then show "tel_ok sample_tel" "Ready (cv sample_tel)" "room sample_tel = 16384" "outq (cv sample_tel) = []"
    "MyOpt sample_tel ! 31 = \<lparr>Accept = True, Status = No, Que = Empty\<rparr>"
    "HisOpt sample_tel ! 3 = \<lparr>Accept = True, Status = No, Que = Empty\<rparr>"
    "tel_ok (sample_tel\<lparr>HisOpt := on_line\<rparr>)" "room (sample_tel\<lparr>HisOpt := on_line\<rparr>) = 16384"
    using sample_cv_ok sample_cv_sizes(1) by (simp_all add: tel_ok_def room_def on_line_def)
qed

theorem ParseTel_witness: "\<exists>t z nx ny. ParseTel sample_tel = Some (t, z, nx, ny) \<and> tel_ok t"
  using ParseTel_total [OF sample_tel_ok(1)] by blast

theorem MyOpt_witness:
  "\<exists>t. run_tel my_do [User_enable, Peer_on] 31 sample_tel = Some t \<and> Status (MyOpt t ! 31) = Yes"
proof -
  have "q_run (Accept (MyOpt sample_tel ! unat (31::u8))) [User_enable, Peer_on]
      (q_of (MyOpt sample_tel ! unat (31::u8))) = ((Yes, Empty), [Some True, None])"
    by (simp add: sample_tel_ok q_of_def q_step_def q_rows_def rfc1143_rows_def)
  from MyOpt_refines [OF sample_tel_ok(1,2) _ _ this] show ?thesis
    using sample_tel_ok(1) by (fastforce simp: sample_tel_ok MaxTelOpt_def tel_ok_def with_q_def)
qed

theorem HisOpt_witness:
  "\<exists>t. run_tel his_do [Peer_on] 3 sample_tel = Some t \<and> outq (cv t) = [255, 253, 3]"
proof -
  have "q_run (Accept (HisOpt sample_tel ! unat (3::u8))) [Peer_on]
      (q_of (HisOpt sample_tel ! unat (3::u8))) = ((Yes, Empty), [Some True])"
    by (simp add: sample_tel_ok q_of_def q_step_def q_rows_def rfc1143_rows_def)
  from HisOpt_refines [OF sample_tel_ok(1,2) _ _ this] show ?thesis
    by (fastforce simp: sample_tel_ok MaxTelOpt_def)
qed

theorem HisOpt_stale_queue_witness:
  "\<exists>t. run_tel his_do [User_disable, User_enable, Peer_on, User_disable, Peer_off] 3
      (sample_tel\<lparr>HisOpt := on_line\<rparr>) = Some t \<and> Status (HisOpt t ! 3) = WantYes"
proof -
  have "uint (3::u8) \<le> MaxTelOpt" "80 \<le> room (sample_tel\<lparr>HisOpt := on_line\<rparr>)"
    "Ready (cv (sample_tel\<lparr>HisOpt := on_line\<rparr>))"
    "Status (HisOpt (sample_tel\<lparr>HisOpt := on_line\<rparr>) ! unat (3::u8)) = Yes"
    "Que (HisOpt (sample_tel\<lparr>HisOpt := on_line\<rparr>) ! unat (3::u8)) = Empty"
    using sample_tel_ok(2) by (simp_all add: sample_tel_ok(8) MaxTelOpt_def) (simp_all add: on_line_def)
  from HisOpt_stale_queue [OF sample_tel_ok(7) this(3,1,2,4,5)] show ?thesis by auto
qed

lemma sample_nego:
  defines "o1 \<equiv> \<lparr>Accept = True, Status = No, Que = Empty\<rparr>"
  shows "nego_reach (o1\<lparr>Status := WantYes\<rparr>, o1, [True], [])"
    and "nego_deliver (o1\<lparr>Status := WantYes\<rparr>, o1, [True], []) (o1\<lparr>Status := WantYes\<rparr>, o1\<lparr>Status := Yes\<rparr>, [], [True])"
    and "nego_deliver (o1\<lparr>Status := WantYes\<rparr>, o1\<lparr>Status := Yes\<rparr>, [], [True]) (o1\<lparr>Status := Yes\<rparr>, o1\<lparr>Status := Yes\<rparr>, [], [])"
    and "nego_solo True (o1\<lparr>Status := WantYes\<rparr>, o1, [True], [])"
proof -
  have z: "off_end o1" "Accept o1" by (simp_all add: o1_def off_end_def)
  have "nego_user (o1, o1, [], []) (o1\<lparr>Status := WantYes\<rparr>, o1, post (Some True) [], [])"
    by (rule user_a [of User_enable]) (simp_all add: o1_def opt_enable_def)
  from nego_reach.user [OF nego_reach.start [OF z(1) z(1)] this]
  show "nego_reach (o1\<lparr>Status := WantYes\<rparr>, o1, [True], [])" by (simp add: post_def)
  show "nego_deliver (o1\<lparr>Status := WantYes\<rparr>, o1, [True], []) (o1\<lparr>Status := WantYes\<rparr>, o1\<lparr>Status := Yes\<rparr>, [], [True])"
    using to_b [of True o1 "o1\<lparr>Status := Yes\<rparr>" "Some True" "o1\<lparr>Status := WantYes\<rparr>" "[]" "[]"]
    by (simp add: o1_def opt_on_def peer_event_def post_def)
  show "nego_deliver (o1\<lparr>Status := WantYes\<rparr>, o1\<lparr>Status := Yes\<rparr>, [], [True]) (o1\<lparr>Status := Yes\<rparr>, o1\<lparr>Status := Yes\<rparr>, [], [])"
    using to_a [of True "o1\<lparr>Status := WantYes\<rparr>" "o1\<lparr>Status := Yes\<rparr>" None "o1\<lparr>Status := Yes\<rparr>" "[]" "[]"]
    by (simp add: o1_def opt_on_def peer_event_def post_def)
  show "nego_solo True (o1\<lparr>Status := WantYes\<rparr>, o1, [True], [])"
    using solo_ask [OF solo_start [OF z(1,1,2)], of User_enable "o1\<lparr>Status := WantYes\<rparr>" "Some True"]
    by (simp add: o1_def opt_enable_def post_def)
qed

lemma no_delivery: "\<nexists>t. nego_deliver (a, b, [], []) t"
  by (simp add: nego_deliver_simps)

theorem nego_settles_witness:
  "\<exists>s t a b. nego_reach s \<and> (nego_deliver ^^ 2) s t \<and> t = (a, b, [], []) \<and> Status a = Status b"
proof -
  let ?o = "\<lparr>Accept = True, Status = No, Que = Empty\<rparr>"
  note n = sample_nego
  have r: "(nego_deliver ^^ 2) (?o\<lparr>Status := WantYes\<rparr>, ?o, [True], []) (?o\<lparr>Status := Yes\<rparr>, ?o\<lparr>Status := Yes\<rparr>, [], [])"
    using n(2,3) by (auto simp: numeral_2_eq_2)
  then obtain a b where "(?o\<lparr>Status := Yes\<rparr>, ?o\<lparr>Status := Yes\<rparr>, [], []) = (a, b, [], [])" "Status a = Status b"
    using nego_settles [OF n(1) r] no_delivery by metis
  then show ?thesis using n(1) r by blast
qed

theorem nego_honours_witness:
  "\<exists>s. nego_solo True s \<and> Status (fst s) = Yes \<and> Status (fst (snd s)) = Yes"
proof -
  let ?o = "\<lparr>Accept = True, Status = No, Que = Empty\<rparr>"
  note n = sample_nego
  have r: "nego_solo True (?o\<lparr>Status := Yes\<rparr>, ?o\<lparr>Status := Yes\<rparr>, [], [])"
    using solo_deliver [OF solo_deliver [OF n(4,2)] n(3)] .
  show ?thesis using nego_honours [OF r no_delivery] r by fastforce
qed

subsection \<open>The window size comes back\<close>

definition loop_from :: "nat \<Rightarrow> telnet \<Rightarrow> telnet option" where
  "loop_from n s = do { (s, r) \<leftarrow> read_byte s; parse_tel_loop n r s }"

lemma ParseTel_loop_from:
  "ParseTel s = map_option (\<lambda>t. (t, ChangeWinSize t, WinSizeX t, WinSizeY t)) (loop_from (nat (InBuffCount (cv s))) s)"
  by (cases "read_byte s") (auto simp: ParseTel_def loop_from_def Let_def map_conv_bind_option comp_def)

text \<open>One byte through the parser, from the state \<open>s\<close> with the byte still in the queue.\<close>

lemma loop_step:
  assumes "tel_ok s" "Ready (cv s)" "TelMode (cv s)" "inq (cv s) = b # q"
  shows "\<exists>u. tel_ok u \<and> Ready (cv u) \<and> TelMode (cv u) \<and> inq (cv u) = q \<and>
    (\<exists>p n. u = s\<lparr>cv := (cv s)\<lparr>InPtr := p, InBuffCount := n\<rparr>\<rparr>) \<and>
    (\<forall>n t. tel_byte b u = Some t \<longrightarrow>
      loop_from (Suc n) s = (if TelMode (cv t) then loop_from n t else Some t))"
proof -
  obtain p k r where g: "read_byte s = Some (s\<lparr>cv := (cv s)\<lparr>InPtr := p, InBuffCount := k\<rparr>\<rparr>, r)"
    "tel_ok (s\<lparr>cv := (cv s)\<lparr>InPtr := p, InBuffCount := k\<rparr>\<rparr>)"
    "Ready (cv s) \<longrightarrow> r = (case inq (cv s) of [] \<Rightarrow> None | b # _ \<Rightarrow> Some b) \<and>
       inq ((cv s)\<lparr>InPtr := p, InBuffCount := k\<rparr>) = tl (inq (cv s))"
    using read_byte_get [OF assms(1)] by blast
  have r: "r = Some b" "inq ((cv s)\<lparr>InPtr := p, InBuffCount := k\<rparr>) = q" using g(3) assms(2,4) by auto
  let ?u = "s\<lparr>cv := (cv s)\<lparr>InPtr := p, InBuffCount := k\<rparr>\<rparr>"
  have "loop_from (Suc n) s = (if TelMode (cv t) then loop_from n t else Some t)"
    if "tel_byte b ?u = Some t" for n t
  proof (cases "TelMode (cv t)")
    case True
    then show ?thesis using that assms(3) by (simp add: loop_from_def g(1) r(1))
  next
    case False
    then have "parse_tel_loop n (Some b) t = Some t" by (cases n) simp_all
    then show ?thesis using that assms(3) False by (simp add: loop_from_def g(1) r(1))
  qed
  then show ?thesis using g(2) r assms(2,3) by (intro exI [of _ ?u]) auto
qed

text \<open>Inside a sub-option, with the bytes \<open>ds\<close> collected and \<open>q\<close> waiting.\<close>

definition in_sub :: "telnet \<Rightarrow> u8 list \<Rightarrow> u8 list \<Rightarrow> bool" where
  "in_sub s ds q \<longleftrightarrow> tel_ok s \<and> Ready (cv s) \<and> TelMode (cv s) \<and> TelStatus s = TelSB \<and> \<not> SubOptIAC s \<and>
     SubOptCount s = int (length ds) \<and> take (length ds) (SubOptBuff s) = ds \<and> inq (cv s) = q"

lemma tel_byte_at:
  assumes "tel_switch b (tel_log (TelWriteLog1 b)
      (if TelStatus s = TelIAC then tel_log ([0x0D, 0x0A, 0x3C] @ TelWriteLog1 cIAC) s else s)\<lparr>ChangeWinSize := False\<rparr>) = Some t"
  shows "tel_byte b s = Some (if TelStatus t = TelIdle then t\<lparr>cv := (cv t)\<lparr>TelMode := False\<rparr>\<rparr> else t)"
  using assms by (simp add: tel_byte_def Let_def)

lemma in_sub_put:
  assumes "length ds < 50" "length B = 51" "take (length ds) B = ds"
  shows "wr B (int (length ds)) d = Some (B[length ds := d])" "take (Suc (length ds)) (B[length ds := d]) = ds @ [d]"
proof -
  show "wr B (int (length ds)) d = Some (B[length ds := d])" using assms by (simp add: wr_def in_arr_def)
  have "length ds < length B" using assms by simp
  then show "take (Suc (length ds)) (B[length ds := d]) = ds @ [d]"
    using assms(3) by (simp add: take_Suc_conv_app_nth)
qed

lemma in_sub_data:
  assumes "in_sub s ds (iac_escape d @ q)" "length ds < 50"
  shows "\<exists>t. in_sub t (ds @ [d]) q \<and> (\<forall>n. loop_from (length (iac_escape d) + n) s = loop_from n t)"
proof (cases "d = cIAC")
  case False
  then have e: "inq (cv s) = d # q" and l: "length (iac_escape d) = 1" using assms(1) by (simp_all add: in_sub_def iac_escape_def)
  note s = assms(1) [unfolded in_sub_def]
  obtain u p k where u: "tel_ok u" "Ready (cv u)" "TelMode (cv u)" "inq (cv u) = q"
    "u = s\<lparr>cv := (cv s)\<lparr>InPtr := p, InBuffCount := k\<rparr>\<rparr>"
    and st: "\<And>n t. tel_byte d u = Some t \<Longrightarrow>
      loop_from (Suc n) s = (if TelMode (cv t) then loop_from n t else Some t)"
    using loop_step [OF _ _ _ e] s by blast
  have f: "TelStatus u = TelSB" "\<not> SubOptIAC u" "SubOptCount u = int (length ds)" "length (SubOptBuff u) = 51"
    "take (length ds) (SubOptBuff u) = ds"
    using s unfolding u(5) by (simp_all add: tel_ok_def)
  let ?w = "(tel_log (TelWriteLog1 d) u)\<lparr>ChangeWinSize := False\<rparr>"
  let ?t = "?w\<lparr>SubOptBuff := (SubOptBuff u)[length ds := d], SubOptCount := int (length ds) + 1\<rparr>"
  have "tel_switch d ?w = Some ?t"
    using f False assms(2) in_sub_put [OF assms(2) f(4,5), of d]
    by (simp add: tel_switch_def ParseTelSB_def sub_data_def sub_put_def)
  then have tb: "tel_byte d u = Some ?t" using tel_byte_at [of d u ?t] f(1) by simp
  have "in_sub ?t (ds @ [d]) q" using u(1-4) f assms(2) in_sub_put [OF assms(2) f(4,5), of d]
    by (auto simp: in_sub_def tel_ok_def)
  moreover have "\<forall>n. loop_from (length (iac_escape d) + n) s = loop_from n ?t"
    using st [OF tb] u(3) by (simp add: l)
  ultimately show ?thesis by blast
next
  case True
  then have e: "inq (cv s) = cIAC # cIAC # q" and l: "length (iac_escape d) = 2" using assms(1) by (simp_all add: in_sub_def iac_escape_def)
  note s = assms(1) [unfolded in_sub_def]
  obtain u p k where u: "tel_ok u" "Ready (cv u)" "TelMode (cv u)" "inq (cv u) = cIAC # q"
    "u = s\<lparr>cv := (cv s)\<lparr>InPtr := p, InBuffCount := k\<rparr>\<rparr>"
    and st: "\<And>n t. tel_byte cIAC u = Some t \<Longrightarrow>
      loop_from (Suc n) s = (if TelMode (cv t) then loop_from n t else Some t)"
    using loop_step [OF _ _ _ e] s by blast
  have f: "TelStatus u = TelSB" "\<not> SubOptIAC u" "SubOptCount u = int (length ds)" "length (SubOptBuff u) = 51"
    "take (length ds) (SubOptBuff u) = ds"
    using s unfolding u(5) by (simp_all add: tel_ok_def)
  let ?w = "(tel_log (TelWriteLog1 cIAC) u)\<lparr>ChangeWinSize := False, SubOptIAC := True\<rparr>"
  have "tel_switch cIAC ((tel_log (TelWriteLog1 cIAC) u)\<lparr>ChangeWinSize := False\<rparr>) = Some ?w"
    using f by (simp add: tel_switch_def ParseTelSB_def)
  then have tb: "tel_byte cIAC u = Some ?w" using tel_byte_at [of cIAC u ?w] f(1) by simp
  have w: "tel_ok ?w" "Ready (cv ?w)" "TelMode (cv ?w)" "inq (cv ?w) = cIAC # q" using u by simp_all
  obtain v p' k' where v: "tel_ok v" "Ready (cv v)" "TelMode (cv v)" "inq (cv v) = q"
    "v = ?w\<lparr>cv := (cv ?w)\<lparr>InPtr := p', InBuffCount := k'\<rparr>\<rparr>"
    and st2: "\<And>n t. tel_byte cIAC v = Some t \<Longrightarrow>
      loop_from (Suc n) ?w = (if TelMode (cv t) then loop_from n t else Some t)"
    using loop_step [OF w] by blast
  have f2: "TelStatus v = TelSB" "SubOptIAC v" "SubOptCount v = int (length ds)" "SubOptBuff v = SubOptBuff u"
    using f unfolding v(5) by simp_all
  let ?t = "(tel_log (TelWriteLog1 cIAC) v)\<lparr>ChangeWinSize := False, SubOptIAC := False,
      SubOptBuff := (SubOptBuff u)[length ds := d], SubOptCount := int (length ds) + 1\<rparr>"
  have "tel_switch cIAC ((tel_log (TelWriteLog1 cIAC) v)\<lparr>ChangeWinSize := False\<rparr>) = Some ?t"
    using f2 True assms(2) in_sub_put [OF assms(2) f(4,5), of d]
    by (simp add: tel_switch_def ParseTelSB_def sub_data_def sub_put_def Let_def)
  then have tb2: "tel_byte cIAC v = Some ?t" using tel_byte_at [of cIAC v ?t] f2(1) by simp
  have "in_sub ?t (ds @ [d]) q" using v(1-4) f f2 assms(2) in_sub_put [OF assms(2) f(4,5), of d]
    by (auto simp: in_sub_def tel_ok_def)
  moreover have "\<forall>n. loop_from (length (iac_escape d) + n) s = loop_from n ?t"
    using st [OF tb] u(3) st2 [OF tb2] v(3) by (simp add: l)
  ultimately show ?thesis by blast
qed

lemma in_sub_run:
  assumes "in_sub s ds (concat (map iac_escape es) @ q)" "length ds + length es \<le> 50"
  shows "\<exists>t. in_sub t (ds @ es) q \<and>
    (\<forall>n. loop_from (length (concat (map iac_escape es)) + n) s = loop_from n t)"
  using assms
proof (induction es arbitrary: s ds)
  case Nil
  then show ?case by auto
next
  case (Cons e es)
  obtain t where t: "in_sub t (ds @ [e]) (concat (map iac_escape es) @ q)"
    "\<forall>n. loop_from (length (iac_escape e) + n) s = loop_from n t"
    using in_sub_data [of s ds e "concat (map iac_escape es) @ q"] Cons.prems by auto
  obtain u where u: "in_sub u ((ds @ [e]) @ es) q"
    "\<forall>n. loop_from (length (concat (map iac_escape es)) + n) t = loop_from n u"
    using Cons.IH [OF t(1)] Cons.prems(2) by auto
  then show ?case using t(2) by (intro exI [of _ u]) (simp add: add.assoc)
qed

lemma in_sub_start:
  assumes "tel_ok s" "Ready (cv s)" "TelMode (cv s)" "TelStatus s = TelIAC" "\<not> SubOptIAC s"
    and "inq (cv s) = cSB # q"
  shows "\<exists>t. in_sub t [] q \<and> (\<forall>n. loop_from (Suc n) s = loop_from n t)"
proof -
  obtain u p k where u: "tel_ok u" "Ready (cv u)" "TelMode (cv u)" "inq (cv u) = q"
    "u = s\<lparr>cv := (cv s)\<lparr>InPtr := p, InBuffCount := k\<rparr>\<rparr>"
    and st: "\<And>n t. tel_byte cSB u = Some t \<Longrightarrow>
      loop_from (Suc n) s = (if TelMode (cv t) then loop_from n t else Some t)"
    using loop_step [OF assms(1-3,6)] by blast
  have f: "TelStatus u = TelIAC" "\<not> SubOptIAC u" using assms(4,5) unfolding u(5) by simp_all
  let ?w = "(tel_log (TelWriteLog1 cSB) (tel_log ([0x0D, 0x0A, 0x3C] @ TelWriteLog1 cIAC) u))\<lparr>ChangeWinSize := False\<rparr>"
  let ?t = "?w\<lparr>TelStatus := TelSB, SubOptCount := 0\<rparr>"
  have "tel_switch cSB ?w = Some ?t" using f by (simp add: tel_switch_def ParseTelIAC_def)
  then have tb: "tel_byte cSB u = Some ?t" using tel_byte_at [of cSB u ?t] f(1) by simp
  have "in_sub ?t [] q" using u(1-4) f by (simp add: in_sub_def tel_ok_def)
  moreover have "\<forall>n. loop_from (Suc n) s = loop_from n ?t" using st [OF tb] u(3) by simp
  ultimately show ?thesis by blast
qed

lemma in_sub_naws:
  assumes "in_sub s [oNAWS, x1, x0, y1, y0] (cIAC # cSE # q)"
  shows "\<exists>t. (\<forall>n. loop_from (Suc (Suc n)) s = Some t) \<and> tel_ok t \<and> inq (cv t) = q \<and> \<not> TelMode (cv t) \<and>
    TelStatus t = TelIdle \<and> ChangeWinSize t \<and> WinSizeX t = uint x1 * 256 + uint x0 \<and>
    WinSizeY t = uint y1 * 256 + uint y0"
proof -
  note s = assms [unfolded in_sub_def]
  have e: "inq (cv s) = cIAC # cSE # q" using s by simp
  obtain u p k where u: "tel_ok u" "Ready (cv u)" "TelMode (cv u)" "inq (cv u) = cSE # q"
    "u = s\<lparr>cv := (cv s)\<lparr>InPtr := p, InBuffCount := k\<rparr>\<rparr>"
    and st: "\<And>n t. tel_byte cIAC u = Some t \<Longrightarrow>
      loop_from (Suc n) s = (if TelMode (cv t) then loop_from n t else Some t)"
    using loop_step [OF _ _ _ e] s by blast
  have f: "TelStatus u = TelSB" "\<not> SubOptIAC u" "SubOptCount u = 5"
    "take 5 (SubOptBuff u) = [oNAWS, x1, x0, y1, y0]" using s unfolding u(5) by (simp_all add: eval_nat_numeral)
  let ?w = "(tel_log (TelWriteLog1 cIAC) u)\<lparr>ChangeWinSize := False, SubOptIAC := True\<rparr>"
  have "tel_switch cIAC ((tel_log (TelWriteLog1 cIAC) u)\<lparr>ChangeWinSize := False\<rparr>) = Some ?w"
    using f by (simp add: tel_switch_def ParseTelSB_def)
  then have tb: "tel_byte cIAC u = Some ?w" using tel_byte_at [of cIAC u ?w] f(1) by simp
  have w: "tel_ok ?w" "Ready (cv ?w)" "TelMode (cv ?w)" "inq (cv ?w) = cSE # q" using u by simp_all
  obtain v p' k' where v: "tel_ok v" "Ready (cv v)" "TelMode (cv v)" "inq (cv v) = q"
    "v = ?w\<lparr>cv := (cv ?w)\<lparr>InPtr := p', InBuffCount := k'\<rparr>\<rparr>"
    and st2: "\<And>n t. tel_byte cSE v = Some t \<Longrightarrow>
      loop_from (Suc n) ?w = (if TelMode (cv t) then loop_from n t else Some t)"
    using loop_step [OF w] by blast
  have f2: "TelStatus v = TelSB" "SubOptIAC v" "SubOptCount v = 5" "SubOptBuff v = SubOptBuff u"
    using f unfolding v(5) by simp_all
  have l: "length (SubOptBuff v) = 51" using v(1) by (simp add: tel_ok_def)
  have nth: "SubOptBuff v ! i = [oNAWS, x1, x0, y1, y0] ! i" if "i < 5" for i
    using f(4) f2(4) nth_take [of i 5 "SubOptBuff v"] that by simp
  have r: "rd (SubOptBuff v) 0 = Some oNAWS" "rd (SubOptBuff v) 1 = Some x1" "rd (SubOptBuff v) 2 = Some x0"
    "rd (SubOptBuff v) 3 = Some y1" "rd (SubOptBuff v) 4 = Some y0"
    using nth [of 0] nth [of 1] nth [of 2] nth [of 3] nth [of 4] l by (simp_all add: rd_def in_arr_def)
  let ?t = "(tel_log (TelWriteLog1 cSE) v)\<lparr>ChangeWinSize := True, SubOptIAC := False,
      WinSizeX := uint x1 * 256 + uint x0, WinSizeY := uint y1 * 256 + uint y0,
      SubOptCount := 0, TelStatus := TelIdle\<rparr>"
  let ?z = "?t\<lparr>cv := (cv ?t)\<lparr>TelMode := False\<rparr>\<rparr>"
  have "tel_switch cSE ((tel_log (TelWriteLog1 cSE) v)\<lparr>ChangeWinSize := False\<rparr>) = Some ?t"
    using f2 r by (simp add: tel_switch_def ParseTelSB_def sub_end_def sub_naws_def Let_def)
  then have tb2: "tel_byte cSE v = Some ?z" using tel_byte_at [of cSE v ?t] f2(1) by simp
  have "loop_from (Suc (Suc n)) s = Some ?z" for n
    using st [OF tb, of "Suc n"] u(3) st2 [OF tb2, of n] by simp
  moreover have "tel_ok ?z" "inq (cv ?z) = q" using v(1,4) by (auto simp: tel_ok_def comm_ok_def inq_def)
  ultimately show ?thesis by (intro exI [of _ ?z]) simp
qed

lemma hi_lo: "0 \<le> w \<Longrightarrow> w < 65536 \<Longrightarrow> uint (HIBYTE w) * 256 + uint (LOBYTE w) = w"
  by (simp add: HIBYTE_def LOBYTE_def uint_word_of_int_eq take_bit_eq_mod)

lemma win_size_short: "length (win_size_bytes x y) \<le> 13"
  by (simp add: win_size_bytes_def iac_escape_def)

lemma win_size_as_data:
  "win_size_bytes x y = cIAC # cSB # concat (map iac_escape [oNAWS, HIBYTE x, LOBYTE x, HIBYTE y, LOBYTE y]) @ [cIAC, cSE]"
  by (simp add: win_size_bytes_def iac_escape_def)

text \<open>
  C17. The window size survives the connection: the bytes that \<open>SendWinSize\<close> queues are read
  by the \<open>ParseTel\<close> of the other end, which reports just that size, takes exactly these bytes
  from its input and leaves the TELNET mode; bytes 255 in the size are escaped and come back.
\<close>

theorem win_size_roundtrip:
  assumes "tel_ok s" "Ready (cv s)" "13 \<le> room s"
    and "0 \<le> WinSizeX s" "WinSizeX s < 65536" "0 \<le> WinSizeY s" "WinSizeY s < 65536"
    and "tel_ok r" "Ready (cv r)" "TelMode (cv r)" "TelStatus r = TelIAC" "\<not> SubOptIAC r"
  shows "\<exists>t B. SendWinSize s = Some t \<and> outq (cv t) = outq (cv s) @ cIAC # B \<and>
    (inq (cv r) = B @ q \<longrightarrow> (\<exists>u. ParseTel r = Some (u, True, WinSizeX s, WinSizeY s) \<and>
      inq (cv u) = q \<and> \<not> TelMode (cv u) \<and> TelStatus u = TelIdle \<and> tel_ok u))"
proof -
  let ?w = "win_size_bytes (WinSizeX s) (WinSizeY s)"
  let ?d = "[oNAWS, HIBYTE (WinSizeX s), LOBYTE (WinSizeX s), HIBYTE (WinSizeY s), LOBYTE (WinSizeY s)]"
  have l: "int (length ?w) \<le> room s"
    using win_size_short [of "WinSizeX s" "WinSizeY s"] assms(3) by linarith
  obtain t where t: "SendWinSize s = Some t" "outq (cv t) = outq (cv s) @ ?w"
    using tel_out_frame [OF assms(1,2) l] by (auto simp: SendWinSize_def sends_def)
  have "\<exists>u. ParseTel r = Some (u, True, WinSizeX s, WinSizeY s) \<and>
      inq (cv u) = q \<and> \<not> TelMode (cv u) \<and> TelStatus u = TelIdle \<and> tel_ok u" if q: "inq (cv r) = tl ?w @ q"
  proof -
    have q0: "inq (cv r) = cSB # (concat (map iac_escape ?d) @ [cIAC, cSE] @ q)"
      using q by (simp add: win_size_as_data)
    obtain u where u: "in_sub u [] (concat (map iac_escape ?d) @ [cIAC, cSE] @ q)"
      "\<forall>n. loop_from (Suc n) r = loop_from n u" using in_sub_start [OF assms(8-12) q0] by blast
    obtain v where v: "in_sub v ([] @ ?d) ([cIAC, cSE] @ q)"
      "\<forall>n. loop_from (length (concat (map iac_escape ?d)) + n) u = loop_from n v"
      using in_sub_run [OF u(1)] by auto
    have v1: "in_sub v ?d (cIAC # cSE # q)" using v(1) by simp
    obtain z where z: "\<forall>n. loop_from (Suc (Suc n)) v = Some z" "tel_ok z" "inq (cv z) = q" "\<not> TelMode (cv z)"
      "TelStatus z = TelIdle" "ChangeWinSize z" "WinSizeX z = WinSizeX s" "WinSizeY z = WinSizeY s"
      using in_sub_naws [OF v1] hi_lo [OF assms(4,5)] hi_lo [OF assms(6,7)] by metis
    have "nat (InBuffCount (cv r)) = Suc (length (concat (map iac_escape ?d)) + Suc (Suc (length q)))"
      using inq_length [of "cv r"] assms(8) unfolding q0 by (auto simp: tel_ok_def)
    then have "loop_from (nat (InBuffCount (cv r))) r = Some z" using u(2) v(2) z(1) by (simp only:)
    then show ?thesis using z by (simp add: ParseTel_loop_from)
  qed
  moreover have "?w = cIAC # tl ?w" by (simp add: win_size_as_data)
  ultimately show ?thesis using t by (intro exI [of _ t] exI [of _ "tl ?w"]) auto
qed

theorem win_size_roundtrip_witness:
  "\<exists>t B u. SendWinSize (sample_tel\<lparr>WinSizeX := 255, WinSizeY := 24\<rparr>) = Some t \<and> outq (cv t) = 255 # B \<and>
    ParseTel (sample_tel\<lparr>TelStatus := TelIAC, cv := sample_cv\<lparr>TelMode := True, InBuffCount := 9,
      InBuff := [250, 31, 0, 255, 255, 0, 24, 255, 240] @ replicate 65527 0\<rparr>\<rparr>) = Some (u, True, 255, 24)"
proof -
  let ?s = "sample_tel\<lparr>WinSizeX := 255, WinSizeY := 24\<rparr>"
  let ?c = "sample_cv\<lparr>TelMode := True, InBuffCount := 9, InBuff := [250, 31, 0, 255, 255, 0, 24, 255, 240] @ replicate 65527 0\<rparr>"
  let ?r = "sample_tel\<lparr>TelStatus := TelIAC, cv := ?c\<rparr>"
  have s: "tel_ok ?s" "Ready (cv ?s)" "13 \<le> room ?s" "outq (cv ?s) = []"
    using sample_tel_ok by (simp_all add: tel_ok_def room_def)
  have c: "comm_ok ?c" "Ready ?c" by (simp_all add: sample_cv_def comm_ok_def InBuffSize_def OutBuffSize_def)
  have q: "inq ?c = [250, 31, 0, 255, 255, 0, 24, 255, 240] @ []"
    by (simp add: inq_def window_def) (simp add: sample_cv_def)
  have r: "tel_ok ?r" "Ready (cv ?r)" "\<not> SubOptIAC ?r" using sample_tel_ok c
    by (simp_all add: tel_ok_def) (simp add: sample_tel_def InitTelnet_def DefaultTelRec_def Let_def)
  have w: "win_size_bytes 255 24 = 255 # [250, 31, 0, 255, 255, 0, 24, 255, 240]"
    by (simp add: win_size_bytes_def iac_escape_def HIBYTE_def LOBYTE_def)
  obtain t B where t: "SendWinSize ?s = Some t" "outq (cv t) = outq (cv ?s) @ 255 # B"
    "inq (cv ?r) = B @ [] \<longrightarrow> (\<exists>u. ParseTel ?r = Some (u, True, WinSizeX ?s, WinSizeY ?s))"
    using win_size_roundtrip [OF s(1-3) _ _ _ _ r(1,2) _ _ r(3), of "[]"] by auto
  have "outq (cv t) = win_size_bytes 255 24"
    using tel_out_frame [OF s(1,2), of "win_size_bytes 255 24"] s(3,4) t(1) w by (auto simp: SendWinSize_def sends_def)
  then have "B = [250, 31, 0, 255, 255, 0, 24, 255, 240]" using t(2) s(4) w by simp
  then show ?thesis using t s(4) q by auto
qed

end
