(* ===== verification/ScreenPut.thy ===== *)
theory ScreenPut
  imports ScreenScroll
begin

section \<open>Writing a character, and marking URLs (teraterm/teraterm/buffer.c)\<close>

text \<open>
  \<open>BuffPutUnicode\<close> puts one Unicode character at the cursor, with the cases the code has: a
  character that combines with the one before it, a half-width or a full-width character, over
  halves of full-width characters, in insert mode or not. After it \<open>mark_url_w\<close> looks for a
  URL around the cursor and sets or clears the bit \<open>AttrURL\<close> of its cells.

  The tables of Unicode properties (unicode.cpp and its generated tables) and the conversion
  of a cell to the ANSI code page (the Windows API \<open>WideCharToMultiByte\<close>) are the fields of
  \<open>uni_env\<close>, next to the settings for character widths. Drawing has no effect on the state.
\<close>

definition AttrPadding :: u16 where "AttrPadding = 0x100"

record uni_env =
  UnicodeIsCombiningCharacter :: "u32 \<Rightarrow> int"
  UnicodeGetWidthProperty :: "u32 \<Rightarrow> char"
  UnicodeIsEmoji :: "u32 \<Rightarrow> bool"
  UnicodeOverrideWidthCheck :: "u32 \<Rightarrow> int option"
  UnicodeIsVirama :: "u32 \<Rightarrow> bool"
  UnicodeBlockIndex :: "u32 \<Rightarrow> int"
  ANSICharOf :: "u16 list \<Rightarrow> u16"
  UnicodeAmbiguousWidth :: int
  UnicodeOverrideCharWidthEnable :: bool
  UnicodeEmojiOverride :: bool
  UnicodeEmojiWidth :: int

subsection \<open>Widths\<close>

definition IsDBCS :: "id_kanji \<Rightarrow> bool" where
  "IsDBCS code \<longleftrightarrow> code \<in> {IdSJIS, IdEUC, IdJIS, IdKoreanCP949, IdCnGB2312, IdCnBig5}"

definition BuffIsHalfWidthFromPropery :: "uni_env \<Rightarrow> tset \<Rightarrow> char \<Rightarrow> bool" where
  "BuffIsHalfWidthFromPropery U t width_property =
     (if width_property = CHR ''A''
      then (if KanjiCode t = IdUTF8 then UnicodeAmbiguousWidth U \<noteq> 2 else \<not> IsDBCS (KanjiCode t))
      else if width_property = CHR ''W'' \<or> width_property = CHR ''F'' then False
      else True)"

definition BuffIsHalfWidthFromCode :: "uni_env \<Rightarrow> tset \<Rightarrow> u32 \<Rightarrow> bool" where
  "BuffIsHalfWidthFromCode U t c =
     (let prop = BuffIsHalfWidthFromPropery U t (UnicodeGetWidthProperty U c) in
      if KanjiCode t = IdUTF8
      then (case (if UnicodeOverrideCharWidthEnable U then UnicodeOverrideWidthCheck U c else None) of
              Some width \<Rightarrow> width = 1
            | None \<Rightarrow>
                if UnicodeEmojiOverride U \<and> UnicodeIsEmoji U c
                then (if c < 0x1f000 then UnicodeEmojiWidth U \<noteq> 2 else False)
                else prop)
      else if IsDBCS (KanjiCode t) \<and> UnicodeIsEmoji U c then False
      else prop)"

subsection \<open>Cells\<close>

text \<open>\<open>GetPtrRel\<close>: the index \<open>p + rel\<close>, turned into the array.\<close>

function wrap_index :: "int \<Rightarrow> int \<Rightarrow> int option" where
  "wrap_index i n =
     (if n \<le> 0 then None else if i < 0 then wrap_index (i + n) n
      else if i \<ge> n then wrap_index (i - n) n else Some i)"
  by pat_completeness auto
termination by (relation "measure (\<lambda>(i, n). if i < 0 then nat (- i) else if i \<ge> n then nat (i - n) + 1 else 0)") auto

declare wrap_index.simps [simp del]

definition GetPtrRel :: "int \<Rightarrow> int \<Rightarrow> screen \<Rightarrow> int option" where
  "GetPtrRel p rel s = wrap_index (p + rel) (BufferSize s)"

text \<open>The column of the first cell of the character in column \<open>x\<close>, or 0.\<close>

function LeftHalfOfDBCS :: "int \<Rightarrow> int \<Rightarrow> screen \<Rightarrow> int option" where
  "LeftHalfOfDBCS Line x s =
     (if x > 0
      then do {
        c \<leftarrow> cell_get (Line + x) s;
        if \<not> Padding c then Some x else LeftHalfOfDBCS Line (x - 1) s
      }
      else Some x)"
  by pat_completeness auto
termination by (relation "measure (\<lambda>(l, x, s). nat x)") auto

declare LeftHalfOfDBCS.simps [simp del]

text \<open>The units of a cell, as \<open>expand_wchar\<close> writes them.\<close>

definition cell_units :: "buff_char \<Rightarrow> u16 list" where
  "cell_units b =
     (if snd (wc2 b) = 0 then [fst (wc2 b)] else [fst (wc2 b), snd (wc2 b)]) @ CombinationChars16 b"

definition expand_wchar :: "buff_char \<Rightarrow> u16 list" where
  "expand_wchar b = (if IsBuffPadding b then [] else cell_units b)"

definition ConvertACPChar :: "uni_env \<Rightarrow> buff_char \<Rightarrow> u16" where
  "ConvertACPChar U b = ANSICharOf U (expand_wchar b)"

text \<open>\<open>attr\<close>, \<open>attr2\<close>, \<open>fg\<close> and \<open>bg\<close> of a cell from the attributes of the character.\<close>

definition put_attr :: "u8 \<Rightarrow> TCharAttr \<Rightarrow> buff_char \<Rightarrow> buff_char" where
  "put_attr a A c = c\<lparr>attr := a, attr2 := Attr2 A, fg := Fore A, bg := Back A\<rparr>"

text \<open>\<open>BuffSetChar(p, 0, 'H'); p->Padding = TRUE;\<close> and the attributes.\<close>

definition padding_cell :: "conv_env \<Rightarrow> u32 \<Rightarrow> u8 \<Rightarrow> TCharAttr \<Rightarrow> buff_char \<Rightarrow> buff_char" where
  "padding_cell cvt ch a A c = put_attr a A ((BuffSetChar cvt c ch CHR ''H'')\<lparr>Padding := True\<rparr>)"

subsection \<open>Combining characters\<close>

text \<open>The cell a character joins, if there is one, and the kind of the character.\<close>

definition combine_kind :: "uni_env \<Rightarrow> u32 \<Rightarrow> int" where
  "combine_kind U c = (if c = 0x200d then 1 else UnicodeIsCombiningCharacter U c)"

definition prev_char :: "int \<Rightarrow> int \<Rightarrow> bool \<Rightarrow> screen \<Rightarrow> int option option" where
  "prev_char Line x wrapping s =
     (if x = NumOfColumns s - 1 \<and> wrapping
      then do {
        c \<leftarrow> cell_get (Line + x) s;
        Some (Some (if IsBuffPadding c then Line + x - 1 else Line + x))
      }
      else if x = 0 then Some None
      else do {
        x \<leftarrow> LeftHalfOfDBCS Line (x - 1) s;
        c \<leftarrow> cell_get (Line + x) s;
        Some (if \<not> IsBuffPadding c then Some (Line + x) else None)
      })"

definition joins :: "uni_env \<Rightarrow> u32 \<Rightarrow> buff_char \<Rightarrow> bool" where
  "joins U c b \<longleftrightarrow> combine_kind U c \<noteq> 0 \<or> u32_last b = 0x200d \<or>
     (UnicodeIsVirama U (u32_last b) \<and> UnicodeBlockIndex U (u32_last b) = UnicodeBlockIndex U c)"

definition IsCombiningChar :: "uni_env \<Rightarrow> int \<Rightarrow> int \<Rightarrow> bool \<Rightarrow> u32 \<Rightarrow> screen \<Rightarrow> int option option" where
  "IsCombiningChar U x y wrapping c s =
     do {
       Line \<leftarrow> GetLinePtr (PageStart s + y) s;
       p \<leftarrow> prev_char Line x wrapping s;
       case p of
         None \<Rightarrow> Some None
       | Some i \<Rightarrow> do { b \<leftarrow> cell_get i s; Some (if joins U c b then Some i else None) }
     }"

definition BuffIsCombiningCharacter :: "uni_env \<Rightarrow> int \<Rightarrow> int \<Rightarrow> u32 \<Rightarrow> screen \<Rightarrow> bool option" where
  "BuffIsCombiningCharacter U x y c s =
     do { p \<leftarrow> IsCombiningChar U x y (Wrap s) c s; Some (p \<noteq> None) }"

subsection \<open>Searching for a string\<close>

definition MatchOneString :: "int \<Rightarrow> int \<Rightarrow> u16 list \<Rightarrow> screen \<Rightarrow> nat option" where
  "MatchOneString x y str s =
     do {
       TmpPtr \<leftarrow> GetLinePtr y s;
       b \<leftarrow> cell_get (TmpPtr + x) s;
       let n = length (cell_units b);
       Some (if n \<le> length str \<and> take n str = cell_units b then n else 0)
     }"

text \<open>
  The first loops of \<open>MatchString\<close> move a start outside the line to the line it is on; they
  need columns to end.
\<close>

function match_left :: "screen \<Rightarrow> bool \<Rightarrow> int \<Rightarrow> int \<Rightarrow> int \<Rightarrow> (int \<times> int \<times> int) option" where
  "match_left s cont TmpPtr x y =
     (if x < 0
      then if NumOfColumns s \<le> 0 then None
      else do {
        c \<leftarrow> cell_get TmpPtr s;
        if cont \<and> \<not> has_bit (attr c) AttrLineContinued then Some (TmpPtr, 0, y)
        else match_left s cont (PrevLinePtr s TmpPtr) (x + NumOfColumns s) (y - 1)
      }
      else Some (TmpPtr, x, y))"
  by pat_completeness auto
termination by (relation "measure (\<lambda>(s, c, p, x, y). nat (- x))") auto

function match_right :: "screen \<Rightarrow> bool \<Rightarrow> int \<Rightarrow> int \<Rightarrow> (int \<times> int) option" where
  "match_right s cont TmpPtr x =
     (if x > NumOfColumns s
      then if NumOfColumns s \<le> 0 then None
      else do {
        c \<leftarrow> cell_get (TmpPtr + NumOfColumns s - 1) s;
        if cont \<and> \<not> has_bit (attr c) AttrLineContinued then Some (TmpPtr, 0)
        else match_right s cont (NextLinePtr s TmpPtr) (x - NumOfColumns s)
      }
      else Some (TmpPtr, x))"
  by pat_completeness auto
termination by (relation "measure (\<lambda>(s, c, p, x). nat x)") auto

declare match_left.simps [simp del] match_right.simps [simp del]

function match_loop :: "screen \<Rightarrow> bool \<Rightarrow> int \<Rightarrow> int \<Rightarrow> int \<Rightarrow> u16 list \<Rightarrow> bool option" where
  "match_loop s cont TmpPtr x y str =
     do {
       n \<leftarrow> MatchOneString x y str s;
       if n = 0 then Some False
       else if n \<ge> length str then Some True
       else if x + 1 = NumOfColumns s
       then do {
         c \<leftarrow> cell_get (TmpPtr + NumOfColumns s - 1) s;
         if cont \<and> has_bit (attr c) AttrLineContinued
         then match_loop s cont (NextLinePtr s TmpPtr) 0 (y + 1) (drop n str)
         else Some False
       }
       else match_loop s cont TmpPtr (x + 1) y (drop n str)
     }"
  by pat_completeness auto
termination by (relation "measure (\<lambda>(s, c, p, x, y, str). length str)") auto

declare match_loop.simps [simp del]

definition MatchString :: "int \<Rightarrow> int \<Rightarrow> u16 list \<Rightarrow> bool \<Rightarrow> screen \<Rightarrow> bool option" where
  "MatchString x y str LineContinued s =
     do {
       TmpPtr \<leftarrow> GetLinePtr y s;
       if str = [] then Some False
       else do {
         (TmpPtr, x, y) \<leftarrow> match_left s LineContinued TmpPtr x y;
         (TmpPtr, x) \<leftarrow> match_right s LineContinued TmpPtr x;
         match_loop s LineContinued TmpPtr x y str
       }
     }"

text \<open>The first of \<open>n\<close> columns from \<open>x\<close> on in line \<open>y\<close> where the string is found.\<close>

fun match_cols :: "nat \<Rightarrow> int \<Rightarrow> int \<Rightarrow> u16 list \<Rightarrow> screen \<Rightarrow> int option option" where
  "match_cols 0 x y str s = Some None"
| "match_cols (Suc n) x y str s =
     do {
       m \<leftarrow> MatchString x y str True s;
       if m then Some (Some x) else match_cols n (x + 1) y str s
     }"

fun match_rows :: "nat \<Rightarrow> int \<Rightarrow> int \<Rightarrow> int \<Rightarrow> int \<Rightarrow> int \<Rightarrow> u16 list \<Rightarrow> screen \<Rightarrow> (int \<times> int) option option" where
  "match_rows 0 y sx sy ex ey str s = Some None"
| "match_rows (Suc n) y sx sy ex ey str s =
     do {
       let IStart = (if y = sy then sx else 0);
       let IEnd = (if y = ey then ex else NumOfColumns s - 1);
       m \<leftarrow> match_cols (nat (IEnd - IStart + 1)) IStart y str s;
       case m of
         Some x \<Rightarrow> Some (Some (x, y))
       | None \<Rightarrow> match_rows n (y + 1) sx sy ex ey str s
     }"

definition BuffGetMatchPosFromString ::
  "int \<Rightarrow> int \<Rightarrow> int \<Rightarrow> int \<Rightarrow> u16 list \<Rightarrow> screen \<Rightarrow> (int \<times> int) option option" where
  "BuffGetMatchPosFromString sx sy ex ey str s = match_rows (nat (ey - sy + 1)) sy sx sy ex ey str s"

subsection \<open>Marking a URL\<close>

definition isURLchar :: "u32 \<Rightarrow> bool" where
  "isURLchar c \<longleftrightarrow> c < 0x80 \<and>
     (c \<in> set [0x21, 0x23, 0x24, 0x25, 0x26] \<or> 0x2B \<le> c \<and> c \<le> 0x3B \<or> c = 0x3D \<or>
      0x3F \<le> c \<and> c \<le> 0x5A \<or> c = 0x5C \<or> c = 0x5F \<or> 0x61 \<le> c \<and> c \<le> 0x7A \<or> c = 0x7E)"

definition ascii16 :: "string \<Rightarrow> u16 list" where
  "ascii16 cs = map (\<lambda>c. of_nat (of_char c)) cs"

definition schemes :: "u16 list list" where
  "schemes = map ascii16 [''https://'', ''http://'', ''sftp://'', ''tftp://'', ''news://'', ''ftp://'', ''mms://'']"

definition set_url :: "int \<Rightarrow> screen \<Rightarrow> screen option" where
  "set_url i s = cell_upd (\<lambda>c. c\<lparr>attr := attr c OR AttrURL\<rparr>) i s"

text \<open>The distance to the cell before the marked ones; the search never tests cell 0.\<close>

function url_back :: "int \<Rightarrow> screen \<Rightarrow> int option" where
  "url_back p s =
     (if p > 0
      then do {
        ptr \<leftarrow> GetLinePtr (PageStart s + p div NumOfColumns s) s;
        c \<leftarrow> cell_get (ptr + p mod NumOfColumns s) s;
        if \<not> has_bit (attr c) AttrURL then Some p else url_back (p - 1) s
      }
      else Some p)"
  by pat_completeness auto
termination by (relation "measure (\<lambda>(p, s). nat p)") auto

declare url_back.simps [simp del]

definition get_url_len :: "int \<Rightarrow> int \<Rightarrow> screen \<Rightarrow> int option" where
  "get_url_len cur_x cur_y s =
     do {
       let cp = cur_x + cur_y * NumOfColumns s;
       sp \<leftarrow> url_back (cp - 1) s;
       Some (cp - sp)
     }"

text \<open>
  The loops of \<open>mark_url_w_sub\<close>: mark up to \<open>n\<close> cells of a line from \<open>x\<close> on, stopping at the
  first that cannot be part of a URL; \<open>rx\<close> is the column marked last.
\<close>

fun mark_cols :: "nat \<Rightarrow> int \<Rightarrow> int \<Rightarrow> int \<Rightarrow> screen \<Rightarrow> (screen \<times> int \<times> bool) option" where
  "mark_cols 0 TmpPtr x rx s = Some (s, rx, False)"
| "mark_cols (Suc n) TmpPtr x rx s =
     do {
       b \<leftarrow> cell_get (TmpPtr + x) s;
       if \<not> isURLchar (u32 b) then Some (s, rx, True)
       else do { s \<leftarrow> set_url (TmpPtr + x) s; mark_cols n TmpPtr (x + 1) x s }
     }"

text \<open>The result is the state with the last column and line marked.\<close>

fun mark_rows :: "nat \<Rightarrow> int \<Rightarrow> int \<Rightarrow> int \<Rightarrow> int \<Rightarrow> int \<Rightarrow> screen \<Rightarrow> (screen \<times> int \<times> int) option" where
  "mark_rows 0 y first match_x rx sy_match_e s = Some (s, rx, sy_match_e)"
| "mark_rows (Suc n) y first match_x rx sy_match_e s =
     do {
       let sx = (if y = first then match_x else 0);
       let sy_match_e = y - PageStart s;
       TmpPtr \<leftarrow> GetLinePtr y s;
       (s, rx, stop) \<leftarrow> mark_cols (nat (NumOfColumns s - sx)) TmpPtr sx rx s;
       if stop then Some (s, rx, sy_match_e)
       else mark_rows n (y + 1) first match_x rx sy_match_e s
     }"

fun first_scheme :: "u16 list list \<Rightarrow> int \<Rightarrow> int \<Rightarrow> screen \<Rightarrow> (int \<times> int) option option" where
  "first_scheme [] x y s = Some None"
| "first_scheme (p # ps) x y s =
     do {
       m \<leftarrow> BuffGetMatchPosFromString x y x y p s;
       case m of None \<Rightarrow> first_scheme ps x y s | Some q \<Rightarrow> Some (Some q)
     }"

text \<open>The second component is \<open>None\<close> for \<open>FALSE\<close>, else the end of the URL.\<close>

definition mark_url_w_sub ::
  "int \<Rightarrow> int \<Rightarrow> int \<Rightarrow> int \<Rightarrow> screen \<Rightarrow> (screen \<times> (int \<times> int) option) option" where
  "mark_url_w_sub sx_s sx_e sy_s sy_e s =
     (if sx_s \<ge> sx_e \<and> sy_s \<ge> sy_e then Some (s, None)
      else do {
        m \<leftarrow> first_scheme schemes sx_s (PageStart s + sy_s) s;
        case m of
          None \<Rightarrow> Some (s, None)
        | Some (match_x, match_y) \<Rightarrow>
            do {
              (s, ex, ey) \<leftarrow> mark_rows (nat (PageStart s + sy_e - match_y + 1)) match_y
                 (PageStart s + sy_s) match_x match_x (match_y - PageStart s) s;
              Some (s, Some (ex, ey))
            }
      })"

text \<open>The first marked cell before the cursor: the search stops at the start of the array.\<close>

function url_start :: "int \<Rightarrow> screen \<Rightarrow> int option" where
  "url_start TmpPtr s =
     do {
       c \<leftarrow> cell_get TmpPtr s;
       if \<not> has_bit (attr c) AttrURL then Some TmpPtr
       else if TmpPtr = 0 then Some TmpPtr
       else url_start (TmpPtr - 1) s
     }"
  by pat_completeness auto
termination
  by (relation "measure (\<lambda>(p, s). nat p)") (auto simp: cell_get_def rd_def in_arr_def split: if_splits)

text \<open>
  The last line of a run of continued lines. If every line of the ring is continued the loop
  does not end; the first argument counts the lines of the ring.
\<close>

fun continued_end :: "nat \<Rightarrow> int \<Rightarrow> int \<Rightarrow> screen \<Rightarrow> (int \<times> int) option" where
  "continued_end 0 TmpPtr ey s = None"
| "continued_end (Suc n) TmpPtr ey s =
     do {
       c \<leftarrow> cell_get (TmpPtr + NumOfColumns s - 1) s;
       if has_bit (attr c) AttrLineContinued then continued_end n (NextLinePtr s TmpPtr) (ey + 1) s
       else Some (TmpPtr, ey)
     }"

text \<open>\<open>for (;;) { if (b->u32 != ' ') break; b--; ex--; }\<close>\<close>

function skip_blanks :: "int \<Rightarrow> int \<Rightarrow> screen \<Rightarrow> int option" where
  "skip_blanks b ex s =
     do { c \<leftarrow> cell_get b s; if u32 c \<noteq> 0x20 then Some ex else skip_blanks (b - 1) (ex - 1) s }"
  by pat_completeness auto
termination
  by (relation "measure (\<lambda>(b, ex, s). nat (b + 1))") (auto simp: cell_get_def rd_def in_arr_def split: if_splits)

declare url_start.simps [simp del] skip_blanks.simps [simp del]

fun unmark_rows :: "nat \<Rightarrow> int \<Rightarrow> int \<Rightarrow> int \<Rightarrow> int \<Rightarrow> int \<Rightarrow> screen \<Rightarrow> screen option" where
  "unmark_rows 0 y sx sy ex ey s = Some s"
| "unmark_rows (Suc n) y sx sy ex ey s =
     do {
       let sx_i = (if y = sy then sx else 0);
       let ex_i = (if y = ey then ex else NumOfColumns s - 1);
       TmpPtr \<leftarrow> GetLinePtr (PageStart s + y) s;
       B \<leftarrow> update_run (clear_bits AttrURL) (CodeBuffW s) (TmpPtr + sx_i) (nat (ex_i - sx_i));
       unmark_rows n (y + 1) sx sy ex ey (s\<lparr>CodeBuffW := B\<rparr>)
     }"

text \<open>The loop that marks again, at most \<open>n\<close> times.\<close>

fun remark :: "nat \<Rightarrow> int \<Rightarrow> int \<Rightarrow> int \<Rightarrow> int \<Rightarrow> screen \<Rightarrow> screen option" where
  "remark 0 sx sy ex ey s = Some s"
| "remark (Suc n) sx sy ex ey s =
     (if sy > ey \<or> sy = ey \<and> sx \<ge> ex then Some s
      else do {
        (s, m) \<leftarrow> mark_url_w_sub sx ex sy ey s;
        let (sx, sy) = (case m of None \<Rightarrow> (sx, sy) | Some (mx, my) \<Rightarrow> (mx, my));
        if sx = NumOfColumns s - 1
        then if sy = NumOfLines s - 1 then Some s else remark n 0 (sy + 1) ex ey s
        else remark n (sx + 1) sy ex ey s
      })"

definition mark_url_line_w :: "int \<Rightarrow> int \<Rightarrow> screen \<Rightarrow> screen option" where
  "mark_url_line_w cur_x cur_y s =
     do {
       p \<leftarrow> GetLinePtr (PageStart s + cur_y) s;
       p \<leftarrow> url_start (p + cur_x - 1) s;
       let (sx, sy) = GetPosFromPtr (p + 1) s;
       let sy = (if sy \<ge> PageStart s then sy - PageStart s
                 else sy - PageStart s + NumOfLinesInBuff s);
       (TmpPtr, ey) \<leftarrow> (if cur_y \<le> NumOfLines s - 1
         then do { q \<leftarrow> GetLinePtr (PageStart s + cur_y) s;
                   continued_end (nat (NumOfLinesInBuff s)) q cur_y s }
         else Some (p + 1, cur_y));
       ex \<leftarrow> skip_blanks (TmpPtr + (NumOfColumns s - 1)) (NumOfColumns s - 1) s;
       s \<leftarrow> unmark_rows (nat (ey - sy + 1)) sy sx sy ex ey s;
       remark 1000000 sx sy ex ey s
     }"

text \<open>Whether the cells before and behind \<open>x\<close> are marked, over the ends of continued lines.\<close>

definition url_before :: "int \<Rightarrow> int \<Rightarrow> screen \<Rightarrow> bool option" where
  "url_before x cur_y s =
     (if x = 0
      then do {
        c \<leftarrow> cell_get (LinePtr s) s;
        if has_bit (attr c) AttrLineContinued
        then do {
          p \<leftarrow> GetLinePtr (PageStart s + cur_y - 1) s;
          b \<leftarrow> cell_get (p + NumOfColumns s - 1) s;
          Some (has_bit (attr b) AttrURL)
        }
        else Some False
      }
      else do { b \<leftarrow> cell_get (LinePtr s + x - 1) s; Some (has_bit (attr b) AttrURL) })"

definition url_behind :: "int \<Rightarrow> int \<Rightarrow> screen \<Rightarrow> bool option" where
  "url_behind x cur_y s =
     (if x = NumOfColumns s - 1
      then if cur_y + 1 < NumOfLines s
      then do {
        c \<leftarrow> cell_get (LinePtr s + x) s;
        if has_bit (attr c) AttrLineContinued
        then do {
          p \<leftarrow> GetLinePtr (PageStart s + cur_y + 1) s;
          b \<leftarrow> cell_get (p + NumOfColumns s - 1) s;
          Some (has_bit (attr b) AttrURL)
        }
        else Some False
      }
      else Some False
      else do { b \<leftarrow> cell_get (LinePtr s + x + 1) s; Some (has_bit (attr b) AttrURL) })"

text \<open>The search for a scheme that ends at the cursor: where it starts, and its last index.\<close>

fun scheme_at :: "u16 list list \<Rightarrow> int \<Rightarrow> screen \<Rightarrow> (int \<times> int \<times> int) option option" where
  "scheme_at [] x s = Some None"
| "scheme_at (p # ps) x s =
     do {
       let len = int (length p) - 1;
       let ey = PageStart s + CursorY s;
       c \<leftarrow> cell_get (LinePtr s) s;
       if x < len \<and> \<not> has_bit (attr c) AttrLineContinued then scheme_at ps x s
       else do {
         let sx = (if x < len then NumOfColumns s + (x - len) else x - len);
         let sy = (if x < len then ey - 1 else ey);
         m \<leftarrow> BuffGetMatchPosFromString sx sy x ey p s;
         case m of Some _ \<Rightarrow> Some (Some (sx, sy, len)) | None \<Rightarrow> scheme_at ps x s
       }
     }"

fun mark_run :: "nat \<Rightarrow> int \<Rightarrow> screen \<Rightarrow> screen option" where
  "mark_run 0 i s = Some s"
| "mark_run (Suc n) i s = do { s \<leftarrow> set_url i s; mark_run n (i + 1) s }"

text \<open>Marking over the end of a line; the result has the column after the last cell marked.\<close>

fun mark_wrapped :: "nat \<Rightarrow> int \<Rightarrow> int \<Rightarrow> screen \<Rightarrow> (screen \<times> int) option" where
  "mark_wrapped 0 TmpPtr xx s = Some (s, xx)"
| "mark_wrapped (Suc left) TmpPtr xx s =
     do {
       s \<leftarrow> set_url (TmpPtr + xx) s;
       if xx + 1 = NumOfColumns s then mark_wrapped left (NextLinePtr s TmpPtr) 0 s
       else mark_wrapped left TmpPtr (xx + 1) s
     }"

definition mark_new_url :: "int \<Rightarrow> int \<Rightarrow> int \<Rightarrow> screen \<Rightarrow> screen option" where
  "mark_new_url sx sy len s =
     (if sy = PageStart s + CursorY s
      then do {
        s \<leftarrow> mark_run (nat (len + 1)) (LinePtr s + sx) s;
        Some (if StrChangeStart s > sx
              then s\<lparr>StrChangeStart := sx, StrChangeCount := StrChangeCount s + len\<rparr> else s)
      }
      else do {
        TmpPtr \<leftarrow> GetLinePtr sy s;
        (s, xx) \<leftarrow> mark_wrapped (nat (len + 1)) TmpPtr sx s;
        Some (s\<lparr>StrChangeStart := 0, StrChangeCount := xx\<rparr>)
      })"

definition mark_url_w :: "int \<Rightarrow> int \<Rightarrow> screen \<Rightarrow> screen option" where
  "mark_url_w cur_x cur_y s =
     do {
       b \<leftarrow> cell_get (LinePtr s + cur_x) s;
       before \<leftarrow> url_before cur_x cur_y s;
       behind \<leftarrow> url_behind cur_x cur_y s;
       if before
       then if behind
       then if isURLchar (u32 b)
            then do { p \<leftarrow> GetLinePtr (PageStart s + cur_y) s; set_url (p + cur_x) s }
            else mark_url_line_w cur_x cur_y s
       else do {
         len \<leftarrow> get_url_len cur_x cur_y s;
         if len \<ge> 9 then if isURLchar (u32 b) then set_url (LinePtr s + cur_x) s else Some s
         else mark_url_line_w cur_x cur_y s
       }
       else if u32 b \<noteq> 0x2F then Some s
       else do {
         m \<leftarrow> MatchString (cur_x - 2) (PageStart s + CursorY s) (ascii16 ''://'') True s;
         if \<not> m then Some s
         else do {
           q \<leftarrow> scheme_at schemes cur_x s;
           case q of None \<Rightarrow> Some s | Some (sx, sy, len) \<Rightarrow> mark_new_url sx sy len s
         }
       }
     }"

subsection \<open>Writing one character\<close>

text \<open>A character that combines: the cell it joins, and what is to be drawn.\<close>

definition widen_str :: "int \<Rightarrow> screen \<Rightarrow> screen" where
  "widen_str cells s =
     (if StrChangeCount s = 0
      then s\<lparr>StrChangeCount := cells,
             StrChangeStart := (if CursorX s = 0 then 0 else CursorX s - cells + 1)\<rparr>
      else s\<lparr>StrChangeCount := StrChangeCount s + 1\<rparr>)"

definition str_of_combined :: "uni_env \<Rightarrow> buff_char \<Rightarrow> screen \<Rightarrow> screen" where
  "str_of_combined U b s =
     (if StrChangeCount s \<noteq> 0 then s
      else if Wrap s
      then if \<not> BuffIsHalfWidthFromPropery U (ts s) (WidthProperty b)
      then s\<lparr>StrChangeStart := CursorX s - 1, StrChangeCount := 2\<rparr>
      else s\<lparr>StrChangeStart := CursorX s, StrChangeCount := 1\<rparr>
      else s\<lparr>StrChangeCount := sint (cell b),
             StrChangeStart := (if CursorX s = 0 then 0 else CursorX s - sint (cell b))\<rparr>)"

definition put_combining ::
  "uni_env \<Rightarrow> u32 \<Rightarrow> TCharAttr \<Rightarrow> u8 \<Rightarrow> int option \<Rightarrow> int \<Rightarrow> screen \<Rightarrow> (screen \<times> int) option" where
  "put_combining U c A a p kind s =
     do {
       let here = LinePtr s + CursorX s;
       let add_base = (p = None);
       let i = (case p of None \<Rightarrow> here | Some i \<Rightarrow> i);
       s \<leftarrow> (if add_base then setc 0xa0 here s else Some s);
       b \<leftarrow> cell_get i s;
       let spacing = (u32_last b \<noteq> 0x200d \<and> kind \<noteq> 1);
       s \<leftarrow> (if spacing
            then do {
              s \<leftarrow> cell_upd (\<lambda>b. b\<lparr>cell := cell b + 1\<rparr>) i s;
              b \<leftarrow> cell_get i s;
              let s = widen_str (sint (cell b)) s;
              if CursorX s < NumOfColumns s - 1 \<and> \<not> add_base
              then cell_upd (padding_cell (conv s) 0 a A) here s else Some s
            }
            else Some s);
       s \<leftarrow> cell_upd (\<lambda>b. BuffAddChar b c) i s;
       b \<leftarrow> cell_get i s;
       let s = str_of_combined U b s;
       s \<leftarrow> cell_upd (\<lambda>b. b\<lparr>ansi_char := ConvertACPChar U b\<rparr>) i s;
       Some (s, if add_base \<or> spacing then 1 else 0)
     }"

text \<open>
  What the character overwrites: the right half of a full-width character, its left half, and
  the neighbour of a full-width character that goes before another one.
\<close>

definition cut_right_half :: "screen \<Rightarrow> screen option" where
  "cut_right_half s =
     do {
       let i = LinePtr s + CursorX s;
       b \<leftarrow> cell_get i s;
       if IsBuffPadding b
       then do {
         s \<leftarrow> setc 0x20 (i - 1) s;
         s \<leftarrow> setc 0x20 i s;
         Some (if StrChangeCount s = 0
               then s\<lparr>StrChangeCount := 3, StrChangeStart := CursorX s - 1\<rparr>
               else if StrChangeStart s < CursorX s
               then s\<lparr>StrChangeCount := StrChangeCount s + (CursorX s - StrChangeStart s) + 1\<rparr>
               else s\<lparr>StrChangeStart := CursorX s\<rparr>)
       }
       else Some s
     }"

definition cut_left_half :: "bool \<Rightarrow> screen \<Rightarrow> screen option" where
  "cut_left_half half_width s =
     do {
       let i = LinePtr s + CursorX s;
       b \<leftarrow> cell_get i s;
       if half_width \<and> IsBuffFullWidth b
       then do {
         s \<leftarrow> setc 0x20 i s;
         s \<leftarrow> (if CursorX s < NumOfColumns s - 1 then setc 0x20 (i + 1) s else Some s);
         Some (if StrChangeCount s = 0
               then s\<lparr>StrChangeCount := 3, StrChangeStart := CursorX s\<rparr>
               else if CursorX s < StrChangeStart s then s
               else s\<lparr>StrChangeCount := StrChangeCount s + 2\<rparr>)
       }
       else Some s
     }"

definition cut_next :: "bool \<Rightarrow> bool \<Rightarrow> screen \<Rightarrow> screen option" where
  "cut_next Insert half_width s =
     do {
       p1 \<leftarrow> GetPtrRel (LinePtr s + CursorX s) 1 s;
       b1 \<leftarrow> cell_get p1 s;
       if \<not> Insert \<and> \<not> half_width \<and> IsBuffFullWidth b1
       then do {
         p2 \<leftarrow> GetPtrRel p1 1 s;
         s \<leftarrow> setc 0x20 p1 s;
         setc 0x20 p2 s
       }
       else Some s
     }"

text \<open>Insert mode; the result is -1 when a full-width character does not fit.\<close>

definition put_insert ::
  "uni_env \<Rightarrow> u32 \<Rightarrow> TCharAttr \<Rightarrow> u8 \<Rightarrow> bool \<Rightarrow> screen \<Rightarrow> (screen \<times> int) option" where
  "put_insert U c A a half_width s =
     (let LineEnd = (if CursorX s > CursorRightM s then NumOfColumns s - 1 else CursorRightM s);
          L = LinePtr s; X = CursorX s
      in if \<not> half_width \<and> X + 1 > LineEnd then Some (s, -1)
      else do {
        s \<leftarrow> (if LineEnd \<le> NumOfColumns s - 1
             then do {
               b \<leftarrow> cell_get (L + LineEnd - 1) s;
               if has_bit (attr b) AttrKanji
               then do { s \<leftarrow> setc 0x20 (L + LineEnd - 1) s; cell_upd (clear_bits AttrKanji) (L + LineEnd) s }
               else Some s
             }
             else Some s);
        s \<leftarrow> (if \<not> half_width
             then if LineEnd - X - 1 > 0 then memmoveS (L + X + 2) (L + X) (LineEnd - X - 1) s else Some s
             else if LineEnd - X > 0 then memmoveS (L + X + 1) (L + X) (LineEnd - X) s else Some s);
        s \<leftarrow> cell_upd (\<lambda>b. put_attr a A (BuffSetChar2 (conv s) b c (UnicodeGetWidthProperty U c) half_width (UnicodeIsEmoji U c)))
             (L + X) s;
        s \<leftarrow> (if \<not> half_width \<and> X < LineEnd then cell_upd (padding_cell (conv s) 0 a A) (L + X + 1) s else Some s);
        b \<leftarrow> cell_get (L + LineEnd) s;
        s \<leftarrow> (if has_bit (attr b) AttrKanji
             then do {
               s \<leftarrow> setc 0x20 (L + LineEnd) s;
               cell_upd (put_attr (Attr (CurCharAttr s)) (CurCharAttr s)) (L + LineEnd) s
             }
             else Some s);
        Some (s\<lparr>StrChangeCount := 0\<rparr>, if half_width then 1 else 2)
      })"

definition count_str :: "int \<Rightarrow> screen \<Rightarrow> screen" where
  "count_str move_x s =
     (let s = (if StrChangeCount s = 0 then s\<lparr>StrChangeStart := CursorX s\<rparr> else s) in
      s\<lparr>StrChangeCount := StrChangeCount s + (if move_x = 1 then 1 else 2)\<rparr>)"

text \<open>The two cells of a new character when nothing is inserted.\<close>

definition put_over ::
  "uni_env \<Rightarrow> u32 \<Rightarrow> TCharAttr \<Rightarrow> u8 \<Rightarrow> bool \<Rightarrow> screen \<Rightarrow> (screen \<times> int) option" where
  "put_over U c A a half_width s =
     (let i = LinePtr s + CursorX s in
      if AttrEx A AND AttrPadding \<noteq> 0
      then do {
        s \<leftarrow> cell_upd (padding_cell (conv s) c a A) i s;
        s \<leftarrow> mark_url_w (CursorX s) (CursorY s) (count_str 1 s);
        Some (s, 1)
      }
      else if \<not> half_width \<and> CursorX s + 2 > NumOfColumns s then Some (s, -1)
      else do {
        s \<leftarrow> cell_upd (\<lambda>b. put_attr (if half_width then a else a OR AttrKanji) A
               (BuffSetChar2 (conv s) b c (UnicodeGetWidthProperty U c) half_width (UnicodeIsEmoji U c))) i s;
        s \<leftarrow> (if \<not> half_width \<and> CursorX s < NumOfColumns s - 1
             then cell_upd (\<lambda>b. (BuffSetChar (conv s) b 0 CHR ''H'')
                    \<lparr>Padding := True, attr := 0, attr2 := 0, fg := 0, bg := 0\<rparr>) (i + 1) s
             else Some s);
        let move_x = (if half_width then 1 else 2);
        s \<leftarrow> mark_url_w (CursorX s) (CursorY s) (count_str move_x s);
        Some (s, move_x)
      })"

definition put_plain ::
  "uni_env \<Rightarrow> u32 \<Rightarrow> TCharAttr \<Rightarrow> u8 \<Rightarrow> bool \<Rightarrow> screen \<Rightarrow> (screen \<times> int) option" where
  "put_plain U c A a Insert s =
     do {
       let half_width = BuffIsHalfWidthFromCode U (ts s) c;
       s \<leftarrow> cut_right_half s;
       s \<leftarrow> cut_left_half half_width s;
       s \<leftarrow> cut_next Insert half_width s;
       if Insert then put_insert U c A a half_width s else put_over U c A a half_width s
     }"

text \<open>The result: the new state and how far the cursor has to move, or -1.\<close>

definition BuffPutUnicode :: "uni_env \<Rightarrow> u32 \<Rightarrow> TCharAttr \<Rightarrow> bool \<Rightarrow> screen \<Rightarrow> (screen \<times> int) option" where
  "BuffPutUnicode U c A Insert s =
     (if c < 0x20 \<or> 0x80 \<le> c \<and> c \<le> 0x9f then Some (s, 0)
      else do {
        b0 \<leftarrow> cell_get (LinePtr s) s;
        let a = (if EnableContinuedLineCopy (ts s) \<and> CursorX s = 0 \<and> has_bit (attr b0) AttrLineContinued
                 then Attr A OR AttrLineContinued else Attr A);
        p \<leftarrow> IsCombiningChar U (CursorX s) (CursorY s) (Wrap s) c s;
        if p \<noteq> None \<or> combine_kind U c \<noteq> 0
        then put_combining U c A a p (combine_kind U c) s
        else put_plain U c A a Insert s
      })"

subsection \<open>What writing a character does\<close>

text \<open>
  The state \<open>t\<close> differs from \<open>s\<close> in the text to be drawn and in its cells, which \<open>g\<close> gives by
  their index in the array. The primitives update \<open>g\<close>.
\<close>

definition puts :: "screen \<Rightarrow> (int \<Rightarrow> buff_char) \<Rightarrow> screen \<Rightarrow> bool" where
  "puts s g t \<longleftrightarrow> (\<exists>B m n. t = s\<lparr>CodeBuffW := B, StrChangeStart := m, StrChangeCount := n\<rparr> \<and>
     length B = length (CodeBuffW s) \<and> (\<forall>k. in_arr (CodeBuffW s) k \<longrightarrow> B ! nat k = g k))"

lemma puts_start: "puts s (\<lambda>k. CodeBuffW s ! nat k) s"
  unfolding puts_def by (intro exI [of _ "CodeBuffW s"] exI [of _ "StrChangeStart s"]
      exI [of _ "StrChangeCount s"]) simp

lemma puts_str:
  assumes "puts s g t"
  shows "puts s g (t\<lparr>StrChangeStart := a\<rparr>)" "puts s g (t\<lparr>StrChangeCount := b\<rparr>)"
proof -
  obtain B m n where t: "t = s\<lparr>CodeBuffW := B, StrChangeStart := m, StrChangeCount := n\<rparr>"
    "length B = length (CodeBuffW s)" "\<forall>k. in_arr (CodeBuffW s) k \<longrightarrow> B ! nat k = g k"
    using assms unfolding puts_def by blast
  show "puts s g (t\<lparr>StrChangeStart := a\<rparr>)" unfolding puts_def
    by (intro exI [of _ B] exI [of _ a] exI [of _ n]) (use t in simp)
  show "puts s g (t\<lparr>StrChangeCount := b\<rparr>)" unfolding puts_def
    by (intro exI [of _ B] exI [of _ m] exI [of _ b]) (use t in simp)
qed

lemma puts_frame:
  assumes "puts s g t"
  shows "LinePtr t = LinePtr s" "CursorX t = CursorX s" "CursorY t = CursorY s" "conv t = conv s"
    "NumOfColumns t = NumOfColumns s" "BufferSize t = BufferSize s" "ts t = ts s" "PageStart t = PageStart s"
    "NumOfLines t = NumOfLines s" "length (CodeBuffW t) = length (CodeBuffW s)" "GetLinePtr L t = GetLinePtr L s"
    "GetPtrRel p k t = GetPtrRel p k s" "Wrap t = Wrap s" "CurCharAttr t = CurCharAttr s"
    "CursorRightM t = CursorRightM s"
  using assms by (auto simp: puts_def GetLinePtr_def GetPtrRel_def)

lemma puts_get:
  "puts s g t \<Longrightarrow> in_arr (CodeBuffW s) i \<Longrightarrow> cell_get i t = Some (g i)"
  by (auto simp: puts_def cell_get_def rd_def in_arr_def)

lemma puts_upd:
  assumes "puts s g t" "in_arr (CodeBuffW s) i"
  shows "\<exists>u. cell_upd f i t = Some u \<and> puts s (g(i := f (g i))) u"
proof -
  obtain B m n where t: "t = s\<lparr>CodeBuffW := B, StrChangeStart := m, StrChangeCount := n\<rparr>"
    "length B = length (CodeBuffW s)" "\<And>k. in_arr (CodeBuffW s) k \<Longrightarrow> B ! nat k = g k"
    using assms(1) unfolding puts_def by blast
  have i: "in_arr B i" using assms(2) t(2) by (simp add: in_arr_def)
  have "cell_upd f i t = Some (s\<lparr>CodeBuffW := B[nat i := f (g i)], StrChangeStart := m, StrChangeCount := n\<rparr>)"
    using i t(3) [OF assms(2)] by (simp add: cell_upd_def rd_in wr_in t(1))
  moreover have "B[nat i := f (g i)] ! nat k = (g(i := f (g i))) k" if "in_arr (CodeBuffW s) k" for k
  proof -
    have "in_arr B k" using that t(2) by (simp add: in_arr_def)
    then show ?thesis using nth_update_int [OF i] t(3) [OF that] by simp
  qed
  ultimately show ?thesis unfolding puts_def using t(2)
    by (intro exI [of _ "s\<lparr>CodeBuffW := B[nat i := f (g i)], StrChangeStart := m, StrChangeCount := n\<rparr>"])
      (auto intro!: exI)
qed

lemma puts_setc:
  "puts s g t \<Longrightarrow> in_arr (CodeBuffW s) i \<Longrightarrow>
    \<exists>u. setc c i t = Some u \<and> puts s (g(i := BuffSetChar (conv s) (g i) c CHR ''H'')) u"
  using puts_upd [of s g t i "\<lambda>b. BuffSetChar (conv t) b c CHR ''H''"] by (simp add: setc_def puts_frame)

text \<open>A cell blanked: its attributes stay.\<close>

definition blanked :: "conv_env \<Rightarrow> buff_char \<Rightarrow> buff_char" where
  "blanked e b = BuffSetChar e b 0x20 CHR ''H''"

lemma blanked_simps [simp]:
  "\<not> IsBuffFullWidth (blanked e b)" "\<not> IsBuffPadding (blanked e b)" "attr (blanked e b) = attr b"
  by (simp_all add: blanked_def IsBuffFullWidth_def IsBuffPadding_def BuffSetChar_def BuffSetChar2_def
      FreeCombinationBuf_def)

lemma cut_right_half_puts:
  assumes "puts s g t" and i: "i = LinePtr s + CursorX s" and a: "in_arr (CodeBuffW s) i"
    and p: "IsBuffPadding (g i) \<Longrightarrow> in_arr (CodeBuffW s) (i - 1)"
  shows "\<exists>u. cut_right_half t = Some u \<and>
    puts s (if IsBuffPadding (g i) then g(i - 1 := blanked (conv s) (g (i - 1)), i := blanked (conv s) (g i)) else g) u"
proof -
  note f = puts_frame [OF assms(1)]
  have e: "cell_get (LinePtr t + CursorX t) t = Some (g i)" using puts_get [OF assms(1) a] by (simp add: f i)
  show ?thesis
  proof (cases "IsBuffPadding (g i)")
    case True
    obtain u where u: "setc 0x20 (i - 1) t = Some u" "puts s (g(i - 1 := blanked (conv s) (g (i - 1)))) u"
      using puts_setc [OF assms(1) p [OF True]] by (auto simp: blanked_def)
    obtain v where v: "setc 0x20 i u = Some v"
      "puts s (g(i - 1 := blanked (conv s) (g (i - 1)), i := blanked (conv s) (g i))) v"
      using puts_setc [OF u(2) a] by (auto simp: blanked_def)
    have "\<exists>w. cut_right_half t = Some w \<and>
      puts s (g(i - 1 := blanked (conv s) (g (i - 1)), i := blanked (conv s) (g i))) w"
      unfolding cut_right_half_def Let_def e using True u(1) v puts_str [OF v(2)] puts_str(2)
      by (auto simp: f i [symmetric] intro!: puts_str)
    then show ?thesis using True by simp
  next
    case False
    then show ?thesis using assms(1) by (simp add: cut_right_half_def e Let_def)
  qed
qed

lemma cut_left_half_puts:
  assumes "puts s g t" and i: "i = LinePtr s + CursorX s" and a: "in_arr (CodeBuffW s) i"
    and n: "CursorX s < NumOfColumns s - 1 \<Longrightarrow> in_arr (CodeBuffW s) (i + 1)"
  shows "\<exists>u. cut_left_half h t = Some u \<and>
    puts s (if h \<and> IsBuffFullWidth (g i)
      then if CursorX s < NumOfColumns s - 1
           then g(i := blanked (conv s) (g i), i + 1 := blanked (conv s) (g (i + 1)))
           else g(i := blanked (conv s) (g i))
      else g) u"
proof -
  note f = puts_frame [OF assms(1)]
  have e: "cell_get (LinePtr t + CursorX t) t = Some (g i)" using puts_get [OF assms(1) a] by (simp add: f i)
  show ?thesis
  proof (cases "h \<and> IsBuffFullWidth (g i)")
    case True
    obtain u where u: "setc 0x20 i t = Some u" "puts s (g(i := blanked (conv s) (g i))) u"
      using puts_setc [OF assms(1) a] by (auto simp: blanked_def)
    note fu = puts_frame [OF u(2)]
    have "\<exists>v. (if CursorX u < NumOfColumns u - 1 then setc 0x20 (i + 1) u else Some u) = Some v \<and>
      puts s (if CursorX s < NumOfColumns s - 1
           then g(i := blanked (conv s) (g i), i + 1 := blanked (conv s) (g (i + 1)))
           else g(i := blanked (conv s) (g i))) v"
      using puts_setc [OF u(2) n] u(2) by (auto simp: blanked_def fu)
    then obtain v where v: "(if CursorX u < NumOfColumns u - 1 then setc 0x20 (i + 1) u else Some u) = Some v"
      "puts s (if CursorX s < NumOfColumns s - 1
           then g(i := blanked (conv s) (g i), i + 1 := blanked (conv s) (g (i + 1)))
           else g(i := blanked (conv s) (g i))) v" by blast
    have "\<exists>w. cut_left_half h t = Some w \<and> puts s (if CursorX s < NumOfColumns s - 1
           then g(i := blanked (conv s) (g i), i + 1 := blanked (conv s) (g (i + 1)))
           else g(i := blanked (conv s) (g i))) w"
      unfolding cut_left_half_def Let_def e using True u(1) v puts_str [OF v(2)]
      by (auto simp: f i [symmetric] intro!: puts_str)
    then show ?thesis using True by simp
  next
    case False
    then show ?thesis using assms(1) by (auto simp: cut_left_half_def e Let_def)
  qed
qed

lemma wrap_index_in: "0 \<le> i \<Longrightarrow> i < n \<Longrightarrow> wrap_index i n = Some i"
  by (subst wrap_index.simps) simp

lemma wrap_index_end: "0 < n \<Longrightarrow> wrap_index n n = Some 0"
  by (subst wrap_index.simps) (simp add: wrap_index_in)

lemma GetPtrRel_next:
  assumes "0 \<le> p" "p < BufferSize s"
  shows "GetPtrRel p 1 s = Some (if p + 1 = BufferSize s then 0 else p + 1)"
  using assms wrap_index_in [of "p + 1" "BufferSize s"] wrap_index_end [of "BufferSize s"]
  by (auto simp: GetPtrRel_def)

text \<open>
  \<open>cut_next\<close> blanks two cells of the array: the next one, when it is the left half of a
  full-width character and the new one is full-width too, and the one behind it.
\<close>

lemma cut_next_puts:
  assumes "puts s g t" and i: "i = LinePtr s + CursorX s"
    and "0 < BufferSize s" "int (length (CodeBuffW s)) = BufferSize s" "0 \<le> i" "i < BufferSize s"
  defines "p1 \<equiv> if i + 1 = BufferSize s then 0 else i + 1"
  defines "p2 \<equiv> if p1 + 1 = BufferSize s then 0 else p1 + 1"
  shows "\<exists>u. cut_next Ins h t = Some u \<and>
    puts s (if \<not> Ins \<and> \<not> h \<and> IsBuffFullWidth (g p1)
            then g(p1 := blanked (conv s) (g p1), p2 := blanked (conv s) ((g(p1 := blanked (conv s) (g p1))) p2)) else g) u"
proof -
  note f = puts_frame [OF assms(1)]
  have b: "0 \<le> p1" "p1 < BufferSize s" "0 \<le> p2" "p2 < BufferSize s" using assms(3-6) by (auto simp: p1_def p2_def)
  then have a: "in_arr (CodeBuffW s) p1" "in_arr (CodeBuffW s) p2" using assms(4) by (auto simp: in_arr_def)
  have r: "GetPtrRel (LinePtr t + CursorX t) 1 t = Some p1" "GetPtrRel p1 1 t = Some p2"
    using GetPtrRel_next [of i s] GetPtrRel_next [of p1 s] assms(5,6) b by (simp_all add: f i p1_def p2_def)
  have e: "cell_get p1 t = Some (g p1)" by (rule puts_get [OF assms(1) a(1)])
  show ?thesis
  proof (cases "\<not> Ins \<and> \<not> h \<and> IsBuffFullWidth (g p1)")
    case True
    obtain u where u: "setc 0x20 p1 t = Some u" "puts s (g(p1 := blanked (conv s) (g p1))) u"
      using puts_setc [OF assms(1) a(1)] by (auto simp: blanked_def)
    obtain v where v: "setc 0x20 p2 u = Some v"
      "puts s (g(p1 := blanked (conv s) (g p1), p2 := blanked (conv s) ((g(p1 := blanked (conv s) (g p1))) p2))) v"
      using puts_setc [OF u(2) a(2)] unfolding blanked_def by blast
    have c: "cut_next Ins h t = Some v" using True u(1) v(1) by (simp add: cut_next_def r e)
    show ?thesis unfolding if_P [OF True] using c v(2) by blast
  next
    case False
    then have "cut_next Ins h t = Some t" by (auto simp: cut_next_def r e)
    then show ?thesis unfolding if_not_P [OF False] using assms(1) by blast
  qed
qed

lemma mark_url_none:
  assumes "cell_get (LinePtr t + x) t = Some b" "u32 b \<noteq> 0x2F" "url_before x y t = Some False"
    "url_behind x y t = Some q"
  shows "mark_url_w x y t = Some t"
  using assms by (simp add: mark_url_w_def)

text \<open>The new cell does not depend on the old one.\<close>

definition char_cell :: "uni_env \<Rightarrow> conv_env \<Rightarrow> u32 \<Rightarrow> TCharAttr \<Rightarrow> u8 \<Rightarrow> bool \<Rightarrow> buff_char" where
  "char_cell U e c A a h =
     put_attr (if h then a else a OR AttrKanji) A
       (BuffSetChar2 e (blank_cell e 0x20 0 0 0 0) c (UnicodeGetWidthProperty U c) h (UnicodeIsEmoji U c))"

definition pad_cell :: "conv_env \<Rightarrow> buff_char" where
  "pad_cell e = (blank_cell e 0 0 0 0 0)\<lparr>Padding := True\<rparr>"

lemma char_cell_eq:
  "put_attr (if h then a else a OR AttrKanji) A
     (BuffSetChar2 e b c (UnicodeGetWidthProperty U c) h (UnicodeIsEmoji U c)) = char_cell U e c A a h"
  by (simp add: char_cell_def put_attr_def BuffSetChar2_def FreeCombinationBuf_def)

lemma pad_cell_eq:
  "(BuffSetChar e b 0 CHR ''H'')\<lparr>Padding := True, attr := 0, attr2 := 0, fg := 0, bg := 0\<rparr> = pad_cell e"
  by (simp add: pad_cell_def blank_cell_def BuffSetChar_def BuffSetChar2_def FreeCombinationBuf_def)

lemma char_cell_u32 [simp]: "u32 (char_cell U e c A a h) = c"
  "attr (char_cell U e c A a h) = (if h then a else a OR AttrKanji)"
  by (simp_all add: char_cell_def put_attr_def BuffSetChar2_def FreeCombinationBuf_def)

lemma count_str_puts: "puts s g t \<Longrightarrow> puts s g (count_str k t)"
  by (auto simp: count_str_def Let_def intro!: puts_str)

text \<open>
  The part of \<open>put_over\<close> before the URL is looked for.
\<close>

lemma put_over_puts:
  fixes U :: uni_env and c :: u32 and a8 :: u8
  assumes "puts s g t" and i: "i = LinePtr s + CursorX s" and a: "in_arr (CodeBuffW s) i"
    and n: "CursorX s < NumOfColumns s - 1 \<Longrightarrow> in_arr (CodeBuffW s) (i + 1)"
    and A: "AttrEx A AND AttrPadding = 0" and fit: "h \<or> CursorX s + 2 \<le> NumOfColumns s"
  defines "g' \<equiv> (if h then g(i := char_cell U (conv s) c A a8 h)
                 else g(i := char_cell U (conv s) c A a8 h, i + 1 := pad_cell (conv s)))"
  shows "\<exists>u. puts s g' u \<and>
    (\<forall>v. mark_url_w (CursorX s) (CursorY s) u = Some v \<longrightarrow>
      put_over U c A a8 h t = Some (v, if h then 1 else 2))"
proof -
  note f = puts_frame [OF assms(1)]
  obtain u where u: "cell_upd (\<lambda>b. put_attr (if h then a8 else a8 OR AttrKanji) A
       (BuffSetChar2 (conv s) b c (UnicodeGetWidthProperty U c) h (UnicodeIsEmoji U c))) i t = Some u"
    "puts s (g(i := char_cell U (conv s) c A a8 h)) u"
    using puts_upd [OF assms(1) a, of "\<lambda>b. put_attr (if h then a8 else a8 OR AttrKanji) A
       (BuffSetChar2 (conv s) b c (UnicodeGetWidthProperty U c) h (UnicodeIsEmoji U c))"]
    unfolding char_cell_eq by blast
  note fu = puts_frame [OF u(2)]
  obtain v where v: "(if \<not> h \<and> CursorX u < NumOfColumns u - 1
             then cell_upd (\<lambda>b. (BuffSetChar (conv u) b 0 CHR ''H'')
                    \<lparr>Padding := True, attr := 0, attr2 := 0, fg := 0, bg := 0\<rparr>) (i + 1) u
             else Some u) = Some v" "puts s g' v"
  proof (cases h)
    case True
    then show thesis using that [of u] u(2) by (simp add: g'_def)
  next
    case False
    then have lt: "CursorX s < NumOfColumns s - 1" using fit by simp
    obtain v where "cell_upd (\<lambda>b. (BuffSetChar (conv s) b 0 CHR ''H'')
                    \<lparr>Padding := True, attr := 0, attr2 := 0, fg := 0, bg := 0\<rparr>) (i + 1) u = Some v"
      "puts s (g(i := char_cell U (conv s) c A a8 h, i + 1 := pad_cell (conv s))) v"
      using puts_upd [OF u(2) n [OF lt], of "\<lambda>b. (BuffSetChar (conv s) b 0 CHR ''H'')
                    \<lparr>Padding := True, attr := 0, attr2 := 0, fg := 0, bg := 0\<rparr>"] unfolding pad_cell_eq by blast
    then show thesis using that [of v] False lt by (simp add: g'_def fu)
  qed
  note fv = puts_frame [OF v(2)]
  have "put_over U c A a8 h t = Some (w, if h then 1 else 2)"
    if "mark_url_w (CursorX s) (CursorY s) (count_str (if h then 1 else 2) v) = Some w" for w
    using that u(1) v(1) A fit fv(2,3)
    by (auto simp: put_over_def Let_def f i [symmetric] count_str_def)
  then show ?thesis using count_str_puts [OF v(2)] by blast
qed

lemma puts_at:
  assumes "puts s g t" "geom_ok s" "in_cols s x"
  shows "at t L x = g (row_ptr s L + x)"
proof -
  have "row_ptr t L = row_ptr s L" using assms(1) by (auto simp: puts_def row_ptr_def)
  moreover have "CodeBuffW t ! nat (row_ptr s L + x) = g (row_ptr s L + x)"
    using assms(1) row_in_arr [OF assms(2,3)] by (auto simp: puts_def)
  ultimately show ?thesis by (simp add: at_def)
qed

lemma puts_ok: "puts s g t \<Longrightarrow> screen_ok s \<Longrightarrow> screen_ok t"
  by (auto simp: puts_def screen_ok_def page_ok_def geom_ok_def cursor_ok_def lineptr_ok_def row_ptr_def)

text \<open>
  Nothing before the cursor is marked as a URL; at the start of a line that goes on from the
  line above, that line's last cell counts.
\<close>

definition no_url_before :: "TCharAttr \<Rightarrow> screen \<Rightarrow> bool" where
  "no_url_before A s \<longleftrightarrow>
     (let D = PageStart s + CursorY s; X = CursorX s in
      if X = 0
      then (has_bit (Attr A) AttrLineContinued \<or> has_bit (attr (at s D 0)) AttrLineContinued \<longrightarrow>
            0 < D \<and> \<not> has_bit (attr (at s (D - 1) (NumOfColumns s - 1))) AttrURL)
      else \<not> has_bit (attr (at s D (X - 1))) AttrURL)"

definition line_attr :: "TCharAttr \<Rightarrow> screen \<Rightarrow> u8" where
  "line_attr A s =
     (if EnableContinuedLineCopy (ts s) \<and> CursorX s = 0 \<and>
         has_bit (attr (at s (PageStart s + CursorY s) 0)) AttrLineContinued
      then Attr A OR AttrLineContinued else Attr A)"

text \<open>The cursor's line after the character has been put.\<close>

definition put_eff :: "uni_env \<Rightarrow> u32 \<Rightarrow> TCharAttr \<Rightarrow> bool \<Rightarrow> screen \<Rightarrow> int \<Rightarrow> buff_char" where
  "put_eff U c A h s x =
     (let D = PageStart s + CursorY s; X = CursorX s in
      if x = X then char_cell U (conv s) c A (line_attr A s) h
      else if \<not> h \<and> x = X + 1 then pad_cell (conv s)
      else if x = X - 1 \<and> IsBuffPadding (at s D X) \<or>
              x = X + 1 \<and> h \<and> \<not> IsBuffPadding (at s D X) \<and> IsBuffFullWidth (at s D X) \<or>
              x = X + 2 \<and> \<not> h \<and> IsBuffFullWidth (at s D (X + 1))
      then blanked (conv s) (at s D x)
      else at s D x)"

lemma line_attr_continued:
  assumes "has_bit (line_attr A s OR k) AttrLineContinued" "k = 0 \<or> k = AttrKanji"
  shows "has_bit (Attr A) AttrLineContinued \<or>
    has_bit (attr (at s (PageStart s + CursorY s) 0)) AttrLineContinued"
proof (rule ccontr)
  assume n: "\<not> ?thesis"
  then have "line_attr A s = Attr A" by (simp add: line_attr_def)
  moreover have "(Attr A OR k) AND AttrLineContinued = 0"
    using n assms(2) by (auto simp: bit.conj_disj_distrib2 AttrKanji_def AttrLineContinued_def)
  ultimately show False using assms(1) by simp
qed

lemma cut_states:
  assumes ok: "screen_ok s" and e0: "CursorX s = 0 \<Longrightarrow> \<not> IsBuffPadding (at s (PageStart s + CursorY s) 0)"
    and fit: "h \<or> CursorX s + 2 \<le> NumOfColumns s"
    and edge: "h \<or> CursorX s + 2 < NumOfColumns s \<or>
      \<not> IsBuffFullWidth (at s (PageStart s + CursorY s) (CursorX s + 1))"
  shows "\<exists>u1 u2 u3 g. cut_right_half s = Some u1 \<and> cut_left_half h u1 = Some u2 \<and>
    cut_next False h u2 = Some u3 \<and> puts s g u3 \<and>
    (\<forall>L x. in_cols s x \<longrightarrow> attr (g (row_ptr s L + x)) = attr (at s L x)) \<and>
    (\<forall>L x. in_cols s x \<longrightarrow> \<not> ((L - (PageStart s + CursorY s)) mod NumOfLinesInBuff s = 0 \<and>
        (x = CursorX s \<or> \<not> h \<and> x = CursorX s + 1)) \<longrightarrow>
      g (row_ptr s L + x) = (if (L - (PageStart s + CursorY s)) mod NumOfLinesInBuff s = 0
        then put_eff U c A h s x else at s L x))"
proof -
  define D where "D = PageStart s + CursorY s"
  define X where "X = CursorX s"
  define i where "i = LinePtr s + CursorX s"
  have g: "geom_ok s" and c: "cursor_ok s" and lp: "LinePtr s = row_ptr s D"
    using ok by (simp_all add: screen_ok_def page_ok_def lineptr_ok_def D_def)
  have X: "0 \<le> X" "X < NumOfColumns s" using c by (simp_all add: cursor_ok_def X_def)
  have iX: "i = row_ptr s D + X" by (simp add: i_def lp X_def)
  have ia: "in_arr (CodeBuffW s) i" unfolding iX by (rule row_in_arr [OF g]) (use X in \<open>simp add: in_cols_def\<close>)
  have im: "in_arr (CodeBuffW s) (i - 1)" if "0 < X"
  proof -
    have e: "i - 1 = row_ptr s D + (X - 1)" by (simp add: iX)
    show ?thesis unfolding e by (rule row_in_arr [OF g]) (use X that in \<open>simp add: in_cols_def\<close>)
  qed
  have ip: "in_arr (CodeBuffW s) (i + 1)" if "X < NumOfColumns s - 1"
  proof -
    have e: "i + 1 = row_ptr s D + (X + 1)" by (simp add: iX)
    show ?thesis unfolding e by (rule row_in_arr [OF g]) (use X that in \<open>simp add: in_cols_def\<close>)
  qed
  have rb: "0 \<le> i" "i < BufferSize s" using row_bounds [OF g, of D] X by (auto simp: iX)
  define g0 where "g0 = (\<lambda>k. CodeBuffW s ! nat k)"
  have g0: "g0 (row_ptr s L + x) = at s L x" for L x by (simp add: g0_def at_def)
  have g0i: "g0 i = at s D X" "g0 (i - 1) = at s D (X - 1)" "g0 (i + 1) = at s D (X + 1)" "g0 (i + 2) = at s D (X + 2)"
    using g0 [of D X] g0 [of D "X - 1"] g0 [of D "X + 1"] g0 [of D "X + 2"] by (simp_all add: iX add.assoc add_diff_eq)
  have p0: "puts s g0 s" unfolding g0_def by (rule puts_start)
  define g1 where "g1 = (if IsBuffPadding (g0 i) then g0(i - 1 := blanked (conv s) (g0 (i - 1)), i := blanked (conv s) (g0 i)) else g0)"
  have pad0: "IsBuffPadding (g0 i) \<Longrightarrow> 0 < X" using e0 X(1) by (cases "X = 0") (auto simp: g0i X_def D_def)
  obtain u1 where u1: "cut_right_half s = Some u1" "puts s g1 u1"
    using cut_right_half_puts [OF p0 i_def ia im [OF pad0]] unfolding g1_def by blast
  define g2 where "g2 = (if h \<and> IsBuffFullWidth (g1 i)
      then if CursorX s < NumOfColumns s - 1
           then g1(i := blanked (conv s) (g1 i), i + 1 := blanked (conv s) (g1 (i + 1)))
           else g1(i := blanked (conv s) (g1 i))
      else g1)"
  obtain u2 where u2: "cut_left_half h u1 = Some u2" "puts s g2 u2"
    using cut_left_half_puts [OF u1(2) i_def ia ip [folded X_def [symmetric], unfolded X_def]] unfolding g2_def by blast
  define p1 where "p1 = (if i + 1 = BufferSize s then 0 else i + 1)"
  define p2 where "p2 = (if p1 + 1 = BufferSize s then 0 else p1 + 1)"
  define g3 where "g3 = (if \<not> False \<and> \<not> h \<and> IsBuffFullWidth (g2 p1)
            then g2(p1 := blanked (conv s) (g2 p1), p2 := blanked (conv s) ((g2(p1 := blanked (conv s) (g2 p1))) p2)) else g2)"
  have sz: "0 < BufferSize s" "int (length (CodeBuffW s)) = BufferSize s"
    using g rb by (auto simp: geom_ok_def)
  obtain u3 where u3: "cut_next False h u2 = Some u3" "puts s g3 u3"
    using cut_next_puts [OF u2(2) i_def sz rb, of False h] unfolding g3_def p1_def p2_def by blast
  have idx: "row_ptr s L + x = i \<longleftrightarrow> (L - D) mod NumOfLinesInBuff s = 0 \<and> x = X"
    "0 < X \<Longrightarrow> row_ptr s L + x = i - 1 \<longleftrightarrow> (L - D) mod NumOfLinesInBuff s = 0 \<and> x = X - 1"
    "X + 1 < NumOfColumns s \<Longrightarrow> row_ptr s L + x = i + 1 \<longleftrightarrow> (L - D) mod NumOfLinesInBuff s = 0 \<and> x = X + 1"
    "X + 2 < NumOfColumns s \<Longrightarrow> row_ptr s L + x = i + 2 \<longleftrightarrow> (L - D) mod NumOfLinesInBuff s = 0 \<and> x = X + 2"
    if "in_cols s x" for L x
    using row_inj [OF g that, of X L D] row_inj [OF g that, of "X - 1" L D]
      row_inj [OF g that, of "X + 1" L D] row_inj [OF g that, of "X + 2" L D] X
    by (auto simp: iX in_cols_def add.assoc [symmetric] diff_add_eq add_diff_eq)
  have cells: "attr (g3 (row_ptr s L + x)) = attr (at s L x) \<and>
    (\<not> ((L - D) mod NumOfLinesInBuff s = 0 \<and> (x = X \<or> \<not> h \<and> x = X + 1)) \<longrightarrow>
      g3 (row_ptr s L + x) = (if (L - D) mod NumOfLinesInBuff s = 0 then put_eff U c A h s x else at s L x))"
    if x: "in_cols s x" for L x
  proof -
    note k = idx [OF x, of L]
    have per: "(L - D) mod NumOfLinesInBuff s = 0 \<Longrightarrow> at s L x = at s D x" by (rule at_period)
    have xc: "0 \<le> x" "x < NumOfColumns s" using x by (simp_all add: in_cols_def)
    show ?thesis
    proof (cases h)
      case True
      show ?thesis
      proof (cases "IsBuffPadding (g0 i)")
        case p: True
        note pd = pad0 [OF p]
        have e: "g3 = g0(i - 1 := blanked (conv s) (g0 (i - 1)), i := blanked (conv s) (g0 i))"
          using p True by (simp add: g3_def g2_def g1_def)
        show ?thesis unfolding e using True p k(1) k(2) [OF pd] per
          by (auto simp: g0 g0i put_eff_def D_def [symmetric] X_def [symmetric] Let_def)
      next
        case p: False
        have e: "g3 = (if IsBuffFullWidth (g0 i)
           then if X < NumOfColumns s - 1
           then g0(i := blanked (conv s) (g0 i), i + 1 := blanked (conv s) (g0 (i + 1)))
           else g0(i := blanked (conv s) (g0 i)) else g0)"
          using p True by (simp add: g3_def g2_def g1_def X_def)
        show ?thesis unfolding e using True p k(1) k(3) per xc
          by (auto simp: g0 g0i put_eff_def D_def [symmetric] X_def [symmetric] Let_def)
      qed
    next
      case False
      then have lt: "X + 1 < NumOfColumns s" using fit by (simp add: X_def)
      have pi: "p1 = i + 1" using row_bounds [OF g, of D] lt by (auto simp: p1_def iX)
      have p2i: "p2 = i + 2" if "X + 2 < NumOfColumns s"
        using row_bounds [OF g, of D] that by (auto simp: p2_def pi iX)
      have e1: "g1 (i + 1) = g0 (i + 1)" by (simp add: g1_def)
      have e: "g3 = (if IsBuffFullWidth (g0 (i + 1))
          then g1(i + 1 := blanked (conv s) (g0 (i + 1)), i + 2 := blanked (conv s) (g1 (i + 2))) else g1)"
        using False e1 p2i edge by (auto simp: g3_def g2_def pi g0i D_def X_def)
      have e2: "g1 (i + 2) = g0 (i + 2)" by (simp add: g1_def)
      have f2: "IsBuffFullWidth (g0 (i + 1)) \<Longrightarrow> X + 2 < NumOfColumns s"
        using edge False by (auto simp: g0i D_def X_def)
      show ?thesis unfolding e e2 unfolding g1_def using False k(1) k(2) [OF pad0] k(3) [OF lt] k(4) [OF f2] per xc
        by (auto simp: g0 g0i put_eff_def D_def [symmetric] X_def [symmetric] Let_def)
    qed
  qed
  show ?thesis using u1(1) u2(1) u3 cells unfolding D_def X_def by blast
qed

text \<open>The search for a URL finds nothing to do.\<close>

lemma mark_url_quiet:
  assumes ok: "screen_ok s" and p: "puts s g t"
    and new: "u32 (g (LinePtr s + CursorX s)) \<noteq> 0x2F"
    and at: "\<And>L x. in_cols s x \<Longrightarrow> \<not> ((L - (PageStart s + CursorY s)) mod NumOfLinesInBuff s = 0 \<and>
        CursorX s \<le> x) \<Longrightarrow> attr (g (row_ptr s L + x)) = attr (at s L x)"
    and free: "no_url_before A s"
    and cont: "CursorX s = 0 \<Longrightarrow> has_bit (attr (g (LinePtr s))) AttrLineContinued \<Longrightarrow>
      has_bit (Attr A) AttrLineContinued \<or> has_bit (attr (at s (PageStart s + CursorY s) 0)) AttrLineContinued"
  shows "mark_url_w (CursorX s) (CursorY s) t = Some t"
proof -
  define D where "D = PageStart s + CursorY s"
  define X where "X = CursorX s"
  have gm: "geom_ok s" and c: "cursor_ok s" and pg: "page_ok s" and lp: "LinePtr s = row_ptr s D"
    using ok by (simp_all add: screen_ok_def page_ok_def lineptr_ok_def D_def)
  have X: "0 \<le> X" "X < NumOfColumns s" using c by (simp_all add: cursor_ok_def X_def)
  have D: "0 \<le> D" "D < BuffEnd s" "BuffEnd s \<le> NumOfLinesInBuff s"
    using c pg by (auto simp: cursor_ok_def page_ok_def D_def)
  note f = puts_frame [OF p]
  have get: "cell_get (row_ptr s L + x) t = Some (g (row_ptr s L + x))" if "in_cols s x" for L x
    by (rule puts_get [OF p row_in_arr [OF gm that]])
  have get': "cell_get (row_ptr s L + NumOfColumns s - 1) t = Some (g (row_ptr s L + NumOfColumns s - 1))" for L
    using get [of "NumOfColumns s - 1" L] X by (simp add: in_cols_def add_diff_eq)
  have lp': "GetLinePtr L t = Some (row_ptr s L)" if "0 \<le> L" for L
    using that gm by (simp add: f)
  have here: "cell_get (LinePtr t + X) t = Some (g (LinePtr s + X))"
    using get [of X D] X by (simp add: f lp in_cols_def)
  have before: "url_before X (CursorY s) t = Some False"
  proof (cases "X = 0")
    case True
    have h0: "cell_get (LinePtr s) t = Some (g (LinePtr s))" using here True by (simp add: f)
    show ?thesis
    proof (cases "has_bit (attr (g (LinePtr s))) AttrLineContinued")
      case lc: True
      then have pr: "0 < D" "\<not> has_bit (attr (at s (D - 1) (NumOfColumns s - 1))) AttrURL"
        using free cont True by (simp_all add: no_url_before_def D_def X_def Let_def)
      have last: "in_cols s (NumOfColumns s - 1)" using X by (simp add: in_cols_def)
      have "\<not> (D - 1 - D) mod NumOfLinesInBuff s = 0"
        using D pr(1) zmod_minus1 [of "NumOfLinesInBuff s"] by auto
      then have "attr (g (row_ptr s (D - 1) + (NumOfColumns s - 1))) = attr (at s (D - 1) (NumOfColumns s - 1))"
        using at [OF last, of "D - 1"] by (simp add: D_def)
      then have a: "attr (g (row_ptr s (D - 1) + NumOfColumns s - 1)) = attr (at s (D - 1) (NumOfColumns s - 1))"
        by (simp add: add_diff_eq)
      have r: "GetLinePtr (PageStart t + CursorY s - 1) t = Some (row_ptr s (D - 1))"
        using lp' [of "D - 1"] pr(1) by (simp add: f D_def)
      show ?thesis unfolding url_before_def using True lc pr(2) r h0
        by (simp only: f refl if_True bind.bind_lunit get' a simp_thms)
    qed (use True h0 in \<open>simp add: url_before_def f\<close>)
  next
    case False
    have xm: "in_cols s (X - 1)" using X False by (simp add: in_cols_def)
    have "attr (g (row_ptr s D + (X - 1))) = attr (at s D (X - 1))"
      by (rule at [OF xm]) (simp add: X_def)
    then show ?thesis using False get [OF xm, of D] free
      by (simp add: url_before_def f lp add_diff_eq no_url_before_def D_def X_def Let_def)
  qed
  have "\<exists>q. url_behind X (CursorY s) t = Some q"
  proof (cases "X = NumOfColumns s - 1")
    case True
    have "cell_get (LinePtr s + (NumOfColumns s - 1)) t = Some (g (LinePtr s + X))" using here True by (simp add: f)
    moreover have "GetLinePtr (PageStart s + CursorY s + 1) t = Some (row_ptr s (D + 1))"
      using lp' [of "D + 1"] D by (simp add: D_def)
    ultimately show ?thesis using True get' [of "D + 1"]
      by (simp add: url_behind_def f ex_bool_eq)
  next
    case False
    have "in_cols s (X + 1)" using X False by (simp add: in_cols_def)
    then show ?thesis using False get [of "X + 1" D] by (simp add: url_behind_def f lp add.assoc)
  qed
  then show ?thesis using mark_url_none [OF here] new before unfolding X_def by blast
qed

text \<open>The cells after the one or two of the character are written.\<close>

lemma put_char_cells:
  assumes gm: "geom_ok s" and X: "0 \<le> X" "X < NumOfColumns s" "h \<or> X + 1 < NumOfColumns s"
    and i: "i = row_ptr s D + X" and x: "in_cols s x"
  shows "(if h then g(i := a) else g(i := a, i + 1 := b)) (row_ptr s L + x) =
    (if (L - D) mod NumOfLinesInBuff s = 0 \<and> x = X then a
     else if (L - D) mod NumOfLinesInBuff s = 0 \<and> \<not> h \<and> x = X + 1 then b else g (row_ptr s L + x))"
proof -
  have "row_ptr s L + x = i \<longleftrightarrow> (L - D) mod NumOfLinesInBuff s = 0 \<and> x = X"
    "X + 1 < NumOfColumns s \<Longrightarrow> row_ptr s L + x = i + 1 \<longleftrightarrow> (L - D) mod NumOfLinesInBuff s = 0 \<and> x = X + 1"
    using row_inj [OF gm x, of X L D] row_inj [OF gm x, of "X + 1" L D] X
    by (auto simp: i in_cols_def add.assoc [symmetric])
  then show ?thesis using X(3) by (cases h) auto
qed

lemma put_plain_cells:
  assumes ok: "screen_ok s" and c: "c \<noteq> 0x2F" and A: "AttrEx A AND AttrPadding = 0"
    and h: "BuffIsHalfWidthFromCode U (ts s) c = h" and fit: "h \<or> CursorX s + 2 \<le> NumOfColumns s"
    and edge: "h \<or> CursorX s + 2 < NumOfColumns s \<or>
      \<not> IsBuffFullWidth (at s (PageStart s + CursorY s) (CursorX s + 1))"
    and e0: "CursorX s = 0 \<longrightarrow> \<not> IsBuffPadding (at s (PageStart s + CursorY s) 0)"
    and free: "no_url_before A s"
  shows "\<exists>u g. put_plain U c A (line_attr A s) False s = Some (u, if h then 1 else 2) \<and> puts s g u \<and>
    (\<forall>L x. in_cols s x \<longrightarrow> g (row_ptr s L + x) =
      (if (L - (PageStart s + CursorY s)) mod NumOfLinesInBuff s = 0 then put_eff U c A h s x else at s L x))"
proof -
  define D where "D = PageStart s + CursorY s"
  define X where "X = CursorX s"
  define i where "i = LinePtr s + CursorX s"
  have gm: "geom_ok s" and co: "cursor_ok s" and lp: "LinePtr s = row_ptr s D"
    using ok by (simp_all add: screen_ok_def page_ok_def lineptr_ok_def D_def)
  have X: "0 \<le> X" "X < NumOfColumns s" "h \<or> X + 1 < NumOfColumns s"
    using co fit by (auto simp: cursor_ok_def X_def)
  have iX: "i = row_ptr s D + X" by (simp add: i_def lp X_def)
  have ia: "in_arr (CodeBuffW s) i" unfolding iX by (rule row_in_arr [OF gm]) (use X in \<open>simp add: in_cols_def\<close>)
  have ip: "in_arr (CodeBuffW s) (i + 1)" if "CursorX s < NumOfColumns s - 1"
  proof -
    have e: "i + 1 = row_ptr s D + (X + 1)" by (simp add: iX)
    show ?thesis unfolding e by (rule row_in_arr [OF gm]) (use X that in \<open>simp add: in_cols_def X_def\<close>)
  qed
  obtain u1 u2 u3 g where cut: "cut_right_half s = Some u1" "cut_left_half h u1 = Some u2"
    "cut_next False h u2 = Some u3" "puts s g u3"
    and ga: "\<And>L x. in_cols s x \<Longrightarrow> attr (g (row_ptr s L + x)) = attr (at s L x)"
    and gv: "\<And>L x. in_cols s x \<Longrightarrow> \<not> ((L - D) mod NumOfLinesInBuff s = 0 \<and> (x = X \<or> \<not> h \<and> x = X + 1)) \<Longrightarrow>
      g (row_ptr s L + x) = (if (L - D) mod NumOfLinesInBuff s = 0 then put_eff U c A h s x else at s L x)"
    using cut_states [OF ok e0 [rule_format] fit edge, of U c A] unfolding D_def X_def by metis
  let ?c = "char_cell U (conv s) c A (line_attr A s) h"
  define g' where "g' = (if h then g(i := ?c) else g(i := ?c, i + 1 := pad_cell (conv s)))"
  note g'_at = put_char_cells [OF gm X iX, where g = g and a = ?c and b = "pad_cell (conv s)", folded g'_def]
  obtain u where u: "puts s g' u"
    "\<And>v. mark_url_w (CursorX s) (CursorY s) u = Some v \<Longrightarrow>
      put_over U c A (line_attr A s) h u3 = Some (v, if h then 1 else 2)"
    using put_over_puts [OF cut(4) i_def ia ip A fit, of U c "line_attr A s"] unfolding g'_def by blast
  have gi: "g' i = ?c" by (simp add: g'_def)
  have "mark_url_w (CursorX s) (CursorY s) u = Some u"
  proof (rule mark_url_quiet [OF ok u(1) _ _ free])
    show "u32 (g' (LinePtr s + CursorX s)) \<noteq> 0x2F" using gi c by (simp add: i_def)
    show "attr (g' (row_ptr s L + x)) = attr (at s L x)" if "in_cols s x"
      "\<not> ((L - (PageStart s + CursorY s)) mod NumOfLinesInBuff s = 0 \<and> CursorX s \<le> x)" for L x
      using ga [OF that(1)] g'_at [OF that(1), of L] that(2) by (auto simp: D_def X_def)
    assume z: "CursorX s = 0" and lc: "has_bit (attr (g' (LinePtr s))) AttrLineContinued"
    have "has_bit (line_attr A s OR (if h then 0 else AttrKanji)) AttrLineContinued"
      using lc gi z unfolding i_def by (cases h) simp_all
    then show "has_bit (Attr A) AttrLineContinued \<or>
        has_bit (attr (at s (PageStart s + CursorY s) 0)) AttrLineContinued"
      by (rule line_attr_continued) simp
  qed
  from u(2) [OF this] have "put_plain U c A (line_attr A s) False s = Some (u, if h then 1 else 2)"
    using cut(1-3) by (simp add: put_plain_def h)
  moreover have "g' (row_ptr s L + x) =
      (if (L - D) mod NumOfLinesInBuff s = 0 then put_eff U c A h s x else at s L x)" if "in_cols s x" for L x
    using g'_at [OF that, of L] gv [OF that, of L] by (auto simp: put_eff_def X_def [symmetric] Let_def)
  ultimately show ?thesis using u(1) unfolding D_def by blast
qed

text \<open>
  C18. A character that does not combine is written over what is there, half-width or
  full-width: the cursor's line gets the new cells, the halves of the characters that were cut
  become spaces, and no other cell of the whole buffer changes; the result is how far the
  cursor has to move.
\<close>

theorem BuffPutUnicode_over:
  assumes ok: "screen_ok s" and c: "\<not> (c < 0x20 \<or> 0x80 \<le> c \<and> c \<le> 0x9f)" "c \<noteq> 0x2F"
    and comb: "IsCombiningChar U (CursorX s) (CursorY s) (Wrap s) c s = Some None" "combine_kind U c = 0"
    and A: "AttrEx A AND AttrPadding = 0"
    and h: "BuffIsHalfWidthFromCode U (ts s) c = h"
    and fit: "h \<or> CursorX s + 2 \<le> NumOfColumns s"
    and edge: "h \<or> CursorX s + 2 < NumOfColumns s \<or>
      \<not> IsBuffFullWidth (at s (PageStart s + CursorY s) (CursorX s + 1))"
    and e0: "CursorX s = 0 \<longrightarrow> \<not> IsBuffPadding (at s (PageStart s + CursorY s) 0)"
    and free: "no_url_before A s"
  shows "\<exists>t. BuffPutUnicode U c A False s = Some (t, if h then 1 else 2) \<and> screen_ok t \<and>
    CursorX t = CursorX s \<and> CursorY t = CursorY s \<and>
    (\<forall>L x. in_cols s x \<longrightarrow> at t L x =
      (if (L - (PageStart s + CursorY s)) mod NumOfLinesInBuff s = 0 then put_eff U c A h s x else at s L x))"
proof -
  define D where "D = PageStart s + CursorY s"
  have gm: "geom_ok s" and lp: "LinePtr s = row_ptr s D" and X: "0 < NumOfColumns s"
    using ok by (auto simp: screen_ok_def page_ok_def lineptr_ok_def cursor_ok_def D_def)
  obtain u g where u: "put_plain U c A (line_attr A s) False s = Some (u, if h then 1 else 2)" "puts s g u"
    and g: "\<And>L x. in_cols s x \<Longrightarrow> g (row_ptr s L + x) =
      (if (L - D) mod NumOfLinesInBuff s = 0 then put_eff U c A h s x else at s L x)"
    using put_plain_cells [OF ok c(2) A h fit edge e0 free] unfolding D_def by blast
  have "cell_get (LinePtr s) s = Some (at s D 0)"
    using cell_get_at [OF gm, of 0 D] X by (simp add: lp in_cols_def)
  then have "BuffPutUnicode U c A False s = Some (u, if h then 1 else 2)"
    unfolding BuffPutUnicode_def using c(1) comb u(1) by (simp add: line_attr_def D_def [symmetric] Let_def)
  then show ?thesis
    using puts_ok [OF u(2) ok] puts_frame [OF u(2)] puts_at [OF u(2) gm] g unfolding D_def by auto
qed

subsection \<open>Two writes outside the cursor's line\<close>

text \<open>
  A full-width character that does not fit into the last column is rejected, but only after
  the full-width character at the start of the next line has been erased.
\<close>

theorem BuffPutUnicode_next_line:
  assumes ok: "screen_ok s" and c: "\<not> (c < 0x20 \<or> 0x80 \<le> c \<and> c \<le> 0x9f)"
    and comb: "IsCombiningChar U (CursorX s) (CursorY s) (Wrap s) c s = Some None" "combine_kind U c = 0"
    and A: "AttrEx A AND AttrPadding = 0" and h: "\<not> BuffIsHalfWidthFromCode U (ts s) c"
    and last: "CursorX s = NumOfColumns s - 1" "2 \<le> NumOfColumns s"
    and nopad: "\<not> IsBuffPadding (at s (PageStart s + CursorY s) (CursorX s))"
    and nxt: "IsBuffFullWidth (at s (PageStart s + CursorY s + 1) 0)"
  shows "\<exists>t. BuffPutUnicode U c A False s = Some (t, -1) \<and>
    at t (PageStart s + CursorY s + 1) 0 = blanked (conv s) (at s (PageStart s + CursorY s + 1) 0) \<and>
    at t (PageStart s + CursorY s + 1) 1 = blanked (conv s) (at s (PageStart s + CursorY s + 1) 1)"
proof -
  define D where "D = PageStart s + CursorY s"
  define i where "i = LinePtr s + CursorX s"
  let ?N = "NumOfColumns s"
  have gm: "geom_ok s" and lp: "LinePtr s = row_ptr s D"
    using ok by (simp_all add: screen_ok_def page_ok_def lineptr_ok_def D_def)
  have iX: "i = row_ptr s D + (?N - 1)" by (simp add: i_def lp last)
  have ia: "in_arr (CodeBuffW s) i" unfolding iX by (rule row_in_arr [OF gm]) (use last in \<open>simp add: in_cols_def\<close>)
  define g0 where "g0 = (\<lambda>k. CodeBuffW s ! nat k)"
  have g0: "g0 (row_ptr s L + x) = at s L x" for L x by (simp add: g0_def at_def)
  have p0: "puts s g0 s" unfolding g0_def by (rule puts_start)
  have gi: "g0 i = at s D (?N - 1)" by (simp add: iX g0)
  have "\<not> IsBuffPadding (g0 i)" using nopad last gi by (simp add: D_def)
  then obtain u1 where u1: "cut_right_half s = Some u1" "puts s g0 u1"
    using cut_right_half_puts [OF p0 i_def ia] by auto
  have np: "CursorX s < NumOfColumns s - 1 \<Longrightarrow> in_arr (CodeBuffW s) (i + 1)" using last by simp
  obtain u2 where u2: "cut_left_half False u1 = Some u2" "puts s g0 u2"
    using cut_left_half_puts [OF u1(2) i_def ia np, of False] by auto
  have rb: "0 \<le> i" "i < BufferSize s" using row_bounds [OF gm, of D] last by (auto simp: iX)
  have sz: "0 < BufferSize s" "int (length (CodeBuffW s)) = BufferSize s" using gm rb by (auto simp: geom_ok_def)
  define p1 where "p1 = (if i + 1 = BufferSize s then 0 else i + 1)"
  have p1: "p1 = row_ptr s (D + 1)"
    using NextLinePtr_row [OF gm, of 0 D] row_bounds [OF gm, of D] last
    by (auto simp: p1_def iX NextLinePtr_def Let_def)
  have p2: "(if p1 + 1 = BufferSize s then 0 else p1 + 1) = row_ptr s (D + 1) + 1"
    using row_bounds [OF gm, of "D + 1"] last by (auto simp: p1)
  have full: "IsBuffFullWidth (g0 p1)" using nxt g0 [of "D + 1" 0] by (simp add: p1 D_def)
  obtain u3 where u3: "cut_next False False u2 = Some u3"
    "puts s (g0(p1 := blanked (conv s) (g0 p1), p1 + 1 := blanked (conv s) (g0 (p1 + 1)))) u3"
    using cut_next_puts [OF u2(2) i_def sz rb, of False False] full p2
    unfolding p1_def [symmetric] p1 [symmetric] by auto
  note f = puts_frame [OF u3(2)]
  have "put_over U c A a False u3 = Some (u3, -1)" for a
    using A last by (simp add: put_over_def Let_def f)
  then have "put_plain U c A a False s = Some (u3, -1)" for a
    using u1(1) u2(1) u3(1) h by (simp add: put_plain_def)
  moreover have "cell_get (LinePtr s) s = Some (at s D 0)"
    using cell_get_at [OF gm, of 0 D] last by (simp add: lp in_cols_def)
  ultimately have "BuffPutUnicode U c A False s = Some (u3, -1)"
    unfolding BuffPutUnicode_def using c comb by (simp add: Let_def)
  moreover have "in_cols s 0" "in_cols s 1" using last by (simp_all add: in_cols_def)
  then have "at u3 (D + 1) 0 = blanked (conv s) (at s (D + 1) 0)" "at u3 (D + 1) 1 = blanked (conv s) (at s (D + 1) 1)"
    using puts_at [OF u3(2) gm] g0 [of "D + 1" 0] g0 [of "D + 1" 1] by (simp_all add: p1)
  ultimately show ?thesis unfolding D_def by blast
qed

text \<open>
  With no line before the page, and the page at the start of the array, a character at the
  home position of a line that is marked as the continuation of another one makes the search
  for URLs read the cell before the array.
\<close>

theorem BuffPutUnicode_before_start:
  assumes ok: "screen_ok s" and c: "\<not> (c < 0x20 \<or> 0x80 \<le> c \<and> c \<le> 0x9f)"
    and comb: "IsCombiningChar U 0 0 (Wrap s) c s = Some None" "combine_kind U c = 0"
    and A: "AttrEx A AND AttrPadding = 0" and h: "BuffIsHalfWidthFromCode U (ts s) c"
    and home: "CursorX s = 0" "CursorY s = 0" "PageStart s = 0" "BuffStartAbs s = 0"
    and nopad: "\<not> IsBuffPadding (at s 0 0)" "\<not> IsBuffFullWidth (at s 0 0)"
    and lc: "EnableContinuedLineCopy (ts s)" "has_bit (attr (at s 0 0)) AttrLineContinued"
  shows "BuffPutUnicode U c A False s = None"
proof -
  let ?N = "NumOfColumns s"
  have gm: "geom_ok s" and lp: "LinePtr s = row_ptr s 0" and co: "cursor_ok s"
    using ok home by (simp_all add: screen_ok_def page_ok_def lineptr_ok_def)
  have N: "0 < ?N" "0 < BufferSize s" using gm by (auto simp: geom_ok_def)
  have l0: "LinePtr s = 0" using home(4) by (simp add: lp row_ptr_def)
  have i: "0 = LinePtr s + CursorX s" using l0 home by simp
  have ia: "in_arr (CodeBuffW s) 0" using gm N by (auto simp: geom_ok_def in_arr_def)
  define g0 where "g0 = (\<lambda>k. CodeBuffW s ! nat k)"
  have p0: "puts s g0 s" unfolding g0_def by (rule puts_start)
  have gi: "g0 0 = at s 0 0" using l0 lp by (simp add: at_def g0_def)
  obtain u1 where u1: "cut_right_half s = Some u1" "puts s g0 u1"
    using cut_right_half_puts [OF p0 i ia] nopad gi by auto
  have np: "CursorX s < ?N - 1 \<Longrightarrow> in_arr (CodeBuffW s) (0 + 1)"
    using row_in_arr [OF gm, of 1 0] home lp l0 by (simp add: in_cols_def)
  obtain u2 where u2: "cut_left_half True u1 = Some u2" "puts s g0 u2"
    using cut_left_half_puts [OF u1(2) i ia np, of True] nopad gi by auto
  have sz: "int (length (CodeBuffW s)) = BufferSize s" using gm by (simp add: geom_ok_def)
  obtain u3 where u3: "cut_next False True u2 = Some u3" "puts s g0 u3"
    using cut_next_puts [OF u2(2) i N(2) sz _ N(2), of False True] by auto
  define a where "a = Attr A OR AttrLineContinued"
  obtain u where u: "cell_upd (\<lambda>b. put_attr a A
       (BuffSetChar2 (conv s) b c (UnicodeGetWidthProperty U c) True (UnicodeIsEmoji U c))) 0 u3 = Some u"
    "puts s (g0(0 := char_cell U (conv s) c A a True)) u"
    using puts_upd [OF u3(2) ia, of "\<lambda>b. put_attr a A
       (BuffSetChar2 (conv s) b c (UnicodeGetWidthProperty U c) True (UnicodeIsEmoji U c))"]
      char_cell_eq [of True a A "conv s" _ c U] by auto
  define v where "v = count_str 1 u"
  have v: "puts s (g0(0 := char_cell U (conv s) c A a True)) v" unfolding v_def by (rule count_str_puts [OF u(2)])
  note f3 = puts_frame [OF u3(2)] and fu = puts_frame [OF u(2)] and fv = puts_frame [OF v]
  have get: "cell_get 0 v = Some (char_cell U (conv s) c A a True)" using puts_get [OF v ia] by simp
  have "GetLinePtr (- 1) s = Some (- ?N)"
    using N home(4) unfolding GetLinePtr_def by (subst wrap_down.simps) simp
  then have "GetLinePtr (- 1) v = Some (- ?N)" by (simp add: fv)
  moreover have "cell_get (- 1) v = None" by (simp add: cell_get_def rd_def in_arr_def)
  moreover have "has_bit (attr (char_cell U (conv s) c A a True)) AttrLineContinued"
    by (simp add: a_def bit.conj_disj_distrib2) (simp add: AttrLineContinued_def)
  ultimately have ub: "url_before 0 0 v = None"
    using get by (simp add: url_before_def fv l0 home)
  have "mark_url_w 0 0 v = None"
    using get by (simp add: mark_url_w_def ub fv l0)
  then have "put_over U c A a True u3 = None"
    using u(1) A by (simp add: put_over_def Let_def f3 fu l0 home v_def)
  then have "put_plain U c A a False s = None"
    using u1(1) u2(1) u3(1) h by (simp add: put_plain_def)
  moreover have "cell_get (LinePtr s) s = Some (at s 0 0)"
    using cell_get_at [OF gm, of 0 0] N lp by (simp add: in_cols_def)
  ultimately show ?thesis
    unfolding BuffPutUnicode_def using c comb lc home by (simp add: Let_def a_def)
qed

subsection \<open>Characters to evaluate on\<close>

definition sample_uni :: uni_env where
  "sample_uni = \<lparr>UnicodeIsCombiningCharacter = (\<lambda>_. 0),
     UnicodeGetWidthProperty = (\<lambda>c. if c < 0x1100 then CHR ''N'' else CHR ''W''),
     UnicodeIsEmoji = (\<lambda>_. False), UnicodeOverrideWidthCheck = (\<lambda>_. None),
     UnicodeIsVirama = (\<lambda>_. False), UnicodeBlockIndex = (\<lambda>_. 0), ANSICharOf = (\<lambda>_. 0x3f),
     UnicodeAmbiguousWidth = 1, UnicodeOverrideCharWidthEnable = False, UnicodeEmojiOverride = False,
     UnicodeEmojiWidth = 1\<rparr>"

definition plain_attr :: TCharAttr where
  "plain_attr = \<lparr>Attr = 0, Attr2 = 0, AttrEx = 0, Fore = 0, Back = 0\<rparr>"

lemma sample_width:
  "BuffIsHalfWidthFromCode sample_uni sample_tset 0x61"
  "\<not> BuffIsHalfWidthFromCode sample_uni sample_tset 0x3042"
  "combine_kind sample_uni 0x61 = 0" "combine_kind sample_uni 0x3042 = 0"
  "AttrEx plain_attr AND AttrPadding = 0"
  by (simp_all add: BuffIsHalfWidthFromCode_def BuffIsHalfWidthFromPropery_def sample_uni_def sample_tset_def
      combine_kind_def plain_attr_def)

lemma joins_sample: "u32_last b \<noteq> 0x200d \<Longrightarrow> c \<noteq> 0x200d \<Longrightarrow> \<not> joins sample_uni c b"
  by (simp add: joins_def combine_kind_def sample_uni_def)

lemma sample_nth: "i < 20 \<Longrightarrow> CodeBuffW sample_screen ! i = blank_cell sample_conv (word_of_int (65 + int i)) 0 0 0 0"
proof -
  assume i: "i < 20"
  have e: "CodeBuffW sample_screen = map (\<lambda>i. blank_cell sample_conv (word_of_int i) 0 0 0 0) [65..84]"
    by (simp only: sample_screen_def screen.simps)
  show ?thesis unfolding e using i nth_upto [of 65 i 84] by (subst nth_map) (simp_all del: upto_rec_numeral)
qed

lemma sample_row: "row_ptr sample_screen 2 = 12" "row_ptr sample_screen 3 = 16" "row_ptr sample_screen 1 = 8"
  by (simp_all add: row_ptr_def)

lemma sample_set [simp]: "ts sample_screen = sample_tset" "conv sample_screen = sample_conv" "Wrap sample_screen = False"
  by (simp_all add: sample_screen_def)

theorem BuffPutUnicode_witness:
  "\<exists>t. BuffPutUnicode sample_uni 0x61 plain_attr False sample_screen = Some (t, 1) \<and>
    at t 2 1 = char_cell sample_uni sample_conv 0x61 plain_attr 0 True \<and> at t 2 2 = at sample_screen 2 2"
proof -
  have at: "at sample_screen 2 0 = blank_cell sample_conv 77 0 0 0 0" "at sample_screen 2 1 = blank_cell sample_conv 78 0 0 0 0"
    "at sample_screen 2 2 = blank_cell sample_conv 79 0 0 0 0"
    by (simp_all add: at_def sample_row sample_nth)
  have l: "LeftHalfOfDBCS 12 0 sample_screen = Some 0" by (subst LeftHalfOfDBCS.simps) simp
  have cg: "cell_get 12 sample_screen = Some (blank_cell sample_conv 77 0 0 0 0)"
    by (simp add: cell_get_def rd_def in_arr_def sample_nth)
  have nj: "\<not> joins sample_uni 0x61 (blank_cell sample_conv 77 0 0 0 0)"
    by (rule joins_sample) (simp_all add: blank_cell_def)
  have ic: "IsCombiningChar sample_uni (CursorX sample_screen) (CursorY sample_screen) (Wrap sample_screen) 0x61 sample_screen = Some None"
    by (simp add: IsCombiningChar_def prev_char_def sample_row l cg nj)
  have free: "no_url_before plain_attr sample_screen" by (simp add: no_url_before_def Let_def at blank_cell_def)
  have "\<exists>t. BuffPutUnicode sample_uni 0x61 plain_attr False sample_screen = Some (t, if True then 1 else 2) \<and> screen_ok t \<and>
    CursorX t = CursorX sample_screen \<and> CursorY t = CursorY sample_screen \<and>
    (\<forall>L x. in_cols sample_screen x \<longrightarrow> at t L x =
      (if (L - (PageStart sample_screen + CursorY sample_screen)) mod NumOfLinesInBuff sample_screen = 0
       then put_eff sample_uni 0x61 plain_attr True sample_screen x else at sample_screen L x))"
    by (rule BuffPutUnicode_over [OF sample_ok(5) _ _ ic sample_width(3,5) _ _ _ _ free])
      (simp_all add: sample_width)
  then obtain t where t: "BuffPutUnicode sample_uni 0x61 plain_attr False sample_screen = Some (t, 1)"
    "\<And>L x. in_cols sample_screen x \<Longrightarrow> at t L x = (if (L - 2) mod 5 = 0
       then put_eff sample_uni 0x61 plain_attr True sample_screen x else at sample_screen L x)" by auto
  have "at t 2 1 = char_cell sample_uni sample_conv 0x61 plain_attr 0 True" "at t 2 2 = at sample_screen 2 2"
    using t(2) [of 1 2] t(2) [of 2 2]
    by (simp_all add: in_cols_def put_eff_def Let_def at line_attr_def) (simp add: plain_attr_def)
  then show ?thesis using t(1) by blast
qed

theorem BuffPutUnicode_next_line_witness:
  "\<exists>s t. BuffPutUnicode sample_uni 0x3042 plain_attr False s = Some (t, -1) \<and> u32 (at s 3 0) = 81 \<and> u32 (at t 3 0) = 0x20"
proof -
  let ?b = "(blank_cell sample_conv 81 0 0 0 0)\<lparr>cell := 2\<rparr>"
  let ?s = "sample_screen\<lparr>CursorX := 3, CodeBuffW := (CodeBuffW sample_screen)[16 := ?b]\<rparr>"
  have row: "row_ptr ?s 2 = 12" "row_ptr ?s 3 = 16" by (simp_all add: row_ptr_def)
  have ok: "screen_ok ?s"
    by (simp add: geom_ok_def page_ok_def cursor_ok_def lineptr_ok_def row_ptr_def screen_ok_def)
  have at: "at ?s 2 3 = blank_cell sample_conv 80 0 0 0 0" "at ?s 3 0 = ?b"
    by (simp_all add: at_def row sample_nth)
  have gl: "GetLinePtr 2 ?s = Some 12" using ok row by (simp add: screen_ok_def page_ok_def)
  have cg: "cell_get 14 ?s = Some (blank_cell sample_conv 79 0 0 0 0)"
    by (simp add: cell_get_def rd_def in_arr_def sample_nth)
  have l: "LeftHalfOfDBCS 12 2 ?s = Some 2"
    by (subst LeftHalfOfDBCS.simps) (simp add: cg, simp add: blank_cell_def)
  have nj: "\<not> joins sample_uni 0x3042 (blank_cell sample_conv 79 0 0 0 0)"
    by (rule joins_sample) (simp_all add: blank_cell_def)
  have ic: "IsCombiningChar sample_uni (CursorX ?s) (CursorY ?s) (Wrap ?s) 0x3042 ?s = Some None"
    using gl l cg nj by (simp add: IsCombiningChar_def prev_char_def)
  have "\<exists>t. BuffPutUnicode sample_uni 0x3042 plain_attr False ?s = Some (t, -1) \<and>
    at t (PageStart ?s + CursorY ?s + 1) 0 = blanked (conv ?s) (at ?s (PageStart ?s + CursorY ?s + 1) 0) \<and>
    at t (PageStart ?s + CursorY ?s + 1) 1 = blanked (conv ?s) (at ?s (PageStart ?s + CursorY ?s + 1) 1)"
    by (rule BuffPutUnicode_next_line [OF ok _ ic sample_width(4,5)])
      (simp_all add: sample_width at, simp_all add: IsBuffFullWidth_def)
  then obtain t where "BuffPutUnicode sample_uni 0x3042 plain_attr False ?s = Some (t, -1)"
    "at t 3 0 = blanked sample_conv ?b" by (auto simp: at)
  moreover have "u32 ?b = 81" "u32 (blanked sample_conv ?b) = 0x20"
    by (simp_all add: blank_cell_def blanked_def BuffSetChar_def BuffSetChar2_def FreeCombinationBuf_def)
  ultimately show ?thesis using at(2) by metis
qed

theorem BuffPutUnicode_before_start_witness:
  "\<exists>s. screen_ok s \<and> BuffPutUnicode sample_uni 0x61 plain_attr False s = None"
proof -
  let ?b = "(blank_cell sample_conv 65 0 0 0 0)\<lparr>attr := AttrLineContinued\<rparr>"
  let ?s = "sample_screen\<lparr>BuffStartAbs := 0, BuffEnd := 3, BuffEndAbs := 3, PageStart := 0, CursorX := 0,
    CursorY := 0, LinePtr := 0, CodeBuffW := (CodeBuffW sample_screen)[0 := ?b]\<rparr>"
  have ok: "screen_ok ?s"
    by (simp add: geom_ok_def page_ok_def cursor_ok_def lineptr_ok_def row_ptr_def screen_ok_def)
  have at: "at ?s 0 0 = ?b" by (simp add: at_def row_ptr_def)
  have gl: "GetLinePtr 0 ?s = Some 0" using ok by (simp add: screen_ok_def page_ok_def row_ptr_def)
  have ic: "IsCombiningChar sample_uni 0 0 (Wrap ?s) 0x61 ?s = Some None"
    using gl by (simp add: IsCombiningChar_def prev_char_def)
  have "BuffPutUnicode sample_uni 0x61 plain_attr False ?s = None"
    by (rule BuffPutUnicode_before_start [OF ok _ ic sample_width(3,5)])
      (simp_all add: sample_width at, simp_all add: sample_tset_def IsBuffPadding_def IsBuffFullWidth_def
        blank_cell_def AttrLineContinued_def)
  then show ?thesis using ok by blast
qed

end
