(* ===== verification/UnicodeTab.thy ===== *)
theory UnicodeTab
  imports ScreenBuffer UniTables
begin

section \<open>Properties of code points (teraterm/teraterm/unicode.cpp)\<close>

text \<open>
  The searches in the tables of \<open>UniTables\<close> and the functions the screen and the character
  set layer ask: width property, combining class, emoji, virama, block, the composition of a
  base and a mark, the single-byte character sets, and the user's list of widths. A read
  outside a table is \<open>None\<close>.
\<close>

subsection \<open>Model\<close>

text \<open>
  \<open>while (low < high)\<close> of \<open>UnicodeGetWidthProperty\<close>: the loop stops when one row is left.
\<close>

function width_loop :: "(int \<times> int \<times> char) list \<Rightarrow> int \<Rightarrow> int \<Rightarrow> int \<Rightarrow> char option" where
  "width_loop t u low high =
     (if low < high then
        do { (a, b, p) \<leftarrow> rd t ((low + high) div 2);
             if a \<le> u \<and> u \<le> b then Some p
             else if b < u then width_loop t u ((low + high) div 2 + 1) high
             else width_loop t u low ((low + high) div 2) }
      else Some CHR ''H'')"
  by pat_completeness auto
termination
  by (relation "measure (\<lambda>(t, u, low, high). nat (high - low))") auto

declare width_loop.simps [simp del]

definition width_property :: "(int \<times> int \<times> char) list \<Rightarrow> int \<Rightarrow> char option" where
  "width_property t u =
     do { (a, b, p) \<leftarrow> rd t 0; (a', b', p') \<leftarrow> rd t (int (length t) - 1);
          if u < a \<or> b' < u then Some CHR ''H''
          else width_loop t u 0 (int (length t) - 1) }"

definition UnicodeGetWidthProperty_t :: "u32 \<Rightarrow> char option" where
  "UnicodeGetWidthProperty_t c = width_property east_asian_width_map (uint c)"

text \<open>
  The loop of \<open>SearchTableSimple\<close>, \<open>SearchTableCombine\<close> and \<open>SearchTableBlock\<close>, over the
  bounds of the rows. \<open>high = mid - 1\<close> with \<open>mid = 0\<close> would make \<open>high\<close> the largest
  \<open>size_t\<close> and the next row read lie outside any table: \<open>None\<close>.
\<close>

function search_loop :: "(int \<times> int) list \<Rightarrow> int \<Rightarrow> int \<Rightarrow> int \<Rightarrow> int option" where
  "search_loop t u low high =
     (if low \<le> high then
        do { (a, b) \<leftarrow> rd t ((low + high) div 2);
             if a \<le> u \<and> u \<le> b then Some ((low + high) div 2)
             else if b < u then search_loop t u ((low + high) div 2 + 1) high
             else if (low + high) div 2 = 0 then None
             else search_loop t u low ((low + high) div 2 - 1) }
      else Some (- 1))"
  by pat_completeness auto
termination
  by (relation "measure (\<lambda>(t, u, low, high). nat (high + 1 - low))") auto

declare search_loop.simps [simp del]

definition SearchTableSimple :: "(int \<times> int) list \<Rightarrow> int \<Rightarrow> int option" where
  "SearchTableSimple t u =
     do { (a, b) \<leftarrow> rd t 0; (a', b') \<leftarrow> rd t (int (length t) - 1);
          if u < a \<or> u > b' then Some (- 1) else search_loop t u 0 (int (length t) - 1) }"

definition SearchTableCombine :: "(int \<times> int \<times> int) list \<Rightarrow> int \<Rightarrow> int option" where
  "SearchTableCombine t u = SearchTableSimple (map (\<lambda>(a, b, c). (a, b)) t) u"

definition UnicodeIsCombiningCharacter_t :: "u32 \<Rightarrow> int option" where
  "UnicodeIsCombiningCharacter_t c =
     do { i \<leftarrow> SearchTableCombine CombiningCharacterList (uint c);
          if i = - 1 then Some 0
          else do { (a, b, k) \<leftarrow> rd CombiningCharacterList i; Some k } }"

definition UnicodeIsEmoji_t :: "u32 \<Rightarrow> bool option" where
  "UnicodeIsEmoji_t c = do { i \<leftarrow> SearchTableSimple EmojiList (uint c); Some (i \<noteq> - 1) }"

definition UnicodeIsVirama_t :: "u32 \<Rightarrow> bool option" where
  "UnicodeIsVirama_t c = do { i \<leftarrow> SearchTableSimple ViramaList (uint c); Some (i \<noteq> - 1) }"

definition UnicodeBlockIndex_t :: "u32 \<Rightarrow> int option" where
  "UnicodeBlockIndex_t c = SearchTableSimple UnicodeBlockList (uint c)"

text \<open>
  The binary search for the first of the rows with a given key, as in \<open>_ConvertUnicode\<close> and
  \<open>UnicodeGetIndexOfCombiningFirstCode\<close>: the index the loop ends with.
\<close>

function lower_bound :: "('a \<Rightarrow> int) \<Rightarrow> 'a list \<Rightarrow> int \<Rightarrow> int \<Rightarrow> int \<Rightarrow> int option" where
  "lower_bound key t code low high =
     (if low < high then
        do { e \<leftarrow> rd t ((low + high) div 2);
             if key e < code then lower_bound key t code ((low + high) div 2 + 1) high
             else lower_bound key t code low ((low + high) div 2) }
      else Some low)"
  by pat_completeness auto
termination
  by (relation "measure (\<lambda>(key, t, code, low, high). nat (high - low))") auto

declare lower_bound.simps [simp del]

definition ConvertUnicode :: "int \<Rightarrow> (int \<times> int) list \<Rightarrow> int option" where
  "ConvertUnicode code t =
     do { low \<leftarrow> lower_bound fst t code 0 (int (length t) - 1);
          (a, b) \<leftarrow> rd t low;
          Some (if a = code then b else 0) }"

definition UTF32ToDecSp :: "u32 \<Rightarrow> int option" where
  "UTF32ToDecSp c =
     (if uint c > 0x10000 then Some 0
      else ConvertUnicode (uint c mod 0x10000) mapUnicodeSymbolToDecSp)"

text \<open>The rows are \<open>precomposed, first_code, second_code\<close>.\<close>

abbreviation first_code :: "int \<times> int \<times> int \<Rightarrow> int" where
  "first_code e \<equiv> fst (snd e)"

function back_to_first :: "(int \<times> int \<times> int) list \<Rightarrow> int \<Rightarrow> int \<Rightarrow> int \<Rightarrow> int option" where
  "back_to_first t code low index =
     (if low \<ge> 0 then
        do { e \<leftarrow> rd t low;
             if first_code e = code then back_to_first t code (low - 1) low else Some index }
      else Some index)"
  by pat_completeness auto
termination
  by (relation "measure (\<lambda>(t, code, low, index). nat (low + 1))") auto

declare back_to_first.simps [simp del]

definition UnicodeGetIndexOfCombiningFirstCode :: "(int \<times> int \<times> int) list \<Rightarrow> int \<Rightarrow> int option" where
  "UnicodeGetIndexOfCombiningFirstCode t code =
     do { low \<leftarrow> lower_bound first_code t code 0 (int (length t) - 1);
          e \<leftarrow> rd t low;
          if first_code e = code then back_to_first t code low (- 1) else Some (- 1) }"

fun precomposed_from :: "(int \<times> int \<times> int) list \<Rightarrow> int \<Rightarrow> int \<Rightarrow> int" where
  "precomposed_from [] first code = 0"
| "precomposed_from ((p, a, b) # t) first code =
     (if a \<noteq> first then 0 else if b = code then p else precomposed_from t first code)"

definition UnicodeGetPrecomposedChar :: "(int \<times> int \<times> int) list \<Rightarrow> int \<Rightarrow> int \<Rightarrow> int \<Rightarrow> int" where
  "UnicodeGetPrecomposedChar t start first code = precomposed_from (drop (nat start) t) first code"

definition UnicodeCombining :: "int \<Rightarrow> int \<Rightarrow> int option" where
  "UnicodeCombining first code =
     do { i \<leftarrow> UnicodeGetIndexOfCombiningFirstCode mapCombiningToPrecomposed first;
          Some (if i = - 1 then 0
                else UnicodeGetPrecomposedChar mapCombiningToPrecomposed i first code) }"

text \<open>
  The single-byte sets. \<open>t\<close> is the table \<open>GetSBCSTable\<close> finds, empty for a null pointer. The
  outer option is a read outside the table, the inner one the return value 0.
\<close>

fun sbcs_scan :: "nat \<Rightarrow> int \<Rightarrow> (int \<times> int) list \<Rightarrow> int \<Rightarrow> int option option" where
  "sbcs_scan 0 i t b = Some None"
| "sbcs_scan (Suc n) i t b =
     do { (code, unicode) \<leftarrow> rd t i;
          if code = b then Some (Some unicode) else sbcs_scan n (i + 1) t b }"

definition UnicodeFromSBCSTable :: "(int \<times> int) list \<Rightarrow> u8 \<Rightarrow> int option option" where
  "UnicodeFromSBCSTable t b =
     (if t = [] then Some None
      else if length t = 0x100 then do { e \<leftarrow> rd t (uint b); Some (Some (snd e)) }
      else sbcs_scan 0xff 0 t (uint b))"

fun sbcs_find :: "(int \<times> int) list \<Rightarrow> int \<Rightarrow> int option" where
  "sbcs_find [] u = None"
| "sbcs_find ((code, unicode) # t) u = (if unicode = u then Some code else sbcs_find t u)"

definition UnicodeToSBCTable :: "(int \<times> int) list \<Rightarrow> u32 \<Rightarrow> u8 option" where
  "UnicodeToSBCTable t c =
     (if c \<ge> 0x10000 then None else map_option word_of_int (sbcs_find t (uint c)))"

definition UnicodeFromSBCS :: "(id_kanji \<Rightarrow> (int \<times> int) list) \<Rightarrow> id_kanji \<Rightarrow> u8 \<Rightarrow> int option option" where
  "UnicodeFromSBCS tables k b =
     (if k = IdISO8859 1 then Some (Some (uint b)) else UnicodeFromSBCSTable (tables k) b)"

definition UnicodeToSBCS :: "(id_kanji \<Rightarrow> (int \<times> int) list) \<Rightarrow> id_kanji \<Rightarrow> u32 \<Rightarrow> u8 option" where
  "UnicodeToSBCS tables k c =
     (if k = IdISO8859 1 then Some (ucast c)
      else if c \<ge> 0x10000 then None else UnicodeToSBCTable (tables k) c)"

text \<open>The widths of the user's list, sorted by their start when the list is read.\<close>

fun override_scan :: "(int \<times> int \<times> int) list \<Rightarrow> int \<Rightarrow> int option" where
  "override_scan [] u = None"
| "override_scan ((a, b, w) # t) u = (if a \<le> u \<and> u \<le> b then Some w else override_scan t u)"

definition UnicodeOverrideWidthCheck_t :: "(int \<times> int \<times> int) list \<Rightarrow> u32 \<Rightarrow> int option" where
  "UnicodeOverrideWidthCheck_t t c =
     (case t of [] \<Rightarrow> None
      | (a, b, w) # r \<Rightarrow> if uint c < a then None else override_scan t (uint c))"

subsection \<open>The searches find what a scan of the table finds\<close>

text \<open>Rows that are not empty, disjoint and in ascending order.\<close>

fun ranges_ok :: "(int \<times> int) list \<Rightarrow> bool" where
  "ranges_ok [] = True"
| "ranges_ok [(a, b)] = (a \<le> b)"
| "ranges_ok ((a, b) # (c, d) # t) = (a \<le> b \<and> b < c \<and> ranges_ok ((c, d) # t))"

definition covers :: "int \<times> int \<Rightarrow> int \<Rightarrow> bool" where
  "covers r u \<longleftrightarrow> fst r \<le> u \<and> u \<le> snd r"

lemma ranges_ok_Cons:
  "ranges_ok (r # t) \<Longrightarrow> fst r \<le> snd r \<and> ranges_ok t \<and> (\<forall>x \<in> set t. snd r < fst x)"
proof (induction t arbitrary: r)
  case Nil
  then show ?case by (cases r) simp
next
  case (Cons q t)
  obtain a b c d where e: "r = (a, b)" "q = (c, d)" by (cases r; cases q)
  from Cons.prems have h: "a \<le> b" "b < c" "ranges_ok (q # t)" unfolding e by auto
  from Cons.IH [OF h(3)] have "c \<le> d" "\<forall>x \<in> set t. d < fst x" unfolding e by auto
  with h show ?case unfolding e by fastforce
qed

lemma ranges_ok_nth:
  "ranges_ok t \<Longrightarrow> i < j \<Longrightarrow> j < length t \<Longrightarrow> snd (t ! i) < fst (t ! j)"
proof (induction t arbitrary: i j)
  case Nil
  then show ?case by simp
next
  case (Cons r t)
  note h = ranges_ok_Cons [OF Cons.prems(1)]
  from Cons.prems obtain k where j: "j = Suc k" "k < length t" by (cases j) auto
  show ?case
  proof (cases i)
    case 0
    with h j show ?thesis by simp
  next
    case (Suc m)
    with Cons.IH [of m k] h j Cons.prems(2) show ?thesis by simp
  qed
qed

lemma ranges_ok_fst: "ranges_ok t \<Longrightarrow> i < length t \<Longrightarrow> fst (t ! i) \<le> snd (t ! i)"
proof (induction t arbitrary: i)
  case Nil
  then show ?case by simp
next
  case (Cons r t)
  with ranges_ok_Cons [OF Cons.prems(1)] show ?case by (cases i) auto
qed

lemma ranges_ok_less:
  assumes "ranges_ok t" "i \<le> j" "j < length t" "snd (t ! j) < u"
  shows "snd (t ! i) < u"
proof (cases "i = j")
  case False
  with assms ranges_ok_nth [of t i j] ranges_ok_fst [of t j] show ?thesis by simp
qed (use assms in simp)

lemma ranges_ok_greater:
  assumes "ranges_ok t" "i \<le> j" "j < length t" "u < fst (t ! i)"
  shows "u < fst (t ! j)"
proof (cases "i = j")
  case False
  with assms ranges_ok_nth [of t i j] ranges_ok_fst [of t i] show ?thesis by simp
qed (use assms in simp)

text \<open>The row that a search returns: the index of a covering row, or -1 when none covers.\<close>

definition found :: "(int \<times> int) list \<Rightarrow> int \<Rightarrow> int \<Rightarrow> bool" where
  "found t u i \<longleftrightarrow> (if i = - 1 then \<forall>r \<in> set t. \<not> covers r u else in_arr t i \<and> covers (t ! nat i) u)"

lemma found_none: "(\<And>j. j < length t \<Longrightarrow> \<not> covers (t ! j) u) \<Longrightarrow> found t u (- 1)"
  by (metis found_def in_set_conv_nth)

lemma search_loop_found:
  assumes t: "ranges_ok t" "fst (t ! 0) \<le> u" "0 \<le> low" "high < int (length t)" "low \<le> high + 1"
    and L: "\<forall>j. j < nat low \<longrightarrow> snd (t ! j) < u"
    and H: "\<forall>j. nat (high + 1) \<le> j \<and> j < length t \<longrightarrow> u < fst (t ! j)"
  shows "\<exists>i. search_loop t u low high = Some i \<and> found t u i"
  using assms
proof (induction t u low high rule: search_loop.induct)
  case (1 t u low high)
  let ?m = "(low + high) div 2"
  show ?case
  proof (cases "low \<le> high")
    case True
    then have m: "low \<le> ?m" "?m \<le> high" by auto
    then have "in_arr t ?m" using 1(5,6) by (auto simp: in_arr_def)
    then obtain a b where ab: "t ! nat ?m = (a, b)" "rd t ?m = Some (a, b)"
      by (metis rd_def surj_pair)
    have ml: "nat ?m < length t" using m 1(5,6) by linarith
    consider (hit) "a \<le> u" "u \<le> b" | (right) "b < u" | (left) "u < a" "\<not> b < u"
      using ranges_ok_fst [OF 1(3) ml] ab by fastforce
    then show ?thesis
    proof cases
      case hit
      then have "search_loop t u low high = Some ?m" using True ab
        by (subst search_loop.simps) simp
      moreover have "found t u ?m" using hit ab m 1(5) \<open>in_arr t ?m\<close>
        by (auto simp: found_def covers_def)
      ultimately show ?thesis by blast
    next
      case right
      then have "search_loop t u low high = search_loop t u (?m + 1) high" using True ab
        by (subst search_loop.simps) auto
      moreover have "\<exists>i. search_loop t u (?m + 1) high = Some i \<and> found t u i"
      proof (rule 1(1) [OF True ab(2) refl])
        show "\<not> (a \<le> u \<and> u \<le> b)" "b < u" using right by auto
        show "\<forall>j. j < nat (?m + 1) \<longrightarrow> snd (t ! j) < u"
          using ranges_ok_less [OF 1(3) _ ml] right ab m 1(5) by (auto simp: nat_less_iff)
      qed (use 1(3-9) m in auto)
      ultimately show ?thesis by simp
    next
      case left
      have "?m \<noteq> 0"
      proof
        assume "?m = 0"
        with ab left 1(4) show False by simp
      qed
      then have "search_loop t u low high = search_loop t u low (?m - 1)" using True ab left
        by (subst search_loop.simps) auto
      moreover have "\<exists>i. search_loop t u low (?m - 1) = Some i \<and> found t u i"
      proof (rule 1(2) [OF True ab(2) refl])
        show "\<not> (a \<le> u \<and> u \<le> b)" "\<not> b < u" "?m \<noteq> 0" using left \<open>?m \<noteq> 0\<close> by auto
        show "\<forall>j. nat (?m - 1 + 1) \<le> j \<and> j < length t \<longrightarrow> u < fst (t ! j)"
          using ranges_ok_greater [OF 1(3)] left ab by auto
      qed (use 1(3-9) m in auto)
      ultimately show ?thesis by simp
    qed
  next
    case False
    then have "search_loop t u low high = Some (- 1)" by (subst search_loop.simps) simp
    moreover have "\<not> covers (t ! j) u" if "j < length t" for j
    proof (cases "j < nat low")
      case True
      then show ?thesis using 1(8) by (auto simp: covers_def)
    next
      case 2: False
      then have "nat (high + 1) \<le> j" using False by simp
      then show ?thesis using 1(9) that by (auto simp: covers_def)
    qed
    ultimately show ?thesis using found_none by blast
  qed
qed

lemma SearchTableSimple_found:
  assumes "ranges_ok t" "t \<noteq> []"
  shows "\<exists>i. SearchTableSimple t u = Some i \<and> found t u i"
proof -
  let ?n = "length t"
  have i: "in_arr t 0" "in_arr t (int ?n - 1)" using assms(2) by (auto simp: in_arr_def Suc_leI)
  obtain a b where ab: "t ! 0 = (a, b)" by fastforce
  obtain c d where cd: "t ! (?n - 1) = (c, d)" by fastforce
  have n: "nat (int ?n - 1) = ?n - 1" by simp
  have lt: "?n - 1 < ?n" using assms(2) by simp
  show ?thesis
  proof (cases "u < a \<or> u > d")
    case True
    then have "SearchTableSimple t u = Some (- 1)"
      using i ab cd n by (auto simp: SearchTableSimple_def rd_def)
    moreover have "\<not> covers (t ! j) u" if "j < ?n" for j
    proof -
      have "j \<le> ?n - 1" using that by simp
      then show ?thesis
        using True ranges_ok_greater [OF assms(1) _ that, of 0 u] ranges_ok_less [OF assms(1) _ lt, of j u]
          ab cd by (auto simp: covers_def)
    qed
    ultimately show ?thesis using found_none by blast
  next
    case False
    then have "SearchTableSimple t u = search_loop t u 0 (int ?n - 1)"
      using i ab cd n by (auto simp: SearchTableSimple_def rd_def)
    then show ?thesis using search_loop_found [OF assms(1), of u 0 "int ?n - 1"] False ab assms(2)
      by simp
  qed
qed


lemma found_unique: "ranges_ok t \<Longrightarrow> i < length t \<Longrightarrow> covers (t ! i) u \<Longrightarrow> found t u j \<Longrightarrow> j = int i"
proof -
  assume h: "ranges_ok t" "i < length t" "covers (t ! i) u" "found t u j"
  then have j: "in_arr t j" "covers (t ! nat j) u" by (auto simp: found_def split: if_splits)
  then have "nat j < length t" by (auto simp: in_arr_def)
  with j h(2,3) ranges_ok_nth [OF h(1), of i "nat j"] ranges_ok_nth [OF h(1), of "nat j" i]
  have "nat j = i" by (cases "nat j" i rule: linorder_cases) (auto simp: covers_def)
  with j show ?thesis by (auto simp: in_arr_def)
qed

text \<open>What a scan from the first row on finds.\<close>

fun row_at :: "('a \<Rightarrow> int \<times> int) \<Rightarrow> 'a list \<Rightarrow> int \<Rightarrow> 'a option" where
  "row_at rng [] u = None"
| "row_at rng (e # t) u = (if covers (rng e) u then Some e else row_at rng t u)"

lemma row_at_None: "row_at rng t u = None \<longleftrightarrow> (\<forall>e \<in> set t. \<not> covers (rng e) u)"
  by (induction t) auto

lemma row_at_Some:
  assumes "ranges_ok (map rng t)" "i < length t" "covers (rng (t ! i)) u"
  shows "row_at rng t u = Some (t ! i)"
  using assms
proof (induction t arbitrary: i)
  case Nil
  then show ?case by simp
next
  case (Cons e t)
  note h = ranges_ok_Cons [OF Cons.prems(1) [simplified]]
  show ?case
  proof (cases i)
    case 0
    with Cons.prems show ?thesis by simp
  next
    case (Suc m)
    then have m: "m < length t" "covers (rng (t ! m)) u" using Cons.prems by auto
    then have "snd (rng e) < fst (rng (t ! m))" using h nth_mem [OF m(1)] by auto
    then have "\<not> covers (rng e) u" using m(2) by (auto simp: covers_def)
    with Cons.IH [of m] m h Suc show ?thesis by simp
  qed
qed

lemma found_row_at:
  assumes "ranges_ok (map rng t)" "found (map rng t) u i"
  shows "(i = - 1 \<longleftrightarrow> row_at rng t u = None) \<and> (i \<noteq> - 1 \<longrightarrow> rd t i = row_at rng t u)"
proof (cases "i = - 1")
  case True
  with assms(2) show ?thesis by (auto simp: found_def row_at_None)
next
  case False
  with assms(2) have i: "in_arr t i" "covers (map rng t ! nat i) u" by (auto simp: found_def in_arr_def)
  then have "nat i < length t" by (auto simp: in_arr_def)
  with row_at_Some [OF assms(1), of "nat i" u] i False show ?thesis by (auto simp: rd_def)
qed

lemma search_row_at:
  assumes "ranges_ok (map rng t)" "t \<noteq> []"
  shows "\<exists>i. SearchTableSimple (map rng t) u = Some i \<and> (i = - 1 \<longleftrightarrow> row_at rng t u = None) \<and>
    (i \<noteq> - 1 \<longrightarrow> rd t i = row_at rng t u)"
  using SearchTableSimple_found [OF assms(1), of u] found_row_at [OF assms(1), of u] assms(2) by auto

lemma tables_ok [simp]:
  "ranges_ok EmojiList" "ranges_ok ViramaList" "ranges_ok UnicodeBlockList"
  "ranges_ok (map (\<lambda>(a, b, c). (a, b)) CombiningCharacterList)"
  "ranges_ok (map (\<lambda>(a, b, c). (a, b)) east_asian_width_map)"
  by (simp_all add: EmojiList_def ViramaList_def UnicodeBlockList_def CombiningCharacterList_def
      east_asian_width_map_def)

lemma tables_not_empty [simp]:
  "EmojiList \<noteq> []" "ViramaList \<noteq> []" "UnicodeBlockList \<noteq> []" "CombiningCharacterList \<noteq> []"
  "east_asian_width_map \<noteq> []" "mapCombiningToPrecomposed \<noteq> []" "mapUnicodeSymbolToDecSp \<noteq> []"
  by (simp_all add: EmojiList_def ViramaList_def UnicodeBlockList_def CombiningCharacterList_def
      east_asian_width_map_def mapCombiningToPrecomposed_def mapUnicodeSymbolToDecSp_def)

lemma UnicodeIsCombiningCharacter_row:
  "UnicodeIsCombiningCharacter_t c =
     Some (case row_at (\<lambda>(a, b, k). (a, b)) CombiningCharacterList (uint c) of
             None \<Rightarrow> 0 | Some (a, b, k) \<Rightarrow> k)"
proof -
  obtain i where i: "SearchTableSimple (map (\<lambda>(a, b, k). (a, b)) CombiningCharacterList) (uint c) = Some i"
    "(i = - 1) = (row_at (\<lambda>(a, b, k). (a, b)) CombiningCharacterList (uint c) = None)"
    "i \<noteq> - 1 \<Longrightarrow> rd CombiningCharacterList i = row_at (\<lambda>(a, b, k). (a, b)) CombiningCharacterList (uint c)"
    using search_row_at [of "\<lambda>(a, b, k). (a, b)" CombiningCharacterList "uint c"] by auto
  then show ?thesis
    by (cases "row_at (\<lambda>(a, b, k). (a, b)) CombiningCharacterList (uint c)")
      (auto simp: UnicodeIsCombiningCharacter_t_def SearchTableCombine_def)
qed


lemma covers_row: "covers ((\<lambda>(a, b, p). (a, b)) e) u \<longleftrightarrow> fst e \<le> u \<and> u \<le> fst (snd e)"
  by (cases e) (auto simp: covers_def)

lemma ranges_ok_butlast: "ranges_ok t \<Longrightarrow> ranges_ok (butlast t)"
  by (induction t rule: ranges_ok.induct) (auto split: if_splits)

text \<open>
  The loop of the width search never looks at the row \<open>high\<close>: it finds what a scan of the
  rows before it finds.
\<close>

lemma width_loop_found:
  fixes t :: "(int \<times> int \<times> char) list"
  assumes "ranges_ok (map (\<lambda>(a, b, p). (a, b)) t)" "0 \<le> low" "low \<le> high" "high < int (length t)"
    and "\<forall>j. j < nat low \<longrightarrow> fst (snd (t ! j)) < u"
    and "\<forall>j. nat high \<le> j \<and> j < length t - 1 \<longrightarrow> u < fst (t ! j)"
  shows "width_loop t u low high =
    Some (case row_at (\<lambda>(a, b, p). (a, b)) (butlast t) u of None \<Rightarrow> CHR ''H'' | Some (a, b, p) \<Rightarrow> p)"
  using assms
proof (induction t u low high rule: width_loop.induct)
  case (1 t u low high)
  let ?m = "(low + high) div 2"
  let ?r = "map (\<lambda>(a, b, p :: char). (a, b)) t"
  have nth: "?r ! j = (fst (t ! j), fst (snd (t ! j)))" if "j < length t" for j
    using that by (simp add: split_beta)
  have bl: "map (\<lambda>(a, b, p :: char). (a, b)) (butlast t) = butlast ?r" by (simp add: map_butlast)
  show ?case
  proof (cases "low < high")
    case True
    then have m: "low \<le> ?m" "?m < high" by auto
    then have ml: "nat ?m < length t - 1" "nat ?m < length t" using 1(4,6) by linarith+
    obtain a b p where e: "t ! nat ?m = (a, b, p)" by (metis surj_pair)
    have rd: "rd t ?m = Some (a, b, p)" using e ml 1(4) m by (auto simp: rd_def in_arr_def)
    consider (hit) "a \<le> u" "u \<le> b" | (right) "b < u" | (left) "u < a" "\<not> b < u"
      using ranges_ok_fst [OF 1(3), of "nat ?m"] nth [OF ml(2)] e ml by fastforce
    then show ?thesis
    proof cases
      case hit
      have "row_at (\<lambda>(a, b, p). (a, b)) (butlast t) u = Some (butlast t ! nat ?m)"
        by (rule row_at_Some)
          (use hit e ml ranges_ok_butlast [OF 1(3)] bl in \<open>auto simp: covers_def nth_butlast\<close>)
      with hit True rd e ml show ?thesis by (subst width_loop.simps) (simp add: nth_butlast)
    next
      case right
      have "width_loop t u low high = width_loop t u (?m + 1) high"
        using right True rd by (subst width_loop.simps) auto
      also have "\<dots> = Some (case row_at (\<lambda>(a, b, p). (a, b)) (butlast t) u of None \<Rightarrow> CHR ''H''
          | Some (a, b, p) \<Rightarrow> p)"
      proof (rule 1(1) [OF True rd refl refl])
        show "\<forall>j. j < nat (?m + 1) \<longrightarrow> fst (snd (t ! j)) < u"
        proof (intro allI impI)
          fix j assume "j < nat (?m + 1)"
          then have j: "j \<le> nat ?m" by linarith
          have "snd (?r ! j) < u"
            by (rule ranges_ok_less [OF 1(3) j]) (use right nth [OF ml(2)] e ml in auto)
          then show "fst (snd (t ! j)) < u" using nth [of j] j ml by simp
        qed
      qed (use 1(3-8) m right in auto)
      finally show ?thesis .
    next
      case left
      have "width_loop t u low high = width_loop t u low ?m"
        using left True rd by (subst width_loop.simps) auto
      also have "\<dots> = Some (case row_at (\<lambda>(a, b, p). (a, b)) (butlast t) u of None \<Rightarrow> CHR ''H''
          | Some (a, b, p) \<Rightarrow> p)"
      proof (rule 1(2) [OF True rd refl refl])
        show "\<forall>j. nat ?m \<le> j \<and> j < length t - 1 \<longrightarrow> u < fst (t ! j)"
        proof (intro allI impI)
          fix j assume j: "nat ?m \<le> j \<and> j < length t - 1"
          have "u < fst (?r ! j)"
            by (rule ranges_ok_greater [OF 1(3), of "nat ?m"]) (use j left nth [OF ml(2)] e ml in auto)
          moreover have "j < length t" using conjunct2 [OF j] by linarith
          ultimately show "u < fst (t ! j)" using nth [of j] by simp
        qed
        show "\<not> (a \<le> u \<and> u \<le> b)" "\<not> b < u" using left by auto
        show "low \<le> ?m" "?m < int (length t)" using m 1(6) by linarith+
      qed (fact 1(3) 1(4) 1(7))+
      finally show ?thesis .
    qed
  next
    case False
    then have lh: "low = high" using 1(5) by simp
    have "\<not> covers ((\<lambda>(a, b, p). (a, b)) e) u" if "e \<in> set (butlast t)" for e
    proof -
      from that obtain j where j: "j < length t - 1" "t ! j = e"
        by (metis in_set_conv_nth length_butlast nth_butlast)
      show ?thesis
      proof (cases "j < nat low")
        case True
        with 1(7) j have "fst (snd e) < u" by blast
        then show ?thesis by (simp add: covers_row)
      next
        case 2: False
        then have "nat high \<le> j" using lh by simp
        with 1(8) j have "u < fst e" by blast
        then show ?thesis by (simp add: covers_row)
      qed
    qed
    then have "row_at (\<lambda>(a, b, p). (a, b)) (butlast t) u = None" by (simp add: row_at_None)
    with False show ?thesis by (subst width_loop.simps) simp
  qed
qed

lemma width_property_row:
  fixes t :: "(int \<times> int \<times> char) list"
  assumes ok: "ranges_ok (map (\<lambda>(a, b, p). (a, b)) t)" and n: "t \<noteq> []"
  shows "width_property t u =
    Some (case row_at (\<lambda>(a, b, p). (a, b)) (butlast t) u of None \<Rightarrow> CHR ''H'' | Some (a, b, p) \<Rightarrow> p)"
proof -
  let ?r = "map (\<lambda>(a, b, p :: char). (a, b)) t"
  obtain a b p where e: "t ! 0 = (a, b, p)" by (metis surj_pair)
  obtain a' b' p' where l: "t ! (length t - 1) = (a', b', p')" by (metis surj_pair)
  have rd: "rd t 0 = Some (a, b, p)" "rd t (int (length t) - 1) = Some (a', b', p')"
    using n e l by (auto simp: rd_def in_arr_def Suc_leI nat_diff_distrib)
  show ?thesis
  proof (cases "u < a \<or> b' < u")
    case True
    have "\<not> covers ((\<lambda>(a, b, p). (a, b)) x) u" if x: "x \<in> set (butlast t)" for x
    proof -
      from x obtain j where j: "j < length t - 1" "t ! j = x"
        by (metis in_set_conv_nth length_butlast nth_butlast)
      have r: "?r ! j = (fst x, fst (snd x))" "?r ! 0 = (a, b)" "?r ! (length t - 1) = (a', b')"
        using j e l n by (auto simp: split_beta)
      show ?thesis
      proof (cases "u < a")
        case True
        have "u < fst (?r ! j)" by (rule ranges_ok_greater [OF ok, of 0]) (use True r j in auto)
        with r show ?thesis by (simp add: covers_row)
      next
        case 2: False
        with True have "b' < u" by simp
        then have "snd (?r ! j) < u" using ranges_ok_less [OF ok, of j "length t - 1" u] r j n by auto
        with r show ?thesis by (simp add: covers_row)
      qed
    qed
    then have "row_at (\<lambda>(a, b, p). (a, b)) (butlast t) u = None" by (simp add: row_at_None)
    with True rd show ?thesis by (simp add: width_property_def)
  next
    case False
    then have "width_property t u = width_loop t u 0 (int (length t) - 1)"
      using rd by (simp add: width_property_def)
    also have "\<dots> = Some (case row_at (\<lambda>(a, b, p). (a, b)) (butlast t) u of None \<Rightarrow> CHR ''H''
        | Some (a, b, p) \<Rightarrow> p)"
      by (rule width_loop_found [OF ok]) (use n in \<open>auto simp: Suc_leI\<close>)
    finally show ?thesis .
  qed
qed


lemma row_at_last_lost:
  fixes t :: "(int \<times> int \<times> char) list"
  assumes "ranges_ok (map (\<lambda>(a, b, p). (a, b)) t)" "t \<noteq> []" "fst (last t) \<le> u"
  shows "row_at (\<lambda>(a, b, p). (a, b)) (butlast t) u = None"
  unfolding row_at_None
proof
  fix e assume "e \<in> set (butlast t)"
  then obtain j where j: "j < length t - 1" "t ! j = e"
    by (metis in_set_conv_nth length_butlast nth_butlast)
  with ranges_ok_nth [OF assms(1), of j "length t - 1"] assms(2)
  have "fst (snd e) < fst (last t)" by (auto simp: last_conv_nth split_beta)
  with assms(3) show "\<not> covers ((\<lambda>(a, b, p). (a, b)) e) u" by (simp add: covers_row)
qed

subsection \<open>The search for a key\<close>

lemma sorted_nth: "sorted (map key t) \<Longrightarrow> i \<le> j \<Longrightarrow> j < length t \<Longrightarrow> key (t ! i) \<le> (key (t ! j) :: int)"
  using sorted_nth_mono [of "map key t" i j] by simp

lemma lower_bound_spec:
  assumes "sorted (map key t)" "0 \<le> low" "low \<le> high" "high < int (length t)"
    and "\<forall>j. j < nat low \<longrightarrow> key (t ! j) < code"
    and "high = int (length t) - 1 \<or> code \<le> key (t ! nat high)"
  shows "\<exists>i < length t. lower_bound key t code low high = Some (int i) \<and>
    (\<forall>j < i. key (t ! j) < code) \<and> (i = length t - 1 \<or> code \<le> key (t ! i))"
  using assms
proof (induction key t code low high rule: lower_bound.induct)
  case (1 key t code low high)
  let ?m = "(low + high) div 2"
  show ?case
  proof (cases "low < high")
    case True
    then have m: "low \<le> ?m" "?m < high" by auto
    then have ml: "nat ?m < length t" "0 \<le> ?m" using 1(4,6) by linarith+
    then have rd: "rd t ?m = Some (t ! nat ?m)" by (auto simp: rd_def in_arr_def)
    show ?thesis
    proof (cases "key (t ! nat ?m) < code")
      case less: True
      have "lower_bound key t code low high = lower_bound key t code (?m + 1) high"
        using less True rd by (subst lower_bound.simps) simp
      moreover have "\<forall>j. j < nat (?m + 1) \<longrightarrow> key (t ! j) < code"
      proof (intro allI impI)
        fix j assume "j < nat (?m + 1)"
        then have "j \<le> nat ?m" by linarith
        then show "key (t ! j) < code" using sorted_nth [OF 1(3) _ ml(1)] less by (meson le_less_trans)
      qed
      moreover note 1(1) [OF True rd less]
      ultimately show ?thesis using 1(3,4,6,8) m by auto
    next
      case False
      have "lower_bound key t code low high = lower_bound key t code low ?m"
        using False True rd by (subst lower_bound.simps) simp
      moreover have "?m = int (length t) - 1 \<or> code \<le> key (t ! nat ?m)" using False by simp
      moreover note 1(2) [OF True rd False]
      ultimately show ?thesis using 1(3,4,6,7) m by auto
    qed
  next
    case False
    then have "low = high" using 1(5) by simp
    moreover have "lower_bound key t code low high = Some low" using False by (subst lower_bound.simps) simp
    moreover have "nat low < length t" using 1(4,6) \<open>low = high\<close> by linarith
    ultimately show ?thesis using 1(4,6,7,8) by (intro exI [of _ "nat low"]) auto
  qed
qed

lemma lower_bound_first:
  assumes "sorted (map key t)" "t \<noteq> []"
  shows "\<exists>i < length t. lower_bound key t code 0 (int (length t) - 1) = Some (int i) \<and>
    (\<forall>j < i. key (t ! j) < code) \<and> (i = length t - 1 \<or> code \<le> key (t ! i))"
  by (rule lower_bound_spec) (use assms in \<open>auto simp: Suc_leI\<close>)

lemma lower_bound_absent:
  assumes "sorted (map key t)" "i < length t" "\<forall>j < i. key (t ! j) < code"
    "i = length t - 1 \<or> code \<le> key (t ! i)" "key (t ! i) \<noteq> code" "e \<in> set t"
  shows "key e \<noteq> (code :: int)"
proof -
  obtain j where j: "j < length t" "e = t ! j" using assms(6) by (metis in_set_conv_nth)
  show ?thesis
  proof (cases "j < i")
    case True
    with assms(3) j show ?thesis by auto
  next
    case False
    then show ?thesis using assms(2,4,5) j sorted_nth [OF assms(1), of i j]
      by (cases "j = i") auto
  qed
qed

lemma map_of_first:
  "i < length t \<Longrightarrow> \<forall>j < i. fst (t ! j) \<noteq> k \<Longrightarrow> fst (t ! i) = k \<Longrightarrow> map_of t k = Some (snd (t ! i))"
proof (induction t arbitrary: i)
  case Nil
  then show ?case by simp
next
  case (Cons e t)
  show ?case
  proof (cases i)
    case 0
    with Cons.prems show ?thesis by (cases e) simp
  next
    case (Suc m)
    then have "fst e \<noteq> k" "\<forall>j < m. fst (t ! j) \<noteq> k" using Cons.prems(2) by auto
    with Cons.IH [of m] Cons.prems Suc show ?thesis by (cases e) auto
  qed
qed

lemma ConvertUnicode_map_of:
  assumes "sorted (map fst t)" "t \<noteq> []"
  shows "ConvertUnicode code t = Some (case map_of t code of None \<Rightarrow> 0 | Some b \<Rightarrow> b)"
proof -
  obtain i where i: "i < length t" "lower_bound fst t code 0 (int (length t) - 1) = Some (int i)"
    "\<forall>j < i. fst (t ! j) < code" "i = length t - 1 \<or> code \<le> fst (t ! i)"
    using lower_bound_first [OF assms] by blast
  obtain a b where e: "t ! i = (a, b)" by fastforce
  show ?thesis
  proof (cases "a = code")
    case True
    then have "map_of t code = Some b" using map_of_first [OF i(1), of code] i(3) e by force
    with True i e show ?thesis by (simp add: ConvertUnicode_def rd_def in_arr_def)
  next
    case False
    then have "map_of t code = None"
      using lower_bound_absent [OF assms(1) i(1,3,4)] e by (auto simp: map_of_eq_None_iff)
    with False i e show ?thesis by (simp add: ConvertUnicode_def rd_def in_arr_def)
  qed
qed

lemma precomposed_from_sorted:
  assumes "sorted (map first_code t)" "\<forall>e \<in> set t. first \<le> first_code e"
  shows "precomposed_from t first code =
    (case find (\<lambda>e. snd e = (first, code)) t of None \<Rightarrow> 0 | Some e \<Rightarrow> fst e)"
  using assms
proof (induction t)
  case (Cons e t)
  obtain p a b where e: "e = (p, a, b)" by (cases e)
  show ?case
  proof (cases "a = first")
    case True
    with Cons e show ?thesis by simp
  next
    case False
    with Cons.prems e have "\<forall>x \<in> set t. first < first_code x" by fastforce
    then have "find (\<lambda>e. snd e = (first, code)) t = None" by (fastforce simp: find_None_iff)
    with False e show ?thesis by simp
  qed
qed simp

lemma find_drop:
  "\<forall>j < i. \<not> P (t ! j) \<Longrightarrow> i \<le> length t \<Longrightarrow> find P (drop i t) = find P t"
proof (induction t arbitrary: i)
  case (Cons e t)
  show ?case
  proof (cases i)
    case (Suc m)
    then have "\<not> P e" "\<forall>j < m. \<not> P (t ! j)" using Cons.prems(1) by auto
    with Cons.IH [of m] Cons.prems(2) Suc show ?thesis by simp
  qed simp
qed simp

lemma precomposed_found:
  assumes "sorted (map first_code t)" "t \<noteq> []"
  shows "do { i \<leftarrow> UnicodeGetIndexOfCombiningFirstCode t first;
       Some (if i = - 1 then 0 else UnicodeGetPrecomposedChar t i first code) } =
    Some (case find (\<lambda>e. snd e = (first, code)) t of None \<Rightarrow> 0 | Some e \<Rightarrow> fst e)"
proof -
  obtain i where i: "i < length t" "lower_bound first_code t first 0 (int (length t) - 1) = Some (int i)"
    "\<forall>j < i. first_code (t ! j) < first" "i = length t - 1 \<or> first \<le> first_code (t ! i)"
    using lower_bound_first [OF assms] by blast
  have rd: "rd t (int i) = Some (t ! i)" using i(1) by (simp add: rd_def in_arr_def)
  show ?thesis
  proof (cases "first_code (t ! i) = first")
    case True
    have stop: "back_to_first t first (int i - 1) (int i) = Some (int i)"
    proof (cases i)
      case 0
      then show ?thesis by (subst back_to_first.simps) simp
    next
      case (Suc m)
      then have "first_code (t ! m) \<noteq> first" "rd t (int m) = Some (t ! m)" using i by (auto simp: rd_def in_arr_def)
      with Suc show ?thesis by (subst back_to_first.simps) simp
    qed
    have "back_to_first t first (int i) (- 1) = Some (int i)"
      using stop True rd by (subst back_to_first.simps) simp
    moreover have "find (\<lambda>e. snd e = (first, code)) (drop i t) = find (\<lambda>e. snd e = (first, code)) t"
      by (rule find_drop) (use i in \<open>auto simp: prod_eq_iff\<close>)
    moreover have "precomposed_from (drop i t) first code =
        (case find (\<lambda>e. snd e = (first, code)) (drop i t) of None \<Rightarrow> 0 | Some e \<Rightarrow> fst e)"
    proof (rule precomposed_from_sorted)
      show "sorted (map first_code (drop i t))" using assms(1) by (simp add: drop_map [symmetric] sorted_wrt_drop)
      show "\<forall>e \<in> set (drop i t). first \<le> first_code e"
      proof
        fix e assume "e \<in> set (drop i t)"
        then obtain j where j: "j < length t - i" "e = t ! (i + j)" by (auto simp: in_set_conv_nth)
        then show "first \<le> first_code e" using sorted_nth [OF assms(1), of i "i + j"] True by simp
      qed
    qed
    ultimately show ?thesis using i True rd
      by (simp add: UnicodeGetIndexOfCombiningFirstCode_def UnicodeGetPrecomposedChar_def)
  next
    case False
    have "find (\<lambda>e. snd e = (first, code)) t = None"
      using lower_bound_absent [OF assms(1) i(1,3,4) False] by (fastforce simp: find_None_iff)
    with False i rd show ?thesis by (simp add: UnicodeGetIndexOfCombiningFirstCode_def)
  qed
qed

fun ascending :: "int list \<Rightarrow> bool" where
  "ascending [] = True"
| "ascending [x] = True"
| "ascending (x # y # xs) = (x \<le> y \<and> ascending (y # xs))"

lemma ascending_sorted: "ascending xs \<Longrightarrow> sorted xs"
  by (induction xs rule: ascending.induct) (auto intro: order_trans)

lemma keys_sorted:
  "sorted (map first_code mapCombiningToPrecomposed)" "sorted (map fst mapUnicodeSymbolToDecSp)"
  by (rule ascending_sorted, simp add: mapCombiningToPrecomposed_def)
    (rule ascending_sorted, simp add: mapUnicodeSymbolToDecSp_def)

subsection \<open>Single-byte sets\<close>

lemma sbcs_scan_None:
  "0 \<le> i \<Longrightarrow> i \<le> int (length t) \<Longrightarrow> sbcs_scan n i t b = None \<longleftrightarrow> int (length t) - i < int n \<and> b \<notin> fst ` set (drop (nat i) t)"
proof (induction n arbitrary: i)
  case 0
  then show ?case by auto
next
  case (Suc n)
  show ?case
  proof (cases "nat i < length t")
    case True
    obtain c u where e: "t ! nat i = (c, u)" by fastforce
    have d: "drop (nat i) t = (c, u) # drop (nat (i + 1)) t"
      using Cons_nth_drop_Suc [OF True] e Suc.prems by (simp add: nat_add_distrib)
    show ?thesis using True e Suc.prems Suc.IH [of "i + 1"]
      by (auto simp: rd_def in_arr_def d)
  next
    case False
    then show ?thesis using Suc.prems by (auto simp: rd_def in_arr_def)
  qed
qed

lemma UnicodeFromSBCSTable_None:
  "UnicodeFromSBCSTable t b = None \<longleftrightarrow> t \<noteq> [] \<and> length t < 255 \<and> uint b \<notin> fst ` set t"
proof (cases "length t = 0x100")
  case True
  have "uint b < 256" using uint_bounded [of b] by simp
  with True show ?thesis by (auto simp: UnicodeFromSBCSTable_def rd_def in_arr_def)
next
  case False
  then show ?thesis using sbcs_scan_None [where i = 0 and n = 255 and t = t and b = "uint b"] by (auto simp: UnicodeFromSBCSTable_def)
qed


subsection \<open>What the table functions compute\<close>

text \<open>
  C19. The width property of a code point is the one of the row of the table that covers it and
  \<open>H\<close> when none does, but the last row of the table is never looked at: the loop of the
  binary search ends when a single row is left.
\<close>

theorem UnicodeGetWidthProperty_spec:
  "UnicodeGetWidthProperty_t c =
     Some (case row_at (\<lambda>(a, b, p). (a, b)) (butlast east_asian_width_map) (uint c) of
             None \<Rightarrow> CHR ''H'' | Some (a, b, p) \<Rightarrow> p)"
  unfolding UnicodeGetWidthProperty_t_def by (rule width_property_row) simp_all

lemma last_Cons2: "last (x # y # xs) = last (y # xs)" and last_single: "last [x] = x"
  by simp_all

lemma UnicodeGetWidthProperty_last_row:
  "last east_asian_width_map = (0xe0100, 0x10fffd, CHR ''A'') \<and>
   UnicodeGetWidthProperty_t 0xf0001 = Some CHR ''H''"
proof
  show l: "last east_asian_width_map = (0xe0100, 0x10fffd, CHR ''A'')"
    unfolding east_asian_width_map_def by (simp only: last_Cons2 last_single)
  have "row_at (\<lambda>(a, b, p). (a, b)) (butlast east_asian_width_map) 0xf0001 = None"
    by (rule row_at_last_lost) (simp_all add: l)
  then show "UnicodeGetWidthProperty_t 0xf0001 = Some CHR ''H''"
    by (simp add: UnicodeGetWidthProperty_t_def width_property_row)
qed

text \<open>
  The combining class of a code point is the one of the row of the table that covers it,
  0 when none does; the search never leaves the table.
\<close>

theorem UnicodeIsCombiningCharacter_spec:
  "UnicodeIsCombiningCharacter_t c =
     Some (case row_at (\<lambda>(a, b, k). (a, b)) CombiningCharacterList (uint c) of
             None \<Rightarrow> 0 | Some (a, b, k) \<Rightarrow> k)"
  by (rule UnicodeIsCombiningCharacter_row)

text \<open>
  The composition of a base and a mark is the precomposed character of the first row with
  these two codes, and 0 when there is none: the binary search, the step back and the scan
  together are a lookup in the whole table.
\<close>

theorem UnicodeCombining_spec:
  "UnicodeCombining first code =
     Some (case find (\<lambda>e. snd e = (first, code)) mapCombiningToPrecomposed of
             None \<Rightarrow> 0 | Some e \<Rightarrow> fst e)"
  unfolding UnicodeCombining_def
  by (rule precomposed_found) (simp_all add: keys_sorted)

text \<open>
  The lookup of a byte in the table of a single-byte set reads behind the table exactly
  when the table has fewer than 255 rows and none of them is for the byte: the loop runs over
  255 rows whatever the size of the table.
\<close>

theorem UnicodeFromSBCSTable_outside:
  "UnicodeFromSBCSTable t b = None \<longleftrightarrow> t \<noteq> [] \<and> length t < 255 \<and> uint b \<notin> fst ` set t"
  by (rule UnicodeFromSBCSTable_None)

lemma iso8859_3_outside: "UnicodeFromSBCSTable iso8859_3 0xa5 = None"
  by (subst UnicodeFromSBCSTable_None) (simp add: iso8859_3_def)

lemma UnicodeToSBCS_latin1: "UnicodeToSBCS tables (IdISO8859 1) 0x3042 = Some 0x42"
  by (simp add: UnicodeToSBCS_def)

lemma UTF32ToDecSp_spec:
  "UTF32ToDecSp c = Some (if uint c > 0x10000 then 0
     else case map_of mapUnicodeSymbolToDecSp (uint c mod 0x10000) of None \<Rightarrow> 0 | Some b \<Rightarrow> b)"
  by (simp add: UTF32ToDecSp_def ConvertUnicode_map_of keys_sorted)

end
