(* ===== verification/CodeConv.thy ===== *)
theory CodeConv
  imports UnicodeTab "HOL-Library.Signed_Division"
begin

section \<open>Conversions between encodings (teraterm/common/codeconv.cpp, codeconv_mb.cpp)\<close>

text \<open>
  One character at a time: UTF-8, UTF-16 and UTF-32, and JIS and Shift_JIS double bytes. On
  top of these the string conversions, which replace what they cannot convert by a question
  mark. A string of given length is a list; an output buffer is the number of its elements,
  \<open>None\<close> for the null pointer with which the callers ask for the length. The conversion of
  one character gives no unit when the code reports an error.
\<close>

subsection \<open>Single characters\<close>

definition IsHighSurrogate :: "u16 \<Rightarrow> bool" where
  "IsHighSurrogate u \<longleftrightarrow> 0xd800 \<le> u \<and> u < 0xdc00"

definition IsLowSurrogate :: "u16 \<Rightarrow> bool" where
  "IsLowSurrogate u \<longleftrightarrow> 0xdc00 \<le> u \<and> u < 0xe000"

text \<open>\<open>(0, 0)\<close> is the error; the first byte is read whatever the length is.\<close>

abbreviation is_cont :: "u8 \<Rightarrow> bool" where
  "is_cont c \<equiv> c AND 0xc0 = 0x80"

definition UTF8ToUTF32 :: "u8 list \<Rightarrow> (u32 \<times> nat) option" where
  "UTF8ToUTF32 bs =
     (case bs of
        [] \<Rightarrow> None
      | c1 # r \<Rightarrow> Some
         (if c1 \<le> 0x7f then (ucast c1, 1)
          else if 0xc2 \<le> c1 \<and> c1 \<le> 0xdf then
            (case r of c2 # _ \<Rightarrow>
               if c1 AND 0x1e \<noteq> 0 \<and> is_cont c2
               then (push_bit 6 (ucast (c1 AND 0x1f)) + ucast (c2 AND 0x3f), 2) else (0, 0)
             | _ \<Rightarrow> (0, 0))
          else if 0xe0 \<le> c1 \<and> c1 \<le> 0xef then
            (case r of c2 # c3 # _ \<Rightarrow>
               if (c1 AND 0x0f \<noteq> 0 \<or> c2 AND 0x20 \<noteq> 0) \<and> is_cont c2 \<and> is_cont c3
               then (push_bit 12 (ucast (c1 AND 0x0f)) + push_bit 6 (ucast (c2 AND 0x3f)) +
                     ucast (c3 AND 0x3f), 3) else (0, 0)
             | _ \<Rightarrow> (0, 0))
          else if 0xf0 \<le> c1 \<and> c1 \<le> 0xf7 then
            (case r of c2 # c3 # c4 # _ \<Rightarrow>
               if (c1 AND 0x07 \<noteq> 0 \<or> c2 AND 0x30 \<noteq> 0) \<and> is_cont c2 \<and> is_cont c3 \<and> is_cont c4
               then (push_bit 18 (ucast (c1 AND 0x07)) + push_bit 12 (ucast (c2 AND 0x3f)) +
                     (push_bit 6 (ucast (c3 AND 0x3f)) + ucast (c4 AND 0x3f)), 4) else (0, 0)
             | _ \<Rightarrow> (0, 0))
          else (0, 0)))"

definition UTF32ToUTF8 :: "u32 \<Rightarrow> nat option \<Rightarrow> u8 list" where
  "UTF32ToUTF8 c cap =
     (let u8_len = (case cap of None \<Rightarrow> 4 | Some n \<Rightarrow> n);
          bs = (if c \<le> 0x7f then [ucast c]
            else if c \<le> 0x7ff
            then [ucast (drop_bit 6 c AND 0x1f) OR 0xc0, ucast (c AND 0x3f) OR 0x80]
            else if c \<le> 0xffff
            then [ucast (drop_bit 12 c AND 0xf) OR 0xe0, ucast (drop_bit 6 c AND 0x3f) OR 0x80,
                  ucast (c AND 0x3f) OR 0x80]
            else if c \<le> 0x10ffff
            then [ucast (drop_bit 18 c) OR 0xf0, ucast (drop_bit 12 c AND 0x3f) OR 0x80,
                  ucast (drop_bit 6 c AND 0x3f) OR 0x80, ucast (c AND 0x3f) OR 0x80]
            else [])
      in if u8_len \<ge> length bs then bs else [])"

definition UTF16ToUTF32 :: "u16 list \<Rightarrow> u32 \<times> nat" where
  "UTF16ToUTF32 ws =
     (case ws of
        [] \<Rightarrow> (0, 0)
      | u # r \<Rightarrow>
         if IsHighSurrogate u then
           (case r of
              lo # _ \<Rightarrow> if IsLowSurrogate lo
                then (0x10000 + (ucast u - 0xd800) * 0x400 + (ucast lo - 0xdc00), 2) else (0, 0)
            | [] \<Rightarrow> (0, 0))
         else if IsLowSurrogate u then (0, 0)
         else (ucast u, 1))"

definition CodeConvSJIS2JIS :: "u16 \<Rightarrow> u16" where
  "CodeConvSJIS2JIS KCode =
     (let b = uint KCode mod 0x100;
          (x0, y0) = (if 0x40 \<le> b \<and> b \<le> 0x7f then (0x8140, 0x2121)
                      else if 0x80 \<le> b \<and> b \<le> 0x9e then (0x8180, 0x2160) else (0x819f, 0x2221));
          (x0, y0) = (if uint KCode div 0x100 \<ge> 0xe0
                      then ((x0 + 0x5f00) mod 0x10000, (y0 + 0x3e00) mod 0x10000) else (x0, y0));
          x1 = ((uint KCode - x0) sdiv 0x100) mod 0x10000;
          x2 = ((uint KCode - x0) smod 0x100) mod 0x10000
      in word_of_int (y0 + x1 * 0x200 + x2))"

definition CodeConvJIS2SJIS :: "u16 \<Rightarrow> u16" where
  "CodeConvJIS2SJIS KCode =
     (let n1 = ((uint KCode - 0x2121) sdiv 0x200) mod 0x10000;
          n2 = ((uint KCode - 0x2121) smod 0x200) mod 0x10000;
          SJIS = ((if n1 \<le> 0x1e then 0x8100 else 0xC100) + n1 * 256) mod 0x10000
      in word_of_int
           (if n2 \<le> 0x3e then SJIS + n2 + 0x40
            else if 0x3f \<le> n2 \<and> n2 \<le> 0x5d then SJIS + n2 + 0x41
            else SJIS + n2 - 0x61))"

definition CodeConvSJIS2EUC :: "u16 \<Rightarrow> u16" where
  "CodeConvSJIS2EUC KCode = CodeConvSJIS2JIS KCode OR 0x8080"

text \<open>
  The double-byte code pages. \<open>MultiByteToWideChar\<close> is the function of Windows (\<open>None\<close> when it
  returns 0 or less), \<open>mapSJISToUnicode\<close> the table of ttpcmn/sjis2uni.map, the single-byte
  tables are those of \<open>GetSBCSTable\<close>. A result of 0 is the error.
\<close>

record code_env =
  MultiByteToWideChar :: "int \<Rightarrow> u8 list \<Rightarrow> u16 option"
  GetACP :: int
  mapSJISToUnicode :: "(int \<times> int) list"
  SBCSTable :: "id_kanji \<Rightarrow> (int \<times> int) list"

definition mb_bytes :: "u16 \<Rightarrow> u8 list" where
  "mb_bytes c = (if c < 0x100 then [ucast c] else [ucast (drop_bit 8 c), ucast c])"

definition CP932ToUTF32 :: "code_env \<Rightarrow> u16 \<Rightarrow> u32 option" where
  "CP932ToUTF32 E c =
     (case MultiByteToWideChar E 932 (mb_bytes c) of
        None \<Rightarrow> do { k \<leftarrow> ConvertUnicode (uint c) (mapSJISToUnicode E); Some (word_of_int k) }
      | Some w \<Rightarrow> Some (ucast w))"

definition MBCP_UTF32 :: "code_env \<Rightarrow> u16 \<Rightarrow> int \<Rightarrow> u32 option" where
  "MBCP_UTF32 E c code_page =
     (let code_page = (if code_page = 0 then GetACP E else code_page)
      in if code_page = 932 then CP932ToUTF32 E c
         else case MultiByteToWideChar E code_page (mb_bytes c) of
             None \<Rightarrow> Some 0 | Some w \<Rightarrow> Some (ucast w))"

subsection \<open>Strings\<close>

text \<open>
  The loop of \<open>WideCharToMB\<close>: the units read, the bytes written. \<open>ws\<close> are the units the call is
  given, \<open>cap\<close> the room for the bytes (\<open>None\<close> for the counting call). A length of 0, like a
  null pointer for it, asks for the string up to its NUL, so the C function never runs the
  loop on no units; \<open>wide_arg\<close> says which units of the memory behind the pointer these are.
\<close>

function wide_to_mb ::
  "(u32 \<Rightarrow> nat option \<Rightarrow> u8 list) \<Rightarrow> nat option \<Rightarrow> u16 list \<Rightarrow> nat \<times> u8 list" where
  "wide_to_mb UTF32ToMB cap ws =
     (if cap = Some 0 \<or> ws = [] then (0, [])
      else let (u32, wb_in) = UTF16ToUTF32 ws;
               mb = (if wb_in = 0 then [] else UTF32ToMB u32 cap);
               mb = (if mb = [] then [0x3f] else mb);
               wb_in = (if wb_in = 0 then 1 else wb_in);
               (n, out) = wide_to_mb UTF32ToMB (map_option (\<lambda>m. m - length mb) cap) (drop wb_in ws)
           in (wb_in + n, mb @ out))"
  by pat_completeness auto
termination
  by (relation "measure (\<lambda>(f, cap, ws). length ws)") (auto split: if_splits)

declare wide_to_mb.simps [simp del]

definition wide_arg :: "u16 list \<Rightarrow> nat option \<Rightarrow> u16 list" where
  "wide_arg mem wstr_len =
     (if wstr_len = None \<or> wstr_len = Some 0 then takeWhile (\<lambda>u. u \<noteq> 0) mem @ [0]
      else take (the wstr_len) mem)"

definition WideCharToMB ::
  "(u32 \<Rightarrow> nat option \<Rightarrow> u8 list) \<Rightarrow> nat option \<Rightarrow> u16 list \<Rightarrow> nat option \<Rightarrow> nat \<times> u8 list" where
  "WideCharToMB UTF32ToMB cap mem wstr_len = wide_to_mb UTF32ToMB cap (wide_arg mem wstr_len)"

text \<open>\<open>WideCharToUTF8\<close> on the units that \<open>wide_arg\<close> gives.\<close>

definition WideCharToUTF8 :: "u16 list \<Rightarrow> nat option \<Rightarrow> nat \<times> u8 list" where
  "WideCharToUTF8 ws cap = wide_to_mb UTF32ToUTF8 cap ws"

text \<open>\<open>len\<close> elements may be written; with a null pointer it stays 4.\<close>

function WideCharToUTF32 :: "u16 list \<Rightarrow> nat option \<Rightarrow> nat \<times> u32 list" where
  "WideCharToUTF32 ws cap =
     (if cap = Some 0 \<or> ws = [] then (0, [])
      else let (u32, wb_in) = UTF16ToUTF32 ws;
               u32 = (if wb_in = 0 then 0x3f else u32);
               wb_in = (if wb_in = 0 then 1 else wb_in);
               (n, out) = WideCharToUTF32 (drop wb_in ws) (map_option (\<lambda>m. m - 1) cap)
           in (wb_in + n, u32 # out))"
  by pat_completeness auto
termination
  by (relation "measure (\<lambda>(ws, cap). length ws)") (auto split: if_splits)

declare WideCharToUTF32.simps [simp del]

text \<open>The units of one code point in \<open>UTF8ToWideChar\<close>, \<open>len\<close> being free.\<close>

definition wide_units :: "u32 \<Rightarrow> nat \<Rightarrow> u16 list" where
  "wide_units c len =
     (if c < 0x10000 then [ucast c]
      else if c \<le> 0x10ffff then (if len \<ge> 2 then UTF32ToUTF16 c else [0x3f])
      else [0x3f])"

definition utf8_next :: "u8 list \<Rightarrow> u32 \<times> nat" where
  "utf8_next bs =
     (case bs of [] \<Rightarrow> (0, 1) | b # _ \<Rightarrow>
        if b = 0 then (0, 1)
        else case UTF8ToUTF32 bs of
            Some (c, n) \<Rightarrow> if n = 0 then (0x3f, 1) else (c, n) | None \<Rightarrow> (0, 1))"

lemma utf8_next_pos: "0 < snd (utf8_next bs)"
  by (auto simp: utf8_next_def split: list.splits option.splits)

function UTF8ToWideChar :: "u8 list \<Rightarrow> nat option \<Rightarrow> u16 list" where
  "UTF8ToWideChar bs cap =
     (let len = (case cap of None \<Rightarrow> 2 | Some n \<Rightarrow> n)
      in if len = 0 \<or> bs = [] then []
         else let (c, k) = utf8_next bs; ws = wide_units c len
              in ws @ UTF8ToWideChar (drop k bs) (map_option (\<lambda>m. m - length ws) cap))"
  by pat_completeness auto
termination
proof (relation "measure (\<lambda>(bs, cap). length bs)")
  fix bs :: "u8 list" and cap :: "nat option" and x p c k and y :: "u16 list"
  assume h: "\<not> (x = 0 \<or> bs = [])" "p = utf8_next bs" "(c, k) = p"
  then have "0 < k" using utf8_next_pos [of bs] by (metis snd_conv)
  with h(1) show "((drop k bs, map_option (\<lambda>m. m - length y) cap), bs, cap) \<in> measure (\<lambda>(bs, cap). length bs)"
    by (cases bs) auto
qed simp

declare UTF8ToWideChar.simps [simp del]

subsection \<open>The bytes of a code point\<close>

lemma byte_cases: "list_all P [0..<n] \<Longrightarrow> unat (y :: u8) < n \<Longrightarrow> P (unat y)"
  by (auto simp: list_all_iff)

lemma cont_byte:
  assumes "unat (y :: u8) < 64"
  shows "is_cont (y OR 0x80)" "(y OR 0x80) AND 0x3f = y" "unat (y OR 0x80) = unat y + 0x80"
    "(y OR 0x80) AND 0x20 \<noteq> 0 \<longleftrightarrow> 32 \<le> unat y" "(y OR 0x80) AND 0x30 \<noteq> 0 \<longleftrightarrow> 16 \<le> unat y"
proof -
  let ?P = "\<lambda>m. let x = of_nat m :: u8 in is_cont (x OR 0x80) \<and> (x OR 0x80) AND 0x3f = x \<and>
    unat (x OR 0x80) = m + 0x80 \<and> ((x OR 0x80) AND 0x20 \<noteq> 0 \<longleftrightarrow> 32 \<le> m) \<and>
    ((x OR 0x80) AND 0x30 \<noteq> 0 \<longleftrightarrow> 16 \<le> m)"
  have "list_all ?P [0..<64]" by (simp add: upt_rec)
  from byte_cases [OF this assms]
  show "is_cont (y OR 0x80)" "(y OR 0x80) AND 0x3f = y" "unat (y OR 0x80) = unat y + 0x80"
    "(y OR 0x80) AND 0x20 \<noteq> 0 \<longleftrightarrow> 32 \<le> unat y" "(y OR 0x80) AND 0x30 \<noteq> 0 \<longleftrightarrow> 16 \<le> unat y"
    by (simp_all add: Let_def)
qed

lemma lead2_byte:
  assumes "unat (y :: u8) < 32"
  shows "(y OR 0xc0) AND 0x1f = y" "unat (y OR 0xc0) = unat y + 0xc0"
    "(y OR 0xc0) AND 0x1e \<noteq> 0 \<longleftrightarrow> 2 \<le> unat y" "(y OR 0xc0) AND 0xe0 = 0xc0"
proof -
  let ?P = "\<lambda>m. let x = of_nat m :: u8 in (x OR 0xc0) AND 0x1f = x \<and> unat (x OR 0xc0) = m + 0xc0 \<and>
    ((x OR 0xc0) AND 0x1e \<noteq> 0 \<longleftrightarrow> 2 \<le> m) \<and> (x OR 0xc0) AND 0xe0 = 0xc0"
  have "list_all ?P [0..<32]" by (simp add: upt_rec)
  from byte_cases [OF this assms]
  show "(y OR 0xc0) AND 0x1f = y" "unat (y OR 0xc0) = unat y + 0xc0"
    "(y OR 0xc0) AND 0x1e \<noteq> 0 \<longleftrightarrow> 2 \<le> unat y" "(y OR 0xc0) AND 0xe0 = 0xc0"
    by (simp_all add: Let_def)
qed

lemma lead3_byte:
  assumes "unat (y :: u8) < 16"
  shows "(y OR 0xe0) AND 0x0f = y" "unat (y OR 0xe0) = unat y + 0xe0" "(y OR 0xe0) AND 0xf0 = 0xe0"
proof -
  let ?P = "\<lambda>m. let x = of_nat m :: u8 in (x OR 0xe0) AND 0x0f = x \<and> unat (x OR 0xe0) = m + 0xe0 \<and>
    (x OR 0xe0) AND 0xf0 = 0xe0"
  have "list_all ?P [0..<16]" by (simp add: upt_rec)
  from byte_cases [OF this assms]
  show "(y OR 0xe0) AND 0x0f = y" "unat (y OR 0xe0) = unat y + 0xe0" "(y OR 0xe0) AND 0xf0 = 0xe0"
    by (simp_all add: Let_def)
qed

lemma lead4_byte:
  assumes "unat (y :: u8) < 8"
  shows "(y OR 0xf0) AND 0x07 = y" "unat (y OR 0xf0) = unat y + 0xf0" "(y OR 0xf0) AND 0xf8 = 0xf0"
proof -
  let ?P = "\<lambda>m. let x = of_nat m :: u8 in (x OR 0xf0) AND 0x07 = x \<and> unat (x OR 0xf0) = m + 0xf0 \<and>
    (x OR 0xf0) AND 0xf8 = 0xf0"
  have "list_all ?P [0..<8]" by (simp add: upt_rec)
  from byte_cases [OF this assms]
  show "(y OR 0xf0) AND 0x07 = y" "unat (y OR 0xf0) = unat y + 0xf0" "(y OR 0xf0) AND 0xf8 = 0xf0"
    by (simp_all add: Let_def)
qed

lemma unat_field:
  fixes c :: u32
  assumes "n \<le> 8"
  shows "unat (ucast (drop_bit k c AND mask n) :: u8) = (unat c div 2 ^ k) mod 2 ^ n"
proof -
  let ?t = "take_bit n (drop_bit k c)"
  have c: "take_bit 32 (unat c) = unat c" using unsigned_less [of c, where 'a = nat] by (simp add: take_bit_nat_eq_self)
  have t: "unat ?t = (unat c div 2 ^ k) mod 2 ^ n"
    unfolding unsigned_take_bit_eq unsigned_drop_bit_eq
    by (simp add: c) (simp add: take_bit_eq_mod drop_bit_eq_div)
  have "(unat c div 2 ^ k) mod 2 ^ n < (2 :: nat) ^ n" by simp
  also have "\<dots> \<le> 2 ^ 8" using assms by (intro power_increasing) auto
  finally have "take_bit 8 (unat ?t) = unat ?t" unfolding t by (simp add: take_bit_nat_eq_self)
  with t show ?thesis by (simp add: unsigned_ucast_eq take_bit_eq_mask [symmetric])
qed

lemma unat_fields:
  fixes c :: u32
  shows "unat (ucast (c AND 0x3f) :: u8) = unat c mod 64"
    "unat (ucast (drop_bit k c AND 0x3f) :: u8) = (unat c div 2 ^ k) mod 64"
    "unat (ucast (drop_bit k c AND 0x1f) :: u8) = (unat c div 2 ^ k) mod 32"
    "unat (ucast (drop_bit k c AND 0xf) :: u8) = (unat c div 2 ^ k) mod 16"
  using unat_field [of 6 0 c] unat_field [of 6 k c] unat_field [of 5 k c] unat_field [of 4 k c]
  by (simp_all add: mask_eq_exp_minus_1)

lemma unat_shift_add:
  "unat (push_bit k (ucast (y :: u8)) :: u32) = unat y * 2 ^ k" if "k \<le> 24"
proof -
  have y: "unat y < 2 ^ 8" using unsigned_less [of y, where 'a = nat] by simp
  have "unat y * 2 ^ k < 2 ^ 8 * 2 ^ k" using y by (intro mult_strict_right_mono) auto
  also have "\<dots> \<le> 2 ^ 8 * 2 ^ 24" using that by (intro mult_left_mono power_increasing) auto
  finally have "unat y * 2 ^ k < 2 ^ 32" by simp
  moreover have "unat (ucast y :: u32) = unat y"
    using y by (simp add: unsigned_ucast_eq take_bit_nat_eq_self)
  moreover have "unat (push_bit k (ucast y :: u32)) = take_bit 32 (push_bit k (unat (ucast y :: u32)))"
    by (simp add: unsigned_push_bit_eq)
  ultimately show ?thesis by (simp add: push_bit_nat_def take_bit_nat_eq_self)
qed


lemma unat_ucast8 [simp]: "unat (ucast (y :: u8) :: u32) = unat y"
  using unsigned_less [of y, where 'a = nat] by (simp add: unsigned_ucast_eq take_bit_nat_eq_self)

lemma unat_sum:
  "unat a + unat b < 2 ^ 32 \<Longrightarrow> unat (a + b :: u32) = unat a + unat b"
  by (simp add: unat_word_ariths)

lemma unat_sum_eq:
  "unat a = m \<Longrightarrow> unat b = n \<Longrightarrow> m + n < 2 ^ 32 \<Longrightarrow> unat (a + b :: u32) = m + n"
  by (simp add: unat_sum)

lemma join2: "(n div 64) * 64 + n mod 64 = (n :: nat)"
  by simp

lemma join3: "n div 4096 * 4096 + (n div 64) mod 64 * 64 + n mod 64 = (n :: nat)"
proof -
  have "n div 64 div 64 * 64 + n div 64 mod 64 = n div 64" by (rule join2)
  moreover have "n div 64 div 64 = n div 4096" by (simp add: div_mult2_eq [symmetric])
  ultimately show ?thesis using join2 [of n] by linarith
qed

lemma join4: "n div 262144 * 262144 + (n div 4096) mod 64 * 4096 + (n div 64) mod 64 * 64 + n mod 64 = (n :: nat)"
proof -
  have "n div 4096 div 64 * 64 + n div 4096 mod 64 = n div 4096" by (rule join2)
  moreover have "n div 4096 div 64 = n div 262144" by (simp add: div_mult2_eq [symmetric])
  ultimately show ?thesis using join3 [of n] by linarith
qed

lemma unat_drop [simp]: "unat (drop_bit k (c :: u32)) = unat c div 2 ^ k"
  by (simp add: unat_drop_bit_eq drop_bit_nat_def)

text \<open>The four shapes of an encoded code point, with the values of their bytes.\<close>

lemma UTF32ToUTF8_cases:
  assumes "unat c \<le> 0x10ffff"
  obtains
    (one) "unat c < 0x80" "UTF32ToUTF8 c None = [ucast c]"
  | (two) a b where "0x80 \<le> unat c" "unat c < 0x800"
      "UTF32ToUTF8 c None = [a OR 0xc0, b OR 0x80]"
      "2 \<le> unat a" "unat a < 32" "unat b < 64" "unat c = unat a * 64 + unat b"
  | (three) a b d where "0x800 \<le> unat c" "unat c < 0x10000"
      "UTF32ToUTF8 c None = [a OR 0xe0, b OR 0x80, d OR 0x80]"
      "unat a < 16" "unat b < 64" "unat d < 64" "unat c = unat a * 4096 + unat b * 64 + unat d"
  | (four) a b d e where "0x10000 \<le> unat c"
      "UTF32ToUTF8 c None = [a OR 0xf0, b OR 0x80, d OR 0x80, e OR 0x80]"
      "unat a < 5" "unat b < 64" "unat d < 64" "unat e < 64"
      "unat c = unat a * 262144 + unat b * 4096 + unat d * 64 + unat e"
proof -
  let ?n = "unat c"
  have le: "c \<le> w \<longleftrightarrow> ?n \<le> unat w" for w by (simp add: word_le_nat_alt)
  consider "?n < 0x80" | "0x80 \<le> ?n" "?n < 0x800" | "0x800 \<le> ?n" "?n < 0x10000" | "0x10000 \<le> ?n"
    by linarith
  then show thesis
  proof cases
    case 1
    then show thesis by (intro one) (auto simp: UTF32ToUTF8_def le Let_def)
  next
    case 2
    have "?n div 64 mod 32 = ?n div 64" using 2 by (intro mod_less) simp
    then show thesis using 2 join2 [of ?n]
      by (intro two [of "ucast (drop_bit 6 c AND 0x1f)" "ucast (c AND 0x3f)"])
        (auto simp: UTF32ToUTF8_def le Let_def unat_fields)
  next
    case 3
    have "?n div 4096 mod 16 = ?n div 4096" using 3 by (intro mod_less) simp
    then show thesis using 3 join3 [of ?n]
      by (intro three [of "ucast (drop_bit 12 c AND 0xf)" "ucast (drop_bit 6 c AND 0x3f)" "ucast (c AND 0x3f)"])
        (auto simp: UTF32ToUTF8_def le Let_def unat_fields)
  next
    case 4
    have q: "?n div 262144 < 5" using assms by simp
    have "unat (ucast (drop_bit 18 c) :: u8) = ?n div 262144"
      using q by (simp add: unsigned_ucast_eq take_bit_nat_eq_self)
    then show thesis using 4 assms join4 [of ?n] q
      by (intro four [of "ucast (drop_bit 18 c)" "ucast (drop_bit 12 c AND 0x3f)"
            "ucast (drop_bit 6 c AND 0x3f)" "ucast (c AND 0x3f)"])
        (auto simp: UTF32ToUTF8_def le Let_def unat_fields)
  qed
qed


lemma UTF8ToUTF32_encoded:
  assumes c: "unat c \<le> 0x10ffff"
  shows "UTF8ToUTF32 (UTF32ToUTF8 c None @ r) = Some (c, length (UTF32ToUTF8 c None))"
proof -
  have le: "v \<le> w \<longleftrightarrow> unat v \<le> unat w" for v w :: u8 by (simp add: word_le_nat_alt)
  show ?thesis
    using c
  proof (cases rule: UTF32ToUTF8_cases)
    case one
    then have "unat (ucast c :: u8) = unat c" by (simp add: unsigned_ucast_eq take_bit_nat_eq_self)
    with one show ?thesis by (simp add: UTF8ToUTF32_def le word_unat_eq_iff)
  next
    case (two a b)
    note f = lead2_byte [OF two(5)] cont_byte [OF two(6)]
    have "unat (push_bit 6 (ucast a) + ucast b :: u32) = unat c"
      using two by (subst unat_sum) (auto simp: unat_shift_add)
    then have "push_bit 6 (ucast a) + ucast b = c" by (simp add: word_unat_eq_iff)
    with two f show ?thesis by (simp add: UTF8ToUTF32_def le)
  next
    case (three a b d)
    note f = lead3_byte [OF three(4)] cont_byte [OF three(5)] cont_byte [OF three(6)]
    have "unat (push_bit 12 (ucast a) + push_bit 6 (ucast b) :: u32) = unat a * 4096 + unat b * 64"
      using three by (subst unat_sum) (auto simp: unat_shift_add)
    then have "unat (push_bit 12 (ucast a) + push_bit 6 (ucast b) + ucast d :: u32) = unat c"
      using three by (subst unat_sum) auto
    then have "push_bit 12 (ucast a) + push_bit 6 (ucast b) + ucast d = c" by (simp add: word_unat_eq_iff)
    moreover have "a \<noteq> 0 \<or> 32 \<le> unat b" using three by auto
    ultimately show ?thesis using three f by (simp add: UTF8ToUTF32_def le)
  next
    case (four a b d e)
    note f = lead4_byte [of a] cont_byte [OF four(4)] cont_byte [OF four(5)] cont_byte [OF four(6)]
    have "unat (push_bit 18 (ucast a) + push_bit 12 (ucast b) :: u32) = unat a * 262144 + unat b * 4096"
      using four by (subst unat_sum) (auto simp: unat_shift_add)
    moreover have "unat (push_bit 6 (ucast d) + ucast e :: u32) = unat d * 64 + unat e"
      using four by (subst unat_sum) (auto simp: unat_shift_add)
    ultimately have "unat (push_bit 18 (ucast a) + push_bit 12 (ucast b) + (push_bit 6 (ucast d) + ucast e) :: u32) = unat c"
      using four by (subst unat_sum) auto
    then have "push_bit 18 (ucast a) + push_bit 12 (ucast b) + (push_bit 6 (ucast d) + ucast e) = c"
      by (simp add: word_unat_eq_iff)
    moreover have "a \<noteq> 0 \<or> 16 \<le> unat b" using four by auto
    ultimately show ?thesis using four f by (simp add: UTF8ToUTF32_def le)
  qed
qed


lemma UTF32ToUTF8_pos: "unat c \<le> 0x10ffff \<Longrightarrow> UTF32ToUTF8 c None \<noteq> []"
  by (cases rule: UTF32ToUTF8_cases) auto

lemma UTF32ToUTF8_cap:
  "UTF32ToUTF8 c (Some n) = (if length (UTF32ToUTF8 c None) \<le> n then UTF32ToUTF8 c None else [])"
  by (simp add: UTF32ToUTF8_def Let_def)

subsection \<open>Strings\<close>

definition scalar :: "u32 \<Rightarrow> bool" where
  "scalar c \<longleftrightarrow> unat c \<le> 0x10ffff \<and> \<not> (0xd800 \<le> unat c \<and> unat c < 0xe000)"

abbreviation utf16 :: "u32 list \<Rightarrow> u16 list" where
  "utf16 cs \<equiv> concat (map UTF32ToUTF16 cs)"

abbreviation utf8 :: "u32 list \<Rightarrow> u8 list" where
  "utf8 cs \<equiv> concat (map (\<lambda>c. UTF32ToUTF8 c None) cs)"

lemma unat_of_nat16: "m < 0x10000 \<Longrightarrow> unat (of_nat m :: u16) = m"
  by (simp add: unat_of_nat)

lemma unat_ucast16: "unat (ucast (w :: u16) :: u32) = unat w"
  using unsigned_less [of w, where 'a = nat] by (simp add: unsigned_ucast_eq take_bit_nat_eq_self)

lemma UTF16ToUTF32_encoded:
  assumes "scalar c"
  shows "UTF16ToUTF32 (UTF32ToUTF16 c @ r) = (c, length (UTF32ToUTF16 c)) \<and> UTF32ToUTF16 c \<noteq> []"
proof (cases "unat c < 0x10000")
  case True
  have u: "unat (of_nat (unat c) :: u16) = unat c" by (rule unat_of_nat16) (use True in simp)
  then have "ucast (of_nat (unat c) :: u16) = c" by (simp only: word_unat_eq_iff unat_ucast16)
  with True assms u show ?thesis
    by (auto simp: UTF16ToUTF32_def UTF32ToUTF16_def IsHighSurrogate_def IsLowSurrogate_def
        scalar_def word_le_nat_alt word_less_nat_alt)
next
  case False
  let ?n = "unat c - 0x10000"
  have "unat c \<le> 0x10ffff" using assms by (simp add: scalar_def)
  then have h: "?n div 0x400 < 0x400" by simp
  have l: "?n mod 0x400 < 0x400" by simp
  let ?u = "of_nat (?n div 0x400) + 0xd800 :: u16" and ?v = "of_nat (?n mod 0x400) + 0xdc00 :: u16"
  note uv = unat_surrogate(1) [OF h] unat_surrogate(2) [OF l]
  have su: "unat (ucast ?u - 0xd800 :: u32) = ?n div 0x400" "unat (ucast ?v - 0xdc00 :: u32) = ?n mod 0x400"
    using uv by (simp_all add: unat_sub word_le_nat_alt unat_ucast16)
  have m: "unat ((ucast ?u - 0xd800) * 0x400 :: u32) = ?n div 0x400 * 0x400"
  proof -
    have "unat (x * 0x400 :: u32) = unat x * 0x400" if "unat x < 0x400" for x
      using that by (simp add: unat_word_ariths)
    from this [of "ucast ?u - 0xd800"] su(1) h show ?thesis by simp
  qed
  have p: "unat (0x10000 + (ucast ?u - 0xd800) * 0x400 :: u32) = 0x10000 + ?n div 0x400 * 0x400"
    by (rule unat_sum_eq [OF _ m]) (use h in auto)
  have "0x10000 + ?n div 0x400 * 0x400 + ?n mod 0x400 < 2 ^ 32" using \<open>unat c \<le> 0x10ffff\<close> by simp
  then have "unat (0x10000 + (ucast ?u - 0xd800) * 0x400 + (ucast ?v - 0xdc00) :: u32)
      = 0x10000 + ?n div 0x400 * 0x400 + ?n mod 0x400"
    by (rule unat_sum_eq [OF p su(2)])
  also have "\<dots> = 0x10000 + ?n" using div_mult_mod_eq [of ?n "0x400"] by linarith
  finally have "0x10000 + (ucast ?u - 0xd800) * 0x400 + (ucast ?v - 0xdc00) = c"
    using False by (simp add: word_unat_eq_iff)
  moreover have "IsHighSurrogate ?u" "IsLowSurrogate ?v"
    using uv h by (auto simp: IsHighSurrogate_def IsLowSurrogate_def word_le_nat_alt word_less_nat_alt)
  ultimately show ?thesis using False assms by (auto simp: UTF16ToUTF32_def UTF32ToUTF16_def scalar_def)
qed

lemma wide_to_utf8:
  "list_all scalar cs \<Longrightarrow> wide_to_mb UTF32ToUTF8 None (utf16 cs) = (length (utf16 cs), utf8 cs)"
proof (induction cs)
  case Nil
  then show ?case by (simp add: wide_to_mb.simps)
next
  case (Cons c cs)
  then have c: "scalar c" "unat c \<le> 0x10ffff" by (auto simp: scalar_def)
  note u = UTF16ToUTF32_encoded [OF c(1), of "utf16 cs"]
  with Cons c UTF32ToUTF8_pos [OF c(2)] show ?case by (subst wide_to_mb.simps) (auto simp: Let_def)
qed

lemma utf8_next_encoded:
  assumes "unat c \<le> 0x10ffff"
  shows "utf8_next (UTF32ToUTF8 c None @ r) = (c, length (UTF32ToUTF8 c None))"
proof -
  obtain b bs where b: "UTF32ToUTF8 c None = b # bs" using UTF32ToUTF8_pos [OF assms] by (cases "UTF32ToUTF8 c None") auto
  show ?thesis
  proof (cases "b = 0")
    case True
    then have "UTF8ToUTF32 (UTF32ToUTF8 c None @ r) = Some (0, 1)" by (simp add: b UTF8ToUTF32_def)
    with UTF8ToUTF32_encoded [OF assms, of r] have "c = 0" "length (UTF32ToUTF8 c None) = 1" by auto
    with True show ?thesis by (simp add: UTF32ToUTF8_def utf8_next_def)
  next
    case False
    with UTF8ToUTF32_encoded [OF assms, of r] show ?thesis by (simp add: b utf8_next_def)
  qed
qed

lemma wide_units_scalar: "unat c \<le> 0x10ffff \<Longrightarrow> length (UTF32ToUTF16 c) \<le> n \<Longrightarrow> wide_units c n = UTF32ToUTF16 c"
  by (auto simp: wide_units_def UTF32ToUTF16_def word_less_nat_alt word_le_nat_alt word_unat_eq_iff
      unsigned_ucast_eq take_bit_nat_eq_self unat_of_nat take_bit_eq_mod split: if_splits)

lemma UTF8ToWideChar_encoded:
  "list_all (\<lambda>c. unat c \<le> 0x10ffff) cs \<Longrightarrow> length (utf16 cs) \<le> n \<Longrightarrow> UTF8ToWideChar (utf8 cs) (Some n) = utf16 cs"
proof (induction cs arbitrary: n)
  case Nil
  then show ?case by (simp add: UTF8ToWideChar.simps)
next
  case (Cons c cs)
  then have c: "unat c \<le> 0x10ffff" "length (UTF32ToUTF16 c) \<le> n" by auto
  have "UTF32ToUTF16 c \<noteq> []" using c(1) by (auto simp: UTF32ToUTF16_def)
  then have n: "n \<noteq> 0" using c(2) by (cases "UTF32ToUTF16 c") auto
  show ?case
    using Cons n UTF32ToUTF8_pos [OF c(1)] utf8_next_encoded [OF c(1)] wide_units_scalar [OF c]
    by (subst UTF8ToWideChar.simps) (auto simp: Let_def)
qed

lemma wide_to_utf8_enough:
  "length (snd (wide_to_mb UTF32ToUTF8 None ws)) \<le> n \<Longrightarrow>
    wide_to_mb UTF32ToUTF8 (Some n) ws = wide_to_mb UTF32ToUTF8 None ws"
proof (induction "UTF32ToUTF8" "None :: nat option" ws arbitrary: n rule: wide_to_mb.induct)
  case (1 ws)
  show ?case
  proof (cases "ws = []")
    case True
    then show ?thesis by (simp add: wide_to_mb.simps)
  next
    case False
    obtain c k where ck: "UTF16ToUTF32 ws = (c, k)" by fastforce
    let ?mb = "if k = 0 \<or> UTF32ToUTF8 c None = [] then [0x3f] else UTF32ToUTF8 c None"
    let ?k = "if k = 0 then 1 else k"
    obtain m out where out: "wide_to_mb UTF32ToUTF8 None (drop ?k ws) = (m, out)" by fastforce
    have none: "wide_to_mb UTF32ToUTF8 None ws = (?k + m, ?mb @ out)"
      using False ck out by (subst wide_to_mb.simps) (auto simp: Let_def split: if_splits)
    then have n: "length ?mb + length out \<le> n" using 1(2) by (auto split: if_splits)
    have "?mb \<noteq> []" by simp
    then have n0: "n \<noteq> 0" using n by (cases ?mb) auto
    have ih: "wide_to_mb UTF32ToUTF8 (Some (n - length ?mb)) (drop ?k ws) = (m, out)"
      using 1(1) [of "(c, k)" c k _ ?mb ?k "n - length ?mb"] False ck out n
      by (auto split: if_splits)
    have mb: "UTF32ToUTF8 c (Some n) = UTF32ToUTF8 c None" if "k \<noteq> 0"
      using n that by (auto simp: UTF32ToUTF8_cap split: if_splits)
    have "wide_to_mb UTF32ToUTF8 (Some n) ws = (?k + m, ?mb @ out)"
      using False ck ih n0 mb by (subst wide_to_mb.simps) (auto simp: Let_def split: if_splits)
    with none show ?thesis by simp
  qed
qed

lemma wide_to_utf8_fits: "length (snd (wide_to_mb UTF32ToUTF8 (Some n) ws)) \<le> n"
proof (induction "length ws" arbitrary: n ws rule: less_induct)
  case less
  show ?case
  proof (cases "n = 0 \<or> ws = []")
    case True
    then show ?thesis by (auto simp: wide_to_mb.simps)
  next
    case False
    obtain c k where ck: "UTF16ToUTF32 ws = (c, k)" by fastforce
    let ?mb = "if k = 0 \<or> UTF32ToUTF8 c (Some n) = [] then [0x3f] else UTF32ToUTF8 c (Some n)"
    let ?k = "if k = 0 then 1 else k"
    have "snd (wide_to_mb UTF32ToUTF8 (Some n) ws) =
        ?mb @ snd (wide_to_mb UTF32ToUTF8 (Some (n - length ?mb)) (drop ?k ws))"
      using False ck by (subst wide_to_mb.simps) (auto simp: Let_def split_beta split: if_splits)
    moreover have "length ?mb \<le> n" using False by (auto simp: UTF32ToUTF8_cap split: if_splits)
    moreover have "length (drop ?k ws) < length ws" using False by (cases ws) auto
    ultimately show ?thesis using less [of "drop ?k ws" "n - length ?mb"] by simp
  qed
qed


subsection \<open>Shift_JIS and JIS\<close>

lemma sdiv_pos: "0 \<le> a \<Longrightarrow> 0 < b \<Longrightarrow> a sdiv b = a div (b :: int)" and
  smod_pos: "0 \<le> a \<Longrightarrow> 0 < b \<Longrightarrow> a smod b = a mod (b :: int)"
  by (auto simp: signed_divide_int_def signed_modulo_int_def sgn_if)

text \<open>The codes of the JIS plane: rows and cells from 0x21 to 0x7e.\<close>

definition jis_code :: "int \<Rightarrow> int \<Rightarrow> u16" where
  "jis_code i j = word_of_int (0x2121 + i * 0x100 + j)"

lemma uint_woi16: "0 \<le> k \<Longrightarrow> k < 0x10000 \<Longrightarrow> uint (word_of_int k :: u16) = k"
  by (simp add: uint_word_of_int take_bit_int_eq_self)

lemma uint_jis_code:
  "0 \<le> i \<Longrightarrow> i < 94 \<Longrightarrow> 0 \<le> j \<Longrightarrow> j < 94 \<Longrightarrow> uint (jis_code i j) = 0x2121 + i * 0x100 + j"
  unfolding jis_code_def by (rule uint_woi16) auto

lemma split_row:
  assumes "0 \<le> y" "y < (n :: int)"
  shows "(a * n + y) div n = a" "(a * n + y) mod n = y"
  using assms by (simp_all add: add.commute [of "a * n"] div_pos_pos_trivial)

lemma JIS2SJIS_code:
  assumes "0 \<le> i" "i < 94" "0 \<le> j" "j < 94"
  shows "uint (CodeConvJIS2SJIS (jis_code i j)) =
    (if i div 2 \<le> 0x1e then 0x8100 else 0xc100) + i div 2 * 0x100 +
    (if i mod 2 = 1 then j + 0x9f else if j \<le> 0x3e then j + 0x40 else j + 0x41)"
proof -
  let ?d = "i * 0x100 + j"
  have b: "0 \<le> i div 2" "i div 2 < 47" "0 \<le> i mod 2" "i mod 2 \<le> 1" using assms by auto
  have y: "0 \<le> i mod 2 * 0x100 + j" "i mod 2 * 0x100 + j < 0x200" using b assms by auto
  have e: "?d = i div 2 * 0x200 + (i mod 2 * 0x100 + j)" using div_mult_mod_eq [of i 2] by linarith
  have d: "?d div 0x200 = i div 2" "?d mod 0x200 = (i mod 2) * 0x100 + j"
    unfolding e by (rule split_row [OF y])+
  have k: "uint (jis_code i j) - 0x2121 = ?d" using uint_jis_code [OF assms] by simp
  define S where "S = (if i div 2 \<le> 0x1e then 0x8100 else 0xc100) + i div 2 * 0x100"
  have S: "0x8100 \<le> S" "S < 0xf000" using b by (auto simp: S_def)
  have n: "0 \<le> ?d" "(?d sdiv 0x200) mod 0x10000 = i div 2"
    "(?d smod 0x200) mod 0x10000 = (i mod 2) * 0x100 + j"
    using assms b d by (auto simp: sdiv_pos smod_pos)
  have e: "CodeConvJIS2SJIS (jis_code i j) = word_of_int
      (let n2 = (i mod 2) * 0x100 + j in
        if n2 \<le> 0x3e then S + n2 + 0x40 else if 0x3f \<le> n2 \<and> n2 \<le> 0x5d then S + n2 + 0x41
        else S + n2 - 0x61)"
  proof -
    have "((if i div 2 \<le> 0x1e then 0x8100 else 0xC100) + i div 2 * 256) mod 0x10000 = S"
      using S by (simp add: S_def)
    then show ?thesis by (simp only: CodeConvJIS2SJIS_def k n Let_def)
  qed
  have "(let n2 = (i mod 2) * 0x100 + j in
        if n2 \<le> 0x3e then S + n2 + 0x40 else if 0x3f \<le> n2 \<and> n2 \<le> 0x5d then S + n2 + 0x41
        else S + n2 - 0x61) = S + (if i mod 2 = 1 then j + 0x9f else if j \<le> 0x3e then j + 0x40 else j + 0x41)"
    (is "?l = ?r") using assms b by (cases "i mod 2 = 1") (auto simp: Let_def)
  moreover have "0 \<le> ?r" "?r < 0x10000" using assms S by auto
  ultimately have "uint (CodeConvJIS2SJIS (jis_code i j)) = ?r" unfolding e by (simp only: uint_woi16)
  then show ?thesis by (simp add: S_def)
qed

lemma SJIS2JIS_eval:
  assumes K: "uint K = H * 0x100 + B" "0x40 \<le> B" "B < 0x100"
    and x: "x0 = (if B \<le> 0x7f then 0x8140 else if B \<le> 0x9e then 0x8180 else 0x819f)"
      "y0 = (if B \<le> 0x7f then 0x2121 else if B \<le> 0x9e then 0x2160 else 0x2221)"
      "x' = (if H \<ge> 0xe0 then x0 + 0x5f00 else x0)" "y' = (if H \<ge> 0xe0 then y0 + 0x3e00 else y0)"
    and X: "H * 0x100 + B - x' = X1 * 0x100 + X2" "0 \<le> X1" "X1 < 0x100" "0 \<le> X2" "X2 < 0x100"
  shows "CodeConvSJIS2JIS K = word_of_int (y' + X1 * 0x200 + X2)"
proof -
  have HB: "(H * 0x100 + B) div 0x100 = H" "(H * 0x100 + B) mod 0x100 = B" using split_row [of B "0x100" H] K by auto
  have X12: "(X1 * 0x100 + X2) div 0x100 = X1" "(X1 * 0x100 + X2) mod 0x100 = X2" using split_row [of X2 "0x100" X1] X by auto
  have "((H * 0x100 + B - x') sdiv 0x100) mod 0x10000 = X1" "((H * 0x100 + B - x') smod 0x100) mod 0x10000 = X2"
    unfolding X(1) using X by (simp_all add: sdiv_pos smod_pos X12)
  moreover have "x' mod 0x10000 = x'" "y' mod 0x10000 = y'" using x by auto
  moreover have "(if 0x40 \<le> B \<and> B \<le> 0x7f then (0x8140, 0x2121)
      else if 0x80 \<le> B \<and> B \<le> 0x9e then (0x8180, 0x2160) else (0x819f, 0x2221)) = (x0, y0)"
    using K x by auto
  moreover have "(if 0xe0 \<le> H then ((x0 + 0x5f00) mod 0x10000, (y0 + 0x3e00) mod 0x10000) else (x0, y0)) = (x', y')"
    using x by auto
  ultimately show ?thesis unfolding CodeConvSJIS2JIS_def K(1) HB Let_def by simp
qed

lemma SJIS2JIS2SJIS:
  assumes "0 \<le> i" "i < 94" "0 \<le> j" "j < 94"
  shows "CodeConvSJIS2JIS (CodeConvJIS2SJIS (jis_code i j)) = jis_code i j"
proof -
  define a where "a = i div 2"
  define b where "b = (if i mod 2 = 1 then j + 0x9f else if j \<le> 0x3e then j + 0x40 else j + 0x41)"
  define big where "big \<longleftrightarrow> \<not> a \<le> 0x1e"
  define y where "y = (if b \<le> 0x7f then 0x2121 else if b \<le> 0x9e then 0x2160 else 0x2221 :: int) + (if big then 0x3e00 else 0)"
  define X where "X = (if b \<le> 0x7f then b - 0x40 else if b \<le> 0x9e then b - 0x80 else b - 0x9f)"
  have s: "uint (CodeConvJIS2SJIS (jis_code i j)) = ((if big then 0xc1 else 0x81) + a) * 0x100 + b"
    using JIS2SJIS_code [OF assms] by (simp add: a_def b_def big_def)
  have i: "i = 2 * a + i mod 2" "0 \<le> a" "a < 47" "i mod 2 = 0 \<or> i mod 2 = 1" using assms by (auto simp: a_def)
  have bX: "0x40 \<le> b" "b < 0x100" "0 \<le> X" "X < 0x100" using assms by (auto simp: b_def X_def)
  have "CodeConvSJIS2JIS (CodeConvJIS2SJIS (jis_code i j)) =
      word_of_int (y + (if big then a - 0x1f else a) * 0x200 + X)"
    by (rule SJIS2JIS_eval [OF s bX(1,2) refl refl refl])
      (use bX i in \<open>auto simp: y_def X_def big_def split: if_splits\<close>)
  also have "y + (if big then a - 0x1f else a) * 0x200 + X = 0x2121 + i * 0x100 + j"
  proof -
    have "y + X = 0x2121 + i mod 2 * 0x100 + j + (if big then 0x3e00 else 0)"
      using i(4) assms by (auto simp: y_def X_def b_def split: if_splits)
    then show ?thesis using i(1) by (auto split: if_splits)
  qed
  finally show ?thesis by (simp only: jis_code_def)
qed


subsection \<open>Round trips\<close>

text \<open>
  C20. A text of Unicode scalar values survives the way from UTF-16 to UTF-8, with the buffer
  sized by the first call that only counts, and back.
\<close>

theorem utf8_roundtrip:
  assumes "list_all scalar cs" "ws = concat (map UTF32ToUTF16 cs)"
  shows "UTF8ToWideChar (snd (WideCharToUTF8 ws (Some (length (snd (WideCharToUTF8 ws None))))))
    (Some (length ws)) = ws"
proof -
  have "list_all (\<lambda>c. unat c \<le> 0x10ffff) cs" using assms(1) by (auto simp: list_all_iff scalar_def)
  then show ?thesis
    unfolding WideCharToUTF8_def assms(2)
    by (simp add: wide_to_utf8_enough wide_to_utf8 [OF assms(1)] UTF8ToWideChar_encoded)
qed

theorem utf8_roundtrip_witness:
  "let ws = [0x3042, 0xd83d, 0xde00, 0x41] in
     UTF8ToWideChar (snd (WideCharToUTF8 ws (Some (length (snd (WideCharToUTF8 ws None))))))
       (Some (length ws)) = ws"
  unfolding Let_def
  by (rule utf8_roundtrip [of "[0x3042, 0x1f600, 0x41]"]) (simp_all add: scalar_def UTF32ToUTF16_def)

text \<open>
  The conversion to UTF-8 never writes more bytes than the buffer holds, and the length
  that the call with a null pointer reports is enough for any text: with it nothing is cut.
\<close>

theorem WideCharToUTF8_fits:
  "length (snd (WideCharToUTF8 ws (Some n))) \<le> n \<and>
   WideCharToUTF8 ws (Some (length (snd (WideCharToUTF8 ws None)))) = WideCharToUTF8 ws None"
  by (simp add: WideCharToUTF8_def wide_to_utf8_fits wide_to_utf8_enough)

text \<open>
  C21. From JIS to Shift_JIS and back is the identity on the 94 by 94 codes of the JIS plane.
\<close>

theorem sjis_roundtrip:
  assumes "0 \<le> i" "i < 94" "0 \<le> j" "j < 94"
  shows "CodeConvSJIS2JIS (CodeConvJIS2SJIS (jis_code i j)) = jis_code i j"
  using assms by (rule SJIS2JIS2SJIS)

theorem sjis_roundtrip_witness:
  "CodeConvSJIS2JIS (CodeConvJIS2SJIS (jis_code 3 1)) = 0x2422"
  using sjis_roundtrip [of 3 1] by (simp add: jis_code_def)

lemma UTF8ToUTF32_lenient:
  "UTF8ToUTF32 [0xed, 0xa0, 0x80] = Some (0xd800, 3) \<and> UTF8ToUTF32 [0xf7, 0xbf, 0xbf, 0xbf] = Some (0x1fffff, 4)"
  by (simp add: UTF8ToUTF32_def)

end
