(* ===== verification/Charset.thy ===== *)
theory Charset
  imports CodeConv
begin

section \<open>From received bytes to characters and controls (teraterm/teraterm/charset.cpp)\<close>

text \<open>
  The layer that decodes the received bytes in the character set of the settings and calls
  back for each character (\<open>PutU32\<close>) and each control byte (\<open>ParseControl\<close>). The callbacks
  may change the state of the layer, as the escape sequences of ISO 2022 do, so a step works
  on the pair of \<open>CharSetData\<close> and the client's data. Subscripts are checked: \<open>None\<close> is an
  access outside an array, in this layer or in a callback.
\<close>

subsection \<open>State\<close>

datatype CharSetCS = IdASCII | IdKatakana | IdKanji | IdSpecial

datatype CharSet2022Shift = CHARSET_LS0 | CHARSET_LS1 | CHARSET_LS2 | CHARSET_LS3
  | CHARSET_LS1R | CHARSET_LS2R | CHARSET_LS3R | CHARSET_SS2 | CHARSET_SS3

record CharSetData =
  Glr :: "int list"
  Gn :: "CharSetCS list"
  GLtmp :: int
  SSflag :: bool
  replacement_char :: u32
  buf :: "u8 list"
  count :: int
  Fallbacked :: bool
  KanjiIn :: bool
  Kanji :: u16
  EUCkanaIn :: bool
  EUCsupIn :: bool
  EUCcount :: int
  ConvJIS :: bool
  DebugFlag :: int

text \<open>
  The callbacks, and the functions of vtterm.c that the debug output calls by name, on the
  client's data.
\<close>

record 'c charset_op =
  PutU32 :: "u32 \<Rightarrow> CharSetData \<times> 'c \<Rightarrow> (CharSetData \<times> 'c) option"
  ParseControl :: "u8 \<Rightarrow> CharSetData \<times> 'c \<Rightarrow> (CharSetData \<times> 'c) option"
  TermGetInsertMode :: "'c \<Rightarrow> bool"
  TermSetInsertMode :: "bool \<Rightarrow> 'c \<Rightarrow> 'c"
  TermGetAutoWrapMode :: "'c \<Rightarrow> bool"
  TermSetAutoWrapMode :: "bool \<Rightarrow> 'c \<Rightarrow> 'c"
  TermGetAttr :: "'c \<Rightarrow> TCharAttr"
  TermSetAttr :: "TCharAttr \<Rightarrow> 'c \<Rightarrow> 'c"

definition TF_FIXEDJIS :: u32 where "TF_FIXEDJIS = 1"
definition TF_CTRLINKANJI :: u32 where "TF_CTRLINKANJI = 8"
definition ISO2022_SS2 :: u32 where "ISO2022_SS2 = 0x100"
definition ISO2022_SS3 :: u32 where "ISO2022_SS3 = 0x200"

definition LangIsEnglish :: "id_kanji \<Rightarrow> bool" where
  "LangIsEnglish k = (case k of IdISO8859 n \<Rightarrow> True | _ \<Rightarrow> False)"

definition LangIsJapanese :: "id_kanji \<Rightarrow> bool" where
  "LangIsJapanese k \<longleftrightarrow> k \<in> {IdSJIS, IdEUC, IdJIS}"

definition IsC0 :: "u32 \<Rightarrow> bool" where "IsC0 b \<longleftrightarrow> b \<le> 0x1f"
definition IsC1 :: "u32 \<Rightarrow> bool" where "IsC1 b \<longleftrightarrow> 0x80 \<le> b \<and> b \<le> 0x9f"

definition CharSetInit2 :: "tset \<Rightarrow> CharSetData \<Rightarrow> CharSetData" where
  "CharSetInit2 t w =
     (if LangIsJapanese (KanjiCode t)
      then w\<lparr>Gn := [IdASCII, IdKatakana, IdKatakana, IdKanji],
             Glr := [0, if KanjiCode t = IdJIS \<and> JIS7Katakana t = 0 then 2 else 3]\<rparr>
      else w\<lparr>Gn := [IdASCII, IdSpecial, IdASCII, IdASCII], Glr := [0, 0]\<rparr>)"

text \<open>\<open>calloc\<close> clears the rest.\<close>

definition CharSetInit :: "tset \<Rightarrow> CharSetData" where
  "CharSetInit t = CharSetInit2 t
     \<lparr>Glr = [0, 0], Gn = replicate 4 IdASCII, GLtmp = 0, SSflag = False,
      replacement_char = 0xfffd, buf = replicate 4 0, count = 0, Fallbacked = False,
      KanjiIn = False, Kanji = 0, EUCkanaIn = False, EUCsupIn = False, EUCcount = 0,
      ConvJIS = False, DebugFlag = 0\<rparr>"

text \<open>The sets invoked into GL, GR and the set of a single shift.\<close>

definition GL :: "CharSetData \<Rightarrow> CharSetCS option" where
  "GL w = do { i \<leftarrow> rd (Glr w) 0; rd (Gn w) i }"

definition GR :: "CharSetData \<Rightarrow> CharSetCS option" where
  "GR w = do { i \<leftarrow> rd (Glr w) 1; rd (Gn w) i }"

definition GT :: "CharSetData \<Rightarrow> CharSetCS option" where
  "GT w = rd (Gn w) (GLtmp w)"

subsection \<open>Designation and invocation\<close>

definition CharSet2022Designate :: "int \<Rightarrow> CharSetCS \<Rightarrow> CharSetData \<Rightarrow> CharSetData option" where
  "CharSet2022Designate gn cs w = do { g \<leftarrow> wr (Gn w) gn cs; Some (w\<lparr>Gn := g\<rparr>) }"

definition set_glr :: "int \<Rightarrow> int \<Rightarrow> CharSetData \<Rightarrow> CharSetData option" where
  "set_glr i g w = do { l \<leftarrow> wr (Glr w) i g; Some (w\<lparr>Glr := l\<rparr>) }"

definition CharSet2022Invoke :: "CharSet2022Shift \<Rightarrow> CharSetData \<Rightarrow> CharSetData option" where
  "CharSet2022Invoke shift w =
     (case shift of
        CHARSET_LS0 \<Rightarrow> set_glr 0 0 w
      | CHARSET_LS1 \<Rightarrow> set_glr 0 1 w
      | CHARSET_LS2 \<Rightarrow> set_glr 0 2 w
      | CHARSET_LS3 \<Rightarrow> set_glr 0 3 w
      | CHARSET_LS1R \<Rightarrow> set_glr 1 1 w
      | CHARSET_LS2R \<Rightarrow> set_glr 1 2 w
      | CHARSET_LS3R \<Rightarrow> set_glr 1 3 w
      | CHARSET_SS2 \<Rightarrow> Some (w\<lparr>GLtmp := 2, SSflag := True\<rparr>)
      | CHARSET_SS3 \<Rightarrow> Some (w\<lparr>GLtmp := 3, SSflag := True\<rparr>))"

definition CharSetIsSpecial :: "u8 \<Rightarrow> CharSetData \<Rightarrow> bool option" where
  "CharSetIsSpecial b w =
     (if 0x5F \<le> b \<and> b < 0x7f
      then do { g \<leftarrow> (if SSflag w then GT w else GL w); Some (g = IdSpecial) }
      else if 0xDF \<le> b \<and> b < 0xff
      then do { g \<leftarrow> (if SSflag w then GT w else GR w); Some (g = IdSpecial) }
      else Some False)"

type_synonym CharSetState = "int list \<times> CharSetCS list"

definition CharSetSaveState :: "CharSetData \<Rightarrow> CharSetState" where
  "CharSetSaveState w = (take 2 (Glr w), take 4 (Gn w))"

definition CharSetLoadState :: "CharSetState \<Rightarrow> CharSetData \<Rightarrow> CharSetData" where
  "CharSetLoadState st w = w\<lparr>Glr := fst st, Gn := snd st\<rparr>"

definition CharSetFallbackFinish :: "CharSetData \<Rightarrow> CharSetData" where
  "CharSetFallbackFinish w = w\<lparr>Fallbacked := False\<rparr>"

definition CharSetSetDebugMode :: "u8 \<Rightarrow> CharSetData \<Rightarrow> CharSetData" where
  "CharSetSetDebugMode mode w = w\<lparr>DebugFlag := uint mode mod 4\<rparr>"

text \<open>
  The loop over the debug modes: \<open>DebugModes\<close> has a bit for each of the modes 1 to 3; mode 0
  ends it after four rounds at the latest.
\<close>

fun next_debug :: "nat \<Rightarrow> int \<Rightarrow> int \<Rightarrow> int" where
  "next_debug 0 modes f = f"
| "next_debug (Suc n) modes f =
     (let f = (f + 1) mod 4
      in if f \<noteq> 0 \<and> \<not> bit modes (nat (f - 1)) then next_debug n modes f else f)"

definition CharSetSetNextDebugMode :: "int \<Rightarrow> CharSetData \<Rightarrow> CharSetData" where
  "CharSetSetNextDebugMode modes w = w\<lparr>DebugFlag := next_debug 4 modes (DebugFlag w)\<rparr>"

subsection \<open>Japanese double-byte sets\<close>

text \<open>\<open>acp\<close> is the code page of the system, code page 0.\<close>

definition ismbblead :: "int \<Rightarrow> u8 \<Rightarrow> int \<Rightarrow> bool" where
  "ismbblead acp b code_page =
     (let code_page = (if code_page = 0 then acp else code_page) in
      if code_page = 932 then 0x81 \<le> b \<and> b \<le> 0x9f \<or> 0xe0 \<le> b \<and> b \<le> 0xfc
      else if code_page = 949 \<or> code_page = 936 then 0xA1 \<le> b \<and> b \<le> 0xFE
      else if code_page = 950 then 0xA1 \<le> b \<and> b \<le> 0xc6 \<or> 0xc9 \<le> b \<and> b \<le> 0xf9
      else False)"

definition CheckFirstByte :: "int \<Rightarrow> u8 \<Rightarrow> id_kanji \<Rightarrow> bool" where
  "CheckFirstByte acp b kanji_code =
     (case kanji_code of
        IdKoreanCP949 \<Rightarrow> ismbblead acp b 949
      | IdCnGB2312 \<Rightarrow> ismbblead acp b 936
      | IdCnBig5 \<Rightarrow> ismbblead acp b 950
      | _ \<Rightarrow> False)"

definition ismbbleadSJIS :: "u8 \<Rightarrow> bool" where
  "ismbbleadSJIS b \<longleftrightarrow> 0x80 < b \<and> b < 0xa0 \<or> 0xdf < b \<and> b < 0xfd"

definition CheckKanji :: "tset \<Rightarrow> u8 \<Rightarrow> CharSetData \<Rightarrow> (CharSetData \<times> bool) option" where
  "CheckKanji t b w =
     (if \<not> LangIsJapanese (KanjiCode t) \<and> KanjiCode t \<noteq> IdUTF8 then Some (w, False)
      else let w = w\<lparr>ConvJIS := False\<rparr>;
               sjis = KanjiCode t = IdSJIS \<or> FallbackToCP932 t \<and> KanjiCode t = IdUTF8
           in if sjis \<and> ismbbleadSJIS b then Some (w\<lparr>Fallbacked := True\<rparr>, True)
              else if sjis \<and> 0xa1 \<le> b \<and> b \<le> 0xdf then Some (w, False)
              else if 0x21 \<le> b \<and> b \<le> 0x7e
              then do { g \<leftarrow> GL w; Some (w\<lparr>ConvJIS := g = IdKanji\<rparr>, g = IdKanji) }
              else if 0xA1 \<le> b \<and> b \<le> 0xFE
              then do {
                g \<leftarrow> GR w;
                let Check = (if KanjiCode t = IdEUC then True
                  else if KanjiCode t = IdJIS \<and> TermFlag t AND TF_FIXEDJIS \<noteq> 0 \<and> JIS7Katakana t = 0
                  then False else g = IdKanji);
                Some (w\<lparr>ConvJIS := Check\<rparr>, Check)
              }
              else Some (w, False))"

text \<open>The second byte of a double-byte character.\<close>

definition jp_second :: "u8 \<Rightarrow> CharSetData \<Rightarrow> bool" where
  "jp_second b w \<longleftrightarrow> KanjiIn w \<and>
     (\<not> ConvJIS w \<and> 0x3F < b \<and> b < 0xFD \<or>
      ConvJIS w \<and> (0x20 < b \<and> b < 0x7f \<or> 0xa0 < b \<and> b < 0xff))"

definition jp_put_kanji ::
  "code_env \<Rightarrow> 'c charset_op \<Rightarrow> u8 \<Rightarrow> CharSetData \<times> 'c \<Rightarrow> (CharSetData \<times> 'c) option" where
  "jp_put_kanji E op b st =
     do {
       let (w, a) = st;
       let k = Kanji w + ucast b;
       let k = (if ConvJIS w then CodeConvJIS2SJIS (k AND 0x7f7f) else k);
       c \<leftarrow> CP932ToUTF32 E k;
       (w, a) \<leftarrow> PutU32 op c (w\<lparr>Kanji := k\<rparr>, a);
       Some (w\<lparr>KanjiIn := False\<rparr>, a)
     }"

text \<open>The set of a single shift.\<close>

definition jp_single_shift ::
  "'c charset_op \<Rightarrow> u8 \<Rightarrow> CharSetData \<times> 'c \<Rightarrow> (CharSetData \<times> 'c) option" where
  "jp_single_shift op b st =
     do {
       let (w, a) = st;
       g \<leftarrow> GT w;
       if g = IdKanji
       then Some (w\<lparr>Kanji := push_bit 8 (ucast b), KanjiIn := True, SSflag := False\<rparr>, a)
       else do {
         (w, a) \<leftarrow> PutU32 op (ucast (if g = IdKatakana then b OR 0x80 else b)) (w, a);
         Some (w\<lparr>SSflag := False\<rparr>, a)
       }
     }"

definition euc_skip :: "CharSetData \<Rightarrow> CharSetData" where
  "euc_skip w = w\<lparr>EUCcount := EUCcount w - 1, EUCsupIn := EUCcount w - 1 = 0\<rparr>"

definition put_sjis ::
  "code_env \<Rightarrow> 'c charset_op \<Rightarrow> u8 \<Rightarrow> CharSetData \<times> 'c \<Rightarrow> (CharSetData \<times> 'c) option" where
  "put_sjis E op b st = do { c \<leftarrow> CP932ToUTF32 E (ucast b); PutU32 op c st }"

text \<open>A byte that neither completes nor starts a double-byte character.\<close>

definition jp_single ::
  "code_env \<Rightarrow> tset \<Rightarrow> 'c charset_op \<Rightarrow> u8 \<Rightarrow> CharSetData \<times> 'c \<Rightarrow> (CharSetData \<times> 'c) option" where
  "jp_single E t op b st =
     (let (w, a) = st in
      if b \<le> 0x1f then ParseControl op b (w, a)
      else if b = 0x20 then PutU32 op (ucast b) (w, a)
      else if 0x21 \<le> b \<and> b \<le> 0x7E then
        (if EUCsupIn w then Some (euc_skip w, a)
         else do {
           g \<leftarrow> GL w;
           if g = IdKatakana \<or> EUCkanaIn w
           then put_sjis E op (b OR 0x80) (w\<lparr>EUCkanaIn := False\<rparr>, a)
           else PutU32 op (ucast b) (w, a)
         })
      else if b = 0x7f then Some (w, a)
      else if 0x80 \<le> b \<and> b \<le> 0x8D then ParseControl op b (w, a)
      else if b = 0x8E then
        (case KanjiCode t of
           IdEUC \<Rightarrow> Some (if ISO2022Flag t AND ISO2022_SS2 \<noteq> 0 then w\<lparr>EUCkanaIn := True\<rparr> else w, a)
         | IdUTF8 \<Rightarrow> PutU32 op (replacement_char w) (w, a)
         | _ \<Rightarrow> ParseControl op b (w, a))
      else if b = 0x8F then
        (case KanjiCode t of
           IdEUC \<Rightarrow> Some (if ISO2022Flag t AND ISO2022_SS3 \<noteq> 0
                         then w\<lparr>EUCcount := 2, EUCsupIn := True\<rparr> else w, a)
         | IdUTF8 \<Rightarrow> PutU32 op (replacement_char w) (w, a)
         | _ \<Rightarrow> ParseControl op b (w, a))
      else if 0x90 \<le> b \<and> b \<le> 0x9F then ParseControl op b (w, a)
      else if b = 0xA0 then PutU32 op 0x20 (w, a)
      else if 0xA1 \<le> b \<and> b \<le> 0xFE then
        (if EUCsupIn w then Some (euc_skip w, a)
         else do {
           g \<leftarrow> GR w;
           (w, a) \<leftarrow> (if g \<noteq> IdASCII \<or> KanjiCode t = IdEUC \<and> EUCkanaIn w \<or> KanjiCode t = IdSJIS \<or>
               KanjiCode t = IdJIS \<and> JIS7Katakana t = 0 \<and> TermFlag t AND TF_FIXEDJIS \<noteq> 0
             then put_sjis E op b (w, a)
             else PutU32 op (ucast (if g = IdASCII then b AND 0x7f else b)) (w, a));
           Some (w\<lparr>EUCkanaIn := False\<rparr>, a)
         })
      else PutU32 op (ucast b) (w, a))"

definition ParseFirstJP ::
  "code_env \<Rightarrow> tset \<Rightarrow> 'c charset_op \<Rightarrow> u8 \<Rightarrow> CharSetData \<times> 'c \<Rightarrow> (CharSetData \<times> 'c) option" where
  "ParseFirstJP E t op b st =
     (let (w, a) = st in
      if jp_second b w then jp_put_kanji E op b (w, a)
      else
        let w = (if KanjiIn w \<and> TermFlag t AND TF_CTRLINKANJI = 0 then w\<lparr>KanjiIn := False\<rparr> else w)
        in if SSflag w then jp_single_shift op b (w, a)
           else do {
             (w, first) \<leftarrow> (if \<not> EUCsupIn w \<and> \<not> EUCkanaIn w \<and> \<not> KanjiIn w
               then CheckKanji t b w else Some (w, False));
             if first then Some (w\<lparr>Kanji := push_bit 8 (ucast b), KanjiIn := True\<rparr>, a)
             else jp_single E t op b (w, a)
           })"

subsection \<open>Korean and Chinese\<close>

text \<open>What \<open>ParseFirstKR\<close> and \<open>ParseFirstCn\<close> do alike behind the double-byte part.\<close>

definition dbcs_single ::
  "'c charset_op \<Rightarrow> u8 \<Rightarrow> CharSetData \<times> 'c \<Rightarrow> (CharSetData \<times> 'c) option" where
  "dbcs_single op b st =
     (if b \<le> 0x1f then ParseControl op b st
      else if b = 0x20 then PutU32 op (ucast b) st
      else if 0x21 \<le> b \<and> b \<le> 0x7E then PutU32 op (ucast b) st
      else if b = 0x7f then Some st
      else if 0x80 \<le> b \<and> b \<le> 0x9F then ParseControl op b st
      else if b = 0xA0 then PutU32 op 0x20 st
      else if 0xA1 \<le> b \<and> b \<le> 0xFE
      then do { g \<leftarrow> GR (fst st); PutU32 op (ucast (if g = IdASCII then b AND 0x7f else b)) st }
      else PutU32 op (ucast b) st)"

text \<open>The frame of both: \<open>second\<close> are the second bytes, \<open>cp\<close> the code page.\<close>

definition parse_dbcs ::
  "code_env \<Rightarrow> tset \<Rightarrow> (u8 \<Rightarrow> bool) \<Rightarrow> int \<Rightarrow> 'c charset_op \<Rightarrow> u8 \<Rightarrow> CharSetData \<times> 'c
    \<Rightarrow> (CharSetData \<times> 'c) option" where
  "parse_dbcs E t second cp op b st =
     (let (w, a) = st in
      if KanjiIn w \<and> second b then
        do {
          let k = Kanji w + ucast b;
          c \<leftarrow> MBCP_UTF32 E k cp;
          (w, a) \<leftarrow> PutU32 op c (w\<lparr>Kanji := k\<rparr>, a);
          Some (w\<lparr>KanjiIn := False\<rparr>, a)
        }
      else
        let w = (if KanjiIn w \<and> TermFlag t AND TF_CTRLINKANJI = 0 then w\<lparr>KanjiIn := False\<rparr> else w)
        in if \<not> KanjiIn w \<and> CheckFirstByte (GetACP E) b (KanjiCode t)
           then Some (w\<lparr>Kanji := push_bit 8 (ucast b), KanjiIn := True\<rparr>, a)
           else dbcs_single op b (w, a))"

definition ParseFirstKR ::
  "code_env \<Rightarrow> tset \<Rightarrow> 'c charset_op \<Rightarrow> u8 \<Rightarrow> CharSetData \<times> 'c \<Rightarrow> (CharSetData \<times> 'c) option" where
  "ParseFirstKR E t op b st = parse_dbcs E t
     (\<lambda>b. 0x41 \<le> b \<and> b \<le> 0x5A \<or> 0x61 \<le> b \<and> b \<le> 0x7A \<or> 0x81 \<le> b \<and> b \<le> 0xFE) 949 op b st"

definition ParseFirstCn ::
  "code_env \<Rightarrow> tset \<Rightarrow> 'c charset_op \<Rightarrow> u8 \<Rightarrow> CharSetData \<times> 'c \<Rightarrow> (CharSetData \<times> 'c) option" where
  "ParseFirstCn E t op b st = parse_dbcs E t
     (\<lambda>b. 0x40 \<le> b \<and> b \<le> 0x7e \<or> 0xa1 \<le> b \<and> b \<le> 0xFE)
     (if KanjiCode t = IdCnGB2312 then 936 else 950) op b st"

subsection \<open>UTF-8\<close>

text \<open>
  The bytes of a rejected sequence, with \<open>r\<close> for the replacement character. The assertion that
  no control character is among them is checked.
\<close>

fun replace_loop ::
  "u32 \<Rightarrow> 'c charset_op \<Rightarrow> u8 list \<Rightarrow> bool \<Rightarrow> CharSetData \<times> 'c \<Rightarrow> (CharSetData \<times> 'c) option" where
  "replace_loop r op [] fallback st = Some st"
| "replace_loop r op (c # cs) fallback st =
     (if IsC0 (ucast c) then None
      else do {
        st \<leftarrow> PutU32 op (if fallback \<or> c < 0x80 then ucast c else r) st;
        replace_loop r op cs fallback st
      })"

definition PutReplacementChr ::
  "'c charset_op \<Rightarrow> u8 list \<Rightarrow> bool \<Rightarrow> CharSetData \<times> 'c \<Rightarrow> (CharSetData \<times> 'c) option" where
  "PutReplacementChr op cs fallback st = replace_loop (replacement_char (fst st)) op cs fallback st"

text \<open>The first byte of a character, where \<open>recheck\<close> arrives with \<open>count\<close> 0.\<close>

definition utf8_first ::
  "tset \<Rightarrow> 'c charset_op \<Rightarrow> u8 \<Rightarrow> CharSetData \<times> 'c \<Rightarrow> (CharSetData \<times> 'c) option" where
  "utf8_first t op b st =
     (let (w, a) = st in
      if IsC0 (ucast b) then ParseControl op b (w, a)
      else if b \<le> 0x7f then PutU32 op (ucast b) (w, a)
      else if 0xc2 \<le> b \<and> b \<le> 0xf4 then do {
        bs \<leftarrow> wr (buf w) (count w) b;
        Some (w\<lparr>buf := bs, count := count w + 1\<rparr>, a)
      }
      else if FallbackToCP932 t \<and> LangIsJapanese (KanjiCode t) \<and> ismbbleadSJIS b
      then Some (w\<lparr>Fallbacked := True, ConvJIS := False, Kanji := push_bit 8 (ucast b), KanjiIn := True\<rparr>, a)
      else do {
        bs \<leftarrow> wr (buf w) 0 b;
        PutReplacementChr op (take 1 bs) False (w\<lparr>buf := bs\<rparr>, a)
      })"

text \<open>The first \<open>n\<close> bytes were no character: they are replaced and \<open>b\<close> starts again.\<close>

definition utf8_reject ::
  "tset \<Rightarrow> 'c charset_op \<Rightarrow> int \<Rightarrow> u8 \<Rightarrow> CharSetData \<times> 'c \<Rightarrow> (CharSetData \<times> 'c) option" where
  "utf8_reject t op n b st =
     do {
       (w, a) \<leftarrow> PutReplacementChr op (take (nat n) (buf (fst st))) (FallbackToCP932 t) st;
       utf8_first t op b (w\<lparr>count := 0\<rparr>, a)
     }"

definition bits :: "u8 \<Rightarrow> u8 \<Rightarrow> nat \<Rightarrow> u32" where
  "bits b m k = push_bit k (ucast (b AND m))"

definition utf8_second ::
  "'c charset_op \<Rightarrow> u8 \<Rightarrow> u8 \<Rightarrow> CharSetData \<times> 'c \<Rightarrow> (CharSetData \<times> 'c) option" where
  "utf8_second op b0 b st =
     (if b0 AND 0xe0 = 0xc0
      then do {
        let code = bits b0 0x1f 6 OR bits b 0x3f 0;
        (w, a) \<leftarrow> (if IsC1 code then ParseControl op (ucast code) st else PutU32 op code st);
        Some (w\<lparr>count := 0\<rparr>, a)
      }
      else Some st)"

definition utf8_third ::
  "tset \<Rightarrow> 'c charset_op \<Rightarrow> u8 \<Rightarrow> u8 \<Rightarrow> u8 \<Rightarrow> CharSetData \<times> 'c \<Rightarrow> (CharSetData \<times> 'c) option" where
  "utf8_third t op b0 b1 b st =
     (if b0 AND 0xf0 = 0xe0
      then if b0 = 0xe0 \<and> (b1 < 0xa0 \<or> 0xbf < b1) \<or> b0 = 0xed \<and> 0x9f < b1
        then utf8_reject t op 2 b st
        else do {
          (w, a) \<leftarrow> PutU32 op (bits b0 0xf 12 OR bits b1 0x3f 6 OR bits b 0x3f 0) st;
          Some (w\<lparr>count := 0\<rparr>, a)
        }
      else Some st)"

definition utf8_fourth ::
  "tset \<Rightarrow> 'c charset_op \<Rightarrow> u8 \<Rightarrow> u8 \<Rightarrow> u8 \<Rightarrow> u8 \<Rightarrow> CharSetData \<times> 'c \<Rightarrow> (CharSetData \<times> 'c) option" where
  "utf8_fourth t op b0 b1 b2 b st =
     (if count (fst st) \<noteq> 4 \<or> b0 AND 0xf8 \<noteq> 0xf0 then None
      else if b0 = 0xf0 \<and> (b1 < 0x90 \<or> 0xbf < b1) \<or> b0 = 0xf4 \<and> (b1 < 0x80 \<or> 0x8f < b1)
      then utf8_reject t op 3 b st
      else do {
        (w, a) \<leftarrow> PutU32 op (bits b0 7 18 OR bits b1 0x3f 12 OR bits b2 0x3f 6 OR bits b 0x3f 0) st;
        Some (w\<lparr>count := 0\<rparr>, a)
      })"

definition utf8_next ::
  "tset \<Rightarrow> 'c charset_op \<Rightarrow> u8 \<Rightarrow> CharSetData \<times> 'c \<Rightarrow> (CharSetData \<times> 'c) option" where
  "utf8_next t op b st =
     (let (w, a) = st in do {
        bs \<leftarrow> wr (buf w) (count w) b;
        let w = w\<lparr>buf := bs, count := count w + 1\<rparr>;
        b0 \<leftarrow> rd bs 0;
        b1 \<leftarrow> rd bs 1;
        b2 \<leftarrow> rd bs 2;
        if count w = 2 then utf8_second op b0 b (w, a)
        else if count w = 3 then utf8_third t op b0 b1 b (w, a)
        else utf8_fourth t op b0 b1 b2 b (w, a)
      })"

definition ParseFirstUTF8 ::
  "code_env \<Rightarrow> tset \<Rightarrow> 'c charset_op \<Rightarrow> u8 \<Rightarrow> CharSetData \<times> 'c \<Rightarrow> (CharSetData \<times> 'c) option" where
  "ParseFirstUTF8 E t op b st =
     (let (w, a) = st in
      if Fallbacked w
      then do { (w, a) \<leftarrow> ParseFirstJP E t op b (w, a); Some (w\<lparr>Fallbacked := False\<rparr>, a) }
      else if count w = 0 then utf8_first t op b (w, a)
      else if b AND 0xc0 \<noteq> 0x80 then utf8_reject t op (count w) b (w, a)
      else utf8_next t op b (w, a))"

subsection \<open>Single-byte sets and debug output\<close>

definition ParseASCII ::
  "'c charset_op \<Rightarrow> u8 \<Rightarrow> CharSetData \<times> 'c \<Rightarrow> (CharSetData \<times> 'c) option" where
  "ParseASCII op b st =
     (let (w, a) = st in
      if SSflag w
      then do { (w, a) \<leftarrow> PutU32 op (ucast b) (w, a); Some (w\<lparr>SSflag := False\<rparr>, a) }
      else if b \<le> 0x1f then ParseControl op b (w, a)
      else if 0x20 \<le> b \<and> b \<le> 0x7E then PutU32 op (ucast b) (w, a)
      else if b = 0x8E \<or> b = 0x8F then PutU32 op (replacement_char w) (w, a)
      else if 0x80 \<le> b \<and> b \<le> 0x9F then ParseControl op b (w, a)
      else if b \<ge> 0xA0 then PutU32 op (ucast b) (w, a)
      else Some (w, a))"

text \<open>
  \<open>ParseEnglish\<close> and \<open>ParseCodePage\<close>, which do the same; the flag tells whether the byte was
  converted.
\<close>

definition ParseCodePage ::
  "code_env \<Rightarrow> id_kanji \<Rightarrow> 'c charset_op \<Rightarrow> u8 \<Rightarrow> CharSetData \<times> 'c
    \<Rightarrow> (bool \<times> CharSetData \<times> 'c) option" where
  "ParseCodePage E k op b st =
     do {
       r \<leftarrow> UnicodeFromSBCS (SBCSTable E) k b;
       (case r of
          None \<Rightarrow> Some (False, st)
        | Some u \<Rightarrow> do {
            st \<leftarrow> (if u < 0x100 then ParseASCII op (word_of_int u) st else PutU32 op (word_of_int u) st);
            Some (True, st)
          })
     }"

definition ParseEnglish ::
  "code_env \<Rightarrow> tset \<Rightarrow> 'c charset_op \<Rightarrow> u8 \<Rightarrow> CharSetData \<times> 'c
    \<Rightarrow> (bool \<times> CharSetData \<times> 'c) option" where
  "ParseEnglish E t op b st = ParseCodePage E (KanjiCode t) op b st"

fun put_all :: "'c charset_op \<Rightarrow> u32 list \<Rightarrow> CharSetData \<times> 'c \<Rightarrow> (CharSetData \<times> 'c) option" where
  "put_all op [] st = Some st"
| "put_all op (c # cs) st = do { st \<leftarrow> PutU32 op c st; put_all op cs st }"

definition hex_digit :: "u8 \<Rightarrow> u32" where
  "hex_digit d = (if d < 10 then ucast d + 0x30 else ucast d + 0x37)"

definition PutDebugChar ::
  "'c charset_op \<Rightarrow> u8 \<Rightarrow> CharSetData \<times> 'c \<Rightarrow> (CharSetData \<times> 'c) option" where
  "PutDebugChar op b st =
     (let (w, a) = st;
          ins = TermGetInsertMode op a;
          a = TermSetInsertMode op False a;
          wrap = TermGetAutoWrapMode op a;
          a = TermSetAutoWrapMode op True a;
          attr = (TermGetAttr op a)\<lparr>Attr := AttrDefault\<rparr>;
          a = TermSetAttr op attr a
      in do {
        ((w, a), attr) \<leftarrow>
          (if DebugFlag w = 2
           then do {
             st \<leftarrow> put_all op [hex_digit (drop_bit 4 b), hex_digit (b AND 0xf), 0x20] (w, a);
             Some (st, attr)
           }
           else if DebugFlag w = 1
           then
             let attr' = (if b AND 0x80 = 0x80 then attr\<lparr>Attr := AttrReverse\<rparr> else attr);
                 a = (if b AND 0x80 = 0x80 then TermSetAttr op attr' a else a);
                 c = (if b AND 0x80 = 0x80 then b AND 0x7f else b)
             in do {
               st \<leftarrow> put_all op (if c \<le> 0x1f then [0x5e, ucast c + 0x40]
                               else if c = 0x7f then [0x3c, 0x44, 0x45, 0x4c, 0x3e]
                               else [ucast c]) (w, a);
               Some (st, attr')
             }
           else Some ((w, a), attr));
        let a = TermSetAttr op attr a;
        let a = TermSetInsertMode op ins a;
        Some (w, TermSetAutoWrapMode op wrap a)
      })"

subsection \<open>The entry point\<close>

text \<open>What is left when the code set did not convert the byte.\<close>

definition parse_rest ::
  "'c charset_op \<Rightarrow> u8 \<Rightarrow> CharSetData \<times> 'c \<Rightarrow> (CharSetData \<times> 'c) option" where
  "parse_rest op b st =
     (let (w, a) = st in
      if SSflag w
      then do { (w, a) \<leftarrow> PutU32 op (ucast b) (w, a); Some (w\<lparr>SSflag := False\<rparr>, a) }
      else if b \<le> 0x1f then ParseControl op b (w, a)
      else if 0x20 \<le> b \<and> b \<le> 0x7E then PutU32 op (ucast b) (w, a)
      else if 0x80 \<le> b \<and> b \<le> 0x9F then ParseControl op b (w, a)
      else if b \<ge> 0xA0 then PutU32 op (ucast b) (w, a)
      else Some (w, a))"

definition ParseFirst ::
  "code_env \<Rightarrow> tset \<Rightarrow> 'c charset_op \<Rightarrow> u8 \<Rightarrow> CharSetData \<times> 'c \<Rightarrow> (CharSetData \<times> 'c) option" where
  "ParseFirst E t op b st =
     (let code = (if DebugFlag (fst st) \<noteq> 0 then IdDebug else KanjiCode t) in
      case code of
        IdSJIS \<Rightarrow> ParseFirstJP E t op b st
      | IdEUC \<Rightarrow> ParseFirstJP E t op b st
      | IdJIS \<Rightarrow> ParseFirstJP E t op b st
      | IdISO8859 n \<Rightarrow> do {
          (done, st) \<leftarrow> ParseEnglish E t op b st;
          if done then Some st else parse_rest op b st
        }
      | IdUTF8 \<Rightarrow> ParseFirstUTF8 E t op b st
      | IdKoreanCP949 \<Rightarrow> ParseFirstKR E t op b st
      | IdCnGB2312 \<Rightarrow> ParseFirstCn E t op b st
      | IdCnBig5 \<Rightarrow> ParseFirstCn E t op b st
      | IdDebug \<Rightarrow> PutDebugChar op b st
      | IdCP n \<Rightarrow> do { (done, st) \<leftarrow> ParseCodePage E code op b st; Some st }
      | IdKOI8_NEW \<Rightarrow> do { (done, st) \<leftarrow> ParseCodePage E code op b st; Some st })"

text \<open>A list of received bytes.\<close>

fun parse_bytes ::
  "code_env \<Rightarrow> tset \<Rightarrow> 'c charset_op \<Rightarrow> u8 list \<Rightarrow> CharSetData \<times> 'c \<Rightarrow> (CharSetData \<times> 'c) option" where
  "parse_bytes E t op [] st = Some st"
| "parse_bytes E t op (b # bs) st = do { st \<leftarrow> ParseFirst E t op b st; parse_bytes E t op bs st }"

end
