(* ===== verification/CharsetUtf8.thy ===== *)
theory CharsetUtf8
  imports Charset
begin

section \<open>The UTF-8 decoder of charset.cpp\<close>

text \<open>
  The decoder works byte by byte with up to three bytes kept between calls. Here it is shown
  to do, for every client and every input, what the function \<open>utf8_events\<close> says of the input
  as a whole: characters by the table of well-formed sequences, ill-formed bytes replaced.
\<close>

subsection \<open>What the UTF-8 decoder does, as a function of the whole input\<close>

datatype text_event = Put u32 | Ctl u8

fun deliver :: "'c charset_op \<Rightarrow> text_event list \<Rightarrow> CharSetData \<times> 'c \<Rightarrow> (CharSetData \<times> 'c) option" where
  "deliver op [] st = Some st"
| "deliver op (Put c # es) st = do { st \<leftarrow> PutU32 op c st; deliver op es st }"
| "deliver op (Ctl b # es) st = do { st \<leftarrow> ParseControl op b st; deliver op es st }"

text \<open>Table 3-7 of the Unicode Standard, which charset.cpp quotes.\<close>

definition tail_byte :: "u8 \<Rightarrow> bool" where "tail_byte b \<longleftrightarrow> 0x80 \<le> b \<and> b \<le> 0xbf"

definition wf2 :: "u8 \<Rightarrow> u8 \<Rightarrow> bool" where
  "wf2 b0 b1 \<longleftrightarrow> 0xc2 \<le> b0 \<and> b0 \<le> 0xdf \<and> tail_byte b1"

definition wf3 :: "u8 \<Rightarrow> u8 \<Rightarrow> u8 \<Rightarrow> bool" where
  "wf3 b0 b1 b2 \<longleftrightarrow> 0xe0 \<le> b0 \<and> b0 \<le> 0xef \<and> tail_byte b2 \<and>
     (if b0 = 0xe0 then 0xa0 \<le> b1 \<and> b1 \<le> 0xbf
      else if b0 = 0xed then 0x80 \<le> b1 \<and> b1 \<le> 0x9f
      else tail_byte b1)"

definition wf4 :: "u8 \<Rightarrow> u8 \<Rightarrow> u8 \<Rightarrow> u8 \<Rightarrow> bool" where
  "wf4 b0 b1 b2 b3 \<longleftrightarrow> 0xf0 \<le> b0 \<and> b0 \<le> 0xf4 \<and> tail_byte b2 \<and> tail_byte b3 \<and>
     (if b0 = 0xf0 then 0x90 \<le> b1 \<and> b1 \<le> 0xbf
      else if b0 = 0xf4 then 0x80 \<le> b1 \<and> b1 \<le> 0x8f
      else tail_byte b1)"

definition code2 :: "u8 \<Rightarrow> u8 \<Rightarrow> u32" where
  "code2 b0 b1 = bits b0 0x1f 6 OR bits b1 0x3f 0"
definition code3 :: "u8 \<Rightarrow> u8 \<Rightarrow> u8 \<Rightarrow> u32" where
  "code3 b0 b1 b2 = bits b0 0xf 12 OR bits b1 0x3f 6 OR bits b2 0x3f 0"
definition code4 :: "u8 \<Rightarrow> u8 \<Rightarrow> u8 \<Rightarrow> u8 \<Rightarrow> u32" where
  "code4 b0 b1 b2 b3 = bits b0 7 18 OR bits b1 0x3f 12 OR bits b2 0x3f 6 OR bits b3 0x3f 0"

text \<open>How many bytes the first byte announces, 0 when it cannot be the first.\<close>

definition announced :: "u8 \<Rightarrow> nat" where
  "announced b = (if b < 0x80 then 1 else if b < 0xc2 then 0 else if b < 0xe0 then 2
     else if b < 0xf0 then 3 else if b \<le> 0xf4 then 4 else 0)"

definition c1_event :: "u32 \<Rightarrow> text_event" where
  "c1_event c = (if IsC1 c then Ctl (ucast c) else Put c)"

definition char_event :: "u32 \<Rightarrow> text_event" where
  "char_event c = (if IsC0 c then Ctl (ucast c) else c1_event c)"

text \<open>The first event of the input and the rest of it; \<open>None\<close> when it may still be completed.\<close>

definition head_char :: "u8 list \<Rightarrow> (text_event \<times> u8 list) option" where
  "head_char bs =
     (case bs of
        b0 # r0 \<Rightarrow>
          if b0 < 0x80 then Some (char_event (ucast b0), r0)
          else (case r0 of
            b1 # r1 \<Rightarrow>
              if wf2 b0 b1 then Some (c1_event (code2 b0 b1), r1)
              else (case r1 of
                b2 # r2 \<Rightarrow>
                  if wf3 b0 b1 b2 then Some (Put (code3 b0 b1 b2), r2)
                  else (case r2 of
                    b3 # r3 \<Rightarrow> if wf4 b0 b1 b2 b3 then Some (Put (code4 b0 b1 b2 b3), r3) else None
                  | [] \<Rightarrow> None)
              | [] \<Rightarrow> None)
          | [] \<Rightarrow> None)
      | [] \<Rightarrow> None)"

text \<open>
  Of an ill-formed sequence, the first byte and the tail bytes behind it up to the last but
  one are replaced, and decoding goes on behind them.
\<close>

definition rejected :: "u8 \<Rightarrow> u8 list \<Rightarrow> nat" where
  "rejected b0 bs = length (takeWhile tail_byte (take (announced b0 - 2) bs))"

definition incomplete :: "u8 list \<Rightarrow> bool" where
  "incomplete bs \<longleftrightarrow> length bs < announced (hd bs) \<and> list_all tail_byte (tl bs)"

definition bad_byte :: "u32 \<Rightarrow> bool \<Rightarrow> u8 \<Rightarrow> text_event" where
  "bad_byte r fallback b = Put (if fallback then ucast b else r)"

lemma head_char_shorter: "head_char bs = Some (e, r) \<Longrightarrow> length r < length bs"
  by (auto simp: head_char_def split: list.splits if_splits)

function utf8_events :: "u32 \<Rightarrow> bool \<Rightarrow> u8 list \<Rightarrow> text_event list \<times> u8 list" where
  "utf8_events r fb bs =
     (case bs of
        [] \<Rightarrow> ([], [])
      | b0 # bs1 \<Rightarrow>
          case head_char bs of
            Some (e, rest) \<Rightarrow> apfst ((#) e) (utf8_events r fb rest)
          | None \<Rightarrow>
              if incomplete bs then ([], bs)
              else if announced b0 = 0 then apfst ((#) (Put r)) (utf8_events r fb bs1)
              else apfst ((@) (map (bad_byte r fb) (b0 # take (rejected b0 bs1) bs1)))
                     (utf8_events r fb (drop (rejected b0 bs1) bs1)))"
  by pat_completeness auto
termination
  by (relation "measure (\<lambda>(r, fb, bs). length bs)") (auto dest: head_char_shorter)

declare utf8_events.simps [simp del]

text \<open>Byte facts, each checked for all bytes.\<close>

lemma byte_all: "list_all P (map (word_of_nat :: nat \<Rightarrow> u8) [0..<256]) \<Longrightarrow> P b"
proof -
  assume a: "list_all P (map (word_of_nat :: nat \<Rightarrow> u8) [0..<256])"
  have "unat b \<in> set [0..<256]" using unsigned_less [of b, where 'a = nat] by simp
  then have "(word_of_nat (unat b) :: u8) \<in> set (map word_of_nat [0..<256])" unfolding set_map by (rule imageI)
  then show ?thesis using a by (auto simp: list_all_iff)
qed

lemma tail_byte_mask: "tail_byte b \<longleftrightarrow> b AND 0xc0 = 0x80"
  by (rule byte_all [of "\<lambda>b. tail_byte b \<longleftrightarrow> b AND 0xc0 = 0x80"]) (simp add: tail_byte_def upt_rec word_le_nat_alt)

lemma lead2_mask: "(b AND 0xe0 = 0xc0) = (0xc0 \<le> b \<and> b \<le> 0xdf)" for b :: u8
  by (rule byte_all [of "\<lambda>b. b AND 0xe0 = 0xc0 \<longleftrightarrow> 0xc0 \<le> b \<and> b \<le> 0xdf"]) (simp add: upt_rec word_le_nat_alt)

lemma lead3_mask: "(b AND 0xf0 = 0xe0) = (0xe0 \<le> b \<and> b \<le> 0xef)" for b :: u8
  by (rule byte_all [of "\<lambda>b. b AND 0xf0 = 0xe0 \<longleftrightarrow> 0xe0 \<le> b \<and> b \<le> 0xef"]) (simp add: upt_rec word_le_nat_alt)

lemma lead4_mask: "(b AND 0xf8 = 0xf0) = (0xf0 \<le> b \<and> b \<le> 0xf7)" for b :: u8
  by (rule byte_all [of "\<lambda>b. b AND 0xf8 = 0xf0 \<longleftrightarrow> 0xf0 \<le> b \<and> b \<le> 0xf7"]) (simp add: upt_rec word_le_nat_alt)

lemma le_byte: "(m::u8) \<le> b \<longleftrightarrow> unat m \<le> unat b" by (simp add: word_le_nat_alt)

subsection \<open>The client of the decoder\<close>

definition with_bytes :: "u8 list \<Rightarrow> int \<Rightarrow> CharSetData \<times> 'c \<Rightarrow> CharSetData \<times> 'c" where
  "with_bytes bs n st = ((fst st)\<lparr>buf := bs, count := n\<rparr>, snd st)"

definition utf8_ready :: "u32 \<Rightarrow> CharSetData \<Rightarrow> bool" where
  "utf8_ready r w \<longleftrightarrow> \<not> Fallbacked w \<and> DebugFlag w = 0 \<and> replacement_char w = r"

text \<open>
  What the decoder relies on: the callbacks neither look at the bytes collected so far nor
  touch them, and leave the mode of the decoder alone.
\<close>

locale charset_client =
  fixes op :: "'c charset_op"
  assumes put_blind: "PutU32 op c (with_bytes bs n st) = map_option (with_bytes bs n) (PutU32 op c st)"
    and ctl_blind: "ParseControl op b (with_bytes bs n st) = map_option (with_bytes bs n) (ParseControl op b st)"
    and put_ready: "utf8_ready r (fst st) \<Longrightarrow> PutU32 op c st = Some st' \<Longrightarrow> utf8_ready r (fst st')"
    and ctl_ready: "utf8_ready r (fst st) \<Longrightarrow> ParseControl op b st = Some st' \<Longrightarrow> utf8_ready r (fst st')"

lemma with_bytes_simps [simp]:
  "with_bytes bs n (with_bytes bs' n' st) = with_bytes bs n st"
  "buf (fst (with_bytes bs n st)) = bs" "count (fst (with_bytes bs n st)) = n"
  "Fallbacked (fst (with_bytes bs n st)) = Fallbacked (fst st)"
  "DebugFlag (fst (with_bytes bs n st)) = DebugFlag (fst st)"
  "replacement_char (fst (with_bytes bs n st)) = replacement_char (fst st)"
  "utf8_ready r (fst (with_bytes bs n st)) = utf8_ready r (fst st)"
  by (simp_all add: with_bytes_def utf8_ready_def)

lemma deliver_append: "deliver op (es @ fs) st = Option.bind (deliver op es st) (deliver op fs)"
  by (induction op es st rule: deliver.induct) (auto split: option.splits bind_splits)

context charset_client begin

lemma deliver_blind: "deliver op es (with_bytes bs n st) = map_option (with_bytes bs n) (deliver op es st)"
proof (induction es arbitrary: st)
  case (Cons e es)
  then show ?case
    by (cases e) (auto simp: put_blind ctl_blind option.map_comp Option.bind_map_option comp_def
        split: option.splits bind_splits)
qed simp

lemma deliver_ready:
  "utf8_ready r (fst st) \<Longrightarrow> deliver op es st = Some st' \<Longrightarrow> utf8_ready r (fst st')"
proof (induction es arbitrary: st)
  case (Cons e es)
  then show ?case
    by (cases e) (auto dest: put_ready ctl_ready split: option.splits bind_splits)
qed simp

lemma replace_loop_deliver:
  "list_all (\<lambda>b. 0x80 \<le> b) cs \<Longrightarrow>
    replace_loop r op cs fb st = deliver op (map (bad_byte r fb) cs) st"
proof (induction cs arbitrary: st)
  case (Cons c cs)
  have "\<not> IsC0 (ucast c)" "\<not> c < 0x80" using Cons.prems
    by (auto simp: IsC0_def word_le_nat_alt word_less_nat_alt unat_ucast8)
  then show ?case using Cons by (auto simp: bad_byte_def split: bind_splits)
qed simp

end

subsection \<open>One byte\<close>

definition open_seq :: "u8 list \<Rightarrow> bool" where
  "open_seq p \<longleftrightarrow> p = [] \<or> 2 \<le> announced (hd p) \<and> incomplete p"

definition step_ok ::
  "u32 \<Rightarrow> bool \<Rightarrow> 'c charset_op \<Rightarrow> u8 list \<Rightarrow> (CharSetData \<times> 'c \<Rightarrow> (CharSetData \<times> 'c) option) \<Rightarrow> bool" where
  "step_ok r fb op p f \<longleftrightarrow> (\<exists>es p' bs. length bs = 4 \<and> take (length p') bs = p' \<and> open_seq p' \<and>
     (\<forall>st. utf8_ready r (fst st) \<longrightarrow>
        f st = map_option (with_bytes bs (int (length p'))) (deliver op es st)) \<and>
     (\<forall>rest. utf8_events r fb (p @ rest) = apfst ((@) es) (utf8_events r fb (p' @ rest))))"

lemma step_okI:
  assumes "length bs = 4" "take (length p') bs = p'" "open_seq p'"
    "\<And>st. utf8_ready r (fst st) \<Longrightarrow> f st = map_option (with_bytes bs (int (length p'))) (deliver op es st)"
    "\<And>rest. utf8_events r fb (p @ rest) = apfst ((@) es) (utf8_events r fb (p' @ rest))"
  shows "step_ok r fb op p f"
  unfolding step_ok_def using assms by blast

lemmas byte_order = word_le_nat_alt word_less_nat_alt word_unat_eq_iff

lemma announced_iff:
  "announced b = 2 \<longleftrightarrow> 0xc2 \<le> b \<and> b \<le> 0xdf" "announced b = 3 \<longleftrightarrow> 0xe0 \<le> b \<and> b \<le> 0xef"
  "announced b = 4 \<longleftrightarrow> 0xf0 \<le> b \<and> b \<le> 0xf4" "announced b = Suc 0 \<longleftrightarrow> b < 0x80"
  "2 \<le> announced b \<longleftrightarrow> 0xc2 \<le> b \<and> b \<le> 0xf4"
  by (auto simp: announced_def byte_order)

lemma announced_cases:
  obtains (c0) "announced b = 0" | (c1) "announced b = 1" | (c2) "announced b = 2"
    | (c3) "announced b = 3" | (c4) "announced b = 4"
proof -
  have "announced b \<in> {0, 1, 2, 3, 4}" by (simp add: announced_def)
  then show ?thesis using c0 c1 c2 c3 c4 by auto
qed

lemma announced_mask:
  "announced b = 2 \<Longrightarrow> b AND 0xe0 = 0xc0"
  "announced b = 3 \<Longrightarrow> b AND 0xe0 \<noteq> 0xc0 \<and> b AND 0xf0 = 0xe0"
  "announced b = 4 \<Longrightarrow> b AND 0xe0 \<noteq> 0xc0 \<and> b AND 0xf0 \<noteq> 0xe0 \<and> b AND 0xf8 = 0xf0"
  by (simp_all only: announced_iff lead2_mask lead3_mask lead4_mask) (auto simp: byte_order)

lemma wf2_iff: "wf2 b0 b1 \<longleftrightarrow> announced b0 = 2 \<and> tail_byte b1"
  by (auto simp: wf2_def announced_iff)

lemma wf3_iff: "wf3 b0 b1 b2 \<longleftrightarrow> announced b0 = 3 \<and> tail_byte b1 \<and> tail_byte b2 \<and>
    \<not> (b0 = 0xe0 \<and> (b1 < 0xa0 \<or> 0xbf < b1) \<or> b0 = 0xed \<and> 0x9f < b1)"
  unfolding wf3_def announced_iff tail_byte_def by (auto simp: byte_order)

lemma wf4_iff: "wf4 b0 b1 b2 b3 \<longleftrightarrow> announced b0 = 4 \<and> tail_byte b1 \<and> tail_byte b2 \<and> tail_byte b3 \<and>
    \<not> (b0 = 0xf0 \<and> (b1 < 0x90 \<or> 0xbf < b1) \<or> b0 = 0xf4 \<and> (b1 < 0x80 \<or> 0x8f < b1))"
  unfolding wf4_def announced_iff tail_byte_def by (auto simp: byte_order)

lemma tail_not_lead: "tail_byte b \<Longrightarrow> announced b = 0" "tail_byte b \<Longrightarrow> 0x80 \<le> b"
  by (auto simp: tail_byte_def announced_def byte_order)

lemma lead_big: "2 \<le> announced b \<Longrightarrow> 0x80 \<le> b \<and> \<not> b < 0x80"
  by (auto simp: announced_iff byte_order)

lemma utf8_events_Nil [simp]: "utf8_events r fb [] = ([], [])"
  by (simp add: utf8_events.simps)

lemma utf8_events_char: "head_char bs = Some (e, rest) \<Longrightarrow>
    utf8_events r fb bs = apfst ((#) e) (utf8_events r fb rest)"
  by (subst utf8_events.simps) (cases bs; simp add: head_char_def)

lemma utf8_events_invalid: "announced b = 0 \<Longrightarrow>
    utf8_events r fb (b # rest) = apfst ((#) (Put r)) (utf8_events r fb rest)"
  by (subst utf8_events.simps)
    (auto simp: head_char_def wf2_iff wf3_iff wf4_iff incomplete_def announced_def split: list.splits if_splits)

lemma utf8_events_reject:
  assumes "head_char (b0 # bs) = None" "\<not> incomplete (b0 # bs)" "2 \<le> announced b0"
    "rejected b0 bs = n"
  shows "utf8_events r fb (b0 # bs) =
    apfst ((@) (map (bad_byte r fb) (b0 # take n bs))) (utf8_events r fb (drop n bs))"
  using assms by (subst utf8_events.simps) simp

lemma with_bytes_upd [simp]:
  "((fst s)\<lparr>buf := x\<rparr>, snd s) = with_bytes x (count (fst s)) s"
  "((fst s)\<lparr>count := n\<rparr>, snd s) = with_bytes (buf (fst s)) n s"
  "((fst s)\<lparr>buf := x, count := n\<rparr>, snd s) = with_bytes x n s"
  by (simp_all add: with_bytes_def)

lemma byte_IsC: "IsC0 (ucast (b::u8)) \<longleftrightarrow> b \<le> 0x1f" "IsC1 (ucast (b::u8)) \<longleftrightarrow> 0x80 \<le> b \<and> b \<le> 0x9f"
  by (simp_all add: IsC0_def IsC1_def byte_order)

lemma open_seq_one: "2 \<le> announced b \<Longrightarrow> open_seq [b]"
  by (simp add: open_seq_def incomplete_def)

lemma open_seq_Nil [simp]: "open_seq []"
  by (simp add: open_seq_def)

lemma head_char_one: "announced b = 1 \<Longrightarrow> head_char (b # rest) = Some (char_event (ucast b), rest)"
  by (simp add: head_char_def announced_iff)

lemma ucast_ucast_byte [simp]: "ucast (ucast (b::u8) :: u32) = b"
  using unsigned_less [of b, where 'a = nat] by (simp add: word_unat_eq_iff unsigned_ucast_eq take_bit_word_eq_self)

lemma deliver_Nil [simp]: "deliver op [] = Some"
  by (rule ext) simp

lemma apfst_Nil [simp]: "apfst ((@) []) x = x"
  by (cases x) simp

lemma replace_loop_Nil [simp]: "replace_loop r op [] fb = Some"
  by (rule ext) simp

lemma replace_loop_one: "replace_loop r op [b] fb st = deliver op [bad_byte r fb b] st" if "0x80 \<le> b"
proof -
  have "\<not> b < 0x80" "\<not> b \<le> 0x1f" using that by (auto simp: byte_order)
  then show ?thesis by (simp add: byte_IsC bad_byte_def)
qed

lemma take_one: "length (bs::'a list) = 4 \<Longrightarrow> take 1 (bs[0 := b]) = [b]"
  by (cases bs) auto

lemma utf8_first_ascii: 
  assumes "announced b = 1" shows "utf8_first t op b st = deliver op [char_event (ucast b)] st"
proof -
  have b: "b < 0x80" "b \<le> 0x7f" "\<not> 0x80 \<le> b" using assms by (auto simp: announced_iff byte_order)
  then show ?thesis
    by (simp add: utf8_first_def case_prod_beta char_event_def c1_event_def byte_IsC)
qed

lemma utf8_first_invalid: 
  assumes "announced b = 0" "KanjiCode t = IdUTF8" "length (buf (fst st)) = 4"
  shows "utf8_first t op b st =
    PutU32 op (replacement_char (fst st)) (with_bytes ((buf (fst st))[0 := b]) (count (fst st)) st)"
proof -
  have b: "\<not> b \<le> 0x7f" "\<not> b \<le> 0x1f" "\<not> (0xc2 \<le> b \<and> b \<le> 0xf4)" "\<not> b < 0x80" "0x80 \<le> b"
    using assms(1) by (auto simp: announced_def byte_order split: if_splits)
  have "\<not> LangIsJapanese IdUTF8" by (simp add: LangIsJapanese_def)
  moreover have "wr (buf (fst st)) 0 b = Some ((buf (fst st))[0 := b])"
    using assms by (simp add: wr_def in_arr_def)
  ultimately show ?thesis using b assms(2)
    by (auto simp: utf8_first_def case_prod_beta byte_IsC PutReplacementChr_def
      take_one [OF assms(3), simplified] replace_loop_one bad_byte_def del: replace_loop.simps)
qed

lemma utf8_first_lead: 
  assumes "2 \<le> announced b" "count (fst st) = 0" "length (buf (fst st)) = 4"
  shows "utf8_first t op b st = Some (with_bytes ((buf (fst st))[0 := b]) 1 st)"
proof -
  have b: "\<not> b \<le> 0x7f" "\<not> b \<le> 0x1f" "0xc2 \<le> b \<and> b \<le> 0xf4" "\<not> b < 0x80"
    using assms(1) by (auto simp: announced_iff byte_order split: if_splits)
  moreover have "wr (buf (fst st)) 0 b = Some ((buf (fst st))[0 := b])"
    using assms by (simp add: wr_def in_arr_def)
  ultimately show ?thesis using assms(2) by (simp add: utf8_first_def case_prod_beta byte_IsC)
qed

context charset_client begin

lemma first_ok:
  assumes "KanjiCode t = IdUTF8" "length bs = 4"
  shows "step_ok r fb op [b] (\<lambda>st. utf8_first t op b (with_bytes bs 0 st))"
proof -
  consider "announced b = 1" | "announced b = 0" | "2 \<le> announced b"
    by (cases b rule: announced_cases) auto
  then show ?thesis
  proof cases
    case 1
    show ?thesis
      by (rule step_okI [where bs = bs and p' = "[]" and es = "[char_event (ucast b)]"])
        (use assms utf8_events_char [OF head_char_one [OF 1]] in
          \<open>simp_all add: utf8_first_ascii [OF 1] deliver_blind del: deliver.simps\<close>)
  next
    case 2
    show ?thesis
      by (rule step_okI [where bs = "bs[0 := b]" and p' = "[]" and es = "[Put r]"])
        (use assms 2 in \<open>simp_all add: utf8_first_invalid utf8_events_invalid put_blind utf8_ready_def\<close>)
  next
    case 3
    show ?thesis
      by (rule step_okI [where bs = "bs[0 := b]" and p' = "[b]" and es = "[]"])
        (use assms 3 take_one [OF assms(2)] in \<open>simp_all add: utf8_first_lead open_seq_one\<close>)
  qed
qed

end

lemma utf8_next_count:
  "utf8_next t op b (with_bytes [b0, x1, x2, x3] 1 st) = utf8_second op b0 b (with_bytes [b0, b, x2, x3] 2 st)"
  "utf8_next t op b (with_bytes [b0, b1, x2, x3] 2 st) = utf8_third t op b0 b1 b (with_bytes [b0, b1, b, x3] 3 st)"
  "utf8_next t op b (with_bytes [b0, b1, b2, x3] 3 st) = utf8_fourth t op b0 b1 b2 b (with_bytes [b0, b1, b2, b] 4 st)"
  by (simp_all add: utf8_next_def wr_def rd_def in_arr_def case_prod_beta Let_def)

lemma apfst_append: "apfst ((@) xs) (apfst ((@) ys) x) = apfst ((@) (xs @ ys)) x"
  by (cases x) simp

lemma announced_ascii: "b < 0x80 \<Longrightarrow> announced b = Suc 0"
  by (simp add: announced_def)

lemma head_char_wf:
  "wf2 b0 b1 \<Longrightarrow> head_char (b0 # b1 # rest) = Some (c1_event (code2 b0 b1), rest)"
  "wf3 b0 b1 b2 \<Longrightarrow> head_char (b0 # b1 # b2 # rest) = Some (Put (code3 b0 b1 b2), rest)"
  "wf4 b0 b1 b2 b3 \<Longrightarrow> head_char (b0 # b1 # b2 # b3 # rest) = Some (Put (code4 b0 b1 b2 b3), rest)"
  by (auto simp: head_char_def wf2_iff wf3_iff wf4_iff dest: announced_ascii)

context charset_client begin

lemma reject_ok:
  assumes "KanjiCode t = IdUTF8" "length bs = 4" "take (length p) bs = p" "list_all (\<lambda>b. 0x80 \<le> b) p"
    "\<And>rest. utf8_events r (FallbackToCP932 t) (p @ b # rest) =
       apfst ((@) (map (bad_byte r (FallbackToCP932 t)) p)) (utf8_events r (FallbackToCP932 t) (b # rest))"
  shows "step_ok r (FallbackToCP932 t) op (p @ [b])
    (\<lambda>st. utf8_reject t op (int (length p)) b (with_bytes bs n st))"
proof -
  let ?fb = "FallbackToCP932 t" and ?bad = "map (bad_byte r (FallbackToCP932 t)) p"
  obtain es p' bs' where f: "length bs' = 4" "take (length p') bs' = p'" "open_seq p'"
    and run: "\<And>st. utf8_ready r (fst st) \<Longrightarrow> utf8_first t op b (with_bytes bs 0 st) =
        map_option (with_bytes bs' (int (length p'))) (deliver op es st)"
    and ev: "\<And>rest. utf8_events r ?fb ([b] @ rest) = apfst ((@) es) (utf8_events r ?fb (p' @ rest))"
    using first_ok [OF assms(1,2), of r ?fb b] unfolding step_ok_def by blast
  show ?thesis
  proof (rule step_okI [OF f, where es = "?bad @ es"])
    fix st :: "CharSetData \<times> 'c"
    assume r: "utf8_ready r (fst st)"
    then have "utf8_reject t op (int (length p)) b (with_bytes bs n st) =
        Option.bind (deliver op ?bad st) (\<lambda>st. utf8_first t op b (with_bytes bs 0 st))"
      using replace_loop_deliver [OF assms(4)] assms(3)
      by (simp add: utf8_reject_def PutReplacementChr_def utf8_ready_def deliver_blind
          case_prod_beta Option.bind_map_option comp_def)
    also have "\<dots> = map_option (with_bytes bs' (int (length p'))) (deliver op (?bad @ es) st)"
      by (cases "deliver op ?bad st") (auto simp: deliver_append run dest: deliver_ready [OF r])
    finally show "utf8_reject t op (int (length p)) b (with_bytes bs n st) = \<dots>" .
  next
    fix rest
    show "utf8_events r ?fb ((p @ [b]) @ rest) = apfst ((@) (?bad @ es)) (utf8_events r ?fb (p' @ rest))"
      using assms(5) [of rest] ev [of rest] by (simp add: apfst_append)
  qed
qed


lemma second_ok:
  assumes "KanjiCode t = IdUTF8" "2 \<le> announced b0"
  shows "step_ok r (FallbackToCP932 t) op [b0, b]
    (\<lambda>st. if b AND 0xc0 \<noteq> 0x80 then utf8_reject t op 1 b (with_bytes [b0, x1, x2, x3] 1 st)
          else utf8_next t op b (with_bytes [b0, x1, x2, x3] 1 st))"
proof (cases "tail_byte b")
  case False
  have h: "head_char (b0 # b # rest) = None" for rest
    using False assms(2) lead_big
    by (auto simp: head_char_def wf2_iff wf3_iff wf4_iff split: list.splits)
  have i: "\<not> incomplete (b0 # b # rest)" "rejected b0 (b # rest) = 0" for rest
    using False by (auto simp: incomplete_def rejected_def take_Cons split: nat.splits)
  show ?thesis
    using reject_ok [OF assms(1), where bs = "[b0, x1, x2, x3]" and p = "[b0]" and b = b and r = r and n = 1]
      False lead_big [OF assms(2)] utf8_events_reject [OF h i(1) assms(2) i(2)]
    by (simp add: tail_byte_mask)
next
  case True
  show ?thesis
  proof (cases "announced b0 = 2")
    case two: True
    then have w: "wf2 b0 b" using True by (simp add: wf2_iff)
    show ?thesis
      by (rule step_okI [where bs = "[b0, b, x2, x3]" and p' = "[]" and es = "[c1_event (code2 b0 b)]"])
        (use True two utf8_events_char [OF head_char_wf(1) [OF w]] in
         \<open>auto simp: tail_byte_mask utf8_next_count utf8_second_def announced_mask c1_event_def code2_def [symmetric]
           put_blind ctl_blind Option.bind_map_option comp_def case_prod_beta Let_def split: bind_splits\<close>)
  next
    case False
    then have "announced b0 = 3 \<or> announced b0 = 4" using assms(2) by (cases b0 rule: announced_cases) auto
    then show ?thesis
      by (intro step_okI [where bs = "[b0, b, x2, x3]" and p' = "[b0, b]" and es = "[]"])
        (use True in \<open>auto simp: tail_byte_mask [symmetric] utf8_next_count utf8_second_def announced_mask
           open_seq_def incomplete_def\<close>)
  qed
qed

end

context charset_client begin

lemma third_ok:
  assumes "KanjiCode t = IdUTF8" "announced b0 = 3 \<or> announced b0 = 4" "tail_byte b1"
  shows "step_ok r (FallbackToCP932 t) op [b0, b1, b]
    (\<lambda>st. if b AND 0xc0 \<noteq> 0x80 then utf8_reject t op 2 b (with_bytes [b0, b1, x2, x3] 2 st)
          else utf8_next t op b (with_bytes [b0, b1, x2, x3] 2 st))"
proof -
  let ?bad = "b0 = 0xe0 \<and> (b1 < 0xa0 \<or> 0xbf < b1) \<or> b0 = 0xed \<and> 0x9f < b1"
  have big: "2 \<le> announced b0" using assms(2) by auto
  have rej: "step_ok r (FallbackToCP932 t) op [b0, b1, b]
      (\<lambda>st. utf8_reject t op 2 b (with_bytes [b0, b1, y, x3] n st))"
    if no: "tail_byte b \<Longrightarrow> announced b0 = 3 \<and> ?bad" for y n
  proof -
    have h: "head_char (b0 # b1 # b # rest) = None" for rest
      using no assms(2) lead_big [OF big]
      by (auto simp: head_char_def wf2_iff wf3_iff wf4_iff split: list.splits)
    have i: "\<not> incomplete (b0 # b1 # b # rest)" "rejected b0 (b1 # b # rest) = 1" for rest
      using no assms(2,3) by (auto simp: incomplete_def rejected_def)
    show ?thesis
      using reject_ok [OF assms(1), where bs = "[b0, b1, y, x3]" and p = "[b0, b1]" and b = b and r = r and n = n]
        lead_big [OF big] tail_not_lead(2) [OF assms(3)] utf8_events_reject [OF h i(1) big i(2)]
      by simp
  qed
  show ?thesis
  proof (cases "tail_byte b")
    case False
    then show ?thesis using rej [of x2 2] by (simp add: tail_byte_mask)
  next
    case tail: True
    then have m: "b AND 0xc0 = 0x80" by (simp add: tail_byte_mask)
    show ?thesis
    proof (cases "announced b0 = 4")
      case True
      then show ?thesis
        by (intro step_okI [where bs = "[b0, b1, b, x3]" and p' = "[b0, b1, b]" and es = "[]"])
          (use m tail assms(3) in \<open>auto simp: utf8_next_count utf8_third_def announced_mask open_seq_def incomplete_def\<close>)
    next
      case False
      then have three: "announced b0 = 3" using assms(2) by blast
      show ?thesis
      proof (cases ?bad)
        case True
        then show ?thesis
          using rej [of b 3] three m by (simp add: utf8_next_count utf8_third_def announced_mask)
      next
        case False
        then have w: "wf3 b0 b1 b" using tail three assms(3) unfolding wf3_iff by blast
        show ?thesis
          by (rule step_okI [where bs = "[b0, b1, b, x3]" and p' = "[]" and es = "[Put (code3 b0 b1 b)]"])
            (use m three False utf8_events_char [OF head_char_wf(2) [OF w]] in
             \<open>auto simp: utf8_next_count utf8_third_def announced_mask code3_def [symmetric]
               put_blind Option.bind_map_option comp_def case_prod_beta split: bind_splits\<close>)
      qed
    qed
  qed
qed

lemma fourth_ok:
  assumes "KanjiCode t = IdUTF8" "announced b0 = 4" "tail_byte b1" "tail_byte b2"
  shows "step_ok r (FallbackToCP932 t) op [b0, b1, b2, b]
    (\<lambda>st. if b AND 0xc0 \<noteq> 0x80 then utf8_reject t op 3 b (with_bytes [b0, b1, b2, x3] 3 st)
          else utf8_next t op b (with_bytes [b0, b1, b2, x3] 3 st))"
proof -
  let ?bad = "b0 = 0xf0 \<and> (b1 < 0x90 \<or> 0xbf < b1) \<or> b0 = 0xf4 \<and> (b1 < 0x80 \<or> 0x8f < b1)"
  have big: "2 \<le> announced b0" using assms(2) by auto
  have rej: "step_ok r (FallbackToCP932 t) op [b0, b1, b2, b]
      (\<lambda>st. utf8_reject t op 3 b (with_bytes [b0, b1, b2, y] n st))"
    if no: "tail_byte b \<Longrightarrow> ?bad" for y n
  proof -
    have h: "head_char (b0 # b1 # b2 # b # rest) = None" for rest
      using no assms(2) lead_big [OF big]
      by (auto simp: head_char_def wf2_iff wf3_iff wf4_iff split: list.splits)
    have i: "\<not> incomplete (b0 # b1 # b2 # b # rest)" "rejected b0 (b1 # b2 # b # rest) = 2" for rest
      using no assms(2-4) by (auto simp: incomplete_def rejected_def)
    show ?thesis
      using reject_ok [OF assms(1), where bs = "[b0, b1, b2, y]" and p = "[b0, b1, b2]" and b = b and r = r and n = n]
        lead_big [OF big] tail_not_lead(2) [OF assms(3)] tail_not_lead(2) [OF assms(4)]
        utf8_events_reject [OF h i(1) big i(2)]
      by (simp add: numeral_2_eq_2)
  qed
  show ?thesis
  proof (cases "tail_byte b")
    case False
    then show ?thesis using rej [of x3 3] by (simp add: tail_byte_mask)
  next
    case tail: True
    then have m: "b AND 0xc0 = 0x80" by (simp add: tail_byte_mask)
    show ?thesis
    proof (cases ?bad)
      case True
      then show ?thesis
        using rej [of b 4] assms(2) m by (simp add: utf8_next_count utf8_fourth_def announced_mask)
    next
      case False
      then have w: "wf4 b0 b1 b2 b" using tail assms(2-4) unfolding wf4_iff by blast
      show ?thesis
        by (rule step_okI [where bs = "[b0, b1, b2, b]" and p' = "[]" and es = "[Put (code4 b0 b1 b2 b)]"])
          (use m assms(2) False utf8_events_char [OF head_char_wf(3) [OF w]] in
           \<open>auto simp: utf8_next_count utf8_fourth_def announced_mask code4_def [symmetric]
             put_blind Option.bind_map_option comp_def case_prod_beta split: bind_splits\<close>)
    qed
  qed
qed

end

lemma unat_or_push:
  fixes x y :: u32
  assumes y: "unat y < 2 ^ k" and le: "unat x * 2 ^ k + unat y < 2 ^ 32" and m: "m = 2 ^ k"
  shows "unat (push_bit k x OR y) = unat x * m + unat y"
proof -
  have "take_bit k (unat y) = unat y" using y by (simp add: take_bit_nat_eq_self)
  then have t: "take_bit k y = y" by (simp add: word_unat_eq_iff unsigned_take_bit_eq)
  have "push_bit k x AND y = 0"
  proof (rule bit_eqI)
    fix n
    show "bit (push_bit k x AND y) n \<longleftrightarrow> bit (0 :: u32) n"
      using t by (metis bit_0_eq bit_and_iff bit_push_bit_iff bit_take_bit_iff bot_apply bot_bool_def not_le)
  qed
  then have "push_bit k x OR y = push_bit k x + y" by (simp add: disjunctive_add_eq_or)
  moreover have "unat (push_bit k x) = unat x * 2 ^ k"
    using le by (simp add: unsigned_push_bit_eq push_bit_nat_def take_bit_nat_eq_self)
  ultimately show ?thesis using le m by (simp add: unat_sum)
qed

lemma unat_code2:
  assumes "unat a < 32" "unat b < 64"
  shows "unat (code2 (a OR 0xc0) (b OR 0x80)) = unat a * 64 + unat b"
  using assms lead2_byte [of a] cont_byte [of b]
  by (simp add: code2_def bits_def unat_or_push)

lemma shift3: "(push_bit 12 x OR push_bit 6 y) OR z = push_bit 6 (push_bit 6 x OR y) OR (z::u32)"
  by (simp add: push_bit_or)

lemma shift4: "((push_bit 18 x OR push_bit 12 y) OR push_bit 6 w) OR z = 
    push_bit 6 (push_bit 6 (push_bit 6 x OR y) OR w) OR (z::u32)"
  by (simp add: push_bit_or)

lemma unat_code3:
  assumes "unat a < 16" "unat b < 64" "unat d < 64"
  shows "unat (code3 (a OR 0xe0) (b OR 0x80) (d OR 0x80)) = unat a * 4096 + unat b * 64 + unat d"
  using assms lead3_byte [of a] cont_byte [of b] cont_byte [of d]
  by (simp add: code3_def bits_def shift3 unat_or_push)

lemma unat_code4:
  assumes "unat a < 5" "unat b < 64" "unat d < 64" "unat e < 64"
  shows "unat (code4 (a OR 0xf0) (b OR 0x80) (d OR 0x80) (e OR 0x80)) =
    unat a * 262144 + unat b * 4096 + unat d * 64 + unat e"
  using assms lead4_byte [of a] cont_byte [of b] cont_byte [of d] cont_byte [of e]
  by (simp add: code4_def bits_def shift4 unat_or_push)

lemma tail_byte_or: "unat b < 64 \<Longrightarrow> tail_byte (b OR 0x80)"
  using cont_byte [of b] by (simp add: tail_byte_mask)

lemma char_event_big: "0x80 \<le> unat c \<Longrightarrow> char_event c = c1_event c"
  "0xa0 \<le> unat c \<Longrightarrow> c1_event c = Put c"
  by (auto simp: char_event_def c1_event_def IsC0_def IsC1_def word_le_nat_alt)

lemma head_char_encoded:
  assumes "scalar c"
  shows "head_char (UTF32ToUTF8 c None @ rest) = Some (char_event c, rest)"
proof -
  have c: "unat c \<le> 0x10ffff" using assms by (simp add: scalar_def)
  then show ?thesis
  proof (cases rule: UTF32ToUTF8_cases)
    case one
    then have u: "unat (ucast c :: u8) = unat c" by (simp add: unsigned_ucast_eq take_bit_nat_eq_self)
    then have "ucast (ucast c :: u8) = c" by (simp add: word_unat_eq_iff)
    moreover have "announced (ucast c) = 1" using one u by (simp add: announced_def byte_order)
    ultimately show ?thesis using one by (simp add: head_char_one)
  next
    case (two a b)
    have "code2 (a OR 0xc0) (b OR 0x80) = c" using two by (simp add: word_unat_eq_iff unat_code2)
    moreover have "wf2 (a OR 0xc0) (b OR 0x80)"
      using two lead2_byte [OF two(5)] by (simp add: wf2_def tail_byte_or word_le_nat_alt)
    ultimately show ?thesis using two by (simp add: head_char_wf char_event_big)
  next
    case (three a b d)
    have "code3 (a OR 0xe0) (b OR 0x80) (d OR 0x80) = c"
      using three by (simp add: word_unat_eq_iff unat_code3)
    moreover have "wf3 (a OR 0xe0) (b OR 0x80) (d OR 0x80)"
      using three lead3_byte [OF three(4)] cont_byte [OF three(5)] tail_byte_or assms
      by (simp add: wf3_def byte_order scalar_def) linarith
    ultimately show ?thesis using three by (simp add: head_char_wf char_event_big)
  next
    case (four a b d e)
    have "code4 (a OR 0xf0) (b OR 0x80) (d OR 0x80) (e OR 0x80) = c"
      using four by (simp add: word_unat_eq_iff unat_code4)
    moreover have "wf4 (a OR 0xf0) (b OR 0x80) (d OR 0x80) (e OR 0x80)"
      using four lead4_byte [of a] cont_byte [OF four(4)] tail_byte_or c
      by (simp add: wf4_def byte_order)
    ultimately show ?thesis using four by (simp add: head_char_wf char_event_big)
  qed
qed

lemma utf8_events_text:
  "list_all scalar cs \<Longrightarrow> utf8_events r fb (utf8 cs @ rest) = apfst ((@) (map char_event cs)) (utf8_events r fb rest)"
proof (induction cs)
  case (Cons c cs)
  then have "utf8_events r fb (UTF32ToUTF8 c None @ (utf8 cs @ rest)) =
      apfst ((#) (char_event c)) (utf8_events r fb (utf8 cs @ rest))"
    by (intro utf8_events_char head_char_encoded) simp
  with Cons show ?case by (cases "utf8_events r fb rest") simp
qed simp

subsection \<open>The whole input\<close>

lemma utf8_events_open: "open_seq p \<Longrightarrow> utf8_events r fb p = ([], p)"
proof (cases p)
  case (Cons b0 bs)
  assume "open_seq p"
  then have o: "2 \<le> announced b0" "incomplete (b0 # bs)" using Cons by (auto simp: open_seq_def)
  have "head_char (b0 # bs) = None"
    using o lead_big [OF o(1)]
    by (auto simp: head_char_def wf2_iff wf3_iff wf4_iff incomplete_def split: list.splits)
  then show ?thesis using o Cons by (subst utf8_events.simps) simp
qed simp

lemma step_ok_cong:
  "(\<And>st. utf8_ready r (fst st) \<Longrightarrow> f st = g st) \<Longrightarrow> step_ok r fb op p f \<longleftrightarrow> step_ok r fb op p g"
  by (simp add: step_ok_def cong: conj_cong imp_cong)

context charset_client begin

lemma byte_ok:
  assumes "KanjiCode t = IdUTF8" "open_seq p" "length bs = 4" "take (length p) bs = p"
  shows "step_ok r (FallbackToCP932 t) op (p @ [b])
    (\<lambda>st. ParseFirst E t op b (with_bytes bs (int (length p)) st))"
proof -
  let ?f = "\<lambda>st. ParseFirst E t op b (with_bytes bs (int (length p)) st)"
  have f: "?f st = (if length p = 0 then utf8_first t op b (with_bytes bs 0 st)
      else if b AND 0xc0 \<noteq> 0x80 then utf8_reject t op (int (length p)) b (with_bytes bs (int (length p)) st)
      else utf8_next t op b (with_bytes bs (int (length p)) st))"
    if "utf8_ready r (fst st)" for st :: "CharSetData \<times> 'c"
    using that assms(1) by (simp add: ParseFirst_def ParseFirstUTF8_def utf8_ready_def case_prod_beta Let_def)
  obtain x0 x1 x2 x3 where bs: "bs = [x0, x1, x2, x3]"
    using assms(3) by (auto simp: length_Suc_conv eval_nat_numeral)
  have inc: "p = [] \<or> 2 \<le> announced x0 \<and> length p < announced x0 \<and> list_all tail_byte (tl p) \<and> hd p = x0"
    using assms(2,4) bs by (cases p) (auto simp: open_seq_def incomplete_def)
  have "announced x0 \<le> 4" by (cases x0 rule: announced_cases) auto
  then have three: "announced x0 = 3 \<or> announced x0 = 4" if "Suc (Suc 0) < announced x0"
    using that by linarith
  have "p = [] \<or> length p < 4" using inc \<open>announced x0 \<le> 4\<close> by auto
  then have "p = [] \<or> p = [x0] \<or> p = [x0, x1] \<or> p = [x0, x1, x2]"
    using assms(4) bs by (auto simp: take_Cons' split: if_splits)
  then consider "p = []" | "p = [x0]" "2 \<le> announced x0"
    | "p = [x0, x1]" "announced x0 = 3 \<or> announced x0 = 4" "tail_byte x1"
    | "p = [x0, x1, x2]" "announced x0 = 4" "tail_byte x1" "tail_byte x2"
    using inc three by (elim disjE) auto
  then have "step_ok r (FallbackToCP932 t) op (p @ [b])
      (\<lambda>st. if length p = 0 then utf8_first t op b (with_bytes bs 0 st)
      else if b AND 0xc0 \<noteq> 0x80 then utf8_reject t op (int (length p)) b (with_bytes bs (int (length p)) st)
      else utf8_next t op b (with_bytes bs (int (length p)) st))"
  proof cases
    case 1
    then show ?thesis using first_ok [OF assms(1,3)] by simp
  next
    case 2
    then show ?thesis using second_ok [OF assms(1)] bs by (simp cong: if_cong)
  next
    case 3
    then show ?thesis using third_ok [OF assms(1)] bs by (simp cong: if_cong)
  next
    case 4
    then show ?thesis using fourth_ok [OF assms(1)] bs by (simp cong: if_cong)
  qed
  then show ?thesis by (subst step_ok_cong) (erule f)
qed

lemma parse_bytes_utf8:
  assumes "KanjiCode t = IdUTF8" "utf8_ready r (fst st)" "open_seq p" "length bs = 4" "take (length p) bs = p"
    "utf8_events r (FallbackToCP932 t) (p @ input) = (es, p')"
  shows "\<exists>bs'. length bs' = 4 \<and> take (length p') bs' = p' \<and>
    parse_bytes E t op input (with_bytes bs (int (length p)) st) =
    map_option (with_bytes bs' (int (length p'))) (deliver op es st)"
  using assms(2-)
proof (induction input arbitrary: p bs st es)
  case Nil
  then have "es = [] \<and> p' = p" by (simp add: utf8_events_open)
  then show ?case using Nil by (auto intro: exI [of _ bs])
next
  case (Cons b input)
  obtain es1 p1 bs1 where one: "length bs1 = 4" "take (length p1) bs1 = p1" "open_seq p1"
    and run: "ParseFirst E t op b (with_bytes bs (int (length p)) st) =
      map_option (with_bytes bs1 (int (length p1))) (deliver op es1 st)"
    and ev: "utf8_events r (FallbackToCP932 t) ((p @ [b]) @ input) =
      apfst ((@) es1) (utf8_events r (FallbackToCP932 t) (p1 @ input))"
    using byte_ok [OF assms(1) Cons.prems(2-4), of r b E] Cons.prems(1) unfolding step_ok_def by blast
  obtain es2 where es2: "utf8_events r (FallbackToCP932 t) (p1 @ input) = (es2, p')" "es = es1 @ es2"
    using ev Cons.prems(5) by (cases "utf8_events r (FallbackToCP932 t) (p1 @ input)") auto
  have "\<exists>bs'. length bs' = 4 \<and> take (length p') bs' = p'"
    using Cons.IH [OF Cons.prems(1) one(3,1,2) es2(1)] by blast
  then show ?case
  proof (cases "deliver op es1 st")
    case None
    then show ?thesis using run es2 \<open>\<exists>bs'. _\<close> by (auto simp: deliver_append)
  next
    case (Some st1)
    then show ?thesis
      using Cons.IH [OF deliver_ready [OF Cons.prems(1) Some] one(3,1,2) es2(1)] run es2
      by (auto simp: deliver_append)
  qed
qed

end


subsection \<open>A client that records\<close>

record tracer =
  events :: "text_event list"
  ins_mode :: bool
  wrap_mode :: bool
  attribute :: TCharAttr

definition trace_op :: "tracer charset_op" where
  "trace_op = \<lparr>PutU32 = \<lambda>c st. Some (apsnd (events_update (\<lambda>es. es @ [Put c])) st),
     ParseControl = \<lambda>b st. Some (apsnd (events_update (\<lambda>es. es @ [Ctl b])) st),
     TermGetInsertMode = ins_mode, TermSetInsertMode = \<lambda>m. ins_mode_update (\<lambda>_. m),
     TermGetAutoWrapMode = wrap_mode, TermSetAutoWrapMode = \<lambda>m. wrap_mode_update (\<lambda>_. m),
     TermGetAttr = attribute, TermSetAttr = \<lambda>x. attribute_update (\<lambda>_. x)\<rparr>"

lemma trace_simps [simp]:
  "PutU32 trace_op c st = Some (apsnd (events_update (\<lambda>es. es @ [Put c])) st)"
  "ParseControl trace_op b st = Some (apsnd (events_update (\<lambda>es. es @ [Ctl b])) st)"
  by (simp_all add: trace_op_def)

lemma with_bytes_apsnd [simp]: "with_bytes bs n (apsnd f st) = apsnd f (with_bytes bs n st)"
  by (cases st) (simp add: with_bytes_def)

interpretation tr: charset_client trace_op
  by unfold_locales auto

lemma deliver_trace: "deliver trace_op es st = Some (apsnd (events_update (\<lambda>l. l @ es)) st)"
proof (induction es arbitrary: st)
  case Nil
  then show ?case by (cases st) simp
next
  case (Cons e es)
  then show ?case by (cases e; cases st) (simp_all add: comp_def)
qed

subsection \<open>Properties\<close>

text \<open>
  C22. In UTF-8, for every client, every input and however the input is cut into calls, the
  decoder delivers the events the table of well-formed sequences assigns to the input as a
  whole, and keeps exactly the bytes of an unfinished last character: no access outside
  its buffer, no failing assertion, at most three bytes kept.
\<close>

theorem utf8_decoder:
  assumes "charset_client op" "KanjiCode t = IdUTF8" "utf8_ready r (fst st)"
    "length (buf (fst st)) = 4" "count (fst st) = 0"
    "utf8_events r (FallbackToCP932 t) input = (es, rest)"
  shows "\<exists>bs. take (length rest) bs = rest \<and> parse_bytes E t op input st =
    map_option (with_bytes bs (int (length rest))) (deliver op es st)"
proof -
  have "with_bytes (buf (fst st)) (int (length ([] :: u8 list))) st = st"
    using assms(5) by (cases st) (simp add: with_bytes_def)
  then show ?thesis
    using charset_client.parse_bytes_utf8 [OF assms(1-3), where p = "[]" and bs = "buf (fst st)" and E = E]
      assms(4,6) by fastforce
qed

lemma utf8_text_delivered_lemma:
  assumes "charset_client op" "KanjiCode t = IdUTF8" "utf8_ready r (fst st)"
    "length (buf (fst st)) = 4" "count (fst st) = 0" "list_all scalar cs"
  shows "\<exists>bs. parse_bytes E t op (utf8 cs) st = map_option (with_bytes bs 0) (deliver op (map char_event cs) st)"
proof -
  have e: "utf8_events r (FallbackToCP932 t) (utf8 cs) = (map char_event cs, [])"
    using utf8_events_text [OF assms(6), of r "FallbackToCP932 t" "[]"] by simp
  have "with_bytes (buf (fst st)) (int (length ([] :: u8 list))) st = st"
    using assms(5) by (cases st) (simp add: with_bytes_def)
  then show ?thesis
    using charset_client.parse_bytes_utf8 [OF assms(1-3), where p = "[]" and bs = "buf (fst st)" and E = E] e
      assms(4) by fastforce
qed

text \<open>
  C23. UTF-8 text arrives: of a text of scalar values in UTF-8, each character is given to the
  terminal, once and in order, control codes (C0, and C1 behind C2) as controls and all
  others as characters, and nothing is kept.
\<close>

theorem utf8_text_delivered:
  assumes "charset_client op" "KanjiCode t = IdUTF8" "utf8_ready r (fst st)"
    "length (buf (fst st)) = 4" "count (fst st) = 0" "list_all scalar cs"
  shows "\<exists>bs. parse_bytes E t op (utf8 cs) st = map_option (with_bytes bs 0) (deliver op (map char_event cs) st)"
  using assms by (rule utf8_text_delivered_lemma)

subsection \<open>Safety in every code set\<close>

definition cs_ok :: "CharSetData \<Rightarrow> bool" where
  "cs_ok w \<longleftrightarrow> length (Glr w) = 2 \<and> set (Glr w) \<subseteq> {0..3} \<and> length (Gn w) = 4 \<and> 0 \<le> GLtmp w \<and> GLtmp w \<le> 3 \<and>
     length (buf w) = 4 \<and> 0 \<le> count w \<and> open_seq (take (nat (count w)) (buf w))"

text \<open>A state of the layer in order, with a client's data that satisfy its invariant.\<close>

definition ok_st :: "('c \<Rightarrow> bool) \<Rightarrow> CharSetData \<times> 'c \<Rightarrow> bool" where
  "ok_st ci st \<longleftrightarrow> cs_ok (fst st) \<and> ci (snd st)"

definition ok_res :: "('c \<Rightarrow> bool) \<Rightarrow> (CharSetData \<times> 'c) option \<Rightarrow> bool" where
  "ok_res ci r \<longleftrightarrow> (\<exists>st. r = Some st \<and> ok_st ci st)"

lemma ok_st_pair [simp]: "ok_st ci (w, a) \<longleftrightarrow> cs_ok w \<and> ci a"
  by (simp add: ok_st_def)

lemma ok_st_parts: "ok_st ci st \<Longrightarrow> cs_ok (fst st)" "ok_st ci st \<Longrightarrow> ci (snd st)"
  by (simp_all add: ok_st_def)

lemma ok_res_Some [simp]: "ok_res ci (Some st) \<longleftrightarrow> ok_st ci st"
  by (simp add: ok_res_def)

lemma ok_res_bind:
  "ok_res ci r \<Longrightarrow> (\<And>st. ok_st ci st \<Longrightarrow> ok_res ci (f st)) \<Longrightarrow> ok_res ci (Option.bind r f)"
  by (auto simp: ok_res_def)

lemma ok_res_bind_pair:
  "ok_res ci r \<Longrightarrow> (\<And>w a. cs_ok w \<Longrightarrow> ci a \<Longrightarrow> ok_res ci (f (w, a))) \<Longrightarrow> ok_res ci (Option.bind r f)"
  by (auto simp: ok_res_def)

lemma ok_res_lookup: "\<exists>c. r = Some c \<Longrightarrow> (\<And>c. ok_res ci (f c)) \<Longrightarrow> ok_res ci (Option.bind r f)"
  by auto

definition ok_with :: "('c \<Rightarrow> bool) \<Rightarrow> ((CharSetData \<times> 'c) \<times> 'd) option \<Rightarrow> bool" where
  "ok_with ci r \<longleftrightarrow> (\<exists>x. r = Some x \<and> ok_st ci (fst x))"

lemma ok_with_Some: "ok_with ci (Some x) \<longleftrightarrow> ok_st ci (fst x)"
  by (simp add: ok_with_def)

lemma ok_res_bind_with:
  "ok_with ci r \<Longrightarrow> (\<And>x. ok_st ci (fst x) \<Longrightarrow> ok_res ci (f x)) \<Longrightarrow> ok_res ci (Option.bind r f)"
  by (auto simp: ok_with_def)

lemma ok_res_if: "ok_res ci x \<Longrightarrow> ok_res ci y \<Longrightarrow> ok_res ci (if c then x else y)"
  by simp

definition ok_flag :: "(CharSetData \<times> bool) option \<Rightarrow> bool" where
  "ok_flag r \<longleftrightarrow> (\<exists>w first. r = Some (w, first) \<and> cs_ok w)"

lemma ok_flag_Some: "ok_flag (Some (w, f)) \<longleftrightarrow> cs_ok w"
  by (auto simp: ok_flag_def)

lemma ok_flag_if: "ok_flag x \<Longrightarrow> ok_flag y \<Longrightarrow> ok_flag (if c then x else y)"
  by simp

lemma ok_flag_lookup: "\<exists>c. r = Some c \<Longrightarrow> (\<And>c. ok_flag (f c)) \<Longrightarrow> ok_flag (Option.bind r f)"
  by auto

text \<open>
  The fields that may change without harm to the rest.
\<close>

lemma cs_ok_fields [simp]:
  "cs_ok (w\<lparr>SSflag := s\<rparr>) = cs_ok w" "cs_ok (w\<lparr>Fallbacked := s\<rparr>) = cs_ok w"
  "cs_ok (w\<lparr>KanjiIn := s\<rparr>) = cs_ok w" "cs_ok (w\<lparr>Kanji := k\<rparr>) = cs_ok w"
  "cs_ok (w\<lparr>EUCkanaIn := s\<rparr>) = cs_ok w" "cs_ok (w\<lparr>EUCsupIn := s\<rparr>) = cs_ok w"
  "cs_ok (w\<lparr>EUCcount := i\<rparr>) = cs_ok w" "cs_ok (w\<lparr>ConvJIS := s\<rparr>) = cs_ok w"
  "cs_ok (w\<lparr>DebugFlag := i\<rparr>) = cs_ok w"
  by (simp_all add: cs_ok_def)

lemma cs_ok_sets:
  assumes "cs_ok w"
  shows "\<exists>g. GL w = Some g" "\<exists>g. GR w = Some g" "\<exists>g. GT w = Some g"
proof -
  obtain x y where "Glr w = [x, y]" "0 \<le> x" "x \<le> 3" "0 \<le> y" "y \<le> 3"
    using assms by (auto simp: cs_ok_def length_Suc_conv numeral_2_eq_2)
  then show "\<exists>g. GL w = Some g" "\<exists>g. GR w = Some g" "\<exists>g. GT w = Some g"
    using assms by (auto simp: cs_ok_def GL_def GR_def GT_def rd_def in_arr_def)
qed

text \<open>The designations and invocations keep the subscripts in their arrays.\<close>

lemma cs_ok_Designate: "cs_ok w \<Longrightarrow> 0 \<le> gn \<Longrightarrow> gn \<le> 3 \<Longrightarrow>
    \<exists>w'. CharSet2022Designate gn cs w = Some w' \<and> cs_ok w'"
  by (auto simp: CharSet2022Designate_def cs_ok_def wr_def in_arr_def)

lemma cs_ok_Invoke: "cs_ok w \<Longrightarrow> \<exists>w'. CharSet2022Invoke shift w = Some w' \<and> cs_ok w'"
  by (cases shift; force simp: CharSet2022Invoke_def set_glr_def cs_ok_def wr_def in_arr_def
      dest!: set_update_subset_insert [THEN subsetD])

lemma cs_ok_Init: "cs_ok (CharSetInit t)"
  by (auto simp: CharSetInit_def CharSetInit2_def cs_ok_def)

lemma cs_ok_SaveLoad: "cs_ok w \<Longrightarrow> cs_ok v \<Longrightarrow> cs_ok (CharSetLoadState (CharSetSaveState w) v)"
  by (simp add: CharSetLoadState_def CharSetSaveState_def cs_ok_def)

text \<open>
  What the client promises beyond \<open>charset_client\<close>: as long as its invariant holds, it takes every
  character and every control, keeps the state of this layer in order, and keeps its invariant.
\<close>

locale total_client = charset_client op for op :: "'c charset_op" +
  fixes ci :: "'c \<Rightarrow> bool"
  assumes put_total: "ok_st ci st \<Longrightarrow> ok_res ci (PutU32 op c st)"
    and ctl_total: "ok_st ci st \<Longrightarrow> ok_res ci (ParseControl op b st)"
    and set_keeps: "ci a \<Longrightarrow> ci (TermSetInsertMode op m a)" "ci a \<Longrightarrow> ci (TermSetAutoWrapMode op m a)"
      "ci a \<Longrightarrow> ci (TermSetAttr op x a)"

text \<open>The tables answer for every code.\<close>

definition tables_answer :: "code_env \<Rightarrow> tset \<Rightarrow> bool" where
  "tables_answer E t \<longleftrightarrow> (\<forall>k. CP932ToUTF32 E k \<noteq> None) \<and> (\<forall>b. UnicodeFromSBCS (SBCSTable E) (KanjiCode t) b \<noteq> None)"

context total_client begin

lemmas client_total = put_total ctl_total

declare set_keeps [simp]

lemma deliver_total: "ok_st ci st \<Longrightarrow> ok_res ci (deliver op es st)"
proof (induction es arbitrary: st)
  case (Cons e es)
  then show ?case by (cases e) (auto intro!: ok_res_bind client_total)
qed simp

lemma put_all_total: "ok_st ci st \<Longrightarrow> ok_res ci (put_all op cs st)"
  by (induction cs arbitrary: st) (auto intro!: ok_res_bind client_total)

lemma dbcs_single_total: "ok_st ci st \<Longrightarrow> ok_res ci (dbcs_single op b st)"
  using cs_ok_sets [of "fst st", OF ok_st_parts(1) [of ci]] by (auto simp: dbcs_single_def intro!: client_total)

lemma ParseASCII_total: "ok_st ci st \<Longrightarrow> ok_res ci (ParseASCII op b st)"
  by (cases st) (auto simp: ParseASCII_def Let_def intro!: client_total ok_res_bind_pair)

lemma parse_rest_total: "ok_st ci st \<Longrightarrow> ok_res ci (parse_rest op b st)"
  by (cases st) (auto simp: parse_rest_def Let_def intro!: client_total ok_res_bind_pair)

lemma put_all_with: "cs_ok w \<Longrightarrow> ci a \<Longrightarrow> ok_with ci (Option.bind (put_all op cs (w, a)) (\<lambda>st. Some (st, y)))"
  using put_all_total [of "(w, a)" cs] by (auto simp: ok_res_def ok_with_def)

lemma PutDebugChar_total: "ok_st ci st \<Longrightarrow> ok_res ci (PutDebugChar op b st)"
  unfolding PutDebugChar_def Let_def case_prod_beta
  by (rule ok_res_bind_with) (auto simp: ok_with_Some ok_st_def simp del: put_all.simps intro!: put_all_with)

lemma parse_dbcs_total:
  assumes "ok_st ci st" and ex: "\<And>k. \<exists>c. MBCP_UTF32 E k cp = Some c"
  shows "ok_res ci (parse_dbcs E t second cp op b st)"
proof -
  obtain w a where st: "st = (w, a)" by (cases st)
  show ?thesis using assms(1) unfolding st parse_dbcs_def Let_def
    by (auto intro!: ok_res_lookup [OF ex] ok_res_bind_pair client_total dbcs_single_total)
qed

lemma MBCP_total: "cp \<noteq> 932 \<Longrightarrow> cp \<noteq> 0 \<Longrightarrow> \<exists>c. MBCP_UTF32 E k cp = Some c"
  by (auto simp: MBCP_UTF32_def split: option.splits)

lemma CheckKanji_total:
  assumes "cs_ok w"
  shows "ok_flag (CheckKanji t b w)"
proof -
  let ?v = "w\<lparr>ConvJIS := False\<rparr>"
  have g: "\<exists>g. GL ?v = Some g" "\<exists>g. GR ?v = Some g" using cs_ok_sets [of ?v] assms by auto
  show ?thesis unfolding CheckKanji_def Let_def
    by (intro ok_flag_if ok_flag_lookup [OF g(1)] ok_flag_lookup [OF g(2)]; simp add: ok_flag_Some assms)
qed

lemma jp_single_shift_total: "ok_st ci st \<Longrightarrow> ok_res ci (jp_single_shift op b st)"
  using cs_ok_sets [of "fst st", OF ok_st_parts(1) [of ci]]
  by (cases st) (auto simp: jp_single_shift_def intro!: ok_res_bind_pair client_total)

lemma put_sjis_total:
  assumes "ok_st ci st" "\<And>k. CP932ToUTF32 E k \<noteq> None"
  shows "ok_res ci (put_sjis E op b st)"
proof -
  have ex: "\<exists>c. CP932ToUTF32 E k = Some c" for k using assms(2) by blast
  then show ?thesis using assms(1) by (auto simp: put_sjis_def intro!: ok_res_lookup [OF ex] client_total)
qed

lemma jp_put_kanji_total:
  assumes "ok_st ci st" "\<And>k. CP932ToUTF32 E k \<noteq> None"
  shows "ok_res ci (jp_put_kanji E op b st)"
proof -
  have ex: "\<exists>c. CP932ToUTF32 E k = Some c" for k using assms(2) by blast
  then show ?thesis using assms(1)
    by (cases st) (auto simp: jp_put_kanji_def Let_def intro!: ok_res_lookup [OF ex] ok_res_bind_pair client_total)
qed


lemma jp_single_total:
  assumes "ok_st ci st" "\<And>k. CP932ToUTF32 E k \<noteq> None"
  shows "ok_res ci (jp_single E t op b st)"
proof -
  obtain w a where st: "st = (w, a)" by (cases st)
  have gl: "\<exists>g. GL w = Some g" and gr: "\<exists>g. GR w = Some g" using assms(1) cs_ok_sets st by auto
  note look = ok_res_lookup [OF gl] ok_res_lookup [OF gr]
  have "cs_ok (euc_skip w)" using assms(1) st by (simp add: euc_skip_def)
  then show ?thesis using assms(1) unfolding st jp_single_def Let_def prod.case
    by - (intro ok_res_if look ok_res_bind_pair client_total put_sjis_total [OF _ assms(2)];
      auto intro!: client_total split: id_kanji.split)
qed

lemma ParseFirstJP_total:
  assumes "ok_st ci st" "\<And>k. CP932ToUTF32 E k \<noteq> None"
  shows "ok_res ci (ParseFirstJP E t op b st)"
proof -
  obtain w a where st: "st = (w, a)" by (cases st)
  have "ok_res ci (do {
        (w, first) \<leftarrow> (if c then CheckKanji t b v else Some (v, False));
        if first then Some (w\<lparr>Kanji := push_bit 8 (ucast b), KanjiIn := True\<rparr>, a)
        else jp_single E t op b (w, a) })" if "cs_ok v" "ci a" for c v
    using CheckKanji_total [OF that(1), of t b, unfolded ok_flag_def] that jp_single_total [OF _ assms(2)] by auto
  then show ?thesis using assms(1) unfolding st ParseFirstJP_def
    by (auto simp: Let_def intro!: jp_put_kanji_total [OF _ assms(2)] jp_single_shift_total)
qed

lemma ParseCodePage_total:
  assumes "ok_st ci st" "UnicodeFromSBCS (SBCSTable E) k b \<noteq> None"
  shows "\<exists>r. ParseCodePage E k op b st = Some r \<and> ok_st ci (snd r)"
proof -
  obtain u where u: "UnicodeFromSBCS (SBCSTable E) k b = Some u" using assms(2) by blast
  have "ok_res ci (if v < 0x100 then ParseASCII op (word_of_int v) st else PutU32 op (word_of_int v) st)" for v
    using assms(1) by (simp add: ParseASCII_total put_total)
  then show ?thesis
  proof (cases u)
    case None
    then show ?thesis using u assms(1) by (simp add: ParseCodePage_def)
  next
    case (Some v)
    have "ok_res ci (if v < 0x100 then ParseASCII op (word_of_int v) st else PutU32 op (word_of_int v) st)"
      using assms(1) by (simp add: ParseASCII_total put_total)
    then obtain st' where
      "(if v < 0x100 then ParseASCII op (word_of_int v) st else PutU32 op (word_of_int v) st) = Some st'"
      "ok_st ci st'" by (auto simp: ok_res_def)
    then show ?thesis using u Some by (simp add: ParseCodePage_def)
  qed
qed

lemma ParseFirstUTF8_total:
  assumes "ok_st ci st" "\<And>k. CP932ToUTF32 E k \<noteq> None" "KanjiCode t = IdUTF8" "DebugFlag (fst st) = 0"
  shows "ok_res ci (ParseFirstUTF8 E t op b st)"
proof (cases "Fallbacked (fst st)")
  case True
  obtain w a where st: "st = (w, a)" by (cases st)
  show ?thesis using True assms(1) unfolding st ParseFirstUTF8_def
    by (auto intro!: ok_res_bind_pair ParseFirstJP_total [OF _ assms(2)])
next
  case False
  let ?w = "fst st" let ?p = "take (nat (count ?w)) (buf ?w)"
  have w: "open_seq ?p" "length (buf ?w) = 4" "0 \<le> count ?w" using ok_st_parts(1) [OF assms(1)] by (auto simp: cs_ok_def)
  have "length ?p < 4"
  proof (cases ?p)
    case (Cons x xs)
    have "announced x \<le> 4" by (cases x rule: announced_cases) auto
    then show ?thesis using w(1) Cons by (simp add: open_seq_def incomplete_def)
  next
    case Nil
    then have "count ?w = 0" using w by auto
    then show ?thesis by simp
  qed
  then have n: "int (length ?p) = count ?w" "take (length ?p) (buf ?w) = ?p" using w by auto
  then have id: "with_bytes (buf ?w) (int (length ?p)) st = st" by (cases st) (simp add: with_bytes_def)
  have ready: "utf8_ready (replacement_char ?w) ?w" using False assms(4) by (simp add: utf8_ready_def)
  obtain es p' bs where o: "length bs = 4" "take (length p') bs = p'" "open_seq p'"
    and run: "\<And>st. utf8_ready (replacement_char ?w) (fst st) \<Longrightarrow>
      ParseFirst E t op b (with_bytes (buf ?w) (int (length ?p)) st) =
      map_option (with_bytes bs (int (length p'))) (deliver op es st)"
    using byte_ok [OF assms(3) w(1,2) n(2), of "replacement_char ?w" b E] unfolding step_ok_def by blast
  have run: "ParseFirst E t op b st = map_option (with_bytes bs (int (length p'))) (deliver op es st)"
    using run [OF ready] by (simp only: id)
  have "ParseFirst E t op b st = ParseFirstUTF8 E t op b st" using assms(3,4) by (simp add: ParseFirst_def)
  moreover obtain st' where "deliver op es st = Some st'" "ok_st ci st'"
    using deliver_total [OF assms(1), of es] by (auto simp: ok_res_def)
  ultimately have "ParseFirstUTF8 E t op b st = Some (with_bytes bs (int (length p')) st')" using run by simp
  moreover have "ok_st ci (with_bytes bs (int (length p')) st')"
    using o \<open>ok_st ci st'\<close> by (simp add: ok_st_def cs_ok_def with_bytes_def del: with_bytes_upd)
  ultimately show ?thesis by (simp only: ok_res_Some)
qed

lemma ParseFirst_total:
  assumes "ok_st ci st" "tables_answer E t"
  shows "ok_res ci (ParseFirst E t op b st)"
proof (cases "DebugFlag (fst st) = 0")
  case False
  then show ?thesis using assms(1) by (simp add: ParseFirst_def PutDebugChar_total)
next
  case True
  have E: "\<And>k. CP932ToUTF32 E k \<noteq> None" using assms(2) by (simp add: tables_answer_def)
  have cp: "\<exists>r. ParseCodePage E (KanjiCode t) op b st = Some r \<and> ok_st ci (snd r)"
    using assms by (intro ParseCodePage_total) (auto simp: tables_answer_def)
  show ?thesis
  proof (cases "KanjiCode t")
    case IdUTF8
    then show ?thesis
      using True ParseFirstUTF8_total [OF assms(1) E] by (simp add: ParseFirst_def)
  next
    case IdDebug
    then show ?thesis using assms(1) by (simp add: ParseFirst_def PutDebugChar_total)
  qed (use True assms(1) cp in \<open>auto simp: ParseFirst_def ParseFirstKR_def ParseFirstCn_def ParseEnglish_def
      intro!: ParseFirstJP_total [OF _ E] parse_dbcs_total MBCP_total parse_rest_total\<close>)
qed

lemma parse_bytes_total:
  assumes "tables_answer E t"
  shows "ok_st ci st \<Longrightarrow> ok_res ci (parse_bytes E t op bs st)"
  by (induction bs arbitrary: st) (auto intro!: ok_res_bind ParseFirst_total [OF _ assms])

end


interpretation tt: total_client trace_op "\<lambda>a. True"
  by unfold_locales (auto simp: apsnd_def map_prod_def split: prod.splits)

subsection \<open>Concrete runs\<close>

definition sample_cenv :: code_env where
  "sample_cenv = \<lparr>MultiByteToWideChar = \<lambda>cp bs. Some 0x3042, GetACP = 932, mapSJISToUnicode = [],
     SBCSTable = \<lambda>k. []\<rparr>"

definition sample_tracer :: "CharSetData \<times> tracer" where
  "sample_tracer = (CharSetInit sample_tset, \<lparr>events = [], ins_mode = False, wrap_mode = False,
     attribute = CurCharAttr sample_screen\<rparr>)"

lemma sample_tracer_ready:
  "utf8_ready 0xfffd (fst sample_tracer)" "length (buf (fst sample_tracer)) = 4"
  "count (fst sample_tracer) = 0" "cs_ok (fst sample_tracer)" "KanjiCode sample_tset = IdUTF8"
  "FallbackToCP932 sample_tset = False"
  using cs_ok_Init [of sample_tset]
  by (simp_all add: sample_tracer_def CharSetInit_def CharSetInit2_def utf8_ready_def sample_tset_def)

lemma sample_events:
  "utf8_events 0xfffd False [0x41, 0xE3, 0x81, 0x82, 0xFF, 0xE0, 0x80, 0xC3] =
    ([Put 0x41, Put 0x3042, Put 0xfffd, Put 0xfffd, Put 0xfffd], [0xC3])"
proof -
  have "utf8_events 0xfffd False [0xC3] = ([], [0xC3])"
    by (rule utf8_events_open) (simp add: open_seq_def incomplete_def announced_def)
  moreover have "utf8_events 0xfffd False [0xE0, 0x80, 0xC3] =
      apfst ((@) (map (bad_byte 0xfffd False) [0xE0, 0x80])) (utf8_events 0xfffd False [0xC3])"
    by (subst utf8_events_reject [of _ _ "length [0x80 :: u8]"])
      (simp_all add: head_char_def wf2_def wf3_def tail_byte_def incomplete_def announced_def rejected_def)
  moreover have "utf8_events 0xfffd False (0xFF # [0xE0, 0x80, 0xC3]) =
      apfst ((#) (Put 0xfffd)) (utf8_events 0xfffd False [0xE0, 0x80, 0xC3])"
    by (rule utf8_events_invalid) (simp add: announced_def)
  moreover have "utf8_events 0xfffd False [0xE3, 0x81, 0x82, 0xFF, 0xE0, 0x80, 0xC3] =
      apfst ((#) (Put (code3 0xE3 0x81 0x82))) (utf8_events 0xfffd False (0xFF # [0xE0, 0x80, 0xC3]))"
    by (rule utf8_events_char) (simp add: head_char_def wf2_def wf3_def tail_byte_def)
  moreover have "utf8_events 0xfffd False [0x41, 0xE3, 0x81, 0x82, 0xFF, 0xE0, 0x80, 0xC3] =
      apfst ((#) (char_event 0x41)) (utf8_events 0xfffd False [0xE3, 0x81, 0x82, 0xFF, 0xE0, 0x80, 0xC3])"
    by (rule utf8_events_char) (simp add: head_char_def)
  ultimately show ?thesis
    by (simp add: code3_def bits_def char_event_def c1_event_def IsC0_def IsC1_def bad_byte_def)
qed

theorem utf8_decoder_witness:
  "\<exists>w a. parse_bytes sample_cenv sample_tset trace_op [0x41, 0xE3, 0x81, 0x82, 0xFF, 0xE0, 0x80, 0xC3] sample_tracer
      = Some (w, a) \<and> events a = [Put 0x41, Put 0x3042, Put 0xfffd, Put 0xfffd, Put 0xfffd] \<and> count w = 1"
proof -
  obtain bs where "parse_bytes sample_cenv sample_tset trace_op [0x41, 0xE3, 0x81, 0x82, 0xFF, 0xE0, 0x80, 0xC3] sample_tracer
      = map_option (with_bytes bs (int (length [0xC3 :: u8])))
         (deliver trace_op [Put 0x41, Put 0x3042, Put 0xfffd, Put 0xfffd, Put 0xfffd] sample_tracer)"
    using utf8_decoder [OF tr.charset_client_axioms sample_tracer_ready(5,1,2,3), where E = sample_cenv]
      sample_events sample_tracer_ready(6) by metis
  then show ?thesis by (simp only: deliver_trace) (simp add: sample_tracer_def with_bytes_def)
qed

theorem utf8_text_delivered_witness:
  "\<exists>w a. parse_bytes sample_cenv sample_tset trace_op (utf8 [0x1b, 0x85, 0x3042, 0x1F600]) sample_tracer
      = Some (w, a) \<and> events a = [Ctl 0x1b, Ctl 0x85, Put 0x3042, Put 0x1F600] \<and> count w = 0"
proof -
  have "list_all scalar [0x1b, 0x85, 0x3042, 0x1F600]" by (simp add: scalar_def)
  then obtain bs where "parse_bytes sample_cenv sample_tset trace_op (utf8 [0x1b, 0x85, 0x3042, 0x1F600]) sample_tracer
      = map_option (with_bytes bs 0) (deliver trace_op (map char_event [0x1b, 0x85, 0x3042, 0x1F600]) sample_tracer)"
    using utf8_text_delivered [OF tr.charset_client_axioms sample_tracer_ready(5,1,2,3), where E = sample_cenv]
    by blast
  then show ?thesis
    by (simp only: deliver_trace) (simp add: sample_tracer_def with_bytes_def char_event_def c1_event_def IsC0_def IsC1_def)
qed

subsection \<open>What the code does not do as intended\<close>

text \<open>
  EUC-JP: SS3 (8F) introduces a character of two more bytes, of which the code drops only the
  first; the second is taken for the first byte of a double-byte character, which swallows
  the byte behind it.
\<close>

lemma euc_ss3_drops_one:
  assumes "KanjiCode t = IdEUC" "ISO2022Flag t AND ISO2022_SS3 \<noteq> 0" "DebugFlag w = 0" "0xA1 \<le> b1" "b1 \<le> 0xFE" "0xA1 \<le> b2" "b2 \<le> 0xFE"
    "\<not> KanjiIn w" "\<not> SSflag w" "\<not> EUCsupIn w" "\<not> EUCkanaIn w" "cs_ok w"
  shows "\<exists>w'. parse_bytes E t op [0x8F, b1, b2] (w, a) = Some (w', a) \<and> KanjiIn w' \<and> Kanji w' = push_bit 8 (ucast b2)"
proof -
  let ?w1 = "w\<lparr>ConvJIS := False, EUCcount := 2, EUCsupIn := True\<rparr>"
  have P: "ParseFirst E t op b (v, a) = ParseFirstJP E t op b (v, a)" if "DebugFlag v = 0" for b v
    using assms(1) that by (simp add: ParseFirst_def)
  have J: "LangIsJapanese IdEUC" by (simp add: LangIsJapanese_def)
  have w: "w\<lparr>KanjiIn := False\<rparr> = w" using assms(8) by (cases w) simp
  have first: "ParseFirst E t op 0x8F (w, a) = Some (?w1, a)"
    using assms by (simp add: P ParseFirstJP_def jp_second_def CheckKanji_def J Let_def jp_single_def)
  have "b1 \<noteq> 0xA0" "\<not> b1 \<le> 0x1f" "b1 \<noteq> 0x20" "\<not> b1 \<le> 0x7E" "b1 \<noteq> 0x7f" "\<not> b1 \<le> 0x8D" "b1 \<noteq> 0x8E" "b1 \<noteq> 0x8F" "\<not> b1 \<le> 0x9F"
    using assms(4) by (auto simp: byte_order)
  then have second: "ParseFirst E t op b1 (?w1, a) = Some (euc_skip ?w1, a)"
    using assms by (simp add: P ParseFirstJP_def jp_second_def Let_def jp_single_def)
  obtain g where g: "GR (euc_skip ?w1\<lparr>ConvJIS := False\<rparr>) = Some g"
    using cs_ok_sets(2) [of "euc_skip ?w1\<lparr>ConvJIS := False\<rparr>"] assms(12) by (auto simp: euc_skip_def)
  have "\<not> b2 \<le> 0x7e" using assms(6) by (auto simp: byte_order)
  then have "ParseFirst E t op b2 (euc_skip ?w1, a) =
      Some ((euc_skip ?w1)\<lparr>ConvJIS := True, Kanji := push_bit 8 (ucast b2), KanjiIn := True\<rparr>, a)"
    using assms g by (simp add: P ParseFirstJP_def jp_second_def CheckKanji_def J Let_def euc_skip_def)
  with first second show ?thesis by simp
qed

text \<open>A half-width katakana behind SS2 is put as the Latin-1 character with its code.\<close>

lemma single_shift_katakana:
  assumes "SSflag w" "\<not> KanjiIn w" "GT w = Some IdKatakana"
  shows "ParseFirstJP E t trace_op 0xB1 (w, a) =
    Some (w\<lparr>SSflag := False\<rparr>, a\<lparr>events := events a @ [Put 0xB1]\<rparr>)"
  using assms by (simp add: ParseFirstJP_def jp_second_def jp_single_shift_def)

text \<open>The debug output does not restore the attributes it saved.\<close>

lemma debug_output_attribute:
  assumes "DebugFlag w = 1"
  shows "\<exists>a'. PutDebugChar trace_op 0x41 (w, a) = Some (w, a') \<and> attribute a' = (attribute a)\<lparr>Attr := AttrDefault\<rparr>"
  using assms by (simp add: PutDebugChar_def trace_op_def Let_def AttrDefault_def)

text \<open>In UTF-8 no input makes the decoder fall back to Shift_JIS, whatever the setting.\<close>

lemma utf8_never_falls_back:
  assumes "charset_client op" "KanjiCode t = IdUTF8" "utf8_ready r (fst st)"
    "length (buf (fst st)) = 4" "count (fst st) = 0" "parse_bytes E t op input st = Some st'"
  shows "\<not> Fallbacked (fst st')"
proof -
  obtain es rest where e: "utf8_events r (FallbackToCP932 t) input = (es, rest)" by (cases "utf8_events r (FallbackToCP932 t) input")
  have "with_bytes (buf (fst st)) (int (length ([] :: u8 list))) st = st"
    using assms(5) by (cases st) (simp add: with_bytes_def)
  then obtain bs where "parse_bytes E t op input st = map_option (with_bytes bs (int (length rest))) (deliver op es st)"
    using charset_client.parse_bytes_utf8 [OF assms(1-3), where p = "[]" and bs = "buf (fst st)" and E = E and es = es and p' = rest and input = input] assms(4) e
    by auto
  then show ?thesis using charset_client.deliver_ready [OF assms(1,3), of es] assms(6)
    by (cases "deliver op es st") (auto simp: utf8_ready_def)
qed

declare with_bytes_upd [simp del]

lemma snd_with_bytes [simp]: "snd (with_bytes bs n st) = snd st"
  by (simp add: with_bytes_def)

end
