(* ===== verification/ClipText.thy ===== *)
theory ClipText
  imports CharsetUtf8
begin

section \<open>Text received for the clipboard (ConvertUTF16 of teraterm/teraterm/vtterm.c)\<close>

text \<open>
  The second client of charset.cpp: the bytes of an OSC 52 sequence are decoded like received
  text into a UTF-16 buffer that grows. The buffer keeps its \<open>size\<close> as the length of the list;
  what lies behind \<open>index\<close> is never read. \<open>alloc n\<close> tells whether \<open>realloc\<close> finds \<open>n\<close> characters.
\<close>

record CharSetBuf =
  ptr :: "u16 list"
  index :: int

definition grow :: "(int \<Rightarrow> bool) \<Rightarrow> CharSetBuf \<Rightarrow> CharSetBuf option" where
  "grow alloc d =
     (if index d + 2 > int (length (ptr d))
      then if alloc (int (length (ptr d)) + 4) then Some (d\<lparr>ptr := ptr d @ replicate 4 0\<rparr>) else None
      else Some d)"

fun wr_all :: "u16 list \<Rightarrow> int \<Rightarrow> u16 list \<Rightarrow> u16 list option" where
  "wr_all xs i [] = Some xs"
| "wr_all xs i (u # us) = do { xs \<leftarrow> wr xs i u; wr_all xs (i + 1) us }"

definition PutU32Buf :: "(int \<Rightarrow> bool) \<Rightarrow> u32 \<Rightarrow> CharSetBuf \<Rightarrow> CharSetBuf option" where
  "PutU32Buf alloc code d =
     (case grow alloc d of
        None \<Rightarrow> Some d
      | Some d \<Rightarrow>
          if index d < int (length (ptr d))
          then do {
            let u16 = UTF32ToUTF16 code;
            p \<leftarrow> wr_all (ptr d) (index d) u16;
            Some (d\<lparr>ptr := p, index := index d + int (length u16)\<rparr>)
          }
          else Some d)"

definition ParseControlBuf :: "(int \<Rightarrow> bool) \<Rightarrow> u8 \<Rightarrow> CharSetBuf \<Rightarrow> CharSetBuf option" where
  "ParseControlBuf alloc b d = PutU32Buf alloc (ucast b) d"

definition DefCharAttr :: TCharAttr where
  "DefCharAttr = \<lparr>Attr = AttrDefault, Attr2 = AttrDefault, AttrEx = ucast AttrDefault,
     Fore = AttrDefaultFG, Back = AttrDefaultBG\<rparr>"

text \<open>
  The callbacks. A decoder just initialised does not produce debug output, so the functions
  that only the debug output calls are never reached here.
\<close>

definition buf_op :: "(int \<Rightarrow> bool) \<Rightarrow> CharSetBuf charset_op" where
  "buf_op alloc = \<lparr>
     PutU32 = \<lambda>c st. map_option (Pair (fst st)) (PutU32Buf alloc c (snd st)),
     ParseControl = \<lambda>b st. map_option (Pair (fst st)) (ParseControlBuf alloc b (snd st)),
     TermGetInsertMode = \<lambda>d. False, TermSetInsertMode = \<lambda>m d. d,
     TermGetAutoWrapMode = \<lambda>d. False, TermSetAutoWrapMode = \<lambda>m d. d,
     TermGetAttr = \<lambda>d. DefCharAttr, TermSetAttr = \<lambda>x d. d\<rparr>"

definition ConvertUTF16 :: "code_env \<Rightarrow> tset \<Rightarrow> (int \<Rightarrow> bool) \<Rightarrow> u8 list \<Rightarrow> u16 list option" where
  "ConvertUTF16 E t alloc bytes =
     do {
       (w, d) \<leftarrow> parse_bytes E t (buf_op alloc) bytes (CharSetInit t, \<lparr>ptr = replicate 32 0, index = 0\<rparr>);
       d \<leftarrow> PutU32Buf alloc 0 d;
       Some (ptr d)
     }"

subsection \<open>The buffer\<close>

lemma wr_all_append: "0 \<le> i \<Longrightarrow> nat i + length us \<le> length xs \<Longrightarrow>
    wr_all xs i us = Some (take (nat i) xs @ us @ drop (nat i + length us) xs)"
proof (induction us arbitrary: xs i)
  case (Cons u us)
  have "wr xs i u = Some (xs[nat i := u])" using Cons.prems by (simp add: wr_def in_arr_def)
  moreover have "take (nat (i + 1)) (xs[nat i := u]) = take (nat i) xs @ [u]"
    using Cons.prems by (simp add: nat_add_distrib take_Suc_conv_app_nth)
  ultimately show ?case using Cons by (simp add: nat_add_distrib)
qed simp

definition buf_holds :: "u16 list \<Rightarrow> CharSetBuf \<Rightarrow> bool" where
  "buf_holds out d \<longleftrightarrow> index d = int (length out) \<and> (\<exists>r. ptr d = out @ r)"

lemma UTF32ToUTF16_length: "length (UTF32ToUTF16 c) \<le> 2"
  by (simp add: UTF32ToUTF16_def)

lemma PutU32Buf_holds:
  assumes "\<forall>n. alloc n" "buf_holds out d"
  shows "\<exists>d'. PutU32Buf alloc c d = Some d' \<and> buf_holds (out @ UTF32ToUTF16 c) d'"
proof -
  obtain r where d: "index d = int (length out)" "ptr d = out @ r" using assms(2) by (auto simp: buf_holds_def)
  obtain r' where g: "grow alloc d = Some (d\<lparr>ptr := out @ r'\<rparr>)" "2 \<le> length r'"
  proof (cases "length r < 2")
    case True
    then show thesis using d assms(1) that [of "r @ replicate 4 0"] by (simp add: grow_def)
  next
    case False
    then have "d\<lparr>ptr := out @ r\<rparr> = d" using d by (cases d) simp
    then show thesis using False d that [of r] by (simp add: grow_def)
  qed
  have "wr_all (out @ r') (index d) (UTF32ToUTF16 c) =
      Some (out @ UTF32ToUTF16 c @ drop (length (UTF32ToUTF16 c)) r')"
    using wr_all_append [of "index d" "UTF32ToUTF16 c" "out @ r'"] d g(2) UTF32ToUTF16_length [of c] by simp
  moreover have "r' \<noteq> []" using g(2) by auto
  ultimately show ?thesis using d g(1)
    by (simp add: PutU32Buf_def buf_holds_def Let_def)
qed

interpretation cb: charset_client "buf_op alloc"
proof unfold_locales
  fix c b bs n and st :: "CharSetData \<times> CharSetBuf"
  show "PutU32 (buf_op alloc) c (with_bytes bs n st) = map_option (with_bytes bs n) (PutU32 (buf_op alloc) c st)"
    by (cases "PutU32Buf alloc c (snd st)") (simp_all add: buf_op_def with_bytes_def)
  show "ParseControl (buf_op alloc) b (with_bytes bs n st) = map_option (with_bytes bs n) (ParseControl (buf_op alloc) b st)"
    by (cases "ParseControlBuf alloc b (snd st)") (simp_all add: buf_op_def with_bytes_def)
qed (auto simp: buf_op_def)

text \<open>Whether or not the buffer can grow, nothing is written outside it.\<close>

definition buf_fits :: "CharSetBuf \<Rightarrow> bool" where
  "buf_fits d \<longleftrightarrow> 0 \<le> index d \<and> index d \<le> int (length (ptr d))"

lemma PutU32Buf_fits:
  assumes "buf_fits d"
  shows "\<exists>d'. PutU32Buf alloc c d = Some d' \<and> buf_fits d'"
proof (cases "grow alloc d")
  case None
  then show ?thesis using assms by (simp add: PutU32Buf_def)
next
  case (Some e)
  let ?u = "UTF32ToUTF16 c"
  have e: "index e = index d" "0 \<le> index e" "index e + 2 \<le> int (length (ptr e))"
    using Some assms by (auto simp: grow_def buf_fits_def split: if_splits)
  then have i: "nat (index e) + length ?u \<le> length (ptr e)" using UTF32ToUTF16_length [of c] by linarith
  then show ?thesis using Some e wr_all_append [OF e(2) i]
    by (simp add: PutU32Buf_def buf_fits_def Let_def)
qed

lemma buf_op_total:
  assumes "ok_st buf_fits st"
  shows "ok_res buf_fits (PutU32 (buf_op alloc) c st)" "ok_res buf_fits (ParseControl (buf_op alloc) b st)"
proof -
  have put: "ok_res buf_fits (map_option (Pair (fst st)) (PutU32Buf alloc k (snd st)))" for k
    using PutU32Buf_fits [OF ok_st_parts(2) [OF assms], of alloc k] ok_st_parts(1) [OF assms] by auto
  show "ok_res buf_fits (PutU32 (buf_op alloc) c st)" "ok_res buf_fits (ParseControl (buf_op alloc) b st)"
    using put by (simp_all add: buf_op_def ParseControlBuf_def)
qed

interpretation tb: total_client "buf_op alloc" buf_fits
  by unfold_locales (auto simp: buf_op_total, auto simp: buf_op_def)



text \<open>So the conversion for the clipboard returns in every code set, for every input.\<close>

lemma ConvertUTF16_returns:
  assumes "tables_answer E t"
  shows "\<exists>out. ConvertUTF16 E t alloc bytes = Some out"
proof -
  have "ok_st buf_fits (CharSetInit t, \<lparr>ptr = replicate 32 0, index = 0\<rparr>)"
    by (simp add: cs_ok_Init buf_fits_def)
  from tb.parse_bytes_total [OF assms this, of alloc bytes] obtain w d where
    r: "parse_bytes E t (buf_op alloc) bytes (CharSetInit t, \<lparr>ptr = replicate 32 0, index = 0\<rparr>) = Some (w, d)"
    and d: "buf_fits d" by (auto simp: ok_res_def)
  obtain d' where "PutU32Buf alloc 0 d = Some d'" using PutU32Buf_fits [OF d] by blast
  then show ?thesis by (simp add: ConvertUTF16_def r)
qed

lemma deliver_buf:
  assumes "\<forall>n. alloc n" "list_all scalar cs" "buf_holds out d"
  shows "\<exists>d'. deliver (buf_op alloc) (map char_event cs) (w, d) = Some (w, d') \<and> buf_holds (out @ utf16 cs) d'"
  using assms(2,3)
proof (induction cs arbitrary: out d)
  case (Cons c cs)
  obtain d1 where d1: "PutU32Buf alloc c d = Some d1" "buf_holds (out @ UTF32ToUTF16 c) d1"
    using PutU32Buf_holds [OF assms(1) Cons.prems(2)] by blast
  have "deliver (buf_op alloc) [char_event c] (w, d) = Some (w, d1)"
  proof (cases "IsC0 c \<or> IsC1 c")
    case True
    then have "unat c < 256" by (auto simp: IsC0_def IsC1_def word_le_nat_alt)
    then have "unat (ucast c :: u8) = unat c" by (simp add: unsigned_ucast_eq take_bit_nat_eq_self)
    then have "ucast (ucast c :: u8) = c" by (simp add: word_unat_eq_iff)
    then show ?thesis using True d1 by (auto simp: char_event_def c1_event_def buf_op_def ParseControlBuf_def)
  next
    case False
    then show ?thesis using d1 by (simp add: char_event_def c1_event_def buf_op_def)
  qed
  moreover obtain d2 where "deliver (buf_op alloc) (map char_event cs) (w, d1) = Some (w, d2)"
      "buf_holds ((out @ UTF32ToUTF16 c) @ utf16 cs) d2"
    using Cons.IH [OF _ d1(2)] Cons.prems(1) by auto
  ultimately show ?case using deliver_append [of "buf_op alloc" "[char_event c]" "map char_event cs" "(w, d)"] by simp
qed simp

text \<open>
  C25. UTF-8 text sent for the clipboard arrives as the same text in UTF-16, terminated by a NUL:
  the growing buffer neither loses a character nor writes outside.
\<close>

theorem ConvertUTF16_utf8:
  assumes "\<forall>n. alloc n" "KanjiCode t = IdUTF8" "list_all scalar cs"
  shows "\<exists>r. ConvertUTF16 E t alloc (utf8 cs) = Some (utf16 cs @ 0 # r)"
proof -
  let ?st = "(CharSetInit t, \<lparr>ptr = replicate 32 0, index = 0\<rparr>)"
  have init: "utf8_ready 0xfffd (fst ?st)" "length (buf (fst ?st)) = 4" "count (fst ?st) = 0"
    by (simp_all add: CharSetInit_def CharSetInit2_def utf8_ready_def)
  have "buf_holds [] (snd ?st)" by (simp add: buf_holds_def)
  then obtain d where d: "deliver (buf_op alloc) (map char_event cs) ?st = Some (CharSetInit t, d)" "buf_holds (utf16 cs) d"
    using deliver_buf [OF assms(1,3), of "[]" "snd ?st" "fst ?st"] by auto
  obtain bs where "parse_bytes E t (buf_op alloc) (utf8 cs) ?st =
      map_option (with_bytes bs 0) (deliver (buf_op alloc) (map char_event cs) ?st)"
    using utf8_text_delivered_lemma [OF cb.charset_client_axioms assms(2) init assms(3)] by blast
  moreover obtain d' where "PutU32Buf alloc 0 d = Some d'" "buf_holds (utf16 cs @ UTF32ToUTF16 0) d'"
    using PutU32Buf_holds [OF assms(1) d(2)] by blast
  ultimately show ?thesis using d
    by (auto simp: ConvertUTF16_def with_bytes_def buf_holds_def UTF32ToUTF16_def)
qed

theorem ConvertUTF16_utf8_witness:
  "\<exists>r. ConvertUTF16 sample_cenv sample_tset (\<lambda>n. True) (utf8 [0x41, 0x1F600]) = Some ([0x41, 0xd83d, 0xde00, 0] @ r)"
proof -
  have "list_all scalar [0x41, 0x1F600]" by (simp add: scalar_def)
  then show ?thesis
    using ConvertUTF16_utf8 [of "\<lambda>n. True" sample_tset "[0x41, 0x1F600]" sample_cenv] sample_tracer_ready(5)
    by (simp add: UTF32ToUTF16_def)
qed

end
