(* ===== verification/CheckEol.thy ===== *)
theory CheckEol
  imports TT_Prelude
begin

section \<open>Finding line ends (teraterm/teraterm/checkeol.cpp)\<close>

text \<open>
  The automaton that recognises CR, LF and CR LF, in its two variants: for text read from a
  file or the clipboard, and for the log. \<open>CheckEOLRet\<close> is a set of two bits: output a line
  end, output the character.
\<close>

datatype CheckEOLType = CheckEOLTypeFile | CheckEOLTypeLog

record CheckEOLData =
  eol_type :: CheckEOLType
  cr_hold :: bool

record CheckEOLRet =
  OutputEOL :: bool
  OutputChar :: bool

definition CheckEOLCreate :: "CheckEOLType \<Rightarrow> CheckEOLData" where
  "CheckEOLCreate type = \<lparr>eol_type = type, cr_hold = False\<rparr>"

definition CheckEOLClear :: "CheckEOLData \<Rightarrow> CheckEOLData" where
  "CheckEOLClear d = d\<lparr>cr_hold := False\<rparr>"

definition CheckEOLCheckFile :: "u32 \<Rightarrow> CheckEOLData \<Rightarrow> CheckEOLData \<times> CheckEOLRet" where
  "CheckEOLCheckFile c d =
     (if \<not> cr_hold d
      then if c = 0x0D then (d\<lparr>cr_hold := True\<rparr>, \<lparr>OutputEOL = False, OutputChar = False\<rparr>)
        else if c = 0x0A then (d, \<lparr>OutputEOL = True, OutputChar = False\<rparr>)
        else (d, \<lparr>OutputEOL = False, OutputChar = True\<rparr>)
      else if c = 0x0D then (d, \<lparr>OutputEOL = True, OutputChar = False\<rparr>)
        else if c = 0x0A then (d\<lparr>cr_hold := False\<rparr>, \<lparr>OutputEOL = True, OutputChar = False\<rparr>)
        else (d\<lparr>cr_hold := False\<rparr>, \<lparr>OutputEOL = True, OutputChar = True\<rparr>))"

definition CheckEOLCheckLog :: "u32 \<Rightarrow> CheckEOLData \<Rightarrow> CheckEOLData \<times> CheckEOLRet" where
  "CheckEOLCheckLog c d =
     (if c = 0x0D then (d\<lparr>cr_hold := True\<rparr>, \<lparr>OutputEOL = False, OutputChar = False\<rparr>)
      else if c = 0x0A
      then if cr_hold d then (d\<lparr>cr_hold := False\<rparr>, \<lparr>OutputEOL = True, OutputChar = False\<rparr>)
        else (d, \<lparr>OutputEOL = False, OutputChar = True\<rparr>)
      else (d\<lparr>cr_hold := False\<rparr>, \<lparr>OutputEOL = False, OutputChar = True\<rparr>))"

definition CheckEOLCheck :: "u32 \<Rightarrow> CheckEOLData \<Rightarrow> CheckEOLData \<times> CheckEOLRet" where
  "CheckEOLCheck c d =
     (case eol_type d of CheckEOLTypeFile \<Rightarrow> CheckEOLCheckFile c d | CheckEOLTypeLog \<Rightarrow> CheckEOLCheckLog c d)"

subsection \<open>What it makes of a text\<close>

text \<open>The tokens of a text: line ends and other characters.\<close>

datatype eol_token = EOL | Chr u32

definition tokens_of :: "u32 \<Rightarrow> CheckEOLRet \<Rightarrow> eol_token list" where
  "tokens_of c r = (if OutputEOL r then [EOL] else []) @ (if OutputChar r then [Chr c] else [])"

fun check_all :: "u32 list \<Rightarrow> CheckEOLData \<Rightarrow> CheckEOLData \<times> eol_token list" where
  "check_all [] d = (d, [])"
| "check_all (c # cs) d =
     (let (d, r) = CheckEOLCheck c d; (d, ts) = check_all cs d in (d, tokens_of c r @ ts))"

text \<open>The reference: CR LF, CR and LF each end a line.\<close>

fun line_tokens :: "u32 list \<Rightarrow> eol_token list" where
  "line_tokens [] = []"
| "line_tokens (c # cs) =
     (if c = 0x0D then (case cs of [] \<Rightarrow> [EOL]
        | c' # cs' \<Rightarrow> EOL # line_tokens (if c' = 0x0A then cs' else cs))
      else (if c = 0x0A then EOL else Chr c) # line_tokens cs)"

text \<open>In the log, CR LF ends a line, a CR that no LF follows is dropped, a LF is a character.\<close>

fun log_tokens :: "u32 list \<Rightarrow> eol_token list" where
  "log_tokens [] = []"
| "log_tokens (c # cs) =
     (if c = 0x0D then (case cs of [] \<Rightarrow> []
        | c' # cs' \<Rightarrow> if c' = 0x0A then EOL # log_tokens cs' else log_tokens cs)
      else Chr c # log_tokens cs)"

lemma check_file:
  "eol_type d = CheckEOLTypeFile \<Longrightarrow> \<exists>d' ts. check_all cs d = (d', ts) \<and>
     ts @ (if cr_hold d' then [EOL] else []) = line_tokens ((if cr_hold d then [0x0D] else []) @ cs)"
proof (induction cs arbitrary: d)
  case (Cons c cs)
  obtain d1 r where one: "CheckEOLCheck c d = (d1, r)" by (cases "CheckEOLCheck c d")
  have type: "eol_type d1 = CheckEOLTypeFile"
    using Cons.prems one by (auto simp: CheckEOLCheck_def CheckEOLCheckFile_def split: if_splits)
  obtain d' ts where run: "check_all cs d1 = (d', ts)"
    "ts @ (if cr_hold d' then [EOL] else []) = line_tokens ((if cr_hold d1 then [0x0D] else []) @ cs)"
    using Cons.IH [OF type] by blast
  have "tokens_of c r @ line_tokens ((if cr_hold d1 then [0x0D] else []) @ cs) =
      line_tokens ((if cr_hold d then [0x0D] else []) @ c # cs)"
    using Cons.prems one
    by (auto simp: CheckEOLCheck_def CheckEOLCheckFile_def tokens_of_def split: if_splits list.splits)
  then show ?case using one run by (auto simp: Let_def)
qed simp

lemma check_log:
  "eol_type d = CheckEOLTypeLog \<Longrightarrow> \<exists>d' ts. check_all cs d = (d', ts) \<and>
     ts = log_tokens ((if cr_hold d then [0x0D] else []) @ cs)"
proof (induction cs arbitrary: d)
  case (Cons c cs)
  obtain d1 r where one: "CheckEOLCheck c d = (d1, r)" by (cases "CheckEOLCheck c d")
  have type: "eol_type d1 = CheckEOLTypeLog"
    using Cons.prems one by (auto simp: CheckEOLCheck_def CheckEOLCheckLog_def split: if_splits)
  obtain d' where run: "check_all cs d1 = (d', log_tokens ((if cr_hold d1 then [0x0D] else []) @ cs))"
    using Cons.IH [OF type] by blast
  have "tokens_of c r @ log_tokens ((if cr_hold d1 then [0x0D] else []) @ cs) =
      log_tokens ((if cr_hold d then [0x0D] else []) @ c # cs)"
    using Cons.prems one
    by (auto simp: CheckEOLCheck_def CheckEOLCheckLog_def tokens_of_def split: if_splits list.splits)
  then show ?case using one run by (auto simp: Let_def)
qed simp

text \<open>
  C26. Read character by character, a text comes out as its lines, whatever mixture of CR, LF
  and CR LF ends them; a CR at the very end is held back, as a LF may follow.
\<close>

theorem CheckEOL_file_lines:
  "\<exists>d ts. check_all cs (CheckEOLCreate CheckEOLTypeFile) = (d, ts) \<and>
     ts @ (if cr_hold d then [EOL] else []) = line_tokens cs"
  using check_file [of "CheckEOLCreate CheckEOLTypeFile" cs] by (simp add: CheckEOLCreate_def)

text \<open>
  For the log, exactly the CR LF pairs end lines, also across calls: a single CR is dropped
  and a single LF is kept.
\<close>

theorem CheckEOL_log_lines:
  "\<exists>d. check_all cs (CheckEOLCreate CheckEOLTypeLog) = (d, log_tokens cs)"
  using check_log [of "CheckEOLCreate CheckEOLTypeLog" cs] by (auto simp: CheckEOLCreate_def)

end
