(* ===== verification/VtTerm.thy ===== *)
theory VtTerm
  imports ClipText CheckEol ScreenPut ScreenStore CommBuff
begin

section \<open>The VT terminal: state, cursor and characters (teraterm/teraterm/vtterm.c)\<close>

text \<open>
  The emulation on top of the screen buffer: received characters and control codes. The
  static variables of vtterm.c, those of its functions included, are the record \<open>vt\<close>; the state of charset.cpp, which control
  codes change as well, is passed beside it. What goes to the log file, the macro, the printer
  and the loudspeaker is recorded in \<open>calls\<close>. \<open>None\<close> is an access outside an array or a loop
  that does not end.
\<close>

subsection \<open>State\<close>

datatype eol_code = IdCR | IdCRLF | IdLF | IdAUTO

datatype IdDecSpecial = IdDecSpecialUniToDec | IdDecSpecialDecToUni | IdDecSpecialDoNot

datatype parse_mode = ModeFirst | ModeESC | ModeDCS | ModeDCUserKey | ModeSOS | ModeCSI
  | ModeXS | ModeDLE | ModeCAN | ModeIgnore

record TStatusBuff =
  SavedX :: int
  SavedY :: int
  SavedAttr :: TCharAttr
  SavedCharSet :: CharSetState
  SavedAutoWrap :: bool
  SavedOrigin :: bool

text \<open>The settings that this file reads beside those of the screen.\<close>

record vt_set =
  CRReceive :: eol_code
  Dec2Unicode :: IdDecSpecial
  UnicodeDecSpMapping :: u16
  LogTypePlainText :: bool
  Beep :: int
  AutoWinSwitch :: int
  FTFlag :: u32
  Answerback :: "u8 list"
  IsDumb :: bool
  ScrollWindowClearScreen :: bool
  ColorFlag :: u32
  LogTimestamp :: bool

datatype vt_call = FLogPutUTF32 u32 | DDEPut1 u8 | WriteToPrnFile u32 | BuffDumpCurrentLine u8 | RingBell int
  | ClearUserKey | DefineUserKey int "u8 list" int | BPStartReceive | ZMODEMStartReceive | ZMODEMStartSend

record vt =
  scr :: screen
  cv :: comvar
  vset :: vt_set
  CharAttr :: TCharAttr
  RelativeOrgMode :: bool
  InsertMode :: bool
  LFMode :: bool
  ClearThenHome :: bool
  AutoWrapMode :: bool
  AltScr :: bool
  LRMarginMode :: bool
  VTlevel :: int
  Send8BitMode :: bool
  AppliKeyMode :: bool
  PrevCharacter :: u8
  PrevCRorLFGeneratedCRLF :: bool
  LastPutCharacter :: u32
  SBuff1 :: TStatusBuff
  SBuff2 :: TStatusBuff
  SBuff3 :: TStatusBuff
  ESCFlag :: bool
  JustAfterESC :: bool
  Param :: "int list"
  SubParam :: "int list list"
  NParam :: int
  NSParam :: "int list"
  FirstPrm :: bool
  IntChar :: "u8 list"
  ICount :: int
  Prv :: u8
  ParseMode :: parse_mode
  ChangeEmu :: int
  AutoPrintMode :: bool
  PrinterMode :: bool
  DirectPrn :: bool
  FLogIsOpendText :: bool
  DDELog :: bool
  check_eol :: CheckEOLData
  log_cr_type :: int
  IgnUtf8 :: int
  DcsFirst :: bool
  DcsStrBuff :: "u8 list"
  DcsStrLen :: int
  DcsUtf8 :: int
  DcsCmd :: u8
  KeyUtf8 :: int
  WaitKeyId :: bool
  WaitHi :: bool
  NewKeyStr :: "u8 list"
  NewKeyId :: int
  NewKeyLen :: int
  CanState :: int
  calls :: "vt_call list"

type_synonym vterm = "CharSetData \<times> vt"

definition IdTEK :: int where "IdTEK = 2"
definition TF_AUTOINVOKE :: u32 where "TF_AUTOINVOKE = 2"
definition TF_ACCEPT8BITCTRL :: u32 where "TF_ACCEPT8BITCTRL = 32"
definition TF_BACKWRAP :: u32 where "TF_BACKWRAP = 128"
definition TF_REMOTECLEARSBUFF :: u32 where "TF_REMOTECLEARSBUFF = 8192"
definition ISO2022_SI :: u32 where "ISO2022_SI = 1"
definition ISO2022_SO :: u32 where "ISO2022_SO = 2"
definition ISO2022_LS2 :: u32 where "ISO2022_LS2 = 4"
definition ISO2022_LS3 :: u32 where "ISO2022_LS3 = 8"
definition ISO2022_LS1R :: u32 where "ISO2022_LS1R = 0x10"
definition ISO2022_LS2R :: u32 where "ISO2022_LS2R = 0x20"
definition ISO2022_LS3R :: u32 where "ISO2022_LS3R = 0x40"
definition FT_ZAUTO :: u32 where "FT_ZAUTO = 2"
definition FT_BPAUTO :: u32 where "FT_BPAUTO = 8"
definition TABF_HTS7 :: u16 where "TABF_HTS7 = 1"
definition TABF_HTS8 :: u16 where "TABF_HTS8 = 2"

text \<open>Steps on the screen, on the terminal and on the decoder.\<close>

definition on_scr :: "(screen \<Rightarrow> screen option) \<Rightarrow> vt \<Rightarrow> vt option" where
  "on_scr f v = do { s \<leftarrow> f (scr v); Some (v\<lparr>scr := s\<rparr>) }"

definition on_vt :: "(vt \<Rightarrow> vt option) \<Rightarrow> vterm \<Rightarrow> vterm option" where
  "on_vt f st = do { v \<leftarrow> f (snd st); Some (fst st, v) }"

definition on_cs :: "(CharSetData \<Rightarrow> CharSetData option) \<Rightarrow> vterm \<Rightarrow> vterm option" where
  "on_cs f st = do { w \<leftarrow> f (fst st); Some (w, snd st) }"

definition call :: "vt_call \<Rightarrow> vt \<Rightarrow> vt" where
  "call c v = v\<lparr>calls := calls v @ [c]\<rparr>"

definition set_mode :: "parse_mode \<Rightarrow> vt \<Rightarrow> vt" where
  "set_mode m v = v\<lparr>ParseMode := m\<rparr>"

abbreviation tts :: "vt \<Rightarrow> tset" where "tts v \<equiv> ts (scr v)"

subsection \<open>The log\<close>

definition NeedsOutputBufs :: "vt \<Rightarrow> bool" where
  "NeedsOutputBufs v \<longleftrightarrow> FLogIsOpendText v \<or> DDELog v"

definition OutputLogNewLine :: "vt \<Rightarrow> vt" where
  "OutputLogNewLine v =
     (if log_cr_type v = 0 then call (FLogPutUTF32 0x0A) (call (FLogPutUTF32 0x0D) v)
      else if log_cr_type v = 1 then call (FLogPutUTF32 0x0D) v
      else if log_cr_type v = 2 then call (FLogPutUTF32 0x0A) v
      else v)"

definition DDEPut1U32 :: "u32 \<Rightarrow> vt \<Rightarrow> vt" where
  "DDEPut1U32 c v = (if DDELog v then fold (\<lambda>b. call (DDEPut1 b)) (UTF32ToUTF8 c (Some 4)) v else v)"

definition OutputLogUTF32 :: "u32 \<Rightarrow> vt \<Rightarrow> vt" where
  "OutputLogUTF32 c v =
     (if \<not> FLogIsOpendText v \<and> \<not> DDELog v \<and> \<not> PrinterMode v then v
      else
        let (d, r) = CheckEOLCheck c (check_eol v);
            v = v\<lparr>check_eol := d\<rparr>;
            v = (if FLogIsOpendText v
                 then let v = (if OutputEOL r then OutputLogNewLine v else v)
                      in if OutputChar r then call (FLogPutUTF32 c) v else v
                 else v);
            v = (if DDELog v
                 then let v = (if OutputEOL r then call (DDEPut1 0x0A) (call (DDEPut1 0x0D) v) else v)
                      in if OutputChar r then DDEPut1U32 c v else v
                 else v)
        in if PrinterMode v
           then let v = (if OutputEOL r then call (WriteToPrnFile 0x0A) (call (WriteToPrnFile 0x0D) v) else v)
                in if OutputChar r then call (WriteToPrnFile c) v else v
           else v)"

definition OutputLogByte :: "u8 \<Rightarrow> vt \<Rightarrow> vt" where
  "OutputLogByte b v = OutputLogUTF32 (ucast b) v"

subsection \<open>Saving and restoring the cursor\<close>

definition SaveCursorBuf :: "vterm \<Rightarrow> TStatusBuff" where
  "SaveCursorBuf st = (let (w, v) = st in
     \<lparr>SavedX = CursorX (scr v), SavedY = CursorY (scr v), SavedAttr = CharAttr v,
      SavedCharSet = CharSetSaveState w, SavedAutoWrap = AutoWrapMode v, SavedOrigin = RelativeOrgMode v\<rparr>)"

definition SaveCursor :: "vterm \<Rightarrow> vterm" where
  "SaveCursor st =
     (let (w, v) = st; b = SaveCursorBuf st in
      (w, if isCursorOnStatusLine (scr v) then v\<lparr>SBuff2 := b\<rparr>
          else if AltScr v then v\<lparr>SBuff3 := b\<rparr> else v\<lparr>SBuff1 := b\<rparr>))"

text \<open>The position in the buffer is cut to the screen, in the buffer too.\<close>

definition cut_saved :: "screen \<Rightarrow> TStatusBuff \<Rightarrow> TStatusBuff" where
  "cut_saved s b =
     b\<lparr>SavedX := (if SavedX b > NumOfColumns s - 1 then NumOfColumns s - 1 else SavedX b),
       SavedY := (if SavedY b > NumOfLines s - 1 - StatusLine s then NumOfLines s - 1 - StatusLine s else SavedY b)\<rparr>"

definition RestoreCursor :: "vterm \<Rightarrow> vterm option" where
  "RestoreCursor st =
     (let (w, v) = st;
          v = v\<lparr>scr := UpdateStr (scr v)\<rparr>;
          (b, v) = (if isCursorOnStatusLine (scr v)
                    then let b = cut_saved (scr v) (SBuff2 v) in (b, v\<lparr>SBuff2 := b\<rparr>)
                    else if AltScr v
                    then let b = cut_saved (scr v) (SBuff3 v) in (b, v\<lparr>SBuff3 := b\<rparr>)
                    else let b = cut_saved (scr v) (SBuff1 v) in (b, v\<lparr>SBuff1 := b\<rparr>))
      in do {
        v \<leftarrow> on_scr (MoveCursor (SavedX b) (SavedY b)) v;
        let v = v\<lparr>CharAttr := SavedAttr b, scr := (scr v)\<lparr>CurCharAttr := SavedAttr b\<rparr>\<rparr>;
        let w = CharSetLoadState (SavedCharSet b) w;
        Some (w, v\<lparr>AutoWrapMode := SavedAutoWrap b, RelativeOrgMode := SavedOrigin b\<rparr>)
      })"

subsection \<open>Format effectors\<close>

definition BackSpace :: "vt \<Rightarrow> vt option" where
  "BackSpace v =
     (let s = scr v;
          log = (\<lambda>v. if NeedsOutputBufs v \<and> \<not> LogTypePlainText (vset v) then OutputLogByte 8 v else v)
      in if CursorX s = CursorLeftM s \<or> CursorX s = 0
         then if CursorY s > 0 \<and> TermFlag (ts s) AND TF_BACKWRAP \<noteq> 0
              then do { v \<leftarrow> on_scr (MoveCursor (CursorRightM s) (CursorY s - 1)) v; Some (log v) }
              else Some v
         else if CursorX s > 0
         then do { v \<leftarrow> on_scr (MoveCursor (CursorX s - 1) (CursorY s)) v; Some (log v) }
         else Some v)"

text \<open>Both end with \<open>CharSetFallbackFinish\<close>.\<close>

definition fallback_finish :: "vterm \<Rightarrow> vterm option" where
  "fallback_finish st = Some (CharSetFallbackFinish (fst st), snd st)"

definition log_eol :: "u8 \<Rightarrow> bool \<Rightarrow> vt \<Rightarrow> vt" where
  "log_eol b logFlag v =
     (if (\<not> EnableContinuedLineCopy (tts v) \<or> logFlag) \<and> NeedsOutputBufs v then OutputLogByte b v else v)"

definition cr_move :: "bool \<Rightarrow> vt \<Rightarrow> vt option" where
  "cr_move logFlag v =
     (let v = log_eol 0x0D logFlag v; s = scr v
      in if RelativeOrgMode v \<or> CursorX s > CursorLeftM s
         then on_scr (MoveCursor (CursorLeftM s) (CursorY s)) v
         else if CursorX s < CursorLeftM s then on_scr (MoveCursor 0 (CursorY s)) v
         else Some v)"

definition CarriageReturn :: "bool \<Rightarrow> vterm \<Rightarrow> vterm option" where
  "CarriageReturn logFlag st = do { st \<leftarrow> on_vt (cr_move logFlag) st; fallback_finish st }"

definition lf_move :: "u8 \<Rightarrow> bool \<Rightarrow> vt \<Rightarrow> vt option" where
  "lf_move b logFlag v =
     (let v = (if AutoPrintMode v \<and> 0x0A \<le> b \<and> b \<le> 0x0C then call (BuffDumpCurrentLine b) v else v);
          v = log_eol 0x0A logFlag v; s = scr v
      in do {
        v \<leftarrow> (if CursorY s < CursorBottom s then on_scr (MoveCursor (CursorX s) (CursorY s + 1)) v
              else if CursorY s = CursorBottom s then on_scr (BuffScrollNLines 1) v
              else if CursorY s < NumOfLines s - StatusLine s - 1
              then on_scr (MoveCursor (CursorX s) (CursorY s + 1)) v
              else Some v);
        on_scr (BuffLineContinued False) v
      })"

definition LineFeed :: "u8 \<Rightarrow> bool \<Rightarrow> vterm \<Rightarrow> vterm option" where
  "LineFeed b logFlag st =
     do {
       st \<leftarrow> on_vt (lf_move b logFlag) st;
       st \<leftarrow> (if LFMode (snd st) then CarriageReturn logFlag st else Some st);
       fallback_finish st
     }"

text \<open>Carriage return and line feed, as the code calls them in a row.\<close>

definition crlf :: "u8 \<Rightarrow> bool \<Rightarrow> vterm \<Rightarrow> vterm option" where
  "crlf b logFlag st = do { st \<leftarrow> CarriageReturn logFlag st; LineFeed b logFlag st }"

definition tab_wrap :: "vterm \<Rightarrow> vterm option" where
  "tab_wrap st =
     do {
       st \<leftarrow> crlf 0x0A False st;
       on_vt (\<lambda>v. do {
         v \<leftarrow> (if EnableContinuedLineCopy (tts v) then on_scr (BuffLineContinued True) v else Some v);
         Some (v\<lparr>scr := (scr v)\<lparr>Wrap := False\<rparr>\<rparr>) }) st
     }"

definition Tab :: "vterm \<Rightarrow> vterm option" where
  "Tab st =
     do {
       st \<leftarrow> (if Wrap (scr (snd st)) \<and> \<not> VTCompatTab (tts (snd st)) then tab_wrap st else Some st);
       on_vt (\<lambda>v. do {
         v \<leftarrow> on_scr (CursorForwardTab 1 (AutoWrapMode v)) v;
         Some (if NeedsOutputBufs v then OutputLogByte 9 v else v) }) st
     }"

text \<open>The part of \<open>ProcessCR\<close> and \<open>ProcessLF\<close> that CR and LF share in the mode AUTO.\<close>

definition auto_crlf :: "u8 \<Rightarrow> u8 \<Rightarrow> vterm \<Rightarrow> vterm option" where
  "auto_crlf other b st =
     (if PrevCharacter (snd st) \<noteq> other \<or> \<not> PrevCRorLFGeneratedCRLF (snd st)
      then do { st \<leftarrow> crlf b True st; on_vt (\<lambda>v. Some (v\<lparr>PrevCRorLFGeneratedCRLF := True\<rparr>)) st }
      else on_vt (\<lambda>v. Some (v\<lparr>PrevCRorLFGeneratedCRLF := False\<rparr>)) st)"

definition ProcessCR :: "vterm \<Rightarrow> vterm option" where
  "ProcessCR st =
     (if CRReceive (vset (snd st)) = IdAUTO then auto_crlf 0x0A 0x0D st
      else do {
        st \<leftarrow> CarriageReturn True st;
        on_vt (\<lambda>v. if CRReceive (vset v) = IdCRLF
          then do { c \<leftarrow> CommInsert1Byte 0x0A (cv v); Some (v\<lparr>cv := c\<rparr>) } else Some v) st
      })"

definition ProcessLF :: "vterm \<Rightarrow> vterm option" where
  "ProcessLF st =
     (if CRReceive (vset (snd st)) = IdLF then crlf 0x0A True st
      else if CRReceive (vset (snd st)) = IdAUTO then auto_crlf 0x0D 0x0A st
      else LineFeed 0x0A True st)"

subsection \<open>Putting a character\<close>

definition BuffGetCursorCharAttr :: "int \<Rightarrow> int \<Rightarrow> screen \<Rightarrow> TCharAttr option" where
  "BuffGetCursorCharAttr x y s =
     do {
       p \<leftarrow> GetLinePtr (PageStart s + y) s;
       c \<leftarrow> cell_get (p + x) s;
       Some \<lparr>Attr = attr c, Attr2 = attr2 c, AttrEx = 0, Fore = fg c, Back = bg c\<rparr>
     }"

definition BuffSetCursorCharAttr :: "int \<Rightarrow> int \<Rightarrow> TCharAttr \<Rightarrow> screen \<Rightarrow> screen option" where
  "BuffSetCursorCharAttr x y A s =
     do {
       p \<leftarrow> GetLinePtr (PageStart s + y) s;
       cell_upd (\<lambda>c. c\<lparr>attr := Attr A, attr2 := Attr2 A, fg := Fore A, bg := Back A\<rparr>) (p + x) s
     }"

definition dec2unicode :: "u32 list" where
  "dec2unicode = [0x00a0,
     0x25c6, 0x2592, 0x2409, 0x240c, 0x240d, 0x240a, 0x00b0, 0x00b1,
     0x2424, 0x240b, 0x2518, 0x2510, 0x250c, 0x2514, 0x253c, 0x23ba,
     0x23bb, 0x2500, 0x23bc, 0x23bd, 0x251c, 0x2524, 0x2534, 0x252c,
     0x2502, 0x2264, 0x2265, 0x03c0, 0x2260, 0x00a3, 0x00b7]"

text \<open>
  The mapping between Unicode and DEC Special Graphics: the code, and whether it is a special
  character. \<open>UTF32ToDecSp\<close> is the lookup of codeconv.cpp.
\<close>

definition map_special :: "vt_set \<Rightarrow> u32 \<Rightarrow> bool \<Rightarrow> (u32 \<times> bool) option" where
  "map_special vs code special =
     (case Dec2Unicode vs of
        IdDecSpecialUniToDec \<Rightarrow>
          if \<not> special \<and> UnicodeDecSpMapping vs \<noteq> 0
          then do {
            c \<leftarrow> UTF32ToDecSp code;
            let cset = (word_of_int c :: u16);
            Some (if drop_bit 8 cset AND UnicodeDecSpMapping vs \<noteq> 0
                  then (ucast (cset AND 0xff), True) else (code, special))
          }
          else Some (code, special)
      | IdDecSpecialDecToUni \<Rightarrow>
          if special
          then
            let code = code AND 0x7F
            in if 0x5f \<le> code \<and> code \<le> 0x7e
               then do { u \<leftarrow> rd dec2unicode (uint code - 0x5f); Some (u, False) }
               else Some (code, special)
          else Some (code, special)
      | IdDecSpecialDoNot \<Rightarrow> Some (code, special))"

definition continued :: "TCharAttr \<Rightarrow> TCharAttr" where
  "continued A = A\<lparr>Attr := Attr A OR AttrLineContinued, AttrEx := ucast (Attr A OR AttrLineContinued)\<rparr>"

text \<open>
  The pending wrap, before a character that moves the cursor; both cells get the attribute of
  a continued line. The flag tells whether the line was wrapped.
\<close>

definition mark_continued :: "vt \<Rightarrow> vt option" where
  "mark_continued = on_scr (\<lambda>s. do {
     t \<leftarrow> BuffGetCursorCharAttr (CursorX s) (CursorY s) s;
     BuffSetCursorCharAttr (CursorX s) (CursorY s) (continued t) s })"

definition wrap_line :: "uni_env \<Rightarrow> u32 \<Rightarrow> vterm \<Rightarrow> (vterm \<times> bool) option" where
  "wrap_line U code st =
     do {
       let s = scr (snd st);
       wraps \<leftarrow> (if Wrap s then do { comb \<leftarrow> BuffIsCombiningCharacter U (CursorX s) (CursorY s) code s; Some (\<not> comb) }
                else Some False);
       st \<leftarrow> (if wraps then do { st \<leftarrow> on_vt mark_continued st; crlf 0x0A False st } else Some st);
       Some (st, wraps)
     }"

text \<open>
  The loop back to \<open>retry\<close> while the character does not fit: with automatic wrapping a space
  fills the line and the next line is tried, without it the first column. It does not end when
  the character fits nowhere.
\<close>

partial_function (option) put_retry ::
  "uni_env \<Rightarrow> u32 \<Rightarrow> TCharAttr \<Rightarrow> vterm \<Rightarrow> (vterm \<times> int) option" where
  "put_retry U code A st =
     do {
       (s, r) \<leftarrow> BuffPutUnicode U code A (InsertMode (snd st)) (scr (snd st));
       let st = (fst st, (snd st)\<lparr>scr := s\<rparr>);
       if r = -1
       then if AutoWrapMode (snd st)
         then do {
           let A = continued (CharAttr (snd st));
           (s, _) \<leftarrow> BuffPutUnicode U 0x20 (A\<lparr>AttrEx := AttrEx A OR AttrPadding\<rparr>) False s;
           st \<leftarrow> crlf 0x0A False (fst st, (snd st)\<lparr>scr := s\<rparr>);
           put_retry U code A st
         }
         else put_retry U code A (fst st, (snd st)\<lparr>scr := s\<lparr>CursorX := 0\<rparr>\<rparr>)
       else Some (st, r)
     }"

text \<open>The cursor behind a character of \<open>r\<close> cells.\<close>

definition advance :: "bool \<Rightarrow> int \<Rightarrow> screen \<Rightarrow> screen option" where
  "advance auto r s =
     (if r = 0 then Some (UpdateStr s)
      else if r = 1
      then Some (if CursorX s = CursorRightM s \<or> CursorX s \<ge> NumOfColumns s - 1
                 then (UpdateStr s)\<lparr>Wrap := auto\<rparr> else (MoveRight s)\<lparr>Wrap := False\<rparr>)
      else if r = 2
      then Some (if CursorX s + 1 = CursorRightM s \<or> CursorX s + 1 \<ge> NumOfColumns s - 1
                 then (UpdateStr (MoveRight s))\<lparr>Wrap := auto\<rparr> else (MoveRight (MoveRight s))\<lparr>Wrap := False\<rparr>)
      else None)"

definition PutU32NoLog :: "uni_env \<Rightarrow> u32 \<Rightarrow> vterm \<Rightarrow> vterm option" where
  "PutU32NoLog U code st =
     do {
       let (w, v) = st;
       let v = v\<lparr>LastPutCharacter := code\<rparr>;
       special \<leftarrow> (if code \<le> 0xff then CharSetIsSpecial (ucast code) w else Some False);
       (code, special) \<leftarrow> map_special (vset v) code special;
       let A = (if special then (CharAttr v)\<lparr>Attr := Attr (CharAttr v) OR AttrSpecial\<rparr> else CharAttr v);
       (st, wrapped) \<leftarrow> wrap_line U code (w, v);
       let A = (if wrapped then continued A else A);
       (st, r) \<leftarrow> put_retry U code (A\<lparr>AttrEx := ucast (Attr A)\<rparr>) st;
       on_vt (on_scr (advance (AutoWrapMode (snd st)) r)) st
     }"

definition PutU32_vt :: "uni_env \<Rightarrow> u32 \<Rightarrow> vterm \<Rightarrow> vterm option" where
  "PutU32_vt U code st =
     do { (w, v) \<leftarrow> PutU32NoLog U code st; Some (w, OutputLogUTF32 code v) }"

fun put_times :: "uni_env \<Rightarrow> u32 \<Rightarrow> nat \<Rightarrow> vterm \<Rightarrow> vterm option" where
  "put_times U b 0 st = Some st"
| "put_times U b (Suc n) st = do { st \<leftarrow> PutU32NoLog U b st; put_times U b n st }"

definition RepeatChar :: "uni_env \<Rightarrow> u32 \<Rightarrow> int \<Rightarrow> vterm \<Rightarrow> vterm option" where
  "RepeatChar U b n st = (if b \<le> 0x1f \<or> b = 0x7f then Some st else put_times U b (nat n) st)"

end
