(* ===== verification/VtControl.thy ===== *)
theory VtControl
  imports VtTerm TabStop ScreenScroll ScreenEdit
begin

section \<open>Control codes and escape sequences (teraterm/teraterm/vtterm.c)\<close>

text \<open>
  \<open>ParseControl\<close> for the C0 and C1 codes, \<open>EscapeSequence\<close> and \<open>ParseEscape\<close> for the sequences
  without parameters. What belongs to parts that are not modelled (printer controller mode,
  the reset of the terminal, the report of the terminal type) is the parameter \<open>X\<close>.
\<close>

record vt_ext =
  PrnParseControl :: "u8 \<Rightarrow> vterm \<Rightarrow> vterm option"
  PrnParseEscape :: "u8 \<Rightarrow> vterm \<Rightarrow> vterm option"
  AnswerTerminalType :: "vterm \<Rightarrow> vterm option"
  HardReset :: "vterm \<Rightarrow> vterm option"

definition Accept8BitCtrl :: "vt \<Rightarrow> bool" where
  "Accept8BitCtrl v \<longleftrightarrow> VTlevel v \<ge> 2 \<and> TermFlag (tts v) AND TF_ACCEPT8BITCTRL \<noteq> 0"

definition ClearParams :: "vt \<Rightarrow> vt option" where
  "ClearParams v =
     do {
       ns \<leftarrow> wr (NSParam v) 1 0;
       ps \<leftarrow> wr (Param v) 1 0;
       Some (v\<lparr>ICount := 0, NParam := 1, NSParam := ns, Param := ps, Prv := 0\<rparr>)
     }"

text \<open>The start of ESC, CSI, OSC, DCS and of the strings that are ignored.\<close>

definition enter_csi :: "vt \<Rightarrow> vt option" where
  "enter_csi v = do { v \<leftarrow> ClearParams v; Some (v\<lparr>FirstPrm := True, ParseMode := ModeCSI\<rparr>) }"

definition enter_osc :: "vt \<Rightarrow> vt option" where
  "enter_osc v = do { v \<leftarrow> ClearParams v; Some (set_mode ModeXS v) }"

definition enter_dcs :: "vt \<Rightarrow> vt option" where
  "enter_dcs v = do { v \<leftarrow> ClearParams v; Some (v\<lparr>ESCFlag := False, ParseMode := ModeDCS\<rparr>) }"

definition enter_ignore :: "vt \<Rightarrow> vt option" where
  "enter_ignore v = Some (v\<lparr>ESCFlag := False, ParseMode := ModeIgnore\<rparr>)"

definition enter_esc :: "vt \<Rightarrow> vt option" where
  "enter_esc v = Some (v\<lparr>ICount := 0, JustAfterESC := True, ParseMode := ModeESC\<rparr>)"

definition if_flag :: "u32 \<Rightarrow> (vterm \<Rightarrow> vterm option) \<Rightarrow> vterm \<Rightarrow> vterm option" where
  "if_flag flag f st = (if ISO2022Flag (tts (snd st)) AND flag \<noteq> 0 then f st else Some st)"

definition shift_out :: "vterm \<Rightarrow> vterm option" where
  "shift_out st =
     do {
       let t = tts (snd st);
       st \<leftarrow> (if KanjiCode t = IdJIS \<and> JIS7Katakana t = 1 \<and> TermFlag t AND TF_FIXEDJIS \<noteq> 0
              then on_cs (CharSet2022Designate 1 IdKatakana) st else Some st);
       on_cs (CharSet2022Invoke CHARSET_LS1) st
     }"

subsection \<open>Control codes\<close>

definition ring_bell :: "vt \<Rightarrow> vt option" where
  "ring_bell v = Some (if Beep (vset v) \<noteq> 0 then call (RingBell (Beep (vset v))) v else v)"

definition insert_bytes :: "u8 list \<Rightarrow> vt \<Rightarrow> vt option" where
  "insert_bytes bs v =
     do {
       c \<leftarrow> fold (\<lambda>b c. Option.bind c (CommInsert1Byte b)) bs (Some (cv v));
       Some (v\<lparr>cv := c\<rparr>)
     }"

definition enter_tek :: "u8 list \<Rightarrow> vt \<Rightarrow> vt option" where
  "enter_tek bs v = do { v \<leftarrow> insert_bytes bs v; Some (v\<lparr>ChangeEmu := IdTEK\<rparr>) }"

definition ParseControlDumb :: "uni_env \<Rightarrow> u8 \<Rightarrow> vterm \<Rightarrow> vterm option" where
  "ParseControlDumb U b st =
     (if b = 0x0A then ProcessLF st
      else if b = 0x0D then ProcessCR st
      else if b = 0x07 then on_vt ring_bell st
      else PutU32_vt U (0x2400 + ucast b) st)"

text \<open>What becomes of a C1 code: shown, ignored, or taken as a code.\<close>

datatype c1_use = Show | Ignore | Code u8

definition c1_use :: "u8 \<Rightarrow> vt \<Rightarrow> c1_use" where
  "c1_use b v =
     (if b \<ge> 0x80
      then if LangIsEnglish (KanjiCode (tts v))
        then if \<not> Accept8BitCtrl v then Show else Code b
        else if TermFlag (tts v) AND TF_ACCEPT8BITCTRL = 0 then Ignore
        else Code (if VTlevel v < 2 then b AND 0x7F else b)
      else Code b)"

definition control_code :: "u8 \<Rightarrow> vterm \<Rightarrow> vterm option" where
  "control_code b st =
     (let v = snd st; vs = vset v in
      if b = 0x05 then do { (c, _) \<leftarrow> CommBinaryOut (Answerback vs) (cv v); Some (fst st, v\<lparr>cv := c\<rparr>) }
      else if b = 0x07 then on_vt ring_bell st
      else if b = 0x08 then on_vt BackSpace st
      else if b = 0x09 then Tab st
      else if b = 0x0A then ProcessLF st
      else if b = 0x0B then LineFeed b True st
      else if b = 0x0C then
        (if AutoWinSwitch vs > 0 \<and> JustAfterESC v then on_vt (enter_tek [b, 0x1B]) st else LineFeed b True st)
      else if b = 0x0D then ProcessCR st
      else if b = 0x0E then if_flag ISO2022_SO shift_out st
      else if b = 0x0F then if_flag ISO2022_SI (on_cs (CharSet2022Invoke CHARSET_LS0)) st
      else if b = 0x10 then Some (fst st, if FTFlag vs AND FT_BPAUTO \<noteq> 0 then set_mode ModeDLE v else v)
      else if b = 0x18 then Some (fst st, set_mode (if FTFlag vs AND FT_ZAUTO \<noteq> 0 then ModeCAN else ModeFirst) v)
      else if b = 0x1A then Some (fst st, set_mode ModeFirst v)
      else if b = 0x1B then on_vt enter_esc st
      else if b \<in> {0x1C, 0x1D, 0x1E, 0x1F} then (if AutoWinSwitch vs > 0 then on_vt (enter_tek [b]) st else Some st)
      else if b = 0x84 then LineFeed 0 True st
      else if b = 0x85 then do { st \<leftarrow> LineFeed 0 True st; CarriageReturn True st }
      else if b = 0x88 then (if TabStopFlag (tts v) AND TABF_HTS8 \<noteq> 0 then on_vt (on_scr SetTabStop) st else Some st)
      else if b = 0x8D then on_vt (on_scr CursorUpWithScroll) st
      else if b = 0x8E then if_flag ISO2022_SS2 (on_cs (CharSet2022Invoke CHARSET_SS2)) st
      else if b = 0x8F then if_flag ISO2022_SS3 (on_cs (CharSet2022Invoke CHARSET_SS3)) st
      else if b = 0x90 then on_vt enter_dcs st
      else if b = 0x98 then on_vt enter_ignore st
      else if b = 0x9B then on_vt enter_csi st
      else if b = 0x9D then on_vt enter_osc st
      else if b = 0x9E \<or> b = 0x9F then on_vt enter_ignore st
      else Some st)"

definition ParseControlVT :: "vt_ext \<Rightarrow> uni_env \<Rightarrow> u8 \<Rightarrow> vterm \<Rightarrow> vterm option" where
  "ParseControlVT X U b st =
     (if PrinterMode (snd st) then PrnParseControl X b st
      else case c1_use b (snd st) of
        Show \<Rightarrow> PutU32_vt U (ucast b) st
      | Ignore \<Rightarrow> Some st
      | Code c \<Rightarrow> control_code c st)"

definition ParseControl_vt :: "vt_ext \<Rightarrow> uni_env \<Rightarrow> u8 \<Rightarrow> vterm \<Rightarrow> vterm option" where
  "ParseControl_vt X U b st =
     (if IsDumb (vset (snd st)) then ParseControlDumb U b st else ParseControlVT X U b st)"

subsection \<open>The callbacks of charset.cpp\<close>

definition vt_op :: "vt_ext \<Rightarrow> uni_env \<Rightarrow> vt charset_op" where
  "vt_op X U = \<lparr>PutU32 = PutU32_vt U, ParseControl = ParseControl_vt X U,
     TermGetInsertMode = InsertMode, TermSetInsertMode = \<lambda>m v. v\<lparr>InsertMode := m\<rparr>,
     TermGetAutoWrapMode = AutoWrapMode, TermSetAutoWrapMode = \<lambda>m v. v\<lparr>AutoWrapMode := m\<rparr>,
     TermGetAttr = CharAttr,
     TermSetAttr = \<lambda>A v. v\<lparr>scr := UpdateStr (scr v), CharAttr := A\<rparr>\<rparr>"

subsection \<open>Escape sequences\<close>

definition ESCSpace :: "u8 \<Rightarrow> vt \<Rightarrow> vt option" where
  "ESCSpace b v = Some
     (if b = 0x46 then v\<lparr>Send8BitMode := False\<rparr>
      else if b = 0x47 \<and> VTlevel v \<ge> 2 then v\<lparr>Send8BitMode := True\<rparr> else v)"

definition ESCSharp :: "u8 \<Rightarrow> vt \<Rightarrow> vt option" where
  "ESCSharp b v =
     (if b = 0x38
      then do {
        v \<leftarrow> on_scr (\<lambda>s. do {
          s \<leftarrow> BuffFillWithE (BuffUpdateScroll s);
          MoveCursor 0 0 (s\<lparr>CursorTop := 0, CursorBottom := NumOfLines s - 1 - StatusLine s,
            CursorLeftM := 0, CursorRightM := NumOfColumns s - 1\<rparr>) }) v;
        Some (set_mode ModeFirst v)
      }
      else Some v)"

text \<open>\<open>(c - '(') & 3\<close>, the graphic set an intermediate character selects.\<close>

definition dist :: "u8 \<Rightarrow> int" where
  "dist c = (uint c - 0x28) mod 4"

definition auto_invoke :: "int \<Rightarrow> vterm \<Rightarrow> vterm option" where
  "auto_invoke d st =
     (if TermFlag (tts (snd st)) AND TF_AUTOINVOKE \<noteq> 0 \<and> d = 0
      then on_cs (CharSet2022Invoke CHARSET_LS0) st else Some st)"

definition ESCDBCSSelect :: "u8 \<Rightarrow> vterm \<Rightarrow> vterm option" where
  "ESCDBCSSelect b st =
     (let v = snd st in
      if \<not> LangIsJapanese (KanjiCode (tts v)) then Some st
      else if ICount v = 1
      then if b = 0x40 \<or> b = 0x42
        then do { st \<leftarrow> on_cs (CharSet2022Designate 0 IdKanji) st; auto_invoke 0 st }
        else Some st
      else if ICount v = 2
      then do {
        c \<leftarrow> rd (IntChar v) 2;
        if b = 0x31 \<or> b = 0x33 \<or> b = 0x40 \<or> b = 0x42
        then do { st \<leftarrow> on_cs (CharSet2022Designate (dist c) IdKanji) st; auto_invoke (dist c) st }
        else Some st
      }
      else Some st)"

definition ESCSelectCode :: "u8 \<Rightarrow> vt \<Rightarrow> vt option" where
  "ESCSelectCode b v = Some (if b = 0x30 \<and> AutoWinSwitch (vset v) > 0 then v\<lparr>ChangeEmu := IdTEK\<rparr> else v)"

definition ESCSBCSSelect :: "u8 \<Rightarrow> vterm \<Rightarrow> vterm option" where
  "ESCSBCSSelect b st =
     do {
       c \<leftarrow> rd (IntChar (snd st)) 1;
       let d = dist c;
       st \<leftarrow> (if b = 0x30 then on_cs (CharSet2022Designate d IdSpecial) st
              else if b \<in> {0x3C, 0x3E, 0x41, 0x42, 0x48} then on_cs (CharSet2022Designate d IdASCII) st
              else if b = 0x49
              then if LangIsJapanese (KanjiCode (tts (snd st)))
                then on_cs (CharSet2022Designate d IdKatakana) st else Some st
              else if b = 0x4A then on_cs (CharSet2022Designate d IdASCII) st
              else Some st);
       auto_invoke d st
     }"

text \<open>DECBI and DECFI.\<close>

definition back_index :: "screen \<Rightarrow> screen option" where
  "back_index s =
     (if CursorY s \<ge> CursorTop s \<and> CursorY s \<le> CursorBottom s \<and>
         CursorX s \<ge> CursorLeftM s \<and> CursorX s \<le> CursorRightM s
      then if CursorX s = CursorLeftM s then BuffScrollRight 1 s else MoveCursor (CursorX s - 1) (CursorY s) s
      else Some s)"

definition forward_index :: "screen \<Rightarrow> screen option" where
  "forward_index s =
     (if CursorY s \<ge> CursorTop s \<and> CursorY s \<le> CursorBottom s \<and>
         CursorX s \<ge> CursorLeftM s \<and> CursorX s \<le> CursorRightM s
      then if CursorX s = CursorRightM s then BuffScrollLeft 1 s else MoveCursor (CursorX s + 1) (CursorY s) s
      else Some s)"

text \<open>
  The sequences without intermediate character: the new state, and whether they leave the
  escape mode (the others have entered another mode).
\<close>

definition esc_final :: "vt_ext \<Rightarrow> u8 \<Rightarrow> vterm \<Rightarrow> (vterm \<times> bool) option" where
  "esc_final X b st =
     (let stay = map_option (\<lambda>st. (st, False)); leave = map_option (\<lambda>st. (st, True)) in
      if b = 0x36 then leave (on_vt (on_scr back_index) st)
      else if b = 0x37 then leave (Some (SaveCursor st))
      else if b = 0x38 then leave (RestoreCursor st)
      else if b = 0x39 then leave (on_vt (on_scr forward_index) st)
      else if b = 0x3D then leave (Some (fst st, (snd st)\<lparr>AppliKeyMode := True\<rparr>))
      else if b = 0x3E then leave (Some (fst st, (snd st)\<lparr>AppliKeyMode := False\<rparr>))
      else if b = 0x44 then leave (LineFeed 0 True st)
      else if b = 0x45 then leave (do { st \<leftarrow> on_vt (on_scr (\<lambda>s. MoveCursor 0 (CursorY s) s)) st; LineFeed 0 True st })
      else if b = 0x48 then leave (if TabStopFlag (tts (snd st)) AND TABF_HTS7 \<noteq> 0 then on_vt (on_scr SetTabStop) st else Some st)
      else if b = 0x4D then leave (on_vt (on_scr CursorUpWithScroll) st)
      else if b = 0x4E then leave (if_flag ISO2022_SS2 (on_cs (CharSet2022Invoke CHARSET_SS2)) st)
      else if b = 0x4F then leave (if_flag ISO2022_SS3 (on_cs (CharSet2022Invoke CHARSET_SS3)) st)
      else if b = 0x50 then stay (on_vt enter_dcs st)
      else if b = 0x58 \<or> b = 0x5E \<or> b = 0x5F then stay (on_vt enter_ignore st)
      else if b = 0x5A then leave (AnswerTerminalType X st)
      else if b = 0x5B then stay (on_vt enter_csi st)
      else if b = 0x5D then stay (on_vt enter_osc st)
      else if b = 0x63 then leave (HardReset X st)
      else if b = 0x67 then leave (Some (fst st, call (RingBell 2) (snd st)))
      else if b = 0x6E then leave (if_flag ISO2022_LS2 (on_cs (CharSet2022Invoke CHARSET_LS2)) st)
      else if b = 0x6F then leave (if_flag ISO2022_LS3 (on_cs (CharSet2022Invoke CHARSET_LS3)) st)
      else if b = 0x7C then leave (if_flag ISO2022_LS3R (on_cs (CharSet2022Invoke CHARSET_LS3R)) st)
      else if b = 0x7D then leave (if_flag ISO2022_LS2R (on_cs (CharSet2022Invoke CHARSET_LS2R)) st)
      else if b = 0x7E then leave (if_flag ISO2022_LS1R (on_cs (CharSet2022Invoke CHARSET_LS1R)) st)
      else leave (Some st))"

definition esc_one :: "u8 \<Rightarrow> u8 \<Rightarrow> vterm \<Rightarrow> vterm option" where
  "esc_one c b st =
     (if c = 0x20 then on_vt (ESCSpace b) st
      else if c = 0x23 then on_vt (ESCSharp b) st
      else if c = 0x24 then ESCDBCSSelect b st
      else if c \<in> {0x28, 0x29, 0x2A, 0x2B} then ESCSBCSSelect b st
      else Some st)"

definition esc_two :: "u8 \<Rightarrow> u8 \<Rightarrow> u8 \<Rightarrow> vterm \<Rightarrow> vterm option" where
  "esc_two c c' b st =
     (if c = 0x24 \<and> 0x28 \<le> c' \<and> c' \<le> 0x2B then ESCDBCSSelect b st
      else if c = 0x25 \<and> c' = 0x21 then on_vt (ESCSelectCode b) st
      else Some st)"

definition ParseEscape :: "vt_ext \<Rightarrow> u8 \<Rightarrow> vterm \<Rightarrow> vterm option" where
  "ParseEscape X b st =
     (let v = snd st in
      if PrinterMode v then PrnParseEscape X b st
      else do {
        (st, leave) \<leftarrow>
          (if ICount v = 0 then esc_final X b st
           else do {
             st \<leftarrow> (if ICount v = 1 then do { c \<leftarrow> rd (IntChar v) 1; esc_one c b st }
                    else if ICount v = 2
                    then do { c \<leftarrow> rd (IntChar v) 1; c' \<leftarrow> rd (IntChar v) 2; esc_two c c' b st }
                    else Some st);
             Some (st, True)
           });
        Some (if leave then (fst st, set_mode ModeFirst (snd st)) else st)
      })"

text \<open>An intermediate character; the sixth and all later ones replace the fifth.\<close>

definition add_int_char :: "u8 \<Rightarrow> vt \<Rightarrow> vt option" where
  "add_int_char b v =
     do {
       let n = (if ICount v < 5 then ICount v + 1 else ICount v);
       cs \<leftarrow> wr (IntChar v) n b;
       Some (v\<lparr>ICount := n, IntChar := cs\<rparr>)
     }"

definition EscapeSequence ::
  "vt_ext \<Rightarrow> uni_env \<Rightarrow> code_env \<Rightarrow> u8 \<Rightarrow> vterm \<Rightarrow> vterm option" where
  "EscapeSequence X U E b st =
     do {
       st \<leftarrow> (if b \<le> 0x1f then ParseControl_vt X U b st
              else if 0x20 \<le> b \<and> b \<le> 0x2F then on_vt (add_int_char b) st
              else if 0x30 \<le> b \<and> b \<le> 0x7E then ParseEscape X b st
              else if 0x80 \<le> b \<and> b \<le> 0x9F then ParseControl_vt X U b st
              else if b \<ge> 0xA0
              then ParseFirst E (tts (snd st)) (vt_op X U) b (fst st, set_mode ModeFirst (snd st))
              else Some st);
       Some (fst st, (snd st)\<lparr>JustAfterESC := False\<rparr>)
     }"

end
