(* ===== verification/VtParam.thy ===== *)
theory VtParam
  imports VtControl
begin

section \<open>Control sequences and their parameters (teraterm/teraterm/vtterm.c)\<close>

text \<open>
  \<open>ControlSequence\<close> collects the parameters of a CSI sequence in fixed arrays; the handlers
  clip them to the screen. Parameters are \<open>int\<close>s of 32 bits; a value that is too large stays
  at \<open>(int)UINT_MAX\<close>, which is -1.
\<close>

definition NParamMax :: int where "NParamMax = 16"
definition NSParamMax :: int where "NSParamMax = 16"
definition UINT_MAX :: int where "UINT_MAX = 0xFFFFFFFF"

definition ParamIncr :: "int \<Rightarrow> u8 \<Rightarrow> int" where
  "ParamIncr p b =
     (if p \<noteq> -1
      then let t = p mod 2 ^ 32 in
        if t > UINT_MAX div 10 \<or> t * 10 > UINT_MAX - (uint b - 0x30) then -1
        else sint (word_of_int (t * 10 + uint b - 0x30) :: u32)
      else p)"

definition wr2 :: "int list list \<Rightarrow> int \<Rightarrow> int \<Rightarrow> int \<Rightarrow> int list list option" where
  "wr2 m i j x = do { r \<leftarrow> rd m i; r \<leftarrow> wr r j x; wr m i r }"

definition rd2 :: "int list list \<Rightarrow> int \<Rightarrow> int \<Rightarrow> int option" where
  "rd2 m i j = do { r \<leftarrow> rd m i; rd r j }"

definition param_digit :: "u8 \<Rightarrow> vt \<Rightarrow> vt option" where
  "param_digit b v =
     do {
       n \<leftarrow> rd (NSParam v) (NParam v);
       if n > 0
       then do {
         p \<leftarrow> rd2 (SubParam v) (NParam v) n;
         m \<leftarrow> wr2 (SubParam v) (NParam v) n (ParamIncr p b);
         Some (v\<lparr>SubParam := m\<rparr>)
       }
       else do {
         p \<leftarrow> rd (Param v) (NParam v);
         ps \<leftarrow> wr (Param v) (NParam v) (ParamIncr p b);
         Some (v\<lparr>Param := ps\<rparr>)
       }
     }"

definition sub_delimiter :: "vt \<Rightarrow> vt option" where
  "sub_delimiter v =
     do {
       n \<leftarrow> rd (NSParam v) (NParam v);
       if n < NSParamMax
       then do {
         ns \<leftarrow> wr (NSParam v) (NParam v) (n + 1);
         m \<leftarrow> wr2 (SubParam v) (NParam v) (n + 1) 0;
         Some (v\<lparr>NSParam := ns, SubParam := m\<rparr>)
       }
       else Some v
     }"

definition add_param :: "vt \<Rightarrow> vt option" where
  "add_param v =
     do {
       ps \<leftarrow> wr (Param v) (NParam v + 1) 0;
       ns \<leftarrow> wr (NSParam v) (NParam v + 1) 0;
       Some (v\<lparr>NParam := NParam v + 1, Param := ps, NSParam := ns\<rparr>)
     }"

definition delimiter :: "vt \<Rightarrow> vt option" where
  "delimiter v = (if NParam v < NParamMax then add_param v else Some v)"

text \<open>\<open>PCS\<close> is \<open>ParseCS\<close>, which runs the sequence.\<close>

definition ControlSequence ::
  "vt_ext \<Rightarrow> uni_env \<Rightarrow> code_env \<Rightarrow> (u8 \<Rightarrow> vterm \<Rightarrow> vterm option) \<Rightarrow> u8 \<Rightarrow> vterm \<Rightarrow> vterm option" where
  "ControlSequence X U E PCS b st =
     do {
       st \<leftarrow>
         (if b \<le> 0x1f \<or> 0x80 \<le> b \<and> b \<le> 0x9F then ParseControl_vt X U b st
          else if 0x40 \<le> b \<and> b \<le> 0x7E then PCS b st
          else
            let st = (fst st, if PrinterMode (snd st) then call (WriteToPrnFile (ucast b)) (snd st) else snd st)
            in if 0x20 \<le> b \<and> b \<le> 0x2F then on_vt (add_int_char b) st
               else if 0x30 \<le> b \<and> b \<le> 0x39 then on_vt (param_digit b) st
               else if b = 0x3A then on_vt sub_delimiter st
               else if b = 0x3B then on_vt delimiter st
               else if 0x3C \<le> b \<and> b \<le> 0x3F
               then Some (fst st, if FirstPrm (snd st) then (snd st)\<lparr>Prv := b\<rparr> else snd st)
               else if b > 0xA0
               then ParseFirst E (tts (snd st)) (vt_op X U) b (fst st, set_mode ModeFirst (snd st))
               else Some st);
       Some (fst st, (snd st)\<lparr>FirstPrm := False\<rparr>)
     }"

text \<open>The checks of the handlers.\<close>

definition CheckParamVal :: "int \<Rightarrow> int \<Rightarrow> int" where
  "CheckParamVal p m = (if p = 0 then 1 else if p > m \<or> p < 0 then m else p)"

definition CheckParamValMax :: "int \<Rightarrow> int \<Rightarrow> int" where
  "CheckParamValMax p m = (if p > m \<or> p \<le> 0 then m else p)"

definition check_param :: "(int \<Rightarrow> int) \<Rightarrow> int \<Rightarrow> vt \<Rightarrow> vt option" where
  "check_param f i v =
     do { p \<leftarrow> rd (Param v) i; ps \<leftarrow> wr (Param v) i (f p); Some (v\<lparr>Param := ps\<rparr>) }"

text \<open>\<open>RequiredParams(n)\<close>, with the number of missing parameters for the loop.\<close>

fun add_params :: "nat \<Rightarrow> vt \<Rightarrow> vt option" where
  "add_params 0 v = Some v"
| "add_params (Suc k) v = do { v \<leftarrow> add_param v; add_params k v }"

definition RequiredParams :: "int \<Rightarrow> vt \<Rightarrow> vt option" where
  "RequiredParams n v = (if n > 1 then add_params (nat (n - NParam v)) v else Some v)"

subsection \<open>Moving the cursor\<close>

text \<open>A handler that checks its first parameter and then works on the screen with it.\<close>

definition with_param :: "(vt \<Rightarrow> int) \<Rightarrow> (int \<Rightarrow> vt \<Rightarrow> vt option) \<Rightarrow> vt \<Rightarrow> vt option" where
  "with_param m f v =
     do { v \<leftarrow> check_param (\<lambda>p. CheckParamVal p (m v)) 1 v; p \<leftarrow> rd (Param v) 1; f p v }"

definition CSCursorUp :: "bool \<Rightarrow> vt \<Rightarrow> vt option" where
  "CSCursorUp AffectMargin = with_param (\<lambda>v. CursorY (scr v)) (\<lambda>p. on_scr (\<lambda>s.
     let top = (if AffectMargin \<and> CursorY s \<ge> CursorTop s then CursorTop s else 0);
         y = CursorY s - p
     in MoveCursor (CursorX s) (if y < top then top else y) s))"

definition CSCursorUp1 :: "vt \<Rightarrow> vt option" where
  "CSCursorUp1 v = do { v \<leftarrow> on_scr (\<lambda>s. MoveCursor (CursorLeftM s) (CursorY s) s) v; CSCursorUp True v }"

definition bottom_margin :: "bool \<Rightarrow> screen \<Rightarrow> int" where
  "bottom_margin AffectMargin s =
     (if AffectMargin \<and> CursorY s \<le> CursorBottom s then CursorBottom s else NumOfLines s - StatusLine s - 1)"

definition CSCursorDown :: "bool \<Rightarrow> vt \<Rightarrow> vt option" where
  "CSCursorDown AffectMargin = with_param (\<lambda>v. bottom_margin AffectMargin (scr v)) (\<lambda>p. on_scr (\<lambda>s.
     let bottom = bottom_margin AffectMargin s; y = CursorY s + p
     in MoveCursor (CursorX s) (if y > bottom then bottom else y) s))"

definition CSCursorDown1 :: "vt \<Rightarrow> vt option" where
  "CSCursorDown1 v = do { v \<leftarrow> on_scr (\<lambda>s. MoveCursor (CursorLeftM s) (CursorY s) s) v; CSCursorDown True v }"

definition CSCursorRight :: "bool \<Rightarrow> vt \<Rightarrow> vt option" where
  "CSCursorRight AffectMargin = with_param (\<lambda>v. NumOfColumns (scr v)) (\<lambda>p. on_scr (\<lambda>s.
     let right = (if AffectMargin \<and> CursorX s \<le> CursorRightM s then CursorRightM s else NumOfColumns s - 1);
         x = CursorX s + p
     in MoveCursor (if x > right then right else x) (CursorY s) s))"

definition CSCursorLeft :: "bool \<Rightarrow> vt \<Rightarrow> vt option" where
  "CSCursorLeft AffectMargin = with_param (\<lambda>v. NumOfColumns (scr v)) (\<lambda>p. on_scr (\<lambda>s.
     let left = (if AffectMargin \<and> CursorX s \<ge> CursorLeftM s then CursorLeftM s else 0);
         x = CursorX s - p
     in MoveCursor (if x < left then left else x) (CursorY s) s))"

definition CSMoveToColumnN :: "vt \<Rightarrow> vt option" where
  "CSMoveToColumnN v =
     do {
       v \<leftarrow> check_param (\<lambda>p. CheckParamVal p (NumOfColumns (scr v))) 1 v;
       v \<leftarrow> check_param (\<lambda>p. p - 1) 1 v;
       p \<leftarrow> rd (Param v) 1;
       on_scr (\<lambda>s.
         if RelativeOrgMode v
         then MoveCursor (if CursorLeftM s + p > CursorRightM s then CursorRightM s else CursorLeftM s + p) (CursorY s) s
         else MoveCursor p (CursorY s) s) v
     }"

definition CSMoveToLineN :: "vterm \<Rightarrow> vterm option" where
  "CSMoveToLineN st =
     do {
       v \<leftarrow> with_param (\<lambda>v. NumOfLines (scr v) - StatusLine (scr v)) (\<lambda>p v. on_scr (\<lambda>s.
         if RelativeOrgMode v
         then MoveCursor (CursorX s) (if CursorTop s + p - 1 > CursorBottom s then CursorBottom s else CursorTop s + p - 1) s
         else MoveCursor (CursorX s) (if p > NumOfLines s - StatusLine s then NumOfLines s - 1 - StatusLine s else p - 1) s) v)
         (snd st);
       Some (CharSetFallbackFinish (fst st), v)
     }"

definition CSMoveToXY :: "vterm \<Rightarrow> vterm option" where
  "CSMoveToXY st =
     do {
       v \<leftarrow> RequiredParams 2 (snd st);
       v \<leftarrow> check_param (\<lambda>p. CheckParamVal p (NumOfLines (scr v) - StatusLine (scr v))) 1 v;
       v \<leftarrow> check_param (\<lambda>p. CheckParamVal p (NumOfColumns (scr v))) 2 v;
       p \<leftarrow> rd (Param v) 1;
       q \<leftarrow> rd (Param v) 2;
       v \<leftarrow> on_scr (\<lambda>s.
         if isCursorOnStatusLine s then MoveCursor (q - 1) (CursorY s) s
         else if RelativeOrgMode v
         then
           let x = q - 1 + CursorLeftM s; y = p - 1 + CursorTop s
           in MoveCursor (if x > CursorRightM s then CursorRightM s else x)
                (if y > CursorBottom s then CursorBottom s else y) s
         else MoveCursor (q - 1)
                (if p - 1 > NumOfLines s - 1 - StatusLine s then NumOfLines s - 1 - StatusLine s else p - 1) s) v;
       Some (CharSetFallbackFinish (fst st), v)
     }"

definition CSForwardTab :: "vt \<Rightarrow> vt option" where
  "CSForwardTab = with_param (\<lambda>v. NumOfColumns (scr v)) (\<lambda>p v. on_scr (CursorForwardTab p (AutoWrapMode v)) v)"

definition CSBackwardTab :: "vt \<Rightarrow> vt option" where
  "CSBackwardTab = with_param (\<lambda>v. NumOfColumns (scr v)) (\<lambda>p. on_scr (CursorBackwardTab p))"

subsection \<open>Scroll region\<close>

definition CSSetScrollRegion :: "vt \<Rightarrow> vt option" where
  "CSSetScrollRegion v =
     (if isCursorOnStatusLine (scr v) then on_scr (\<lambda>s. MoveCursor 0 (CursorY s) s) v
      else do {
        v \<leftarrow> RequiredParams 2 v;
        v \<leftarrow> check_param (\<lambda>p. CheckParamVal p (NumOfLines (scr v) - StatusLine (scr v))) 1 v;
        v \<leftarrow> check_param (\<lambda>p. CheckParamValMax p (NumOfLines (scr v) - StatusLine (scr v))) 2 v;
        p \<leftarrow> rd (Param v) 1;
        q \<leftarrow> rd (Param v) 2;
        if p \<ge> q then Some v
        else on_scr (\<lambda>s.
          let s = s\<lparr>CursorTop := p - 1, CursorBottom := q - 1\<rparr>
          in MoveCursor 0 (if RelativeOrgMode v then CursorTop s else 0) s) v
      })"

definition CSSetLRScrollRegion :: "vt \<Rightarrow> vt option" where
  "CSSetLRScrollRegion v =
     do {
       v \<leftarrow> RequiredParams 2 v;
       v \<leftarrow> check_param (\<lambda>p. CheckParamVal p (NumOfColumns (scr v))) 1 v;
       v \<leftarrow> check_param (\<lambda>p. CheckParamValMax p (NumOfColumns (scr v))) 2 v;
       p \<leftarrow> rd (Param v) 1;
       q \<leftarrow> rd (Param v) 2;
       if p \<ge> q then Some v
       else on_scr (\<lambda>s.
         let s = s\<lparr>CursorLeftM := p - 1, CursorRightM := q - 1\<rparr>
         in if RelativeOrgMode v then MoveCursor (CursorLeftM s) (CursorTop s) s else MoveCursor 0 0 s) v
     }"

end
