(* ===== verification/VtSgr.thy ===== *)
theory VtSgr
  imports VtParam
begin

section \<open>Select graphic rendition (ParseSGRParams of teraterm/teraterm/vtterm.c)\<close>

text \<open>
  \<open>closest r g b\<close> is the answer of \<open>DispFindClosestColor\<close>, the display's nearest palette entry.
  Each step takes the parameter at \<open>i\<close> and gives the index of the last one it has used.
\<close>

definition CF_AIXTERM16 :: u32 where "CF_AIXTERM16 = 2"
definition CF_XTERM256 :: u32 where "CF_XTERM256 = 4"

definition opt_rd :: "bool \<Rightarrow> int option \<Rightarrow> int option" where
  "opt_rd c x = (if c then x else Some 0)"

text \<open>The colour of 38 and 48, -1 for none.\<close>

definition sgr_color :: "(int \<Rightarrow> int \<Rightarrow> int \<Rightarrow> int) \<Rightarrow> int \<Rightarrow> int \<Rightarrow> vt \<Rightarrow> (int \<times> int) option" where
  "sgr_color closest P i v =
     do {
       n \<leftarrow> rd (NSParam v) i;
       (P, j, i) \<leftarrow>
         (if n > 0 then do { p \<leftarrow> rd2 (SubParam v) i 1; Some (p, 1, i) }
          else if i < NParam v
          then do { p \<leftarrow> rd (Param v) (i + 1); Some (p, 0, if p = 2 \<or> p = 5 then i + 1 else i) }
          else Some (P, 0, i));
       n \<leftarrow> rd (NSParam v) i;
       n' \<leftarrow> opt_rd (i < NParam v) (rd (NSParam v) (i + 1));
       if P = 2
       then if n > 0
         then if j < n
           then do {
             r \<leftarrow> rd2 (SubParam v) i (j + 1);
             g \<leftarrow> opt_rd (j + 1 < n) (rd2 (SubParam v) i (j + 2));
             b \<leftarrow> opt_rd (j + 2 < n) (rd2 (SubParam v) i (j + 3));
             Some (closest r g b, i)
           }
           else Some (-1, i)
         else if i < NParam v \<and> n' > 0
         then do {
           r \<leftarrow> rd (Param v) (i + 1);
           g \<leftarrow> rd2 (SubParam v) (i + 1) 1;
           b \<leftarrow> opt_rd (n' > 1) (rd2 (SubParam v) (i + 1) 2);
           Some (closest r g b, i + 1)
         }
         else if i + 2 < NParam v
         then do {
           r \<leftarrow> rd (Param v) (i + 1);
           g \<leftarrow> rd (Param v) (i + 2);
           b \<leftarrow> rd (Param v) (i + 3);
           Some (closest r g b, i + 3)
         }
         else Some (-1, i)
       else if P = 5
       then if n > 0
         then if j < n then do { c \<leftarrow> rd2 (SubParam v) i (j + 1); Some (c, i) } else Some (-1, i)
         else if i < NParam v then do { c \<leftarrow> rd (Param v) (i + 1); Some (c, i + 1) }
         else Some (-1, i)
       else Some (-1, i)
     }"

definition set_fore :: "int \<Rightarrow> TCharAttr \<times> TCharAttr \<Rightarrow> TCharAttr \<times> TCharAttr" where
  "set_fore c am =
     ((fst am)\<lparr>Attr2 := Attr2 (fst am) OR Attr2Fore, Fore := word_of_int c\<rparr>,
      (snd am)\<lparr>Attr2 := Attr2 (snd am) OR Attr2Fore\<rparr>)"

definition set_back :: "int \<Rightarrow> TCharAttr \<times> TCharAttr \<Rightarrow> TCharAttr \<times> TCharAttr" where
  "set_back c am =
     ((fst am)\<lparr>Attr2 := Attr2 (fst am) OR Attr2Back, Back := word_of_int c\<rparr>,
      (snd am)\<lparr>Attr2 := Attr2 (snd am) OR Attr2Back\<rparr>)"

definition set_bits :: "u8 \<Rightarrow> TCharAttr \<times> TCharAttr \<Rightarrow> TCharAttr \<times> TCharAttr" where
  "set_bits m am = ((fst am)\<lparr>Attr := Attr (fst am) OR m\<rparr>, (snd am)\<lparr>Attr := Attr (snd am) OR m\<rparr>)"

definition unset_bits :: "u8 \<Rightarrow> TCharAttr \<times> TCharAttr \<Rightarrow> TCharAttr \<times> TCharAttr" where
  "unset_bits m am = ((fst am)\<lparr>Attr := Attr (fst am) AND NOT m\<rparr>, (snd am)\<lparr>Attr := Attr (snd am) OR m\<rparr>)"

definition sgr_reset :: "TCharAttr \<times> TCharAttr \<Rightarrow> TCharAttr \<times> TCharAttr" where
  "sgr_reset am =
     ((fst am)\<lparr>Attr := Attr DefCharAttr, Attr2 := Attr2 DefCharAttr OR (Attr2 (fst am) AND Attr2Protect),
        AttrEx := ucast (Attr DefCharAttr), Fore := Fore DefCharAttr, Back := Back DefCharAttr\<rparr>,
      (snd am)\<lparr>Attr := AttrSgrMask, Attr2 := Attr2ColorMask\<rparr>)"

text \<open>One parameter without those that 38 and 48 take.\<close>

definition sgr_plain :: "u32 \<Rightarrow> int \<Rightarrow> TCharAttr \<times> TCharAttr \<Rightarrow> TCharAttr \<times> TCharAttr" where
  "sgr_plain flags P am =
     (let aix = flags AND CF_AIXTERM16 \<noteq> 0 in
      if P = 0 then sgr_reset am
      else if P = 1 then set_bits AttrBold am
      else if P = 4 then set_bits AttrUnder am
      else if P = 5 then set_bits AttrBlink am
      else if P = 7 then set_bits AttrReverse am
      else if P = 22 then unset_bits AttrBold am
      else if P = 24 then unset_bits AttrUnder am
      else if P = 25 then unset_bits AttrBlink am
      else if P = 27 then unset_bits AttrReverse am
      else if 30 \<le> P \<and> P \<le> 37 then set_fore (P - 30) am
      else if P = 39
      then ((fst am)\<lparr>Attr2 := Attr2 (fst am) AND NOT Attr2Fore, Fore := AttrDefaultFG\<rparr>,
            (snd am)\<lparr>Attr2 := Attr2 (snd am) OR Attr2Fore\<rparr>)
      else if 40 \<le> P \<and> P \<le> 47 then set_back (P - 40) am
      else if P = 49
      then ((fst am)\<lparr>Attr2 := Attr2 (fst am) AND NOT Attr2Back, Back := AttrDefaultBG\<rparr>,
            (snd am)\<lparr>Attr2 := Attr2 (snd am) OR Attr2Back\<rparr>)
      else if 90 \<le> P \<and> P \<le> 97 then (if aix then set_fore (P - 90 + 8) am else am)
      else if P = 100 \<and> \<not> aix
      then ((fst am)\<lparr>Attr2 := Attr2 (fst am) AND NOT (Attr2Fore OR Attr2Back), Fore := AttrDefaultFG, Back := AttrDefaultBG\<rparr>,
            (snd am)\<lparr>Attr2 := Attr2 (snd am) OR Attr2ColorMask\<rparr>)
      else if 100 \<le> P \<and> P \<le> 107 then (if aix then set_back (P - 100 + 8) am else am)
      else am)"

definition sgr_step ::
  "(int \<Rightarrow> int \<Rightarrow> int \<Rightarrow> int) \<Rightarrow> int \<Rightarrow> vt \<Rightarrow> TCharAttr \<times> TCharAttr \<Rightarrow> ((TCharAttr \<times> TCharAttr) \<times> int) option" where
  "sgr_step closest i v am =
     do {
       P \<leftarrow> rd (Param v) i;
       if P = 38 \<or> P = 48
       then if ColorFlag (vset v) AND CF_XTERM256 \<noteq> 0
         then do {
           (c, i) \<leftarrow> sgr_color closest P i v;
           Some (if 0 \<le> c \<and> c < 256 then if P = 38 then set_fore c am else set_back c am else am, i)
         }
         else Some (am, i)
       else Some (sgr_plain (ColorFlag (vset v)) P am, i)
     }"

text \<open>The loop; a step never goes back.\<close>

function ParseSGRParams ::
  "(int \<Rightarrow> int \<Rightarrow> int \<Rightarrow> int) \<Rightarrow> vt \<Rightarrow> int \<Rightarrow> TCharAttr \<times> TCharAttr \<Rightarrow> (TCharAttr \<times> TCharAttr) option" where
  "ParseSGRParams closest v i am =
     (if i \<le> NParam v
      then do {
        (am, i') \<leftarrow> sgr_step closest i v am;
        ParseSGRParams closest v ((if i' < i then i else i') + 1) am
      }
      else Some am)"
  by pat_completeness auto
termination
  by (relation "measure (\<lambda>(c, v, i, am). nat (NParam v + 1 - i))") auto

declare ParseSGRParams.simps [simp del]

definition CSSetAttr :: "(int \<Rightarrow> int \<Rightarrow> int \<Rightarrow> int) \<Rightarrow> vt \<Rightarrow> vt option" where
  "CSSetAttr closest v =
     do {
       let v = v\<lparr>scr := UpdateStr (scr v)\<rparr>;
       am \<leftarrow> ParseSGRParams closest v 1 (CharAttr v, DefCharAttr);
       Some (v\<lparr>CharAttr := fst am, scr := (scr v)\<lparr>CurCharAttr := fst am\<rparr>\<rparr>)
     }"

end
