(* ===== verification/VtCsi.thy ===== *)
theory VtCsi
  imports VtSgr Telnet
begin

section \<open>Running a control sequence (ParseCS of teraterm/teraterm/vtterm.c)\<close>

text \<open>
  The handlers of the standard sequences that edit the screen, the report of the cursor
  position, and the dispatch on the final character. The handlers of the private and the
  window sequences and of the modes are fields of the parameter \<open>Y\<close>.
\<close>

record csi_ext =
  PrnParseCS :: "u8 \<Rightarrow> vterm \<Rightarrow> vterm option"
  CS_h_Mode :: "vterm \<Rightarrow> vterm option"
  CS_i_Mode :: "vterm \<Rightarrow> vterm option"
  CS_l_Mode :: "vterm \<Rightarrow> vterm option"
  CSSunSequence :: "vterm \<Rightarrow> vterm option"
  CSPrivate :: "u8 \<Rightarrow> u8 \<Rightarrow> vterm \<Rightarrow> vterm option"
  CSIntermediate :: "u8 \<Rightarrow> u8 \<Rightarrow> u8 \<Rightarrow> vterm \<Rightarrow> vterm option"
  DispFindClosestColor :: "int \<Rightarrow> int \<Rightarrow> int \<Rightarrow> int"

subsection \<open>Editing\<close>

definition CSInsertCharacter :: "vt \<Rightarrow> vt option" where
  "CSInsertCharacter = with_param (\<lambda>v. NumOfColumns (scr v)) (\<lambda>p. on_scr (\<lambda>s. BuffInsertSpace p (BuffUpdateScroll s)))"

definition CSDeleteCharacter :: "vt \<Rightarrow> vt option" where
  "CSDeleteCharacter = with_param (\<lambda>v. NumOfColumns (scr v)) (\<lambda>p. on_scr (\<lambda>s. BuffDeleteChars p (BuffUpdateScroll s)))"

definition CSEraseCharacter :: "vt \<Rightarrow> vt option" where
  "CSEraseCharacter = with_param (\<lambda>v. NumOfColumns (scr v)) (\<lambda>p. on_scr (\<lambda>s. BuffEraseChars p (BuffUpdateScroll s)))"

definition clear_buffer :: "vt \<Rightarrow> vt option" where
  "clear_buffer v = (if TermFlag (tts v) AND TF_REMOTECLEARSBUFF \<noteq> 0 then on_scr ClearBuffer v else Some v)"

definition CSScreenErase :: "vt \<Rightarrow> vt option" where
  "CSScreenErase v =
     do {
       let v = v\<lparr>scr := BuffUpdateScroll (scr v)\<rparr>;
       p \<leftarrow> rd (Param v) 1;
       if p = 0
       then if ScrollWindowClearScreen (vset v) \<and> CursorX (scr v) = 0 \<and> CursorY (scr v) = 0
         then on_scr BuffClearScreen v else on_scr BuffEraseCurToEnd v
       else if p = 1 then on_scr BuffEraseHomeToCur v
       else if p = 2
       then do {
         v \<leftarrow> on_scr BuffClearScreen v;
         if ClearThenHome v \<and> \<not> isCursorOnStatusLine (scr v)
         then on_scr (\<lambda>s. if RelativeOrgMode v then MoveCursor 0 0 s else MoveCursor (CursorLeftM s) (CursorTop s) s) v
         else Some v
       }
       else if p = 3 then clear_buffer v
       else Some v
     }"

definition CSQSelScreenErase :: "vt \<Rightarrow> vt option" where
  "CSQSelScreenErase v =
     do {
       let v = v\<lparr>scr := BuffUpdateScroll (scr v)\<rparr>;
       p \<leftarrow> rd (Param v) 1;
       if p = 0 then on_scr BuffSelectedEraseCurToEnd v
       else if p = 1 then on_scr BuffSelectedEraseHomeToCur v
       else if p = 2 then on_scr BuffSelectedEraseScreen v
       else if p = 3 then clear_buffer v
       else Some v
     }"

text \<open>The part of the line that a parameter selects: up to the end, up to the cursor, all.\<close>

definition line_part :: "(int \<Rightarrow> int \<Rightarrow> screen \<Rightarrow> screen option) \<Rightarrow> vt \<Rightarrow> vt option" where
  "line_part erase v =
     do {
       let v = v\<lparr>scr := BuffUpdateScroll (scr v)\<rparr>;
       p \<leftarrow> rd (Param v) 1;
       on_scr (\<lambda>s.
         if p = 0 then erase (CursorX s) (NumOfColumns s - CursorX s) s
         else if p = 1 then erase 0 (CursorX s + 1) s
         else if p = 2 then erase 0 (NumOfColumns s) s
         else Some s) v
     }"

definition CSLineErase :: "vt \<Rightarrow> vt option" where
  "CSLineErase = line_part BuffEraseCharsInLine"

definition CSQSelLineErase :: "vt \<Rightarrow> vt option" where
  "CSQSelLineErase = line_part BuffSelectedEraseCharsInLine"

text \<open>Inserting and deleting lines, inside the scroll region only.\<close>

definition with_lines :: "(int \<Rightarrow> int \<Rightarrow> screen \<Rightarrow> screen option) \<Rightarrow> vt \<Rightarrow> vt option" where
  "with_lines f v =
     (if CursorY (scr v) < CursorTop (scr v) \<or> CursorY (scr v) > CursorBottom (scr v) then Some v
      else with_param (\<lambda>v. NumOfLines (scr v)) (\<lambda>p. on_scr (\<lambda>s.
        let YEnd = (if CursorY s > CursorBottom s then NumOfLines s - 1 - StatusLine s else CursorBottom s);
            n = (if p > YEnd + 1 - CursorY s then YEnd + 1 - CursorY s else p)
        in f n YEnd s)) v)"

definition CSInsertLine :: "vt \<Rightarrow> vt option" where
  "CSInsertLine = with_lines BuffInsertLines"

definition CSDeleteNLines :: "vt \<Rightarrow> vt option" where
  "CSDeleteNLines = with_lines BuffDeleteLines"

definition CSScrollUp :: "vt \<Rightarrow> vt option" where
  "CSScrollUp = with_param (\<lambda>v. 0x7FFFFFFF) (\<lambda>p. on_scr (\<lambda>s. BuffRegionScrollUpNLines p (BuffUpdateScroll s)))"

definition CSScrollDown :: "vt \<Rightarrow> vt option" where
  "CSScrollDown = with_param (\<lambda>v. NumOfLines (scr v)) (\<lambda>p. on_scr (\<lambda>s. BuffRegionScrollDownNLines p (BuffUpdateScroll s)))"

definition CSRepeatCharacter :: "uni_env \<Rightarrow> vterm \<Rightarrow> vterm option" where
  "CSRepeatCharacter U st =
     do {
       v \<leftarrow> check_param (\<lambda>p. CheckParamVal p (NumOfColumns (scr (snd st)) * NumOfLines (scr (snd st)))) 1 (snd st);
       let v = v\<lparr>scr := BuffUpdateScroll (scr v)\<rparr>;
       p \<leftarrow> rd (Param v) 1;
       (w, v) \<leftarrow> RepeatChar U (LastPutCharacter v) p (fst st, v);
       Some (w, v\<lparr>LastPutCharacter := 0\<rparr>)
     }"

definition CSDeleteTabStop :: "vt \<Rightarrow> vt option" where
  "CSDeleteTabStop v = do { p \<leftarrow> rd (Param v) 1; on_scr (ClearTabStop p) v }"

subsection \<open>Reports\<close>

definition SendCSIstr :: "u8 list \<Rightarrow> vt \<Rightarrow> vt option" where
  "SendCSIstr str v =
     do {
       (c, _) \<leftarrow> CommBinaryOut (if Send8BitMode v then [0x9B] else [0x1B, 0x5B]) (vt.cv v);
       (c, _) \<leftarrow> CommBinaryOut str c;
       Some (v\<lparr>vt.cv := c\<rparr>)
     }"

text \<open>
  \<open>%u\<close> prints an \<open>int\<close> as unsigned. A report of more than 15 characters is truncated, for which
  \<open>_snprintf_s_l\<close> returns -1 and nothing is sent.
\<close>

definition unsigned_dec :: "int \<Rightarrow> u8 list" where
  "unsigned_dec i = dec_digits (nat (i mod 2 ^ 32))"

definition cursor_report :: "vt \<Rightarrow> u8 list" where
  "cursor_report v =
     (let s = scr v;
          (x, y) = (if isCursorOnStatusLine s then (CursorX s + 1, 1)
                    else if RelativeOrgMode v then (CursorX s - CursorLeftM s + 1, CursorY s - CursorTop s + 1)
                    else (CursorX s + 1, CursorY s + 1))
      in unsigned_dec y @ [0x3B] @ unsigned_dec x @ [0x52])"

definition CS_n_Mode :: "vt \<Rightarrow> vt option" where
  "CS_n_Mode v =
     do {
       p \<leftarrow> rd (Param v) 1;
       if p = 5 then SendCSIstr [0x30, 0x6E] v
       else if p = 6
       then if length (cursor_report v) \<le> 15 then SendCSIstr (cursor_report v) v else Some v
       else Some v
     }"

subsection \<open>The dispatch\<close>

definition cs_final :: "vt_ext \<Rightarrow> csi_ext \<Rightarrow> uni_env \<Rightarrow> u8 \<Rightarrow> vterm \<Rightarrow> vterm option" where
  "cs_final X Y U b st =
     (if b = 0x40 then on_vt CSInsertCharacter st
      else if b = 0x41 then on_vt (CSCursorUp True) st
      else if b = 0x42 then on_vt (CSCursorDown True) st
      else if b = 0x43 then on_vt (CSCursorRight True) st
      else if b = 0x44 then on_vt (CSCursorLeft True) st
      else if b = 0x45 then on_vt CSCursorDown1 st
      else if b = 0x46 then on_vt CSCursorUp1 st
      else if b = 0x47 then on_vt CSMoveToColumnN st
      else if b = 0x48 then CSMoveToXY st
      else if b = 0x49 then on_vt CSForwardTab st
      else if b = 0x4A then on_vt CSScreenErase st
      else if b = 0x4B then on_vt CSLineErase st
      else if b = 0x4C then on_vt CSInsertLine st
      else if b = 0x4D then on_vt CSDeleteNLines st
      else if b = 0x50 then on_vt CSDeleteCharacter st
      else if b = 0x53 then on_vt CSScrollUp st
      else if b = 0x54 then on_vt CSScrollDown st
      else if b = 0x58 then on_vt CSEraseCharacter st
      else if b = 0x5A then on_vt CSBackwardTab st
      else if b = 0x60 then on_vt CSMoveToColumnN st
      else if b = 0x61 then on_vt (CSCursorRight False) st
      else if b = 0x62 then CSRepeatCharacter U st
      else if b = 0x63 then AnswerTerminalType X st
      else if b = 0x64 then CSMoveToLineN st
      else if b = 0x65 then on_vt (CSCursorDown False) st
      else if b = 0x66 then CSMoveToXY st
      else if b = 0x67 then on_vt CSDeleteTabStop st
      else if b = 0x68 then CS_h_Mode Y st
      else if b = 0x69 then CS_i_Mode Y st
      else if b = 0x6A then on_vt (CSCursorLeft False) st
      else if b = 0x6B then on_vt (CSCursorUp False) st
      else if b = 0x6C then CS_l_Mode Y st
      else if b = 0x6D then on_vt (CSSetAttr (DispFindClosestColor Y)) st
      else if b = 0x6E then on_vt CS_n_Mode st
      else if b = 0x72 then on_vt CSSetScrollRegion st
      else if b = 0x73 then (if LRMarginMode (snd st) then on_vt CSSetLRScrollRegion st else Some (SaveCursor st))
      else if b = 0x74 then CSSunSequence Y st
      else if b = 0x75 then RestoreCursor st
      else Some st)"

text \<open>
  With one intermediate character only the private character 0 and, for \<open>$\<close>, \<open>?\<close> are
  looked at.
\<close>

definition ParseCS :: "vt_ext \<Rightarrow> csi_ext \<Rightarrow> uni_env \<Rightarrow> u8 \<Rightarrow> vterm \<Rightarrow> vterm option" where
  "ParseCS X Y U b st =
     (let v = snd st in
      if PrinterMode v then PrnParseCS Y b st
      else do {
        st \<leftarrow>
          (if ICount v = 0
           then if Prv v = 0 then cs_final X Y U b st
             else if Prv v \<in> {0x3C, 0x3D, 0x3E, 0x3F} then CSPrivate Y (Prv v) b st
             else Some st
           else if ICount v = 1
           then do {
             c \<leftarrow> rd (IntChar v) 1;
             if Prv v = 0 \<and> c \<in> {0x20, 0x21, 0x22, 0x24, 0x2A, 0x27} \<or> Prv v = 0x3F \<and> c = 0x24
             then CSIntermediate Y (Prv v) c b st
             else Some st
           }
           else Some st);
        Some (fst st, set_mode ModeFirst (snd st))
      })"

end
