(* ===== verification/VtParse.thy ===== *)
theory VtParse
  imports VtCsi
begin

section \<open>Strings and the receive loop (teraterm/teraterm/vtterm.c)\<close>

text \<open>
  The bytes between DCS, SOS, PM or APC and their end, and \<open>VTParse\<close>, which takes the received
  bytes one by one and gives each to the function of the parsing mode. The OSC sequences and
  the execution of a device control string are fields of the parameter \<open>Z\<close>.
\<close>

record str_ext =
  ParseDCS :: "u8 \<Rightarrow> u8 list \<Rightarrow> int \<Rightarrow> vterm \<Rightarrow> vterm option"
  XSequence :: "u8 \<Rightarrow> vterm \<Rightarrow> vterm option"
  TimeStamp :: "u32 list"
  MayRead :: "vt \<Rightarrow> bool"

subsection \<open>Strings\<close>

definition CheckUTF8Seq :: "id_kanji \<Rightarrow> u8 \<Rightarrow> int \<Rightarrow> int" where
  "CheckUTF8Seq k b utf8_stat =
     (if k = IdUTF8
      then if utf8_stat > 0 then (if 0x80 \<le> b \<and> b < 0xc0 then utf8_stat - 1 else 0)
        else if b < 0xc0 then utf8_stat
        else if b < 0xe0 then 1
        else if b < 0xf0 then 2
        else if b < 0xf8 then 3
        else utf8_stat
      else utf8_stat)"

text \<open>The end of a string, ESC \<open>\\<close> or the C1 code ST.\<close>

definition string_end :: "u8 \<Rightarrow> int \<Rightarrow> vt \<Rightarrow> bool" where
  "string_end b utf8_stat v \<longleftrightarrow>
     ESCFlag v \<and> b = 0x5C \<or> b = 0x9C \<and> KanjiCode (tts v) \<noteq> IdSJIS \<and> utf8_stat = 0"

definition IgnoreString :: "u8 \<Rightarrow> vt \<Rightarrow> vt" where
  "IgnoreString b v =
     (let v = (if string_end b (IgnUtf8 v) v \<or> b \<le> 0x1f \<and> b \<noteq> 0x1b \<and> b \<noteq> 9 then set_mode ModeFirst v else v)
      in v\<lparr>ESCFlag := (b = 0x1b), IgnUtf8 := CheckUTF8Seq (KanjiCode (tts v)) b (IgnUtf8 v)\<rparr>)"

definition dcs_param :: "u8 \<Rightarrow> vt \<Rightarrow> vt option" where
  "dcs_param b v =
     do {
       p \<leftarrow> rd (Param v) (NParam v);
       ps \<leftarrow> wr (Param v) (NParam v) (sint (word_of_int (p * 10 + uint b - 0x30) :: u32));
       Some (v\<lparr>Param := ps\<rparr>)
     }"

definition dcs_delimiter :: "vt \<Rightarrow> vt option" where
  "dcs_delimiter v =
     (if NParam v < NParamMax
      then do { ps \<leftarrow> wr (Param v) (NParam v + 1) 0; Some (v\<lparr>NParam := NParam v + 1, Param := ps\<rparr>) }
      else Some v)"

definition dcs_command :: "u8 \<Rightarrow> vt \<Rightarrow> vt option" where
  "dcs_command b v =
     (if ICount v = 0 \<and> b = 0x7C
      then do {
        p \<leftarrow> rd (Param v) 1;
        let v = set_mode ModeDCUserKey v;
        let v = (if p < 1 then call ClearUserKey v else v);
        Some (v\<lparr>WaitKeyId := True, NewKeyId := 0\<rparr>)
      }
      else Some (v\<lparr>DcsCmd := b, DcsFirst := False\<rparr>))"

definition DeviceControl ::
  "vt_ext \<Rightarrow> str_ext \<Rightarrow> uni_env \<Rightarrow> u8 \<Rightarrow> vterm \<Rightarrow> vterm option" where
  "DeviceControl X Z U b st =
     (let v = snd st in
      if string_end b (DcsUtf8 v) v
      then do {
        (w, v) \<leftarrow>
          (if \<not> DcsFirst v
           then do {
             bs \<leftarrow> wr (DcsStrBuff v) (DcsStrLen v) 0;
             ParseDCS Z (DcsCmd v) bs (DcsStrLen v) (fst st, v\<lparr>DcsStrBuff := bs\<rparr>)
           }
           else Some st);
        Some (w, v\<lparr>ESCFlag := False, ParseMode := ModeFirst, DcsFirst := True, DcsStrLen := 0, DcsUtf8 := 0\<rparr>)
      }
      else if b = 0x1b then Some (fst st, v\<lparr>ESCFlag := True, DcsUtf8 := 0\<rparr>)
      else
        let v = v\<lparr>ESCFlag := False, DcsUtf8 := CheckUTF8Seq (KanjiCode (tts v)) b (DcsUtf8 v)\<rparr>;
            st = (fst st, v)
        in if DcsFirst v
           then
             if b \<le> 0x1f then ParseControl_vt X U b st
             else if 0x20 \<le> b \<and> b \<le> 0x2F then on_vt (add_int_char b) st
             else if 0x30 \<le> b \<and> b \<le> 0x39 then on_vt (dcs_param b) st
             else if b = 0x3B then on_vt dcs_delimiter st
             else if 0x40 \<le> b \<and> b \<le> 0x7E then on_vt (dcs_command b) st
             else Some (fst st, IgnoreString b (v\<lparr>ParseMode := ModeIgnore, DcsUtf8 := 0\<rparr>))
           else if b \<le> 0x1f \<and> b \<noteq> 9 \<and> b \<noteq> 0x0D
           then Some (fst st, v\<lparr>ESCFlag := False, ParseMode := ModeFirst, DcsFirst := True, DcsStrLen := 0\<rparr>)
           else if DcsStrLen v < 255
           then do {
             bs \<leftarrow> wr (DcsStrBuff v) (DcsStrLen v) b;
             Some (fst st, v\<lparr>DcsStrBuff := bs, DcsStrLen := DcsStrLen v + 1\<rparr>)
           }
           else Some st)"

definition ConvHexChar :: "u8 \<Rightarrow> u8" where
  "ConvHexChar b =
     (if 0x30 \<le> b \<and> b \<le> 0x39 then b - 0x30
      else if 0x41 \<le> b \<and> b \<le> 0x46 then b - 0x37
      else if 0x61 \<le> b \<and> b \<le> 0x66 then b - 0x57 else 0)"

definition FuncKeyStrMax :: int where "FuncKeyStrMax = 32"

text \<open>The digits of a key definition, two to a byte.\<close>

definition key_byte :: "u8 \<Rightarrow> vt \<Rightarrow> vt option" where
  "key_byte b v =
     (if NewKeyLen v < FuncKeyStrMax
      then if WaitHi v
        then do {
          k \<leftarrow> wr (NewKeyStr v) (NewKeyLen v) (push_bit 4 (ConvHexChar b));
          Some (v\<lparr>NewKeyStr := k, WaitHi := False\<rparr>)
        }
        else do {
          c \<leftarrow> rd (NewKeyStr v) (NewKeyLen v);
          k \<leftarrow> wr (NewKeyStr v) (NewKeyLen v) (c + ConvHexChar b);
          Some (v\<lparr>NewKeyStr := k, WaitHi := True, NewKeyLen := NewKeyLen v + 1\<rparr>)
        }
      else Some v)"

definition define_key :: "vt \<Rightarrow> vt" where
  "define_key v = call (DefineUserKey (NewKeyId v) (NewKeyStr v) (NewKeyLen v)) v"

definition DCUserKey :: "u8 \<Rightarrow> vt \<Rightarrow> vt option" where
  "DCUserKey b v =
     (if string_end b (KeyUtf8 v) v
      then Some ((if \<not> WaitKeyId v then define_key v else v)\<lparr>ESCFlag := False, ParseMode := ModeFirst\<rparr>)
      else if b = 0x1b then Some (v\<lparr>ESCFlag := True\<rparr>)
      else
        let v = v\<lparr>ESCFlag := False, KeyUtf8 := CheckUTF8Seq (KanjiCode (tts v)) b (KeyUtf8 v)\<rparr>
        in if WaitKeyId v
           then Some
             (if 0x30 \<le> b \<and> b \<le> 0x39
              then if NewKeyId v < 1000 then v\<lparr>NewKeyId := NewKeyId v * 10 + uint b - 0x30\<rparr> else v
              else if b = 0x2F then v\<lparr>WaitKeyId := False, WaitHi := True, NewKeyLen := 0\<rparr> else v)
           else if b = 0x3B then Some ((define_key v)\<lparr>WaitKeyId := True, NewKeyId := 0\<rparr>)
           else key_byte b v)"

subsection \<open>File transfers that start by themselves\<close>

definition DLESeen :: "u8 \<Rightarrow> vt \<Rightarrow> vt" where
  "DLESeen b v =
     (let v = set_mode ModeFirst v;
          v = (if FTFlag (vset v) AND FT_BPAUTO \<noteq> 0 \<and> b = 0x42 then call BPStartReceive v else v)
      in v\<lparr>ChangeEmu := -1\<rparr>)"

definition CANSeen :: "u8 \<Rightarrow> vt \<Rightarrow> vt" where
  "CANSeen b v =
     (if FTFlag (vset v) AND FT_ZAUTO \<noteq> 0
      then if CanState v = 0 \<and> b = 0x42 then v\<lparr>CanState := 1\<rparr>
        else if CanState v = 1 \<and> b = 0x30 then v\<lparr>CanState := 2\<rparr>
        else
          let v = (if CanState v = 2
                   then if b = 0x30 then call ZMODEMStartReceive v
                     else if b = 0x31 then call ZMODEMStartSend v else v
                   else v)
          in v\<lparr>ParseMode := ModeFirst, ChangeEmu := -1, CanState := 0\<rparr>
      else v\<lparr>ParseMode := ModeFirst, ChangeEmu := -1\<rparr>)"

subsection \<open>The receive loop\<close>

definition time_stamp :: "str_ext \<Rightarrow> uni_env \<Rightarrow> u8 \<Rightarrow> vterm \<Rightarrow> vterm option" where
  "time_stamp Z U b st =
     (let v = snd st in
      if IsDumb (vset v) \<and> LogTimestamp (vset v) \<and> CursorX (scr v) = 0 \<and> b \<noteq> 0x0A \<and> b \<noteq> 0x0D
      then fold (\<lambda>c st. Option.bind st (PutU32_vt U c)) (TimeStamp Z) (Some st)
      else Some st)"

definition parse_byte ::
  "vt_ext \<Rightarrow> csi_ext \<Rightarrow> str_ext \<Rightarrow> uni_env \<Rightarrow> code_env \<Rightarrow> u8 \<Rightarrow> vterm \<Rightarrow> vterm option" where
  "parse_byte X Y Z U E b st =
     (case ParseMode (snd st) of
        ModeFirst \<Rightarrow> ParseFirst E (tts (snd st)) (vt_op X U) b st
      | ModeESC \<Rightarrow> EscapeSequence X U E b st
      | ModeDCS \<Rightarrow> DeviceControl X Z U b st
      | ModeDCUserKey \<Rightarrow> on_vt (DCUserKey b) st
      | ModeSOS \<Rightarrow> Some (fst st, IgnoreString b (snd st))
      | ModeCSI \<Rightarrow> ControlSequence X U E (ParseCS X Y U) b st
      | ModeXS \<Rightarrow> XSequence Z b st
      | ModeDLE \<Rightarrow> Some (fst st, DLESeen b (snd st))
      | ModeCAN \<Rightarrow> Some (fst st, CANSeen b (snd st))
      | ModeIgnore \<Rightarrow> Some (fst st, IgnoreString b (snd st)))"

definition vt_step ::
  "vt_ext \<Rightarrow> csi_ext \<Rightarrow> str_ext \<Rightarrow> uni_env \<Rightarrow> code_env \<Rightarrow> u8 \<Rightarrow> vterm \<Rightarrow> vterm option" where
  "vt_step X Y Z U E b st =
     do {
       st \<leftarrow> time_stamp Z U b st;
       (w, v) \<leftarrow> parse_byte X Y Z U E b st;
       let v = v\<lparr>PrevCharacter := b\<rparr>;
       Some (w, if ParseMode v \<noteq> ModeFirst \<and> ParseMode v \<noteq> ModeESC \<and> ParseMode v \<noteq> ModeCSI
                then v\<lparr>LastPutCharacter := 0\<rparr> else v)
     }"

definition read_byte :: "str_ext \<Rightarrow> vt \<Rightarrow> (vt \<times> u8 option) option" where
  "read_byte Z v =
     (if MayRead Z v then do { (c, b) \<leftarrow> CommRead1Byte (vt.cv v); Some (v\<lparr>vt.cv := c\<rparr>, b) }
      else Some (v, None))"

partial_function (option) parse_loop ::
  "vt_ext \<Rightarrow> csi_ext \<Rightarrow> str_ext \<Rightarrow> uni_env \<Rightarrow> code_env \<Rightarrow> u8 option \<Rightarrow> vterm \<Rightarrow> vterm option" where
  "parse_loop X Y Z U E c st =
     (case c of
        None \<Rightarrow> Some st
      | Some b \<Rightarrow>
          if ChangeEmu (snd st) \<noteq> 0 then Some st
          else do {
            (w, v) \<leftarrow> vt_step X Y Z U E b st;
            (v, c) \<leftarrow> (if ChangeEmu v = 0 then read_byte Z v else Some (v, Some b));
            parse_loop X Y Z U E c (w, v)
          })"

definition VTParse ::
  "vt_ext \<Rightarrow> csi_ext \<Rightarrow> str_ext \<Rightarrow> uni_env \<Rightarrow> code_env \<Rightarrow> vterm \<Rightarrow> (vterm \<times> int) option" where
  "VTParse X Y Z U E st =
     do {
       (v, c) \<leftarrow> read_byte Z (snd st);
       if c = None then Some ((fst st, v), 0)
       else do {
         v \<leftarrow> on_scr LockBuffer (v\<lparr>ChangeEmu := 0\<rparr>);
         (w, v) \<leftarrow> parse_loop X Y Z U E c (fst st, v);
         let v = v\<lparr>scr := UnlockBuffer (BuffUpdateScroll (scr v))\<rparr>;
         let v = (if ChangeEmu v > 0 then set_mode ModeFirst v else v);
         Some ((w, v), ChangeEmu v)
       }
     }"

end
