(* ===== verification/VtParamFacts.thy ===== *)
theory VtParamFacts
  imports VtCsi
begin

section \<open>The parameters of a control sequence\<close>

text \<open>
  What \<open>ControlSequence\<close> collects, as a list of parameters with their subparameters. The fixed
  arrays refine it for any bytes, and what a host writes is read back.
\<close>

subsection \<open>The arrays\<close>

definition param_shape :: "vt \<Rightarrow> bool" where
  "param_shape v \<longleftrightarrow> length (Param v) = 17 \<and> length (NSParam v) = 17 \<and> length (SubParam v) = 17 \<and>
     list_all (\<lambda>r. length r = 17) (SubParam v) \<and> list_all (\<lambda>n. 0 \<le> n \<and> n \<le> 16) (NSParam v) \<and> length (IntChar v) = 6"

definition params_ok :: "vt \<Rightarrow> bool" where
  "params_ok v \<longleftrightarrow> param_shape v \<and> 1 \<le> NParam v \<and> NParam v \<le> NParamMax \<and> 0 \<le> ICount v \<and> ICount v \<le> 5"

lemma list_all_update: "list_all P xs \<Longrightarrow> P x \<Longrightarrow> list_all P (xs[i := x])"
  by (auto simp: list_all_iff dest!: set_update_subset_insert [THEN subsetD])

lemma in_17: "length xs = 17 \<Longrightarrow> in_arr xs i \<longleftrightarrow> 0 \<le> i \<and> i \<le> 16"
  by (auto simp: in_arr_def)

lemma params_okD:
  assumes "params_ok v" "1 \<le> i" "i \<le> NParam v"
  shows "in_arr (Param v) i" "in_arr (NSParam v) i" "in_arr (SubParam v) i"
    "0 \<le> NSParam v ! nat i" "NSParam v ! nat i \<le> 16" "length (SubParam v ! nat i) = 17"
proof -
  have i: "nat i < 17" "0 \<le> i" "i \<le> 16" using assms by (auto simp: params_ok_def NParamMax_def)
  show "in_arr (Param v) i" "in_arr (NSParam v) i" "in_arr (SubParam v) i"
    using assms(1) i by (simp_all add: params_ok_def param_shape_def in_17)
  show "0 \<le> NSParam v ! nat i" "NSParam v ! nat i \<le> 16" "length (SubParam v ! nat i) = 17"
    using assms(1) i by (auto simp: params_ok_def param_shape_def list_all_length)
qed

subsection \<open>The abstract list of parameters\<close>

type_synonym csi_param = "int \<times> int list"

definition param_at :: "vt \<Rightarrow> int \<Rightarrow> csi_param" where
  "param_at v i = (Param v ! nat i, take (nat (NSParam v ! nat i)) (tl (SubParam v ! nat i)))"

definition csi_params :: "vt \<Rightarrow> csi_param list" where
  "csi_params v = map (param_at v) [1..NParam v]"

definition last_map :: "('a \<Rightarrow> 'a) \<Rightarrow> 'a list \<Rightarrow> 'a list" where
  "last_map f xs = butlast xs @ [f (last xs)]"

definition digit_to :: "u8 \<Rightarrow> csi_param \<Rightarrow> csi_param" where
  "digit_to b p = (case p of (n, ss) \<Rightarrow>
     if ss = [] then (ParamIncr n b, []) else (n, last_map (\<lambda>s. ParamIncr s b) ss))"

definition sub_to :: "csi_param \<Rightarrow> csi_param" where
  "sub_to p = (case p of (n, ss) \<Rightarrow> if length ss < 16 then (n, ss @ [0]) else (n, ss))"

definition csi_step :: "u8 \<Rightarrow> csi_param list \<Rightarrow> csi_param list" where
  "csi_step b ps =
     (if 0x30 \<le> b \<and> b \<le> 0x39 then last_map (digit_to b) ps
      else if b = 0x3A then last_map sub_to ps
      else if b = 0x3B then if length ps < 16 then ps @ [(0, [])] else ps
      else ps)"

lemma csi_params_split:
  "1 \<le> NParam v \<Longrightarrow> csi_params v = map (param_at v) [1..NParam v - 1] @ [param_at v (NParam v)]"
  using upto_rec2 [of 1 "NParam v"] by (simp add: csi_params_def)

lemma param_at_frame:
  assumes "\<And>i. 1 \<le> i \<Longrightarrow> i < k \<Longrightarrow> Param v' ! nat i = Param v ! nat i \<and> NSParam v' ! nat i = NSParam v ! nat i \<and>
      SubParam v' ! nat i = SubParam v ! nat i"
  shows "map (param_at v') [1..k - 1] = map (param_at v) [1..k - 1]"
  using assms by (simp add: param_at_def)

lemma csi_params_last:
  assumes "1 \<le> NParam v" "NParam v' = NParam v"
    and "\<And>i. 1 \<le> i \<Longrightarrow> i < NParam v \<Longrightarrow> Param v' ! nat i = Param v ! nat i \<and> NSParam v' ! nat i = NSParam v ! nat i \<and>
      SubParam v' ! nat i = SubParam v ! nat i"
    and "param_at v' (NParam v) = f (param_at v (NParam v))"
  shows "csi_params v' = last_map f (csi_params v)"
  using assms param_at_frame [of "NParam v" v' v, OF assms(3)] by (simp add: csi_params_split last_map_def)

lemma nth_update_same: "in_arr xs i \<Longrightarrow> xs[nat i := x] ! nat i = x"
  by (auto simp: in_arr_def)

lemma tl_update: "0 < k \<Longrightarrow> tl (xs[k := x]) = (tl xs)[k - 1 := x]"
  by (cases xs; cases k) auto

lemma take_update_last: "k < length xs \<Longrightarrow> take (Suc k) (xs[k := x]) = take k xs @ [x]"
  by (simp add: take_Suc_conv_app_nth)

subsection \<open>The steps\<close>

lemma param_digit_refines:
  assumes "params_ok v"
  shows "\<exists>v'. param_digit b v = Some v' \<and> params_ok v' \<and> csi_params v' = last_map (digit_to b) (csi_params v) \<and>
    (\<exists>p m. v' = v\<lparr>Param := p, SubParam := m\<rparr>)"
proof -
  let ?k = "NParam v"
  have k: "1 \<le> ?k" "?k \<le> 16" using assms by (auto simp: params_ok_def NParamMax_def)
  note arr = params_okD [OF assms k(1) order_refl]
  have nk: "nat i \<noteq> nat ?k" if "1 \<le> i" "i < ?k" for i using that by auto
  show ?thesis
  proof (cases "NSParam v ! nat ?k > 0")
    case False
    then have z: "NSParam v ! nat ?k = 0" using arr(4) by simp
    let ?v = "v\<lparr>Param := (Param v)[nat ?k := ParamIncr (Param v ! nat ?k) b]\<rparr>"
    have "param_digit b v = Some ?v" using arr z by (simp add: param_digit_def blit_simps)
    moreover have "params_ok ?v" using assms by (simp add: params_ok_def param_shape_def)
    moreover have "csi_params ?v = last_map (digit_to b) (csi_params v)"
      by (rule csi_params_last) (use k z arr in \<open>auto simp: nth_list_update param_at_def digit_to_def in_arr_def\<close>)
    moreover have "?v = v\<lparr>Param := Param ?v, SubParam := SubParam v\<rparr>" by simp
    ultimately show ?thesis by blast
  next
    case True
    let ?n = "NSParam v ! nat ?k"
    let ?r = "SubParam v ! nat ?k"
    let ?x = "ParamIncr (?r ! nat ?n) b"
    let ?v = "v\<lparr>SubParam := (SubParam v)[nat ?k := ?r[nat ?n := ?x]]\<rparr>"
    have in_r: "in_arr ?r ?n" using arr True by (simp add: in_17)
    have "param_digit b v = Some ?v" using arr True in_r by (simp add: param_digit_def rd2_def wr2_def blit_simps)
    moreover have "params_ok ?v" using assms arr
      by (auto simp: params_ok_def param_shape_def intro!: list_all_update)
    moreover have "csi_params ?v = last_map (digit_to b) (csi_params v)"
    proof (rule csi_params_last)
      obtain j where j: "nat ?n = Suc j" using True by (cases "nat ?n") auto
      then have jl: "j < length (tl ?r)" using arr by (simp add: nat_eq_iff)
      have "?r ! Suc j = tl ?r ! j" using jl by (simp add: nth_tl)
      moreover have "take (Suc j) (tl ?r) \<noteq> []" "last (take (Suc j) (tl ?r)) = tl ?r ! j"
          "butlast (take (Suc j) (tl ?r)) = take j (tl ?r)"
        using jl by (auto simp: take_Suc_conv_app_nth)
      ultimately show "param_at ?v ?k = digit_to b (param_at v ?k)"
        using arr jl by (simp add: param_at_def digit_to_def last_map_def j tl_update take_update_last nth_update_same)
    qed (use k in \<open>auto simp: nk\<close>)
    moreover have "?v = v\<lparr>Param := Param v, SubParam := SubParam ?v\<rparr>" by simp
    ultimately show ?thesis by blast
  qed
qed

lemma sub_delimiter_refines:
  assumes "params_ok v"
  shows "\<exists>v'. sub_delimiter v = Some v' \<and> params_ok v' \<and> csi_params v' = last_map sub_to (csi_params v) \<and>
    (\<exists>p m. v' = v\<lparr>NSParam := p, SubParam := m\<rparr>)"
proof -
  let ?k = "NParam v" let ?n = "NSParam v ! nat ?k" let ?r = "SubParam v ! nat ?k"
  have k: "1 \<le> ?k" "?k \<le> 16" using assms by (auto simp: params_ok_def NParamMax_def)
  note arr = params_okD [OF assms k(1) order_refl]
  have nk: "nat i \<noteq> nat ?k" if "1 \<le> i" "i < ?k" for i using that by auto
  show ?thesis
  proof (cases "?n < 16")
    case False
    have "csi_params v = last_map sub_to (csi_params v)"
      by (rule csi_params_last) (use k False arr in \<open>auto simp: sub_to_def param_at_def\<close>)
    moreover have "sub_delimiter v = Some v" using False arr by (simp add: sub_delimiter_def NSParamMax_def blit_simps)
    moreover have "v = v\<lparr>NSParam := NSParam v, SubParam := SubParam v\<rparr>" by simp
    ultimately show ?thesis using assms by blast
  next
    case True
    let ?v = "v\<lparr>NSParam := (NSParam v)[nat ?k := ?n + 1], SubParam := (SubParam v)[nat ?k := ?r[nat (?n + 1) := 0]]\<rparr>"
    have in_r: "in_arr ?r (?n + 1)" using arr True by (simp add: in_17)
    have "sub_delimiter v = Some ?v" using arr True in_r
      by (simp add: sub_delimiter_def rd2_def wr2_def blit_simps NSParamMax_def)
    moreover have "params_ok ?v" using assms arr True
      by (auto simp: params_ok_def param_shape_def intro!: list_all_update)
    moreover have "csi_params ?v = last_map sub_to (csi_params v)"
    proof (rule csi_params_last)
      have e: "nat (?n + 1) = Suc (nat ?n)" using arr by simp
      have l: "nat ?n < length (tl ?r)" "nat ?n < 16" using arr True by (simp_all add: nat_less_iff)
      then show "param_at ?v ?k = sub_to (param_at v ?k)"
        using arr by (simp add: param_at_def sub_to_def e tl_update take_update_last nth_update_same)
    qed (use k in \<open>auto simp: nk\<close>)
    moreover have "?v = v\<lparr>NSParam := NSParam ?v, SubParam := SubParam ?v\<rparr>" by simp
    ultimately show ?thesis by blast
  qed
qed

lemma add_param_refines:
  assumes "params_ok v" "NParam v < NParamMax"
  shows "\<exists>v'. add_param v = Some v' \<and> params_ok v' \<and> csi_params v' = csi_params v @ [(0, [])] \<and>
    NParam v' = NParam v + 1 \<and> (\<exists>n p m. v' = v\<lparr>NParam := n, Param := p, NSParam := m\<rparr>)"
proof -
  let ?k = "NParam v + 1"
  let ?v = "v\<lparr>NParam := ?k, Param := (Param v)[nat ?k := 0], NSParam := (NSParam v)[nat ?k := 0]\<rparr>"
  have k: "1 \<le> NParam v" "?k \<le> 16" using assms by (auto simp: params_ok_def NParamMax_def)
  have in_k: "in_arr (Param v) ?k" "in_arr (NSParam v) ?k"
    using assms(1) k by (simp_all add: params_ok_def param_shape_def in_17)
  have "add_param v = Some ?v" using in_k by (simp add: add_param_def blit_simps)
  moreover have "params_ok ?v" using assms k
    by (auto simp: params_ok_def param_shape_def NParamMax_def intro!: list_all_update)
  moreover have "csi_params ?v = csi_params v @ [(0, [])]"
  proof -
    have "[1..?k] = [1..NParam v] @ [?k]" using k upto_rec2 [of 1 ?k] by simp
    moreover have "map (param_at ?v) [1..NParam v] = map (param_at v) [1..NParam v]"
      by (auto simp: param_at_def)
    ultimately show ?thesis using in_k by (simp add: csi_params_def param_at_def nth_update_same)
  qed
  moreover have "NParam ?v = NParam v + 1" by simp
  moreover have "\<exists>n p m. ?v = v\<lparr>NParam := n, Param := p, NSParam := m\<rparr>" by blast
  ultimately show ?thesis by blast
qed

subsection \<open>Any bytes of a control sequence\<close>

text \<open>A byte that is neither a control code nor the final one.\<close>

definition param_byte :: "u8 \<Rightarrow> vt \<Rightarrow> vt option" where
  "param_byte b v =
     do {
       let v = (if PrinterMode v then call (WriteToPrnFile (ucast b)) v else v);
       v \<leftarrow> (if b \<le> 0x2F then add_int_char b v
             else if b \<le> 0x39 then param_digit b v
             else if b = 0x3A then sub_delimiter v
             else if b = 0x3B then delimiter v
             else Some (if FirstPrm v then v\<lparr>Prv := b\<rparr> else v));
       Some (v\<lparr>FirstPrm := False\<rparr>)
     }"

lemma ControlSequence_param:
  assumes "0x20 \<le> b" "b \<le> 0x3F"
  shows "ControlSequence X U E PCS b st = on_vt (param_byte b) st"
proof -
  have n: "32 \<le> unat b" "unat b \<le> 63" using assms by (simp_all add: word_le_nat_alt)
  have c: "\<not> (b \<le> 0x1f \<or> 0x80 \<le> b \<and> b \<le> 0x9F)" "\<not> (0x40 \<le> b \<and> b \<le> 0x7E)"
    "0x20 \<le> b \<and> b \<le> 0x2F \<longleftrightarrow> b \<le> 0x2F" "\<not> b \<le> 0x2F \<Longrightarrow> 0x30 \<le> b"
    "\<not> b \<le> 0x2F \<Longrightarrow> \<not> b \<le> 0x39 \<Longrightarrow> b \<noteq> 0x3A \<Longrightarrow> b \<noteq> 0x3B \<Longrightarrow> 0x3C \<le> b \<and> b \<le> 0x3F"
    using n by (auto simp: word_le_nat_alt word_unat_eq_iff)
  show ?thesis
    using c unfolding ControlSequence_def param_byte_def on_vt_def Let_def
    by (cases st) (auto split: option.splits simp: bind_eq_Some_conv)
qed

fun run_bytes :: "(u8 \<Rightarrow> vterm \<Rightarrow> vterm option) \<Rightarrow> u8 list \<Rightarrow> vterm \<Rightarrow> vterm option" where
  "run_bytes f [] st = Some st"
| "run_bytes f (b # bs) st = do { st \<leftarrow> f b st; run_bytes f bs st }"

lemma run_bytes_append: "run_bytes f (bs @ cs) st = Option.bind (run_bytes f bs st) (run_bytes f cs)"
  by (induction bs arbitrary: st) (simp, simp cong: bind_option_cong)

lemma frame_params [simp]:
  "csi_params (v\<lparr>calls := c\<rparr>) = csi_params v" "params_ok (v\<lparr>calls := c\<rparr>) = params_ok v"
  "csi_params (v\<lparr>FirstPrm := f\<rparr>) = csi_params v" "params_ok (v\<lparr>FirstPrm := f\<rparr>) = params_ok v"
  "csi_params (v\<lparr>Prv := p\<rparr>) = csi_params v" "params_ok (v\<lparr>Prv := p\<rparr>) = params_ok v"
  "csi_params (v\<lparr>ICount := i, IntChar := cs\<rparr>) = csi_params v"
  by (simp_all add: csi_params_def param_at_def [abs_def] params_ok_def param_shape_def)

lemma length_csi_params: "params_ok v \<Longrightarrow> length (csi_params v) = nat (NParam v)"
  by (simp add: csi_params_def)

text \<open>An operation refines one on the list of parameters and keeps the rest.\<close>

definition refines :: "(vt \<Rightarrow> vt option) \<Rightarrow> (csi_param list \<Rightarrow> csi_param list) \<Rightarrow> bool" where
  "refines f g \<longleftrightarrow> (\<forall>v. params_ok v \<longrightarrow>
     (\<exists>v'. f v = Some v' \<and> params_ok v' \<and> csi_params v' = g (csi_params v) \<and> scr v' = scr v \<and>
       ParseMode v' = ParseMode v \<and> FirstPrm v' = FirstPrm v \<and> Prv v' = Prv v))"

lemma refines_digit: "refines (param_digit b) (last_map (digit_to b))"
  unfolding refines_def using param_digit_refines by fastforce

lemma refines_sub: "refines sub_delimiter (last_map sub_to)"
  unfolding refines_def using sub_delimiter_refines by fastforce

lemma refines_int: "refines (add_int_char b) (\<lambda>ps. ps)"
  unfolding refines_def
proof (intro allI impI)
  fix v assume v: "params_ok v"
  define n where "n = (if ICount v < 5 then ICount v + 1 else ICount v)"
  have n: "0 \<le> n" "n \<le> 5" "in_arr (IntChar v) n"
    using v by (auto simp: n_def params_ok_def param_shape_def in_arr_def)
  let ?v = "v\<lparr>ICount := n, IntChar := (IntChar v)[nat n := b]\<rparr>"
  have "add_int_char b v = Some ?v" using n by (simp add: add_int_char_def n_def [symmetric] wr_in Let_def)
  moreover have "params_ok ?v" using v n by (simp add: params_ok_def param_shape_def)
  ultimately show "\<exists>v'. add_int_char b v = Some v' \<and> params_ok v' \<and> csi_params v' = csi_params v \<and> scr v' = scr v \<and>
       ParseMode v' = ParseMode v \<and> FirstPrm v' = FirstPrm v \<and> Prv v' = Prv v" by simp
qed

lemma refines_delimiter: "refines delimiter (\<lambda>ps. if length ps < 16 then ps @ [(0, [])] else ps)"
  unfolding refines_def
proof (intro allI impI)
  fix v assume v: "params_ok v"
  have l: "length (csi_params v) < 16 \<longleftrightarrow> NParam v < NParamMax"
    using v length_csi_params [OF v] by (auto simp: NParamMax_def params_ok_def)
  show "\<exists>v'. delimiter v = Some v' \<and> params_ok v' \<and>
      csi_params v' = (if length (csi_params v) < 16 then csi_params v @ [(0, [])] else csi_params v) \<and>
      scr v' = scr v \<and> ParseMode v' = ParseMode v \<and> FirstPrm v' = FirstPrm v \<and> Prv v' = Prv v"
  proof (cases "NParam v < NParamMax")
    case True
    from add_param_refines [OF v True] show ?thesis unfolding l delimiter_def by (auto simp: True)
  next
    case False
    then show ?thesis unfolding l delimiter_def by (simp add: v)
  qed
qed

lemma param_byte_refines:
  assumes "params_ok v" "0x20 \<le> b" "b \<le> 0x3F"
  shows "\<exists>v'. param_byte b v = Some v' \<and> params_ok v' \<and> csi_params v' = csi_step b (csi_params v) \<and>
    scr v' = scr v \<and> ParseMode v' = ParseMode v \<and> \<not> FirstPrm v' \<and>
    Prv v' = (if FirstPrm v \<and> 0x3C \<le> b then b else Prv v)"
proof -
  define v1 where "v1 = (if PrinterMode v then call (WriteToPrnFile (ucast b)) v else v)"
  have v1: "params_ok v1" "csi_params v1 = csi_params v" "scr v1 = scr v" "ParseMode v1 = ParseMode v"
    "FirstPrm v1 = FirstPrm v" "Prv v1 = Prv v"
    using assms(1) by (simp_all add: v1_def call_def)
  have n: "32 \<le> unat b" "unat b \<le> 63" using assms by (simp_all add: word_le_nat_alt)
  have run: ?thesis if f: "param_byte b v = do { v \<leftarrow> f v1; Some (v\<lparr>FirstPrm := False\<rparr>) }" "refines f g"
      "csi_step b = g" "\<not> 0x3C \<le> b" for f g
  proof -
    obtain v2 where "f v1 = Some v2" "params_ok v2" "csi_params v2 = g (csi_params v1)" "scr v2 = scr v1"
        "ParseMode v2 = ParseMode v1" "Prv v2 = Prv v1"
      using f(2) v1(1) unfolding refines_def by blast
    then show ?thesis using f(1,3,4) v1 by simp
  qed
  have pb: "param_byte b v =
     do {
       v \<leftarrow> (if b \<le> 0x2F then add_int_char b v1
             else if b \<le> 0x39 then param_digit b v1
             else if b = 0x3A then sub_delimiter v1
             else if b = 0x3B then delimiter v1
             else Some (if FirstPrm v1 then v1\<lparr>Prv := b\<rparr> else v1));
       Some (v\<lparr>FirstPrm := False\<rparr>)
     }" unfolding param_byte_def v1_def [symmetric] Let_def ..
  consider (int) "b \<le> 0x2F" | (digit) "\<not> b \<le> 0x2F" "b \<le> 0x39" | (sub) "b = 0x3A" | (del) "b = 0x3B"
    | (prv) "0x3C \<le> b" "\<not> b \<le> 0x2F" "\<not> b \<le> 0x39" "b \<noteq> 0x3A" "b \<noteq> 0x3B"
    using n by (fastforce simp: word_le_nat_alt word_unat_eq_iff)
  then show ?thesis
  proof cases
    case int
    show ?thesis
      by (rule run [OF _ refines_int])
        (use int in \<open>auto simp: pb csi_step_def word_le_nat_alt fun_eq_iff\<close>)
  next
    case digit
    show ?thesis
      by (rule run [OF _ refines_digit])
        (use digit in \<open>auto simp: pb csi_step_def word_le_nat_alt fun_eq_iff\<close>)
  next
    case sub
    have "param_byte b v = do { v \<leftarrow> sub_delimiter v1; Some (v\<lparr>FirstPrm := False\<rparr>) }"
      unfolding pb using sub by simp
    then show ?thesis
      by (rule run [OF _ refines_sub]) (use sub in \<open>auto simp: csi_step_def word_le_nat_alt fun_eq_iff\<close>)
  next
    case del
    have "param_byte b v = do { v \<leftarrow> delimiter v1; Some (v\<lparr>FirstPrm := False\<rparr>) }"
      unfolding pb using del by simp
    then show ?thesis
      by (rule run [OF _ refines_delimiter]) (use del in \<open>auto simp: csi_step_def word_le_nat_alt fun_eq_iff\<close>)
  next
    case prv
    then have "csi_step b ps = ps" for ps by (auto simp: csi_step_def)
    then show ?thesis using prv v1 by (simp add: pb)
  qed
qed

lemma run_params:
  assumes "params_ok v" "\<forall>b\<in>set bs. 0x20 \<le> b \<and> b \<le> 0x3F"
  shows "\<exists>v'. run_bytes (ControlSequence X U E PCS) bs (w, v) = Some (w, v') \<and> params_ok v' \<and>
    csi_params v' = fold csi_step bs (csi_params v) \<and> scr v' = scr v \<and> ParseMode v' = ParseMode v \<and>
    (bs \<noteq> [] \<longrightarrow> Prv v' = (if FirstPrm v \<and> 0x3C \<le> hd bs then hd bs else Prv v))"
  using assms
proof (induction bs arbitrary: v)
  case Nil
  then show ?case by simp
next
  case (Cons b bs)
  obtain v1 where v1: "param_byte b v = Some v1" "params_ok v1" "csi_params v1 = csi_step b (csi_params v)"
      "scr v1 = scr v" "ParseMode v1 = ParseMode v" "\<not> FirstPrm v1"
      "Prv v1 = (if FirstPrm v \<and> 0x3C \<le> b then b else Prv v)"
    using param_byte_refines [OF Cons.prems(1)] Cons.prems(2) by fastforce
  obtain v' where v': "run_bytes (ControlSequence X U E PCS) bs (w, v1) = Some (w, v')" "params_ok v'"
      "csi_params v' = fold csi_step bs (csi_params v1)" "scr v' = scr v1" "ParseMode v' = ParseMode v1"
      "bs \<noteq> [] \<longrightarrow> Prv v' = Prv v1"
    using Cons.IH [OF v1(2)] Cons.prems(2) v1(6) by auto
  have "Prv v' = Prv v1" using v'(1,6) by (cases "bs = []") auto
  then show ?case using v1 v' Cons.prems(2)
    by (auto simp: ControlSequence_param on_vt_def)
qed

lemma enter_csi_params:
  assumes "param_shape v"
  shows "\<exists>v'. enter_csi v = Some v' \<and> params_ok v' \<and> csi_params v' = [(0, [])] \<and> FirstPrm v' \<and> Prv v' = 0 \<and>
    ParseMode v' = ModeCSI \<and> scr v' = scr v"
  using assms
  by (auto simp: enter_csi_def ClearParams_def params_ok_def param_shape_def NParamMax_def csi_params_def param_at_def
      in_arr_def wr_def intro!: list_all_update)

text \<open>
  C27. The bytes between CSI and the final byte, whatever they are and however many, stay inside the
  four arrays, and the arrays hold the list of parameters that the grammar of the sequence
  gives: a digit goes to the last parameter or subparameter, at most sixteen of either.
\<close>

theorem ControlSequence_refines:
  assumes "param_shape v" "\<forall>b\<in>set bs. 0x20 \<le> b \<and> b \<le> 0x3F"
  shows "\<exists>v'. do { st \<leftarrow> on_vt enter_csi (w, v); run_bytes (ControlSequence X U E PCS) bs st } = Some (w, v') \<and>
    params_ok v' \<and> csi_params v' = fold csi_step bs [(0, [])] \<and> ParseMode v' = ModeCSI \<and> scr v' = scr v \<and>
    Prv v' = (if bs \<noteq> [] \<and> 0x3C \<le> hd bs then hd bs else 0)"
proof -
  obtain v1 where v1: "enter_csi v = Some v1" "params_ok v1" "csi_params v1 = [(0, [])]" "FirstPrm v1" "Prv v1 = 0"
      "ParseMode v1 = ModeCSI" "scr v1 = scr v"
    using enter_csi_params [OF assms(1)] by blast
  show ?thesis
    using run_params [OF v1(2) assms(2), where X = X and U = U and E = E and PCS = PCS and w = w] v1
    by (cases "bs = []") (auto simp: on_vt_def)
qed

subsection \<open>Reading back what a host writes\<close>

definition int32 :: "nat \<Rightarrow> int" where
  "int32 n = (if n < 2 ^ 31 then int n else if n < 2 ^ 32 then int n - 2 ^ 32 else -1)"

lemma sint_int32: "n < 2 ^ 32 \<Longrightarrow> sint (word_of_int (int n) :: u32) = int32 n"
proof -
  assume n: "n < 2 ^ 32"
  have "sint (word_of_int (int n) :: u32) = (int n + 2 ^ 31) mod 2 ^ 32 - 2 ^ 31"
    unfolding signed_of_int by (simp add: signed_take_bit_eq_take_bit_shift take_bit_eq_mod)
  moreover have "(int n + 2 ^ 31) mod 2 ^ 32 = (if n < 2 ^ 31 then int n + 2 ^ 31 else int n + 2 ^ 31 - 2 ^ 32)"
    using n minus_mod_self2 [of "int n + 2 ^ 31" "2 ^ 32 :: int"] by (auto simp: mod_pos_pos_trivial simp del: minus_mod_self2)
  ultimately show ?thesis using n by (simp add: int32_def)
qed

lemma int32_max: "int32 n = -1 \<longleftrightarrow> 2 ^ 32 - 1 \<le> n"
  by (auto simp: int32_def)

lemma int32_mod: "n < 2 ^ 32 \<Longrightarrow> int32 n mod 2 ^ 32 = int n"
  by (auto simp: int32_def minus_mod_self2)

lemma uint_digit: "d < 10 \<Longrightarrow> uint (0x30 + of_nat d :: u8) = 48 + int d"
proof -
  assume "d < 10"
  then have "uint (word_of_nat (48 + d) :: u8) = int (48 + d)"
    unfolding unsigned_of_nat by (simp add: take_bit_nat_eq_self)
  then show ?thesis by simp
qed

lemma ParamIncr_int32:
  assumes "d < 10"
  shows "ParamIncr (int32 n) (0x30 + of_nat d) = int32 (10 * n + d)"
proof (cases "2 ^ 32 - 1 \<le> n")
  case True
  then show ?thesis by (simp add: ParamIncr_def int32_def)
next
  case False
  then have n: "n < 2 ^ 32" "int32 n \<noteq> -1" using int32_max [of n] by auto
  have m: "int32 n mod 2 ^ 32 = int n" by (rule int32_mod [OF n(1)])
  have over: "int n > UINT_MAX div 10 \<or> int n * 10 > UINT_MAX - (48 + int d - 48) \<longleftrightarrow> \<not> 10 * n + d < 2 ^ 32"
    using assms by (auto simp: UINT_MAX_def)
  have val: "int n * 10 + (48 + int d) - 48 = int (10 * n + d)" by simp
  have "0x30 = (48 :: int)" by simp
  show ?thesis
  proof (cases "10 * n + d < 2 ^ 32")
    case True
    from sint_int32 [OF this] show ?thesis unfolding ParamIncr_def Let_def m uint_digit [OF assms] over val
      using n(2) True by (simp only: simp_thms if_True if_False)
  next
    case False
    then have "int32 (10 * n + d) = -1" by (simp add: int32_def)
    then show ?thesis unfolding ParamIncr_def Let_def m uint_digit [OF assms] over val
      using n(2) False by simp
  qed
qed

text \<open>What a host writes: parameters behind \<open>;\<close>, subparameters behind \<open>:\<close>.\<close>

definition print_param :: "nat \<times> nat list \<Rightarrow> u8 list" where
  "print_param p = dec_digits (fst p) @ concat (map (\<lambda>s. 0x3A # dec_digits s) (snd p))"

fun print_params :: "(nat \<times> nat list) list \<Rightarrow> u8 list" where
  "print_params [] = []"
| "print_params [p] = print_param p"
| "print_params (p # ps) = print_param p @ [0x3B] @ print_params ps"

definition read_param :: "nat \<times> nat list \<Rightarrow> csi_param" where
  "read_param p = (int32 (fst p), map int32 (snd p))"

lemma digit_range: "d < 10 \<Longrightarrow> 0x30 \<le> (0x30 + of_nat d :: u8) \<and> (0x30 + of_nat d :: u8) \<le> 0x39"
  using uint_digit [of d] by (simp add: word_le_def)

lemma last_map_snoc [simp]: "last_map f (xs @ [x]) = xs @ [f x]"
  by (simp add: last_map_def)

lemma csi_step_digit: "d < 10 \<Longrightarrow> csi_step (0x30 + of_nat d) ps = last_map (digit_to (0x30 + of_nat d)) ps"
  using digit_range [of d] by (simp add: csi_step_def)

lemma csi_step_colon: "csi_step 0x3A (ps @ [p]) = ps @ [sub_to p]"
  by (simp add: csi_step_def)

lemma csi_step_semicolon: "length ps < 16 \<Longrightarrow> csi_step 0x3B ps = ps @ [(0, [])]"
  by (simp add: csi_step_def)

lemma read_digits: "fold csi_step (dec_digits n) (ps @ [(0, [])]) = ps @ [(int32 n, [])]"
proof (induction n rule: dec_digits.induct)
  case (1 n)
  show ?case
  proof (cases "n < 10")
    case True
    then show ?thesis using ParamIncr_int32 [of n 0]
      by (simp add: dec_digits.simps [of n] csi_step_digit digit_to_def int32_def)
  next
    case False
    have "fold csi_step (dec_digits n) (ps @ [(0, [])]) = csi_step (0x30 + of_nat (n mod 10)) (ps @ [(int32 (n div 10), [])])"
      using False 1 by (simp add: dec_digits.simps [of n])
    also have "\<dots> = ps @ [(int32 (10 * (n div 10) + n mod 10), [])]"
      using ParamIncr_int32 [of "n mod 10" "n div 10"] by (simp add: csi_step_digit digit_to_def)
    finally show ?thesis by simp
  qed
qed

lemma read_sub_digits: "fold csi_step (dec_digits n) (ps @ [(x, ss @ [0])]) = ps @ [(x, ss @ [int32 n])]"
proof (induction n rule: dec_digits.induct)
  case (1 n)
  show ?case
  proof (cases "n < 10")
    case True
    then show ?thesis using ParamIncr_int32 [of n 0]
      by (simp add: dec_digits.simps [of n] csi_step_digit digit_to_def int32_def)
  next
    case False
    have "fold csi_step (dec_digits n) (ps @ [(x, ss @ [0])]) = csi_step (0x30 + of_nat (n mod 10)) (ps @ [(x, ss @ [int32 (n div 10)])])"
      using False 1 by (simp add: dec_digits.simps [of n])
    also have "\<dots> = ps @ [(x, ss @ [int32 (10 * (n div 10) + n mod 10)])]"
      using ParamIncr_int32 [of "n mod 10" "n div 10"] by (simp add: csi_step_digit digit_to_def)
    finally show ?thesis by simp
  qed
qed

lemma read_subs:
  "length ss + length us \<le> 16 \<Longrightarrow>
    fold csi_step (concat (map (\<lambda>s. 0x3A # dec_digits s) us)) (ps @ [(x, ss)]) = ps @ [(x, ss @ map int32 us)]"
proof (induction us arbitrary: ss)
  case (Cons t us)
  then show ?case using read_sub_digits [of t ps x ss] by (simp add: csi_step_colon sub_to_def)
qed simp

lemma read_print_param:
  "length (snd p) \<le> 16 \<Longrightarrow> fold csi_step (print_param p) (ps @ [(0, [])]) = ps @ [read_param p]"
  using read_subs [of "[]" "snd p" ps "int32 (fst p)"] by (simp add: print_param_def read_digits read_param_def)

lemma read_print_params:
  "qs \<noteq> [] \<Longrightarrow> length ps + length qs \<le> 16 \<Longrightarrow> \<forall>q\<in>set qs. length (snd q) \<le> 16 \<Longrightarrow>
    fold csi_step (print_params qs) (ps @ [(0, [])]) = ps @ map read_param qs"
proof (induction qs arbitrary: ps rule: print_params.induct)
  case (3 q r qs)
  then show ?case using "3.IH" [of "ps @ [read_param q]"] read_print_param [of q ps]
    by (simp add: csi_step_semicolon)
qed (simp_all add: read_print_param)

lemma dec_digits_range: "b \<in> set (dec_digits n) \<Longrightarrow> 0x30 \<le> b \<and> b \<le> 0x39"
proof (induction n rule: dec_digits.induct)
  case (1 n)
  show ?case using 1 digit_range [of n] digit_range [of "n mod 10"] dec_digits.simps [of n]
    by (auto split: if_splits)
qed

lemma print_param_range: "b \<in> set (print_param q) \<Longrightarrow> 0x30 \<le> b \<and> b \<le> 0x3B"
proof -
  have d: "0x30 \<le> b \<and> b \<le> 0x39 \<Longrightarrow> 0x30 \<le> b \<and> b \<le> 0x3B" by (simp add: word_le_nat_alt)
  assume "b \<in> set (print_param q)"
  then consider n where "b \<in> set (dec_digits n)" | "b = 0x3A" by (auto simp: print_param_def split: if_splits)
  then show ?thesis using d dec_digits_range by cases auto
qed

lemma print_params_range: "b \<in> set (print_params qs) \<Longrightarrow> 0x30 \<le> b \<and> b \<le> 0x3B"
  by (induction qs rule: print_params.induct) (auto dest: print_param_range)

lemma param_text_range: "0x30 \<le> (b :: u8) \<and> b \<le> 0x3B \<Longrightarrow> 0x20 \<le> b \<and> b \<le> 0x3F \<and> \<not> b \<le> 0x2F \<and> \<not> 0x3C \<le> b"
  by (simp add: word_le_nat_alt)

text \<open>
  C28. The parameters and subparameters that a host writes in decimal arrive as they are, up to the
  largest int; behind that a number turns negative, and behind 2^32 it becomes -1.
\<close>

theorem ControlSequence_roundtrip:
  assumes "param_shape v" "qs \<noteq> []" "length qs \<le> 16" "\<forall>q\<in>set qs. length (snd q) \<le> 16"
  shows "\<exists>v'. do { st \<leftarrow> on_vt enter_csi (w, v); run_bytes (ControlSequence X U E PCS) (print_params qs) st } = Some (w, v') \<and>
    csi_params v' = map read_param qs"
proof -
  obtain v1 where v1: "enter_csi v = Some v1" "params_ok v1" "csi_params v1 = [(0, [])]"
    using enter_csi_params [OF assms(1)] by blast
  have "\<forall>b\<in>set (print_params qs). 0x20 \<le> b \<and> b \<le> 0x3F" using print_params_range param_text_range by blast
  then show ?thesis
    using run_params [OF v1(2), where X = X and U = U and E = E and PCS = PCS and w = w] v1
      read_print_params [OF assms(2), of "[]"] assms(3,4) by (fastforce simp: on_vt_def)
qed

subsection \<open>What the collection leaves alone\<close>

text \<open>What later steps look at, outside the collection.\<close>

definition rest_of :: "vt \<Rightarrow> screen \<times> vt_set \<times> TCharAttr \<times> parse_mode \<times> bool \<times> bool \<times> int \<times> comvar" where
  "rest_of v = (scr v, vset v, CharAttr v, ParseMode v, PrinterMode v, RelativeOrgMode v, ChangeEmu v, vt.cv v)"

lemma rest_of_fields:
  assumes "rest_of v' = rest_of v"
  shows "scr v' = scr v" "vt.cv v' = vt.cv v" "vset v' = vset v" "CharAttr v' = CharAttr v" "ParseMode v' = ParseMode v"
    "PrinterMode v' = PrinterMode v" "RelativeOrgMode v' = RelativeOrgMode v" "ChangeEmu v' = ChangeEmu v"
  using assms by (simp_all add: rest_of_def)

lemma rest_of_update [simp]:
  "rest_of (v\<lparr>PrevCharacter := a\<rparr>) = rest_of v" "rest_of (v\<lparr>Param := b\<rparr>) = rest_of v" "rest_of (v\<lparr>SubParam := c\<rparr>) = rest_of v"
  "rest_of (v\<lparr>NParam := d\<rparr>) = rest_of v" "rest_of (v\<lparr>NSParam := e\<rparr>) = rest_of v" "rest_of (v\<lparr>FirstPrm := f\<rparr>) = rest_of v"
  "rest_of (v\<lparr>IntChar := g\<rparr>) = rest_of v" "rest_of (v\<lparr>ICount := h\<rparr>) = rest_of v" "rest_of (v\<lparr>Prv := i\<rparr>) = rest_of v"
  "rest_of (v\<lparr>calls := j\<rparr>) = rest_of v"
  by (simp_all add: rest_of_def)

lemma rest_of_more [simp]: "rest_of (call c v) = rest_of v" "ICount (call c v) = ICount v"
  by (simp_all add: call_def)

text \<open>An observation \<open>k\<close> of the result is the one of \<open>v\<close>.\<close>

definition kept :: "(vt \<Rightarrow> 'a) \<Rightarrow> vt \<Rightarrow> vt option \<Rightarrow> bool" where
  "kept k v r \<longleftrightarrow> (\<forall>v'. r = Some v' \<longrightarrow> k v' = k v)"

lemma kept_Some: "k v' = k v \<Longrightarrow> kept k v (Some v')"
  by (simp add: kept_def)

lemma kept_if: "(c \<Longrightarrow> kept k v a) \<Longrightarrow> (\<not> c \<Longrightarrow> kept k v b) \<Longrightarrow> kept k v (if c then a else b)"
  by simp

lemma kept_bind: "(\<And>x. kept k v (f x)) \<Longrightarrow> kept k v (Option.bind m f)"
  by (cases m) (simp_all add: kept_def)

lemma kept_bind_vt:
  assumes "kept k v m" "\<And>u. kept k u (f u)"
  shows "kept k v (Option.bind m f)"
proof (cases m)
  case (Some u)
  then have "k u = k v" using assms(1) by (simp add: kept_def)
  moreover have "kept k u (f u)" by (rule assms(2))
  ultimately show ?thesis using Some by (simp add: kept_def)
qed (simp add: kept_def)

lemmas kept_rules = kept_if kept_bind kept_Some

lemma kept_ops:
  "kept rest_of v (add_int_char b v)" "kept rest_of v (param_digit b v)" "kept rest_of v (sub_delimiter v)"
  "kept rest_of v (delimiter v)" "kept ICount v (param_digit b v)" "kept ICount v (sub_delimiter v)"
  "kept ICount v (delimiter v)"
proof -
  show "kept rest_of v (add_int_char b v)"
    unfolding add_int_char_def Let_def by (rule kept_bind, rule kept_Some) simp
  show "kept rest_of v (param_digit b v)" "kept ICount v (param_digit b v)"
    unfolding param_digit_def by (intro kept_rules; simp)+
  show "kept rest_of v (sub_delimiter v)" "kept ICount v (sub_delimiter v)"
    unfolding sub_delimiter_def by (intro kept_rules; simp)+
  show "kept rest_of v (delimiter v)" "kept ICount v (delimiter v)"
    unfolding delimiter_def add_param_def by (intro kept_rules; simp)+
qed

lemma kept_same: "kept k u r \<Longrightarrow> k u = k v \<Longrightarrow> kept k v r"
  by (simp add: kept_def)

lemma kept_param_byte:
  "kept rest_of v (param_byte b v)" "\<not> b \<le> 0x2F \<Longrightarrow> kept ICount v (param_byte b v)"
proof -
  define u where "u = (if PrinterMode v then call (WriteToPrnFile (ucast b)) v else v)"
  have u: "rest_of u = rest_of v" "ICount u = ICount v" by (simp_all add: u_def)
  note ops = kept_same [OF kept_ops(1)] kept_same [OF kept_ops(2)] kept_same [OF kept_ops(3)]
    kept_same [OF kept_ops(4)] kept_same [OF kept_ops(5)] kept_same [OF kept_ops(6)] kept_same [OF kept_ops(7)]
  show "kept rest_of v (param_byte b v)"
    unfolding param_byte_def u_def [symmetric] Let_def
    by (rule kept_bind_vt, intro kept_if) (auto intro!: ops kept_Some simp: u)
  assume "\<not> b \<le> 0x2F"
  then show "kept ICount v (param_byte b v)"
    unfolding param_byte_def u_def [symmetric] Let_def
    by (intro kept_bind_vt kept_if) (auto intro!: ops kept_Some simp: u)
qed

subsection \<open>A terminal to evaluate on\<close>

definition sample_vset :: vt_set where
  "sample_vset = \<lparr>CRReceive = eol_code.IdCR, Dec2Unicode = IdDecSpecialDecToUni, UnicodeDecSpMapping = 3,
     LogTypePlainText = False, Beep = 1, AutoWinSwitch = 0, FTFlag = 0, Answerback = [], IsDumb = False,
     ScrollWindowClearScreen = False, ColorFlag = 7, LogTimestamp = False\<rparr>"

definition sample_status :: TStatusBuff where
  "sample_status = \<lparr>SavedX = 0, SavedY = 0, SavedAttr = DefCharAttr, SavedCharSet = CharSetSaveState (CharSetInit sample_tset),
     SavedAutoWrap = True, SavedOrigin = False\<rparr>"

definition sample_vt :: vt where
  "sample_vt = \<lparr>scr = sample_screen, cv = sample_cv, vset = sample_vset, CharAttr = DefCharAttr, RelativeOrgMode = False,
     InsertMode = False, LFMode = False, ClearThenHome = False, AutoWrapMode = True, AltScr = False, LRMarginMode = False,
     VTlevel = 4, Send8BitMode = False, AppliKeyMode = False, PrevCharacter = 255, PrevCRorLFGeneratedCRLF = False,
     LastPutCharacter = 0, SBuff1 = sample_status, SBuff2 = sample_status, SBuff3 = sample_status, ESCFlag = False,
     JustAfterESC = False, Param = replicate 17 0, SubParam = replicate 17 (replicate 17 0), NParam = 0,
     NSParam = replicate 17 0, FirstPrm = False, IntChar = replicate 6 0, ICount = 0, Prv = 0, ParseMode = ModeFirst,
     ChangeEmu = 0, AutoPrintMode = False, PrinterMode = False, DirectPrn = False, FLogIsOpendText = False, DDELog = False,
     check_eol = CheckEOLCreate CheckEOLTypeLog, log_cr_type = 0, IgnUtf8 = 0, DcsFirst = True,
     DcsStrBuff = replicate 256 0, DcsStrLen = 0, DcsUtf8 = 0, DcsCmd = 0, KeyUtf8 = 0, WaitKeyId = False, WaitHi = False,
     NewKeyStr = replicate 32 0, NewKeyId = 0, NewKeyLen = 0, CanState = 0, calls = []\<rparr>"

lemma sample_vt_shape [simp]: "param_shape sample_vt"
  by (simp add: sample_vt_def param_shape_def list_all_iff)

theorem ControlSequence_refines_witness:
  "\<forall>w X U E PCS. \<exists>v'. do { st \<leftarrow> on_vt enter_csi (w, sample_vt);
        run_bytes (ControlSequence X U E PCS) [0x3F, 0x31, 0x3B, 0x3B, 0x37] st }
      = Some (w, v') \<and> csi_params v' = [(1, []), (0, []), (7, [])] \<and> Prv v' = 0x3F"
proof (intro allI)
  fix w X U E PCS
  have "\<forall>b\<in>set [0x3F, 0x31, 0x3B, 0x3B, 0x37]. 0x20 \<le> b \<and> b \<le> (0x3F :: u8)" by (simp add: word_le_nat_alt)
  from ControlSequence_refines [OF sample_vt_shape this, where w = w and X = X and U = U and E = E and PCS = PCS]
  show "\<exists>v'. do { st \<leftarrow> on_vt enter_csi (w, sample_vt);
        run_bytes (ControlSequence X U E PCS) [0x3F, 0x31, 0x3B, 0x3B, 0x37] st }
      = Some (w, v') \<and> csi_params v' = [(1, []), (0, []), (7, [])] \<and> Prv v' = 0x3F"
    by (auto simp: csi_step_def last_map_def digit_to_def ParamIncr_def UINT_MAX_def word_le_nat_alt)
qed

theorem ControlSequence_roundtrip_witness:
  "\<forall>w X U E PCS. \<exists>v'. do { st \<leftarrow> on_vt enter_csi (w, sample_vt);
        run_bytes (ControlSequence X U E PCS) (print_params [(38, [2, 255, 0, 10]), (4294967296, [])]) st }
      = Some (w, v') \<and> csi_params v' = [(38, [2, 255, 0, 10]), (-1, [])]"
proof (intro allI)
  fix w X U E PCS
  show "\<exists>v'. do { st \<leftarrow> on_vt enter_csi (w, sample_vt);
        run_bytes (ControlSequence X U E PCS) (print_params [(38, [2, 255, 0, 10]), (4294967296, [])]) st }
      = Some (w, v') \<and> csi_params v' = [(38, [2, 255, 0, 10]), (-1, [])]"
    using ControlSequence_roundtrip [OF sample_vt_shape, of "[(38, [2, 255, 0, 10]), (4294967296, [])]",
        where w = w and X = X and U = U and E = E and PCS = PCS]
    by (simp add: read_param_def int32_def)
qed

end
