(* ===== verification/VtCursor.thy ===== *)
theory VtCursor
  imports VtParamFacts VtParse
begin

section \<open>Moving the cursor by control sequences\<close>

text \<open>
  Every handler that moves the cursor or sets a margin keeps it on the screen, whatever the
  parameters are; and the whole way of a cursor position sequence, from the bytes to the screen.
\<close>

subsection \<open>Handlers that keep the terminal well formed\<close>

text \<open>The screen and the parameters are well formed, and the page has a line besides the status line.\<close>

definition vt_ok :: "vt \<Rightarrow> bool" where
  "vt_ok v \<longleftrightarrow> screen_ok (scr v) \<and> StatusLine (scr v) < NumOfLines (scr v) \<and> params_ok v"

text \<open>No cell has changed.\<close>

definition moved :: "vt \<Rightarrow> vt \<Rightarrow> bool" where
  "moved v v' \<longleftrightarrow> vt_ok v' \<and> CodeBuffW (scr v') = CodeBuffW (scr v) \<and> NumOfColumns (scr v') = NumOfColumns (scr v) \<and>
     NumOfLines (scr v') = NumOfLines (scr v) \<and> ts (scr v') = ts (scr v) \<and> vset v' = vset v \<and> PrinterMode v' = PrinterMode v"

definition moves :: "(vt \<Rightarrow> vt option) \<Rightarrow> bool" where
  "moves f \<longleftrightarrow> (\<forall>v. vt_ok v \<longrightarrow> (\<exists>v'. f v = Some v' \<and> moved v v'))"

lemma movesI: "(\<And>v. vt_ok v \<Longrightarrow> \<exists>v'. f v = Some v' \<and> moved v v') \<Longrightarrow> moves f"
  by (simp add: moves_def)

lemma moves_bind:
  assumes "moves f" "moves g"
  shows "moves (\<lambda>v. do { v \<leftarrow> f v; g v })"
proof (rule movesI)
  fix v assume "vt_ok v"
  then obtain u where u: "f v = Some u" "moved v u" using assms(1) by (auto simp: moves_def)
  then have "vt_ok u" by (simp add: moved_def)
  then obtain v' where "g u = Some v'" "moved u v'" using assms(2) by (auto simp: moves_def)
  then show "\<exists>v'. do { v \<leftarrow> f v; g v } = Some v' \<and> moved v v'" using u by (auto simp: moved_def)
qed

lemma params_ok_scr [simp]: "params_ok (v\<lparr>scr := s\<rparr>) = params_ok v"
  by (simp add: params_ok_def param_shape_def)

lemma vt_ok_scr [simp]:
  "vt_ok (v\<lparr>scr := s\<rparr>) \<longleftrightarrow> screen_ok s \<and> StatusLine s < NumOfLines s \<and> params_ok v"
  by (simp add: vt_ok_def params_ok_def param_shape_def)

lemma vt_ok_param [simp]: "vt_ok v \<Longrightarrow> vt_ok (v\<lparr>Param := (Param v)[i := x]\<rparr>)"
  by (simp add: vt_ok_def params_ok_def param_shape_def)

lemma moved_param [simp]: "moved (v\<lparr>Param := ps\<rparr>) v' = moved v v'"
  by (simp add: moved_def)

lemma check_param_eq:
  assumes "params_ok v" "0 \<le> i" "i \<le> 16"
  shows "check_param f i v = Some (v\<lparr>Param := (Param v)[nat i := f (Param v ! nat i)]\<rparr>)"
proof -
  have "in_arr (Param v) i" using assms by (simp add: params_ok_def param_shape_def in_17)
  then show ?thesis by (simp add: check_param_def blit_simps)
qed

lemma read_param_in:
  assumes "params_ok v" "0 \<le> i" "i \<le> 16"
  shows "rd (Param v) i = Some (Param v ! nat i)"
  using assms by (simp add: params_ok_def param_shape_def in_17 rd_in)

lemma on_scr_move:
  assumes "vt_ok v" "0 \<le> x" "x < NumOfColumns (scr v)" "0 \<le> y" "y < NumOfLines (scr v)"
  shows "\<exists>v'. on_scr (\<lambda>s. MoveCursor x y s) v = Some v' \<and> moved v v' \<and> CursorX (scr v') = x \<and> CursorY (scr v') = y"
proof -
  have ok: "screen_ok (scr v)" "params_ok v" "StatusLine (scr v) < NumOfLines (scr v)" using assms(1) by (simp_all add: vt_ok_def)
  obtain s' l w c where s': "MoveCursor x y (scr v) = Some s'" "screen_ok s'"
      "s' = (scr v)\<lparr>LinePtr := l, vw := w, StrChangeCount := c, CursorX := x, CursorY := y, Wrap := False\<rparr>"
    using MoveCursor_ok [OF ok(1) assms(2-5)] by blast
  have "moved v (v\<lparr>scr := s'\<rparr>)" using s'(2) ok unfolding moved_def by (simp add: s'(3))
  then show ?thesis using s' by (auto simp: on_scr_def)
qed

text \<open>
  A handler that clips its parameter and then moves the cursor to where \<open>X\<close> and \<open>Y\<close> say;
  the target has to be on the screen for a clipped parameter.
\<close>

lemma with_param_at:
  assumes "vt_ok v"
    and "\<And>p. p = CheckParamVal (Param v ! 1) (m v) \<Longrightarrow>
      0 \<le> X p (scr v) \<and> X p (scr v) < NumOfColumns (scr v) \<and> 0 \<le> Y p (scr v) \<and> Y p (scr v) < NumOfLines (scr v)"
  shows "\<exists>v'. with_param m (\<lambda>p. on_scr (\<lambda>s. MoveCursor (X p s) (Y p s) s)) v = Some v' \<and> moved v v' \<and>
    CursorX (scr v') = X (CheckParamVal (Param v ! 1) (m v)) (scr v) \<and>
    CursorY (scr v') = Y (CheckParamVal (Param v ! 1) (m v)) (scr v)"
proof -
  let ?p = "CheckParamVal (Param v ! 1) (m v)"
  let ?v = "v\<lparr>Param := (Param v)[1 := ?p]\<rparr>"
  have ok: "params_ok v" "vt_ok ?v" "params_ok ?v"
    using assms(1) vt_ok_param [OF assms(1)] by (simp_all add: vt_ok_def)
  have r: "rd (Param ?v) 1 = Some ?p"
    using ok(1) by (simp add: rd_def in_17 params_ok_def param_shape_def)
  have "with_param m (\<lambda>p. on_scr (\<lambda>s. MoveCursor (X p s) (Y p s) s)) v =
      on_scr (\<lambda>s. MoveCursor (X ?p s) (Y ?p s) s) ?v"
    using r by (simp add: with_param_def check_param_eq [OF ok(1)])
  also have "\<dots> = on_scr (\<lambda>s. MoveCursor (X ?p (scr v)) (Y ?p (scr v)) s) ?v"
    by (simp add: on_scr_def)
  finally show ?thesis
    using on_scr_move [OF ok(2), of "X ?p (scr v)" "Y ?p (scr v)"] assms(2) [OF refl] by simp
qed

lemma CheckParamVal_range: "1 \<le> m \<Longrightarrow> 1 \<le> CheckParamVal p m \<and> CheckParamVal p m \<le> m"
  by (auto simp: CheckParamVal_def)

lemma CheckParamVal_pos: "0 \<le> m \<Longrightarrow> 0 \<le> CheckParamVal p m"
  by (auto simp: CheckParamVal_def)

lemma CheckParamValMax_range: "1 \<le> m \<Longrightarrow> 1 \<le> CheckParamValMax p m \<and> CheckParamValMax p m \<le> m"
  by (auto simp: CheckParamValMax_def)

lemma vt_ok_cursor:
  assumes "vt_ok v"
  shows "0 \<le> CursorX (scr v)" "CursorX (scr v) < NumOfColumns (scr v)" "0 \<le> CursorY (scr v)" "CursorY (scr v) < NumOfLines (scr v)"
    "0 \<le> CursorLeftM (scr v)" "CursorLeftM (scr v) \<le> CursorRightM (scr v)" "CursorRightM (scr v) < NumOfColumns (scr v)"
    "0 \<le> CursorTop (scr v)" "CursorTop (scr v) \<le> CursorBottom (scr v)" "CursorBottom (scr v) < NumOfLines (scr v)"
    "0 \<le> StatusLine (scr v)" "StatusLine (scr v) \<le> 1" "StatusLine (scr v) < NumOfLines (scr v)"
  using assms by (simp_all add: vt_ok_def screen_ok_def cursor_ok_def)

text \<open>Where the relative movements end: at the margin when they start inside it, else at the edge.\<close>

definition up_to :: "bool \<Rightarrow> int \<Rightarrow> screen \<Rightarrow> int" where
  "up_to m p s = max (CursorY s - p) (if m \<and> CursorTop s \<le> CursorY s then CursorTop s else 0)"

definition down_to :: "bool \<Rightarrow> int \<Rightarrow> screen \<Rightarrow> int" where
  "down_to m p s = min (CursorY s + p) (if m \<and> CursorY s \<le> CursorBottom s then CursorBottom s else NumOfLines s - StatusLine s - 1)"

definition right_to :: "bool \<Rightarrow> int \<Rightarrow> screen \<Rightarrow> int" where
  "right_to m p s = min (CursorX s + p) (if m \<and> CursorX s \<le> CursorRightM s then CursorRightM s else NumOfColumns s - 1)"

definition left_to :: "bool \<Rightarrow> int \<Rightarrow> screen \<Rightarrow> int" where
  "left_to m p s = max (CursorX s - p) (if m \<and> CursorLeftM s \<le> CursorX s then CursorLeftM s else 0)"

lemma if_max: "(if y < t then t else y) = max y (t :: int)"
  by simp

lemma if_min: "(if b < y then b else y) = min y (b :: int)"
  by simp

lemma CSCursorUp_eq:
  "CSCursorUp m = with_param (\<lambda>v. CursorY (scr v)) (\<lambda>p. on_scr (\<lambda>s. MoveCursor (CursorX s) (up_to m p s) s))"
  unfolding CSCursorUp_def up_to_def Let_def if_max ..

lemma CSCursorDown_eq:
  "CSCursorDown m = with_param (\<lambda>v. bottom_margin m (scr v)) (\<lambda>p. on_scr (\<lambda>s. MoveCursor (CursorX s) (down_to m p s) s))"
  unfolding CSCursorDown_def down_to_def bottom_margin_def Let_def if_min ..

lemma CSCursorRight_eq:
  "CSCursorRight m = with_param (\<lambda>v. NumOfColumns (scr v)) (\<lambda>p. on_scr (\<lambda>s. MoveCursor (right_to m p s) (CursorY s) s))"
  unfolding CSCursorRight_def right_to_def Let_def if_min ..

lemma CSCursorLeft_eq:
  "CSCursorLeft m = with_param (\<lambda>v. NumOfColumns (scr v)) (\<lambda>p. on_scr (\<lambda>s. MoveCursor (left_to m p s) (CursorY s) s))"
  unfolding CSCursorLeft_def left_to_def Let_def if_max ..

lemma moves_relative:
  assumes "vt_ok v"
  shows
    "\<exists>v'. CSCursorDown m v = Some v' \<and> moved v v' \<and> CursorX (scr v') = CursorX (scr v) \<and>
      CursorY (scr v') = down_to m (CheckParamVal (Param v ! 1) (bottom_margin m (scr v))) (scr v)"
    "\<exists>v'. CSCursorUp m v = Some v' \<and> moved v v' \<and> CursorX (scr v') = CursorX (scr v) \<and>
      CursorY (scr v') = up_to m (CheckParamVal (Param v ! 1) (CursorY (scr v))) (scr v)"
    "\<exists>v'. CSCursorRight m v = Some v' \<and> moved v v' \<and>
      CursorX (scr v') = right_to m (CheckParamVal (Param v ! 1) (NumOfColumns (scr v))) (scr v) \<and> CursorY (scr v') = CursorY (scr v)"
    "\<exists>v'. CSCursorLeft m v = Some v' \<and> moved v v' \<and>
      CursorX (scr v') = left_to m (CheckParamVal (Param v ! 1) (NumOfColumns (scr v))) (scr v) \<and> CursorY (scr v') = CursorY (scr v)"
proof -
  note c = vt_ok_cursor [OF assms]
  have p: "0 \<le> CheckParamVal (Param v ! 1) (CursorY (scr v))" "0 \<le> CheckParamVal (Param v ! 1) (NumOfColumns (scr v))"
    using CheckParamVal_pos c by (smt (verit))+
  have b: "0 \<le> bottom_margin m (scr v)" using c by (auto simp: bottom_margin_def)
  have "0 \<le> CheckParamVal (Param v ! 1) (bottom_margin m (scr v))" using CheckParamVal_pos b by blast
  then show "\<exists>v'. CSCursorDown m v = Some v' \<and> moved v v' \<and> CursorX (scr v') = CursorX (scr v) \<and>
      CursorY (scr v') = down_to m (CheckParamVal (Param v ! 1) (bottom_margin m (scr v))) (scr v)"
    unfolding CSCursorDown_eq by (intro with_param_at [OF assms]) (use c in \<open>auto simp: down_to_def\<close>)
  show "\<exists>v'. CSCursorUp m v = Some v' \<and> moved v v' \<and> CursorX (scr v') = CursorX (scr v) \<and>
      CursorY (scr v') = up_to m (CheckParamVal (Param v ! 1) (CursorY (scr v))) (scr v)"
    unfolding CSCursorUp_eq by (rule with_param_at [OF assms]) (use c p in \<open>auto simp: up_to_def\<close>)
  show "\<exists>v'. CSCursorRight m v = Some v' \<and> moved v v' \<and>
      CursorX (scr v') = right_to m (CheckParamVal (Param v ! 1) (NumOfColumns (scr v))) (scr v) \<and> CursorY (scr v') = CursorY (scr v)"
    unfolding CSCursorRight_eq by (rule with_param_at [OF assms]) (use c p in \<open>auto simp: right_to_def\<close>)
  show "\<exists>v'. CSCursorLeft m v = Some v' \<and> moved v v' \<and>
      CursorX (scr v') = left_to m (CheckParamVal (Param v ! 1) (NumOfColumns (scr v))) (scr v) \<and> CursorY (scr v') = CursorY (scr v)"
    unfolding CSCursorLeft_eq by (rule with_param_at [OF assms]) (use c p in \<open>auto simp: left_to_def\<close>)
qed

lemma moves_relatives: "moves (CSCursorDown m)" "moves (CSCursorUp m)" "moves (CSCursorRight m)" "moves (CSCursorLeft m)"
  by (rule movesI, drule moves_relative, blast)+

lemma moves_left_margin: "moves (on_scr (\<lambda>s. MoveCursor (CursorLeftM s) (CursorY s) s))"
proof (rule movesI)
  fix v assume v: "vt_ok v"
  have "on_scr (\<lambda>s. MoveCursor (CursorLeftM s) (CursorY s) s) v = on_scr (\<lambda>s. MoveCursor (CursorLeftM (scr v)) (CursorY (scr v)) s) v"
    by (simp add: on_scr_def)
  then show "\<exists>v'. on_scr (\<lambda>s. MoveCursor (CursorLeftM s) (CursorY s) s) v = Some v' \<and> moved v v'"
    using on_scr_move [OF v, of "CursorLeftM (scr v)" "CursorY (scr v)"] vt_ok_cursor [OF v] by auto
qed

lemma moves_lines: "moves CSCursorUp1" "moves CSCursorDown1"
  unfolding CSCursorUp1_def [abs_def] CSCursorDown1_def [abs_def]
  by (intro moves_bind moves_left_margin moves_relatives)+

text \<open>The absolute movements.\<close>

definition column_to :: "bool \<Rightarrow> int \<Rightarrow> screen \<Rightarrow> int" where
  "column_to org p s = (if org then min (CursorLeftM s + p) (CursorRightM s) else p)"

definition line_to :: "bool \<Rightarrow> int \<Rightarrow> screen \<Rightarrow> int" where
  "line_to org p s = (if org then min (CursorTop s + p) (CursorBottom s) else min p (NumOfLines s - 1 - StatusLine s))"

lemma column_to_range:
  assumes "vt_ok v" "0 \<le> p" "p < NumOfColumns (scr v)"
  shows "0 \<le> column_to org p (scr v)" "column_to org p (scr v) < NumOfColumns (scr v)"
  using vt_ok_cursor [OF assms(1)] assms(2,3) by (auto simp: column_to_def)

lemma line_to_range:
  assumes "vt_ok v" "0 \<le> p"
  shows "0 \<le> line_to org p (scr v)" "line_to org p (scr v) < NumOfLines (scr v)"
  using vt_ok_cursor [OF assms(1)] assms(2) by (auto simp: line_to_def)

lemma CSMoveToColumnN_ok:
  assumes "vt_ok v"
  shows "\<exists>v'. CSMoveToColumnN v = Some v' \<and> moved v v' \<and> CursorY (scr v') = CursorY (scr v) \<and>
    CursorX (scr v') = column_to (RelativeOrgMode v) (CheckParamVal (Param v ! 1) (NumOfColumns (scr v)) - 1) (scr v)"
proof -
  let ?p = "CheckParamVal (Param v ! 1) (NumOfColumns (scr v))"
  let ?v = "v\<lparr>Param := (Param v)[1 := ?p - 1]\<rparr>"
  note c = vt_ok_cursor [OF assms]
  have ok: "params_ok v" "vt_ok ?v" "params_ok (v\<lparr>Param := (Param v)[1 := ?p]\<rparr>)" "1 < length (Param v)"
    using assms vt_ok_param [OF assms] by (auto simp: vt_ok_def params_ok_def param_shape_def)
  have p: "1 \<le> ?p \<and> ?p \<le> NumOfColumns (scr v)" using c by (intro CheckParamVal_range) linarith
  have "CSMoveToColumnN v = on_scr (\<lambda>s. MoveCursor (column_to (RelativeOrgMode v) (?p - 1) (scr v)) (CursorY (scr v)) s) ?v"
    using check_param_eq [OF ok(1), of 1] check_param_eq [OF ok(3), of 1] read_param_in [of ?v 1] ok
    by (simp add: CSMoveToColumnN_def on_scr_def column_to_def vt_ok_def if_min)
  then show ?thesis
    using on_scr_move [OF ok(2), of "column_to (RelativeOrgMode v) (?p - 1) (scr v)" "CursorY (scr v)"]
      column_to_range [OF assms, of "?p - 1"] p c by auto
qed

text \<open>Two parameters, the second one 0 when it was not sent.\<close>

definition second :: "vt \<Rightarrow> int" where
  "second v = (if NParam v = 1 then 0 else Param v ! 2)"

lemma RequiredParams_two:
  assumes "params_ok v"
  shows "\<exists>v'. RequiredParams 2 v = Some v' \<and> params_ok v' \<and> rest_of v' = rest_of v \<and>
    Param v' ! 1 = Param v ! 1 \<and> Param v' ! 2 = second v"
proof (cases "NParam v = 1")
  case True
  let ?v = "v\<lparr>NParam := 2, Param := (Param v)[2 := 0], NSParam := (NSParam v)[2 := 0]\<rparr>"
  have l: "length (Param v) = 17" "length (NSParam v) = 17" using assms by (simp_all add: params_ok_def param_shape_def)
  have "RequiredParams 2 v = Some ?v"
    using True l by (simp add: RequiredParams_def add_param_def wr_def in_17 numeral_eq_Suc)
  moreover have "params_ok ?v" using assms
    by (auto simp: params_ok_def param_shape_def NParamMax_def intro!: list_all_update)
  ultimately show ?thesis using True l by (simp add: second_def rest_of_def)
next
  case False
  then have "2 \<le> NParam v" using assms by (simp add: params_ok_def)
  then have "nat (2 - NParam v) = 0" by simp
  then have "RequiredParams 2 v = Some v" by (simp add: RequiredParams_def)
  then show ?thesis using assms False by (simp add: second_def)
qed

text \<open>Both parameters clipped, as \<open>CSMoveToXY\<close> and the margins do.\<close>

lemma two_params:
  assumes "vt_ok v"
  shows "\<exists>v'. do { v \<leftarrow> RequiredParams 2 v; v \<leftarrow> check_param (F (scr v)) 1 v; v \<leftarrow> check_param (G (scr v)) 2 v;
      p \<leftarrow> rd (Param v) 1; q \<leftarrow> rd (Param v) 2; h p q v } = h (F (scr v) (Param v ! 1)) (G (scr v) (second v)) v' \<and>
    vt_ok v' \<and> rest_of v' = rest_of v"
proof -
  obtain u where u: "RequiredParams 2 v = Some u" "params_ok u" "rest_of u = rest_of v" "Param u ! 1 = Param v ! 1"
      "Param u ! 2 = second v"
    using RequiredParams_two [of v] assms by (auto simp: vt_ok_def)
  let ?u1 = "u\<lparr>Param := (Param u)[1 := F (scr v) (Param v ! 1)]\<rparr>"
  let ?u2 = "?u1\<lparr>Param := (Param ?u1)[2 := G (scr v) (second v)]\<rparr>"
  have l: "length (Param u) = 17" using u(2) by (simp add: params_ok_def param_shape_def)
  have p1: "params_ok ?u1" using u(2) by (simp add: params_ok_def param_shape_def)
  have p2: "params_ok ?u2" using u(2) by (simp add: params_ok_def param_shape_def)
  have "vt_ok ?u2" "rest_of ?u2 = rest_of v"
    using p2 assms rest_of_fields(1) [OF u(3)] u(3) by (simp_all add: vt_ok_def)
  moreover have "do { v \<leftarrow> RequiredParams 2 v; v \<leftarrow> check_param (F (scr v)) 1 v; v \<leftarrow> check_param (G (scr v)) 2 v;
      p \<leftarrow> rd (Param v) 1; q \<leftarrow> rd (Param v) 2; h p q v } = h (F (scr v) (Param v ! 1)) (G (scr v) (second v)) ?u2"
    using u check_param_eq [OF u(2), of 1 "F (scr v)"] check_param_eq [OF p1, of 2 "G (scr v)"] read_param_in [OF p2, of 1]
      read_param_in [OF p2, of 2] l rest_of_fields(1) [OF u(3)] by simp
  ultimately show ?thesis by blast
qed

lemma CSMoveToXY_ok:
  assumes "vt_ok v" "\<not> isCursorOnStatusLine (scr v)"
  shows "\<exists>v'. CSMoveToXY (w, v) = Some (CharSetFallbackFinish w, v') \<and> moved v v' \<and>
    CursorX (scr v') = column_to (RelativeOrgMode v) (CheckParamVal (second v) (NumOfColumns (scr v)) - 1) (scr v) \<and>
    CursorY (scr v') = line_to (RelativeOrgMode v)
      (CheckParamVal (Param v ! 1) (NumOfLines (scr v) - StatusLine (scr v)) - 1) (scr v)"
proof -
  let ?q = "CheckParamVal (second v) (NumOfColumns (scr v))"
  let ?p = "CheckParamVal (Param v ! 1) (NumOfLines (scr v) - StatusLine (scr v))"
  let ?x = "column_to (RelativeOrgMode v) (?q - 1) (scr v)" and ?y = "line_to (RelativeOrgMode v) (?p - 1) (scr v)"
  let ?h = "\<lambda>p q v. do { v \<leftarrow> on_scr (\<lambda>s.
         if isCursorOnStatusLine s then MoveCursor (q - 1) (CursorY s) s
         else if RelativeOrgMode v
         then
           let x = q - 1 + CursorLeftM s; y = p - 1 + CursorTop s
           in MoveCursor (if x > CursorRightM s then CursorRightM s else x)
                (if y > CursorBottom s then CursorBottom s else y) s
         else MoveCursor (q - 1)
                (if p - 1 > NumOfLines s - 1 - StatusLine s then NumOfLines s - 1 - StatusLine s else p - 1) s) v;
       Some (CharSetFallbackFinish w, v) }"
  note c = vt_ok_cursor [OF assms(1)]
  obtain u where u: "CSMoveToXY (w, v) = ?h ?p ?q u" "vt_ok u" "rest_of u = rest_of v"
    using two_params [OF assms(1), of "\<lambda>s p. CheckParamVal p (NumOfLines s - StatusLine s)"
        "\<lambda>s p. CheckParamVal p (NumOfColumns s)" ?h]
    unfolding CSMoveToXY_def fst_conv snd_conv by blast
  note ru = rest_of_fields [OF u(3)]
  have "?h ?p ?q u = do { v \<leftarrow> on_scr (\<lambda>s. MoveCursor ?x ?y s) u; Some (CharSetFallbackFinish w, v) }"
    using assms(2) by (auto simp: on_scr_def ru column_to_def line_to_def Let_def if_min add.commute)
  moreover have "1 \<le> ?q \<and> ?q \<le> NumOfColumns (scr v)" "1 \<le> ?p \<and> ?p \<le> NumOfLines (scr v) - StatusLine (scr v)"
    using c by (intro CheckParamVal_range; linarith)+
  ultimately show ?thesis
    using u on_scr_move [OF u(2), of ?x ?y] column_to_range [OF assms(1), of "?q - 1"] line_to_range [OF assms(1), of "?p - 1"]
    by (auto simp: ru moved_def)
qed

lemma CSMoveToLineN_ok:
  assumes "vt_ok v"
  shows "\<exists>v'. CSMoveToLineN (w, v) = Some (CharSetFallbackFinish w, v') \<and> moved v v' \<and> CursorX (scr v') = CursorX (scr v) \<and>
    CursorY (scr v') = line_to (RelativeOrgMode v)
      (CheckParamVal (Param v ! 1) (NumOfLines (scr v) - StatusLine (scr v)) - 1) (scr v)"
proof -
  let ?m = "\<lambda>v. NumOfLines (scr v) - StatusLine (scr v)"
  let ?p = "CheckParamVal (Param v ! 1) (?m v)"
  let ?y = "line_to (RelativeOrgMode v) (?p - 1) (scr v)"
  let ?v = "v\<lparr>Param := (Param v)[1 := ?p]\<rparr>"
  let ?f = "\<lambda>p v. on_scr (\<lambda>s.
         if RelativeOrgMode v
         then MoveCursor (CursorX s) (if CursorTop s + p - 1 > CursorBottom s then CursorBottom s else CursorTop s + p - 1) s
         else MoveCursor (CursorX s) (if p > NumOfLines s - StatusLine s then NumOfLines s - 1 - StatusLine s else p - 1) s) v"
  note c = vt_ok_cursor [OF assms]
  have ok: "params_ok v" "vt_ok ?v" "params_ok ?v" "1 < length (Param v)"
    using assms vt_ok_param [OF assms] by (auto simp: vt_ok_def params_ok_def param_shape_def)
  have "with_param ?m ?f v = ?f ?p ?v"
    using check_param_eq [OF ok(1), of 1] read_param_in [OF ok(3), of 1] ok(4) by (simp add: with_param_def cong: if_cong)
  also have "\<dots> = on_scr (\<lambda>s. MoveCursor (CursorX (scr v)) ?y s) ?v"
    by (auto simp: on_scr_def line_to_def min_def add_diff_eq)
  finally have "CSMoveToLineN (w, v) = do { v \<leftarrow> on_scr (\<lambda>s. MoveCursor (CursorX (scr v)) ?y s) ?v; Some (CharSetFallbackFinish w, v) }"
    by (simp add: CSMoveToLineN_def)
  moreover have "1 \<le> ?p \<and> ?p \<le> NumOfLines (scr v) - StatusLine (scr v)"
    using c by (intro CheckParamVal_range) linarith
  ultimately show ?thesis
    using on_scr_move [OF ok(2), of "CursorX (scr v)" ?y] line_to_range [OF assms, of "?p - 1"] c by auto
qed

text \<open>A new pair of margins.\<close>

lemma on_scr_margins:
  assumes "vt_ok v" "screen_ok s" "CodeBuffW s = CodeBuffW (scr v)" "NumOfColumns s = NumOfColumns (scr v)"
    "NumOfLines s = NumOfLines (scr v)" "StatusLine s = StatusLine (scr v)" "ts s = ts (scr v)"
    "0 \<le> x" "x < NumOfColumns s" "0 \<le> y" "y < NumOfLines s"
  shows "\<exists>s' v'. MoveCursor x y s = Some s' \<and> v' = v\<lparr>scr := s'\<rparr> \<and> moved v v' \<and> CursorTop s' = CursorTop s \<and>
    CursorBottom s' = CursorBottom s \<and> CursorLeftM s' = CursorLeftM s \<and> CursorRightM s' = CursorRightM s \<and>
    CursorX s' = x \<and> CursorY s' = y"
proof -
  have v: "vt_ok (v\<lparr>scr := s\<rparr>)" using assms by (simp, simp add: vt_ok_def)
  obtain s' l w c where s': "MoveCursor x y s = Some s'" "screen_ok s'"
      "s' = s\<lparr>LinePtr := l, vw := w, StrChangeCount := c, CursorX := x, CursorY := y, Wrap := False\<rparr>"
    using MoveCursor_ok [OF assms(2,8-11)] by blast
  have "moved v (v\<lparr>scr := s'\<rparr>)" using s'(2) assms unfolding moved_def by (simp add: s'(3) vt_ok_def)
  then show ?thesis using s' by auto
qed

lemma set_rows:
  assumes "vt_ok u" "1 \<le> p" "p < q" "q \<le> NumOfLines (scr u) - StatusLine (scr u)"
  shows "\<exists>v'. on_scr (\<lambda>s. let s = s\<lparr>CursorTop := p - 1, CursorBottom := q - 1\<rparr>
      in MoveCursor 0 (if org then CursorTop s else 0) s) u = Some v' \<and> moved u v' \<and>
    CursorTop (scr v') = p - 1 \<and> CursorBottom (scr v') = q - 1"
proof -
  let ?s = "(scr u)\<lparr>CursorTop := p - 1, CursorBottom := q - 1\<rparr>"
  note c = vt_ok_cursor [OF assms(1)]
  have "screen_ok ?s" using assms
    by (auto simp: vt_ok_def screen_ok_def page_ok_def geom_ok_def cursor_ok_def lineptr_ok_def row_ptr_def)
  moreover have "0 \<le> (if org then p - 1 else 0)" "(if org then p - 1 else 0) < NumOfLines (scr u)" using assms c by auto
  ultimately show ?thesis
    using on_scr_margins [OF assms(1), of ?s 0 "if org then p - 1 else 0"] c
    by (cases org) (auto simp: on_scr_def Let_def)
qed

lemma set_columns:
  assumes "vt_ok u" "1 \<le> p" "p < q" "q \<le> NumOfColumns (scr u)"
  shows "\<exists>v'. on_scr (\<lambda>s. let s = s\<lparr>CursorLeftM := p - 1, CursorRightM := q - 1\<rparr>
      in if org then MoveCursor (CursorLeftM s) (CursorTop s) s else MoveCursor 0 0 s) u = Some v' \<and> moved u v' \<and>
    CursorLeftM (scr v') = p - 1 \<and> CursorRightM (scr v') = q - 1"
proof -
  let ?s = "(scr u)\<lparr>CursorLeftM := p - 1, CursorRightM := q - 1\<rparr>"
  let ?x = "if org then p - 1 else 0" and ?y = "if org then CursorTop (scr u) else 0"
  note c = vt_ok_cursor [OF assms(1)]
  have "screen_ok ?s" using assms
    by (auto simp: vt_ok_def screen_ok_def page_ok_def geom_ok_def cursor_ok_def lineptr_ok_def row_ptr_def)
  moreover have "0 \<le> ?x" "?x < NumOfColumns (scr u)" "0 \<le> ?y" "?y < NumOfLines (scr u)" using assms c by auto
  ultimately show ?thesis
    using on_scr_margins [OF assms(1), of ?s ?x ?y] by (cases org) (auto simp: on_scr_def Let_def)
qed

lemma CSSetScrollRegion_ok: "moves CSSetScrollRegion"
proof (rule movesI)
  fix v assume v: "vt_ok v"
  note c = vt_ok_cursor [OF v]
  show "\<exists>v'. CSSetScrollRegion v = Some v' \<and> moved v v'"
  proof (cases "isCursorOnStatusLine (scr v)")
    case True
    have "on_scr (\<lambda>s. MoveCursor 0 (CursorY s) s) v = on_scr (\<lambda>s. MoveCursor 0 (CursorY (scr v)) s) v"
      by (simp add: on_scr_def)
    then show ?thesis
      using True on_scr_move [OF v, of 0 "CursorY (scr v)"] c by (auto simp: CSSetScrollRegion_def)
  next
    case False
    let ?n = "NumOfLines (scr v) - StatusLine (scr v)"
    let ?h = "\<lambda>p q v. if p \<ge> q then Some v
          else on_scr (\<lambda>s.
            let s = s\<lparr>CursorTop := p - 1, CursorBottom := q - 1\<rparr>
            in MoveCursor 0 (if RelativeOrgMode v then CursorTop s else 0) s) v"
    obtain p q u where u: "CSSetScrollRegion v = ?h p q u" "vt_ok u" "rest_of u = rest_of v"
        and p: "p = CheckParamVal (Param v ! 1) ?n" and q: "q = CheckParamValMax (second v) ?n"
      using two_params [OF v, of "\<lambda>s p. CheckParamVal p (NumOfLines s - StatusLine s)"
          "\<lambda>s p. CheckParamValMax p (NumOfLines s - StatusLine s)" ?h] False
      unfolding CSSetScrollRegion_def by auto
    note ru = rest_of_fields [OF u(3)]
    have "1 \<le> p" "q \<le> ?n" using c CheckParamVal_range [of ?n] CheckParamValMax_range [of ?n] by (auto simp: p q)
    then show ?thesis using u set_rows [OF u(2), of p q "RelativeOrgMode u"] by (auto simp: moved_def ru)
  qed
qed

lemma CSSetLRScrollRegion_ok: "moves CSSetLRScrollRegion"
proof (rule movesI)
  fix v assume v: "vt_ok v"
  note c = vt_ok_cursor [OF v]
  let ?n = "NumOfColumns (scr v)"
  let ?h = "\<lambda>p q v. if p \<ge> q then Some v
        else on_scr (\<lambda>s.
          let s = s\<lparr>CursorLeftM := p - 1, CursorRightM := q - 1\<rparr>
          in if RelativeOrgMode v then MoveCursor (CursorLeftM s) (CursorTop s) s else MoveCursor 0 0 s) v"
  obtain p q u where u: "CSSetLRScrollRegion v = ?h p q u" "vt_ok u" "rest_of u = rest_of v"
      and p: "p = CheckParamVal (Param v ! 1) ?n" and q: "q = CheckParamValMax (second v) ?n"
    using two_params [OF v, of "\<lambda>s p. CheckParamVal p (NumOfColumns s)" "\<lambda>s p. CheckParamValMax p (NumOfColumns s)" ?h]
    unfolding CSSetLRScrollRegion_def by auto
  note ru = rest_of_fields [OF u(3)]
  have "1 \<le> p" "q \<le> ?n" using c CheckParamVal_range [of ?n] CheckParamValMax_range [of ?n] by (auto simp: p q)
  then show "\<exists>v'. CSSetLRScrollRegion v = Some v' \<and> moved v v'"
    using u set_columns [OF u(2), of p q "RelativeOrgMode u"] by (auto simp: moved_def ru)
qed

subsection \<open>The dispatch\<close>

lemma CSMoveToXY_moves:
  assumes "vt_ok v"
  shows "\<exists>w' v'. CSMoveToXY (w, v) = Some (w', v') \<and> moved v v'"
proof (cases "isCursorOnStatusLine (scr v)")
  case False
  then show ?thesis using CSMoveToXY_ok [OF assms] by blast
next
  case True
  let ?q = "CheckParamVal (second v) (NumOfColumns (scr v))"
  let ?h = "\<lambda>p q v. do { v \<leftarrow> on_scr (\<lambda>s.
         if isCursorOnStatusLine s then MoveCursor (q - 1) (CursorY s) s
         else if RelativeOrgMode v
         then
           let x = q - 1 + CursorLeftM s; y = p - 1 + CursorTop s
           in MoveCursor (if x > CursorRightM s then CursorRightM s else x)
                (if y > CursorBottom s then CursorBottom s else y) s
         else MoveCursor (q - 1)
                (if p - 1 > NumOfLines s - 1 - StatusLine s then NumOfLines s - 1 - StatusLine s else p - 1) s) v;
       Some (CharSetFallbackFinish w, v) }"
  note c = vt_ok_cursor [OF assms]
  obtain p u where u: "CSMoveToXY (w, v) = ?h p ?q u" "vt_ok u" "rest_of u = rest_of v"
    using two_params [OF assms, of "\<lambda>s p. CheckParamVal p (NumOfLines s - StatusLine s)"
        "\<lambda>s p. CheckParamVal p (NumOfColumns s)" ?h]
    unfolding CSMoveToXY_def fst_conv snd_conv by blast
  note ru = rest_of_fields [OF u(3)]
  have "?h p ?q u = do { v \<leftarrow> on_scr (\<lambda>s. MoveCursor (?q - 1) (CursorY (scr v)) s) u; Some (CharSetFallbackFinish w, v) }"
    using True by (simp add: on_scr_def ru)
  moreover have "1 \<le> ?q \<and> ?q \<le> NumOfColumns (scr v)"
    using c by (intro CheckParamVal_range) linarith
  ultimately show ?thesis
    using u on_scr_move [OF u(2), of "?q - 1" "CursorY (scr v)"] c by (auto simp: ru moved_def)
qed

text \<open>CUU, CUD, CUF, CUB, CNL, CPL, CHA, CUP, HPA, HPR, VPA, VPR, HVP, HPB, VPB and DECSTBM.\<close>

definition move_finals :: "u8 list" where
  "move_finals = [0x41, 0x42, 0x43, 0x44, 0x45, 0x46, 0x47, 0x48, 0x60, 0x61, 0x64, 0x65, 0x66, 0x6A, 0x6B, 0x72]"

lemma on_vt_moves: "moves f \<Longrightarrow> vt_ok v \<Longrightarrow> \<exists>w' v'. on_vt f (w, v) = Some (w', v') \<and> moved v v'"
  by (auto simp: moves_def on_vt_def)

lemma moves_column: "moves CSMoveToColumnN"
  by (rule movesI) (use CSMoveToColumnN_ok in blast)

lemma cs_final_cursor:
  "cs_final X Y U 0x41 st = on_vt (CSCursorUp True) st" "cs_final X Y U 0x42 st = on_vt (CSCursorDown True) st"
  "cs_final X Y U 0x43 st = on_vt (CSCursorRight True) st" "cs_final X Y U 0x44 st = on_vt (CSCursorLeft True) st"
  "cs_final X Y U 0x45 st = on_vt CSCursorDown1 st" "cs_final X Y U 0x46 st = on_vt CSCursorUp1 st"
  "cs_final X Y U 0x47 st = on_vt CSMoveToColumnN st" "cs_final X Y U 0x48 st = CSMoveToXY st"
  "cs_final X Y U 0x60 st = on_vt CSMoveToColumnN st" "cs_final X Y U 0x61 st = on_vt (CSCursorRight False) st"
  "cs_final X Y U 0x64 st = CSMoveToLineN st" "cs_final X Y U 0x65 st = on_vt (CSCursorDown False) st"
  "cs_final X Y U 0x66 st = CSMoveToXY st" "cs_final X Y U 0x6A st = on_vt (CSCursorLeft False) st"
  "cs_final X Y U 0x6B st = on_vt (CSCursorUp False) st" "cs_final X Y U 0x72 st = on_vt CSSetScrollRegion st"
  by (simp_all add: cs_final_def)

lemma cs_final_moves:
  assumes "vt_ok v" "b \<in> set move_finals"
  shows "\<exists>w' v'. cs_final X Y U b (w, v) = Some (w', v') \<and> moved v v'"
proof -
  have line: "\<exists>w' v'. CSMoveToLineN (w, v) = Some (w', v') \<and> moved v v'"
    using CSMoveToLineN_ok [OF assms(1)] by blast
  show ?thesis
    using assms(2) unfolding move_finals_def list.set insert_iff empty_iff simp_thms
    apply -
    apply (elim disjE; simp only: cs_final_cursor)
    apply (rule on_vt_moves [OF _ assms(1)] CSMoveToXY_moves [OF assms(1)] line;
        (rule moves_relatives moves_lines moves_column CSSetScrollRegion_ok)?)+
    done
qed

text \<open>After the handler the parser is back in its first mode.\<close>

lemma ParseCS_moves:
  assumes "\<exists>w' v'. cs_final X Y U b (w, v) = Some (w', v') \<and> moved v v'" "\<not> PrinterMode v" "ICount v = 0" "Prv v = 0"
  shows "\<exists>w' v'. ParseCS X Y U b (w, v) = Some (w', v') \<and> moved v v' \<and> ParseMode v' = ModeFirst"
proof -
  obtain w' v' where f: "cs_final X Y U b (w, v) = Some (w', v')" "moved v v'" using assms(1) by blast
  have "moved v (set_mode ModeFirst v')" using f(2)
    by (simp add: moved_def vt_ok_def set_mode_def params_ok_def param_shape_def)
  then show ?thesis using f(1) assms(2-4) by (simp add: ParseCS_def set_mode_def)
qed

text \<open>What moving the cursor leaves alone.\<close>

definition same_size :: "screen \<Rightarrow> screen \<Rightarrow> bool" where
  "same_size s t \<longleftrightarrow> CodeBuffW t = CodeBuffW s \<and> NumOfColumns t = NumOfColumns s \<and> NumOfLines t = NumOfLines s \<and>
     StatusLine t = StatusLine s \<and> ts t = ts s"

lemma same_size_trans: "same_size s t \<Longrightarrow> same_size t u \<Longrightarrow> same_size s u"
  by (simp add: same_size_def)

lemma same_size_view: "same_but_view s t \<Longrightarrow> same_size s t"
  by (auto simp: same_but_view_def same_size_def)

lemma same_size_moved: "same_size s (s\<lparr>LinePtr := p, CursorX := x, CursorY := y, Wrap := w\<rparr>)"
  "same_size s (s\<lparr>CursorX := x, CursorY := y, Wrap := w\<rparr>)" "same_size s (s\<lparr>Wrap := w\<rparr>)"
  by (simp_all add: same_size_def)

lemma MoveCursor_size:
  assumes "MoveCursor x y s = Some t"
  shows "same_size s t"
proof -
  let ?u = "UpdateStr s"
  have e: "(if CursorY ?u \<noteq> y then NewLine (PageStart ?u + y) ?u else Some ?u) = Some u1 \<Longrightarrow> same_size ?u u1" for u1
    by (auto simp: NewLine_def same_size_def bind_eq_Some_conv split: if_splits)
  obtain u1 where u1: "(if CursorY ?u \<noteq> y then NewLine (PageStart ?u + y) ?u else Some ?u) = Some u1"
      "t = (let s = u1\<lparr>CursorX := x, CursorY := y, Wrap := False\<rparr>
        in if \<not> AutoScrollOnlyInBottomLine (ts s) \<or> WinOrgY (vw s) = 0 then DispScrollToCursor (CursorX s) (CursorY s) s else s)"
    using assms unfolding MoveCursor_def Let_def bind_eq_Some_conv option.inject by blast
  have a: "same_size s (u1\<lparr>CursorX := x, CursorY := y, Wrap := False\<rparr>)"
    by (rule same_size_trans [OF same_size_trans [OF same_size_view [OF same_but_view_Disp(3)] e [OF u1(1)]] same_size_moved(2)])
  have sel: "same_size s b \<Longrightarrow> same_size s c \<Longrightarrow> same_size s (if q then b else c)" for b c q by simp
  show ?thesis unfolding u1(2) Let_def
    by (rule sel [OF same_size_trans [OF a same_size_view [OF same_but_view_Disp(2)]] a])
qed

lemma CursorForwardTab_size:
  assumes "CursorForwardTab n aw s = Some t"
  shows "same_size s t"
proof -
  obtain x u w where "MoveCursor x (CursorY s) s = Some u" "t = u \<or> t = u\<lparr>Wrap := w\<rparr>"
    using assms by (auto simp: CursorForwardTab_def Let_def bind_eq_Some_conv split: if_splits)
  then show ?thesis using MoveCursor_size same_size_moved(3) same_size_trans by blast
qed

lemma CursorBackwardTab_size:
  assumes "CursorBackwardTab n s = Some t"
  shows "same_size s t"
proof -
  obtain x where "MoveCursor x (CursorY s) s = Some t"
    using assms by (auto simp: CursorBackwardTab_def Let_def bind_eq_Some_conv split: if_splits)
  then show ?thesis by (rule MoveCursor_size)
qed

text \<open>CHT and CBT go to a stop, or to the end or the start of the line.\<close>

lemma with_param_screen:
  assumes "vt_ok v" "1 \<le> m v"
    and g: "\<And>p ps. g p (v\<lparr>Param := ps\<rparr>) = on_scr (f p) (v\<lparr>Param := ps\<rparr>)"
    and f: "\<And>p. 1 \<le> p \<Longrightarrow> \<exists>t. f p (scr v) = Some t \<and> screen_ok t \<and> same_size (scr v) t"
  shows "\<exists>v'. with_param m g v = Some v' \<and> moved v v'"
proof -
  let ?p = "CheckParamVal (Param v ! 1) (m v)"
  let ?v = "v\<lparr>Param := (Param v)[1 := ?p]\<rparr>"
  have ok: "params_ok v" "vt_ok ?v" "params_ok ?v" "1 < length (Param v)"
    using assms(1) vt_ok_param [OF assms(1)] by (auto simp: vt_ok_def params_ok_def param_shape_def)
  have "with_param m g v = on_scr (f ?p) ?v"
    using check_param_eq [OF ok(1), of 1] read_param_in [OF ok(3), of 1] ok(4) g by (simp add: with_param_def)
  moreover obtain t where "f ?p (scr v) = Some t" "screen_ok t" "same_size (scr v) t"
    using f [of ?p] CheckParamVal_range [OF assms(2)] by blast
  ultimately show ?thesis using ok(2)
    by (intro exI [of _ "?v\<lparr>scr := t\<rparr>"]) (simp add: on_scr_def moved_def same_size_def vt_ok_def)
qed

lemma tabs_move:
  assumes "vt_ok v" "tabs_ok (scr v)"
  shows "\<exists>v'. CSForwardTab v = Some v' \<and> moved v v'" "\<exists>v'. CSBackwardTab v = Some v' \<and> moved v v'"
proof -
  have ok: "screen_ok (scr v)" "1 \<le> NumOfColumns (scr v)"
    using assms(1) vt_ok_cursor [OF assms(1)] by (auto simp: vt_ok_def)
  show "\<exists>v'. CSForwardTab v = Some v' \<and> moved v v'" unfolding CSForwardTab_def
  proof (rule with_param_screen [where f = "\<lambda>p. CursorForwardTab p (AutoWrapMode v)", OF assms(1)])
    fix p :: int assume "1 \<le> p"
    then show "\<exists>t. CursorForwardTab p (AutoWrapMode v) (scr v) = Some t \<and> screen_ok t \<and> same_size (scr v) t"
      using CursorForwardTab_stop [OF ok(1) assms(2), of p "AutoWrapMode v"] CursorForwardTab_size by blast
  qed (simp_all add: ok(2))
  show "\<exists>v'. CSBackwardTab v = Some v' \<and> moved v v'" unfolding CSBackwardTab_def
  proof (rule with_param_screen [where f = CursorBackwardTab, OF assms(1)])
    fix p :: int assume "1 \<le> p"
    then show "\<exists>t. CursorBackwardTab p (scr v) = Some t \<and> screen_ok t \<and> same_size (scr v) t"
      using CursorBackwardTab_stop [OF ok(1) assms(2), of p] CursorBackwardTab_size by blast
  qed (simp_all add: ok(2))
qed

subsection \<open>From the bytes to the screen\<close>

text \<open>A terminal in its usual state, between two characters of UTF-8 text.\<close>

definition idle :: "CharSetData \<Rightarrow> vt \<Rightarrow> bool" where
  "idle w v \<longleftrightarrow> ParseMode v = ModeFirst \<and> \<not> IsDumb (vset v) \<and> \<not> PrinterMode v \<and> KanjiCode (tts v) = IdUTF8 \<and>
     utf8_ready (replacement_char w) w \<and> count w = 0"

lemma step_esc:
  assumes "idle w v"
  shows "vt_step X Y Z U E 0x1B (w, v) =
    Some (w, v\<lparr>ICount := 0, JustAfterESC := True, ParseMode := ModeESC, PrevCharacter := 0x1B\<rparr>)"
proof -
  have "ParseFirst E (tts v) (vt_op X U) 0x1B (w, v) = ParseControl_vt X U 0x1B (w, v)"
    using assms by (simp add: idle_def ParseFirst_def ParseFirstUTF8_def utf8_ready_def utf8_first_def IsC0_def vt_op_def)
  also have "\<dots> = Some (w, v\<lparr>ICount := 0, JustAfterESC := True, ParseMode := ModeESC\<rparr>)"
    using assms by (simp add: idle_def ParseControl_vt_def ParseControlVT_def c1_use_def control_code_def on_vt_def enter_esc_def)
  finally show ?thesis
    using assms by (simp add: idle_def vt_step_def time_stamp_def parse_byte_def)
qed

lemma step_bracket:
  assumes "ParseMode v = ModeESC" "ICount v = 0" "\<not> PrinterMode v" "\<not> IsDumb (vset v)" "enter_csi v = Some v'" "ParseMode v' = ModeCSI"
  shows "vt_step X Y Z U E 0x5B (w, v) = Some (w, v'\<lparr>JustAfterESC := False, PrevCharacter := 0x5B\<rparr>)"
  using assms
  by (simp add: vt_step_def time_stamp_def parse_byte_def EscapeSequence_def ParseEscape_def esc_final_def on_vt_def)

lemma step_param:
  assumes "ParseMode v = ModeCSI" "\<not> IsDumb (vset v)" "0x20 \<le> b" "b \<le> 0x3F" "param_byte b v = Some v'" "ParseMode v' = ModeCSI"
  shows "vt_step X Y Z U E b (w, v) = Some (w, v'\<lparr>PrevCharacter := b\<rparr>)"
  using assms by (simp add: vt_step_def time_stamp_def parse_byte_def ControlSequence_param on_vt_def)

lemma steps_params:
  assumes "params_ok v" "ParseMode v = ModeCSI" "\<not> IsDumb (vset v)" "\<forall>b\<in>set bs. 0x30 \<le> b \<and> b \<le> 0x3B"
  shows "\<exists>v'. run_bytes (vt_step X Y Z U E) bs (w, v) = Some (w, v') \<and> params_ok v' \<and>
    csi_params v' = fold csi_step bs (csi_params v) \<and> rest_of v' = rest_of v \<and> ICount v' = ICount v \<and> Prv v' = Prv v"
  using assms
proof (induction bs arbitrary: v)
  case Nil
  then show ?case by simp
next
  case (Cons b bs)
  have b: "0x20 \<le> b" "b \<le> 0x3F" "\<not> b \<le> 0x2F" "\<not> 0x3C \<le> b" using param_text_range [of b] Cons.prems(4) by auto
  obtain v1 where v1: "param_byte b v = Some v1" "params_ok v1" "csi_params v1 = csi_step b (csi_params v)" "Prv v1 = Prv v"
    using param_byte_refines [OF Cons.prems(1) b(1,2)] b(4) by auto
  have r: "rest_of v1 = rest_of v" "ICount v1 = ICount v"
    using kept_param_byte(1) [of v b] kept_param_byte(2) [OF b(3), of v] v1(1) by (simp_all add: kept_def)
  let ?v = "v1\<lparr>PrevCharacter := b\<rparr>"
  have ok: "params_ok ?v" "csi_params ?v = csi_params v1" using v1(2)
    by (simp_all add: params_ok_def param_shape_def csi_params_def param_at_def)
  note f = rest_of_fields [OF r(1)]
  obtain v' where "run_bytes (vt_step X Y Z U E) bs (w, ?v) = Some (w, v')" "params_ok v'"
      "csi_params v' = fold csi_step bs (csi_params ?v)" "rest_of v' = rest_of ?v" "ICount v' = ICount ?v" "Prv v' = Prv ?v"
    using Cons.IH [OF ok(1)] Cons.prems(2-4) f by auto
  moreover have "vt_step X Y Z U E b (w, v) = Some (w, ?v)"
    using step_param [OF Cons.prems(2,3) b(1,2) v1(1)] f Cons.prems(2) by simp
  ultimately show ?case using v1 r ok by simp
qed

lemma csi_params_two:
  assumes "params_ok v" "csi_params v = [(p, []), (q, [])]"
  shows "NParam v = 2" "Param v ! 1 = p" "second v = q"
proof -
  have "length (csi_params v) = 2" using assms(2) by simp
  then show n: "NParam v = 2" using length_csi_params [OF assms(1)] by simp
  then have "csi_params v = [param_at v 1, param_at v 2]" by (simp add: csi_params_def upto_rec1)
  then show "Param v ! 1 = p" "second v = q" using assms(2) n by (simp_all add: param_at_def second_def numeral_2_eq_2)
qed

lemma steps_enter:
  assumes "idle w v" "param_shape v"
  shows "\<exists>v'. run_bytes (vt_step X Y Z U E) [0x1B, 0x5B] (w, v) = Some (w, v') \<and> params_ok v' \<and> csi_params v' = [(0, [])] \<and>
    ICount v' = 0 \<and> Prv v' = 0 \<and> rest_of v' = rest_of (set_mode ModeCSI v)"
proof -
  let ?v1 = "v\<lparr>ICount := 0, JustAfterESC := True, ParseMode := ModeESC, PrevCharacter := 0x1B\<rparr>"
  let ?v2 = "?v1\<lparr>ICount := 0, NParam := 1, NSParam := (NSParam v)[1 := 0], Param := (Param v)[1 := 0], Prv := 0,
    FirstPrm := True, ParseMode := ModeCSI\<rparr>"
  have l: "length (Param v) = 17" "length (NSParam v) = 17" using assms(2) by (simp_all add: param_shape_def)
  have e: "enter_csi ?v1 = Some ?v2" using l by (simp add: enter_csi_def ClearParams_def wr_def in_arr_def)
  let ?v3 = "?v2\<lparr>JustAfterESC := False, PrevCharacter := 0x5B\<rparr>"
  have "vt_step X Y Z U E 0x5B (w, ?v1) = Some (w, ?v3)"
    by (rule step_bracket [OF _ _ _ _ e]) (use assms(1) in \<open>simp_all add: idle_def\<close>)
  then have "run_bytes (vt_step X Y Z U E) [0x1B, 0x5B] (w, v) = Some (w, ?v3)"
    using step_esc [OF assms(1)] by simp
  moreover have "params_ok ?v3" using assms(2)
    by (auto simp: params_ok_def param_shape_def NParamMax_def intro!: list_all_update)
  moreover have "csi_params ?v3 = [(0, [])]" using l by (simp add: csi_params_def param_at_def)
  moreover have "rest_of ?v3 = rest_of (set_mode ModeCSI v)" by (simp add: rest_of_def set_mode_def)
  ultimately show ?thesis by (intro exI [of _ ?v3]) simp
qed

lemma step_final:
  assumes "ParseMode v = ModeCSI" "\<not> IsDumb (vset v)" "\<not> PrinterMode v" "ICount v = 0" "Prv v = 0"
    "cs_final X Y U b (w, v) = Some (w', v')" "0x40 \<le> b" "b \<le> 0x7E"
  shows "vt_step X Y Z U E b (w, v) = Some (w', v'\<lparr>ParseMode := ModeFirst, FirstPrm := False, PrevCharacter := b\<rparr>)"
proof -
  have "\<not> b \<le> 0x1f \<and> \<not> 0x80 \<le> b" using assms(7,8) by (simp add: word_le_nat_alt)
  then show ?thesis using assms
    by (simp add: vt_step_def time_stamp_def parse_byte_def ControlSequence_def ParseCS_def set_mode_def)
qed

text \<open>CSI and the parameters the host has written.\<close>

lemma csi_prefix:
  assumes "idle w v" "param_shape v" "qs \<noteq> []" "length qs \<le> 16" "\<forall>q\<in>set qs. length (snd q) \<le> 16"
  shows "\<exists>v'. run_bytes (vt_step X Y Z U E) ([0x1B, 0x5B] @ print_params qs) (w, v) = Some (w, v') \<and> params_ok v' \<and>
    csi_params v' = map read_param qs \<and> rest_of v' = rest_of (set_mode ModeCSI v) \<and> ICount v' = 0 \<and> Prv v' = 0"
proof -
  obtain v1 where v1: "run_bytes (vt_step X Y Z U E) [0x1B, 0x5B] (w, v) = Some (w, v1)" "params_ok v1"
      "csi_params v1 = [(0, [])]" "ICount v1 = 0" "Prv v1 = 0" "rest_of v1 = rest_of (set_mode ModeCSI v)"
    using steps_enter [OF assms(1,2)] by blast
  note f1 = rest_of_fields [OF v1(6)]
  have mode: "ParseMode v1 = ModeCSI" "\<not> IsDumb (vset v1)" using f1 assms(1) by (simp_all add: set_mode_def idle_def)
  have rng: "\<forall>b\<in>set (print_params qs). 0x30 \<le> b \<and> b \<le> 0x3B" using print_params_range by blast
  obtain v2 where v2: "run_bytes (vt_step X Y Z U E) (print_params qs) (w, v1) = Some (w, v2)" "params_ok v2"
      "csi_params v2 = fold csi_step (print_params qs) ([] @ [(0, [])])" "rest_of v2 = rest_of v1" "ICount v2 = 0" "Prv v2 = 0"
    using steps_params [OF v1(2) mode rng, where w = w and X = X and Y = Y and Z = Z and U = U and E = E]
    unfolding v1(3-5) append_Nil by blast
  have "csi_params v2 = map read_param qs"
    using v2(3) read_print_params [OF assms(3), of "[]"] assms(4,5) by simp
  then show ?thesis using v1 v2 by (auto simp only: run_bytes_append bind.simps)
qed

text \<open>
  C30. The cursor position sequence ESC [ row ; column H, byte by byte through the decoder, the
  escape sequences and the collection of parameters: the cursor is at the place the host has
  named, cut to the screen or, in origin mode, to the margins. No cell changes and the terminal
  is ready for the next character.
\<close>

theorem cursor_position_sequence:
  assumes "idle w v" "param_shape v" "screen_ok (scr v)" "StatusLine (scr v) < NumOfLines (scr v)"
    "\<not> isCursorOnStatusLine (scr v)" "r < 2 ^ 31" "c < 2 ^ 31"
  shows "\<exists>v'. run_bytes (vt_step X Y Z U E) ([0x1B, 0x5B] @ print_params [(r, []), (c, [])] @ [0x48]) (w, v) = Some (w, v') \<and>
    CursorX (scr v') = column_to (RelativeOrgMode v) (min (max 1 (int c)) (NumOfColumns (scr v)) - 1) (scr v) \<and>
    CursorY (scr v') = line_to (RelativeOrgMode v) (min (max 1 (int r)) (NumOfLines (scr v) - StatusLine (scr v)) - 1) (scr v) \<and>
    CodeBuffW (scr v') = CodeBuffW (scr v) \<and> screen_ok (scr v') \<and> idle w v'"
proof -
  define bs where "bs = print_params [(r, []), (c, [])]"
  obtain v2 where v2: "run_bytes (vt_step X Y Z U E) ([0x1B, 0x5B] @ bs) (w, v) = Some (w, v2)" "params_ok v2"
      "csi_params v2 = map read_param [(r, []), (c, [])]" "rest_of v2 = rest_of (set_mode ModeCSI v)" "ICount v2 = 0" "Prv v2 = 0"
    using csi_prefix [OF assms(1,2), of "[(r, []), (c, [])]"] unfolding bs_def by fastforce
  note f2 = rest_of_fields [OF v2(4)]
  have "csi_params v2 = [(int r, []), (int c, [])]"
    using v2(3) assms(6,7) by (simp add: read_param_def int32_def)
  note par = csi_params_two [OF v2(2) this]
  have ok: "vt_ok v2" using f2 v2(2) assms(3,4) by (simp add: vt_ok_def set_mode_def)
  obtain v3 where v3: "CSMoveToXY (w, v2) = Some (CharSetFallbackFinish w, v3)" "moved v2 v3"
      "CursorX (scr v3) = column_to (RelativeOrgMode v2) (CheckParamVal (int c) (NumOfColumns (scr v2)) - 1) (scr v2)"
      "CursorY (scr v3) = line_to (RelativeOrgMode v2)
        (CheckParamVal (int r) (NumOfLines (scr v2) - StatusLine (scr v2)) - 1) (scr v2)"
    using CSMoveToXY_ok [OF ok, of w] assms(5) f2 par by (auto simp: set_mode_def)
  have w: "CharSetFallbackFinish w = w" using assms(1) by (simp add: idle_def utf8_ready_def CharSetFallbackFinish_def)
  have clip: "CheckParamVal (int n) m = min (max 1 (int n)) m" if "1 \<le> m" for n m using that by (auto simp: CheckParamVal_def)
  have range: "1 \<le> NumOfColumns (scr v)" "1 \<le> NumOfLines (scr v) - StatusLine (scr v)"
    using vt_ok_cursor [OF ok] f2 by (auto simp: set_mode_def)
  let ?v = "v3\<lparr>ParseMode := ModeFirst, FirstPrm := False, PrevCharacter := 0x48\<rparr>"
  have "vt_step X Y Z U E 0x48 (w, v2) = Some (w, ?v)"
    by (rule step_final)
      (use assms(1) f2 v2(5,6) v3(1) w in \<open>simp_all add: set_mode_def idle_def cs_final_cursor word_le_nat_alt\<close>)
  then have "run_bytes (vt_step X Y Z U E) ([0x1B, 0x5B] @ bs @ [0x48]) (w, v) = Some (w, ?v)"
    unfolding append_assoc [symmetric] run_bytes_append [of _ _ "[0x48]"] v2(1) by simp
  moreover have "CodeBuffW (scr ?v) = CodeBuffW (scr v) \<and> screen_ok (scr ?v) \<and> idle w ?v"
    using v3(2) f2 assms(1) by (auto simp: moved_def vt_ok_def set_mode_def idle_def)
  moreover have "CursorX (scr ?v) = column_to (RelativeOrgMode v) (min (max 1 (int c)) (NumOfColumns (scr v)) - 1) (scr v)"
    "CursorY (scr ?v) = line_to (RelativeOrgMode v) (min (max 1 (int r)) (NumOfLines (scr v) - StatusLine (scr v)) - 1) (scr v)"
    using v3(3,4) f2 clip [OF range(1), of c] clip [OF range(2), of r] by (simp_all add: set_mode_def)
  ultimately show ?thesis unfolding bs_def by blast
qed

lemma sample_idle: "idle (fst sample_tracer) sample_vt"
  using sample_tracer_ready by (simp add: idle_def sample_vt_def sample_vset_def utf8_ready_def)

text \<open>Row 2 and column 99 on a screen of three lines and four columns.\<close>

theorem cursor_position_sequence_witness:
  "\<forall>X Y Z U E. \<exists>v'. run_bytes (vt_step X Y Z U E) ([0x1B, 0x5B] @ print_params [(2, []), (99, [])] @ [0x48])
      (fst sample_tracer, sample_vt) = Some (fst sample_tracer, v') \<and> CursorX (scr v') = 3 \<and> CursorY (scr v') = 1"
proof (intro allI)
  fix X Y Z U E
  have "screen_ok (scr sample_vt)" "StatusLine (scr sample_vt) < NumOfLines (scr sample_vt)"
      "\<not> isCursorOnStatusLine (scr sample_vt)"
    by (simp_all add: sample_vt_def isCursorOnStatusLine_def)
  then have "\<exists>v'. run_bytes (vt_step X Y Z U E) ([0x1B, 0x5B] @ print_params [(2, []), (99, [])] @ [0x48])
      (fst sample_tracer, sample_vt) = Some (fst sample_tracer, v') \<and>
    CursorX (scr v') = column_to (RelativeOrgMode sample_vt) (min (max 1 (int 99)) (NumOfColumns (scr sample_vt)) - 1) (scr sample_vt) \<and>
    CursorY (scr v') = line_to (RelativeOrgMode sample_vt)
      (min (max 1 (int 2)) (NumOfLines (scr sample_vt) - StatusLine (scr sample_vt)) - 1) (scr sample_vt)"
    using cursor_position_sequence [OF sample_idle sample_vt_shape, of 2 99] by fastforce
  then show "\<exists>v'. run_bytes (vt_step X Y Z U E) ([0x1B, 0x5B] @ print_params [(2, []), (99, [])] @ [0x48])
      (fst sample_tracer, sample_vt) = Some (fst sample_tracer, v') \<and> CursorX (scr v') = 3 \<and> CursorY (scr v') = 1"
    by (simp add: column_to_def line_to_def sample_vt_def del: print_params.simps)
qed

end
