(* ===== verification/VtSgrFacts.thy ===== *)
theory VtSgrFacts
  imports VtCursor
begin

section \<open>Graphic rendition as a function of the list of parameters\<close>

text \<open>
  \<open>ParseSGRParams\<close> walks through the arrays with an index that the colours of 38 and 48 move
  forward. It is compared with a function on the list of parameters, and the six ways of
  writing a colour that the source documents with each other.
\<close>

subsection \<open>The reference\<close>

definition nth0 :: "int list \<Rightarrow> nat \<Rightarrow> int" where
  "nth0 xs k = (if k < length xs then xs ! k else 0)"

text \<open>The colour of 38 or 48 with subparameters \<open>ss\<close>, and what is left of the parameters.\<close>

fun color_ref :: "(int \<Rightarrow> int \<Rightarrow> int \<Rightarrow> int) \<Rightarrow> int list \<Rightarrow> csi_param list \<Rightarrow> int \<times> csi_param list" where
  "color_ref closest (k # ss) ps =
     (if k = 2 \<and> ss \<noteq> [] then closest (hd ss) (nth0 ss 1) (nth0 ss 2)
      else if k = 5 \<and> ss \<noteq> [] then hd ss else -1, ps)"
| "color_ref closest [] [] = (-1, [])"
| "color_ref closest [] ((k, ss) # ps) =
     (if k = 2
      then if ss \<noteq> [] then (closest (hd ss) (nth0 ss 1) (nth0 ss 2), ps)
        else case ps of
            [] \<Rightarrow> (-1, [])
          | (r, us) # qs \<Rightarrow>
              if us \<noteq> [] then (closest r (hd us) (nth0 us 1), qs)
              else if length qs \<ge> 2 then (closest r (fst (qs ! 0)) (fst (qs ! 1)), drop 2 qs)
              else (-1, ps)
      else if k = 5
      then if ss \<noteq> [] then (hd ss, ps)
        else case ps of [] \<Rightarrow> (-1, []) | (c, us) # qs \<Rightarrow> (c, qs)
      else (-1, (k, ss) # ps))"

lemma color_ref_shorter: "length (snd (color_ref closest ss ps)) \<le> length ps"
  by (induction closest ss ps rule: color_ref.induct) (auto split: list.splits)

text \<open>
  What a rendition looks like, bit by bit, so that two records with the same look are equal. An
  ink and a paper are a colour, and whether it is used; \<open>Guarded\<close> is the protection against
  selective erasure.
\<close>

datatype rendition = Bold | Underline | Blink | Negative

record look =
  Shown :: "rendition set"
  Ink :: "bool \<times> int"
  Paper :: "bool \<times> int"
  Guarded :: bool
  Rest :: "u8 \<times> u8 \<times> u16"

definition look_of :: "TCharAttr \<Rightarrow> look" where
  "look_of A =
     \<lparr>Shown = {r. bit (Attr A) (case r of Bold \<Rightarrow> 0 | Underline \<Rightarrow> 1 | Blink \<Rightarrow> 3 | Negative \<Rightarrow> 4)},
      Ink = (bit (Attr2 A) 0, uint (Fore A)), Paper = (bit (Attr2 A) 1, uint (Back A)),
      Guarded = bit (Attr2 A) 2, Rest = (Attr A AND 0xe4, Attr2 A AND 0xf8, AttrEx A)\<rparr>"

text \<open>The control sequences of ECMA-48 and of the 16 colours of aixterm, as a table.\<close>

datatype sgr_act = Normal | Show rendition | Hide rendition | Use_ink int | Use_paper int
  | No_ink | No_paper | No_colours

definition sgr_codes :: "bool \<Rightarrow> (int \<times> sgr_act) list" where
  "sgr_codes aix =
     [(0, Normal), (1, Show Bold), (4, Show Underline), (5, Show Blink), (7, Show Negative),
      (22, Hide Bold), (24, Hide Underline), (25, Hide Blink), (27, Hide Negative),
      (39, No_ink), (49, No_paper)]
     @ map (\<lambda>k. (30 + k, Use_ink k)) [0..7] @ map (\<lambda>k. (40 + k, Use_paper k)) [0..7]
     @ (if aix then map (\<lambda>k. (90 + k, Use_ink (8 + k))) [0..7] @ map (\<lambda>k. (100 + k, Use_paper (8 + k))) [0..7]
        else [(100, No_colours)])"

fun act :: "sgr_act \<Rightarrow> look \<Rightarrow> look" where
  "act Normal l = l\<lparr>Shown := {}, Ink := (False, 0), Paper := (False, 0), Rest := (0, 0, 0)\<rparr>"
| "act (Show r) l = l\<lparr>Shown := insert r (Shown l)\<rparr>"
| "act (Hide r) l = l\<lparr>Shown := Shown l - {r}\<rparr>"
| "act (Use_ink c) l = l\<lparr>Ink := (True, c)\<rparr>"
| "act (Use_paper c) l = l\<lparr>Paper := (True, c)\<rparr>"
| "act No_ink l = l\<lparr>Ink := (False, 0)\<rparr>"
| "act No_paper l = l\<lparr>Paper := (False, 0)\<rparr>"
| "act No_colours l = l\<lparr>Ink := (False, 0), Paper := (False, 0)\<rparr>"

definition sgr_one :: "bool \<Rightarrow> int \<Rightarrow> look \<Rightarrow> look" where
  "sgr_one aix P l = (case map_of (sgr_codes aix) P of None \<Rightarrow> l | Some a \<Rightarrow> act a l)"

text \<open>The colour of 38 and 48: a palette index outside the palette changes nothing.\<close>

definition pick_color :: "int \<Rightarrow> int \<Rightarrow> look \<Rightarrow> look" where
  "pick_color P c l =
     (if c < 0 \<or> 255 < c then l else if P = 38 then l\<lparr>Ink := (True, c)\<rparr> else l\<lparr>Paper := (True, c)\<rparr>)"

text \<open>The parameters from left to right.\<close>

function sgr_ref ::
  "(int \<Rightarrow> int \<Rightarrow> int \<Rightarrow> int) \<Rightarrow> bool \<Rightarrow> bool \<Rightarrow> csi_param list \<Rightarrow> look \<Rightarrow> look" where
  "sgr_ref closest aix x256 [] l = l"
| "sgr_ref closest aix x256 ((P, ss) # ps) l =
     (if P = 38 \<or> P = 48
      then if x256
        then sgr_ref closest aix x256 (snd (color_ref closest ss ps)) (pick_color P (fst (color_ref closest ss ps)) l)
        else sgr_ref closest aix x256 ps l
      else sgr_ref closest aix x256 ps (sgr_one aix P l))"
  by pat_completeness auto
termination
  by (relation "measure (\<lambda>(c, a, x, ps, l). length ps)") (auto simp: color_ref_shorter less_Suc_eq_le)

subsection \<open>The program's steps over a list\<close>

text \<open>Between the loop and the reference: the program's own changes, over the list of parameters.\<close>

definition put_color :: "int \<Rightarrow> int \<Rightarrow> TCharAttr \<times> TCharAttr \<Rightarrow> TCharAttr \<times> TCharAttr" where
  "put_color P c am = (if 0 \<le> c \<and> c < 256 then if P = 38 then set_fore c am else set_back c am else am)"

function sgr_run ::
  "(int \<Rightarrow> int \<Rightarrow> int \<Rightarrow> int) \<Rightarrow> u32 \<Rightarrow> csi_param list \<Rightarrow> TCharAttr \<times> TCharAttr \<Rightarrow> TCharAttr \<times> TCharAttr" where
  "sgr_run closest flags [] am = am"
| "sgr_run closest flags ((P, ss) # ps) am =
     (if P = 38 \<or> P = 48
      then if flags AND CF_XTERM256 \<noteq> 0
        then sgr_run closest flags (snd (color_ref closest ss ps)) (put_color P (fst (color_ref closest ss ps)) am)
        else sgr_run closest flags ps am
      else sgr_run closest flags ps (sgr_plain flags P am))"
  by pat_completeness auto
termination
  by (relation "measure (\<lambda>(c, f, ps, am). length ps)") (auto simp: color_ref_shorter less_Suc_eq_le)

text \<open>Each change of the program on the look.\<close>

lemma split_word:
  fixes x y m :: u8
  assumes "x AND m = y AND m" "\<And>n. n < 8 \<Longrightarrow> \<not> bit m n \<Longrightarrow> bit x n = bit y n"
  shows "x = y"
proof (rule bit_word_eqI)
  fix n assume n: "n < LENGTH(8)"
  have "bit (x AND m) n = bit (y AND m) n" using assms(1) by simp
  then show "bit x n = bit y n" using assms(2) [of n] n by (auto simp: bit_and_iff)
qed

lemma look_inj:
  assumes "look_of A = look_of B"
  shows "A = B"
proof -
  have shown: "bit (Attr A) (case r of Bold \<Rightarrow> 0 | Underline \<Rightarrow> 1 | Blink \<Rightarrow> 3 | Negative \<Rightarrow> 4) =
      bit (Attr B) (case r of Bold \<Rightarrow> 0 | Underline \<Rightarrow> 1 | Blink \<Rightarrow> 3 | Negative \<Rightarrow> 4)" for r
    using assms by (auto simp: look_of_def set_eq_iff)
  have sg: "bit (Attr A) 0 = bit (Attr B) 0" "bit (Attr A) 1 = bit (Attr B) 1" "bit (Attr A) 3 = bit (Attr B) 3"
    "bit (Attr A) 4 = bit (Attr B) 4"
    using shown [of Bold] shown [of Underline] shown [of Blink] shown [of Negative] by simp_all
  have r: "Attr A AND 0xe4 = Attr B AND 0xe4" "Attr2 A AND 0xf8 = Attr2 B AND 0xf8"
    "bit (Attr2 A) 0 = bit (Attr2 B) 0" "bit (Attr2 A) 1 = bit (Attr2 B) 1" "bit (Attr2 A) 2 = bit (Attr2 B) 2"
    "AttrEx A = AttrEx B" "Fore A = Fore B" "Back A = Back B"
    using assms by (simp_all add: look_of_def word_uint_eq_iff)
  have "Attr A = Attr B" by (rule split_word [OF r(1)]) (use sg in \<open>auto simp: less_Suc_eq numeral_nat\<close>)
  moreover have "Attr2 A = Attr2 B" by (rule split_word [OF r(2)]) (use r in \<open>auto simp: less_Suc_eq numeral_nat\<close>)
  ultimately show ?thesis using r by simp
qed

lemma map_of_range:
  "map_of (map (\<lambda>k. (a + k, f k)) [0..7]) (P :: int) = (if a \<le> P \<and> P \<le> a + 7 then Some (f (P - a)) else None)"
proof -
  have "map_of (map (\<lambda>k. (a + k, f k)) [i..7]) P = (if a + i \<le> P \<and> P \<le> a + 7 then Some (f (P - a)) else None)" for i
  proof (induction "nat (8 - i)" arbitrary: i)
    case 0
    then show ?case by simp
  next
    case (Suc n)
    then have "[i..7] = i # [i + 1..7]" by (simp add: upto_rec1)
    then show ?case using Suc.hyps(1) [of "i + 1"] Suc.hyps(2) by auto
  qed
  from this [of 0] show ?thesis by simp
qed

lemma bits8 [simp]:
  "bit AttrBold n \<longleftrightarrow> n = 0" "bit AttrUnder n \<longleftrightarrow> n = 1" "bit AttrBlink n \<longleftrightarrow> n = 3" "bit AttrReverse n \<longleftrightarrow> n = 4"
  "bit Attr2Fore n \<longleftrightarrow> n = 0" "bit Attr2Back n \<longleftrightarrow> n = 1" "bit Attr2Protect n \<longleftrightarrow> n = 2"
proof -
  have e: "AttrBold = 2 ^ 0" "AttrUnder = 2 ^ 1" "AttrBlink = 2 ^ 3" "AttrReverse = 2 ^ 4"
    "Attr2Fore = 2 ^ 0" "Attr2Back = 2 ^ 1" "Attr2Protect = 2 ^ 2"
    by (simp_all add: AttrBold_def AttrUnder_def AttrBlink_def AttrReverse_def Attr2Fore_def Attr2Back_def Attr2Protect_def)
  have b: "bit (2 ^ k :: u8) n \<longleftrightarrow> n = k" if "k < 8" for k
    using that by (auto simp: bit_exp_iff)
  show "bit AttrBold n \<longleftrightarrow> n = 0" "bit AttrUnder n \<longleftrightarrow> n = 1" "bit AttrBlink n \<longleftrightarrow> n = 3" "bit AttrReverse n \<longleftrightarrow> n = 4"
    "bit Attr2Fore n \<longleftrightarrow> n = 0" "bit Attr2Back n \<longleftrightarrow> n = 1" "bit Attr2Protect n \<longleftrightarrow> n = 2"
    unfolding e by (rule b, simp)+
qed

lemma and_disjoint:
  fixes x m k :: "'a :: len word"
  assumes "m AND k = 0"
  shows "(x OR m) AND k = x AND k" "(x AND NOT m) AND k = x AND k"
proof -
  have "\<not> (bit m n \<and> bit k n)" for n using arg_cong [OF assms, of "\<lambda>w. bit w n"] by (simp add: bit_and_iff)
  then show "(x OR m) AND k = x AND k" "(x AND NOT m) AND k = x AND k"
    by (auto intro!: bit_word_eqI simp: bit_and_iff bit_or_iff bit_not_iff)
qed

lemma rest_bits:
  "(x OR AttrBold) AND 0xe4 = x AND 0xe4" "(x OR AttrUnder) AND 0xe4 = x AND 0xe4"
  "(x OR AttrBlink) AND 0xe4 = x AND 0xe4" "(x OR AttrReverse) AND 0xe4 = x AND 0xe4"
  "(x AND NOT AttrBold) AND 0xe4 = x AND 0xe4" "(x AND NOT AttrUnder) AND 0xe4 = x AND 0xe4"
  "(x AND NOT AttrBlink) AND 0xe4 = x AND 0xe4" "(x AND NOT AttrReverse) AND 0xe4 = x AND 0xe4"
  "(x OR Attr2Fore) AND 0xf8 = x AND 0xf8" "(x OR Attr2Back) AND 0xf8 = x AND 0xf8"
  "(x AND NOT Attr2Fore) AND 0xf8 = x AND 0xf8" "(x AND NOT Attr2Back) AND 0xf8 = x AND 0xf8"
  "(x AND NOT (Attr2Fore OR Attr2Back)) AND 0xf8 = x AND 0xf8" "(x AND NOT Attr2Fore AND NOT Attr2Back) AND 0xf8 = x AND 0xf8" "(x AND Attr2Protect) AND 0xf8 = 0"
proof -
  note m = AttrBold_def AttrUnder_def AttrBlink_def AttrReverse_def Attr2Fore_def Attr2Back_def Attr2Protect_def
  show "(x OR AttrBold) AND 0xe4 = x AND 0xe4" "(x OR AttrUnder) AND 0xe4 = x AND 0xe4"
    "(x OR AttrBlink) AND 0xe4 = x AND 0xe4" "(x OR AttrReverse) AND 0xe4 = x AND 0xe4"
    "(x AND NOT AttrBold) AND 0xe4 = x AND 0xe4" "(x AND NOT AttrUnder) AND 0xe4 = x AND 0xe4"
    "(x AND NOT AttrBlink) AND 0xe4 = x AND 0xe4" "(x AND NOT AttrReverse) AND 0xe4 = x AND 0xe4"
    by (rule and_disjoint, simp add: m)+
  show "(x OR Attr2Fore) AND 0xf8 = x AND 0xf8" "(x OR Attr2Back) AND 0xf8 = x AND 0xf8"
    "(x AND NOT Attr2Fore) AND 0xf8 = x AND 0xf8" "(x AND NOT Attr2Back) AND 0xf8 = x AND 0xf8"
    and both: "(x AND NOT (Attr2Fore OR Attr2Back)) AND 0xf8 = x AND 0xf8"
    by (rule and_disjoint, simp add: m)+
  show "(x AND NOT Attr2Fore AND NOT Attr2Back) AND 0xf8 = x AND 0xf8"
    using both by (simp only: bit.de_Morgan_disj)
  show "(x AND Attr2Protect) AND 0xf8 = 0" by (simp add: m and.assoc)
qed

lemma look_bits:
  "look_of (fst (set_bits AttrBold am)) = act (Show Bold) (look_of (fst am))"
  "look_of (fst (set_bits AttrUnder am)) = act (Show Underline) (look_of (fst am))"
  "look_of (fst (set_bits AttrBlink am)) = act (Show Blink) (look_of (fst am))"
  "look_of (fst (set_bits AttrReverse am)) = act (Show Negative) (look_of (fst am))"
  "look_of (fst (unset_bits AttrBold am)) = act (Hide Bold) (look_of (fst am))"
  "look_of (fst (unset_bits AttrUnder am)) = act (Hide Underline) (look_of (fst am))"
  "look_of (fst (unset_bits AttrBlink am)) = act (Hide Blink) (look_of (fst am))"
  "look_of (fst (unset_bits AttrReverse am)) = act (Hide Negative) (look_of (fst am))"
  by (auto simp: look_of_def set_bits_def unset_bits_def rest_bits bit_or_iff bit_and_iff bit_not_iff
      split: rendition.splits)

lemma look_colours:
  "0 \<le> c \<Longrightarrow> c < 256 \<Longrightarrow> look_of (fst (set_fore c am)) = act (Use_ink c) (look_of (fst am))"
  "0 \<le> c \<Longrightarrow> c < 256 \<Longrightarrow> look_of (fst (set_back c am)) = act (Use_paper c) (look_of (fst am))"
  "look_of (A\<lparr>Attr2 := Attr2 A AND NOT Attr2Fore, Fore := AttrDefaultFG\<rparr>) = act No_ink (look_of A)"
  "look_of (A\<lparr>Attr2 := Attr2 A AND NOT Attr2Back, Back := AttrDefaultBG\<rparr>) = act No_paper (look_of A)"
  "look_of (A\<lparr>Attr2 := Attr2 A AND NOT (Attr2Fore OR Attr2Back), Fore := AttrDefaultFG, Back := AttrDefaultBG\<rparr>) =
     act No_colours (look_of A)"
  "look_of (fst (sgr_reset am)) = act Normal (look_of (fst am))"
  by (simp_all add: look_of_def set_fore_def set_back_def sgr_reset_def rest_bits bit_or_iff bit_and_iff bit_not_iff
      AttrDefaultFG_def AttrDefaultBG_def DefCharAttr_def AttrDefault_def take_bit_int_eq_self unsigned_of_int
      split: rendition.splits)

lemma sgr_plain_one:
  "look_of (fst (sgr_plain flags P am)) = sgr_one (flags AND CF_AIXTERM16 \<noteq> 0) P (look_of (fst am))"
proof -
  note t = sgr_one_def sgr_codes_def map_of_append map_add_def map_of_range
  consider "P = 0" | "P = 1" | "P = 4" | "P = 5" | "P = 7" | "P = 22" | "P = 24" | "P = 25" | "P = 27"
    | "30 \<le> P" "P \<le> 37" | "P = 39" | "40 \<le> P" "P \<le> 47" | "P = 49" | "90 \<le> P" "P \<le> 97" | "P = 100"
    | "101 \<le> P" "P \<le> 107"
    | "P \<notin> {0, 1, 4, 5, 7, 22, 24, 25, 27, 39, 49, 100}" "\<not> (30 \<le> P \<and> P \<le> 37)" "\<not> (40 \<le> P \<and> P \<le> 47)"
      "\<not> (90 \<le> P \<and> P \<le> 97)" "\<not> (101 \<le> P \<and> P \<le> 107)"
    by blast
  then show ?thesis
    by cases (auto simp: sgr_plain_def Let_def t look_bits look_colours simp del: act.simps bit.de_Morgan_disj)
qed

lemma sgr_run_look:
  "look_of (fst (sgr_run closest flags ps am)) =
     sgr_ref closest (flags AND CF_AIXTERM16 \<noteq> 0) (flags AND CF_XTERM256 \<noteq> 0) ps (look_of (fst am))"
proof (induction closest flags ps am rule: sgr_run.induct)
  case (2 closest flags P ss ps am)
  have "look_of (fst (put_color P c am)) = pick_color P c (look_of (fst am))" for c
    by (auto simp: put_color_def pick_color_def look_colours)
  then show ?case using 2 by (cases "P = 38 \<or> P = 48") (auto simp: sgr_plain_one)
qed simp

subsection \<open>Reading the arrays\<close>

definition params_from :: "vt \<Rightarrow> int \<Rightarrow> csi_param list" where
  "params_from v i = map (param_at v) [i..NParam v]"

lemma params_from_Cons: "i \<le> NParam v \<Longrightarrow> params_from v i = param_at v i # params_from v (i + 1)"
  by (simp add: params_from_def upto_rec1)

lemma params_from_end: "NParam v < i \<Longrightarrow> params_from v i = []"
  by (simp add: params_from_def)

lemma params_from_one: "params_from v 1 = csi_params v"
  by (simp add: params_from_def csi_params_def)

abbreviation subs :: "vt \<Rightarrow> int \<Rightarrow> int list" where "subs v i \<equiv> snd (param_at v i)"

lemma array_reads:
  assumes "params_ok v" "1 \<le> i" "i \<le> NParam v"
  shows "rd (Param v) i = Some (fst (param_at v i))" "rd (NSParam v) i = Some (int (length (subs v i)))"
    "1 \<le> j \<Longrightarrow> j \<le> int (length (subs v i)) \<Longrightarrow> rd2 (SubParam v) i j = Some (subs v i ! nat (j - 1))"
proof -
  note a = params_okD [OF assms]
  have l: "int (length (subs v i)) = NSParam v ! nat i" using a by (simp add: param_at_def)
  show "rd (Param v) i = Some (fst (param_at v i))" using a by (simp add: rd_in param_at_def)
  show "rd (NSParam v) i = Some (int (length (subs v i)))" unfolding l using a by (simp add: rd_in)
  assume j: "1 \<le> j" "j \<le> int (length (subs v i))"
  then have "nat j = Suc (nat (j - 1))" by simp
  moreover have "nat (j - 1) < 16" using j l a(5) by simp
  ultimately have "SubParam v ! nat i ! nat j = subs v i ! nat (j - 1)"
    using j l a by (simp add: param_at_def nth_tl)
  moreover have "in_arr (SubParam v ! nat i) j" using j l a by (simp add: in_17)
  ultimately show "rd2 (SubParam v) i j = Some (subs v i ! nat (j - 1))" using a by (simp add: rd2_def rd_in)
qed

lemma opt_rd_sub:
  assumes "params_ok v" "1 \<le> i" "i \<le> NParam v" "0 \<le> k"
  shows "opt_rd (k < int (length (subs v i))) (rd2 (SubParam v) i (k + 1)) = Some (nth0 (subs v i) (nat k))"
  using array_reads(3) [OF assms(1-3), of "k + 1"] assms(4) by (auto simp: opt_rd_def nth0_def nat_less_iff)

lemma nth0_shift: "nth0 (k # ss) 2 = nth0 ss 1" "nth0 (k # ss) 3 = nth0 ss 2" "nth0 (k # ss) 1 = nth0 ss 0"
  by (simp_all add: nth0_def numeral_2_eq_2 numeral_3_eq_3)

lemma sgr_color_ref:
  assumes "params_ok v" "1 \<le> i" "i \<le> NParam v" "P \<noteq> 2" "P \<noteq> 5"
  shows "\<exists>i'. sgr_color closest P i v = Some (fst (color_ref closest (subs v i) (params_from v (i + 1))), i') \<and> i \<le> i' \<and>
    params_from v (i' + 1) = snd (color_ref closest (subs v i) (params_from v (i + 1)))"
proof -
  note r = array_reads [OF assms(1)] and o = opt_rd_sub [OF assms(1)]
  obtain n' where n': "opt_rd (i < NParam v) (rd (NSParam v) (i + 1)) = Some n'"
    using r(2) [of "i + 1"] assms(2) by (cases "i < NParam v") (auto simp: opt_rd_def)
  show ?thesis
  proof (cases "subs v i")
    case (Cons k ss)
    have k2: "ss \<noteq> [] \<Longrightarrow> rd2 (SubParam v) i 2 = Some (hd ss)"
      using r(3) [OF assms(2,3), of 2] Cons by (cases ss) simp_all
    obtain n where n: "n = int (length (subs v i))" by simp
    have rd: "rd (NSParam v) i = Some n" "rd2 (SubParam v) i 1 = Some k"
      "opt_rd (2 < n) (rd2 (SubParam v) i 3) = Some (nth0 ss 1)"
      "opt_rd (3 < n) (rd2 (SubParam v) i 4) = Some (nth0 ss 2)"
      using r(2) [OF assms(2,3)] r(3) [OF assms(2,3), of 1] o [OF assms(2,3), of 2, folded n] o [OF assms(2,3), of 3, folded n]
      by (simp_all add: n Cons nth0_shift)
    have "0 < n" "1 < n \<longleftrightarrow> ss \<noteq> []" using Cons by (simp_all add: n)
    then show ?thesis
      using rd k2 n' Cons by (cases "ss = []") (simp_all add: sgr_color_def)
  next
    case Nil
    have n0: "rd (NSParam v) i = Some 0" using r(2) [OF assms(2,3)] Nil by simp
    show ?thesis
    proof (cases "i < NParam v")
      case False
      then show ?thesis using n0 assms(4,5) Nil by (simp add: sgr_color_def opt_rd_def params_from_end)
    next
      case less: True
      let ?m = "i + 1"
      obtain p ts' where m: "param_at v ?m = (p, ts')" by fastforce
      have m1: "1 \<le> ?m" "?m \<le> NParam v" using assms(2) less by auto
      have R: "params_from v ?m = (p, ts') # params_from v (?m + 1)" using params_from_Cons [OF m1(2)] m by simp
      have rp: "rd (Param v) ?m = Some p" "rd (NSParam v) ?m = Some (int (length ts'))"
        using r(1,2) [OF m1] m by simp_all
      show ?thesis
      proof (cases "p = 2 \<or> p = 5")
        case False
        then show ?thesis using n0 rp n' Nil less R by (simp add: sgr_color_def)
      next
        case p: True
        show ?thesis
        proof (cases ts')
          case (Cons h us)
          have rd: "rd2 (SubParam v) ?m 1 = Some h" "opt_rd (1 < int (length ts')) (rd2 (SubParam v) ?m 2) = Some (nth0 ts' 1)"
            "opt_rd (2 < int (length ts')) (rd2 (SubParam v) ?m 3) = Some (nth0 ts' 2)"
            using r(3) [OF m1, of 1] o [OF m1, of 1] o [OF m1, of 2] m by (simp_all add: Cons)
          obtain x where "opt_rd (?m < NParam v) (rd (NSParam v) (?m + 1)) = Some x"
            using r(2) [of "?m + 1"] m1(1) by (cases "?m < NParam v") (auto simp: opt_rd_def)
          then show ?thesis using n0 rp n' Nil less R p rd Cons by (auto simp: sgr_color_def)
        next
          case ts: Nil
          show ?thesis
          proof (cases "?m < NParam v")
            case False
            then have "params_from v (?m + 1) = []" by (simp add: params_from_end)
            then show ?thesis using False n0 rp n' Nil less R p ts by (auto simp: sgr_color_def opt_rd_def)
          next
            case more: True
            let ?q = "?m + 1"
            obtain x us where q: "param_at v ?q = (x, us)" by fastforce
            have q1: "1 \<le> ?q" "?q \<le> NParam v" using m1 more by auto
            have Rq: "params_from v ?q = (x, us) # params_from v (?q + 1)" using params_from_Cons [OF q1(2)] q by simp
            have rq: "rd (Param v) ?q = Some x" "rd (NSParam v) ?q = Some (int (length us))"
              using r(1,2) [OF q1] q by simp_all
            have rq': "us \<noteq> [] \<Longrightarrow> rd2 (SubParam v) ?q 1 = Some (hd us)"
              "opt_rd (1 < int (length us)) (rd2 (SubParam v) ?q 2) = Some (nth0 us 1)"
              using r(3) [OF q1, of 1] o [OF q1, of 1] q by (cases us; simp)+
            have len: "length (params_from v (?q + 1)) = nat (NParam v - ?q)" by (simp add: params_from_def)
            have three: "?m + 2 < NParam v \<longleftrightarrow> 2 \<le> length (params_from v (?q + 1))" unfolding len by linarith
            have r3: "rd (Param v) (?m + 2) = Some (fst (params_from v (?q + 1) ! 0))"
                "rd (Param v) (?m + 3) = Some (fst (params_from v (?q + 1) ! 1))"
                "params_from v (?m + 3 + 1) = drop 2 (params_from v (?q + 1))" if "?m + 2 < NParam v"
              using that r(1) [of "?m + 2"] r(1) [of "?m + 3"] m1 params_from_Cons [of "?m + 2" v] params_from_Cons [of "?m + 3" v]
              by (simp_all add: add.assoc)
            show ?thesis
              using n0 rp n' Nil less R p ts more q Rq rq rq' three r3
              by (cases "us = []") (auto simp: sgr_color_def opt_rd_def)
          qed
        qed
      qed
    qed
  qed
qed

lemma ParseSGRParams_run:
  assumes "params_ok v" "1 \<le> i"
  shows "ParseSGRParams closest v i am = Some (sgr_run closest (ColorFlag (vset v)) (params_from v i) am)"
  using assms(2)
proof (induction "nat (NParam v + 1 - i)" arbitrary: i am rule: less_induct)
  case less
  show ?case
  proof (cases "i \<le> NParam v")
    case False
    then show ?thesis by (simp add: ParseSGRParams.simps [of closest v i am] params_from_end)
  next
    case True
    let ?f = "ColorFlag (vset v)"
    obtain P ss where m: "param_at v i = (P, ss)" by fastforce
    have R: "params_from v i = (P, ss) # params_from v (i + 1)" using params_from_Cons [OF True] m by simp
    have rP: "rd (Param v) i = Some P" using array_reads(1) [OF assms(1) less.prems True] m by simp
    have IH: "ParseSGRParams closest v (i' + 1) a = Some (sgr_run closest ?f (params_from v (i' + 1)) a)" if "i \<le> i'" for i' a
      by (rule less.hyps) (use that True less.prems in auto)
    show ?thesis
    proof (cases "(P = 38 \<or> P = 48) \<and> ?f AND CF_XTERM256 \<noteq> 0")
      case False
      then show ?thesis using True rP R IH [of i] by (auto simp: ParseSGRParams.simps [of closest v i am] sgr_step_def)
    next
      case c: True
      obtain i' where i': "sgr_color closest P i v = Some (fst (color_ref closest ss (params_from v (i + 1))), i')" "i \<le> i'"
          "params_from v (i' + 1) = snd (color_ref closest ss (params_from v (i + 1)))"
        using sgr_color_ref [OF assms(1) less.prems True, of P closest] c m by auto
      have "sgr_step closest i v am = Some (put_color P (fst (color_ref closest ss (params_from v (i + 1)))) am, i')"
        using c rP i'(1) by (auto simp: sgr_step_def put_color_def)
      then show ?thesis using True c R IH [OF i'(2)] i'(2,3)
        by (simp add: ParseSGRParams.simps [of closest v i am])
    qed
  qed
qed

lemma CSSetAttr_eq:
  assumes "params_ok v"
  shows "\<exists>A. CSSetAttr closest v = Some (v\<lparr>scr := (UpdateStr (scr v))\<lparr>CurCharAttr := A\<rparr>, CharAttr := A\<rparr>) \<and>
    A = fst (sgr_run closest (ColorFlag (vset v)) (csi_params v) (CharAttr v, DefCharAttr))"
proof -
  have "params_ok (v\<lparr>scr := UpdateStr (scr v)\<rparr>)" using assms by simp
  from ParseSGRParams_run [OF this, of 1] show ?thesis
    by (simp add: CSSetAttr_def Let_def params_from_one csi_params_def param_at_def [abs_def])
qed

text \<open>
  C31. SGR with any parameters and subparameters stays inside the arrays, ends, and gives the
  look that the table of codes and the colours of 38 and 48 say, from left to right. The look
  fixes the attribute bit by bit; nothing but the current attributes changes.
\<close>

theorem CSSetAttr_reference:
  assumes "params_ok v"
  shows "\<exists>A. CSSetAttr closest v = Some (v\<lparr>scr := (UpdateStr (scr v))\<lparr>CurCharAttr := A\<rparr>, CharAttr := A\<rparr>) \<and>
    look_of A = sgr_ref closest (ColorFlag (vset v) AND CF_AIXTERM16 \<noteq> 0) (ColorFlag (vset v) AND CF_XTERM256 \<noteq> 0)
      (csi_params v) (look_of (CharAttr v))"
  using CSSetAttr_eq [OF assms, of closest] sgr_run_look [of closest "ColorFlag (vset v)" "csi_params v" "(CharAttr v, DefCharAttr)"]
  by auto

subsection \<open>From the bytes to the attribute\<close>

lemma UpdateStr_ts: "ts (UpdateStr s) = ts s" "CodeBuffW (UpdateStr s) = CodeBuffW s"
proof -
  obtain v c where e: "UpdateStr s = s\<lparr>vw := v, StrChangeCount := c\<rparr>"
    using UpdateStr_vw(1) [of s] unfolding same_but_view_def by blast
  show "ts (UpdateStr s) = ts s" "CodeBuffW (UpdateStr s) = CodeBuffW s" unfolding e by simp_all
qed

lemma sgr_sequence:
  assumes "idle w v" "param_shape v" "qs \<noteq> []" "length qs \<le> 16" "\<forall>q\<in>set qs. length (snd q) \<le> 16"
  shows "\<exists>v'. run_bytes (vt_step X Y Z U E) ([0x1B, 0x5B] @ print_params qs @ [0x6D]) (w, v) = Some (w, v') \<and> idle w v' \<and>
    CharAttr v' = fst (sgr_run (DispFindClosestColor Y) (ColorFlag (vset v)) (map read_param qs) (CharAttr v, DefCharAttr)) \<and>
    CurCharAttr (scr v') = CharAttr v' \<and> CodeBuffW (scr v') = CodeBuffW (scr v)"
proof -
  obtain v2 where v2: "run_bytes (vt_step X Y Z U E) ([0x1B, 0x5B] @ print_params qs) (w, v) = Some (w, v2)" "params_ok v2"
      "csi_params v2 = map read_param qs" "rest_of v2 = rest_of (set_mode ModeCSI v)" "ICount v2 = 0" "Prv v2 = 0"
    using csi_prefix [OF assms] by blast
  note f2 = rest_of_fields [OF v2(4)]
  obtain A where A: "CSSetAttr (DispFindClosestColor Y) v2 = Some (v2\<lparr>scr := (UpdateStr (scr v2))\<lparr>CurCharAttr := A\<rparr>, CharAttr := A\<rparr>)"
      "A = fst (sgr_run (DispFindClosestColor Y) (ColorFlag (vset v)) (map read_param qs) (CharAttr v, DefCharAttr))"
    using CSSetAttr_eq [OF v2(2)] v2(3) f2 by (auto simp: set_mode_def)
  let ?v = "v2\<lparr>scr := (UpdateStr (scr v2))\<lparr>CurCharAttr := A\<rparr>, CharAttr := A, ParseMode := ModeFirst, FirstPrm := False,
    PrevCharacter := 0x6D\<rparr>"
  have "cs_final X Y U 0x6D (w, v2) = Some (w, v2\<lparr>scr := (UpdateStr (scr v2))\<lparr>CurCharAttr := A\<rparr>, CharAttr := A\<rparr>)"
    using A(1) by (simp add: cs_final_def on_vt_def)
  then have "vt_step X Y Z U E 0x6D (w, v2) = Some (w, ?v)"
    by (intro step_final [THEN trans]) (use assms(1) f2 v2(5,6) in \<open>simp_all add: set_mode_def idle_def word_le_nat_alt\<close>)
  then have "run_bytes (vt_step X Y Z U E) ([0x1B, 0x5B] @ print_params qs @ [0x6D]) (w, v) = Some (w, ?v)"
    unfolding append_assoc [symmetric] run_bytes_append [of _ _ "[0x6D]"] v2(1) by simp
  moreover have "idle w ?v" "CodeBuffW (scr ?v) = CodeBuffW (scr v)"
    using assms(1) f2 by (simp_all add: idle_def set_mode_def UpdateStr_ts)
  ultimately show ?thesis using A(2) by (intro exI [of _ ?v]) simp
qed

text \<open>The ways of writing a colour that the comment in \<open>ParseSGRParams\<close> lists, for \<open>P\<close> = 38 or 48.\<close>

definition color_forms :: "nat \<Rightarrow> nat \<Rightarrow> nat \<Rightarrow> nat \<Rightarrow> (nat \<times> nat list) list list" where
  "color_forms P r g b =
     [[(P, []), (2, []), (r, []), (g, []), (b, [])], [(P, []), (2, [r, g, b])], [(P, [2, r, g, b])]]"

definition index_forms :: "nat \<Rightarrow> nat \<Rightarrow> (nat \<times> nat list) list list" where
  "index_forms P c = [[(P, []), (5, []), (c, [])], [(P, []), (5, [c])], [(P, [5, c])]]"

text \<open>
  All six ways of writing a colour mean the same: whether a host sends 38;2;r;g;b or 38;2:r:g:b
  or 38:2:r:g:b the next characters have the nearest colour of the palette, and 38;5;c, 38;5:c
  and 38:5:c have the colour c. Only the foreground changes.
\<close>

theorem sgr_color_forms:
  assumes "idle w v" "param_shape v" "ColorFlag (vset v) AND CF_XTERM256 \<noteq> 0"
    "qs \<in> set (color_forms 38 r g b) \<and> c = DispFindClosestColor Y (int r) (int g) (int b) \<or>
     qs \<in> set (index_forms 38 n) \<and> c = int n" "r < 2 ^ 31" "g < 2 ^ 31" "b < 2 ^ 31" "n < 2 ^ 31" "0 \<le> c" "c < 256"
  shows "\<exists>v'. run_bytes (vt_step X Y Z U E) ([0x1B, 0x5B] @ print_params qs @ [0x6D]) (w, v) = Some (w, v') \<and> idle w v' \<and>
    CharAttr v' = (CharAttr v)\<lparr>Attr2 := Attr2 (CharAttr v) OR Attr2Fore, Fore := word_of_int c\<rparr>"
proof -
  have q: "qs \<noteq> []" "length qs \<le> 16" "\<forall>q\<in>set qs. length (snd q) \<le> 16"
    using assms(4) by (auto simp: color_forms_def index_forms_def)
  have "sgr_run (DispFindClosestColor Y) (ColorFlag (vset v)) (map read_param qs) am = set_fore c am" for am
    using assms(3-10) by (auto simp: color_forms_def index_forms_def read_param_def int32_def put_color_def nth0_def)
  then show ?thesis
    using sgr_sequence [OF assms(1,2) q, where X = X and Y = Y and Z = Z and U = U and E = E]
    by (auto simp: set_fore_def)
qed

theorem CSSetAttr_reference_witness:
  "\<forall>closest. \<exists>v'. CSSetAttr closest (sample_vt\<lparr>NParam := 2, Param := (replicate 17 0)[1 := 31, 2 := 7]\<rparr>) = Some v' \<and>
    Fore (CharAttr v') = 1 \<and> Attr (CharAttr v') = AttrReverse"
proof
  fix closest
  let ?v = "sample_vt\<lparr>NParam := 2, Param := (replicate 17 0)[1 := 31, 2 := 7]\<rparr>"
  let ?A = "(CharAttr ?v)\<lparr>Attr := AttrReverse, Attr2 := Attr2Fore, Fore := 1\<rparr>"
  have "params_ok ?v" by (simp add: sample_vt_def params_ok_def param_shape_def NParamMax_def list_all_iff)
  from CSSetAttr_reference [OF this, of closest]
  obtain v' where v': "CSSetAttr closest ?v = Some v'" and l: "look_of (CharAttr v') =
      sgr_ref closest (ColorFlag (vset ?v) AND CF_AIXTERM16 \<noteq> 0) (ColorFlag (vset ?v) AND CF_XTERM256 \<noteq> 0)
      (csi_params ?v) (look_of (CharAttr ?v))" by auto
  have "csi_params ?v = [(31, []), (7, [])]"
    by (simp add: csi_params_def param_at_def sample_vt_def upto_rec1)
  then have "look_of (CharAttr v') = look_of ?A" unfolding l
    by (auto simp: sgr_one_def sgr_codes_def map_of_append map_add_def map_of_range look_of_def
        sample_vt_def DefCharAttr_def AttrDefault_def AttrReverse_def Attr2Fore_def split: rendition.splits)
      (metis rendition.exhaust)
  then have "CharAttr v' = ?A" by (rule look_inj)
  then show "\<exists>v'. CSSetAttr closest ?v = Some v' \<and> Fore (CharAttr v') = 1 \<and> Attr (CharAttr v') = AttrReverse"
    using v' by simp
qed

theorem sgr_color_forms_witness:
  "\<forall>X Y Z U E. \<exists>v'. run_bytes (vt_step X Y Z U E) ([0x1B, 0x5B] @ print_params [(38, []), (5, [200])] @ [0x6D])
      (fst sample_tracer, sample_vt) = Some (fst sample_tracer, v') \<and> Fore (CharAttr v') = 200"
proof (intro allI)
  fix X Z U E and Y :: csi_ext
  have x: "ColorFlag (vset sample_vt) AND CF_XTERM256 \<noteq> 0"
    by (simp add: sample_vt_def sample_vset_def CF_XTERM256_def)
  have p: "[(38, []), (5, [200])] \<in> set (color_forms 38 0 0 0) \<and> 200 = DispFindClosestColor Y (int 0) (int 0) (int 0) \<or>
      [(38, []), (5, [200])] \<in> set (index_forms 38 200) \<and> 200 = int 200" by (simp add: index_forms_def)
  have "\<exists>v'. run_bytes (vt_step X Y Z U E) ([0x1B, 0x5B] @ print_params [(38, []), (5, [200])] @ [0x6D])
      (fst sample_tracer, sample_vt) = Some (fst sample_tracer, v') \<and> idle (fst sample_tracer) v' \<and>
      CharAttr v' = (CharAttr sample_vt)\<lparr>Attr2 := Attr2 (CharAttr sample_vt) OR Attr2Fore, Fore := word_of_int 200\<rparr>"
    by (rule sgr_color_forms [OF sample_idle sample_vt_shape x p]) simp_all
  then obtain v' where v': "run_bytes (vt_step X Y Z U E) ([0x1B, 0x5B] @ print_params [(38, []), (5, [200])] @ [0x6D])
      (fst sample_tracer, sample_vt) = Some (fst sample_tracer, v')"
      "CharAttr v' = (CharAttr sample_vt)\<lparr>Attr2 := Attr2 (CharAttr sample_vt) OR Attr2Fore, Fore := word_of_int 200\<rparr>" by blast
  have "Fore (CharAttr v') = 200" unfolding v'(2) by simp
  with v'(1) show "\<exists>v'. run_bytes (vt_step X Y Z U E) ([0x1B, 0x5B] @ print_params [(38, []), (5, [200])] @ [0x6D])
      (fst sample_tracer, sample_vt) = Some (fst sample_tracer, v') \<and> Fore (CharAttr v') = 200" by blast
qed

end
