(* ===== verification/VtSave.thy ===== *)
theory VtSave
  imports VtSgrFacts
begin

section \<open>Saving and restoring the cursor; the sequences that move it\<close>

text \<open>The slot that \<open>SaveCursor\<close> and \<open>RestoreCursor\<close> use.\<close>

definition slot :: "vt \<Rightarrow> TStatusBuff" where
  "slot v = (if isCursorOnStatusLine (scr v) then SBuff2 v else if AltScr v then SBuff3 v else SBuff1 v)"

lemma SaveCursor_slot: "slot (snd (SaveCursor (w, v))) = SaveCursorBuf (w, v)"
  by (simp add: SaveCursor_def slot_def Let_def)

lemma SaveCursor_scr [simp]: "scr (snd (SaveCursor (w, v))) = scr v"
  by (simp add: SaveCursor_def Let_def)

lemma UpdateStr_status: "isCursorOnStatusLine (UpdateStr s) = isCursorOnStatusLine s"
    "NumOfColumns (UpdateStr s) = NumOfColumns s" "NumOfLines (UpdateStr s) = NumOfLines s" "StatusLine (UpdateStr s) = StatusLine s"
    "page_ok (UpdateStr s) = page_ok s" "cursor_ok (UpdateStr s) = cursor_ok s" "lineptr_ok (UpdateStr s) = lineptr_ok s"
proof -
  obtain v c where e: "UpdateStr s = s\<lparr>vw := v, StrChangeCount := c\<rparr>"
    using UpdateStr_vw(1) [of s] unfolding same_but_view_def by blast
  show "isCursorOnStatusLine (UpdateStr s) = isCursorOnStatusLine s"
    "NumOfColumns (UpdateStr s) = NumOfColumns s" "NumOfLines (UpdateStr s) = NumOfLines s" "StatusLine (UpdateStr s) = StatusLine s"
    "page_ok (UpdateStr s) = page_ok s" "cursor_ok (UpdateStr s) = cursor_ok s" "lineptr_ok (UpdateStr s) = lineptr_ok s"
    unfolding e by (simp_all add: isCursorOnStatusLine_def page_ok_def geom_ok_def cursor_ok_def lineptr_ok_def row_ptr_def)
qed

lemma RestoreCursor_slot:
  assumes "screen_ok (scr v)" "StatusLine (scr v) < NumOfLines (scr v)" "0 \<le> SavedX (slot v)" "0 \<le> SavedY (slot v)"
  shows "\<exists>w' v'. RestoreCursor (w, v) = Some (w', v') \<and>
    CursorX (scr v') = min (SavedX (slot v)) (NumOfColumns (scr v) - 1) \<and>
    CursorY (scr v') = min (SavedY (slot v)) (NumOfLines (scr v) - 1 - StatusLine (scr v)) \<and>
    screen_ok (scr v') \<and> CodeBuffW (scr v') = CodeBuffW (scr v) \<and> CharAttr v' = SavedAttr (slot v) \<and>
    CurCharAttr (scr v') = SavedAttr (slot v) \<and> AutoWrapMode v' = SavedAutoWrap (slot v) \<and>
    RelativeOrgMode v' = SavedOrigin (slot v) \<and> w' = CharSetLoadState (SavedCharSet (slot v)) w"
proof -
  let ?s = "UpdateStr (scr v)"
  let ?b = "cut_saved ?s (slot v)"
  have ok: "screen_ok ?s" using assms(1) by (simp add: screen_ok_def UpdateStr_status)
  have c: "0 < NumOfColumns (scr v)" "0 \<le> StatusLine (scr v)" using assms(1) by (auto simp: screen_ok_def cursor_ok_def)
  have b: "SavedX ?b = min (SavedX (slot v)) (NumOfColumns (scr v) - 1)"
    "SavedY ?b = min (SavedY (slot v)) (NumOfLines (scr v) - 1 - StatusLine (scr v))"
    "SavedAttr ?b = SavedAttr (slot v)" "SavedCharSet ?b = SavedCharSet (slot v)" "SavedAutoWrap ?b = SavedAutoWrap (slot v)"
    "SavedOrigin ?b = SavedOrigin (slot v)"
    by (simp_all add: cut_saved_def UpdateStr_status)
  have rng: "0 \<le> SavedX ?b" "SavedX ?b < NumOfColumns ?s" "0 \<le> SavedY ?b" "SavedY ?b < NumOfLines ?s"
    using assms c by (auto simp: b UpdateStr_status)
  obtain s' where s': "MoveCursor (SavedX ?b) (SavedY ?b) ?s = Some s'" "screen_ok s'" "CursorX s' = SavedX ?b"
      "CursorY s' = SavedY ?b" "CodeBuffW s' = CodeBuffW (scr v)"
    using MoveCursor_ok [OF ok rng] by (auto simp: UpdateStr_ts)
  have run: "\<exists>v'. RestoreCursor (w, v) = Some (CharSetLoadState (SavedCharSet ?b) w, v') \<and> scr v' = s'\<lparr>CurCharAttr := SavedAttr ?b\<rparr> \<and>
      CharAttr v' = SavedAttr ?b \<and> AutoWrapMode v' = SavedAutoWrap ?b \<and> RelativeOrgMode v' = SavedOrigin ?b"
  proof (cases "isCursorOnStatusLine (scr v)")
    case True
    then have "slot v = SBuff2 v" by (simp add: slot_def)
    then show ?thesis using s'(1) True by (simp add: RestoreCursor_def Let_def UpdateStr_status on_scr_def)
  next
    case main: False
    show ?thesis
    proof (cases "AltScr v")
      case True
      then have "slot v = SBuff3 v" using main by (simp add: slot_def)
      then show ?thesis using s'(1) True main by (simp add: RestoreCursor_def Let_def UpdateStr_status on_scr_def)
    next
      case False
      then have "slot v = SBuff1 v" using main by (simp add: slot_def)
      then show ?thesis using s'(1) False main by (simp add: RestoreCursor_def Let_def UpdateStr_status on_scr_def)
    qed
  qed
  have "screen_ok (s'\<lparr>CurCharAttr := A\<rparr>)" for A using s'(2)
    by (simp add: screen_ok_def page_ok_def geom_ok_def cursor_ok_def lineptr_ok_def row_ptr_def)
  then show ?thesis using run s'(3-5) b by fastforce
qed

text \<open>
  C32. DECSC and DECRC: whatever happens between them, as long as nothing is saved in the same slot
  and the main screen, the alternate screen or the status line is selected as before, restoring brings back the
  position (cut to a screen that has become smaller), the attributes, the designated and
  invoked character sets, the automatic wrapping and the origin mode.
\<close>

theorem SaveCursor_RestoreCursor:
  assumes "screen_ok (scr v)" "screen_ok (scr u)" "StatusLine (scr u) < NumOfLines (scr u)"
    "slot u = slot (snd (SaveCursor (w, v)))" "2 \<le> length (Glr w)" "4 \<le> length (Gn w)"
  shows "\<exists>x' u'. RestoreCursor (x, u) = Some (x', u') \<and>
    CursorX (scr u') = min (CursorX (scr v)) (NumOfColumns (scr u) - 1) \<and>
    CursorY (scr u') = min (CursorY (scr v)) (NumOfLines (scr u) - 1 - StatusLine (scr u)) \<and>
    CharAttr u' = CharAttr v \<and> AutoWrapMode u' = AutoWrapMode v \<and> RelativeOrgMode u' = RelativeOrgMode v \<and>
    CharSetSaveState x' = CharSetSaveState w \<and> screen_ok (scr u') \<and> CodeBuffW (scr u') = CodeBuffW (scr u)"
proof -
  have s: "slot u = SaveCursorBuf (w, v)" using assms(4) SaveCursor_slot by simp
  have "0 \<le> SavedX (slot u)" "0 \<le> SavedY (slot u)" using assms(1)
    by (simp_all add: s SaveCursorBuf_def screen_ok_def cursor_ok_def)
  from RestoreCursor_slot [OF assms(2,3) this, of x] show ?thesis
    by (auto simp: s SaveCursorBuf_def CharSetLoadState_def CharSetSaveState_def)
qed

theorem SaveCursor_RestoreCursor_witness:
  "\<exists>x' u'. RestoreCursor (fst sample_tracer, (snd (SaveCursor (fst sample_tracer, sample_vt)))\<lparr>CharAttr := DefCharAttr\<lparr>Fore := 3\<rparr>\<rparr>)
      = Some (x', u') \<and> CursorX (scr u') = 1 \<and> CursorY (scr u') = 1 \<and> CharAttr u' = DefCharAttr"
proof -
  let ?u = "(snd (SaveCursor (fst sample_tracer, sample_vt)))\<lparr>CharAttr := DefCharAttr\<lparr>Fore := 3\<rparr>\<rparr>"
  have s: "scr sample_vt = sample_screen" by (simp add: sample_vt_def)
  have u: "scr ?u = sample_screen" "slot ?u = slot (snd (SaveCursor (fst sample_tracer, sample_vt)))"
    by (simp_all add: slot_def s)
  have "screen_ok (scr sample_vt)" "screen_ok (scr ?u)" "StatusLine (scr ?u) < NumOfLines (scr ?u)"
      "2 \<le> length (Glr (fst sample_tracer))" "4 \<le> length (Gn (fst sample_tracer))"
    using sample_tracer_ready(4) unfolding u(1) s by (simp_all add: cs_ok_def)
  from SaveCursor_RestoreCursor [OF this(1,2,3) u(2) this(4,5), where x = "fst sample_tracer"]
  show ?thesis unfolding u(1) s by (auto simp: sample_vt_def)
qed

subsection \<open>All sequences that move the cursor\<close>

text \<open>Restoring changes neither the size of the screen nor its cells.\<close>

lemma RestoreCursor_moved:
  assumes "vt_ok v" "0 \<le> SavedX (slot v)" "0 \<le> SavedY (slot v)"
  shows "\<exists>w' v'. RestoreCursor (w, v) = Some (w', v') \<and> moved v v'"
proof -
  obtain w' v' where r: "RestoreCursor (w, v) = Some (w', v')" "screen_ok (scr v')"
    using RestoreCursor_slot [of v w] assms by (auto simp: vt_ok_def)
  have v: "same_size (scr v) (UpdateStr (scr v))" by (rule same_size_view [OF same_but_view_Disp(3)])
  have "same_size (scr v) (scr v') \<and> params_ok v' = params_ok v \<and> vset v' = vset v \<and> PrinterMode v' = PrinterMode v"
    using r(1) v by (auto simp: RestoreCursor_def Let_def on_scr_def bind_eq_Some_conv params_ok_def param_shape_def
        same_size_def dest!: MoveCursor_size split: if_splits)
  then show ?thesis using r assms(1) by (auto simp: moved_def same_size_def vt_ok_def)
qed

text \<open>
  CUU, CUD, CUF, CUB, CNL, CPL, CHA, CUP, HPA, HPR, VPA, VPR, HVP, HPB, VPB, DECSTBM, then CHT, CBT,
  CSI s (DECSLRM, or SCP where left and right margins are off) and RCP.
\<close>

definition cursor_finals :: "u8 list" where
  "cursor_finals = move_finals @ [0x49, 0x5A, 0x73, 0x75]"

lemma cs_final_tabs_saves:
  "cs_final X Y U 0x49 st = on_vt CSForwardTab st" "cs_final X Y U 0x5A st = on_vt CSBackwardTab st"
  "cs_final X Y U 0x73 st = (if LRMarginMode (snd st) then on_vt CSSetLRScrollRegion st else Some (SaveCursor st))"
  "cs_final X Y U 0x75 st = RestoreCursor st"
  by (simp_all add: cs_final_def)

lemma SaveCursor_moved:
  assumes "vt_ok v"
  shows "moved v (snd (SaveCursor (w, v)))"
  using assms by (simp add: SaveCursor_def Let_def moved_def vt_ok_def params_ok_def param_shape_def)

text \<open>
  C29. The control sequences with one of these twenty final characters and no private or
  intermediate character (CUU, CUD, CUF, CUB, CNL, CPL, CHA, CUP, HPA, HPR, VPA, VPR, HVP, HPB,
  VPB, DECSTBM, CHT, CBT, DECSLRM or SCP, RCP), with any parameters: they succeed, no cell changes,
  the cursor stays on the screen and the margins inside it. CHT and CBT need a well-formed list
  of tab stops, RCP a saved position that is not negative.
\<close>

theorem cursor_sequences_stay:
  assumes "vt_ok v" "\<not> PrinterMode v" "ICount v = 0" "Prv v = 0" "b \<in> set cursor_finals"
    and "b \<in> {0x49, 0x5A} \<Longrightarrow> tabs_ok (scr v)"
    and "b = 0x75 \<Longrightarrow> 0 \<le> SavedX (slot v) \<and> 0 \<le> SavedY (slot v)"
  shows "\<exists>w' v'. ParseCS X Y U b (w, v) = Some (w', v') \<and> moved v v' \<and> ParseMode v' = ModeFirst"
proof (rule ParseCS_moves [OF _ assms(2-4)])
  consider "b \<in> set move_finals" | "b = 0x49" | "b = 0x5A" | "b = 0x73" | "b = 0x75"
    using assms(5) by (auto simp: cursor_finals_def)
  then show "\<exists>w' v'. cs_final X Y U b (w, v) = Some (w', v') \<and> moved v v'"
  proof cases
    case 1
    then show ?thesis by (rule cs_final_moves [OF assms(1)])
  next
    case 2
    then show ?thesis using tabs_move(1) [OF assms(1)] assms(6) by (auto simp: cs_final_tabs_saves on_vt_def)
  next
    case 3
    then show ?thesis using tabs_move(2) [OF assms(1)] assms(6) by (auto simp: cs_final_tabs_saves on_vt_def)
  next
    case 4
    then show ?thesis
      using on_vt_moves [OF CSSetLRScrollRegion_ok assms(1)] SaveCursor_moved [OF assms(1), of w]
      by (auto simp: cs_final_tabs_saves intro!: exI [of _ "fst (SaveCursor (w, v))"] exI [of _ "snd (SaveCursor (w, v))"])
  next
    case 5
    then show ?thesis using RestoreCursor_moved [OF assms(1)] assms(7) by (auto simp: cs_final_tabs_saves)
  qed
qed

theorem cursor_sequences_stay_witness:
  "\<forall>X Y U w. \<exists>w' v'. ParseCS X Y U 0x75 (w, sample_vt\<lparr>NParam := 1, Param := (replicate 17 0)[1 := -1]\<rparr>) = Some (w', v') \<and>
    screen_ok (scr v')"
proof (intro allI)
  fix X Y U w
  let ?v = "sample_vt\<lparr>NParam := 1, Param := (replicate 17 0)[1 := -1]\<rparr>"
  have "vt_ok ?v" "\<not> PrinterMode ?v" "ICount ?v = 0" "Prv ?v = 0" "0x75 \<in> set cursor_finals"
      "(0x75 :: u8) \<in> {0x49, 0x5A} \<Longrightarrow> tabs_ok (scr ?v)" "0 \<le> SavedX (slot ?v) \<and> 0 \<le> SavedY (slot ?v)"
    by (simp_all add: vt_ok_def sample_vt_def params_ok_def param_shape_def NParamMax_def cursor_finals_def list_all_iff
        slot_def sample_status_def)
  from cursor_sequences_stay [OF this, where X = X and Y = Y and U = U and w = w]
  show "\<exists>w' v'. ParseCS X Y U 0x75 (w, ?v) = Some (w', v') \<and> screen_ok (scr v')"
    by (auto simp: moved_def vt_ok_def)
qed

subsection \<open>What the code does not do as intended\<close>

text \<open>A cursor saved on the status line is restored on the line above it.\<close>

lemma restore_leaves_status_line:
  assumes "screen_ok (scr v)" "StatusLine (scr v) = 1" "CursorY (scr v) = NumOfLines (scr v) - 1" "2 \<le> NumOfLines (scr v)"
  shows "\<exists>w' v'. RestoreCursor (SaveCursor (w, v)) = Some (w', v') \<and> CursorY (scr v') = CursorY (scr v) - 1"
proof -
  obtain u where u: "SaveCursor (w, v) = (w, u)" by (simp add: SaveCursor_def Let_def)
  have s: "slot u = SaveCursorBuf (w, v)" "scr u = scr v"
    using SaveCursor_slot [of w v] SaveCursor_scr [of w v] by (simp_all add: u)
  have "0 \<le> SavedX (slot u)" "0 \<le> SavedY (slot u)" "SavedY (slot u) = CursorY (scr v)" using assms(1)
    by (simp_all add: s SaveCursorBuf_def screen_ok_def cursor_ok_def)
  with RestoreCursor_slot [of u w] assms show ?thesis by (auto simp: u s(2))
qed

text \<open>
  In origin mode a cursor two columns left of the margin (HPB moves it there) is reported with
  the column 4294967295.
\<close>

lemma cursor_report_wraps:
  assumes "RelativeOrgMode v" "\<not> isCursorOnStatusLine (scr v)" "CursorX (scr v) = CursorLeftM (scr v) - 2"
  shows "\<exists>y. cursor_report v = y @ [0x3B, 0x34, 0x32, 0x39, 0x34, 0x39, 0x36, 0x37, 0x32, 0x39, 0x35, 0x52]"
proof -
  have "unsigned_dec (-1) = [0x34, 0x32, 0x39, 0x34, 0x39, 0x36, 0x37, 0x32, 0x39, 0x35]"
    by (simp add: unsigned_dec_def dec_digits.simps)
  then show ?thesis using assms by (simp add: cursor_report_def Let_def)
qed

end
