(* ===== verification/VtString.thy ===== *)
theory VtString
  imports VtSave
begin

section \<open>User defined keys and device control strings\<close>

text \<open>
  DECUDK: what a host writes as key number, slash and hexadecimal digits arrives as a call of
  \<open>DefineUserKey\<close>. And the collection of a device control string stays in its buffer.
\<close>

subsection \<open>Keys\<close>

text \<open>The state between two bytes: key number \<open>i\<close>, the bytes \<open>t\<close> of the key so far, calls \<open>c\<close>.\<close>

definition key_at :: "vt \<Rightarrow> bool \<Rightarrow> bool \<Rightarrow> int \<Rightarrow> u8 list \<Rightarrow> vt_call list \<Rightarrow> bool" where
  "key_at v wait_id hi i t c \<longleftrightarrow> \<not> ESCFlag v \<and> KeyUtf8 v = 0 \<and> WaitKeyId v = wait_id \<and> WaitHi v = hi \<and> NewKeyId v = i \<and>
     length (NewKeyStr v) = 32 \<and> (\<not> wait_id \<longrightarrow> NewKeyLen v = int (length t) \<and> take (length t) (NewKeyStr v) = t) \<and> calls v = c"

definition plain_byte :: "u8 \<Rightarrow> bool" where
  "plain_byte b \<longleftrightarrow> b < 0x80 \<and> b \<noteq> 0x1B"

lemma DCUserKey_plain:
  assumes "\<not> ESCFlag v" "KeyUtf8 v = 0" "plain_byte b"
  shows "DCUserKey b v =
    (let v = v\<lparr>ESCFlag := False, KeyUtf8 := 0\<rparr>
        in if WaitKeyId v
           then Some
             (if 0x30 \<le> b \<and> b \<le> 0x39
              then if NewKeyId v < 1000 then v\<lparr>NewKeyId := NewKeyId v * 10 + uint b - 0x30\<rparr> else v
              else if b = 0x2F then v\<lparr>WaitKeyId := False, WaitHi := True, NewKeyLen := 0\<rparr> else v)
           else if b = 0x3B then Some ((define_key v)\<lparr>WaitKeyId := True, NewKeyId := 0\<rparr>)
           else key_byte b v)"
proof -
  have "b \<noteq> 0x9C" "b < 0xc0" using assms(3) by (auto simp: plain_byte_def word_less_nat_alt)
  then have "\<not> string_end b (KeyUtf8 v) v" "CheckUTF8Seq (KanjiCode (tts v)) b (KeyUtf8 v) = 0"
    using assms by (auto simp: string_end_def CheckUTF8Seq_def)
  then show ?thesis using assms by (simp add: DCUserKey_def plain_byte_def)
qed

definition hex_digit_of :: "nat \<Rightarrow> u8" where
  "hex_digit_of n = (if n < 10 then 0x30 + of_nat n else 0x37 + of_nat n)"

definition hex_of :: "u8 \<Rightarrow> u8 list" where
  "hex_of c = [hex_digit_of (unat c div 16), hex_digit_of (unat c mod 16)]"

lemma hex_read: "push_bit 4 (ConvHexChar (hex_digit_of (unat c div 16))) + ConvHexChar (hex_digit_of (unat c mod 16)) = c"
  by (rule byte_all [of "\<lambda>c. push_bit 4 (ConvHexChar (hex_digit_of (unat c div 16))) + ConvHexChar (hex_digit_of (unat c mod 16)) = c"])
    (simp add: upt_rec hex_digit_of_def ConvHexChar_def word_le_nat_alt)

lemma hex_plain: "plain_byte (hex_digit_of (unat (c :: u8) div 16)) \<and> hex_digit_of (unat c div 16) \<noteq> 0x3B"
    "plain_byte (hex_digit_of (unat c mod 16)) \<and> hex_digit_of (unat c mod 16) \<noteq> 0x3B"
proof -
  show "plain_byte (hex_digit_of (unat c div 16)) \<and> hex_digit_of (unat c div 16) \<noteq> 0x3B"
    by (rule byte_all [of "\<lambda>c. plain_byte (hex_digit_of (unat c div 16)) \<and> hex_digit_of (unat c div 16) \<noteq> 0x3B"])
      (simp add: upt_rec hex_digit_of_def plain_byte_def word_less_nat_alt)
  show "plain_byte (hex_digit_of (unat c mod 16)) \<and> hex_digit_of (unat c mod 16) \<noteq> 0x3B"
    by (rule byte_all [of "\<lambda>c. plain_byte (hex_digit_of (unat c mod 16)) \<and> hex_digit_of (unat c mod 16) \<noteq> 0x3B"])
      (simp add: upt_rec hex_digit_of_def plain_byte_def word_less_nat_alt)
qed

lemma key_hex:
  assumes "key_at v False True i t c" "length t < 32"
  shows "\<exists>v' v''. DCUserKey (hex_digit_of (unat b div 16)) v = Some v' \<and> DCUserKey (hex_digit_of (unat b mod 16)) v' = Some v'' \<and>
    key_at v'' False True i (t @ [b]) c"
proof -
  let ?h = "hex_digit_of (unat b div 16)" and ?l = "hex_digit_of (unat b mod 16)"
  let ?n = "length t" and ?x = "push_bit 4 (ConvHexChar ?h)"
  have k: "\<not> ESCFlag v" "KeyUtf8 v = 0" "\<not> WaitKeyId v" "WaitHi v" "NewKeyId v = i" "length (NewKeyStr v) = 32"
    "NewKeyLen v = int ?n" "take ?n (NewKeyStr v) = t" "calls v = c"
    using assms(1) by (simp_all add: key_at_def)
  let ?v = "v\<lparr>ESCFlag := False, KeyUtf8 := 0, NewKeyStr := (NewKeyStr v)[?n := ?x], WaitHi := False\<rparr>"
  have s1: "DCUserKey ?h v = Some ?v"
    using k assms(2) hex_plain(1) [of b]
    by (simp add: DCUserKey_plain key_byte_def FuncKeyStrMax_def wr_def in_arr_def)
  let ?w = "?v\<lparr>ESCFlag := False, KeyUtf8 := 0, NewKeyStr := (NewKeyStr v)[?n := b], WaitHi := True, NewKeyLen := int ?n + 1\<rparr>"
  have "DCUserKey ?l ?v = Some ?w"
    using k assms(2) hex_plain(2) [of b] hex_read [of b]
    by (simp add: DCUserKey_plain key_byte_def FuncKeyStrMax_def wr_def rd_def in_arr_def)
  moreover have "take (Suc ?n) ((NewKeyStr v)[?n := b]) = t @ [b]"
    using k(6,8) assms(2) take_update_last [of ?n "NewKeyStr v" b] by simp
  then have "key_at ?w False True i (t @ [b]) c" using k by (simp add: key_at_def)
  ultimately show ?thesis using s1 by blast
qed

text \<open>Runs of bytes through \<open>DCUserKey\<close>.\<close>

fun key_bytes :: "u8 list \<Rightarrow> vt \<Rightarrow> vt option" where
  "key_bytes [] v = Some v"
| "key_bytes (b # bs) v = do { v \<leftarrow> DCUserKey b v; key_bytes bs v }"

lemma key_bytes_append: "key_bytes (bs @ cs) v = Option.bind (key_bytes bs v) (key_bytes cs)"
  by (induction bs arbitrary: v) (simp, simp cong: bind_option_cong)

lemma key_hexes:
  assumes "key_at v False True i t c" "length t + length bs \<le> 32"
  shows "\<exists>v'. key_bytes (concat (map hex_of bs)) v = Some v' \<and> key_at v' False True i (t @ bs) c"
  using assms
proof (induction bs arbitrary: v t)
  case Nil
  then show ?case by simp
next
  case (Cons b bs)
  obtain v1 v2 where v: "DCUserKey (hex_digit_of (unat b div 16)) v = Some v1" "DCUserKey (hex_digit_of (unat b mod 16)) v1 = Some v2"
      "key_at v2 False True i (t @ [b]) c"
    using key_hex [OF Cons.prems(1)] Cons.prems(2) by fastforce
  obtain v' where "key_bytes (concat (map hex_of bs)) v2 = Some v'" "key_at v' False True i ((t @ [b]) @ bs) c"
    using Cons.IH [OF v(3)] Cons.prems(2) by auto
  then show ?case using v(1,2) by (simp add: hex_of_def [of b])
qed

lemma digit_plain: "d < 10 \<Longrightarrow> plain_byte (0x30 + of_nat d)"
  using uint_digit [of d] by (simp add: plain_byte_def word_less_def word_uint_eq_iff)

lemma key_digit:
  assumes "key_at v True hi i t c" "d < 10" "i < 1000"
  shows "\<exists>v'. DCUserKey (0x30 + of_nat d) v = Some v' \<and> key_at v' True hi (10 * i + int d) t c"
  using assms digit_plain [OF assms(2)] digit_range [OF assms(2)] uint_digit [OF assms(2)]
  by (auto simp: key_at_def DCUserKey_plain)

lemma key_number:
  assumes "key_at v True hi 0 t c" "n < 10000"
  shows "\<exists>v'. key_bytes (dec_digits n) v = Some v' \<and> key_at v' True hi (int n) t c"
  using assms
proof (induction n arbitrary: v rule: dec_digits.induct)
  case (1 n)
  show ?case
  proof (cases "n < 10")
    case True
    then show ?thesis using key_digit [OF "1.prems"(1) True] by (auto simp: dec_digits.simps [of n])
  next
    case False
    have n: "n div 10 < 1000" "n div 10 < 10000" using "1.prems"(2) by (simp_all add: div_less_iff_less_mult)
    obtain v1 where v1: "key_bytes (dec_digits (n div 10)) v = Some v1" "key_at v1 True hi (int (n div 10)) t c"
      using "1.IH" [OF False "1.prems"(1) n(2)] by blast
    obtain v2 where "DCUserKey (0x30 + of_nat (n mod 10)) v1 = Some v2" "key_at v2 True hi (10 * int (n div 10) + int (n mod 10)) t c"
      using key_digit [OF v1(2), of "n mod 10"] n(1) by auto
    moreover have "10 * int (n div 10) + int (n mod 10) = int n" by (simp add: zdiv_int zmod_int)
    ultimately show ?thesis using v1(1) False by (simp add: dec_digits.simps [of n] key_bytes_append)
  qed
qed

text \<open>The text of the keys of a DECUDK string, and the calls it stands for.\<close>

definition print_key :: "nat \<times> u8 list \<Rightarrow> u8 list" where
  "print_key k = dec_digits (fst k) @ [0x2F] @ concat (map hex_of (snd k))"

fun print_keys :: "(nat \<times> u8 list) list \<Rightarrow> u8 list" where
  "print_keys [] = []"
| "print_keys [k] = print_key k"
| "print_keys (k # ks) = print_key k @ [0x3B] @ print_keys ks"

definition key_call :: "nat \<times> u8 list \<Rightarrow> vt_call \<Rightarrow> bool" where
  "key_call k d \<longleftrightarrow> (\<exists>buf. d = DefineUserKey (int (fst k)) buf (int (length (snd k))) \<and> take (length (snd k)) buf = snd k)"

lemma key_slash:
  assumes "key_at v True hi i t c"
  shows "\<exists>v'. DCUserKey 0x2F v = Some v' \<and> key_at v' False True i [] c"
  using assms by (auto simp: key_at_def DCUserKey_plain plain_byte_def word_le_nat_alt)

lemma key_one:
  assumes "key_at v True hi 0 t c" "fst k < 10000" "length (snd k) \<le> 32"
  shows "\<exists>v'. key_bytes (print_key k) v = Some v' \<and> key_at v' False True (int (fst k)) (snd k) c"
proof -
  obtain v1 where v1: "key_bytes (dec_digits (fst k)) v = Some v1" "key_at v1 True hi (int (fst k)) t c"
    using key_number [OF assms(1,2)] by blast
  obtain v2 where v2: "DCUserKey 0x2F v1 = Some v2" "key_at v2 False True (int (fst k)) [] c"
    using key_slash [OF v1(2)] by blast
  show ?thesis using key_hexes [OF v2(2), of "snd k"] assms(3) v1(1) v2(1)
    by (simp add: print_key_def key_bytes_append)
qed

lemma key_semicolon:
  assumes "key_at v False True (int (fst k)) (snd k) c"
  shows "\<exists>v' d. DCUserKey 0x3B v = Some v' \<and> key_at v' True True 0 (snd k) (c @ [d]) \<and> key_call k d"
  using assms by (auto simp: key_at_def DCUserKey_plain plain_byte_def define_key_def call_def key_call_def)

lemma key_end:
  assumes "key_at v False True (int (fst k)) (snd k) c"
  shows "\<exists>v' d. key_bytes [0x1B, 0x5C] v = Some v' \<and> calls v' = c @ [d] \<and> key_call k d \<and> ParseMode v' = ModeFirst \<and> \<not> ESCFlag v'"
  using assms by (auto simp: key_at_def DCUserKey_def string_end_def define_key_def call_def key_call_def)

lemma keys_all:
  assumes "key_at v True hi 0 t c" "ks \<noteq> []" "\<forall>k\<in>set ks. fst k < 10000 \<and> length (snd k) \<le> 32"
  shows "\<exists>v' ds. key_bytes (print_keys ks @ [0x1B, 0x5C]) v = Some v' \<and> calls v' = c @ ds \<and> list_all2 key_call ks ds \<and>
    ParseMode v' = ModeFirst \<and> \<not> ESCFlag v'"
  using assms
proof (induction ks arbitrary: v hi t c rule: print_keys.induct)
  case (2 k)
  obtain v1 where v1: "key_bytes (print_key k) v = Some v1" "key_at v1 False True (int (fst k)) (snd k) c"
    using key_one [OF "2.prems"(1), of k] "2.prems"(3) by auto
  obtain v' d where "key_bytes [0x1B, 0x5C] v1 = Some v'" "calls v' = c @ [d]" "key_call k d" "ParseMode v' = ModeFirst" "\<not> ESCFlag v'"
    using key_end [OF v1(2)] by blast
  then show ?case using v1(1) by (intro exI [of _ v'] exI [of _ "[d]"]) (simp only: print_keys.simps key_bytes_append, simp)
next
  case (3 k k' ks)
  obtain v1 where v1: "key_bytes (print_key k) v = Some v1" "key_at v1 False True (int (fst k)) (snd k) c"
    using key_one [OF "3.prems"(1), of k] "3.prems"(3) by auto
  obtain v2 d where v2: "DCUserKey 0x3B v1 = Some v2" "key_at v2 True True 0 (snd k) (c @ [d])" "key_call k d"
    using key_semicolon [OF v1(2)] by blast
  obtain v' ds where "key_bytes (print_keys (k' # ks) @ [0x1B, 0x5C]) v2 = Some v'" "calls v' = (c @ [d]) @ ds"
      "list_all2 key_call (k' # ks) ds" "ParseMode v' = ModeFirst" "\<not> ESCFlag v'"
    using "3.IH" [OF v2(2)] "3.prems"(3) by auto
  then show ?case using v1(1) v2(1,3)
    by (intro exI [of _ v'] exI [of _ "d # ds"]) (simp add: key_bytes_append del: print_keys.simps add: print_keys.simps(3))
qed simp

text \<open>
  C33. The string of a DECUDK sequence, from the byte behind the command to the terminator: every
  key with a number of at most four digits and at most 32 bytes is defined, in order, with
  exactly the bytes the host has written in hexadecimal.
\<close>

theorem DCUserKey_roundtrip:
  assumes "WaitKeyId v" "NewKeyId v = 0" "\<not> ESCFlag v" "KeyUtf8 v = 0" "length (NewKeyStr v) = 32"
    "ks \<noteq> []" "\<forall>k\<in>set ks. fst k < 10000 \<and> length (snd k) \<le> 32"
  shows "\<exists>v' ds. key_bytes (print_keys ks @ [0x1B, 0x5C]) v = Some v' \<and> calls v' = calls v @ ds \<and> list_all2 key_call ks ds \<and>
    ParseMode v' = ModeFirst"
proof -
  have "key_at v True (WaitHi v) 0 [] (calls v)" using assms by (simp add: key_at_def)
  from keys_all [OF this assms(6,7)] show ?thesis by blast
qed

theorem DCUserKey_roundtrip_witness:
  "\<exists>v' ds. key_bytes (print_keys [(17, [0x6C, 0x73, 0x0D]), (34, [])] @ [0x1B, 0x5C]) (sample_vt\<lparr>WaitKeyId := True\<rparr>) = Some v' \<and>
    calls v' = ds \<and> list_all2 key_call [(17, [0x6C, 0x73, 0x0D]), (34, [])] ds"
proof -
  let ?v = "sample_vt\<lparr>WaitKeyId := True\<rparr>"
  have v: "WaitKeyId ?v" "NewKeyId ?v = 0" "\<not> ESCFlag ?v" "KeyUtf8 ?v = 0" "length (NewKeyStr ?v) = 32" "calls ?v = []"
    by (simp_all add: sample_vt_def)
  have "[(17, [0x6C, 0x73, 0x0D]), (34, [])] \<noteq> ([] :: (nat \<times> u8 list) list)"
    "\<forall>k\<in>set [(17, [0x6C, 0x73, 0x0D]), (34, [] :: u8 list)]. fst k < (10000 :: nat) \<and> length (snd k) \<le> 32" by simp_all
  from DCUserKey_roundtrip [OF v(1-5) this] show ?thesis unfolding v(6) by auto
qed

subsection \<open>Device control strings\<close>

definition dcs_at :: "vt \<Rightarrow> u8 list \<Rightarrow> bool" where
  "dcs_at v t \<longleftrightarrow> \<not> DcsFirst v \<and> \<not> ESCFlag v \<and> DcsUtf8 v = 0 \<and> length (DcsStrBuff v) = 256 \<and> length t \<le> 255 \<and>
     DcsStrLen v = int (length t) \<and> take (length t) (DcsStrBuff v) = t"

definition dcs_byte :: "u8 \<Rightarrow> bool" where
  "dcs_byte b \<longleftrightarrow> 0x20 \<le> b \<and> b < 0x80 \<or> b = 9 \<or> b = 0x0D"

lemma dcs_step:
  assumes "dcs_at v t" "dcs_byte b"
  shows "\<exists>v'. DeviceControl X Z U b (w, v) = Some (w, v') \<and> dcs_at v' (take 255 (t @ [b])) \<and> scr v' = scr v \<and> DcsCmd v' = DcsCmd v"
proof -
  have d: "\<not> DcsFirst v" "\<not> ESCFlag v" "DcsUtf8 v = 0" "length (DcsStrBuff v) = 256" "length t \<le> 255"
    "DcsStrLen v = int (length t)" "take (length t) (DcsStrBuff v) = t" using assms(1) by (simp_all add: dcs_at_def)
  have b: "b \<noteq> 0x9C" "b \<noteq> 0x1b" "\<not> (b \<le> 0x1f \<and> b \<noteq> 9 \<and> b \<noteq> 0x0D)" "b < 0xc0"
    using assms(2) by (auto simp: dcs_byte_def byte_order)
  have e: "(if b \<le> 0x1f \<and> b \<noteq> 9 \<and> b \<noteq> 0x0D then x else y) = y" for x y :: "vterm option"
    using b(3) by auto
  have u: "\<not> string_end b (DcsUtf8 v) v" "CheckUTF8Seq (KanjiCode (tts v)) b (DcsUtf8 v) = 0"
    using b d by (auto simp: string_end_def CheckUTF8Seq_def)
  show ?thesis
  proof (cases "length t < 255")
    case True
    let ?v = "v\<lparr>ESCFlag := False, DcsUtf8 := 0, DcsStrBuff := (DcsStrBuff v)[length t := b], DcsStrLen := int (length t) + 1\<rparr>"
    have "DeviceControl X Z U b (w, v) = Some (w, ?v)"
      using u b(2) d True by (simp add: DeviceControl_def wr_def in_arr_def Let_def e)
    moreover have "dcs_at ?v (t @ [b])"
      using d True take_update_last [of "length t" "DcsStrBuff v" b] by (simp add: dcs_at_def)
    ultimately show ?thesis using True by (intro exI [of _ ?v]) simp
  next
    case False
    let ?v = "v\<lparr>ESCFlag := False, DcsUtf8 := 0\<rparr>"
    have "DeviceControl X Z U b (w, v) = Some (w, ?v)" using u b(2) d False by (simp add: DeviceControl_def Let_def e)
    moreover have "dcs_at ?v t" "take 255 (t @ [b]) = t" using d False by (simp_all add: dcs_at_def)
    ultimately show ?thesis by (intro exI [of _ ?v]) simp
  qed
qed

lemma dcs_steps:
  assumes "dcs_at v t" "\<forall>b\<in>set s. dcs_byte b"
  shows "\<exists>v'. run_bytes (DeviceControl X Z U) s (w, v) = Some (w, v') \<and> dcs_at v' (take 255 (t @ s)) \<and> scr v' = scr v \<and> DcsCmd v' = DcsCmd v"
  using assms
proof (induction s arbitrary: v t)
  case Nil
  then have "take 255 t = t" by (simp add: dcs_at_def)
  then show ?case using Nil by simp
next
  case (Cons b s)
  obtain v1 where v1: "DeviceControl X Z U b (w, v) = Some (w, v1)" "dcs_at v1 (take 255 (t @ [b]))" "scr v1 = scr v" "DcsCmd v1 = DcsCmd v"
    using dcs_step [OF Cons.prems(1)] Cons.prems(2) by fastforce
  have "take 255 (take 255 (t @ [b]) @ s) = take 255 (t @ b # s)" by (cases "length t < 255") simp_all
  then show ?case using Cons.IH [OF v1(2)] Cons.prems(2) v1 by auto
qed

text \<open>
  C34. However long a device control string is, it stays inside its buffer of 256 bytes: the
  command is run with the first 255 bytes, a terminating 0 behind them and their number, and
  afterwards the collection starts again from the beginning.
\<close>

theorem DeviceControl_collects:
  assumes "\<not> DcsFirst v" "\<not> ESCFlag v" "DcsUtf8 v = 0" "length (DcsStrBuff v) = 256" "DcsStrLen v = 0" "\<forall>b\<in>set s. dcs_byte b"
  shows "\<exists>buf v'. run_bytes (DeviceControl X Z U) (s @ [0x1B, 0x5C]) (w, v) =
      do { (w, v) \<leftarrow> ParseDCS Z (DcsCmd v) buf (min 255 (int (length s))) (w, v');
           Some (w, v\<lparr>ESCFlag := False, ParseMode := ModeFirst, DcsFirst := True, DcsStrLen := 0, DcsUtf8 := 0\<rparr>) } \<and>
    length buf = 256 \<and> take (length s) (take 255 buf) = take 255 s \<and> buf ! min 255 (length s) = 0 \<and> scr v' = scr v"
proof -
  have "dcs_at v []" using assms by (simp add: dcs_at_def)
  from dcs_steps [OF this assms(6), where X = X and Z = Z and U = U and w = w]
  obtain v1 where v1: "run_bytes (DeviceControl X Z U) s (w, v) = Some (w, v1)" "dcs_at v1 (take 255 s)" "scr v1 = scr v" "DcsCmd v1 = DcsCmd v"
    by auto
  let ?n = "length (take 255 s)"
  have d: "\<not> DcsFirst v1" "\<not> ESCFlag v1" "DcsUtf8 v1 = 0" "length (DcsStrBuff v1) = 256" "DcsStrLen v1 = int ?n"
    "take ?n (DcsStrBuff v1) = take 255 s" using v1(2) by (simp_all add: dcs_at_def)
  let ?b = "(DcsStrBuff v1)[?n := 0]" and ?v2 = "v1\<lparr>ESCFlag := True, DcsUtf8 := 0\<rparr>"
  have n: "?n = min 255 (length s)" "int ?n = min 255 (int (length s))" by auto
  have end0: "run_bytes f [] = Some" for f by (rule ext) simp
  have "DeviceControl X Z U 0x1B (w, v1) = Some (w, ?v2)" using d by (simp add: DeviceControl_def string_end_def)
  moreover have "wr (DcsStrBuff ?v2) (DcsStrLen ?v2) 0 = Some ?b" using d(4,5) by (simp add: wr_def in_arr_def)
  then have "DeviceControl X Z U 0x5C (w, ?v2) =
      do { (w, v) \<leftarrow> ParseDCS Z (DcsCmd v) ?b (int ?n) (w, ?v2\<lparr>DcsStrBuff := ?b\<rparr>);
           Some (w, v\<lparr>ESCFlag := False, ParseMode := ModeFirst, DcsFirst := True, DcsStrLen := 0, DcsUtf8 := 0\<rparr>) }"
    using d v1(4) by (simp add: DeviceControl_def string_end_def)
  ultimately have "run_bytes (DeviceControl X Z U) (s @ [0x1B, 0x5C]) (w, v) =
      do { (w, v) \<leftarrow> ParseDCS Z (DcsCmd v) ?b (min 255 (int (length s))) (w, ?v2\<lparr>DcsStrBuff := ?b\<rparr>);
           Some (w, v\<lparr>ESCFlag := False, ParseMode := ModeFirst, DcsFirst := True, DcsStrLen := 0, DcsUtf8 := 0\<rparr>) }"
    using v1(1) end0 unfolding run_bytes_append n(2) by (simp add: case_prod_unfold)
  moreover have "take (length s) (take 255 ?b) = take 255 s" using d(4,6) by (simp add: n(1) min.commute)
  moreover have "?b ! min 255 (length s) = 0" using d(4) by (simp add: n(1) min.commute [of 255])
  ultimately show ?thesis using d(4) v1(3) by (intro exI [of _ ?b] exI [of _ "?v2\<lparr>DcsStrBuff := ?b\<rparr>"]) simp
qed

theorem DeviceControl_collects_witness:
  "\<forall>X Z U w. \<exists>buf v'. run_bytes (DeviceControl X Z U) ([0x24, 0x71, 0x6D] @ [0x1B, 0x5C]) (w, sample_vt\<lparr>DcsFirst := False\<rparr>) =
      do { (w, v) \<leftarrow> ParseDCS Z 0 buf 3 (w, v');
           Some (w, v\<lparr>ESCFlag := False, ParseMode := ModeFirst, DcsFirst := True, DcsStrLen := 0, DcsUtf8 := 0\<rparr>) } \<and>
    buf ! 3 = 0"
proof (intro allI)
  fix X :: vt_ext and Z :: str_ext and U w
  let ?v = "sample_vt\<lparr>DcsFirst := False\<rparr>"
  have v: "\<not> DcsFirst ?v" "\<not> ESCFlag ?v" "DcsUtf8 ?v = 0" "length (DcsStrBuff ?v) = 256" "DcsStrLen ?v = 0" "DcsCmd ?v = 0"
    by (simp_all add: sample_vt_def)
  have "\<forall>b\<in>set [0x24, 0x71, 0x6D]. dcs_byte b" by (simp add: dcs_byte_def byte_order)
  from DeviceControl_collects [OF v(1-5) this, where X = X and Z = Z and U = U and w = w]
  show "\<exists>buf v'. run_bytes (DeviceControl X Z U) ([0x24, 0x71, 0x6D] @ [0x1B, 0x5C]) (w, ?v) =
      do { (w, v) \<leftarrow> ParseDCS Z 0 buf 3 (w, v');
           Some (w, v\<lparr>ESCFlag := False, ParseMode := ModeFirst, DcsFirst := True, DcsStrLen := 0, DcsUtf8 := 0\<rparr>) } \<and>
    buf ! 3 = 0"
    unfolding v(6) by (elim exE conjE) (simp add: eval_nat_numeral, blast)
qed

end
