(* ===== verification/Xmodem.thy ===== *)
theory Xmodem
  imports CommBuff
begin

section \<open>The XMODEM protocol (teraterm/ttpfile/xmodem.c, ftlib.c)\<close>

text \<open>
  Sender and receiver of XMODEM with its four variants. The code reaches the connection
  through the function table \<open>TComm\<close>, the file through \<open>TFileIO\<close>; here the connection is a
  state of type \<open>'c\<close> with the table \<open>comm_op\<close>, and the file is the list of bytes still to be
  read or those written so far. The timer and the success flag are fields. The progress
  dialog and the protocol log, which nothing reads, are left out. \<open>None\<close> is an access outside a
  packet buffer, or a loop that the connection keeps running.
\<close>

subsection \<open>Check sums\<close>

definition crc_shift :: "u16 \<Rightarrow> u16" where
  "crc_shift c = (if c AND 0x8000 \<noteq> 0 then push_bit 1 c XOR 0x1021 else push_bit 1 c)"

definition UpdateCRC :: "u8 \<Rightarrow> u16 \<Rightarrow> u16" where
  "UpdateCRC b c = (crc_shift ^^ 8) (c XOR push_bit 8 (ucast b))"

subsection \<open>State\<close>

definition SOH :: u8 where "SOH = 0x01"
definition STX :: u8 where "STX = 0x02"
definition EOT :: u8 where "EOT = 0x04"
definition ACK :: u8 where "ACK = 0x06"
definition NAK :: u8 where "NAK = 0x15"
definition CAN :: u8 where "CAN = 0x18"
definition cC :: u8 where "cC = 0x43"

definition IdXReceive :: int where "IdXReceive = 1"
definition IdXSend :: int where "IdXSend = 2"

datatype xopt = XoptCheck | XoptCRC | Xopt1kCRC | Xopt1kCksum

datatype PKT_READ_MODE = XpktSOH | XpktBLK | XpktBLK2 | XpktDATA

datatype NAK_MODE = XnakNAK | XnakC

datatype xstate = STATE_FLUSH | STATE_NORMAL | STATE_CANCELED

record 'c comm_op =
  Read1Byte :: "'c \<Rightarrow> ('c \<times> u8 option) option"
  BinaryOut :: "u8 list \<Rightarrow> 'c \<Rightarrow> ('c \<times> int) option"
  FlashReceiveBuf :: "'c \<Rightarrow> 'c"
  CvReady :: "'c \<Rightarrow> bool"

record 'c xvar =
  PktIn :: "u8 list"
  PktOut :: "u8 list"
  PktBufCount :: int
  PktBufPtr :: int
  PktNum :: u8
  PktNumSent :: u8
  PktNumOffset :: int
  PktReadMode :: PKT_READ_MODE
  XMode :: int
  XOpt :: xopt
  TextFlagConvertCRLF :: bool
  TextFlagTrim1A :: bool
  NAKMode :: NAK_MODE
  NAKCount :: int
  DataLen :: int
  CheckLen :: int
  CRRecv :: bool
  TOutShort :: int
  TOutLong :: int
  TOutInit :: int
  TOutInitCRC :: int
  TOutVLong :: int
  CANCount :: int
  FileOpen :: bool
  ByteCount :: int
  xphase :: xstate
  isXCancel :: bool
  Comm :: 'c
  infile :: "u8 list"
  outfile :: "u8 list"
  Success :: bool
  timer :: int
  ProtoEnded :: bool

subsection \<open>The connection\<close>

definition XRead1Byte :: "'c comm_op \<Rightarrow> 'c xvar \<Rightarrow> ('c xvar \<times> u8 option) option" where
  "XRead1Byte op xv = do { (c, r) \<leftarrow> Read1Byte op (Comm xv); Some (xv\<lparr>Comm := c\<rparr>, r) }"

definition XWrite :: "'c comm_op \<Rightarrow> u8 list \<Rightarrow> 'c xvar \<Rightarrow> ('c xvar \<times> int) option" where
  "XWrite op B xv = do { (c, i) \<leftarrow> BinaryOut op B (Comm xv); Some (xv\<lparr>Comm := c\<rparr>, i) }"

definition xput :: "'c comm_op \<Rightarrow> u8 list \<Rightarrow> 'c xvar \<Rightarrow> 'c xvar option" where
  "xput op B xv = map_option fst (XWrite op B xv)"

partial_function (option) XFlushReceiveBuf :: "'c comm_op \<Rightarrow> 'c xvar \<Rightarrow> 'c xvar option" where
  "XFlushReceiveBuf op xv =
     do {
       (xv, r) \<leftarrow> XRead1Byte op xv;
       (case r of None \<Rightarrow> Some xv | Some b \<Rightarrow> XFlushReceiveBuf op xv)
     }"

definition flash :: "'c comm_op \<Rightarrow> 'c xvar \<Rightarrow> 'c xvar" where
  "flash op xv = xv\<lparr>Comm := FlashReceiveBuf op (Comm xv)\<rparr>"

definition FTSetTimeOut :: "int \<Rightarrow> 'c xvar \<Rightarrow> 'c xvar" where
  "FTSetTimeOut t xv = xv\<lparr>timer := t\<rparr>"

definition cancel_bytes :: "u8 list" where
  "cancel_bytes = [CAN, CAN, CAN, CAN, CAN, 8, 8, 8, 8, 8]"

definition XCancelNow :: "'c comm_op \<Rightarrow> 'c xvar \<Rightarrow> 'c xvar option" where
  "XCancelNow op xv =
     do {
       xv \<leftarrow> xput op cancel_bytes xv;
       let xv = xv\<lparr>xphase := STATE_CANCELED\<rparr>;
       Some (if \<not> CvReady op (Comm xv) then xv\<lparr>ProtoEnded := True\<rparr> else xv)
     }"

subsection \<open>Options and packets\<close>

definition XSetOpt :: "xopt \<Rightarrow> 'c xvar \<Rightarrow> 'c xvar" where
  "XSetOpt opt xv =
     (case opt of
        XoptCheck \<Rightarrow> xv\<lparr>XOpt := opt, DataLen := 128, CheckLen := 1\<rparr>
      | XoptCRC \<Rightarrow> xv\<lparr>XOpt := opt, DataLen := 128, CheckLen := 2\<rparr>
      | Xopt1kCRC \<Rightarrow> xv\<lparr>XOpt := opt, DataLen := 1024, CheckLen := 2\<rparr>
      | Xopt1kCksum \<Rightarrow> xv\<lparr>XOpt := opt, DataLen := 1024, CheckLen := 1\<rparr>)"

definition XSendNAK :: "'c comm_op \<Rightarrow> 'c xvar \<Rightarrow> 'c xvar option" where
  "XSendNAK op xv =
     (let xv = flash op xv; xv = xv\<lparr>NAKCount := NAKCount xv - 1\<rparr> in
      if NAKCount xv < 0 \<and> NAKMode xv \<noteq> XnakC then XCancelNow op xv
      else let
        xv = (if NAKCount xv < 0 then (XSetOpt XoptCheck xv)\<lparr>NAKMode := XnakNAK, NAKCount := 9\<rparr> else xv);
        (b, t) = (if NAKMode xv = XnakNAK
                  then (NAK, if PktNum xv = 0 \<and> PktNumOffset xv = 0 then TOutInit xv else TOutLong xv)
                  else (cC, TOutInitCRC xv))
      in do {
        xv \<leftarrow> xput op [b] xv;
        Some (FTSetTimeOut t (xv\<lparr>PktReadMode := XpktSOH\<rparr>))
      })"

fun check_loop :: "(u8 \<Rightarrow> u16 \<Rightarrow> u16) \<Rightarrow> u8 list \<Rightarrow> int \<Rightarrow> nat \<Rightarrow> u16 \<Rightarrow> u16 option" where
  "check_loop f P i 0 c = Some c"
| "check_loop f P i (Suc n) c = do { b \<leftarrow> rd P (3 + i); check_loop f P (i + 1) n (f b c) }"

definition XCalcCheck :: "u8 list \<Rightarrow> 'c xvar \<Rightarrow> u16 option" where
  "XCalcCheck P xv =
     (if CheckLen xv = 1
      then map_option (\<lambda>c. c AND 0xff) (check_loop (\<lambda>b c. c + ucast b) P 0 (nat (DataLen xv)) 0)
      else check_loop UpdateCRC P 0 (nat (DataLen xv)) 0)"

definition HIBYTE :: "u16 \<Rightarrow> u8" where "HIBYTE w = ucast (drop_bit 8 w)"
definition LOBYTE :: "u16 \<Rightarrow> u8" where "LOBYTE w = ucast w"

definition XCheckPacket :: "'c xvar \<Rightarrow> bool option" where
  "XCheckPacket xv =
     do {
       c \<leftarrow> XCalcCheck (PktIn xv) xv;
       p \<leftarrow> rd (PktIn xv) (DataLen xv + 3);
       if CheckLen xv = 1 then Some (ucast c = p)
       else if HIBYTE c = p
         then do { q \<leftarrow> rd (PktIn xv) (DataLen xv + 4); Some (LOBYTE c = q) }
         else Some False
     }"

subsection \<open>Start, cancel, time-out\<close>

record xset =
  XmodemTimeOutInit :: int
  XmodemTimeOutInitCRC :: int
  XmodemTimeOutShort :: int
  XmodemTimeOutLong :: int
  XmodemTimeOutVLong :: int
  XModemRcvCommand :: "u8 list"
  PortTCPIP :: bool

text \<open>
  \<open>found\<close> is the content of the file to send, \<open>None\<close> if it cannot be opened (or, when
  receiving, created); \<open>name\<close> its name as \<open>GetSendFilename\<close> gives it.
\<close>

definition XInit :: "'c comm_op \<Rightarrow> xset \<Rightarrow> u8 list option \<Rightarrow> u8 list \<Rightarrow> 'c xvar \<Rightarrow> ('c xvar \<times> bool) option" where
  "XInit op T found name xv =
     (case found of
        None \<Rightarrow> Some (xv\<lparr>FileOpen := False\<rparr>, False)
      | Some data \<Rightarrow>
          if XMode xv = IdXSend \<and> int (length data) > 0x7FFFFFFF
          then Some (xv\<lparr>FileOpen := True, infile := data\<rparr>, False)
          else do {
            xv \<leftarrow> (if XMode xv = IdXSend then XFlushReceiveBuf op (xv\<lparr>FileOpen := True, infile := data\<rparr>)
                   else Some (xv\<lparr>FileOpen := True, outfile := []\<rparr>));
            let xv = xv\<lparr>PktNumOffset := 0, PktNum := 0, PktNumSent := 0, PktBufCount := 0, CRRecv := False,
              CANCount := 0, ByteCount := 0, TOutInit := XmodemTimeOutInit T,
              TOutInitCRC := XmodemTimeOutInitCRC T, TOutVLong := XmodemTimeOutVLong T,
              TOutShort := (if PortTCPIP T then XmodemTimeOutVLong T else XmodemTimeOutShort T),
              TOutLong := (if PortTCPIP T then XmodemTimeOutVLong T else XmodemTimeOutLong T)\<rparr>;
            let xv = XSetOpt (XOpt xv) xv;
            let xv = (if XOpt xv = XoptCheck \<or> XOpt xv = Xopt1kCksum
                      then xv\<lparr>NAKMode := XnakNAK, NAKCount := 10\<rparr>
                      else xv\<lparr>NAKMode := XnakC, NAKCount := 3\<rparr>);
            xv \<leftarrow> (if XMode xv = IdXSend
                   then do {
                     xv \<leftarrow> (if XModemRcvCommand T \<noteq> []
                            then xput op (take 269 (XModemRcvCommand T @ [0x20] @ name @ [0x0D])) xv
                            else Some xv);
                     Some (FTSetTimeOut (TOutVLong xv) xv)
                   }
                   else if XMode xv = IdXReceive then XSendNAK op xv
                   else Some xv);
            Some (xv\<lparr>xphase := STATE_FLUSH, isXCancel := False\<rparr>, True)
          })"

definition XCancel :: "'c comm_op \<Rightarrow> 'c xvar \<Rightarrow> 'c xvar option" where
  "XCancel op xv = (if XMode xv = IdXSend then Some (xv\<lparr>isXCancel := True\<rparr>) else XCancelNow op xv)"

definition XTimeOutProc :: "'c comm_op \<Rightarrow> 'c xvar \<Rightarrow> 'c xvar option" where
  "XTimeOutProc op xv =
     (if XMode xv = IdXSend then Some (xv\<lparr>xphase := STATE_CANCELED\<rparr>)
      else if XMode xv = IdXReceive then XSendNAK op xv
      else Some xv)"

subsection \<open>Receiving\<close>

text \<open>
  A loop body ends with a \<open>return\<close> of the function, or goes on with the flags of the loop;
  \<open>continue\<close> skips what is behind the \<open>switch\<close>.
\<close>

datatype 'a loop_end = Return bool | Next 'a

definition packet_start :: "'c comm_op \<Rightarrow> u8 \<Rightarrow> 'c xvar \<Rightarrow> ('c xvar \<times> bool loop_end) option" where
  "packet_start op b xv =
     (if b = SOH \<or> b = STX
      then do {
        P \<leftarrow> wr (PktIn xv) 0 b;
        let xv = xv\<lparr>PktIn := P, PktReadMode := XpktBLK\<rparr>;
        let xv =
          (if b = SOH
           then (if XOpt xv = Xopt1kCRC then XSetOpt XoptCRC xv
                 else if XOpt xv = Xopt1kCksum then XSetOpt XoptCheck xv else xv)
           else (if XOpt xv = XoptCRC then XSetOpt Xopt1kCRC xv
                 else if XOpt xv = XoptCheck then XSetOpt Xopt1kCksum xv else xv));
        Some ((FTSetTimeOut (TOutShort xv) xv)\<lparr>CANCount := 0\<rparr>, Next False)
      }
      else if b = EOT
      then do { xv \<leftarrow> xput op [ACK] (xv\<lparr>Success := True\<rparr>); Some (xv, Return False) }
      else if b = CAN
      then (let xv = xv\<lparr>CANCount := CANCount xv + 1\<rparr>
            in Some (xv, if CANCount xv \<le> 2 then Next False else Return False))
      else Some (flash op xv, Return True))"

definition packet_byte :: "'c comm_op \<Rightarrow> u8 \<Rightarrow> 'c xvar \<Rightarrow> ('c xvar \<times> bool loop_end) option" where
  "packet_byte op b xv =
     (case PktReadMode xv of
        XpktSOH \<Rightarrow> packet_start op b xv
      | XpktBLK \<Rightarrow>
          do {
            P \<leftarrow> wr (PktIn xv) 1 b;
            Some (FTSetTimeOut (TOutShort xv) (xv\<lparr>PktIn := P, PktReadMode := XpktBLK2\<rparr>), Next False)
          }
      | XpktBLK2 \<Rightarrow>
          do {
            P \<leftarrow> wr (PktIn xv) 2 b;
            n \<leftarrow> rd P 1;
            let xv = xv\<lparr>PktIn := P\<rparr>;
            if b XOR n = 0xff
            then Some (FTSetTimeOut (TOutShort xv) (xv\<lparr>PktBufPtr := 3,
                   PktBufCount := DataLen xv + CheckLen xv, PktReadMode := XpktDATA\<rparr>), Next False)
            else do { xv \<leftarrow> XSendNAK op xv; Some (xv, Next False) }
          }
      | XpktDATA \<Rightarrow>
          do {
            P \<leftarrow> wr (PktIn xv) (PktBufPtr xv) b;
            let xv = xv\<lparr>PktIn := P, PktBufPtr := PktBufPtr xv + 1, PktBufCount := PktBufCount xv - 1\<rparr>;
            if PktBufCount xv = 0
            then Some (FTSetTimeOut (TOutLong xv) (xv\<lparr>PktReadMode := XpktSOH\<rparr>), Next True)
            else Some (FTSetTimeOut (TOutShort xv) xv, Next False)
          })"

text \<open>
  The step of the loop reads before the flag is tested: when a packet is complete one more byte
  is taken from the connection.
\<close>

partial_function (option) packet_loop ::
  "'c comm_op \<Rightarrow> 'c xvar \<times> u8 option \<Rightarrow> bool \<Rightarrow> ('c xvar \<times> bool loop_end) option" where
  "packet_loop op p got =
     (case snd p of
        None \<Rightarrow> Some (fst p, Next got)
      | Some b \<Rightarrow>
          if got then Some (fst p, Next got)
          else do {
            (xv, e) \<leftarrow> packet_byte op b (fst p);
            (case e of
               Return v \<Rightarrow> Some (xv, Return v)
             | Next got \<Rightarrow> do { p \<leftarrow> XRead1Byte op xv; packet_loop op p got })
          })"

text \<open>Line ends: a CR or a LF alone becomes CR LF.\<close>

definition text_byte :: "u8 \<Rightarrow> 'c xvar \<Rightarrow> 'c xvar" where
  "text_byte b xv =
     (let xv = (if b = 0x0A \<and> \<not> CRRecv xv then xv\<lparr>outfile := outfile xv @ [0x0D]\<rparr> else xv);
          xv = (if CRRecv xv \<and> b \<noteq> 0x0A then xv\<lparr>outfile := outfile xv @ [0x0A]\<rparr> else xv)
      in xv\<lparr>CRRecv := (b = 0x0D), outfile := outfile xv @ [b]\<rparr>)"

definition write_text :: "u8 list \<Rightarrow> 'c xvar \<Rightarrow> 'c xvar" where
  "write_text bs xv = fold text_byte bs xv"

text \<open>\<open>while ((c > 0) && (PktIn[2 + c] == 0x1A)) c--;\<close>\<close>

fun trim_1A :: "u8 list \<Rightarrow> nat \<Rightarrow> nat option" where
  "trim_1A P 0 = Some 0"
| "trim_1A P (Suc c) = do { b \<leftarrow> rd P (2 + int (Suc c)); if b = 0x1A then trim_1A P c else Some (Suc c) }"

fun rd_run :: "u8 list \<Rightarrow> int \<Rightarrow> nat \<Rightarrow> u8 list option" where
  "rd_run P i 0 = Some []"
| "rd_run P i (Suc n) = do { b \<leftarrow> rd P i; bs \<leftarrow> rd_run P (i + 1) n; Some (b # bs) }"

definition take_packet :: "u8 \<Rightarrow> 'c xvar \<Rightarrow> 'c xvar option" where
  "take_packet n xv =
     do {
       let xv = xv\<lparr>PktNum := n, PktNumOffset := (if n = 0 then PktNumOffset xv + 256 else PktNumOffset xv)\<rparr>;
       c \<leftarrow> (if TextFlagTrim1A xv then trim_1A (PktIn xv) (nat (DataLen xv)) else Some (nat (DataLen xv)));
       bs \<leftarrow> rd_run (PktIn xv) 3 c;
       let xv = (if TextFlagConvertCRLF xv then write_text bs xv else xv\<lparr>outfile := outfile xv @ bs\<rparr>);
       Some (FTSetTimeOut (TOutLong xv) (xv\<lparr>ByteCount := ByteCount xv + int c\<rparr>))
     }"

definition packet_done :: "'c comm_op \<Rightarrow> 'c xvar \<Rightarrow> ('c xvar \<times> bool) option" where
  "packet_done op xv =
     do {
       n \<leftarrow> rd (PktIn xv) 1;
       if n = 0 \<and> PktNum xv = 0 \<and> PktNumOffset xv = 0
       then do {
         xv \<leftarrow> XSendNAK op (xv\<lparr>NAKCount := (if NAKMode xv = XnakNAK then 10 else 3)\<rparr>);
         Some (xv, True)
       }
       else do {
         good \<leftarrow> XCheckPacket xv;
         if \<not> good then do { xv \<leftarrow> XSendNAK op xv; Some (xv, True) }
         else if n - PktNum xv > 1 then do { xv \<leftarrow> XCancelNow op xv; Some (xv, False) }
         else do {
           let d = n - PktNum xv;
           xv \<leftarrow> xput op [ACK] xv;
           let xv = xv\<lparr>NAKMode := XnakNAK, NAKCount := 10\<rparr>;
           if d = 0 then Some (xv, True) else do { xv \<leftarrow> take_packet n xv; Some (xv, True) }
         }
       }
     }"

definition XReadPacket :: "'c comm_op \<Rightarrow> 'c xvar \<Rightarrow> ('c xvar \<times> bool) option" where
  "XReadPacket op xv =
     do {
       p \<leftarrow> XRead1Byte op xv;
       (xv, e) \<leftarrow> packet_loop op p False;
       (case e of
          Return v \<Rightarrow> Some (xv, v)
        | Next got \<Rightarrow> if got then packet_done op xv else Some (xv, True))
     }"

subsection \<open>Sending\<close>

definition answer_byte :: "u8 \<Rightarrow> 'c xvar \<Rightarrow> bool \<times> bool \<Rightarrow> 'c xvar \<times> (bool \<times> bool) loop_end" where
  "answer_byte b xv f =
     (let (send, seenC) = f;
          start = (PktNum xv = 0 \<and> PktNumOffset xv = 0 \<and> PktNumSent xv = 0)
      in if b = ACK
         then (if \<not> FileOpen xv then (xv\<lparr>Success := True\<rparr>, Return False)
               else if PktNumSent xv = PktNum xv + 1
               then (let xv = xv\<lparr>PktNum := PktNumSent xv\<rparr>;
                         xv = (if PktNum xv = 0 then xv\<lparr>PktNumOffset := PktNumOffset xv + 256\<rparr> else xv)
                     in (xv\<lparr>CANCount := 0\<rparr>, Next (True, seenC)))
               else (xv\<lparr>CANCount := 0\<rparr>, Next f))
         else if b = NAK
         then (let xv =
                 (if start \<and> \<not> seenC
                  then (if XOpt xv = XoptCRC then XSetOpt XoptCheck xv
                        else if XOpt xv = Xopt1kCRC then XSetOpt Xopt1kCksum xv else xv)
                  else xv)
               in (xv\<lparr>CANCount := 0\<rparr>, Next (True, seenC)))
         else if b = CAN
         then (let xv = xv\<lparr>CANCount := CANCount xv + 1\<rparr>
               in (xv, if CANCount xv \<le> 2 then Next f else Return False))
         else if b = cC \<and> start
         then (let xv =
                 (if XOpt xv = XoptCheck then XSetOpt XoptCRC xv
                  else if XOpt xv = Xopt1kCksum then XSetOpt Xopt1kCRC xv else xv)
               in (xv\<lparr>CANCount := 0\<rparr>, Next (True, True)))
         else (xv\<lparr>CANCount := 0\<rparr>, Next f))"

partial_function (option) answer_loop ::
  "'c comm_op \<Rightarrow> 'c xvar \<Rightarrow> bool \<times> bool \<Rightarrow> ('c xvar \<times> (bool \<times> bool) loop_end) option" where
  "answer_loop op xv f =
     do {
       (xv, r) \<leftarrow> XRead1Byte op xv;
       (case r of
          None \<Rightarrow> Some (xv, Next f)
        | Some b \<Rightarrow>
            (case answer_byte b xv f of
               (xv, Return v) \<Rightarrow> Some (xv, Return v)
             | (xv, Next f) \<Rightarrow> answer_loop op xv f))
     }"

text \<open>Bytes of the file into the packet from index \<open>2 + i\<close> on, and the padding behind them.\<close>

fun fill_packet :: "u8 list \<Rightarrow> int \<Rightarrow> int \<Rightarrow> u8 list \<Rightarrow> (u8 list \<times> int \<times> u8 list) option" where
  "fill_packet [] i n P = Some ([], i, P)"
| "fill_packet (b # bs) i n P =
     (if i \<le> n then do { P \<leftarrow> wr P (2 + i) b; fill_packet bs (i + 1) n P } else Some (b # bs, i, P))"

definition new_packet :: "'c xvar \<Rightarrow> 'c xvar option" where
  "new_packet xv =
     do {
       let xv = xv\<lparr>PktNumSent := PktNumSent xv + 1\<rparr>;
       P \<leftarrow> wr (PktOut xv) 0 (if DataLen xv = 128 then SOH else STX);
       P \<leftarrow> wr P 1 (PktNumSent xv);
       P \<leftarrow> wr P 2 (NOT (PktNumSent xv));
       (rest, i, P) \<leftarrow> (if FileOpen xv then fill_packet (infile xv) 1 (DataLen xv) P else Some (infile xv, 1, P));
       let xv = xv\<lparr>infile := rest, ByteCount := ByteCount xv + (i - 1)\<rparr>;
       if i > 1
       then do {
         P \<leftarrow> update_run (\<lambda>_. 0x1A) P (2 + i) (nat (DataLen xv - i + 1));
         c \<leftarrow> XCalcCheck P xv;
         P \<leftarrow> (if CheckLen xv = 1 then wr P (DataLen xv + 3) (ucast c)
               else do { P \<leftarrow> wr P (DataLen xv + 3) (HIBYTE c); wr P (DataLen xv + 4) (LOBYTE c) });
         Some (xv\<lparr>PktOut := P, PktBufCount := 3 + DataLen xv + CheckLen xv\<rparr>)
       }
       else do {
         P \<leftarrow> wr P 0 EOT;
         Some (xv\<lparr>FileOpen := False, PktOut := P, PktBufCount := 1\<rparr>)
       }
     }"

definition same_packet :: "'c xvar \<Rightarrow> 'c xvar option" where
  "same_packet xv =
     do {
       b \<leftarrow> rd (PktOut xv) 0;
       Some (xv\<lparr>PktBufCount := (if b = EOT then 1 else 3 + DataLen xv + CheckLen xv)\<rparr>)
     }"

text \<open>\<open>while ((PktBufCount > 0) && (i > 0))\<close>: the loop stops when the connection takes no byte.\<close>

fun write_loop :: "'c comm_op \<Rightarrow> nat \<Rightarrow> 'c xvar \<Rightarrow> 'c xvar option" where
  "write_loop op 0 xv = Some xv"
| "write_loop op (Suc n) xv =
     do {
       b \<leftarrow> rd (PktOut xv) (PktBufPtr xv);
       (xv, i) \<leftarrow> XWrite op [b] xv;
       if i > 0
       then write_loop op n (xv\<lparr>PktBufCount := PktBufCount xv - 1, PktBufPtr := PktBufPtr xv + 1\<rparr>)
       else Some xv
     }"

definition send_buffered :: "'c comm_op \<Rightarrow> 'c xvar \<Rightarrow> ('c xvar \<times> bool) option" where
  "send_buffered op xv =
     do {
       xv \<leftarrow> XFlushReceiveBuf op xv;
       xv \<leftarrow> write_loop op (nat (PktBufCount xv)) xv;
       Some (xv, True)
     }"

definition XSendPacket :: "'c comm_op \<Rightarrow> 'c xvar \<Rightarrow> ('c xvar \<times> bool) option" where
  "XSendPacket op xv =
     (if PktBufCount xv = 0
      then do {
        (xv, e) \<leftarrow> answer_loop op xv (False, False);
        (case e of
           Return v \<Rightarrow> Some (xv, v)
         | Next f \<Rightarrow>
             if isXCancel xv then do { xv \<leftarrow> XCancelNow op xv; Some (xv, False) }
             else if \<not> fst f then Some (xv, True)
             else do {
               xv \<leftarrow> XFlushReceiveBuf op (FTSetTimeOut (TOutVLong xv) xv);
               xv \<leftarrow> (if PktNumSent xv = PktNum xv then new_packet xv else same_packet xv);
               send_buffered op (xv\<lparr>PktBufPtr := 0\<rparr>)
             })
      }
      else send_buffered op xv)"

subsection \<open>The state machine\<close>

definition XParse :: "'c comm_op \<Rightarrow> 'c xvar \<Rightarrow> ('c xvar \<times> bool) option" where
  "XParse op xv =
     (case xphase xv of
        STATE_FLUSH \<Rightarrow>
          do { xv \<leftarrow> XFlushReceiveBuf op xv; Some (xv\<lparr>xphase := STATE_NORMAL\<rparr>, True) }
      | STATE_NORMAL \<Rightarrow>
          if XMode xv = IdXReceive then XReadPacket op xv
          else if XMode xv = IdXSend then XSendPacket op xv
          else Some (xv, False)
      | STATE_CANCELED \<Rightarrow> do { xv \<leftarrow> XFlushReceiveBuf op xv; Some (xv, False) })"

datatype x_request = XMODEM_MODE int | XMODEM_OPT xopt | XMODEM_TEXT_FLAG int

definition SetOptV :: "x_request \<Rightarrow> 'c xvar \<Rightarrow> 'c xvar" where
  "SetOptV q xv =
     (case q of
        XMODEM_MODE m \<Rightarrow> xv\<lparr>XMode := m\<rparr>
      | XMODEM_OPT t \<Rightarrow> xv\<lparr>XOpt := t\<rparr>
      | XMODEM_TEXT_FLAG n \<Rightarrow> xv\<lparr>TextFlagConvertCRLF := (n \<noteq> 0), TextFlagTrim1A := (n \<noteq> 0)\<rparr>)"

definition XCreate :: "'c \<Rightarrow> 'c xvar" where
  "XCreate c = \<lparr>PktIn = replicate 1030 0, PktOut = replicate 1030 0, PktBufCount = 0, PktBufPtr = 0,
     PktNum = 0, PktNumSent = 0, PktNumOffset = 0, PktReadMode = XpktSOH, XMode = 0, XOpt = XoptCRC,
     TextFlagConvertCRLF = False, TextFlagTrim1A = False, NAKMode = XnakNAK, NAKCount = 0, DataLen = 0,
     CheckLen = 0, CRRecv = False, TOutShort = 0, TOutLong = 0, TOutInit = 0, TOutInitCRC = 0,
     TOutVLong = 0, CANCount = 0, FileOpen = False, ByteCount = 0, xphase = STATE_FLUSH,
     isXCancel = False, Comm = c, infile = [], outfile = [], Success = False, timer = 0, ProtoEnded = False\<rparr>"

end
