(* ===== verification/XmodemFacts.thy ===== *)
theory XmodemFacts
  imports Xmodem
begin

section \<open>A file over XMODEM\<close>

text \<open>
  The two ends of a transfer on a serial line. The packets are first described as lists of
  bytes; then each end is a machine on messages (a packet, a control byte), whatever
  connection it runs on; then the two ends together, on a line that may lose messages.
\<close>

subsection \<open>Packets as lists\<close>

definition check_bytes :: "int \<Rightarrow> u8 list \<Rightarrow> u8 list" where
  "check_bytes k B =
     (if k = 1 then [ucast (fold (\<lambda>b c. c + ucast b) B (0 :: u16) AND 0xff)]
      else let c = fold UpdateCRC B 0 in [HIBYTE c, LOBYTE c])"

definition header :: "int \<Rightarrow> u8 \<Rightarrow> u8 list" where
  "header d n = [if d = 128 then SOH else STX, n, NOT n]"

definition mk_packet :: "int \<Rightarrow> int \<Rightarrow> u8 \<Rightarrow> u8 list \<Rightarrow> u8 list" where
  "mk_packet d k n B = header d n @ B @ check_bytes k B"

definition block :: "nat \<Rightarrow> u8 list \<Rightarrow> u8 list" where
  "block d W = take d W @ replicate (d - length W) 0x1A"

lemma length_block [simp]: "length (block d W) = d"
  by (simp add: block_def)

lemma length_header [simp]: "length (header d n) = 3"
  by (simp add: header_def)

lemma length_check_bytes: "length (check_bytes k B) = (if k = 1 then 1 else 2)"
  by (simp add: check_bytes_def Let_def)

lemma of_nat_u8_zero: "(of_nat k :: u8) = 0 \<longleftrightarrow> k mod 256 = 0"
  by (simp add: word_of_nat_eq_0_iff dvd_eq_mod_eq_0)

lemma rd_append: "rd (xs @ y # ys) (int (length xs)) = Some y"
  by (simp add: rd_def in_arr_def)

lemma wr_append: "wr (xs @ y # ys) (int (length xs)) z = Some (xs @ z # ys)"
  by (simp add: wr_def in_arr_def)

lemma wr_append_at: "int (length xs) = p \<Longrightarrow> wr (xs @ y # ys) p z = Some (xs @ z # ys)"
  using wr_append by auto

lemma rd_append_at: "int (length xs) = p \<Longrightarrow> rd (xs @ y # ys) p = Some y"
  using rd_append by auto

lemma check_loop_fold:
  "int (length xs) = 3 + i \<Longrightarrow> check_loop f (xs @ B @ ys) i (length B) c = Some (fold f B c)"
proof (induction B arbitrary: xs i c)
  case Nil
  then show ?case by simp
next
  case (Cons b B)
  have "rd (xs @ (b # B) @ ys) (3 + i) = Some b" using rd_append [of xs b "B @ ys"] Cons.prems by simp
  moreover have "check_loop f ((xs @ [b]) @ B @ ys) (i + 1) (length B) (f b c) = Some (fold f B (f b c))"
    using Cons.prems by (intro Cons.IH) simp
  ultimately show ?case by simp
qed

lemma XCalcCheck_block:
  assumes "length xs = 3" "DataLen xv = int (length B)"
  shows "XCalcCheck (xs @ B @ ys) xv =
    Some (if CheckLen xv = 1 then fold (\<lambda>b c. c + ucast b) B 0 AND 0xff else fold UpdateCRC B 0)"
  using check_loop_fold [of xs 0 _ B ys 0] assms by (simp add: XCalcCheck_def)

lemma fill_packet_eq:
  "int (length xs) = 2 + i \<Longrightarrow> int (length ys) \<ge> n - i + 1 \<Longrightarrow> i \<le> n + 1 \<Longrightarrow>
    fill_packet W i n (xs @ ys) =
      Some (drop (nat (n - i + 1)) W, i + int (min (nat (n - i + 1)) (length W)),
        xs @ take (nat (n - i + 1)) W @ drop (min (nat (n - i + 1)) (length W)) ys)"
proof (induction W arbitrary: xs ys i)
  case Nil
  then show ?case by simp
next
  case (Cons w W)
  show ?case
  proof (cases "i \<le> n")
    case True
    then obtain y ys' where ys: "ys = y # ys'" using Cons.prems(2) by (cases ys) auto
    have w: "wr (xs @ y # ys') (2 + i) w = Some (xs @ w # ys')"
      using wr_append [of xs y ys' w] Cons.prems(1) by simp
    have k: "nat (n - i + 1) = Suc (nat (n - (i + 1) + 1))" using True by simp
    have "fill_packet W (i + 1) n ((xs @ [w]) @ ys') =
        Some (drop (nat (n - (i + 1) + 1)) W, i + 1 + int (min (nat (n - (i + 1) + 1)) (length W)),
          (xs @ [w]) @ take (nat (n - (i + 1) + 1)) W @ drop (min (nat (n - (i + 1) + 1)) (length W)) ys')"
      using Cons.prems ys True by (intro Cons.IH) auto
    then show ?thesis using True w unfolding ys k by simp
  next
    case False
    then have "nat (n - i + 1) = 0" using Cons.prems(3) by simp
    then show ?thesis using False by simp
  qed
qed

lemma update_run_const:
  "int (length xs) = p \<Longrightarrow> n \<le> length ys \<Longrightarrow>
    update_run (\<lambda>_. a) (xs @ ys) p n = Some (xs @ replicate n a @ drop n ys)"
proof (induction n arbitrary: xs ys p)
  case 0
  then show ?case by simp
next
  case (Suc n)
  then obtain y ys' where ys: "ys = y # ys'" by (cases ys) auto
  have "rd (xs @ y # ys') p = Some y" "wr (xs @ y # ys') p a = Some (xs @ a # ys')"
    using rd_append [of xs y ys'] wr_append [of xs y ys' a] Suc.prems(1) by simp_all
  moreover have "update_run (\<lambda>_. a) ((xs @ [a]) @ ys') (p + 1) n = Some ((xs @ [a]) @ replicate n a @ drop n ys')"
    using Suc.prems ys by (intro Suc.IH) auto
  ultimately show ?case using ys by simp
qed

lemma three_elems: "3 \<le> length xs \<Longrightarrow> \<exists>a b c ys. xs = a # b # c # ys"
  by (cases xs; cases "tl xs"; cases "tl (tl xs)") auto

text \<open>What an option says about the packets.\<close>

definition opt_set :: "'c xvar \<Rightarrow> bool" where
  "opt_set xv \<longleftrightarrow> DataLen xv = (if XOpt xv = XoptCheck \<or> XOpt xv = XoptCRC then 128 else 1024) \<and>
     CheckLen xv = (if XOpt xv = XoptCheck \<or> XOpt xv = Xopt1kCksum then 1 else 2)"

lemma opt_setD: "opt_set xv \<Longrightarrow> (DataLen xv = 128 \<or> DataLen xv = 1024) \<and> (CheckLen xv = 1 \<or> CheckLen xv = 2)"
  by (auto simp: opt_set_def)

lemma opt_set_frame [simp]:
  "opt_set (s\<lparr>Comm := c\<rparr>) = opt_set s" "opt_set (s\<lparr>timer := n\<rparr>) = opt_set s"
  "opt_set (s\<lparr>PktBufCount := n\<rparr>) = opt_set s" "opt_set (s\<lparr>PktBufPtr := n\<rparr>) = opt_set s"
  "opt_set (s\<lparr>CANCount := n\<rparr>) = opt_set s" "opt_set (s\<lparr>PktNum := m\<rparr>) = opt_set s"
  "opt_set (s\<lparr>PktNumOffset := n\<rparr>) = opt_set s"
  by (simp_all add: opt_set_def)

lemma XSetOpt_set [simp]: "opt_set (XSetOpt opt xv)"
  by (cases opt) (simp_all add: XSetOpt_def opt_set_def)

text \<open>The next packet, and the end of the file.\<close>

lemma new_packet_data:
  assumes "opt_set xv" "length (PktOut xv) = 1030" "FileOpen xv" "infile xv \<noteq> []"
  defines "d \<equiv> nat (DataLen xv)"
  defines "B \<equiv> mk_packet (DataLen xv) (CheckLen xv) (PktNumSent xv + 1) (block d (infile xv))"
  shows "\<exists>P n. new_packet xv = Some (xv\<lparr>PktNumSent := PktNumSent xv + 1, infile := drop d (infile xv),
      ByteCount := n, PktOut := B @ P, PktBufCount := int (length B)\<rparr>) \<and> length (B @ P) = 1030"
proof -
  let ?n = "PktNumSent xv + 1"
  note o = opt_setD [OF assms(1)]
  have d: "DataLen xv = int d" "d = 128 \<or> d = 1024" using o by (auto simp: d_def)
  obtain h0 h1 h2 T where P: "PktOut xv = h0 # h1 # h2 # T" "length T = 1027"
    using three_elems [of "PktOut xv"] assms(2) by auto
  let ?H = "header (DataLen xv) ?n"
  let ?m = "min d (length (infile xv))"
  have H: "wr (PktOut xv) 0 (if DataLen xv = 128 then SOH else STX) = Some ((if DataLen xv = 128 then SOH else STX) # h1 # h2 # T)"
    "wr ((if DataLen xv = 128 then SOH else STX) # h1 # h2 # T) 1 ?n = Some ((if DataLen xv = 128 then SOH else STX) # ?n # h2 # T)"
    "wr ((if DataLen xv = 128 then SOH else STX) # ?n # h2 # T) 2 (NOT ?n) = Some (?H @ T)"
    by (simp_all add: P wr_def in_arr_def header_def numeral_2_eq_2)
  have fill: "fill_packet (infile xv) 1 (DataLen xv) (?H @ T) =
      Some (drop d (infile xv), 1 + int ?m, ?H @ take d (infile xv) @ drop ?m T)"
    using fill_packet_eq [of ?H 1 "DataLen xv" T "infile xv"] P(2) d by auto
  have m: "0 < ?m" using assms(4) d(2) by auto
  let ?B = "block d (infile xv)"
  let ?T = "drop d T"
  have run: "update_run (\<lambda>_. 0x1A) (?H @ take d (infile xv) @ drop ?m T) (2 + (1 + int ?m))
      (nat (DataLen xv - (1 + int ?m) + 1)) = Some (?H @ ?B @ ?T)"
  proof -
    have "nat (DataLen xv - (1 + int ?m) + 1) = d - length (infile xv)" using d by (auto simp: min_def)
    moreover have "update_run (\<lambda>_. 0x1A) ((?H @ take d (infile xv)) @ drop ?m T) (2 + (1 + int ?m)) (d - length (infile xv))
        = Some ((?H @ take d (infile xv)) @ replicate (d - length (infile xv)) 0x1A @ drop (d - length (infile xv)) (drop ?m T))"
      using P(2) d(2) by (intro update_run_const) auto
    moreover have "drop (d - length (infile xv)) (drop ?m T) = ?T" by (auto simp: min_def)
    ultimately show ?thesis by (simp add: block_def)
  qed
  obtain t0 t1 U where T: "?T = t0 # t1 # U" "length U = 1025 - d"
  proof -
    have "2 \<le> length ?T" using P(2) d(2) by auto
    then obtain t0 t1 U where u: "?T = t0 # t1 # U" by (cases ?T; cases "tl ?T") auto
    have "length ?T = 1027 - d" using P(2) by simp
    then have "length U = 1025 - d" using u by simp
    then show thesis using that u by blast
  qed
  define c where "c = (if CheckLen xv = 1 then fold (\<lambda>b c. c + ucast b) ?B 0 AND 0xff else fold UpdateCRC ?B (0 :: u16))"
  let ?xv = "xv\<lparr>PktNumSent := ?n, infile := drop d (infile xv), ByteCount := ByteCount xv + (1 + int ?m - 1)\<rparr>"
  have chk: "XCalcCheck (?H @ ?B @ ?T) ?xv = Some c"
    using XCalcCheck_block [of ?H ?xv ?B ?T] d unfolding c_def by simp
  let ?X = "?H @ ?B"
  have lX: "int (length ?X) = DataLen xv + 3" using d by simp
  show ?thesis
  proof (cases "CheckLen xv = 1")
    case True
    have w: "wr (?H @ ?B @ ?T) (DataLen xv + 3) (ucast c) = Some (?X @ ucast c # t1 # U)"
      using wr_append_at [OF lX, of t0 "t1 # U" "ucast c"] T(1) by simp
    have B: "B @ t1 # U = ?X @ ucast c # t1 # U" using True by (simp add: B_def mk_packet_def check_bytes_def c_def)
    have lB: "int (length B) = 3 + DataLen xv + CheckLen xv" using True d by (simp add: B_def mk_packet_def check_bytes_def)
    show ?thesis
      using H fill run chk w m assms(3) True lB T(2) d(2)
      by (intro exI [of _ "t1 # U"] exI [of _ "ByteCount xv + (1 + int ?m - 1)"])
        (auto simp: new_packet_def Let_def B)
  next
    case False
    then have k: "CheckLen xv = 2" using o by auto
    have w: "wr (?H @ ?B @ ?T) (DataLen xv + 3) (HIBYTE c) = Some (?X @ HIBYTE c # t1 # U)"
      using wr_append_at [OF lX, of t0 "t1 # U" "HIBYTE c"] T(1) by simp
    have w2: "wr (?X @ HIBYTE c # t1 # U) (DataLen xv + 4) (LOBYTE c) = Some (?X @ HIBYTE c # LOBYTE c # U)"
      using wr_append_at [of "?X @ [HIBYTE c]" "DataLen xv + 4" t1 U "LOBYTE c"] lX by simp
    have B: "B @ U = ?X @ HIBYTE c # LOBYTE c # U" using False by (simp add: B_def mk_packet_def check_bytes_def c_def Let_def)
    have lB: "int (length B) = 3 + DataLen xv + CheckLen xv" using k d by (simp add: B_def mk_packet_def check_bytes_def Let_def)
    show ?thesis
      using H fill run chk w w2 m assms(3) k lB T(2) d(2)
      by (intro exI [of _ U] exI [of _ "ByteCount xv + (1 + int ?m - 1)"])
        (auto simp: new_packet_def Let_def B)
  qed
qed

lemma new_packet_EOT:
  assumes "length (PktOut xv) = 1030" "FileOpen xv" "infile xv = []"
  shows "\<exists>P. new_packet xv = Some (xv\<lparr>PktNumSent := PktNumSent xv + 1, FileOpen := False, PktOut := EOT # P,
      PktBufCount := 1\<rparr>) \<and> length (EOT # P) = 1030"
proof -
  obtain a b c T where P: "PktOut xv = a # b # c # T" using three_elems [of "PktOut xv"] assms(1) by auto
  show ?thesis using assms
    by (intro exI [of _ "(PktNumSent xv + 1) # NOT (PktNumSent xv + 1) # T"])
      (simp add: new_packet_def P wr_def in_arr_def numeral_2_eq_2)
qed

subsection \<open>What the receiver makes of a packet\<close>

text \<open>The first byte of a packet chooses between the variants with 128 and with 1024 bytes.\<close>

definition adapt :: "int \<Rightarrow> 'c xvar \<Rightarrow> 'c xvar" where
  "adapt d xv =
     (if d = 128
      then (if XOpt xv = Xopt1kCRC then XSetOpt XoptCRC xv
            else if XOpt xv = Xopt1kCksum then XSetOpt XoptCheck xv else xv)
      else (if XOpt xv = XoptCRC then XSetOpt Xopt1kCRC xv
            else if XOpt xv = XoptCheck then XSetOpt Xopt1kCksum xv else xv))"

definition adapt_opt :: "int \<Rightarrow> int \<Rightarrow> xopt" where
  "adapt_opt d k = (if d = 128 then (if k = 1 then XoptCheck else XoptCRC) else (if k = 1 then Xopt1kCksum else Xopt1kCRC))"

lemma xvar_same: "XOpt xv = opt \<Longrightarrow> DataLen xv = d \<Longrightarrow> xv\<lparr>XOpt := opt, DataLen := d\<rparr> = xv"
  by (cases xv) simp

lemma xvar_same_check: "CheckLen xv = k \<Longrightarrow> xv\<lparr>XOpt := opt, DataLen := d, CheckLen := k\<rparr> = xv\<lparr>XOpt := opt, DataLen := d\<rparr>"
  by (cases xv) simp

lemma adapt_eq:
  assumes "opt_set xv" "d = 128 \<or> d = 1024"
  shows "adapt d xv = xv\<lparr>XOpt := adapt_opt d (CheckLen xv), DataLen := d\<rparr>"
proof (cases "XOpt xv")
  case XoptCheck
  then have "DataLen xv = 128" "CheckLen xv = 1" using assms(1) by (simp_all add: opt_set_def)
  then show ?thesis using assms(2) XoptCheck
    by (elim disjE) (simp_all add: adapt_def adapt_opt_def XSetOpt_def xvar_same xvar_same_check)
next
  case XoptCRC
  then have "DataLen xv = 128" "CheckLen xv = 2" using assms(1) by (simp_all add: opt_set_def)
  then show ?thesis using assms(2) XoptCRC
    by (elim disjE) (simp_all add: adapt_def adapt_opt_def XSetOpt_def xvar_same xvar_same_check)
next
  case Xopt1kCRC
  then have "DataLen xv = 1024" "CheckLen xv = 2" using assms(1) by (simp_all add: opt_set_def)
  then show ?thesis using assms(2) Xopt1kCRC
    by (elim disjE) (simp_all add: adapt_def adapt_opt_def XSetOpt_def xvar_same xvar_same_check)
next
  case Xopt1kCksum
  then have "DataLen xv = 1024" "CheckLen xv = 1" using assms(1) by (simp_all add: opt_set_def)
  then show ?thesis using assms(2) Xopt1kCksum
    by (elim disjE) (simp_all add: adapt_def adapt_opt_def XSetOpt_def xvar_same xvar_same_check)
qed

lemma opt_set_adapt:
  "opt_set xv \<Longrightarrow> d = 128 \<or> d = 1024 \<Longrightarrow> XOpt yv = adapt_opt d (CheckLen xv) \<Longrightarrow> DataLen yv = d \<Longrightarrow>
    CheckLen yv = CheckLen xv \<Longrightarrow> opt_set yv"
  using opt_setD [of xv] by (auto simp: opt_set_def adapt_opt_def)

lemma packet_start_packet:
  assumes "h = (if d = 128 then SOH else STX)"
  shows "packet_start op h xv = do {
      P \<leftarrow> wr (PktIn xv) 0 h;
      let yv = adapt d (xv\<lparr>PktIn := P, PktReadMode := XpktBLK\<rparr>);
      Some ((FTSetTimeOut (TOutShort yv) yv)\<lparr>CANCount := 0\<rparr>, Next False)
    }"
proof (cases "d = 128")
  case True
  then show ?thesis using assms by (simp add: packet_start_def adapt_def SOH_def Let_def)
next
  case False
  then show ?thesis using assms by (simp add: packet_start_def adapt_def SOH_def STX_def Let_def)
qed

lemma rd_run_append: "int (length xs) = i \<Longrightarrow> rd_run (xs @ B @ ys) i (length B) = Some B"
proof (induction B arbitrary: xs i)
  case Nil
  then show ?case by simp
next
  case (Cons b B)
  have "rd (xs @ b # B @ ys) i = Some b" using rd_append [of xs b "B @ ys"] Cons.prems by simp
  then show ?case using Cons.IH [of "xs @ [b]" "i + 1"] Cons.prems by simp
qed

lemma XCheckPacket_eq:
  assumes "opt_set xv" "PktIn xv = header d n @ B @ cs @ T" "DataLen xv = int (length B)"
    "int (length cs) = CheckLen xv"
  shows "XCheckPacket xv = Some (cs = check_bytes (CheckLen xv) B)"
proof -
  have c: "XCalcCheck (PktIn xv) xv =
      Some (if CheckLen xv = 1 then fold (\<lambda>b c. c + ucast b) B 0 AND 0xff else fold UpdateCRC B 0)"
    using XCalcCheck_block [of "header d n" xv B "cs @ T"] assms(2,3) by simp
  let ?X = "header d n @ B"
  have l: "int (length ?X) = DataLen xv + 3" using assms(3) by simp
  show ?thesis
  proof (cases "CheckLen xv = 1")
    case True
    then obtain p where p: "cs = [p]" using assms(4) by (cases cs) auto
    then have "rd (PktIn xv) (DataLen xv + 3) = Some p" using rd_append_at [OF l, of p T] assms(2) by simp
    then show ?thesis using True c p by (auto simp: XCheckPacket_def check_bytes_def)
  next
    case False
    then have "length cs = 2" using opt_setD [OF assms(1)] assms(4) by auto
    then obtain p q where p: "cs = [p, q]" by (cases cs; cases "tl cs") auto
    have "rd (PktIn xv) (DataLen xv + 3) = Some p" using rd_append_at [OF l, of p "q # T"] assms(2) p by simp
    moreover have "rd (PktIn xv) (DataLen xv + 4) = Some q"
      using rd_append_at [of "?X @ [p]" "DataLen xv + 4" q T] l assms(2) p by simp
    ultimately show ?thesis using False c p by (auto simp: XCheckPacket_def check_bytes_def Let_def)
  qed
qed

lemma not_first:
  assumes "PktNum w = of_nat k" "PktNumOffset w = 256 * int (k div 256)" "m = k \<or> m = Suc k" "0 < m"
  shows "\<not> ((of_nat m :: u8) = 0 \<and> PktNum w = 0 \<and> PktNumOffset w = 0)"
proof
  assume z: "(of_nat m :: u8) = 0 \<and> PktNum w = 0 \<and> PktNumOffset w = 0"
  have "m mod 256 = 0" "k mod 256 = 0" using z unfolding assms(1) of_nat_u8_zero by blast+
  moreover have "int (k div 256) = 0" using z unfolding assms(2) by linarith
  then have "k div 256 = 0" by (simp only: of_nat_eq_0_iff)
  ultimately have "k = 0" using div_mult_mod_eq [of k 256] by simp
  then have "m = 1" using assms(3,4) by auto
  then show False using \<open>m mod 256 = 0\<close> by simp
qed

lemma packet_done_again:
  assumes "rd (PktIn w) 1 = Some n" "n = 0 \<Longrightarrow> PktNum w = 0 \<Longrightarrow> PktNumOffset w \<noteq> 0"
    "XCheckPacket w = Some True" "xput op [ACK] w = Some v" "n = PktNum w"
  shows "packet_done op w = Some (v\<lparr>NAKMode := XnakNAK, NAKCount := 10\<rparr>, True)"
proof -
  have "\<not> (n = 0 \<and> PktNum w = 0 \<and> PktNumOffset w = 0)" "\<not> n - PktNum w > 1" "n - PktNum w = 0"
    using assms(2,5) by auto
  then show ?thesis using assms(1,3,4) by (simp add: packet_done_def del: de_Morgan_conj cong: if_cong)
qed

lemma take_packet_eq:
  assumes "\<not> TextFlagTrim1A v" "\<not> TextFlagConvertCRLF v" "rd_run (PktIn v) 3 (nat (DataLen v)) = Some B"
  shows "take_packet n v = Some (v\<lparr>PktNum := n,
      PktNumOffset := (if n = 0 then PktNumOffset v + 256 else PktNumOffset v), outfile := outfile v @ B,
      ByteCount := ByteCount v + int (nat (DataLen v)), timer := TOutLong v\<rparr>)"
  using assms by (simp add: take_packet_def FTSetTimeOut_def Let_def cong: if_cong)

lemma packet_done_new:
  assumes "rd (PktIn w) 1 = Some n" "n = 0 \<Longrightarrow> PktNum w = 0 \<Longrightarrow> PktNumOffset w \<noteq> 0"
    "XCheckPacket w = Some True" "xput op [ACK] w = Some v" "n = PktNum w + 1"
    "take_packet n (v\<lparr>NAKMode := XnakNAK, NAKCount := 10\<rparr>) = Some u"
  shows "packet_done op w = Some (u, True)"
proof -
  have "\<not> (n = 0 \<and> PktNum w = 0 \<and> PktNumOffset w = 0)" "\<not> n - PktNum w > 1" "n - PktNum w \<noteq> 0"
    using assms(2,5) by auto
  then show ?thesis using assms(1,3,4,6)
    by (simp add: packet_done_def Let_def del: de_Morgan_conj cong: if_cong)
qed

text \<open>The receiver after \<open>k\<close> packets, with \<open>dn\<close> written, waiting for a packet.\<close>

definition rcv :: "nat \<Rightarrow> u8 list \<Rightarrow> 'c xvar \<Rightarrow> bool" where
  "rcv k dn r \<longleftrightarrow> XMode r = IdXReceive \<and> length (PktIn r) = 1030 \<and> opt_set r \<and> PktReadMode r = XpktSOH \<and>
     PktNum r = of_nat k \<and> PktNumOffset r = 256 * int (k div 256) \<and> outfile r = dn \<and>
     \<not> TextFlagTrim1A r \<and> \<not> TextFlagConvertCRLF r \<and> \<not> Success r \<and>
     (k = 0 \<longrightarrow> (NAKMode r = XnakNAK) = (CheckLen r = 1))"

subsection \<open>What the sender sends\<close>

text \<open>Packet \<open>b\<close> of a file, counted from one: a block, or behind the last one the end.\<close>

definition packet_of :: "int \<Rightarrow> int \<Rightarrow> u8 list \<Rightarrow> nat \<Rightarrow> u8 list" where
  "packet_of d k W b =
     (let rest = drop ((b - 1) * nat d) W
      in if rest = [] then [EOT] else mk_packet d k (of_nat b) (block (nat d) rest))"

text \<open>The sender of the file \<open>W\<close> that has sent packet \<open>b\<close> and waits for the answer.\<close>

definition sender :: "u8 list \<Rightarrow> nat \<Rightarrow> 'c xvar \<Rightarrow> bool" where
  "sender W b s \<longleftrightarrow> XMode s = IdXSend \<and> xphase s = STATE_NORMAL \<and> \<not> isXCancel s \<and> length (PktOut s) = 1030 \<and>
     opt_set s \<and> PktBufCount s = 0 \<and> CANCount s = 0 \<and> \<not> Success s \<and>
     (if b = 0 then PktNum s = 0 \<and> PktNumSent s = 0 \<and> PktNumOffset s = 0 \<and> FileOpen s \<and> infile s = W
      else PktNumSent s = of_nat b \<and> PktNum s = of_nat (b - 1) \<and> PktNumOffset s = 256 * int ((b - 1) div 256) \<and>
        infile s = drop (b * nat (DataLen s)) W \<and> FileOpen s = (drop ((b - 1) * nat (DataLen s)) W \<noteq> []) \<and>
        (\<exists>P. PktOut s = packet_of (DataLen s) (CheckLen s) W b @ P))"

text \<open>The same sender when packet \<open>b\<close> has been acknowledged and the file goes on.\<close>

definition sender_next :: "u8 list \<Rightarrow> nat \<Rightarrow> 'c xvar \<Rightarrow> bool" where
  "sender_next W b s \<longleftrightarrow> XMode s = IdXSend \<and> xphase s = STATE_NORMAL \<and> \<not> isXCancel s \<and> length (PktOut s) = 1030 \<and>
     opt_set s \<and> PktBufCount s = 0 \<and> CANCount s = 0 \<and> \<not> Success s \<and> PktNumSent s = of_nat b \<and> PktNum s = of_nat b \<and>
     PktNumOffset s = 256 * int (b div 256) \<and> infile s = drop (b * nat (DataLen s)) W \<and> FileOpen s"

lemma mk_packet_first: "\<exists>n B. mk_packet d k m A = (if d = 128 then SOH else STX) # n # B"
  by (simp add: mk_packet_def header_def)

lemma mk_packet_length:
  "d = 128 \<or> d = 1024 \<Longrightarrow> k = 1 \<or> k = 2 \<Longrightarrow> int (length (mk_packet d k n (block (nat d) W))) = 3 + d + k"
  by (auto simp: mk_packet_def length_check_bytes)

lemma packet_of_length:
  "d = 128 \<or> d = 1024 \<Longrightarrow> k = 1 \<or> k = 2 \<Longrightarrow> length (packet_of d k W b) \<le> 1030"
  using mk_packet_length [of d k "of_nat b" "drop ((b - 1) * nat d) W"]
  by (auto simp: packet_of_def Let_def)

lemma new_packet_next:
  assumes "sender_next W b s"
  shows "\<exists>v. new_packet s = Some v \<and> XMode v = IdXSend \<and> xphase v = STATE_NORMAL \<and> \<not> isXCancel v \<and> CANCount v = 0 \<and> \<not> Success v \<and>
    length (PktOut v) = 1030 \<and> opt_set v \<and> PktBufCount v = int (length (packet_of (DataLen s) (CheckLen s) W (Suc b))) \<and>
    PktNumSent v = of_nat (Suc b) \<and> PktNum v = of_nat b \<and> PktNumOffset v = 256 * int (b div 256) \<and>
    infile v = drop (Suc b * nat (DataLen s)) W \<and> FileOpen v = (drop (b * nat (DataLen s)) W \<noteq> []) \<and>
    (\<exists>P. PktOut v = packet_of (DataLen s) (CheckLen s) W (Suc b) @ P) \<and>
    DataLen v = DataLen s \<and> CheckLen v = CheckLen s \<and> Comm v = Comm s"
proof -
  note s = assms [unfolded sender_next_def]
  have n: "PktNumSent s + 1 = of_nat (Suc b)" using s by simp
  have inf: "infile s = drop (b * nat (DataLen s)) W" using s by blast
  show ?thesis
  proof (cases "infile s = []")
    case True
    then obtain P where P: "new_packet s = Some (s\<lparr>PktNumSent := PktNumSent s + 1, FileOpen := False, PktOut := EOT # P,
      PktBufCount := 1\<rparr>)" "length (EOT # P) = 1030"
      using new_packet_EOT [of s] s by blast
    have le: "length W \<le> b * nat (DataLen s)" using True inf by simp
    then have "length W \<le> Suc b * nat (DataLen s)" by (simp add: trans_le_add2)
    then show ?thesis using P s n le True by (simp add: opt_set_def packet_of_def)
  next
    case False
    let ?d = "nat (DataLen s)"
    let ?B = "mk_packet (DataLen s) (CheckLen s) (of_nat (Suc b)) (block ?d (infile s))"
    obtain P m where P: "new_packet s = Some (s\<lparr>PktNumSent := PktNumSent s + 1, infile := drop ?d (infile s),
      ByteCount := m, PktOut := ?B @ P, PktBufCount := int (length ?B)\<rparr>)" "length (?B @ P) = 1030"
      using new_packet_data [of s] s False unfolding n by blast
    have pk: "packet_of (DataLen s) (CheckLen s) W (Suc b) = ?B" using False inf by (simp add: packet_of_def)
    have "drop ?d (infile s) = drop (Suc b * ?d) W" unfolding inf by (simp add: add.commute)
    moreover have "drop (b * ?d) W \<noteq> []" using False inf by simp
    ultimately show ?thesis using P s n unfolding pk by (simp add: opt_set_def)
  qed
qed

lemma same_packet_again:
  assumes "sender W b s" "0 < b"
  shows "same_packet s = Some (s\<lparr>PktBufCount := int (length (packet_of (DataLen s) (CheckLen s) W b))\<rparr>)"
proof -
  obtain P where P: "PktOut s = packet_of (DataLen s) (CheckLen s) W b @ P" using assms by (auto simp: sender_def)
  have o: "opt_set s" using assms(1) by (simp add: sender_def)
  show ?thesis
  proof (cases "drop ((b - 1) * nat (DataLen s)) W = []")
    case True
    then show ?thesis using P by (simp add: same_packet_def packet_of_def rd_def in_arr_def)
  next
    case False
    let ?p = "packet_of (DataLen s) (CheckLen s) W b"
    have p: "?p = mk_packet (DataLen s) (CheckLen s) (of_nat b) (block (nat (DataLen s)) (drop ((b - 1) * nat (DataLen s)) W))"
      using False by (simp add: packet_of_def Let_def)
    have l: "int (length ?p) = 3 + DataLen s + CheckLen s" unfolding p by (rule mk_packet_length) (use opt_setD [OF o] in blast)+
    obtain n B where "?p = (if DataLen s = 128 then SOH else STX) # n # B" using mk_packet_first p by metis
    then have "rd (PktOut s) 0 = Some (if DataLen s = 128 then SOH else STX)" using P by (simp add: rd_def in_arr_def)
    then show ?thesis using l by (simp add: same_packet_def SOH_def STX_def EOT_def)
  qed
qed

subsection \<open>Connections\<close>

text \<open>
  What the protocol relies on. \<open>rx\<close> and \<open>tx\<close> are the bytes that have arrived and those not yet
  sent; \<open>cap\<close> is the room for the latter. The other end of the line is reached by \<open>wout\<close>, which
  takes what is to be sent, and \<open>win\<close>, by which bytes arrive.
\<close>

locale comm_port =
  fixes op :: "'c comm_op"
    and wout :: "'c \<Rightarrow> 'c \<times> u8 list"
    and win :: "u8 list \<Rightarrow> 'c \<Rightarrow> 'c option"
    and ok :: "'c \<Rightarrow> bool"
    and rx tx :: "'c \<Rightarrow> u8 list"
    and cap :: int
  assumes read1: "ok c \<Longrightarrow> \<exists>c'. Read1Byte op c = Some (c', case rx c of [] \<Rightarrow> None | b # _ \<Rightarrow> Some b) \<and>
      ok c' \<and> rx c' = tl (rx c) \<and> tx c' = tx c"
    and out: "ok c \<Longrightarrow> \<exists>c' i. BinaryOut op B c = Some (c', i) \<and> ok c' \<and> 0 \<le> i \<and> rx c' = rx c \<and>
      tx c' = tx c @ take (nat i) B \<and> (int (length (tx c @ B)) \<le> cap \<longrightarrow> i = int (length B))"
    and flashed: "ok c \<Longrightarrow> ok (FlashReceiveBuf op c) \<and> rx (FlashReceiveBuf op c) = [] \<and> tx (FlashReceiveBuf op c) = tx c"
    and wout_all: "ok c \<Longrightarrow> \<exists>c'. wout c = (c', tx c) \<and> ok c' \<and> rx c' = rx c \<and> tx c' = []"
    and win_all: "ok c \<Longrightarrow> rx c = [] \<Longrightarrow> int (length B) \<le> cap \<Longrightarrow> \<exists>c'. win B c = Some c' \<and> ok c' \<and> rx c' = B \<and> tx c' = tx c"
    and cap_packet: "2048 \<le> cap"
begin

definition conn :: "u8 list \<Rightarrow> u8 list \<Rightarrow> 'c \<Rightarrow> bool" where
  "conn p q c \<longleftrightarrow> ok c \<and> rx c = p \<and> tx c = q"

lemma read_conn:
  assumes "conn p q (Comm xv)"
  shows "\<exists>c. XRead1Byte op xv = Some (xv\<lparr>Comm := c\<rparr>, case p of [] \<Rightarrow> None | b # _ \<Rightarrow> Some b) \<and> conn (tl p) q c"
proof -
  have k: "ok (Comm xv)" "rx (Comm xv) = p" "tx (Comm xv) = q" using assms by (auto simp: conn_def)
  show ?thesis using read1 [OF k(1)] unfolding k(2,3) by (auto simp: XRead1Byte_def conn_def)
qed

lemma write_conn:
  assumes "conn p q (Comm xv)" "int (length (q @ B)) \<le> cap"
  shows "\<exists>c. XWrite op B xv = Some (xv\<lparr>Comm := c\<rparr>, int (length B)) \<and> conn p (q @ B) c"
proof -
  have k: "ok (Comm xv)" "rx (Comm xv) = p" "tx (Comm xv) = q" using assms by (auto simp: conn_def)
  show ?thesis using out [OF k(1), of B] assms(2) unfolding k(2,3) by (auto simp: XWrite_def conn_def)
qed

lemma put_conn:
  assumes "conn p q (Comm xv)" "int (length (q @ B)) \<le> cap"
  shows "\<exists>c. xput op B xv = Some (xv\<lparr>Comm := c\<rparr>) \<and> conn p (q @ B) c"
  using write_conn [OF assms] by (auto simp: xput_def)

lemma flash_conn: "conn p q (Comm xv) \<Longrightarrow> \<exists>c. flash op xv = xv\<lparr>Comm := c\<rparr> \<and> conn [] q c"
  using flashed [of "Comm xv"] by (auto simp: flash_def conn_def)

lemma flush_conn:
  "conn p q (Comm xv) \<Longrightarrow> \<exists>c. XFlushReceiveBuf op xv = Some (xv\<lparr>Comm := c\<rparr>) \<and> conn [] q c"
proof (induction p arbitrary: xv)
  case Nil
  then show ?case using read_conn [OF Nil] by (auto simp: XFlushReceiveBuf.simps)
next
  case (Cons b p)
  obtain c where c: "XRead1Byte op xv = Some (xv\<lparr>Comm := c\<rparr>, Some b)" "conn p q c"
    using read_conn [OF Cons.prems] by auto
  show ?case using Cons.IH [of "xv\<lparr>Comm := c\<rparr>"] c by (auto simp: XFlushReceiveBuf.simps [of op xv])
qed

lemma write_loop_all:
  assumes "conn p q (Comm xv)" "int (length (q @ B)) \<le> cap" "PktOut xv = A @ B @ C"
    "PktBufPtr xv = int (length A)" "PktBufCount xv = int (length B)"
  shows "\<exists>c. write_loop op (length B) xv =
      Some (xv\<lparr>PktBufCount := 0, PktBufPtr := int (length (A @ B)), Comm := c\<rparr>) \<and> conn p (q @ B) c"
  using assms
proof (induction B arbitrary: q xv A)
  case Nil
  then show ?case by (intro exI [of _ "Comm xv"]) (cases xv; simp)
next
  case (Cons b B)
  have r: "rd (PktOut xv) (PktBufPtr xv) = Some b" using rd_append [of A b "B @ C"] Cons.prems by simp
  obtain c where c: "XWrite op [b] xv = Some (xv\<lparr>Comm := c\<rparr>, 1)" "conn p (q @ [b]) c"
    using write_conn [OF Cons.prems(1), of "[b]"] Cons.prems(2) by auto
  let ?xv = "xv\<lparr>Comm := c, PktBufCount := PktBufCount xv - 1, PktBufPtr := PktBufPtr xv + 1\<rparr>"
  obtain c' where c': "write_loop op (length B) ?xv =
      Some (?xv\<lparr>PktBufCount := 0, PktBufPtr := int (length ((A @ [b]) @ B)), Comm := c'\<rparr>)"
    "conn p ((q @ [b]) @ B) c'"
    using Cons.IH [of "q @ [b]" ?xv "A @ [b]"] c(2) Cons.prems by auto
  show ?case using r c c' by (intro exI [of _ c']) simp
qed

text \<open>The receiving loop, byte by byte.\<close>

definition pump :: "'c xvar \<Rightarrow> ('c xvar \<times> bool loop_end) option" where
  "pump xv = do { p \<leftarrow> XRead1Byte op xv; packet_loop op p False }"

lemma packet_loop_got: "packet_loop op p True = Some (fst p, Next True)"
  by (simp add: packet_loop.simps split: option.split)

lemma pump_byte:
  assumes "conn (b # p) q (Comm xv)"
  shows "\<exists>c. conn p q c \<and> pump xv =
    do {
      (xv, e) \<leftarrow> packet_byte op b (xv\<lparr>Comm := c\<rparr>);
      (case e of
         Return v \<Rightarrow> Some (xv, Return v)
       | Next got \<Rightarrow> if got then map_option (\<lambda>p. (fst p, Next True)) (XRead1Byte op xv) else pump xv)
    }"
proof -
  obtain c where c: "XRead1Byte op xv = Some (xv\<lparr>Comm := c\<rparr>, Some b)" "conn p q c"
    using read_conn [OF assms] by auto
  have "pump xv = packet_loop op (xv\<lparr>Comm := c\<rparr>, Some b) False" using c(1) by (simp add: pump_def)
  also have "\<dots> = do {
      (xv, e) \<leftarrow> packet_byte op b (xv\<lparr>Comm := c\<rparr>);
      (case e of
         Return v \<Rightarrow> Some (xv, Return v)
       | Next got \<Rightarrow> do { p \<leftarrow> XRead1Byte op xv; packet_loop op p got })
    }"
    by (subst packet_loop.simps) simp
  also have "\<dots> = do {
      (xv, e) \<leftarrow> packet_byte op b (xv\<lparr>Comm := c\<rparr>);
      (case e of
         Return v \<Rightarrow> Some (xv, Return v)
       | Next got \<Rightarrow> if got then map_option (\<lambda>p. (fst p, Next True)) (XRead1Byte op xv) else pump xv)
    }"
    by (cases "packet_byte op b (xv\<lparr>Comm := c\<rparr>)")
      (auto simp: pump_def packet_loop_got map_conv_bind_option comp_def split: loop_end.split)
  finally show ?thesis using c(2) by blast
qed

lemma pump_data:
  assumes "conn (bs @ extra) q (Comm xv)" "bs \<noteq> []" "PktReadMode xv = XpktDATA" "PktIn xv = xs @ ys"
    "PktBufPtr xv = int (length xs)" "PktBufCount xv = int (length bs)" "length bs \<le> length ys"
  shows "\<exists>c. pump xv = Some (xv\<lparr>PktIn := xs @ bs @ drop (length bs) ys, PktBufPtr := int (length (xs @ bs)),
      PktBufCount := 0, PktReadMode := XpktSOH, timer := TOutLong xv, Comm := c\<rparr>, Next True) \<and> conn (tl extra) q c"
  using assms
proof (induction bs arbitrary: xv xs ys)
  case Nil
  then show ?case by simp
next
  case (Cons b bs)
  obtain y ys' where ys: "ys = y # ys'" using Cons.prems(7) by (cases ys) auto
  obtain c where c: "conn (bs @ extra) q c"
    and step: "pump xv = do {
      (xv, e) \<leftarrow> packet_byte op b (xv\<lparr>Comm := c\<rparr>);
      (case e of
         Return v \<Rightarrow> Some (xv, Return v)
       | Next got \<Rightarrow> if got then map_option (\<lambda>p. (fst p, Next True)) (XRead1Byte op xv) else pump xv)
    }"
    using pump_byte [of b "bs @ extra" q xv] Cons.prems(1) by auto
  have w: "wr (PktIn xv) (PktBufPtr xv) b = Some ((xs @ [b]) @ ys')"
    using wr_append_at [of xs "PktBufPtr xv" y ys' b] Cons.prems(4,5) ys by simp
  let ?xv = "xv\<lparr>Comm := c, PktIn := (xs @ [b]) @ ys', PktBufPtr := PktBufPtr xv + 1, PktBufCount := PktBufCount xv - 1\<rparr>"
  show ?case
  proof (cases "bs = []")
    case True
    then have one: "packet_byte op b (xv\<lparr>Comm := c\<rparr>) = Some (FTSetTimeOut (TOutLong xv) (?xv\<lparr>PktReadMode := XpktSOH\<rparr>), Next True)"
      using w Cons.prems(3,6) by (simp add: packet_byte_def Let_def)
    obtain c' where "XRead1Byte op (FTSetTimeOut (TOutLong xv) (?xv\<lparr>PktReadMode := XpktSOH\<rparr>)) =
        Some ((FTSetTimeOut (TOutLong xv) (?xv\<lparr>PktReadMode := XpktSOH\<rparr>))\<lparr>Comm := c'\<rparr>, case extra of [] \<Rightarrow> None | b # _ \<Rightarrow> Some b)"
      "conn (tl extra) q c'"
      using read_conn [of extra q "FTSetTimeOut (TOutLong xv) (?xv\<lparr>PktReadMode := XpktSOH\<rparr>)"] c True
      by (auto simp: FTSetTimeOut_def)
    then show ?thesis using step one True Cons.prems(5,6) ys
      by (intro exI [of _ c']) (simp add: FTSetTimeOut_def)
  next
    case False
    then have "PktBufCount xv - 1 \<noteq> 0" using Cons.prems(6) by simp
    then have one: "packet_byte op b (xv\<lparr>Comm := c\<rparr>) = Some (FTSetTimeOut (TOutShort xv) ?xv, Next False)"
      using w Cons.prems(3) by (simp add: packet_byte_def Let_def)
    obtain c' where "pump (FTSetTimeOut (TOutShort xv) ?xv) =
        Some ((FTSetTimeOut (TOutShort xv) ?xv)\<lparr>PktIn := (xs @ [b]) @ bs @ drop (length bs) ys',
          PktBufPtr := int (length ((xs @ [b]) @ bs)), PktBufCount := 0, PktReadMode := XpktSOH,
          timer := TOutLong xv, Comm := c'\<rparr>, Next True)" "conn (tl extra) q c'"
      using Cons.IH [of "FTSetTimeOut (TOutShort xv) ?xv" "xs @ [b]" ys'] c Cons.prems False ys
      by (auto simp: FTSetTimeOut_def)
    then show ?thesis using step one ys by (intro exI [of _ c']) (simp add: FTSetTimeOut_def)
  qed
qed

lemma pump_packet:
  assumes "conn (header d n @ B @ cs @ extra) q (Comm xv)" "PktReadMode xv = XpktSOH" "opt_set xv"
    "length (PktIn xv) = 1030" "d = 128 \<or> d = 1024" "int (length B) = d" "int (length cs) = CheckLen xv"
  shows "\<exists>c T. pump xv = Some ((adapt d xv)\<lparr>PktIn := header d n @ B @ cs @ T, PktBufPtr := d + CheckLen xv + 3,
      PktBufCount := 0, PktReadMode := XpktSOH, CANCount := 0, timer := TOutLong xv, Comm := c\<rparr>, Next True) \<and>
    length (header d n @ B @ cs @ T) = 1030 \<and> conn (tl extra) q c"
proof -
  note ad = adapt_eq [OF assms(3,5)]
  obtain a0 a1 a2 T where P: "PktIn xv = a0 # a1 # a2 # T" using three_elems [of "PktIn xv"] assms(4) by auto
  define h where "h = (if d = 128 then SOH else STX)"
  have H: "header d n = [h, n, NOT n]" by (simp add: header_def h_def)
  note kl = opt_setD [OF assms(3)]
  have neq: "B @ cs \<noteq> []" using assms(5,6) by auto
  define w0 where "w0 = xv\<lparr>PktIn := h # a1 # a2 # T, PktReadMode := XpktBLK, XOpt := adapt_opt d (CheckLen xv), DataLen := d,
    timer := TOutShort xv, CANCount := 0\<rparr>"
  define w1 where "w1 = w0\<lparr>PktIn := h # n # a2 # T, PktReadMode := XpktBLK2\<rparr>"
  define w2 where "w2 = w1\<lparr>PktIn := [h, n, NOT n] @ T, PktBufPtr := 3, PktBufCount := d + CheckLen xv,
    PktReadMode := XpktDATA\<rparr>"
  have s0: "packet_byte op h (xv\<lparr>Comm := c\<rparr>) = Some (w0\<lparr>Comm := c\<rparr>, Next False)" for c
  proof -
    define y where "y = xv\<lparr>Comm := c, PktIn := h # a1 # a2 # T, PktReadMode := XpktBLK\<rparr>"
    have "opt_set y" using assms(3) by (simp add: y_def opt_set_def)
    note a = adapt_eq [OF this assms(5)]
    have "packet_byte op h (xv\<lparr>Comm := c\<rparr>) =
        Some ((FTSetTimeOut (TOutShort (adapt d y)) (adapt d y))\<lparr>CANCount := 0\<rparr>, Next False)"
      using assms(2) P packet_start_packet [OF h_def, of op "xv\<lparr>Comm := c\<rparr>"]
      by (simp add: packet_byte_def wr_def in_arr_def y_def Let_def)
    then show ?thesis unfolding a by (simp add: FTSetTimeOut_def w0_def y_def)
  qed
  have s1: "packet_byte op n (w0\<lparr>Comm := c\<rparr>) = Some (w1\<lparr>Comm := c\<rparr>, Next False)" for c
    by (simp add: packet_byte_def w1_def w0_def wr_def in_arr_def FTSetTimeOut_def)
  have s2: "packet_byte op (NOT n) (w1\<lparr>Comm := c\<rparr>) = Some (w2\<lparr>Comm := c\<rparr>, Next False)" for c
  proof -
    have "(NOT n) XOR n = (- 1 :: u8)" by (rule bit_word_eqI) (auto simp: bit_simps)
    then have "(NOT n) XOR n = (0xff :: u8)" by simp
    then show ?thesis
      by (simp add: packet_byte_def w2_def w1_def w0_def wr_def rd_def in_arr_def FTSetTimeOut_def numeral_2_eq_2)
  qed
  obtain c0 where c0: "conn ([n, NOT n] @ B @ cs @ extra) q c0" "pump xv = pump (w0\<lparr>Comm := c0\<rparr>)"
    using pump_byte [of h "[n, NOT n] @ B @ cs @ extra" q xv] assms(1) s0 H by auto
  obtain c1 where c1: "conn ([NOT n] @ B @ cs @ extra) q c1" "pump (w0\<lparr>Comm := c0\<rparr>) = pump (w1\<lparr>Comm := c1\<rparr>)"
    using pump_byte [of n "[NOT n] @ B @ cs @ extra" q "w0\<lparr>Comm := c0\<rparr>"] c0(1) s1 by auto
  obtain c2 where c2: "conn ((B @ cs) @ extra) q c2" "pump (w1\<lparr>Comm := c1\<rparr>) = pump (w2\<lparr>Comm := c2\<rparr>)"
    using pump_byte [of "NOT n" "B @ cs @ extra" q "w1\<lparr>Comm := c1\<rparr>"] c1(1) s2 by auto
  have lT: "length T = 1027" using assms(4) P by simp
  have w2: "PktReadMode (w2\<lparr>Comm := c2\<rparr>) = XpktDATA" "PktIn (w2\<lparr>Comm := c2\<rparr>) = [h, n, NOT n] @ T"
    "PktBufPtr (w2\<lparr>Comm := c2\<rparr>) = int (length [h, n, NOT n])" "Comm (w2\<lparr>Comm := c2\<rparr>) = c2"
    by (simp_all add: w2_def)
  have cnt: "PktBufCount (w2\<lparr>Comm := c2\<rparr>) = int (length (B @ cs))" using assms(6,7) by (simp add: w2_def)
  have le: "length (B @ cs) \<le> length T" using assms(5-7) kl lT by auto
  obtain c3 where c3: "pump (w2\<lparr>Comm := c2\<rparr>) = Some (w2\<lparr>Comm := c2, PktIn := [h, n, NOT n] @ (B @ cs) @ drop (length (B @ cs)) T,
      PktBufPtr := int (length ([h, n, NOT n] @ B @ cs)), PktBufCount := 0, PktReadMode := XpktSOH,
      timer := TOutLong (w2\<lparr>Comm := c2\<rparr>), Comm := c3\<rparr>, Next True)" and d3: "conn (tl extra) q c3"
    using pump_data [OF _ neq w2(1,2,3) cnt le, of extra q] c2(1) unfolding w2(4) by blast
  have "length (header d n @ B @ cs @ drop (length (B @ cs)) T) = 1030"
    using lT assms(5-7) kl by (auto simp: of_nat_diff)
  moreover have "pump xv = Some ((adapt d xv)\<lparr>PktIn := header d n @ B @ cs @ drop (length (B @ cs)) T,
      PktBufPtr := d + CheckLen xv + 3, PktBufCount := 0, PktReadMode := XpktSOH, CANCount := 0,
      timer := TOutLong xv, Comm := c3\<rparr>, Next True)"
  proof -
    have "int (length ([h, n, NOT n] @ B @ cs)) = d + CheckLen xv + 3" using assms(6,7) by simp
    then show ?thesis unfolding c0(2) c1(2) c2(2) c3 ad H by (simp add: w2_def w1_def w0_def)
  qed
  ultimately show ?thesis using d3 by blast
qed

definition nak_write :: "'c xvar \<Rightarrow> 'c xvar option" where
  "nak_write v =
     (let (b, t) = (if NAKMode v = XnakNAK
                    then (NAK, if PktNum v = 0 \<and> PktNumOffset v = 0 then TOutInit v else TOutLong v)
                    else (cC, TOutInitCRC v))
      in do { v \<leftarrow> xput op [b] v; Some (FTSetTimeOut t (v\<lparr>PktReadMode := XpktSOH\<rparr>)) })"

lemma XSendNAK_eq:
  "flash op xv = f \<Longrightarrow> f\<lparr>NAKCount := NAKCount f - 1\<rparr> = w \<Longrightarrow> \<not> (NAKCount w < 0 \<and> NAKMode w \<noteq> XnakC) \<Longrightarrow>
    (if NAKCount w < 0 then (XSetOpt XoptCheck w)\<lparr>NAKMode := XnakNAK, NAKCount := 9\<rparr> else w) = v \<Longrightarrow>
    XSendNAK op xv = nak_write v"
  by (simp only: XSendNAK_def nak_write_def Let_def if_False)

lemma nak_write_eq:
  assumes "xput op [if NAKMode v = XnakNAK then NAK else cC] v = Some (v\<lparr>Comm := c\<rparr>)"
  shows "\<exists>t. nak_write v = Some (v\<lparr>Comm := c, PktReadMode := XpktSOH, timer := t\<rparr>)"
  using assms by (cases "NAKMode v = XnakNAK") (auto simp: nak_write_def FTSetTimeOut_def)

text \<open>
  A request for the packet again: NAK or C, or the end after too many of them. \<open>b\<close> is the byte
  that is sent.
\<close>

lemma nak_conn:
  assumes "conn p q (Comm xv)" "rcv k dn xv" "int (length q) \<le> 1024"
  shows "\<exists>xv'. XSendNAK op xv = Some xv' \<and> rcv k dn xv' \<and> CheckLen xv' \<le> CheckLen xv \<and>
    (xphase xv' = STATE_CANCELED \<and> conn [] (q @ cancel_bytes) (Comm xv') \<or>
     xphase xv' = xphase xv \<and>
       conn [] (q @ [if NAKMode xv' = XnakNAK then NAK else cC]) (Comm xv') \<and>
       (0 < NAKCount xv \<longrightarrow> NAKMode xv' = NAKMode xv \<and> NAKCount xv' = NAKCount xv - 1 \<and> CheckLen xv' = CheckLen xv)) \<and>
    (0 < NAKCount xv \<longrightarrow> xphase xv' = xphase xv)"
proof -
  obtain c where c: "flash op xv = xv\<lparr>Comm := c\<rparr>" "conn [] q c" using flash_conn [OF assms(1)] by blast
  define w where "w = xv\<lparr>Comm := c, NAKCount := NAKCount xv - 1\<rparr>"
  have w: "rcv k dn w" "Comm w = c" "xphase w = xphase xv" "CheckLen w = CheckLen xv" "NAKMode w = NAKMode xv"
    using assms(2) by (simp_all add: w_def rcv_def opt_set_def)
  show ?thesis
  proof (cases "NAKCount w < 0 \<and> NAKMode w \<noteq> XnakC")
    case True
    obtain c' where c': "xput op cancel_bytes w = Some (w\<lparr>Comm := c'\<rparr>)" "conn [] (q @ cancel_bytes) c'"
      using put_conn [of "[]" q w cancel_bytes] c(2) w(2) assms(3) cap_packet by (auto simp: cancel_bytes_def)
    let ?v = "w\<lparr>Comm := c', xphase := STATE_CANCELED\<rparr>"
    have "XSendNAK op xv = Some (if \<not> CvReady op c' then ?v\<lparr>ProtoEnded := True\<rparr> else ?v)"
      using True c c' by (simp add: XSendNAK_def XCancelNow_def Let_def w_def)
    moreover have "\<not> 0 < NAKCount xv" using True by (simp add: w_def)
    ultimately show ?thesis using w c'(2) assms(2) by (auto simp: rcv_def opt_set_def w_def)
  next
    case False
    define v where "v = (if NAKCount w < 0 then (XSetOpt XoptCheck w)\<lparr>NAKMode := XnakNAK, NAKCount := 9\<rparr> else w)"
    have v: "rcv k dn v" "Comm v = c" "xphase v = xphase xv" "CheckLen v \<le> CheckLen xv"
      using w opt_setD [of w] unfolding v_def by (auto simp: rcv_def opt_set_def XSetOpt_def)
    have pos: "0 < NAKCount xv \<Longrightarrow> v = w" by (simp add: v_def w_def)
    define b where "b = (if NAKMode v = XnakNAK then NAK else cC)"
    obtain c' where c': "xput op [b] v = Some (v\<lparr>Comm := c'\<rparr>)" "conn [] (q @ [b]) c'"
      using put_conn [of "[]" q v "[b]"] c(2) v(2) assms(3) cap_packet by auto
    have "XSendNAK op xv = nak_write v"
      by (rule XSendNAK_eq [OF c(1) _ False]) (simp_all add: w_def v_def)
    then have "\<exists>t. XSendNAK op xv = Some (v\<lparr>Comm := c', PktReadMode := XpktSOH, timer := t\<rparr>)"
      using nak_write_eq c'(1) unfolding b_def by simp
    then obtain t where t: "XSendNAK op xv = Some (v\<lparr>Comm := c', PktReadMode := XpktSOH, timer := t\<rparr>)" by blast
    show ?thesis unfolding t using v c'(2) pos w(5)
      by (auto simp: rcv_def opt_set_def b_def w_def)
  qed
qed

lemma XReadPacket_pump:
  "XReadPacket op xv = do {
     (xv, e) \<leftarrow> pump xv;
     (case e of Return v \<Rightarrow> Some (xv, v) | Next got \<Rightarrow> if got then packet_done op xv else Some (xv, True))
   }"
  by (simp add: XReadPacket_def pump_def)

lemma pump_rcv:
  assumes "conn (header d n @ B @ cs @ extra) q (Comm xv)" "rcv k dn xv" "d = 128 \<or> d = 1024" "int (length B) = d"
    "int (length cs) = CheckLen xv"
  shows "\<exists>w T. pump xv = Some (w, Next True) \<and> rcv k dn w \<and> conn (tl extra) q (Comm w) \<and>
    PktIn w = header d n @ B @ cs @ T \<and> DataLen w = int (length B) \<and> CheckLen w = CheckLen xv \<and>
    xphase w = xphase xv \<and> NAKMode w = NAKMode xv \<and> NAKCount w = NAKCount xv"
proof -
  note r = assms(2) [unfolded rcv_def]
  have o: "opt_set xv" using r by blast
  obtain c T where pk: "pump xv = Some ((adapt d xv)\<lparr>PktIn := header d n @ B @ cs @ T, PktBufPtr := d + CheckLen xv + 3,
      PktBufCount := 0, PktReadMode := XpktSOH, CANCount := 0, timer := TOutLong xv, Comm := c\<rparr>, Next True)"
    and lT: "length (header d n @ B @ cs @ T) = 1030" and c: "conn (tl extra) q c"
    using pump_packet [OF assms(1) _ o _ assms(3-5)] r by blast
  define w where "w = xv\<lparr>XOpt := adapt_opt d (CheckLen xv), DataLen := d, PktIn := header d n @ B @ cs @ T, PktBufPtr := d + CheckLen xv + 3,
      PktBufCount := 0, PktReadMode := XpktSOH, CANCount := 0, timer := TOutLong xv, Comm := c\<rparr>"
  have pw: "pump xv = Some (w, Next True)" unfolding pk adapt_eq [OF o assms(3)] w_def ..
  have "opt_set w" by (rule opt_set_adapt [OF o assms(3)]) (simp_all add: w_def)
  then have "rcv k dn w" using r lT by (simp add: rcv_def w_def)
  then show ?thesis using pw c assms(4) by (auto simp: w_def)
qed

text \<open>A packet whose check bytes are right is taken, or only acknowledged if it was taken before.\<close>

lemma recv_good:
  assumes "conn (header d (of_nat m) @ B @ cs @ extra) q (Comm xv)" "rcv k dn xv" "xphase xv = STATE_NORMAL"
    "d = 128 \<or> d = 1024" "int (length B) = d" "cs = check_bytes (CheckLen xv) B"
    "m = k \<or> m = Suc k" "0 < m" "int (length q) \<le> 1024"
  shows "\<exists>xv'. XParse op xv = Some (xv', True) \<and> xphase xv' = STATE_NORMAL \<and> conn (tl extra) (q @ [ACK]) (Comm xv') \<and>
    rcv m (if m = k then dn else dn @ B) xv' \<and> CheckLen xv' = CheckLen xv \<and> 0 < NAKCount xv'"
proof -
  note r = assms(2) [unfolded rcv_def]
  have o: "opt_set xv" using r by blast
  have lcs: "int (length cs) = CheckLen xv" using assms(6) opt_setD [OF o] by (auto simp: length_check_bytes)
  obtain w T where pw: "pump xv = Some (w, Next True)" "rcv k dn w" "conn (tl extra) q (Comm w)"
    "PktIn w = header d (of_nat m) @ B @ cs @ T" "DataLen w = int (length B)" "CheckLen w = CheckLen xv"
    "xphase w = xphase xv"
    using pump_rcv [OF assms(1,2,4,5) lcs] by blast
  have ow: "opt_set w" using pw(2) by (simp add: rcv_def)
  have lT: "length (PktIn w) = 1030" using pw(2) by (simp add: rcv_def)
  obtain c where c: "Comm w = c" "conn (tl extra) q c" using pw(3) by blast
  have w: "PktIn w = header d (of_nat m) @ B @ cs @ T" "DataLen w = int (length B)" "CheckLen w = CheckLen xv"
    "PktNum w = of_nat k" "PktNumOffset w = 256 * int (k div 256)" "XMode w = IdXReceive" "Comm w = c"
    "outfile w = dn" "\<not> TextFlagTrim1A w" "\<not> TextFlagConvertCRLF w" "\<not> Success w" "xphase w = STATE_NORMAL"
    "PktReadMode w = XpktSOH"
    using pw c assms(3) by (simp_all add: rcv_def)
  have n1: "rd (PktIn w) 1 = Some (of_nat m)" by (simp add: w(1) header_def rd_def in_arr_def)
  have chk: "XCheckPacket w = Some True"
    using XCheckPacket_eq [OF ow w(1,2)] lcs assms(6) w(3) by simp
  have not0: "\<not> ((of_nat m :: u8) = 0 \<and> PktNum w = 0 \<and> PktNumOffset w = 0)"
    by (rule not_first [OF w(4,5) assms(7,8)])
  have diff: "(of_nat m :: u8) - PktNum w = (if m = k then 0 else 1)"
    using assms(7) w(4) by auto
  obtain c' where c': "xput op [ACK] w = Some (w\<lparr>Comm := c'\<rparr>)" "conn (tl extra) (q @ [ACK]) c'"
    using put_conn [of "tl extra" q w "[ACK]"] c assms(9) cap_packet by auto
  have parse: "XParse op xv = packet_done op w"
    using assms(3) r pw(1) by (simp add: XParse_def XReadPacket_pump)
  show ?thesis
  proof (cases "m = k")
    case True
    have "packet_done op w = Some (w\<lparr>Comm := c', NAKMode := XnakNAK, NAKCount := 10\<rparr>, True)"
      using packet_done_again [OF n1 _ chk c'(1)] not0 True w(4) by simp
    then show ?thesis using parse c'(2) w ow lT True assms(8) by (simp add: rcv_def opt_set_def)
  next
    case False
    then have m: "m = Suc k" using assms(7) by blast
    define v where "v = w\<lparr>Comm := c', NAKMode := XnakNAK, NAKCount := 10\<rparr>"
    have v: "\<not> TextFlagTrim1A v" "\<not> TextFlagConvertCRLF v" "rd_run (PktIn v) 3 (nat (DataLen v)) = Some B"
      using rd_run_append [of "header d (of_nat m)" 3 B "cs @ T"] w(1,2,9,10) by (simp_all add: v_def)
    have n: "of_nat m = PktNum w + 1" using m w(4) by simp
    obtain t n' where t: "take_packet (of_nat m) v = Some (v\<lparr>PktNum := of_nat m,
        PktNumOffset := (if (of_nat m :: u8) = 0 then PktNumOffset v + 256 else PktNumOffset v),
        outfile := outfile v @ B, ByteCount := n', timer := t\<rparr>)"
      using take_packet_eq [OF v] by blast
    define u where "u = v\<lparr>PktNum := of_nat m,
        PktNumOffset := (if (of_nat m :: u8) = 0 then PktNumOffset v + 256 else PktNumOffset v),
        outfile := outfile v @ B, ByteCount := n', timer := t\<rparr>"
    have fin: "XParse op xv = Some (u, True)"
      using packet_done_new [OF n1 _ chk c'(1) n] not0 t parse unfolding u_def v_def by auto
    have "(if (of_nat m :: u8) = 0 then PktNumOffset w + 256 else PktNumOffset w) = 256 * int (m div 256)"
      unfolding m w(5) of_nat_u8_zero by (simp add: div_Suc)
    moreover have "PktNumOffset u = (if (of_nat m :: u8) = 0 then PktNumOffset w + 256 else PktNumOffset w)"
      by (simp add: u_def v_def)
    ultimately have off: "PktNumOffset u = 256 * int (m div 256)" by simp
    have "opt_set u" using ow by (simp add: u_def v_def opt_set_def)
    moreover have "PktIn u = PktIn w" "XMode u = XMode w" "PktReadMode u = PktReadMode w" "PktNum u = of_nat m"
      "outfile u = dn @ B" "TextFlagTrim1A u = TextFlagTrim1A w" "TextFlagConvertCRLF u = TextFlagConvertCRLF w"
      "Success u = Success w" "Comm u = c'" "CheckLen u = CheckLen w" "NAKCount u = 10" "xphase u = xphase w"
      using w(8) by (simp_all add: u_def v_def)
    ultimately show ?thesis using fin c'(2) w lT False assms(8) off by (simp add: rcv_def)
  qed
qed

text \<open>A packet with other check bytes is asked for again.\<close>

lemma recv_bad:
  assumes "conn (header d (of_nat m) @ B @ cs @ extra) q (Comm xv)" "rcv k dn xv" "xphase xv = STATE_NORMAL"
    "d = 128 \<or> d = 1024" "int (length B) = d" "int (length cs) = CheckLen xv" "cs \<noteq> check_bytes (CheckLen xv) B"
    "m = k \<or> m = Suc k" "0 < m" "int (length q) \<le> 1024"
  shows "\<exists>w. XParse op xv = map_option (\<lambda>v. (v, True)) (XSendNAK op w) \<and> rcv k dn w \<and> conn (tl extra) q (Comm w) \<and>
    CheckLen w = CheckLen xv \<and> xphase w = STATE_NORMAL \<and> NAKMode w = NAKMode xv \<and> NAKCount w = NAKCount xv"
proof -
  note r = assms(2) [unfolded rcv_def]
  obtain w T where pw: "pump xv = Some (w, Next True)" "rcv k dn w" "conn (tl extra) q (Comm w)"
    "PktIn w = header d (of_nat m) @ B @ cs @ T" "DataLen w = int (length B)" "CheckLen w = CheckLen xv"
    "xphase w = xphase xv" "NAKMode w = NAKMode xv" "NAKCount w = NAKCount xv"
    using pump_rcv [OF assms(1,2,4-6)] by blast
  have w: "opt_set w" "PktNum w = of_nat k" "PktNumOffset w = 256 * int (k div 256)"
    using pw(2) by (simp_all add: rcv_def)
  have n1: "rd (PktIn w) 1 = Some (of_nat m)" by (simp add: pw(4) header_def rd_def in_arr_def)
  have chk: "XCheckPacket w = Some False" using XCheckPacket_eq [OF w(1) pw(4,5)] assms(6,7) pw(6) by simp
  have not0: "\<not> ((of_nat m :: u8) = 0 \<and> PktNum w = 0 \<and> PktNumOffset w = 0)"
    by (rule not_first [OF w(2,3) assms(8,9)])
  have "packet_done op w = map_option (\<lambda>v. (v, True)) (XSendNAK op w)"
  proof -
    have "packet_done op w = do { v \<leftarrow> XSendNAK op w; Some (v, True) }"
      using n1 not0 chk by (simp add: packet_done_def del: de_Morgan_conj cong: if_cong)
    then show ?thesis by (simp add: map_conv_bind_option comp_def)
  qed
  then have "XParse op xv = map_option (\<lambda>v. (v, True)) (XSendNAK op w)"
    using assms(3) r pw(1) by (simp add: XParse_def XReadPacket_pump)
  then show ?thesis using pw assms(3) by (intro exI [of _ w]) simp
qed

lemma recv_nothing:
  assumes "conn [] q (Comm xv)" "XMode xv = IdXReceive" "xphase xv = STATE_NORMAL"
  shows "\<exists>c. XParse op xv = Some (xv\<lparr>Comm := c\<rparr>, True) \<and> conn [] q c"
proof -
  obtain c where c: "XRead1Byte op xv = Some (xv\<lparr>Comm := c\<rparr>, None)" "conn [] q c" using read_conn [OF assms(1)] by auto
  then have "pump xv = Some (xv\<lparr>Comm := c\<rparr>, Next False)" by (simp add: pump_def packet_loop.simps)
  then show ?thesis using c(2) assms(2,3) by (intro exI [of _ c]) (simp add: XParse_def XReadPacket_pump)
qed

lemma recv_EOT:
  assumes "conn [EOT] q (Comm xv)" "rcv k dn xv" "xphase xv = STATE_NORMAL" "int (length q) \<le> 1024"
  shows "\<exists>xv'. XParse op xv = Some (xv', False) \<and> conn [] (q @ [ACK]) (Comm xv') \<and> Success xv' \<and> outfile xv' = dn \<and>
    XMode xv' = IdXReceive \<and> xphase xv' = STATE_NORMAL"
proof -
  note r = assms(2) [unfolded rcv_def]
  obtain c where c: "conn [] q c" and step: "pump xv =
    do {
      (xv, e) \<leftarrow> packet_byte op EOT (xv\<lparr>Comm := c\<rparr>);
      (case e of
         Return v \<Rightarrow> Some (xv, Return v)
       | Next got \<Rightarrow> if got then map_option (\<lambda>p. (fst p, Next True)) (XRead1Byte op xv) else pump xv)
    }"
    using pump_byte [of EOT "[]" q xv] assms(1) by blast
  define w where "w = xv\<lparr>Comm := c, Success := True\<rparr>"
  obtain c' where c': "xput op [ACK] w = Some (w\<lparr>Comm := c'\<rparr>)" "conn [] (q @ [ACK]) c'"
    using put_conn [of "[]" q w "[ACK]"] c assms(4) cap_packet by (auto simp: w_def)
  have "PktReadMode xv = XpktSOH" "XMode xv = IdXReceive" using r by blast+
  then have "packet_byte op EOT (xv\<lparr>Comm := c\<rparr>) = Some (w\<lparr>Comm := c'\<rparr>, Return False)"
    using c'(1) by (simp add: packet_byte_def packet_start_def SOH_def STX_def EOT_def w_def)
  then have "XParse op xv = Some (w\<lparr>Comm := c'\<rparr>, False)"
    using step assms(3) \<open>XMode xv = IdXReceive\<close> by (simp add: XParse_def XReadPacket_pump)
  then show ?thesis using c'(2) r assms(3) by (simp add: w_def)
qed

text \<open>Writing the packet that has been made.\<close>

lemma send_buffered_all:
  assumes "conn p [] (Comm v)" "PktOut v = B @ P" "PktBufCount v = int (length B)" "length B \<le> 1030"
  shows "\<exists>c. send_buffered op (v\<lparr>PktBufPtr := 0\<rparr>) = Some (v\<lparr>PktBufCount := 0, PktBufPtr := int (length B), Comm := c\<rparr>, True) \<and>
    conn [] B c"
proof -
  obtain c where c: "XFlushReceiveBuf op (v\<lparr>PktBufPtr := 0\<rparr>) = Some (v\<lparr>PktBufPtr := 0, Comm := c\<rparr>)" "conn [] [] c"
    using flush_conn [of p "[]" "v\<lparr>PktBufPtr := 0\<rparr>"] assms(1) by auto
  let ?v = "v\<lparr>PktBufPtr := 0, Comm := c\<rparr>"
  obtain c' where "write_loop op (length B) ?v = Some (?v\<lparr>PktBufCount := 0, PktBufPtr := int (length ([] @ B)), Comm := c'\<rparr>)"
    "conn [] ([] @ B) c'"
    using write_loop_all [of "[]" "[]" ?v B "[]" P] c(2) assms(2-4) cap_packet by auto
  then show ?thesis using c(1) assms(3) by (intro exI [of _ c']) (simp add: send_buffered_def)
qed

text \<open>What \<open>XSendPacket\<close> does when an answer asks for a packet.\<close>

definition send_answer :: "'c xvar \<Rightarrow> ('c xvar \<times> bool) option" where
  "send_answer xv =
     do {
       xv \<leftarrow> XFlushReceiveBuf op (FTSetTimeOut (TOutVLong xv) xv);
       xv \<leftarrow> (if PktNumSent xv = PktNum xv then new_packet xv else same_packet xv);
       send_buffered op (xv\<lparr>PktBufPtr := 0\<rparr>)
     }"

lemma send_next:
  assumes "sender_next W b s" "conn p [] (Comm s)"
  shows "\<exists>s'. send_answer s = Some (s', True) \<and> sender W (Suc b) s' \<and> DataLen s' = DataLen s \<and> CheckLen s' = CheckLen s \<and>
    conn [] (packet_of (DataLen s) (CheckLen s) W (Suc b)) (Comm s')"
proof -
  obtain c where c: "XFlushReceiveBuf op (FTSetTimeOut (TOutVLong s) s) = Some (s\<lparr>timer := TOutVLong s, Comm := c\<rparr>)" "conn [] [] c"
    using flush_conn [of p "[]" "FTSetTimeOut (TOutVLong s) s"] assms(2) by (auto simp: FTSetTimeOut_def)
  let ?s = "s\<lparr>timer := TOutVLong s, Comm := c\<rparr>"
  let ?B = "packet_of (DataLen s) (CheckLen s) W (Suc b)"
  have sn: "sender_next W b ?s" using assms(1) by (simp add: sender_next_def)
  obtain v P where v: "new_packet ?s = Some v" "XMode v = IdXSend" "xphase v = STATE_NORMAL" "\<not> isXCancel v" "CANCount v = 0" "\<not> Success v"
    "length (PktOut v) = 1030" "opt_set v" "PktBufCount v = int (length ?B)"
    "PktNumSent v = of_nat (Suc b)" "PktNum v = of_nat b" "PktNumOffset v = 256 * int (b div 256)"
    "infile v = drop (Suc b * nat (DataLen s)) W" "FileOpen v = (drop (b * nat (DataLen s)) W \<noteq> [])"
    "PktOut v = ?B @ P" "DataLen v = DataLen s" "CheckLen v = CheckLen s" "Comm v = c"
    using new_packet_next [OF sn] by (elim exE conjE) (rule that, simp_all)
  have le: "length ?B \<le> 1030" by (rule packet_of_length) (use opt_setD [OF v(8)] v(16,17) in auto)
  obtain c' where c': "send_buffered op (v\<lparr>PktBufPtr := 0\<rparr>) = Some (v\<lparr>PktBufCount := 0, PktBufPtr := int (length ?B), Comm := c'\<rparr>, True)"
    "conn [] ?B c'"
    using send_buffered_all [of "[]" v ?B P] c(2) v le by auto
  have "PktNumSent s = PktNum s" using assms(1) by (simp add: sender_next_def)
  then have "send_answer s = Some (v\<lparr>PktBufCount := 0, PktBufPtr := int (length ?B), Comm := c'\<rparr>, True)"
    using c(1) v(1) c'(1) by (simp add: send_answer_def)
  then show ?thesis using v c'(2) by (simp add: sender_def)
qed

lemma send_again:
  assumes "sender W b s" "0 < b" "conn p [] (Comm s)"
  shows "\<exists>s'. send_answer s = Some (s', True) \<and> sender W b s' \<and> DataLen s' = DataLen s \<and> CheckLen s' = CheckLen s \<and>
    conn [] (packet_of (DataLen s) (CheckLen s) W b) (Comm s')"
proof -
  obtain c where c: "XFlushReceiveBuf op (FTSetTimeOut (TOutVLong s) s) = Some (s\<lparr>timer := TOutVLong s, Comm := c\<rparr>)" "conn [] [] c"
    using flush_conn [of p "[]" "FTSetTimeOut (TOutVLong s) s"] assms(3) by (auto simp: FTSetTimeOut_def)
  let ?s = "s\<lparr>timer := TOutVLong s, Comm := c\<rparr>"
  let ?B = "packet_of (DataLen s) (CheckLen s) W b"
  have sb: "sender W b ?s" using assms(1) by (simp add: sender_def)
  define v where "v = ?s\<lparr>PktBufCount := int (length ?B)\<rparr>"
  have v: "same_packet ?s = Some v" using same_packet_again [OF sb assms(2)] by (simp add: v_def)
  obtain P where P: "PktOut v = ?B @ P" using assms(1,2) by (auto simp: sender_def v_def)
  have o: "opt_set s" using assms(1) by (simp add: sender_def)
  have le: "length ?B \<le> 1030" by (rule packet_of_length) (use opt_setD [OF o] in auto)
  obtain c' where c': "send_buffered op (v\<lparr>PktBufPtr := 0\<rparr>) = Some (v\<lparr>PktBufCount := 0, PktBufPtr := int (length ?B), Comm := c'\<rparr>, True)"
    "conn [] ?B c'"
    using send_buffered_all [of "[]" v ?B P] c(2) P le by (auto simp: v_def)
  have "(of_nat b :: u8) \<noteq> of_nat (b - 1)"
    using assms(2) by (cases b) auto
  then have "PktNumSent s \<noteq> PktNum s" using assms(1,2) by (simp add: sender_def)
  then have "send_answer s = Some (v\<lparr>PktBufCount := 0, PktBufPtr := int (length ?B), Comm := c'\<rparr>, True)"
    using c(1) v c'(1) by (simp add: send_answer_def)
  then show ?thesis using assms(1,2) c'(2) by (simp add: sender_def v_def)
qed

lemma XSendPacket_answer:
  "XSendPacket op xv =
     (if PktBufCount xv = 0
      then do {
        (xv, e) \<leftarrow> answer_loop op xv (False, False);
        (case e of
           Return v \<Rightarrow> Some (xv, v)
         | Next f \<Rightarrow>
             if isXCancel xv then do { xv \<leftarrow> XCancelNow op xv; Some (xv, False) }
             else if \<not> fst f then Some (xv, True)
             else send_answer xv)
      }
      else send_buffered op xv)"
  unfolding XSendPacket_def send_answer_def ..

lemma answer_loop_Nil:
  "conn [] q (Comm xv) \<Longrightarrow> \<exists>c. answer_loop op xv f = Some (xv\<lparr>Comm := c\<rparr>, Next f) \<and> conn [] q c"
  using read_conn [of "[]" q xv] by (auto simp: answer_loop.simps)

lemma answer_loop_Cons:
  assumes "conn (b # p) q (Comm xv)"
  shows "\<exists>c. conn p q c \<and> answer_loop op xv f =
    (case answer_byte b (xv\<lparr>Comm := c\<rparr>) f of (v, Return r) \<Rightarrow> Some (v, Return r) | (v, Next f) \<Rightarrow> answer_loop op v f)"
proof -
  obtain c where "XRead1Byte op xv = Some (xv\<lparr>Comm := c\<rparr>, Some b)" "conn p q c" using read_conn [OF assms] by auto
  then show ?thesis by (subst answer_loop.simps) auto
qed

text \<open>One control byte: either it ends the session, or it leaves \<open>v\<close> and says what to do next.\<close>

lemma one_answer:
  assumes "conn [b] [] (Comm s)" "XMode s = IdXSend" "xphase s = STATE_NORMAL" "PktBufCount s = 0"
    and "\<And>c. \<exists>g. answer_byte b (s\<lparr>Comm := c\<rparr>) (False, False) = (v\<lparr>Comm := c\<rparr>, Next (send, g))" "\<not> isXCancel v"
  shows "\<exists>c. conn [] [] c \<and> XParse op s = (if send then send_answer (v\<lparr>Comm := c\<rparr>) else Some (v\<lparr>Comm := c\<rparr>, True))"
proof -
  obtain c where c: "conn [] [] c" "answer_loop op s (False, False) =
    (case answer_byte b (s\<lparr>Comm := c\<rparr>) (False, False) of (v, Return r) \<Rightarrow> Some (v, Return r) | (v, Next f) \<Rightarrow> answer_loop op v f)"
    using answer_loop_Cons [OF assms(1)] by blast
  obtain g where g: "answer_byte b (s\<lparr>Comm := c\<rparr>) (False, False) = (v\<lparr>Comm := c\<rparr>, Next (send, g))" using assms(5) by blast
  obtain c' where "answer_loop op (v\<lparr>Comm := c\<rparr>) (send, g) = Some (v\<lparr>Comm := c'\<rparr>, Next (send, g))" "conn [] [] c'"
    using answer_loop_Nil [of "[]" "v\<lparr>Comm := c\<rparr>"] c(1) by auto
  then show ?thesis using c(2) g assms(2-4,6) by (auto simp: XParse_def IdXSend_def IdXReceive_def XSendPacket_answer)
qed

lemma send_ack:
  assumes "sender W b s" "0 < b" "FileOpen s" "conn [ACK] [] (Comm s)"
  shows "\<exists>s'. XParse op s = Some (s', True) \<and> sender W (Suc b) s' \<and> DataLen s' = DataLen s \<and> CheckLen s' = CheckLen s \<and>
    conn [] (packet_of (DataLen s) (CheckLen s) W (Suc b)) (Comm s')"
proof -
  note s = assms(1) [unfolded sender_def]
  define v where "v = s\<lparr>PktNum := of_nat b, PktNumOffset := 256 * int (b div 256), CANCount := 0\<rparr>"
  have next_num: "PktNumSent s = PktNum s + 1" using s assms(2) by (cases b) auto
  have off: "(if (of_nat b :: u8) = 0 then PktNumOffset s + 256 else PktNumOffset s) = 256 * int (b div 256)"
  proof -
    obtain a where a: "b = Suc a" using assms(2) by (cases b) auto
    have "PktNumOffset s = 256 * int (a div 256)" using s a by simp
    then show ?thesis unfolding a of_nat_u8_zero by (simp add: div_Suc)
  qed
  have pn: "PktNumSent s = of_nat b" using s assms(2) by simp
  have "answer_byte ACK (s\<lparr>Comm := c\<rparr>) (False, False) = (v\<lparr>Comm := c\<rparr>, Next (True, False))" for c
  proof -
    have "answer_byte ACK (s\<lparr>Comm := c\<rparr>) (False, False) = (s\<lparr>Comm := c, PktNum := of_nat b,
        PktNumOffset := (if (of_nat b :: u8) = 0 then PktNumOffset s + 256 else PktNumOffset s), CANCount := 0\<rparr>, Next (True, False))"
      using assms(3) next_num pn by (cases "(of_nat b :: u8) = 0") (simp_all add: answer_byte_def Let_def)
    then show ?thesis unfolding off v_def by simp
  qed
  then obtain c where c: "conn [] [] c" "XParse op s = send_answer (v\<lparr>Comm := c\<rparr>)"
    using one_answer [OF assms(4), of v True] s by (auto simp: v_def)
  have "sender_next W b (v\<lparr>Comm := c\<rparr>)" using s assms(2,3) pn by (simp add: sender_next_def v_def)
  from send_next [OF this, of "[]"] c show ?thesis by (simp add: v_def)
qed

lemma send_ack_end:
  assumes "sender W b s" "0 < b" "\<not> FileOpen s" "conn [ACK] [] (Comm s)"
  shows "\<exists>s'. XParse op s = Some (s', False) \<and> Success s' \<and> conn [] [] (Comm s')"
proof -
  obtain c where c: "conn [] [] c" "answer_loop op s (False, False) =
    (case answer_byte ACK (s\<lparr>Comm := c\<rparr>) (False, False) of (v, Return r) \<Rightarrow> Some (v, Return r) | (v, Next f) \<Rightarrow> answer_loop op v f)"
    using answer_loop_Cons [OF assms(4)] by blast
  have "answer_byte ACK (s\<lparr>Comm := c\<rparr>) (False, False) = (s\<lparr>Comm := c, Success := True\<rparr>, Return False)"
    using assms(3) by (simp add: answer_byte_def)
  then have "XParse op s = Some (s\<lparr>Comm := c, Success := True\<rparr>, False)"
    using c(2) assms(1) by (simp add: XParse_def IdXSend_def IdXReceive_def XSendPacket_answer sender_def)
  then show ?thesis using c(1) by simp
qed

lemma answer_NAK_later:
  assumes "sender W b s" "0 < b"
  shows "answer_byte NAK (s\<lparr>Comm := c\<rparr>) (False, False) = (s\<lparr>CANCount := 0, Comm := c\<rparr>, Next (True, False))"
    "answer_byte cC (s\<lparr>Comm := c\<rparr>) (False, False) = (s\<lparr>CANCount := 0, Comm := c\<rparr>, Next (False, False))"
proof -
  have "\<not> (PktNum s = 0 \<and> PktNumOffset s = 0 \<and> PktNumSent s = 0)"
  proof
    assume "PktNum s = 0 \<and> PktNumOffset s = 0 \<and> PktNumSent s = 0"
    then have "(of_nat b :: u8) = 0" "(of_nat (b - 1) :: u8) = 0" using assms by (auto simp: sender_def)
    then show False using assms(2) by (cases b) auto
  qed
  then show "answer_byte NAK (s\<lparr>Comm := c\<rparr>) (False, False) = (s\<lparr>CANCount := 0, Comm := c\<rparr>, Next (True, False))"
    "answer_byte cC (s\<lparr>Comm := c\<rparr>) (False, False) = (s\<lparr>CANCount := 0, Comm := c\<rparr>, Next (False, False))"
    by (auto simp: answer_byte_def ACK_def NAK_def CAN_def cC_def Let_def)
qed

lemma send_nak:
  assumes "sender W b s" "0 < b" "conn [NAK] [] (Comm s)"
  shows "\<exists>s'. XParse op s = Some (s', True) \<and> sender W b s' \<and> DataLen s' = DataLen s \<and> CheckLen s' = CheckLen s \<and>
    conn [] (packet_of (DataLen s) (CheckLen s) W b) (Comm s')"
proof -
  note s = assms(1) [unfolded sender_def]
  obtain c where c: "conn [] [] c" "XParse op s = send_answer (s\<lparr>CANCount := 0, Comm := c\<rparr>)"
    using one_answer [OF assms(3), of "s\<lparr>CANCount := 0\<rparr>" True] s answer_NAK_later(1) [OF assms(1,2)] by auto
  have "sender W b (s\<lparr>CANCount := 0, Comm := c\<rparr>)" using assms(1) by (simp add: sender_def)
  from send_again [OF this assms(2), of "[]"] c show ?thesis by simp
qed

lemma send_C:
  assumes "sender W b s" "0 < b" "conn [cC] [] (Comm s)"
  shows "\<exists>s'. XParse op s = Some (s', True) \<and> sender W b s' \<and> DataLen s' = DataLen s \<and> CheckLen s' = CheckLen s \<and>
    conn [] [] (Comm s')"
proof -
  note s = assms(1) [unfolded sender_def]
  obtain c where c: "conn [] [] c" "XParse op s = Some (s\<lparr>CANCount := 0, Comm := c\<rparr>, True)"
    using one_answer [OF assms(3), of "s\<lparr>CANCount := 0\<rparr>" False] s answer_NAK_later(2) [OF assms(1,2)] by auto
  have "sender W b (s\<lparr>CANCount := 0, Comm := c\<rparr>)" using assms(1) by (simp add: sender_def)
  then show ?thesis using c by simp
qed

lemma send_nothing:
  assumes "sender W b s" "conn [] q (Comm s)"
  shows "\<exists>c. XParse op s = Some (s\<lparr>Comm := c\<rparr>, True) \<and> conn [] q c"
proof -
  obtain c where "answer_loop op s (False, False) = Some (s\<lparr>Comm := c\<rparr>, Next (False, False))" "conn [] q c"
    using answer_loop_Nil [OF assms(2)] by blast
  then show ?thesis using assms(1)
    by (intro exI [of _ c]) (simp add: XParse_def IdXSend_def IdXReceive_def XSendPacket_answer sender_def)
qed

text \<open>The first request chooses the kind of check: C a CRC, NAK a sum.\<close>

lemma send_first:
  assumes "sender W 0 s" "b = NAK \<or> b = cC" "conn [b] [] (Comm s)"
  shows "\<exists>s'. XParse op s = Some (s', True) \<and> sender W 1 s' \<and> DataLen s' = DataLen s \<and>
    CheckLen s' = (if b = NAK then 1 else 2) \<and> conn [] (packet_of (DataLen s') (CheckLen s') W 1) (Comm s')"
proof -
  note s = assms(1) [unfolded sender_def]
  let ?opt = "if b = NAK then (if DataLen s = 128 then XoptCheck else Xopt1kCksum)
    else (if DataLen s = 128 then XoptCRC else Xopt1kCRC)"
  define v where "v = s\<lparr>XOpt := ?opt, CheckLen := (if b = NAK then 1 else 2), CANCount := 0\<rparr>"
  have o: "opt_set s" using s by blast
  have same: "s\<lparr>Comm := c, XOpt := p, DataLen := d, CheckLen := k, CANCount := 0\<rparr> =
      s\<lparr>Comm := c, XOpt := p, CheckLen := k, CANCount := 0\<rparr>" if "DataLen s = d" for c d p k
    using that by (cases s) simp
  have same2: "s\<lparr>Comm := c, CANCount := 0\<rparr> = s\<lparr>Comm := c, XOpt := p, CheckLen := k, CANCount := 0\<rparr>"
    if "XOpt s = p" "CheckLen s = k" for c p k
    using that by (cases s) simp
  have ans: "\<exists>g. answer_byte b (s\<lparr>Comm := c\<rparr>) (False, False) = (v\<lparr>Comm := c\<rparr>, Next (True, g))" for c
  proof (cases "b = NAK")
    case True
    then show ?thesis using s o same same2
      by (cases "XOpt s") (auto simp: answer_byte_def ACK_def NAK_def CAN_def cC_def v_def XSetOpt_def opt_set_def Let_def)
  next
    case False
    then have "b = cC" using assms(2) by blast
    then show ?thesis using s o same same2
      by (cases "XOpt s") (auto simp: answer_byte_def ACK_def NAK_def CAN_def cC_def v_def XSetOpt_def opt_set_def Let_def)
  qed
  obtain c where c: "conn [] [] c" "XParse op s = send_answer (v\<lparr>Comm := c\<rparr>)"
    using one_answer [OF assms(3), of v True] s ans by (auto simp: v_def)
  have "opt_set v" using opt_setD [OF o] by (auto simp: opt_set_def v_def)
  then have "sender_next W 0 (v\<lparr>Comm := c\<rparr>)" using s by (simp add: sender_next_def v_def)
  from send_next [OF this, of "[]"] c show ?thesis by (auto simp: v_def)
qed

lemma send_cancelled:
  assumes "sender W b s" "conn cancel_bytes [] (Comm s)"
  shows "\<exists>s'. XParse op s = Some (s', False) \<and> Success s' = Success s \<and> conn [CAN, CAN, 8, 8, 8, 8, 8] [] (Comm s')"
proof -
  note s = assms(1) [unfolded sender_def]
  have can: "answer_byte CAN x f = (x\<lparr>CANCount := CANCount x + 1\<rparr>, if CANCount x + 1 \<le> 2 then Next f else Return False)"
    for x :: "'c xvar" and f
    by (simp add: answer_byte_def CAN_def ACK_def NAK_def Let_def split: prod.split)
  obtain c0 where c0: "conn [CAN, CAN, CAN, CAN, 8, 8, 8, 8, 8] [] c0" "answer_loop op s (False, False) =
      answer_loop op (s\<lparr>Comm := c0, CANCount := 1\<rparr>) (False, False)"
    using answer_loop_Cons [of CAN "[CAN, CAN, CAN, CAN, 8, 8, 8, 8, 8]" "[]" s "(False, False)"] assms(2) s
    by (auto simp: cancel_bytes_def can)
  obtain c1 where c1: "conn [CAN, CAN, CAN, 8, 8, 8, 8, 8] [] c1" "answer_loop op (s\<lparr>Comm := c0, CANCount := 1\<rparr>) (False, False) =
      answer_loop op (s\<lparr>Comm := c1, CANCount := 2\<rparr>) (False, False)"
    using answer_loop_Cons [of CAN "[CAN, CAN, CAN, 8, 8, 8, 8, 8]" "[]" "s\<lparr>Comm := c0, CANCount := 1\<rparr>" "(False, False)"] c0(1)
    by (auto simp: can)
  obtain c2 where c2: "conn [CAN, CAN, 8, 8, 8, 8, 8] [] c2" "answer_loop op (s\<lparr>Comm := c1, CANCount := 2\<rparr>) (False, False) =
      Some (s\<lparr>Comm := c2, CANCount := 3\<rparr>, Return False)"
    using answer_loop_Cons [of CAN "[CAN, CAN, 8, 8, 8, 8, 8]" "[]" "s\<lparr>Comm := c1, CANCount := 2\<rparr>" "(False, False)"] c1(1)
    by (auto simp: can)
  then have "XParse op s = Some (s\<lparr>Comm := c2, CANCount := 3\<rparr>, False)"
    using c0(2) c1(2) c2(2) s by (simp add: XParse_def IdXSend_def IdXReceive_def XSendPacket_answer)
  then show ?thesis using c2(1) by simp
qed

end

end
