(* ===== verification/XmodemSession.thy ===== *)
theory XmodemSession
  imports XmodemFacts
begin

section \<open>Two ends of an XMODEM transfer\<close>

text \<open>
  Sender and receiver together, on a line that carries the bytes of one end to the other: an
  undisturbed transfer brings the whole file over, and on a line that loses messages the
  receiver never writes anything but the beginning of the file.
\<close>

subsection \<open>The session\<close>

text \<open>\<open>wout\<close> takes what an end has to send, \<open>win\<close> puts it where the other end reads.\<close>

definition carry :: "('c \<Rightarrow> 'c \<times> u8 list) \<Rightarrow> (u8 list \<Rightarrow> 'c \<Rightarrow> 'c option) \<Rightarrow> 'c xvar \<times> 'c xvar \<Rightarrow> ('c xvar \<times> 'c xvar) option" where
  "carry wout win p =
     (let (x, y) = p; (c, B) = wout (Comm x)
      in do { c' \<leftarrow> win B (Comm y); Some (x\<lparr>Comm := c\<rparr>, y\<lparr>Comm := c'\<rparr>) })"

definition exchange :: "'c comm_op \<Rightarrow> ('c \<Rightarrow> 'c \<times> u8 list) \<Rightarrow> (u8 list \<Rightarrow> 'c \<Rightarrow> 'c option) \<Rightarrow>
    'c xvar \<times> 'c xvar \<Rightarrow> ('c xvar \<times> 'c xvar) option" where
  "exchange op wout win p =
     do {
       (r, s) \<leftarrow> carry wout win (snd p, fst p);
       (s, _) \<leftarrow> XParse op s;
       (s, r) \<leftarrow> carry wout win (s, r);
       (r, _) \<leftarrow> XParse op r;
       Some (s, r)
     }"

fun exchanges :: "'c comm_op \<Rightarrow> ('c \<Rightarrow> 'c \<times> u8 list) \<Rightarrow> (u8 list \<Rightarrow> 'c \<Rightarrow> 'c option) \<Rightarrow> nat \<Rightarrow>
    'c xvar \<times> 'c xvar \<Rightarrow> ('c xvar \<times> 'c xvar) option" where
  "exchanges op wout win 0 p = Some p"
| "exchanges op wout win (Suc n) p = do { p \<leftarrow> exchange op wout win p; exchanges op wout win n p }"

text \<open>Both ends are started; the first call of each throws away what has arrived before.\<close>

definition start_end :: "'c comm_op \<Rightarrow> xset \<Rightarrow> u8 list \<Rightarrow> int \<Rightarrow> xopt \<Rightarrow> 'c \<Rightarrow> 'c xvar option" where
  "start_end op T W m opt c =
     do {
       (x, _) \<leftarrow> XInit op T (Some W) [] (SetOptV (XMODEM_OPT opt) (SetOptV (XMODEM_MODE m) (XCreate c)));
       (x, _) \<leftarrow> XParse op x;
       Some x
     }"

text \<open>The file as the receiver writes it: the last block is filled with 0x1A.\<close>

definition padded :: "nat \<Rightarrow> u8 list \<Rightarrow> u8 list" where
  "padded d W = W @ replicate ((d - length W mod d) mod d) 0x1A"

definition packet_size :: "xopt \<Rightarrow> nat" where
  "packet_size opt = (if opt = XoptCheck \<or> opt = XoptCRC then 128 else 1024)"

definition block_count :: "nat \<Rightarrow> u8 list \<Rightarrow> nat" where
  "block_count d W = (length W + d - 1) div d"

definition written :: "nat \<Rightarrow> u8 list \<Rightarrow> nat \<Rightarrow> u8 list" where
  "written d W k = concat (map (\<lambda>i. block d (drop (i * d) W)) [0..<k])"

lemma written_Suc: "written d W (Suc k) = written d W k @ block d (drop (k * d) W)"
  by (simp add: written_def)

lemma written_0 [simp]: "written d W 0 = []"
  by (simp add: written_def)

lemma padded_length: "0 < d \<Longrightarrow> length (padded d W) = block_count d W * d"
proof -
  assume d: "0 < d"
  define n q r where "n = length W" and "q = n div d" and "r = n mod d"
  have n: "n = d * q + r" and r: "r < d" using d by (simp_all add: q_def r_def)
  show ?thesis
  proof (cases "r = 0")
    case True
    have "(n + d - 1) div d = q" by (rule div_nat_eqI) (use n True d in simp_all)
    then show ?thesis using n True d by (simp add: padded_def block_count_def n_def [symmetric] r_def [symmetric])
  next
    case False
    have "(n + d - 1) div d = Suc q" by (rule div_nat_eqI) (use n False r d in simp_all)
    then show ?thesis using n False r d
      by (simp add: padded_def block_count_def n_def [symmetric] r_def [symmetric])
  qed
qed

lemma block_padded:
  assumes "k * d < length W" "0 < d"
  shows "block d (drop (k * d) W) = take d (drop (k * d) (padded d W))"
proof (cases "length W - k * d < d")
  case True
  let ?m = "length W - k * d"
  have n: "length W = ?m + k * d" using assms(1) by simp
  have "length W mod d = ?m"
  proof -
    have "length W mod d = (?m + k * d) mod d" using n by simp
    also have "\<dots> = ?m" using True by simp
    finally show ?thesis .
  qed
  moreover have "0 < ?m" using assms(1) by simp
  ultimately have "padded d W = W @ replicate (d - ?m) 0x1A" using True by (simp add: padded_def)
  then show ?thesis using True assms(1) by (simp add: block_def)
next
  case False
  then show ?thesis by (simp add: block_def padded_def)
qed

lemma written_padded:
  "0 < d \<Longrightarrow> (\<forall>i<k. i * d < length W) \<Longrightarrow> written d W k = take (k * d) (padded d W)"
proof (induction k)
  case 0
  then show ?case by simp
next
  case (Suc k)
  have "written d W (Suc k) = take (k * d) (padded d W) @ take d (drop (k * d) (padded d W))"
    using Suc block_padded [of k d W] by (simp add: written_Suc)
  also have "\<dots> = take (Suc k * d) (padded d W)" by (simp add: take_add [symmetric] add.commute)
  finally show ?case .
qed

lemma drop_block_count:
  "0 < d \<Longrightarrow> drop (k * d) W = [] \<longleftrightarrow> block_count d W \<le> k"
proof -
  assume d: "0 < d"
  have "block_count d W \<le> k \<longleftrightarrow> length W + d - 1 < Suc k * d"
    using d div_less_iff_less_mult [of d "length W + d - 1" "Suc k"] by (auto simp: block_count_def)
  also have "\<dots> \<longleftrightarrow> length W \<le> k * d" using d by auto
  finally show ?thesis by simp
qed

lemma written_all: "0 < d \<Longrightarrow> written d W (block_count d W) = padded d W"
proof -
  assume d: "0 < d"
  have "\<forall>i<block_count d W. i * d < length W" using drop_block_count [OF d, of _ W] by (auto simp: not_le [symmetric])
  from written_padded [OF d this] show ?thesis using padded_length [OF d, of W] by simp
qed

lemma packet_of_data:
  assumes "d = 128 \<or> d = 1024" "b < block_count (nat d) W"
  shows "packet_of d k W (Suc b) = mk_packet d k (of_nat (Suc b)) (block (nat d) (drop (b * nat d) W))"
proof -
  have "0 < nat d" using assms(1) by auto
  then have "drop (b * nat d) W \<noteq> []" using assms(2) drop_block_count [of "nat d" b W] by auto
  then show ?thesis by (simp add: packet_of_def Let_def)
qed

lemma packet_of_EOT:
  assumes "d = 128 \<or> d = 1024"
  shows "packet_of d k W (Suc (block_count (nat d) W)) = [EOT]"
proof -
  have "0 < nat d" using assms(1) by auto
  then have "drop (block_count (nat d) W * nat d) W = []" using drop_block_count [of "nat d" _ W] by auto
  then show ?thesis by (simp add: packet_of_def Let_def)
qed

subsection \<open>An undisturbed transfer\<close>

definition sum_only :: "xopt \<Rightarrow> bool" where
  "sum_only opt \<longleftrightarrow> opt = XoptCheck \<or> opt = Xopt1kCksum"

lemma rcv_phase [simp]: "rcv k dn (x\<lparr>xphase := f\<rparr>) = rcv k dn x" "rcv k dn (x\<lparr>Comm := c\<rparr>) = rcv k dn x"
    "rcv k dn (x\<lparr>isXCancel := g\<rparr>) = rcv k dn x"
  by (simp_all add: rcv_def opt_set_def)

lemma sender_Comm [simp]: "sender W b (x\<lparr>Comm := c\<rparr>) = sender W b x"
  by (simp add: sender_def)

context comm_port
begin

lemma carry_conn:
  assumes "conn p B (Comm x)" "conn [] q (Comm y)" "length B \<le> 2048"
  shows "\<exists>c c'. carry wout win (x, y) = Some (x\<lparr>Comm := c\<rparr>, y\<lparr>Comm := c'\<rparr>) \<and> conn p [] c \<and> conn B q c'"
proof -
  have x: "ok (Comm x)" "rx (Comm x) = p" "tx (Comm x) = B" and y: "ok (Comm y)" "rx (Comm y) = []" "tx (Comm y) = q"
    using assms by (auto simp: conn_def)
  obtain c where c: "wout (Comm x) = (c, B)" "ok c" "rx c = p" "tx c = []" using wout_all [OF x(1)] x by auto
  obtain c' where "win B (Comm y) = Some c'" "ok c'" "rx c' = B" "tx c' = q"
    using win_all [OF y(1,2), of B] y(3) assms(3) cap_packet by auto
  then show ?thesis using c by (auto simp: carry_def conn_def)
qed

lemma start_sender:
  assumes "conn p [] c" "XModemRcvCommand T = []" "length W \<le> 0x7FFFFFFF"
  shows "\<exists>s. start_end op T W IdXSend opt c = Some s \<and> sender W 0 s \<and> conn [] [] (Comm s) \<and>
    DataLen s = int (packet_size opt) \<and> \<not> Success s"
proof -
  define x0 where "x0 = SetOptV (XMODEM_OPT opt) (SetOptV (XMODEM_MODE IdXSend) (XCreate c))"
  have x0: "XMode x0 = IdXSend" "Comm x0 = c" "XOpt x0 = opt" "length (PktOut x0) = 1030" "\<not> Success x0"
    by (simp_all add: x0_def SetOptV_def XCreate_def)
  obtain c1 where c1: "XFlushReceiveBuf op (x0\<lparr>FileOpen := True, infile := W\<rparr>) = Some (x0\<lparr>FileOpen := True, infile := W, Comm := c1\<rparr>)"
    "conn [] [] c1"
    using flush_conn [of p "[]" "x0\<lparr>FileOpen := True, infile := W\<rparr>"] assms(1) x0(2) by auto
  define x1 where "x1 = x0\<lparr>FileOpen := True, infile := W, Comm := c1, PktNumOffset := 0, PktNum := 0, PktNumSent := 0,
     PktBufCount := 0, CRRecv := False, CANCount := 0, ByteCount := 0, TOutInit := XmodemTimeOutInit T,
              TOutInitCRC := XmodemTimeOutInitCRC T, TOutVLong := XmodemTimeOutVLong T,
              TOutShort := (if PortTCPIP T then XmodemTimeOutVLong T else XmodemTimeOutShort T),
              TOutLong := (if PortTCPIP T then XmodemTimeOutVLong T else XmodemTimeOutLong T)\<rparr>"
  define x2 where "x2 = XSetOpt opt x1"
  have x2: "opt_set x2" "XMode x2 = IdXSend" "PktNum x2 = 0" "PktNumSent x2 = 0" "PktNumOffset x2 = 0" "PktBufCount x2 = 0"
    "CANCount x2 = 0" "FileOpen x2" "infile x2 = W" "Comm x2 = c1" "length (PktOut x2) = 1030" "DataLen x2 = int (packet_size opt)"
    "\<not> Success x2" "XOpt x1 = opt" "XOpt x2 = opt"
    using x0 by (cases opt; simp add: x2_def x1_def XSetOpt_def opt_set_def packet_size_def)+
  obtain x3 where x3: "XInit op T (Some W) [] x0 = Some (x3, True)" "opt_set x3" "XMode x3 = IdXSend" "PktNum x3 = 0" "PktNumSent x3 = 0"
    "PktNumOffset x3 = 0" "PktBufCount x3 = 0" "CANCount x3 = 0" "FileOpen x3" "infile x3 = W" "Comm x3 = c1"
    "length (PktOut x3) = 1030" "DataLen x3 = int (packet_size opt)" "\<not> Success x3" "xphase x3 = STATE_FLUSH" "\<not> isXCancel x3"
  proof -
    define m n where "m = (if opt = XoptCheck \<or> opt = Xopt1kCksum then XnakNAK else XnakC)"
      and "n = (if opt = XoptCheck \<or> opt = Xopt1kCksum then 10 else (3 :: int))"
    define y where "y = x2\<lparr>NAKMode := m, NAKCount := n\<rparr>"
    have "XInit op T (Some W) [] x0 = Some ((FTSetTimeOut (TOutVLong y) y)\<lparr>xphase := STATE_FLUSH, isXCancel := False\<rparr>, True)"
    proof -
      have y: "(if opt = XoptCheck \<or> opt = Xopt1kCksum then x2\<lparr>NAKMode := XnakNAK, NAKCount := 10\<rparr> else x2\<lparr>NAKMode := XnakC, NAKCount := 3\<rparr>) = y"
        by (simp add: y_def m_def n_def)
      have my: "XMode y = IdXSend" using x2(2) by (simp add: y_def)
      have "XInit op T (Some W) [] x0 = (let xv = XSetOpt (XOpt x1) x1;
          xv = (if XOpt xv = XoptCheck \<or> XOpt xv = Xopt1kCksum then xv\<lparr>NAKMode := XnakNAK, NAKCount := 10\<rparr> else xv\<lparr>NAKMode := XnakC, NAKCount := 3\<rparr>)
        in if XMode xv = IdXSend then Some ((FTSetTimeOut (TOutVLong xv) xv)\<lparr>xphase := STATE_FLUSH, isXCancel := False\<rparr>, True)
           else do { xv \<leftarrow> (if XMode xv = IdXReceive then XSendNAK op xv else Some xv); Some (xv\<lparr>xphase := STATE_FLUSH, isXCancel := False\<rparr>, True) })"
        using assms(2,3) x0(1) c1(1) unfolding XInit_def x1_def Let_def by simp
      also have "\<dots> = Some ((FTSetTimeOut (TOutVLong y) y)\<lparr>xphase := STATE_FLUSH, isXCancel := False\<rparr>, True)"
        unfolding x2(14) x2_def [symmetric] x2(15) Let_def y using my by simp
      finally show ?thesis .
    qed
    then show thesis using that x2 by (simp add: y_def FTSetTimeOut_def opt_set_def)
  qed
  obtain c2 where c2: "XFlushReceiveBuf op x3 = Some (x3\<lparr>Comm := c2\<rparr>)" "conn [] [] c2"
    using flush_conn [of "[]" "[]" x3] c1(2) x3(11) by auto
  have "start_end op T W IdXSend opt c = Some (x3\<lparr>Comm := c2, xphase := STATE_NORMAL\<rparr>)"
    using x3(1,15) c2(1) unfolding x0_def by (simp add: start_end_def XParse_def)
  then show ?thesis using x3 c2(2) by (simp add: sender_def opt_set_def)
qed

lemma start_receiver:
  assumes "conn p [] c"
  shows "\<exists>r. start_end op T [] IdXReceive opt c = Some r \<and> rcv 0 [] r \<and> xphase r = STATE_NORMAL \<and>
    conn [] [if sum_only opt then NAK else cC] (Comm r) \<and> CheckLen r = (if sum_only opt then 1 else 2) \<and> 0 < NAKCount r"
proof -
  define x0 where "x0 = SetOptV (XMODEM_OPT opt) (SetOptV (XMODEM_MODE IdXReceive) (XCreate c))"
  have x0: "XMode x0 = IdXReceive" "XMode x0 \<noteq> IdXSend" "xphase x0 = STATE_FLUSH" "Comm x0 = c" "XOpt x0 = opt" "length (PktIn x0) = 1030" "\<not> Success x0"
    "PktReadMode x0 = XpktSOH" "\<not> TextFlagTrim1A x0" "\<not> TextFlagConvertCRLF x0"
    by (simp_all add: x0_def SetOptV_def XCreate_def IdXReceive_def IdXSend_def)
  define x1 where "x1 = x0\<lparr>FileOpen := True, outfile := [], PktNumOffset := 0, PktNum := 0, PktNumSent := 0,
     PktBufCount := 0, CRRecv := False, CANCount := 0, ByteCount := 0, TOutInit := XmodemTimeOutInit T,
              TOutInitCRC := XmodemTimeOutInitCRC T, TOutVLong := XmodemTimeOutVLong T,
              TOutShort := (if PortTCPIP T then XmodemTimeOutVLong T else XmodemTimeOutShort T),
              TOutLong := (if PortTCPIP T then XmodemTimeOutVLong T else XmodemTimeOutLong T)\<rparr>"
  define x2 where "x2 = XSetOpt opt x1"
  define m n where "m = (if opt = XoptCheck \<or> opt = Xopt1kCksum then XnakNAK else XnakC)"
    and "n = (if opt = XoptCheck \<or> opt = Xopt1kCksum then 10 else (3 :: int))"
  define y where "y = x2\<lparr>NAKMode := m, NAKCount := n\<rparr>"
  have x2: "XOpt x1 = opt" "XOpt x2 = opt"
    using x0(5) by (cases opt; simp add: x2_def x1_def XSetOpt_def)+
  have y: "rcv 0 [] y" "Comm y = c" "CheckLen y = (if sum_only opt then 1 else 2)" "NAKMode y = m" "NAKCount y = n"
    "XMode y = IdXReceive" "xphase y = STATE_FLUSH"
    using x0 by (cases opt; simp add: y_def x2_def x1_def XSetOpt_def opt_set_def rcv_def sum_only_def m_def)+
  have n: "0 < n - 1" by (simp add: n_def)
  obtain v where v: "XSendNAK op y = Some v" "rcv 0 [] v" "CheckLen v = CheckLen y" "NAKCount v = n - 1"
    "conn [] [if NAKMode v = XnakNAK then NAK else cC] (Comm v)" "NAKMode v = NAKMode y"
    using nak_conn [of p "[]" y 0 "[]"] assms y n by auto
  have init: "XInit op T (Some []) [] x0 = Some (v\<lparr>xphase := STATE_FLUSH, isXCancel := False\<rparr>, True)"
  proof -
    have yy: "(if opt = XoptCheck \<or> opt = Xopt1kCksum then x2\<lparr>NAKMode := XnakNAK, NAKCount := 10\<rparr> else x2\<lparr>NAKMode := XnakC, NAKCount := 3\<rparr>) = y"
      by (simp add: y_def m_def n_def)
    have "XInit op T (Some []) [] x0 = (let xv = XSetOpt (XOpt x1) x1;
          xv = (if XOpt xv = XoptCheck \<or> XOpt xv = Xopt1kCksum then xv\<lparr>NAKMode := XnakNAK, NAKCount := 10\<rparr> else xv\<lparr>NAKMode := XnakC, NAKCount := 3\<rparr>)
        in do { xv \<leftarrow> (if XMode xv = IdXSend
                   then do {
                     xv \<leftarrow> (if XModemRcvCommand T \<noteq> []
                            then xput op (take 269 (XModemRcvCommand T @ [0x20] @ [] @ [0x0D])) xv
                            else Some xv);
                     Some (FTSetTimeOut (TOutVLong xv) xv)
                   }
                   else if XMode xv = IdXReceive then XSendNAK op xv else Some xv);
             Some (xv\<lparr>xphase := STATE_FLUSH, isXCancel := False\<rparr>, True) })"
      using x0(2) unfolding XInit_def x1_def Let_def by simp
    also have "\<dots> = Some (v\<lparr>xphase := STATE_FLUSH, isXCancel := False\<rparr>, True)"
      unfolding x2(1) x2_def [symmetric] x2(2) Let_def yy using y(6) v(1) by (simp add: IdXSend_def IdXReceive_def)
    finally show ?thesis .
  qed
  let ?q = "[if NAKMode v = XnakNAK then NAK else cC]"
  obtain c2 where c2: "XFlushReceiveBuf op (v\<lparr>xphase := STATE_FLUSH, isXCancel := False\<rparr>) =
      Some (v\<lparr>xphase := STATE_FLUSH, isXCancel := False, Comm := c2\<rparr>)" "conn [] ?q c2"
    using flush_conn [of "[]" ?q "v\<lparr>xphase := STATE_FLUSH, isXCancel := False\<rparr>"] v(5) by auto
  have "start_end op T [] IdXReceive opt c = Some (v\<lparr>isXCancel := False, Comm := c2, xphase := STATE_NORMAL\<rparr>)"
    using init c2(1) unfolding x0_def by (simp add: start_end_def XParse_def)
  moreover have "(NAKMode v = XnakNAK) = sum_only opt" using v(6) y(4) by (simp add: m_def sum_only_def)
  ultimately show ?thesis using v y(3) c2(2) n by simp
qed

text \<open>One round: the answer goes over, the next packet comes back and is taken.\<close>

lemma recv_packet:
  assumes "conn (mk_packet d (CheckLen r) (of_nat (Suc k)) B) [] (Comm r)" "rcv k dn r" "xphase r = STATE_NORMAL"
    "d = 128 \<or> d = 1024" "int (length B) = d"
  shows "\<exists>r'. XParse op r = Some (r', True) \<and> xphase r' = STATE_NORMAL \<and> conn [] [ACK] (Comm r') \<and>
    rcv (Suc k) (dn @ B) r' \<and> CheckLen r' = CheckLen r"
  using recv_good [of d "Suc k" B "check_bytes (CheckLen r) B" "[]" "[]" r k dn] assms by (auto simp: mk_packet_def)

definition under_way :: "u8 list \<Rightarrow> nat \<Rightarrow> int \<Rightarrow> 'c xvar \<times> 'c xvar \<Rightarrow> bool" where
  "under_way W b d p \<longleftrightarrow> (let (s, r) = p in sender W b s \<and> conn [] [] (Comm s) \<and> DataLen s = d \<and>
     rcv b (written (nat d) W b) r \<and> xphase r = STATE_NORMAL \<and> conn [] [ACK] (Comm r) \<and> CheckLen r = CheckLen s)"

lemma first_exchange:
  assumes "sender W 0 s" "conn [] [] (Comm s)" "DataLen s = d" "rcv 0 [] r" "xphase r = STATE_NORMAL"
    "conn [] [if CheckLen r = 1 then NAK else cC] (Comm r)" "0 < block_count (nat d) W"
  shows "\<exists>p. exchange op wout win (s, r) = Some p \<and> under_way W 1 d p"
proof -
  have d: "d = 128 \<or> d = 1024" and k: "CheckLen r = 1 \<or> CheckLen r = 2"
    using opt_setD [of s] opt_setD [of r] assms(1,3,4) by (auto simp: sender_def rcv_def)
  let ?b = "if CheckLen r = 1 then NAK else cC"
  obtain cr cs where c1: "carry wout win (r, s) = Some (r\<lparr>Comm := cr\<rparr>, s\<lparr>Comm := cs\<rparr>)" "conn [] [] cr" "conn [?b] [] cs"
    using carry_conn [of "[]" "[?b]" r "[]" s] assms(2,6) by auto
  have nk: "NAK \<noteq> cC" by (simp add: NAK_def cC_def)
  obtain s' where s': "XParse op (s\<lparr>Comm := cs\<rparr>) = Some (s', True)" "sender W 1 s'" "DataLen s' = d" "CheckLen s' = CheckLen r"
    "conn [] (packet_of d (CheckLen r) W 1) (Comm s')"
    using send_first [of W "s\<lparr>Comm := cs\<rparr>" ?b] assms(1,3) c1(3) k nk by auto
  let ?B = "block (nat d) (drop (0 * nat d) W)"
  have P: "packet_of d (CheckLen r) W 1 = mk_packet d (CheckLen r) (of_nat (Suc 0)) ?B"
    using packet_of_data [OF d assms(7), of "CheckLen r"] by simp
  have le: "length (packet_of d (CheckLen r) W 1) \<le> 2048" using packet_of_length [OF d k, of W 1] by simp
  obtain cs' cr' where c2: "carry wout win (s', r\<lparr>Comm := cr\<rparr>) = Some (s'\<lparr>Comm := cs'\<rparr>, r\<lparr>Comm := cr'\<rparr>)" "conn [] [] cs'"
    "conn (packet_of d (CheckLen r) W 1) [] cr'"
    using carry_conn [of "[]" "packet_of d (CheckLen r) W 1" s' "[]" "r\<lparr>Comm := cr\<rparr>"] s'(5) c1(2) le by auto
  have nd: "int (length ?B) = d" using d by auto
  obtain r' where r': "XParse op (r\<lparr>Comm := cr'\<rparr>) = Some (r', True)" "xphase r' = STATE_NORMAL" "conn [] [ACK] (Comm r')"
    "rcv 1 ?B r'" "CheckLen r' = CheckLen r"
    using recv_packet [of d "r\<lparr>Comm := cr'\<rparr>" 0 ?B "[]"] c2(3) assms(4,5) d nd P by auto
  have "exchange op wout win (s, r) = Some (s'\<lparr>Comm := cs'\<rparr>, r')"
    using c1(1) s'(1) c2(1) r'(1) by (simp add: exchange_def)
  moreover have "under_way W 1 d (s'\<lparr>Comm := cs'\<rparr>, r')"
    using s' c2(2) r' by (simp add: under_way_def written_Suc [of _ _ 0, simplified])
  ultimately show ?thesis by blast
qed

lemma next_exchange:
  assumes "under_way W (Suc b) d p" "Suc b < block_count (nat d) W"
  shows "\<exists>p'. exchange op wout win p = Some p' \<and> under_way W (Suc (Suc b)) d p'"
proof -
  obtain s r where p: "p = (s, r)" by (cases p)
  note u = assms(1) [unfolded under_way_def p Let_def prod.case]
  have d: "d = 128 \<or> d = 1024" and k: "CheckLen r = 1 \<or> CheckLen r = 2"
    using opt_setD [of s] opt_setD [of r] u by (auto simp: sender_def rcv_def)
  obtain cr cs where c1: "carry wout win (r, s) = Some (r\<lparr>Comm := cr\<rparr>, s\<lparr>Comm := cs\<rparr>)" "conn [] [] cr" "conn [ACK] [] cs"
    using carry_conn [of "[]" "[ACK]" r "[]" s] u by auto
  have dpos: "0 < nat d" using d by auto
  have "drop (b * nat d) W \<noteq> []" using drop_block_count [OF dpos, of b W] assms(2) by auto
  then have fo: "FileOpen s" using u by (simp add: sender_def)
  let ?P = "packet_of d (CheckLen r) W (Suc (Suc b))"
  obtain s' where s': "XParse op (s\<lparr>Comm := cs\<rparr>) = Some (s', True)" "sender W (Suc (Suc b)) s'" "DataLen s' = d" "CheckLen s' = CheckLen r"
    "conn [] ?P (Comm s')"
    using send_ack [of W "Suc b" "s\<lparr>Comm := cs\<rparr>"] u c1(3) fo by auto
  let ?B = "block (nat d) (drop (Suc b * nat d) W)"
  have P: "?P = mk_packet d (CheckLen r) (of_nat (Suc (Suc b))) ?B"
    by (rule packet_of_data [OF d assms(2)])
  have le: "length ?P \<le> 2048" using packet_of_length [OF d k, of W "Suc (Suc b)"] by simp
  obtain cs' cr' where c2: "carry wout win (s', r\<lparr>Comm := cr\<rparr>) = Some (s'\<lparr>Comm := cs'\<rparr>, r\<lparr>Comm := cr'\<rparr>)" "conn [] [] cs'"
    "conn ?P [] cr'"
    using carry_conn [of "[]" ?P s' "[]" "r\<lparr>Comm := cr\<rparr>"] s'(5) c1(2) le by auto
  have nd: "int (length ?B) = d" using d by auto
  obtain r' where r': "XParse op (r\<lparr>Comm := cr'\<rparr>) = Some (r', True)" "xphase r' = STATE_NORMAL" "conn [] [ACK] (Comm r')"
    "rcv (Suc (Suc b)) (written (nat d) W (Suc b) @ ?B) r'" "CheckLen r' = CheckLen r"
    using recv_packet [of d "r\<lparr>Comm := cr'\<rparr>" "Suc b" ?B "written (nat d) W (Suc b)"] c2(3) u d nd P by auto
  have "exchange op wout win p = Some (s'\<lparr>Comm := cs'\<rparr>, r')"
    using c1(1) s'(1) c2(1) r'(1) by (simp add: exchange_def p)
  moreover have "under_way W (Suc (Suc b)) d (s'\<lparr>Comm := cs'\<rparr>, r')"
    using s' c2(2) r' by (simp add: under_way_def written_Suc)
  ultimately show ?thesis by blast
qed

text \<open>The end of the file, and the answer to it.\<close>

lemma eot_exchange:
  assumes "conn [] [EOT] (Comm s)" "conn [] [] (Comm r)" "rcv k dn r" "xphase r = STATE_NORMAL"
  shows "\<exists>c r'. (do { (s, r) \<leftarrow> carry wout win (s, r); (r, _) \<leftarrow> XParse op r; Some (s, r) }) = Some (s\<lparr>Comm := c\<rparr>, r') \<and>
    conn [] [] c \<and> conn [] [ACK] (Comm r') \<and> Success r' \<and> outfile r' = dn \<and> XMode r' = IdXReceive \<and> xphase r' = STATE_NORMAL"
proof -
  obtain cs cr where c: "carry wout win (s, r) = Some (s\<lparr>Comm := cs\<rparr>, r\<lparr>Comm := cr\<rparr>)" "conn [] [] cs" "conn [EOT] [] cr"
    using carry_conn [of "[]" "[EOT]" s "[]" r] assms(1,2) by auto
  obtain r' where "XParse op (r\<lparr>Comm := cr\<rparr>) = Some (r', False)" "conn [] [ACK] (Comm r')" "Success r'" "outfile r' = dn"
    "XMode r' = IdXReceive" "xphase r' = STATE_NORMAL"
    using recv_EOT [of "[]" "r\<lparr>Comm := cr\<rparr>" k dn] c(3) assms(3,4) by auto
  then show ?thesis using c by auto
qed

lemma exchange_split:
  "exchange op wout win p = do { (r, s) \<leftarrow> carry wout win (snd p, fst p); (s, _) \<leftarrow> XParse op s;
     (do { (s, r) \<leftarrow> carry wout win (s, r); (r, _) \<leftarrow> XParse op r; Some (s, r) }) }"
  by (simp add: exchange_def)

lemma last_exchange:
  assumes "sender W (Suc b) s" "\<not> FileOpen s" "conn [] [] (Comm s)" "conn [] [ACK] (Comm r)" "Success r" "outfile r = dn"
    "XMode r = IdXReceive" "xphase r = STATE_NORMAL"
  shows "\<exists>s' r'. exchange op wout win (s, r) = Some (s', r') \<and> Success s' \<and> Success r' \<and> outfile r' = dn"
proof -
  obtain cr cs where c1: "carry wout win (r, s) = Some (r\<lparr>Comm := cr\<rparr>, s\<lparr>Comm := cs\<rparr>)" "conn [] [] cr" "conn [ACK] [] cs"
    using carry_conn [of "[]" "[ACK]" r "[]" s] assms(3,4) by auto
  obtain s' where s': "XParse op (s\<lparr>Comm := cs\<rparr>) = Some (s', False)" "Success s'" "conn [] [] (Comm s')"
    using send_ack_end [of W "Suc b" "s\<lparr>Comm := cs\<rparr>"] assms(1,2) c1(3) by auto
  obtain cs' cr' where c2: "carry wout win (s', r\<lparr>Comm := cr\<rparr>) = Some (s'\<lparr>Comm := cs'\<rparr>, r\<lparr>Comm := cr'\<rparr>)" "conn [] [] cr'"
    using carry_conn [of "[]" "[]" s' "[]" "r\<lparr>Comm := cr\<rparr>"] s'(3) c1(2) by auto
  obtain c where "XParse op (r\<lparr>Comm := cr'\<rparr>) = Some (r\<lparr>Comm := c\<rparr>, True)"
    using recv_nothing [of "[]" "r\<lparr>Comm := cr'\<rparr>"] c2(2) assms(7,8) by auto
  then have "exchange op wout win (s, r) = Some (s'\<lparr>Comm := cs'\<rparr>, r\<lparr>Comm := c\<rparr>)"
    using c1(1) s'(1) c2(1) by (simp add: exchange_def)
  then show ?thesis using s'(2) assms(5,6) by simp
qed

lemma eot_after:
  assumes "under_way W (Suc b) d p" "Suc b = block_count (nat d) W"
  shows "\<exists>s r. exchange op wout win p = Some (s, r) \<and> sender W (Suc (Suc b)) s \<and> \<not> FileOpen s \<and> conn [] [] (Comm s) \<and>
    conn [] [ACK] (Comm r) \<and> Success r \<and> outfile r = written (nat d) W (Suc b) \<and> XMode r = IdXReceive \<and> xphase r = STATE_NORMAL"
proof -
  obtain s r where p: "p = (s, r)" by (cases p)
  note u = assms(1) [unfolded under_way_def p Let_def prod.case]
  have d: "d = 128 \<or> d = 1024" using opt_setD [of s] u by (auto simp: sender_def)
  then have dpos: "0 < nat d" by auto
  obtain cr cs where c1: "carry wout win (r, s) = Some (r\<lparr>Comm := cr\<rparr>, s\<lparr>Comm := cs\<rparr>)" "conn [] [] cr" "conn [ACK] [] cs"
    using carry_conn [of "[]" "[ACK]" r "[]" s] u by auto
  have "drop (b * nat d) W \<noteq> []" using drop_block_count [OF dpos, of b W] assms(2) by auto
  then have fo: "FileOpen s" using u by (simp add: sender_def)
  have P: "packet_of d k W (Suc (Suc b)) = [EOT]" for k
    using packet_of_EOT [OF d, of k W] unfolding assms(2) [symmetric] .
  obtain s' where s': "XParse op (s\<lparr>Comm := cs\<rparr>) = Some (s', True)" "sender W (Suc (Suc b)) s'" "DataLen s' = d"
    "conn [] [EOT] (Comm s')"
    using send_ack [of W "Suc b" "s\<lparr>Comm := cs\<rparr>"] u c1(3) fo P by auto
  have "drop (Suc b * nat d) W = []" using drop_block_count [OF dpos, of "Suc b" W] assms(2) by auto
  then have nf: "\<not> FileOpen s'" using s'(2,3) by (simp add: sender_def)
  obtain c r' where e: "(do { (s, r) \<leftarrow> carry wout win (s', r\<lparr>Comm := cr\<rparr>); (r, _) \<leftarrow> XParse op r; Some (s, r) }) = Some (s'\<lparr>Comm := c\<rparr>, r')"
    "conn [] [] c" "conn [] [ACK] (Comm r')" "Success r'" "outfile r' = written (nat d) W (Suc b)" "XMode r' = IdXReceive" "xphase r' = STATE_NORMAL"
    using eot_exchange [of s' "r\<lparr>Comm := cr\<rparr>" "Suc b" "written (nat d) W (Suc b)"] s'(4) c1(2) u by auto
  have "exchange op wout win p = Some (s'\<lparr>Comm := c\<rparr>, r')"
    unfolding exchange_split p fst_conv snd_conv using c1(1) s'(1) e(1) by simp
  then show ?thesis using s' nf e by auto
qed

lemma eot_first:
  assumes "sender W 0 s" "conn [] [] (Comm s)" "DataLen s = d" "rcv 0 [] r" "xphase r = STATE_NORMAL"
    "conn [] [if CheckLen r = 1 then NAK else cC] (Comm r)" "block_count (nat d) W = 0"
  shows "\<exists>s' r'. exchange op wout win (s, r) = Some (s', r') \<and> sender W (Suc 0) s' \<and> \<not> FileOpen s' \<and> conn [] [] (Comm s') \<and>
    conn [] [ACK] (Comm r') \<and> Success r' \<and> outfile r' = [] \<and> XMode r' = IdXReceive \<and> xphase r' = STATE_NORMAL"
proof -
  have d: "d = 128 \<or> d = 1024" using opt_setD [of s] assms(1,3) by (auto simp: sender_def)
  then have dpos: "0 < nat d" by auto
  let ?b = "if CheckLen r = 1 then NAK else cC"
  obtain cr cs where c1: "carry wout win (r, s) = Some (r\<lparr>Comm := cr\<rparr>, s\<lparr>Comm := cs\<rparr>)" "conn [] [] cr" "conn [?b] [] cs"
    using carry_conn [of "[]" "[?b]" r "[]" s] assms(2,6) by auto
  have bb: "?b = NAK \<or> ?b = cC" by simp
  have P: "packet_of d k W 1 = [EOT]" for k using packet_of_EOT [OF d, of k W] assms(7) by simp
  obtain s' where s': "XParse op (s\<lparr>Comm := cs\<rparr>) = Some (s', True)" "sender W 1 s'" "DataLen s' = d"
    "conn [] [EOT] (Comm s')"
    using send_first [of W "s\<lparr>Comm := cs\<rparr>", OF _ bb] assms(1,3) c1(3) P by auto
  have "W = []" using drop_block_count [OF dpos, of 0 W] assms(7) by simp
  then have nf: "\<not> FileOpen s'" using s'(2) by (simp add: sender_def)
  obtain c r' where e: "(do { (s, r) \<leftarrow> carry wout win (s', r\<lparr>Comm := cr\<rparr>); (r, _) \<leftarrow> XParse op r; Some (s, r) }) = Some (s'\<lparr>Comm := c\<rparr>, r')"
    "conn [] [] c" "conn [] [ACK] (Comm r')" "Success r'" "outfile r' = []" "XMode r' = IdXReceive" "xphase r' = STATE_NORMAL"
    using eot_exchange [of s' "r\<lparr>Comm := cr\<rparr>" 0 "[]"] s'(4) c1(2) assms(4,5) by auto
  have "exchange op wout win (s, r) = Some (s'\<lparr>Comm := c\<rparr>, r')"
    unfolding exchange_split fst_conv snd_conv using c1(1) s'(1) e(1) by simp
  then show ?thesis using s' nf e by auto
qed

lemma exchanges_Suc: "exchanges op wout win (Suc n) p = do { p \<leftarrow> exchanges op wout win n p; exchange op wout win p }"
proof (induction n arbitrary: p)
  case 0
  then show ?case by (cases "exchange op wout win p") simp_all
next
  case (Suc n)
  then show ?case by (cases "exchange op wout win p") simp_all
qed

lemma transfer:
  assumes "conn p [] c" "conn p' [] c'" "XModemRcvCommand T = []" "length W \<le> 0x7FFFFFFF"
  shows "\<exists>s r s' r'. start_end op T W IdXSend opt c = Some s \<and> start_end op T' [] IdXReceive opt' c' = Some r \<and>
    exchanges op wout win (block_count (packet_size opt) W + 2) (s, r) = Some (s', r') \<and>
    Success s' \<and> Success r' \<and> outfile r' = padded (packet_size opt) W"
proof -
  let ?d = "packet_size opt" and ?N = "block_count (packet_size opt) W"
  obtain s where s: "start_end op T W IdXSend opt c = Some s" "sender W 0 s" "conn [] [] (Comm s)" "DataLen s = int ?d"
    using start_sender [OF assms(1,3,4)] by blast
  obtain r where r: "start_end op T' [] IdXReceive opt' c' = Some r" "rcv 0 [] r" "xphase r = STATE_NORMAL"
    "conn [] [if sum_only opt' then NAK else cC] (Comm r)" "CheckLen r = (if sum_only opt' then 1 else 2)"
    using start_receiver [OF assms(2)] by blast
  have q: "conn [] [if CheckLen r = 1 then NAK else cC] (Comm r)" using r(4,5) by (auto split: if_splits)
  have dpos: "0 < ?d" by (simp add: packet_size_def)
  have "\<exists>s1 r1 b. exchanges op wout win (Suc ?N) (s, r) = Some (s1, r1) \<and> sender W (Suc b) s1 \<and> \<not> FileOpen s1 \<and> conn [] [] (Comm s1) \<and>
    conn [] [ACK] (Comm r1) \<and> Success r1 \<and> outfile r1 = written ?d W ?N \<and> XMode r1 = IdXReceive \<and> xphase r1 = STATE_NORMAL"
  proof (cases ?N)
    case 0
    show ?thesis using eot_first [OF s(2,3,4) r(2,3) q] 0 by (auto simp del: drop_eq_Nil)
  next
    case (Suc n)
    have "\<exists>p. exchanges op wout win (Suc k) (s, r) = Some p \<and> under_way W (Suc k) (int ?d) p" if "k \<le> n" for k
      using that
    proof (induction k)
      case 0
      then show ?case using first_exchange [OF s(2,3,4) r(2,3) q] Suc by auto
    next
      case (Suc k)
      then obtain p where p: "exchanges op wout win (Suc k) (s, r) = Some p" "under_way W (Suc k) (int ?d) p" by auto
      have "Suc k < ?N" using Suc.prems \<open>?N = Suc n\<close> by simp
      then show ?case using next_exchange [OF p(2)] p(1) exchanges_Suc [of "Suc k" "(s, r)"] by (auto simp del: exchanges.simps(2))
    qed
    then obtain p where p: "exchanges op wout win (Suc n) (s, r) = Some p" "under_way W (Suc n) (int ?d) p" by blast
    show ?thesis using eot_after [OF p(2)] Suc p(1) exchanges_Suc [of "Suc n" "(s, r)"] by (auto simp del: exchanges.simps(2))
  qed
  then obtain s1 r1 b where e: "exchanges op wout win (Suc ?N) (s, r) = Some (s1, r1)" "sender W (Suc b) s1" "\<not> FileOpen s1"
    "conn [] [] (Comm s1)" "conn [] [ACK] (Comm r1)" "Success r1" "outfile r1 = written ?d W ?N" "XMode r1 = IdXReceive" "xphase r1 = STATE_NORMAL"
    by blast
  obtain s2 r2 where "exchange op wout win (s1, r1) = Some (s2, r2)" "Success s2" "Success r2" "outfile r2 = written ?d W ?N"
    using last_exchange [OF e(2-9)] by blast
  moreover have "exchanges op wout win (?N + 2) (s, r) = exchange op wout win (s1, r1)"
    using exchanges_Suc [of "Suc ?N" "(s, r)"] e(1) by (simp del: exchanges.simps(2))
  ultimately show ?thesis using s(1) r(1) written_all [OF dpos, of W] by auto
qed

end

subsection \<open>A line that loses messages\<close>

text \<open>
  What the bytes of one end are when they leave it: carried over, or lost. The time-out of the
  receiver comes when the line is quiet; the one of the sender may come at any time. The flag
  beside an end says that its \<open>XParse\<close> has not yet returned \<open>FALSE\<close>.
\<close>

inductive xm_step ::
  "'c comm_op \<Rightarrow> ('c \<Rightarrow> 'c \<times> u8 list) \<Rightarrow> (u8 list \<Rightarrow> 'c \<Rightarrow> 'c option) \<Rightarrow> ('c \<Rightarrow> bool) \<Rightarrow>
    ('c xvar \<times> bool) \<times> ('c xvar \<times> bool) \<Rightarrow> ('c xvar \<times> bool) \<times> ('c xvar \<times> bool) \<Rightarrow> bool"
  for op wout win quiet where
  packet_over: "snd (wout (Comm s)) \<noteq> [] \<Longrightarrow> carry wout win (s, r) = Some (s', r') \<Longrightarrow>
    xm_step op wout win quiet ((s, a), (r, a')) ((s', a), (r', a'))"
| answer_over: "snd (wout (Comm r)) \<noteq> [] \<Longrightarrow> carry wout win (r, s) = Some (r', s') \<Longrightarrow>
    xm_step op wout win quiet ((s, a), (r, a')) ((s', a), (r', a'))"
| packet_lost: "wout (Comm s) = (c, B) \<Longrightarrow> xm_step op wout win quiet ((s, a), q) ((s\<lparr>Comm := c\<rparr>, a), q)"
| answer_lost: "wout (Comm r) = (c, B) \<Longrightarrow> xm_step op wout win quiet (p, (r, a')) (p, (r\<lparr>Comm := c\<rparr>, a'))"
| sender_runs: "XParse op s = Some (s', v) \<Longrightarrow> xm_step op wout win quiet ((s, True), q) ((s', v), q)"
| receiver_runs: "XParse op r = Some (r', v) \<Longrightarrow> xm_step op wout win quiet (p, (r, True)) (p, (r', v))"
| receiver_times_out: "quiet (Comm s) \<Longrightarrow> quiet (Comm r) \<Longrightarrow> XTimeOutProc op r = Some r' \<Longrightarrow>
    xm_step op wout win quiet ((s, a), (r, True)) ((s, a), (r', True))"
| sender_times_out: "XTimeOutProc op s = Some s' \<Longrightarrow> xm_step op wout win quiet ((s, True), q) ((s', True), q)"

inductive xm_reach ::
  "'c comm_op \<Rightarrow> ('c \<Rightarrow> 'c \<times> u8 list) \<Rightarrow> (u8 list \<Rightarrow> 'c \<Rightarrow> 'c option) \<Rightarrow> ('c \<Rightarrow> bool) \<Rightarrow>
    'c xvar \<Rightarrow> 'c xvar \<Rightarrow> ('c xvar \<times> bool) \<times> ('c xvar \<times> bool) \<Rightarrow> bool"
  for op wout win quiet s0 r0 where
  xm_start: "xm_reach op wout win quiet s0 r0 ((s0, True), (r0, True))"
| xm_go: "xm_reach op wout win quiet s0 r0 st \<Longrightarrow> xm_step op wout win quiet st st' \<Longrightarrow>
    xm_reach op wout win quiet s0 r0 st'"

locale comm_line = comm_port op wout win ok rx tx cap
  for op :: "'c comm_op" and wout win ok rx tx cap +
  fixes quiet :: "'c \<Rightarrow> bool"
  assumes quiet_empty: "ok c \<Longrightarrow> quiet c \<longleftrightarrow> rx c = [] \<and> tx c = []"
begin

text \<open>At most one message is between the ends: a packet \<open>P\<close> or an answer \<open>A\<close>.\<close>

definition line :: "u8 list \<Rightarrow> u8 list \<Rightarrow> 'c \<Rightarrow> 'c \<Rightarrow> bool" where
  "line P A c c' \<longleftrightarrow> (P = [] \<or> A = []) \<and> length A \<le> 10 \<and> (\<exists>p q p' q'. conn p q c \<and> conn p' q' c' \<and>
     (p' = P \<and> q = [] \<or> p' = [] \<and> q = P) \<and> (p = A \<and> q' = [] \<or> p = [] \<and> q' = A))"

definition answer_ok :: "u8 list \<Rightarrow> nat \<Rightarrow> nat \<Rightarrow> nat \<Rightarrow> 'c xvar \<Rightarrow> u8 list \<Rightarrow> bool" where
  "answer_ok W N k b r A \<longleftrightarrow> A = cancel_bytes \<or> A = [cC] \<or> A = [NAK] \<and> (b = 0 \<longrightarrow> CheckLen r = 1) \<or>
     A = [ACK] \<and> 0 < b \<and> (b \<le> N \<longrightarrow> k = b) \<and> (N < b \<longrightarrow> Success r)"

definition session :: "u8 list \<Rightarrow> int \<Rightarrow> nat \<Rightarrow> nat \<Rightarrow> int \<Rightarrow> u8 list \<Rightarrow> u8 list \<Rightarrow> ('c xvar \<times> bool) \<times> ('c xvar \<times> bool) \<Rightarrow> bool" where
  "session W d k b K P A st \<longleftrightarrow> (let ((s, a), (r, a')) = st; N = block_count (nat d) W in
     line P A (Comm s) (Comm r) \<and> (d = 128 \<or> d = 1024) \<and> (K = 1 \<or> K = 2) \<and>
     (a \<longrightarrow> sender W b s \<and> DataLen s = d \<and> (0 < b \<longrightarrow> CheckLen s = K) \<or> xphase s = STATE_CANCELED \<and> XMode s = IdXSend \<and> \<not> Success s) \<and>
     (a' \<longrightarrow> rcv k (written (nat d) W k) r \<and> (xphase r = STATE_NORMAL \<or> xphase r = STATE_CANCELED) \<and> (0 < b \<longrightarrow> CheckLen r \<le> K)) \<and>
     outfile r = written (nat d) W k \<and> k \<le> N \<and> k \<le> b \<and> b \<le> Suc k \<and>
     (Success r \<longrightarrow> k = N \<and> \<not> a') \<and> (Success s \<longrightarrow> Success r) \<and>
     (P \<noteq> [] \<longrightarrow> 0 < b \<and> P = packet_of d K W b) \<and> (A \<noteq> [] \<longrightarrow> a \<longrightarrow> answer_ok W N k b r A))"

definition xm_inv :: "u8 list \<Rightarrow> int \<Rightarrow> ('c xvar \<times> bool) \<times> ('c xvar \<times> bool) \<Rightarrow> bool" where
  "xm_inv W d st \<longleftrightarrow> (\<exists>k b K P A. session W d k b K P A st)"

lemma answer_ok_Comm [simp]: "answer_ok W N k b (r\<lparr>Comm := c\<rparr>) A = answer_ok W N k b r A"
  by (simp add: answer_ok_def)

lemma sessionI:
  assumes "line P A (Comm s) (Comm r)" "d = 128 \<or> d = 1024" "K = 1 \<or> K = 2"
    "a \<Longrightarrow> sender W b s \<and> DataLen s = d \<and> (0 < b \<longrightarrow> CheckLen s = K) \<or> xphase s = STATE_CANCELED \<and> XMode s = IdXSend \<and> \<not> Success s"
    "a' \<Longrightarrow> rcv k (written (nat d) W k) r \<and> (xphase r = STATE_NORMAL \<or> xphase r = STATE_CANCELED) \<and> (0 < b \<longrightarrow> CheckLen r \<le> K)"
    "outfile r = written (nat d) W k" "k \<le> block_count (nat d) W" "k \<le> b" "b \<le> Suc k"
    "Success r \<Longrightarrow> k = block_count (nat d) W \<and> \<not> a'" "Success s \<Longrightarrow> Success r"
    "P \<noteq> [] \<Longrightarrow> 0 < b \<and> P = packet_of d K W b" "A \<noteq> [] \<Longrightarrow> a \<Longrightarrow> answer_ok W (block_count (nat d) W) k b r A"
  shows "session W d k b K P A ((s, a), (r, a'))"
  using assms unfolding session_def Let_def prod.case by blast

lemma line_conn:
  assumes "line P A c c'"
  obtains p q p' q' where "conn p q c" "conn p' q' c'" "p' = P \<and> q = [] \<or> p' = [] \<and> q = P"
    "p = A \<and> q' = [] \<or> p = [] \<and> q' = A" "P = [] \<or> A = []" "length A \<le> 10"
  using assms unfolding line_def by blast

lemma lineI:
  assumes "conn p q c" "conn p' q' c'" "p' = P \<and> q = [] \<or> p' = [] \<and> q = P"
    "p = A \<and> q' = [] \<or> p = [] \<and> q' = A" "P = [] \<or> A = []" "length A \<le> 10"
  shows "line P A c c'"
  using assms unfolding line_def by blast

text \<open>One end moves, the other stays.\<close>

lemma sender_moves:
  assumes "session W d k b K P A ((s, a), (r, a'))" "line P' A' (Comm s') (Comm r)"
    "v \<Longrightarrow> sender W b' s' \<and> DataLen s' = d \<and> (0 < b' \<longrightarrow> CheckLen s' = K') \<or> xphase s' = STATE_CANCELED \<and> XMode s' = IdXSend \<and> \<not> Success s'"
    "K' = 1 \<or> K' = 2" "b \<le> b'" "b' \<le> Suc k" "a' \<Longrightarrow> 0 < b' \<Longrightarrow> CheckLen r \<le> K'" "Success s' \<Longrightarrow> Success r"
    "P' \<noteq> [] \<Longrightarrow> 0 < b' \<and> P' = packet_of d K' W b'" "A' \<noteq> [] \<Longrightarrow> v \<Longrightarrow> answer_ok W (block_count (nat d) W) k b' r A'"
  shows "xm_inv W d ((s', v), (r, a'))"
proof -
  note i = assms(1) [unfolded session_def Let_def prod.case]
  have d: "d = 128 \<or> d = 1024" and r: "a' \<Longrightarrow> rcv k (written (nat d) W k) r \<and> (xphase r = STATE_NORMAL \<or> xphase r = STATE_CANCELED)"
    and w: "outfile r = written (nat d) W k" "k \<le> block_count (nat d) W" "k \<le> b"
    "Success r \<Longrightarrow> k = block_count (nat d) W \<and> \<not> a'"
    using i by blast+
  have "session W d k b' K' P' A' ((s', v), (r, a'))"
  proof (rule sessionI)
    show "a' \<Longrightarrow> rcv k (written (nat d) W k) r \<and> (xphase r = STATE_NORMAL \<or> xphase r = STATE_CANCELED) \<and> (0 < b' \<longrightarrow> CheckLen r \<le> K')"
      using r assms(7) by blast
    show "k \<le> b'" using w(3) assms(5) by simp
  qed (fact assms(2) d assms(4) assms(3) w(1,2,4) assms(6,8-10))+
  then show ?thesis unfolding xm_inv_def by blast
qed

lemma receiver_moves:
  assumes "session W d k b K P A ((s, a), (r, a'))" "line P' A' (Comm s) (Comm r')"
    "v \<Longrightarrow> rcv k' (written (nat d) W k') r' \<and> (xphase r' = STATE_NORMAL \<or> xphase r' = STATE_CANCELED) \<and> (0 < b \<longrightarrow> CheckLen r' \<le> K)"
    "outfile r' = written (nat d) W k'" "k' \<le> block_count (nat d) W" "k' \<le> b" "b \<le> Suc k'"
    "Success r' \<Longrightarrow> k' = block_count (nat d) W \<and> \<not> v" "Success r \<Longrightarrow> Success r'"
    "P' \<noteq> [] \<Longrightarrow> 0 < b \<and> P' = packet_of d K W b" "A' \<noteq> [] \<Longrightarrow> a \<Longrightarrow> answer_ok W (block_count (nat d) W) k' b r' A'"
  shows "xm_inv W d ((s, a), (r', v))"
proof -
  note i = assms(1) [unfolded session_def Let_def prod.case]
  have d: "d = 128 \<or> d = 1024" "K = 1 \<or> K = 2"
    and s: "a \<Longrightarrow> sender W b s \<and> DataLen s = d \<and> (0 < b \<longrightarrow> CheckLen s = K) \<or> xphase s = STATE_CANCELED \<and> XMode s = IdXSend \<and> \<not> Success s"
    "Success s \<Longrightarrow> Success r'"
    using i assms(9) by blast+
  have "session W d k' b K P' A' ((s, a), (r', v))"
    by (rule sessionI) (fact assms(2) d s(1) assms(3) assms(4-8) s(2) assms(10,11))+
  then show ?thesis unfolding xm_inv_def by blast
qed

text \<open>The sender runs.\<close>

lemma session_sender:
  assumes "session W d k b K P A ((s, True), (r, a'))"
  shows "\<exists>s' v. XParse op s = Some (s', v) \<and> xm_inv W d ((s', v), (r, a'))"
proof -
  let ?N = "block_count (nat d) W"
  note i = assms [unfolded session_def Let_def prod.case]
  obtain p q p' q' where l: "conn p q (Comm s)" "conn p' q' (Comm r)" "p' = P \<and> q = [] \<or> p' = [] \<and> q = P"
    "p = A \<and> q' = [] \<or> p = [] \<and> q' = A" "P = [] \<or> A = []" "length A \<le> 10"
    using line_conn i by blast
  have d: "d = 128 \<or> d = 1024" using i by blast
  then have dpos: "0 < nat d" by auto
  have KA: "a' \<Longrightarrow> 0 < b \<Longrightarrow> CheckLen r \<le> K" and KK: "K = 1 \<or> K = 2" and kb: "k \<le> b" "b \<le> Suc k"
    and Pb: "P \<noteq> [] \<Longrightarrow> 0 < b \<and> P = packet_of d K W b" and Ab: "A \<noteq> [] \<Longrightarrow> answer_ok W ?N k b r A"
    and rr: "a' \<Longrightarrow> rcv k (written (nat d) W k) r"
    using i by blast+
  consider "xphase s = STATE_CANCELED \<and> XMode s = IdXSend \<and> \<not> Success s" | "sender W b s" "DataLen s = d" "0 < b \<longrightarrow> CheckLen s = K" "p = []"
    | "sender W b s" "DataLen s = d" "0 < b \<longrightarrow> CheckLen s = K" "p = A" "A \<noteq> []"
    using i l(4) by blast
  then show ?thesis
  proof cases
    case 1
    obtain c where c: "XFlushReceiveBuf op s = Some (s\<lparr>Comm := c\<rparr>)" "conn [] q c" using flush_conn [OF l(1)] by blast
    then have x: "XParse op s = Some (s\<lparr>Comm := c\<rparr>, False)" using 1 by (simp add: XParse_def)
    let ?A = "if p = [] then A else []"
    have "line P ?A (Comm (s\<lparr>Comm := c\<rparr>)) (Comm r)" using l c(2) by (intro lineI [of "[]" q _ p' q']) auto
    from sender_moves [OF assms this, of False b K] show ?thesis using x 1 KA KK kb Pb by (simp add: ex_bool_eq)
  next
    case 2
    obtain c where c: "XParse op s = Some (s\<lparr>Comm := c\<rparr>, True)" "conn [] q c"
      using send_nothing [OF 2(1)] l(1) 2(4) by blast
    have ln: "line P A (Comm (s\<lparr>Comm := c\<rparr>)) (Comm r)" using l 2(4) c(2) by (intro lineI [of "[]" q _ p' q']) auto
    have "\<not> Success s" using 2(1) by (simp add: sender_def)
    with sender_moves [OF assms ln, of True b K] show ?thesis using c(1) 2(1-3) KA KK kb Pb Ab by (simp add: ex_bool_eq)
  next
    case 3
    then have P: "P = []" "q = []" "p' = []" "q' = []" using l by auto
    have ns: "\<not> Success s" using 3(1) by (simp add: sender_def)
    have A: "answer_ok W ?N k b r A" by (rule Ab [OF 3(5)])
    note cs = l(1) [unfolded P(2) 3(4)]
    have out: "line Q [] (Comm x) (Comm r)" if "conn [] Q (Comm x)" for Q and x :: "'c xvar"
      using that l(2) P by (intro lineI [of "[]" Q _ "[]" "[]"]) auto
    have new: "xm_inv W d ((x, True), (r, a'))"
      if "sender W b' x" "DataLen x = d" "CheckLen x = K'" "conn [] (packet_of d K' W b') (Comm x)" "0 < b'" "b' \<le> Suc k" "b \<le> b'"
        "a' \<Longrightarrow> CheckLen r \<le> K'" "K' = 1 \<or> K' = 2" for x b' K'
    proof -
      have "\<not> Success x" using that(1) by (simp add: sender_def)
      with sender_moves [OF assms out [OF that(4)], of True b' K'] that show ?thesis by simp
    qed
    have K2: "a' \<Longrightarrow> CheckLen r \<le> 2" using rr opt_setD [of r] by (auto simp: rcv_def)
    consider "A = cancel_bytes" | "A = [cC]" "b = 0" | "A = [cC]" "0 < b" | "A = [NAK]" "b = 0" "CheckLen r = 1" | "A = [NAK]" "0 < b"
      | "A = [ACK]" "0 < b" "b \<le> ?N" "k = b" | "A = [ACK]" "0 < b" "?N < b" "Success r"
      using A unfolding answer_ok_def by (metis gr_zeroI not_le)
    then show ?thesis
    proof cases
      case 1
      obtain s' where x: "XParse op s = Some (s', False)" "Success s' = Success s" "conn [CAN, CAN, 8, 8, 8, 8, 8] [] (Comm s')"
        using send_cancelled [OF 3(1)] cs 1 by blast
      have "line [] [CAN, CAN, 8, 8, 8, 8, 8] (Comm s') (Comm r)"
        using x(3) l(2) P by (intro lineI [of "[CAN, CAN, 8, 8, 8, 8, 8]" "[]" _ "[]" "[]"]) auto
      from sender_moves [OF assms this, of False b K] show ?thesis using x(1,2) ns KA KK kb by (simp add: ex_bool_eq)
    next
      case 2
      have nk: "cC \<noteq> NAK" by (simp add: NAK_def cC_def)
      obtain s' where x: "XParse op s = Some (s', True)" "sender W 1 s'" "DataLen s' = d" "CheckLen s' = 2" "conn [] (packet_of d 2 W 1) (Comm s')"
        using send_first [of W s cC] 3(1,2) cs 2 nk by auto
      show ?thesis using x(1) new [OF x(2-5)] 2(2) K2 by (simp add: ex_bool_eq)
    next
      case 3
      obtain s' where x: "XParse op s = Some (s', True)" "sender W b s'" "DataLen s' = DataLen s" "CheckLen s' = CheckLen s" "conn [] [] (Comm s')"
        using send_C [OF \<open>sender W b s\<close> \<open>0 < b\<close>] cs \<open>A = [cC]\<close> by blast
      have "\<not> Success s'" using x(2) by (simp add: sender_def)
      with sender_moves [OF assms out [OF x(5)], of True b K] show ?thesis
        using x(1-4) \<open>DataLen s = d\<close> \<open>0 < b \<longrightarrow> CheckLen s = K\<close> KA KK kb by (simp add: ex_bool_eq)
    next
      case 4
      obtain s' where x: "XParse op s = Some (s', True)" "sender W 1 s'" "DataLen s' = d" "CheckLen s' = 1" "conn [] (packet_of d 1 W 1) (Comm s')"
        using send_first [of W s NAK] 3(1,2) cs 4 by auto
      show ?thesis using x(1) new [OF x(2-5)] 4(2,3) by (simp add: ex_bool_eq)
    next
      case 5
      obtain s' where x: "XParse op s = Some (s', True)" "sender W b s'" "DataLen s' = d" "CheckLen s' = K" "conn [] (packet_of d K W b) (Comm s')"
        using send_nak [OF 3(1) 5(2)] cs 5 3(2,3) by auto
      show ?thesis using x(1) new [OF x(2-5) 5(2) kb(2)] KA KK 5(2) by (simp add: ex_bool_eq)
    next
      case 6
      have "drop ((b - 1) * nat d) W \<noteq> []" using drop_block_count [OF dpos, of "b - 1" W] 6(2,3) by auto
      then have fo: "FileOpen s" using 3(1,2) 6(2) by (simp add: sender_def)
      obtain s' where x: "XParse op s = Some (s', True)" "sender W (Suc b) s'" "DataLen s' = d" "CheckLen s' = K" "conn [] (packet_of d K W (Suc b)) (Comm s')"
        using send_ack [OF 3(1) 6(2) fo] cs 6 3(2,3) by auto
      show ?thesis using x(1) new [OF x(2-5)] KA KK 6(2,4) by (simp add: ex_bool_eq)
    next
      case 7
      have "drop ((b - 1) * nat d) W = []" using drop_block_count [OF dpos, of "b - 1" W] 7(2,3) by auto
      then have fo: "\<not> FileOpen s" using 3(1,2) 7(2) by (simp add: sender_def)
      obtain s' where x: "XParse op s = Some (s', False)" "conn [] [] (Comm s')"
        using send_ack_end [OF 3(1) 7(2) fo] cs 7(1) by blast
      from sender_moves [OF assms out [OF x(2)], of False b K] show ?thesis using x(1) 7(4) KA KK kb by (simp add: ex_bool_eq)
    qed
  qed
qed

text \<open>The receiver asks again: in a packet with a bad check, or after a time-out.\<close>

lemma session_asks:
  assumes "session W d k b K P A ((s, a), (r, a'))" "conn [] [] (Comm s)" "conn [] [] (Comm w)"
    "rcv k (written (nat d) W k) w" "xphase w = STATE_NORMAL \<or> xphase w = STATE_CANCELED" "0 < b \<Longrightarrow> CheckLen w \<le> K" "\<not> Success r"
  shows "\<exists>r'. XSendNAK op w = Some r' \<and> xm_inv W d ((s, a), (r', True))"
proof -
  obtain r' where r': "XSendNAK op w = Some r'" "rcv k (written (nat d) W k) r'" "CheckLen r' \<le> CheckLen w"
    "xphase r' = STATE_CANCELED \<and> conn [] cancel_bytes (Comm r') \<or>
     xphase r' = xphase w \<and> conn [] [if NAKMode r' = XnakNAK then NAK else cC] (Comm r')"
    using nak_conn [OF assms(3,4)] by auto
  have kb: "k \<le> b" "b \<le> Suc k" "k \<le> block_count (nat d) W" using assms(1) by (auto simp: session_def Let_def)
  have k1: "a \<Longrightarrow> b = 0 \<Longrightarrow> NAKMode r' = XnakNAK \<Longrightarrow> CheckLen r' = 1" using r'(2) kb(1) by (simp add: rcv_def)
  have out: "outfile r' = written (nat d) W k" "\<not> Success r'" using r'(2) by (simp_all add: rcv_def)
  have ck: "0 < b \<Longrightarrow> CheckLen r' \<le> K" using r'(3) assms(6) by fastforce
  have go: "xm_inv W d ((s, a), (r', True))"
    if "conn [] Q (Comm r')" "a \<Longrightarrow> answer_ok W (block_count (nat d) W) k b r' Q" "length Q \<le> 10" for Q
  proof -
    have ln: "line [] Q (Comm s) (Comm r')" using that(1,3) assms(2) by (intro lineI [of "[]" "[]" _ "[]" Q]) auto
    have ph: "xphase r' = STATE_NORMAL \<or> xphase r' = STATE_CANCELED" using r'(4) assms(5) by auto
    show ?thesis using receiver_moves [OF assms(1) ln, of True k] r'(2) ph ck out kb that(2) assms(7) by simp
  qed
  show ?thesis
  proof (cases "xphase r' = STATE_CANCELED \<and> conn [] cancel_bytes (Comm r')")
    case True
    then show ?thesis using r'(1) go [of cancel_bytes] by (simp add: answer_ok_def cancel_bytes_def)
  next
    case False
    then have c: "conn [] [if NAKMode r' = XnakNAK then NAK else cC] (Comm r')" using r'(4) by blast
    show ?thesis using r'(1) go [OF c] k1 by (auto simp: answer_ok_def)
  qed
qed

text \<open>The receiver runs.\<close>

lemma session_receiver:
  assumes "session W d k b K P A ((s, a), (r, True))"
  shows "\<exists>r' v. XParse op r = Some (r', v) \<and> xm_inv W d ((s, a), (r', v))"
proof -
  let ?N = "block_count (nat d) W"
  note i = assms [unfolded session_def Let_def prod.case]
  obtain p q p' q' where l: "conn p q (Comm s)" "conn p' q' (Comm r)" "p' = P \<and> q = [] \<or> p' = [] \<and> q = P"
    "p = A \<and> q' = [] \<or> p = [] \<and> q' = A" "P = [] \<or> A = []" "length A \<le> 10"
    using line_conn i by blast
  have d: "d = 128 \<or> d = 1024" using i by blast
  then have dpos: "0 < nat d" by auto
  have KK: "K = 1 \<or> K = 2" and kb: "k \<le> b" "b \<le> Suc k" "k \<le> ?N"
    and Pb: "P \<noteq> [] \<Longrightarrow> 0 < b \<and> P = packet_of d K W b" and Ab: "A \<noteq> [] \<Longrightarrow> a \<Longrightarrow> answer_ok W ?N k b r A"
    and rr: "rcv k (written (nat d) W k) r" "xphase r = STATE_NORMAL \<or> xphase r = STATE_CANCELED" "0 < b \<Longrightarrow> CheckLen r \<le> K"
    using i by blast+
  have m: "XMode r = IdXReceive" "\<not> Success r" "outfile r = written (nat d) W k" "opt_set r" using rr(1) by (simp_all add: rcv_def)
  consider "xphase r = STATE_CANCELED" | "xphase r = STATE_NORMAL" "p' = []" | "xphase r = STATE_NORMAL" "p' = P" "P \<noteq> []"
    using rr(2) l(3) by blast
  then show ?thesis
  proof cases
    case 1
    obtain c where c: "XFlushReceiveBuf op r = Some (r\<lparr>Comm := c\<rparr>)" "conn [] q' c" using flush_conn [OF l(2)] by blast
    then have x: "XParse op r = Some (r\<lparr>Comm := c\<rparr>, False)" using 1 by (simp add: XParse_def)
    define P' where "P' = (if p' = [] then P else [])"
    have Pb': "P' \<noteq> [] \<Longrightarrow> 0 < b \<and> P' = packet_of d K W b" using Pb by (simp add: P'_def split: if_splits)
    have "line P' A (Comm s) (Comm (r\<lparr>Comm := c\<rparr>))"
      using l c(2) unfolding P'_def by (intro lineI [of p q _ "[]" q']) auto
    from receiver_moves [OF assms this, of False k] show ?thesis using x m kb Pb' Ab by (simp add: ex_bool_eq)
  next
    case 2
    obtain c where c: "XParse op r = Some (r\<lparr>Comm := c\<rparr>, True)" "conn [] q' c"
      using recv_nothing [of q' r] l(2) 2 m(1) by auto
    have "line P A (Comm s) (Comm (r\<lparr>Comm := c\<rparr>))" using l c(2) 2(2) by (intro lineI [of p q _ "[]" q']) auto
    from receiver_moves [OF assms this, of True k] show ?thesis using c(1) rr m kb Pb Ab by (simp add: ex_bool_eq)
  next
    case 3
    then have A: "A = []" "q = []" "p = []" "q' = []" using l by auto
    have b: "0 < b" "P = packet_of d K W b" using Pb [OF 3(3)] by blast+
    have sc: "conn [] [] (Comm s)" and rc: "conn P [] (Comm r)" using l(1,2) A 3(2) by auto
    have ln: "line [] [ACK] (Comm s) (Comm x)" if "conn [] [ACK] (Comm x)" for x :: "'c xvar"
      using that sc by (intro lineI [of "[]" "[]" _ "[]" "[ACK]"]) auto
    show ?thesis
    proof (cases "b \<le> ?N")
      case True
      let ?B = "block (nat d) (drop ((b - 1) * nat d) W)"
      have pk: "P = header d (of_nat b) @ ?B @ check_bytes K ?B"
        using packet_of_data [OF d, of "b - 1" W K] b True by (simp add: mk_packet_def)
      define n where "n = nat (CheckLen r)"
      define cs ex where "cs = take n (check_bytes K ?B)" and "ex = drop n (check_bytes K ?B)"
      have n: "int n = CheckLen r" "CheckLen r = 1 \<or> CheckLen r = 2" "CheckLen r \<le> K"
        using opt_setD [OF m(4)] rr(3) [OF b(1)] by (auto simp: n_def)
      have lcs: "int (length cs) = CheckLen r" "length ex \<le> 1"
        using n KK by (auto simp: cs_def ex_def length_check_bytes)
      have cex: "conn (header d (of_nat b) @ ?B @ cs @ ex) [] (Comm r)" using rc pk by (simp add: cs_def ex_def)
      have tex: "tl ex = []" using lcs(2) by (cases ex) auto
      have bk: "b = k \<or> b = Suc k" using kb by auto
      have lB: "int (length ?B) = d" using d by auto
      show ?thesis
      proof (cases "cs = check_bytes (CheckLen r) ?B")
        case True
        obtain r' where r': "XParse op r = Some (r', True)" "xphase r' = STATE_NORMAL" "conn [] [ACK] (Comm r')"
          "rcv b (if b = k then written (nat d) W k else written (nat d) W k @ ?B) r'" "CheckLen r' = CheckLen r"
          using recv_good [OF cex rr(1) 3(1) d lB True bk b(1)] tex by auto
        have w: "(if b = k then written (nat d) W k else written (nat d) W k @ ?B) = written (nat d) W b"
          using bk by (auto simp: written_Suc)
        have r2: "rcv b (written (nat d) W b) r'" using r'(4) unfolding w .
        then have "outfile r' = written (nat d) W b" "\<not> Success r'" by (simp_all add: rcv_def)
        with receiver_moves [OF assms ln [OF r'(3)], of True b] show ?thesis
          using r'(1,2,5) r2 n(3) \<open>b \<le> ?N\<close> m(2) b(1) by (simp add: answer_ok_def ex_bool_eq)
      next
        case False
        obtain w where w: "XParse op r = map_option (\<lambda>v. (v, True)) (XSendNAK op w)" "rcv k (written (nat d) W k) w" "conn [] [] (Comm w)"
          "CheckLen w = CheckLen r" "xphase w = STATE_NORMAL"
          using recv_bad [OF cex rr(1) 3(1) d lB lcs(1) False bk b(1)] tex by auto
        obtain r' where "XSendNAK op w = Some r'" "xm_inv W d ((s, a), (r', True))"
          using session_asks [OF assms sc w(3,2) _ _ m(2)] w(4,5) n(3) by auto
        then show ?thesis using w(1) by auto
      qed
    next
      case False
      then have bN: "b = Suc ?N" "k = ?N" using kb by auto
      have "P = [EOT]" using packet_of_EOT [OF d, of K W] b(2) bN(1) by simp
      then obtain r' where r': "XParse op r = Some (r', False)" "conn [] [ACK] (Comm r')" "Success r'" "outfile r' = written (nat d) W k"
        using recv_EOT [OF _ rr(1) 3(1), of "[]"] rc by auto
      from receiver_moves [OF assms ln [OF r'(2)], of False k] show ?thesis
        using r'(1,3,4) bN kb by (simp add: answer_ok_def ex_bool_eq)
    qed
  qed
qed

lemma session_times_out:
  assumes "session W d k b K P A ((s, a), (r, True))" "quiet (Comm s)" "quiet (Comm r)"
  shows "\<exists>r'. XTimeOutProc op r = Some r' \<and> xm_inv W d ((s, a), (r', True))"
proof -
  note i = assms(1) [unfolded session_def Let_def prod.case]
  have "line P A (Comm s) (Comm r)" using i by blast
  then have "ok (Comm s)" "ok (Comm r)" by (auto simp: line_def conn_def)
  then have e: "conn [] [] (Comm s)" "conn [] [] (Comm r)" using assms(2,3) quiet_empty by (simp_all add: conn_def)
  have rr: "rcv k (written (nat d) W k) r" "xphase r = STATE_NORMAL \<or> xphase r = STATE_CANCELED" "0 < b \<Longrightarrow> CheckLen r \<le> K"
    using i by blast+
  have "XTimeOutProc op r = XSendNAK op r" using rr(1) by (simp add: XTimeOutProc_def rcv_def IdXReceive_def IdXSend_def)
  moreover have "\<not> Success r" using rr(1) by (simp add: rcv_def)
  ultimately show ?thesis using session_asks [OF assms(1) e(1,2) rr] by simp
qed

lemma session_stops:
  assumes "session W d k b K P A ((s, True), (r, a'))"
  shows "\<exists>s'. XTimeOutProc op s = Some s' \<and> xm_inv W d ((s', True), (r, a'))"
proof -
  note i = assms [unfolded session_def Let_def prod.case]
  have "sender W b s \<or> xphase s = STATE_CANCELED \<and> XMode s = IdXSend \<and> \<not> Success s" using i by blast
  then have m: "XMode s = IdXSend" "\<not> Success s" by (auto simp: sender_def)
  let ?s = "s\<lparr>xphase := STATE_CANCELED\<rparr>"
  have ln: "line P A (Comm ?s) (Comm r)" using i by simp
  have "XTimeOutProc op s = Some ?s" using m(1) by (simp add: XTimeOutProc_def)
  moreover have f: "K = 1 \<or> K = 2" "b \<le> Suc k" "a' \<Longrightarrow> 0 < b \<Longrightarrow> CheckLen r \<le> K" "P \<noteq> [] \<Longrightarrow> 0 < b \<and> P = packet_of d K W b"
    "A \<noteq> [] \<Longrightarrow> answer_ok W (block_count (nat d) W) k b r A"
    using i by blast+
  have "xm_inv W d ((?s, True), (r, a'))"
    using sender_moves [OF assms ln, of True b K] m f by simp
  ultimately show ?thesis by blast
qed

text \<open>Messages that go over or get lost.\<close>

lemma session_line:
  assumes "session W d k b K P A ((s, a), (r, a'))" "line P' A' c c'" "P' = P \<or> P' = []" "A' = A \<or> A' = []"
  shows "xm_inv W d ((s\<lparr>Comm := c\<rparr>, a), (r\<lparr>Comm := c'\<rparr>, a'))"
proof -
  have "session W d k b K P' A' ((s\<lparr>Comm := c\<rparr>, a), (r\<lparr>Comm := c'\<rparr>, a'))"
    using assms unfolding session_def Let_def prod.case by (simp cong: conj_cong) blast
  then show ?thesis unfolding xm_inv_def by blast
qed

lemma wout_conn: "conn p q c \<Longrightarrow> \<exists>c'. wout c = (c', q) \<and> conn p [] c'"
  using wout_all [of c] by (auto simp: conn_def)

lemma cap_line: "session W d k b K P A ((s, a), (r, a')) \<Longrightarrow> length P \<le> 2048"
  using packet_of_length [of d K W b] unfolding session_def Let_def prod.case by (cases "P = []") auto

lemma xm_step_inv:
  assumes "xm_step op wout win quiet st st'" "xm_inv W d st"
  shows "xm_inv W d st'"
  using assms
proof (induction rule: xm_step.induct)
  case (packet_over s r s' r' a a')
  then obtain k b K P A where i: "session W d k b K P A ((s, a), (r, a'))" unfolding xm_inv_def by blast
  then obtain p q p' q' where l: "conn p q (Comm s)" "conn p' q' (Comm r)" "p' = P \<and> q = [] \<or> p' = [] \<and> q = P"
    "p = A \<and> q' = [] \<or> p = [] \<and> q' = A" "P = [] \<or> A = []" "length A \<le> 10"
    using line_conn unfolding session_def Let_def prod.case by blast
  have "q \<noteq> []" using wout_conn [OF l(1)] packet_over.hyps(1) by auto
  then have P: "q = P" "p' = []" using l(3) by auto
  obtain c c' where c: "carry wout win (s, r) = Some (s\<lparr>Comm := c\<rparr>, r\<lparr>Comm := c'\<rparr>)" "conn p [] c" "conn P q' c'"
    using carry_conn [of p P s q' r] l(1,2) P cap_line [OF i] by auto
  have ln: "line P A c c'" using l c(2,3) by (intro lineI [of p "[]" _ P q']) auto
  have "s' = s\<lparr>Comm := c\<rparr>" "r' = r\<lparr>Comm := c'\<rparr>" using packet_over.hyps(2) c(1) by auto
  then show ?case using session_line [OF i ln] by simp
next
  case (answer_over r s r' s' a a')
  then obtain k b K P A where i: "session W d k b K P A ((s, a), (r, a'))" unfolding xm_inv_def by blast
  then obtain p q p' q' where l: "conn p q (Comm s)" "conn p' q' (Comm r)" "p' = P \<and> q = [] \<or> p' = [] \<and> q = P"
    "p = A \<and> q' = [] \<or> p = [] \<and> q' = A" "P = [] \<or> A = []" "length A \<le> 10"
    using line_conn unfolding session_def Let_def prod.case by blast
  have "q' \<noteq> []" using wout_conn [OF l(2)] answer_over.hyps(1) by auto
  then have A: "q' = A" "p = []" using l(4) by auto
  have le: "length A \<le> 2048" using l(6) by simp
  obtain c c' where c: "carry wout win (r, s) = Some (r\<lparr>Comm := c\<rparr>, s\<lparr>Comm := c'\<rparr>)" "conn p' [] c" "conn A q c'"
    using carry_conn [of p' A r q s] l(1,2) A le by auto
  have ln: "line P A c' c" using l c(2,3) by (intro lineI [of A q _ p' "[]"]) auto
  have "s' = s\<lparr>Comm := c'\<rparr>" "r' = r\<lparr>Comm := c\<rparr>" using answer_over.hyps(2) c(1) by auto
  then show ?case using session_line [OF i ln] by simp
next
  case (packet_lost s c B a q0)
  then obtain r a' where q0: "q0 = (r, a')" by (cases q0)
  with packet_lost obtain k b K P A where i: "session W d k b K P A ((s, a), (r, a'))" unfolding xm_inv_def by blast
  then obtain p q p' q' where l: "conn p q (Comm s)" "conn p' q' (Comm r)" "p' = P \<and> q = [] \<or> p' = [] \<and> q = P"
    "p = A \<and> q' = [] \<or> p = [] \<and> q' = A" "P = [] \<or> A = []" "length A \<le> 10"
    using line_conn unfolding session_def Let_def prod.case by blast
  have c: "conn p [] c" using wout_conn [OF l(1)] packet_lost.hyps by auto
  have ln: "line p' A c (Comm r)" using l c by (intro lineI [of p "[]" _ p' q']) auto
  have "r\<lparr>Comm := Comm r\<rparr> = r" by (cases r) simp
  then show ?case using session_line [OF i ln] l(3) q0 by auto
next
  case (answer_lost r c B p0 a')
  then obtain s a where p0: "p0 = (s, a)" by (cases p0)
  with answer_lost obtain k b K P A where i: "session W d k b K P A ((s, a), (r, a'))" unfolding xm_inv_def by blast
  then obtain p q p' q' where l: "conn p q (Comm s)" "conn p' q' (Comm r)" "p' = P \<and> q = [] \<or> p' = [] \<and> q = P"
    "p = A \<and> q' = [] \<or> p = [] \<and> q' = A" "P = [] \<or> A = []" "length A \<le> 10"
    using line_conn unfolding session_def Let_def prod.case by blast
  have c: "conn p' [] c" using wout_conn [OF l(2)] answer_lost.hyps by auto
  have ln: "line P p (Comm s) c" using l c by (intro lineI [of p q _ p' "[]"]) auto
  have "s\<lparr>Comm := Comm s\<rparr> = s" by (cases s) simp
  then show ?case using session_line [OF i ln] l(4) p0 by auto
next
  case (sender_runs s s' v q0)
  obtain r a' where q0: "q0 = (r, a')" by (cases q0)
  with sender_runs obtain k b K P A where i: "session W d k b K P A ((s, True), (r, a'))" unfolding xm_inv_def by blast
  from session_sender [OF i] sender_runs.hyps q0 show ?case by auto
next
  case (receiver_runs r r' v p0)
  obtain s a where p0: "p0 = (s, a)" by (cases p0)
  with receiver_runs obtain k b K P A where i: "session W d k b K P A ((s, a), (r, True))" unfolding xm_inv_def by blast
  from session_receiver [OF i] receiver_runs.hyps p0 show ?case by auto
next
  case (receiver_times_out s r r' a)
  then obtain k b K P A where i: "session W d k b K P A ((s, a), (r, True))" unfolding xm_inv_def by blast
  from session_times_out [OF i receiver_times_out.hyps(1,2)] receiver_times_out.hyps(3) show ?case by auto
next
  case (sender_times_out s s' q0)
  obtain r a' where q0: "q0 = (r, a')" by (cases q0)
  with sender_times_out obtain k b K P A where i: "session W d k b K P A ((s, True), (r, a'))" unfolding xm_inv_def by blast
  from session_stops [OF i] sender_times_out.hyps q0 show ?case by auto
qed

text \<open>The start, and what follows for every state the session can reach.\<close>

lemma start_inv:
  assumes "sender W 0 s" "conn [] [] (Comm s)" "DataLen s = d" "rcv 0 [] r" "xphase r = STATE_NORMAL"
    "conn [] [b] (Comm r)" "b = (if CheckLen r = 1 then NAK else cC)"
  shows "xm_inv W d ((s, True), (r, True))"
proof -
  have d: "d = 128 \<or> d = 1024" using opt_setD [of s] assms(1,3) by (auto simp: sender_def)
  have f: "outfile r = written (nat d) W 0" "\<not> Success r" "\<not> Success s" using assms(1,4) by (simp_all add: rcv_def sender_def)
  have ln: "line [] [b] (Comm s) (Comm r)" using assms(2,6) by (intro lineI [of "[]" "[]" _ "[]" "[b]"]) auto
  have an: "answer_ok W (block_count (nat d) W) 0 0 r [b]" using assms(7) by (simp add: answer_ok_def)
  have "session W d 0 0 1 [] [b] ((s, True), (r, True))"
    by (rule sessionI [OF ln d]) (use assms f an in simp_all)
  then show ?thesis unfolding xm_inv_def by blast
qed

lemma xm_reach_inv:
  "xm_reach op wout win quiet s0 r0 st \<Longrightarrow> xm_inv W d ((s0, True), (r0, True)) \<Longrightarrow> xm_inv W d st"
  by (induction rule: xm_reach.induct) (auto intro: xm_step_inv)

lemma inv_safe:
  assumes "xm_inv W (int d) ((s, a), (r, a'))" "0 < d"
  shows "(\<exists>n. outfile r = take n (padded d W)) \<and> (Success r \<longrightarrow> outfile r = padded d W) \<and> (Success s \<longrightarrow> Success r) \<and>
    (a \<longrightarrow> XParse op s \<noteq> None) \<and> (a' \<longrightarrow> XParse op r \<noteq> None) \<and>
    (a' \<and> quiet (Comm s) \<and> quiet (Comm r) \<longrightarrow> XTimeOutProc op r \<noteq> None)"
proof -
  obtain k b K P A where i: "session W (int d) k b K P A ((s, a), (r, a'))" using assms(1) unfolding xm_inv_def by blast
  have o: "outfile r = written d W k" and k: "k \<le> block_count d W" and S: "Success r \<longrightarrow> k = block_count d W" "Success s \<longrightarrow> Success r"
    using i unfolding session_def Let_def prod.case by simp_all
  have "\<forall>j<k. j * d < length W"
  proof (intro allI impI)
    fix j assume "j < k"
    then show "j * d < length W" using drop_block_count [OF assms(2), of j W] k by auto
  qed
  then have "outfile r = take (k * d) (padded d W)" using written_padded [OF assms(2)] o by simp
  moreover have "Success r \<longrightarrow> outfile r = padded d W" using S(1) o written_all [OF assms(2), of W] by auto
  moreover have "a \<longrightarrow> XParse op s \<noteq> None" using session_sender [of W "int d" k b K P A s r a'] i by auto
  moreover have "a' \<longrightarrow> XParse op r \<noteq> None" using session_receiver [of W "int d" k b K P A s a r] i by auto
  moreover have "a' \<and> quiet (Comm s) \<and> quiet (Comm r) \<longrightarrow> XTimeOutProc op r \<noteq> None"
    using session_times_out [of W "int d" k b K P A s a r] i by auto
  ultimately show ?thesis using S(2) by blast
qed

lemma lossy:
  assumes "conn p [] c" "conn p' [] c'" "XModemRcvCommand T = []" "length W \<le> 0x7FFFFFFF"
    "start_end op T W IdXSend opt c = Some s0" "start_end op T' [] IdXReceive opt' c' = Some r0"
    "xm_reach op wout win quiet s0 r0 ((s, a), (r, a'))"
  shows "(\<exists>n. outfile r = take n (padded (packet_size opt) W)) \<and> (Success r \<longrightarrow> outfile r = padded (packet_size opt) W) \<and>
    (Success s \<longrightarrow> Success r) \<and> (a \<longrightarrow> XParse op s \<noteq> None) \<and> (a' \<longrightarrow> XParse op r \<noteq> None) \<and>
    (a' \<and> quiet (Comm s) \<and> quiet (Comm r) \<longrightarrow> XTimeOutProc op r \<noteq> None)"
proof -
  have s0: "sender W 0 s0" "conn [] [] (Comm s0)" "DataLen s0 = int (packet_size opt)"
    using start_sender [OF assms(1,3,4), of opt] assms(5) by auto
  have r0: "rcv 0 [] r0" "xphase r0 = STATE_NORMAL" "conn [] [if sum_only opt' then NAK else cC] (Comm r0)"
    "CheckLen r0 = (if sum_only opt' then 1 else 2)"
    using start_receiver [OF assms(2), of T' opt'] assms(6) by auto
  have b: "(if sum_only opt' then NAK else cC) = (if CheckLen r0 = 1 then NAK else cC)" using r0(4) by simp
  from inv_safe [OF xm_reach_inv [OF assms(7) start_inv [OF s0 r0(1-3) b]]]
  show ?thesis by (simp add: packet_size_def)
qed

end

end
