(* ===== verification/XmodemSerial.thy ===== *)
theory XmodemSerial
  imports XmodemSession
begin

section \<open>XMODEM on the buffers of a serial connection\<close>

text \<open>
  The function table that teraterm/teraterm/filesys_proto.cpp gives the protocols, over the
  buffers of \<open>CommBuff\<close>; it is a \<open>comm_line\<close> on a connection that is not TELNET. The line
  itself is \<open>CommSend\<close> and \<open>CommReceive\<close> (commlib.c) as far as the buffers are concerned, with a
  port that takes and delivers everything.
\<close>

definition FlashReceiveBuf_cv :: "comvar \<Rightarrow> comvar" where
  "FlashReceiveBuf_cv cv = cv\<lparr>InBuffCount := 0, InPtr := 0\<rparr>"

definition CommOpList :: "comvar comm_op" where
  "CommOpList = \<lparr>Read1Byte = CommRead1Byte, BinaryOut = CommBinaryOut, FlashReceiveBuf = FlashReceiveBuf_cv,
     CvReady = Ready\<rparr>"

definition send_out :: "comvar \<Rightarrow> comvar \<times> u8 list" where
  "send_out cv = (cv\<lparr>OutBuffCount := 0, OutPtr := 0\<rparr>, outq cv)"

definition receive_in :: "u8 list \<Rightarrow> comvar \<Rightarrow> comvar option" where
  "receive_in B cv = do { cv \<leftarrow> PackInBuff cv; map_option fst (WriteInBuff B cv) }"

definition buffers_empty :: "comvar \<Rightarrow> bool" where
  "buffers_empty cv \<longleftrightarrow> InBuffCount cv = 0 \<and> OutBuffCount cv = 0"

text \<open>A connection that carries the bytes as they are.\<close>

definition plain_port :: "comvar \<Rightarrow> bool" where
  "plain_port cv \<longleftrightarrow> comm_ok cv \<and> Ready cv \<and> \<not> PortIsTCP cv \<and> \<not> TelFlag cv \<and> \<not> TelMode cv \<and> \<not> IACFlag cv \<and> \<not> TelCRFlag cv"

lemma plain_escape: "\<not> TelFlag cv \<Longrightarrow> tel_escape cv = (\<lambda>b. [b])"
  by (simp add: tel_escape_def fun_eq_iff)

lemma inq_Nil: "comm_ok cv \<Longrightarrow> inq cv = [] \<longleftrightarrow> InBuffCount cv = 0"
  using inq_length [of cv] by auto

lemma outq_Nil: "comm_ok cv \<Longrightarrow> outq cv = [] \<longleftrightarrow> OutBuffCount cv = 0"
  using outq_length [of cv] by auto

lemma binary_one_keeps:
  assumes "comm_ok s" "Ready s" "\<not> TelFlag s" "binary_one b s = Some (t, f)"
  shows "comm_ok t \<and> inq t = inq s \<and> (plain_port s \<longrightarrow> plain_port t) \<and> Ready t \<and> \<not> TelFlag t"
proof (cases "OutBuffSize - OutBuffCount s - 1 \<ge> 0")
  case True
  obtain B n where r: "CommRawOut [b] 1 s = Some (s\<lparr>OutBuff := B, OutBuffCount := OutBuffCount s + min 1 (OutBuffSize - OutBuffCount s), OutPtr := n\<rparr>,
      min 1 (OutBuffSize - OutBuffCount s))" "comm_ok (s\<lparr>OutBuff := B, OutBuffCount := OutBuffCount s + min 1 (OutBuffSize - OutBuffCount s), OutPtr := n\<rparr>)"
    using CommRawOut_append [of s 1 "[b]"] assms(1,2) by auto
  then have "t = s\<lparr>OutBuff := B, OutBuffCount := OutBuffCount s + min 1 (OutBuffSize - OutBuffCount s), OutPtr := n\<rparr>"
    using assms(3,4) True by (simp add: binary_one_def plain_escape Let_def)
  then show ?thesis using r(2) assms by (simp add: plain_port_def inq_def)
next
  case False
  then have "t = s" using assms(3,4) by (simp add: binary_one_def plain_escape Let_def)
  then show ?thesis using assms by simp
qed

lemma send_bytes_keeps:
  "plain_port s \<Longrightarrow> send_bytes binary_one B s = Some (t, i) \<Longrightarrow> plain_port t \<and> inq t = inq s"
proof (induction B arbitrary: s t i)
  case Nil
  then show ?case by simp
next
  case (Cons b B)
  then obtain u f where u: "binary_one b s = Some (u, f)" by (cases "binary_one b s") auto
  then have k: "plain_port u" "inq u = inq s" using binary_one_keeps [of s b u f] Cons.prems(1) by (auto simp: plain_port_def)
  show ?case
  proof (cases f)
    case True
    then obtain j where "send_bytes binary_one B u = Some (t, j)"
      using Cons.prems(2) u by (cases "send_bytes binary_one B u") auto
    then show ?thesis using Cons.IH [OF k(1)] k(2) by auto
  next
    case False
    then show ?thesis using Cons.prems(2) u k by auto
  qed
qed

interpretation serial: comm_line CommOpList send_out receive_in plain_port inq outq OutBuffSize buffers_empty
proof
  fix c assume ok: "plain_port c"
  note o = ok [unfolded plain_port_def]
  show "\<exists>c'. Read1Byte CommOpList c = Some (c', case inq c of [] \<Rightarrow> None | b # _ \<Rightarrow> Some b) \<and>
      plain_port c' \<and> inq c' = tl (inq c) \<and> outq c' = outq c"
  proof -
    obtain p n where g: "CommReadRawByte c = Some (c\<lparr>InPtr := p, InBuffCount := n\<rparr>, case inq c of [] \<Rightarrow> None | b # _ \<Rightarrow> Some b)"
      "comm_ok (c\<lparr>InPtr := p, InBuffCount := n\<rparr>)" "inq (c\<lparr>InPtr := p, InBuffCount := n\<rparr>) = tl (inq c)"
      using CommReadRawByte_get [of c] o by blast
    have "CommRead1Byte c = Some (c\<lparr>InPtr := p, InBuffCount := n\<rparr>, case inq c of [] \<Rightarrow> None | b # _ \<Rightarrow> Some b)"
      using o g(1) by (cases "inq c") (simp_all add: CommRead1Byte_def)
    then show ?thesis using g o by (simp add: CommOpList_def plain_port_def outq_def)
  qed
  show "plain_port (FlashReceiveBuf CommOpList c) \<and> inq (FlashReceiveBuf CommOpList c) = [] \<and> outq (FlashReceiveBuf CommOpList c) = outq c"
    using o by (auto simp: CommOpList_def FlashReceiveBuf_cv_def plain_port_def comm_ok_def inq_def outq_def)
  show "\<exists>c'. send_out c = (c', outq c) \<and> plain_port c' \<and> inq c' = inq c \<and> outq c' = []"
    using o by (auto simp: send_out_def plain_port_def comm_ok_def inq_def outq_def)
  show "buffers_empty c \<longleftrightarrow> inq c = [] \<and> outq c = []"
    using o inq_Nil [of c] outq_Nil [of c] by (simp add: buffers_empty_def)
next
  fix c and B :: "u8 list" assume ok: "plain_port c"
  note o = ok [unfolded plain_port_def]
  obtain t i where t: "CommBinaryOut B c = Some (t, i)" "0 \<le> i" "outq t = outq c @ take (nat i) B"
    "int (length B) \<le> OutBuffSize - OutBuffCount c \<longrightarrow> i = int (length B)"
  proof -
    have "concat (map (tel_escape c) X) = X" for X using o by (simp add: plain_escape)
    then show thesis using that out.send_prefix [of c B] o by (auto simp: CommBinaryOut_def)
  qed
  have "send_bytes binary_one B c = Some (t, i)" using t(1) o by (simp add: CommBinaryOut_def)
  from send_bytes_keeps [OF ok this] show "\<exists>c' i. BinaryOut CommOpList B c = Some (c', i) \<and> plain_port c' \<and> 0 \<le> i \<and> inq c' = inq c \<and>
      outq c' = outq c @ take (nat i) B \<and> (int (length (outq c @ B)) \<le> OutBuffSize \<longrightarrow> i = int (length B))"
    using t outq_length [of c] o by (auto simp: CommOpList_def)
next
  fix c and B :: "u8 list" assume ok: "plain_port c" and e: "inq c = []" and l: "int (length B) \<le> OutBuffSize"
  note o = ok [unfolded plain_port_def]
  have z: "InBuffCount c = 0" using e o inq_Nil [of c] by simp
  then have pk: "PackInBuff c = Some (c\<lparr>InPtr := 0\<rparr>)" by (simp add: PackInBuff_def)
  have c0: "comm_ok (c\<lparr>InPtr := 0\<rparr>)" using o z by (simp add: comm_ok_def)
  obtain b n where w: "WriteInBuff B (c\<lparr>InPtr := 0\<rparr>) = Some (c\<lparr>InPtr := 0, InBuff := b, InBuffCount := n\<rparr>, True)"
    "comm_ok (c\<lparr>InPtr := 0, InBuff := b, InBuffCount := n\<rparr>)" "inq (c\<lparr>InPtr := 0, InBuff := b, InBuffCount := n\<rparr>) = inq (c\<lparr>InPtr := 0\<rparr>) @ B"
    using WriteInBuff_append [OF c0, of B] z l by (auto simp: InBuffSize_def OutBuffSize_def)
  have "inq (c\<lparr>InPtr := 0\<rparr>) = []" using z by (simp add: inq_def)
  then show "\<exists>c'. receive_in B c = Some c' \<and> plain_port c' \<and> inq c' = B \<and> outq c' = outq c"
    using pk w o by (simp add: receive_in_def plain_port_def outq_def)
qed (simp add: OutBuffSize_def)

subsection \<open>Transfers\<close>

text \<open>
  C35. A file of any length up to what \<open>LONG\<close> holds, sent and received with any of the four variants
  at either end over an undisturbed line, is written by the receiver as it was read, the last
  block filled with 0x1A; both ends report success after the number of rounds given, wrapped
  packet numbers included.
\<close>

theorem xmodem_transfer:
  assumes "plain_port cs" "plain_port cr" "outq cs = []" "outq cr = []" "XModemRcvCommand T = []"
    "length W \<le> 0x7FFFFFFF"
  shows "\<exists>s r s' r'. start_end CommOpList T W IdXSend opt cs = Some s \<and>
    start_end CommOpList T' [] IdXReceive opt' cr = Some r \<and>
    exchanges CommOpList send_out receive_in (block_count (packet_size opt) W + 2) (s, r) = Some (s', r') \<and>
    Success s' \<and> Success r' \<and> outfile r' = padded (packet_size opt) W"
  by (rule serial.transfer [of "inq cs" _ "inq cr"]) (use assms in \<open>simp_all add: serial.conn_def\<close>)

definition sample_port :: comvar where
  "sample_port = sample_cv\<lparr>PortIsTCP := False, TelFlag := False\<rparr>"

lemma sample_port_ok: "plain_port sample_port" "outq sample_port = []"
  using sample_cv_ok by (simp_all add: sample_port_def plain_port_def tel_ready_def comm_ok_def outq_def)

definition sample_xset :: xset where
  "sample_xset = \<lparr>XmodemTimeOutInit = 10, XmodemTimeOutInitCRC = 3, XmodemTimeOutShort = 10, XmodemTimeOutLong = 20,
     XmodemTimeOutVLong = 60, XModemRcvCommand = [], PortTCPIP = False\<rparr>"

theorem xmodem_transfer_witness:
  "\<exists>s r s' r'. start_end CommOpList sample_xset [0x41, 0x42] IdXSend XoptCRC sample_port = Some s \<and>
    start_end CommOpList sample_xset [] IdXReceive Xopt1kCksum sample_port = Some r \<and>
    exchanges CommOpList send_out receive_in 3 (s, r) = Some (s', r') \<and>
    Success s' \<and> Success r' \<and> outfile r' = [0x41, 0x42] @ replicate 126 0x1A"
proof -
  have c: "XModemRcvCommand sample_xset = []" by (simp add: sample_xset_def)
  have n: "block_count (packet_size XoptCRC) [0x41, 0x42 :: u8] + 2 = 3"
    "padded (packet_size XoptCRC) [0x41, 0x42] = [0x41, 0x42] @ replicate 126 0x1A"
    by (simp_all add: block_count_def packet_size_def padded_def)
  show ?thesis
    using xmodem_transfer [OF sample_port_ok(1,1,2,2) c, of "[0x41, 0x42]" XoptCRC sample_xset Xopt1kCksum]
    unfolding n by simp
qed

text \<open>
  C36. On a line that may lose any message in either direction, with time-outs at both ends, whatever
  happens: what the receiver has written is the beginning of the file, it reports success only
  when it has the whole file, the sender only when the receiver does, and no step of either end
  leaves its buffers or runs on without end.
\<close>

theorem xmodem_lossy:
  assumes "plain_port cs" "plain_port cr" "outq cs = []" "outq cr = []" "XModemRcvCommand T = []"
    "length W \<le> 0x7FFFFFFF" "start_end CommOpList T W IdXSend opt cs = Some s0"
    "start_end CommOpList T' [] IdXReceive opt' cr = Some r0"
    "xm_reach CommOpList send_out receive_in buffers_empty s0 r0 ((s, a), (r, a'))"
  shows "(\<exists>n. outfile r = take n (padded (packet_size opt) W)) \<and> (Success r \<longrightarrow> outfile r = padded (packet_size opt) W) \<and>
    (Success s \<longrightarrow> Success r) \<and> (a \<longrightarrow> XParse CommOpList s \<noteq> None) \<and> (a' \<longrightarrow> XParse CommOpList r \<noteq> None) \<and>
    (a' \<and> buffers_empty (Comm s) \<and> buffers_empty (Comm r) \<longrightarrow> XTimeOutProc CommOpList r \<noteq> None)"
  by (rule serial.lossy [of "inq cs" cs "inq cr" cr, OF _ _ assms(5-9)]) (use assms in \<open>simp_all add: serial.conn_def\<close>)

lemma sample_start:
  obtains s0 r0 where "start_end CommOpList sample_xset [0x41] IdXSend XoptCRC sample_port = Some s0"
    "start_end CommOpList sample_xset [] IdXReceive XoptCRC sample_port = Some r0"
proof -
  have c: "serial.conn (inq sample_port) [] sample_port" "XModemRcvCommand sample_xset = []"
    using sample_port_ok by (simp_all add: serial.conn_def sample_xset_def)
  show thesis
    using that serial.start_sender [OF c, of "[0x41]" XoptCRC] serial.start_receiver [OF c(1), of sample_xset XoptCRC] by auto
qed

theorem xmodem_lossy_witness:
  "\<exists>s0 r0 c. start_end CommOpList sample_xset [0x41] IdXSend XoptCRC sample_port = Some s0 \<and>
    start_end CommOpList sample_xset [] IdXReceive XoptCRC sample_port = Some r0 \<and>
    xm_reach CommOpList send_out receive_in buffers_empty s0 r0 ((s0, True), (r0\<lparr>Comm := c\<rparr>, True)) \<and>
    c = fst (send_out (Comm r0)) \<and>
    XParse CommOpList s0 \<noteq> None \<and> XParse CommOpList (r0\<lparr>Comm := c\<rparr>) \<noteq> None"
proof -
  obtain s0 r0 where s: "start_end CommOpList sample_xset [0x41] IdXSend XoptCRC sample_port = Some s0"
    "start_end CommOpList sample_xset [] IdXReceive XoptCRC sample_port = Some r0"
    by (rule sample_start)
  define c where "c = fst (send_out (Comm r0))"
  have "send_out (Comm r0) = (c, snd (send_out (Comm r0)))" by (simp add: c_def)
  then have r: "xm_reach CommOpList send_out receive_in buffers_empty s0 r0 ((s0, True), (r0\<lparr>Comm := c\<rparr>, True))"
    by (rule xm_go [OF xm_start answer_lost])
  have m: "XModemRcvCommand sample_xset = []" "length [0x41 :: u8] \<le> 0x7FFFFFFF" by (simp_all add: sample_xset_def)
  from xmodem_lossy [OF sample_port_ok(1,1,2,2) m s r]
  show ?thesis using s r by (intro exI [of _ s0] exI [of _ r0] exI [of _ c]) (simp add: c_def)
qed

text \<open>
  The byte behind a packet is lost: when a packet that was sent twice follows itself, its first
  byte disappears and its number is read as a control byte. Number 4 is EOT, and the receiver
  ends the file with success.
\<close>

lemma packet_swallows_next:
  assumes "serial.conn (mk_packet d (CheckLen r) 4 B @ mk_packet d (CheckLen r) 4 B) [] (Comm r)" "rcv 3 dn r"
    "xphase r = STATE_NORMAL" "d = 128 \<or> d = 1024" "int (length B) = d"
  shows "\<exists>r' r''. XParse CommOpList r = Some (r', True) \<and> XParse CommOpList r' = Some (r'', False) \<and>
    Success r'' \<and> outfile r'' = dn @ B"
proof -
  have four: "(4 :: u8) = of_nat (Suc 3)" by simp
  let ?B = "B @ check_bytes (CheckLen r) B"
  have "serial.conn (header d (of_nat (Suc 3)) @ B @ check_bytes (CheckLen r) B @ header d 4 @ ?B) [] (Comm r)"
    using assms(1) by (simp add: mk_packet_def)
  from serial.recv_good [OF this assms(2-5) refl]
  obtain r' where r': "XParse CommOpList r = Some (r', True)" "xphase r' = STATE_NORMAL"
    "serial.conn (4 # NOT 4 # ?B) [ACK] (Comm r')" "rcv (Suc 3) (dn @ B) r'"
    by (auto simp: header_def)
  have m: "XMode r' = IdXReceive" "PktReadMode r' = XpktSOH" "outfile r' = dn @ B" using r'(4) by (simp_all add: rcv_def)
  obtain c where c: "serial.conn (NOT 4 # ?B) [ACK] c" and st: "serial.pump r' = do {
      (xv, e) \<leftarrow> packet_byte CommOpList 4 (r'\<lparr>Comm := c\<rparr>);
      (case e of
         Return v \<Rightarrow> Some (xv, Return v)
       | Next got \<Rightarrow> if got then map_option (\<lambda>p. (fst p, Next True)) (XRead1Byte CommOpList xv) else serial.pump xv)
    }"
    using serial.pump_byte [OF r'(3)] by blast
  define w where "w = r'\<lparr>Comm := c, Success := True\<rparr>"
  obtain c' where c': "xput CommOpList [ACK] w = Some (w\<lparr>Comm := c'\<rparr>)"
    using serial.put_conn [of "NOT 4 # ?B" "[ACK]" w "[ACK]"] c by (auto simp: w_def OutBuffSize_def)
  have "packet_byte CommOpList 4 (r'\<lparr>Comm := c\<rparr>) = Some (w\<lparr>Comm := c'\<rparr>, Return False)"
    using c' m(2) by (simp add: packet_byte_def packet_start_def SOH_def STX_def EOT_def w_def)
  then have "XParse CommOpList r' = Some (w\<lparr>Comm := c'\<rparr>, False)"
    using st r'(2) m(1) by (simp add: XParse_def serial.XReadPacket_pump)
  then show ?thesis using r'(1) m(3) by (simp add: w_def)
qed

end
