(* ===== verification/SshBuffer.thy ===== *)
theory SshBuffer
  imports TT_Prelude
begin

section \<open>The message buffer of the SSH plugin (ttssh2/ttxssh/buffer.c)\<close>

text \<open>
  A message is built by appending to a block that grows, and taken apart after a rewind. The
  block is the list \<open>buf\<close>, a null pointer the empty list; \<open>offset\<close> is where the next byte is
  read or written, \<open>len\<close> the end of the data and \<open>maxlen\<close> the size of the block. A pointer into
  the block is its distance from the start. \<open>size_t\<close> has the 32 bits of the 32-bit build, so
  that sums wrap as they do there.

  An operation gives \<open>None\<close> when the code leaves a block or goes through a null pointer, and
  otherwise an error of ssherr.h or a value, with the new state. \<open>mem_env\<close> says which
  allocations succeed and what a new block holds. Big numbers, points of elliptic curves and
  compression belong to OpenSSL and zlib: \<open>bn_ops\<close>, \<open>ec_ops\<close> and \<open>z_ops\<close> hold what is called.
\<close>

type_synonym size_t = "32 word"

record sshbuf =
  buf :: "u8 list"
  offset :: size_t
  maxlen :: size_t
  len :: size_t

datatype ssh_err = SSH_ERR_INTERNAL_ERROR | SSH_ERR_ALLOC_FAIL | SSH_ERR_MESSAGE_INCOMPLETE
  | SSH_ERR_INVALID_FORMAT | SSH_ERR_STRING_TOO_LARGE | SSH_ERR_NO_BUFFER_SPACE

record mem_env =
  alloc :: "size_t \<Rightarrow> bool"
  junk :: "nat \<Rightarrow> u8"

definition BUFFER_SIZE_MAX :: size_t where "BUFFER_SIZE_MAX = 0x1000000"
definition BUFFER_INCREASE_MARGIN :: size_t where "BUFFER_INCREASE_MARGIN = 32 * 1024"

subsection \<open>Memory\<close>

definition mem_at :: "u8 list \<Rightarrow> nat \<Rightarrow> nat \<Rightarrow> u8 list option" where
  "mem_at m p n = (if p + n \<le> length m then Some (take n (drop p m)) else None)"

definition mem_put :: "u8 list \<Rightarrow> nat \<Rightarrow> u8 list \<Rightarrow> u8 list option" where
  "mem_put m p d =
     (if p + length d \<le> length m then Some (take p m @ d @ drop (p + length d) m) else None)"

definition resized :: "mem_env \<Rightarrow> u8 list \<Rightarrow> size_t \<Rightarrow> u8 list" where
  "resized E m n = take (unat n) m @ map (junk E) [length m..<unat n]"

definition get_uint32_MSBfirst :: "u8 list \<Rightarrow> u32" where
  "get_uint32_MSBfirst d =
     push_bit 24 (ucast (d ! 0)) + push_bit 16 (ucast (d ! 1)) + push_bit 8 (ucast (d ! 2)) + ucast (d ! 3)"

definition PEEK_U32 :: "u8 list \<Rightarrow> u32" where
  "PEEK_U32 d =
     push_bit 24 (ucast (d ! 0)) OR push_bit 16 (ucast (d ! 1)) OR push_bit 8 (ucast (d ! 2)) OR ucast (d ! 3)"

definition set_uint32_MSBfirst :: "u32 \<Rightarrow> u8 list" where
  "set_uint32_MSBfirst v =
     [ucast (drop_bit 24 v), ucast (drop_bit 16 v), ucast (drop_bit 8 v), ucast v]"

definition POKE_U32 :: "u32 \<Rightarrow> u8 list" where
  "POKE_U32 v =
     [ucast (drop_bit 24 v AND 0xFF), ucast (drop_bit 16 v AND 0xFF), ucast (drop_bit 8 v AND 0xFF),
      ucast (v AND 0xFF)]"

definition set_ushort16_MSBfirst :: "u32 \<Rightarrow> u8 list" where
  "set_ushort16_MSBfirst v = [ucast (drop_bit 8 (ucast v :: u16)), ucast (ucast v :: u16)]"

text \<open>\<open>htonl\<close> and \<open>memcpy\<close> of its result: the bytes of the number, the highest first.\<close>

definition htonl_bytes :: "u32 \<Rightarrow> u8 list" where
  "htonl_bytes v = rev [ucast v, ucast (drop_bit 8 v), ucast (drop_bit 16 v), ucast (drop_bit 24 v)]"

definition memchr0 :: "u8 list \<Rightarrow> nat option" where
  "memchr0 d = (let z = length (takeWhile (\<lambda>b. b \<noteq> 0) d) in if z < length d then Some z else None)"

text \<open>The step \<open>if ((r = ...) != 0) return r\<close>.\<close>

definition on_ok :: "((ssh_err + 'a) \<times> 's) option \<Rightarrow> ('a \<Rightarrow> 's \<Rightarrow> ((ssh_err + 'b) \<times> 's) option)
    \<Rightarrow> ((ssh_err + 'b) \<times> 's) option" where
  "on_ok m f = do { (r, s) \<leftarrow> m; case r of Inl e \<Rightarrow> Some (Inl e, s) | Inr a \<Rightarrow> f a s }"

subsection \<open>The block\<close>

definition buffer_rewind :: "sshbuf \<Rightarrow> sshbuf" where
  "buffer_rewind s = s\<lparr>offset := 0\<rparr>"

definition buffer_clear :: "sshbuf \<Rightarrow> sshbuf" where
  "buffer_clear s = s\<lparr>offset := 0, len := 0\<rparr>"

definition buffer_init :: "mem_env \<Rightarrow> sshbuf option" where
  "buffer_init E =
     (if alloc E 16 \<and> alloc E 4096
      then Some \<lparr>buf = replicate 4096 0, offset = 0, maxlen = 4096, len = 0\<rparr>
      else None)"

definition buffer_len :: "sshbuf \<Rightarrow> int" where
  "buffer_len s = sint (len s)"

definition buffer_remain_len :: "sshbuf \<Rightarrow> int" where
  "buffer_remain_len s = sint (len s - offset s)"

definition buffer_tail_ptr :: "sshbuf \<Rightarrow> nat" where
  "buffer_tail_ptr s = unat (offset s)"

text \<open>What the block holds when it is freed.\<close>

definition buffer_free :: "sshbuf \<Rightarrow> u8 list option" where
  "buffer_free s =
     (if buffer_len s < 0 then None else mem_put (buf s) 0 (replicate (nat (buffer_len s)) 0))"

definition sshbuf_check_sanity :: "sshbuf \<Rightarrow> ssh_err + unit" where
  "sshbuf_check_sanity s =
     (if maxlen s > BUFFER_SIZE_MAX \<or> len s > maxlen s \<or> offset s > len s
      then Inl SSH_ERR_INTERNAL_ERROR else Inr ())"

definition buffer_check_reserve :: "size_t \<Rightarrow> sshbuf \<Rightarrow> ssh_err + unit" where
  "buffer_check_reserve n s =
     (case sshbuf_check_sanity s of
        Inl e \<Rightarrow> Inl e
      | Inr _ \<Rightarrow> if n > BUFFER_SIZE_MAX \<or> BUFFER_SIZE_MAX - n < len s - offset s
                then Inl SSH_ERR_NO_BUFFER_SPACE else Inr ())"

definition buffer_allocate :: "mem_env \<Rightarrow> size_t \<Rightarrow> sshbuf \<Rightarrow> (ssh_err + unit) \<times> sshbuf" where
  "buffer_allocate E n s =
     (case buffer_check_reserve n s of
        Inl e \<Rightarrow> (Inl e, s)
      | Inr _ \<Rightarrow>
          if n + len s \<le> maxlen s then (Inr (), s)
          else
            let need = n + len s - maxlen s;
                rlen = maxlen s + need;
                rlen = (if rlen > BUFFER_SIZE_MAX then maxlen s + need else rlen)
            in if \<not> alloc E rlen then (Inl SSH_ERR_ALLOC_FAIL, s)
               else let s = s\<lparr>maxlen := rlen, buf := resized E (buf s) rlen\<rparr>
                    in (buffer_check_reserve n s, s))"

text \<open>The value is the pointer \<open>*dpp\<close>.\<close>

definition buffer_reserve :: "mem_env \<Rightarrow> size_t \<Rightarrow> sshbuf \<Rightarrow> (ssh_err + nat) \<times> sshbuf" where
  "buffer_reserve E n s =
     (case buffer_allocate E n s of
        (Inl e, s) \<Rightarrow> (Inl e, s)
      | (Inr _, s) \<Rightarrow> (Inr (unat (len s)), s\<lparr>len := len s + n\<rparr>))"

definition buffer_overflow_verify :: "size_t \<Rightarrow> sshbuf \<Rightarrow> bool" where
  "buffer_overflow_verify n s \<longleftrightarrow> \<not> offset s + n > maxlen s"

definition buffer_consume :: "size_t \<Rightarrow> sshbuf \<Rightarrow> (ssh_err + unit) \<times> sshbuf" where
  "buffer_consume n s =
     (if n > len s - offset s then (Inl SSH_ERR_MESSAGE_INCOMPLETE, s)
      else (Inr (), s\<lparr>offset := offset s + n\<rparr>))"

definition buffer_consume_end :: "size_t \<Rightarrow> sshbuf \<Rightarrow> (ssh_err + unit) \<times> sshbuf" where
  "buffer_consume_end n s =
     (if n > len s - offset s then (Inl SSH_ERR_MESSAGE_INCOMPLETE, s)
      else (Inr (), s\<lparr>len := len s - n\<rparr>))"

subsection \<open>Writing\<close>

text \<open>
  \<open>buffer_put\<close> copies \<open>n\<close> bytes from the block \<open>v\<close>. Its loop comes back after every growth. A
  \<open>realloc\<close> that fails leaves a null pointer in the buffer.
\<close>

partial_function (option) buffer_put ::
    "mem_env \<Rightarrow> u8 list \<Rightarrow> size_t \<Rightarrow> sshbuf \<Rightarrow> ((ssh_err + unit) \<times> sshbuf) option" where
  "buffer_put E v n s =
     (if offset s + n < maxlen s
      then do {
        d \<leftarrow> mem_at v 0 (unat n);
        b \<leftarrow> mem_put (buf s) (unat (offset s)) d;
        Some (Inr (), s\<lparr>buf := b, offset := offset s + n, len := offset s + n\<rparr>)
      }
      else
        let newlen = maxlen s + n + BUFFER_INCREASE_MARGIN
        in if newlen > BUFFER_SIZE_MAX then Some (Inl SSH_ERR_NO_BUFFER_SPACE, s)
           else if \<not> alloc E newlen then Some (Inl SSH_ERR_ALLOC_FAIL, s\<lparr>buf := []\<rparr>)
           else buffer_put E v n (s\<lparr>buf := resized E (buf s) newlen, maxlen := newlen\<rparr>))"

text \<open>The result of the first \<open>buffer_put\<close> is overwritten by that of the second.\<close>

definition buffer_put_string ::
    "mem_env \<Rightarrow> u8 list option \<Rightarrow> size_t \<Rightarrow> sshbuf \<Rightarrow> ((ssh_err + unit) \<times> sshbuf) option" where
  "buffer_put_string E v n s =
     do {
       (ret, s) \<leftarrow> buffer_put E (htonl_bytes n) 4 s;
       case v of None \<Rightarrow> Some (ret, s) | Some d \<Rightarrow> buffer_put E d n s
     }"

definition buffer_put_cstring :: "mem_env \<Rightarrow> u8 list \<Rightarrow> sshbuf \<Rightarrow> ((ssh_err + unit) \<times> sshbuf) option" where
  "buffer_put_cstring E v s =
     (case memchr0 v of None \<Rightarrow> None | Some z \<Rightarrow> buffer_put_string E (Some v) (of_nat z) s)"

definition buffer_put_stringb :: "mem_env \<Rightarrow> sshbuf \<Rightarrow> sshbuf \<Rightarrow> ((ssh_err + unit) \<times> sshbuf) option" where
  "buffer_put_stringb E v s =
     buffer_put_string E (if buf v = [] then None else Some (buf v)) (of_int (buffer_len v)) s"

definition buffer_put_char :: "mem_env \<Rightarrow> int \<Rightarrow> sshbuf \<Rightarrow> ((ssh_err + unit) \<times> sshbuf) option" where
  "buffer_put_char E val s = buffer_put E [of_int val] 1 s"

definition buffer_put_int :: "mem_env \<Rightarrow> u32 \<Rightarrow> sshbuf \<Rightarrow> ((ssh_err + unit) \<times> sshbuf) option" where
  "buffer_put_int E val s = buffer_put E (set_uint32_MSBfirst val) 4 s"

subsection \<open>Reading\<close>

definition buffer_get :: "size_t \<Rightarrow> sshbuf \<Rightarrow> ((ssh_err + u8 list) \<times> sshbuf) option" where
  "buffer_get n s =
     (if n > len s - offset s then Some (Inl SSH_ERR_MESSAGE_INCOMPLETE, s)
      else do {
        d \<leftarrow> mem_at (buf s) (unat (offset s)) (unat n);
        Some (Inr d, s\<lparr>offset := offset s + n\<rparr>)
      })"

definition buffer_get_int :: "sshbuf \<Rightarrow> ((ssh_err + u32) \<times> sshbuf) option" where
  "buffer_get_int s = on_ok (buffer_get 4 s) (\<lambda>d s. Some (Inr (get_uint32_MSBfirst d), s))"

definition buffer_get_char :: "sshbuf \<Rightarrow> ((ssh_err + u8) \<times> sshbuf) option" where
  "buffer_get_char s = on_ok (buffer_get 1 s) (\<lambda>d s. Some (Inr (d ! 0), s))"

text \<open>
  \<open>buffer_get_string_internal\<close> gives the new block, if there is one, and the pointer behind what
  it read. The terminating zero goes to \<open>ptr[buflen]\<close> of a block of \<open>buflen + 1\<close> bytes.
\<close>

definition buffer_get_string_internal :: "mem_env \<Rightarrow> u8 list \<Rightarrow> nat \<Rightarrow> (u8 list option \<times> nat) option" where
  "buffer_get_string_internal E m p =
     do {
       d \<leftarrow> mem_at m p 4;
       let buflen = get_uint32_MSBfirst d;
       if \<not> alloc E (buflen + 1) then Some (None, p)
       else do {
         t \<leftarrow> mem_at m (p + 4) (unat buflen);
         t \<leftarrow> mem_put (replicate (unat (buflen + 1)) 0) 0 (t @ [0]);
         Some (Some t, p + 4 + unat buflen)
       }
     }"

definition buffer_get_string_ptr :: "mem_env \<Rightarrow> sshbuf \<Rightarrow> (u8 list option \<times> sshbuf) option" where
  "buffer_get_string_ptr E s =
     (if buffer_remain_len s < 4 then Some (None, s)
      else do {
        d \<leftarrow> mem_at (buf s) (buffer_tail_ptr s) 4;
        if buffer_remain_len s - 4 < sint (get_uint32_MSBfirst d) then Some (None, s)
        else do {
          (t, p) \<leftarrow> buffer_get_string_internal E (buf s) (buffer_tail_ptr s);
          Some (t, s\<lparr>offset := offset s + of_nat (p - buffer_tail_ptr s)\<rparr>)
        }
      })"

text \<open>The value is the pointer \<open>*valp\<close> and \<open>*lenp\<close>.\<close>

definition buffer_peek_string_direct :: "sshbuf \<Rightarrow> (ssh_err + nat \<times> size_t) option" where
  "buffer_peek_string_direct s =
     (let p = buffer_tail_ptr s in
      if buffer_remain_len s < 4 then Some (Inl SSH_ERR_MESSAGE_INCOMPLETE)
      else do {
        d \<leftarrow> mem_at (buf s) p 4;
        let n = PEEK_U32 d;
        Some (if n > BUFFER_SIZE_MAX - 4 then Inl SSH_ERR_STRING_TOO_LARGE
              else if of_int (buffer_remain_len s - 4) < n then Inl SSH_ERR_MESSAGE_INCOMPLETE
              else Inr (p + 4, n))
      })"

definition buffer_get_string_direct :: "sshbuf \<Rightarrow> ((ssh_err + nat \<times> size_t) \<times> sshbuf) option" where
  "buffer_get_string_direct s =
     do {
       r \<leftarrow> buffer_peek_string_direct s;
       case r of
         Inl e \<Rightarrow> Some (Inl e, s)
       | Inr (p, n) \<Rightarrow>
           (case buffer_consume (n + 4) s of
              (Inl _, s) \<Rightarrow> Some (Inl SSH_ERR_INTERNAL_ERROR, s)
            | (Inr _, s) \<Rightarrow> Some (Inr (p, n), s))
     }"

text \<open>The new block with the string and its terminating zero; \<open>want\<close> says that \<open>valp\<close> is not null.\<close>

definition string_block :: "mem_env \<Rightarrow> bool \<Rightarrow> nat \<Rightarrow> size_t \<Rightarrow> sshbuf \<Rightarrow> ((ssh_err + u8 list \<times> size_t) \<times> sshbuf) option" where
  "string_block E want p n s =
     (if \<not> want then Some (Inr ([], n), s)
      else if \<not> alloc E (n + 1) then Some (Inl SSH_ERR_ALLOC_FAIL, s)
      else do {
        t \<leftarrow> mem_at (buf s) p (unat n);
        t \<leftarrow> mem_put (replicate (unat (n + 1)) 0) 0 (t @ [0]);
        Some (Inr (t, n), s)
      })"

definition buffer_get_string :: "mem_env \<Rightarrow> bool \<Rightarrow> sshbuf \<Rightarrow> ((ssh_err + u8 list \<times> size_t) \<times> sshbuf) option" where
  "buffer_get_string E want s =
     on_ok (buffer_get_string_direct s) (\<lambda>(p, n) s. string_block E want p n s)"

definition buffer_get_cstring :: "mem_env \<Rightarrow> bool \<Rightarrow> sshbuf \<Rightarrow> ((ssh_err + u8 list \<times> size_t) \<times> sshbuf) option" where
  "buffer_get_cstring E want s =
     do {
       r \<leftarrow> buffer_peek_string_direct s;
       case r of
         Inl e \<Rightarrow> Some (Inl e, s)
       | Inr (p, n) \<Rightarrow> do {
           d \<leftarrow> mem_at (buf s) p (unat n);
           if n > 0 \<and> (case memchr0 d of None \<Rightarrow> False | Some z \<Rightarrow> z + 1 < unat n)
           then Some (Inl SSH_ERR_INVALID_FORMAT, s)
           else do {
             (r, s) \<leftarrow> buffer_get_string_direct s;
             case r of Inl _ \<Rightarrow> Some (Inl SSH_ERR_INTERNAL_ERROR, s)
                     | Inr _ \<Rightarrow> string_block E want p n s
           }
         }
     }"

text \<open>Both buffers change: the one that is read and the one that receives the string.\<close>

definition buffer_get_stringb :: "mem_env \<Rightarrow> sshbuf \<times> sshbuf \<Rightarrow> ((ssh_err + unit) \<times> (sshbuf \<times> sshbuf)) option" where
  "buffer_get_stringb E st =
     (case st of (s, v) \<Rightarrow>
      do {
        r \<leftarrow> buffer_peek_string_direct s;
        case r of
          Inl e \<Rightarrow> Some (Inl e, (s, v))
        | Inr _ \<Rightarrow> do {
            (r, s) \<leftarrow> buffer_get_int s;
            case r of
              Inl e \<Rightarrow> Some (Inl e, (s, v))
            | Inr n \<Rightarrow>
                (case buffer_reserve E n v of
                   (Inl e, v) \<Rightarrow> Some (Inl e, (s, v))
                 | (Inr p, v) \<Rightarrow> do {
                     (r, s) \<leftarrow> buffer_get n s;
                     case r of
                       Inl e \<Rightarrow> Some (Inl e, (s, v))
                     | Inr d \<Rightarrow> do { b \<leftarrow> mem_put (buf v) p d; Some (Inr (), (s, v\<lparr>buf := b\<rparr>)) }
                   })
          }
      })"

subsection \<open>Big numbers and points of curves\<close>

record 'b bn_ops =
  BN_num_bits :: "'b \<Rightarrow> u32"
  BN_bn2bin :: "'b \<Rightarrow> u8 list"
  BN_bin2bn :: "u8 list \<Rightarrow> 'b"

definition BN_num_bytes :: "'b bn_ops \<Rightarrow> 'b \<Rightarrow> u32" where
  "BN_num_bytes N v = (BN_num_bits N v + 7) div 8"

definition buffer_put_bignum1 :: "'b bn_ops \<Rightarrow> mem_env \<Rightarrow> 'b \<Rightarrow> sshbuf \<Rightarrow> ((ssh_err + unit) \<times> sshbuf) option" where
  "buffer_put_bignum1 N E v s =
     (let bits = BN_num_bits N v; bin_size = (bits + 7) div 8 in
      if \<not> alloc E bin_size then None
      else do {
        d \<leftarrow> mem_put (replicate (unat bin_size) 0) 0 [0];
        d \<leftarrow> mem_put d 0 (BN_bn2bin N v);
        if length (BN_bn2bin N v) \<noteq> unat bin_size then Some (Inl SSH_ERR_INTERNAL_ERROR, s)
        else on_ok (buffer_put E (set_ushort16_MSBfirst bits) 2 s) (\<lambda>_ s. buffer_put E d bin_size s)
      })"

definition buffer_put_bignum2 :: "'b bn_ops \<Rightarrow> mem_env \<Rightarrow> 'b \<Rightarrow> sshbuf \<Rightarrow> ((ssh_err + unit) \<times> sshbuf) option" where
  "buffer_put_bignum2 N E v s =
     (let bytes = BN_num_bytes N v + 1 in
      if \<not> alloc E bytes then None
      else do {
        d \<leftarrow> mem_put (map (junk E) [0..<unat bytes]) 0 [0];
        d \<leftarrow> mem_put d 1 (BN_bn2bin N v);
        b \<leftarrow> rd d 1;
        let hasnohigh = (if b AND 0x80 \<noteq> 0 then 0 else 1);
        buffer_put_string E (Some (drop (unat hasnohigh) d)) (bytes - hasnohigh) s
      })"

text \<open>
  A length that is negative as an \<open>int\<close> is nothing \<open>BN_bin2bn\<close> allows. The pointer that comes
  back is not compared with the end of the data.
\<close>

definition buffer_get_bignum2_internal :: "'b bn_ops \<Rightarrow> u8 list \<Rightarrow> nat \<Rightarrow> ('b \<times> nat) option" where
  "buffer_get_bignum2_internal N m p =
     do {
       d \<leftarrow> mem_at m p 4;
       let n = sint (get_uint32_MSBfirst d);
       if n < 0 then None
       else do {
         t \<leftarrow> mem_at m (p + 4) (nat n);
         Some (BN_bin2bn N t, p + 4 + nat n)
       }
     }"

definition buffer_get_bignum2 :: "'b bn_ops \<Rightarrow> sshbuf \<Rightarrow> ((ssh_err + 'b) \<times> sshbuf) option" where
  "buffer_get_bignum2 N s =
     do {
       (v, p) \<leftarrow> buffer_get_bignum2_internal N (buf s) (buffer_tail_ptr s);
       Some (Inr v, s\<lparr>offset := offset s + of_nat (p - buffer_tail_ptr s)\<rparr>)
     }"

definition buffer_get_bignum_SECSH :: "'b bn_ops \<Rightarrow> mem_env \<Rightarrow> sshbuf \<Rightarrow> ((ssh_err + 'b) \<times> sshbuf) option" where
  "buffer_get_bignum_SECSH N E s =
     on_ok (buffer_get_int s) (\<lambda>bits s.
       let bytes = (bits + 7) div 8 in
       if len s - offset s < bytes then Some (Inl SSH_ERR_NO_BUFFER_SPACE, s)
       else do {
         b \<leftarrow> rd (buf s) (int (unat (offset s)));
         t \<leftarrow> mem_at (buf s) (unat (offset s)) (unat bytes);
         if b AND 0x80 \<noteq> 0
         then (if \<not> alloc E (bytes + 1) then None
               else do {
                 m \<leftarrow> mem_put (map (junk E) [0..<unat (bytes + 1)]) 0 [0];
                 m \<leftarrow> mem_put m 1 t;
                 Some (Inr (BN_bin2bn N m), s\<lparr>offset := offset s + bytes\<rparr>)
               })
         else Some (Inr (BN_bin2bn N t), s\<lparr>offset := offset s + bytes\<rparr>)
       })"

definition buffer_put_bignum2_bytes :: "mem_env \<Rightarrow> u8 list \<Rightarrow> size_t \<Rightarrow> sshbuf \<Rightarrow> ((ssh_err + unit) \<times> sshbuf) option" where
  "buffer_put_bignum2_bytes E v n s =
     (if n > BUFFER_SIZE_MAX - 5 then Some (Inl SSH_ERR_NO_BUFFER_SPACE, s)
      else do {
        v \<leftarrow> mem_at v 0 (unat n);
        let t = dropWhile (\<lambda>b. b = 0) v;
        let n = (of_nat (length t) :: size_t);
        let prepend = (if n > 0 \<and> t ! 0 AND 0x80 \<noteq> 0 then 1 else 0 :: size_t);
        case buffer_reserve E (n + 4 + prepend) s of
          (Inl e, s) \<Rightarrow> Some (Inl e, s)
        | (Inr p, s) \<Rightarrow> do {
            b \<leftarrow> mem_put (buf s) p (POKE_U32 (n + prepend));
            b \<leftarrow> (if prepend = 1 then mem_put b (p + 4) [0] else Some b);
            b \<leftarrow> mem_put b (p + 4 + unat prepend) t;
            Some (Inr (), s\<lparr>buf := b\<rparr>)
          }
      })"

record 'p ec_ops =
  point_size :: "'p \<Rightarrow> size_t"
  EC_POINT_point2oct :: "'p \<Rightarrow> u8 list"
  EC_POINT_oct2point :: "u8 list \<Rightarrow> 'p"

definition buffer_put_ec :: "'p ec_ops \<Rightarrow> mem_env \<Rightarrow> 'p \<Rightarrow> sshbuf \<Rightarrow> ((ssh_err + unit) \<times> sshbuf) option" where
  "buffer_put_ec G E v s =
     (let n = point_size G v in
      if \<not> alloc E n then None
      else if length (EC_POINT_point2oct G v) \<noteq> unat n then Some (Inl SSH_ERR_INTERNAL_ERROR, s)
      else on_ok (buffer_put_string E (Some (EC_POINT_point2oct G v)) n s) (\<lambda>_ s. Some (Inr (), s)))"

definition buffer_get_ec_internal :: "'p ec_ops \<Rightarrow> u8 list \<Rightarrow> nat \<Rightarrow> ('p \<times> nat) option" where
  "buffer_get_ec_internal G m p =
     do {
       d \<leftarrow> mem_at m p 4;
       let n = get_uint32_MSBfirst d;
       t \<leftarrow> mem_at m (p + 4) (unat n);
       Some (EC_POINT_oct2point G t, p + 4 + unat n)
     }"

definition buffer_get_ec :: "'p ec_ops \<Rightarrow> sshbuf \<Rightarrow> ((ssh_err + 'p) \<times> sshbuf) option" where
  "buffer_get_ec G s =
     do {
       (v, p) \<leftarrow> buffer_get_ec_internal G (buf s) (buffer_tail_ptr s);
       Some (Inr v, s\<lparr>offset := offset s + of_nat (p - buffer_tail_ptr s)\<rparr>)
     }"

subsection \<open>Compression\<close>

text \<open>
  One call of \<open>deflate\<close> or \<open>inflate\<close> gives its status and at most \<open>sizeof(buf)\<close> bytes. Both
  functions have the same loop; the second test for \<open>Z_OK\<close> in \<open>buffer_decompress\<close> is never
  reached with \<open>Z_OK\<close>. The result is the return value 0 or -1.
\<close>

datatype z_status = Z_OK | Z_BUF_ERROR | Z_other

record 'z z_ops =
  z_input :: "u8 list \<Rightarrow> 'z \<Rightarrow> 'z"
  deflate :: "'z \<Rightarrow> z_status \<times> u8 list \<times> 'z"
  inflate :: "'z \<Rightarrow> z_status \<times> u8 list \<times> 'z"

partial_function (option) flate_loop ::
    "('z \<Rightarrow> z_status \<times> u8 list \<times> 'z) \<Rightarrow> mem_env \<Rightarrow> 'z \<Rightarrow> sshbuf \<Rightarrow> (bool \<times> 'z \<times> sshbuf) option" where
  "flate_loop f E z s =
     (case f z of (status, out, z) \<Rightarrow>
        if status \<noteq> Z_OK then Some (False, z, s)
        else do {
          (r, s) \<leftarrow> buffer_put E out (of_nat (length out)) s;
          case r of
            Inl _ \<Rightarrow> Some (False, z, s)
          | Inr _ \<Rightarrow> if length out = 4096 then flate_loop f E z s else Some (True, z, s)
        })"

definition buffer_compress :: "'z z_ops \<Rightarrow> mem_env \<Rightarrow> u8 list \<Rightarrow> 'z \<Rightarrow> sshbuf \<Rightarrow> (bool \<times> 'z \<times> sshbuf) option" where
  "buffer_compress Z E payload z s = flate_loop (deflate Z) E (z_input Z payload z) s"

definition buffer_decompress :: "'z z_ops \<Rightarrow> mem_env \<Rightarrow> u8 list \<Rightarrow> 'z \<Rightarrow> sshbuf \<Rightarrow> (bool \<times> 'z \<times> sshbuf) option" where
  "buffer_decompress Z E payload z s = flate_loop (inflate Z) E (z_input Z payload z) s"

end
