(* ===== verification/SshBufferFacts.thy ===== *)
theory SshBufferFacts
  imports SshBuffer
begin

section \<open>What the message buffer promises\<close>

text \<open>
  The buffer as lists: what was written up to \<open>offset\<close>, and what is left to read. Appending is
  shown on every branch. Reading refines a reader of the list of bytes that are left, and so
  stays inside the block whatever it holds. The locale \<open>buffer_codec\<close> is the contract of the
  functions that write and read one field of a message.
\<close>

subsection \<open>Sizes\<close>

lemma size_add: "unat a + unat b < 2 ^ 32 \<Longrightarrow> unat (a + b) = unat a + unat (b :: size_t)"
  by (simp add: unat_add_lem [symmetric])

lemma size_sub: "unat b \<le> unat a \<Longrightarrow> unat (a - b) = unat a - unat (b :: size_t)"
  by (simp add: unat_sub word_le_nat_alt)

lemma size_lt: "unat (a :: size_t) < 2 ^ 32"
  using unsigned_less [of a, where 'a = nat] by simp

lemma unat_max [simp]: "unat BUFFER_SIZE_MAX = 16777216"
  by (simp add: BUFFER_SIZE_MAX_def)

lemma unat_margin [simp]: "unat BUFFER_INCREASE_MARGIN = 32768"
  by (simp add: BUFFER_INCREASE_MARGIN_def)

lemma unat_of_nat_size: "n < 2 ^ 32 \<Longrightarrow> unat (of_nat n :: size_t) = n"
  by (simp add: unat_of_nat take_bit_nat_eq_self)

lemma sint_size: "unat (a :: size_t) < 2 ^ 31 \<Longrightarrow> sint a = int (unat a)"
proof -
  assume "unat a < 2 ^ 31"
  then have "int (unat a) < int (2 ^ 31)" by (simp only: of_nat_less_iff)
  moreover have u: "uint a = int (unat a)" by simp
  ultimately have "uint a < 2 ^ 31" by (simp only: of_nat_power of_nat_numeral)
  then have "signed_take_bit 31 (uint a) = uint a" by (intro signed_take_bit_int_eq_self) (auto intro: order_trans [of _ 0])
  then have "sint a = uint a" by (simp add: sint_uint)
  then show ?thesis by simp
qed

subsection \<open>Memory\<close>

lemma mem_at_in [simp]: "p + n \<le> length m \<Longrightarrow> mem_at m p n = Some (take n (drop p m))"
  by (simp add: mem_at_def)

lemma mem_put_in [simp]:
  "p + length d \<le> length m \<Longrightarrow> mem_put m p d = Some (take p m @ d @ drop (p + length d) m)"
  by (simp add: mem_put_def)

lemma resized_length [simp]: "length m \<le> unat n \<Longrightarrow> length (resized E m n) = unat n"
  by (simp add: resized_def)

lemma resized_take: "k \<le> length m \<Longrightarrow> length m \<le> unat n \<Longrightarrow> take k (resized E m n) = take k m"
  by (simp add: resized_def)

lemma byte_bits: "bit (push_bit k (ucast (b :: u8)) :: u32) n \<longleftrightarrow> k \<le> n \<and> n < 32 \<and> n - k < 8 \<and> bit b (n - k)"
  by (auto simp: bit_push_bit_iff bit_unsigned_iff dest: bit_imp_le_length)

lemma byte_bits0: "bit (ucast (b :: u8) :: u32) n \<longleftrightarrow> n < 8 \<and> bit b n"
  by (auto simp: bit_unsigned_iff dest: bit_imp_le_length)

lemma get_PEEK: "get_uint32_MSBfirst d = PEEK_U32 d"
proof -
  define a :: "nat \<Rightarrow> u32" where "a k = push_bit (8 * k) (ucast (d ! (3 - k)))" for k
  have 1: "a 3 + a 2 = a 3 OR a 2" by (rule disjunctive_add) (auto simp: a_def byte_bits)
  have 2: "(a 3 OR a 2) + a 1 = (a 3 OR a 2) OR a 1"
    by (rule disjunctive_add) (auto simp: a_def byte_bits bit_or_iff)
  have 3: "((a 3 OR a 2) OR a 1) + ucast (d ! 3) = ((a 3 OR a 2) OR a 1) OR ucast (d ! 3)"
    by (rule disjunctive_add) (auto simp: a_def byte_bits byte_bits0 bit_or_iff)
  show ?thesis using 1 2 3 by (simp add: get_uint32_MSBfirst_def PEEK_U32_def a_def or.assoc numeral_2_eq_2)
qed

lemma four_bytes: "n < 32 \<Longrightarrow> n < 8 \<or> (\<exists>k<8. n = 8 + k) \<or> (\<exists>k<8. n = 16 + k) \<or> (\<exists>k<8. n = 24 + (k :: nat))"
  by presburger

lemma PEEK_set: "PEEK_U32 (set_uint32_MSBfirst v @ r) = v"
proof (rule bit_word_eqI)
  fix n assume "n < LENGTH(32)"
  then consider "n < 8" | k where "n = 8 + k" "k < 8" | k where "n = 16 + k" "k < 8"
    | k where "n = 24 + k" "k < 8"
    using four_bytes [of n] by auto
  then show "bit (PEEK_U32 (set_uint32_MSBfirst v @ r)) n \<longleftrightarrow> bit v n"
    by cases (auto simp: PEEK_U32_def set_uint32_MSBfirst_def bit_or_iff byte_bits byte_bits0 bit_unsigned_iff bit_drop_bit_eq)
qed

lemma htonl_set: "htonl_bytes v = set_uint32_MSBfirst v"
  by (simp add: htonl_bytes_def set_uint32_MSBfirst_def)

lemma POKE_set: "POKE_U32 v = set_uint32_MSBfirst v"
proof -
  have "x AND 0xFF = take_bit 8 x" for x :: u32 by (simp add: take_bit_eq_mask mask_eq_exp_minus_1)
  then have "ucast (x AND 0xFF) = (ucast x :: u8)" for x :: u32
    by (auto intro!: bit_word_eqI simp: bit_unsigned_iff bit_take_bit_iff)
  then show ?thesis by (simp add: POKE_U32_def set_uint32_MSBfirst_def)
qed

subsection \<open>The lists behind the buffer\<close>

definition sb_ok :: "sshbuf \<Rightarrow> bool" where
  "sb_ok s \<longleftrightarrow> length (buf s) = unat (maxlen s) \<and> maxlen s \<le> BUFFER_SIZE_MAX \<and> len s \<le> maxlen s
     \<and> offset s \<le> len s"

definition content :: "sshbuf \<Rightarrow> u8 list" where
  "content s = take (unat (len s)) (buf s)"

definition head_bytes :: "sshbuf \<Rightarrow> u8 list" where
  "head_bytes s = take (unat (offset s)) (content s)"

definition unread :: "sshbuf \<Rightarrow> u8 list" where
  "unread s = drop (unat (offset s)) (content s)"

lemma sb_okD:
  assumes "sb_ok s"
  shows "length (buf s) = unat (maxlen s)" "unat (maxlen s) \<le> 16777216" "unat (len s) \<le> unat (maxlen s)"
    "unat (offset s) \<le> unat (len s)"
  using assms by (simp_all add: sb_ok_def word_le_nat_alt)

lemma sb_okI:
  "length (buf s) = unat (maxlen s) \<Longrightarrow> unat (maxlen s) \<le> 16777216 \<Longrightarrow> unat (len s) \<le> unat (maxlen s) \<Longrightarrow>
   unat (offset s) \<le> unat (len s) \<Longrightarrow> sb_ok s"
  by (simp add: sb_ok_def word_le_nat_alt)

lemma sb_ok_rewind [simp]: "sb_ok s \<Longrightarrow> sb_ok (buffer_rewind s)"
  by (simp add: sb_ok_def buffer_rewind_def)

lemma unread_rewind [simp]: "unread (buffer_rewind s) = content s"
  by (simp add: unread_def content_def buffer_rewind_def)

lemma head_clear [simp]: "head_bytes (buffer_clear s) = []" "sb_ok s \<Longrightarrow> sb_ok (buffer_clear s)"
  by (simp_all add: head_bytes_def content_def buffer_clear_def sb_ok_def)

lemma length_head: "sb_ok s \<Longrightarrow> length (head_bytes s) = unat (offset s)"
  using sb_okD [of s] by (simp add: head_bytes_def content_def)

lemma length_unread: "sb_ok s \<Longrightarrow> length (unread s) = unat (len s - offset s)"
  using sb_okD [of s] by (simp add: unread_def content_def size_sub)

lemma head_buf: "sb_ok s \<Longrightarrow> head_bytes s = take (unat (offset s)) (buf s)"
  using sb_okD [of s] by (simp add: head_bytes_def content_def min_def)

subsection \<open>Appending\<close>

text \<open>What a buffer is after \<open>d\<close> was appended at the offset.\<close>

definition appended :: "sshbuf \<Rightarrow> u8 list \<Rightarrow> sshbuf \<Rightarrow> bool" where
  "appended s d t \<longleftrightarrow> sb_ok t \<and> content t = head_bytes s @ d \<and> head_bytes t = content t
     \<and> maxlen s \<le> maxlen t"

definition put_fits :: "size_t \<Rightarrow> sshbuf \<Rightarrow> bool" where
  "put_fits n s \<longleftrightarrow> unat (offset s) + unat n < unat (maxlen s)"

definition grown :: "size_t \<Rightarrow> sshbuf \<Rightarrow> size_t" where
  "grown n s = maxlen s + n + BUFFER_INCREASE_MARGIN"

lemma put_here:
  assumes ok: "sb_ok s" and n: "unat n \<le> length v" and fits: "put_fits n s"
  shows "\<exists>t. buffer_put E v n s = Some (Inr (), t) \<and> appended s (take (unat n) v) t"
proof -
  note b = sb_okD [OF ok]
  have o: "unat (offset s + n) = unat (offset s) + unat n"
    using fits b by (intro size_add) (simp add: put_fits_def)
  let ?d = "take (unat n) v"
  let ?t = "s\<lparr>buf := take (unat (offset s)) (buf s) @ ?d @ drop (unat (offset s) + unat n) (buf s),
    offset := offset s + n, len := offset s + n\<rparr>"
  have ld: "length ?d = unat n" using n by simp
  have "buffer_put E v n s = Some (Inr (), ?t)"
    using fits b o n by (subst buffer_put.simps) (simp add: put_fits_def word_less_nat_alt min_def)
  moreover have "appended s ?d ?t"
    using b fits o ld
    by (auto simp: appended_def put_fits_def content_def head_buf [OF ok] head_bytes_def intro!: sb_okI)
  ultimately show ?thesis by blast
qed

lemma unat_grown:
  assumes "sb_ok s" "unat n \<le> 2 ^ 31"
  shows "unat (grown n s) = unat (maxlen s) + unat n + 32768"
  using sb_okD [OF assms(1)] assms(2) by (simp add: grown_def size_add)

lemma grow_ok:
  fixes E :: mem_env
  assumes ok: "sb_ok s" and n: "unat n \<le> 2 ^ 31" and g: "grown n s \<le> BUFFER_SIZE_MAX"
  defines "t \<equiv> s\<lparr>buf := resized E (buf s) (grown n s), maxlen := grown n s\<rparr>"
  shows "sb_ok t" "put_fits n t" "head_bytes t = head_bytes s" "maxlen s \<le> maxlen t"
proof -
  note b = sb_okD [OF ok] and u = unat_grown [OF ok n]
  have le: "length (buf s) \<le> unat (grown n s)" using b u by simp
  show s: "sb_ok t" using b u le g by (intro sb_okI) (auto simp: t_def word_le_nat_alt)
  show "put_fits n t" using b u by (simp add: put_fits_def t_def)
  show "head_bytes t = head_bytes s"
    using b le by (simp add: head_buf [OF ok] head_buf [OF s]) (simp add: t_def resized_take)
  show "maxlen s \<le> maxlen t" using u by (simp add: t_def word_le_nat_alt)
qed

text \<open>All branches of \<open>buffer_put\<close>.\<close>

definition put_result :: "mem_env \<Rightarrow> u8 list \<Rightarrow> size_t \<Rightarrow> sshbuf \<Rightarrow> (ssh_err + unit) \<times> sshbuf \<Rightarrow> bool" where
  "put_result E v n s rt =
     (case rt of (r, t) \<Rightarrow>
        if put_fits n s \<or> grown n s \<le> BUFFER_SIZE_MAX \<and> alloc E (grown n s)
        then r = Inr () \<and> appended s (take (unat n) v) t
        else if grown n s \<le> BUFFER_SIZE_MAX then r = Inl SSH_ERR_ALLOC_FAIL \<and> t = s\<lparr>buf := []\<rparr>
        else r = Inl SSH_ERR_NO_BUFFER_SPACE \<and> t = s)"

lemma put_cases:
  assumes ok: "sb_ok s" and n: "unat n \<le> length v" "unat n \<le> 2 ^ 31"
  shows "\<exists>rt. buffer_put E v n s = Some rt \<and> put_result E v n s rt"
proof (cases "put_fits n s")
  case True
  then show ?thesis using put_here [OF ok n(1), of E] by (auto simp: put_result_def)
next
  case False
  have nf: "\<not> offset s + n < maxlen s"
    using False sb_okD [OF ok] n by (simp add: put_fits_def word_less_nat_alt size_add)
  show ?thesis
  proof (cases "grown n s \<le> BUFFER_SIZE_MAX \<and> alloc E (grown n s)")
    case True
    let ?t = "s\<lparr>buf := resized E (buf s) (grown n s), maxlen := grown n s\<rparr>"
    note g = grow_ok [OF ok n(2) conjunct1 [OF True], of E]
    have "buffer_put E v n s = buffer_put E v n ?t"
      using nf True by (subst buffer_put.simps) (simp add: grown_def Let_def not_le [symmetric])
    moreover obtain t where "buffer_put E v n ?t = Some (Inr (), t)" "appended ?t (take (unat n) v) t"
      using put_here [of ?t n v E] g n by blast
    moreover have "appended s (take (unat n) v) t"
      using calculation(3) g by (auto simp: appended_def)
    ultimately show ?thesis using True by (auto simp: put_result_def)
  next
    case no: False
    then show ?thesis using nf False
      by (cases "grown n s \<le> BUFFER_SIZE_MAX"; subst buffer_put.simps)
        (simp_all add: put_result_def grown_def Let_def not_le)
  qed
qed

subsection \<open>Reading what is left\<close>

definition advance :: "size_t \<Rightarrow> sshbuf \<Rightarrow> sshbuf" where
  "advance n s = s\<lparr>offset := offset s + n\<rparr>"

lemma mem_unread:
  assumes "sb_ok s" "k + n \<le> length (unread s)"
  shows "mem_at (buf s) (unat (offset s) + k) n = Some (take n (drop k (unread s)))"
proof -
  note b = sb_okD [OF assms(1)]
  have le: "k + n \<le> unat (len s) - unat (offset s)"
    using assms(2) b by (simp add: length_unread [OF assms(1)] size_sub)
  then have "take n (drop k (unread s)) = take n (drop (unat (offset s) + k) (buf s))"
    by (simp add: unread_def content_def drop_take min_def ac_simps)
  moreover have "unat (offset s) + k + n \<le> length (buf s)" using b le by linarith
  ultimately show ?thesis by (simp only: mem_at_in)
qed

lemma advance_ok:
  assumes ok: "sb_ok s" and n: "unat n \<le> length (unread s)"
  shows "sb_ok (advance n s)" "unread (advance n s) = drop (unat n) (unread s)"
    "buf (advance n s) = buf s" "len (advance n s) = len s"
proof -
  note b = sb_okD [OF ok]
  have o: "unat (offset s + n) = unat (offset s) + unat n"
    using n b by (intro size_add) (simp add: length_unread [OF ok] size_sub)
  show "sb_ok (advance n s)"
    using b o n by (intro sb_okI) (simp_all add: advance_def length_unread [OF ok] size_sub)
  show "unread (advance n s) = drop (unat n) (unread s)"
    using o by (simp add: advance_def unread_def content_def ac_simps)
qed (simp_all add: advance_def)

lemma more_than_left: "sb_ok s \<Longrightarrow> n > len s - offset s \<longleftrightarrow> \<not> unat n \<le> length (unread s)"
  by (simp add: length_unread word_less_nat_alt not_le)

lemma get_unread:
  assumes "sb_ok s"
  shows "buffer_get n s =
    Some (if unat n \<le> length (unread s) then (Inr (take (unat n) (unread s)), advance n s)
          else (Inl SSH_ERR_MESSAGE_INCOMPLETE, s))"
  using mem_unread [OF assms, of 0 "unat n"]
  by (auto simp: buffer_get_def more_than_left [OF assms] advance_def)

lemma remain_unread:
  assumes "sb_ok s"
  shows "buffer_remain_len s = int (length (unread s))"
  using sb_okD [OF assms] by (simp add: buffer_remain_len_def length_unread [OF assms] sint_size size_sub)

lemma consume_unread:
  "sb_ok s \<Longrightarrow> buffer_consume n s =
    (if unat n \<le> length (unread s) then (Inr (), advance n s) else (Inl SSH_ERR_MESSAGE_INCOMPLETE, s))"
  by (simp add: buffer_consume_def more_than_left advance_def)

lemma consume_end_unread:
  assumes ok: "sb_ok s" and n: "unat n \<le> length (unread s)"
  shows "buffer_consume_end n s = (Inr (), s\<lparr>len := len s - n\<rparr>)" "sb_ok (s\<lparr>len := len s - n\<rparr>)"
    "unread (s\<lparr>len := len s - n\<rparr>) = take (length (unread s) - unat n) (unread s)"
proof -
  note b = sb_okD [OF ok] and l = length_unread [OF ok]
  have u: "unat (len s - n) = unat (len s) - unat n"
    using n b by (intro size_sub) (simp add: l size_sub)
  show "buffer_consume_end n s = (Inr (), s\<lparr>len := len s - n\<rparr>)"
    using n more_than_left [OF ok, of n] by (simp add: buffer_consume_end_def)
  show "sb_ok (s\<lparr>len := len s - n\<rparr>)" using b n u by (intro sb_okI) (simp_all add: l size_sub)
  show "unread (s\<lparr>len := len s - n\<rparr>) = take (length (unread s) - unat n) (unread s)"
  proof -
    have "unat n \<le> unat (len s) - unat (offset s)" using n b by (simp add: l size_sub)
    then have "unat (len s) - unat n - unat (offset s) = unat (len s) - unat (offset s) - unat n"
      "unat (len s) - unat (offset s) - unat n \<le> unat (len s) - unat (offset s)" by simp_all
    then show ?thesis using b u
      by (simp only: l size_sub) (simp add: unread_def content_def drop_take min_def)
  qed
qed

text \<open>The head of a string: its length, or what is wrong.\<close>

definition string_at :: "u8 list \<Rightarrow> ssh_err + size_t" where
  "string_at u =
     (if length u < 4 then Inl SSH_ERR_MESSAGE_INCOMPLETE
      else if PEEK_U32 u > BUFFER_SIZE_MAX - 4 then Inl SSH_ERR_STRING_TOO_LARGE
      else if length u < 4 + unat (PEEK_U32 u) then Inl SSH_ERR_MESSAGE_INCOMPLETE
      else Inr (PEEK_U32 u))"

lemma PEEK_take: "PEEK_U32 (take 4 u) = PEEK_U32 u"
  by (simp add: PEEK_U32_def)

lemma string_atD:
  assumes "string_at u = Inr n"
  shows "4 + unat n \<le> length u" "unat n \<le> 16777212" "unat (n + 4) = unat n + 4" "n = PEEK_U32 u"
proof -
  have e: "n \<le> BUFFER_SIZE_MAX - 4" "4 + unat n \<le> length u" "n = PEEK_U32 u"
    using assms by (auto simp: string_at_def split: if_splits)
  then show "4 + unat n \<le> length u" "n = PEEK_U32 u" by simp_all
  show m: "unat n \<le> 16777212" using e(1) by (simp add: BUFFER_SIZE_MAX_def word_le_nat_alt)
  then show "unat (n + 4) = unat n + 4" by (simp add: size_add)
qed

lemma peek_unread:
  assumes ok: "sb_ok s"
  shows "buffer_peek_string_direct s =
    Some (case string_at (unread s) of Inl e \<Rightarrow> Inl e | Inr n \<Rightarrow> Inr (unat (offset s) + 4, n))"
proof (cases "length (unread s) < 4")
  case True
  then show ?thesis by (simp add: buffer_peek_string_direct_def remain_unread [OF ok] string_at_def)
next
  case False
  have m: "mem_at (buf s) (unat (offset s)) 4 = Some (take 4 (unread s))"
    using mem_unread [OF ok, of 0 4] False by simp
  have le: "length (unread s) \<le> 16777216"
    using sb_okD [OF ok] by (simp add: length_unread [OF ok] size_sub)
  have "(of_int (int (length (unread s)) - 4) :: u32) = of_nat (length (unread s) - 4)"
    using False by (simp add: of_nat_diff)
  then have "unat (of_int (int (length (unread s)) - 4) :: u32) = length (unread s) - 4"
    using le by (simp add: unat_of_nat_size)
  then have "(of_int (int (length (unread s)) - 4) :: u32) < n \<longleftrightarrow> length (unread s) < 4 + unat n" for n
    using False by (auto simp: word_less_nat_alt)
  then show ?thesis
    using False m by (simp add: buffer_peek_string_direct_def remain_unread [OF ok] string_at_def
        buffer_tail_ptr_def PEEK_take Let_def)
qed

lemma direct_unread:
  assumes ok: "sb_ok s"
  shows "buffer_get_string_direct s =
    Some (case string_at (unread s) of Inl e \<Rightarrow> (Inl e, s)
          | Inr n \<Rightarrow> (Inr (unat (offset s) + 4, n), advance (n + 4) s))"
  using string_atD [of "unread s"]
  by (auto simp: buffer_get_string_direct_def peek_unread [OF ok] consume_unread [OF ok] split: sum.split)

lemma block_unread:
  assumes ok: "sb_ok s" and u: "string_at (unread s) = Inr n" and b: "buf t = buf s"
  shows "string_block E want (unat (offset s) + 4) n t =
    Some (if \<not> want then (Inr ([], n), t)
          else if \<not> alloc E (n + 1) then (Inl SSH_ERR_ALLOC_FAIL, t)
          else (Inr (take (unat n) (drop 4 (unread s)) @ [0], n), t))"
proof -
  note a = string_atD [OF u]
  have m: "mem_at (buf s) (unat (offset s) + 4) (unat n) = Some (take (unat n) (drop 4 (unread s)))"
    using mem_unread [OF ok, of 4 "unat n"] a by simp
  have "unat (n + 1) = unat n + 1" using a by (simp add: size_add)
  moreover have "length (take (unat n) (drop 4 (unread s))) = unat n" using a(1) by simp
  ultimately show ?thesis using m by (simp add: string_block_def b del: length_take)
qed

end
