(* ===== verification/SshMessage.thy ===== *)
theory SshMessage
  imports SshBufferFacts
begin

section \<open>Messages in the buffer of the SSH plugin\<close>

text \<open>
  Runs of reading operations against a reader of the list of bytes, messages as lists of
  fields, big numbers, and what happens where the buffer does not check a length.
\<close>

subsection \<open>Runs of reading operations\<close>

datatype sb_read = RGet size_t | RInt | RChar | RString bool | RCString bool | RSkip | RPeek
  | RConsume size_t | RConsumeEnd size_t

datatype sb_val = VBytes "u8 list" | VInt u32 | VChar u8 | VString "u8 list" size_t | VSize size_t
  | VUnit

definition give :: "('a \<Rightarrow> sb_val) \<Rightarrow> (ssh_err + 'a) \<times> sshbuf \<Rightarrow> (ssh_err + sb_val) \<times> sshbuf" where
  "give f rs = (map_sum id f (fst rs), snd rs)"

definition vstring :: "u8 list \<times> size_t \<Rightarrow> sb_val" where
  "vstring x = VString (fst x) (snd x)"

fun run_read :: "mem_env \<Rightarrow> sb_read \<Rightarrow> sshbuf \<Rightarrow> ((ssh_err + sb_val) \<times> sshbuf) option" where
  "run_read E (RGet n) s = map_option (give VBytes) (buffer_get n s)"
| "run_read E RInt s = map_option (give VInt) (buffer_get_int s)"
| "run_read E RChar s = map_option (give VChar) (buffer_get_char s)"
| "run_read E (RString w) s = map_option (give vstring) (buffer_get_string E w s)"
| "run_read E (RCString w) s = map_option (give vstring) (buffer_get_cstring E w s)"
| "run_read E RSkip s = map_option (give (VSize \<circ> snd)) (buffer_get_string_direct s)"
| "run_read E RPeek s = map_option (\<lambda>r. (map_sum id (VSize \<circ> snd) r, s)) (buffer_peek_string_direct s)"
| "run_read E (RConsume n) s = Some (give (\<lambda>_. VUnit) (buffer_consume n s))"
| "run_read E (RConsumeEnd n) s = Some (give (\<lambda>_. VUnit) (buffer_consume_end n s))"

fun run_reads :: "mem_env \<Rightarrow> sb_read list \<Rightarrow> sshbuf \<Rightarrow> ((ssh_err + sb_val) list \<times> sshbuf) option" where
  "run_reads E [] s = Some ([], s)"
| "run_reads E (op # ops) s =
     do { (r, s) \<leftarrow> run_read E op s; (rs, s) \<leftarrow> run_reads E ops s; Some (r # rs, s) }"

text \<open>The same operations on the list of bytes that are left.\<close>

definition take_bytes :: "nat \<Rightarrow> (u8 list \<Rightarrow> sb_val) \<Rightarrow> u8 list \<Rightarrow> (ssh_err + sb_val) \<times> u8 list" where
  "take_bytes n f u =
     (if n \<le> length u then (Inr (f (take n u)), drop n u) else (Inl SSH_ERR_MESSAGE_INCOMPLETE, u))"

definition string_value :: "mem_env \<Rightarrow> bool \<Rightarrow> size_t \<Rightarrow> u8 list \<Rightarrow> ssh_err + sb_val" where
  "string_value E w n d =
     (if \<not> w then Inr (VString [] n)
      else if \<not> alloc E (n + 1) then Inl SSH_ERR_ALLOC_FAIL else Inr (VString (d @ [0]) n))"

fun read_ref :: "mem_env \<Rightarrow> sb_read \<Rightarrow> u8 list \<Rightarrow> (ssh_err + sb_val) \<times> u8 list" where
  "read_ref E (RGet n) u = take_bytes (unat n) VBytes u"
| "read_ref E RInt u = take_bytes 4 (\<lambda>d. VInt (PEEK_U32 d)) u"
| "read_ref E RChar u = take_bytes 1 (\<lambda>d. VChar (d ! 0)) u"
| "read_ref E (RString w) u =
     (case string_at u of Inl e \<Rightarrow> (Inl e, u)
      | Inr n \<Rightarrow> (string_value E w n (take (unat n) (drop 4 u)), drop (4 + unat n) u))"
| "read_ref E (RCString w) u =
     (case string_at u of Inl e \<Rightarrow> (Inl e, u)
      | Inr n \<Rightarrow> if 0 \<in> set (butlast (take (unat n) (drop 4 u))) then (Inl SSH_ERR_INVALID_FORMAT, u)
                else (string_value E w n (take (unat n) (drop 4 u)), drop (4 + unat n) u))"
| "read_ref E RSkip u =
     (case string_at u of Inl e \<Rightarrow> (Inl e, u) | Inr n \<Rightarrow> (Inr (VSize n), drop (4 + unat n) u))"
| "read_ref E RPeek u = (case string_at u of Inl e \<Rightarrow> (Inl e, u) | Inr n \<Rightarrow> (Inr (VSize n), u))"
| "read_ref E (RConsume n) u = take_bytes (unat n) (\<lambda>_. VUnit) u"
| "read_ref E (RConsumeEnd n) u =
     (if unat n \<le> length u then (Inr VUnit, take (length u - unat n) u)
      else (Inl SSH_ERR_MESSAGE_INCOMPLETE, u))"

fun read_refs :: "mem_env \<Rightarrow> sb_read list \<Rightarrow> u8 list \<Rightarrow> (ssh_err + sb_val) list \<times> u8 list" where
  "read_refs E [] u = ([], u)"
| "read_refs E (op # ops) u =
     (case read_ref E op u of (r, u) \<Rightarrow> case read_refs E ops u of (rs, u) \<Rightarrow> (r # rs, u))"

lemma zero_before_end:
  "(case memchr0 d of None \<Rightarrow> False | Some z \<Rightarrow> z + 1 < length d) \<longleftrightarrow> 0 \<in> set (butlast d)"
proof (induction d)
  case (Cons b d)
  then show ?case by (cases d) (auto simp: memchr0_def Let_def split: if_splits)
qed (simp add: memchr0_def)

text \<open>One operation does to the buffer what the reader does to the list.\<close>

definition reads :: "(ssh_err + sb_val) \<times> u8 list \<Rightarrow> sshbuf \<Rightarrow> ((ssh_err + sb_val) \<times> sshbuf) option \<Rightarrow> bool" where
  "reads x s m \<longleftrightarrow> (\<exists>t. m = Some (fst x, t) \<and> sb_ok t \<and> unread t = snd x \<and> buf t = buf s)"

lemma readsI: "m = Some (fst x, t) \<Longrightarrow> sb_ok t \<Longrightarrow> unread t = snd x \<Longrightarrow> buf t = buf s \<Longrightarrow> reads x s m"
  by (auto simp: reads_def)

lemma reads_here: "m = Some (r, s) \<Longrightarrow> sb_ok s \<Longrightarrow> reads (r, unread s) s m"
  by (auto simp: reads_def)

lemma reads_advance:
  "m = Some (r, advance n s) \<Longrightarrow> sb_ok s \<Longrightarrow> unat n \<le> length (unread s) \<Longrightarrow>
   reads (r, drop (unat n) (unread s)) s m"
  using advance_ok [of s n] by (auto simp: reads_def)

lemma reads_bytes:
  assumes ok: "sb_ok s"
  shows "reads (take_bytes (unat n) f (unread s)) s
    (Some (if unat n \<le> length (unread s) then (Inr (f (take (unat n) (unread s))), advance n s)
           else (Inl SSH_ERR_MESSAGE_INCOMPLETE, s)))"
  using reads_here [OF _ ok] reads_advance [OF _ ok] by (simp add: take_bytes_def)

lemma reads_string:
  assumes ok: "sb_ok s" and n: "string_at (unread s) = Inr n" and m: "m = Some (r, advance (n + 4) s)"
  shows "reads (r, drop (4 + unat n) (unread s)) s m"
proof -
  note d = string_atD [OF n]
  show ?thesis using reads_advance [OF m ok] d(1,3) by (simp add: ac_simps)
qed

lemma get_PEEK_take: "get_uint32_MSBfirst (take 4 u) = PEEK_U32 u"
  by (simp add: get_PEEK PEEK_take)

lemma string_block_advance:
  assumes ok: "sb_ok s" and n: "string_at (unread s) = Inr n"
  shows "map_option (give vstring) (string_block E w (unat (offset s) + 4) n (advance (n + 4) s)) =
    Some (string_value E w n (take (unat n) (drop 4 (unread s))), advance (n + 4) s)"
  using block_unread [OF ok n, of "advance (n + 4) s" E w]
  by (simp add: advance_def give_def vstring_def string_value_def)

lemma read_refines:
  assumes ok: "sb_ok s"
  shows "reads (read_ref E op (unread s)) s (run_read E op s)"
proof (cases op)
  case (RGet n)
  then show ?thesis using reads_bytes [OF ok, of n VBytes]
    by (simp add: get_unread [OF ok] give_def if_distrib cong: if_cong)
next
  case RInt
  then show ?thesis using reads_bytes [OF ok, of 4 "\<lambda>d. VInt (PEEK_U32 d)"]
    by (simp add: get_unread [OF ok] buffer_get_int_def on_ok_def give_def if_distrib get_PEEK cong: if_cong)
next
  case RChar
  then show ?thesis using reads_bytes [OF ok, of 1 "\<lambda>d. VChar (d ! 0)"]
    by (auto simp: get_unread [OF ok] buffer_get_char_def on_ok_def give_def cong: if_cong)
next
  case (RString w)
  show ?thesis
  proof (cases "string_at (unread s)")
    case (Inl e)
    then show ?thesis using RString reads_here [OF refl ok]
      by (simp add: buffer_get_string_def direct_unread [OF ok] on_ok_def give_def)
  next
    case (Inr n)
    show ?thesis using RString Inr reads_string [OF ok Inr string_block_advance [OF ok Inr, of E w]]
      by (simp add: buffer_get_string_def direct_unread [OF ok] on_ok_def)
  qed
next
  case (RCString w)
  show ?thesis
  proof (cases "string_at (unread s)")
    case (Inl e)
    then show ?thesis using RCString reads_here [OF refl ok]
      by (simp add: buffer_get_cstring_def peek_unread [OF ok] give_def)
  next
    case (Inr n)
    note d = string_atD [OF Inr]
    let ?d = "take (unat n) (drop 4 (unread s))"
    have m: "mem_at (buf s) (unat (offset s) + 4) (unat n) = Some ?d"
      using mem_unread [OF ok, of 4 "unat n"] d(1) by simp
    have l: "length ?d = unat n" using d(1) by simp
    have z: "(n > 0 \<and> (case memchr0 ?d of None \<Rightarrow> False | Some z \<Rightarrow> z + 1 < unat n)) \<longleftrightarrow> 0 \<in> set (butlast ?d)"
      using zero_before_end [of ?d] unfolding l by (cases "n = 0") (auto simp: word_neq_0_conv [symmetric])
    show ?thesis
    proof (cases "0 \<in> set (butlast ?d)")
      case True
      then show ?thesis using RCString Inr m z reads_here [OF refl ok]
        by (simp add: buffer_get_cstring_def peek_unread [OF ok] give_def)
    next
      case False
      then show ?thesis
        using RCString Inr m z reads_string [OF ok Inr string_block_advance [OF ok Inr, of E w]]
        by (simp add: buffer_get_cstring_def peek_unread [OF ok] direct_unread [OF ok]) blast
    qed
  qed
next
  case RSkip
  then show ?thesis using reads_here [OF refl ok] reads_string [OF ok]
    by (cases "string_at (unread s)") (simp_all add: direct_unread [OF ok] give_def)
next
  case RPeek
  then show ?thesis using reads_here [OF refl ok]
    by (cases "string_at (unread s)") (simp_all add: peek_unread [OF ok])
next
  case (RConsume n)
  then show ?thesis using reads_bytes [OF ok, of n "\<lambda>_. VUnit"]
    by (auto simp: consume_unread [OF ok] give_def cong: if_cong)
next
  case (RConsumeEnd n)
  show ?thesis
  proof (cases "unat n \<le> length (unread s)")
    case True
    then show ?thesis using RConsumeEnd consume_end_unread [OF ok True]
      by (auto simp: give_def intro!: readsI)
  next
    case False
    then show ?thesis using RConsumeEnd reads_here [OF refl ok] more_than_left [OF ok, of n]
      by (simp add: buffer_consume_end_def give_def)
  qed
qed

lemma run_reads_refine:
  "sb_ok s \<Longrightarrow> \<exists>t. run_reads E ops s = Some (fst (read_refs E ops (unread s)), t) \<and> sb_ok t
     \<and> unread t = snd (read_refs E ops (unread s)) \<and> buf t = buf s"
proof (induction ops arbitrary: s)
  case (Cons op ops)
  obtain t where t: "run_read E op s = Some (fst (read_ref E op (unread s)), t)" "sb_ok t"
    "unread t = snd (read_ref E op (unread s))" "buf t = buf s"
    using read_refines [OF Cons.prems, of E op] by (auto simp: reads_def)
  from Cons.IH [OF t(2)] show ?case using t by (auto simp: split_beta)
qed simp

text \<open>
  C38. Reading a message of any bytes never leaves the block, and refines the reader of lists: each
  operation gives the same value or error, and leaves the same bytes.
\<close>

theorem buffer_reads_refine:
  assumes "sb_ok s"
  shows "\<exists>t. run_reads E ops s = Some (fst (read_refs E ops (unread s)), t) \<and> sb_ok t
     \<and> unread t = snd (read_refs E ops (unread s)) \<and> buf t = buf s"
  using assms by (rule run_reads_refine)

definition sample_env :: mem_env where
  "sample_env = \<lparr>alloc = \<lambda>n. n \<le> 0x1000000, junk = \<lambda>n. of_nat n\<rparr>"

definition sample_buf :: sshbuf where
  "sample_buf = \<lparr>buf = [0, 0, 0, 2, 65, 66, 0, 0, 0, 9, 65, 0], offset = 0, maxlen = 12, len = 11\<rparr>"

lemma sample_buf_ok: "sb_ok sample_buf"
  by (simp add: sb_ok_def sample_buf_def BUFFER_SIZE_MAX_def)

theorem buffer_reads_refine_witness:
  "\<exists>t. run_reads sample_env [RString True, RCString True, RChar] sample_buf =
     Some (fst (read_refs sample_env [RString True, RCString True, RChar] (unread sample_buf)), t) \<and> sb_ok t
     \<and> unread t = snd (read_refs sample_env [RString True, RCString True, RChar] (unread sample_buf))
     \<and> buf t = buf sample_buf"
  by (rule buffer_reads_refine [OF sample_buf_ok])

text \<open>What the reader finds in this message: a string, a string that is cut off, a byte.\<close>

lemma sample_reads:
  "read_refs sample_env [RString True, RCString True, RChar] (unread sample_buf) =
     ([Inr (VString [65, 66, 0] 2), Inl SSH_ERR_MESSAGE_INCOMPLETE, Inr (VChar 0)], [0, 0, 9, 65])"
  by (simp add: sample_buf_def unread_def content_def string_at_def PEEK_U32_def BUFFER_SIZE_MAX_def
      string_value_def sample_env_def take_bytes_def)

subsection \<open>Appending, on every branch\<close>

text \<open>
  C39. \<open>buffer_put\<close> ends and stays inside the block. It appends the bytes at the offset if there is
  room or room can be made, and otherwise reports which of the two limits was met. A failed
  allocation leaves a null pointer.
\<close>

theorem buffer_put_spec:
  assumes "sb_ok s" "unat n \<le> length v" "unat n \<le> 2 ^ 31"
  shows "\<exists>r t. buffer_put E v n s = Some (r, t)
    \<and> (put_fits n s \<or> grown n s \<le> BUFFER_SIZE_MAX \<and> alloc E (grown n s) \<longrightarrow>
         r = Inr () \<and> sb_ok t \<and> content t = head_bytes s @ take (unat n) v \<and> unread t = [])
    \<and> (\<not> put_fits n s \<and> grown n s \<le> BUFFER_SIZE_MAX \<and> \<not> alloc E (grown n s) \<longrightarrow>
         r = Inl SSH_ERR_ALLOC_FAIL \<and> t = s\<lparr>buf := []\<rparr>)
    \<and> (\<not> put_fits n s \<and> BUFFER_SIZE_MAX < grown n s \<longrightarrow> r = Inl SSH_ERR_NO_BUFFER_SPACE \<and> t = s)"
proof -
  obtain r t where "buffer_put E v n s = Some (r, t)" "put_result E v n s (r, t)"
    using put_cases [OF assms, of E] by force
  moreover have "unread t = []" if "appended s d t" for d
    using that length_head [of t] by (simp add: appended_def unread_def)
  ultimately show ?thesis by (auto simp: put_result_def appended_def split: if_splits)
qed

theorem buffer_put_spec_witness:
  "\<exists>r t. buffer_put sample_env [1, 2, 3] 2 sample_buf = Some (r, t) \<and> r = Inr ()
     \<and> content t = [1, 2]"
proof -
  have "put_fits 2 sample_buf" "head_bytes sample_buf = []"
    by (simp_all add: put_fits_def sample_buf_def head_bytes_def)
  then show ?thesis
    using buffer_put_spec [OF sample_buf_ok, of 2 "[1, 2, 3]" sample_env] by auto
qed

end
