(* ===== verification/SshFields.thy ===== *)
theory SshFields
  imports SshMessage
begin

section \<open>Messages as lists of fields\<close>

text \<open>
  A message is written field by field into a cleared buffer and read back after a rewind. The
  locale \<open>buffer_codec\<close> is what this asks of the functions for one field; the fields of the code
  provide it. Then big numbers, and the places where a length is not checked.
\<close>

subsection \<open>The contract of one field\<close>

text \<open>One field after the other, up to the first error.\<close>

fun put_all :: "('f \<Rightarrow> 's \<Rightarrow> ((ssh_err + unit) \<times> 's) option) \<Rightarrow> 'f list \<Rightarrow> 's \<Rightarrow> ((ssh_err + unit) \<times> 's) option" where
  "put_all put [] s = Some (Inr (), s)"
| "put_all put (f # fs) s = on_ok (put f s) (\<lambda>_ s. put_all put fs s)"

fun get_all :: "('k \<Rightarrow> 's \<Rightarrow> ((ssh_err + 'f) \<times> 's) option) \<Rightarrow> 'k list \<Rightarrow> 's \<Rightarrow> ((ssh_err + 'f list) \<times> 's) option" where
  "get_all get [] s = Some (Inr [], s)"
| "get_all get (k # ks) s =
     on_ok (get k s) (\<lambda>f s. on_ok (get_all get ks s) (\<lambda>fs s. Some (Inr (f # fs), s)))"

text \<open>
  \<open>put\<close> appends the bytes \<open>enc f\<close> if the buffer, with \<open>held\<close> written into it, has \<open>room\<close> for
  them; \<open>get\<close> of the kind of \<open>f\<close> takes them from what is \<open>left\<close> and gives \<open>f\<close>.
\<close>

locale buffer_codec =
  fixes enc :: "'f \<Rightarrow> u8 list"
    and kind :: "'f \<Rightarrow> 'k"
    and valid :: "'f \<Rightarrow> bool"
    and memory :: bool
    and room :: "nat \<Rightarrow> bool"
    and put :: "'f \<Rightarrow> 's \<Rightarrow> ((ssh_err + unit) \<times> 's) option"
    and get :: "'k \<Rightarrow> 's \<Rightarrow> ((ssh_err + 'f) \<times> 's) option"
    and writing :: "'s \<Rightarrow> u8 list \<Rightarrow> bool"
    and reading :: "'s \<Rightarrow> u8 list \<Rightarrow> bool"
  assumes room_less: "m \<le> n \<Longrightarrow> room n \<Longrightarrow> room m"
    and put_law: "memory \<Longrightarrow> writing s held \<Longrightarrow> valid f \<Longrightarrow> room (length held + length (enc f)) \<Longrightarrow>
      \<exists>t. put f s = Some (Inr (), t) \<and> writing t (held @ enc f)"
    and get_law: "memory \<Longrightarrow> reading s (enc f @ left) \<Longrightarrow> valid f \<Longrightarrow>
      \<exists>t. get (kind f) s = Some (Inr f, t) \<and> reading t left"
begin

lemma put_message:
  assumes memory
  shows "writing s held \<Longrightarrow> list_all valid fs \<Longrightarrow> room (length held + length (concat (map enc fs))) \<Longrightarrow>
    \<exists>t. put_all put fs s = Some (Inr (), t) \<and> writing t (held @ concat (map enc fs))"
proof (induction fs arbitrary: s held)
  case (Cons f fs)
  have "room (length held + length (enc f))"
    by (rule room_less [OF _ Cons.prems(3)]) simp
  then obtain t where t: "put f s = Some (Inr (), t)" "writing t (held @ enc f)"
    using put_law [OF assms Cons.prems(1), of f] Cons.prems(2) by auto
  have "room (length (held @ enc f) + length (concat (map enc fs)))"
    using Cons.prems(3) by (simp add: add.assoc)
  with Cons.IH [OF t(2)] Cons.prems(2) show ?case by (simp add: t on_ok_def)
qed simp

lemma get_message:
  assumes memory
  shows "reading s (concat (map enc fs) @ left) \<Longrightarrow> list_all valid fs \<Longrightarrow>
    \<exists>t. get_all get (map kind fs) s = Some (Inr fs, t) \<and> reading t left"
proof (induction fs arbitrary: s)
  case (Cons f fs)
  obtain t where t: "get (kind f) s = Some (Inr f, t)" "reading t (concat (map enc fs) @ left)"
    using get_law [OF assms, of s f "concat (map enc fs) @ left"] Cons.prems by auto
  from Cons.IH [OF t(2)] Cons.prems(2) t(1) show ?case by (auto simp: on_ok_def)
qed simp

end

subsection \<open>The fields of the code\<close>

datatype field = FByte u8 | FWord u32 | FString "u8 list" | FText "u8 list"

datatype wire_kind = KByte | KWord | KString | KText

fun field_kind :: "field \<Rightarrow> wire_kind" where
  "field_kind (FByte b) = KByte"
| "field_kind (FWord v) = KWord"
| "field_kind (FString d) = KString"
| "field_kind (FText d) = KText"

definition string_bytes :: "u8 list \<Rightarrow> u8 list" where
  "string_bytes d = set_uint32_MSBfirst (of_nat (length d)) @ d"

fun field_bytes :: "field \<Rightarrow> u8 list" where
  "field_bytes (FByte b) = [b]"
| "field_bytes (FWord v) = set_uint32_MSBfirst v"
| "field_bytes (FString d) = string_bytes d"
| "field_bytes (FText d) = string_bytes d"

fun field_ok :: "field \<Rightarrow> bool" where
  "field_ok (FString d) = (length d \<le> 8388608)"
| "field_ok (FText d) = (length d \<le> 8388608 \<and> 0 \<notin> set d)"
| "field_ok _ = True"

text \<open>A text is a C string, with its zero behind it.\<close>

fun put_field :: "mem_env \<Rightarrow> field \<Rightarrow> sshbuf \<Rightarrow> ((ssh_err + unit) \<times> sshbuf) option" where
  "put_field E (FByte b) s = buffer_put_char E (uint b) s"
| "put_field E (FWord v) s = buffer_put_int E v s"
| "put_field E (FString d) s = buffer_put_string E (Some d) (of_nat (length d)) s"
| "put_field E (FText d) s = buffer_put_cstring E (d @ [0]) s"

fun get_field :: "mem_env \<Rightarrow> wire_kind \<Rightarrow> sshbuf \<Rightarrow> ((ssh_err + field) \<times> sshbuf) option" where
  "get_field E KByte s = on_ok (buffer_get_char s) (\<lambda>b s. Some (Inr (FByte b), s))"
| "get_field E KWord s = on_ok (buffer_get_int s) (\<lambda>v s. Some (Inr (FWord v), s))"
| "get_field E KString s =
     on_ok (buffer_get_string E True s) (\<lambda>x s. Some (Inr (FString (take (unat (snd x)) (fst x))), s))"
| "get_field E KText s =
     on_ok (buffer_get_cstring E True s) (\<lambda>x s. Some (Inr (FText (takeWhile (\<lambda>b. b \<noteq> 0) (fst x))), s))"

definition put_room :: "nat \<Rightarrow> bool" where
  "put_room n \<longleftrightarrow> 2 * n + 32768 \<le> 16777216"

definition writing :: "sshbuf \<Rightarrow> u8 list \<Rightarrow> bool" where
  "writing s d \<longleftrightarrow> sb_ok s \<and> content s = d \<and> head_bytes s = d"

definition reading :: "sshbuf \<Rightarrow> u8 list \<Rightarrow> bool" where
  "reading s d \<longleftrightarrow> sb_ok s \<and> unread s = d"

lemma length_set [simp]: "length (set_uint32_MSBfirst v) = 4"
  by (simp add: set_uint32_MSBfirst_def)

lemma length_string_bytes [simp]: "length (string_bytes d) = 4 + length d"
  by (simp add: string_bytes_def)

lemma put_writes:
  assumes mem: "\<forall>n. alloc E n" and w: "writing s h" and r: "put_room (length h + length d)"
    and v: "unat n = length d" "take (length d) v = d" "length d \<le> length v"
  shows "\<exists>t. buffer_put E v n s = Some (Inr (), t) \<and> writing t (h @ d)"
proof -
  have ok: "sb_ok s" and h: "head_bytes s = h" "unat (offset s) = length h"
    using w length_head [of s] by (auto simp: writing_def)
  have n: "unat n \<le> 2 ^ 31" using r v(1) by (simp add: put_room_def)
  have "put_fits n s \<or> grown n s \<le> BUFFER_SIZE_MAX"
    using r v(1) h(2) by (auto simp: put_fits_def put_room_def word_le_nat_alt unat_grown [OF ok n])
  then have "put_fits n s \<or> grown n s \<le> BUFFER_SIZE_MAX \<and> alloc E (grown n s)" using mem by blast
  moreover obtain r t where "buffer_put E v n s = Some (r, t)" "put_result E v n s (r, t)"
    using put_cases [OF ok _ n, of v E] v by force
  ultimately show ?thesis using v h by (auto simp: put_result_def appended_def writing_def)
qed

lemma room_less: "m \<le> n \<Longrightarrow> put_room n \<Longrightarrow> put_room m"
  by (simp add: put_room_def)

lemma unat_len: "length d \<le> 8388608 \<Longrightarrow> unat (of_nat (length d) :: size_t) = length d"
  by (simp add: unat_of_nat_size)

lemma put_string_writes:
  assumes mem: "\<forall>n. alloc E n" and w: "writing s h" and r: "put_room (length h + length (string_bytes d))"
    and v: "take (length d) v = d" "length d \<le> length v"
  shows "\<exists>t. buffer_put_string E (Some v) (of_nat (length d)) s = Some (Inr (), t) \<and> writing t (h @ string_bytes d)"
proof -
  let ?n = "set_uint32_MSBfirst (of_nat (length d))"
  have l: "length d \<le> 8388608" using r by (simp add: put_room_def)
  have "put_room (length h + length ?n)" using r by (simp add: put_room_def)
  then obtain t where t: "buffer_put E ?n 4 s = Some (Inr (), t)" "writing t (h @ ?n)"
    using put_writes [OF mem w, of ?n 4 ?n] by auto
  have "put_room (length (h @ ?n) + length d)" using r by (simp add: put_room_def)
  then obtain u where "buffer_put E v (of_nat (length d)) t = Some (Inr (), u)" "writing u ((h @ ?n) @ d)"
    using put_writes [OF mem t(2) _ unat_len [OF l] v] by auto
  then show ?thesis using t by (simp add: buffer_put_string_def htonl_set string_bytes_def)
qed

lemma put_field_writes:
  assumes "\<forall>n. alloc E n" "writing s h" "field_ok f" "put_room (length h + length (field_bytes f))"
  shows "\<exists>t. put_field E f s = Some (Inr (), t) \<and> writing t (h @ field_bytes f)"
proof (cases f)
  case (FByte b)
  then show ?thesis using put_writes [OF assms(1,2), of "[b]" 1 "[b]"] assms(4)
    by (simp add: buffer_put_char_def)
next
  case (FWord v)
  then show ?thesis using put_writes [OF assms(1,2), of "set_uint32_MSBfirst v" 4] assms(4)
    by (simp add: buffer_put_int_def)
next
  case (FString d)
  then show ?thesis using put_string_writes [OF assms(1,2), of d d] assms(4) by simp
next
  case (FText d)
  have "takeWhile (\<lambda>b. b \<noteq> 0) (d @ [0]) = d" using assms(3) FText by (subst takeWhile_append2) auto
  then have "memchr0 (d @ [0]) = Some (length d)" by (simp add: memchr0_def)
  then show ?thesis using put_string_writes [OF assms(1,2), of d "d @ [0]"] assms(4) FText
    by (simp add: buffer_put_cstring_def)
qed

lemma string_at_bytes:
  assumes "length d \<le> 8388608"
  shows "string_at (string_bytes d @ r) = Inr (of_nat (length d))"
proof -
  have "PEEK_U32 (string_bytes d @ r) = of_nat (length d)" by (simp add: string_bytes_def PEEK_set)
  moreover have "\<not> of_nat (length d) > BUFFER_SIZE_MAX - 4"
    using unat_len [OF assms] assms by (simp add: word_less_nat_alt BUFFER_SIZE_MAX_def)
  ultimately show ?thesis using unat_len [OF assms] by (simp add: string_at_def)
qed

text \<open>A field is read by an operation of the reader above.\<close>

lemma get_bytes:
  assumes ok: "sb_ok s" and u: "unread s = d @ r" and n: "unat n = length d"
  shows "buffer_get n s = Some (Inr d, advance n s)" "reading (advance n s) r"
  using get_unread [OF ok, of n] advance_ok [OF ok, of n] u n by (simp_all add: reading_def)

lemma get_string_bytes:
  assumes mem: "\<forall>n. alloc E n" and ok: "sb_ok s" and u: "unread s = string_bytes d @ r"
    and d: "length d \<le> 8388608"
  shows "buffer_get_string E True s =
      Some (Inr (d @ [0], of_nat (length d)), advance (of_nat (length d) + 4) s)"
    and "0 \<notin> set d \<Longrightarrow> buffer_get_cstring E True s =
      Some (Inr (d @ [0], of_nat (length d)), advance (of_nat (length d) + 4) s)"
    and "reading (advance (of_nat (length d) + 4) s) r"
proof -
  let ?n = "of_nat (length d) :: size_t"
  have at: "string_at (unread s) = Inr ?n" unfolding u by (rule string_at_bytes [OF d])
  have td: "take (unat ?n) (drop 4 (unread s)) = d" using unat_len [OF d] u by (simp add: string_bytes_def)
  have blk: "string_block E True (unat (offset s) + 4) ?n (advance (?n + 4) s) = Some (Inr (d @ [0], ?n), advance (?n + 4) s)"
    using block_unread [OF ok at, of "advance (?n + 4) s" E True] mem td by (simp add: advance_def)
  show "buffer_get_string E True s = Some (Inr (d @ [0], ?n), advance (?n + 4) s)"
    using blk by (simp add: buffer_get_string_def direct_unread [OF ok] at on_ok_def)
  have m: "mem_at (buf s) (unat (offset s) + 4) (unat ?n) = Some d"
    using mem_unread [OF ok, of 4 "unat ?n"] string_atD(1) [OF at] td by simp
  show "buffer_get_cstring E True s = Some (Inr (d @ [0], ?n), advance (?n + 4) s)" if "0 \<notin> set d"
  proof -
    have "memchr0 d = None" using that by (induction d) (auto simp: memchr0_def Let_def split: if_splits)
    then show ?thesis using blk m by (simp add: buffer_get_cstring_def peek_unread [OF ok] direct_unread [OF ok] at)
  qed
  have "unat (?n + 4) = 4 + length d" using string_atD(3) [OF at] unat_len [OF d] by simp
  then show "reading (advance (?n + 4) s) r"
    using advance_ok [OF ok, of "?n + 4"] u by (simp add: reading_def)
qed

lemma get_field_reads:
  assumes mem: "\<forall>n. alloc E n" and r: "reading s (field_bytes f @ u)" and f: "field_ok f"
  shows "\<exists>t. get_field E (field_kind f) s = Some (Inr f, t) \<and> reading t u"
proof -
  have ok: "sb_ok s" and un: "unread s = field_bytes f @ u" using r by (auto simp: reading_def)
  show ?thesis
  proof (cases f)
    case (FByte b)
    then show ?thesis using get_bytes [OF ok, of "[b]" u 1] un by (simp add: buffer_get_char_def on_ok_def)
  next
    case (FWord v)
    then show ?thesis using get_bytes [OF ok, of "set_uint32_MSBfirst v" u 4] un PEEK_set [of v "[]"]
      by (simp add: buffer_get_int_def on_ok_def get_PEEK)
  next
    case (FString d)
    then show ?thesis using get_string_bytes [OF mem ok, of d u] un f unat_len [of d] by (simp add: on_ok_def)
  next
    case (FText d)
    then have "takeWhile (\<lambda>b. b \<noteq> 0) (d @ [0]) = d" using f by (subst takeWhile_append2) auto
    then show ?thesis using get_string_bytes [OF mem ok, of d u] un f FText by (simp add: on_ok_def)
  qed
qed

interpretation msg: buffer_codec field_bytes field_kind field_ok "\<forall>n. alloc E n" put_room
    "put_field E" "get_field E" writing reading
  for E :: mem_env
  by unfold_locales (simp_all add: room_less put_field_writes get_field_reads)

text \<open>
  C37. A message comes back as it was sent: fields of any number and any contents, as long as twice
  their bytes and one step of growth fit into the largest block.
\<close>

theorem ssh_message_roundtrip:
  assumes "\<forall>n. alloc E n" "sb_ok s" "list_all field_ok fs"
    and "2 * length (concat (map field_bytes fs)) + 32768 \<le> 16777216"
  shows "\<exists>t u. put_all (put_field E) fs (buffer_clear s) = Some (Inr (), t)
    \<and> content t = concat (map field_bytes fs)
    \<and> get_all (get_field E) (map field_kind fs) (buffer_rewind t) = Some (Inr fs, u) \<and> unread u = []"
proof -
  have "writing (buffer_clear s) []"
    using assms(2) by (simp add: writing_def) (simp add: content_def buffer_clear_def)
  then obtain t where t: "put_all (put_field E) fs (buffer_clear s) = Some (Inr (), t)"
      "writing t (concat (map field_bytes fs))"
    using msg.put_message [OF assms(1) _ assms(3)] assms(4) by (force simp: put_room_def)
  have "reading (buffer_rewind t) (concat (map field_bytes fs) @ [])"
    using t(2) by (simp add: reading_def writing_def)
  from msg.get_message [OF assms(1) this assms(3)] t show ?thesis
    by (auto simp: reading_def writing_def)
qed

theorem ssh_message_roundtrip_witness:
  "\<exists>t u. put_all (put_field \<lparr>alloc = \<lambda>_. True, junk = \<lambda>_. 7\<rparr>)
        [FByte 94, FWord 0xFFFFFFFF, FString [0, 1], FText [65]] (buffer_clear sample_buf) = Some (Inr (), t)
    \<and> content t = [94, 255, 255, 255, 255, 0, 0, 0, 2, 0, 1, 0, 0, 0, 1, 65]
    \<and> get_all (get_field \<lparr>alloc = \<lambda>_. True, junk = \<lambda>_. 7\<rparr>) [KByte, KWord, KString, KText] (buffer_rewind t) =
        Some (Inr [FByte 94, FWord 0xFFFFFFFF, FString [0, 1], FText [65]], u) \<and> unread u = []"
proof -
  let ?E = "\<lparr>alloc = \<lambda>_. True, junk = \<lambda>_. 7\<rparr>"
  let ?fs = "[FByte 94, FWord 0xFFFFFFFF, FString [0, 1], FText [65]]"
  have c: "concat (map field_bytes ?fs) = [94, 255, 255, 255, 255, 0, 0, 0, 2, 0, 1, 0, 0, 0, 1, 65]"
    by (simp add: string_bytes_def set_uint32_MSBfirst_def)
  have k: "map field_kind ?fs = [KByte, KWord, KString, KText]" by simp
  show ?thesis
    using ssh_message_roundtrip [of ?E sample_buf ?fs, OF _ sample_buf_ok] unfolding c k by simp
qed

subsection \<open>Big numbers\<close>

text \<open>
  What is used of OpenSSL: \<open>BN_bn2bin\<close> gives \<open>BN_num_bytes\<close> bytes, and \<open>BN_bin2bn\<close> reads them
  back, with or without zeros in front.
\<close>

definition bn_value :: "'b bn_ops \<Rightarrow> 'b \<Rightarrow> bool" where
  "bn_value N v \<longleftrightarrow> length (BN_bn2bin N v) = unat (BN_num_bytes N v)
     \<and> BN_bin2bn N (BN_bn2bin N v) = v \<and> BN_bin2bn N (0 # BN_bn2bin N v) = v"

definition mpint :: "u8 list \<Rightarrow> u8 list" where
  "mpint d = (if hd d AND 0x80 \<noteq> 0 then 0 # d else d)"

lemma put_bignum2_writes:
  assumes mem: "\<forall>n. alloc E n" and w: "writing s h" and v: "bn_value N v"
    and d: "BN_bn2bin N v = d" "d \<noteq> []" and r: "put_room (length h + length d + 5)"
  shows "\<exists>t. buffer_put_bignum2 N E v s = Some (Inr (), t) \<and> writing t (h @ string_bytes (mpint d))"
proof -
  have n: "unat (BN_num_bytes N v) = length d" using v d by (simp add: bn_value_def)
  have l: "length d \<le> 8388608" using r by (simp add: put_room_def)
  have b: "unat (BN_num_bytes N v + 1) = length d + 1" using n l by (simp add: size_add)
  have bw: "BN_num_bytes N v + 1 = of_nat (length d + 1)"
  proof -
    have "unat (of_nat (length d + 1) :: size_t) = length d + 1" by (rule unat_of_nat_size) (use l in simp)
    then show ?thesis using b by (simp only: word_unat_eq_iff)
  qed
  obtain x xs where x: "d = x # xs" using d(2) by (cases d) auto
  have a1: "mem_put (map (junk E) [0..<unat (BN_num_bytes N v + 1)]) 0 [0] =
      Some (0 # map (junk E) [1..<Suc (length d)])"
    unfolding b using x by (simp add: mem_put_def upt_rec [of 0] Suc_le_eq)
  have a2: "mem_put (0 # map (junk E) [1..<Suc (length d)]) 1 d = Some (0 # d)"
    by (simp add: mem_put_def del: upt_Suc)
  have a3: "rd (0 # d) 1 = Some x" using x by (simp add: rd_def in_arr_def)
  note p = put_string_writes [OF mem w, of "mpint d" "mpint d"]
  have "put_room (length h + length (string_bytes (mpint d)))"
    by (rule room_less [OF _ r]) (simp add: mpint_def)
  with p obtain t where "buffer_put_string E (Some (mpint d)) (of_nat (length (mpint d))) s = Some (Inr (), t)"
      "writing t (h @ string_bytes (mpint d))" by auto
  moreover have "buffer_put_bignum2 N E v s = buffer_put_string E (Some (mpint d)) (of_nat (length (mpint d))) s"
    using mem a1 a2 a3 d(1) x bw by (simp add: buffer_put_bignum2_def mpint_def Let_def)
  ultimately show ?thesis by simp
qed

lemma get_bignum2_reads:
  assumes ok: "sb_ok s" and u: "unread s = string_bytes d @ r" and d: "length d \<le> 8388608"
  shows "buffer_get_bignum2 N s = Some (Inr (BN_bin2bn N d), advance (of_nat (length d) + 4) s)"
proof -
  let ?n = "of_nat (length d) :: size_t"
  have at: "string_at (unread s) = Inr ?n" unfolding u by (rule string_at_bytes [OF d])
  note l = unat_len [OF d]
  have h: "mem_at (buf s) (unat (offset s)) 4 = Some (set_uint32_MSBfirst ?n)"
    using mem_unread [OF ok, of 0 4] u by (simp add: string_bytes_def)
  have m: "mem_at (buf s) (unat (offset s) + 4) (length d) = Some d"
    using mem_unread [OF ok, of 4 "length d"] u by (simp add: string_bytes_def)
  have g: "get_uint32_MSBfirst (set_uint32_MSBfirst ?n) = ?n"
    using PEEK_set [of ?n "[]"] by (simp add: get_PEEK)
  have s: "sint ?n = int (length d)" using sint_size [of ?n] l d by simp
  have i: "buffer_get_bignum2_internal N (buf s) (unat (offset s)) =
      Some (BN_bin2bn N d, unat (offset s) + 4 + length d)"
    using h m by (simp add: buffer_get_bignum2_internal_def g s)
  show ?thesis
    by (simp add: buffer_get_bignum2_def buffer_tail_ptr_def i advance_def ac_simps)
qed

text \<open>
  C40. A number other than zero is written as the protocol asks, in its fewest bytes with a zero in
  front if the first bit is set, and \<open>buffer_get_bignum2\<close> reads it back.
\<close>

theorem bignum2_roundtrip:
  assumes "\<forall>n. alloc E n" "sb_ok s" "bn_value N v"
    and "BN_bn2bin N v \<noteq> []" "length (BN_bn2bin N v) \<le> 8000000"
  shows "\<exists>t u. buffer_put_bignum2 N E v (buffer_clear s) = Some (Inr (), t)
    \<and> content t = string_bytes (mpint (BN_bn2bin N v))
    \<and> buffer_get_bignum2 N (buffer_rewind t) = Some (Inr v, u) \<and> sb_ok u \<and> unread u = []"
proof -
  let ?d = "BN_bn2bin N v" and ?m = "mpint (BN_bn2bin N v)"
  have w: "writing (buffer_clear s) []"
    using assms(2) by (simp add: writing_def) (simp add: content_def buffer_clear_def)
  have "put_room (length ([] :: u8 list) + length ?d + 5)" using assms(5) by (simp add: put_room_def)
  then obtain t where t: "buffer_put_bignum2 N E v (buffer_clear s) = Some (Inr (), t)"
      "writing t (string_bytes ?m)"
    using put_bignum2_writes [OF assms(1) w assms(3) refl assms(4)] by auto
  have ok: "sb_ok (buffer_rewind t)" and u: "unread (buffer_rewind t) = string_bytes ?m @ []"
    using t(2) by (simp_all add: writing_def)
  have l: "length ?m \<le> 8388608" using assms(5) by (simp add: mpint_def)
  have "BN_bin2bn N ?m = v" using assms(3) by (simp add: bn_value_def mpint_def)
  moreover have "reading (advance (of_nat (length ?m) + 4) (buffer_rewind t)) []"
    using advance_ok [OF ok, of "of_nat (length ?m) + 4"] u
      string_atD(3) [OF string_at_bytes [OF l]] unat_len [OF l] by (simp add: reading_def)
  ultimately show ?thesis
    using t get_bignum2_reads [OF ok u l, of N] by (auto simp: writing_def reading_def)
qed

text \<open>The library's numbers on small values.\<close>

definition sample_bn :: "nat bn_ops" where
  "sample_bn = \<lparr>BN_num_bits = \<lambda>v. if v < 256 then 8 else 16,
     BN_bn2bin = \<lambda>v. if v < 256 then [of_nat v] else [of_nat (v div 256), of_nat v],
     BN_bin2bn = \<lambda>d. foldl (\<lambda>v b. 256 * v + unat b) 0 d\<rparr>"

theorem bignum2_roundtrip_witness:
  "\<exists>t u. buffer_put_bignum2 sample_bn \<lparr>alloc = \<lambda>_. True, junk = \<lambda>_. 7\<rparr> 0xC001 (buffer_clear sample_buf) = Some (Inr (), t)
    \<and> content t = [0, 0, 0, 3, 0, 0xC0, 1]
    \<and> buffer_get_bignum2 sample_bn (buffer_rewind t) = Some (Inr 0xC001, u) \<and> sb_ok u \<and> unread u = []"
proof -
  have b: "BN_bn2bin sample_bn 0xC001 = [0xC0, 1]" by (simp add: sample_bn_def)
  have v: "bn_value sample_bn 0xC001"
    by (simp add: bn_value_def b) (simp add: sample_bn_def BN_num_bytes_def)
  have m: "string_bytes (mpint [0xC0, 1]) = [0, 0, 0, 3, 0, 0xC0, 1]"
    by (simp add: mpint_def string_bytes_def set_uint32_MSBfirst_def)
  show ?thesis
    using bignum2_roundtrip [of "\<lparr>alloc = \<lambda>_. True, junk = \<lambda>_. 7\<rparr>" sample_buf sample_bn "0xC001", OF _ sample_buf_ok v]
    by (simp add: b m)
qed

subsection \<open>Reserved space\<close>

text \<open>
  \<open>buffer_reserve\<close> moves the end of the data and not the offset, so what is written into the
  reserved bytes is appended to the whole content.
\<close>

lemma reserve_room:
  assumes mem: "\<forall>n. alloc E n" and ok: "sb_ok s" and r: "unat (len s) + unat n \<le> 16777216"
  shows "\<exists>t. buffer_reserve E n s = (Inr (unat (len s)), t) \<and> sb_ok t \<and> offset t = offset s
    \<and> unat (len t) = unat (len s) + unat n \<and> take (unat (len s)) (buf t) = content s"
proof -
  note b = sb_okD [OF ok]
  have u: "unat (len s + n) = unat (len s) + unat n" using r by (intro size_add) simp
  have sane: "sshbuf_check_sanity t = Inr ()" if "sb_ok t" for t
    using that by (simp add: sb_ok_def sshbuf_check_sanity_def not_less)
  have fit: "\<not> (n > BUFFER_SIZE_MAX \<or> BUFFER_SIZE_MAX - n < len s - offset s)"
    using r b by (simp add: word_less_nat_alt size_sub)
  have chk: "buffer_check_reserve n t = Inr ()" if "sb_ok t" "len t = len s" "offset t = offset s" for t
    using fit sane [OF that(1)] that by (simp add: buffer_check_reserve_def)
  show ?thesis
  proof (cases "n + len s \<le> maxlen s")
    case True
    then have "unat (len s) + unat n \<le> unat (maxlen s)" using u by (simp add: word_le_nat_alt add.commute)
    then show ?thesis using chk [OF ok] True b u
      by (auto simp: buffer_reserve_def buffer_allocate_def content_def intro!: sb_okI)
  next
    case False
    define t where "t = s\<lparr>maxlen := len s + n, buf := resized E (buf s) (len s + n)\<rparr>"
    have le: "length (buf s) \<le> unat (len s + n)"
      using False b u by (simp add: word_le_nat_alt add.commute)
    have t: "sb_ok t" using b u r le by (intro sb_okI) (simp_all add: t_def)
    have "buffer_allocate E n s = (Inr (), t)"
      using False mem chk [OF ok] chk [OF t] by (simp add: buffer_allocate_def t_def Let_def ac_simps)
    moreover have "sb_ok (t\<lparr>len := len t + n\<rparr>)"
      using b u r le by (intro sb_okI) (simp_all add: t_def)
    moreover have "take (unat (len s)) (buf t) = content s"
      using b le by (simp add: t_def content_def resized_take)
    ultimately show ?thesis using u by (simp add: buffer_reserve_def t_def)
  qed
qed

lemma fill_reserved:
  assumes "sb_ok t" "unat (len t) = k + length d" "take k (buf t) = c" "length c = k"
  shows "\<exists>m. mem_put (buf t) k d = Some m \<and> length m = length (buf t) \<and> take (unat (len t)) m = c @ d"
  using sb_okD [OF assms(1)] assms(2-4) by (auto simp: min_def)

lemma length_content: "sb_ok s \<Longrightarrow> length (content s) = unat (len s)"
  using sb_okD [of s] by (simp add: content_def)

text \<open>A string goes over from one buffer to another.\<close>

lemma get_stringb_moves:
  assumes mem: "\<forall>n. alloc E n" and ok: "sb_ok s" "sb_ok v" and u: "unread s = string_bytes d @ r"
    and l: "length d \<le> 8388608" "unat (len v) + length d \<le> 16777216"
  shows "\<exists>t w. buffer_get_stringb E (s, v) = Some (Inr (), (t, w)) \<and> reading t r
    \<and> sb_ok w \<and> content w = content v @ d \<and> offset w = offset v"
proof -
  let ?n = "of_nat (length d) :: size_t"
  note n = unat_len [OF l(1)]
  have at: "string_at (unread s) = Inr ?n" unfolding u by (rule string_at_bytes [OF l(1)])
  have "unread s = set_uint32_MSBfirst ?n @ d @ r" using u by (simp add: string_bytes_def)
  note i = get_bytes [OF ok(1) this, of 4]
  have int: "buffer_get_int s = Some (Inr ?n, advance 4 s)"
    using i(1) PEEK_set [of ?n "[]"] by (simp add: buffer_get_int_def on_ok_def get_PEEK)
  have r4: "reading (advance 4 s) (d @ r)" using i(2) by simp
  then have g: "buffer_get ?n (advance 4 s) = Some (Inr d, advance ?n (advance 4 s))"
      "reading (advance ?n (advance 4 s)) r"
    using get_bytes [of "advance 4 s" d r ?n] n by (simp_all add: reading_def)
  obtain w where w: "buffer_reserve E ?n v = (Inr (unat (len v)), w)" "sb_ok w" "offset w = offset v"
      "unat (len w) = unat (len v) + length d" "take (unat (len v)) (buf w) = content v"
    using reserve_room [OF mem ok(2), of ?n] l n by auto
  obtain m where m: "mem_put (buf w) (unat (len v)) d = Some m" "length m = length (buf w)"
      "take (unat (len w)) m = content v @ d"
    using fill_reserved [OF w(2,4,5)] length_content [OF ok(2)] by auto
  have "sb_ok (w\<lparr>buf := m\<rparr>)" using w(2) m(2) by (simp add: sb_ok_def)
  then show ?thesis using w m g int
    by (simp add: buffer_get_stringb_def peek_unread [OF ok(1)] at content_def)
qed

lemma mem_put_append: "mem_put m p a \<bind> (\<lambda>m. mem_put m (p + length a) b) = mem_put m p (a @ b)"
proof (cases "p + length a \<le> length m")
  case True
  then show ?thesis by (cases a) (auto simp: mem_put_def min_def ac_simps)
qed (simp add: mem_put_def)

text \<open>The same encoding from raw bytes, zeros in front left out, appended to what is there.\<close>

lemma put_bignum2_bytes_appends:
  assumes mem: "\<forall>n. alloc E n" and ok: "sb_ok s" and n: "unat n \<le> length v" "unat n \<le> 16777211"
    and x: "x = dropWhile (\<lambda>b. b = 0) (take (unat n) v)" and r: "unat (len s) + length x + 5 \<le> 16777216"
  shows "\<exists>t. buffer_put_bignum2_bytes E v n s = Some (Inr (), t) \<and> sb_ok t \<and> offset t = offset s
    \<and> content t = content s @ string_bytes (if x = [] then [] else mpint x)"
proof -
  let ?k = "of_nat (length x) :: size_t"
  define q :: size_t where "q = (if ?k > 0 \<and> x ! 0 AND 0x80 \<noteq> 0 then 1 else 0)"
  define y where "y = (if x = [] then [] else mpint x)"
  have lx: "length x \<le> unat n" using length_dropWhile_le [of "\<lambda>b. b = 0" "take (unat n) v"] by (simp add: x)
  have k: "unat ?k = length x" using lx n(2) by (intro unat_of_nat_size) simp
  have k0: "?k > 0 \<longleftrightarrow> x \<noteq> []" using k by (simp add: word_less_nat_alt)
  have q1: "unat q \<le> 1" "q = 1 \<or> q = 0" by (auto simp: q_def)
  have y: "y = (if q = 1 then [0] else []) @ x"
    using k0 by (cases x) (auto simp: y_def q_def mpint_def)
  then have ly: "length y = length x + unat q" using q1(2) by auto
  have yk: "of_nat (length y) = ?k + q" using q1(2) by (auto simp: y)
  have m: "unat (?k + 4 + q) = length x + 4 + unat q"
    using k lx n(2) q1 by (simp add: size_add)
  obtain t where t: "buffer_reserve E (?k + 4 + q) s = (Inr (unat (len s)), t)" "sb_ok t" "offset t = offset s"
      "unat (len t) = unat (len s) + length (string_bytes y)" "take (unat (len s)) (buf t) = content s"
    using reserve_room [OF mem ok, of "?k + 4 + q"] r m q1 ly by (auto simp: ac_simps)
  obtain z where z: "mem_put (buf t) (unat (len s)) (string_bytes y) = Some z" "length z = length (buf t)"
      "take (unat (len t)) z = content s @ string_bytes y"
    using fill_reserved [OF t(2,4,5)] length_content [OF ok] by auto
  let ?h = "POKE_U32 (?k + q)"
  have lh: "length (POKE_U32 w) = 4" for w by (simp add: POKE_set)
  have e: "string_bytes y = ?h @ (if q = 1 then [0] else []) @ x"
    by (simp add: string_bytes_def yk POKE_set) (simp add: y)
  have w: "do {
      b \<leftarrow> mem_put (buf t) (unat (len s)) ?h;
      b \<leftarrow> (if q = 1 then mem_put b (unat (len s) + 4) [0] else Some b);
      mem_put b (unat (len s) + 4 + unat q) x } = Some z"
  proof (cases "q = 1")
    case True
    have e1: "string_bytes y = ?h @ [0] @ x" unfolding e using True by simp
    have "mem_put (buf t) (unat (len s)) ?h \<bind> (\<lambda>b. mem_put b (unat (len s) + 4) ([0] @ x)) = Some z"
      using mem_put_append [of "buf t" "unat (len s)" ?h "[0] @ x"] z(1) unfolding e1 lh by (rule trans)
    then obtain b where b: "mem_put (buf t) (unat (len s)) ?h = Some b"
        "mem_put b (unat (len s) + 4) ([0] @ x) = Some z" by (auto simp: bind_eq_Some_conv)
    then have "mem_put b (unat (len s) + 4) [0] \<bind> (\<lambda>b. mem_put b (unat (len s) + 4 + 1) x) = Some z"
      using mem_put_append [of b "unat (len s) + 4" "[0]" x] by (simp only: length_Cons list.size One_nat_def)
    then show ?thesis using b(1) True by simp
  next
    case False
    then show ?thesis
      using z(1) e q1(2) mem_put_append [of "buf t" "unat (len s)" ?h x] by (simp add: lh)
  qed
  have "sb_ok (t\<lparr>buf := z\<rparr>)" using t(2) z(2) by (simp add: sb_ok_def)
  moreover have "\<not> n > BUFFER_SIZE_MAX - 5"
    using n(2) by (simp add: word_less_nat_alt BUFFER_SIZE_MAX_def)
  moreover have "mem_at v 0 (unat n) = Some (take (unat n) v)" using n(1) by simp
  ultimately have "buffer_put_bignum2_bytes E v n s = (do {
      b \<leftarrow> mem_put (buf t) (unat (len s)) ?h;
      b \<leftarrow> (if q = 1 then mem_put b (unat (len s) + 4) [0] else Some b);
      mem_put b (unat (len s) + 4 + unat q) x } \<bind> (\<lambda>b. Some (Inr (), t\<lparr>buf := b\<rparr>)))"
    using t(1) by (simp add: buffer_put_bignum2_bytes_def x [symmetric] q_def [symmetric] Let_def cong: if_cong)
  then have "buffer_put_bignum2_bytes E v n s = Some (Inr (), t\<lparr>buf := z\<rparr>)" unfolding w by simp
  then show ?thesis using \<open>sb_ok (t\<lparr>buf := z\<rparr>)\<close> t(3) z(3) by (simp add: content_def y_def)
qed

subsection \<open>Lengths that are not checked\<close>

text \<open>
  Zero has no bytes: \<open>buffer_put_bignum2\<close> then allocates one byte and looks at the second.
\<close>

lemma put_bignum2_zero:
  assumes "BN_num_bytes N v = 0" "BN_bn2bin N v = []" "alloc E 1"
  shows "buffer_put_bignum2 N E v s = None"
  using assms by (simp add: buffer_put_bignum2_def rd_def in_arr_def Let_def)

text \<open>
  \<open>buffer_get_bignum2\<close> believes the length it finds. If the number would end behind the data it
  takes what is in the block there, and leaves the offset behind the end; if it would end
  behind the block, it reads outside.
\<close>

lemma get_bignum2_past_end:
  assumes ok: "sb_ok s" and u: "PEEK_U32 (unread s) = n" "4 \<le> length (unread s)"
    and n: "unat n < 2 ^ 31" "length (unread s) < 4 + unat n"
  shows "unat (maxlen s) < unat (offset s) + 4 + unat n \<Longrightarrow> buffer_get_bignum2 N s = None"
    and "unat (offset s) + 4 + unat n \<le> unat (maxlen s) \<Longrightarrow>
      \<exists>v t. buffer_get_bignum2 N s = Some (Inr v, t) \<and> len t < offset t \<and> \<not> sb_ok t"
proof -
  note b = sb_okD [OF ok]
  have h: "mem_at (buf s) (unat (offset s)) 4 = Some (take 4 (unread s))"
    using mem_unread [OF ok, of 0 4] u(2) by simp
  have s: "sint n = int (unat n)" using sint_size [OF n(1)] .
  have i: "buffer_get_bignum2_internal N (buf s) (unat (offset s)) =
      do { t \<leftarrow> mem_at (buf s) (unat (offset s) + 4) (unat n);
           Some (BN_bin2bn N t, unat (offset s) + 4 + unat n) }"
    using h u(1) by (simp add: buffer_get_bignum2_internal_def get_PEEK_take s)
  show "buffer_get_bignum2 N s = None" if "unat (maxlen s) < unat (offset s) + 4 + unat n"
    using that b by (simp add: buffer_get_bignum2_def buffer_tail_ptr_def i mem_at_def)
  show "\<exists>v t. buffer_get_bignum2 N s = Some (Inr v, t) \<and> len t < offset t \<and> \<not> sb_ok t"
    if in_block: "unat (offset s) + 4 + unat n \<le> unat (maxlen s)"
  proof -
    let ?t = "s\<lparr>offset := offset s + of_nat (4 + unat n)\<rparr>"
    have f: "unat (of_nat (4 + unat n) :: size_t) = 4 + unat n"
      by (rule unat_of_nat_size) (use in_block b in simp)
    have o: "unat (offset ?t) = unat (offset s) + (4 + unat n)"
      using size_add [of "offset s" "of_nat (4 + unat n)"] f in_block b by simp
    have "len ?t < offset ?t"
      using o n(2) b by (simp add: word_less_nat_alt length_unread [OF ok] size_sub)
    moreover have "\<exists>v. buffer_get_bignum2 N s = Some (Inr v, ?t)"
      using in_block b by (simp add: buffer_get_bignum2_def i buffer_tail_ptr_def)
    ultimately show ?thesis by (auto simp: sb_ok_def not_le)
  qed
qed

text \<open>From then on the check of \<open>buffer_get\<close> lets almost any length pass.\<close>

lemma check_wraps:
  assumes "len s < offset s" "unat (offset s) \<le> 2 ^ 24" "unat n \<le> 2 ^ 31"
  shows "\<not> n > len s - offset s"
proof -
  have "unat (len s) < unat (offset s)" using assms(1) by (simp add: word_less_nat_alt)
  then have "unat (len s - offset s) = unat (len s) + 2 ^ 32 - unat (offset s)"
    by (simp add: unat_sub_if')
  then show ?thesis using assms(2,3) by (simp add: word_less_nat_alt)
qed

text \<open>
  \<open>buffer_put_string\<close> reports the result of its second write only. Near the largest size the
  length of a short string is lost and the string is written without it, with success.
\<close>

lemma put_string_drops_length:
  assumes ok: "sb_ok s" and full: "\<not> put_fits 4 s" "BUFFER_SIZE_MAX < grown 4 s"
    and d: "unat n = length d" "put_fits n s"
  shows "\<exists>t. buffer_put_string E (Some d) n s = Some (Inr (), t) \<and> content t = head_bytes s @ d"
proof -
  obtain r u where "buffer_put E (htonl_bytes n) 4 s = Some (r, u)" "put_result E (htonl_bytes n) 4 s (r, u)"
    using put_cases [OF ok, of 4 "htonl_bytes n" E] by (force simp: htonl_set)
  moreover have "u = s" using calculation(2) full by (auto simp: put_result_def not_le [symmetric] split: if_splits)
  moreover obtain t where "buffer_put E d n s = Some (Inr (), t)" "appended s d t"
    using put_here [OF ok _ d(2), of d E] d(1) by auto
  ultimately show ?thesis by (auto simp: buffer_put_string_def appended_def)
qed

text \<open>
  \<open>buffer_get_string_\<close> compares the length as an \<open>int\<close>. From \<open>2 ^ 31\<close> on it is negative and
  passes, and \<open>memcpy\<close> runs out of the block if the allocation succeeds; for \<open>2 ^ 32 - 1\<close> it is
  an allocation of no bytes.
\<close>

lemma get_string_negative:
  assumes ok: "sb_ok s" and u: "PEEK_U32 (unread s) = n" "4 \<le> length (unread s)"
    and n: "2 ^ 31 \<le> unat n" "alloc E (n + 1)"
  shows "buffer_get_string_ptr E s = None"
proof -
  have h: "mem_at (buf s) (unat (offset s)) 4 = Some (take 4 (unread s))"
    using mem_unread [OF ok, of 0 4] u(2) by simp
  have "unat n div 2 ^ 31 = 1" using n(1) size_lt [of n] by simp
  then have "int (unat n div 2 ^ 31) = 1" by simp
  then have "uint n div 2 ^ 31 = 1" by (simp add: zdiv_int)
  then have "bit (uint n) 31" by (simp add: bit_iff_odd)
  then have s: "sint n < 0" by (simp add: sint_uint signed_take_bit_negative_iff)
  have m: "mem_at (buf s) (unat (offset s) + 4) (unat n) = None"
    using sb_okD [OF ok] n(1) by (simp add: mem_at_def)
  have i: "buffer_get_string_internal E (buf s) (unat (offset s)) = None"
    using h m n(2) u(1) by (simp add: buffer_get_string_internal_def get_PEEK_take)
  show ?thesis
    using u s i h by (simp add: buffer_get_string_ptr_def buffer_tail_ptr_def remain_unread [OF ok] get_PEEK_take)
qed

subsection \<open>Compression\<close>

text \<open>What a run of calls writes: every call but the last fills the local buffer.\<close>

fun z_run :: "('z \<Rightarrow> z_status \<times> u8 list \<times> 'z) \<Rightarrow> 'z \<Rightarrow> u8 list list \<Rightarrow> 'z \<Rightarrow> bool" where
  "z_run f z [] z' = False"
| "z_run f z (d # ds) z' =
     (case f z of (st, out, z1) \<Rightarrow> st = Z_OK \<and> out = d \<and>
        (if ds = [] then length d < 4096 \<and> z1 = z' else length d = 4096 \<and> z_run f z1 ds z'))"

lemma flate_collects:
  assumes mem: "\<forall>n. alloc E n"
  shows "writing s h \<Longrightarrow> z_run f z ds z' \<Longrightarrow> put_room (length h + length (concat ds)) \<Longrightarrow>
    \<exists>t. flate_loop f E z s = Some (True, z', t) \<and> writing t (h @ concat ds)"
proof (induction ds arbitrary: z s h)
  case (Cons d ds)
  obtain z1 where z: "f z = (Z_OK, d, z1)" and l: "length d \<le> 4096"
    and more: "if ds = [] then length d < 4096 \<and> z1 = z' else length d = 4096 \<and> z_run f z1 ds z'"
    using Cons.prems(2) by (cases "f z") (auto split: if_splits)
  have "put_room (length h + length d)" by (rule room_less [OF _ Cons.prems(3)]) simp
  then obtain t where t: "buffer_put E d (of_nat (length d)) s = Some (Inr (), t)" "writing t (h @ d)"
    using put_writes [OF mem Cons.prems(1), of d "of_nat (length d)" d] unat_len [of d] l by auto
  show ?case
  proof (cases "ds = []")
    case True
    then show ?thesis using t more by (subst flate_loop.simps) (simp add: z)
  next
    case False
    then have "z_run f z1 ds z'" "length d = 4096" using more by auto
    moreover have "put_room (length (h @ d) + length (concat ds))" using Cons.prems(3) by (simp add: add.assoc)
    ultimately obtain u where "flate_loop f E z1 t = Some (True, z', u)" "writing u ((h @ d) @ concat ds)"
      using Cons.IH [OF t(2)] by blast
    then show ?thesis using t \<open>length d = 4096\<close> by (subst flate_loop.simps) (simp add: z)
  qed
qed simp

text \<open>
  When the output ends with the local buffer there is nothing left for the next call, for which
  zlib has \<open>Z_BUF_ERROR\<close>: all the data is there, and the function reports an error.
\<close>

lemma decompress_full_buffer:
  assumes mem: "\<forall>n. alloc E n" and w: "writing s h" and r: "put_room (length h + 4096)"
    and z: "inflate Z (z_input Z payload z) = (Z_OK, d, z1)" "length d = 4096" "inflate Z z1 = (Z_BUF_ERROR, [], z2)"
  shows "\<exists>t. buffer_decompress Z E payload z s = Some (False, z2, t) \<and> writing t (h @ d)"
proof -
  obtain t where t: "buffer_put E d (of_nat (length d)) s = Some (Inr (), t)" "writing t (h @ d)"
    using put_writes [OF mem w, of d "of_nat (length d)" d] unat_len [of d] r z(2) by auto
  have "flate_loop (inflate Z) E z1 t = Some (False, z2, t)"
    by (subst flate_loop.simps) (simp add: z)
  then have "flate_loop (inflate Z) E (z_input Z payload z) s = Some (False, z2, t)"
    using t(1) z by (subst flate_loop.simps) simp
  then show ?thesis using t(2) by (simp add: buffer_decompress_def)
qed

end
