(* ===== verification/Spec2Isabelle.thy ===== *)
theory Spec2Isabelle
  imports TT_Prelude CharCell ScreenBuffer ScreenScroll LineCalc ScreenEdit ScreenEditFacts TabStop ScreenStore CommBuff Telnet ScreenPut UniTables UnicodeTab CodeConv Charset CharsetUtf8 ClipText CheckEol VtTerm VtControl VtParam VtSgr VtCsi VtParse VtParamFacts VtCursor VtSgrFacts VtSave VtString Xmodem XmodemFacts XmodemSession XmodemSerial SshBuffer SshBufferFacts SshMessage SshFields
begin

text \<open>
  A verification library for Tera Term, a terminal emulator for Windows: a byte stream from a
  host is decoded, run as the commands of a VT terminal on a buffer of screen cells, and what
  the user types goes back over the connection. The library models the path from the receive
  buffer to the cells, the sending side of TELNET connections, file transfer with XMODEM, and the message
  buffer of the SSH plugin.

  \<^bold>\<open>The program.\<close> The received bytes lie in the input buffer of the connection
  (ttpcmn/ttcmn_buff.c). While a TELNET command is open, \<open>ParseTel\<close> (teraterm/telnet.c) takes
  them; all others are read one by one by \<open>VTParse\<close> (teraterm/vtterm.c). \<open>VTParse\<close> is a state
  machine: its mode says whether a byte is the first of something, or part of an escape
  sequence, a control sequence or a string. First bytes go to \<open>ParseFirst\<close>
  (teraterm/charset.cpp), which decodes the character set of the settings and calls back
  \<open>PutU32\<close> with a character and \<open>ParseControl\<close> with a control code; these call the operations of
  the screen buffer (teraterm/buffer.c), which ask teraterm/unicode.cpp for the properties of
  code points. Escape sequences change the character sets in charset.cpp in return. Answers
  are queued in the output buffer of the connection with the TELNET escapes put in.

  \<^bold>\<open>Theories, from the bottom.\<close>
  \<^item> \<open>TT_Prelude\<close>: machine types, array access that gives \<open>None\<close> outside the array, runs of
    reads and writes, the collection \<open>blit_simps\<close>.
  \<^item> \<open>CharCell\<close>: \<open>buff_char_t\<close> and \<open>BuffSetChar\<close>, \<open>BuffAddChar\<close>, \<open>memcpyW\<close>, \<open>memmoveW\<close>, \<open>memsetW\<close> of buffer.c.
  \<^item> \<open>ScreenBuffer\<close>: the globals of buffer.c and the view variables of vtdisp.c as the record
    \<open>screen\<close>; \<open>GetLinePtr\<close>, \<open>NextLinePtr\<close>, \<open>PrevLinePtr\<close>, \<open>MoveCursor\<close>, \<open>DispScrollNLines\<close> and what
    is around them. The invariant \<open>screen_ok\<close> says where ring, page, cursor, margins and the line
    pointer are. The locale \<open>line_store\<close> is the interface of the loops over lines.
  \<^item> \<open>ScreenScroll\<close>: scrolling, insertion and deletion of lines. \<open>LineCalc\<close>, \<open>ScreenEdit\<close>,
    \<open>ScreenEditFacts\<close>: a small calculus for edits of one line, the editing and erasing
    operations, the locale \<open>line_edit\<close> for the loop over a rectangle, and each operation cell by
    cell. \<open>TabStop\<close>: the array of tab stops as a sorted list. \<open>ScreenStore\<close>: the saved screen,
    reset, and the reallocation of a resize. \<open>ScreenPut\<close>: \<open>BuffPutUnicode\<close> and the URL marking.
  \<^item> \<open>UniTables\<close>, \<open>UnicodeTab\<close>: the tables written out and the searches of unicode.cpp.
    \<open>CodeConv\<close>: common/codeconv.cpp and codeconv_mb.cpp.
  \<^item> \<open>Charset\<close>, \<open>CharsetUtf8\<close>: charset.cpp with its callbacks as a parameter; the locales
    \<open>charset_client\<close> and \<open>total_client\<close> (with an invariant of the client's data) say what a client
    promises. \<open>ClipText\<close>: the client that decodes clipboard text, which interprets both. \<open>CheckEol\<close>: common line ends of files and logs (checkeol.cpp).
  \<^item> \<open>CommBuff\<close>: ttcmn_buff.c; the locale \<open>byte_sink\<close> is the contract of one sending step.
    \<open>Telnet\<close>: telnet.c; the locale \<open>option_side\<close> is the contract of one end of the option
    negotiation, \<open>nego_deliver\<close>, \<open>nego_user\<close> and \<open>nego_reach\<close> are the steps of two ends together.
  \<^item> \<open>VtTerm\<close>, \<open>VtControl\<close>, \<open>VtParam\<close>, \<open>VtSgr\<close>, \<open>VtCsi\<close>, \<open>VtParse\<close>: vtterm.c in its own order. Its
    static variables are the record \<open>vt\<close>, passed with the state of charset.cpp. \<open>VtParamFacts\<close>,
    \<open>VtCursor\<close>, \<open>VtSgrFacts\<close>, \<open>VtSave\<close>, \<open>VtString\<close> hold what is proved of them.
  \<^item> \<open>Xmodem\<close>: teraterm/ttpfile/xmodem.c over the table of functions of a connection, \<open>comm_op\<close>.
    \<open>XmodemFacts\<close>: packets as lists; the locale \<open>comm_port\<close> is the contract of such a table, and
    what every function does is proved in it once. \<open>XmodemSession\<close>: a receiver and a sender
    whose bytes are carried to each other, \<open>exchange\<close>, and the steps \<open>xm_step\<close> of a line that also
    loses messages; the locale \<open>comm_line\<close>. \<open>XmodemSerial\<close>: the table \<open>CommOpList\<close> of
    filesys_proto.cpp over \<open>CommBuff\<close>, which interprets \<open>comm_line\<close>.
  \<^item> \<open>SshBuffer\<close>: ttssh2/ttxssh/buffer.c, with \<open>size_t\<close> as in the 32-bit build. \<open>SshBufferFacts\<close>:
    the buffer as the lists of what was written and what is left to read. \<open>SshMessage\<close>: runs of
    reading operations against a reader of lists. \<open>SshFields\<close>: messages as lists of fields, with
    the locale \<open>buffer_codec\<close> as the contract of one field, big numbers, and the missing checks.

  \<^bold>\<open>How the code is rendered.\<close> Operations thread their state through the option monad. \<open>None\<close>
  is undefined behaviour, an access outside an array, and in some functions a loop without end;
  so a lemma that an operation gives \<open>Some\<close> says that it stays inside its arrays and returns.
  Bytes, code points and bit masks are words. An \<open>int\<close> is a HOL integer where its values are
  bounded by the screen or the buffers, and reduced to 32 bits where the code lets it wrap
  (parameters of control sequences). Functions whose only effect is drawing, a window message
  or memory management are left out of the bodies; calls into other parts with an effect that
  matters (log, macro, printer, bell, defined keys) are recorded in order in the field \<open>calls\<close>.

  \<^bold>\<open>What is shown.\<close>
  \<^item> Screen: scrolling keeps the history in order, lines and cells move exactly as the margins
    say and nothing else changes; the same for every edit of a line or a rectangle; a
    resize keeps the newest lines; the alternate screen comes back as it was.
  \<^item> Connection: what is sent is an escaped prefix of the data, and the other end reads back
    the data; \<open>ParseTel\<close> returns on any input; each end of the negotiation refines the rows of
    RFC 1143 with the one row in which the program departs from them, and two such ends stop after at most seven more commands, agree, and honour
    the last request.
  \<^item> Text: the UTF-8 decoder, which works byte by byte, agrees with a function on the whole
    input; UTF-8 and Shift_JIS round trips; any bytes in any character set keep all
    subscripts in range, for every client that keeps an invariant of its own, the clipboard's among them; the searches in the tables against scans.
  \<^item> Terminal: the parameter arrays refine a list of parameters and read back what a host
    writes, with saturation; the sequences that move the cursor, set margins or restore keep the terminal
    well formed; graphic rendition follows a table of codes on the list of parameters; DECSC and DECRC;
    user keys; device control strings; whole paths from bytes to cursor and to attributes.
  \<^item> File transfer: on an undisturbed line the receiver has written the file, padded to full
    blocks, and both ends report success, for every variant and any length. On a line that
    loses messages no step fails, what is written is always a beginning of the file, and a
    receiver that reports success has written all of it.
  \<^item> SSH messages: a message is read back as it was written, whatever its fields; reading any
    bytes stays inside the block and refines a reader of lists; \<open>buffer_put\<close> on every branch;
    the encoding of big numbers. Where the code does not check a length, what happens then.

  \<^bold>\<open>Loops.\<close> A loop over a range of lines or columns is recursion on its length. Other loops are
  \<open>function\<close>s with a measure (distance to the end of the array, length of the input). The table
  searches halve an interval. Loops that need not end are \<open>partial_function (option)\<close>: the
  retry of \<open>PutU32NoLog\<close> (\<open>put_retry\<close>), which runs forever when a full-width character meets a
  page of one column; \<open>parse_loop\<close> of \<open>VTParse\<close>, which ends when the buffer is empty; and
  \<open>XFlushReceiveBuf\<close>, \<open>packet_loop\<close> and \<open>answer_loop\<close> of xmodem.c, which read until the connection
  has no byte left and are shown to return in \<open>comm_port\<close>; \<open>buffer_put\<close> of ttssh2, which comes
  back after each growth and is shown to return, and \<open>flate_loop\<close>, which runs as long as zlib
  fills its buffer. Three loops count down a bound that the code does not write: \<open>parse_tel_loop\<close> the received bytes there are (each
  round takes one, and \<open>ParseTel_total\<close> shows that the bound is never reached), \<open>next_debug\<close> the
  four debug modes, of which mode 0 always ends it, and \<open>continued_end\<close> the lines of the ring
  (\<open>None\<close> where every line is continued, and the code would not return).

  \<^bold>\<open>Parameters of the model.\<close> The code page conversions of Windows, the success of memory
  allocation (\<open>mem_env\<close> for ttssh2), OpenSSL and zlib (\<open>bn_ops\<close>, \<open>ec_ops\<close>, \<open>z_ops\<close>), the nearest palette colour, and the parts of vtterm.c that belong to the
  printer or to components not modelled are fields of \<open>uni_env\<close>, \<open>code_env\<close>, \<open>vt_ext\<close>,
  \<open>csi_ext\<close> and \<open>str_ext\<close>. A statement that needs something of them says so as a hypothesis.

  \<^bold>\<open>Not modelled.\<close> Drawing (vtdisp.c apart from its view variables), windows, dialogs, menus and
  settings files (vtwin.cpp, ttdlg, ttpset): they are calls of the Windows API. Sockets, serial
  ports and pipes (commlib.c). The Tektronix emulation (ttptek). The file transfer
  protocols other than XMODEM (ttpfile), the macro language (ttpmacro) and the SSH plugin
  (ttssh2) apart from its message buffer. The other plugins (TTX*), the Cygwin tools,
  installers and vendored libraries. Of vtterm.c: setting and resetting modes, private, window and intermediate sequences, mouse reports, OSC strings, the execution of device control strings and the printer controller.
\<close>

end
